(* ===== verification/Arb_Prelude.thy ===== *)
theory Arb_Prelude
  imports Complex_Main "HOL-Library.Word" "HOL-Library.Multiset"
begin

text \<open>
  Shared vocabulary of the development: Rust's machine integers with their saturating and
  checked operations (signed ones as \<open>int\<close> with the range written out), the comparison
  results of \<open>std::cmp::Ordering\<close> with the stable \<open>sort_by\<close>, and the list helpers
  (\<open>contains\<close>, \<open>dedup\<close>, \<open>truncate\<close>) that several components call.
  The collection \<open>word_nat\<close> reads word operations as operations on natural numbers; the
  collection \<open>cmp_simps\<close> evaluates comparators.
\<close>

named_theorems word_nat "reading a word operation through unat"
named_theorems cmp_simps "evaluation of comparison results"

section \<open>Machine integers\<close>

type_synonym u8 = "8 word"
type_synonym u16 = "16 word"
type_synonym u32 = "32 word"
type_synonym u64 = "64 word"
type_synonym u128 = "128 word"
type_synonym u256 = "256 word"

text \<open>An address is 20 bytes, compared bytewise, which is the order of the 160-bit number;
  a hash (\<open>B256\<close>) is 32 bytes.\<close>

type_synonym address = "160 word"
type_synonym b256 = "256 word"

text \<open>Signed integers are \<open>int\<close> values that the operations keep in their range.\<close>

type_synonym i64 = int
type_synonym i128 = int

abbreviation (input) u128_max :: u128 where "u128_max \<equiv> - 1"
abbreviation (input) i128_max :: int where "i128_max \<equiv> 2 ^ 127 - 1"
abbreviation (input) i128_min :: int where "i128_min \<equiv> - (2 ^ 127)"
abbreviation (input) i64_max :: int where "i64_max \<equiv> 2 ^ 63 - 1"
abbreviation (input) i64_min :: int where "i64_min \<equiv> - (2 ^ 63)"

definition sat_add :: "'a::len word \<Rightarrow> 'a word \<Rightarrow> 'a word" where
  "sat_add a b = (if unat a + unat b < 2 ^ LENGTH('a) then a + b else - 1)"

definition sat_sub :: "'a::len word \<Rightarrow> 'a word \<Rightarrow> 'a word" where
  "sat_sub a b = (if b \<le> a then a - b else 0)"

definition sat_mul :: "'a::len word \<Rightarrow> 'a word \<Rightarrow> 'a word" where
  "sat_mul a b = (if unat a * unat b < 2 ^ LENGTH('a) then a * b else - 1)"

definition checked_add :: "'a::len word \<Rightarrow> 'a word \<Rightarrow> 'a word option" where
  "checked_add a b = (if unat a + unat b < 2 ^ LENGTH('a) then Some (a + b) else None)"

definition checked_sub :: "'a::len word \<Rightarrow> 'a word \<Rightarrow> 'a word option" where
  "checked_sub a b = (if b \<le> a then Some (a - b) else None)"

definition checked_mul :: "'a::len word \<Rightarrow> 'a word \<Rightarrow> 'a word option" where
  "checked_mul a b = (if unat a * unat b < 2 ^ LENGTH('a) then Some (a * b) else None)"

definition checked_div :: "'a::len word \<Rightarrow> 'a word \<Rightarrow> 'a word option" where
  "checked_div a b = (if b = 0 then None else Some (a div b))"

lemma unat_max_word: "unat (- 1 :: 'a::len word) = 2 ^ LENGTH('a) - 1"
  by (simp add: unsigned_minus_1_eq_mask mask_eq_exp_minus_1)

lemma unat_lt_size: "unat (a :: 'a::len word) < 2 ^ LENGTH('a)"
  by (rule unsigned_less)

lemma unat_le_max: "unat (a :: 'a::len word) \<le> 2 ^ LENGTH('a) - 1"
  using unat_lt_size [of a] by linarith

lemma unat_sat_add [word_nat]:
  "unat (sat_add a b :: 'a::len word) = min (unat a + unat b) (2 ^ LENGTH('a) - 1)"
  by (auto simp: sat_add_def unat_max_word unat_add_lem [THEN iffD1])

lemma unat_sat_sub [word_nat]: "unat (sat_sub a b) = unat a - unat b"
  by (auto simp: sat_sub_def unat_sub word_le_nat_alt)

lemma unat_sat_mul [word_nat]:
  "unat (sat_mul a b :: 'a::len word) = min (unat a * unat b) (2 ^ LENGTH('a) - 1)"
  by (auto simp: sat_mul_def unat_max_word unat_mult_lem [THEN iffD1])

lemma unat_min_word [word_nat]: "unat (min a b) = min (unat a) (unat b)"
  by (simp add: min_def word_le_nat_alt)

lemma unat_max_of_words [word_nat]: "unat (max a b) = max (unat a) (unat b)"
  by (simp add: max_def word_le_nat_alt)

lemmas word_nat_le [word_nat] = word_le_nat_alt
lemmas word_nat_less [word_nat] = word_less_nat_alt
lemmas word_nat_div [word_nat] = unat_div_distrib

lemma checked_add_Some: "checked_add a b = Some c \<longleftrightarrow> unat c = unat a + unat b"
proof
  assume "checked_add a b = Some c"
  then show "unat c = unat a + unat b"
    by (auto simp: checked_add_def unat_add_lem [THEN iffD1] split: if_splits)
next
  assume c: "unat c = unat a + unat b"
  then have "unat a + unat b < 2 ^ LENGTH('a)" using unat_lt_size [of c] by simp
  then show "checked_add a b = Some c"
    using c by (simp add: checked_add_def word_unat_eq_iff unat_add_lem [THEN iffD1])
qed

lemma checked_sub_Some: "checked_sub a b = Some c \<longleftrightarrow> unat b \<le> unat a \<and> unat c = unat a - unat b"
  by (auto simp: checked_sub_def word_le_nat_alt unat_sub word_unat_eq_iff)

lemma checked_mul_Some: "checked_mul a b = Some c \<longleftrightarrow> unat c = unat a * unat b"
proof
  assume "checked_mul a b = Some c"
  then show "unat c = unat a * unat b"
    by (auto simp: checked_mul_def unat_mult_lem [THEN iffD1] split: if_splits)
next
  assume c: "unat c = unat a * unat b"
  then have "unat a * unat b < 2 ^ LENGTH('a)" using unat_lt_size [of c] by simp
  then show "checked_mul a b = Some c"
    using c by (simp add: checked_mul_def word_unat_eq_iff unat_mult_lem [THEN iffD1])
qed

lemma checked_div_Some: "checked_div a b = Some c \<longleftrightarrow> unat b \<noteq> 0 \<and> unat c = unat a div unat b"
proof (cases "b = 0")
  case False
  then have "unat b \<noteq> 0" by (simp add: unat_eq_0)
  moreover have "a div b = c \<longleftrightarrow> unat a div unat b = unat c"
    by (simp add: word_unat_eq_iff unat_div_distrib)
  ultimately show ?thesis using False by (auto simp: checked_div_def)
qed (simp add: checked_div_def)

lemma checked_add_None: "checked_add a b = None \<longleftrightarrow> 2 ^ LENGTH('a) \<le> unat a + unat (b :: 'a::len word)"
  by (auto simp: checked_add_def)

lemma checked_mul_None: "checked_mul a b = None \<longleftrightarrow> 2 ^ LENGTH('a) \<le> unat a * unat (b :: 'a::len word)"
  by (auto simp: checked_mul_def)

lemmas checked_Some = checked_add_Some checked_sub_Some checked_mul_Some checked_div_Some

text \<open>Widening and narrowing casts. \<open>u256_to\<close> is \<open>u128::try_from(U256)\<close>; \<open>as_i128\<close> is the
  two's complement reading that \<open>as i128\<close> makes of a \<open>u128\<close>; \<open>wrap_i128\<close> is \<open>i128\<close>
  arithmetic of a release build, which wraps.\<close>

definition u256_of :: "u128 \<Rightarrow> u256" where "u256_of a = word_of_nat (unat a)"

definition u128_of_u256 :: "u256 \<Rightarrow> u128 option" where
  "u128_of_u256 v = (if unat v < 2 ^ 128 then Some (word_of_nat (unat v)) else None)"

definition as_i128 :: "u128 \<Rightarrow> i128" where
  "as_i128 a = (if uint a < 2 ^ 127 then uint a else uint a - 2 ^ 128)"

definition wrap_i128 :: "int \<Rightarrow> i128" where
  "wrap_i128 x = (x + 2 ^ 127) mod 2 ^ 128 - 2 ^ 127"

definition clamp_i128 :: "int \<Rightarrow> i128" where
  "clamp_i128 x = max i128_min (min i128_max x)"

definition clamp_i64 :: "int \<Rightarrow> i64" where
  "clamp_i64 x = max i64_min (min i64_max x)"

text \<open>\<open>i128::unsigned_abs\<close> and \<open>as u128\<close> of a signed value.\<close>

definition as_u128 :: "i128 \<Rightarrow> u128" where "as_u128 x = word_of_int x"

definition unsigned_abs :: "i128 \<Rightarrow> u128" where "unsigned_abs x = word_of_int \<bar>x\<bar>"

definition u128_to_i128_saturating :: "u128 \<Rightarrow> i128" where
  "u128_to_i128_saturating v = (if uint v < 2 ^ 127 then uint v else i128_max)"

lemma unat_word_of_nat_less: "n < 2 ^ LENGTH('a) \<Longrightarrow> unat (word_of_nat n :: 'a::len word) = n"
  by (simp only: unat_of_nat mod_less)

lemma uint_lt_size: "0 \<le> uint (a :: 'a::len word)" "uint a < 2 ^ LENGTH('a)"
  by (simp, rule unsigned_less)

lemma uint_as_u128: "0 \<le> x \<Longrightarrow> x < 2 ^ 128 \<Longrightarrow> uint (as_u128 x) = x"
proof -
  assume "0 \<le> x" and "x < 2 ^ 128"
  then have "take_bit LENGTH(128) x = x" by (simp add: take_bit_int_eq_self)
  then show ?thesis by (simp only: as_u128_def uint_word_of_int_eq)
qed

lemma unat_u256_of [word_nat]: "unat (u256_of a) = unat a"
proof -
  have "unat a < 2 ^ LENGTH(256)" using unat_lt_size [of a] by simp
  then show ?thesis unfolding u256_of_def by (rule unat_word_of_nat_less)
qed

lemma unat_ucast_up:
  "LENGTH('a) \<le> LENGTH('b) \<Longrightarrow> unat (ucast (x :: 'a::len word) :: 'b::len word) = unat x"
proof -
  assume "LENGTH('a) \<le> LENGTH('b)"
  then have "unat x < 2 ^ LENGTH('b)"
    using unat_lt_size [of x] by (meson le_less_trans less_le_not_le not_le power_increasing one_le_numeral order_less_le_trans)
  then show ?thesis by (simp add: unsigned_ucast_eq take_bit_nat_eq_self)
qed

lemma u128_of_u256_Some: "u128_of_u256 v = Some a \<longleftrightarrow> unat v = unat a"
proof
  assume "u128_of_u256 v = Some a"
  then have v: "unat v < 2 ^ LENGTH(128)" and a: "a = word_of_nat (unat v)"
    by (auto simp: u128_of_u256_def split: if_splits)
  show "unat v = unat a" unfolding a using v by (rule unat_word_of_nat_less [symmetric])
next
  assume v: "unat v = unat a"
  then have "unat v < 2 ^ 128" using unat_lt_size [of a] by simp
  then show "u128_of_u256 v = Some a"
    using v by (simp add: u128_of_u256_def)
qed

lemma u128_of_u256_None: "u128_of_u256 v = None \<longleftrightarrow> 2 ^ 128 \<le> unat v"
  by (auto simp: u128_of_u256_def)

text \<open>\<open>slice::get\<close>.\<close>

definition nth_opt :: "'a list \<Rightarrow> nat \<Rightarrow> 'a option" where
  "nth_opt xs i = (if i < length xs then Some (xs ! i) else None)"

lemma nth_opt_Some: "nth_opt xs i = Some x \<longleftrightarrow> i < length xs \<and> xs ! i = x"
  by (auto simp: nth_opt_def)

lemma nth_opt_None: "nth_opt xs i = None \<longleftrightarrow> length xs \<le> i"
  by (auto simp: nth_opt_def)

lemma nth_opt_mem: "nth_opt xs i = Some x \<Longrightarrow> x \<in> set xs"
  by (auto simp: nth_opt_Some)

section \<open>Comparison results and stable sorting\<close>

datatype ordering = Less | Equal | Greater

fun reverse_ord :: "ordering \<Rightarrow> ordering" where
  "reverse_ord Less = Greater"
| "reverse_ord Equal = Equal"
| "reverse_ord Greater = Less"

fun then_with :: "ordering \<Rightarrow> ordering \<Rightarrow> ordering" where
  "then_with Equal b = b"
| "then_with a b = a"

definition cmp :: "'a::linorder \<Rightarrow> 'a \<Rightarrow> ordering" where
  "cmp a b = (if a < b then Less else if a = b then Equal else Greater)"

lemma cmp_cases [cmp_simps]:
  "cmp a b = Less \<longleftrightarrow> a < b" "cmp a b = Equal \<longleftrightarrow> a = b" "cmp a b = Greater \<longleftrightarrow> b < a"
  by (auto simp: cmp_def)

lemma reverse_ord_simps [cmp_simps]:
  "reverse_ord a = Less \<longleftrightarrow> a = Greater" "reverse_ord a = Equal \<longleftrightarrow> a = Equal"
  "reverse_ord a = Greater \<longleftrightarrow> a = Less"
  by (cases a; simp)+

lemma reverse_reverse_ord [simp]: "reverse_ord (reverse_ord a) = a"
  by (cases a) auto

lemma reverse_cmp: "reverse_ord (cmp a b) = cmp b a"
  by (auto simp: cmp_def)

lemma then_with_cases [cmp_simps]:
  "then_with a b = Less \<longleftrightarrow> a = Less \<or> a = Equal \<and> b = Less"
  "then_with a b = Equal \<longleftrightarrow> a = Equal \<and> b = Equal"
  "then_with a b = Greater \<longleftrightarrow> a = Greater \<or> a = Equal \<and> b = Greater"
  by (cases a; simp)+

text \<open>\<open>slice::sort_by\<close>, a stable sort: insertion from the right keeps equal elements in order.\<close>

fun insort_by :: "('a \<Rightarrow> 'a \<Rightarrow> ordering) \<Rightarrow> 'a \<Rightarrow> 'a list \<Rightarrow> 'a list" where
  "insort_by c x [] = [x]"
| "insort_by c x (y # ys) = (if c x y = Greater then y # insort_by c x ys else x # y # ys)"

fun sort_by :: "('a \<Rightarrow> 'a \<Rightarrow> ordering) \<Rightarrow> 'a list \<Rightarrow> 'a list" where
  "sort_by c [] = []"
| "sort_by c (x # xs) = insort_by c x (sort_by c xs)"

text \<open>\<open>Iterator::min_by\<close>: the first of several minimal elements.\<close>

fun min_by :: "('a \<Rightarrow> 'a \<Rightarrow> ordering) \<Rightarrow> 'a list \<Rightarrow> 'a option" where
  "min_by c [] = None"
| "min_by c (x # xs) =
     (case min_by c xs of None \<Rightarrow> Some x | Some m \<Rightarrow> Some (if c x m = Greater then m else x))"

lemma mset_insort_by [simp]: "mset (insort_by c x xs) = {#x#} + mset xs"
  by (induction xs) auto

lemma mset_sort_by [simp]: "mset (sort_by c xs) = mset xs"
  by (induction xs) auto

lemma set_insort_by [simp]: "set (insort_by c x xs) = insert x (set xs)"
  by (induction xs) auto

lemma set_sort_by [simp]: "set (sort_by c xs) = set xs"
  by (metis mset_sort_by set_mset_mset)

lemma length_sort_by [simp]: "length (sort_by c xs) = length xs"
  by (metis mset_sort_by size_mset)

lemma distinct_sort_by [simp]: "distinct (sort_by c xs) = distinct xs"
  by (metis mset_sort_by mset_eq_imp_distinct_iff)

lemma sort_by_Nil_iff [simp]: "sort_by c xs = [] \<longleftrightarrow> xs = []"
  by (metis length_0_conv length_sort_by)

lemma min_by_None [simp]: "min_by c xs = None \<longleftrightarrow> xs = []"
  by (cases xs) (auto split: option.splits)

lemma min_by_in_set: "min_by c xs = Some m \<Longrightarrow> m \<in> set xs"
  by (induction xs arbitrary: m) (auto split: option.splits if_splits)

text \<open>The contract of a comparator handed to \<open>sort_by\<close> or \<open>min_by\<close>: a total preorder. Rust's
  sort may panic or return any order when it fails.\<close>

locale total_preorder =
  fixes c :: "'a \<Rightarrow> 'a \<Rightarrow> ordering"
  assumes flip: "c y x = reverse_ord (c x y)"
    and trans: "c x y \<noteq> Greater \<Longrightarrow> c y z \<noteq> Greater \<Longrightarrow> c x z \<noteq> Greater"
begin

lemma refl: "c x x = Equal"
  using flip [of x x] by (cases "c x x") auto

lemma total: "c x y = Greater \<Longrightarrow> c y x \<noteq> Greater"
  using flip [of y x] by simp

lemma sorted_insort_by:
  "sorted_wrt (\<lambda>a b. c a b \<noteq> Greater) ys \<Longrightarrow> sorted_wrt (\<lambda>a b. c a b \<noteq> Greater) (insort_by c x ys)"
proof (induction ys)
  case (Cons y ys)
  show ?case
  proof (cases "c x y = Greater")
    case True
    with Cons show ?thesis using total by auto
  next
    case False
    with Cons.prems show ?thesis using trans [of x y] by auto
  qed
qed simp

lemma sorted_sort_by: "sorted_wrt (\<lambda>a b. c a b \<noteq> Greater) (sort_by c xs)"
  by (induction xs) (auto simp: sorted_insort_by)

lemma take_before_drop:
  "a \<in> set (take n (sort_by c xs)) \<Longrightarrow> b \<in> set (drop n (sort_by c xs)) \<Longrightarrow> c a b \<noteq> Greater"
proof -
  have "sorted_wrt (\<lambda>a b. c a b \<noteq> Greater) (take n (sort_by c xs) @ drop n (sort_by c xs))"
    by (simp only: append_take_drop_id sorted_sort_by)
  then show "a \<in> set (take n (sort_by c xs)) \<Longrightarrow> b \<in> set (drop n (sort_by c xs)) \<Longrightarrow> ?thesis"
    by (simp add: sorted_wrt_append del: append_take_drop_id)
qed

lemma hd_sort_by_least: "x \<in> set xs \<Longrightarrow> c (hd (sort_by c xs)) x \<noteq> Greater"
proof -
  assume "x \<in> set xs"
  then obtain m ms where eq: "sort_by c xs = m # ms" and x: "x = m \<or> x \<in> set ms"
    by (cases "sort_by c xs") (auto simp flip: set_sort_by [of c xs])
  from sorted_sort_by [of xs] x show ?thesis unfolding eq by (auto simp: refl)
qed

lemma insort_by_stable:
  "sorted_wrt (\<lambda>a b. c a b \<noteq> Greater) ys \<Longrightarrow>
   filter (\<lambda>y. c y k = Equal) (insort_by c x ys) = filter (\<lambda>y. c y k = Equal) (x # ys)"
proof (induction ys)
  case (Cons y ys)
  have key: "\<not> (c x k = Equal \<and> c y k = Equal)" if "c x y = Greater"
  proof
    assume e: "c x k = Equal \<and> c y k = Equal"
    then have "c k y = Equal" using flip [of k y] by simp
    with e have "c x y \<noteq> Greater" using trans [of x k y] by simp
    with that show False by simp
  qed
  have IH: "filter (\<lambda>y. c y k = Equal) (insort_by c x ys) = filter (\<lambda>y. c y k = Equal) (x # ys)"
    using Cons by simp
  show ?case
  proof (cases "c x y = Greater")
    case True
    with key IH show ?thesis by auto
  qed simp
qed simp

lemma sort_by_stable: "filter (\<lambda>y. c y k = Equal) (sort_by c xs) = filter (\<lambda>y. c y k = Equal) xs"
  by (induction xs) (auto simp: insort_by_stable sorted_sort_by)

lemma min_by_least: "min_by c xs = Some m \<Longrightarrow> x \<in> set xs \<Longrightarrow> c m x \<noteq> Greater"
proof (induction xs arbitrary: m x)
  case (Cons y ys)
  show ?case
  proof (cases "min_by c ys")
    case None
    with Cons.prems show ?thesis by (auto simp: refl)
  next
    case (Some m')
    show ?thesis
    proof (cases "c y m' = Greater")
      case True
      with Some Cons.prems have "m = m'" "x = y \<or> x \<in> set ys" by auto
      with True Cons.IH [OF Some] total show ?thesis by auto
    next
      case False
      with Some Cons.prems have "m = y" "x = y \<or> x \<in> set ys" by auto
      with False Cons.IH [OF Some] trans [of y m' x] show ?thesis by (auto simp: refl)
    qed
  qed
qed simp

end

lemma preorder_key: "total_preorder (\<lambda>x y. cmp (k x) (k y))"
  by unfold_locales (auto simp: reverse_cmp cmp_simps)

lemma preorder_key_rev: "total_preorder (\<lambda>x y. cmp (k y) (k x))"
  by unfold_locales (auto simp: reverse_cmp cmp_simps)

lemma preorder_then:
  assumes "total_preorder c" and "total_preorder d"
  shows "total_preorder (\<lambda>x y. then_with (c x y) (d x y))"
proof
  fix x y z
  show "then_with (c y x) (d y x) = reverse_ord (then_with (c x y) (d x y))"
    using total_preorder.flip [OF assms(1), of y x] total_preorder.flip [OF assms(2), of y x]
    by (cases "c x y") auto
  assume xy: "then_with (c x y) (d x y) \<noteq> Greater" and yz: "then_with (c y z) (d y z) \<noteq> Greater"
  from xy yz have "c x y \<noteq> Greater" "c y z \<noteq> Greater" by (auto simp: cmp_simps)
  then have xz: "c x z \<noteq> Greater" by (rule total_preorder.trans [OF assms(1)])
  have "d x z \<noteq> Greater" if e: "c x z = Equal"
  proof -
    have "c z x \<noteq> Greater" using e total_preorder.flip [OF assms(1), of z x] by simp
    then have "c y x \<noteq> Greater" "c z y \<noteq> Greater"
      using \<open>c x y \<noteq> Greater\<close> \<open>c y z \<noteq> Greater\<close> total_preorder.trans [OF assms(1)] by blast+
    then have "c x y = Equal" "c y z = Equal"
      using \<open>c x y \<noteq> Greater\<close> \<open>c y z \<noteq> Greater\<close>
        total_preorder.flip [OF assms(1), of y x] total_preorder.flip [OF assms(1), of z y]
      by (cases "c x y"; cases "c y z"; simp)+
    with xy yz show ?thesis using total_preorder.trans [OF assms(2)] by (auto simp: cmp_simps)
  qed
  with xz show "then_with (c x z) (d x z) \<noteq> Greater" by (auto simp: cmp_simps)
qed

section \<open>Fallible code\<close>

text \<open>The question mark operator on \<open>Result\<close>.\<close>

definition res_bind :: "'e + 'a \<Rightarrow> ('a \<Rightarrow> 'e + 'b) \<Rightarrow> 'e + 'b" where
  "res_bind r f = (case r of Inl e \<Rightarrow> Inl e | Inr a \<Rightarrow> f a)"

lemma res_bind_Inr: "res_bind r f = Inr b \<longleftrightarrow> (\<exists>a. r = Inr a \<and> f a = Inr b)"
  by (cases r) (auto simp: res_bind_def)

lemma res_bind_simps [simp]: "res_bind (Inl e) f = Inl e" "res_bind (Inr a) f = f a"
  by (simp_all add: res_bind_def)

text \<open>\<open>collect::<Result<Vec<_>>>\<close>: the first error, or all values.\<close>

fun map_res :: "('a \<Rightarrow> 'e + 'b) \<Rightarrow> 'a list \<Rightarrow> 'e + 'b list" where
  "map_res f [] = Inr []"
| "map_res f (x # xs) = res_bind (f x) (\<lambda>y. res_bind (map_res f xs) (\<lambda>ys. Inr (y # ys)))"

lemma map_res_Inr: "map_res f xs = Inr ys \<longleftrightarrow> list_all2 (\<lambda>x y. f x = Inr y) xs ys"
  by (induction xs arbitrary: ys) (auto simp: res_bind_Inr list_all2_Cons1)

lemma map_res_mem: "map_res f xs = Inr ys \<Longrightarrow> y \<in> set ys \<Longrightarrow> \<exists>x\<in>set xs. f x = Inr y"
  by (induction xs arbitrary: ys) (auto simp: res_bind_Inr)

text \<open>A \<open>for\<close> loop whose body may leave the function early.\<close>

fun fold_res :: "('a \<Rightarrow> 's \<Rightarrow> 'e + 's) \<Rightarrow> 'a list \<Rightarrow> 's \<Rightarrow> 'e + 's" where
  "fold_res f [] s = Inr s"
| "fold_res f (x # xs) s = res_bind (f x s) (fold_res f xs)"

lemma fold_res_inv:
  assumes "P s" and "\<And>x s s'. x \<in> set xs \<Longrightarrow> P s \<Longrightarrow> f x s = Inr s' \<Longrightarrow> P s'"
    and "\<And>x s e. x \<in> set xs \<Longrightarrow> P s \<Longrightarrow> f x s = Inl e \<Longrightarrow> Q e"
  shows "case fold_res f xs s of Inl e \<Rightarrow> Q e | Inr s' \<Rightarrow> P s'"
  using assms
proof (induction xs arbitrary: s)
  case (Cons x xs)
  show ?case
  proof (cases "f x s")
    case (Inl e)
    then have "Q e" using Cons.prems(1,3) by (meson list.set_intros(1))
    with Inl show ?thesis by simp
  next
    case (Inr s')
    then have "P s'" using Cons.prems(1,2) by (meson list.set_intros(1))
    moreover have "case fold_res f xs s' of Inl e \<Rightarrow> Q e | Inr s' \<Rightarrow> P s'"
      by (rule Cons.IH [OF \<open>P s'\<close>]) (use Cons.prems(2,3) in \<open>meson list.set_intros(2)\<close>)+
    ultimately show ?thesis using Inr by simp
  qed
qed simp

section \<open>Memo tables\<close>

text \<open>What a client needs of a cache that may forget: a lookup after an insertion finds the value, and no lookup
  ever finds a value that was not put there. Under it, computing through the cache is the same as computing.\<close>

locale memo_table =
  fixes get :: "'k \<Rightarrow> 'c \<Rightarrow> 'v option \<times> 'c"
    and insert_at :: "'k \<Rightarrow> 'v \<Rightarrow> 'c \<Rightarrow> 'c"
    and ok :: "'c \<Rightarrow> bool"
  assumes ok_insert: "ok c \<Longrightarrow> ok (insert_at k v c)"
    and ok_get: "ok c \<Longrightarrow> ok (snd (get k c))"
    and get_inserted: "ok c \<Longrightarrow> fst (get k (insert_at k v c)) = Some v"
    and get_other: "ok c \<Longrightarrow> fst (get k (insert_at k' v c)) = Some w \<Longrightarrow> k \<noteq> k' \<Longrightarrow> fst (get k c) = Some w"
    and get_again: "ok c \<Longrightarrow> fst (get k (snd (get k' c))) = fst (get k c)"
begin

definition coherent :: "('k \<Rightarrow> 'v) \<Rightarrow> 'c \<Rightarrow> bool" where
  "coherent f c \<longleftrightarrow> ok c \<and> (\<forall>k v. fst (get k c) = Some v \<longrightarrow> f k = v)"

lemma coherent_get: "coherent f c \<Longrightarrow> coherent f (snd (get k c))"
  by (auto simp: coherent_def ok_get get_again)

lemma coherent_insert: "coherent f c \<Longrightarrow> coherent f (insert_at k (f k) c)"
  unfolding coherent_def using ok_insert get_inserted get_other by (metis option.inject)

lemma coherent_hit: "coherent f c \<Longrightarrow> fst (get k c) = Some v \<Longrightarrow> v = f k"
  by (auto simp: coherent_def)

end

end
