(* ===== verification/F64.thy ===== *)
theory F64
  imports Arb_Prelude "HOL-Library.Log_Nat"
begin

text \<open>
  The \<open>f64\<close> of the source: IEEE-754 binary64 with round to nearest, ties to even. A finite
  value is a sign and a rational magnitude; every operation computes exactly on rationals and
  rounds once, which is what the standard prescribes for \<open>+ - * / sqrt\<close> and the integer casts.
  Casts back to integers truncate towards zero and saturate, NaN going to 0, as \<open>as\<close> does.
  The functions whose precision Rust leaves open (\<open>ln\<close>, \<open>powf\<close>, and \<open>powi\<close> on a base other
  than a power of two) are arguments of the definitions that call them.
\<close>

datatype f64 = F_NaN | F_Inf bool | F_Fin bool rat

text \<open>\<open>floor (log2 q)\<close> of a positive rational: the bit length of the integer part, or of the
  reciprocal below 1.\<close>

definition ilog2_rat :: "rat \<Rightarrow> int" where
  "ilog2_rat q = (if 1 \<le> q then bitlen \<lfloor>q\<rfloor> - 1 else - bitlen (\<lceil>1 / q\<rceil> - 1))"

definition round_half_even :: "rat \<Rightarrow> int" where
  "round_half_even x = (let f = \<lfloor>x\<rfloor>; r = x - of_int f in
     if r < 1 / 2 then f else if 1 / 2 < r then f + 1 else if even f then f else f + 1)"

definition pow2_rat :: "int \<Rightarrow> rat" where
  "pow2_rat e = (if 0 \<le> e then 2 ^ nat e else 1 / 2 ^ nat (- e))"

text \<open>Round a non-negative magnitude: 53 bits of precision, exponents from -1074 up, overflow to
  infinity from \<open>2^1024\<close> on.\<close>

definition round_f64 :: "bool \<Rightarrow> rat \<Rightarrow> f64" where
  "round_f64 s q =
     (if q \<le> 0 then F_Fin s 0
      else let e = max (ilog2_rat q - 52) (- 1074); m = round_half_even (q / pow2_rat e)
           in if 1024 < bitlen m + e then F_Inf s else F_Fin s (of_int m * pow2_rat e))"

definition round_signed :: "bool \<Rightarrow> rat \<Rightarrow> f64" where
  \<comment> \<open>the sign of an exact zero is given\<close>
  "round_signed zs v = (if v = 0 then F_Fin zs 0 else round_f64 (v < 0) \<bar>v\<bar>)"

fun f_val :: "f64 \<Rightarrow> rat" where
  "f_val (F_Fin s m) = (if s then - m else m)"
| "f_val _ = 0"

fun is_finite :: "f64 \<Rightarrow> bool" where
  "is_finite (F_Fin s m) = True"
| "is_finite _ = False"

abbreviation f_zero :: f64 where "f_zero \<equiv> F_Fin False 0"
abbreviation f_one :: f64 where "f_one \<equiv> F_Fin False 1"

text \<open>A literal or a constant that is exactly representable.\<close>

definition f_lit :: "rat \<Rightarrow> f64" where "f_lit v = round_signed False v"

fun f_neg :: "f64 \<Rightarrow> f64" where
  "f_neg F_NaN = F_NaN"
| "f_neg (F_Inf s) = F_Inf (\<not> s)"
| "f_neg (F_Fin s m) = F_Fin (\<not> s) m"

fun f_abs :: "f64 \<Rightarrow> f64" where
  "f_abs F_NaN = F_NaN"
| "f_abs (F_Inf s) = F_Inf False"
| "f_abs (F_Fin s m) = F_Fin False m"

fun f_add :: "f64 \<Rightarrow> f64 \<Rightarrow> f64" where
  "f_add F_NaN b = F_NaN"
| "f_add a F_NaN = F_NaN"
| "f_add (F_Inf s) (F_Inf t) = (if s = t then F_Inf s else F_NaN)"
| "f_add (F_Inf s) (F_Fin t m) = F_Inf s"
| "f_add (F_Fin s m) (F_Inf t) = F_Inf t"
| "f_add (F_Fin s m) (F_Fin t n) =
     round_signed (s \<and> t) (f_val (F_Fin s m) + f_val (F_Fin t n))"

definition f_sub :: "f64 \<Rightarrow> f64 \<Rightarrow> f64" where "f_sub a b = f_add a (f_neg b)"

fun f_mul :: "f64 \<Rightarrow> f64 \<Rightarrow> f64" where
  "f_mul F_NaN b = F_NaN"
| "f_mul a F_NaN = F_NaN"
| "f_mul (F_Inf s) (F_Inf t) = F_Inf (s \<noteq> t)"
| "f_mul (F_Inf s) (F_Fin t m) = (if m = 0 then F_NaN else F_Inf (s \<noteq> t))"
| "f_mul (F_Fin s m) (F_Inf t) = (if m = 0 then F_NaN else F_Inf (s \<noteq> t))"
| "f_mul (F_Fin s m) (F_Fin t n) = round_f64 (s \<noteq> t) (m * n)"

fun f_div :: "f64 \<Rightarrow> f64 \<Rightarrow> f64" where
  "f_div F_NaN b = F_NaN"
| "f_div a F_NaN = F_NaN"
| "f_div (F_Inf s) (F_Inf t) = F_NaN"
| "f_div (F_Inf s) (F_Fin t m) = F_Inf (s \<noteq> t)"
| "f_div (F_Fin s m) (F_Inf t) = F_Fin (s \<noteq> t) 0"
| "f_div (F_Fin s m) (F_Fin t n) =
     (if n = 0 then (if m = 0 then F_NaN else F_Inf (s \<noteq> t)) else round_f64 (s \<noteq> t) (m / n))"

text \<open>Comparisons are false on NaN; the two zeros are equal.\<close>

fun f_lt :: "f64 \<Rightarrow> f64 \<Rightarrow> bool" where
  "f_lt F_NaN b = False"
| "f_lt a F_NaN = False"
| "f_lt (F_Inf s) (F_Inf t) = (s \<and> \<not> t)"
| "f_lt (F_Inf s) (F_Fin t m) = s"
| "f_lt (F_Fin s m) (F_Inf t) = (\<not> t)"
| "f_lt (F_Fin s m) (F_Fin t n) = (f_val (F_Fin s m) < f_val (F_Fin t n))"

fun f_eq :: "f64 \<Rightarrow> f64 \<Rightarrow> bool" where
  "f_eq F_NaN b = False"
| "f_eq a F_NaN = False"
| "f_eq (F_Inf s) (F_Inf t) = (s = t)"
| "f_eq (F_Fin s m) (F_Fin t n) = (f_val (F_Fin s m) = f_val (F_Fin t n))"
| "f_eq _ _ = False"

definition f_le :: "f64 \<Rightarrow> f64 \<Rightarrow> bool" where "f_le a b = (f_lt a b \<or> f_eq a b)"

text \<open>\<open>f64::max\<close>, \<open>f64::min\<close> return the other argument when one is NaN; \<open>clamp\<close> keeps a NaN.\<close>

definition f_max :: "f64 \<Rightarrow> f64 \<Rightarrow> f64" where
  "f_max a b = (if a = F_NaN then b else if b = F_NaN then a else if f_lt a b then b else a)"

definition f_min :: "f64 \<Rightarrow> f64 \<Rightarrow> f64" where
  "f_min a b = (if a = F_NaN then b else if b = F_NaN then a else if f_lt b a then b else a)"

definition f_clamp :: "f64 \<Rightarrow> f64 \<Rightarrow> f64 \<Rightarrow> f64" where
  "f_clamp x lo hi = (if f_lt x lo then lo else if f_lt hi x then hi else x)"

text \<open>\<open>f64::round\<close>: to the nearest integer, halves away from zero.\<close>

fun f_round :: "f64 \<Rightarrow> f64" where
  "f_round (F_Fin s m) = round_f64 s (of_int \<lfloor>m + 1 / 2\<rfloor>)"
| "f_round a = a"

text \<open>Correctly rounded square root: the integer square root of the magnitude scaled by an even
  power of two carries more than 53 bits, and the last bit is made odd when it is inexact, so
  that rounding it to 53 bits rounds the exact root.\<close>

fun isqrt_loop :: "nat \<Rightarrow> int \<Rightarrow> int \<Rightarrow> int" where
  "isqrt_loop 0 n r = r"
| "isqrt_loop (Suc k) n r =
     (let t = r + 2 ^ k in isqrt_loop k n (if t * t \<le> n then t else r))"

definition isqrt :: "int \<Rightarrow> int" where
  "isqrt n = isqrt_loop (Suc (nat (bitlen n) div 2)) n 0"

fun f_sqrt :: "f64 \<Rightarrow> f64" where
  "f_sqrt F_NaN = F_NaN"
| "f_sqrt (F_Inf s) = (if s then F_NaN else F_Inf False)"
| "f_sqrt (F_Fin s m) =
     (if m = 0 then F_Fin s 0 else if s then F_NaN
      else
        let e = ilog2_rat m div 2 - 60;
            y = m / pow2_rat (2 * e);
            f = \<lfloor>y\<rfloor>;
            r = isqrt f;
            r' = (if of_int (r * r) = y then r else if even r then r + 1 else r)
        in round_f64 False (of_int r' * pow2_rat e))"

text \<open>Casts.\<close>

definition f64_of_nat :: "nat \<Rightarrow> f64" where "f64_of_nat n = round_f64 False (of_nat n)"

definition f64_of_int :: "int \<Rightarrow> f64" where "f64_of_int i = round_f64 (i < 0) (of_int \<bar>i\<bar>)"

definition f64_of_word :: "'a::len word \<Rightarrow> f64" where "f64_of_word w = f64_of_int (uint w)"

fun f64_as_word :: "f64 \<Rightarrow> 'a::len word" where
  "f64_as_word F_NaN = 0"
| "f64_as_word (F_Inf s) = (if s then 0 else - 1)"
| "f64_as_word (F_Fin s m) =
     (if s then 0 else if 2 ^ LENGTH('a) \<le> \<lfloor>m\<rfloor> then - 1 else word_of_int \<lfloor>m\<rfloor>)"

fun f64_as_i64 :: "f64 \<Rightarrow> i64" where
  "f64_as_i64 F_NaN = 0"
| "f64_as_i64 (F_Inf s) = (if s then i64_min else i64_max)"
| "f64_as_i64 (F_Fin s m) = clamp_i64 (if s then - \<lfloor>m\<rfloor> else \<lfloor>m\<rfloor>)"

text \<open>The source's repeated \<open>f64_to_u128\<close>: zero for NaN, infinities and non-positive values,
  the largest \<open>u128\<close> from \<open>u128::MAX as f64\<close> on, truncation otherwise.\<close>

definition f64_to_u128 :: "f64 \<Rightarrow> u128" where
  "f64_to_u128 v =
     (if \<not> is_finite v \<or> f_le v f_zero then 0
      else if f_le (f64_of_word (- 1 :: u128)) v then - 1
      else f64_as_word v)"

lemma bitlen_code [simp]:
  "bitlen 0 = 0" "bitlen 1 = 1"
  "bitlen (numeral (num.Bit0 n)) = bitlen (numeral n) + 1"
  "bitlen (numeral (num.Bit1 n)) = bitlen (numeral n) + 1"
  by (subst compute_bitlen, simp)+

lemma f_lt_irrefl [simp]: "\<not> f_lt a a"
  by (cases a) auto

lemma f_lt_asym: "f_lt a b \<Longrightarrow> \<not> f_lt b a"
  by (cases a; cases b) auto

lemma f_lt_trans: "f_lt a b \<Longrightarrow> f_lt b c \<Longrightarrow> f_lt a c"
  by (cases a; cases b; cases c) auto

lemma f_le_total: "a \<noteq> F_NaN \<Longrightarrow> b \<noteq> F_NaN \<Longrightarrow> f_le a b \<or> f_lt b a"
  by (cases a; cases b) (auto simp: f_le_def)

lemma f64_to_u128_nonfinite: "\<not> is_finite v \<Longrightarrow> f64_to_u128 v = 0"
  by (simp add: f64_to_u128_def)

section \<open>Evaluation\<close>

lemmas f64_eval = f64_of_word_def f64_of_int_def round_f64_def f_lit_def round_signed_def ilog2_rat_def
  round_half_even_def pow2_rat_def Let_def

lemma floor_rat_div [simp]: "\<lfloor>(numeral a :: rat) / numeral b\<rfloor> = numeral a div numeral b"
  by (metis floor_divide_of_int_eq of_int_numeral)

lemma f64_points:
  "f64_of_word (18446744073709551615 :: u128) = F_Fin False 18446744073709551616"
  "f64_of_word (1 :: u128) = F_Fin False 1"
  "f64_of_word (- 1 :: u128) = F_Fin False (2 ^ 128)"
  "f_lit (2 ^ 70) = F_Fin False (2 ^ 70)"
  by (simp_all add: f64_eval unsigned_minus_1_eq_mask mask_eq_exp_minus_1)

end
