(* ===== verification/Env.thy ===== *)
theory Env
  imports Arb_Prelude "HOL-Library.Sublist"
begin

text \<open>
  Strings and the process environment. The environment is an argument of every definition
  that reads it: a partial function from variable names to values (\<open>None\<close> is a variable that
  is unset or not UTF-8). A \<open>String\<close> is the list of its bytes. The integer parser is the
  standard library's \<open>str::parse\<close>: an optional plus sign, at least one digit, no overflow.
\<close>

type_synonym env = "string \<Rightarrow> string option"

definition is_space :: "char \<Rightarrow> bool" where
  "is_space c = (c \<in> set [CHR '' '', CHR 0x09, CHR 0x0A, CHR 0x0B, CHR 0x0C, CHR 0x0D])"

definition trim :: "string \<Rightarrow> string" where
  "trim s = rev (dropWhile is_space (rev (dropWhile is_space s)))"

definition lower_char :: "char \<Rightarrow> char" where
  "lower_char c = (let n = of_char c :: nat in if 65 \<le> n \<and> n \<le> 90 then char_of (n + 32) else c)"

definition to_ascii_lowercase :: "string \<Rightarrow> string" where
  "to_ascii_lowercase s = map lower_char s"

definition eq_ignore_ascii_case :: "string \<Rightarrow> string \<Rightarrow> bool" where
  "eq_ignore_ascii_case a b = (to_ascii_lowercase a = to_ascii_lowercase b)"

fun str_contains :: "string \<Rightarrow> string \<Rightarrow> bool" where
  "str_contains [] pat = (pat = [])"
| "str_contains (c # cs) pat = (take (length pat) (c # cs) = pat \<or> str_contains cs pat)"

definition starts_with :: "string \<Rightarrow> string \<Rightarrow> bool" where
  "starts_with s pat = (take (length pat) s = pat)"

text \<open>\<open>str::split\<close> on one character: always at least one part.\<close>

fun split_char :: "char \<Rightarrow> string \<Rightarrow> string list" where
  "split_char d [] = [[]]"
| "split_char d (c # cs) =
     (if c = d then [] # split_char d cs
      else case split_char d cs of [] \<Rightarrow> [[c]] | p # ps \<Rightarrow> (c # p) # ps)"

fun join_str :: "string \<Rightarrow> string list \<Rightarrow> string" where
  "join_str sep [] = []"
| "join_str sep [x] = x"
| "join_str sep (x # y # ys) = x @ sep @ join_str sep (y # ys)"

section \<open>Integer parsing\<close>

definition digit_val :: "char \<Rightarrow> nat option" where
  "digit_val c = (let n = of_char c :: nat in if 48 \<le> n \<and> n \<le> 57 then Some (n - 48) else None)"

fun parse_digits :: "nat \<Rightarrow> string \<Rightarrow> nat option" where
  "parse_digits acc [] = Some acc"
| "parse_digits acc (c # cs) =
     (case digit_val c of None \<Rightarrow> None | Some d \<Rightarrow> parse_digits (10 * acc + d) cs)"

definition parse_nat :: "string \<Rightarrow> nat option" where
  "parse_nat s = (let t = (case s of [] \<Rightarrow> [] | c # cs \<Rightarrow> if c = CHR ''+'' then cs else s)
                  in if t = [] then None else parse_digits 0 t)"

definition parse_bounded :: "nat \<Rightarrow> string \<Rightarrow> nat option" where
  "parse_bounded bits s = (case parse_nat s of None \<Rightarrow> None | Some n \<Rightarrow> if n < 2 ^ bits then Some n else None)"

abbreviation parse_usize :: "string \<Rightarrow> nat option" where "parse_usize \<equiv> parse_bounded 64"

definition parse_word :: "string \<Rightarrow> 'a::len word option" where
  "parse_word s = map_option word_of_nat (parse_bounded LENGTH('a) s)"

lemma parse_bounded_less: "parse_bounded bits s = Some n \<Longrightarrow> n < 2 ^ bits"
  by (auto simp: parse_bounded_def split: option.splits if_splits)

section \<open>Environment readers\<close>

definition filter_opt :: "('a \<Rightarrow> bool) \<Rightarrow> 'a option \<Rightarrow> 'a option" where
  "filter_opt p x = (case x of None \<Rightarrow> None | Some v \<Rightarrow> if p v then Some v else None)"

lemma filter_opt_Some [simp]: "filter_opt p x = Some v \<longleftrightarrow> x = Some v \<and> p v"
  by (auto simp: filter_opt_def split: option.splits)

definition unwrap_or :: "'a option \<Rightarrow> 'a \<Rightarrow> 'a" where
  "unwrap_or x d = (case x of None \<Rightarrow> d | Some v \<Rightarrow> v)"

lemma unwrap_or_simps [simp]: "unwrap_or None d = d" "unwrap_or (Some v) d = v"
  by (simp_all add: unwrap_or_def)

text \<open>The reader of positive \<open>usize\<close> settings that the detector, the router and the quoter share.\<close>

definition env_usize :: "env \<Rightarrow> string \<Rightarrow> nat \<Rightarrow> nat" where
  "env_usize env key def = unwrap_or (filter_opt (\<lambda>v. 0 < v) (Option.bind (env key) parse_usize)) def"

text \<open>The engine's own reader also accepts 0.\<close>

definition env_usize_any :: "env \<Rightarrow> string \<Rightarrow> nat \<Rightarrow> nat" where
  "env_usize_any env key def = unwrap_or (Option.bind (env key) parse_usize) def"

definition env_u64 :: "env \<Rightarrow> string \<Rightarrow> nat \<Rightarrow> nat" where
  "env_u64 env key def = unwrap_or (filter_opt (\<lambda>v. 0 < v) (Option.bind (env key) (parse_bounded 64))) def"

definition env_u128 :: "env \<Rightarrow> string \<Rightarrow> u128 \<Rightarrow> u128" where
  "env_u128 env key def = unwrap_or (filter_opt (\<lambda>v. 0 < v) (Option.bind (env key) parse_word)) def"

definition parse_flag :: "string \<Rightarrow> bool option" where
  "parse_flag s = (let v = to_ascii_lowercase (trim s) in
     if v \<in> set [''1'', ''true'', ''yes'', ''on''] then Some True
     else if v \<in> set [''0'', ''false'', ''no'', ''off''] then Some False else None)"

definition env_bool :: "env \<Rightarrow> string \<Rightarrow> bool \<Rightarrow> bool" where
  "env_bool env key def = unwrap_or (Option.bind (env key) parse_flag) def"

text \<open>The router's reader: any value that is set and not a yes counts as false.\<close>

definition env_bool_set :: "env \<Rightarrow> string \<Rightarrow> bool \<Rightarrow> bool" where
  "env_bool_set env key def =
     unwrap_or (map_option (\<lambda>v. to_ascii_lowercase v \<in> set [''1'', ''true'', ''yes'', ''on'']) (env key)) def"

definition env_csv :: "env \<Rightarrow> string \<Rightarrow> string list" where
  "env_csv env key = unwrap_or (map_option (\<lambda>v. filter (\<lambda>p. p \<noteq> []) (map trim (split_char (CHR '','') v))) (env key)) []"

lemma env_usize_pos: "0 < def \<Longrightarrow> 0 < env_usize env key def"
  by (auto simp: env_usize_def unwrap_or_def split: option.splits)

end
