(* ===== verification/Arb_Types.thy ===== *)
theory Arb_Types
  imports F64 Env
begin

text \<open>
  The data of \<open>src/types.rs\<close>: chains, AMM kinds, tokens, pools with their per-kind state,
  graph edges, candidates and plans. Struct fields carry a prefix naming their struct
  (\<open>ps_\<close> for \<open>PoolState\<close>, \<open>e_\<close> for \<open>Edge\<close>, ...). A \<open>usize\<close> is a \<open>nat\<close>; an \<open>Instant\<close>, a
  \<open>SystemTime\<close> and a \<open>Duration\<close> are nanoseconds, and the clock is an argument.
\<close>

type_synonym instant = nat
type_synonym duration = nat

abbreviation from_secs :: "nat \<Rightarrow> duration" where "from_secs n \<equiv> n * 1000000000"
abbreviation from_millis :: "nat \<Rightarrow> duration" where "from_millis n \<equiv> n * 1000000"

section \<open>Chains\<close>

datatype chain = Base | Polygon | Avalanche | Sonic | Gnosis | Celo | Linea | Bsc

fun chain_as_str :: "chain \<Rightarrow> string" where
  "chain_as_str Base = ''base''"
| "chain_as_str Polygon = ''polygon''"
| "chain_as_str Avalanche = ''avalanche''"
| "chain_as_str Sonic = ''sonic''"
| "chain_as_str Gnosis = ''gnosis''"
| "chain_as_str Celo = ''celo''"
| "chain_as_str Linea = ''linea''"
| "chain_as_str Bsc = ''bsc''"

fun config_path :: "chain \<Rightarrow> string" where
  "config_path Base = ''config/base.toml''"
| "config_path Polygon = ''config/polygon.toml''"
| "config_path Avalanche = ''config/avalanche.toml''"
| "config_path Sonic = ''config/sonic.toml''"
| "config_path Gnosis = ''config/gnosis.toml''"
| "config_path Celo = ''config/celo.toml''"
| "config_path Linea = ''config/linea.toml''"
| "config_path Bsc = ''config/bsc.toml''"

fun env_prefix :: "chain \<Rightarrow> string" where
  "env_prefix Base = ''BASE''"
| "env_prefix Polygon = ''POLYGON''"
| "env_prefix Avalanche = ''AVALANCHE''"
| "env_prefix Sonic = ''SONIC''"
| "env_prefix Gnosis = ''GNOSIS''"
| "env_prefix Celo = ''CELO''"
| "env_prefix Linea = ''LINEA''"
| "env_prefix Bsc = ''BSC''"

definition env_key :: "chain \<Rightarrow> string \<Rightarrow> string" where
  "env_key c suf = env_prefix c @ ''_'' @ suf"

fun executor_env :: "chain \<Rightarrow> string" where
  "executor_env Base = ''BASE_EXECUTOR_ADDRESS''"
| "executor_env Polygon = ''POLYGON_EXECUTOR_ADDRESS''"
| "executor_env Avalanche = ''AVALANCHE_EXECUTOR_ADDRESS''"
| "executor_env Sonic = ''SONIC_EXECUTOR_ADDRESS''"
| "executor_env Gnosis = ''GNOSIS_EXECUTOR_ADDRESS''"
| "executor_env Celo = ''CELO_EXECUTOR_ADDRESS''"
| "executor_env Linea = ''LINEA_EXECUTOR_ADDRESS''"
| "executor_env Bsc = ''BSC_EXECUTOR_ADDRESS''"

fun aave_pool_env :: "chain \<Rightarrow> string" where
  "aave_pool_env Base = ''BASE_AAVE_POOL''"
| "aave_pool_env Polygon = ''POLYGON_AAVE_POOL''"
| "aave_pool_env Avalanche = ''AVALANCHE_AAVE_POOL''"
| "aave_pool_env Sonic = ''SONIC_AAVE_POOL''"
| "aave_pool_env Gnosis = ''GNOSIS_AAVE_POOL''"
| "aave_pool_env Celo = ''CELO_AAVE_POOL''"
| "aave_pool_env Linea = ''LINEA_AAVE_POOL''"
| "aave_pool_env Bsc = ''BSC_AAVE_POOL''"

fun wrapped_native_symbol :: "chain \<Rightarrow> string" where
  "wrapped_native_symbol Base = ''WETH''"
| "wrapped_native_symbol Polygon = ''WMATIC''"
| "wrapped_native_symbol Avalanche = ''WAVAX''"
| "wrapped_native_symbol Sonic = ''wS''"
| "wrapped_native_symbol Gnosis = ''WXDAI''"
| "wrapped_native_symbol Celo = ''CELO''"
| "wrapped_native_symbol Linea = ''WETH''"
| "wrapped_native_symbol Bsc = ''WBNB''"

text \<open>\<open>FromStr for Chain\<close>; \<open>None\<close> is the \<open>unsupported chain\<close> error.\<close>

definition chain_from_str :: "string \<Rightarrow> chain option" where
  "chain_from_str s = (let v = to_ascii_lowercase s in
     if v = ''base'' then Some Base
     else if v = ''polygon'' then Some Polygon
     else if v = ''avalanche'' \<or> v = ''avax'' then Some Avalanche
     else if v = ''sonic'' then Some Sonic
     else if v = ''gnosis'' \<or> v = ''xdai'' then Some Gnosis
     else if v = ''celo'' then Some Celo
     else if v = ''linea'' then Some Linea
     else if v = ''bsc'' \<or> v = ''bnb'' \<or> v = ''bnbchain'' then Some Bsc
     else None)"

lemma chain_from_as_str: "chain_from_str (chain_as_str c) = Some c"
  by (cases c) (simp_all add: chain_from_str_def to_ascii_lowercase_def lower_char_def)

section \<open>Kinds\<close>

datatype amm_kind = UniswapV2Like | AerodromeV2Like | UniswapV3Like | TraderJoeLb | CurvePlain | BalancerWeighted

definition amm_kind_from_toml :: "string \<Rightarrow> amm_kind option" where
  "amm_kind_from_toml v =
     (if v = ''uniswap_v2_like'' then Some UniswapV2Like
      else if v = ''aerodrome_v2_like'' then Some AerodromeV2Like
      else if v = ''uniswap_v3_like'' then Some UniswapV3Like
      else if v = ''trader_joe_lb'' then Some TraderJoeLb
      else if v = ''curve_plain'' then Some CurvePlain
      else if v = ''balancer_weighted'' then Some BalancerWeighted
      else None)"

datatype discovery_kind = FactoryAllPairs | SolidlyFactoryAllPools | SlipstreamFactoryAllPools
  | PoolCreatedLogs | TraderJoeLbFactoryAllPairs | TraderJoeLbConfiguredPairs | CurveRegistry
  | BalancerVaultLogs | StaticList

definition discovery_kind_from_toml :: "string \<Rightarrow> discovery_kind option" where
  "discovery_kind_from_toml v =
     (if v = ''factory_all_pairs'' then Some FactoryAllPairs
      else if v = ''solidly_factory_all_pools'' then Some SolidlyFactoryAllPools
      else if v = ''slipstream_factory_all_pools'' then Some SlipstreamFactoryAllPools
      else if v = ''pool_created_logs'' then Some PoolCreatedLogs
      else if v = ''traderjoe_lb_factory_all_pairs'' then Some TraderJoeLbFactoryAllPairs
      else if v = ''traderjoe_lb_configured_pairs'' then Some TraderJoeLbConfiguredPairs
      else if v = ''curve_registry'' then Some CurveRegistry
      else if v = ''balancer_vault_logs'' then Some BalancerVaultLogs
      else if v = ''static_list'' then Some StaticList
      else None)"

datatype finality_level = Pending | Sealed | Finalized
datatype pool_admission_status = Allowed | Quarantined | Excluded
datatype capital_source = SelfFunded | FlashLoan | MixedFlashLoan

record capital_choice =
  cc_source :: capital_source
  cc_loan_amount_raw :: u128
  cc_flash_fee_raw :: u128
  cc_actual_flash_fee_raw :: u128
  cc_net_profit_before_gas_raw :: i128

datatype adapter_type = A_UniswapV2Like | A_UniswapV3Like | A_TraderJoeLb | A_CurvePlain
  | A_BalancerWeighted | A_AerodromeV2Like

fun adapter_discriminant :: "adapter_type \<Rightarrow> nat" where
  "adapter_discriminant A_UniswapV2Like = 0"
| "adapter_discriminant A_UniswapV3Like = 1"
| "adapter_discriminant A_TraderJoeLb = 2"
| "adapter_discriminant A_CurvePlain = 3"
| "adapter_discriminant A_BalancerWeighted = 4"
| "adapter_discriminant A_AerodromeV2Like = 5"

fun adapter_of_kind :: "amm_kind \<Rightarrow> adapter_type" where
  "adapter_of_kind UniswapV2Like = A_UniswapV2Like"
| "adapter_of_kind AerodromeV2Like = A_AerodromeV2Like"
| "adapter_of_kind UniswapV3Like = A_UniswapV3Like"
| "adapter_of_kind TraderJoeLb = A_TraderJoeLb"
| "adapter_of_kind CurvePlain = A_CurvePlain"
| "adapter_of_kind BalancerWeighted = A_BalancerWeighted"

section \<open>Tokens\<close>

record token_behavior =
  fee_on_transfer :: bool
  rebasing :: bool
  erc4626 :: bool
  callback_token :: bool
  rate_oraclized :: bool

definition is_exotic :: "token_behavior \<Rightarrow> bool" where
  "is_exotic b = (fee_on_transfer b \<or> rebasing b \<or> erc4626 b \<or> callback_token b \<or> rate_oraclized b)"

record token_info =
  t_address :: address
  t_symbol :: string
  t_decimals :: u8
  t_is_stable :: bool
  t_is_cycle_anchor :: bool
  t_flash_loan_enabled :: bool
  t_allow_self_funded :: bool
  t_behavior :: token_behavior
  t_manual_price_usd_e8 :: "u64 option"
  t_max_position_usd_e8 :: "u128 option"
  t_max_flash_loan_usd_e8 :: "u128 option"

section \<open>Pools\<close>

record liquidity_info =
  l_estimated_usd_e8 :: u64
  l_safe_capacity_in :: u128

record pool_health =
  h_stale :: bool
  h_paused :: bool
  h_quarantined :: bool
  h_confidence_bps :: u16
  h_last_successful_refresh_block :: u64
  h_last_refresh_at :: instant
  h_recent_revert_count :: u32

definition pool_health_default :: pool_health where
  "pool_health_default = \<lparr>h_stale = False, h_paused = False, h_quarantined = False,
     h_confidence_bps = 10000, h_last_successful_refresh_block = 0, h_last_refresh_at = 0,
     h_recent_revert_count = 0\<rparr>"

text \<open>\<open>elapsed\<close> fails when the stamp lies in the future, which counts as fresh.\<close>

definition healthy :: "instant \<Rightarrow> pool_health \<Rightarrow> u16 \<Rightarrow> duration \<Rightarrow> bool" where
  "healthy now h min_confidence_bps staleness_timeout =
     (if h_paused h \<or> h_quarantined h \<or> h_stale h then False
      else if h_confidence_bps h < min_confidence_bps then False
      else if h_last_refresh_at h \<le> now then now - h_last_refresh_at h \<le> staleness_timeout
      else True)"

record v2_pool_state =
  v2_reserve0 :: u128
  v2_reserve1 :: u128
  v2_fee_ppm :: u32

record aerodrome_v2_pool_state =
  av2_reserve0 :: u128
  av2_reserve1 :: u128
  av2_decimals0 :: u128
  av2_decimals1 :: u128
  av2_stable :: bool
  av2_fee_ppm :: u32

record v3_pool_state =
  v3_sqrt_price_x96 :: u256
  v3_liquidity :: u128
  v3_tick :: int
  v3_fee :: u32
  v3_tick_spacing :: int

record trader_joe_lb_pool_state =
  lb_reserve_x :: u128
  lb_reserve_y :: u128
  lb_bin_step :: u16
  lb_active_id :: u32

record curve_pool_state =
  cv_balances :: "u128 list"
  cv_amp :: u128
  cv_fee :: u32
  cv_supports_underlying :: bool

record balancer_pool_state =
  bl_pool_id :: b256
  bl_balances :: "u128 list"
  bl_normalized_weights_1e18 :: "u128 list"
  bl_swap_fee_ppm :: u32

datatype pool_specific_state = S_UniswapV2Like v2_pool_state | S_AerodromeV2Like aerodrome_v2_pool_state
  | S_UniswapV3Like v3_pool_state | S_TraderJoeLb trader_joe_lb_pool_state
  | S_CurvePlain curve_pool_state | S_BalancerWeighted balancer_pool_state

record pool_state =
  ps_pool_id :: address
  ps_dex_name :: string
  ps_kind :: amm_kind
  ps_token_addresses :: "address list"
  ps_token_symbols :: "string list"
  ps_factory :: "address option"
  ps_registry :: "address option"
  ps_vault :: "address option"
  ps_quoter :: "address option"
  ps_admission_status :: pool_admission_status
  ps_health :: pool_health
  ps_state :: pool_specific_state
  ps_last_updated_block :: u64
  ps_extras :: "(string \<times> string) list"

section \<open>Graph\<close>

record edge_ref =
  er_from :: nat
  er_edge_idx :: nat

record edge =
  e_from :: nat
  e_to :: nat
  e_pool_id :: address
  e_amm_kind :: amm_kind
  e_fee_ppm :: u32
  e_weight_log_q32 :: i64
  e_spot_rate_q128 :: u256
  e_liquidity :: liquidity_info
  e_pool_health :: pool_health
  e_dex_name :: string

abbreviation e_capacity :: "edge \<Rightarrow> u128" where "e_capacity e \<equiv> l_safe_capacity_in (e_liquidity e)"

record block_ref =
  b_number :: u64
  b_hash :: b256
  b_parent_hash :: b256
  b_finality :: finality_level

section \<open>Candidates and plans\<close>

record candidate_hop =
  ch_from :: address
  ch_to :: address
  ch_pool_id :: address
  ch_amm_kind :: amm_kind
  ch_dex_name :: string

record candidate_path =
  cp_snapshot_id :: u64
  cp_start_token :: address
  cp_start_symbol :: string
  cp_screening_score_q32 :: i64
  cp_route_capacity_usd_e8 :: u128
  cp_route_quality_bps :: u16
  cp_cycle_key :: string
  cp_path :: "candidate_hop list"

datatype split_extra = X_None | X_V2 u32 | X_AerodromeV2 bool u32 | X_V3 bool u256
  | X_TraderJoeLb | X_Curve i128 i128 bool | X_Balancer b256

record split_plan =
  sp_dex_name :: string
  sp_pool_id :: address
  sp_adapter_type :: adapter_type
  sp_token_in :: address
  sp_token_out :: address
  sp_amount_in :: u128
  sp_min_amount_out :: u128
  sp_expected_amount_out :: u128
  sp_extra :: split_extra

record hop_plan =
  hp_token_in :: address
  hp_token_out :: address
  hp_total_in :: u128
  hp_total_out :: u128
  hp_splits :: "split_plan list"

record exact_plan =
  xp_snapshot_id :: u64
  xp_input_token :: address
  xp_output_token :: address
  xp_input_amount :: u128
  xp_output_amount :: u128
  xp_gross_profit_raw :: i128
  xp_flash_premium_ppm :: u128
  xp_flash_fee_raw :: u128
  xp_net_profit_before_gas_raw :: i128
  xp_contract_min_profit_raw :: u128
  xp_input_value_usd_e8 :: u128
  xp_flash_loan_value_usd_e8 :: u128
  xp_gross_profit_usd_e8 :: i128
  xp_flash_fee_usd_e8 :: i128
  xp_actual_flash_fee_usd_e8 :: i128
  xp_gas_cost_usd_e8 :: i128
  xp_net_profit_usd_e8 :: i128
  xp_expected_profit :: i128
  xp_gas_limit :: u64
  xp_gas_l2_execution_cost_wei :: u256
  xp_gas_l1_data_fee_wei :: u256
  xp_gas_cost_wei :: u256
  xp_capital_source :: capital_source
  xp_flash_loan_amount :: u128
  xp_actual_flash_fee_raw :: u128
  xp_hops :: "hop_plan list"

record executable_plan =
  ex_exact :: exact_plan
  ex_calldata :: "u8 list"
  ex_max_fee_per_gas :: u128
  ex_max_priority_fee_per_gas :: u128
  ex_nonce :: u64
  ex_deadline_unix :: u64

record submission_result =
  sr_tx_hash :: b256
  sr_channel :: string

section \<open>Refresh messages\<close>

datatype pool_state_patch =
    UniswapV2Sync address u128 u128 "u64 option"
  | UniswapV3Swap address u256 u128 int "u64 option"
  | BalancerSwap address address address u128 u128 "u64 option"
  | BalancerBalanceChanged address "address list" "i128 list" "u64 option"

fun patch_pool_id :: "pool_state_patch \<Rightarrow> address" where
  "patch_pool_id (UniswapV2Sync p _ _ _) = p"
| "patch_pool_id (UniswapV3Swap p _ _ _ _) = p"
| "patch_pool_id (BalancerSwap p _ _ _ _ _) = p"
| "patch_pool_id (BalancerBalanceChanged p _ _ _) = p"

record refresh_trigger =
  rt_pool_id :: "address option"
  rt_full_refresh :: bool
  rt_source :: string
  rt_patch :: "pool_state_patch option"

type_synonym refresh_batch = "refresh_trigger list"

end
