(* ===== verification/Valuation.thy ===== *)
theory Valuation
  imports Arb_Types
begin

text \<open>
  \<open>src/risk/valuation.rs\<close>: conversions between raw token amounts and USD with eight decimals,
  and the profit figures handed to the contract. \<open>U256\<close> is a 256-bit word; its \<open>pow\<close> wraps and
  its \<open>checked_*\<close> operations fail on overflow, as the crate documents.
\<close>

definition pow10_u256 :: "u8 \<Rightarrow> u256" where
  "pow10_u256 decimals = 10 ^ unat decimals"

definition amount_to_usd_e8 :: "u128 \<Rightarrow> token_info \<Rightarrow> u128 option" where
  "amount_to_usd_e8 amount_raw token =
     Option.bind (t_manual_price_usd_e8 token) (\<lambda>price_e8.
       if price_e8 = 0 then None
       else
         let amount = u256_of amount_raw; price = ucast price_e8 :: u256;
             divisor = pow10_u256 (t_decimals token)
         in if divisor = 0 then None
            else Option.bind (checked_mul amount price) (\<lambda>m.
                 Option.bind (checked_div m divisor) u128_of_u256))"

definition usd_e8_to_amount :: "u128 \<Rightarrow> token_info \<Rightarrow> u128 option" where
  "usd_e8_to_amount usd_e8 token =
     Option.bind (t_manual_price_usd_e8 token) (\<lambda>price_e8.
       if price_e8 = 0 then None
       else
         let usd = u256_of usd_e8; divisor = ucast price_e8 :: u256;
             multiplier = pow10_u256 (t_decimals token)
         in Option.bind (checked_mul usd multiplier) (\<lambda>m.
            Option.bind (checked_div m divisor) u128_of_u256))"

definition native_gas_to_usd_e8 :: "u256 \<Rightarrow> u64 \<Rightarrow> u8 \<Rightarrow> u128 option" where
  "native_gas_to_usd_e8 gas_cost_wei native_price_usd_e8 native_decimals =
     (if native_price_usd_e8 = 0 then None
      else
        let price_e8 = ucast native_price_usd_e8 :: u256; divisor = pow10_u256 native_decimals
        in Option.bind (checked_mul gas_cost_wei price_e8) (\<lambda>m.
           Option.bind (checked_div m divisor) u128_of_u256))"

text \<open>\<open>as i128\<close> reads the two's complement, and the subtractions wrap in a release build.\<close>

definition calculate_net_profit_before_gas_raw :: "u128 \<Rightarrow> u128 \<Rightarrow> u128 \<Rightarrow> i128" where
  "calculate_net_profit_before_gas_raw input_amount output_amount flash_fee_raw =
     (let gross = wrap_i128 (as_i128 output_amount - as_i128 input_amount)
      in wrap_i128 (gross - as_i128 flash_fee_raw))"

definition calculate_contract_min_profit_raw :: "i128 \<Rightarrow> u32 \<Rightarrow> u128" where
  "calculate_contract_min_profit_raw net_profit_before_gas_raw min_profit_realization_bps =
     (if net_profit_before_gas_raw \<le> 0 then 0
      else
        let numerator = clamp_i128 (net_profit_before_gas_raw * uint min_profit_realization_bps);
            result = numerator div 10000
        in as_u128 (max result 0))"

section \<open>The divisor\<close>

text \<open>The guard \<open>divisor.is_zero()\<close> never fires: the power keeps a factor \<open>2 ^ d\<close> with
  \<open>d \<le> 255\<close> and an odd cofactor, so it is not a multiple of \<open>2 ^ 256\<close>.\<close>

lemma unat_pow10: "unat (pow10_u256 d) = 10 ^ unat d mod 2 ^ 256"
proof -
  have "pow10_u256 d = word_of_nat (10 ^ unat d)" by (simp add: pow10_u256_def)
  then have "unat (pow10_u256 d) = 10 ^ unat d mod 2 ^ LENGTH(256)" by (simp only: unat_of_nat)
  then show ?thesis by simp
qed

lemma pow10_nonzero: "pow10_u256 d \<noteq> 0"
proof
  assume "pow10_u256 d = 0"
  then have "(10 :: nat) ^ unat d mod 2 ^ 256 = 0" using unat_pow10 [of d] by simp
  then have dvd: "(2 :: nat) ^ 256 dvd 10 ^ unat d" by auto
  have "unat d \<le> 255" using unat_le_max [of d] by simp
  have eq: "(10 :: nat) ^ unat d = 2 ^ unat d * 5 ^ unat d" by (simp flip: power_mult_distrib)
  have "(2 :: nat) ^ Suc (unat d) dvd 2 ^ 256"
    using \<open>unat d \<le> 255\<close> by (intro le_imp_power_dvd) simp
  then have "(2 :: nat) ^ Suc (unat d) dvd 2 ^ unat d * 5 ^ unat d"
    using dvd eq dvd_trans by metis
  then have "(2 :: nat) dvd 5 ^ unat d"
    by (simp add: mult.commute [of 2] dvd_mult_cancel_left power_Suc2 del: power_Suc)
  then show False by simp
qed

lemma unat_pow10_exact: "unat d \<le> 77 \<Longrightarrow> unat (pow10_u256 d) = 10 ^ unat d"
proof -
  assume "unat d \<le> 77"
  then have "(10 :: nat) ^ unat d \<le> 10 ^ 77" by (intro power_increasing) auto
  also have "(10 :: nat) ^ 77 < 2 ^ 256" by simp
  finally show ?thesis by (simp only: unat_pow10 mod_less)
qed

lemma unat_ucast_u64: "unat (ucast (p :: u64) :: u256) = unat p"
  by (simp add: unsigned_ucast_eq take_bit_nat_eq_self less_le_trans [OF unat_lt_size])

lemma ucast_u64_0: "(ucast (p :: u64) :: u256) = 0 \<longleftrightarrow> p = 0"
  by (metis unat_ucast_u64 unat_eq_0)

section \<open>Functional behaviour\<close>

text \<open>The three conversions end in the same multiply, divide, narrow chain.\<close>

lemma mul_div_narrow_Some:
  "Option.bind (checked_mul a b) (\<lambda>m. Option.bind (checked_div m d) u128_of_u256) = Some v \<longleftrightarrow>
   unat a * unat b < 2 ^ 256 \<and> d \<noteq> 0 \<and> unat v = unat a * unat b div unat (d :: u256)"
proof (cases "checked_mul a b")
  case None
  then have "2 ^ LENGTH(256) \<le> unat a * unat b" by (simp only: checked_mul_None)
  with None show ?thesis by simp
next
  case (Some m)
  then have m: "unat m = unat a * unat b" by (simp only: checked_mul_Some)
  with unat_lt_size [of m] have "unat a * unat b < 2 ^ 256" by simp
  then show ?thesis using Some m
    by (auto simp: checked_div_def u128_of_u256_Some unat_div_distrib)
qed

lemma u128_u64_product: "unat (a :: u128) * unat (p :: u64) < 2 ^ 256"
proof -
  have "unat a * unat p \<le> 2 ^ 128 * 2 ^ 64"
    using unat_lt_size [of a] unat_lt_size [of p] by (intro mult_le_mono) simp_all
  then show ?thesis by simp
qed

lemma amount_to_usd_e8_Some:
  "amount_to_usd_e8 a token = Some v \<longleftrightarrow>
   (\<exists>p. t_manual_price_usd_e8 token = Some p \<and> p \<noteq> 0 \<and>
        unat v = unat a * unat p div unat (pow10_u256 (t_decimals token)))"
  using u128_u64_product [of a]
  by (cases "t_manual_price_usd_e8 token")
     (auto simp: amount_to_usd_e8_def Let_def mul_div_narrow_Some pow10_nonzero unat_u256_of unat_ucast_u64)

lemma usd_e8_to_amount_Some:
  "usd_e8_to_amount usd token = Some v \<longleftrightarrow>
   (\<exists>p. t_manual_price_usd_e8 token = Some p \<and> p \<noteq> 0 \<and>
        unat usd * unat (pow10_u256 (t_decimals token)) < 2 ^ 256 \<and>
        unat v = unat usd * unat (pow10_u256 (t_decimals token)) div unat p)"
  by (cases "t_manual_price_usd_e8 token")
     (auto simp: usd_e8_to_amount_def Let_def mul_div_narrow_Some unat_u256_of unat_ucast_u64 ucast_u64_0)

lemma native_gas_to_usd_e8_Some:
  "native_gas_to_usd_e8 wei p d = Some v \<longleftrightarrow>
   p \<noteq> 0 \<and> unat wei * unat p < 2 ^ 256 \<and> unat v = unat wei * unat p div unat (pow10_u256 d)"
  by (auto simp: native_gas_to_usd_e8_def Let_def mul_div_narrow_Some pow10_nonzero unat_ucast_u64)

lemma no_price_no_conversion:
  "t_manual_price_usd_e8 token \<in> {None, Some 0} \<Longrightarrow>
   amount_to_usd_e8 a token = None \<and> usd_e8_to_amount a token = None"
  by (auto simp: amount_to_usd_e8_def usd_e8_to_amount_def)

lemma amount_to_usd_e8_mono:
  assumes "amount_to_usd_e8 a token = Some u" and "amount_to_usd_e8 b token = Some v" and "a \<le> b"
  shows "u \<le> v"
  using assms by (auto simp: amount_to_usd_e8_Some word_le_nat_alt intro!: div_le_mono mult_le_mono1)

text \<open>Division rounds down both ways, so converting back never gains value and loses less than one
  unit plus the value of one raw unit.\<close>

lemma div_round_trip:
  fixes u D p :: nat
  assumes "0 < p" and "0 < D"
  shows "(u * D div p) * p div D \<le> u" and "u * D < ((u * D div p) * p div D + 1) * D + p"
proof -
  let ?a = "u * D div p"
  have le: "?a * p \<le> u * D" by simp
  then have "?a * p div D \<le> u * D div D" by (rule div_le_mono)
  then show "?a * p div D \<le> u" using assms by simp
  have "u * D < ?a * p + p"
    using assms dividend_less_div_times [of p "u * D"] by simp
  moreover have "?a * p < (?a * p div D + 1) * D"
    using assms dividend_less_div_times [of D "?a * p"] by (simp add: algebra_simps)
  ultimately show "u * D < (?a * p div D + 1) * D + p" by linarith
qed

lemma wrap_i128_id: "i128_min \<le> x \<Longrightarrow> x \<le> i128_max \<Longrightarrow> wrap_i128 x = x"
  by (simp add: wrap_i128_def)

lemma as_i128_range: "i128_min \<le> as_i128 a" "as_i128 a \<le> i128_max"
proof -
  have "uint a < 2 ^ 128" using uint_lt_size(2) [of a] by simp
  then show "i128_min \<le> as_i128 a" "as_i128 a \<le> i128_max"
    unfolding as_i128_def using uint_lt_size(1) [of a] by (auto intro: order_trans [of _ 0])
qed

lemma wrap_net_exact:
  fixes i out fee :: int
  assumes "0 \<le> i" "0 \<le> out" "0 \<le> fee" "i < 2 ^ 126" "out < 2 ^ 126" "fee < 2 ^ 126"
  shows "wrap_i128 (wrap_i128 (out - i) - fee) = out - i - fee"
  using assms by (simp add: wrap_i128_id)

lemma as_i128_small: "uint a < 2 ^ 127 \<Longrightarrow> as_i128 a = uint a"
  by (simp add: as_i128_def)

lemma net_profit_exact:
  assumes "uint i < 2 ^ 126" and "uint out < 2 ^ 126" and "uint fee < 2 ^ 126"
  shows "calculate_net_profit_before_gas_raw i out fee = uint out - uint i - uint fee"
proof -
  have "as_i128 i = uint i" "as_i128 out = uint out" "as_i128 fee = uint fee"
    using assms by (auto intro!: as_i128_small)
  then show ?thesis
    using wrap_net_exact [OF uint_lt_size(1) uint_lt_size(1) uint_lt_size(1) assms]
    by (simp add: calculate_net_profit_before_gas_raw_def)
qed

lemma contract_min_profit_eq:
  assumes "0 < net" and "net \<le> i128_max"
  shows "uint (calculate_contract_min_profit_raw net bps) = min i128_max (net * uint bps) div 10000"
proof -
  let ?n = "min i128_max (net * uint bps)"
  have "0 \<le> net * uint bps" using assms by simp
  then have c: "clamp_i128 (net * uint bps) = ?n" and n: "0 \<le> ?n" "?n \<le> i128_max"
    by (auto simp: clamp_i128_def)
  then have "0 \<le> ?n div 10000" "?n div 10000 < 2 ^ 128" by auto
  then show ?thesis using assms c
    by (simp add: calculate_contract_min_profit_raw_def Let_def uint_as_u128 max_absorb1)
qed

text \<open>With at most 10000 basis points the contract never demands more than the net profit, even
  when the multiplication saturates.\<close>

lemma contract_min_profit_le:
  assumes "0 < net" and "net \<le> i128_max" and "uint bps \<le> 10000"
  shows "uint (calculate_contract_min_profit_raw net bps) \<le> net"
proof -
  have "min i128_max (net * uint bps) \<le> net * 10000"
    using assms by (intro min.coboundedI2 mult_left_mono) auto
  then have "min i128_max (net * uint bps) div 10000 \<le> net * 10000 div 10000"
    by (rule zdiv_mono1) simp
  then show ?thesis using assms by (simp add: contract_min_profit_eq)
qed

end
