(* ===== verification/Reorg.thy ===== *)
theory Reorg
  imports Arb_Types
begin

text \<open>
  \<open>src/reorg/mod.rs\<close>: the canonical chain kept by \<open>ReorgDetector\<close>, a window of recent blocks
  with two indices. The three fields sit behind \<open>parking_lot\<close> mutexes, which are not
  reentrant: locking one that the same thread already holds blocks forever. Every operation
  therefore carries the list of the mutexes its caller holds, and a second lock of one of them
  is the outcome \<open>SelfDeadlock\<close>. An \<open>Err\<close> returns the state it leaves behind.
\<close>

datatype ('s, 'e, 'a) outcome = Returned 's "'e + 'a" | SelfDeadlock

definition max_block_history :: nat where "max_block_history = 128"

datatype reorg_event =
    Detected u64 u64 nat
  | Rollback u64 u64
  | Replay u64 u64

record block_history_entry =
  bh_number :: u64
  bh_hash :: b256
  bh_parent_hash :: b256
  bh_finality :: finality_level

text \<open>The \<open>VecDeque\<close> runs from the oldest block to the tip.\<close>

record reorg_detector =
  rd_chain :: "block_history_entry list"
  rd_block_by_hash :: "b256 \<rightharpoonup> u64"
  rd_block_by_number :: "u64 \<rightharpoonup> block_history_entry"

datatype reorg_mutex = ChainMutex | ByHashMutex | ByNumberMutex

datatype reorg_error = NoTip | ChainEmpty | TargetNotInHistory b256 | NumberNotFound u64

type_synonym reorg_outcome = "(reorg_detector, reorg_error, reorg_event option) outcome"

definition reorg_new :: reorg_detector where
  "reorg_new = \<lparr>rd_chain = [], rd_block_by_hash = Map.empty, rd_block_by_number = Map.empty\<rparr>"

definition chain_back :: "'a list \<Rightarrow> 'a option" where
  "chain_back xs = (if xs = [] then None else Some (last xs))"

definition current_tip :: "reorg_detector \<Rightarrow> block_history_entry option" where
  "current_tip d = chain_back (rd_chain d)"

definition get_by_hash :: "reorg_detector \<Rightarrow> b256 \<Rightarrow> block_history_entry option" where
  "get_by_hash d h = Option.bind (rd_block_by_hash d h) (rd_block_by_number d)"

definition get_by_number :: "reorg_detector \<Rightarrow> u64 \<Rightarrow> block_history_entry option" where
  "get_by_number d n = rd_block_by_number d n"

text \<open>The pop of one tip with its index entries, and the pop of the oldest block.\<close>

definition pop_tip :: "reorg_detector \<Rightarrow> reorg_detector" where
  "pop_tip d = (let old = last (rd_chain d) in
     d\<lparr>rd_chain := butlast (rd_chain d),
       rd_block_by_hash := (rd_block_by_hash d)(bh_hash old := None),
       rd_block_by_number := (rd_block_by_number d)(bh_number old := None)\<rparr>)"

definition push_tip :: "block_history_entry \<Rightarrow> reorg_detector \<Rightarrow> reorg_detector" where
  "push_tip entry d =
     d\<lparr>rd_chain := rd_chain d @ [entry],
       rd_block_by_hash := (rd_block_by_hash d)(bh_hash entry \<mapsto> bh_number entry),
       rd_block_by_number := (rd_block_by_number d)(bh_number entry \<mapsto> entry)\<rparr>"

function prune_old :: "reorg_detector \<Rightarrow> reorg_detector" where
  "prune_old d =
     (if max_block_history < length (rd_chain d)
      then let old = hd (rd_chain d) in
        prune_old (d\<lparr>rd_chain := tl (rd_chain d),
          rd_block_by_hash := (rd_block_by_hash d)(bh_hash old := None),
          rd_block_by_number := (rd_block_by_number d)(bh_number old := None)\<rparr>)
      else d)"
  by pat_completeness auto
termination by (relation "measure (\<lambda>d. length (rd_chain d))") auto

declare prune_old.simps [simp del]

definition append_block :: "block_history_entry \<Rightarrow> reorg_detector \<Rightarrow> reorg_detector" where
  "append_block entry d = prune_old (push_tip entry d)"

definition find_common_ancestor ::
  "reorg_mutex list \<Rightarrow> reorg_detector \<Rightarrow> b256 \<Rightarrow> (reorg_detector, reorg_error, block_history_entry) outcome" where
  "find_common_ancestor held d target =
     (if ByHashMutex \<in> set held then SelfDeadlock
      else if ByNumberMutex \<in> set held then SelfDeadlock
      else case rd_block_by_hash d target of
        None \<Rightarrow> Returned d (Inl (TargetNotInHistory target))
      | Some n \<Rightarrow> (case rd_block_by_number d n of
          None \<Rightarrow> Returned d (Inl (NumberNotFound n))
        | Some entry \<Rightarrow> Returned d (Inr entry)))"

function rollback_to_hash :: "b256 \<Rightarrow> reorg_detector \<Rightarrow> reorg_detector" where
  "rollback_to_hash h d =
     (if rd_chain d = [] \<or> bh_hash (last (rd_chain d)) = h then d
      else rollback_to_hash h (pop_tip d))"
  by pat_completeness auto
termination by (relation "measure (\<lambda>(h, d). length (rd_chain d))") (auto simp: pop_tip_def Let_def)

function rollback_to_number :: "u64 \<Rightarrow> reorg_detector \<Rightarrow> reorg_detector" where
  "rollback_to_number n d =
     (if rd_chain d = [] \<or> bh_number (last (rd_chain d)) \<le> n then d
      else rollback_to_number n (pop_tip d))"
  by pat_completeness auto
termination by (relation "measure (\<lambda>(n, d). length (rd_chain d))") (auto simp: pop_tip_def Let_def)

declare rollback_to_hash.simps [simp del] rollback_to_number.simps [simp del]

definition handle_reorg_at_same_height :: "reorg_detector \<Rightarrow> block_history_entry \<Rightarrow> reorg_outcome" where
  "handle_reorg_at_same_height d entry =
     (case chain_back (rd_chain d) of
        None \<Rightarrow> Returned d (Inl NoTip)
      | Some old_tip \<Rightarrow>
          Returned (push_tip entry (pop_tip d)) (Inr (Some (Rollback (bh_number old_tip) (bh_number old_tip)))))"

definition handle_parent_mismatch ::
  "reorg_mutex list \<Rightarrow> reorg_detector \<Rightarrow> block_history_entry \<Rightarrow> reorg_outcome" where
  "handle_parent_mismatch held d entry =
     (case find_common_ancestor held d (bh_parent_hash entry) of
        SelfDeadlock \<Rightarrow> SelfDeadlock
      | Returned d1 (Inl e) \<Rightarrow> Returned d1 (Inl e)
      | Returned d1 (Inr common_ancestor) \<Rightarrow>
          let from_block = (case chain_back (rd_chain d1) of None \<Rightarrow> 0 | Some t \<Rightarrow> bh_number t);
              d2 = rollback_to_hash (bh_hash common_ancestor) d1;
              depth = unat (sat_sub from_block (bh_number common_ancestor))
          in Returned (append_block entry d2)
               (Inr (Some (Detected (bh_number common_ancestor) (bh_number entry) depth))))"

definition handle_reorg_with_gap :: "reorg_detector \<Rightarrow> block_history_entry \<Rightarrow> reorg_outcome" where
  "handle_reorg_with_gap d entry =
     (case rd_block_by_hash d (bh_parent_hash entry) of
        Some _ \<Rightarrow> Returned (append_block entry d) (Inr None)
      | None \<Rightarrow> Returned (append_block entry d) (Inr None))"

definition handle_reorg_with_older_block ::
  "reorg_mutex list \<Rightarrow> reorg_detector \<Rightarrow> block_history_entry \<Rightarrow> reorg_outcome" where
  "handle_reorg_with_older_block held d entry =
     (case rd_block_by_number d (bh_number entry) of
        Some existing \<Rightarrow>
          if bh_hash existing \<noteq> bh_hash entry then handle_parent_mismatch held d entry
          else Returned d (Inr None)
      | None \<Rightarrow> Returned d (Inr None))"

definition entry_of_block :: "block_ref \<Rightarrow> block_history_entry" where
  "entry_of_block b = \<lparr>bh_number = b_number b, bh_hash = b_hash b, bh_parent_hash = b_parent_hash b,
     bh_finality = b_finality b\<rparr>"

text \<open>The body of \<open>update_chain\<close> below its three locks; \<open>held\<close> is what it holds while it runs.\<close>

definition update_chain_body :: "reorg_mutex list \<Rightarrow> reorg_detector \<Rightarrow> block_ref \<Rightarrow> reorg_outcome" where
  "update_chain_body held d block =
     (let entry = entry_of_block block in
      case chain_back (rd_chain d) of
        None \<Rightarrow> Returned (append_block entry d) (Inr None)
      | Some tip \<Rightarrow>
          if bh_number entry = bh_number tip then
            (if bh_hash entry \<noteq> bh_hash tip then handle_reorg_at_same_height d entry
             else Returned d (Inr None))
          else if bh_number entry = bh_number tip + 1 then
            (if bh_parent_hash entry \<noteq> bh_hash tip then handle_parent_mismatch held d entry
             else Returned (append_block entry d) (Inr None))
          else if bh_number tip < bh_number entry then handle_reorg_with_gap d entry
          else handle_reorg_with_older_block held d entry)"

definition update_chain :: "reorg_detector \<Rightarrow> block_ref \<Rightarrow> reorg_outcome" where
  "update_chain d block = update_chain_body [ChainMutex, ByHashMutex, ByNumberMutex] d block"

definition reorg_rollback_to_block :: "reorg_detector \<Rightarrow> u64 \<Rightarrow> (reorg_detector, reorg_error, unit) outcome" where
  "reorg_rollback_to_block d n = Returned (rollback_to_number n d) (Inr ())"

definition current_chain :: "reorg_detector \<Rightarrow> block_history_entry list" where
  "current_chain d = rd_chain d"

section \<open>The invariant\<close>

text \<open>The indices are exactly the chain: numbers increase strictly, hashes differ, each index
  knows the blocks of the window and no others, and the window is bounded.\<close>

definition indices_agree :: "reorg_detector \<Rightarrow> bool" where
  "indices_agree d \<longleftrightarrow>
     sorted_wrt (<) (map bh_number (rd_chain d)) \<and> distinct (map bh_hash (rd_chain d)) \<and>
     (\<forall>n e. rd_block_by_number d n = Some e \<longleftrightarrow> e \<in> set (rd_chain d) \<and> bh_number e = n) \<and>
     (\<forall>h n. rd_block_by_hash d h = Some n \<longleftrightarrow> (\<exists>e\<in>set (rd_chain d). bh_hash e = h \<and> bh_number e = n))"

definition reorg_inv :: "reorg_detector \<Rightarrow> bool" where
  "reorg_inv d \<longleftrightarrow> indices_agree d \<and> length (rd_chain d) \<le> max_block_history"

lemma reorg_inv_new: "reorg_inv reorg_new"
  by (simp add: reorg_inv_def indices_agree_def reorg_new_def)

lemma indices_agree_append:
  assumes "indices_agree d" and "rd_chain d = a @ b"
  shows "sorted_wrt (<) (map bh_number a)" "sorted_wrt (<) (map bh_number b)"
    "\<And>x y. x \<in> set a \<Longrightarrow> y \<in> set b \<Longrightarrow> bh_number x < bh_number y \<and> bh_hash x \<noteq> bh_hash y"
  using assms by (auto simp: indices_agree_def sorted_wrt_append sorted_wrt_map)

lemma pop_tip_agree:
  assumes "indices_agree d" and "rd_chain d \<noteq> []"
  shows "indices_agree (pop_tip d)"
proof -
  obtain a t where c: "rd_chain d = a @ [t]" using assms(2) by (metis append_butlast_last_id)
  have sep: "\<And>x. x \<in> set a \<Longrightarrow> bh_number x \<noteq> bh_number t \<and> bh_hash x \<noteq> bh_hash t"
    using indices_agree_append(3) [OF assms(1) c] by fastforce
  show ?thesis using assms(1) c sep
    by (auto simp: indices_agree_def pop_tip_def Let_def sorted_wrt_append)
qed

lemma drop_oldest_agree:
  assumes "indices_agree d" and "rd_chain d = old # rest"
  shows "indices_agree (d\<lparr>rd_chain := rest,
    rd_block_by_hash := (rd_block_by_hash d)(bh_hash old := None),
    rd_block_by_number := (rd_block_by_number d)(bh_number old := None)\<rparr>)"
proof -
  have "\<And>x. x \<in> set rest \<Longrightarrow> bh_number x \<noteq> bh_number old \<and> bh_hash x \<noteq> bh_hash old"
    using indices_agree_append(3) [OF assms(1), of "[old]" rest] assms(2) by fastforce
  then show ?thesis using assms by (auto simp: indices_agree_def)
qed

lemma push_tip_agree:
  assumes "indices_agree d"
    and "\<And>e. e \<in> set (rd_chain d) \<Longrightarrow> bh_number e < bh_number entry \<and> bh_hash e \<noteq> bh_hash entry"
  shows "indices_agree (push_tip entry d)"
proof -
  have num: "\<And>e. e \<in> set (rd_chain d) \<Longrightarrow> bh_number e \<noteq> bh_number entry" using assms(2) by fastforce
  have hash: "\<And>e. e \<in> set (rd_chain d) \<Longrightarrow> bh_hash entry \<noteq> bh_hash e" using assms(2) by metis
  show ?thesis using assms(1) assms(2) [THEN conjunct1] num hash
    by (auto simp: indices_agree_def push_tip_def sorted_wrt_append) (metis hash)
qed

lemma prune_old_chain: "rd_chain (prune_old d) = drop (length (rd_chain d) - max_block_history) (rd_chain d)"
proof (induction d rule: prune_old.induct)
  case (1 d)
  show ?case
  proof (cases "max_block_history < length (rd_chain d)")
    case True
    then have "length (rd_chain d) - max_block_history = Suc (length (rd_chain d) - 1 - max_block_history)"
      by simp
    with True "1" show ?thesis
      by (simp add: prune_old.simps [of d] Let_def drop_Suc)
  next
    case False
    then show ?thesis by (simp add: prune_old.simps [of d])
  qed
qed

lemma prune_old_agree: "indices_agree d \<Longrightarrow> indices_agree (prune_old d)"
proof (induction d rule: prune_old.induct)
  case (1 d)
  show ?case
  proof (cases "max_block_history < length (rd_chain d)")
    case True
    then obtain old rest where c: "rd_chain d = old # rest" by (cases "rd_chain d") auto
    with True "1" drop_oldest_agree [OF "1.prems" c] show ?thesis
      by (simp add: prune_old.simps [of d] Let_def)
  next
    case False
    with "1.prems" show ?thesis by (simp add: prune_old.simps [of d])
  qed
qed

lemma append_block_inv:
  assumes "indices_agree d"
    and "\<And>e. e \<in> set (rd_chain d) \<Longrightarrow> bh_number e < bh_number entry \<and> bh_hash e \<noteq> bh_hash entry"
  shows "reorg_inv (append_block entry d)"
  using prune_old_agree [OF push_tip_agree [OF assms]]
  by (simp add: reorg_inv_def append_block_def prune_old_chain)

lemma append_block_chain:
  "rd_chain (append_block entry d) =
   drop (Suc (length (rd_chain d)) - max_block_history) (rd_chain d @ [entry])"
  by (simp add: append_block_def prune_old_chain push_tip_def)

lemma append_block_tip: "current_tip (append_block entry d) = Some entry"
  by (simp add: current_tip_def chain_back_def append_block_chain max_block_history_def)

text \<open>Rolling back by number keeps exactly the blocks up to that number.\<close>

lemma rollback_to_number_spec:
  "indices_agree d \<Longrightarrow> indices_agree (rollback_to_number n d) \<and>
   rd_chain (rollback_to_number n d) = filter (\<lambda>e. bh_number e \<le> n) (rd_chain d)"
proof (induction n d rule: rollback_to_number.induct)
  case (1 n d)
  show ?case
  proof (cases "rd_chain d = [] \<or> bh_number (last (rd_chain d)) \<le> n")
    case True
    have "\<forall>e\<in>set (rd_chain d). bh_number e \<le> n"
    proof (cases "rd_chain d = []")
      case False
      then obtain a t where c: "rd_chain d = a @ [t]" by (metis append_butlast_last_id)
      with True False indices_agree_append(3) [OF "1.prems" c] show ?thesis by fastforce
    qed simp
    with True "1.prems" show ?thesis by (simp add: rollback_to_number.simps [of n d])
  next
    case False
    then have ne: "rd_chain d \<noteq> []" by simp
    then obtain a t where c: "rd_chain d = a @ [t]" by (metis append_butlast_last_id)
    from False c have "\<not> bh_number t \<le> n" by simp
    with False c "1.IH" [OF False pop_tip_agree [OF "1.prems" ne]] show ?thesis
      by (simp add: rollback_to_number.simps [of n d]) (simp add: pop_tip_def Let_def)
  qed
qed

lemma rollback_to_hash_spec:
  "indices_agree d \<Longrightarrow> a \<in> set (rd_chain d) \<Longrightarrow> indices_agree (rollback_to_hash (bh_hash a) d) \<and>
   rd_chain (rollback_to_hash (bh_hash a) d) = filter (\<lambda>e. bh_number e \<le> bh_number a) (rd_chain d)"
proof (induction "bh_hash a" d rule: rollback_to_hash.induct)
  case (1 d)
  from "1.prems"(2) have ne: "rd_chain d \<noteq> []" by auto
  then obtain b t where c: "rd_chain d = b @ [t]" by (metis append_butlast_last_id)
  have sep: "\<And>x. x \<in> set b \<Longrightarrow> bh_number x < bh_number t \<and> bh_hash x \<noteq> bh_hash t"
    using indices_agree_append(3) [OF "1.prems"(1) c] by simp
  show ?case
  proof (cases "bh_hash t = bh_hash a")
    case True
    with c sep "1.prems"(2) have "a = t" by auto
    moreover have "\<forall>e\<in>set (rd_chain d). bh_number e \<le> bh_number t" using c sep by fastforce
    moreover have "rollback_to_hash (bh_hash a) d = d"
      using c True by (simp add: rollback_to_hash.simps [of "bh_hash a" d])
    ultimately show ?thesis using "1.prems" by simp
  next
    case False
    then have stop: "\<not> (rd_chain d = [] \<or> bh_hash (last (rd_chain d)) = bh_hash a)" using c by simp
    from False c "1.prems"(2) have a: "a \<in> set (rd_chain (pop_tip d))" "a \<in> set b"
      by (auto simp: pop_tip_def Let_def)
    with sep have "\<not> bh_number t \<le> bh_number a" by force
    with "1.hyps" [OF stop pop_tip_agree [OF "1.prems"(1) ne] a(1)] stop c show ?thesis
      by (simp add: rollback_to_hash.simps [of "bh_hash a" d]) (simp add: pop_tip_def Let_def)
  qed
qed

section \<open>update_chain\<close>

text \<open>What a collision-free hash gives: a block of the window with the new block's hash has its
  number, one with its parent hash has a smaller number.\<close>

definition block_consistent :: "reorg_detector \<Rightarrow> block_ref \<Rightarrow> bool" where
  "block_consistent d b \<longleftrightarrow> b_number b \<noteq> 0 \<and>
     (\<forall>e\<in>set (rd_chain d).
        (bh_hash e = b_hash b \<longrightarrow> bh_number e = b_number b) \<and>
        (bh_hash e = b_parent_hash b \<longrightarrow> bh_number e < b_number b))"

lemmas update_chain_defs = update_chain_body_def handle_reorg_at_same_height_def
  handle_reorg_with_gap_def handle_reorg_with_older_block_def chain_back_def Let_def

lemma entry_of_block_sel [simp]:
  "bh_number (entry_of_block b) = b_number b" "bh_hash (entry_of_block b) = b_hash b"
  "bh_parent_hash (entry_of_block b) = b_parent_hash b" "bh_finality (entry_of_block b) = b_finality b"
  by (simp_all add: entry_of_block_def)

lemma tip_is_greatest:
  assumes "indices_agree d" and "rd_chain d \<noteq> []" and "e \<in> set (rd_chain d)"
  shows "bh_number e \<le> bh_number (last (rd_chain d))"
proof -
  obtain a t where c: "rd_chain d = a @ [t]" using assms(2) by (metis append_butlast_last_id)
  then show ?thesis using indices_agree_append(3) [OF assms(1) c] assms(3) by fastforce
qed

lemma append_above_tip:
  assumes "reorg_inv d" and "block_consistent d b"
    and "rd_chain d = [] \<or> bh_number (last (rd_chain d)) < b_number b"
  shows "reorg_inv (append_block (entry_of_block b) d)"
proof (rule append_block_inv)
  show "indices_agree d" using assms(1) by (simp add: reorg_inv_def)
  fix e assume e: "e \<in> set (rd_chain d)"
  then have "bh_number e < b_number b"
    using tip_is_greatest [of d e] assms by (fastforce simp: reorg_inv_def)
  then show "bh_number e < bh_number (entry_of_block b) \<and> bh_hash e \<noteq> bh_hash (entry_of_block b)"
    using e assms(2) by (fastforce simp: block_consistent_def)
qed

lemma same_height_inv:
  assumes "reorg_inv d" and "block_consistent d b" and "rd_chain d = a @ [t]" and "b_number b = bh_number t"
  shows "reorg_inv (push_tip (entry_of_block b) (pop_tip d))"
proof -
  have agree: "indices_agree d" using assms(1) by (simp add: reorg_inv_def)
  have "bh_number e < bh_number (entry_of_block b) \<and> bh_hash e \<noteq> bh_hash (entry_of_block b)"
    if "e \<in> set (rd_chain (pop_tip d))" for e
  proof -
    from that assms(3) have e: "e \<in> set a" by (simp add: pop_tip_def Let_def)
    then have "bh_number e < b_number b"
      using indices_agree_append(3) [OF agree assms(3)] assms(4) by simp
    then show ?thesis using e assms(2,3) by (fastforce simp: block_consistent_def)
  qed
  then have "indices_agree (push_tip (entry_of_block b) (pop_tip d))"
    using pop_tip_agree [OF agree] assms(3) by (intro push_tip_agree) auto
  then show ?thesis using assms(1,3)
    by (simp add: reorg_inv_def push_tip_def pop_tip_def Let_def)
qed

lemma ancestor_found:
  assumes "find_common_ancestor held d h = Returned d1 (Inr a)" and "indices_agree d"
  shows "d1 = d" "a \<in> set (rd_chain d)" "bh_hash a = h"
proof -
  from assms(1) obtain n where n: "rd_block_by_hash d h = Some n" "rd_block_by_number d n = Some a" "d1 = d"
    by (auto simp: find_common_ancestor_def split: if_splits option.splits)
  from n assms(2) obtain e where "e \<in> set (rd_chain d)" "bh_hash e = h" "bh_number e = n"
    by (auto simp: indices_agree_def)
  moreover from n assms(2) have "a \<in> set (rd_chain d)" "bh_number a = n" by (auto simp: indices_agree_def)
  moreover have "distinct (map bh_number (rd_chain d))"
    using assms(2) by (simp add: indices_agree_def strict_sorted_iff)
  ultimately show "d1 = d" "a \<in> set (rd_chain d)" "bh_hash a = h"
    using n by (auto simp: distinct_map inj_on_def)
qed

text \<open>The whole effect of a parent mismatch whose ancestor lookup can take its locks.\<close>

lemma parent_mismatch_effect:
  assumes "handle_parent_mismatch held d (entry_of_block b) = Returned d' (Inr r)" and "indices_agree d"
  shows "\<exists>a\<in>set (rd_chain d). bh_hash a = b_parent_hash b \<and>
    d' = append_block (entry_of_block b) (rollback_to_hash (bh_hash a) d) \<and>
    r = Some (Detected (bh_number a) (b_number b) (unat (sat_sub (bh_number (last (rd_chain d))) (bh_number a))))"
proof -
  from assms(1) obtain d1 a where f: "find_common_ancestor held d (b_parent_hash b) = Returned d1 (Inr a)"
    by (auto simp: handle_parent_mismatch_def split: outcome.splits sum.splits)
  note a = ancestor_found [OF f assms(2)]
  then have "rd_chain d \<noteq> []" by auto
  with assms(1) f a show ?thesis
    by (auto simp: handle_parent_mismatch_def chain_back_def Let_def)
qed

lemma parent_mismatch_error:
  "handle_parent_mismatch held d e = Returned d' (Inl err) \<Longrightarrow> d' = d"
  by (auto simp: handle_parent_mismatch_def find_common_ancestor_def Let_def
      split: outcome.splits sum.splits if_splits option.splits)

lemma parent_mismatch_inv:
  assumes "handle_parent_mismatch held d (entry_of_block b) = Returned d' r"
    and "reorg_inv d" and "block_consistent d b"
  shows "reorg_inv d'"
proof (cases r)
  case (Inl e)
  with assms parent_mismatch_error show ?thesis by blast
next
  case (Inr ev)
  have agree: "indices_agree d" using assms(2) by (simp add: reorg_inv_def)
  obtain a where a: "a \<in> set (rd_chain d)" "bh_hash a = b_parent_hash b"
    and d': "d' = append_block (entry_of_block b) (rollback_to_hash (bh_hash a) d)"
    using parent_mismatch_effect [OF _ agree] assms(1) Inr by blast
  note rb = rollback_to_hash_spec [OF agree a(1)]
  have "bh_number a < b_number b" using a assms(3) by (auto simp: block_consistent_def)
  then have "bh_number e < b_number b \<and> bh_hash e \<noteq> b_hash b"
    if "e \<in> set (rd_chain (rollback_to_hash (bh_hash a) d))" for e
    using that rb assms(3) by (fastforce simp: block_consistent_def)
  then show ?thesis unfolding d' using rb by (intro append_block_inv) auto
qed

lemma succ_above: "n \<noteq> 0 \<Longrightarrow> n = t + 1 \<Longrightarrow> t < (n :: u64)"
  using unatSuc [of t] by (simp add: add.commute word_less_nat_alt)

lemma update_chain_body_inv:
  assumes "update_chain_body held d b = Returned d' r" and "reorg_inv d" and "block_consistent d b"
  shows "reorg_inv d'"
proof (cases "rd_chain d = []")
  case True
  with assms append_above_tip show ?thesis by (auto simp: update_chain_body_def chain_back_def Let_def)
next
  case False
  then obtain a t where c: "rd_chain d = a @ [t]" by (metis append_butlast_last_id)
  consider (same) "b_number b = bh_number t"
    | (succ) "b_number b \<noteq> bh_number t" "b_number b = bh_number t + 1"
    | (gap) "b_number b \<noteq> bh_number t" "b_number b \<noteq> bh_number t + 1" "bh_number t < b_number b"
    | (older) "b_number b \<noteq> bh_number t" "b_number b \<noteq> bh_number t + 1" "\<not> bh_number t < b_number b"
    by blast
  then show ?thesis
  proof cases
    case same
    with assms c same_height_inv [OF assms(2,3) c] show ?thesis
      by (auto simp: update_chain_defs split: if_splits)
  next
    case succ
    have "bh_number t < b_number b"
      using succ assms(3) by (intro succ_above) (auto simp: block_consistent_def)
    with assms c succ append_above_tip [OF assms(2,3)] parent_mismatch_inv [OF _ assms(2,3)] show ?thesis
      by (auto simp: update_chain_defs split: if_splits)
  next
    case gap
    with assms c append_above_tip [OF assms(2,3)] show ?thesis
      by (auto simp: update_chain_defs split: if_splits option.splits)
  next
    case older
    with assms c parent_mismatch_inv [OF _ assms(2,3)] show ?thesis
      by (auto simp: update_chain_defs split: if_splits option.splits)
  qed
qed

lemma parent_mismatch_locked: "ByHashMutex \<in> set held \<Longrightarrow> handle_parent_mismatch held d e = SelfDeadlock"
  by (simp add: handle_parent_mismatch_def find_common_ancestor_def)

lemma append_word_succ_neq: "(n :: u64) + 1 \<noteq> n"
  by simp

section \<open>Properties\<close>

text \<open>The detector of a running engine: it starts empty, blocks arrive (with whatever mutexes held
  for the body), and the engine may roll the window back by number.\<close>

inductive reorg_reachable :: "reorg_detector \<Rightarrow> bool" where
  reach_new: "reorg_reachable reorg_new"
| reach_update: "reorg_reachable d \<Longrightarrow> block_consistent d b \<Longrightarrow>
    update_chain_body held d b = Returned d' r \<Longrightarrow> reorg_reachable d'"
| reach_rollback: "reorg_reachable d \<Longrightarrow> reorg_rollback_to_block d n = Returned d' r \<Longrightarrow> reorg_reachable d'"

inductive_simps reorg_reachable_update: "reorg_reachable d"

lemma rollback_to_number_inv: "reorg_inv d \<Longrightarrow> reorg_inv (rollback_to_number n d)"
  using rollback_to_number_spec [of d n] by (auto simp: reorg_inv_def intro: le_trans [OF length_filter_le])

definition demo_block :: "u64 \<Rightarrow> b256 \<Rightarrow> b256 \<Rightarrow> block_ref" where
  "demo_block n h p = \<lparr>b_number = n, b_hash = h, b_parent_hash = p, b_finality = Sealed\<rparr>"

lemma demo_first_block:
  "block_consistent reorg_new (demo_block 100 1 0)"
  "update_chain_body [] reorg_new (demo_block 100 1 0) =
    Returned (append_block (entry_of_block (demo_block 100 1 0)) reorg_new) (Inr None)"
  by (simp_all add: block_consistent_def reorg_new_def demo_block_def update_chain_defs)

text \<open>C23: in every state the detector can reach, over any sequence of incoming blocks that fit the
  window's hashes and of rollbacks, the window is sorted by number, bounded by 128 blocks, and
  both indices hold exactly the blocks of the window.\<close>

theorem reorg_reachable_inv: "reorg_reachable d \<Longrightarrow> reorg_inv d"
  by (induction rule: reorg_reachable.induct)
    (auto simp: reorg_inv_new update_chain_body_inv reorg_rollback_to_block_def rollback_to_number_inv)

theorem reorg_reachable_inv_witness:
  "reorg_inv (append_block (entry_of_block (demo_block 100 1 0)) reorg_new)"
  by (rule reorg_reachable_inv) (rule reach_update [OF reach_new demo_first_block])

text \<open>C22: when \<open>update_chain\<close> hangs. It locks the two indices and then calls
  \<open>find_common_ancestor\<close>, which locks them again; so it deadlocks on exactly the blocks that
  reveal a reorganisation: a successor of the tip whose parent is not the tip, or an older block
  whose number the window knows under another hash. On every other block it returns.\<close>

theorem update_chain_deadlocks_iff:
  "update_chain d b = SelfDeadlock \<longleftrightarrow>
   (\<exists>tip. current_tip d = Some tip \<and> b_number b \<noteq> bh_number tip \<and>
      (if b_number b = bh_number tip + 1 then b_parent_hash b \<noteq> bh_hash tip
       else \<not> bh_number tip < b_number b \<and>
         (\<exists>known. get_by_number d (b_number b) = Some known \<and> bh_hash known \<noteq> b_hash b)))"
  by (auto simp: update_chain_def update_chain_defs current_tip_def get_by_number_def parent_mismatch_locked
      split: option.splits)

text \<open>a block that extends the tip becomes the tip, evicting at most the oldest block, and
  no event is reported.\<close>

theorem update_chain_extends:
  assumes "current_tip d = Some tip" and "b_number b = bh_number tip + 1" and "b_parent_hash b = bh_hash tip"
  shows "\<exists>d'. update_chain d b = Returned d' (Inr None) \<and> current_tip d' = Some (entry_of_block b) \<and>
    rd_chain d' = drop (Suc (length (rd_chain d)) - max_block_history) (rd_chain d @ [entry_of_block b])"
proof -
  have "update_chain d b = Returned (append_block (entry_of_block b) d) (Inr None)"
    using assms by (auto simp: update_chain_def update_chain_defs current_tip_def split: if_splits)
  then show ?thesis by (simp add: append_block_tip append_block_chain)
qed

theorem update_chain_extends_witness:
  "\<exists>d'. update_chain (append_block (entry_of_block (demo_block 100 1 0)) reorg_new) (demo_block 101 2 1) =
      Returned d' (Inr None) \<and> current_tip d' = Some (entry_of_block (demo_block 101 2 1))"
proof -
  let ?d = "append_block (entry_of_block (demo_block 100 1 0)) reorg_new"
  have "current_tip ?d = Some (entry_of_block (demo_block 100 1 0))" by (rule append_block_tip)
  from update_chain_extends [OF this, of "demo_block 101 2 1"] show ?thesis
    by (auto simp: demo_block_def)
qed

text \<open>what a detected reorganisation would do if the ancestor lookup could take its locks. The
  window is cut back to the blocks up to the parent of the new block, the new block is put on
  top, and the event names the ancestor and the number of blocks dropped.\<close>

theorem unlocked_reorg_rolls_back:
  assumes "reorg_inv d" and "block_consistent d b" and "a \<in> set (rd_chain d)"
    and "bh_hash a = b_parent_hash b"
  shows "\<exists>d'. handle_parent_mismatch [] d (entry_of_block b) =
      Returned d' (Inr (Some (Detected (bh_number a) (b_number b)
        (unat (bh_number (last (rd_chain d))) - unat (bh_number a))))) \<and>
    rd_chain d' = drop (Suc (length (filter (\<lambda>e. bh_number e \<le> bh_number a) (rd_chain d))) - max_block_history)
        (filter (\<lambda>e. bh_number e \<le> bh_number a) (rd_chain d) @ [entry_of_block b]) \<and> reorg_inv d'"
proof -
  have agree: "indices_agree d" using assms(1) by (simp add: reorg_inv_def)
  then have "rd_block_by_hash d (b_parent_hash b) = Some (bh_number a)"
    and "rd_block_by_number d (bh_number a) = Some a"
    using assms(3,4) by (auto simp: indices_agree_def)
  then have f: "find_common_ancestor [] d (b_parent_hash b) = Returned d (Inr a)"
    by (simp add: find_common_ancestor_def)
  have ne: "rd_chain d \<noteq> []" using assms(3) by auto
  let ?d' = "append_block (entry_of_block b) (rollback_to_hash (bh_hash a) d)"
  have r: "handle_parent_mismatch [] d (entry_of_block b) = Returned ?d' (Inr (Some (Detected (bh_number a)
      (b_number b) (unat (bh_number (last (rd_chain d))) - unat (bh_number a)))))"
    using f ne by (simp add: handle_parent_mismatch_def chain_back_def Let_def unat_sat_sub)
  moreover have "reorg_inv ?d'" using parent_mismatch_inv [OF r assms(1,2)] .
  ultimately show ?thesis using rollback_to_hash_spec [OF agree assms(3)] by (auto simp: append_block_chain)
qed

theorem unlocked_reorg_rolls_back_witness:
  "\<exists>d'. handle_parent_mismatch [] (append_block (entry_of_block (demo_block 100 1 0)) reorg_new)
      (entry_of_block (demo_block 101 3 1)) = Returned d' (Inr (Some (Detected 100 101 0))) \<and> reorg_inv d'"
proof -
  let ?d = "append_block (entry_of_block (demo_block 100 1 0)) reorg_new"
  have chain: "rd_chain ?d = [entry_of_block (demo_block 100 1 0)]"
    by (simp add: append_block_chain reorg_new_def max_block_history_def)
  have "reorg_inv ?d" by (rule update_chain_body_inv [OF demo_first_block(2) reorg_inv_new demo_first_block(1)])
  moreover have "block_consistent ?d (demo_block 101 3 1)"
    unfolding block_consistent_def chain by (simp add: demo_block_def)
  ultimately show ?thesis
    using unlocked_reorg_rolls_back [of ?d "demo_block 101 3 1" "entry_of_block (demo_block 100 1 0)"] chain
    by (auto simp: demo_block_def)
qed

end
