(* ===== verification/Amm.thy ===== *)
theory Amm
  imports Arb_Types "HOL-Library.Monad_Syntax"
begin

text \<open>
  \<open>src/amm\<close>: the quoting functions and spot rates of the six AMM kinds. The integer quotes are
  translated at their widths, saturating and checked operations included; the floating point
  estimates run on the \<open>f64\<close> of theory F64, with the functions whose precision Rust leaves open
  (\<open>ln\<close>, \<open>powf\<close>, \<open>powi\<close>) in the record \<open>libm\<close>.
\<close>

record libm =
  m_ln :: "f64 \<Rightarrow> f64"
  m_powf :: "f64 \<Rightarrow> f64 \<Rightarrow> f64"
  m_powi :: "f64 \<Rightarrow> int \<Rightarrow> f64"

section \<open>Shared helpers\<close>

definition weight_log_q32 :: "libm \<Rightarrow> f64 \<Rightarrow> i64" where
  "weight_log_q32 lm rate =
     (if \<not> is_finite rate \<or> f_le rate f_zero then i64_max div 4
      else f64_as_i64 (f_mul (f_neg (m_ln lm rate)) (f_lit (2 ^ 32))))"

definition q128_from_f64 :: "f64 \<Rightarrow> u256" where
  "q128_from_f64 rate =
     (if \<not> is_finite rate \<or> f_le rate f_zero then 0
      else u256_of (f64_as_word (f_mul (f_mul rate (f_lit (2 ^ 64))) (f_lit (2 ^ 64)))))"

definition apply_fee_rate :: "f64 \<Rightarrow> u32 \<Rightarrow> f64" where
  "apply_fee_rate rate fee_ppm =
     (let fee_factor = f_sub f_one (f_div (f64_of_word fee_ppm) (f_lit 1000000))
      in f_mul rate fee_factor)"

section \<open>Uniswap V2\<close>

definition v2_reserves :: "v2_pool_state \<Rightarrow> bool \<Rightarrow> u128 \<times> u128" where
  "v2_reserves state zero_for_one =
     (if zero_for_one then (v2_reserve0 state, v2_reserve1 state)
      else (v2_reserve1 state, v2_reserve0 state))"

definition v2_quote_exact_in :: "v2_pool_state \<Rightarrow> bool \<Rightarrow> u128 \<Rightarrow> u128 option" where
  "v2_quote_exact_in state zero_for_one amount_in =
     (if amount_in = 0 then Some 0
      else
        let (reserve_in, reserve_out) = v2_reserves state zero_for_one
        in if reserve_in = 0 \<or> reserve_out = 0 then None
           else
             let fee_factor = sat_sub 1000000 (ucast (v2_fee_ppm state)) :: u128;
                 amount_in_with_fee = sat_mul amount_in fee_factor;
                 numerator = sat_mul amount_in_with_fee reserve_out;
                 denominator = sat_add (sat_mul reserve_in 1000000) amount_in_with_fee
             in Some (numerator div denominator))"

definition v2_spot_rate :: "libm \<Rightarrow> v2_pool_state \<Rightarrow> bool \<Rightarrow> u256 \<times> i64 \<times> liquidity_info" where
  "v2_spot_rate lm state zero_for_one =
     (let (reserve_in, reserve_out) = v2_reserves state zero_for_one;
          raw = (if reserve_in = 0 then f_zero else f_div (f64_of_word reserve_out) (f64_of_word reserve_in));
          net = apply_fee_rate raw (v2_fee_ppm state);
          capacity = reserve_in div 10;
          estimated_usd_e8 = sat_mul (ucast (min reserve_out reserve_in) :: u64) 100
      in (q128_from_f64 net, weight_log_q32 lm net,
          \<lparr>l_estimated_usd_e8 = estimated_usd_e8, l_safe_capacity_in = capacity\<rparr>))"

section \<open>Aerodrome V2\<close>

definition one_e18 :: u256 where "one_e18 = 1000000000000000000"

definition oriented_reserves :: "aerodrome_v2_pool_state \<Rightarrow> bool \<Rightarrow> u128 \<times> u128 \<times> u128 \<times> u128" where
  "oriented_reserves state zero_for_one =
     (if zero_for_one then (av2_reserve0 state, av2_reserve1 state, av2_decimals0 state, av2_decimals1 state)
      else (av2_reserve1 state, av2_reserve0 state, av2_decimals1 state, av2_decimals0 state))"

definition amount_in_after_fee :: "u128 \<Rightarrow> u32 \<Rightarrow> u128 option" where
  "amount_in_after_fee amount_in fee_ppm =
     (if 1000000 \<le> (ucast fee_ppm :: u128) then None
      else Some (sat_mul amount_in (sat_sub 1000000 (ucast fee_ppm)) div 1000000))"

definition stable_f :: "u256 \<Rightarrow> u256 \<Rightarrow> u256 option" where
  "stable_f x0 y = do {
     m \<leftarrow> checked_mul x0 y; a \<leftarrow> checked_div m one_e18;
     m \<leftarrow> checked_mul x0 x0; x2 \<leftarrow> checked_div m one_e18;
     m \<leftarrow> checked_mul y y; y2 \<leftarrow> checked_div m one_e18;
     b \<leftarrow> checked_add x2 y2;
     m \<leftarrow> checked_mul a b; checked_div m one_e18 }"

definition stable_d :: "u256 \<Rightarrow> u256 \<Rightarrow> u256 option" where
  "stable_d x0 y = do {
     m \<leftarrow> checked_mul y y; y2 \<leftarrow> checked_div m one_e18;
     m \<leftarrow> checked_mul 3 x0; m \<leftarrow> checked_mul m y2; first \<leftarrow> checked_div m one_e18;
     m \<leftarrow> checked_mul x0 x0; x2 \<leftarrow> checked_div m one_e18;
     m \<leftarrow> checked_mul x2 x0; x3 \<leftarrow> checked_div m one_e18;
     checked_add first x3 }"

definition stable_k :: "u256 \<Rightarrow> u256 \<Rightarrow> u256 \<Rightarrow> u256 \<Rightarrow> u256 option" where
  "stable_k x y decimals0 decimals1 = do {
     m \<leftarrow> checked_mul x one_e18; x \<leftarrow> checked_div m decimals0;
     m \<leftarrow> checked_mul y one_e18; y \<leftarrow> checked_div m decimals1;
     stable_f x y }"

text \<open>One pass of the solver's loop: the result of the function, or the next \<open>y\<close>.\<close>

datatype solve_step = Solved "u256 option" | Continue u256

definition solve_below :: "u256 \<Rightarrow> u256 \<Rightarrow> u256 \<Rightarrow> u256 \<Rightarrow> solve_step" where
  "solve_below x0 xy y k =
     (case stable_d x0 y of None \<Rightarrow> Solved None
      | Some denom \<Rightarrow>
        if denom = 0 then Solved None
        else case do { d \<leftarrow> checked_sub xy k; m \<leftarrow> checked_mul d one_e18; checked_div m denom } of
          None \<Rightarrow> Solved None
        | Some dy \<Rightarrow>
          if dy = 0 then
            if k = xy then Solved (Some y)
            else case do { y1 \<leftarrow> checked_add y 1; stable_f x0 y1 } of
                None \<Rightarrow> Solved None
              | Some k1 \<Rightarrow>
                if xy < k1 then Solved (checked_add y 1)
                else (case checked_add y 1 of None \<Rightarrow> Solved None | Some y' \<Rightarrow> Continue y')
          else (case checked_add y dy of None \<Rightarrow> Solved None | Some y' \<Rightarrow> Continue y'))"

definition solve_above :: "u256 \<Rightarrow> u256 \<Rightarrow> u256 \<Rightarrow> u256 \<Rightarrow> solve_step" where
  "solve_above x0 xy y k =
     (case stable_d x0 y of None \<Rightarrow> Solved None
      | Some denom \<Rightarrow>
        if denom = 0 then Solved None
        else case do { d \<leftarrow> checked_sub k xy; m \<leftarrow> checked_mul d one_e18; checked_div m denom } of
          None \<Rightarrow> Solved None
        | Some dy \<Rightarrow>
          if dy = 0 then
            if k = xy then Solved (Some y)
            else case do { y1 \<leftarrow> checked_sub y 1; stable_f x0 y1 } of
                None \<Rightarrow> Solved None
              | Some v \<Rightarrow>
                if v < xy then Solved (Some y)
                else (case checked_sub y 1 of None \<Rightarrow> Solved None | Some y' \<Rightarrow> Continue y')
          else (case checked_sub y dy of None \<Rightarrow> Solved None | Some y' \<Rightarrow> Continue y'))"

definition solve_pass :: "u256 \<Rightarrow> u256 \<Rightarrow> u256 \<Rightarrow> solve_step" where
  "solve_pass x0 xy y =
     (case stable_f x0 y of None \<Rightarrow> Solved None
      | Some k \<Rightarrow> if k < xy then solve_below x0 xy y k else solve_above x0 xy y k)"

fun solve_loop :: "nat \<Rightarrow> u256 \<Rightarrow> u256 \<Rightarrow> u256 \<Rightarrow> u256 option" where
  "solve_loop 0 x0 xy y = None"
| "solve_loop (Suc n) x0 xy y =
     (case solve_pass x0 xy y of Solved r \<Rightarrow> r | Continue y' \<Rightarrow> solve_loop n x0 xy y')"

definition solve_stable_y :: "u256 \<Rightarrow> u256 \<Rightarrow> u256 \<Rightarrow> u256 option" where
  "solve_stable_y x0 xy y = solve_loop 255 x0 xy y"

definition stable_quote :: "u128 \<Rightarrow> u128 \<Rightarrow> u128 \<Rightarrow> u128 \<Rightarrow> u128 \<Rightarrow> u128 option" where
  "stable_quote amount_in reserve_in reserve_out decimals_in decimals_out =
     (if decimals_in = 0 \<or> decimals_out = 0 then None
      else
        let reserve_in = u256_of reserve_in; reserve_out = u256_of reserve_out;
            amount_in = u256_of amount_in;
            decimals_in = u256_of decimals_in; decimals_out = u256_of decimals_out
        in do {
          xy \<leftarrow> stable_k reserve_in reserve_out decimals_in decimals_out;
          m \<leftarrow> checked_mul reserve_in one_e18; reserve_in_scaled \<leftarrow> checked_div m decimals_in;
          m \<leftarrow> checked_mul reserve_out one_e18; reserve_out_scaled \<leftarrow> checked_div m decimals_out;
          m \<leftarrow> checked_mul amount_in one_e18; amount_in_scaled \<leftarrow> checked_div m decimals_in;
          x0 \<leftarrow> checked_add reserve_in_scaled amount_in_scaled;
          y \<leftarrow> solve_stable_y x0 xy reserve_out_scaled;
          dy_scaled \<leftarrow> checked_sub reserve_out_scaled y;
          m \<leftarrow> checked_mul dy_scaled decimals_out; r \<leftarrow> checked_div m one_e18;
          u128_of_u256 r })"

definition aero_quote_exact_in :: "aerodrome_v2_pool_state \<Rightarrow> bool \<Rightarrow> u128 \<Rightarrow> u128 option" where
  "aero_quote_exact_in state zero_for_one amount_in =
     (if amount_in = 0 then Some 0
      else do {
        amount_in \<leftarrow> amount_in_after_fee amount_in (av2_fee_ppm state);
        if amount_in = 0 then Some 0
        else
          let (reserve_in, reserve_out, decimals_in, decimals_out) = oriented_reserves state zero_for_one
          in if reserve_in = 0 \<or> reserve_out = 0 then None
             else if av2_stable state
             then stable_quote amount_in reserve_in reserve_out decimals_in decimals_out
             else Some (sat_mul amount_in reserve_out div sat_add reserve_in amount_in) })"

definition aero_spot_rate :: "libm \<Rightarrow> aerodrome_v2_pool_state \<Rightarrow> bool \<Rightarrow> u256 \<times> i64 \<times> liquidity_info" where
  "aero_spot_rate lm state zero_for_one =
     (let (reserve_in, reserve_out, _, _) = oriented_reserves state zero_for_one;
          raw = (if reserve_in = 0 then f_zero else f_div (f64_of_word reserve_out) (f64_of_word reserve_in));
          net = apply_fee_rate raw (av2_fee_ppm state);
          capacity = reserve_in div (if av2_stable state then 5 else 10);
          estimated_usd_e8 = sat_mul (ucast (min reserve_out reserve_in) :: u64) 100
      in (q128_from_f64 net, weight_log_q32 lm net,
          \<lparr>l_estimated_usd_e8 = estimated_usd_e8, l_safe_capacity_in = capacity\<rparr>))"

section \<open>Trader Joe LB\<close>

definition lb_reserves :: "trader_joe_lb_pool_state \<Rightarrow> bool \<Rightarrow> u128 \<times> u128" where
  "lb_reserves state swap_for_y =
     (if swap_for_y then (lb_reserve_x state, lb_reserve_y state)
      else (lb_reserve_y state, lb_reserve_x state))"

definition lb_quote_exact_in :: "trader_joe_lb_pool_state \<Rightarrow> bool \<Rightarrow> u128 \<Rightarrow> u128 option" where
  "lb_quote_exact_in state swap_for_y amount_in =
     (if amount_in = 0 then Some 0
      else
        let (reserve_in, reserve_out) = lb_reserves state swap_for_y
        in if reserve_in = 0 \<or> reserve_out = 0 then None
           else
             let amount_in_with_fee = sat_mul amount_in 997000;
                 numerator = sat_mul amount_in_with_fee reserve_out;
                 denominator = sat_add (sat_mul reserve_in 1000000) amount_in_with_fee
             in Some (numerator div denominator))"

definition active_bin_price :: "libm \<Rightarrow> trader_joe_lb_pool_state \<Rightarrow> f64 option" where
  "active_bin_price lm state =
     (if lb_active_id state = 0 then None
      else
        let exponent = uint (lb_active_id state) - 8388608;
            base = f_add f_one (f_div (f64_of_word (lb_bin_step state)) (f_lit 10000));
            price = m_powi lm base (signed_take_bit 31 exponent)
        in if is_finite price then Some price else None)"

definition lb_spot_rate :: "libm \<Rightarrow> trader_joe_lb_pool_state \<Rightarrow> bool \<Rightarrow> u256 \<times> i64 \<times> liquidity_info" where
  "lb_spot_rate lm state swap_for_y =
     (let active_price = (case active_bin_price lm state of Some p \<Rightarrow> p
            | None \<Rightarrow> if lb_reserve_x state = 0 then f_zero
                      else f_div (f64_of_word (lb_reserve_y state)) (f64_of_word (lb_reserve_x state)));
          raw = (if swap_for_y then active_price
                 else if f_lt f_zero active_price then f_div f_one active_price else f_zero);
          (reserve_in, reserve_out) = lb_reserves state swap_for_y;
          capacity = reserve_in div 10;
          estimated_usd_e8 = sat_mul (ucast (min reserve_out reserve_in) :: u64) 100
      in (q128_from_f64 raw, weight_log_q32 lm raw,
          \<lparr>l_estimated_usd_e8 = estimated_usd_e8, l_safe_capacity_in = capacity\<rparr>))"

section \<open>Uniswap V3\<close>

text \<open>\<open>str::parse::<f64>\<close>: an optional sign, then \<open>inf\<close>, \<open>infinity\<close> or \<open>nan\<close> in any case, or
  digits with an optional point and exponent, at least one digit in front of the exponent.\<close>

definition is_digit :: "char \<Rightarrow> bool" where "is_digit c = (digit_val c \<noteq> None)"

definition digits_value :: "string \<Rightarrow> nat" where
  "digits_value s = (case parse_digits 0 s of None \<Rightarrow> 0 | Some n \<Rightarrow> n)"

definition parse_exponent :: "string \<Rightarrow> int option" where
  "parse_exponent s =
     (case s of [] \<Rightarrow> Some 0
      | c # cs \<Rightarrow>
        if lower_char c \<noteq> CHR ''e'' then None
        else let neg = (take 1 cs = ''-''); ds = (if take 1 cs = ''-'' \<or> take 1 cs = ''+'' then drop 1 cs else cs)
             in if ds = [] \<or> \<not> list_all is_digit ds then None
                else Some (if neg then - int (digits_value ds) else int (digits_value ds)))"

definition parse_f64_number :: "bool \<Rightarrow> string \<Rightarrow> f64 option" where
  "parse_f64_number neg s =
     (let whole = takeWhile is_digit s; r = dropWhile is_digit s;
          frac = (if take 1 r = ''.'' then takeWhile is_digit (drop 1 r) else []);
          r' = (if take 1 r = ''.'' then dropWhile is_digit (drop 1 r) else r)
      in if whole = [] \<and> frac = [] then None
         else case parse_exponent r' of None \<Rightarrow> None
            | Some e \<Rightarrow>
              let m = of_nat (digits_value (whole @ frac)) :: rat; x = e - int (length frac)
              in Some (round_f64 neg (if 0 \<le> x then m * 10 ^ nat x else m / 10 ^ nat (- x))))"

definition parse_f64 :: "string \<Rightarrow> f64 option" where
  "parse_f64 s =
     (let neg = (take 1 s = ''-''); t = (if take 1 s = ''-'' \<or> take 1 s = ''+'' then drop 1 s else s);
          l = to_ascii_lowercase t
      in if l = ''inf'' \<or> l = ''infinity'' then Some (F_Inf neg)
         else if l = ''nan'' then Some F_NaN
         else parse_f64_number neg t)"

definition price_limit_bps :: "env \<Rightarrow> f64 option" where
  "price_limit_bps env =
     (let bps = unwrap_or (filter_opt (\<lambda>v. f_le f_zero v \<and> f_lt v (f_lit 10000))
            (Option.bind (env ''V3_SQRT_PRICE_LIMIT_BPS'') parse_f64)) (f_lit 50)
      in if f_lt f_zero bps then Some bps else None)"

text \<open>A decimal rendering read back as \<open>f64\<close> is the correctly rounded value; \<open>2f64.powi(96)\<close>
  is a power of two.\<close>

definition u256_to_f64 :: "u256 \<Rightarrow> f64" where "u256_to_f64 v = f64_of_word v"

definition price_limit_exceeded :: "env \<Rightarrow> f64 \<Rightarrow> f64 \<Rightarrow> bool \<Rightarrow> bool" where
  "price_limit_exceeded env sqrt_price sqrt_next zero_for_one =
     (case price_limit_bps env of None \<Rightarrow> False
      | Some bps \<Rightarrow>
        let factor = f_div bps (f_lit 10000)
        in if zero_for_one then f_lt sqrt_next (f_mul sqrt_price (f_sub f_one factor))
           else f_lt (f_mul sqrt_price (f_add f_one factor)) sqrt_next)"

definition price_limit_capacity_in :: "env \<Rightarrow> v3_pool_state \<Rightarrow> bool \<Rightarrow> u128 option" where
  "price_limit_capacity_in env state zero_for_one =
     Option.bind (price_limit_bps env) (\<lambda>bps.
       if v3_liquidity state = 0 \<or> v3_sqrt_price_x96 state = 0 then Some 0
       else
         let sqrt_price = f_div (u256_to_f64 (v3_sqrt_price_x96 state)) (f_lit (2 ^ 96));
             liquidity = f64_of_word (v3_liquidity state)
         in if \<not> is_finite sqrt_price \<or> f_le sqrt_price f_zero \<or> \<not> is_finite liquidity \<or> f_le liquidity f_zero
            then Some 0
            else
              let factor = f_div bps (f_lit 10000);
                  limit = (if zero_for_one then f_mul sqrt_price (f_sub f_one factor)
                           else f_mul sqrt_price (f_add f_one factor))
              in if zero_for_one \<and> f_le limit f_zero then Some 0
                 else
                   let amount_after_fee =
                         (if zero_for_one
                          then f_div (f_mul liquidity (f_sub sqrt_price limit)) (f_mul sqrt_price limit)
                          else f_mul liquidity (f_sub limit sqrt_price));
                       fee_factor = f_sub f_one (f_div (f64_of_word (v3_fee state)) (f_lit 1000000))
                   in if \<not> is_finite amount_after_fee \<or> f_le amount_after_fee f_zero \<or> f_le fee_factor f_zero
                      then Some 0
                      else Some (f64_to_u128 (f_div amount_after_fee fee_factor)))"

definition v3_spot_rate :: "env \<Rightarrow> libm \<Rightarrow> v3_pool_state \<Rightarrow> bool \<Rightarrow> u256 \<times> i64 \<times> liquidity_info" where
  "v3_spot_rate env lm state zero_for_one =
     (let sqrt_price = u256_to_f64 (v3_sqrt_price_x96 state);
          price_0_to_1 = (if f_le sqrt_price f_zero then f_zero
                          else m_powi lm (f_div sqrt_price (f_lit (2 ^ 96))) 2);
          raw = (if zero_for_one then price_0_to_1
                 else if f_eq price_0_to_1 f_zero then f_zero else f_div f_one price_0_to_1);
          net = apply_fee_rate raw (v3_fee state);
          safe_capacity_in = (case price_limit_capacity_in env state zero_for_one of
              Some capacity \<Rightarrow> min capacity (v3_liquidity state div 50)
            | None \<Rightarrow> v3_liquidity state div 50)
      in (q128_from_f64 net, weight_log_q32 lm net,
          \<lparr>l_estimated_usd_e8 = sat_mul (ucast (min (v3_liquidity state) (ucast (- 1 :: u64)))) 10,
           l_safe_capacity_in = safe_capacity_in\<rparr>))"

definition v3_fallback_quote :: "env \<Rightarrow> v3_pool_state \<Rightarrow> bool \<Rightarrow> u128 \<Rightarrow> u128" where
  "v3_fallback_quote env state zero_for_one amount_in =
     (if amount_in = 0 \<or> v3_liquidity state = 0 \<or> v3_sqrt_price_x96 state = 0 then 0
      else
        let sqrt_price = f_div (u256_to_f64 (v3_sqrt_price_x96 state)) (f_lit (2 ^ 96));
            liquidity = f64_of_word (v3_liquidity state);
            amount_after_fee = f_mul (f64_of_word amount_in)
              (f_sub f_one (f_div (f64_of_word (v3_fee state)) (f_lit 1000000)))
        in if \<not> is_finite sqrt_price \<or> f_le sqrt_price f_zero \<or> \<not> is_finite liquidity \<or> f_le liquidity f_zero
              \<or> \<not> is_finite amount_after_fee \<or> f_le amount_after_fee f_zero
           then 0
           else
             let sqrt_next =
                   (if zero_for_one
                    then f_div (f_mul liquidity sqrt_price) (f_add liquidity (f_mul amount_after_fee sqrt_price))
                    else f_add sqrt_price (f_div amount_after_fee liquidity))
             in if \<not> is_finite sqrt_next \<or> f_le sqrt_next f_zero then 0
                else if price_limit_exceeded env sqrt_price sqrt_next zero_for_one then 0
                else
                  let out =
                        (if zero_for_one then f_mul liquidity (f_sub sqrt_price sqrt_next)
                         else f_mul liquidity (f_sub (f_div f_one sqrt_price) (f_div f_one sqrt_next)))
                  in if \<not> is_finite out \<or> f_le out f_zero then 0 else f64_as_word out)"

section \<open>Curve\<close>

definition curve_spot_rate :: "libm \<Rightarrow> curve_pool_state \<Rightarrow> nat \<Rightarrow> nat \<Rightarrow> u256 \<times> i64 \<times> liquidity_info" where
  "curve_spot_rate lm state i j =
     (let balance_in = unwrap_or (nth_opt (cv_balances state) i) 0;
          balance_out = unwrap_or (nth_opt (cv_balances state) j) 0;
          amp_boost = f_add f_one (f_min (f_div (f64_of_word (cv_amp state)) (f_lit 10000)) (f_lit 3));
          raw = (if balance_in = 0 then f_zero
                 else f_mul (f_min (f_div (f64_of_word balance_out) (f64_of_word balance_in)) f_one) amp_boost);
          fee_factor = f_sub f_one (f_div (f64_of_word (cv_fee state)) (f_lit 1000000));
          net = f_mul raw fee_factor
      in (q128_from_f64 net, weight_log_q32 lm net,
          \<lparr>l_estimated_usd_e8 = sat_mul (ucast (min balance_in balance_out)) 100,
           l_safe_capacity_in = balance_in div 8\<rparr>))"

definition curve_fallback_quote :: "libm \<Rightarrow> curve_pool_state \<Rightarrow> nat \<Rightarrow> nat \<Rightarrow> u128 \<Rightarrow> u128" where
  "curve_fallback_quote lm state i j amount_in =
     (let (spot_q128, _, liq) = curve_spot_rate lm state i j;
          rate = f_div (u256_to_f64 spot_q128) (f_lit (2 ^ 128));
          penalty =
            (if l_safe_capacity_in liq = 0 then f_lit (4 / 10)
             else f_max (f_sub f_one (f_min (f_div (f64_of_word amount_in)
                    (f64_of_word (l_safe_capacity_in liq))) (f_lit (3 / 10)))) (f_lit (4 / 10)))
      in f64_as_word (f_mul (f_mul (f64_of_word amount_in) rate) penalty))"

section \<open>Balancer\<close>

definition balancer_spot_rate :: "libm \<Rightarrow> balancer_pool_state \<Rightarrow> nat \<Rightarrow> nat \<Rightarrow> u256 \<times> i64 \<times> liquidity_info" where
  "balancer_spot_rate lm state i j =
     (let e18 = f_lit 1000000000000000000;
          bi = f64_of_word (unwrap_or (nth_opt (bl_balances state) i) 0);
          bj = f64_of_word (unwrap_or (nth_opt (bl_balances state) j) 0);
          wi = f_div (f64_of_word (unwrap_or (nth_opt (bl_normalized_weights_1e18 state) i) 1)) e18;
          wj = f_div (f64_of_word (unwrap_or (nth_opt (bl_normalized_weights_1e18 state) j) 1)) e18;
          raw = (if f_le bi f_zero \<or> f_le bj f_zero \<or> f_le wi f_zero \<or> f_le wj f_zero then f_zero
                 else f_div (f_div bi wi) (f_div bj wj));
          fee_factor = f_sub f_one (f_div (f64_of_word (bl_swap_fee_ppm state)) (f_lit 1000000));
          net = (if f_eq raw f_zero then f_zero else f_mul (f_div f_one raw) fee_factor);
          least = (if bl_balances state = [] then 0 else Min (set (bl_balances state)))
      in (q128_from_f64 net, weight_log_q32 lm net,
          \<lparr>l_estimated_usd_e8 = (ucast (min least (ucast (- 1 :: u64))) :: u64) * 100,
           l_safe_capacity_in = unwrap_or (nth_opt (bl_balances state) i) 0 div 10\<rparr>))"

definition balancer_fallback_quote :: "libm \<Rightarrow> balancer_pool_state \<Rightarrow> nat \<Rightarrow> nat \<Rightarrow> u128 \<Rightarrow> u128" where
  "balancer_fallback_quote lm state i j amount_in =
     (let e18 = f_lit 1000000000000000000;
          bi = f64_of_word (unwrap_or (nth_opt (bl_balances state) i) 0);
          bo = f64_of_word (unwrap_or (nth_opt (bl_balances state) j) 0);
          wi = f_div (f64_of_word (unwrap_or (nth_opt (bl_normalized_weights_1e18 state) i) 1)) e18;
          wo = f_div (f64_of_word (unwrap_or (nth_opt (bl_normalized_weights_1e18 state) j) 1)) e18;
          fee_factor = f_sub f_one (f_div (f64_of_word (bl_swap_fee_ppm state)) (f_lit 1000000));
          ai = f_mul (f64_of_word amount_in) fee_factor
      in if f_le bi f_zero \<or> f_le bo f_zero \<or> f_le wi f_zero \<or> f_le wo f_zero then 0
         else
           let y = f_div bi (f_add bi ai);
               power = f_div wi wo;
               factor = f_sub f_one (m_powf lm y power)
           in f64_as_word (f_mul bo (f_max factor f_zero)))"

section \<open>The constant-product core\<close>

text \<open>Uniswap V2, Trader Joe LB and the volatile Aerodrome pools all end in this quotient.\<close>

definition cp_out :: "u128 \<Rightarrow> u128 \<Rightarrow> u128 \<Rightarrow> u128" where
  "cp_out d r a = sat_mul a r div sat_add d a"

lemma cp_out_bounded: "cp_out d r a \<le> r"
proof -
  let ?A = "unat a" and ?R = "unat r" and ?D = "unat d" and ?M = "2 ^ 128 - 1 :: nat"
  have A: "?A \<le> ?M" using unat_le_max [of a] by simp
  have "min (?A * ?R) ?M div min (?D + ?A) ?M \<le> (?A * ?R) div min (?D + ?A) ?M"
    by (rule div_le_mono) simp
  also have "\<dots> \<le> ?R"
  proof (cases "?A = 0")
    case False
    then have "(?A * ?R) div min (?D + ?A) ?M \<le> (?A * ?R) div ?A"
      using A by (intro div_le_mono2) auto
    with False show ?thesis by simp
  qed simp
  finally show ?thesis by (simp add: cp_out_def word_nat)
qed

lemma cp_out_exact:
  "unat a * unat r < 2 ^ 128 \<Longrightarrow> unat d + unat a < 2 ^ 128 \<Longrightarrow>
   unat (cp_out d r a) = unat a * unat r div (unat d + unat a)"
  by (simp add: cp_out_def word_nat)

lemma cp_out_saturated:
  "2 ^ 128 \<le> unat a * unat r \<Longrightarrow> unat d + unat a < 2 ^ 128 \<Longrightarrow>
   unat (cp_out d r a) = (2 ^ 128 - 1) div (unat d + unat a)"
  by (simp add: cp_out_def word_nat)

lemma share_mono:
  assumes "q * (d + a) \<le> a * (r :: nat)" and "q \<le> r" and "a \<le> b"
  shows "q * (d + b) \<le> b * r"
proof -
  obtain s where r: "r = q + s" using assms(2) le_Suc_ex by blast
  have "q * d \<le> a * s" using assms(1) unfolding r by (simp add: algebra_simps)
  also have "\<dots> \<le> b * s" using assms(3) by simp
  finally show ?thesis unfolding r by (simp add: algebra_simps)
qed

lemma quot_mono:
  assumes "a \<le> b" and "0 < a" shows "a * r div (d + a) \<le> b * r div (d + b :: nat)"
proof -
  have "a * r div (d + a) \<le> a * r div a" using assms by (intro div_le_mono2) auto
  then have "a * r div (d + a) \<le> r" using assms by simp
  from share_mono [OF div_times_less_eq_dividend this assms(1)]
  have q: "a * r div (d + a) * (d + b) \<le> b * r" .
  have pos: "0 < d + b" using assms by simp
  show ?thesis unfolding less_eq_div_iff_mult_less_eq [OF pos] by (rule q)
qed

lemma cp_out_mono:
  assumes "a \<le> b" and "a \<noteq> 0" and "unat b * unat r < 2 ^ 128" and "unat d + unat b < 2 ^ 128"
  shows "cp_out d r a \<le> cp_out d r b"
proof -
  have ab: "unat a \<le> unat b" and pos: "0 < unat a" using assms(1,2) by (auto simp: word_nat unat_gt_0)
  then have "unat a * unat r < 2 ^ 128" "unat d + unat a < 2 ^ 128"
    using assms(3,4) by (meson le_less_trans mult_le_mono1, linarith)
  with assms(3,4) ab pos show ?thesis
    by (simp add: word_le_nat_alt cp_out_exact quot_mono)
qed

text \<open>The product of the reserves does not fall when the quoted output leaves the pool.\<close>

lemma quot_product: "d * r \<le> (d + a) * (r - a * r div (d + a) :: nat)"
proof -
  have rest: "d * r \<le> (d + a) * r - x" if "x \<le> a * r" for x
    using that by (simp add: distrib_right)
  have "(d + a) * (a * r div (d + a)) \<le> a * r" by (rule times_div_less_eq_dividend)
  from rest [OF this] show ?thesis by (simp only: diff_mult_distrib2)
qed

lemma v2_quote_cp:
  "v2_quote_exact_in state dir amount_in =
     (if amount_in = 0 then Some 0
      else if fst (v2_reserves state dir) = 0 \<or> snd (v2_reserves state dir) = 0 then None
      else Some (cp_out (sat_mul (fst (v2_reserves state dir)) 1000000) (snd (v2_reserves state dir))
             (sat_mul amount_in (sat_sub 1000000 (ucast (v2_fee_ppm state))))))"
  by (simp add: v2_quote_exact_in_def cp_out_def Let_def split_beta)

lemma lb_quote_cp:
  "lb_quote_exact_in state dir amount_in =
     (if amount_in = 0 then Some 0
      else if fst (lb_reserves state dir) = 0 \<or> snd (lb_reserves state dir) = 0 then None
      else Some (cp_out (sat_mul (fst (lb_reserves state dir)) 1000000) (snd (lb_reserves state dir))
             (sat_mul amount_in 997000)))"
  by (simp add: lb_quote_exact_in_def cp_out_def Let_def split_beta)

section \<open>The stable solver\<close>

text \<open>What a root of the solver is: on or above the curve, and either exactly on it or with its
  predecessor strictly below it.\<close>

definition stable_root :: "u256 \<Rightarrow> u256 \<Rightarrow> u256 \<Rightarrow> bool" where
  "stable_root x0 xy y \<longleftrightarrow> (\<exists>k. stable_f x0 y = Some k \<and> xy \<le> k \<and>
     (k = xy \<or> (\<exists>k'. stable_f x0 (y - 1) = Some k' \<and> k' < xy)))"

lemma checked_sub_Some_eq: "checked_sub a b = Some c \<Longrightarrow> c = a - b"
  by (auto simp: checked_sub_def split: if_splits)

lemma checked_add_Some_eq: "checked_add a b = Some c \<Longrightarrow> c = a + b"
  by (auto simp: checked_add_def split: if_splits)

lemma solve_below_root:
  assumes "solve_below x0 xy y k = Solved (Some r)" and "stable_f x0 y = Some k" and "k < xy"
  shows "stable_root x0 xy r"
proof -
  from assms(1,3) have "\<exists>k1. stable_f x0 r = Some k1 \<and> xy < k1 \<and> r = y + 1"
    by (auto simp: solve_below_def Option.bind_eq_Some_conv dest!: checked_add_Some_eq
        split: option.splits if_splits)
  with assms(2,3) show ?thesis by (auto simp: stable_root_def)
qed

lemma solve_above_root:
  assumes "solve_above x0 xy y k = Solved (Some r)" and "stable_f x0 y = Some k" and "\<not> k < xy"
  shows "stable_root x0 xy r"
  using assms
  by (auto simp: solve_above_def stable_root_def Option.bind_eq_Some_conv dest!: checked_sub_Some_eq
      split: option.splits if_splits)

lemma solve_loop_root: "solve_loop n x0 xy y = Some r \<Longrightarrow> stable_root x0 xy r"
proof (induction n arbitrary: y)
  case (Suc n)
  then show ?case
    by (auto simp: solve_pass_def solve_below_root solve_above_root
        split: solve_step.splits option.splits if_splits)
qed simp

text \<open>The scaled reserve, times its decimals and back, does not exceed the reserve.\<close>

lemma descale_bound:
  assumes "s = r * e div d" and "t \<le> s" shows "t * d div e \<le> (r :: nat)"
proof -
  have "t * d \<le> r * e" using assms div_times_less_eq_dividend [of "r * e" d]
    by (meson le_trans mult_le_mono1)
  then have "t * d div e \<le> r * e div e" by (rule div_le_mono)
  then show ?thesis by (cases "e = 0") simp_all
qed

lemma unat_one_e18 [simp]: "unat one_e18 = 1000000000000000000"
  by (simp add: one_e18_def)

lemma stable_quote_bounded:
  assumes "stable_quote a ri ro di do' = Some out" shows "out \<le> ro"
proof -
  from assms obtain m s t m2 r and y :: u256 where
    "checked_mul (u256_of ro) one_e18 = Some m" "checked_div m (u256_of do') = Some s"
    "unat t = unat s - unat y" "checked_mul t (u256_of do') = Some m2" "checked_div m2 one_e18 = Some r"
    "u128_of_u256 r = Some out"
    by (auto simp: stable_quote_def Let_def Option.bind_eq_Some_conv checked_sub_Some split: if_splits)
  then show ?thesis
    using descale_bound [of "unat s" "unat ro" "10 ^ 18" "unat do'" "unat t"]
    by (simp add: word_nat checked_Some u128_of_u256_Some)
qed

section \<open>The contract of a quote\<close>

text \<open>What the routers rely on when they quote a pool locally: nothing comes out for nothing, and a
  pool never pays more than it holds.\<close>

locale bounded_quote =
  fixes quote :: "'s \<Rightarrow> bool \<Rightarrow> u128 \<Rightarrow> u128 option"
    and reserve_out :: "'s \<Rightarrow> bool \<Rightarrow> u128"
  assumes zero_in: "quote s dir 0 = Some 0"
    and bounded: "quote s dir a = Some out \<Longrightarrow> out \<le> reserve_out s dir"
begin

lemma empty_reserve: "reserve_out s dir = 0 \<Longrightarrow> quote s dir a = Some out \<Longrightarrow> out = 0"
  using bounded by fastforce

text \<open>A trade split over several pools is paid out of their reserves together.\<close>

lemma splits_bounded:
  "list_all2 (\<lambda>(s, dir, a) out. quote s dir a = Some out) legs outs \<Longrightarrow>
   sum_list (map unat outs) \<le> sum_list (map (\<lambda>(s, dir, a). unat (reserve_out s dir)) legs)"
proof (induction legs outs rule: list_all2_induct)
  case (Cons leg legs out outs)
  then have "unat out \<le> unat (case leg of (s, dir, a) \<Rightarrow> reserve_out s dir)"
    using bounded by (auto simp: word_nat split: prod.splits)
  with Cons show ?case by (auto split: prod.splits)
qed simp

end

lemma aero_quote_bounded:
  assumes "aero_quote_exact_in s dir a = Some out"
  shows "out \<le> fst (snd (oriented_reserves s dir))"
proof (cases "a = 0")
  case False
  with assms obtain a' where a': "amount_in_after_fee a (av2_fee_ppm s) = Some a'"
    by (auto simp: aero_quote_exact_in_def Option.bind_eq_Some_conv)
  obtain ri ro di do' where r: "oriented_reserves s dir = (ri, ro, di, do')"
    by (cases "oriented_reserves s dir") auto
  from assms False a' r show ?thesis
    using stable_quote_bounded [of a' ri ro di do' out] cp_out_bounded [of ri ro a']
    by (auto simp: aero_quote_exact_in_def cp_out_def split: if_splits)
qed (use assms in \<open>simp add: aero_quote_exact_in_def\<close>)

interpretation v2q: bounded_quote v2_quote_exact_in "\<lambda>s dir. snd (v2_reserves s dir)"
  by unfold_locales (auto simp: v2_quote_cp cp_out_bounded split: if_splits)

interpretation lbq: bounded_quote lb_quote_exact_in "\<lambda>s dir. snd (lb_reserves s dir)"
  by unfold_locales (auto simp: lb_quote_cp cp_out_bounded split: if_splits)

interpretation aeroq: bounded_quote aero_quote_exact_in "\<lambda>s dir. fst (snd (oriented_reserves s dir))"
  by unfold_locales (simp add: aero_quote_exact_in_def, rule aero_quote_bounded)

lemma unat_million [simp]: "unat (1000000 :: u128) = 1000000"
  by simp

lemma unat_fee_factor:
  "unat (sat_sub 1000000 (ucast fee) :: u128) = 1000000 - unat (fee :: u32)"
proof -
  have "unat (ucast fee :: u128) = unat fee" by (simp add: unat_ucast_up)
  then show ?thesis by (simp add: word_nat)
qed

lemma unat_sat_mul_exact:
  "unat a * unat b < 2 ^ LENGTH('a) \<Longrightarrow> unat (sat_mul a b :: 'a::len word) = unat a * unat b"
  by (simp add: word_nat)

section \<open>Properties\<close>

definition demo_v2 :: "u128 \<Rightarrow> u128 \<Rightarrow> v2_pool_state" where
  "demo_v2 r0 r1 = \<lparr>v2_reserve0 = r0, v2_reserve1 = r1, v2_fee_ppm = 3000\<rparr>"

text \<open>C12: no local quote of a Uniswap V2, Trader Joe LB or Aerodrome pool (volatile or stable)
  exceeds the reserve of the output token, whatever the amounts, the fee and the saturations.\<close>

theorem local_quotes_bounded:
  "(v2_quote_exact_in s dir a = Some out \<longrightarrow> out \<le> snd (v2_reserves s dir)) \<and>
   (lb_quote_exact_in l dir a = Some out \<longrightarrow> out \<le> snd (lb_reserves l dir)) \<and>
   (aero_quote_exact_in e dir a = Some out \<longrightarrow> out \<le> fst (snd (oriented_reserves e dir)))"
  by (intro conjI impI v2q.bounded lbq.bounded aeroq.bounded)

theorem local_quotes_bounded_witness:
  "v2_quote_exact_in (demo_v2 1000000 2000000) True 1000 = Some 1992 \<and> (1992 :: u128) \<le> 2000000"
proof -
  have q: "v2_quote_exact_in (demo_v2 1000000 2000000) True 1000 = Some 1992"
    by (simp add: v2_quote_exact_in_def demo_v2_def v2_reserves_def sat_mul_def sat_sub_def sat_add_def)
  with local_quotes_bounded [of "demo_v2 1000000 2000000" True 1000 1992]
  show ?thesis by (simp add: demo_v2_def v2_reserves_def)
qed

text \<open>The effective input of a V2 swap, its fee parts in millionths.\<close>

definition v2_fee_parts :: "v2_pool_state \<Rightarrow> u128 \<Rightarrow> nat" where
  "v2_fee_parts s a = unat a * (1000000 - unat (v2_fee_ppm s))"

lemma v2_effective_input:
  "v2_fee_parts s a < 2 ^ 128 \<Longrightarrow>
   unat (sat_mul a (sat_sub 1000000 (ucast (v2_fee_ppm s))) :: u128) = v2_fee_parts s a"
  by (simp add: v2_fee_parts_def unat_sat_mul unat_fee_factor)

lemma v2_fee_parts_le:
  assumes "ro \<noteq> 0" and "v2_fee_parts s a * unat (ro :: u128) < M" shows "v2_fee_parts s a < M"
proof -
  have "0 < unat ro" using assms(1) by (simp add: unat_gt_0)
  then have "v2_fee_parts s a * 1 \<le> v2_fee_parts s a * unat ro" by (intro mult_le_mono2) simp
  with assms(2) show ?thesis by linarith
qed

text \<open>C30: while no product overflows, a Uniswap V2 quote is the exact constant-product formula,
  \<open>a (10^6 - fee) r_out / (10^6 r_in + a (10^6 - fee))\<close> rounded down, and taking that output out
  of the pool does not lower the product of the reserves.\<close>

theorem v2_quote_exact:
  assumes "v2_reserves s dir = (ri, ro)" and "a \<noteq> 0" and "ri \<noteq> 0" and "ro \<noteq> 0"
    and "v2_fee_parts s a * unat ro < 2 ^ 128" and "1000000 * unat ri + v2_fee_parts s a < 2 ^ 128"
  shows "\<exists>out. v2_quote_exact_in s dir a = Some out \<and>
    unat out = v2_fee_parts s a * unat ro div (1000000 * unat ri + v2_fee_parts s a) \<and>
    1000000 * unat ri * unat ro \<le> (1000000 * unat ri + v2_fee_parts s a) * (unat ro - unat out)"
proof -
  let ?d = "sat_mul ri 1000000" and ?a = "sat_mul a (sat_sub 1000000 (ucast (v2_fee_ppm s))) :: u128"
  have d: "unat ?d = 1000000 * unat ri" using assms(6) by (simp add: unat_sat_mul)
  have e: "unat ?a = v2_fee_parts s a" using v2_fee_parts_le [OF assms(4,5)] by (rule v2_effective_input)
  have out: "unat (cp_out ?d ro ?a) = v2_fee_parts s a * unat ro div (1000000 * unat ri + v2_fee_parts s a)"
    using assms(5,6) cp_out_exact [of ?a ro ?d] unfolding d e by simp
  show ?thesis
    using assms(1-4) out quot_product [of "1000000 * unat ri" "unat ro" "v2_fee_parts s a"]
    by (simp add: v2_quote_cp)
qed

theorem v2_quote_exact_witness:
  "\<exists>out. v2_quote_exact_in (demo_v2 1000000 2000000) True 1000 = Some out \<and> unat out = 1992"
  using v2_quote_exact [of "demo_v2 1000000 2000000" True 1000000 2000000 1000]
  by (auto simp: demo_v2_def v2_reserves_def v2_fee_parts_def)

text \<open>the saturation of the numerator. Once \<open>a (10^6 - fee) r_out\<close> reaches \<open>2^128\<close> - which for
  a pool of two 18-decimal tokens it does on every realistic trade - the quote is
  \<open>(2^128 - 1) / (10^6 r_in + a (10^6 - fee))\<close>: it no longer depends on the reserve of the output
  token, and a larger input is quoted no larger an output.\<close>

theorem v2_quote_saturates:
  assumes "v2_reserves s dir = (ri, ro)" and "a \<noteq> 0" and "ri \<noteq> 0" and "ro \<noteq> 0"
    and "2 ^ 128 \<le> v2_fee_parts s a * unat ro" and "1000000 * unat ri + v2_fee_parts s b < 2 ^ 128"
    and "a \<le> b"
  shows "\<exists>out out'. v2_quote_exact_in s dir a = Some out \<and> v2_quote_exact_in s dir b = Some out' \<and>
    unat out = (2 ^ 128 - 1) div (1000000 * unat ri + v2_fee_parts s a) \<and> out' \<le> out"
proof -
  let ?d = "sat_mul ri 1000000" and ?e = "\<lambda>x. sat_mul x (sat_sub 1000000 (ucast (v2_fee_ppm s))) :: u128"
  have ab: "unat a \<le> unat b" using assms(7) by (simp add: word_nat)
  then have fp: "v2_fee_parts s a \<le> v2_fee_parts s b" by (simp add: v2_fee_parts_def)
  have d: "unat ?d = 1000000 * unat ri" using assms(6) by (simp add: unat_sat_mul)
  have e: "unat (?e a) = v2_fee_parts s a" "unat (?e b) = v2_fee_parts s b"
    using assms(6) fp by (intro v2_effective_input; linarith)+
  have sat: "2 ^ 128 \<le> v2_fee_parts s b * unat ro"
    using assms(5) fp by (meson le_trans mult_le_mono1)
  have a: "unat (cp_out ?d ro (?e a)) = (2 ^ 128 - 1) div (1000000 * unat ri + v2_fee_parts s a)"
    using assms(5,6) fp cp_out_saturated [of "?e a" ro ?d] unfolding d e by simp
  have b: "unat (cp_out ?d ro (?e b)) = (2 ^ 128 - 1) div (1000000 * unat ri + v2_fee_parts s b)"
    using sat assms(6) cp_out_saturated [of "?e b" ro ?d] unfolding d e by simp
  have "0 < unat ri" using assms(3) by (simp add: unat_gt_0)
  then have "unat (cp_out ?d ro (?e b)) \<le> unat (cp_out ?d ro (?e a))"
    unfolding a b using fp by (intro div_le_mono2) auto
  moreover have "b \<noteq> 0" using assms(2) ab by (metis le_zero_eq unat_eq_zero)
  ultimately show ?thesis using assms(1-4) a by (simp add: v2_quote_cp word_le_nat_alt)
qed

text \<open>One token of 18 decimals into a pool of a thousand of each: quoted as 0.00000034 tokens
  instead of 0.996.\<close>

theorem v2_quote_saturates_witness:
  "\<exists>out. v2_quote_exact_in (demo_v2 (10 ^ 21) (10 ^ 21)) True (10 ^ 18) = Some out \<and> unat out = 339943443307"
  using v2_quote_saturates [of "demo_v2 (10 ^ 21) (10 ^ 21)" True "10 ^ 21" "10 ^ 21" "10 ^ 18" "10 ^ 18"]
  by (auto simp: demo_v2_def v2_reserves_def v2_fee_parts_def)

text \<open>below the saturation a larger input is never quoted a smaller output.\<close>

theorem v2_quote_monotone:
  assumes "v2_reserves s dir = (ri, ro)" and "a \<le> b"
    and "v2_fee_parts s b * unat ro < 2 ^ 128" and "1000000 * unat ri + v2_fee_parts s b < 2 ^ 128"
    and "v2_quote_exact_in s dir a = Some out" and "v2_quote_exact_in s dir b = Some out'"
  shows "out \<le> out'"
proof (cases "a = 0 \<or> v2_fee_parts s a = 0")
  case True
  then have "out = 0"
    using assms(1,5) by (auto simp: v2_quote_cp v2_fee_parts_def cp_out_def word_unat_eq_iff
        unat_sat_mul unat_fee_factor unat_div_distrib split: if_splits)
  then show ?thesis by simp
next
  case False
  then have nz: "a \<noteq> 0" "b \<noteq> 0" "ri \<noteq> 0" "ro \<noteq> 0"
    using assms(1,2,5) by (auto simp: v2_quote_cp split: if_splits)
  have ab: "unat a \<le> unat b" using assms(2) by (simp add: word_nat)
  then have fp: "v2_fee_parts s a \<le> v2_fee_parts s b" by (simp add: v2_fee_parts_def)
  then have fa: "v2_fee_parts s a * unat ro < 2 ^ 128" "1000000 * unat ri + v2_fee_parts s a < 2 ^ 128"
    using assms(3,4) by (meson le_less_trans mult_le_mono1, linarith)
  from v2_quote_exact [OF assms(1) nz(1,3,4) fa] v2_quote_exact [OF assms(1) nz(2,3,4) assms(3,4)]
  show ?thesis using assms(5,6) fp False by (simp add: word_nat quot_mono)
qed

theorem v2_quote_monotone_witness:
  "\<exists>out out'. v2_quote_exact_in (demo_v2 1000000 2000000) True 1000 = Some out \<and>
     v2_quote_exact_in (demo_v2 1000000 2000000) True 5000 = Some out' \<and> out \<le> out'"
proof -
  let ?s = "demo_v2 1000000 2000000"
  obtain out where a: "v2_quote_exact_in ?s True 1000 = Some out"
    by (simp add: v2_quote_cp demo_v2_def v2_reserves_def)
  obtain out' where b: "v2_quote_exact_in ?s True 5000 = Some out'"
    by (simp add: v2_quote_cp demo_v2_def v2_reserves_def)
  have "out \<le> out'"
    by (rule v2_quote_monotone [OF _ _ _ _ a b, of 1000000 2000000])
      (simp_all add: demo_v2_def v2_reserves_def v2_fee_parts_def)
  with a b show ?thesis by blast
qed

text \<open>C29: whenever Aerodrome's solver returns a \<open>y\<close>, the invariant \<open>f (x0, y)\<close> is at least the
  target: the curve is met exactly, or \<open>y\<close> is the least value above it in the sense that its
  predecessor lies strictly below. A stable swap so computed does not lower the invariant.\<close>

theorem solve_stable_y_root:
  assumes "solve_stable_y x0 xy y0 = Some y"
  shows "\<exists>k. stable_f x0 y = Some k \<and> xy \<le> k \<and> (k = xy \<or> (\<exists>k'. stable_f x0 (y - 1) = Some k' \<and> k' < xy))"
  using solve_loop_root [OF assms [unfolded solve_stable_y_def]] by (simp add: stable_root_def)

text \<open>With \<open>x = 1\<close> and the curve through \<open>(1, 1)\<close> (scaled by \<open>10^18\<close>), started at the
  root.\<close>

lemma solve_loop_pos:
  "0 < n \<Longrightarrow> solve_loop n x0 xy y =
     (case solve_pass x0 xy y of Solved r \<Rightarrow> r | Continue y' \<Rightarrow> solve_loop (n - 1) x0 xy y')"
  by (cases n) (simp_all split: solve_step.split)

lemmas stable_eval = stable_f_def stable_d_def
  checked_mul_def checked_div_def checked_add_def one_e18_def

theorem solve_stable_y_root_witness:
  "solve_stable_y 1000000000000000000 2000000000000000000 1000000000000000000 = Some 1000000000000000000 \<and>
   (\<exists>k. stable_f 1000000000000000000 1000000000000000000 = Some k \<and> 2000000000000000000 \<le> k)"
proof -
  have f0: "stable_f 1000000000000000000 1000000000000000000 = Some 2000000000000000000"
    by (simp add: stable_eval)
  have d0: "stable_d 1000000000000000000 1000000000000000000 = Some 4000000000000000000"
    by (simp add: stable_eval)
  have p0: "solve_pass 1000000000000000000 2000000000000000000 1000000000000000000 = Solved (Some 1000000000000000000)"
    by (simp add: solve_pass_def solve_above_def f0 d0 checked_sub_def checked_mul_def checked_div_def one_e18_def)
  have s: "solve_stable_y 1000000000000000000 2000000000000000000 1000000000000000000 = Some 1000000000000000000"
    unfolding solve_stable_y_def by (simp add: solve_loop_pos p0)
  with solve_stable_y_root [OF s] show ?thesis by blast
qed

end
