(* ===== verification/Config.thy ===== *)
theory Config
  imports Amm
begin

text \<open>
  \<open>src/config.rs\<close>: the settings of a run, computed by \<open>Settings::load\<close> from the chain's TOML file
  and the process environment. The file system and the TOML parser are one argument
  (\<open>read_config\<close>, from the config path to the parsed file or \<open>None\<close>), \<open>Address::from_str\<close> of
  the alloy crate another. White space in \<open>trim\<close> is ASCII white space.
\<close>

datatype config_error = ReadConfig string | ChainMismatch string string | EnvMissing string | EnvUnset string
  | InvalidAddress string | BadRealizationBps u32 | UnsupportedAmm string | UnsupportedDiscovery string
  | DuplicateFactory string string address

section \<open>Settings\<close>

record rpc_settings =
  rp_public_rpc_url :: string
  rp_fallback_rpc_url :: "string option"
  rp_preconf_rpc_url :: "string option"
  rp_ws_url :: "string option"
  rp_protected_rpc_url :: "string option"
  rp_private_submit_method :: string
  rp_simulate_method :: string

record execution_settings =
  xs_allow_public_fallback :: bool
  xs_require_fresh_simulation :: bool
  xs_enable_nonce_replacement :: bool
  xs_nonce_bump_priority_fee_wei :: u128
  xs_nonce_bump_base_fee_wei :: u128

record contract_settings =
  ct_executor_address :: "address option"
  ct_aave_pool :: "address option"
  ct_strict_target_allowlist :: bool

record risk_settings =
  rk_max_hops :: nat
  rk_screening_margin_bps :: u32
  rk_min_net_profit :: i128
  rk_min_net_profit_usd_e8 :: u128
  rk_min_trade_usd_e8 :: u128
  rk_poll_interval_ms :: u64
  rk_event_backfill_blocks :: u64
  rk_staleness_timeout_ms :: u64
  rk_gas_risk_buffer_pct :: f64
  rk_gas_price_ceiling_wei :: u128
  rk_max_position :: u128
  rk_max_position_usd_e8 :: u128
  rk_max_flash_loan :: u128
  rk_max_flash_loan_usd_e8 :: u128
  rk_daily_loss_limit :: i128
  rk_daily_loss_limit_usd_e8 :: u128
  rk_min_profit_realization_bps :: u32
  rk_max_concurrent_tx :: nat
  rk_pool_health_min_bps :: u16
  rk_stable_depeg_cutoff_e6 :: u32

record search_settings =
  se_top_k_paths_per_side :: nat
  se_max_virtual_branches_per_node :: nat
  se_path_beam_width :: nat
  se_max_candidates_per_refresh :: nat
  se_candidate_selection_buffer_multiplier :: nat
  se_dedup_token_paths :: bool
  se_max_pair_edges_per_pair :: nat
  se_max_split_parallel_pools :: nat

record token_config =
  tc_symbol :: string
  tc_address :: address
  tc_decimals :: u8
  tc_is_stable :: bool
  tc_is_cycle_anchor :: bool
  tc_flash_loan_enabled :: bool
  tc_allow_self_funded :: bool
  tc_manual_price_usd_e8 :: "u64 option"
  tc_max_position_usd_e8 :: "u128 option"
  tc_max_flash_loan_usd_e8 :: "u128 option"

record universe_policy =
  up_venues :: "string list"
  up_symbols :: "string list"

definition symbol_allowed :: "universe_policy \<Rightarrow> string \<Rightarrow> bool" where
  "symbol_allowed p symbol =
     (up_symbols p = [] \<or> list_ex (\<lambda>allowed. eq_ignore_ascii_case allowed symbol) (up_symbols p))"

record dex_config =
  dc_name :: string
  dc_amm_kind :: amm_kind
  dc_discovery_kind :: discovery_kind
  dc_factory :: "address option"
  dc_registry :: "address option"
  dc_vault :: "address option"
  dc_quoter :: "address option"
  dc_fee_ppm :: u32
  dc_start_block :: u64
  dc_enabled :: bool

record settings =
  st_chain :: chain
  st_chain_id :: u64
  st_native_symbol :: string
  st_operator_private_key :: "string option"
  st_deployer_private_key :: "string option"
  st_safe_owner :: "address option"
  st_simulation_only :: bool
  st_json_logs :: bool
  st_prometheus_bind :: string
  st_rpc :: rpc_settings
  st_contracts :: contract_settings
  st_risk :: risk_settings
  st_search :: search_settings
  st_policy :: universe_policy
  st_execution :: execution_settings
  st_tokens :: "token_config list"
  st_dexes :: "dex_config list"

section \<open>The parsed file\<close>

record file_search_config =
  fs_top_k_paths_per_side :: "nat option"
  fs_max_virtual_branches_per_node :: "nat option"
  fs_path_beam_width :: "nat option"
  fs_max_candidates_per_refresh :: "nat option"
  fs_candidate_selection_buffer_multiplier :: "nat option"
  fs_dedup_token_paths :: "bool option"
  fs_max_pair_edges_per_pair :: "nat option"
  fs_max_split_parallel_pools :: "nat option"

record file_token_config =
  ft_symbol :: string
  ft_address_env :: string
  ft_decimals :: u8
  ft_is_stable :: bool
  ft_is_cycle_anchor :: "bool option"
  ft_flash_loan_enabled :: "bool option"
  ft_allow_self_funded :: "bool option"
  ft_price_env :: string
  ft_max_position_usd_e8 :: "u64 option"
  ft_max_flash_loan_usd_e8 :: "u64 option"

record file_dex_config =
  fd_name :: string
  fd_amm :: string
  fd_discovery :: string
  fd_factory_env :: string
  fd_quoter_env :: string
  fd_registry_env :: string
  fd_vault_env :: string
  fd_fee_ppm :: u32
  fd_start_block :: u64
  fd_enabled :: bool

text \<open>The file's own struct, as a datatype with selectors: it is never updated.\<close>

datatype file_config = FileConfig
  (fc_chain: string) (fc_chain_id: u64) (fc_native_symbol: string)
  (fc_venues: "string list option") (fc_symbols: "string list option")
  (fc_policy_venues: "string list option") (fc_policy_symbols: "string list option")
  (fc_max_hops: nat) (fc_screening_margin_bps: u32) (fc_min_net_profit_default: i64)
  (fc_min_net_profit_usd_e8: "u64 option") (fc_min_trade_usd_e8: "u64 option")
  (fc_poll_interval_ms: u64) (fc_event_backfill_blocks: u64) (fc_staleness_timeout_ms: u64)
  (fc_gas_risk_buffer_pct: f64) (fc_gas_price_ceiling_wei: u64)
  (fc_max_position_default: u64) (fc_max_position_usd_e8: "u64 option")
  (fc_max_flash_loan_default: u64) (fc_max_flash_loan_usd_e8: "u64 option")
  (fc_daily_loss_limit_default: i64) (fc_daily_loss_limit_usd_e8: "u64 option")
  (fc_min_profit_realization_bps: "u32 option") (fc_pool_health_min_bps: u16)
  (fc_stable_depeg_cutoff_e6: u32) (fc_strict_target_allowlist: bool)
  (fc_search: file_search_config) (fc_tokens: "file_token_config list") (fc_dexes: "file_dex_config list")

section \<open>Environment readers\<close>

text \<open>The two setup markers, in UTF-8.\<close>

definition marker_check :: string where
  "marker_check = map char_of [0xED, 0x99, 0x95, 0xEC, 0x9D, 0xB8, 0x20, 0xED, 0x95, 0x84, 0xEC, 0x9A, 0x94 :: nat]"

definition marker_setup :: string where
  "marker_setup = map char_of [0xEC, 0xB6, 0x94, 0xEA, 0xB0, 0x80, 0x20, 0xEC, 0x84, 0xB8, 0xED, 0x8C, 0x85, 0x20,
     0xED, 0x95, 0x84, 0xEC, 0x9A, 0x94 :: nat]"

definition trim_quotes :: "string \<Rightarrow> string" where
  "trim_quotes s = rev (dropWhile (\<lambda>c. c = CHR 0x22) (rev (dropWhile (\<lambda>c. c = CHR 0x22) s)))"

definition is_unset_marker :: "string \<Rightarrow> bool" where
  "is_unset_marker value =
     (let trimmed = trim_quotes (trim value)
      in trimmed = [] \<or> str_contains trimmed marker_check \<or> str_contains trimmed marker_setup)"

definition env_opt :: "env \<Rightarrow> string \<Rightarrow> string option" where
  "env_opt env key = filter_opt (\<lambda>v. \<not> is_unset_marker v) (env key)"

definition env_req :: "env \<Rightarrow> string \<Rightarrow> config_error + string" where
  "env_req env key =
     (case env key of None \<Rightarrow> Inl (EnvMissing key)
      | Some value \<Rightarrow> if is_unset_marker value then Inl (EnvUnset key) else Inr value)"

definition env_or :: "env \<Rightarrow> string \<Rightarrow> string \<Rightarrow> string" where
  "env_or env key def = unwrap_or (env key) def"

definition cfg_env_csv :: "env \<Rightarrow> string \<Rightarrow> string list" where
  "cfg_env_csv env key =
     unwrap_or (map_option (\<lambda>v. filter (\<lambda>p. p \<noteq> []) (map trim (split_char (CHR '','') v))) (env_opt env key)) []"

definition env_opt_word :: "env \<Rightarrow> string \<Rightarrow> 'a::len word option" where
  "env_opt_word env key = Option.bind (env_opt env key) parse_word"

definition parse_i128 :: "string \<Rightarrow> i128 option" where
  "parse_i128 s =
     (case s of CHR ''-'' # ds \<Rightarrow>
        (if ds = [] \<or> \<not> list_all is_digit ds then None
         else let n = - int (digits_value ds) in if i128_min \<le> n then Some n else None)
      | _ \<Rightarrow> (case parse_nat s of None \<Rightarrow> None
              | Some n \<Rightarrow> if int n \<le> i128_max then Some (int n) else None))"

definition env_opt_i128 :: "env \<Rightarrow> string \<Rightarrow> i128 option" where
  "env_opt_i128 env key = Option.bind (env_opt env key) parse_i128"

definition env_opt_usize :: "env \<Rightarrow> string \<Rightarrow> nat option" where
  "env_opt_usize env key = Option.bind (env_opt env key) parse_usize"

definition env_opt_f64 :: "env \<Rightarrow> string \<Rightarrow> f64 option" where
  "env_opt_f64 env key = Option.bind (env_opt env key) parse_f64"

definition opt_or :: "'a option \<Rightarrow> 'a option \<Rightarrow> 'a option" where
  "opt_or a b = (case a of None \<Rightarrow> b | Some x \<Rightarrow> Some x)"

definition configured_usize :: "env \<Rightarrow> string \<Rightarrow> nat option \<Rightarrow> nat \<Rightarrow> nat" where
  "configured_usize env key file_value def =
     unwrap_or (opt_or (filter_opt (\<lambda>v. 0 < v) (env_opt_usize env key)) (filter_opt (\<lambda>v. 0 < v) file_value)) def"

definition cfg_env_bool :: "env \<Rightarrow> string \<Rightarrow> bool \<Rightarrow> bool" where
  "cfg_env_bool env key def =
     unwrap_or (map_option (\<lambda>v. v \<in> set [''1'', ''true'', ''TRUE'', ''yes'', ''YES'']) (env_opt env key)) def"

section \<open>Addresses and exchanges\<close>

definition cfg_parse_address :: "(string \<Rightarrow> address option) \<Rightarrow> string \<Rightarrow> config_error + address" where
  "cfg_parse_address address_of v =
     (case address_of v of None \<Rightarrow> Inl (InvalidAddress v) | Some a \<Rightarrow> Inr a)"

definition parse_env_address_opt ::
  "(string \<Rightarrow> address option) \<Rightarrow> env \<Rightarrow> string \<Rightarrow> config_error + address option" where
  "parse_env_address_opt address_of env key =
     (case env_opt env key of None \<Rightarrow> Inr None
      | Some v \<Rightarrow> res_bind (cfg_parse_address address_of v) (\<lambda>a. Inr (Some a)))"

definition resolve_address_from_env_name ::
  "(string \<Rightarrow> address option) \<Rightarrow> env \<Rightarrow> string \<Rightarrow> config_error + address option" where
  "resolve_address_from_env_name address_of env env_name =
     (if trim env_name = [] then Inr None
      else case env_opt env env_name of
          Some v \<Rightarrow> if trim v \<noteq> [] then res_bind (cfg_parse_address address_of v) (\<lambda>a. Inr (Some a)) else Inr None
        | None \<Rightarrow> Inr None)"

text \<open>The duplicate check; the map of seen keys holds the exchange's name.\<close>

fun check_factories ::
  "(discovery_kind \<times> amm_kind \<times> address \<rightharpoonup> string) \<Rightarrow> dex_config list \<Rightarrow> config_error + unit" where
  "check_factories seen [] = Inr ()"
| "check_factories seen (dex # rest) =
     (if \<not> dc_enabled dex then check_factories seen rest
      else case dc_factory dex of
          None \<Rightarrow> check_factories seen rest
        | Some factory \<Rightarrow>
          (let key = (dc_discovery_kind dex, dc_amm_kind dex, factory)
           in case seen key of
                Some existing \<Rightarrow> Inl (DuplicateFactory existing (dc_name dex) factory)
              | None \<Rightarrow> check_factories (seen(key \<mapsto> dc_name dex)) rest))"

definition validate_dex_configs :: "env \<Rightarrow> dex_config list \<Rightarrow> config_error + unit" where
  "validate_dex_configs env dexes =
     (if cfg_env_bool env ''ALLOW_DUPLICATE_DEX_FACTORIES'' False then Inr ()
      else check_factories Map.empty dexes)"

definition load_dex :: "(string \<Rightarrow> address option) \<Rightarrow> env \<Rightarrow> file_dex_config \<Rightarrow> config_error + dex_config" where
  "load_dex address_of env dex =
     (case amm_kind_from_toml (fd_amm dex) of None \<Rightarrow> Inl (UnsupportedAmm (fd_amm dex))
      | Some amm \<Rightarrow>
      (case discovery_kind_from_toml (fd_discovery dex) of None \<Rightarrow> Inl (UnsupportedDiscovery (fd_discovery dex))
       | Some disc \<Rightarrow>
         res_bind (resolve_address_from_env_name address_of env (fd_factory_env dex)) (\<lambda>factory.
         res_bind (resolve_address_from_env_name address_of env (fd_registry_env dex)) (\<lambda>registry.
         res_bind (resolve_address_from_env_name address_of env (fd_vault_env dex)) (\<lambda>vault.
         res_bind (resolve_address_from_env_name address_of env (fd_quoter_env dex)) (\<lambda>quoter.
         Inr \<lparr>dc_name = fd_name dex, dc_amm_kind = amm, dc_discovery_kind = disc, dc_factory = factory,
           dc_registry = registry, dc_vault = vault, dc_quoter = quoter, dc_fee_ppm = fd_fee_ppm dex,
           dc_start_block = fd_start_block dex, dc_enabled = fd_enabled dex\<rparr>))))))"

definition load_token :: "(string \<Rightarrow> address option) \<Rightarrow> env \<Rightarrow> file_token_config \<Rightarrow> config_error + token_config option" where
  "load_token address_of env token =
     (case env_opt env (ft_address_env token) of None \<Rightarrow> Inr None
      | Some addr \<Rightarrow>
        res_bind (cfg_parse_address address_of addr) (\<lambda>a.
          let price = (if trim (ft_price_env token) = [] then None else env_opt_word env (ft_price_env token));
              allow_self_funded = unwrap_or (ft_allow_self_funded token) (ft_is_stable token);
              flash_loan_enabled = unwrap_or (ft_flash_loan_enabled token) False;
              is_cycle_anchor = unwrap_or (ft_is_cycle_anchor token)
                (ft_is_stable token \<or> allow_self_funded \<or> flash_loan_enabled)
          in Inr (Some \<lparr>tc_symbol = ft_symbol token, tc_address = a, tc_decimals = ft_decimals token,
               tc_is_stable = ft_is_stable token, tc_is_cycle_anchor = is_cycle_anchor,
               tc_flash_loan_enabled = flash_loan_enabled, tc_allow_self_funded = allow_self_funded,
               tc_manual_price_usd_e8 = price,
               tc_max_position_usd_e8 = map_option ucast (ft_max_position_usd_e8 token),
               tc_max_flash_loan_usd_e8 = map_option ucast (ft_max_flash_loan_usd_e8 token)\<rparr>)))"

section \<open>Settings::load\<close>

definition load_rpc :: "chain \<Rightarrow> env \<Rightarrow> config_error + rpc_settings" where
  "load_rpc c env =
     (let protected_rpc_key = (if c = Polygon then env_key c ''PRIVATE_MEMPOOL_URL'' else env_key c ''PROTECTED_RPC_URL'')
      in res_bind (env_req env (env_key c ''PUBLIC_RPC_URL'')) (\<lambda>url.
         Inr \<lparr>rp_public_rpc_url = url,
           rp_fallback_rpc_url = env_opt env (env_key c ''FALLBACK_RPC_URL''),
           rp_preconf_rpc_url = env_opt env (env_key c ''PRECONF_RPC_URL''),
           rp_ws_url = env_opt env (env_key c ''WSS_URL''),
           rp_protected_rpc_url = env_opt env protected_rpc_key,
           rp_private_submit_method = env_or env (env_key c ''PRIVATE_SUBMIT_METHOD'') ''eth_sendRawTransaction'',
           rp_simulate_method = env_or env (env_key c ''SIMULATE_METHOD'') ''eth_call''\<rparr>))"

definition load_risk :: "chain \<Rightarrow> env \<Rightarrow> file_config \<Rightarrow> risk_settings" where
  "load_risk c env f =
     \<lparr>rk_max_hops = fc_max_hops f,
      rk_screening_margin_bps = fc_screening_margin_bps f,
      rk_min_net_profit = unwrap_or (env_opt_i128 env (env_key c ''MIN_NET_PROFIT'')) (fc_min_net_profit_default f),
      rk_min_net_profit_usd_e8 = unwrap_or (opt_or (env_opt_word env (env_key c ''MIN_NET_PROFIT_USD_E8''))
        (map_option ucast (fc_min_net_profit_usd_e8 f))) 10000000,
      rk_min_trade_usd_e8 = unwrap_or (opt_or (env_opt_word env (env_key c ''MIN_TRADE_USD_E8''))
        (map_option ucast (fc_min_trade_usd_e8 f))) 1000000000,
      rk_poll_interval_ms = unwrap_or (env_opt_word env ''POLL_INTERVAL_MS'') (fc_poll_interval_ms f),
      rk_event_backfill_blocks = unwrap_or (env_opt_word env ''EVENT_BACKFILL_BLOCKS'') (fc_event_backfill_blocks f),
      rk_staleness_timeout_ms = unwrap_or (env_opt_word env ''STALENESS_TIMEOUT_MS'') (fc_staleness_timeout_ms f),
      rk_gas_risk_buffer_pct = unwrap_or (env_opt_f64 env ''GAS_RISK_BUFFER_PCT'') (fc_gas_risk_buffer_pct f),
      rk_gas_price_ceiling_wei = unwrap_or (env_opt_word env (env_key c ''GAS_PRICE_CEILING_WEI''))
        (ucast (fc_gas_price_ceiling_wei f)),
      rk_max_position = unwrap_or (env_opt_word env (env_key c ''MAX_POSITION'')) (ucast (fc_max_position_default f)),
      rk_max_position_usd_e8 = unwrap_or (opt_or (env_opt_word env (env_key c ''MAX_POSITION_USD_E8''))
        (map_option ucast (fc_max_position_usd_e8 f))) 200000000000,
      rk_max_flash_loan = unwrap_or (env_opt_word env (env_key c ''MAX_FLASH_LOAN'')) (ucast (fc_max_flash_loan_default f)),
      rk_max_flash_loan_usd_e8 = unwrap_or (opt_or (env_opt_word env (env_key c ''MAX_FLASH_LOAN_USD_E8''))
        (map_option ucast (fc_max_flash_loan_usd_e8 f))) 1000000000000,
      rk_daily_loss_limit = unwrap_or (env_opt_i128 env ''DAILY_LOSS_LIMIT'') (fc_daily_loss_limit_default f),
      rk_daily_loss_limit_usd_e8 = unwrap_or (opt_or (env_opt_word env ''DAILY_LOSS_LIMIT_USD_E8'')
        (map_option ucast (fc_daily_loss_limit_usd_e8 f))) 50000000000,
      rk_min_profit_realization_bps = unwrap_or (opt_or (env_opt_word env ''MIN_PROFIT_REALIZATION_BPS'')
        (fc_min_profit_realization_bps f)) 9000,
      rk_max_concurrent_tx = unwrap_or (env_opt_usize env ''MAX_CONCURRENT_TX'') 1,
      rk_pool_health_min_bps = unwrap_or (env_opt_word env ''POOL_HEALTH_MIN_BPS'') (fc_pool_health_min_bps f),
      rk_stable_depeg_cutoff_e6 = unwrap_or (env_opt_word env ''STABLE_DEPEG_CUTOFF_E6'') (fc_stable_depeg_cutoff_e6 f)\<rparr>"

definition load_search :: "env \<Rightarrow> file_search_config \<Rightarrow> search_settings" where
  "load_search env f =
     \<lparr>se_top_k_paths_per_side = configured_usize env ''SEARCH_TOP_K_PATHS_PER_SIDE'' (fs_top_k_paths_per_side f) 8,
      se_max_virtual_branches_per_node =
        configured_usize env ''SEARCH_MAX_VIRTUAL_BRANCHES_PER_NODE'' (fs_max_virtual_branches_per_node f) 16,
      se_path_beam_width = configured_usize env ''SEARCH_PATH_BEAM_WIDTH'' (fs_path_beam_width f) 96,
      se_max_candidates_per_refresh =
        configured_usize env ''SEARCH_MAX_CANDIDATES_PER_REFRESH'' (fs_max_candidates_per_refresh f) 512,
      se_candidate_selection_buffer_multiplier = configured_usize env
        ''SEARCH_CANDIDATE_SELECTION_BUFFER_MULTIPLIER'' (fs_candidate_selection_buffer_multiplier f) 1,
      se_dedup_token_paths = cfg_env_bool env ''SEARCH_DEDUP_TOKEN_PATHS'' (unwrap_or (fs_dedup_token_paths f) True),
      se_max_pair_edges_per_pair =
        configured_usize env ''SEARCH_MAX_PAIR_EDGES_PER_PAIR'' (fs_max_pair_edges_per_pair f) 1,
      se_max_split_parallel_pools =
        configured_usize env ''MAX_SPLIT_PARALLEL_POOLS'' (fs_max_split_parallel_pools f) 3\<rparr>"

definition load_policy :: "env \<Rightarrow> file_config \<Rightarrow> universe_policy" where
  "load_policy env f =
     (let env_venues = cfg_env_csv env ''POLICY_VENUES''; env_symbols = cfg_env_csv env ''POLICY_SYMBOLS''
      in \<lparr>up_venues = (if env_venues = [] then unwrap_or (opt_or (fc_policy_venues f) (fc_venues f)) [] else env_venues),
          up_symbols = (if env_symbols = [] then unwrap_or (opt_or (fc_policy_symbols f) (fc_symbols f)) [] else env_symbols)\<rparr>)"

definition load_execution :: "env \<Rightarrow> execution_settings" where
  "load_execution env =
     \<lparr>xs_allow_public_fallback = cfg_env_bool env ''ALLOW_PUBLIC_FALLBACK'' False,
      xs_require_fresh_simulation = cfg_env_bool env ''REQUIRE_FRESH_SIMULATION'' True,
      xs_enable_nonce_replacement = cfg_env_bool env ''ENABLE_NONCE_REPLACEMENT'' True,
      xs_nonce_bump_priority_fee_wei = unwrap_or (env_opt_word env ''NONCE_BUMP_PRIORITY_FEE_WEI'') 1000000000,
      xs_nonce_bump_base_fee_wei = unwrap_or (env_opt_word env ''NONCE_BUMP_BASE_FEE_WEI'') 1000000000\<rparr>"

definition selected :: "string list \<Rightarrow> string \<Rightarrow> bool" where
  "selected names n =
     (names = [] \<or> to_ascii_lowercase n \<in> set (map to_ascii_lowercase names))"

definition settings_load ::
  "(string \<Rightarrow> file_config option) \<Rightarrow> (string \<Rightarrow> address option) \<Rightarrow> env \<Rightarrow> chain \<Rightarrow> config_error + settings" where
  "settings_load read_config address_of env c =
     (case read_config (config_path c) of None \<Rightarrow> Inl (ReadConfig (config_path c))
      | Some f \<Rightarrow>
        if fc_chain f \<noteq> chain_as_str c then Inl (ChainMismatch (chain_as_str c) (fc_chain f))
        else
          res_bind (parse_env_address_opt address_of env ''SAFE_OWNER'') (\<lambda>safe_owner.
          res_bind (load_rpc c env) (\<lambda>rpc.
          res_bind (parse_env_address_opt address_of env (executor_env c)) (\<lambda>executor_address.
          res_bind (parse_env_address_opt address_of env (aave_pool_env c)) (\<lambda>aave_pool.
            let risk = load_risk c env f
            in if 10000 < rk_min_profit_realization_bps risk
               then Inl (BadRealizationBps (rk_min_profit_realization_bps risk))
               else
                 let policy = load_policy env f in
                 res_bind (map_res (load_token address_of env)
                   (filter (\<lambda>t. selected (up_symbols policy) (ft_symbol t)) (fc_tokens f))) (\<lambda>tokens.
                 res_bind (map_res (load_dex address_of env)
                   (filter (\<lambda>d. selected (up_venues policy) (fd_name d)) (fc_dexes f))) (\<lambda>dexes.
                 res_bind (validate_dex_configs env dexes) (\<lambda>_.
                 Inr \<lparr>st_chain = c, st_chain_id = fc_chain_id f, st_native_symbol = fc_native_symbol f,
                   st_operator_private_key = env_opt env ''OPERATOR_PRIVATE_KEY'',
                   st_deployer_private_key = env_opt env ''DEPLOYER_PRIVATE_KEY'',
                   st_safe_owner = safe_owner,
                   st_simulation_only = cfg_env_bool env ''SIMULATION_ONLY'' True,
                   st_json_logs = cfg_env_bool env ''JSON_LOGS'' False,
                   st_prometheus_bind = env_or env ''PROMETHEUS_BIND'' ''127.0.0.1:9898'',
                   st_rpc = rpc,
                   st_contracts = \<lparr>ct_executor_address = executor_address, ct_aave_pool = aave_pool,
                     ct_strict_target_allowlist = cfg_env_bool env ''STRICT_TARGET_ALLOWLIST'' (fc_strict_target_allowlist f)\<rparr>,
                   st_risk = risk, st_search = load_search env (fc_search f), st_policy = policy,
                   st_execution = load_execution env,
                   st_tokens = List.map_filter id tokens, st_dexes = dexes\<rparr>))))))))"

definition token_map :: "settings \<Rightarrow> address \<Rightarrow> token_config option" where
  "token_map s = map_of (rev (map (\<lambda>t. (tc_address t, t)) (st_tokens s)))"

definition stable_tokens :: "settings \<Rightarrow> address list" where
  "stable_tokens s = map tc_address (filter tc_is_stable (st_tokens s))"

definition cycle_anchor_tokens :: "settings \<Rightarrow> address list" where
  "cycle_anchor_tokens s = map tc_address (filter tc_is_cycle_anchor (st_tokens s))"

definition flash_loan_tokens :: "settings \<Rightarrow> address list" where
  "flash_loan_tokens s = map tc_address (filter tc_flash_loan_enabled (st_tokens s))"

definition token_by_address :: "settings \<Rightarrow> address \<Rightarrow> token_config option" where
  "token_by_address s a = find (\<lambda>t. tc_address t = a) (st_tokens s)"

definition data_path :: "settings \<Rightarrow> string \<Rightarrow> string" where
  "data_path s suf = ''state/'' @ chain_as_str (st_chain s) @ ''_'' @ suf @ ''.json''"

definition execution_settings_default :: execution_settings where
  "execution_settings_default = \<lparr>xs_allow_public_fallback = False, xs_require_fresh_simulation = True,
     xs_enable_nonce_replacement = True, xs_nonce_bump_priority_fee_wei = 1000000000,
     xs_nonce_bump_base_fee_wei = 1000000000\<rparr>"

definition search_settings_default :: search_settings where
  "search_settings_default = \<lparr>se_top_k_paths_per_side = 8, se_max_virtual_branches_per_node = 16,
     se_path_beam_width = 96, se_max_candidates_per_refresh = 512, se_candidate_selection_buffer_multiplier = 1,
     se_dedup_token_paths = True, se_max_pair_edges_per_pair = 1, se_max_split_parallel_pools = 3\<rparr>"

section \<open>What a loaded configuration guarantees\<close>

lemma configured_usize_pos: "0 < def \<Longrightarrow> 0 < configured_usize env key v def"
  by (auto simp: configured_usize_def opt_or_def unwrap_or_def split: option.splits)

definition factory_key :: "dex_config \<Rightarrow> (discovery_kind \<times> amm_kind \<times> address) option" where
  "factory_key d = (if dc_enabled d then map_option (\<lambda>f. (dc_discovery_kind d, dc_amm_kind d, f)) (dc_factory d) else None)"

abbreviation factory_keys :: "dex_config list \<Rightarrow> (discovery_kind \<times> amm_kind \<times> address) list" where
  "factory_keys ds \<equiv> List.map_filter factory_key ds"

lemma check_factories_step:
  "(check_factories seen (d # ds) = Inr ()) =
     (case factory_key d of None \<Rightarrow> check_factories seen ds = Inr ()
      | Some k \<Rightarrow> k \<notin> dom seen \<and> check_factories (seen(k \<mapsto> dc_name d)) ds = Inr ())"
  by (auto simp: factory_key_def Let_def dom_def split: option.splits)

lemma check_factories_ok:
  "check_factories seen ds = Inr () \<longleftrightarrow> distinct (factory_keys ds) \<and> set (factory_keys ds) \<inter> dom seen = {}"
proof (induction ds arbitrary: seen)
  case (Cons d ds)
  show ?case
    by (cases "factory_key d")
      (auto simp only: check_factories_step Cons.IH List.map_filter_simps option.case distinct.simps list.set dom_fun_upd option.distinct if_False)
qed (simp add: List.map_filter_simps)

lemma load_token_symbol: "load_token a env t = Inr (Some c) \<Longrightarrow> tc_symbol c = ft_symbol t \<and>
    (ft_is_cycle_anchor t = None \<longrightarrow> tc_is_cycle_anchor c = (tc_is_stable c \<or> tc_allow_self_funded c \<or> tc_flash_loan_enabled c))"
  by (auto simp: load_token_def res_bind_Inr Let_def split: option.splits)

lemma load_dex_name: "load_dex a env d = Inr c \<Longrightarrow> dc_name c = fd_name d \<and> dc_enabled c = fd_enabled d"
  by (auto simp: load_dex_def res_bind_Inr split: option.splits)

lemma selected_allowed: "selected (up_symbols p) n \<longleftrightarrow> symbol_allowed p n"
  by (fastforce simp: selected_def symbol_allowed_def eq_ignore_ascii_case_def list_ex_iff image_iff)

lemma map_filter_id_mem: "x \<in> set (List.map_filter id xs) \<longleftrightarrow> Some x \<in> set xs"
  by (induction xs) (auto simp: List.map_filter_simps split: option.splits)

section \<open>Properties\<close>

text \<open>C37: what holds of every configuration that loads. It was read from the chosen chain's file, the file names that chain,
  and the chain id is the file's; the share of the profit handed to the contract is at most 100 percent; every token is read
  from a token line of the file and passes the symbol policy, every exchange from an exchange line and passes the venue
  policy; all seven numeric search bounds are positive; and no two enabled exchanges of one kind share a factory unless the
  operator asked for it.\<close>

theorem settings_load_guarantees:
  assumes "settings_load read_config address_of env c = Inr s"
  shows "\<exists>f. read_config (config_path c) = Some f \<and> fc_chain f = chain_as_str c \<and>
    st_chain s = c \<and> st_chain_id s = fc_chain_id f \<and>
    rk_min_profit_realization_bps (st_risk s) \<le> 10000 \<and>
    (\<forall>t\<in>set (st_tokens s). symbol_allowed (st_policy s) (tc_symbol t) \<and>
      (\<exists>ft\<in>set (fc_tokens f). load_token address_of env ft = Inr (Some t))) \<and>
    (\<forall>d\<in>set (st_dexes s). selected (up_venues (st_policy s)) (dc_name d) \<and>
      (\<exists>fd\<in>set (fc_dexes f). load_dex address_of env fd = Inr d)) \<and>
    0 < se_top_k_paths_per_side (st_search s) \<and> 0 < se_max_virtual_branches_per_node (st_search s) \<and>
    0 < se_path_beam_width (st_search s) \<and> 0 < se_max_candidates_per_refresh (st_search s) \<and>
    0 < se_candidate_selection_buffer_multiplier (st_search s) \<and> 0 < se_max_pair_edges_per_pair (st_search s) \<and>
    0 < se_max_split_parallel_pools (st_search s) \<and>
    (\<not> cfg_env_bool env ''ALLOW_DUPLICATE_DEX_FACTORIES'' False \<longrightarrow> distinct (factory_keys (st_dexes s)))"
proof -
  from assms obtain f tokens where
    f: "read_config (config_path c) = Some f" "fc_chain f = chain_as_str c"
    and s: "st_chain s = c" "st_chain_id s = fc_chain_id f" "st_risk s = load_risk c env f" "st_policy s = load_policy env f"
      "st_search s = load_search env (fc_search f)" "st_tokens s = List.map_filter id tokens"
    and bps: "rk_min_profit_realization_bps (load_risk c env f) \<le> 10000"
    and t: "map_res (load_token address_of env)
      (filter (\<lambda>t. selected (up_symbols (load_policy env f)) (ft_symbol t)) (fc_tokens f)) = Inr tokens"
    and d: "map_res (load_dex address_of env)
      (filter (\<lambda>d. selected (up_venues (load_policy env f)) (fd_name d)) (fc_dexes f)) = Inr (st_dexes s)"
    and v: "validate_dex_configs env (st_dexes s) = Inr ()"
    by (auto simp: settings_load_def res_bind_Inr Let_def split: option.splits if_splits)
  have tokens: "symbol_allowed (st_policy s) (tc_symbol x) \<and> (\<exists>ft\<in>set (fc_tokens f). load_token address_of env ft = Inr (Some x))"
    if "x \<in> set (st_tokens s)" for x
    using that map_res_mem [OF t, of "Some x"] load_token_symbol
    by (auto simp: s map_filter_id_mem simp flip: selected_allowed)
  have dexes: "selected (up_venues (st_policy s)) (dc_name x) \<and> (\<exists>fd\<in>set (fc_dexes f). load_dex address_of env fd = Inr x)"
    if "x \<in> set (st_dexes s)" for x
    using map_res_mem [OF d that] load_dex_name by (auto simp: s)
  have search: "0 < se_top_k_paths_per_side (st_search s)" "0 < se_max_virtual_branches_per_node (st_search s)"
    "0 < se_path_beam_width (st_search s)" "0 < se_max_candidates_per_refresh (st_search s)"
    "0 < se_candidate_selection_buffer_multiplier (st_search s)" "0 < se_max_pair_edges_per_pair (st_search s)"
    "0 < se_max_split_parallel_pools (st_search s)"
    by (simp_all add: s load_search_def configured_usize_pos)
  have "distinct (factory_keys (st_dexes s))" if "\<not> cfg_env_bool env ''ALLOW_DUPLICATE_DEX_FACTORIES'' False"
    using v that by (simp add: validate_dex_configs_def check_factories_ok)
  with f s(1-2) bps tokens dexes search show ?thesis
    by (intro exI [where x = f]) (simp add: s(3))
qed

definition demo_env :: env where
  "demo_env key = (if key = ''BASE_PUBLIC_RPC_URL'' then Some ''http://node''
     else if key = ''SIMULATION_ONLY'' then Some ''True''
     else if key = ''USDC_ADDRESS'' then Some ''7'' else None)"

definition demo_file :: file_config where
  "demo_file = FileConfig ''base'' 8453 ''ETH'' None None None (Some [''usdc'']) 4 30 1 None None 500 64 1000 (F_Fin False 1)
     1 1 None 1 None 1 None None 9000 980000 True
     \<lparr>fs_top_k_paths_per_side = Some 0, fs_max_virtual_branches_per_node = None, fs_path_beam_width = Some 4,
      fs_max_candidates_per_refresh = None, fs_candidate_selection_buffer_multiplier = None,
      fs_dedup_token_paths = None, fs_max_pair_edges_per_pair = None, fs_max_split_parallel_pools = None\<rparr>
     [\<lparr>ft_symbol = ''USDC'', ft_address_env = ''USDC_ADDRESS'', ft_decimals = 6, ft_is_stable = True,
       ft_is_cycle_anchor = None, ft_flash_loan_enabled = None, ft_allow_self_funded = None, ft_price_env = '''',
       ft_max_position_usd_e8 = None, ft_max_flash_loan_usd_e8 = None\<rparr>] []"

definition demo_address_of :: "string \<Rightarrow> address option" where
  "demo_address_of s = map_option word_of_nat (parse_nat s)"

lemma demo_values_set:
  "is_unset_marker ''http://node'' = False" "is_unset_marker ''True'' = False" "is_unset_marker ''7'' = False"
  by code_simp+

lemma demo_env_opt: "env_opt demo_env key = demo_env key"
  by (simp add: env_opt_def demo_env_def filter_opt_def demo_values_set)

lemma demo_file_sel:
  "fc_chain demo_file = ''base''" "fc_dexes demo_file = []" "fc_min_profit_realization_bps demo_file = None"
  by (simp_all add: demo_file_def)

lemma demo_policy: "up_symbols (load_policy demo_env demo_file) = [''usdc'']"
  by (simp add: load_policy_def cfg_env_csv_def demo_env_opt demo_env_def demo_file_def opt_or_def)

lemma demo_tokens:
  "\<exists>t. map_res (load_token demo_address_of demo_env)
     (filter (\<lambda>t. selected [''usdc''] (ft_symbol t)) (fc_tokens demo_file)) = Inr [Some t] \<and> tc_address t = 7"
proof -
  have sel: "selected [''usdc''] ''USDC''" by code_simp
  have seven: "demo_address_of ''7'' = Some 7" by code_simp
  show ?thesis
    by (simp add: demo_file_def sel load_token_def demo_env_opt demo_env_def cfg_parse_address_def seven)
qed

lemma load_risk_bps: "rk_min_profit_realization_bps (load_risk c env f) =
    unwrap_or (opt_or (env_opt_word env ''MIN_PROFIT_REALIZATION_BPS'') (fc_min_profit_realization_bps f)) 9000"
  unfolding load_risk_def by (simp only: risk_settings.select_convs)

lemma demo_load: "\<exists>s. settings_load (\<lambda>_. Some demo_file) demo_address_of demo_env Base = Inr s \<and>
    map tc_address (st_tokens s) = [7]"
proof -
  obtain rpc where rpc: "load_rpc Base demo_env = Inr rpc"
    by (simp add: load_rpc_def env_req_def env_key_def demo_env_def demo_values_set)
  have bps: "rk_min_profit_realization_bps (load_risk Base demo_env demo_file) = 9000"
  proof -
    have "demo_env ''MIN_PROFIT_REALIZATION_BPS'' = None" by (simp add: demo_env_def)
    then have "(env_opt_word demo_env ''MIN_PROFIT_REALIZATION_BPS'' :: u32 option) = None"
      by (simp add: env_opt_word_def demo_env_opt)
    then show ?thesis by (simp add: load_risk_bps demo_file_sel opt_or_def)
  qed
  have addr: "parse_env_address_opt demo_address_of demo_env ''SAFE_OWNER'' = Inr None"
    "parse_env_address_opt demo_address_of demo_env ''BASE_EXECUTOR_ADDRESS'' = Inr None"
    "parse_env_address_opt demo_address_of demo_env ''BASE_AAVE_POOL'' = Inr None"
    by (simp_all add: parse_env_address_opt_def demo_env_opt demo_env_def)
  have dup: "validate_dex_configs demo_env [] = Inr ()" by (simp add: validate_dex_configs_def)
  obtain t where t: "map_res (load_token demo_address_of demo_env)
     (filter (\<lambda>t. selected [''usdc''] (ft_symbol t)) (fc_tokens demo_file)) = Inr [Some t]" "tc_address t = 7"
    using demo_tokens by blast
  show ?thesis
    by (simp add: settings_load_def demo_file_sel rpc bps addr dup demo_policy t List.map_filter_simps Let_def)
qed

theorem settings_load_guarantees_witness:
  "\<exists>s. settings_load (\<lambda>_. Some demo_file) demo_address_of demo_env Base = Inr s \<and> map tc_address (st_tokens s) = [7] \<and>
     st_chain_id s = 8453 \<and> 0 < se_top_k_paths_per_side (st_search s)"
proof -
  obtain s where s: "settings_load (\<lambda>_. Some demo_file) demo_address_of demo_env Base = Inr s"
    "map tc_address (st_tokens s) = [7]" using demo_load by (elim exE conjE)
  with settings_load_guarantees [OF s(1)] show ?thesis by (auto simp: demo_file_def)
qed

text \<open>the safety switch. A loaded configuration runs in simulation only when \<open>SIMULATION_ONLY\<close>
  is unset or spelled in one of five exact ways; any other value, \<open>True\<close> and \<open>on\<close> among them,
  turns the simulation off and lets the engine send transactions.\<close>

theorem simulation_switch:
  assumes "settings_load read_config address_of env c = Inr s"
  shows "st_simulation_only s = (case env_opt env ''SIMULATION_ONLY'' of None \<Rightarrow> True
    | Some v \<Rightarrow> v \<in> set [''1'', ''true'', ''TRUE'', ''yes'', ''YES''])"
proof -
  from assms have "st_simulation_only s = cfg_env_bool env ''SIMULATION_ONLY'' True"
    by (auto simp: settings_load_def res_bind_Inr Let_def split: option.splits if_splits)
  then show ?thesis by (simp add: cfg_env_bool_def split: option.split)
qed

theorem simulation_switch_witness:
  "\<exists>s. settings_load (\<lambda>_. Some demo_file) demo_address_of demo_env Base = Inr s \<and>
     demo_env ''SIMULATION_ONLY'' = Some ''True'' \<and> \<not> st_simulation_only s"
proof -
  obtain s where s: "settings_load (\<lambda>_. Some demo_file) demo_address_of demo_env Base = Inr s"
    using demo_load by (elim exE conjE)
  then show ?thesis using simulation_switch [OF s] by (simp add: demo_env_opt demo_env_def)
qed

end
