(* ===== verification/Risk_Limits.thy ===== *)
theory Risk_Limits
  imports Config
begin

text \<open>
  \<open>src/risk/limits.rs\<close> and \<open>src/risk/depeg_guard.rs\<close>: the gates a plan passes before it is
  submitted, the counter of open transactions and the daily profit account. The atomic
  operations are single steps; a \<open>fetch_sub\<close> wraps. The day key is the number of days since
  the epoch that the source prints into a string; the clock is an argument.
\<close>

record risk_manager =
  rm_max_position_usd_e8 :: u128
  rm_max_flash_loan_usd_e8 :: u128
  rm_min_profit_usd_e8 :: u128
  rm_daily_loss_limit_usd_e8 :: u128
  rm_max_concurrent_tx :: nat
  rm_open_tx_count :: u64
  rm_daily_pnl_usd_e8 :: "nat \<rightharpoonup> i128"

definition risk_manager_new :: "settings \<Rightarrow> risk_manager" where
  "risk_manager_new s =
     \<lparr>rm_max_position_usd_e8 = rk_max_position_usd_e8 (st_risk s),
      rm_max_flash_loan_usd_e8 = rk_max_flash_loan_usd_e8 (st_risk s),
      rm_min_profit_usd_e8 = rk_min_net_profit_usd_e8 (st_risk s),
      rm_daily_loss_limit_usd_e8 = rk_daily_loss_limit_usd_e8 (st_risk s),
      rm_max_concurrent_tx = rk_max_concurrent_tx (st_risk s),
      rm_open_tx_count = 0, rm_daily_pnl_usd_e8 = Map.empty\<rparr>"

definition current_day_key :: "nat \<Rightarrow> nat" where
  "current_day_key unix_secs = unix_secs div 86400"

datatype risk_error = PositionTooLarge u128 u128 | FlashLoanTooLarge u128 u128 | ProfitTooLow i128 u128
  | TooManyOpenTx | DailyLoss u128 u128

definition daily_pnl :: "risk_manager \<Rightarrow> nat \<Rightarrow> i128" where
  "daily_pnl r day = unwrap_or (rm_daily_pnl_usd_e8 r day) 0"

definition pre_trade_check :: "risk_manager \<Rightarrow> nat \<Rightarrow> exact_plan \<Rightarrow> risk_error + unit" where
  "pre_trade_check r now plan =
     (if rm_max_position_usd_e8 r < xp_input_value_usd_e8 plan
      then Inl (PositionTooLarge (xp_input_value_usd_e8 plan) (rm_max_position_usd_e8 r))
      else if (xp_capital_source plan = FlashLoan \<or> xp_capital_source plan = MixedFlashLoan)
           \<and> rm_max_flash_loan_usd_e8 r < xp_flash_loan_value_usd_e8 plan
      then Inl (FlashLoanTooLarge (xp_flash_loan_value_usd_e8 plan) (rm_max_flash_loan_usd_e8 r))
      else if xp_net_profit_usd_e8 plan < 0 \<or> as_u128 (xp_net_profit_usd_e8 plan) < rm_min_profit_usd_e8 r
      then Inl (ProfitTooLow (xp_net_profit_usd_e8 plan) (rm_min_profit_usd_e8 r))
      else if rm_max_concurrent_tx r \<le> unat (rm_open_tx_count r) then Inl TooManyOpenTx
      else
        let pnl = daily_pnl r (current_day_key now)
        in if pnl < 0 \<and> rm_daily_loss_limit_usd_e8 r < unsigned_abs pnl
           then Inl (DailyLoss (unsigned_abs pnl) (rm_daily_loss_limit_usd_e8 r))
           else Inr ())"

definition risk_mark_submitted :: "risk_manager \<Rightarrow> risk_manager" where
  "risk_mark_submitted r = r\<lparr>rm_open_tx_count := rm_open_tx_count r + 1\<rparr>"

definition mark_finalized :: "nat \<Rightarrow> i128 \<Rightarrow> risk_manager \<Rightarrow> risk_manager" where
  "mark_finalized now realized r =
     (let previous = rm_open_tx_count r; r1 = r\<lparr>rm_open_tx_count := previous - 1\<rparr>
      in if previous = 0 then r1\<lparr>rm_open_tx_count := 0\<rparr>
         else let day = current_day_key now
              in r1\<lparr>rm_daily_pnl_usd_e8 := (rm_daily_pnl_usd_e8 r1)(day \<mapsto> wrap_i128 (daily_pnl r1 day + realized))\<rparr>)"

definition mark_failed_submission :: "risk_manager \<Rightarrow> risk_manager" where
  "mark_failed_submission r =
     (let previous = rm_open_tx_count r; r1 = r\<lparr>rm_open_tx_count := previous - 1\<rparr>
      in if previous = 0 then r1\<lparr>rm_open_tx_count := 0\<rparr> else r1)"

section \<open>The depeg guard\<close>

record depeg_guard =
  dg_stable_depeg_cutoff_e6 :: u32
  dg_manual_prices :: "address \<rightharpoonup> u64"
  dg_stable_tokens :: "address list"

definition depeg_guard_new :: "settings \<Rightarrow> depeg_guard" where
  "depeg_guard_new s =
     \<lparr>dg_stable_depeg_cutoff_e6 = rk_stable_depeg_cutoff_e6 (st_risk s),
      dg_manual_prices = map_of (rev (List.map_filter
        (\<lambda>t. map_option (\<lambda>price. (tc_address t, price)) (tc_manual_price_usd_e8 t)) (st_tokens s))),
      dg_stable_tokens = map tc_address (filter tc_is_stable (st_tokens s))\<rparr>"

definition token_is_healthy :: "depeg_guard \<Rightarrow> address \<Rightarrow> bool" where
  "token_is_healthy g token =
     (if token \<notin> set (dg_stable_tokens g) then True
      else case dg_manual_prices g token of
          Some price_e8 \<Rightarrow> ucast (dg_stable_depeg_cutoff_e6 g) * 100 \<le> price_e8
        | None \<Rightarrow> True)"

definition stable_routes_allowed :: "depeg_guard \<Rightarrow> bool" where
  "stable_routes_allowed g = list_all (token_is_healthy g) (dg_stable_tokens g)"

section \<open>What the gates admit\<close>

definition within_limits :: "risk_manager \<Rightarrow> nat \<Rightarrow> exact_plan \<Rightarrow> bool" where
  "within_limits r now plan \<longleftrightarrow>
     unat (xp_input_value_usd_e8 plan) \<le> unat (rm_max_position_usd_e8 r) \<and>
     (xp_capital_source plan \<noteq> SelfFunded \<longrightarrow>
        unat (xp_flash_loan_value_usd_e8 plan) \<le> unat (rm_max_flash_loan_usd_e8 r)) \<and>
     uint (rm_min_profit_usd_e8 r) \<le> xp_net_profit_usd_e8 plan \<and>
     unat (rm_open_tx_count r) < rm_max_concurrent_tx r \<and>
     - uint (rm_daily_loss_limit_usd_e8 r) \<le> daily_pnl r (current_day_key now)"

text \<open>The values are those an \<open>i128\<close> can have.\<close>

definition is_i128 :: "int \<Rightarrow> bool" where "is_i128 x \<longleftrightarrow> i128_min \<le> x \<and> x \<le> i128_max"

lemma wrap_i128_is_i128 [simp]: "is_i128 (wrap_i128 x)"
  by (simp add: is_i128_def wrap_i128_def)

definition pnl_typed :: "risk_manager \<Rightarrow> bool" where
  "pnl_typed r \<longleftrightarrow> (\<forall>day p. rm_daily_pnl_usd_e8 r day = Some p \<longrightarrow> is_i128 p)"

lemma daily_pnl_typed: "pnl_typed r \<Longrightarrow> is_i128 (daily_pnl r day)"
  by (auto simp: pnl_typed_def daily_pnl_def unwrap_or_def is_i128_def split: option.splits)

lemma as_u128_less: "0 \<le> x \<Longrightarrow> is_i128 x \<Longrightarrow> as_u128 x < m \<longleftrightarrow> x < uint m"
  using uint_as_u128 [of x] by (simp add: is_i128_def word_less_def)

lemma less_unsigned_abs: "is_i128 x \<Longrightarrow> m < unsigned_abs x \<longleftrightarrow> uint m < \<bar>x\<bar>"
proof -
  assume "is_i128 x"
  then have "\<bar>x\<bar> < 2 ^ 128" by (auto simp: is_i128_def abs_if)
  then have "uint (unsigned_abs x) = \<bar>x\<bar>"
    using uint_as_u128 [of "\<bar>x\<bar>"] by (simp add: unsigned_abs_def as_u128_def)
  then show ?thesis by (simp add: word_less_def)
qed

lemma check_ok_iff:
  assumes "pnl_typed r" and "is_i128 (xp_net_profit_usd_e8 plan)"
  shows "pre_trade_check r now plan = Inr () \<longleftrightarrow> within_limits r now plan"
proof -
  let ?p = "daily_pnl r (current_day_key now)" and ?n = "xp_net_profit_usd_e8 plan"
  have arith: "0 \<le> m \<Longrightarrow> (p < 0 \<and> m < \<bar>p\<bar>) = (\<not> - m \<le> p)" for m p :: int by auto
  have pnl: "(?p < 0 \<and> rm_daily_loss_limit_usd_e8 r < unsigned_abs ?p) \<longleftrightarrow>
      \<not> - uint (rm_daily_loss_limit_usd_e8 r) \<le> ?p"
    unfolding less_unsigned_abs [OF daily_pnl_typed [OF assms(1)]] by (rule arith [OF uint_lt_size(1)])
  have net: "(?n < 0 \<or> as_u128 ?n < rm_min_profit_usd_e8 r) \<longleftrightarrow> \<not> uint (rm_min_profit_usd_e8 r) \<le> ?n"
  proof (cases "?n < 0")
    case True
    then show ?thesis using order.strict_trans1 [OF uint_lt_size(1)] by (meson not_le order.asym order.trans uint_lt_size(1))
  next
    case False
    then show ?thesis using as_u128_less [OF _ assms(2), of "rm_min_profit_usd_e8 r"] by auto
  qed
  have src: "(xp_capital_source plan = FlashLoan \<or> xp_capital_source plan = MixedFlashLoan) \<longleftrightarrow>
      xp_capital_source plan \<noteq> SelfFunded"
    by (cases "xp_capital_source plan") auto
  show ?thesis
    unfolding pre_trade_check_def within_limits_def Let_def net src pnl
    by (auto simp: word_le_nat_alt word_less_nat_alt not_less)
qed

lemma mark_finalized_typed: "pnl_typed r \<Longrightarrow> pnl_typed (mark_finalized now x r)"
  by (auto simp: pnl_typed_def mark_finalized_def Let_def)

lemma mark_failed_typed: "pnl_typed r \<Longrightarrow> pnl_typed (mark_failed_submission r)"
  by (auto simp: pnl_typed_def mark_failed_submission_def Let_def)

lemma mark_submitted_typed: "pnl_typed r \<Longrightarrow> pnl_typed (risk_mark_submitted r)"
  by (auto simp: pnl_typed_def risk_mark_submitted_def)

text \<open>A close that follows its own submission gives the counter back; a close without one leaves 0.\<close>

lemma close_after_submit:
  assumes "rm_open_tx_count r + 1 \<noteq> 0"
  shows "mark_failed_submission (risk_mark_submitted r) = r"
    and "rm_open_tx_count (mark_finalized now x (risk_mark_submitted r)) = rm_open_tx_count r"
    and "daily_pnl (mark_finalized now x (risk_mark_submitted r)) day =
      (if day = current_day_key now then wrap_i128 (daily_pnl r day + x) else daily_pnl r day)"
  using assms
  by (simp_all add: mark_failed_submission_def mark_finalized_def risk_mark_submitted_def Let_def daily_pnl_def)

lemma close_underflow:
  "rm_open_tx_count r = 0 \<Longrightarrow> mark_finalized now x r = r" "rm_open_tx_count r = 0 \<Longrightarrow> mark_failed_submission r = r"
  by (simp_all add: mark_failed_submission_def mark_finalized_def Let_def)

section \<open>Properties\<close>

definition demo_risk :: risk_manager where
  "demo_risk = \<lparr>rm_max_position_usd_e8 = 1000, rm_max_flash_loan_usd_e8 = 5000, rm_min_profit_usd_e8 = 10,
     rm_daily_loss_limit_usd_e8 = 100, rm_max_concurrent_tx = 1, rm_open_tx_count = 0, rm_daily_pnl_usd_e8 = Map.empty\<rparr>"

definition demo_plan :: exact_plan where
  "demo_plan = \<lparr>xp_snapshot_id = 1, xp_input_token = 1, xp_output_token = 1, xp_input_amount = 100,
     xp_output_amount = 200, xp_gross_profit_raw = 100, xp_flash_premium_ppm = 0, xp_flash_fee_raw = 0,
     xp_net_profit_before_gas_raw = 100, xp_contract_min_profit_raw = 90, xp_input_value_usd_e8 = 100,
     xp_flash_loan_value_usd_e8 = 0, xp_gross_profit_usd_e8 = 100, xp_flash_fee_usd_e8 = 0,
     xp_actual_flash_fee_usd_e8 = 0, xp_gas_cost_usd_e8 = 20, xp_net_profit_usd_e8 = 80, xp_expected_profit = 100,
     xp_gas_limit = 21000, xp_gas_l2_execution_cost_wei = 0, xp_gas_l1_data_fee_wei = 0, xp_gas_cost_wei = 0,
     xp_capital_source = SelfFunded, xp_flash_loan_amount = 0, xp_actual_flash_fee_raw = 0, xp_hops = []\<rparr>"

text \<open>the gate in front of every submission. \<open>pre_trade_check\<close> lets a plan through exactly when
  its value and its flash loan are within their limits, its net profit reaches the minimum, fewer
  transactions than the maximum are open, and today's account is not below the loss limit.\<close>

theorem pre_trade_check_iff:
  assumes "pnl_typed r" and "is_i128 (xp_net_profit_usd_e8 plan)"
  shows "pre_trade_check r now plan = Inr () \<longleftrightarrow>
     xp_input_value_usd_e8 plan \<le> rm_max_position_usd_e8 r \<and>
     (xp_capital_source plan \<noteq> SelfFunded \<longrightarrow>
        xp_flash_loan_value_usd_e8 plan \<le> rm_max_flash_loan_usd_e8 r) \<and>
     uint (rm_min_profit_usd_e8 r) \<le> xp_net_profit_usd_e8 plan \<and>
     unat (rm_open_tx_count r) < rm_max_concurrent_tx r \<and>
     - uint (rm_daily_loss_limit_usd_e8 r) \<le> daily_pnl r (current_day_key now)"
  using check_ok_iff [OF assms] by (simp add: within_limits_def word_le_nat_alt)

theorem pre_trade_check_iff_witness:
  "pre_trade_check demo_risk 0 demo_plan = Inr () \<and>
   pre_trade_check demo_risk 0 (demo_plan\<lparr>xp_net_profit_usd_e8 := 9\<rparr>) \<noteq> Inr ()"
proof -
  have typed: "pnl_typed demo_risk" by (simp add: pnl_typed_def demo_risk_def)
  have pnl: "daily_pnl demo_risk d = 0" for d by (simp add: daily_pnl_def demo_risk_def)
  have n: "is_i128 80" "is_i128 9" by (simp_all add: is_i128_def)
  show ?thesis
    using pre_trade_check_iff [OF typed, of demo_plan 0] pre_trade_check_iff [OF typed, of "demo_plan\<lparr>xp_net_profit_usd_e8 := 9\<rparr>" 0] n
    by (simp add: pnl) (simp add: demo_risk_def demo_plan_def)
qed

end
