(* ===== verification/Nonce.thy ===== *)
theory Nonce
  imports Reorg "HOL-Library.AList"
begin

text \<open>
  \<open>src/execution/nonce_manager.rs\<close>: the nonces of the operator account. \<open>states\<close> maps a nonce to
  its state; \<open>pending_txs\<close> is iterated, so it is an association list whose order stands for the
  hash map's. The two mutexes are not reentrant: an operation takes the list of those its caller
  holds. Answers of the node (\<open>get_transaction_count\<close>, receipts) are arguments.
\<close>

datatype nonce_state = Reserved | Submitted b256 instant | Included | Dropped

record pending_nonce =
  pn_nonce :: u64
  pn_tx_hash :: b256
  pn_submitted_at :: instant
  pn_max_priority_fee :: u128
  pn_max_fee :: u128

record nonce_manager =
  nm_next_nonce :: u64
  nm_states :: "u64 \<rightharpoonup> nonce_state"
  nm_pending_txs :: "(u64 \<times> pending_nonce) list"
  nm_replacement_enabled :: bool

definition with_replacement :: "bool \<Rightarrow> nonce_manager" where
  "with_replacement enabled =
     \<lparr>nm_next_nonce = 0, nm_states = Map.empty, nm_pending_txs = [], nm_replacement_enabled = enabled\<rparr>"

definition nonce_manager_new :: nonce_manager where
  "nonce_manager_new = with_replacement True"

text \<open>\<open>sync\<close>: the node's answer, or its error.\<close>

definition nonce_sync :: "'e + u64 \<Rightarrow> nonce_manager \<Rightarrow> nonce_manager \<times> ('e + unit)" where
  "nonce_sync answer m =
     (case answer of Inl e \<Rightarrow> (m, Inl e)
      | Inr onchain \<Rightarrow>
        (if nm_next_nonce m < onchain then m\<lparr>nm_next_nonce := onchain\<rparr> else m, Inr ()))"

definition reserve :: "nonce_manager \<Rightarrow> nonce_manager \<times> u64" where
  "reserve m = (let nonce = nm_next_nonce m in
     (m\<lparr>nm_next_nonce := nonce + 1, nm_states := (nm_states m)(nonce \<mapsto> Reserved)\<rparr>, nonce))"

definition nonce_mark_submitted ::
  "instant \<Rightarrow> instant \<Rightarrow> u64 \<Rightarrow> b256 \<Rightarrow> u128 \<Rightarrow> u128 \<Rightarrow> nonce_manager \<Rightarrow> nonce_manager" where
  "nonce_mark_submitted now1 now2 nonce tx_hash max_priority_fee max_fee m =
     m\<lparr>nm_states := (nm_states m)(nonce \<mapsto> Submitted tx_hash now1),
       nm_pending_txs := AList.update nonce
         \<lparr>pn_nonce = nonce, pn_tx_hash = tx_hash, pn_submitted_at = now2,
          pn_max_priority_fee = max_priority_fee, pn_max_fee = max_fee\<rparr> (nm_pending_txs m)\<rparr>"

definition mark_included :: "u64 \<Rightarrow> nonce_manager \<Rightarrow> nonce_manager" where
  "mark_included nonce m =
     m\<lparr>nm_states := (nm_states m)(nonce \<mapsto> Included), nm_pending_txs := AList.delete nonce (nm_pending_txs m)\<rparr>"

datatype nonce_mutex = StatesMutex | PendingMutex

definition mark_dropped :: "nonce_mutex list \<Rightarrow> u64 \<Rightarrow> nonce_manager \<Rightarrow> (nonce_manager, unit, unit) outcome" where
  "mark_dropped held nonce m =
     (if StatesMutex \<in> set held \<or> PendingMutex \<in> set held then SelfDeadlock
      else Returned (m\<lparr>nm_states := (nm_states m)(nonce \<mapsto> Dropped),
             nm_pending_txs := AList.delete nonce (nm_pending_txs m)\<rparr>) (Inr ()))"

definition pending_nonces :: "nonce_manager \<Rightarrow> pending_nonce list" where
  "pending_nonces m = map snd (nm_pending_txs m)"

definition elapsed :: "instant \<Rightarrow> instant \<Rightarrow> duration" where
  "elapsed now t = now - t"

definition is_stuck :: "instant \<Rightarrow> u64 \<Rightarrow> duration \<Rightarrow> nonce_manager \<Rightarrow> bool" where
  "is_stuck now nonce timeout m =
     (case nm_states m nonce of Some (Submitted h t) \<Rightarrow> timeout < elapsed now t | _ \<Rightarrow> False)"

definition next_replacable :: "instant \<Rightarrow> duration \<Rightarrow> nonce_manager \<Rightarrow> pending_nonce option" where
  "next_replacable now timeout m =
     (if \<not> nm_replacement_enabled m then None
      else min_by (\<lambda>a b. cmp (pn_nonce a) (pn_nonce b))
             (filter (\<lambda>p. timeout < elapsed now (pn_submitted_at p)) (map snd (nm_pending_txs m))))"

definition calculate_bumped_fees :: "pending_nonce \<Rightarrow> u128 \<Rightarrow> u128 \<Rightarrow> u128 \<times> u128" where
  "calculate_bumped_fees pending priority_bump base_bump =
     (sat_add (pn_max_priority_fee pending) priority_bump, sat_add (pn_max_fee pending) base_bump)"

text \<open>The lock of the scrutinee of an \<open>if let\<close> lives until the end of the whole statement.\<close>

definition nonce_cancel :: "u64 \<Rightarrow> nonce_manager \<Rightarrow> (nonce_manager, unit, bool) outcome" where
  "nonce_cancel nonce m =
     (case nm_states m nonce of
        Some (Submitted h t) \<Rightarrow>
          (case mark_dropped [StatesMutex] nonce m of
             SelfDeadlock \<Rightarrow> SelfDeadlock
           | Returned m' r \<Rightarrow> Returned m' (Inr True))
      | _ \<Rightarrow> Returned m (Inr False))"

definition current_nonce :: "nonce_manager \<Rightarrow> u64" where "current_nonce m = nm_next_nonce m"

definition get_state :: "nonce_manager \<Rightarrow> u64 \<Rightarrow> nonce_state option" where "get_state m n = nm_states m n"

text \<open>A receipt query: the status, no receipt yet, or an error.\<close>

definition receipt_update :: "(b256 \<Rightarrow> 'e + bool option) \<Rightarrow> pending_nonce \<Rightarrow> (u64 \<times> nonce_state) option" where
  "receipt_update receipt p =
     (case receipt (pn_tx_hash p) of
        Inr (Some True) \<Rightarrow> Some (pn_nonce p, Included)
      | Inr (Some False) \<Rightarrow> Some (pn_nonce p, Dropped)
      | Inr None \<Rightarrow> None
      | Inl e \<Rightarrow> Some (pn_nonce p, Dropped))"

definition apply_update :: "u64 \<times> nonce_state \<Rightarrow> nonce_manager \<Rightarrow> nonce_manager" where
  "apply_update u m = m\<lparr>nm_states := (nm_states m)(fst u \<mapsto> snd u),
     nm_pending_txs := AList.delete (fst u) (nm_pending_txs m)\<rparr>"

definition settle_below :: "u64 \<Rightarrow> nonce_manager \<Rightarrow> nonce_manager" where
  "settle_below onchain m =
     m\<lparr>nm_states := (\<lambda>n. if n < onchain then map_option (\<lambda>_. Included) (nm_states m n) else nm_states m n),
       nm_pending_txs := filter (\<lambda>(n, p). \<not> (n < onchain \<and> nm_states m n \<noteq> None)) (nm_pending_txs m)\<rparr>"

definition reconcile :: "'e + u64 \<Rightarrow> (b256 \<Rightarrow> 'e + bool option) \<Rightarrow> nonce_manager \<Rightarrow> nonce_manager \<times> ('e + unit)" where
  "reconcile answer receipt m =
     (case answer of Inl e \<Rightarrow> (m, Inl e)
      | Inr onchain \<Rightarrow>
        let current = nm_next_nonce m;
            receipt_checks = filter (\<lambda>p. onchain \<le> pn_nonce p) (map snd (nm_pending_txs m));
            receipt_updates = List.map_filter (receipt_update receipt) receipt_checks;
            m1 = fold apply_update receipt_updates (settle_below onchain m)
        in (if current < onchain then m1\<lparr>nm_next_nonce := onchain\<rparr> else m1, Inr ()))"

section \<open>The invariant\<close>

text \<open>A pending transaction is filed under its own nonce, and the state of that nonce names its hash;
  every nonce with a state has been issued.\<close>

definition nonce_inv :: "nonce_manager \<Rightarrow> bool" where
  "nonce_inv m \<longleftrightarrow> distinct (map fst (nm_pending_txs m)) \<and>
     (\<forall>n p. (n, p) \<in> set (nm_pending_txs m) \<longrightarrow> pn_nonce p = n \<and> (\<exists>t. nm_states m n = Some (Submitted (pn_tx_hash p) t))) \<and>
     (\<forall>n. nm_states m n \<noteq> None \<longrightarrow> n < nm_next_nonce m)"

lemma nonce_inv_pending:
  "nonce_inv m \<Longrightarrow> (n, p) \<in> set (nm_pending_txs m) \<Longrightarrow> pn_nonce p = n \<and> (\<exists>t. nm_states m n = Some (Submitted (pn_tx_hash p) t))"
  by (auto simp: nonce_inv_def)

lemma nonce_inv_new: "nonce_inv (with_replacement b)"
  by (simp add: nonce_inv_def with_replacement_def)

lemma set_update: "set (AList.update k v xs) \<subseteq> insert (k, v) (set xs)"
  by (induction xs) auto

lemma set_update_other: "(n, p) \<in> set (AList.update k v xs) \<Longrightarrow> distinct (map fst xs) \<Longrightarrow>
    (n = k \<and> p = v) \<or> (n \<noteq> k \<and> (n, p) \<in> set xs)"
  by (induction xs) (auto simp: image_iff split: if_splits)

lemma set_delete: "(n, p) \<in> set (AList.delete k xs) \<longleftrightarrow> n \<noteq> k \<and> (n, p) \<in> set xs"
  by (auto simp: AList.delete_eq)

lemma distinct_delete: "distinct (map fst xs) \<Longrightarrow> distinct (map fst (AList.delete k xs))"
  by (rule AList.distinct_delete)

lemma next_raised_inv: "nonce_inv m \<Longrightarrow> nm_next_nonce m \<le> n \<Longrightarrow> nonce_inv (m\<lparr>nm_next_nonce := n\<rparr>)"
  by (auto simp: nonce_inv_def intro: less_le_trans)

lemma nonce_sync_inv: "nonce_inv m \<Longrightarrow> nonce_inv (fst (nonce_sync a m))"
  by (auto simp: nonce_sync_def next_raised_inv split: sum.splits)

lemma word_less_succ: "n + 1 \<noteq> 0 \<Longrightarrow> n < (n + 1 :: u64)"
  by (rule succ_above) simp_all

lemma issued_below: "nonce_inv m \<Longrightarrow> nm_states m n = Some st \<Longrightarrow> n < nm_next_nonce m"
  by (auto simp: nonce_inv_def)

lemma reserve_inv:
  assumes "nonce_inv m" and "nm_next_nonce m + 1 \<noteq> 0"
  shows "nonce_inv (fst (reserve m))"
proof -
  have lt: "nm_next_nonce m < nm_next_nonce m + 1" by (rule word_less_succ [OF assms(2)])
  have fresh: "nm_states m (nm_next_nonce m) = None" using issued_below [OF assms(1)] by fastforce
  show ?thesis unfolding nonce_inv_def reserve_def Let_def
    using assms(1) lt fresh by (auto simp: nonce_inv_def intro: less_trans)
qed

lemma mark_submitted_inv:
  assumes "nonce_inv m" and "nm_states m n = Some Reserved"
  shows "nonce_inv (nonce_mark_submitted t1 t2 n h a b m)"
proof -
  let ?p = "\<lparr>pn_nonce = n, pn_tx_hash = h, pn_submitted_at = t2, pn_max_priority_fee = a, pn_max_fee = b\<rparr>"
  have d: "distinct (map fst (nm_pending_txs m))" using assms(1) by (simp add: nonce_inv_def)
  have pend: "pn_nonce p = k \<and> (\<exists>t. ((nm_states m)(n \<mapsto> Submitted h t1)) k = Some (Submitted (pn_tx_hash p) t))"
    if "(k, p) \<in> set (AList.update n ?p (nm_pending_txs m))" for k p
    using set_update_other [OF that d] nonce_inv_pending [OF assms(1)] by auto
  show ?thesis unfolding nonce_inv_def nonce_mark_submitted_def
    using pend AList.distinct_update [OF d] issued_below [OF assms(1)] assms(2) by (auto simp del: fun_upd_apply split: if_splits) (auto split: if_splits)
qed

lemma apply_update_inv:
  assumes "nonce_inv m" and "nm_states m (fst u) \<noteq> None"
  shows "nonce_inv (apply_update u m)"
  using assms by (auto simp: nonce_inv_def apply_update_def set_delete distinct_delete)

lemma apply_update_states: "nm_states (apply_update u m) n \<noteq> None \<longleftrightarrow> n = fst u \<or> nm_states m n \<noteq> None"
  by (auto simp: apply_update_def)

lemma apply_updates_inv:
  "nonce_inv m \<Longrightarrow> \<forall>u\<in>set us. nm_states m (fst u) \<noteq> None \<Longrightarrow> nonce_inv (fold apply_update us m)"
proof (induction us arbitrary: m)
  case (Cons u us)
  then have "nonce_inv (apply_update u m)" by (intro apply_update_inv) auto
  moreover have "\<forall>v\<in>set us. nm_states (apply_update u m) (fst v) \<noteq> None"
    using Cons.prems(2) apply_update_states by fastforce
  ultimately show ?case using Cons.IH by simp
qed simp

lemma mark_included_update: "mark_included n m = apply_update (n, Included) m"
  by (simp add: mark_included_def apply_update_def)

lemma mark_dropped_update: "mark_dropped [] n m = Returned (apply_update (n, Dropped) m) (Inr ())"
  by (simp add: mark_dropped_def apply_update_def)

lemma settle_below_inv: "nonce_inv m \<Longrightarrow> nonce_inv (settle_below onchain m)"
  by (auto simp: nonce_inv_def settle_below_def distinct_map_filter split: if_splits)

lemma map_filter_mem: "y \<in> set (List.map_filter f xs) \<longleftrightarrow> (\<exists>x\<in>set xs. f x = Some y)"
  by (induction xs) (auto simp: List.map_filter_simps split: option.splits)

lemma receipt_update_nonce: "receipt_update receipt p = Some u \<Longrightarrow> fst u = pn_nonce p"
  by (auto simp: receipt_update_def split: sum.splits option.splits bool.splits)

lemma reconcile_inv:
  assumes "nonce_inv m" shows "nonce_inv (fst (reconcile answer receipt m))"
proof (cases answer)
  case (Inr onchain)
  let ?us = "List.map_filter (receipt_update receipt) (filter (\<lambda>p. onchain \<le> pn_nonce p) (map snd (nm_pending_txs m)))"
  have "nm_states (settle_below onchain m) (fst u) \<noteq> None" if u: "u \<in> set ?us" for u
  proof -
    from u obtain p' where p': "p' \<in> set (map snd (nm_pending_txs m))" "receipt_update receipt p' = Some u"
      unfolding map_filter_mem by auto
    then obtain n p where p: "(n, p) \<in> set (nm_pending_txs m)" "fst u = pn_nonce p"
      using receipt_update_nonce [OF p'(2)] by auto
    with nonce_inv_pending [OF assms p(1)] show ?thesis by (auto simp: settle_below_def)
  qed
  then have inv: "nonce_inv (fold apply_update ?us (settle_below onchain m))"
    by (intro apply_updates_inv settle_below_inv assms) blast
  have next_same: "nm_next_nonce (fold apply_update us x) = nm_next_nonce x" for us x
    by (induction us arbitrary: x) (simp_all add: apply_update_def)
  show ?thesis using inv Inr
    by (simp add: reconcile_def Let_def next_raised_inv next_same settle_below_def)
qed (simp add: reconcile_def assms)

section \<open>The manager of a running engine\<close>

text \<open>The calls the engine makes, with the guards under which it makes them: a nonce is reported
  submitted once it is reserved, and settled while it has a state.\<close>

inductive nonce_step :: "nonce_manager \<Rightarrow> nonce_manager \<Rightarrow> bool" where
  st_sync: "nonce_step m (fst (nonce_sync (a :: unit + u64) m))"
| st_reserve: "nm_next_nonce m + 1 \<noteq> 0 \<Longrightarrow> nonce_step m (fst (reserve m))"
| st_submitted: "nm_states m n = Some Reserved \<Longrightarrow> nonce_step m (nonce_mark_submitted t1 t2 n h p f m)"
| st_included: "nm_states m n \<noteq> None \<Longrightarrow> nonce_step m (mark_included n m)"
| st_dropped: "nm_states m n \<noteq> None \<Longrightarrow> mark_dropped [] n m = Returned m' r \<Longrightarrow> nonce_step m m'"
| st_reconcile: "nonce_step m (fst (reconcile (a :: unit + u64) receipt m))"

inductive_cases nonce_stepE: "nonce_step m m'"

lemma nonce_step_inv: "nonce_step m m' \<Longrightarrow> nonce_inv m \<Longrightarrow> nonce_inv m'"
  by (induction rule: nonce_step.induct)
    (auto simp: nonce_sync_inv reserve_inv mark_submitted_inv mark_included_update apply_update_inv
      mark_dropped_update reconcile_inv)

lemma nonce_steps_inv: "nonce_step\<^sup>*\<^sup>* m m' \<Longrightarrow> nonce_inv m \<Longrightarrow> nonce_inv m'"
  by (induction rule: rtranclp_induct) (auto intro: nonce_step_inv)

lemma next_fold: "nm_next_nonce (fold apply_update us m) = nm_next_nonce m"
  by (induction us arbitrary: m) (simp_all add: apply_update_def)

lemma nonce_step_next: "nonce_step m m' \<Longrightarrow> nm_next_nonce m \<le> nm_next_nonce m'"
  by (induction rule: nonce_step.induct)
    (auto simp: nonce_sync_def reserve_def nonce_mark_submitted_def mark_included_update mark_dropped_update
      apply_update_def reconcile_def Let_def next_fold settle_below_def less_imp_le word_less_succ
      split: sum.splits)

lemma nonce_steps_next: "nonce_step\<^sup>*\<^sup>* m m' \<Longrightarrow> nm_next_nonce m \<le> nm_next_nonce m'"
  by (induction rule: rtranclp_induct) (auto dest: nonce_step_next)

lemma next_replacable_least:
  assumes "next_replacable now timeout m = Some p"
  shows "p \<in> set (pending_nonces m) \<and> timeout < elapsed now (pn_submitted_at p) \<and>
    (\<forall>q\<in>set (pending_nonces m). timeout < elapsed now (pn_submitted_at q) \<longrightarrow> pn_nonce p \<le> pn_nonce q)"
proof -
  let ?xs = "filter (\<lambda>p. timeout < elapsed now (pn_submitted_at p)) (map snd (nm_pending_txs m))"
  from assms have m: "min_by (\<lambda>a b. cmp (pn_nonce a) (pn_nonce b)) ?xs = Some p"
    by (auto simp: next_replacable_def split: if_splits)
  have "pn_nonce p \<le> pn_nonce q" if "q \<in> set ?xs" for q
    using total_preorder.min_by_least [OF preorder_key m that] by (simp add: cmp_simps not_less)
  with min_by_in_set [OF m] show ?thesis by (auto simp: pending_nonces_def)
qed

section \<open>Properties\<close>

text \<open>along every run of the engine's calls from a fresh manager, a pending transaction is filed
  once, under its own nonce, whose state names its hash; and the next nonce handed out lies above
  every nonce that has a state, so no nonce is handed out twice.\<close>

theorem nonce_run_inv:
  assumes "nonce_step\<^sup>*\<^sup>* (with_replacement b) m"
  shows "(\<forall>n p. (n, p) \<in> set (nm_pending_txs m) \<longrightarrow>
      pn_nonce p = n \<and> (\<exists>t. get_state m n = Some (Submitted (pn_tx_hash p) t))) \<and>
    distinct (map fst (nm_pending_txs m)) \<and>
    (\<forall>n. get_state m n \<noteq> None \<longrightarrow> n < current_nonce m) \<and> get_state m (snd (reserve m)) = None"
proof -
  have inv: "nonce_inv m" using assms nonce_inv_new by (rule nonce_steps_inv)
  then have "nm_states m (nm_next_nonce m) = None" using issued_below by fastforce
  with inv show ?thesis by (auto simp: nonce_inv_def get_state_def current_nonce_def reserve_def Let_def)
qed

theorem nonce_run_inv_witness:
  "get_state (fst (reserve (with_replacement True))) (snd (reserve (fst (reserve (with_replacement True))))) = None \<and>
   get_state (fst (reserve (with_replacement True))) 0 = Some Reserved"
proof -
  have "nonce_step\<^sup>*\<^sup>* (with_replacement True) (fst (reserve (with_replacement True)))"
    by (intro r_into_rtranclp st_reserve) (simp add: with_replacement_def)
  from nonce_run_inv [OF this] show ?thesis
    by (simp add: get_state_def reserve_def with_replacement_def Let_def)
qed

text \<open>cancelling a submitted nonce never returns. The scrutinee of the \<open>if let\<close> keeps the lock on
  \<open>states\<close> while \<open>mark_dropped\<close> takes it again; every other cancellation returns false and
  changes nothing.\<close>

theorem cancel_deadlocks_iff:
  "(nonce_cancel n m = SelfDeadlock \<longleftrightarrow> (\<exists>h t. get_state m n = Some (Submitted h t))) \<and>
   (nonce_cancel n m \<noteq> SelfDeadlock \<longrightarrow> nonce_cancel n m = Returned m (Inr False))"
  by (auto simp: nonce_cancel_def mark_dropped_def get_state_def split: option.splits nonce_state.splits)

theorem cancel_deadlocks_iff_witness:
  "nonce_cancel 0 (fst (reserve (with_replacement True))) = Returned (fst (reserve (with_replacement True))) (Inr False)"
  by (rule cancel_deadlocks_iff [THEN conjunct2, THEN mp])
    (simp add: nonce_cancel_def reserve_def with_replacement_def Let_def)

text \<open>the transaction chosen for replacement has waited longer than the timeout, and no pending
  transaction that has waited as long has a smaller nonce.\<close>

theorem next_replacable_is_oldest:
  assumes "next_replacable now timeout m = Some p"
  shows "nm_replacement_enabled m \<and> p \<in> set (pending_nonces m) \<and> timeout < elapsed now (pn_submitted_at p) \<and>
    (\<forall>q\<in>set (pending_nonces m). timeout < elapsed now (pn_submitted_at q) \<longrightarrow> pn_nonce p \<le> pn_nonce q)"
  using next_replacable_least [OF assms] assms by (auto simp: next_replacable_def split: if_splits)

definition demo_nonces :: nonce_manager where
  "demo_nonces = nonce_mark_submitted 0 0 4 1 2 3 (nonce_mark_submitted 0 0 5 1 2 3 (with_replacement True))"

theorem next_replacable_is_oldest_witness:
  "\<exists>p. next_replacable 100 10 demo_nonces = Some p \<and> pn_nonce p = 4 \<and> p \<in> set (pending_nonces demo_nonces)"
proof -
  let ?p = "\<lparr>pn_nonce = 4, pn_tx_hash = 1, pn_submitted_at = 0, pn_max_priority_fee = 2, pn_max_fee = 3\<rparr>"
  have n: "next_replacable 100 10 demo_nonces = Some ?p"
    by (simp add: demo_nonces_def next_replacable_def nonce_mark_submitted_def with_replacement_def elapsed_def cmp_def)
  have "pn_nonce ?p = 4" by simp
  with n next_replacable_is_oldest [OF n, THEN conjunct2, THEN conjunct1] show ?thesis by (intro exI conjI)
qed

end
