(* ===== verification/Settlement.thy ===== *)
theory Settlement
  imports Valuation Risk_Limits Nonce
begin

text \<open>
  The end of \<open>process_routed_candidate\<close> in \<open>src/engine.rs\<close> (and of its twin
  \<open>process_candidate\<close>): a validated plan passes the depeg guard and the risk check, is submitted
  with a reserved nonce, and its outcome is booked in the nonce manager and the risk manager.
  The submitter's two answers are arguments; the clock readings too.
\<close>

datatype candidate_verdict = V_NoRoute | V_ValidationRejected | V_DepegRejected | V_RiskRejected
  | V_Simulated | V_Submitted | V_SubmissionRejected

datatype receipt_outcome = R_Included | R_Reverted | R_TimedOut

record account =
  ac_nonces :: nonce_manager
  ac_risk :: risk_manager

record settle_result =
  so_account :: account
  so_verdict :: candidate_verdict
  so_submission :: "submission_result option"
  so_sent :: "executable_plan option"

definition i128_to_i64_saturating :: "i128 \<Rightarrow> i64" where
  "i128_to_i64_saturating v = clamp_i64 v"

definition hops_healthy :: "depeg_guard \<Rightarrow> hop_plan list \<Rightarrow> bool" where
  "hops_healthy g hops = list_all (\<lambda>h. token_is_healthy g (hp_token_in h) \<and> token_is_healthy g (hp_token_out h)) hops"

definition drop_nonce :: "u64 \<Rightarrow> nonce_manager \<Rightarrow> nonce_manager" where
  "drop_nonce n m = (case mark_dropped [] n m of Returned m' r \<Rightarrow> m' | SelfDeadlock \<Rightarrow> m)"

text \<open>What is booked once the transaction has been accepted by a channel.\<close>

definition book_receipt ::
  "nat \<Rightarrow> 'e + receipt_outcome \<Rightarrow> u64 \<Rightarrow> exact_plan \<Rightarrow> account \<Rightarrow> account \<times> candidate_verdict" where
  "book_receipt now receipt nonce plan a =
     (case receipt of
        Inr R_Included \<Rightarrow>
          let realized = i128_to_i64_saturating (xp_net_profit_usd_e8 plan)
          in (\<lparr>ac_nonces = mark_included nonce (ac_nonces a), ac_risk = mark_finalized now realized (ac_risk a)\<rparr>,
              V_Submitted)
      | Inr R_Reverted \<Rightarrow>
          (\<lparr>ac_nonces = mark_included nonce (ac_nonces a),
            ac_risk = mark_finalized now (wrap_i128 (- xp_gas_cost_usd_e8 plan)) (ac_risk a)\<rparr>, V_SubmissionRejected)
      | Inr R_TimedOut \<Rightarrow> (a\<lparr>ac_risk := mark_failed_submission (ac_risk a)\<rparr>, V_SubmissionRejected)
      | Inl e \<Rightarrow> (a\<lparr>ac_risk := mark_failed_submission (ac_risk a)\<rparr>, V_SubmissionRejected))"

definition settle ::
  "depeg_guard \<Rightarrow> bool \<Rightarrow> (executable_plan \<Rightarrow> 'e + submission_result) \<Rightarrow> (b256 \<Rightarrow> 'e + receipt_outcome) \<Rightarrow>
   nat \<Rightarrow> nat \<Rightarrow> instant \<Rightarrow> instant \<Rightarrow> account \<Rightarrow> executable_plan \<Rightarrow> settle_result" where
  "settle guard simulate_only submit wait_for_receipt now now' t1 t2 a ex =
     (let stop = (\<lambda>v. \<lparr>so_account = a, so_verdict = v, so_submission = None, so_sent = None\<rparr>) in
      if \<not> hops_healthy guard (xp_hops (ex_exact ex)) then stop V_DepegRejected
      else if pre_trade_check (ac_risk a) now (ex_exact ex) \<noteq> Inr () then stop V_RiskRejected
      else if simulate_only then stop V_Simulated
      else
        let (nonces, nonce) = reserve (ac_nonces a);
            sent = ex\<lparr>ex_nonce := nonce\<rparr>;
            risk = risk_mark_submitted (ac_risk a)
        in case submit sent of
             Inl e \<Rightarrow>
               \<lparr>so_account = \<lparr>ac_nonces = drop_nonce nonce nonces, ac_risk = mark_failed_submission risk\<rparr>,
                so_verdict = V_SubmissionRejected, so_submission = None, so_sent = Some sent\<rparr>
           | Inr result \<Rightarrow>
               let a1 = \<lparr>ac_nonces = nonce_mark_submitted t1 t2 nonce (sr_tx_hash result)
                      (ex_max_priority_fee_per_gas sent) (ex_max_fee_per_gas sent) nonces, ac_risk = risk\<rparr>;
                   (a2, verdict) = book_receipt now' (wait_for_receipt (sr_tx_hash result)) nonce (ex_exact sent) a1
               in \<lparr>so_account = a2, so_verdict = verdict,
                   so_submission = (if verdict = V_Submitted then Some result else None), so_sent = Some sent\<rparr>)"

text \<open>The nonce manager the engine starts with: a new one, synced with the node's count of the operator's transactions. A
  failing sync ends the program.\<close>

definition synced_nonces :: "settings \<Rightarrow> 'e + u64 \<Rightarrow> 'e + nonce_manager" where
  "synced_nonces cfg answer =
     (case nonce_sync answer (with_replacement (xs_enable_nonce_replacement (st_execution cfg))) of
        (m, Inl err) \<Rightarrow> Inl err
      | (m, Inr _) \<Rightarrow> Inr m)"

section \<open>One settlement\<close>

lemma settle_not_sent: "so_sent (settle g sim sub w n n' t1 t2 a ex) = None \<Longrightarrow> so_account (settle g sim sub w n n' t1 t2 a ex) = a"
  by (auto simp: settle_def Let_def split: prod.splits sum.splits if_splits)

lemma settle_sent:
  assumes "so_sent (settle g sim sub w n n' t1 t2 a ex) = Some s"
  shows "hops_healthy g (xp_hops (ex_exact ex))" "pre_trade_check (ac_risk a) n (ex_exact ex) = Inr ()" "\<not> sim"
    "s = ex\<lparr>ex_nonce := nm_next_nonce (ac_nonces a)\<rparr>"
  using assms by (auto simp: settle_def Let_def reserve_def split: prod.splits sum.splits if_splits)

text \<open>The account after a plan was sent, by what became of it.\<close>

datatype fate = Refused | Unresolved | Booked i128

definition fate_of :: "(executable_plan \<Rightarrow> 'e + submission_result) \<Rightarrow> (b256 \<Rightarrow> 'e + receipt_outcome) \<Rightarrow> executable_plan \<Rightarrow> fate" where
  "fate_of submit w s =
     (case submit s of Inl e \<Rightarrow> Refused
      | Inr r \<Rightarrow> (case w (sr_tx_hash r) of
            Inr R_Included \<Rightarrow> Booked (i128_to_i64_saturating (xp_net_profit_usd_e8 (ex_exact s)))
          | Inr R_Reverted \<Rightarrow> Booked (wrap_i128 (- xp_gas_cost_usd_e8 (ex_exact s)))
          | _ \<Rightarrow> Unresolved))"

lemma settle_risk:
  assumes "so_sent (settle g sim sub w n n' t1 t2 a ex) = Some s"
  shows "ac_risk (so_account (settle g sim sub w n n' t1 t2 a ex)) =
    (case fate_of sub w s of
       Booked x \<Rightarrow> mark_finalized n' x (risk_mark_submitted (ac_risk a))
     | _ \<Rightarrow> mark_failed_submission (risk_mark_submitted (ac_risk a)))"
proof -
  note s = settle_sent [OF assms]
  show ?thesis
  proof (cases "sub s")
    case (Inl e)
    then show ?thesis using s by (simp add: settle_def Let_def reserve_def fate_of_def)
  next
    case (Inr r)
    then show ?thesis using s
      by (cases "w (sr_tx_hash r)"; cases "projr (w (sr_tx_hash r))")
        (auto simp: settle_def Let_def reserve_def fate_of_def book_receipt_def)
  qed
qed

lemma settle_nonces:
  assumes "so_sent (settle g sim sub w n n' t1 t2 a ex) = Some s"
  shows "ac_nonces (so_account (settle g sim sub w n n' t1 t2 a ex)) =
    (let m = fst (reserve (ac_nonces a)); k = snd (reserve (ac_nonces a)) in
     case sub s of Inl e \<Rightarrow> apply_update (k, Dropped) m
     | Inr r \<Rightarrow>
       let m' = nonce_mark_submitted t1 t2 k (sr_tx_hash r) (ex_max_priority_fee_per_gas s) (ex_max_fee_per_gas s) m
       in (case fate_of sub w s of Booked x \<Rightarrow> mark_included k m' | _ \<Rightarrow> m'))"
proof -
  note s = settle_sent [OF assms]
  show ?thesis
  proof (cases "sub s")
    case (Inl e)
    then show ?thesis using s
      by (simp add: settle_def Let_def reserve_def drop_nonce_def mark_dropped_update)
  next
    case (Inr r)
    then show ?thesis using s
      by (cases "w (sr_tx_hash r)"; cases "projr (w (sr_tx_hash r))")
        (auto simp: settle_def Let_def reserve_def fate_of_def book_receipt_def)
  qed
qed

section \<open>Runs of settlements\<close>

text \<open>The engine settles one plan after the other. A run carries its number of settlements and the
  latest clock reading; \<open>gas\<close> bounds what a reverted plan costs.\<close>

inductive settle_run :: "int \<Rightarrow> account \<Rightarrow> nat \<Rightarrow> nat \<Rightarrow> account \<Rightarrow> bool" for gas and a0 where
  run_start: "settle_run gas a0 0 0 a0"
| run_settle: "settle_run gas a0 k clock a \<Longrightarrow> clock \<le> now \<Longrightarrow> now \<le> now' \<Longrightarrow>
    is_i128 (xp_net_profit_usd_e8 (ex_exact ex)) \<Longrightarrow>
    0 \<le> xp_gas_cost_usd_e8 (ex_exact ex) \<Longrightarrow> xp_gas_cost_usd_e8 (ex_exact ex) \<le> gas \<Longrightarrow>
    nm_next_nonce (ac_nonces a) + 1 \<noteq> 0 \<Longrightarrow>
    settle_run gas a0 (Suc k) now' (so_account (settle g sim (sub :: executable_plan \<Rightarrow> unit + submission_result) w now now' t1 t2 a ex))"

lemma settle_nonce_steps:
  assumes "nm_next_nonce (ac_nonces a) + 1 \<noteq> 0"
  shows "nonce_step\<^sup>*\<^sup>* (ac_nonces a) (ac_nonces (so_account (settle g sim sub w n n' t1 t2 a ex)))"
proof (cases "so_sent (settle g sim sub w n n' t1 t2 a ex)")
  case None
  then show ?thesis by (simp add: settle_not_sent)
next
  case (Some s)
  let ?m = "fst (reserve (ac_nonces a))" and ?k = "snd (reserve (ac_nonces a))"
  have r: "nonce_step (ac_nonces a) ?m" by (rule st_reserve [OF assms])
  have k: "nm_states ?m ?k = Some Reserved" by (simp add: reserve_def Let_def)
  have drop: "nonce_step ?m (apply_update (?k, Dropped) ?m)"
    using k mark_dropped_update by (intro st_dropped [of _ ?k]) auto
  have mark: "nonce_step ?m (nonce_mark_submitted t1 t2 ?k h x y ?m)" for h x y by (rule st_submitted [OF k])
  have incl: "nonce_step (nonce_mark_submitted t1 t2 ?k h x y ?m) (mark_included ?k (nonce_mark_submitted t1 t2 ?k h x y ?m))" for h x y
    by (rule st_included) (simp add: nonce_mark_submitted_def)
  note steps = r drop mark incl
  show ?thesis unfolding settle_nonces [OF Some] Let_def
    using rtranclp.rtrancl_into_rtrancl [OF r_into_rtranclp [of nonce_step, OF r] drop]
      rtranclp.rtrancl_into_rtrancl [OF r_into_rtranclp [of nonce_step, OF r] mark]
      rtranclp.rtrancl_into_rtrancl [OF rtranclp.rtrancl_into_rtrancl [OF r_into_rtranclp [of nonce_step, OF r] mark] incl]
    by (auto split: sum.split fate.split)
qed

lemma settle_run_nonces: "settle_run gas a0 k clock a \<Longrightarrow> nonce_step\<^sup>*\<^sup>* (ac_nonces a0) (ac_nonces a)"
proof (induction rule: settle_run.induct)
  case (run_settle k clock a now now' ex g sim sub w t1 t2)
  show ?case by (rule rtranclp_trans [OF run_settle.IH settle_nonce_steps [OF run_settle.hyps(7)]])
qed simp

lemma settle_next_nonce:
  "nm_next_nonce (ac_nonces (so_account (settle g sim sub w n n' t1 t2 a ex))) =
     nm_next_nonce (ac_nonces a) + (if so_sent (settle g sim sub w n n' t1 t2 a ex) = None then 0 else 1)"
proof (cases "so_sent (settle g sim sub w n n' t1 t2 a ex)")
  case None
  then show ?thesis by (simp add: settle_not_sent)
next
  case (Some s)
  then show ?thesis unfolding settle_nonces [OF Some]
    by (simp add: Let_def reserve_def apply_update_def nonce_mark_submitted_def mark_included_def split: sum.split fate.split)
qed

lemma settle_run_next_nonce: "settle_run gas a0 k clock a \<Longrightarrow> nm_next_nonce (ac_nonces a0) \<le> nm_next_nonce (ac_nonces a)"
proof (induction rule: settle_run.induct)
  case (run_settle k clock a now now' ex g sim sub w t1 t2)
  have "nm_next_nonce (ac_nonces a) \<le> nm_next_nonce (ac_nonces a) + 1"
    by (rule less_imp_le [OF word_less_succ [OF run_settle.hyps(7)]])
  with run_settle.IH show ?case unfolding settle_next_nonce by (auto intro: order.trans)
qed simp

lemma synced_nonces_start:
  assumes "synced_nonces cfg answer = Inr m"
  shows "nonce_inv m \<and> (\<exists>onchain. answer = Inr onchain \<and> nm_next_nonce m = onchain)"
  using assms by (auto simp: synced_nonces_def nonce_sync_def with_replacement_def nonce_inv_def word_gt_0 split: sum.splits if_splits)

text \<open>What every settlement keeps of the risk manager: its limits, its counter of open transactions.\<close>

definition same_limits :: "risk_manager \<Rightarrow> risk_manager \<Rightarrow> bool" where
  "same_limits r r' \<longleftrightarrow> rm_daily_loss_limit_usd_e8 r' = rm_daily_loss_limit_usd_e8 r \<and>
     rm_open_tx_count r' = rm_open_tx_count r \<and> rm_min_profit_usd_e8 r' = rm_min_profit_usd_e8 r"

lemma settle_keeps_limits:
  assumes "rm_open_tx_count (ac_risk a) + 1 \<noteq> 0"
  shows "same_limits (ac_risk a) (ac_risk (so_account (settle g sim sub w n n' t1 t2 a ex)))"
proof (cases "so_sent (settle g sim sub w n n' t1 t2 a ex)")
  case None
  then show ?thesis by (simp add: settle_not_sent same_limits_def)
next
  case (Some s)
  show ?thesis unfolding settle_risk [OF Some]
    using close_after_submit [OF assms]
    by (auto simp: same_limits_def mark_finalized_def risk_mark_submitted_def Let_def split: fate.split)
qed

lemma settle_pnl:
  assumes "rm_open_tx_count (ac_risk a) + 1 \<noteq> 0"
  shows "daily_pnl (ac_risk (so_account (settle g sim sub w n n' t1 t2 a ex))) day =
    (case so_sent (settle g sim sub w n n' t1 t2 a ex) of
       Some s \<Rightarrow> (case fate_of sub w s of
           Booked x \<Rightarrow> if day = current_day_key n' then wrap_i128 (daily_pnl (ac_risk a) day + x) else daily_pnl (ac_risk a) day
         | _ \<Rightarrow> daily_pnl (ac_risk a) day)
     | None \<Rightarrow> daily_pnl (ac_risk a) day)"
proof (cases "so_sent (settle g sim sub w n n' t1 t2 a ex)")
  case None
  then show ?thesis by (simp add: settle_not_sent)
next
  case (Some s)
  show ?thesis unfolding settle_risk [OF Some] Some
    using close_after_submit [OF assms] by (simp split: fate.split)
qed

lemma settle_typed: "pnl_typed (ac_risk a) \<Longrightarrow> pnl_typed (ac_risk (so_account (settle g sim sub w n n' t1 t2 a ex)))"
  by (cases "so_sent (settle g sim sub w n n' t1 t2 a ex)")
    (auto simp: settle_not_sent settle_risk mark_finalized_typed mark_failed_typed mark_submitted_typed split: fate.split)

lemma clamp_i64_bounds: "0 \<le> x \<Longrightarrow> 0 \<le> clamp_i64 x" "clamp_i64 x < 2 ^ 63"
  by (auto simp: clamp_i64_def)

text \<open>What one booked plan can add to the account.\<close>

lemma booked_bounds:
  assumes "fate_of sub w s = Booked x" and "0 \<le> xp_net_profit_usd_e8 (ex_exact s)"
    and "0 \<le> xp_gas_cost_usd_e8 (ex_exact s)" and "xp_gas_cost_usd_e8 (ex_exact s) \<le> gas" and "gas < 2 ^ 126"
  shows "- gas \<le> x \<and> x < 2 ^ 63"
proof -
  have "wrap_i128 (- xp_gas_cost_usd_e8 (ex_exact s)) = - xp_gas_cost_usd_e8 (ex_exact s)"
    using assms(3-5) by (intro wrap_i128_id) auto
  with assms clamp_i64_bounds show ?thesis
    by (fastforce simp: fate_of_def i128_to_i64_saturating_def split: sum.splits receipt_outcome.splits)
qed

definition loss_inv :: "int \<Rightarrow> account \<Rightarrow> nat \<Rightarrow> nat \<Rightarrow> account \<Rightarrow> bool" where
  "loss_inv gas a0 k clock a \<longleftrightarrow> pnl_typed (ac_risk a) \<and> same_limits (ac_risk a0) (ac_risk a) \<and>
     (\<forall>day. - uint (rm_daily_loss_limit_usd_e8 (ac_risk a0)) - gas \<le> daily_pnl (ac_risk a) day \<and>
        daily_pnl (ac_risk a) day \<le> int k * 2 ^ 63) \<and>
     (\<forall>day > current_day_key clock. daily_pnl (ac_risk a) day = 0)"

definition fresh_account :: "int \<Rightarrow> account \<Rightarrow> bool" where
  "fresh_account gas a \<longleftrightarrow> rm_daily_pnl_usd_e8 (ac_risk a) = Map.empty \<and> rm_open_tx_count (ac_risk a) + 1 \<noteq> 0 \<and>
     0 \<le> gas \<and> gas < 2 ^ 126 \<and> uint (rm_daily_loss_limit_usd_e8 (ac_risk a)) < 2 ^ 126"

lemma loss_inv_start:
  assumes "fresh_account gas a" shows "loss_inv gas a 0 0 a"
proof -
  have "daily_pnl (ac_risk a) day = 0" for day using assms by (simp add: fresh_account_def daily_pnl_def)
  moreover have "- uint (rm_daily_loss_limit_usd_e8 (ac_risk a)) - gas \<le> 0"
    using assms uint_lt_size(1) [of "rm_daily_loss_limit_usd_e8 (ac_risk a)"] unfolding fresh_account_def by linarith
  ultimately show ?thesis using assms by (simp add: loss_inv_def pnl_typed_def same_limits_def fresh_account_def)
qed

lemma booked_in_range:
  assumes "- (L :: int) \<le> p" and "p \<le> int k * 2 ^ 63" and "- gas \<le> x" and "x < 2 ^ 63"
    and "L < 2 ^ 126" and "gas < 2 ^ 126" and "Suc k \<le> 2 ^ 62"
  shows "- L - gas \<le> wrap_i128 (p + x) \<and> wrap_i128 (p + x) \<le> int (Suc k) * 2 ^ 63"
proof -
  have "int (Suc k) * 2 ^ 63 \<le> 2 ^ 62 * 2 ^ 63" using assms(7) by (intro mult_right_mono) (simp_all del: of_nat_Suc)
  then have "wrap_i128 (p + x) = p + x" using assms by (intro wrap_i128_id) auto
  then show ?thesis using assms by (simp add: algebra_simps)
qed

lemma loss_inv_step:
  assumes inv: "loss_inv gas a0 k clock a" and fresh: "fresh_account gas a0"
    and time: "clock \<le> n" "n \<le> n'" and k: "Suc k \<le> 2 ^ 62"
    and plan: "is_i128 (xp_net_profit_usd_e8 (ex_exact ex))" "0 \<le> xp_gas_cost_usd_e8 (ex_exact ex)"
      "xp_gas_cost_usd_e8 (ex_exact ex) \<le> gas"
  shows "loss_inv gas a0 (Suc k) n' (so_account (settle g sim sub w n n' t1 t2 a ex))"
proof -
  let ?r = "settle g sim sub w n n' t1 t2 a ex" and ?L = "uint (rm_daily_loss_limit_usd_e8 (ac_risk a0))"
  have open': "rm_open_tx_count (ac_risk a) + 1 \<noteq> 0"
    using inv fresh by (simp add: loss_inv_def same_limits_def fresh_account_def)
  have days: "current_day_key clock \<le> current_day_key n" "current_day_key n \<le> current_day_key n'"
    using time by (simp_all add: current_day_key_def div_le_mono)
  have old: "- ?L - gas \<le> daily_pnl (ac_risk a) day \<and> daily_pnl (ac_risk a) day \<le> int (Suc k) * 2 ^ 63" for day
    using inv by (auto simp: loss_inv_def algebra_simps intro: order.trans)
  have new: "- ?L - gas \<le> wrap_i128 (daily_pnl (ac_risk a) (current_day_key n') + x) \<and>
      wrap_i128 (daily_pnl (ac_risk a) (current_day_key n') + x) \<le> int (Suc k) * 2 ^ 63"
    if sent: "so_sent ?r = Some s" and booked: "fate_of sub w s = Booked x" for s x
  proof -
    note s = settle_sent [OF sent]
    have check: "uint (rm_min_profit_usd_e8 (ac_risk a)) \<le> xp_net_profit_usd_e8 (ex_exact ex)"
      "- uint (rm_daily_loss_limit_usd_e8 (ac_risk a)) \<le> daily_pnl (ac_risk a) (current_day_key n)"
      using s(2) check_ok_iff [OF _ plan(1)] inv by (auto simp: loss_inv_def within_limits_def)
    have "0 \<le> xp_net_profit_usd_e8 (ex_exact s)"
      using order.trans [OF uint_lt_size(1) check(1)] s(4) by simp
    then have x: "- gas \<le> x" "x < 2 ^ 63"
      using booked_bounds [OF booked] plan fresh s(4) by (auto simp: fresh_account_def)
    have "- ?L \<le> daily_pnl (ac_risk a) (current_day_key n')"
    proof (cases "current_day_key n' = current_day_key n")
      case True
      with check(2) inv show ?thesis by (simp add: loss_inv_def same_limits_def)
    next
      case False
      with days inv have "daily_pnl (ac_risk a) (current_day_key n') = 0" by (simp add: loss_inv_def)
      then show ?thesis using uint_lt_size(1) [of "rm_daily_loss_limit_usd_e8 (ac_risk a0)"] by linarith
    qed
    then show ?thesis using booked_in_range [OF _ _ x _ _ k] inv fresh
      by (simp add: loss_inv_def fresh_account_def)
  qed
  have pnl: "- ?L - gas \<le> daily_pnl (ac_risk (so_account ?r)) day \<and> daily_pnl (ac_risk (so_account ?r)) day \<le> int (Suc k) * 2 ^ 63" for day
    unfolding settle_pnl [OF open'] using old [of day] new
    by (cases "so_sent ?r") (auto simp del: of_nat_Suc split: fate.split)
  have later: "daily_pnl (ac_risk (so_account ?r)) day = 0" if "current_day_key n' < day" for day
    unfolding settle_pnl [OF open'] using that days inv by (auto simp: loss_inv_def split: fate.split option.split)
  show ?thesis
    using inv settle_keeps_limits [OF open', of g sim sub w n n' t1 t2 ex] settle_typed [of a g sim sub w n n' t1 t2 ex] pnl later
    by (simp add: loss_inv_def same_limits_def)
qed

lemma settle_run_loss:
  "settle_run gas a0 k clock a \<Longrightarrow> fresh_account gas a0 \<Longrightarrow> k \<le> 2 ^ 62 \<Longrightarrow> loss_inv gas a0 k clock a"
proof (induction rule: settle_run.induct)
  case run_start
  then show ?case by (simp add: loss_inv_start)
next
  case (run_settle k clock a now now' ex g sim sub w t1 t2)
  then have "loss_inv gas a0 k clock a" by simp
  from loss_inv_step [OF this run_settle.prems(1) run_settle.hyps(2,3) run_settle.prems(2) run_settle.hyps(4-6)]
  show ?case .
qed

section \<open>Properties\<close>

text \<open>C3: over any run of settlements from a fresh account, with any outcomes, no day's account ever
  falls below the daily loss limit by more than the gas of one reverted transaction, and every
  settlement gives back its slot in the counter of open transactions.\<close>

theorem daily_loss_bounded:
  assumes "settle_run gas a0 k clock a" and "fresh_account gas a0" and "k \<le> 2 ^ 62"
  shows "- uint (rm_daily_loss_limit_usd_e8 (ac_risk a0)) - gas \<le> daily_pnl (ac_risk a) day \<and>
    rm_open_tx_count (ac_risk a) = rm_open_tx_count (ac_risk a0)"
  using settle_run_loss [OF assms] by (simp add: loss_inv_def same_limits_def)

definition demo_account :: account where
  "demo_account = \<lparr>ac_nonces = with_replacement True, ac_risk = demo_risk\<rparr>"

definition demo_executable :: executable_plan where
  "demo_executable = \<lparr>ex_exact = demo_plan, ex_calldata = [], ex_max_fee_per_gas = 5, ex_max_priority_fee_per_gas = 1,
     ex_nonce = 0, ex_deadline_unix = 0\<rparr>"

definition demo_guard :: depeg_guard where
  "demo_guard = \<lparr>dg_stable_depeg_cutoff_e6 = 980000, dg_manual_prices = Map.empty, dg_stable_tokens = []\<rparr>"

definition demo_submit :: "executable_plan \<Rightarrow> unit + submission_result" where
  "demo_submit e = Inr \<lparr>sr_tx_hash = ucast (ex_nonce e) + 77, sr_channel = ''public''\<rparr>"

text \<open>A submission followed by each kind of receipt, and one that is refused.\<close>

definition demo_settle :: "(executable_plan \<Rightarrow> unit + submission_result) \<Rightarrow> unit + receipt_outcome \<Rightarrow> account \<Rightarrow> settle_result" where
  "demo_settle submit receipt a = settle demo_guard False submit (\<lambda>_. receipt) 0 0 0 0 a demo_executable"

lemma demo_run: "nm_next_nonce (ac_nonces a) + 1 \<noteq> 0 \<Longrightarrow> settle_run 20 a0 k 0 a \<Longrightarrow>
    settle_run 20 a0 (Suc k) 0 (so_account (demo_settle s r a))"
  unfolding demo_settle_def
  by (rule run_settle) (simp_all add: demo_executable_def demo_plan_def is_i128_def)

lemma demo_check: "pre_trade_check demo_risk 0 demo_plan = Inr ()"
  by (simp add: pre_trade_check_def demo_risk_def demo_plan_def as_u128_def daily_pnl_def)

lemma demo_sent:
  "ac_risk a = demo_risk \<Longrightarrow>
   so_sent (demo_settle s r a) = Some (demo_executable\<lparr>ex_nonce := nm_next_nonce (ac_nonces a)\<rparr>)"
proof -
  assume r: "ac_risk a = demo_risk"
  have e: "ex_exact demo_executable = demo_plan" "xp_hops demo_plan = []"
    by (simp_all add: demo_executable_def demo_plan_def)
  show ?thesis unfolding demo_settle_def settle_def
    by (simp add: r e demo_check hops_healthy_def reserve_def Let_def split: sum.split prod.split)
qed

lemma demo_fresh: "fresh_account 20 demo_account"
  by (simp add: fresh_account_def demo_account_def demo_risk_def)

theorem daily_loss_bounded_witness:
  "daily_pnl (ac_risk (so_account (demo_settle demo_submit (Inr R_Reverted) demo_account))) 0 = - 20 \<and>
   - 120 \<le> daily_pnl (ac_risk (so_account (demo_settle demo_submit (Inr R_Reverted) demo_account))) 0"
proof -
  let ?a = "so_account (demo_settle demo_submit (Inr R_Reverted) demo_account)"
  have "settle_run 20 demo_account (Suc 0) 0 ?a"
    by (rule demo_run [OF _ run_start]) (simp add: demo_account_def with_replacement_def)
  from daily_loss_bounded [OF this demo_fresh, of 0] have "- 120 \<le> daily_pnl (ac_risk ?a) 0"
    by (simp add: demo_account_def demo_risk_def)
  moreover have "daily_pnl (ac_risk ?a) 0 = - 20"
  proof -
    have r: "ac_risk demo_account = demo_risk" and p: "rm_open_tx_count demo_risk + 1 \<noteq> 0"
      and z: "daily_pnl demo_risk 0 = 0" by (simp_all add: demo_account_def demo_risk_def daily_pnl_def)
    have "fate_of demo_submit (\<lambda>_. Inr R_Reverted) (demo_executable\<lparr>ex_nonce := n\<rparr>) = Booked (- 20)" for n
      by (simp add: fate_of_def demo_submit_def demo_executable_def demo_plan_def wrap_i128_def)
    with settle_pnl [of demo_account demo_guard False demo_submit "\<lambda>_. Inr R_Reverted" 0 0 0 0 demo_executable 0]
      demo_sent [OF r, of demo_submit "Inr R_Reverted"] p z
    show ?thesis unfolding demo_settle_def by (simp add: r current_day_key_def wrap_i128_def)
  qed
  ultimately show ?thesis by blast
qed

text \<open>C7: what reaches the submitter, from the engine's start on: from a nonce manager synced with the node's count of the
  operator's transactions, after any settlements. A plan is only ever sent outside simulation, with every token of its hops
  healthy and the risk check passed, under a nonce that had no state before and is not below the node's count.\<close>

theorem sent_only_when_allowed:
  assumes "so_sent (settle g sim (sub :: executable_plan \<Rightarrow> unit + submission_result) w n n' t1 t2 a ex) = Some s"
    and "settle_run gas a0 k clock a" and "synced_nonces cfg answer = Inr (ac_nonces a0)"
  shows "\<not> sim \<and> pre_trade_check (ac_risk a) n (ex_exact s) = Inr () \<and>
    (\<forall>h\<in>set (xp_hops (ex_exact s)). token_is_healthy g (hp_token_in h) \<and> token_is_healthy g (hp_token_out h)) \<and>
    get_state (ac_nonces a) (ex_nonce s) = None \<and> (\<exists>onchain. answer = Inr onchain \<and> onchain \<le> ex_nonce s)"
proof -
  note s = settle_sent [OF assms(1)]
  note start = synced_nonces_start [OF assms(3)]
  have "nonce_inv (ac_nonces a)"
    using nonce_steps_inv [OF settle_run_nonces [OF assms(2)]] start by simp
  then have "nm_states (ac_nonces a) (nm_next_nonce (ac_nonces a)) = None" using issued_below by fastforce
  moreover have "\<exists>onchain. answer = Inr onchain \<and> onchain \<le> nm_next_nonce (ac_nonces a)"
    using start settle_run_next_nonce [OF assms(2)] by auto
  ultimately show ?thesis using s by (auto simp: hops_healthy_def list_all_iff get_state_def)
qed

text \<open>An operator with 41 transactions on the chain: the first plan is refused by the submitter, the second is sent.\<close>

definition synced_account :: "settings \<Rightarrow> account" where
  "synced_account cfg =
     \<lparr>ac_nonces = (with_replacement (xs_enable_nonce_replacement (st_execution cfg)))\<lparr>nm_next_nonce := 41\<rparr>, ac_risk = demo_risk\<rparr>"

theorem sent_only_when_allowed_witness:
  "\<forall>cfg. \<exists>s. so_sent (demo_settle demo_submit (Inr R_Included) (so_account (demo_settle (\<lambda>_. Inl ()) (Inr R_Included) (synced_account cfg)))) = Some s \<and>
     ex_nonce s = 42 \<and> 41 \<le> ex_nonce s \<and>
     get_state (ac_nonces (so_account (demo_settle (\<lambda>_. Inl ()) (Inr R_Included) (synced_account cfg)))) 42 = None"
proof
  fix cfg
  let ?start = "synced_account cfg" and ?a = "so_account (demo_settle (\<lambda>_. Inl ()) (Inr R_Included) (synced_account cfg))"
  have r: "ac_risk ?start = demo_risk" "nm_next_nonce (ac_nonces ?start) = 41" "rm_open_tx_count demo_risk + 1 \<noteq> 0"
    by (simp_all add: synced_account_def demo_risk_def)
  have synced: "synced_nonces cfg (Inr 41 :: unit + u64) = Inr (ac_nonces ?start)"
    by (simp add: synced_nonces_def nonce_sync_def synced_account_def with_replacement_def)
  have run: "settle_run 20 ?start (Suc 0) 0 ?a" by (rule demo_run [OF _ run_start]) (simp add: r)
  obtain s1 where s1: "so_sent (demo_settle (\<lambda>_. Inl ()) (Inr R_Included) ?start) = Some s1" using demo_sent [OF r(1)] by simp
  have risk: "ac_risk ?a = demo_risk"
    using settle_risk [OF s1 [unfolded demo_settle_def]] close_after_submit(1) [of demo_risk] r
    unfolding demo_settle_def by (simp add: fate_of_def)
  have following: "nm_next_nonce (ac_nonces ?a) = 42"
    using settle_next_nonce [of demo_guard False "\<lambda>_. Inl ()" "\<lambda>_. Inr R_Included" 0 0 0 0 ?start demo_executable] s1 r(2)
    by (simp add: demo_settle_def)
  obtain s where s: "so_sent (demo_settle demo_submit (Inr R_Included) ?a) = Some s" "ex_nonce s = 42"
    using demo_sent [OF risk, of demo_submit "Inr R_Included"] following by simp
  from sent_only_when_allowed [OF s(1) [unfolded demo_settle_def] run [unfolded demo_settle_def] synced] s
  show "\<exists>s. so_sent (demo_settle demo_submit (Inr R_Included) ?a) = Some s \<and> ex_nonce s = 42 \<and> 41 \<le> ex_nonce s \<and>
      get_state (ac_nonces ?a) 42 = None"
    by (auto simp: demo_settle_def)
qed

lemma update_new_length: "k \<notin> fst ` set xs \<Longrightarrow> length (AList.update k v xs) = Suc (length xs)"
  by (induction xs) auto

lemma time_out_step:
  assumes "hops_healthy g (xp_hops (ex_exact ex))" and "pre_trade_check (ac_risk a) now (ex_exact ex) = Inr ()"
    and "\<And>s. \<exists>r. sub s = Inr r" and "\<And>h. w h = Inr R_TimedOut"
    and "nonce_inv (ac_nonces a)" and "rm_open_tx_count (ac_risk a) + 1 \<noteq> 0" and "nm_next_nonce (ac_nonces a) + 1 \<noteq> 0"
    and b: "b = so_account (settle g False sub w now now' t1 t2 a ex)"
  shows "length (nm_pending_txs (ac_nonces b)) = Suc (length (nm_pending_txs (ac_nonces a))) \<and> ac_risk b = ac_risk a \<and>
    nonce_inv (ac_nonces b) \<and> nm_next_nonce (ac_nonces b) = nm_next_nonce (ac_nonces a) + 1"
proof -
  let ?r = "settle g False sub w now now' t1 t2 a ex" and ?s = "ex\<lparr>ex_nonce := nm_next_nonce (ac_nonces a)\<rparr>"
  obtain r where r: "sub ?s = Inr r" using assms(3) by blast
  have sent: "so_sent ?r = Some ?s"
    using assms(1,2) r by (simp add: settle_def reserve_def Let_def split: prod.split)
  have fate: "fate_of sub w ?s = Unresolved" using r assms(4) by (simp add: fate_of_def)
  have risk: "ac_risk b = ac_risk a"
    unfolding b settle_risk [OF sent] fate using close_after_submit(1) [OF assms(6)] by simp
  have new: "nm_next_nonce (ac_nonces a) \<notin> fst ` set (nm_pending_txs (ac_nonces a))"
    using issued_below [OF assms(5)] nonce_inv_pending [OF assms(5)] by fastforce
  have nonces: "ac_nonces b = nonce_mark_submitted t1 t2 (nm_next_nonce (ac_nonces a)) (sr_tx_hash r)
      (ex_max_priority_fee_per_gas ?s) (ex_max_fee_per_gas ?s) (fst (reserve (ac_nonces a)))"
    unfolding b settle_nonces [OF sent] by (simp add: r fate reserve_def Let_def)
  have "nonce_inv (ac_nonces b)"
    unfolding b by (rule nonce_steps_inv [OF settle_nonce_steps [OF assms(7)] assms(5)])
  then show ?thesis using risk update_new_length [OF new]
    by (simp add: nonces nonce_mark_submitted_def reserve_def Let_def)
qed

text \<open>the counter of open transactions does not see transactions that are still pending. A receipt
  that does not arrive in time gives the slot back while the transaction stays in the pending
  table: after \<open>k\<close> such settlements \<open>k\<close> more transactions are pending and the risk manager is
  unchanged, so the limit on concurrent transactions never holds the next one back.\<close>

theorem timeouts_accumulate:
  assumes "hops_healthy g (xp_hops (ex_exact ex))" and "pre_trade_check (ac_risk a) now (ex_exact ex) = Inr ()"
    and "\<And>s. \<exists>r. sub s = Inr r" and "\<And>h. w h = Inr R_TimedOut"
    and "nonce_inv (ac_nonces a)" and "rm_open_tx_count (ac_risk a) + 1 \<noteq> 0"
    and "unat (nm_next_nonce (ac_nonces a)) + k < 2 ^ 64"
    and f: "f = (\<lambda>a. so_account (settle g False sub w now now' t1 t2 a ex))"
  shows "length (pending_nonces (ac_nonces ((f ^^ k) a))) = length (pending_nonces (ac_nonces a)) + k \<and>
    ac_risk ((f ^^ k) a) = ac_risk a"
proof -
  have "length (nm_pending_txs (ac_nonces ((f ^^ k) a))) = length (nm_pending_txs (ac_nonces a)) + k \<and>
      ac_risk ((f ^^ k) a) = ac_risk a \<and> nonce_inv (ac_nonces ((f ^^ k) a)) \<and>
      unat (nm_next_nonce (ac_nonces ((f ^^ k) a))) = unat (nm_next_nonce (ac_nonces a)) + k"
    using assms(7)
  proof (induction k)
    case (Suc k)
    let ?a = "(f ^^ k) a"
    from Suc have IH: "length (nm_pending_txs (ac_nonces ?a)) = length (nm_pending_txs (ac_nonces a)) + k"
      "ac_risk ?a = ac_risk a" "nonce_inv (ac_nonces ?a)"
      "unat (nm_next_nonce (ac_nonces ?a)) = unat (nm_next_nonce (ac_nonces a)) + k" by auto
    have lt: "unat (nm_next_nonce (ac_nonces ?a)) + 1 < 2 ^ 64" using IH(4) Suc.prems by simp
    then have u: "unat (nm_next_nonce (ac_nonces ?a) + 1) = unat (nm_next_nonce (ac_nonces ?a)) + 1"
      by (simp add: unat_add_lem [THEN iffD1])
    then have nz: "nm_next_nonce (ac_nonces ?a) + 1 \<noteq> 0" by (metis add_is_0 one_neq_zero unat_0)
    have step: "length (nm_pending_txs (ac_nonces (f ?a))) = Suc (length (nm_pending_txs (ac_nonces ?a))) \<and>
        ac_risk (f ?a) = ac_risk ?a \<and> nonce_inv (ac_nonces (f ?a)) \<and>
        nm_next_nonce (ac_nonces (f ?a)) = nm_next_nonce (ac_nonces ?a) + 1"
      by (rule time_out_step [OF assms(1) _ assms(3,4) IH(3) _ nz])
        (use assms(2,6) IH(2) in \<open>simp_all add: f\<close>)
    show ?case using step IH u by simp
  qed (simp add: assms(5))
  then show ?thesis by (simp add: pending_nonces_def)
qed

theorem timeouts_accumulate_witness:
  "length (pending_nonces (ac_nonces (((\<lambda>a. so_account (demo_settle demo_submit (Inr R_TimedOut) a)) ^^ 3) demo_account))) = 3 \<and>
   rm_max_concurrent_tx (ac_risk demo_account) = 1"
proof -
  let ?f = "\<lambda>a. so_account (demo_settle demo_submit (Inr R_TimedOut) a)"
  have r: "ac_risk demo_account = demo_risk" "ac_nonces demo_account = with_replacement True"
    "rm_open_tx_count demo_risk + 1 \<noteq> 0" "rm_max_concurrent_tx demo_risk = 1"
    by (simp_all add: demo_account_def demo_risk_def)
  have e: "ex_exact demo_executable = demo_plan" "xp_hops demo_plan = []"
    by (simp_all add: demo_executable_def demo_plan_def)
  have "length (pending_nonces (ac_nonces ((?f ^^ 3) demo_account))) =
      length (pending_nonces (ac_nonces demo_account)) + 3 \<and> ac_risk ((?f ^^ 3) demo_account) = ac_risk demo_account"
    by (rule timeouts_accumulate [where g = demo_guard and ex = demo_executable and now = 0 and sub = demo_submit and
          w = "\<lambda>_. Inr R_TimedOut" and now' = 0 and ?t1.0 = 0 and ?t2.0 = 0])
      (simp_all add: e r demo_check hops_healthy_def demo_submit_def demo_settle_def nonce_inv_new, simp add: with_replacement_def)
  then show ?thesis using r by (simp add: pending_nonces_def with_replacement_def)
qed

text \<open>a refused submission burns its nonce. The nonce is marked dropped and not handed out again:
  the next plan that is sent carries the following nonce, while the account on the chain still
  expects the dropped one.\<close>

theorem refused_submission_leaves_gap:
  assumes "so_sent (settle g sim sub w n n' t1 t2 a ex) = Some s" and "sub s = Inl e"
    and "so_sent (settle g2 sim2 sub2 w2 m m' t3 t4 (so_account (settle g sim sub w n n' t1 t2 a ex)) ex2) = Some s2"
  shows "get_state (ac_nonces (so_account (settle g sim sub w n n' t1 t2 a ex))) (ex_nonce s) = Some Dropped \<and>
    ex_nonce s2 = ex_nonce s + 1"
proof -
  have nonces: "ac_nonces (so_account (settle g sim sub w n n' t1 t2 a ex)) =
      apply_update (snd (reserve (ac_nonces a)), Dropped) (fst (reserve (ac_nonces a)))"
    unfolding settle_nonces [OF assms(1)] using assms(2) by (simp add: Let_def)
  show ?thesis using settle_sent(4) [OF assms(1)] settle_sent(4) [OF assms(3)] nonces
    by (simp add: get_state_def apply_update_def reserve_def Let_def)
qed

theorem refused_submission_leaves_gap_witness:
  "\<exists>s s2. so_sent (demo_settle (\<lambda>_. Inl ()) (Inr R_Included) demo_account) = Some s \<and>
     so_sent (demo_settle demo_submit (Inr R_Included) (so_account (demo_settle (\<lambda>_. Inl ()) (Inr R_Included) demo_account))) = Some s2 \<and>
     ex_nonce s = 0 \<and> ex_nonce s2 = 1"
proof -
  let ?a = "so_account (demo_settle (\<lambda>_. Inl ()) (Inr R_Included) demo_account)"
  have r: "ac_risk demo_account = demo_risk" "nm_next_nonce (ac_nonces demo_account) = 0"
    "rm_open_tx_count demo_risk + 1 \<noteq> 0"
    by (simp_all add: demo_account_def demo_risk_def with_replacement_def)
  obtain s where s: "so_sent (demo_settle (\<lambda>_. Inl ()) (Inr R_Included) demo_account) = Some s" "ex_nonce s = 0"
    using demo_sent [OF r(1)] r(2) by simp
  have "ac_risk ?a = demo_risk"
    using settle_risk [OF s(1) [unfolded demo_settle_def]] close_after_submit(1) [of demo_risk] r
    unfolding demo_settle_def by (simp add: fate_of_def)
  from demo_sent [OF this] obtain s2 where s2: "so_sent (demo_settle demo_submit (Inr R_Included) ?a) = Some s2" by blast
  from refused_submission_leaves_gap [OF s(1) [unfolded demo_settle_def] refl s2 [unfolded demo_settle_def]] s s2
  show ?thesis by (simp add: demo_settle_def)
qed

end
