(* ===== verification/Graph_Model.thy ===== *)
theory Graph_Model
  imports Amm
begin

text \<open>
  \<open>src/graph/model.rs\<close> and \<open>src/graph/updater.rs\<close>: the token graph of a snapshot. Edges live in one
  list per source token; an \<open>EdgeRef\<close> is a position in it, and three indices point back: by target,
  by pool, by pair. The pools are an association list whose order stands for the iteration order
  of the source's hash map.
\<close>

record graph_snapshot =
  gs_snapshot_id :: u64
  gs_block_ref :: "block_ref option"
  gs_tokens :: "token_info list"
  gs_token_to_index :: "address \<rightharpoonup> nat"
  gs_stable_token_indices :: "nat list"
  gs_cycle_anchor_indices :: "nat list"
  gs_adjacency :: "edge list list"
  gs_reverse_adj :: "edge_ref list list"
  gs_pools :: "(address \<times> pool_state) list"
  gs_pool_to_edges :: "address \<rightharpoonup> edge_ref list"
  gs_pair_to_edges :: "nat \<times> nat \<rightharpoonup> edge_ref list"

section \<open>Edges of a pool\<close>

definition mk_edge ::
  "pool_state \<Rightarrow> amm_kind \<Rightarrow> nat \<Rightarrow> nat \<Rightarrow> u32 \<Rightarrow> u256 \<times> i64 \<times> liquidity_info \<Rightarrow> edge" where
  "mk_edge pool kind from to fee_ppm rate = (case rate of (spot, w, l) \<Rightarrow>
     \<lparr>e_from = from, e_to = to, e_pool_id = ps_pool_id pool, e_amm_kind = kind, e_fee_ppm = fee_ppm,
      e_weight_log_q32 = w, e_spot_rate_q128 = spot, e_liquidity = l, e_pool_health = ps_health pool,
      e_dex_name = ps_dex_name pool\<rparr>)"

definition build_two_token_edges ::
  "pool_state \<Rightarrow> (address \<rightharpoonup> nat) \<Rightarrow> amm_kind \<Rightarrow> u32 \<Rightarrow> (bool \<Rightarrow> u256 \<times> i64 \<times> liquidity_info) \<Rightarrow> edge list" where
  "build_two_token_edges pool token_to_index kind fee_ppm compute =
     (case ps_token_addresses pool of
        [t0, t1] \<Rightarrow>
          (case token_to_index t0 of None \<Rightarrow> []
           | Some a \<Rightarrow> (case token_to_index t1 of None \<Rightarrow> []
             | Some b \<Rightarrow> [mk_edge pool kind a b fee_ppm (compute True), mk_edge pool kind b a fee_ppm (compute False)]))
      | _ \<Rightarrow> [])"

definition n_token_edge ::
  "pool_state \<Rightarrow> (address \<rightharpoonup> nat) \<Rightarrow> amm_kind \<Rightarrow> (nat \<Rightarrow> nat \<Rightarrow> (u256 \<times> i64 \<times> liquidity_info) \<times> u32) \<Rightarrow>
   nat \<times> nat \<Rightarrow> edge option" where
  "n_token_edge pool token_to_index kind compute ij = (case ij of (i, j) \<Rightarrow>
     if i = j then None
     else case token_to_index (ps_token_addresses pool ! i) of None \<Rightarrow> None
       | Some from \<Rightarrow> (case token_to_index (ps_token_addresses pool ! j) of None \<Rightarrow> None
         | Some to \<Rightarrow> (case compute i j of (rate, fee_ppm) \<Rightarrow> Some (mk_edge pool kind from to fee_ppm rate))))"

definition build_n_token_edges ::
  "pool_state \<Rightarrow> (address \<rightharpoonup> nat) \<Rightarrow> amm_kind \<Rightarrow> (nat \<Rightarrow> nat \<Rightarrow> (u256 \<times> i64 \<times> liquidity_info) \<times> u32) \<Rightarrow> edge list" where
  "build_n_token_edges pool token_to_index kind compute =
     (let n = length (ps_token_addresses pool)
      in List.map_filter (n_token_edge pool token_to_index kind compute) (List.product [0..<n] [0..<n]))"

definition build_edges_for_pool :: "env \<Rightarrow> libm \<Rightarrow> pool_state \<Rightarrow> (address \<rightharpoonup> nat) \<Rightarrow> edge list" where
  "build_edges_for_pool env lm pool idx =
     (case ps_state pool of
        S_UniswapV2Like s \<Rightarrow> build_two_token_edges pool idx (ps_kind pool) (v2_fee_ppm s) (v2_spot_rate lm s)
      | S_AerodromeV2Like s \<Rightarrow> build_two_token_edges pool idx (ps_kind pool) (av2_fee_ppm s) (aero_spot_rate lm s)
      | S_UniswapV3Like s \<Rightarrow> build_two_token_edges pool idx (ps_kind pool) (v3_fee s) (v3_spot_rate env lm s)
      | S_TraderJoeLb s \<Rightarrow> build_two_token_edges pool idx (ps_kind pool) 0 (lb_spot_rate lm s)
      | S_CurvePlain s \<Rightarrow> build_n_token_edges pool idx (ps_kind pool) (\<lambda>i j. (curve_spot_rate lm s i j, cv_fee s))
      | S_BalancerWeighted s \<Rightarrow>
          build_n_token_edges pool idx (ps_kind pool) (\<lambda>i j. (balancer_spot_rate lm s i j, bl_swap_fee_ppm s)))"

section \<open>GraphSnapshot::build\<close>

text \<open>The four structures the loop of \<open>build\<close> fills.\<close>

record edge_tables =
  tb_adjacency :: "edge list list"
  tb_reverse_adj :: "edge_ref list list"
  tb_pool_to_edges :: "address \<rightharpoonup> edge_ref list"
  tb_pair_to_edges :: "nat \<times> nat \<rightharpoonup> edge_ref list"

definition push_at :: "nat \<Rightarrow> 'a \<Rightarrow> 'a list list \<Rightarrow> 'a list list" where
  "push_at i x xss = xss[i := xss ! i @ [x]]"

definition push_entry :: "'k \<Rightarrow> 'a \<Rightarrow> ('k \<rightharpoonup> 'a list) \<Rightarrow> 'k \<rightharpoonup> 'a list" where
  "push_entry k x m = m(k \<mapsto> unwrap_or (m k) [] @ [x])"

definition add_edge :: "address \<Rightarrow> edge \<Rightarrow> edge_tables \<Rightarrow> edge_tables" where
  "add_edge pool_id e t =
     (let from = e_from e; to = e_to e;
          adjacency = push_at from e (tb_adjacency t);
          edge_idx = length (adjacency ! from) - 1;
          edge_ref = \<lparr>er_from = from, er_edge_idx = edge_idx\<rparr>
      in \<lparr>tb_adjacency = adjacency,
          tb_reverse_adj = push_at to edge_ref (tb_reverse_adj t),
          tb_pool_to_edges = push_entry pool_id edge_ref (tb_pool_to_edges t),
          tb_pair_to_edges = push_entry (from, to) edge_ref (tb_pair_to_edges t)\<rparr>)"

definition add_pool :: "env \<Rightarrow> libm \<Rightarrow> (address \<rightharpoonup> nat) \<Rightarrow> pool_state \<Rightarrow> edge_tables \<Rightarrow> edge_tables" where
  "add_pool env lm idx pool t = fold (add_edge (ps_pool_id pool)) (build_edges_for_pool env lm pool idx) t"

definition index_tokens :: "token_info list \<Rightarrow> address \<rightharpoonup> nat" where
  "index_tokens tokens = map_of (rev (zip (map t_address tokens) [0..<length tokens]))"

definition indices_where :: "('a \<Rightarrow> bool) \<Rightarrow> 'a list \<Rightarrow> nat list" where
  "indices_where p xs = filter (\<lambda>i. p (xs ! i)) [0..<length xs]"

definition empty_tables :: "nat \<Rightarrow> edge_tables" where
  "empty_tables n = \<lparr>tb_adjacency = replicate n [], tb_reverse_adj = replicate n [],
     tb_pool_to_edges = Map.empty, tb_pair_to_edges = Map.empty\<rparr>"

definition graph_build ::
  "env \<Rightarrow> libm \<Rightarrow> u64 \<Rightarrow> block_ref option \<Rightarrow> token_info list \<Rightarrow> (address \<times> pool_state) list \<Rightarrow> graph_snapshot" where
  "graph_build env lm snapshot_id block tokens pools =
     (let idx = index_tokens tokens;
          t = fold (add_pool env lm idx) (map snd pools) (empty_tables (length tokens))
      in \<lparr>gs_snapshot_id = snapshot_id, gs_block_ref = block, gs_tokens = tokens, gs_token_to_index = idx,
          gs_stable_token_indices = indices_where t_is_stable tokens,
          gs_cycle_anchor_indices = indices_where t_is_cycle_anchor tokens,
          gs_adjacency = tb_adjacency t, gs_reverse_adj = tb_reverse_adj t, gs_pools = pools,
          gs_pool_to_edges = tb_pool_to_edges t, gs_pair_to_edges = tb_pair_to_edges t\<rparr>)"

definition token_index :: "graph_snapshot \<Rightarrow> address \<Rightarrow> nat option" where
  "token_index g a = gs_token_to_index g a"

definition token_symbol :: "(address \<Rightarrow> string) \<Rightarrow> graph_snapshot \<Rightarrow> address \<Rightarrow> string" where
  "token_symbol show_address g a =
     unwrap_or (map_option t_symbol (Option.bind (token_index g a) (nth_opt (gs_tokens g)))) (show_address a)"

definition pair_edges :: "graph_snapshot \<Rightarrow> address \<Rightarrow> address \<Rightarrow> edge_ref list" where
  "pair_edges g from to =
     (case (token_index g from, token_index g to) of
        (Some fi, Some ti) \<Rightarrow> unwrap_or (gs_pair_to_edges g (fi, ti)) []
      | _ \<Rightarrow> [])"

definition edge_of :: "graph_snapshot \<Rightarrow> edge_ref \<Rightarrow> edge option" where
  "edge_of g r = Option.bind (nth_opt (gs_adjacency g) (er_from r)) (\<lambda>es. nth_opt es (er_edge_idx r))"

definition pool_of :: "graph_snapshot \<Rightarrow> address \<Rightarrow> pool_state option" where
  "pool_of g a = map_of (gs_pools g) a"

text \<open>\<open>GraphUpdater::rebuild\<close>: the new snapshot and the edges of the changed pools.\<close>

definition rebuild ::
  "env \<Rightarrow> libm \<Rightarrow> u64 \<Rightarrow> block_ref option \<Rightarrow> token_info list \<Rightarrow> (address \<times> pool_state) list \<Rightarrow> address list \<Rightarrow>
   graph_snapshot \<times> edge_ref list" where
  "rebuild env lm next_id block tokens pools changed_pool_ids =
     (let g = graph_build env lm next_id block tokens pools
      in (g, concat (map (\<lambda>pool_id. unwrap_or (gs_pool_to_edges g pool_id) []) changed_pool_ids)))"

section \<open>The indices agree with the adjacency lists\<close>

definition edge_at :: "edge list list \<Rightarrow> edge_ref \<Rightarrow> edge option" where
  "edge_at adj r = Option.bind (nth_opt adj (er_from r)) (\<lambda>es. nth_opt es (er_edge_idx r))"

lemma edge_at_Some:
  "edge_at adj r = Some e \<longleftrightarrow> er_from r < length adj \<and> er_edge_idx r < length (adj ! er_from r) \<and>
     e = adj ! er_from r ! er_edge_idx r"
  by (auto simp: edge_at_def nth_opt_def split: if_splits)

lemma edge_of_at: "edge_of g r = edge_at (gs_adjacency g) r"
  by (simp add: edge_of_def edge_at_def)

definition tables_ok :: "nat \<Rightarrow> edge_tables \<Rightarrow> bool" where
  "tables_ok n t \<longleftrightarrow> length (tb_adjacency t) = n \<and> length (tb_reverse_adj t) = n \<and>
     (\<forall>r e. edge_at (tb_adjacency t) r = Some e \<longrightarrow> e_from e = er_from r \<and> e_to e < n) \<and>
     (\<forall>v<n. \<forall>r. r \<in> set (tb_reverse_adj t ! v) \<longleftrightarrow> (\<exists>e. edge_at (tb_adjacency t) r = Some e \<and> e_to e = v)) \<and>
     (\<forall>p r. r \<in> set (unwrap_or (tb_pool_to_edges t p) []) \<longleftrightarrow>
        (\<exists>e. edge_at (tb_adjacency t) r = Some e \<and> e_pool_id e = p)) \<and>
     (\<forall>a b r. r \<in> set (unwrap_or (tb_pair_to_edges t (a, b)) []) \<longleftrightarrow>
        (\<exists>e. edge_at (tb_adjacency t) r = Some e \<and> e_from e = a \<and> e_to e = b))"

lemma push_at_simps [simp]:
  "length (push_at i x xss) = length xss"
  "i < length xss \<Longrightarrow> push_at i x xss ! j = (if i = j then xss ! i @ [x] else xss ! j)"
  by (simp_all add: push_at_def)

lemma push_entry_get: "unwrap_or (push_entry k x m j) [] = (if j = k then unwrap_or (m k) [] @ [x] else unwrap_or (m j) [])"
  by (simp add: push_entry_def)

lemma edge_at_push:
  "i < length adj \<Longrightarrow> edge_at (push_at i e adj) r =
     (if r = \<lparr>er_from = i, er_edge_idx = length (adj ! i)\<rparr> then Some e else edge_at adj r)"
  by (cases r) (auto simp: edge_at_def nth_opt_def nth_append)

lemma edge_at_new: "edge_at adj \<lparr>er_from = i, er_edge_idx = length (adj ! i)\<rparr> = None"
  by (auto simp: edge_at_def nth_opt_def)

lemma empty_tables_ok: "tables_ok n (empty_tables n)"
  by (auto simp: tables_ok_def empty_tables_def edge_at_Some)

lemma add_edge_ok:
  assumes "tables_ok n t" and "e_from e < n" and "e_to e < n" and "e_pool_id e = p"
  shows "tables_ok n (add_edge p e t)"
proof -
  let ?r = "\<lparr>er_from = e_from e, er_edge_idx = length (tb_adjacency t ! e_from e)\<rparr>"
  have n: "length (tb_adjacency t) = n" "length (tb_reverse_adj t) = n" using assms(1) by (auto simp: tables_ok_def)
  have t': "add_edge p e t = \<lparr>tb_adjacency = push_at (e_from e) e (tb_adjacency t),
      tb_reverse_adj = push_at (e_to e) ?r (tb_reverse_adj t),
      tb_pool_to_edges = push_entry p ?r (tb_pool_to_edges t),
      tb_pair_to_edges = push_entry (e_from e, e_to e) ?r (tb_pair_to_edges t)\<rparr>"
    using assms(2) n by (simp add: add_edge_def Let_def)
  have at: "edge_at (tb_adjacency (add_edge p e t)) r = (if r = ?r then Some e else edge_at (tb_adjacency t) r)" for r
    unfolding t' using assms(2) n by (simp add: edge_at_push)
  have fresh: "edge_at (tb_adjacency t) ?r = None" by (rule edge_at_new)
  have rev: "r \<in> set (tb_reverse_adj (add_edge p e t) ! v) \<longleftrightarrow> (v = e_to e \<and> r = ?r) \<or> r \<in> set (tb_reverse_adj t ! v)"
    if "v < n" for v r unfolding t' using assms(3) n by auto
  have pool: "r \<in> set (unwrap_or (tb_pool_to_edges (add_edge p e t) q) []) \<longleftrightarrow>
      (q = p \<and> r = ?r) \<or> r \<in> set (unwrap_or (tb_pool_to_edges t q) [])" for q r
    unfolding t' by (auto simp: push_entry_get)
  have pair: "r \<in> set (unwrap_or (tb_pair_to_edges (add_edge p e t) (a, b)) []) \<longleftrightarrow>
      (a = e_from e \<and> b = e_to e \<and> r = ?r) \<or> r \<in> set (unwrap_or (tb_pair_to_edges t (a, b)) [])" for a b r
    unfolding t' by (auto simp: push_entry_get)
  have len: "length (tb_adjacency (add_edge p e t)) = n" "length (tb_reverse_adj (add_edge p e t)) = n"
    unfolding t' using n by simp_all
  show ?thesis unfolding tables_ok_def at
  proof (intro conjI allI impI)
    fix r e' assume "(if r = ?r then Some e else edge_at (tb_adjacency t) r) = Some e'"
    then show "e_from e' = er_from r" "e_to e' < n" using assms(1,3) by (auto simp: tables_ok_def split: if_splits)
  qed (use assms fresh in \<open>auto simp: len rev pool pair tables_ok_def\<close>)
qed

lemma fold_add_edge_ok:
  "tables_ok n t \<Longrightarrow> \<forall>e\<in>set es. e_from e < n \<and> e_to e < n \<and> e_pool_id e = p \<Longrightarrow> tables_ok n (fold (add_edge p) es t)"
  by (induction es arbitrary: t) (auto simp: add_edge_ok)

section \<open>Which edges a pool has\<close>

lemma mk_edge_sel [simp]:
  "e_from (mk_edge pool k a b f r) = a" "e_to (mk_edge pool k a b f r) = b"
  "e_pool_id (mk_edge pool k a b f r) = ps_pool_id pool" "e_amm_kind (mk_edge pool k a b f r) = k"
  "e_dex_name (mk_edge pool k a b f r) = ps_dex_name pool" "e_pool_health (mk_edge pool k a b f r) = ps_health pool"
  by (simp_all add: mk_edge_def split: prod.split)

text \<open>An edge of a pool joins two different positions of its token list, both known to the index.\<close>

definition joins :: "pool_state \<Rightarrow> (address \<rightharpoonup> nat) \<Rightarrow> edge \<Rightarrow> bool" where
  "joins pool idx e \<longleftrightarrow> e_pool_id e = ps_pool_id pool \<and> e_amm_kind e = ps_kind pool \<and>
     (\<exists>i j. i \<noteq> j \<and> i < length (ps_token_addresses pool) \<and> j < length (ps_token_addresses pool) \<and>
        idx (ps_token_addresses pool ! i) = Some (e_from e) \<and> idx (ps_token_addresses pool ! j) = Some (e_to e))"

lemma two_token_cases:
  "build_two_token_edges pool idx kind fee c =
     (if \<exists>t0 t1 a b. ps_token_addresses pool = [t0, t1] \<and> idx t0 = Some a \<and> idx t1 = Some b
      then [mk_edge pool kind (the (idx (ps_token_addresses pool ! 0))) (the (idx (ps_token_addresses pool ! 1))) fee (c True),
            mk_edge pool kind (the (idx (ps_token_addresses pool ! 1))) (the (idx (ps_token_addresses pool ! 0))) fee (c False)]
      else [])"
  by (auto simp: build_two_token_edges_def split: list.splits option.splits)

lemma two_token_joins:
  assumes "e \<in> set (build_two_token_edges pool idx (ps_kind pool) fee c)" shows "joins pool idx e"
proof -
  from assms obtain t0 t1 a b where t: "ps_token_addresses pool = [t0, t1]" "idx t0 = Some a" "idx t1 = Some b"
    and e: "e = mk_edge pool (ps_kind pool) a b fee (c True) \<or> e = mk_edge pool (ps_kind pool) b a fee (c False)"
    unfolding two_token_cases by (auto split: if_splits)
  have ij: "\<exists>i j. i \<noteq> j \<and> i < 2 \<and> j < 2 \<and> idx ([t0, t1] ! i) = Some (e_from e) \<and> idx ([t0, t1] ! j) = Some (e_to e)"
    using e t(2,3) by (elim disjE) (rule exI [of _ 0], rule exI [of _ 1], simp, rule exI [of _ 1], rule exI [of _ 0], simp)
  have pool: "e_pool_id e = ps_pool_id pool" "e_amm_kind e = ps_kind pool" using e by auto
  have two: "length [t0, t1] = 2" by simp
  show ?thesis unfolding joins_def t(1) two using pool ij by blast
qed

lemma map_filter_in: "y \<in> set (List.map_filter f xs) \<longleftrightarrow> (\<exists>x\<in>set xs. f x = Some y)"
  by (induction xs) (auto simp: List.map_filter_simps split: option.splits)

lemma n_token_edge_Some:
  "n_token_edge pool idx kind c (i, j) = Some e \<longleftrightarrow> i \<noteq> j \<and>
     (\<exists>a b. idx (ps_token_addresses pool ! i) = Some a \<and> idx (ps_token_addresses pool ! j) = Some b \<and>
        e = mk_edge pool kind a b (snd (c i j)) (fst (c i j)))"
  by (auto simp: n_token_edge_def split: option.split prod.split)

lemma n_token_joins:
  assumes "e \<in> set (build_n_token_edges pool idx (ps_kind pool) c)" shows "joins pool idx e"
proof -
  from assms obtain i j where "i < length (ps_token_addresses pool)" "j < length (ps_token_addresses pool)"
    "n_token_edge pool idx (ps_kind pool) c (i, j) = Some e"
    by (auto simp: build_n_token_edges_def Let_def map_filter_in)
  then obtain a b where "i \<noteq> j" and ab: "idx (ps_token_addresses pool ! i) = Some a" "idx (ps_token_addresses pool ! j) = Some b"
    and e: "e = mk_edge pool (ps_kind pool) a b (snd (c i j)) (fst (c i j))"
    unfolding n_token_edge_Some by blast
  with \<open>i < _\<close> \<open>j < _\<close> show ?thesis unfolding joins_def e mk_edge_sel by blast
qed

lemma pool_edges_join: "e \<in> set (build_edges_for_pool env lm pool idx) \<Longrightarrow> joins pool idx e"
  by (auto simp: build_edges_for_pool_def intro: two_token_joins n_token_joins split: pool_specific_state.splits)

lemma index_tokens_Some: "index_tokens tokens a = Some i \<Longrightarrow> i < length tokens \<and> t_address (tokens ! i) = a"
  by (auto simp: index_tokens_def in_set_zip dest!: map_of_SomeD)

lemma add_pool_ok:
  assumes "tables_ok (length tokens) t"
  shows "tables_ok (length tokens) (add_pool env lm (index_tokens tokens) pool t)"
  unfolding add_pool_def
proof (rule fold_add_edge_ok [OF assms], rule ballI)
  fix e assume "e \<in> set (build_edges_for_pool env lm pool (index_tokens tokens))"
  then show "e_from e < length tokens \<and> e_to e < length tokens \<and> e_pool_id e = ps_pool_id pool"
    using pool_edges_join index_tokens_Some unfolding joins_def by blast
qed

lemma graph_tables_ok:
  "tables_ok (length tokens) (fold (add_pool env lm (index_tokens tokens)) pools (empty_tables (length tokens)))"
proof -
  have "tables_ok (length tokens) t \<Longrightarrow> tables_ok (length tokens) (fold (add_pool env lm (index_tokens tokens)) pools t)" for t
    by (induction pools arbitrary: t) (auto simp: add_pool_ok)
  then show ?thesis by (simp add: empty_tables_ok)
qed

definition edges_of :: "edge_tables \<Rightarrow> edge set" where
  "edges_of t = {e. \<exists>r. edge_at (tb_adjacency t) r = Some e}"

lemma values_of_update:
  assumes "f r0 = None"
  shows "{y. \<exists>r. (if r = r0 then Some e else f r) = Some y} = insert e {y. \<exists>r. f r = Some y}"
proof (intro equalityI subsetI)
  fix x assume "x \<in> insert e {y. \<exists>r. f r = Some y}"
  then consider "x = e" | r where "f r = Some x" by blast
  then show "x \<in> {y. \<exists>r. (if r = r0 then Some e else f r) = Some y}"
  proof cases
    case 2
    then have "r \<noteq> r0" using assms by auto
    with 2 show ?thesis by (intro CollectI exI [of _ r]) simp
  qed auto
qed (auto split: if_splits)

lemma image_Collect_iff: "u \<in> f ` {r. Q r} \<longleftrightarrow> (\<exists>r. Q r \<and> f r = u)"
  by blast

lemma edges_of_add:
  assumes "e_from e < length (tb_adjacency t)" shows "edges_of (add_edge p e t) = insert e (edges_of t)"
proof -
  let ?r = "\<lparr>er_from = e_from e, er_edge_idx = length (tb_adjacency t ! e_from e)\<rparr>"
  have at: "edge_at (tb_adjacency (add_edge p e t)) r = (if r = ?r then Some e else edge_at (tb_adjacency t) r)" for r
    using assms by (simp add: add_edge_def Let_def edge_at_push)
  show ?thesis unfolding edges_of_def at by (rule values_of_update) (rule edge_at_new)
qed

lemma add_edge_length [simp]: "length (tb_adjacency (add_edge p e t)) = length (tb_adjacency t)"
  by (simp add: add_edge_def Let_def)

lemma edges_of_fold:
  "\<forall>e\<in>set es. e_from e < length (tb_adjacency t) \<Longrightarrow>
   edges_of (fold (add_edge p) es t) = set es \<union> edges_of t \<and> length (tb_adjacency (fold (add_edge p) es t)) = length (tb_adjacency t)"
  by (induction es arbitrary: t) (auto simp: edges_of_add)

lemma pool_edges_range:
  "e \<in> set (build_edges_for_pool env lm pool (index_tokens tokens)) \<Longrightarrow> e_from e < length tokens \<and> e_to e < length tokens"
  using pool_edges_join index_tokens_Some unfolding joins_def by blast

lemma edges_of_pools:
  "length (tb_adjacency t) = length tokens \<Longrightarrow>
   edges_of (fold (add_pool env lm (index_tokens tokens)) pools t) =
     (\<Union>pool\<in>set pools. set (build_edges_for_pool env lm pool (index_tokens tokens))) \<union> edges_of t"
proof (induction pools arbitrary: t)
  case (Cons pool pools)
  have "\<forall>e\<in>set (build_edges_for_pool env lm pool (index_tokens tokens)). e_from e < length (tb_adjacency t)"
    using pool_edges_range Cons.prems by metis
  note f = edges_of_fold [OF this, of "ps_pool_id pool"]
  show ?case using Cons.IH [of "add_pool env lm (index_tokens tokens) pool t"] Cons.prems f
    by (auto simp: add_pool_def)
qed simp

section \<open>The contract of a snapshot\<close>

text \<open>What the detector, the distance cache and the routers rely on: positions are in range, and the
  reverse lists, the pool index and the pair index hold exactly the references of the edges.\<close>

definition graph_ok :: "graph_snapshot \<Rightarrow> bool" where
  "graph_ok g \<longleftrightarrow> length (gs_adjacency g) = length (gs_tokens g) \<and> length (gs_reverse_adj g) = length (gs_tokens g) \<and>
     (\<forall>r e. edge_of g r = Some e \<longrightarrow> e_from e = er_from r \<and> e_to e < length (gs_tokens g)) \<and>
     (\<forall>v<length (gs_tokens g). \<forall>r. r \<in> set (gs_reverse_adj g ! v) \<longleftrightarrow> (\<exists>e. edge_of g r = Some e \<and> e_to e = v)) \<and>
     (\<forall>p r. r \<in> set (unwrap_or (gs_pool_to_edges g p) []) \<longleftrightarrow> (\<exists>e. edge_of g r = Some e \<and> e_pool_id e = p)) \<and>
     (\<forall>a b r. r \<in> set (unwrap_or (gs_pair_to_edges g (a, b)) []) \<longleftrightarrow>
        (\<exists>e. edge_of g r = Some e \<and> e_from e = a \<and> e_to e = b)) \<and>
     (\<forall>a i. token_index g a = Some i \<longrightarrow> i < length (gs_tokens g) \<and> t_address (gs_tokens g ! i) = a) \<and>
     set (gs_cycle_anchor_indices g) = {i. i < length (gs_tokens g) \<and> t_is_cycle_anchor (gs_tokens g ! i)}"

lemma graph_build_sel [simp]:
  "gs_tokens (graph_build env lm sid b tokens pools) = tokens"
  "gs_pools (graph_build env lm sid b tokens pools) = pools"
  "gs_block_ref (graph_build env lm sid b tokens pools) = b"
  "gs_snapshot_id (graph_build env lm sid b tokens pools) = sid"
  "gs_token_to_index (graph_build env lm sid b tokens pools) = index_tokens tokens"
  by (simp_all add: graph_build_def Let_def)

lemma graph_build_ok: "graph_ok (graph_build env lm sid b tokens pools)"
  using graph_tables_ok [of tokens env lm "map snd pools"]
  unfolding graph_ok_def tables_ok_def edge_of_at token_index_def
  by (auto simp: graph_build_def Let_def indices_where_def index_tokens_Some)

text \<open>A graph given by the targets and the sources of every node.\<close>

locale indexed_graph =
  fixes n :: nat and succs preds :: "nat \<Rightarrow> nat list"
  assumes succs_range: "u < n \<Longrightarrow> v \<in> set (succs u) \<Longrightarrow> v < n"
    and preds_succs: "v < n \<Longrightarrow> u \<in> set (preds v) \<longleftrightarrow> u < n \<and> v \<in> set (succs u)"
begin

definition arc :: "nat \<Rightarrow> nat \<Rightarrow> bool" where
  "arc u v \<longleftrightarrow> u < n \<and> v \<in> set (succs u)"

lemma arc_range: "arc u v \<Longrightarrow> u < n \<and> v < n"
  using succs_range by (auto simp: arc_def)

lemma arc_preds: "v < n \<Longrightarrow> u \<in> set (preds v) \<longleftrightarrow> arc u v"
  using preds_succs by (simp add: arc_def)

lemma path_range: "arc\<^sup>*\<^sup>* u v \<Longrightarrow> v < n \<Longrightarrow> u < n"
  by (induction rule: converse_rtranclp_induct) (auto dest: arc_range)

end

definition out_targets :: "graph_snapshot \<Rightarrow> nat \<Rightarrow> nat list" where
  "out_targets g v = map e_to (gs_adjacency g ! v)"

definition in_sources :: "graph_snapshot \<Rightarrow> nat \<Rightarrow> nat list" where
  "in_sources g v = map er_from (gs_reverse_adj g ! v)"

lemma out_targets_edge:
  assumes "length (gs_adjacency g) = n" "u < n"
  shows "v \<in> set (out_targets g u) \<longleftrightarrow> (\<exists>r e. edge_of g r = Some e \<and> er_from r = u \<and> e_to e = v)"
proof
  assume "v \<in> set (out_targets g u)"
  then obtain k where k: "k < length (gs_adjacency g ! u)" "e_to (gs_adjacency g ! u ! k) = v"
    by (auto simp: out_targets_def in_set_conv_nth)
  then show "\<exists>r e. edge_of g r = Some e \<and> er_from r = u \<and> e_to e = v"
    using assms by (intro exI [of _ "\<lparr>er_from = u, er_edge_idx = k\<rparr>"]) (auto simp: edge_of_at edge_at_Some)
next
  assume "\<exists>r e. edge_of g r = Some e \<and> er_from r = u \<and> e_to e = v"
  then show "v \<in> set (out_targets g u)" by (auto simp: edge_of_at edge_at_Some out_targets_def)
qed

lemma graph_ok_indexed:
  assumes "graph_ok g" shows "indexed_graph (length (gs_tokens g)) (out_targets g) (in_sources g)"
proof
  let ?n = "length (gs_tokens g)"
  have len: "length (gs_adjacency g) = ?n" using assms by (simp add: graph_ok_def)
  show "v < ?n" if "u < ?n" "v \<in> set (out_targets g u)" for u v
    using that assms out_targets_edge [OF len] by (auto simp: graph_ok_def)
  show "u \<in> set (in_sources g v) \<longleftrightarrow> u < ?n \<and> v \<in> set (out_targets g u)" if "v < ?n" for u v
  proof -
    have "u \<in> set (in_sources g v) \<longleftrightarrow> (\<exists>r e. edge_of g r = Some e \<and> er_from r = u \<and> e_to e = v)"
    proof -
      have "r \<in> set (gs_reverse_adj g ! v) \<longleftrightarrow> (\<exists>e. edge_of g r = Some e \<and> e_to e = v)" for r
        using that assms by (simp add: graph_ok_def)
      then have "set (in_sources g v) = er_from ` {r. \<exists>e. edge_of g r = Some e \<and> e_to e = v}"
        by (auto simp: in_sources_def)
      then show ?thesis unfolding \<open>set (in_sources g v) = _\<close> image_Collect_iff by auto
    qed
    also have "\<dots> \<longleftrightarrow> u < ?n \<and> v \<in> set (out_targets g u)"
      using out_targets_edge [OF len] len by (auto simp: edge_of_at edge_at_Some)
    finally show ?thesis .
  qed
qed

interpretation built: indexed_graph "length tokens" "out_targets (graph_build env lm sid b tokens pools)"
  "in_sources (graph_build env lm sid b tokens pools)" for env lm sid b tokens pools
  using graph_ok_indexed [OF graph_build_ok, of env lm sid b tokens pools] by simp

lemma graph_edges_set:
  "{e. \<exists>r. edge_of (graph_build env lm sid b tokens pools) r = Some e} =
     (\<Union>pool\<in>snd ` set pools. set (build_edges_for_pool env lm pool (index_tokens tokens)))"
proof -
  have "edges_of (fold (add_pool env lm (index_tokens tokens)) (map snd pools) (empty_tables (length tokens))) =
      (\<Union>pool\<in>snd ` set pools. set (build_edges_for_pool env lm pool (index_tokens tokens)))"
    by (subst edges_of_pools) (auto simp: empty_tables_def edges_of_def edge_at_Some)
  then show ?thesis by (simp add: edge_of_at edges_of_def graph_build_def Let_def)
qed

section \<open>Properties\<close>

text \<open>Two tokens and one Uniswap V2 pool between them.\<close>

definition demo_token :: "address \<Rightarrow> token_info" where
  "demo_token a = \<lparr>t_address = a, t_symbol = ''T'', t_decimals = 18, t_is_stable = False, t_is_cycle_anchor = (a = 1),
     t_flash_loan_enabled = False, t_allow_self_funded = True,
     t_behavior = \<lparr>fee_on_transfer = False, rebasing = False, erc4626 = False, callback_token = False, rate_oraclized = False\<rparr>,
     t_manual_price_usd_e8 = None, t_max_position_usd_e8 = None, t_max_flash_loan_usd_e8 = None\<rparr>"

definition demo_pool :: pool_state where
  "demo_pool = \<lparr>ps_pool_id = 9, ps_dex_name = ''dex'', ps_kind = UniswapV2Like, ps_token_addresses = [1, 2],
     ps_token_symbols = [], ps_factory = None, ps_registry = None, ps_vault = None, ps_quoter = None,
     ps_admission_status = Allowed, ps_health = pool_health_default, ps_state = S_UniswapV2Like (demo_v2 1000 2000),
     ps_last_updated_block = 0, ps_extras = []\<rparr>"

definition demo_graph :: "env \<Rightarrow> libm \<Rightarrow> graph_snapshot" where
  "demo_graph env lm = graph_build env lm 1 None [demo_token 1, demo_token 2] [(9, demo_pool)]"

definition demo_edge :: "libm \<Rightarrow> edge" where
  "demo_edge lm = mk_edge demo_pool UniswapV2Like 0 1 3000 (v2_spot_rate lm (demo_v2 1000 2000) True)"

lemma demo_edges:
  "set (build_edges_for_pool env lm demo_pool (index_tokens [demo_token 1, demo_token 2])) =
     {demo_edge lm, mk_edge demo_pool UniswapV2Like 1 0 3000 (v2_spot_rate lm (demo_v2 1000 2000) False)}"
proof -
  have "index_tokens [demo_token 1, demo_token 2] 1 = Some 0" "index_tokens [demo_token 1, demo_token 2] 2 = Some 1"
    by (simp_all add: index_tokens_def demo_token_def)
  moreover have "ps_token_addresses demo_pool = [1, 2]" "ps_state demo_pool = S_UniswapV2Like (demo_v2 1000 2000)"
    "ps_kind demo_pool = UniswapV2Like" "v2_fee_ppm (demo_v2 1000 2000) = 3000"
    by (simp_all add: demo_pool_def demo_v2_def)
  ultimately show ?thesis by (simp add: build_edges_for_pool_def build_two_token_edges_def demo_edge_def)
qed

lemma demo_edge_there: "\<exists>r. edge_of (demo_graph env lm) r = Some (demo_edge lm)"
  using graph_edges_set [of env lm 1 None "[demo_token 1, demo_token 2]" "[(9, demo_pool)]"] demo_edges [of env lm]
  unfolding demo_graph_def by auto

text \<open>the indices of a freshly built snapshot are exact. Every edge sits in the list of its source
  token and points to a known token; the reverse lists, the pool index and the pair index contain
  a reference exactly when the edge behind it has that target, that pool, that pair.\<close>

theorem graph_build_indices:
  assumes g: "g = graph_build env lm sid b tokens pools"
  shows "(\<forall>r e. edge_of g r = Some e \<longrightarrow> e_from e = er_from r \<and> e_from e < length tokens \<and> e_to e < length tokens) \<and>
    (\<forall>v<length tokens. \<forall>r. r \<in> set (gs_reverse_adj g ! v) \<longleftrightarrow> (\<exists>e. edge_of g r = Some e \<and> e_to e = v)) \<and>
    (\<forall>p r. r \<in> set (unwrap_or (gs_pool_to_edges g p) []) \<longleftrightarrow> (\<exists>e. edge_of g r = Some e \<and> e_pool_id e = p)) \<and>
    (\<forall>x y r. r \<in> set (unwrap_or (gs_pair_to_edges g (x, y)) []) \<longleftrightarrow>
       (\<exists>e. edge_of g r = Some e \<and> e_from e = x \<and> e_to e = y))"
proof -
  have ok: "graph_ok g" unfolding g by (rule graph_build_ok)
  have len: "length (gs_tokens g) = length tokens" by (simp add: g)
  have "e_from e < length tokens" if "edge_of g r = Some e" for r e
    using ok that len by (auto simp: graph_ok_def edge_of_at edge_at_Some)
  with ok show ?thesis unfolding graph_ok_def len by blast
qed

theorem graph_build_indices_witness:
  "\<forall>env lm. \<exists>r. edge_of (demo_graph env lm) r = Some (demo_edge lm) \<and> er_from r = 0 \<and>
     r \<in> set (gs_reverse_adj (demo_graph env lm) ! 1) \<and> r \<in> set (unwrap_or (gs_pool_to_edges (demo_graph env lm) 9) [])"
proof (intro allI)
  fix env :: env and lm :: libm
  obtain r where r: "edge_of (demo_graph env lm) r = Some (demo_edge lm)" using demo_edge_there by blast
  have e: "e_from (demo_edge lm) = 0" "e_to (demo_edge lm) = 1" "e_pool_id (demo_edge lm) = 9"
    by (simp_all add: demo_edge_def demo_pool_def)
  note built_facts = graph_build_indices [OF demo_graph_def, of env lm]
  have "er_from r = 0" using built_facts r e by fastforce
  moreover have "r \<in> set (gs_reverse_adj (demo_graph env lm) ! 1)" using built_facts [THEN conjunct2, THEN conjunct1] r e by fastforce
  moreover have "r \<in> set (unwrap_or (gs_pool_to_edges (demo_graph env lm) 9) [])"
    using built_facts [THEN conjunct2, THEN conjunct2, THEN conjunct1] r e by blast
  ultimately show "\<exists>r. edge_of (demo_graph env lm) r = Some (demo_edge lm) \<and> er_from r = 0 \<and>
     r \<in> set (gs_reverse_adj (demo_graph env lm) ! 1) \<and> r \<in> set (unwrap_or (gs_pool_to_edges (demo_graph env lm) 9) [])" using r by blast
qed

text \<open>C33: the edges of a snapshot are those of its pools, no more and no fewer; each joins two
  different positions of its pool's token list.\<close>

theorem graph_build_edges:
  "{e. \<exists>r. edge_of (graph_build env lm sid b tokens pools) r = Some e} =
     (\<Union>pool\<in>snd ` set pools. set (build_edges_for_pool env lm pool (index_tokens tokens))) \<and>
   (\<forall>pool e. e \<in> set (build_edges_for_pool env lm pool (index_tokens tokens)) \<longrightarrow>
      e_pool_id e = ps_pool_id pool \<and> e_amm_kind e = ps_kind pool \<and>
      (\<exists>i j. i \<noteq> j \<and> i < length (ps_token_addresses pool) \<and> j < length (ps_token_addresses pool) \<and>
         t_address (tokens ! e_from e) = ps_token_addresses pool ! i \<and>
         t_address (tokens ! e_to e) = ps_token_addresses pool ! j))"
proof (rule conjI [OF graph_edges_set], intro allI impI)
  fix pool e assume "e \<in> set (build_edges_for_pool env lm pool (index_tokens tokens))"
  then obtain i j where ij: "i \<noteq> j" "i < length (ps_token_addresses pool)" "j < length (ps_token_addresses pool)"
    and a: "index_tokens tokens (ps_token_addresses pool ! i) = Some (e_from e)"
      "index_tokens tokens (ps_token_addresses pool ! j) = Some (e_to e)"
    and e: "e_pool_id e = ps_pool_id pool" "e_amm_kind e = ps_kind pool"
    using pool_edges_join unfolding joins_def by blast
  show "e_pool_id e = ps_pool_id pool \<and> e_amm_kind e = ps_kind pool \<and>
      (\<exists>i j. i \<noteq> j \<and> i < length (ps_token_addresses pool) \<and> j < length (ps_token_addresses pool) \<and>
         t_address (tokens ! e_from e) = ps_token_addresses pool ! i \<and>
         t_address (tokens ! e_to e) = ps_token_addresses pool ! j)"
    using e ij index_tokens_Some [OF a(1)] index_tokens_Some [OF a(2)]
    by (intro conjI exI [of _ i] exI [of _ j]) simp_all
qed

theorem graph_build_edges_witness:
  "\<forall>env lm. demo_edge lm \<in> {e. \<exists>r. edge_of (graph_build env lm 1 None [demo_token 1, demo_token 2] [(9, demo_pool)]) r = Some e} \<and>
   e_pool_id (demo_edge lm) = 9"
proof (intro allI)
  fix env :: env and lm :: libm
  note built_facts = graph_build_edges [of env lm 1 None "[demo_token 1, demo_token 2]" "[(9, demo_pool)]"]
  have e: "demo_edge lm \<in> set (build_edges_for_pool env lm demo_pool (index_tokens [demo_token 1, demo_token 2]))"
    unfolding demo_edges by simp
  have "e_pool_id (demo_edge lm) = ps_pool_id demo_pool" using built_facts [THEN conjunct2] e by blast
  moreover have "ps_pool_id demo_pool = 9" by (simp add: demo_pool_def)
  ultimately show "demo_edge lm \<in> {e. \<exists>r. edge_of (graph_build env lm 1 None [demo_token 1, demo_token 2] [(9, demo_pool)]) r = Some e} \<and>
   e_pool_id (demo_edge lm) = 9" using built_facts [THEN conjunct1] e by auto
qed

end
