(* ===== verification/Distance_Cache.thy ===== *)
theory Distance_Cache
  imports Graph_Model
begin

text \<open>
  \<open>src/graph/distance_cache.rs\<close>: which tokens a cycle anchor reaches, and which reach one. Two
  breadth-first searches over the same graph, the second along the reversed edges. An index out
  of range panics in the source; the model leaves the marks unchanged there, and no index of a
  built snapshot is out of range.
\<close>

record distance_cache =
  dcache_snapshot_id :: u64
  dcache_reachable_from_anchor :: "bool list"
  dcache_reachable_to_anchor :: "bool list"

section \<open>The search\<close>

definition visit :: "nat \<Rightarrow> bool list \<times> nat list \<Rightarrow> bool list \<times> nat list" where
  "visit v s = (case s of (marks, queue) \<Rightarrow>
     if v < length marks \<and> \<not> marks ! v then (marks[v := True], queue @ [v]) else (marks, queue))"

definition enqueue :: "nat \<Rightarrow> bool list \<times> nat list \<Rightarrow> bool list \<times> nat list" where
  "enqueue a s = ((fst s)[a := True], snd s @ [a])"

definition seed_anchors :: "nat list \<Rightarrow> nat \<Rightarrow> bool list \<times> nat list" where
  "seed_anchors anchors n = fold enqueue anchors (replicate n False, [])"

abbreviation unmarked :: "bool list \<Rightarrow> nat" where "unmarked marks \<equiv> length (filter Not marks)"

lemma unmarked_update:
  "v < length marks \<Longrightarrow> \<not> marks ! v \<Longrightarrow> Suc (unmarked (marks[v := True])) = unmarked marks"
proof (induction marks arbitrary: v)
  case (Cons m marks)
  then show ?case by (cases v) auto
qed simp

lemma visit_measure: "unmarked (fst (visit v s)) + length (snd (visit v s)) = unmarked (fst s) + length (snd s)"
  using unmarked_update [of v "fst s"] by (auto simp: visit_def split: prod.splits)

lemma visits_measure:
  "unmarked (fst (fold visit vs s)) + length (snd (fold visit vs s)) = unmarked (fst s) + length (snd s)"
  by (induction vs arbitrary: s) (simp_all add: visit_measure)

function bfs :: "(nat \<Rightarrow> nat list) \<Rightarrow> bool list \<times> nat list \<Rightarrow> bool list" where
  "bfs succ (marks, []) = marks"
| "bfs succ (marks, node # queue) = bfs succ (fold visit (succ node) (marks, queue))"
  by pat_completeness auto
termination
proof (relation "measure (\<lambda>(succ, s). unmarked (fst s) + length (snd s))")
  fix succ :: "nat \<Rightarrow> nat list" and marks node queue
  show "((succ, fold visit (succ node) (marks, queue)), succ, marks, node # queue) \<in>
      measure (\<lambda>(succ, s). unmarked (fst s) + length (snd s))"
    using visits_measure [of "succ node" "(marks, queue)"] by simp
qed simp

definition recompute :: "graph_snapshot \<Rightarrow> distance_cache" where
  "recompute g =
     (let n = length (gs_tokens g); start = seed_anchors (gs_cycle_anchor_indices g) n
      in \<lparr>dcache_snapshot_id = gs_snapshot_id g,
          dcache_reachable_from_anchor = bfs (out_targets g) start,
          dcache_reachable_to_anchor = bfs (in_sources g) start\<rparr>)"

section \<open>The search finds what is reachable\<close>

definition marked :: "bool list \<Rightarrow> nat set" where "marked marks = {v. v < length marks \<and> marks ! v}"

lemma visit_props:
  "marked (fst (visit v s)) = marked (fst s) \<union> (if v < length (fst s) then {v} else {})"
  "length (fst (visit v s)) = length (fst s)"
  "set (snd s) \<subseteq> marked (fst s) \<Longrightarrow> set (snd (visit v s)) \<subseteq> marked (fst (visit v s))"
  "marked (fst (visit v s)) - set (snd (visit v s)) \<subseteq> marked (fst s) - set (snd s)"
  by (auto simp: visit_def marked_def nth_list_update split: prod.splits if_splits)

lemma visits_props:
  "marked (fst (fold visit vs s)) = marked (fst s) \<union> {v \<in> set vs. v < length (fst s)}"
  "length (fst (fold visit vs s)) = length (fst s)"
  "set (snd s) \<subseteq> marked (fst s) \<Longrightarrow> set (snd (fold visit vs s)) \<subseteq> marked (fst (fold visit vs s))"
  "marked (fst (fold visit vs s)) - set (snd (fold visit vs s)) \<subseteq> marked (fst s) - set (snd s)"
proof (induction vs arbitrary: s)
  case (Cons v vs)
  { case 1 show ?case using Cons(1) [of "visit v s"] by (auto simp: visit_props)
  next case 2 show ?case using Cons(2) [of "visit v s"] by (simp add: visit_props)
  next case 3 then show ?case using Cons(3) [of "visit v s"] visit_props(3) by simp
  next case 4 show ?case using Cons(4) [of "visit v s"] visit_props(4) [of v s] by simp }
qed simp_all

context indexed_graph
begin

text \<open>The loop invariant: queued nodes are marked, marked nodes are reachable, and the targets of
  a marked node that has left the queue are marked.\<close>

definition search_inv :: "nat set \<Rightarrow> bool list \<times> nat list \<Rightarrow> bool" where
  "search_inv A s \<longleftrightarrow> length (fst s) = n \<and> A \<subseteq> marked (fst s) \<and> set (snd s) \<subseteq> marked (fst s) \<and>
     (\<forall>v\<in>marked (fst s). \<exists>a\<in>A. arc\<^sup>*\<^sup>* a v) \<and>
     (\<forall>u\<in>marked (fst s) - set (snd s). \<forall>v. arc u v \<longrightarrow> v \<in> marked (fst s))"

lemma search_step:
  assumes "search_inv A (marks, node # queue)"
  shows "search_inv A (fold visit (succs node) (marks, queue))"
proof -
  let ?s = "fold visit (succs node) (marks, queue)"
  have len: "length marks = n" and node: "node \<in> marked marks" using assms by (auto simp: search_inv_def)
  then have range: "node < n" by (simp add: marked_def)
  note p = visits_props [where vs = "succs node" and s = "(marks, queue)"]
  have new: "marked (fst ?s) = marked marks \<union> {v. arc node v}"
  proof -
    have "{v \<in> set (succs node). v < n} = {v. arc node v}" using range succs_range by (auto simp: arc_def)
    then show ?thesis using p(1) len by simp
  qed
  have reach: "\<exists>a\<in>A. arc\<^sup>*\<^sup>* a v" if "v \<in> marked marks" for v
    using that assms by (auto simp: search_inv_def)
  have "\<exists>a\<in>A. arc\<^sup>*\<^sup>* a v" if "v \<in> marked (fst ?s)" for v
  proof (cases "v \<in> marked marks")
    case False
    then have "arc node v" using that new by simp
    with reach [OF node] show ?thesis by (meson rtranclp.rtrancl_into_rtrancl)
  qed (rule reach)
  moreover have "v \<in> marked (fst ?s)" if u: "u \<in> marked (fst ?s) - set (snd ?s)" "arc u v" for u v
  proof (cases "u = node")
    case True
    with u(2) new show ?thesis by simp
  next
    case False
    have "u \<in> marked marks - set queue" using subsetD [OF p(4) u(1)] by simp
    then have "u \<in> marked marks - set (node # queue)" using False by simp
    moreover have "\<forall>u\<in>marked marks - set (node # queue). \<forall>v. arc u v \<longrightarrow> v \<in> marked marks"
      using assms unfolding search_inv_def fst_conv snd_conv by blast
    ultimately have "v \<in> marked marks" using u(2) by blast
    then show ?thesis unfolding new by (rule UnI1)
  qed
  moreover have "length (fst ?s) = n" "set (snd ?s) \<subseteq> marked (fst ?s)" "A \<subseteq> marked (fst ?s)"
    using assms p(2,3) len new by (auto simp: search_inv_def)
  ultimately show ?thesis unfolding search_inv_def by blast
qed

lemma bfs_inv: "f = succs \<Longrightarrow> search_inv A s \<Longrightarrow> search_inv A (bfs f s, [])"
proof (induction f s rule: bfs.induct)
  case (2 f marks node queue)
  then show ?case using search_step by simp
qed simp

lemma search_done:
  assumes "search_inv A (marks, [])" shows "marked marks = {v. \<exists>a\<in>A. arc\<^sup>*\<^sup>* a v}"
proof
  show "marked marks \<subseteq> {v. \<exists>a\<in>A. arc\<^sup>*\<^sup>* a v}" using assms by (auto simp: search_inv_def)
  have "v \<in> marked marks" if "arc\<^sup>*\<^sup>* a v" "a \<in> A" for a v
    using that by (induction rule: rtranclp_induct) (use assms in \<open>auto simp: search_inv_def\<close>)
  then show "{v. \<exists>a\<in>A. arc\<^sup>*\<^sup>* a v} \<subseteq> marked marks" by blast
qed

end

section \<open>Both directions\<close>

lemma enqueue_marked: "a < length (fst s) \<Longrightarrow> marked (fst (enqueue a s)) = insert a (marked (fst s))"
  by (auto simp: enqueue_def marked_def nth_list_update)

lemma enqueue_all:
  "\<forall>a\<in>set anchors. a < length (fst s) \<Longrightarrow> marked (fst (fold enqueue anchors s)) = marked (fst s) \<union> set anchors \<and>
   length (fst (fold enqueue anchors s)) = length (fst s) \<and> snd (fold enqueue anchors s) = snd s @ anchors"
proof (induction anchors arbitrary: s)
  case (Cons a anchors)
  have "length (fst (enqueue a s)) = length (fst s)" "snd (enqueue a s) = snd s @ [a]" by (simp_all add: enqueue_def)
  with Cons.IH [of "enqueue a s"] Cons.prems enqueue_marked [of a s] show ?case by auto
qed simp

lemma seed_anchors_props:
  assumes "\<forall>a\<in>set anchors. a < n"
  shows "marked (fst (seed_anchors anchors n)) = set anchors" "length (fst (seed_anchors anchors n)) = n"
    "snd (seed_anchors anchors n) = anchors"
proof -
  have "marked (replicate n False) = {}" by (auto simp: marked_def)
  then show "marked (fst (seed_anchors anchors n)) = set anchors" "length (fst (seed_anchors anchors n)) = n"
    "snd (seed_anchors anchors n) = anchors"
    using enqueue_all [of anchors "(replicate n False, [])"] assms by (simp_all add: seed_anchors_def)
qed

text \<open>Every anchor is queued, so no node is settled yet.\<close>

lemma seed_search_inv:
  assumes "indexed_graph n succs preds" and "\<forall>a\<in>set anchors. a < n"
  shows "indexed_graph.search_inv n succs (set anchors) (seed_anchors anchors n)"
  using seed_anchors_props [OF assms(2)]
  by (auto simp: indexed_graph.search_inv_def [OF assms(1)])

lemma bfs_reachable:
  assumes "indexed_graph n succs preds" and "\<forall>a\<in>set anchors. a < n"
  shows "length (bfs succs (seed_anchors anchors n)) = n"
    "v < n \<Longrightarrow> bfs succs (seed_anchors anchors n) ! v \<longleftrightarrow> (\<exists>a\<in>set anchors. (indexed_graph.arc n succs)\<^sup>*\<^sup>* a v)"
proof -
  note inv = indexed_graph.bfs_inv [OF assms(1) refl seed_search_inv [OF assms]]
  then show "length (bfs succs (seed_anchors anchors n)) = n"
    by (simp add: indexed_graph.search_inv_def [OF assms(1)])
  then show "bfs succs (seed_anchors anchors n) ! v \<longleftrightarrow> (\<exists>a\<in>set anchors. (indexed_graph.arc n succs)\<^sup>*\<^sup>* a v)" if "v < n"
    using that indexed_graph.search_done [OF assms(1) inv] by (auto simp: marked_def)
qed

text \<open>The reversed graph is a graph of the same kind, with the arcs turned round.\<close>

sublocale indexed_graph \<subseteq> reverse: indexed_graph n preds succs
proof
  show "v < n" if "u < n" "v \<in> set (preds u)" for u v using that preds_succs by blast
  show "u \<in> set (succs v) \<longleftrightarrow> u < n \<and> v \<in> set (preds u)" if "v < n" for u v
    using that preds_succs succs_range by blast
qed

context indexed_graph
begin

lemma reversed: "indexed_graph n preds succs"
  by unfold_locales

lemma reverse_arc: "reverse.arc = arc\<inverse>\<inverse>"
  using preds_succs succs_range by (auto simp: fun_eq_iff reverse.arc_def arc_def)

lemma reverse_path: "reverse.arc\<^sup>*\<^sup>* a v \<longleftrightarrow> arc\<^sup>*\<^sup>* v a"
  unfolding reverse_arc by (simp add: rtranclp_conversep)

end

section \<open>Properties\<close>

text \<open>One edge of a snapshot, from token to token.\<close>

definition hop :: "graph_snapshot \<Rightarrow> nat \<Rightarrow> nat \<Rightarrow> bool" where
  "hop g u v \<longleftrightarrow> (\<exists>r e. edge_of g r = Some e \<and> e_from e = u \<and> e_to e = v)"

lemma hop_arc: "graph_ok g \<Longrightarrow> hop g = indexed_graph.arc (length (gs_tokens g)) (out_targets g)"
proof -
  assume ok: "graph_ok g"
  have len: "length (gs_adjacency g) = length (gs_tokens g)" using ok by (simp add: graph_ok_def)
  have src: "edge_of g r = Some e \<Longrightarrow> e_from e = er_from r" for r e using ok by (simp add: graph_ok_def)
  have swap: "hop g u v \<longleftrightarrow> (\<exists>r e. edge_of g r = Some e \<and> er_from r = u \<and> e_to e = v)" for u v
    unfolding hop_def by (intro ex_cong1) (auto dest: src)
  have "hop g u v \<longleftrightarrow> u < length (gs_tokens g) \<and> v \<in> set (out_targets g u)" for u v
  proof (cases "u < length (gs_tokens g)")
    case True
    then show ?thesis unfolding swap out_targets_edge [OF len True] by simp
  next
    case False
    then show ?thesis unfolding swap using len by (auto simp: edge_of_at edge_at_Some)
  qed
  then show ?thesis by (simp add: fun_eq_iff indexed_graph.arc_def [OF graph_ok_indexed [OF ok]])
qed

lemma anchors_range: "graph_ok g \<Longrightarrow> \<forall>a\<in>set (gs_cycle_anchor_indices g). a < length (gs_tokens g)"
  by (simp add: graph_ok_def)

text \<open>C32: the distance cache of a built snapshot is exact. A token is marked reachable from an anchor
  exactly when some path of edges leads to it from a cycle anchor, and marked as reaching an anchor
  exactly when some path leads from it to one; both searches end.\<close>

theorem recompute_exact:
  assumes "g = graph_build env lm sid b tokens pools" and "v < length tokens"
  shows "length (dcache_reachable_from_anchor (recompute g)) = length tokens \<and>
    length (dcache_reachable_to_anchor (recompute g)) = length tokens \<and>
    (dcache_reachable_from_anchor (recompute g) ! v \<longleftrightarrow>
       (\<exists>a < length tokens. t_is_cycle_anchor (tokens ! a) \<and> (hop g)\<^sup>*\<^sup>* a v)) \<and>
    (dcache_reachable_to_anchor (recompute g) ! v \<longleftrightarrow>
       (\<exists>a < length tokens. t_is_cycle_anchor (tokens ! a) \<and> (hop g)\<^sup>*\<^sup>* v a))"
proof -
  have ok: "graph_ok g" and tok: "gs_tokens g = tokens" using assms(1) graph_build_ok by simp_all
  let ?n = "length tokens"
  note ig = graph_ok_indexed [OF ok, unfolded tok]
  note anc = anchors_range [OF ok, unfolded tok]
  have anchors: "set (gs_cycle_anchor_indices g) = {a. a < ?n \<and> t_is_cycle_anchor (tokens ! a)}"
    using ok tok by (simp add: graph_ok_def)
  have rg: "indexed_graph ?n (in_sources g) (out_targets g)"
    using ig by (rule indexed_graph.reversed)
  have path: "(indexed_graph.arc ?n (in_sources g))\<^sup>*\<^sup>* a v \<longleftrightarrow> (hop g)\<^sup>*\<^sup>* v a" for a v
    unfolding hop_arc [OF ok, unfolded tok] by (rule indexed_graph.reverse_path [OF ig])
  show ?thesis
    using bfs_reachable [OF ig anc] bfs_reachable [OF rg anc] assms(2) path
    by (auto simp: recompute_def Let_def tok anchors hop_arc [OF ok, unfolded tok])
qed

theorem recompute_exact_witness:
  "\<forall>env lm. dcache_reachable_from_anchor (recompute (demo_graph env lm)) ! 1 \<and> dcache_reachable_from_anchor (recompute (demo_graph env lm)) ! 0"
proof (intro allI)
  fix env :: env and lm :: libm
  obtain r where r: "edge_of (demo_graph env lm) r = Some (demo_edge lm)" using demo_edge_there by blast
  have e: "e_from (demo_edge lm) = 0" "e_to (demo_edge lm) = 1" by (simp_all add: demo_edge_def)
  have "hop (demo_graph env lm) 0 1" unfolding hop_def using r e by blast
  then have "(hop (demo_graph env lm))\<^sup>*\<^sup>* 0 1" "(hop (demo_graph env lm))\<^sup>*\<^sup>* 0 0" by auto
  moreover have "t_is_cycle_anchor ([demo_token 1, demo_token 2] ! 0)" by (simp add: demo_token_def)
  ultimately show "dcache_reachable_from_anchor (recompute (demo_graph env lm)) ! 1 \<and> dcache_reachable_from_anchor (recompute (demo_graph env lm)) ! 0"
    using recompute_exact [OF demo_graph_def, of 1 env lm] recompute_exact [OF demo_graph_def, of 0 env lm] by fastforce
qed

end
