(* ===== verification/Graph_Store.thy ===== *)
theory Graph_Store
  imports Graph_Model Reorg Config
begin

text \<open>
  \<open>src/graph/snapshot.rs\<close> and \<open>handle_reorg_event\<close> of \<open>src/engine.rs\<close>: the published snapshot, the
  ring of recent ones, and what a reorganisation does to them. The ring runs from the oldest
  snapshot to the newest; the store is generic in the snapshot, of which it only reads the id and
  the block.
\<close>

record 's graph_store =
  gst_current :: 's
  gst_ring :: "'s list"
  gst_max_snapshots :: nat

definition graph_store_new :: "'s \<Rightarrow> nat \<Rightarrow> 's graph_store" where
  "graph_store_new initial max_snapshots =
     \<lparr>gst_current = initial, gst_ring = [initial], gst_max_snapshots = max_snapshots\<rparr>"

definition store_load :: "'s graph_store \<Rightarrow> 's" where "store_load st = gst_current st"

function trim_ring :: "nat \<Rightarrow> 's list \<Rightarrow> 's list" where
  "trim_ring m ring = (if m < length ring then trim_ring m (tl ring) else ring)"
  by pat_completeness auto
termination by (relation "measure (length o snd)") auto

declare trim_ring.simps [simp del]

definition publish :: "'s \<Rightarrow> 's graph_store \<Rightarrow> 's graph_store" where
  "publish s st = st\<lparr>gst_current := s, gst_ring := trim_ring (gst_max_snapshots st) (gst_ring st @ [s])\<rparr>"

definition rollback_to_snapshot :: "('s \<Rightarrow> u64) \<Rightarrow> u64 \<Rightarrow> 's graph_store \<Rightarrow> 's graph_store \<times> 's option" where
  "rollback_to_snapshot id_of snapshot_id st =
     (case find (\<lambda>s. id_of s = snapshot_id) (gst_ring st) of
        Some s \<Rightarrow> (st\<lparr>gst_current := s\<rparr>, Some s)
      | None \<Rightarrow> (st, None))"

definition at_or_below :: "('s \<Rightarrow> block_ref option) \<Rightarrow> u64 \<Rightarrow> 's \<Rightarrow> bool" where
  "at_or_below block_of n s = unwrap_or (map_option (\<lambda>b. b_number b \<le> n) (block_of s)) False"

definition store_rollback_to_block :: "('s \<Rightarrow> block_ref option) \<Rightarrow> u64 \<Rightarrow> 's graph_store \<Rightarrow> 's graph_store \<times> 's option" where
  "store_rollback_to_block block_of n st =
     (case find (at_or_below block_of n) (rev (gst_ring st)) of
        Some s \<Rightarrow> (st\<lparr>gst_current := s\<rparr>, Some s)
      | None \<Rightarrow> (st, None))"

text \<open>The reaction of the engine: the store and the block from which the logs are read again.\<close>

definition resume_from :: "settings \<Rightarrow> ('s \<Rightarrow> block_ref option) \<Rightarrow> 's graph_store \<Rightarrow> u64 \<Rightarrow> 's graph_store \<times> u64" where
  "resume_from s block_of st n =
     (case store_rollback_to_block block_of n st of
        (st', Some snap) \<Rightarrow>
          (st', sat_sub (unwrap_or (map_option b_number (block_of snap)) n) (rk_event_backfill_blocks (st_risk s)))
      | (st', None) \<Rightarrow> (st', sat_sub n (rk_event_backfill_blocks (st_risk s))))"

fun handle_reorg_event :: "settings \<Rightarrow> ('s \<Rightarrow> block_ref option) \<Rightarrow> 's graph_store \<Rightarrow> reorg_event \<Rightarrow> 's graph_store \<times> u64" where
  "handle_reorg_event s block_of st (Detected common_ancestor_block new_chain_block depth) =
     resume_from s block_of st common_ancestor_block"
| "handle_reorg_event s block_of st (Rollback from_block to_block) = resume_from s block_of st to_block"
| "handle_reorg_event s block_of st (Replay from_block to_block) = resume_from s block_of st to_block"

fun_cases handle_reorgE: "handle_reorg_event s block_of st ev = r"

section \<open>The ring\<close>

lemma trim_ring_drop: "trim_ring m ring = drop (length ring - m) ring"
proof (induction m ring rule: trim_ring.induct)
  case (1 m ring)
  show ?case
  proof (cases "m < length ring")
    case True
    then have "length ring - m = Suc (length (tl ring) - m)" by simp
    then have "drop (length ring - m) ring = drop (length (tl ring) - m) (tl ring)" by (simp add: drop_Suc)
    with True 1 show ?thesis by (simp add: trim_ring.simps [of m ring])
  next
    case False
    then show ?thesis by (simp add: trim_ring.simps [of m ring])
  qed
qed

text \<open>The abstract store: the list of everything published, of which the ring is the recent end.\<close>

definition store_of :: "nat \<Rightarrow> 's list \<Rightarrow> 's graph_store \<Rightarrow> bool" where
  "store_of m history st \<longleftrightarrow> history \<noteq> [] \<and> gst_max_snapshots st = m \<and> gst_ring st = drop (length history - m) history"

lemma store_of_new: "0 < m \<Longrightarrow> store_of m [s] (graph_store_new s m)"
  by (simp add: store_of_def graph_store_new_def)

lemma publish_refines: "store_of m history st \<Longrightarrow> store_of m (history @ [s]) (publish s st) \<and> gst_current (publish s st) = s"
proof -
  assume "store_of m history st"
  then have r: "gst_ring st = drop (length history - m) history" and m: "gst_max_snapshots st = m"
    by (simp_all add: store_of_def)
  let ?k = "length history - m"
  have "gst_ring st @ [s] = drop ?k (history @ [s])" unfolding r by simp
  then have "trim_ring m (gst_ring st @ [s]) = drop (length (history @ [s]) - m) (history @ [s])"
    unfolding trim_ring_drop by (cases "m \<le> length history") (simp_all add: drop_drop Suc_diff_le)
  then show ?thesis using m by (simp add: store_of_def publish_def)
qed

lemma rollback_keeps_ring: "gst_ring (fst (store_rollback_to_block f n st)) = gst_ring st"
  "gst_max_snapshots (fst (store_rollback_to_block f n st)) = gst_max_snapshots st"
  by (auto simp: store_rollback_to_block_def split: option.splits)

lemma find_rev_last:
  "find P (rev xs) = Some x \<longleftrightarrow> (\<exists>ys zs. xs = ys @ x # zs \<and> P x \<and> (\<forall>z\<in>set zs. \<not> P z))"
proof (induction xs rule: rev_induct)
  case (snoc y ys)
  show ?case
  proof (cases "P y")
    case True
    have "(\<exists>as bs. ys @ [y] = as @ x # bs \<and> P x \<and> (\<forall>z\<in>set bs. \<not> P z)) \<longleftrightarrow> x = y"
    proof
      assume "\<exists>as bs. ys @ [y] = as @ x # bs \<and> P x \<and> (\<forall>z\<in>set bs. \<not> P z)"
      then obtain as bs where e: "ys @ [y] = as @ x # bs" and bs: "\<forall>z\<in>set bs. \<not> P z" by blast
      show "x = y"
      proof (cases bs rule: rev_cases)
        case (snoc cs c)
        with e have "c = y" by simp
        with bs snoc True show ?thesis by simp
      qed (use e in simp)
    next
      assume "x = y"
      then show "\<exists>as bs. ys @ [y] = as @ x # bs \<and> P x \<and> (\<forall>z\<in>set bs. \<not> P z)"
        using True by (intro exI [of _ ys] exI [of _ "[]"]) simp
    qed
    with True show ?thesis by auto
  next
    case False
    have "(\<exists>as bs. ys @ [y] = as @ x # bs \<and> P x \<and> (\<forall>z\<in>set bs. \<not> P z)) \<longleftrightarrow>
        (\<exists>as bs. ys = as @ x # bs \<and> P x \<and> (\<forall>z\<in>set bs. \<not> P z))"
    proof
      assume "\<exists>as bs. ys @ [y] = as @ x # bs \<and> P x \<and> (\<forall>z\<in>set bs. \<not> P z)"
      then obtain as bs where e: "ys @ [y] = as @ x # bs" "P x" "\<forall>z\<in>set bs. \<not> P z" by blast
      show "\<exists>as bs. ys = as @ x # bs \<and> P x \<and> (\<forall>z\<in>set bs. \<not> P z)"
      proof (cases bs rule: rev_cases)
        case Nil
        with e False show ?thesis by auto
      next
        case (snoc cs c)
        with e show ?thesis by (intro exI [of _ as] exI [of _ cs]) auto
      qed
    next
      assume "\<exists>as bs. ys = as @ x # bs \<and> P x \<and> (\<forall>z\<in>set bs. \<not> P z)"
      then obtain as bs where "ys = as @ x # bs" "P x" "\<forall>z\<in>set bs. \<not> P z" by blast
      with False show "\<exists>as bs. ys @ [y] = as @ x # bs \<and> P x \<and> (\<forall>z\<in>set bs. \<not> P z)"
        by (intro exI [of _ as] exI [of _ "bs @ [y]"]) auto
    qed
    with False snoc show ?thesis by auto
  qed
qed simp

section \<open>What the engine relies on\<close>

text \<open>A rollback either leaves the store as it was or makes current a snapshot whose block is at
  or below the wanted one.\<close>

locale block_store =
  fixes roll_back :: "u64 \<Rightarrow> 'st \<Rightarrow> 'st \<times> 's option"
    and current :: "'st \<Rightarrow> 's"
    and block_of :: "'s \<Rightarrow> block_ref option"
  assumes found: "roll_back n st = (st', Some s) \<Longrightarrow> current st' = s \<and> (\<exists>b. block_of s = Some b \<and> b_number b \<le> n)"
    and missing: "roll_back n st = (st', None) \<Longrightarrow> st' = st"
begin

lemma resume_at_or_below:
  assumes "roll_back n st = (st', r)"
  shows "sat_sub (unwrap_or (map_option b_number (Option.bind r block_of)) n) k \<le> n"
proof (cases r)
  case None
  then show ?thesis by (simp add: word_nat)
next
  case (Some s)
  with assms found obtain b where "block_of s = Some b" "b_number b \<le> n" by blast
  with Some show ?thesis by (simp add: word_nat)
qed

end

lemma find_Some_cond: "find P xs = Some x \<Longrightarrow> P x \<and> x \<in> set xs"
  by (induction xs) (auto split: if_splits)

lemma at_or_below_iff: "at_or_below block_of n s \<longleftrightarrow> (\<exists>b. block_of s = Some b \<and> b_number b \<le> n)"
  by (cases "block_of s") (auto simp: at_or_below_def)

interpretation gs: block_store "store_rollback_to_block block_of" gst_current block_of
proof
  fix n :: u64 and st st' :: "'a graph_store" and s
  assume "store_rollback_to_block block_of n st = (st', Some s)"
  then have "find (at_or_below block_of n) (rev (gst_ring st)) = Some s" and "gst_current st' = s"
    by (auto simp: store_rollback_to_block_def split: option.splits)
  then show "gst_current st' = s \<and> (\<exists>b. block_of s = Some b \<and> b_number b \<le> n)"
    using find_Some_cond at_or_below_iff by metis
next
  fix n :: u64 and st st' :: "'a graph_store"
  assume "store_rollback_to_block block_of n st = (st', None)"
  then show "st' = st" by (auto simp: store_rollback_to_block_def split: option.splits)
qed

section \<open>Properties\<close>

datatype 's store_op = Publish 's | Rollback_To_Snapshot u64 | Rollback_To_Block u64

fun store_step :: "('s \<Rightarrow> u64) \<Rightarrow> ('s \<Rightarrow> block_ref option) \<Rightarrow> 's store_op \<Rightarrow> 's graph_store \<Rightarrow> 's graph_store" where
  "store_step id_of block_of (Publish s) st = publish s st"
| "store_step id_of block_of (Rollback_To_Snapshot i) st = fst (rollback_to_snapshot id_of i st)"
| "store_step id_of block_of (Rollback_To_Block n) st = fst (store_rollback_to_block block_of n st)"

fun published :: "'s store_op list \<Rightarrow> 's list" where
  "published [] = []"
| "published (Publish s # ops) = s # published ops"
| "published (_ # ops) = published ops"

lemma rollback_current:
  "gst_current (fst (store_rollback_to_block f n st)) \<in> insert (gst_current st) (set (gst_ring st))"
  "gst_current (fst (rollback_to_snapshot g i st)) \<in> insert (gst_current st) (set (gst_ring st))"
  by (auto simp: store_rollback_to_block_def rollback_to_snapshot_def dest!: find_Some_cond split: option.splits)

lemma store_step_of:
  assumes "store_of m history st" and "gst_current st \<in> set (gst_ring st)" and "0 < m"
  shows "store_of m (history @ published [op]) (store_step id_of block_of op st) \<and>
    gst_current (store_step id_of block_of op st) \<in> set (gst_ring (store_step id_of block_of op st))"
proof (cases op)
  case (Publish s)
  have p: "store_of m (history @ [s]) (publish s st)" "gst_current (publish s st) = s"
    using publish_refines [OF assms(1)] by auto
  then have "gst_ring (publish s st) = drop (length (history @ [s]) - m) (history @ [s])" by (simp add: store_of_def)
  then have "s \<in> set (gst_ring (publish s st))" using assms(3) by (cases m) auto
  with p Publish show ?thesis by simp
next
  case (Rollback_To_Snapshot i)
  with assms rollback_current(2) [of id_of i st] show ?thesis
    by (auto simp: store_of_def rollback_to_snapshot_def split: option.splits dest: find_Some_cond)
next
  case (Rollback_To_Block n)
  with assms rollback_current(1) [of block_of n st] show ?thesis by (auto simp: store_of_def rollback_keeps_ring)
qed

lemma published_Cons: "published (op # ops) = published [op] @ published ops"
  by (cases op) auto

lemma store_run_of:
  "store_of m history st \<Longrightarrow> gst_current st \<in> set (gst_ring st) \<Longrightarrow> 0 < m \<Longrightarrow>
   store_of m (history @ published ops) (fold (store_step id_of block_of) ops st) \<and>
   gst_current (fold (store_step id_of block_of) ops st) \<in> set (gst_ring (fold (store_step id_of block_of) ops st))"
proof (induction ops arbitrary: history st)
  case (Cons op ops)
  have s: "store_of m (history @ published [op]) (store_step id_of block_of op st)"
    "gst_current (store_step id_of block_of op st) \<in> set (gst_ring (store_step id_of block_of op st))"
    using store_step_of [OF Cons.prems, of op id_of block_of] by auto
  from Cons.IH [OF s Cons.prems(3)] show ?case using published_Cons [of op ops] by simp
qed simp

text \<open>C34: after any sequence of publications and rollbacks the ring of the graph store is exactly the
  most recent \<open>max_snapshots\<close> published snapshots (the abstract store, a log of everything
  published, cut to its end), and the current snapshot is one of them.\<close>

theorem graph_store_refines_log:
  assumes "0 < m"
  shows "gst_ring (fold (store_step id_of block_of) ops (graph_store_new s m)) =
      drop (Suc (length (published ops)) - m) (s # published ops) \<and>
    gst_current (fold (store_step id_of block_of) ops (graph_store_new s m)) \<in>
      set (gst_ring (fold (store_step id_of block_of) ops (graph_store_new s m)))"
proof -
  have "store_of m ([s] @ published ops) (fold (store_step id_of block_of) ops (graph_store_new s m)) \<and>
      gst_current (fold (store_step id_of block_of) ops (graph_store_new s m)) \<in>
        set (gst_ring (fold (store_step id_of block_of) ops (graph_store_new s m)))"
    by (rule store_run_of [OF store_of_new [OF assms] _ assms]) (simp add: graph_store_new_def)
  then show ?thesis by (auto simp: store_of_def)
qed

lemma graph_store_refines_log_witness:
  "gst_ring (fold (store_step (\<lambda>s. s) (\<lambda>s. None)) [Publish 2, Publish 3, Rollback_To_Snapshot 2] (graph_store_new (1::u64) 2)) = [2, 3] \<and>
   gst_current (fold (store_step (\<lambda>s. s) (\<lambda>s. None)) [Publish 2, Publish 3, Rollback_To_Snapshot 2] (graph_store_new (1::u64) 2)) = 2"
  using graph_store_refines_log [of 2 "\<lambda>s. s" "\<lambda>s. None" "[Publish 2, Publish 3, Rollback_To_Snapshot 2]" "1::u64"]
  by (simp add: numeral_2_eq_2 rollback_to_snapshot_def publish_def graph_store_new_def trim_ring_drop)

fun reorg_target :: "reorg_event \<Rightarrow> u64" where
  "reorg_target (Detected common_ancestor_block new_chain_block depth) = common_ancestor_block"
| "reorg_target (Rollback from_block to_block) = to_block"
| "reorg_target (Replay from_block to_block) = to_block"

lemma handle_reorg_resume: "handle_reorg_event s block_of st ev = resume_from s block_of st (reorg_target ev)"
  by (cases ev) auto

text \<open>a reorganisation makes current the newest snapshot of the ring whose block is at or below
  the target of the event (every later one in the ring has no block or a higher one), leaves
  the ring untouched, and reads the logs again from no later than the target; without such a snapshot
  the store does not change.\<close>

theorem reorg_restores_newest:
  assumes "handle_reorg_event s block_of st ev = (st', from_block)"
  shows "gst_ring st' = gst_ring st \<and> from_block \<le> reorg_target ev \<and>
    ((st' = st \<and> (\<forall>x\<in>set (gst_ring st). \<not> at_or_below block_of (reorg_target ev) x)) \<or>
     (\<exists>ys zs. gst_ring st = ys @ gst_current st' # zs \<and> at_or_below block_of (reorg_target ev) (gst_current st') \<and>
        (\<forall>z\<in>set zs. \<not> at_or_below block_of (reorg_target ev) z)))"
proof -
  let ?n = "reorg_target ev"
  obtain r where r: "store_rollback_to_block block_of ?n st = (st', r)"
    and fb: "from_block = sat_sub (unwrap_or (map_option b_number (Option.bind r block_of)) ?n) (rk_event_backfill_blocks (st_risk s))"
    using assms by (auto simp: handle_reorg_resume resume_from_def split: prod.splits option.splits)
  have le: "from_block \<le> ?n" unfolding fb by (rule gs.resume_at_or_below [OF r])
  have ring: "gst_ring st' = gst_ring st" using rollback_keeps_ring(1) [of block_of ?n st] r by simp
  show ?thesis
  proof (cases r)
    case None
    with r have "find (at_or_below block_of ?n) (rev (gst_ring st)) = None" "st' = st"
      by (auto simp: store_rollback_to_block_def split: option.splits)
    with le ring show ?thesis by (auto simp: find_None_iff)
  next
    case (Some x)
    with r have "find (at_or_below block_of ?n) (rev (gst_ring st)) = Some x" "gst_current st' = x"
      by (auto simp: store_rollback_to_block_def split: option.splits)
    with le ring show ?thesis unfolding find_rev_last by blast
  qed
qed

definition demo_block :: "u64 \<Rightarrow> b256 \<Rightarrow> block_ref" where
  "demo_block n h = \<lparr>b_number = n, b_hash = h, b_parent_hash = 1, b_finality = Sealed\<rparr>"

text \<open>Three snapshots of blocks 7, 8 and 9.\<close>

definition demo_store :: "block_ref graph_store" where
  "demo_store = publish (demo_block 9 19) (publish (demo_block 8 18) (graph_store_new (demo_block 7 17) 4))"

lemma demo_store_sel: "gst_ring demo_store = [demo_block 7 17, demo_block 8 18, demo_block 9 19]"
  by (simp add: demo_store_def publish_def graph_store_new_def trim_ring_drop)

lemma reorg_restores_newest_witness:
  "\<forall>s. gst_current (fst (handle_reorg_event s Some demo_store (Detected 8 9 1))) = demo_block 8 18 \<and>
     snd (handle_reorg_event s Some demo_store (Detected 8 9 1)) \<le> 8"
proof
  fix s
  let ?r = "handle_reorg_event s Some demo_store (Detected 8 9 1)"
  have c: "gst_current (fst ?r) = demo_block 8 18"
    by (simp add: resume_from_def store_rollback_to_block_def demo_store_sel demo_block_def at_or_below_def)
  have "snd ?r \<le> reorg_target (Detected 8 9 1)"
    using reorg_restores_newest [of s Some demo_store "Detected 8 9 1" "fst ?r" "snd ?r"] by simp
  with c show "gst_current (fst ?r) = demo_block 8 18 \<and> snd ?r \<le> 8" by simp
qed

text \<open>C35: when the tip is replaced by another block of the same height, the event the detector reports
  names that height as its target, and the engine makes current the newest snapshot at that height:
  the one that was built on the orphaned block.\<close>

theorem same_height_reorg_keeps_orphan:
  assumes "rd_chain d = chain @ [entry_of_block orphan]"
    and "b_number new_block = b_number orphan" and "b_hash new_block \<noteq> b_hash orphan"
    and "gst_ring st = older @ [snap]" and "block_of snap = Some orphan"
  shows "\<exists>d' ev. update_chain d new_block = Returned d' (Inr (Some ev)) \<and> last (rd_chain d') = entry_of_block new_block \<and>
    gst_current (fst (handle_reorg_event s block_of st ev)) = snap"
proof -
  have u: "update_chain d new_block = Returned (push_tip (entry_of_block new_block) (pop_tip d))
      (Inr (Some (Rollback (b_number orphan) (b_number orphan))))"
    using assms(1-3) by (simp add: update_chain_def update_chain_defs)
  have "gst_current (fst (handle_reorg_event s block_of st (Rollback (b_number orphan) (b_number orphan)))) = snap"
    using assms(4,5) by (simp add: resume_from_def store_rollback_to_block_def at_or_below_def)
  with u show ?thesis by (simp add: push_tip_def)
qed

lemma same_height_reorg_keeps_orphan_witness:
  "\<forall>s. \<exists>d' ev. update_chain (append_block (entry_of_block (demo_block 9 19)) reorg_new) (demo_block 9 29) = Returned d' (Inr (Some ev)) \<and>
     gst_current (fst (handle_reorg_event s Some demo_store ev)) = demo_block 9 19"
proof
  fix s
  have "rd_chain (append_block (entry_of_block (demo_block 9 19)) reorg_new) = [] @ [entry_of_block (demo_block 9 19)]"
    by (simp add: append_block_def push_tip_def reorg_new_def prune_old.simps max_block_history_def)
  from same_height_reorg_keeps_orphan [OF this, of "demo_block 9 29" demo_store "[demo_block 7 17, demo_block 8 18]"
      "demo_block 9 19" Some s]
  show "\<exists>d' ev. update_chain (append_block (entry_of_block (demo_block 9 19)) reorg_new) (demo_block 9 29) = Returned d' (Inr (Some ev)) \<and>
     gst_current (fst (handle_reorg_event s Some demo_store ev)) = demo_block 9 19"
    by (fastforce simp: demo_store_sel demo_block_def)
qed

end
