(* ===== verification/Rpc_Client.thy ===== *)
theory Rpc_Client
  imports Arb_Types Env F64
begin

text \<open>
  \<open>src/rpc/mod.rs\<close>: the JSON-RPC client. Its compute-unit limiter, the per-endpoint circuit
  breaker, the retry loop over endpoints, the method tables and the decoders of replies. The HTTP
  call is an argument (what the n-th call to an endpoint answers), as are the clock and the
  text forms of \<open>alloy\<close>'s addresses and hashes. Metrics and logging are left out. Threads are taken to
  run one operation at a time, so a compare-and-swap succeeds at once.
\<close>

section \<open>Methods\<close>

definition rpc_compute_units :: "string \<Rightarrow> u64" where
  "rpc_compute_units method =
     (if method \<in> set [''net_version'', ''eth_chainId'', ''eth_syncing'', ''eth_protocolVersion'', ''net_listening''] then 0
      else if method \<in> set [''eth_blockNumber'', ''eth_subscribe'', ''eth_unsubscribe'', ''eth_feeHistory'',
        ''eth_maxPriorityFeePerGas'', ''eth_blobBaseFee'', ''eth_createAccessList''] then 10
      else if method \<in> set [''eth_getTransactionReceipt'', ''eth_getBlockByNumber'', ''eth_getBlockByHash'',
        ''eth_getBlockReceipts'', ''eth_getTransactionCount'', ''eth_getCode'', ''eth_gasPrice'', ''eth_estimateGas'',
        ''eth_getStorageAt'', ''eth_getTransactionByHash'', ''eth_getRawTransactionByHash''] then 20
      else if method = ''eth_call'' then 26
      else if method \<in> set [''eth_simulateV1'', ''eth_callBundle'', ''eth_sendRawTransaction''] then 40
      else if method \<in> set [''eth_getLogs'', ''eth_getFilterLogs''] then 60
      else 20)"

definition submit_methods :: "string list" where
  "submit_methods = [''eth_sendRawTransaction'', ''eth_sendPrivateTransaction'', ''flashbots_sendBundle'']"

definition rpc_is_idempotent :: "string \<Rightarrow> bool" where
  "rpc_is_idempotent method = (method \<notin> set submit_methods)"

text \<open>This file's \<open>env_usize\<close> accepts 0.\<close>

definition rpc_max_retries :: "env \<Rightarrow> string \<Rightarrow> nat" where
  "rpc_max_retries env method =
     (if method \<in> set submit_methods then env_usize_any env ''RPC_SUBMIT_MAX_RETRIES'' 0
      else if method \<in> set [''eth_getLogs'', ''eth_getBlockReceipts''] then env_usize_any env ''RPC_LOG_MAX_RETRIES'' 3
      else if method \<in> set [''eth_call'', ''eth_estimateGas''] then env_usize_any env ''RPC_SIMULATION_MAX_RETRIES'' 2
      else if method \<in> set [''eth_getTransactionReceipt'', ''eth_getTransactionByHash'']
        then env_usize_any env ''RPC_RECEIPT_MAX_RETRIES'' 2
      else env_usize_any env ''RPC_MAX_RETRIES'' 1)"

definition rpc_timeout :: "env \<Rightarrow> string \<Rightarrow> duration" where
  "rpc_timeout env method =
     (let default_ms = (if method \<in> set [''eth_getLogs'', ''eth_getBlockReceipts''] then 60000
        else if method \<in> set [''eth_call'', ''eth_estimateGas''] then 30000
        else if method \<in> set [''eth_sendRawTransaction'', ''eth_sendPrivateTransaction''] then 10000
        else 20000)
      in from_millis (env_u64 env ''RPC_REQUEST_TIMEOUT_MS'' default_ms))"

text \<open>The jitter: a wrapping hash of the method's bytes, modulo 50.\<close>

definition method_hash :: "string \<Rightarrow> u64 \<Rightarrow> u64" where
  "method_hash method seed = foldl (\<lambda>acc byte. xor (acc * 31) (word_of_nat (of_char byte))) seed method"

text \<open>\<open>u64::saturating_pow\<close> of 2; the attempt is cast to \<open>u32\<close> first.\<close>

definition pow2_sat :: "nat \<Rightarrow> u64" where
  "pow2_sat attempt = (let e = attempt mod 2 ^ 32 in if e < 64 then 2 ^ e else - 1)"

definition rpc_backoff :: "env \<Rightarrow> string \<Rightarrow> nat \<Rightarrow> duration" where
  "rpc_backoff env method attempt =
     (let base = word_of_nat (env_u64 env ''RPC_RETRY_BASE_DELAY_MS'' 100) :: u64;
          jitter = method_hash method (word_of_nat attempt) mod 50
      in from_millis (unat (sat_add (sat_mul base (pow2_sat attempt)) jitter)))"

definition endpoint_status_key :: "string \<Rightarrow> string \<Rightarrow> string" where
  "endpoint_status_key endpoint method = method @ '' '' @ endpoint"

text \<open>Which errors count against the endpoint: every one, except what a node answers to a
  simulated call, of which only the signs of an overloaded node count.\<close>

definition should_record_endpoint_failure :: "string \<Rightarrow> string \<Rightarrow> bool" where
  "should_record_endpoint_failure method err =
     (if method \<notin> set [''eth_call'', ''eth_estimateGas''] then True
      else let message = to_ascii_lowercase err in
        if starts_with message ''rpc error'' then
          str_contains message ''rate limit'' \<or> str_contains message ''too many'' \<or> str_contains message ''compute unit'' \<or>
          str_contains message ''capacity'' \<or> str_contains message ''temporarily unavailable''
        else True)"

fun push_distinct :: "'a list \<Rightarrow> 'a list \<Rightarrow> 'a list" where
  "push_distinct out [] = out"
| "push_distinct out (x # xs) = push_distinct (if x \<in> set out then out else out @ [x]) xs"

definition compact_unique_urls :: "string option list \<Rightarrow> string list" where
  "compact_unique_urls urls = push_distinct [] (List.map_filter (\<lambda>u. u) urls)"

definition max_log_range_for_chain :: "chain \<Rightarrow> u64" where
  "max_log_range_for_chain c = (case c of Base \<Rightarrow> 10000 | Linea \<Rightarrow> 100000 | _ \<Rightarrow> 2000)"

definition adapt_log_chunk_size :: "chain \<Rightarrow> string \<Rightarrow> u64 \<Rightarrow> u64" where
  "adapt_log_chunk_size c provider_mode current_size =
     (let max_allowed = max_log_range_for_chain c;
          adaptive_max = (if to_ascii_lowercase provider_mode \<in> set [''dedicated'', ''growth'', ''scale'']
                          then max max_allowed 10000 else max_allowed)
      in if current_size = 0 then min 5000 adaptive_max else min current_size adaptive_max)"

definition should_reduce_chunk_size :: "string \<Rightarrow> bool" where
  "should_reduce_chunk_size err =
     (let e = to_ascii_lowercase err in
      list_ex (str_contains e) [''query returned more than'', ''exceeds range limit'', ''block range too large'',
        ''payload too large'', ''limited to a 10,000 range'', ''too many results'', ''timeout'', ''timed out'', ''413''])"

section \<open>The compute-unit limiter\<close>

definition as_secs_f64 :: "duration \<Rightarrow> f64" where
  "as_secs_f64 d = f_add (f64_of_nat (d div 1000000000)) (f_div (f64_of_nat (d mod 1000000000)) (f64_of_nat 1000000000))"

definition from_secs_f64 :: "f64 \<Rightarrow> duration" where
  "from_secs_f64 v = nat (round_half_even (f_val v * 1000000000))"

record cu_limiter =
  cl_capacity :: u64
  cl_refill_rate :: u64
  cl_tokens :: u64
  cl_last_refill :: instant

definition cu_limiter_new :: "instant \<Rightarrow> u64 \<Rightarrow> u64 \<Rightarrow> cu_limiter" where
  "cu_limiter_new now capacity refill_rate =
     \<lparr>cl_capacity = capacity, cl_refill_rate = refill_rate, cl_tokens = capacity, cl_last_refill = now\<rparr>"

definition rpc_cu_limiter :: "env \<Rightarrow> instant \<Rightarrow> cu_limiter" where
  "rpc_cu_limiter env now =
     (let refill_rate = max (env_u64 env ''RPC_CU_PER_SECOND'' 10000) 1;
          capacity = max (env_u64 env ''RPC_CU_BURST'' refill_rate) refill_rate
      in cu_limiter_new now (word_of_nat capacity) (word_of_nat refill_rate))"

definition refill_tokens :: "u64 \<Rightarrow> duration \<Rightarrow> u64" where
  "refill_tokens rate elapsed = f64_as_word (f_mul (as_secs_f64 elapsed) (f64_of_word rate))"

text \<open>The clock is read twice: for the elapsed time and for the new mark.\<close>

definition cl_refill :: "instant \<times> instant \<Rightarrow> cu_limiter \<Rightarrow> cu_limiter" where
  "cl_refill t l =
     (let refill = refill_tokens (cl_refill_rate l) (fst t - cl_last_refill l) in
      if refill = 0 then l
      else l\<lparr>cl_tokens := min (sat_add (cl_tokens l) refill) (cl_capacity l), cl_last_refill := snd t\<rparr>)"

definition cl_try_consume :: "instant \<times> instant \<Rightarrow> u64 \<Rightarrow> cu_limiter \<Rightarrow> cu_limiter \<times> bool" where
  "cl_try_consume t amount l =
     (if amount = 0 then (l, True)
      else let l1 = cl_refill t l in
        if cl_tokens l1 < amount then (l1, False) else (l1\<lparr>cl_tokens := cl_tokens l1 - amount\<rparr>, True))"

definition cl_wait_duration :: "u64 \<Rightarrow> cu_limiter \<Rightarrow> duration" where
  "cl_wait_duration amount l =
     (if amount = 0 \<or> amount \<le> cl_tokens l then 0
      else from_secs_f64 (f_max (f_div (f64_of_word (amount - cl_tokens l)) (f64_of_word (max (cl_refill_rate l) 1)))
             (f_lit (1 / 100))))"

text \<open>\<open>acquire_rpc_budget\<close>: \<open>clock k\<close> are the readings of the k-th attempt. No value means that it
  never returns.\<close>

partial_function (option) acquire_rpc_budget :: "(nat \<Rightarrow> instant \<times> instant) \<Rightarrow> u64 \<Rightarrow> nat \<Rightarrow> cu_limiter \<Rightarrow> cu_limiter option" where
  "acquire_rpc_budget clock cu k l =
     (let r = cl_try_consume (clock k) cu l
      in if snd r then Some (fst r) else acquire_rpc_budget clock cu (Suc k) (fst r))"

section \<open>Usage counters\<close>

record rpc_method_usage =
  mu_requests :: u64
  mu_cu :: u64

text \<open>The accumulator: when it was last reported, and the counters in the order of their keys' first
  use.\<close>

record rpc_usage =
  us_since :: instant
  us_by_method_provider :: "string \<rightharpoonup> rpc_method_usage"

definition rpc_usage_log_interval :: "env \<Rightarrow> duration" where
  "rpc_usage_log_interval env =
     from_secs (unwrap_or (Option.bind (env ''RPC_USAGE_LOG_INTERVAL_SECS'') (parse_bounded 64)) 30)"

text \<open>The clock is read for the elapsed time and, after a report, for the new start.\<close>

definition record_rpc_usage_attempt ::
  "env \<Rightarrow> instant \<times> instant \<Rightarrow> string \<Rightarrow> string \<Rightarrow> u64 \<Rightarrow> rpc_usage \<Rightarrow> rpc_usage" where
  "record_rpc_usage_attempt env t method provider cu u =
     (let interval = rpc_usage_log_interval env in
      if interval = 0 then u
      else
        let key = method @ ''@'' @ provider;
            entry = unwrap_or (us_by_method_provider u key) \<lparr>mu_requests = 0, mu_cu = 0\<rparr>;
            entry' = \<lparr>mu_requests = sat_add (mu_requests entry) 1, mu_cu = sat_add (mu_cu entry) cu\<rparr>;
            u1 = u\<lparr>us_by_method_provider := (us_by_method_provider u)(key \<mapsto> entry')\<rparr>
        in if fst t - us_since u1 < interval then u1
           else \<lparr>us_since = snd t, us_by_method_provider = Map.empty\<rparr>)"

section \<open>Endpoints and their circuit breaker\<close>

record endpoint_status =
  es_consecutive_failures :: u64
  es_open_until :: "instant option"

definition endpoint_status_default :: endpoint_status where
  "endpoint_status_default = \<lparr>es_consecutive_failures = 0, es_open_until = None\<rparr>"

type_synonym status_map = "string \<rightharpoonup> endpoint_status"

record rpc_client =
  rc_url :: string
  rc_fallback_urls :: "string list"

definition endpoints_for_method :: "rpc_client \<Rightarrow> string \<Rightarrow> string list" where
  "endpoints_for_method c method =
     (if rpc_is_idempotent method then push_distinct [rc_url c] (rc_fallback_urls c) else [rc_url c])"

definition endpoint_is_open :: "instant \<Rightarrow> string \<Rightarrow> string \<Rightarrow> status_map \<Rightarrow> bool \<times> status_map" where
  "endpoint_is_open now endpoint method m =
     (let key = endpoint_status_key endpoint method in
      case m key of
        None \<Rightarrow> (False, m)
      | Some s \<Rightarrow>
          (case es_open_until s of
             Some until \<Rightarrow> if now < until then (True, m) else (False, m(key \<mapsto> s\<lparr>es_open_until := None\<rparr>))
           | None \<Rightarrow> (False, m)))"

definition record_endpoint_success :: "string \<Rightarrow> string \<Rightarrow> status_map \<Rightarrow> status_map" where
  "record_endpoint_success endpoint method m = m(endpoint_status_key endpoint method \<mapsto> endpoint_status_default)"

definition failure_threshold :: "env \<Rightarrow> u64" where
  "failure_threshold env = word_of_nat (env_u64 env ''RPC_PROVIDER_FAILURE_THRESHOLD'' 3)"

definition circuit_open_time :: "env \<Rightarrow> duration" where
  "circuit_open_time env = from_millis (env_u64 env ''RPC_PROVIDER_CIRCUIT_OPEN_MS'' 30000)"

definition record_endpoint_failure :: "env \<Rightarrow> instant \<Rightarrow> string \<Rightarrow> string \<Rightarrow> status_map \<Rightarrow> status_map" where
  "record_endpoint_failure env now endpoint method m =
     (let key = endpoint_status_key endpoint method;
          entry = unwrap_or (m key) endpoint_status_default;
          failures = sat_add (es_consecutive_failures entry) 1
      in m(key \<mapsto> \<lparr>es_consecutive_failures = failures,
           es_open_until = (if failure_threshold env \<le> failures then Some (now + circuit_open_time env)
                            else es_open_until entry)\<rparr>))"

definition clients_of_settings ::
  "string \<Rightarrow> string option \<Rightarrow> string option \<Rightarrow> string option \<Rightarrow>
   rpc_client \<times> rpc_client option \<times> rpc_client option \<times> rpc_client option" where
  "clients_of_settings public_url fallback_url preconf_url protected_url =
     (\<lparr>rc_url = public_url, rc_fallback_urls = compact_unique_urls [preconf_url, fallback_url]\<rparr>,
      map_option (\<lambda>u. \<lparr>rc_url = u, rc_fallback_urls = compact_unique_urls [Some public_url, preconf_url]\<rparr>) fallback_url,
      map_option (\<lambda>u. \<lparr>rc_url = u, rc_fallback_urls = compact_unique_urls [Some public_url, fallback_url]\<rparr>) preconf_url,
      map_option (\<lambda>u. \<lparr>rc_url = u, rc_fallback_urls = []\<rparr>) protected_url)"

section \<open>The request loop\<close>

text \<open>What one call answers: a result, an error with its text, or nothing within the timeout.\<close>

datatype 'v call_reply = Answered 'v | Errored string | Unanswered

datatype rpc_failure = Call_Error string | Call_Timeout string | No_Endpoint string

text \<open>The run of a request: the endpoint states, the endpoints called so far, and how often the
  breaker's clock was read. \<open>net n e\<close> is the answer to the n-th call, which goes to \<open>e\<close>.\<close>

record rpc_run =
  rr_status :: status_map
  rr_sent :: "string list"
  rr_ticks :: nat

fun try_endpoints ::
  "env \<Rightarrow> (nat \<Rightarrow> instant) \<Rightarrow> (nat \<Rightarrow> string \<Rightarrow> 'v call_reply) \<Rightarrow> string \<Rightarrow> string list \<Rightarrow> rpc_failure option \<Rightarrow> rpc_run \<Rightarrow>
   rpc_run \<times> (rpc_failure option + (rpc_failure + 'v))" where
  "try_endpoints env clock net method [] last_error r = (r, Inl last_error)"
| "try_endpoints env clock net method (e # es) last_error r =
     (case endpoint_is_open (clock (rr_ticks r)) e method (rr_status r) of
        (True, m) \<Rightarrow> try_endpoints env clock net method es last_error (r\<lparr>rr_status := m, rr_ticks := Suc (rr_ticks r)\<rparr>)
      | (False, m) \<Rightarrow>
          let t = Suc (rr_ticks r); sent = rr_sent r @ [e];
              failed = \<lparr>rr_status = record_endpoint_failure env (clock t) e method m, rr_sent = sent, rr_ticks = Suc t\<rparr>
          in case net (length (rr_sent r)) e of
               Answered v \<Rightarrow>
                 (\<lparr>rr_status = record_endpoint_success e method m, rr_sent = sent, rr_ticks = t\<rparr>, Inr (Inr v))
             | Errored err \<Rightarrow>
                 if should_record_endpoint_failure method err
                 then try_endpoints env clock net method es (Some (Call_Error err)) failed
                 else (\<lparr>rr_status = m, rr_sent = sent, rr_ticks = t\<rparr>, Inr (Inl (Call_Error err)))
             | Unanswered \<Rightarrow> try_endpoints env clock net method es (Some (Call_Timeout method)) failed)"

text \<open>The passes over the endpoints; the backoff between them only lets the clock advance.\<close>

fun request_passes ::
  "env \<Rightarrow> (nat \<Rightarrow> instant) \<Rightarrow> (nat \<Rightarrow> string \<Rightarrow> 'v call_reply) \<Rightarrow> string \<Rightarrow> string list \<Rightarrow> nat \<Rightarrow> rpc_failure option \<Rightarrow> rpc_run \<Rightarrow>
   rpc_run \<times> (rpc_failure + 'v)" where
  "request_passes env clock net method es 0 last_error r = (r, Inl (unwrap_or last_error (No_Endpoint method)))"
| "request_passes env clock net method es (Suc n) last_error r =
     (case try_endpoints env clock net method es last_error r of
        (r', Inl last_error') \<Rightarrow> request_passes env clock net method es n last_error' r'
      | (r', Inr res) \<Rightarrow> (r', res))"

definition rpc_request ::
  "env \<Rightarrow> (nat \<Rightarrow> instant) \<Rightarrow> (nat \<Rightarrow> string \<Rightarrow> 'v call_reply) \<Rightarrow> rpc_client \<Rightarrow> string \<Rightarrow> status_map \<Rightarrow> rpc_run \<times> (rpc_failure + 'v)" where
  "rpc_request env clock net c method m =
     request_passes env clock net method (endpoints_for_method c method) (Suc (rpc_max_retries env method)) None
       \<lparr>rr_status = m, rr_sent = [], rr_ticks = 0\<rparr>"

section \<open>Replies\<close>

text \<open>A JSON value; a number is its text, an object a list of members. The text forms of addresses,
  hashes, byte strings and 256-bit numbers are \<open>alloy\<close>'s and arguments.\<close>

datatype json = JNull | JBool bool | JNum string | JStr string | JArr "json list" | JObj "(string \<times> json) list"

record alloy_text =
  at_address :: "string \<rightharpoonup> address"
  at_b256 :: "string \<rightharpoonup> b256"
  at_bytes :: "string \<rightharpoonup> u8 list"
  at_u256_radix16 :: "string \<rightharpoonup> u256"
  at_show_address :: "address \<Rightarrow> string"
  at_show_b256 :: "b256 \<Rightarrow> string"
  at_show_bytes :: "u8 list \<Rightarrow> string"
  at_json_address :: "address \<Rightarrow> string"

datatype decode_error = Missing_Field string | Not_A_String string | Malformed string string | Not_An_Array string
  | No_Tx_Hash json

record rpc_log =
  lg_address :: address
  lg_topics :: "b256 list"
  lg_data :: "u8 list"
  lg_block_number :: "u64 option"
  lg_block_hash :: "b256 option"
  lg_tx_hash :: "b256 option"

fun json_get :: "string \<Rightarrow> json \<Rightarrow> json option" where
  "json_get k (JObj members) = map_of members k"
| "json_get k v = None"

fun as_str :: "json \<Rightarrow> string option" where
  "as_str (JStr s) = Some s"
| "as_str v = None"

fun as_array :: "json \<Rightarrow> json list option" where
  "as_array (JArr vs) = Some vs"
| "as_array v = None"

definition need :: "'e \<Rightarrow> 'a option \<Rightarrow> 'e + 'a" where
  "need e x = (case x of None \<Rightarrow> Inl e | Some a \<Rightarrow> Inr a)"

lemma need_simps [simp]: "need e (Some a) = Inr a" "need e None = Inl e"
  by (simp_all add: need_def)

definition ok_opt :: "'e + 'a \<Rightarrow> 'a option" where
  "ok_opt r = (case r of Inl e \<Rightarrow> None | Inr a \<Rightarrow> Some a)"

definition hex_val :: "char \<Rightarrow> nat option" where
  "hex_val c = (let n = of_char c :: nat in
     if 48 \<le> n \<and> n \<le> 57 then Some (n - 48)
     else if 97 \<le> n \<and> n \<le> 102 then Some (n - 87)
     else if 65 \<le> n \<and> n \<le> 70 then Some (n - 55) else None)"

fun parse_hex_digits :: "nat \<Rightarrow> string \<Rightarrow> nat option" where
  "parse_hex_digits acc [] = Some acc"
| "parse_hex_digits acc (c # cs) =
     (case hex_val c of None \<Rightarrow> None | Some d \<Rightarrow> parse_hex_digits (16 * acc + d) cs)"

text \<open>\<open>from_str_radix(_, 16)\<close>: an optional plus sign, at least one digit, no overflow.\<close>

definition from_radix16 :: "nat \<Rightarrow> string \<Rightarrow> nat option" where
  "from_radix16 bits s =
     (let t = (case s of [] \<Rightarrow> [] | c # cs \<Rightarrow> if c = CHR ''+'' then cs else s)
      in if t = [] then None else filter_opt (\<lambda>n. n < 2 ^ bits) (parse_hex_digits 0 t))"

text \<open>\<open>trim_start_matches("0x")\<close> removes the prefix as often as it is there.\<close>

function trim_0x :: "string \<Rightarrow> string" where
  "trim_0x s = (if take 2 s = ''0x'' then trim_0x (drop 2 s) else s)"
  by pat_completeness auto
termination
  by (relation "measure length") (auto, metis diff_less length_greater_0_conv list.discI take_Nil zero_less_numeral)

declare trim_0x.simps [simp del]

definition parse_hex_word :: "string \<Rightarrow> json \<Rightarrow> decode_error + 'a::len word" where
  "parse_hex_word ty value =
     res_bind (need (Not_A_String ty) (as_str value)) (\<lambda>text.
       let stripped = trim_0x text in
       if stripped = [] then Inr 0
       else map_sum (\<lambda>e. e) word_of_nat (need (Malformed ty text) (from_radix16 LENGTH('a) stripped)))"

definition parse_hex_u64 :: "json \<Rightarrow> decode_error + u64" where "parse_hex_u64 = parse_hex_word ''u64''"

definition parse_hex_u128 :: "json \<Rightarrow> decode_error + u128" where "parse_hex_u128 = parse_hex_word ''u128''"

definition parse_text :: "string \<Rightarrow> (string \<rightharpoonup> 'a) \<Rightarrow> json \<Rightarrow> decode_error + 'a" where
  "parse_text ty f value =
     res_bind (need (Not_A_String ty) (as_str value)) (\<lambda>text. need (Malformed ty text) (f text))"

definition parse_hex_u256 :: "alloy_text \<Rightarrow> json \<Rightarrow> decode_error + u256" where
  "parse_hex_u256 al = parse_text ''u256'' (\<lambda>text. at_u256_radix16 al (trim_0x text))"

definition rpc_parse_address :: "alloy_text \<Rightarrow> json \<Rightarrow> decode_error + address" where
  "rpc_parse_address al = parse_text ''address'' (at_address al)"

definition parse_b256 :: "alloy_text \<Rightarrow> json \<Rightarrow> decode_error + b256" where
  "parse_b256 al = parse_text ''hash'' (at_b256 al)"

definition parse_bytes :: "alloy_text \<Rightarrow> json \<Rightarrow> decode_error + u8 list" where
  "parse_bytes al = parse_text ''bytes'' (at_bytes al)"

definition parse_log :: "alloy_text \<Rightarrow> json \<Rightarrow> decode_error + rpc_log" where
  "parse_log al value =
     res_bind (res_bind (need (Missing_Field ''address'') (json_get ''address'' value)) (rpc_parse_address al)) (\<lambda>a.
     res_bind (need (Missing_Field ''topics'') (Option.bind (json_get ''topics'' value) as_array)) (\<lambda>ts.
     res_bind (map_res (parse_b256 al) ts) (\<lambda>topics.
     res_bind (res_bind (need (Missing_Field ''data'') (json_get ''data'' value)) (parse_bytes al)) (\<lambda>dat.
       Inr \<lparr>lg_address = a, lg_topics = topics, lg_data = dat,
         lg_block_number = Option.bind (json_get ''blockNumber'' value) (\<lambda>v. ok_opt (parse_hex_u64 v)),
         lg_block_hash = Option.bind (json_get ''blockHash'' value) (\<lambda>v. ok_opt (parse_b256 al v)),
         lg_tx_hash = Option.bind (json_get ''transactionHash'' value) (\<lambda>v. ok_opt (parse_b256 al v))\<rparr>))))"

definition parse_tx_hash_result :: "alloy_text \<Rightarrow> json \<Rightarrow> decode_error + b256" where
  "parse_tx_hash_result al value =
     (if as_str value \<noteq> None then parse_b256 al value
      else case (case json_get ''txHash'' value of Some h \<Rightarrow> Some h | None \<Rightarrow> json_get ''transactionHash'' value) of
        Some h \<Rightarrow> parse_b256 al h
      | None \<Rightarrow> Inl (No_Tx_Hash value))"

definition parse_receipt_status :: "json \<Rightarrow> decode_error + bool option" where
  "parse_receipt_status value =
     (if value = JNull then Inr None
      else res_bind (case json_get ''status'' value of None \<Rightarrow> Inr 1 | Some v \<Rightarrow> parse_hex_u64 v)
        (\<lambda>status. Inr (Some (status = 1))))"

text \<open>The methods of \<open>RpcClient\<close> that build a request and read its reply; \<open>call\<close> is \<open>request\<close>.\<close>

fun hex_digit :: "nat \<Rightarrow> char" where
  "hex_digit n = char_of (if n < 10 then n + 48 else n + 87)"

function hex_of :: "nat \<Rightarrow> string" where
  "hex_of n = (if n < 16 then [hex_digit n] else hex_of (n div 16) @ [hex_digit (n mod 16)])"
  by pat_completeness auto
termination by (relation "measure id") auto

declare hex_of.simps [simp del]

definition quantity :: "u64 \<Rightarrow> string" where "quantity n = ''0x'' @ hex_of (unat n)"

type_synonym 'e rpc_call = "string \<Rightarrow> json \<Rightarrow> 'e + json"

definition decoded :: "('x \<Rightarrow> decode_error + 'a) \<Rightarrow> 'e + 'x \<Rightarrow> ('e + decode_error) + 'a" where
  "decoded f r = (case r of Inl e \<Rightarrow> Inl (Inl e) | Inr v \<Rightarrow> map_sum Inr (\<lambda>a. a) (f v))"

definition block_number :: "'e rpc_call \<Rightarrow> ('e + decode_error) + u64" where
  "block_number call = decoded parse_hex_u64 (call ''eth_blockNumber'' (JArr []))"

definition decode_block :: "alloy_text \<Rightarrow> json \<Rightarrow> decode_error + u64 \<times> b256 \<times> b256" where
  "decode_block al value =
     res_bind (res_bind (need (Missing_Field ''number'') (json_get ''number'' value)) parse_hex_u64) (\<lambda>number.
     res_bind (res_bind (need (Missing_Field ''hash'') (json_get ''hash'' value)) (parse_b256 al)) (\<lambda>hash.
     res_bind (res_bind (need (Missing_Field ''parentHash'') (json_get ''parentHash'' value)) (parse_b256 al)) (\<lambda>parent.
       Inr (number, hash, parent))))"

definition get_block_by_number :: "'e rpc_call \<Rightarrow> alloy_text \<Rightarrow> string \<Rightarrow> ('e + decode_error) + u64 \<times> b256 \<times> b256" where
  "get_block_by_number call al tag =
     decoded (decode_block al) (call ''eth_getBlockByNumber'' (JArr [JStr tag, JBool False]))"

definition log_filter :: "alloy_text \<Rightarrow> string \<Rightarrow> string \<Rightarrow> address list \<Rightarrow> b256 list \<Rightarrow> json" where
  "log_filter al from_block to_block addresses topics =
     JObj ([(''fromBlock'', JStr from_block), (''toBlock'', JStr to_block)] @
       (if addresses \<noteq> [] then [(''address'', JArr (map (\<lambda>a. JStr (at_show_address al a)) addresses))] else []) @
       (if topics \<noteq> [] then [(''topics'', JArr [JArr (map (\<lambda>t. JStr (at_show_b256 al t)) topics)])] else []))"

definition decode_logs :: "alloy_text \<Rightarrow> json \<Rightarrow> decode_error + rpc_log list" where
  "decode_logs al value = res_bind (need (Not_An_Array ''eth_getLogs'') (as_array value)) (map_res (parse_log al))"

definition get_logs_by_tag ::
  "'e rpc_call \<Rightarrow> alloy_text \<Rightarrow> string \<Rightarrow> string \<Rightarrow> address list \<Rightarrow> b256 list \<Rightarrow> ('e + decode_error) + rpc_log list" where
  "get_logs_by_tag call al from_block to_block addresses topics =
     decoded (decode_logs al) (call ''eth_getLogs'' (JArr [log_filter al from_block to_block addresses topics]))"

definition get_logs ::
  "'e rpc_call \<Rightarrow> alloy_text \<Rightarrow> u64 \<Rightarrow> u64 \<Rightarrow> address list \<Rightarrow> b256 list \<Rightarrow> ('e + decode_error) + rpc_log list" where
  "get_logs call al from_block to_block addresses topics =
     decoded (decode_logs al)
       (call ''eth_getLogs'' (JArr [log_filter al (quantity from_block) (quantity to_block) addresses topics]))"

text \<open>A receipt without a list of logs is skipped.\<close>

definition receipt_logs :: "json \<Rightarrow> json list" where
  "receipt_logs receipt = unwrap_or (Option.bind (json_get ''logs'' receipt) as_array) []"

definition decode_receipts :: "alloy_text \<Rightarrow> json \<Rightarrow> decode_error + rpc_log list" where
  "decode_receipts al value =
     res_bind (need (Not_An_Array ''eth_getBlockReceipts'') (as_array value))
       (\<lambda>receipts. map_res (parse_log al) (concat (map receipt_logs receipts)))"

definition get_block_receipts_logs :: "'e rpc_call \<Rightarrow> alloy_text \<Rightarrow> u64 \<Rightarrow> ('e + decode_error) + rpc_log list" where
  "get_block_receipts_logs call al n =
     decoded (decode_receipts al) (call ''eth_getBlockReceipts'' (JArr [JStr (quantity n)]))"

definition gas_price :: "'e rpc_call \<Rightarrow> ('e + decode_error) + u128" where
  "gas_price call = decoded parse_hex_u128 (call ''eth_gasPrice'' (JArr []))"

definition max_priority_fee_per_gas :: "'e rpc_call \<Rightarrow> ('e + decode_error) + u128" where
  "max_priority_fee_per_gas call = decoded parse_hex_u128 (call ''eth_maxPriorityFeePerGas'' (JArr []))"

definition get_transaction_count :: "'e rpc_call \<Rightarrow> alloy_text \<Rightarrow> address \<Rightarrow> string \<Rightarrow> ('e + decode_error) + u64" where
  "get_transaction_count call al a tag =
     decoded parse_hex_u64 (call ''eth_getTransactionCount'' (JArr [JStr (at_show_address al a), JStr tag]))"

definition get_transaction_receipt_status :: "'e rpc_call \<Rightarrow> alloy_text \<Rightarrow> b256 \<Rightarrow> ('e + decode_error) + bool option" where
  "get_transaction_receipt_status call al h =
     decoded parse_receipt_status (call ''eth_getTransactionReceipt'' (JArr [JStr (at_show_b256 al h)]))"

definition send_raw_transaction_with_method :: "'e rpc_call \<Rightarrow> alloy_text \<Rightarrow> string \<Rightarrow> string \<Rightarrow> ('e + decode_error) + b256" where
  "send_raw_transaction_with_method call al method raw_tx =
     decoded (parse_tx_hash_result al)
       (call method (if method = ''eth_sendPrivateTransaction'' then JArr [JObj [(''tx'', JStr raw_tx)]] else JArr [JStr raw_tx]))"

definition get_code :: "'e rpc_call \<Rightarrow> alloy_text \<Rightarrow> address \<Rightarrow> string \<Rightarrow> ('e + decode_error) + u8 list" where
  "get_code call al a tag = decoded (parse_bytes al) (call ''eth_getCode'' (JArr [JStr (at_show_address al a), JStr tag]))"

text \<open>\<open>CallRequest\<close>: an absent sender or value is left out of the object.\<close>

definition call_request :: "alloy_text \<Rightarrow> address \<Rightarrow> address option \<Rightarrow> u8 list \<Rightarrow> json" where
  "call_request al to_address from_address dat =
     JObj ([(''to'', JStr (at_json_address al to_address))] @
       (case from_address of Some f \<Rightarrow> [(''from'', JStr (at_json_address al f))] | None \<Rightarrow> []) @
       [(''data'', JStr (at_show_bytes al dat))])"

definition eth_call :: "'e rpc_call \<Rightarrow> alloy_text \<Rightarrow> address \<Rightarrow> address option \<Rightarrow> u8 list \<Rightarrow> string \<Rightarrow> ('e + decode_error) + u8 list" where
  "eth_call call al to_address from_address dat block_tag =
     decoded (parse_bytes al) (call ''eth_call'' (JArr [call_request al to_address from_address dat, JStr block_tag]))"

definition estimate_gas :: "'e rpc_call \<Rightarrow> alloy_text \<Rightarrow> address \<Rightarrow> address option \<Rightarrow> u8 list \<Rightarrow> ('e + decode_error) + u64" where
  "estimate_gas call al to_address from_address dat =
     decoded parse_hex_u64 (call ''eth_estimateGas'' (JArr [call_request al to_address from_address dat]))"

section \<open>Facts about the request loop\<close>

definition answered_by :: "(nat \<Rightarrow> string \<Rightarrow> 'v call_reply) \<Rightarrow> rpc_run \<Rightarrow> 'v \<Rightarrow> bool" where
  "answered_by net r v \<longleftrightarrow> rr_sent r \<noteq> [] \<and> net (length (rr_sent r) - 1) (last (rr_sent r)) = Answered v"

lemma try_endpoints_sends:
  "try_endpoints env clock net method es le0 r = (r', res) \<Longrightarrow>
   \<exists>sent. rr_sent r' = rr_sent r @ sent \<and> length sent \<le> length es \<and> set sent \<subseteq> set es \<and>
     (\<forall>v. res = Inr (Inr v) \<longrightarrow> answered_by net r' v)"
proof (induction es arbitrary: le0 r)
  case (Cons e es)
  obtain opened m where o: "endpoint_is_open (clock (rr_ticks r)) e method (rr_status r) = (opened, m)" by force
  have step: "\<exists>sent. rr_sent r' = rr_sent r @ sent \<and> length sent \<le> length (e # es) \<and> set sent \<subseteq> set (e # es) \<and>
      (\<forall>v. res = Inr (Inr v) \<longrightarrow> answered_by net r' v)"
    if "try_endpoints env clock net method es le1 r1 = (r', res)" and "rr_sent r1 = rr_sent r \<or> rr_sent r1 = rr_sent r @ [e]" for le1 r1
    using Cons.IH [OF that(1)] that(2) by fastforce
  show ?case
  proof (cases opened)
    case True
    with Cons.prems o
    have "try_endpoints env clock net method es le0 (r\<lparr>rr_status := m, rr_ticks := Suc (rr_ticks r)\<rparr>) = (r', res)" by simp
    from step [OF this] show ?thesis by simp
  next
    case False
    let ?t = "Suc (rr_ticks r)"
    let ?failed = "\<lparr>rr_status = record_endpoint_failure env (clock ?t) e method m, rr_sent = rr_sent r @ [e], rr_ticks = Suc ?t\<rparr>"
    from False have "opened = False" by simp
    note goal = Cons.prems [unfolded try_endpoints.simps o this, simplified]
    show ?thesis
    proof (cases "net (length (rr_sent r)) e")
      case (Answered v)
      with goal show ?thesis by (auto intro!: exI [of _ "[e]"] simp: answered_by_def)
    next
      case (Errored err)
      show ?thesis
      proof (cases "should_record_endpoint_failure method err")
        case True
        with goal Errored have "try_endpoints env clock net method es (Some (Call_Error err)) ?failed = (r', res)"
          by (simp add: Let_def)
        from step [OF this] show ?thesis by simp
      next
        case False
        with goal Errored show ?thesis by (auto intro!: exI [of _ "[e]"])
      qed
    next
      case Unanswered
      with goal have "try_endpoints env clock net method es (Some (Call_Timeout method)) ?failed = (r', res)"
        by (simp add: Let_def)
      from step [OF this] show ?thesis by simp
    qed
  qed
qed auto

lemma request_passes_sends:
  "request_passes env clock net method es n le0 r = (r', res) \<Longrightarrow>
   \<exists>sent. rr_sent r' = rr_sent r @ sent \<and> length sent \<le> n * length es \<and> set sent \<subseteq> set es \<and>
     (\<forall>v. res = Inr v \<longrightarrow> answered_by net r' v)"
proof (induction n arbitrary: le0 r)
  case (Suc n)
  obtain r1 res1 where t: "try_endpoints env clock net method es le0 r = (r1, res1)" by force
  from try_endpoints_sends [OF t] obtain s1 where s1: "rr_sent r1 = rr_sent r @ s1" "length s1 \<le> length es" "set s1 \<subseteq> set es"
    "\<forall>v. res1 = Inr (Inr v) \<longrightarrow> answered_by net r1 v" by blast
  show ?case
  proof (cases res1)
    case (Inl le1)
    with Suc.prems t have "request_passes env clock net method es n le1 r1 = (r', res)" by simp
    from Suc.IH [OF this] obtain s2 where "rr_sent r' = rr_sent r1 @ s2" "length s2 \<le> n * length es" "set s2 \<subseteq> set es"
      "\<forall>v. res = Inr v \<longrightarrow> answered_by net r' v" by blast
    with s1 show ?thesis by (intro exI [of _ "s1 @ s2"]) auto
  next
    case (Inr x)
    with Suc.prems t have "r' = r1" "x = res" by simp_all
    with s1 Inr show ?thesis by (intro exI [of _ s1]) auto
  qed
qed auto

section \<open>Facts about the limiter\<close>

lemma cl_refill_sel:
  "cl_capacity (cl_refill t l) = cl_capacity l" "cl_refill_rate (cl_refill t l) = cl_refill_rate l"
  by (simp_all add: cl_refill_def Let_def)

lemma cl_refill_le: "cl_tokens l \<le> cl_capacity l \<Longrightarrow> cl_tokens (cl_refill t l) \<le> cl_capacity l"
  by (simp add: cl_refill_def Let_def)

lemma consume_too_much:
  assumes "cl_tokens l \<le> cl_capacity l" and "cl_capacity l < cu"
  shows "\<not> snd (cl_try_consume t cu l) \<and> cl_tokens (fst (cl_try_consume t cu l)) \<le> cl_capacity l \<and>
    cl_capacity (fst (cl_try_consume t cu l)) = cl_capacity l"
proof -
  have "cl_tokens (cl_refill t l) \<le> cl_capacity l" using assms(1) by (rule cl_refill_le)
  moreover from this assms(2) have "cl_tokens (cl_refill t l) < cu" by simp
  moreover have "cu \<noteq> 0" using assms(2) word_zero_le [of "cl_capacity l"] by auto
  ultimately show ?thesis by (simp add: cl_try_consume_def Let_def cl_refill_sel)
qed

lemma acquire_blocked:
  assumes "acquire_rpc_budget clock cu k l = Some l'" and "cl_tokens l \<le> cl_capacity l"
  shows "cu \<le> cl_capacity l"
proof -
  have "cl_tokens l \<le> cl_capacity l \<longrightarrow> cu \<le> cl_capacity l"
  proof (rule acquire_rpc_budget.raw_induct [of "\<lambda>clock cu k l l'. cl_tokens l \<le> cl_capacity l \<longrightarrow> cu \<le> cl_capacity l",
        OF _ assms(1)], rule impI, rule ccontr)
    fix rec :: "(nat \<Rightarrow> instant \<times> instant) \<Rightarrow> u64 \<Rightarrow> nat \<Rightarrow> cu_limiter \<Rightarrow> cu_limiter option" and clock cu k l l'
    assume IH: "\<And>clock cu k l l'. rec clock cu k l = Some l' \<Longrightarrow> cl_tokens l \<le> cl_capacity l \<longrightarrow> cu \<le> cl_capacity l"
      and body: "(let r = cl_try_consume (clock k) cu l in if snd r then Some (fst r) else rec clock cu (Suc k) (fst r)) = Some l'"
      and ok: "cl_tokens l \<le> cl_capacity l" and "\<not> cu \<le> cl_capacity l"
    then have big: "cl_capacity l < cu" by simp
    note c = consume_too_much [OF ok big, of "clock k"]
    with body have "rec clock cu (Suc k) (fst (cl_try_consume (clock k) cu l)) = Some l'" by (simp add: Let_def)
    from IH [OF this] c big show False by simp
  qed
  with assms(2) show ?thesis by simp
qed

lemma le_sat_add: "a \<le> sat_add a b"
  using unat_le_max [of a] by (simp add: word_nat)

lemma min_le_sat_add: "a \<le> c \<Longrightarrow> b \<noteq> 0 \<Longrightarrow> a \<noteq> c \<Longrightarrow> a < min (sat_add a b) (c :: u64)"
proof -
  assume "a \<le> c" and "b \<noteq> 0" and "a \<noteq> c"
  then have "unat a < unat c" "0 < unat b" using word_less_nat_alt [of a c] by (auto simp: unat_gt_0)
  moreover have "unat c \<le> 2 ^ 64 - 1" using unat_le_max [of c] by simp
  ultimately show ?thesis by (simp add: word_nat)
qed

lemma acquire_fits:
  assumes "\<And>j. clock j = (t0 + j * p, t0 + j * p)" and "0 < refill_tokens rate p"
  shows "cl_refill_rate l = rate \<Longrightarrow> cl_tokens l \<le> cl_capacity l \<Longrightarrow> cl_last_refill l + p = t0 + k * p \<Longrightarrow>
    cu \<le> cl_capacity l \<Longrightarrow> acquire_rpc_budget clock cu k l \<noteq> None"
proof (induction "unat (cl_capacity l) - unat (cl_tokens l)" arbitrary: k l rule: less_induct)
  case less
  let ?l1 = "cl_refill (clock k) l"
  have el: "fst (clock k) - cl_last_refill l = p" using assms(1) [of k] less.prems(3) by simp
  have l1: "?l1 = l\<lparr>cl_tokens := min (sat_add (cl_tokens l) (refill_tokens rate p)) (cl_capacity l), cl_last_refill := t0 + k * p\<rparr>"
    using assms(2) el less.prems(1) assms(1) [of k] by (simp add: cl_refill_def Let_def)
  show ?case
  proof (cases "cu = 0 \<or> cu \<le> cl_tokens ?l1")
    case True
    then show ?thesis by (subst acquire_rpc_budget.simps) (auto simp: cl_try_consume_def Let_def)
  next
    case False
    then have "cl_tokens l \<noteq> cl_capacity l"
      using less.prems(4) l1 le_sat_add [of "cl_tokens l" "refill_tokens rate p"] by (auto simp: min_absorb2)
    from assms(2) have "refill_tokens rate p \<noteq> 0" by auto
    from min_le_sat_add [OF less.prems(2) this \<open>cl_tokens l \<noteq> cl_capacity l\<close>]
    have "cl_tokens l < cl_tokens ?l1" unfolding l1 by simp
    moreover have "cl_tokens l < cl_capacity l" using less.prems(2) \<open>cl_tokens l \<noteq> cl_capacity l\<close> by simp
    ultimately have "unat (cl_capacity ?l1) - unat (cl_tokens ?l1) < unat (cl_capacity l) - unat (cl_tokens l)"
      by (simp add: cl_refill_sel word_less_nat_alt diff_less_mono2)
    moreover have "cl_last_refill ?l1 + p = t0 + Suc k * p" unfolding l1 by simp
    ultimately have "acquire_rpc_budget clock cu (Suc k) ?l1 \<noteq> None"
      using less.hyps [of ?l1 "Suc k"] less.prems cl_refill_le [OF less.prems(2)] by (simp add: cl_refill_sel)
    with False show ?thesis by (subst acquire_rpc_budget.simps) (auto simp: cl_try_consume_def Let_def)
  qed
qed

section \<open>Facts about hexadecimal text\<close>

lemma hex_val_digit: "n < 16 \<Longrightarrow> hex_val (hex_digit n) = Some n"
  by (auto simp: hex_val_def Let_def)

lemma parse_hex_digits_append:
  "parse_hex_digits acc (xs @ ys) = Option.bind (parse_hex_digits acc xs) (\<lambda>a. parse_hex_digits a ys)"
  by (induction xs arbitrary: acc) (auto split: option.splits)

lemma parse_hex_of: "parse_hex_digits 0 (hex_of n) = Some n"
proof (induction n rule: hex_of.induct)
  case (1 n)
  show ?case
  proof (cases "n < 16")
    case True
    then show ?thesis by (simp add: hex_of.simps [of n] hex_val_digit del: hex_digit.simps)
  next
    case False
    with 1 show ?thesis
      by (simp add: hex_of.simps [of n] parse_hex_digits_append hex_val_digit del: hex_digit.simps)
  qed
qed

lemma hex_digit_neq: "n < 16 \<Longrightarrow> hex_digit n \<noteq> CHR ''x'' \<and> hex_digit n \<noteq> CHR ''+''"
proof -
  assume "n < 16"
  then have "hex_val (hex_digit n) \<noteq> None" using hex_val_digit by simp
  moreover have "hex_val CHR ''x'' = None" "hex_val CHR ''+'' = None" by (simp_all add: hex_val_def)
  ultimately show ?thesis by metis
qed

lemma hex_of_chars: "hex_of n \<noteq> [] \<and> CHR ''x'' \<notin> set (hex_of n) \<and> CHR ''+'' \<notin> set (hex_of n)"
proof (induction n rule: hex_of.induct)
  case (1 n)
  have "hex_digit (n mod 16) \<noteq> CHR ''x'' \<and> hex_digit (n mod 16) \<noteq> CHR ''+''" by (rule hex_digit_neq) simp
  with 1 hex_digit_neq [of n] show ?case by (auto simp: hex_of.simps [of n] simp del: hex_digit.simps)
qed

lemma trim_0x_hex: "trim_0x (''0x'' @ hex_of n) = hex_of n"
proof -
  have "take 2 (hex_of n) \<noteq> ''0x''"
    using hex_of_chars [of n] in_set_takeD [of "CHR ''x''" 2 "hex_of n"] by auto
  then show ?thesis by (simp add: trim_0x.simps [of "CHR ''0'' # CHR ''x'' # hex_of n"] trim_0x.simps [of "hex_of n"])
qed

section \<open>Properties\<close>

text \<open>C40: whom a request contacts. Every call goes to the client's own endpoint or, for a method that is
  safe to repeat, to one of its fallbacks; each is called at most once per pass, so that the
  retries bound the calls; and a result is always the answer to the last call made.\<close>

theorem rpc_request_contacts:
  assumes "rpc_request env clock net c method m = (r, res)"
  shows "set (rr_sent r) \<subseteq> set (endpoints_for_method c method) \<and>
    length (rr_sent r) \<le> Suc (rpc_max_retries env method) * length (endpoints_for_method c method) \<and>
    (method \<in> set submit_methods \<longrightarrow> set (rr_sent r) \<subseteq> {rc_url c}) \<and>
    (\<forall>v. res = Inr v \<longrightarrow> rr_sent r \<noteq> [] \<and> net (length (rr_sent r) - 1) (last (rr_sent r)) = Answered v)"
proof -
  from request_passes_sends [OF assms [unfolded rpc_request_def]]
  obtain sent where sent: "rr_sent r = sent" "length sent \<le> Suc (rpc_max_retries env method) * length (endpoints_for_method c method)"
    "set sent \<subseteq> set (endpoints_for_method c method)" "\<forall>v. res = Inr v \<longrightarrow> answered_by net r v" by auto
  then show ?thesis by (auto simp: answered_by_def endpoints_for_method_def rpc_is_idempotent_def)
qed

text \<open>A node that cannot answer and a fallback that can.\<close>

definition demo_client :: rpc_client where
  "demo_client = \<lparr>rc_url = ''main'', rc_fallback_urls = [''spare'']\<rparr>"

definition demo_net :: "nat \<Rightarrow> string \<Rightarrow> nat call_reply" where
  "demo_net n e = (if e = ''spare'' then Answered 7 else Unanswered)"

lemma demo_request:
  "\<exists>r. rpc_request (\<lambda>_. None) (\<lambda>_. 0) demo_net demo_client ''eth_blockNumber'' Map.empty = (r, Inr 7) \<and> rr_sent r = [''main'', ''spare'']"
  by (simp add: rpc_request_def endpoints_for_method_def rpc_is_idempotent_def submit_methods_def demo_client_def demo_net_def
      endpoint_is_open_def Let_def record_endpoint_failure_def endpoint_status_key_def endpoint_status_default_def)

lemma rpc_request_contacts_witness:
  "\<exists>r. rpc_request (\<lambda>_. None) (\<lambda>_. 0) demo_net demo_client ''eth_blockNumber'' Map.empty = (r, Inr 7) \<and>
     set (rr_sent r) \<subseteq> {''main'', ''spare''} \<and> demo_net (length (rr_sent r) - 1) (last (rr_sent r)) = Answered 7"
proof -
  obtain r where r: "rpc_request (\<lambda>_. None) (\<lambda>_. 0) demo_net demo_client ''eth_blockNumber'' Map.empty = (r, Inr 7)"
    using demo_request by blast
  from rpc_request_contacts [OF this] r show ?thesis
    by (auto simp: endpoints_for_method_def rpc_is_idempotent_def submit_methods_def demo_client_def)
qed

text \<open>a healthy endpoint is cut off by what it answers. For a submission every error counts against
  the endpoint, an answer such as a refused nonce too: once the failures reach the threshold the
  next submission within the open time fails without any call, and without another endpoint to
  turn to.\<close>

theorem refused_submissions_open_circuit:
  assumes "method \<in> set submit_methods" and "rpc_max_retries env method = 0"
    and "m (endpoint_status_key (rc_url c) method) = Some \<lparr>es_consecutive_failures = k, es_open_until = None\<rparr>"
    and "failure_threshold env \<le> sat_add k 1"
    and "net 0 (rc_url c) = Errored err"
    and "rpc_request env clock net c method m = (r, res)"
    and "clock' 0 < clock 1 + circuit_open_time env"
  shows "res = Inl (Call_Error err) \<and>
    (\<exists>r'. rpc_request env clock' net' c method (rr_status r) = (r', Inl (No_Endpoint method)) \<and> rr_sent r' = [])"
proof -
  have es: "endpoints_for_method c method = [rc_url c]"
    and rec: "should_record_endpoint_failure method err"
    using assms(1) by (auto simp: endpoints_for_method_def rpc_is_idempotent_def should_record_endpoint_failure_def submit_methods_def)
  have st: "rr_status r (endpoint_status_key (rc_url c) method) =
      Some \<lparr>es_consecutive_failures = sat_add k 1, es_open_until = Some (clock 1 + circuit_open_time env)\<rparr>"
    and res: "res = Inl (Call_Error err)"
    using assms(6) assms(2-5) rec es
    by (auto simp: rpc_request_def endpoint_is_open_def Let_def record_endpoint_failure_def)
  then show ?thesis using assms(2,7) es by (simp add: rpc_request_def endpoint_is_open_def Let_def)
qed

lemma refused_submissions_open_circuit_witness:
  "\<exists>r'. rpc_request (\<lambda>_. None) (\<lambda>_. from_secs 20) (\<lambda>_ _. Answered (0 :: nat)) demo_client ''eth_sendRawTransaction''
      (rr_status (fst (rpc_request (\<lambda>_. None) (\<lambda>_. 0) (\<lambda>_ _. Errored ''rpc error -32000 nonce too low'' :: nat call_reply) demo_client
        ''eth_sendRawTransaction''
        [endpoint_status_key ''main'' ''eth_sendRawTransaction'' \<mapsto> \<lparr>es_consecutive_failures = 2, es_open_until = None\<rparr>])))
      = (r', Inl (No_Endpoint ''eth_sendRawTransaction'')) \<and> rr_sent r' = []"
proof -
  have e: "env_u64 (\<lambda>_. None) k d = d" "env_usize_any (\<lambda>_. None) k d = d" for k d
    by (simp_all add: env_u64_def env_usize_any_def filter_opt_def)
  have t: "failure_threshold (\<lambda>_. None) \<le> sat_add 2 1" by (simp add: failure_threshold_def e sat_add_def)
  show ?thesis
    by (rule refused_submissions_open_circuit [THEN conjunct2, OF _ _ _ t _ surjective_pairing])
      (simp_all add: submit_methods_def rpc_max_retries_def e demo_client_def circuit_open_time_def)
qed

text \<open>waiting for budget ends exactly when the cost fits. With a clock that advances by a fixed period
  for which the bucket earns at least one unit, \<open>acquire_rpc_budget\<close> returns if the cost is at most the
  capacity, and never returns otherwise: a burst capacity set below the cost of a method hangs
  every call of that method.\<close>

theorem budget_wait_ends_iff:
  assumes "\<And>j. clock j = (cl_last_refill l + p + j * p, cl_last_refill l + p + j * p)"
    and "0 < refill_tokens (cl_refill_rate l) p" and "cl_tokens l \<le> cl_capacity l"
  shows "acquire_rpc_budget clock cu 0 l \<noteq> None \<longleftrightarrow> cu \<le> cl_capacity l"
proof
  assume "acquire_rpc_budget clock cu 0 l \<noteq> None"
  then obtain l' where "acquire_rpc_budget clock cu 0 l = Some l'" by blast
  from acquire_blocked [OF this assms(3)] show "cu \<le> cl_capacity l" .
next
  assume "cu \<le> cl_capacity l"
  with acquire_fits [OF assms(1,2), of l 0 cu] assms(3) show "acquire_rpc_budget clock cu 0 l \<noteq> None" by simp
qed

lemma demo_refill: "refill_tokens 40 (from_secs 1) = 40"
  by (simp add: refill_tokens_def as_secs_f64_def f64_of_nat_def f64_of_word_def f64_of_int_def round_f64_def round_signed_def
      ilog2_rat_def round_half_even_def pow2_rat_def Let_def)

lemma budget_wait_ends_iff_witness:
  "acquire_rpc_budget (\<lambda>j. (from_secs 1 + j * from_secs 1, from_secs 1 + j * from_secs 1))
     (rpc_compute_units ''eth_getLogs'') 0 (cu_limiter_new 0 40 40) = None \<and>
   acquire_rpc_budget (\<lambda>j. (from_secs 1 + j * from_secs 1, from_secs 1 + j * from_secs 1))
     (rpc_compute_units ''eth_call'') 0 (cu_limiter_new 0 40 40) \<noteq> None"
proof -
  let ?clock = "\<lambda>j. (from_secs 1 + j * from_secs 1, from_secs 1 + j * from_secs 1)"
  have iff: "acquire_rpc_budget ?clock cu 0 (cu_limiter_new 0 40 40) \<noteq> None \<longleftrightarrow> cu \<le> cl_capacity (cu_limiter_new 0 40 40)" for cu
    by (rule budget_wait_ends_iff [of _ _ "from_secs 1"]) (use demo_refill in \<open>simp_all add: cu_limiter_new_def\<close>)
  have "rpc_compute_units ''eth_getLogs'' = 60" "rpc_compute_units ''eth_call'' = 26" by (simp_all add: rpc_compute_units_def)
  then show ?thesis using iff [of 60] iff [of 26] by (simp add: cu_limiter_new_def)
qed

text \<open>block numbers survive the trip through a request. The hexadecimal text that \<open>get_logs\<close> writes is read
  back as the same number.\<close>

theorem quantity_round_trip: "parse_hex_u64 (JStr (quantity n)) = Inr n"
proof -
  have t: "trim_0x (quantity n) = hex_of (unat n)" unfolding quantity_def by (rule trim_0x_hex)
  have "hd (hex_of (unat n)) \<noteq> CHR ''+''" using hex_of_chars [of "unat n"] by (cases "hex_of (unat n)") auto
  then have "from_radix16 64 (hex_of (unat n)) = Some (unat n)"
    using hex_of_chars [of "unat n"] parse_hex_of [of "unat n"] unat_lt_size [of n]
    by (auto simp: from_radix16_def split: list.splits)
  with hex_of_chars [of "unat n"] show ?thesis by (simp add: parse_hex_u64_def parse_hex_word_def t Let_def)
qed

text \<open>the size of a log query. The adapted chunk is never empty and never above the chain's range, or
  10,000 blocks on a higher tier; a size already within the limit is kept.\<close>

theorem adapt_log_chunk_size_bounds:
  "0 < adapt_log_chunk_size c mode n \<and> adapt_log_chunk_size c mode n \<le> max (max_log_range_for_chain c) 10000 \<and>
   (to_ascii_lowercase mode \<notin> set [''dedicated'', ''growth'', ''scale''] \<longrightarrow> adapt_log_chunk_size c mode n \<le> max_log_range_for_chain c) \<and>
   (0 < n \<and> n \<le> max_log_range_for_chain c \<longrightarrow> adapt_log_chunk_size c mode n = n)"
proof -
  have "0 < max_log_range_for_chain c" by (cases c) (simp_all add: max_log_range_for_chain_def)
  then show ?thesis
    by (auto simp: adapt_log_chunk_size_def Let_def min_def max_def word_neq_0_conv simp del: list.set split: if_splits)
qed

lemma adapt_log_chunk_size_bounds_witness:
  "adapt_log_chunk_size Polygon ''payg'' 50000 \<le> 2000 \<and> adapt_log_chunk_size Base ''scale'' 7000 = 7000"
  using adapt_log_chunk_size_bounds [of Polygon "''payg''" 50000] adapt_log_chunk_size_bounds [of Base "''scale''" 7000]
  by (simp add: max_log_range_for_chain_def to_ascii_lowercase_def lower_char_def)

end
