(* ===== verification/Scheduler.thy ===== *)
theory Scheduler
  imports Rpc_Client
begin

text \<open>
  \<open>src/rpc/scheduler.rs\<close>: request classes, the circuit breaker and the token bucket of a provider,
  the choice of a provider and the execution of a request with its retries. A provider's call and
  the clock are arguments; the channels and the worker's overall timeout (which only abandons a
  request) are not modelled.
\<close>

datatype request_priority = Critical | High | Normal | Low

text \<open>The derived order of the enum.\<close>

fun discriminant :: "request_priority \<Rightarrow> nat" where
  "discriminant Critical = 0"
| "discriminant High = 1"
| "discriminant Normal = 2"
| "discriminant Low = 3"

lemma discriminant_inject: "discriminant a = discriminant b \<longleftrightarrow> a = b"
  by (cases a; cases b) auto

instantiation request_priority :: linorder
begin

definition less_eq_request_priority :: "request_priority \<Rightarrow> request_priority \<Rightarrow> bool" where
  "a \<le> b \<longleftrightarrow> discriminant a \<le> discriminant b"

definition less_request_priority :: "request_priority \<Rightarrow> request_priority \<Rightarrow> bool" where
  "a < b \<longleftrightarrow> discriminant a < discriminant b"

instance
  by standard (auto simp: less_eq_request_priority_def less_request_priority_def discriminant_inject)

end

record request_class =
  rq_priority :: request_priority
  rq_is_idempotent :: bool
  rq_max_retries :: nat

definition critical_class :: request_class where
  "critical_class = \<lparr>rq_priority = Critical, rq_is_idempotent = False, rq_max_retries = 3\<rparr>"

definition high_class :: request_class where
  "high_class = \<lparr>rq_priority = High, rq_is_idempotent = True, rq_max_retries = 2\<rparr>"

definition normal_class :: request_class where
  "normal_class = \<lparr>rq_priority = Normal, rq_is_idempotent = True, rq_max_retries = 1\<rparr>"

definition low_class :: request_class where
  "low_class = \<lparr>rq_priority = Low, rq_is_idempotent = True, rq_max_retries = 0\<rparr>"

definition get_request_class :: "string \<Rightarrow> request_class" where
  "get_request_class method =
     (if method \<in> set [''eth_sendRawTransaction'', ''eth_sendPrivateTransaction'', ''flashbots_sendBundle''] then critical_class
      else if method \<in> set [''eth_estimateGas'', ''eth_estimateUserOperationGas'', ''eth_simulateV1'', ''eth_callBundle'']
        then high_class
      else if method \<in> set [''eth_getTransactionReceipt'', ''eth_getTransactionByHash'', ''eth_getTransactionCount'']
        then high_class
      else if method \<in> set [''eth_call'', ''eth_getLogs''] then normal_class
      else if method \<in> set [''eth_blockNumber'', ''eth_chainId'', ''eth_getBlockByNumber''] then normal_class
      else low_class)"

fun policy_timeout :: "request_priority \<Rightarrow> duration" where
  "policy_timeout Critical = from_secs 10"
| "policy_timeout High = from_secs 30"
| "policy_timeout Normal = from_secs 60"
| "policy_timeout Low = from_secs 120"

section \<open>Circuit breaker\<close>

datatype circuit_state = Closed | Open_Since instant | HalfOpen

record circuit_breaker =
  cb_state :: circuit_state
  cb_failure_count :: u64
  cb_consecutive_failures :: u64
  cb_last_failure_time :: "instant option"
  cb_failure_threshold :: nat
  cb_open_duration :: duration

definition circuit_breaker_new :: "nat \<Rightarrow> duration \<Rightarrow> circuit_breaker" where
  "circuit_breaker_new threshold open_duration =
     \<lparr>cb_state = Closed, cb_failure_count = 0, cb_consecutive_failures = 0, cb_last_failure_time = None,
      cb_failure_threshold = threshold, cb_open_duration = open_duration\<rparr>"

definition cb_record_success :: "circuit_breaker \<Rightarrow> circuit_breaker" where
  "cb_record_success b =
     b\<lparr>cb_consecutive_failures := 0, cb_state := (if cb_state b = HalfOpen then Closed else cb_state b)\<rparr>"

fun is_open_state :: "circuit_state \<Rightarrow> bool" where
  "is_open_state (Open_Since t) = True"
| "is_open_state s = False"

definition cb_is_open :: "circuit_breaker \<Rightarrow> bool" where "cb_is_open b = is_open_state (cb_state b)"

text \<open>Two readings of the clock: the failure time and the opening time. The counters wrap.\<close>

definition cb_record_failure :: "instant \<times> instant \<Rightarrow> circuit_breaker \<Rightarrow> circuit_breaker" where
  "cb_record_failure t b =
     (let consecutive = cb_consecutive_failures b + 1;
          b1 = b\<lparr>cb_failure_count := cb_failure_count b + 1, cb_consecutive_failures := consecutive,
                cb_last_failure_time := Some (fst t)\<rparr>
      in if word_of_nat (cb_failure_threshold b) \<le> consecutive \<and> \<not> cb_is_open b1
         then b1\<lparr>cb_state := Open_Since (snd t)\<rparr> else b1)"

definition cb_should_allow :: "instant \<Rightarrow> circuit_breaker \<Rightarrow> circuit_breaker \<times> bool" where
  "cb_should_allow now b =
     (case cb_state b of
        Closed \<Rightarrow> (b, True)
      | Open_Since t \<Rightarrow> if cb_open_duration b < now - t then (b\<lparr>cb_state := HalfOpen\<rparr>, True) else (b, False)
      | HalfOpen \<Rightarrow> (b, True))"

section \<open>Token bucket\<close>

record token_bucket =
  tk_capacity :: u64
  tk_refill_rate :: u64
  tk_tokens :: u64
  tk_last_refill :: instant

definition token_bucket_new :: "instant \<Rightarrow> u64 \<Rightarrow> u64 \<Rightarrow> token_bucket" where
  "token_bucket_new now capacity refill_rate =
     \<lparr>tk_capacity = capacity, tk_refill_rate = refill_rate, tk_tokens = capacity, tk_last_refill = now\<rparr>"

text \<open>The mark moves on every attempt, so a fraction of a unit earned between two attempts is lost; the
  addition wraps.\<close>

definition tk_try_consume :: "instant \<times> instant \<Rightarrow> u64 \<Rightarrow> token_bucket \<Rightarrow> token_bucket \<times> bool" where
  "tk_try_consume t needed b =
     (let refill = refill_tokens (tk_refill_rate b) (fst t - tk_last_refill b);
          tokens = min (tk_tokens b + refill) (tk_capacity b);
          b1 = b\<lparr>tk_tokens := tokens, tk_last_refill := snd t\<rparr>
      in if needed \<le> tokens then (b1\<lparr>tk_tokens := tokens - needed\<rparr>, True) else (b1, False))"

definition tk_wait_for_tokens :: "u64 \<Rightarrow> token_bucket \<Rightarrow> duration" where
  "tk_wait_for_tokens needed b =
     (if needed \<le> tk_tokens b then 0
      else from_secs_f64 (f_max (f_div (f64_of_word (needed - tk_tokens b)) (f64_of_word (tk_refill_rate b))) (f_lit (1 / 100))))"

section \<open>Providers\<close>

record provider_state =
  pv_url :: string
  pv_breaker :: circuit_breaker
  pv_bucket :: token_bucket
  pv_cu_used_today :: u64
  pv_method_support :: "string \<rightharpoonup> bool"

definition provider_state_new :: "instant \<Rightarrow> string \<Rightarrow> u64 \<Rightarrow> nat \<Rightarrow> provider_state" where
  "provider_state_new now url cu_per_second circuit_threshold =
     \<lparr>pv_url = url, pv_breaker = circuit_breaker_new circuit_threshold (from_secs 60),
      pv_bucket = token_bucket_new now cu_per_second cu_per_second, pv_cu_used_today = 0, pv_method_support = Map.empty\<rparr>"

definition supports_method :: "provider_state \<Rightarrow> string \<Rightarrow> bool" where
  "supports_method p method = unwrap_or (pv_method_support p method) True"

definition set_method_support :: "string \<Rightarrow> bool \<Rightarrow> provider_state \<Rightarrow> provider_state" where
  "set_method_support method supported p = p\<lparr>pv_method_support := (pv_method_support p)(method \<mapsto> supported)\<rparr>"

text \<open>The errors that count: only those that speak of a limit.\<close>

definition is_limit_error :: "string \<Rightarrow> bool" where
  "is_limit_error err =
     (let msg = to_ascii_lowercase err in
      str_contains msg ''429'' \<or> str_contains msg ''rate limit'' \<or> str_contains msg ''too many requests'' \<or> str_contains msg ''403'')"

definition circuit_open_error :: string where "circuit_open_error = ''circuit breaker open for provider''"

text \<open>\<open>ProviderState::request\<close>; the flag tells whether the node was called.\<close>

definition provider_request ::
  "instant \<Rightarrow> instant \<times> instant \<Rightarrow> string + 'v \<Rightarrow> provider_state \<Rightarrow> provider_state \<times> (string + 'v) \<times> bool" where
  "provider_request now t reply p =
     (let a = cb_should_allow now (pv_breaker p); p1 = p\<lparr>pv_breaker := fst a\<rparr> in
      if \<not> snd a then (p1, Inl circuit_open_error, False)
      else case reply of
        Inr v \<Rightarrow> (p1\<lparr>pv_breaker := cb_record_success (pv_breaker p1)\<rparr>, reply, True)
      | Inl err \<Rightarrow>
          (if is_limit_error err then p1\<lparr>pv_breaker := cb_record_failure t (pv_breaker p1)\<rparr> else p1, reply, True))"

definition scheduler_providers ::
  "instant \<Rightarrow> string \<Rightarrow> string option \<Rightarrow> string option \<Rightarrow> string option \<Rightarrow> provider_state list" where
  "scheduler_providers now public_url fallback_url protected_url preconf_url =
     map (\<lambda>u. provider_state_new now u 10000 5)
       (List.map_filter (\<lambda>u. u) [Some public_url, fallback_url, protected_url, preconf_url])"

section \<open>Choice of a provider and execution\<close>

text \<open>The primary provider is the first of the list. Asking a breaker whether it allows a request may move
  it to half-open, so the list is threaded through; every question reads the clock once.\<close>

definition ask_provider :: "(nat \<Rightarrow> instant) \<Rightarrow> nat \<Rightarrow> provider_state list \<times> nat \<Rightarrow> (provider_state list \<times> nat) \<times> bool" where
  "ask_provider clock i pk =
     (let p = fst pk ! i; a = cb_should_allow (clock (snd pk)) (pv_breaker p)
      in (((fst pk)[i := p\<lparr>pv_breaker := fst a\<rparr>], Suc (snd pk)), snd a))"

fun first_fallback ::
  "(nat \<Rightarrow> instant) \<Rightarrow> string \<Rightarrow> u64 \<Rightarrow> nat list \<Rightarrow> provider_state list \<times> nat \<Rightarrow> (provider_state list \<times> nat) \<times> nat option" where
  "first_fallback clock method cost [] pk = (pk, None)"
| "first_fallback clock method cost (i # is) pk =
     (if supports_method (fst pk ! i) method then
        (case ask_provider clock i pk of
           (pk', True) \<Rightarrow>
             if tk_wait_for_tokens cost (pv_bucket (fst pk' ! i)) = 0 then (pk', Some i)
             else first_fallback clock method cost is pk'
         | (pk', False) \<Rightarrow> first_fallback clock method cost is pk')
      else first_fallback clock method cost is pk)"

definition select_provider ::
  "(nat \<Rightarrow> instant) \<Rightarrow> bool \<Rightarrow> bool \<Rightarrow> string \<Rightarrow> u64 \<Rightarrow> provider_state list \<times> nat \<Rightarrow> (provider_state list \<times> nat) \<times> nat option" where
  "select_provider clock allow_fallback prefer_primary method cost pk =
     (if prefer_primary \<and> supports_method (fst pk ! 0) method \<and> \<not> cb_is_open (pv_breaker (fst pk ! 0)) then (pk, Some 0)
      else
        let (pk1, found) = (if allow_fallback \<and> \<not> prefer_primary
              then first_fallback clock method cost [1..<length (fst pk)] pk else (pk, None))
        in case found of
             Some i \<Rightarrow> (pk1, Some i)
           | None \<Rightarrow>
               if supports_method (fst pk1 ! 0) method then
                 (case ask_provider clock 0 pk1 of (pk2, ok) \<Rightarrow> (pk2, if ok then Some 0 else None))
               else (pk1, None))"

text \<open>The wait for tokens: no value means that it never ends.\<close>

partial_function (option) tk_acquire :: "(nat \<Rightarrow> instant) \<Rightarrow> u64 \<Rightarrow> token_bucket \<times> nat \<Rightarrow> (token_bucket \<times> nat) option" where
  "tk_acquire clock cost bk =
     (let r = tk_try_consume (clock (snd bk), clock (Suc (snd bk))) cost (fst bk); k = snd bk + 2
      in if snd r then Some (fst r, k) else tk_acquire clock cost (fst r, k))"

text \<open>The attempts of one request on one provider: the state, the answers consumed so far (one per call of
  the node), the clock readings. \<open>net n\<close> answers the n-th call.\<close>

fun attempts ::
  "(nat \<Rightarrow> instant) \<Rightarrow> (nat \<Rightarrow> string + 'v) \<Rightarrow> nat \<Rightarrow> nat \<Rightarrow> nat \<Rightarrow> string option \<Rightarrow> provider_state \<Rightarrow>
   provider_state \<times> nat \<times> nat \<times> (string + 'v)" where
  "attempts clock net 0 calls k last_error p = (p, calls, k, Inl (unwrap_or last_error ''unknown error''))"
| "attempts clock net (Suc n) calls k last_error p =
     (case provider_request (clock k) (clock (k + 1), clock (k + 2)) (net calls) p of
        (p', reply, called) \<Rightarrow>
          let calls' = (if called then Suc calls else calls) in
          case reply of
            Inr v \<Rightarrow> (p', calls', k + 3, Inr v)
          | Inl err \<Rightarrow> attempts clock net n calls' (k + 3) (Some err) p')"

definition scheduler_backoff :: "string \<Rightarrow> nat \<Rightarrow> duration" where
  "scheduler_backoff method attempt =
     from_millis (unat (100 * 2 ^ attempt :: u64)) + from_millis (unat (method_hash method (word_of_nat attempt) mod 50))"

text \<open>\<open>execute_request\<close> with the flags the scheduler is built with. Without a provider the primary is used,
  its bucket untouched.\<close>

definition execute_request ::
  "(nat \<Rightarrow> instant) \<Rightarrow> (nat \<Rightarrow> nat \<Rightarrow> string + 'v) \<Rightarrow> bool \<Rightarrow> bool \<Rightarrow> string \<Rightarrow> request_class \<Rightarrow> provider_state list \<Rightarrow>
   (provider_state list \<times> nat \<times> nat \<times> (string + 'v)) option" where
  "execute_request clock net critical_priority fallback_enabled method class ps =
     (let cost = rpc_compute_units method;
          (pk, chosen) = select_provider clock (rq_is_idempotent class \<and> fallback_enabled) critical_priority method cost (ps, 0);
          i = unwrap_or chosen 0;
          p = fst pk ! i
      in case (if chosen = None then Some (pv_bucket p, snd pk) else tk_acquire clock cost (pv_bucket p, snd pk)) of
           None \<Rightarrow> None
         | Some (bucket, k) \<Rightarrow>
             (case attempts clock (net i) (Suc (rq_max_retries class)) 0 k None
                     (p\<lparr>pv_bucket := bucket, pv_cu_used_today := pv_cu_used_today p + cost\<rparr>) of
                (p', calls, k', res) \<Rightarrow> Some ((fst pk)[i := p'], i, calls, res)))"

text \<open>The flags of \<open>from_settings\<close>.\<close>

abbreviation scheduler_execute where "scheduler_execute clock net \<equiv> execute_request clock net True True"

section \<open>The breaker\<close>

text \<open>A breaker used the way \<open>ProviderState::request\<close> uses it, one request at a time: asked, and told the
  outcome when it let the request through.\<close>

datatype outcome_kind = Succeeded | Limited | Other_Error

definition use_breaker :: "instant \<times> instant \<times> instant \<Rightarrow> outcome_kind \<Rightarrow> circuit_breaker \<Rightarrow> circuit_breaker" where
  "use_breaker t out b =
     (let a = cb_should_allow (fst t) b in
      if \<not> snd a then fst a
      else case out of Succeeded \<Rightarrow> cb_record_success (fst a) | Limited \<Rightarrow> cb_record_failure (snd t) (fst a) | Other_Error \<Rightarrow> fst a)"

definition breaker_inv :: "nat \<Rightarrow> duration \<Rightarrow> nat \<Rightarrow> circuit_breaker \<Rightarrow> bool" where
  "breaker_inv threshold d n b \<longleftrightarrow> cb_failure_threshold b = threshold \<and> cb_open_duration b = d \<and>
     unat (cb_consecutive_failures b) \<le> n \<and>
     (cb_state b = Closed \<longrightarrow> unat (cb_consecutive_failures b) < threshold) \<and>
     (cb_state b \<noteq> Closed \<longrightarrow> threshold \<le> unat (cb_consecutive_failures b))"

lemma breaker_inv_new: "0 < threshold \<Longrightarrow> breaker_inv threshold d 0 (circuit_breaker_new threshold d)"
  by (simp add: breaker_inv_def circuit_breaker_new_def)

lemma breaker_allow_inv: "breaker_inv threshold d n b \<Longrightarrow> breaker_inv threshold d n (fst (cb_should_allow now b))"
  by (auto simp: breaker_inv_def cb_should_allow_def split: circuit_state.splits)

lemma breaker_allow_state:
  "snd (cb_should_allow now b) \<Longrightarrow> \<not> cb_is_open (fst (cb_should_allow now b))"
  by (auto simp: cb_should_allow_def cb_is_open_def split: circuit_state.splits if_splits)

lemma not_open_cases: "\<not> cb_is_open b \<Longrightarrow> cb_state b = Closed \<or> cb_state b = HalfOpen"
  by (cases "cb_state b") (auto simp: cb_is_open_def)

lemma unat_succ_less: "unat (a :: u64) \<le> n \<Longrightarrow> Suc n < 2 ^ 64 \<Longrightarrow> unat (a + 1) = Suc (unat a)"
proof -
  assume "unat a \<le> n" and "Suc n < 2 ^ 64"
  then have "unat a + unat (1 :: u64) < 2 ^ LENGTH(64)" by simp
  then show ?thesis by (simp add: unat_add_lem [THEN iffD1])
qed

lemma breaker_failure_inv:
  assumes "breaker_inv threshold d n b" and "\<not> cb_is_open b" and "Suc n < 2 ^ 64" and "threshold < 2 ^ 64" and "0 < threshold"
  shows "breaker_inv threshold d (Suc n) (cb_record_failure t b)"
proof -
  have u: "unat (cb_consecutive_failures b + 1) = Suc (unat (cb_consecutive_failures b))"
    using unat_succ_less assms(1,3) by (auto simp: breaker_inv_def)
  have th: "unat (word_of_nat threshold :: u64) = threshold" using assms(4) by (simp add: unat_word_of_nat_less)
  have le: "word_of_nat threshold \<le> cb_consecutive_failures b + 1 \<longleftrightarrow> threshold \<le> Suc (unat (cb_consecutive_failures b))"
    by (simp add: word_le_nat_alt u th)
  have o: "cb_is_open (b\<lparr>cb_failure_count := x, cb_consecutive_failures := y, cb_last_failure_time := z\<rparr>) = cb_is_open b" for x y z
    by (simp add: cb_is_open_def)
  show ?thesis using assms(1,2) not_open_cases [OF assms(2)]
    unfolding cb_record_failure_def Let_def o
    by (auto simp: breaker_inv_def le u th)
qed

lemma use_breaker_inv:
  assumes "breaker_inv threshold d n b" and "Suc n < 2 ^ 64" and "threshold < 2 ^ 64" and "0 < threshold"
  shows "breaker_inv threshold d (Suc n) (use_breaker t out b)"
proof -
  let ?a = "cb_should_allow (fst t) b"
  have a: "breaker_inv threshold d n (fst ?a)" using assms(1) by (rule breaker_allow_inv)
  then have a': "breaker_inv threshold d (Suc n) (fst ?a)" by (auto simp: breaker_inv_def)
  show ?thesis
  proof (cases "snd ?a")
    case True
    have "breaker_inv threshold d (Suc n) (cb_record_success (fst ?a))"
      using a not_open_cases [OF breaker_allow_state [OF True]] assms(4) by (auto simp: breaker_inv_def cb_record_success_def)
    moreover have "breaker_inv threshold d (Suc n) (cb_record_failure (snd t) (fst ?a))"
      using breaker_failure_inv [OF a breaker_allow_state [OF True] assms(2-4)] .
    ultimately show ?thesis using a' True by (cases out) (auto simp: use_breaker_def Let_def)
  next
    case False
    with a' show ?thesis by (simp add: use_breaker_def Let_def)
  qed
qed

lemma use_breakers_inv:
  "breaker_inv threshold d n b \<Longrightarrow> n + length us < 2 ^ 64 \<Longrightarrow> threshold < 2 ^ 64 \<Longrightarrow> 0 < threshold \<Longrightarrow>
   breaker_inv threshold d (n + length us) (fold (\<lambda>(t, out). use_breaker t out) us b)"
proof (induction us arbitrary: n b)
  case (Cons u us)
  obtain t out where u: "u = (t, out)" by (cases u)
  have "breaker_inv threshold d (Suc n) (use_breaker t out b)"
    using use_breaker_inv Cons.prems by simp
  from Cons.IH [OF this] Cons.prems u show ?case by simp
qed simp

text \<open>the life of a circuit breaker that serves one request at a time. Whatever the history, it is
  closed exactly while fewer consecutive failures than the threshold have been counted; open, it
  refuses until its open time is over and then lets a request through, of which a success closes it and
  a further limit error opens it at once.\<close>

theorem breaker_life:
  assumes "b = fold (\<lambda>(t, out). use_breaker t out) us (circuit_breaker_new threshold d)"
    and "0 < threshold" and "threshold < 2 ^ 64" and "Suc (length us) < 2 ^ 64"
  shows "(cb_state b = Closed \<longleftrightarrow> unat (cb_consecutive_failures b) < threshold) \<and>
    (\<forall>since t out. cb_state b = Open_Since since \<longrightarrow>
       (fst t - since \<le> d \<longrightarrow> use_breaker t out b = b) \<and>
       (d < fst t - since \<longrightarrow> cb_state (use_breaker t Succeeded b) = Closed \<and>
          cb_state (use_breaker t Limited b) = Open_Since (snd (snd t))))"
proof -
  have inv: "breaker_inv threshold d (length us) b"
    using use_breakers_inv [OF breaker_inv_new [OF assms(2)], of us d] assms by simp
  have reopen: "cb_state (use_breaker t Limited b) = Open_Since (snd (snd t))"
    if o: "cb_state b = Open_Since since" and t: "d < fst t - since" for since t
  proof -
    have a: "cb_should_allow (fst t) b = (b\<lparr>cb_state := HalfOpen\<rparr>, True)"
      using o t inv by (simp add: cb_should_allow_def breaker_inv_def)
    have "unat (cb_consecutive_failures b + 1) = Suc (unat (cb_consecutive_failures b))"
      using unat_succ_less inv assms(4) by (auto simp: breaker_inv_def)
    moreover have "threshold \<le> unat (cb_consecutive_failures b)" using inv o by (simp add: breaker_inv_def)
    ultimately have "word_of_nat (cb_failure_threshold b) \<le> cb_consecutive_failures b + 1"
      using inv assms(3) by (simp add: word_le_nat_alt unat_word_of_nat_less breaker_inv_def)
    then show ?thesis unfolding use_breaker_def Let_def a
      by (simp add: cb_record_failure_def cb_is_open_def Let_def)
  qed
  show ?thesis using inv reopen
    by (auto simp: breaker_inv_def use_breaker_def cb_should_allow_def cb_record_success_def Let_def not_less [symmetric])
qed

lemma breaker_life_witness:
  "cb_state (fold (\<lambda>(t, out). use_breaker t out) [((1, 2, 3), Limited)] (circuit_breaker_new 1 10)) = Open_Since 3 \<and>
   cb_state (use_breaker (20, 21, 22) Limited
     (fold (\<lambda>(t, out). use_breaker t out) [((1, 2, 3), Limited)] (circuit_breaker_new 1 10))) = Open_Since 22"
proof -
  let ?b = "fold (\<lambda>(t, out). use_breaker t out) [((1, 2, 3), Limited)] (circuit_breaker_new 1 10)"
  have o: "cb_state ?b = Open_Since 3"
    by (simp add: use_breaker_def circuit_breaker_new_def cb_should_allow_def cb_record_failure_def cb_is_open_def Let_def)
  with breaker_life [of ?b "[((1, 2, 3), Limited)]" 1 10] show ?thesis by simp
qed

section \<open>One provider only\<close>

lemma ask_provider_others: "j \<noteq> i \<Longrightarrow> fst (fst (ask_provider clock i pk)) ! j = fst pk ! j"
  by (simp add: ask_provider_def Let_def)

lemma select_primary:
  assumes "select_provider clock af True method cost pk = (pk', chosen)"
  shows "chosen \<in> {None, Some 0} \<and> (\<forall>j. 0 < j \<longrightarrow> fst pk' ! j = fst pk ! j)"
  using assms ask_provider_others [of _ 0 clock pk]
  by (auto simp: select_provider_def split: prod.splits if_splits)

lemma provider_request_called: "provider_request now t reply p = (p', r, called) \<Longrightarrow> called \<Longrightarrow> r = reply"
  by (auto simp: provider_request_def Let_def split: sum.splits if_splits)

lemma attempts_calls:
  "attempts clock net n calls k le0 p = (p', calls', k', res) \<Longrightarrow> calls' \<le> calls + n"
proof (induction n arbitrary: calls k le0 p)
  case (Suc n)
  obtain p1 reply called where q: "provider_request (clock k) (clock (k + 1), clock (k + 2)) (net calls) p = (p1, reply, called)"
    by (metis prod_cases3)
  show ?case
  proof (cases reply)
    case (Inl err)
    with Suc.prems q have "attempts clock net n (if called then Suc calls else calls) (k + 3) (Some err) p1 = (p', calls', k', res)"
      by (simp add: Let_def)
    from Suc.IH [OF this] show ?thesis by (auto split: if_splits)
  qed (use Suc.prems q in \<open>auto simp: Let_def split: if_splits\<close>)
qed simp

text \<open>the scheduler never fails over. Built as \<open>from_settings\<close> builds it, every request runs on the
  primary provider, whatever its class and the state of its breaker; the state of no other
  provider changes, and the node is called at most once more than the class's retries, for a
  transaction too.\<close>

theorem scheduler_uses_primary_only:
  assumes "scheduler_execute clock net method class ps = Some (ps', i, calls, res)"
  shows "i = 0 \<and> (\<forall>j. 0 < j \<longrightarrow> ps' ! j = ps ! j) \<and> calls \<le> Suc (rq_max_retries class)"
proof -
  obtain pk chosen where s: "select_provider clock (rq_is_idempotent class \<and> True) True method (rpc_compute_units method) (ps, 0) = (pk, chosen)"
    by (metis surj_pair)
  from select_primary [OF this] have c: "unwrap_or chosen 0 = 0" and o: "\<forall>j. 0 < j \<longrightarrow> fst pk ! j = ps ! j" by auto
  note e = assms [unfolded execute_request_def Let_def s prod.case c]
  obtain bucket k where b: "(if chosen = None then Some (pv_bucket (fst pk ! 0), snd pk)
      else tk_acquire clock (rpc_compute_units method) (pv_bucket (fst pk ! 0), snd pk)) = Some (bucket, k)"
    using e by (auto split: option.splits prod.splits simp del: attempts.simps)
  obtain p' calls' k' res' where a: "attempts clock (net 0) (Suc (rq_max_retries class)) 0 k None
      ((fst pk ! 0)\<lparr>pv_bucket := bucket, pv_cu_used_today := pv_cu_used_today (fst pk ! 0) + rpc_compute_units method\<rparr>)
      = (p', calls', k', res')" by (metis prod_cases4)
  have "ps' = (fst pk)[0 := p'] \<and> i = 0 \<and> calls = calls'"
    using e b a by (simp del: attempts.simps)
  with o attempts_calls [OF a] show ?thesis by simp
qed

lemma scheduler_uses_primary_only_witness:
  "\<exists>ps' calls res. scheduler_execute (\<lambda>_. 0) (\<lambda>_ _. Inr (1 :: nat)) ''eth_chainId'' normal_class
      (scheduler_providers 0 ''main'' (Some ''spare'') None None) = Some (ps', 0, calls, res) \<and>
     ps' ! 1 = provider_state_new 0 ''spare'' 10000 5 \<and> calls \<le> 2"
proof -
  let ?ps = "scheduler_providers 0 ''main'' (Some ''spare'') None None"
  have "\<exists>r. scheduler_execute (\<lambda>_. 0) (\<lambda>_ _. Inr (1 :: nat)) ''eth_chainId'' normal_class ?ps = Some r"
    by (simp add: execute_request_def select_provider_def scheduler_providers_def List.map_filter_def provider_state_new_def
        circuit_breaker_new_def cb_is_open_def supports_method_def rpc_compute_units_def Let_def tk_acquire.simps tk_try_consume_def
        split: prod.split)
  then obtain ps' i calls res where r: "scheduler_execute (\<lambda>_. 0) (\<lambda>_ _. Inr (1 :: nat)) ''eth_chainId'' normal_class ?ps
      = Some (ps', i, calls, res)" by (metis prod_cases4)
  from scheduler_uses_primary_only [OF r] r show ?thesis
    by (auto simp: scheduler_providers_def List.map_filter_def normal_class_def)
qed

end
