(* ===== verification/Sizing.thy ===== *)
theory Sizing
  imports Graph_Model Valuation Config
begin

text \<open>
  How much to trade: \<open>src/router/quantity_search.rs\<close> (the range, the ladder and the refinement points),
  \<open>src/router/fast_sizer.rs\<close> (the closed form for V2 paths), \<open>src/router/v2_split.rs\<close> (the
  waterfill over V2 pools) and \<open>src/router/v3_limits.rs\<close> (price limits). The functions of libm that
  Rust leaves open are arguments.
\<close>

section \<open>Quantity search\<close>

function ladder_from :: "u128 \<Rightarrow> u128 \<Rightarrow> u128 list" where
  "ladder_from current max_raw =
     (if current \<le> max_raw
      then current # (let nxt = sat_mul current 2 in if nxt = current then [] else ladder_from nxt max_raw)
      else [])"
  by pat_completeness auto
termination
proof (relation "measure (\<lambda>(c, m). 2 ^ 128 - unat c)")
  fix current max_raw nxt :: u128
  assume n: "nxt = sat_mul current 2" "nxt \<noteq> current"
  have "unat nxt = min (unat current * 2) (2 ^ 128 - 1)" by (simp add: n(1) word_nat)
  moreover have "unat nxt \<noteq> unat current" using n(2) by (simp add: word_unat_eq_iff)
  moreover have "unat current < 2 ^ 128" using unat_lt_size [of current] by simp
  ultimately show "((nxt, max_raw), (current, max_raw)) \<in> measure (\<lambda>(c, m). 2 ^ 128 - unat c)" by auto
qed auto

declare ladder_from.simps [simp del]

definition max_position_of_token :: "settings \<Rightarrow> token_info \<Rightarrow> u128" where
  "max_position_of_token s token =
     (let cap = unwrap_or (t_max_position_usd_e8 token) (rk_max_position_usd_e8 (st_risk s))
      in case usd_e8_to_amount cap token of Some amount \<Rightarrow> amount | None \<Rightarrow> rk_max_position (st_risk s))"

definition q128_to_f64 :: "u256 \<Rightarrow> f64" where
  "q128_to_f64 v = f_div (f64_of_word v) (f_lit (2 ^ 128))"

text \<open>Cheapest weight first, then the larger capacity, then the address.\<close>

definition cmp_pair_edges :: "edge \<Rightarrow> edge \<Rightarrow> ordering" where
  "cmp_pair_edges a b =
     then_with (cmp (e_weight_log_q32 a) (e_weight_log_q32 b))
       (then_with (cmp (e_capacity b) (e_capacity a)) (cmp (e_pool_id a) (e_pool_id b)))"

fun capacity_walk :: "graph_snapshot \<Rightarrow> nat \<Rightarrow> f64 \<Rightarrow> f64 \<Rightarrow> candidate_hop list \<Rightarrow> u128 option" where
  "capacity_walk g edge_limit cumulative_rate max_start [] = Some (f64_to_u128 max_start)"
| "capacity_walk g edge_limit cumulative_rate max_start (hop # hops) =
     (let pair = List.map_filter (edge_of g) (pair_edges g (ch_from hop) (ch_to hop)) in
      if pair = [] then None
      else
        let sorted = sort_by cmp_pair_edges pair;
            capacity_in = foldl (\<lambda>acc e. sat_add acc (e_capacity e)) 0 (take edge_limit sorted)
        in if capacity_in = 0 \<or> f_le cumulative_rate f_zero then Some 0
           else
             let max_start' = f_min max_start (f_div (f64_of_word capacity_in) cumulative_rate);
                 rate = q128_to_f64 (e_spot_rate_q128 (hd sorted))
             in if \<not> is_finite rate \<or> f_le rate f_zero then Some 0
                else let cumulative' = f_mul cumulative_rate rate in
                  if \<not> is_finite cumulative' then Some 0
                  else capacity_walk g edge_limit cumulative' max_start' hops)"

definition route_start_capacity_raw :: "graph_snapshot \<Rightarrow> candidate_path \<Rightarrow> nat \<Rightarrow> u128 option" where
  "route_start_capacity_raw g c max_parallel_pools =
     (if cp_path c = [] then None
      else capacity_walk g (max max_parallel_pools 1) f_one (F_Inf False) (cp_path c))"

definition search_range :: "settings \<Rightarrow> graph_snapshot \<Rightarrow> candidate_path \<Rightarrow> (u128 \<times> u128) option" where
  "search_range s g c =
     Option.bind (token_index g (cp_start_token c)) (\<lambda>token_idx.
       let token = gs_tokens g ! token_idx;
           max_raw = min (max_position_of_token s token)
             (unwrap_or (route_start_capacity_raw g c (se_max_split_parallel_pools (st_search s))) (- 1));
           min_raw = max (unwrap_or (usd_e8_to_amount (rk_min_trade_usd_e8 (st_risk s)) token)
             (10 ^ unat (t_decimals token) div 100)) 1
       in if min_raw \<le> max_raw then Some (min_raw, max_raw) else None)"

definition ladder :: "settings \<Rightarrow> graph_snapshot \<Rightarrow> candidate_path \<Rightarrow> u128 list" where
  "ladder s g c = (case search_range s g c of None \<Rightarrow> [] | Some (unit, max_raw) \<Rightarrow> ladder_from unit max_raw)"

definition refinement_points :: "u128 \<Rightarrow> u128 \<Rightarrow> u128 list" where
  "refinement_points center max_raw =
     remdups_adj (sort (filter (\<lambda>a. 0 < a \<and> a \<le> max_raw)
       [center div 2, sat_mul center 3 div 4, sat_mul center 7 div 8, center, sat_mul center 9 div 8,
        sat_mul center 5 div 4, sat_mul center 3 div 2, sat_mul center 2]))"

definition max_position_raw :: "settings \<Rightarrow> graph_snapshot \<Rightarrow> candidate_path \<Rightarrow> u128" where
  "max_position_raw s g c =
     (case token_index g (cp_start_token c) of
        None \<Rightarrow> rk_max_position (st_risk s)
      | Some i \<Rightarrow> max_position_of_token s (gs_tokens g ! i))"

section \<open>Price limits\<close>

definition min_sqrt_ratio_plus_one :: u256 where "min_sqrt_ratio_plus_one = 4295128740"

definition max_sqrt_ratio_minus_one :: u256 where
  "max_sqrt_ratio_minus_one = 1461446703485210103287273052203988822378723970341"

definition sqrt_limit_bps :: "env \<Rightarrow> u128" where
  "sqrt_limit_bps env =
     unwrap_or (filter_opt (\<lambda>v. v < 10000) (Option.bind (env ''V3_SQRT_PRICE_LIMIT_BPS'') parse_word)) 200"

definition sqrt_price_limit_x96 :: "env \<Rightarrow> u256 \<Rightarrow> bool \<Rightarrow> u256" where
  "sqrt_price_limit_x96 env current zero_for_one =
     (let bps = sqrt_limit_bps env in
      if bps = 0 \<or> current = 0 then (if zero_for_one then min_sqrt_ratio_plus_one else max_sqrt_ratio_minus_one)
      else
        let numerator = u256_of (if zero_for_one then sat_sub 10000 bps else sat_add 10000 bps);
            raw = sat_mul current numerator div 10000
        in if zero_for_one then max raw min_sqrt_ratio_plus_one else min raw max_sqrt_ratio_minus_one)"

definition u160_saturating_from_u256 :: "u256 \<Rightarrow> 160 word" where
  "u160_saturating_from_u256 v = (if unat v < 2 ^ 160 then ucast v else - 1)"

definition sqrt_price_limit_u160 :: "env \<Rightarrow> u256 \<Rightarrow> bool \<Rightarrow> 160 word" where
  "sqrt_price_limit_u160 env current zero_for_one = u160_saturating_from_u256 (sqrt_price_limit_x96 env current zero_for_one)"

section \<open>Fast sizer\<close>

abbreviation ppm_f64 :: f64 where "ppm_f64 \<equiv> f64_of_nat 1000000"

record rational_swap =
  rs_numerator :: f64
  rs_denominator_const :: f64
  rs_denominator_slope :: f64

definition swap_identity :: rational_swap where
  "swap_identity = \<lparr>rs_numerator = f_one, rs_denominator_const = f_one, rs_denominator_slope = f_zero\<rparr>"

text \<open>The literals \<open>1.0e-120\<close> and \<open>1.0e120\<close> of the scale test.\<close>

definition swap_normalized :: "rational_swap \<Rightarrow> rational_swap option" where
  "swap_normalized r =
     (if \<not> is_finite (rs_numerator r) \<or> \<not> is_finite (rs_denominator_const r) \<or> \<not> is_finite (rs_denominator_slope r) \<or>
         f_le (rs_numerator r) f_zero \<or> f_le (rs_denominator_const r) f_zero \<or> f_lt (rs_denominator_slope r) f_zero
      then None
      else
        let scale = f_max (f_max (f_abs (rs_numerator r)) (f_abs (rs_denominator_const r))) (f_abs (rs_denominator_slope r))
        in if \<not> (f_le (f_lit (1 / 10 ^ 120)) scale \<and> f_le scale (f_lit (10 ^ 120)))
           then Some \<lparr>rs_numerator = f_div (rs_numerator r) scale,
                      rs_denominator_const = f_div (rs_denominator_const r) scale,
                      rs_denominator_slope = f_div (rs_denominator_slope r) scale\<rparr>
           else Some r)"

definition swap_from_v2_reserves :: "u128 \<Rightarrow> u128 \<Rightarrow> u32 \<Rightarrow> rational_swap option" where
  "swap_from_v2_reserves reserve_in reserve_out fee_ppm =
     (if reserve_in = 0 \<or> reserve_out = 0 \<or> 1000000 \<le> unat fee_ppm then None
      else
        let fee_factor = f_sub ppm_f64 (f64_of_word fee_ppm)
        in swap_normalized \<lparr>rs_numerator = f_mul fee_factor (f64_of_word reserve_out),
             rs_denominator_const = f_mul (f64_of_word reserve_in) ppm_f64, rs_denominator_slope = fee_factor\<rparr>)"

definition swap_then :: "rational_swap \<Rightarrow> rational_swap \<Rightarrow> rational_swap option" where
  "swap_then self nxt =
     swap_normalized \<lparr>rs_numerator = f_mul (rs_numerator nxt) (rs_numerator self),
       rs_denominator_const = f_mul (rs_denominator_const nxt) (rs_denominator_const self),
       rs_denominator_slope = f_add (f_mul (rs_denominator_const nxt) (rs_denominator_slope self))
         (f_mul (rs_denominator_slope nxt) (rs_numerator self))\<rparr>"

definition swap_output :: "rational_swap \<Rightarrow> f64 \<Rightarrow> f64" where
  "swap_output r amount_in =
     f_div (f_mul (rs_numerator r) amount_in) (f_add (rs_denominator_const r) (f_mul (rs_denominator_slope r) amount_in))"

definition swap_optimal_input :: "rational_swap \<Rightarrow> f64 \<Rightarrow> f64 option" where
  "swap_optimal_input r marginal_cost =
     (if f_le marginal_cost f_zero \<or> f_le (rs_denominator_slope r) f_zero then None
      else
        let radicand = f_div (f_mul (rs_numerator r) (rs_denominator_const r)) marginal_cost
        in if \<not> is_finite radicand \<or> f_le radicand f_zero then None
           else
             let input = f_div (f_sub (f_sqrt radicand) (rs_denominator_const r)) (rs_denominator_slope r)
             in if is_finite input \<and> f_lt f_zero input then Some input else None)"

text \<open>Which way a V2 pool is crossed, from its first two tokens.\<close>

definition v2_orientation :: "address list \<Rightarrow> address \<Rightarrow> address \<Rightarrow> bool option" where
  "v2_orientation tokens token_in token_out =
     (case tokens of
        token0 # token1 # _ \<Rightarrow>
          if token0 = token_in \<and> token1 = token_out then Some True
          else if token1 = token_in \<and> token0 = token_out then Some False else None
      | _ \<Rightarrow> None)"

definition v2_leg :: "v2_pool_state \<Rightarrow> address list \<Rightarrow> address \<Rightarrow> address \<Rightarrow> rational_swap option" where
  "v2_leg state tokens token_in token_out =
     Option.bind (v2_orientation tokens token_in token_out) (\<lambda>zero_for_one.
       let (reserve_in, reserve_out) = v2_reserves state zero_for_one
       in swap_from_v2_reserves reserve_in reserve_out (v2_fee_ppm state))"

fun v2_curve_from :: "graph_snapshot \<Rightarrow> rational_swap \<Rightarrow> candidate_hop list \<Rightarrow> rational_swap option" where
  "v2_curve_from g curve [] = Some curve"
| "v2_curve_from g curve (hop # hops) =
     (case pool_of g (ch_pool_id hop) of
        None \<Rightarrow> None
      | Some pool \<Rightarrow>
          (case ps_state pool of
             S_UniswapV2Like state \<Rightarrow>
               (case Option.bind (v2_leg state (ps_token_addresses pool) (ch_from hop) (ch_to hop)) (swap_then curve) of
                  None \<Rightarrow> None
                | Some curve' \<Rightarrow> v2_curve_from g curve' hops)
           | _ \<Rightarrow> None))"

definition v2_path_curve :: "graph_snapshot \<Rightarrow> candidate_path \<Rightarrow> rational_swap option" where
  "v2_path_curve g c = v2_curve_from g swap_identity (cp_path c)"

text \<open>Whether the start token can only be entered with a full flash loan.\<close>

definition full_flash :: "graph_snapshot \<Rightarrow> candidate_path \<Rightarrow> bool" where
  "full_flash g c =
     unwrap_or (map_option (\<lambda>t. t_flash_loan_enabled t \<and> \<not> t_allow_self_funded t)
       (Option.bind (token_index g (cp_start_token c)) (nth_opt (gs_tokens g)))) False"

definition marginal_input_cost :: "graph_snapshot \<Rightarrow> candidate_path \<Rightarrow> u128 \<Rightarrow> f64" where
  "marginal_input_cost g c flash_premium_ppm =
     (if full_flash g c then f_add f_one (f_div (f64_of_word flash_premium_ppm) ppm_f64) else f_one)"

definition push_amount :: "u128 \<Rightarrow> u128 \<Rightarrow> f64 \<Rightarrow> u128 list \<Rightarrow> u128 list" where
  "push_amount min_amount max_amount amount amounts =
     (if \<not> is_finite amount \<or> f_le amount f_zero then amounts
      else
        let a = f_clamp (f_round amount) (f64_of_word min_amount) (f64_of_word max_amount)
        in if f_lt a f_one then amounts else amounts @ [f64_to_u128 a])"

definition sizer_multipliers :: "f64 list" where
  "sizer_multipliers = map f_lit [1 / 2, 3 / 4, 7 / 8, 1, 9 / 8, 5 / 4, 3 / 2, 2]"

definition suggest_input_amounts :: "graph_snapshot \<Rightarrow> candidate_path \<Rightarrow> u128 \<Rightarrow> u128 \<Rightarrow> u128 \<Rightarrow> u128 list" where
  "suggest_input_amounts g c min_amount max_amount flash_premium_ppm =
     (case v2_path_curve g c of
        None \<Rightarrow> []
      | Some curve \<Rightarrow>
          let cost = marginal_input_cost g c flash_premium_ppm in
          case swap_optimal_input curve cost of
            None \<Rightarrow> []
          | Some optimal \<Rightarrow>
              let target = f_clamp optimal (f64_of_word min_amount) (f64_of_word max_amount);
                  expected_profit = f_sub (swap_output curve target) (f_mul cost target)
              in if \<not> is_finite expected_profit \<or> f_le expected_profit f_zero then []
                 else
                   let push = push_amount min_amount max_amount;
                       width = f_max (f_sqrt target) f_one;
                       points = map (f_mul target) sizer_multipliers @
                         [f_sub target width, f_add target width, f64_of_word min_amount, f64_of_word max_amount]
                   in remdups_adj (sort (fold push points [])))"

section \<open>Waterfill over V2 pools\<close>

record v2_allocation_leg =
  al_numerator :: f64
  al_denominator_const :: f64
  al_denominator_slope :: f64
  al_capacity :: "u128 option"

definition leg_from_state :: "v2_pool_state \<Rightarrow> address list \<Rightarrow> address \<Rightarrow> address \<Rightarrow> v2_allocation_leg option" where
  "leg_from_state state tokens token_in token_out =
     Option.bind (v2_orientation tokens token_in token_out) (\<lambda>zero_for_one.
       let (reserve_in, reserve_out) = v2_reserves state zero_for_one
       in if reserve_in = 0 \<or> reserve_out = 0 \<or> 1000000 \<le> unat (v2_fee_ppm state) then None
          else
            let fee_factor = f_sub ppm_f64 (f64_of_word (v2_fee_ppm state))
            in Some \<lparr>al_numerator = f_mul fee_factor (f64_of_word reserve_out),
                 al_denominator_const = f_mul (f64_of_word reserve_in) ppm_f64,
                 al_denominator_slope = fee_factor, al_capacity = None\<rparr>)"

definition marginal_at :: "libm \<Rightarrow> v2_allocation_leg \<Rightarrow> f64 \<Rightarrow> f64" where
  "marginal_at lm leg amount =
     f_div (f_mul (al_numerator leg) (al_denominator_const leg))
       (m_powi lm (f_add (al_denominator_const leg) (f_mul (al_denominator_slope leg) amount)) 2)"

text \<open>\<open>f64::MAX\<close>.\<close>

abbreviation f64_largest :: f64 where "f64_largest \<equiv> F_Fin False ((2 ^ 53 - 1) * 2 ^ 971)"

definition allocation_at_marginal :: "libm \<Rightarrow> v2_allocation_leg \<Rightarrow> f64 \<Rightarrow> f64" where
  "allocation_at_marginal lm leg marginal =
     (if f_le marginal f_zero then unwrap_or (map_option f64_of_word (al_capacity leg)) f64_largest
      else if f_le (marginal_at lm leg f_zero) marginal then f_zero
      else
        let amount = f_div (f_sub (f_sqrt (f_div (f_mul (al_numerator leg) (al_denominator_const leg)) marginal))
              (al_denominator_const leg)) (al_denominator_slope leg);
            amount' = f_max amount f_zero
        in case al_capacity leg of Some capacity \<Rightarrow> f_min amount' (f64_of_word capacity) | None \<Rightarrow> amount')"

definition capacity_remaining :: "v2_allocation_leg \<Rightarrow> u128 \<Rightarrow> u128" where
  "capacity_remaining leg allocated =
     unwrap_or (map_option (\<lambda>capacity. sat_sub capacity allocated) (al_capacity leg)) (- 1)"

text \<open>\<open>partial_cmp\<close> with \<open>unwrap_or(Equal)\<close>.\<close>

definition f_cmp_or_equal :: "f64 \<Rightarrow> f64 \<Rightarrow> ordering" where
  "f_cmp_or_equal a b = (if f_lt a b then Less else if f_lt b a then Greater else Equal)"

text \<open>The two loops of the rebalancing: along an order of the indices, take the excess away or hand the
  remainder out.\<close>

fun take_excess :: "nat list \<Rightarrow> u128 \<Rightarrow> u128 list \<Rightarrow> u128 list" where
  "take_excess [] excess as = as"
| "take_excess (i # is) excess as =
     (if excess = 0 then as
      else let removed = min (as ! i) excess in take_excess is (excess - removed) (as[i := as ! i - removed]))"

fun give_rest :: "v2_allocation_leg list \<Rightarrow> nat list \<Rightarrow> u128 \<Rightarrow> u128 list \<Rightarrow> u128 list" where
  "give_rest legs [] remaining as = as"
| "give_rest legs (i # is) remaining as =
     (if remaining = 0 then as
      else let added = min (capacity_remaining (legs ! i) (as ! i)) remaining
           in give_rest legs is (remaining - added) (as[i := sat_add (as ! i) added]))"

text \<open>\<open>iter().sum::<u128>()\<close> wraps in a release build.\<close>

definition marginal_of :: "libm \<Rightarrow> v2_allocation_leg list \<Rightarrow> u128 list \<Rightarrow> nat \<Rightarrow> f64" where
  "marginal_of lm legs as i = marginal_at lm (legs ! i) (f64_of_word (as ! i))"

definition shrink_to_total :: "libm \<Rightarrow> v2_allocation_leg list \<Rightarrow> u128 \<Rightarrow> u128 list \<Rightarrow> u128 list" where
  "shrink_to_total lm legs total_in as =
     (if total_in < sum_list as
      then take_excess (sort_by (\<lambda>a b. f_cmp_or_equal (marginal_of lm legs as a) (marginal_of lm legs as b)) [0..<length as])
             (sum_list as - total_in) as
      else as)"

definition grow_to_total :: "libm \<Rightarrow> v2_allocation_leg list \<Rightarrow> u128 \<Rightarrow> u128 list \<Rightarrow> u128 list" where
  "grow_to_total lm legs total_in as =
     (if sum_list as < total_in
      then give_rest legs (sort_by (\<lambda>a b. f_cmp_or_equal (marginal_of lm legs as b) (marginal_of lm legs as a)) [0..<length as])
             (total_in - sum_list as) as
      else as)"

definition rebalance_to_total :: "libm \<Rightarrow> v2_allocation_leg list \<Rightarrow> u128 list \<Rightarrow> u128 \<Rightarrow> u128 list option" where
  "rebalance_to_total lm legs as total_in =
     (let as' = grow_to_total lm legs total_in (shrink_to_total lm legs total_in as)
      in if sum_list as' = total_in then Some as' else None)"

fun bisect_marginal :: "libm \<Rightarrow> v2_allocation_leg list \<Rightarrow> u128 \<Rightarrow> nat \<Rightarrow> f64 \<Rightarrow> f64 \<Rightarrow> f64" where
  "bisect_marginal lm legs total_in 0 low high = high"
| "bisect_marginal lm legs total_in (Suc n) low high =
     (let mid = f_div (f_add low high) (f_lit 2);
          total = foldl f_add f_zero (map (\<lambda>leg. allocation_at_marginal lm leg mid) legs)
      in if f_lt (f64_of_word total_in) total then bisect_marginal lm legs total_in n mid high
         else bisect_marginal lm legs total_in n low mid)"

text \<open>The capacities' sum, if every leg has one.\<close>

definition finite_capacity_sum :: "v2_allocation_leg list \<Rightarrow> u128 option" where
  "finite_capacity_sum legs =
     foldl (\<lambda>acc leg. Option.bind acc (\<lambda>a. map_option (sat_add a) (al_capacity leg))) (Some 0) legs"

definition first_allocations :: "libm \<Rightarrow> v2_allocation_leg list \<Rightarrow> f64 \<Rightarrow> u128 list" where
  "first_allocations lm legs high =
     map (\<lambda>leg. min (f64_to_u128 (f_round (allocation_at_marginal lm leg high))) (unwrap_or (al_capacity leg) (- 1))) legs"

definition solve_allocations :: "libm \<Rightarrow> v2_allocation_leg list \<Rightarrow> u128 \<Rightarrow> u128 list option" where
  "solve_allocations lm legs total_in =
     (case legs of
        [] \<Rightarrow> None
      | [leg] \<Rightarrow> if unwrap_or (map_option (\<lambda>capacity. capacity < total_in) (al_capacity leg)) False then None
                 else Some [total_in]
      | _ \<Rightarrow>
          if unwrap_or (map_option (\<lambda>capacity. capacity < total_in) (finite_capacity_sum legs)) False then None
          else
            let high = foldl f_max f_zero (map (\<lambda>leg. marginal_at lm leg f_zero) legs)
            in if \<not> is_finite high \<or> f_le high f_zero then None
               else Option.bind (rebalance_to_total lm legs (first_allocations lm legs (bisect_marginal lm legs total_in 80 f_zero high)) total_in)
                 (\<lambda>as. if list_ex (\<lambda>a. 0 < a) as then Some as else None))"

definition leg_of_edge :: "graph_snapshot \<Rightarrow> address \<Rightarrow> address \<Rightarrow> edge_ref \<Rightarrow> v2_allocation_leg option" where
  "leg_of_edge g token_in token_out r =
     Option.bind (edge_of g r) (\<lambda>edge.
     Option.bind (pool_of g (e_pool_id edge)) (\<lambda>pool.
       case ps_state pool of
         S_UniswapV2Like state \<Rightarrow>
           map_option (\<lambda>leg. leg\<lparr>al_capacity := (if 0 < e_capacity edge then Some (e_capacity edge) else None)\<rparr>)
             (leg_from_state state (ps_token_addresses pool) token_in token_out)
       | _ \<Rightarrow> None))"

fun all_some :: "'a option list \<Rightarrow> 'a list option" where
  "all_some [] = Some []"
| "all_some (x # xs) = Option.bind x (\<lambda>y. map_option ((#) y) (all_some xs))"

definition optimal_v2_allocations ::
  "libm \<Rightarrow> graph_snapshot \<Rightarrow> edge_ref list \<Rightarrow> address \<Rightarrow> address \<Rightarrow> u128 \<Rightarrow> u128 list option" where
  "optimal_v2_allocations lm g edge_refs token_in token_out total_in =
     (if total_in = 0 \<or> edge_refs = [] then None
      else Option.bind (all_some (map (leg_of_edge g token_in token_out) edge_refs))
        (\<lambda>legs. solve_allocations lm legs total_in))"

section \<open>The waterfill keeps its promises\<close>

definition within_capacity :: "v2_allocation_leg list \<Rightarrow> u128 list \<Rightarrow> bool" where
  "within_capacity legs as \<longleftrightarrow> length as = length legs \<and>
     (\<forall>i<length legs. \<forall>c. al_capacity (legs ! i) = Some c \<longrightarrow> as ! i \<le> c)"

lemma take_excess_length [simp]: "length (take_excess is e as) = length as"
  by (induction "is" e as rule: take_excess.induct) (auto simp: Let_def)

lemma take_excess_le: "i < length as \<Longrightarrow> take_excess is e as ! i \<le> as ! i"
proof (induction "is" e as rule: take_excess.induct)
  case (2 j "is" e as)
  show ?case
  proof (cases "e = 0")
    case False
    let ?removed = "min (as ! j) e"
    have "take_excess is (e - ?removed) (as[j := as ! j - ?removed]) ! i \<le> as[j := as ! j - ?removed] ! i"
      using 2 False by simp
    also have "\<dots> \<le> as ! i"
      using 2(2) word_sub_le [of ?removed "as ! j"] by (cases "i = j") auto
    finally show ?thesis using False by (simp add: Let_def)
  qed simp
qed simp

lemma give_rest_length [simp]: "length (give_rest legs is r as) = length as"
  by (induction legs "is" r as rule: give_rest.induct) (auto simp: Let_def)

lemma give_rest_within: "within_capacity legs as \<Longrightarrow> within_capacity legs (give_rest legs is r as)"
proof (induction legs "is" r as rule: give_rest.induct)
  case (2 legs j "is" r as)
  show ?case
  proof (cases "r = 0")
    case False
    let ?added = "min (capacity_remaining (legs ! j) (as ! j)) r"
    have "sat_add (as ! j) ?added \<le> c" if "al_capacity (legs ! j) = Some c" "as ! j \<le> c" for c
      using that by (simp add: capacity_remaining_def word_nat)
    then have "within_capacity legs (as[j := sat_add (as ! j) ?added])"
      using 2(2) unfolding within_capacity_def by (metis length_list_update nth_list_update_eq nth_list_update_neq)
    with 2(1) False show ?thesis by (simp add: Let_def)
  qed (use 2 in simp)
qed simp

lemma rebalance_sound:
  assumes "rebalance_to_total lm legs as total_in = Some as'" and "within_capacity legs as"
  shows "within_capacity legs as' \<and> sum_list as' = total_in"
proof -
  have t: "within_capacity legs (take_excess is e as)" for "is" e
    using assms(2) take_excess_le [of _ as "is" e] unfolding within_capacity_def by (auto intro: order_trans)
  have "within_capacity legs (grow_to_total lm legs total_in (shrink_to_total lm legs total_in as))"
    using assms(2) t by (auto simp: grow_to_total_def shrink_to_total_def intro: give_rest_within)
  with assms(1) show ?thesis by (auto simp: rebalance_to_total_def Let_def split: if_splits)
qed

lemma first_allocations_within: "within_capacity legs (first_allocations lm legs high)"
  by (auto simp: within_capacity_def first_allocations_def)

text \<open>C31: what the closed-form split promises. If the solver returns allocations there is one for each
  pool, they add up to the amount to be traded (in the 128-bit arithmetic of the sum), and none is
  above the capacity of its pool; this does not depend on the floating-point estimates, nor on the
  order the comparators make of them.\<close>

theorem solve_allocations_sound:
  assumes "solve_allocations lm legs total_in = Some as"
  shows "length as = length legs \<and> sum_list as = total_in \<and>
    (\<forall>i<length legs. \<forall>c. al_capacity (legs ! i) = Some c \<longrightarrow> as ! i \<le> c)"
proof (cases "\<exists>leg. legs = [leg]")
  case True
  with assms show ?thesis by (auto simp: solve_allocations_def not_less split: if_splits option.splits)
next
  case False
  with assms obtain high where "rebalance_to_total lm legs (first_allocations lm legs high) total_in = Some as"
    by (auto simp: solve_allocations_def Let_def bind_eq_Some_conv split: list.splits if_splits)
  from rebalance_sound [OF this first_allocations_within] show ?thesis by (auto simp: within_capacity_def)
qed

text \<open>One pool whose capacity suffices.\<close>

lemma solve_allocations_sound_witness:
  "\<forall>lm. \<exists>as. solve_allocations lm [\<lparr>al_numerator = f_one, al_denominator_const = f_one, al_denominator_slope = f_one, al_capacity = Some 9\<rparr>] 7 = Some as \<and>
     sum_list as = 7 \<and> as ! 0 \<le> 9"
proof
  fix lm
  let ?legs = "[\<lparr>al_numerator = f_one, al_denominator_const = f_one, al_denominator_slope = f_one, al_capacity = Some 9\<rparr>]"
  have s: "solve_allocations lm ?legs 7 = Some [7]" by (simp add: solve_allocations_def)
  from solve_allocations_sound [OF this] s
  show "\<exists>as. solve_allocations lm ?legs 7 = Some as \<and> sum_list as = 7 \<and> as ! 0 \<le> 9" by simp
qed

section \<open>The ladder and the refinement points\<close>

lemma unat_sat_double: "unat (sat_mul current 2 :: u128) = min (unat current * 2) (2 ^ 128 - 1)"
  by (simp add: word_nat)

lemma ladder_from_mem:
  assumes "max_raw \<noteq> - 1" and "0 < current"
  shows "x \<in> set (ladder_from current max_raw) \<longleftrightarrow> x \<le> max_raw \<and> (\<exists>k. unat x = unat current * 2 ^ k)"
  using assms
proof (induction current max_raw arbitrary: x rule: ladder_from.induct)
  case (1 current max_raw)
  let ?next = "sat_mul current 2"
  have pos: "0 < unat current" using 1(3) by (simp add: unat_gt_0)
  have m: "unat max_raw < 2 ^ 128 - 1"
    using 1(2) unat_le_max [of max_raw] unat_max_word [where 'a = 128] by (auto simp: word_unat_eq_iff)
  show ?case
  proof (cases "current \<le> max_raw")
    case False
    have "\<not> (x \<le> max_raw \<and> unat x = unat current * 2 ^ k)" for k
    proof
      assume a: "x \<le> max_raw \<and> unat x = unat current * 2 ^ k"
      have "unat current * 1 \<le> unat current * 2 ^ k" by (rule mult_le_mono2) simp
      with a False show False by (auto simp: word_le_nat_alt)
    qed
    with False show ?thesis by (simp add: ladder_from.simps [of current])
  next
    case True
    then have c: "unat current < 2 ^ 128 - 1" using m by (simp add: word_le_nat_alt)
    then have neq: "?next \<noteq> current" using pos unat_sat_double [of current] by (auto simp: word_unat_eq_iff)
    have set: "set (ladder_from current max_raw) = insert current (set (ladder_from ?next max_raw))"
      using True neq by (simp add: ladder_from.simps [of current] Let_def)
    have split: "(\<exists>k. unat x = unat current * 2 ^ k) \<longleftrightarrow> x = current \<or> (\<exists>k. unat x = unat current * 2 * 2 ^ k)" for x
    proof
      assume "\<exists>k. unat x = unat current * 2 ^ k"
      then obtain k where k: "unat x = unat current * 2 ^ k" by blast
      then show "x = current \<or> (\<exists>k. unat x = unat current * 2 * 2 ^ k)"
        by (cases k) (auto simp: word_unat_eq_iff)
    next
      assume "x = current \<or> (\<exists>k. unat x = unat current * 2 * 2 ^ k)"
      then show "\<exists>k. unat x = unat current * 2 ^ k"
      proof (elim disjE exE)
        assume "x = current"
        then show ?thesis by (intro exI [of _ 0]) simp
      next
        fix k assume "unat x = unat current * 2 * 2 ^ k"
        then show ?thesis by (intro exI [of _ "Suc k"]) simp
      qed
    qed
    show ?thesis
    proof (cases "unat current * 2 < 2 ^ 128")
      case fits: True
      then have n: "unat ?next = unat current * 2" unfolding unat_sat_double by simp
      then have "0 < ?next" using pos by (simp add: word_less_nat_alt)
      with 1(1) [OF True refl neq] 1(2) show ?thesis unfolding set split n [symmetric] using True by auto
    next
      case over: False
      then have "unat ?next = 2 ^ 128 - 1" unfolding unat_sat_double by simp
      then have "\<not> ?next \<le> max_raw" using m by (simp add: word_le_nat_alt)
      then have "ladder_from ?next max_raw = []" by (simp add: ladder_from.simps [of ?next])
      moreover have "unat x \<noteq> unat current * 2 * 2 ^ k" for k
      proof
        assume e: "unat x = unat current * 2 * 2 ^ k"
        have "unat current * 2 * 1 \<le> unat current * 2 * 2 ^ k" by (rule mult_le_mono2) simp
        with e over unat_lt_size [of x] show False by simp
      qed
      ultimately show ?thesis unfolding set split using True by auto
    qed
  qed
qed

lemma ladder_from_sorted: "0 < current \<Longrightarrow> max_raw \<noteq> - 1 \<Longrightarrow> sorted_wrt (<) (ladder_from current max_raw)"
proof (induction current max_raw rule: ladder_from.induct)
  case (1 current max_raw)
  let ?next = "sat_mul current 2"
  show ?case
  proof (cases "current \<le> max_raw \<and> ?next \<noteq> current")
    case True
    then have "unat ?next \<noteq> unat current" by (simp add: word_unat_eq_iff)
    moreover have "unat current \<le> unat ?next" unfolding unat_sat_double using unat_le_max [of current] by simp
    ultimately have gt: "unat current < unat ?next" by linarith
    then have pos: "0 < ?next" by (simp add: word_less_nat_alt)
    have "current < y" if "y \<in> set (ladder_from ?next max_raw)" for y
    proof -
      from that obtain k where k: "unat y = unat ?next * 2 ^ k" unfolding ladder_from_mem [OF 1(3) pos] by blast
      have "unat ?next * 1 \<le> unat ?next * 2 ^ k" by (rule mult_le_mono2) simp
      with k gt have "unat current < unat y" by linarith
      then show ?thesis by (simp add: word_less_nat_alt)
    qed
    with True 1 pos show ?thesis by (simp add: ladder_from.simps [of current] Let_def)
  next
    case False
    then show ?thesis by (auto simp: ladder_from.simps [of current] Let_def)
  qed
qed

text \<open>the ladder of trade sizes. For every range that the searcher returns with an upper end below the
  largest \<open>u128\<close>, the ladder is the strictly increasing list of exactly the doublings of the smallest
  trade that do not exceed the upper end; it is never empty.\<close>

theorem ladder_exact:
  assumes "search_range s g c = Some (unit, max_raw)" and "max_raw \<noteq> - 1"
  shows "0 < unit \<and> unit \<le> max_raw \<and> sorted_wrt (<) (ladder s g c) \<and>
    set (ladder s g c) = {x. x \<le> max_raw \<and> (\<exists>k. unat x = unat unit * 2 ^ k)}"
proof -
  have u: "1 \<le> unit" "unit \<le> max_raw"
    using assms(1) by (auto simp: search_range_def Let_def bind_eq_Some_conv split: if_splits)
  then have pos: "0 < unit" by (simp add: word_le_nat_alt word_less_nat_alt)
  have "ladder s g c = ladder_from unit max_raw" using assms(1) by (simp add: ladder_def)
  with pos u ladder_from_sorted [OF pos assms(2)] ladder_from_mem [OF assms(2) pos] show ?thesis by auto
qed

lemma sorted_remdups_adj_strict: "sorted xs \<Longrightarrow> sorted_wrt (<) (remdups_adj (xs :: 'a::linorder list))"
proof (induction xs rule: remdups_adj.induct)
  case (3 x y xs)
  show ?case
  proof (cases "x = y")
    case False
    with 3(3) have "x < z" if "z \<in> set (y # xs)" for z using that by (auto simp: order_le_less)
    with False 3 show ?thesis by (auto simp del: remdups_adj.simps(3) simp: remdups_adj.simps(3) [of x y xs])
  qed (use 3 in simp)
qed auto

text \<open>the points around a good amount: strictly increasing, positive, within the largest position, and
  the amount itself is among them.\<close>

theorem refinement_points_ok:
  "sorted_wrt (<) (refinement_points center max_raw) \<and>
   (\<forall>a\<in>set (refinement_points center max_raw). 0 < a \<and> a \<le> max_raw) \<and>
   (0 < center \<and> center \<le> max_raw \<longrightarrow> center \<in> set (refinement_points center max_raw)) \<and>
   length (refinement_points center max_raw) \<le> 8"
proof -
  have "length (refinement_points center max_raw) \<le> 8"
    unfolding refinement_points_def
    by (rule order_trans [OF remdups_adj_length], simp only: length_sort, rule order_trans [OF length_filter_le]) simp
  then show ?thesis
    unfolding refinement_points_def by (simp add: sorted_remdups_adj_strict)
qed

lemma refinement_points_ok_witness:
  "(8 :: u128) \<in> set (refinement_points 8 100) \<and> set (refinement_points 8 100) \<subseteq> {..100}"
  using refinement_points_ok [of 8 100] by (simp add: subset_iff)

definition demo_candidate :: "candidate_hop list \<Rightarrow> candidate_path" where
  "demo_candidate path = \<lparr>cp_snapshot_id = 1, cp_start_token = 1, cp_start_symbol = ''T'', cp_screening_score_q32 = 0,
     cp_route_capacity_usd_e8 = 0, cp_route_quality_bps = 10000, cp_cycle_key = [], cp_path = path\<rparr>"

definition with_max_position :: "u128 \<Rightarrow> settings \<Rightarrow> settings" where
  "with_max_position m s = s\<lparr>st_risk := (st_risk s)\<lparr>rk_max_position := m\<rparr>\<rparr>"

lemma demo_range:
  "search_range (with_max_position 50000000000000000 s) (graph_build env lm 1 None [demo_token 1] []) (demo_candidate []) =
     Some (10000000000000000, 50000000000000000)"
proof -
  have p: "t_manual_price_usd_e8 (demo_token 1) = None" "unat (t_decimals (demo_token 1)) = 18" by (simp_all add: demo_token_def)
  have i: "token_index (graph_build env lm 1 None [demo_token 1] []) 1 = Some 0"
    "gs_tokens (graph_build env lm 1 None [demo_token 1] []) = [demo_token 1]"
    by (simp_all add: token_index_def graph_build_def index_tokens_def Let_def demo_token_def)
  show ?thesis
    by (simp add: search_range_def demo_candidate_def i Let_def max_position_of_token_def usd_e8_to_amount_def p
        with_max_position_def route_start_capacity_raw_def)
qed

lemma ladder_exact_witness:
  "\<forall>s env lm. let l = ladder (with_max_position 50000000000000000 s) (graph_build env lm 1 None [demo_token 1] []) (demo_candidate [])
     in 40000000000000000 \<in> set l \<and> sorted_wrt (<) l"
proof (intro allI)
  fix s env lm
  have "(50000000000000000 :: u128) \<noteq> - 1" by simp
  note facts = ladder_exact [OF demo_range this, of s env lm]
  have "unat (40000000000000000 :: u128) = unat (10000000000000000 :: u128) * 2 ^ 2" by simp
  then have "\<exists>k. unat (40000000000000000 :: u128) = unat (10000000000000000 :: u128) * 2 ^ k" by blast
  then have "(40000000000000000 :: u128) \<in> {x. x \<le> 50000000000000000 \<and> (\<exists>k. unat x = unat (10000000000000000 :: u128) * 2 ^ k)}" by simp
  with facts show "let l = ladder (with_max_position 50000000000000000 s) (graph_build env lm 1 None [demo_token 1] []) (demo_candidate [])
     in 40000000000000000 \<in> set l \<and> sorted_wrt (<) l" unfolding Let_def by blast
qed

section \<open>Price limits\<close>

text \<open>the price limit of a V3 swap lies on the side the swap moves the price to, and within the
  bounds of the pool contract: selling the first token it is at most the current price (or the
  lower bound), selling the second at least the current price (or the upper bound).\<close>

theorem sqrt_price_limit_side:
  assumes "unat current < 2 ^ 160"
  shows "min_sqrt_ratio_plus_one \<le> sqrt_price_limit_x96 env current True \<and>
    sqrt_price_limit_x96 env current True \<le> max current min_sqrt_ratio_plus_one \<and>
    sqrt_price_limit_x96 env current False \<le> max_sqrt_ratio_minus_one \<and>
    min current max_sqrt_ratio_minus_one \<le> sqrt_price_limit_x96 env current False"
proof -
  let ?bps = "sqrt_limit_bps env"
  have bps: "unat ?bps < 10000"
    by (cases "Option.bind (env ''V3_SQRT_PRICE_LIMIT_BPS'') parse_word :: u128 option")
      (auto simp: sqrt_limit_bps_def unwrap_or_def filter_opt_def word_less_nat_alt split: if_splits)
  have low: "unat (sat_mul current (u256_of (sat_sub 10000 ?bps)) div 10000) \<le> unat current"
  proof -
    have "unat (sat_mul current (u256_of (sat_sub 10000 ?bps)) div 10000) \<le> unat current * (10000 - unat ?bps) div 10000"
      by (simp add: word_nat div_le_mono)
    also have "\<dots> \<le> unat current * 10000 div 10000" by (intro div_le_mono mult_le_mono2) simp
    finally show ?thesis by simp
  qed
  have high: "unat current \<le> unat (sat_mul current (u256_of (sat_add 10000 ?bps)) div 10000)"
  proof -
    have n: "unat (u256_of (sat_add 10000 ?bps)) = 10000 + unat ?bps" using bps by (simp add: word_nat)
    have "unat current * (10000 + unat ?bps) \<le> 2 ^ 160 * 20000"
      using assms bps by (intro mult_mono) auto
    then have "unat (sat_mul current (u256_of (sat_add 10000 ?bps))) = unat current * (10000 + unat ?bps)"
      by (simp add: unat_sat_mul n)
    then have "unat (sat_mul current (u256_of (sat_add 10000 ?bps)) div 10000) = unat current * (10000 + unat ?bps) div 10000"
      by (simp add: unat_div_distrib)
    moreover have "unat current * 10000 div 10000 \<le> unat current * (10000 + unat ?bps) div 10000"
      by (intro div_le_mono mult_le_mono2) simp
    ultimately show ?thesis by simp
  qed
  have mm: "min_sqrt_ratio_plus_one \<le> max_sqrt_ratio_minus_one" by (simp add: min_sqrt_ratio_plus_one_def max_sqrt_ratio_minus_one_def)
  show ?thesis using low high mm
    by (auto simp: sqrt_price_limit_x96_def Let_def word_le_nat_alt [symmetric] intro: order_trans max.coboundedI1 min.coboundedI1)
qed

lemma sqrt_price_limit_side_witness:
  "sqrt_price_limit_x96 (\<lambda>_. None) 1000000000000 True \<le> 1000000000000 \<and> 1000000000000 \<le> sqrt_price_limit_x96 (\<lambda>_. None) 1000000000000 False"
  using sqrt_price_limit_side [of 1000000000000 "\<lambda>_. None"]
  by (simp add: min_sqrt_ratio_plus_one_def max_sqrt_ratio_minus_one_def min_def max_def split: if_splits)

section \<open>The fast sizer can leave the range\<close>

text \<open>The clamp of the fast sizer works on rounded bounds. A bound that is no double is rounded first, so
  that the sizer suggests an amount above the largest position.\<close>

theorem fast_sizer_exceeds_range:
  "push_amount 1 18446744073709551615 (f_lit (2 ^ 70)) [] = [18446744073709551616]"
proof -
  have "f_round (F_Fin False (2 ^ 70)) = F_Fin False (2 ^ 70)" by (simp add: f64_eval)
  moreover have "f64_to_u128 (F_Fin False 18446744073709551616) = 18446744073709551616"
    unfolding f64_to_u128_def f64_points by (simp add: f_le_def)
  ultimately show ?thesis unfolding push_amount_def f64_points by (simp add: f_le_def f_clamp_def)
qed

end
