(* ===== verification/Splits.thy ===== *)
theory Splits
  imports Sizing
begin

text \<open>
  \<open>src/router/split_optimizer.rs\<close>: how one hop is divided among the pools of its pair. A pool's exact
  quote is an argument (theory Quoter models it); it is asked for one pool after the other, which is
  the order of the source's stream at its default concurrency of 1.
\<close>

type_synonym 'e quoter = "pool_state \<Rightarrow> address \<Rightarrow> address \<Rightarrow> u128 \<Rightarrow> 'e + u128"

record split_optimizer =
  so_max_parallel_pools :: nat
  so_pair_edge_scan_limit :: nat
  so_pair_quote_concurrency :: nat
  so_split_min_output_bps :: u128

text \<open>\<open>Ord::clamp\<close> panics when its bounds are the wrong way round: no value. Sizes saturate at
  \<open>usize::MAX\<close>, which no clamp to 32 shows.\<close>

definition clamp_nat :: "nat \<Rightarrow> nat \<Rightarrow> nat \<Rightarrow> nat option" where
  "clamp_nat v lo hi = (if hi < lo then None else Some (max lo (min hi v)))"

definition split_optimizer_new :: "env \<Rightarrow> settings \<Rightarrow> split_optimizer option" where
  "split_optimizer_new env s =
     (let max_parallel_pools = max (se_max_split_parallel_pools (st_search s)) 1 in
      map_option (\<lambda>scan_default.
        \<lparr>so_max_parallel_pools = max_parallel_pools,
         so_pair_edge_scan_limit = max (env_usize env ''ROUTE_PAIR_EDGE_SCAN_LIMIT'' scan_default) max_parallel_pools,
         so_pair_quote_concurrency = max 1 (min 32 (env_usize env ''ROUTE_PAIR_QUOTE_CONCURRENCY'' 1)),
         so_split_min_output_bps = word_of_nat (max 1 (min 10000 (env_usize env ''SPLIT_MIN_OUTPUT_BPS'' 9950)))\<rparr>)
        (clamp_nat (max_parallel_pools * 4) max_parallel_pools 32))"

definition should_split :: "nat \<Rightarrow> u128 \<Rightarrow> u128 \<Rightarrow> bool" where
  "should_split parallel_pool_count total_input min_slice \<longleftrightarrow>
     1 < parallel_pool_count \<and> sat_mul min_slice 2 \<le> total_input"

section \<open>Ranking the edges of a pair\<close>

text \<open>A dangling reference comes last; the snapshot's own references are never dangling.\<close>

definition cmp_opt :: "('a \<Rightarrow> 'a \<Rightarrow> ordering) \<Rightarrow> 'a option \<Rightarrow> 'a option \<Rightarrow> ordering" where
  "cmp_opt c a b = (case (a, b) of (Some x, Some y) \<Rightarrow> c x y | (Some x, None) \<Rightarrow> Less | (None, Some y) \<Rightarrow> Greater
     | (None, None) \<Rightarrow> Equal)"

definition compare_edge_refs_for_price :: "graph_snapshot \<Rightarrow> edge_ref \<Rightarrow> edge_ref \<Rightarrow> ordering" where
  "compare_edge_refs_for_price g a b = cmp_opt cmp_pair_edges (edge_of g a) (edge_of g b)"

definition cmp_capacity :: "u128 \<Rightarrow> edge \<Rightarrow> edge \<Rightarrow> ordering" where
  "cmp_capacity target_input a b =
     (let fits = (\<lambda>e. 0 < target_input \<and> target_input \<le> e_capacity e)
      in then_with (cmp (fits b) (fits a))
           (then_with (cmp (e_capacity b) (e_capacity a))
             (then_with (cmp (e_weight_log_q32 a) (e_weight_log_q32 b)) (cmp (e_pool_id a) (e_pool_id b)))))"

definition compare_edge_refs_for_capacity :: "graph_snapshot \<Rightarrow> u128 \<Rightarrow> edge_ref \<Rightarrow> edge_ref \<Rightarrow> ordering" where
  "compare_edge_refs_for_capacity g target_input a b = cmp_opt (cmp_capacity target_input) (edge_of g a) (edge_of g b)"

fun push_unique :: "nat \<Rightarrow> 'a list \<Rightarrow> 'a list \<Rightarrow> 'a list" where
  "push_unique max_edges [] out = out"
| "push_unique max_edges (r # refs) out =
     (if max_edges \<le> length out then out
      else push_unique max_edges refs (if r \<in> set out then out else out @ [r]))"

definition ranked_pair_edges :: "graph_snapshot \<Rightarrow> edge_ref list \<Rightarrow> nat \<Rightarrow> u128 \<Rightarrow> edge_ref list" where
  "ranked_pair_edges g edge_refs limit target_input =
     (let max_edges = max limit 1;
          by_price = sort_by (compare_edge_refs_for_price g) edge_refs;
          selected = push_unique max_edges (take ((max_edges + 1) div 2) by_price) [];
          by_capacity = sort_by (compare_edge_refs_for_capacity g target_input) edge_refs
      in sort_by (compare_edge_refs_for_price g) (push_unique max_edges by_capacity selected))"

section \<open>Split plans from allocations\<close>

definition min_split_output :: "u128 \<Rightarrow> u128 \<Rightarrow> u128" where
  "min_split_output bps expected = sat_mul expected bps div 10000"

definition position :: "'a \<Rightarrow> 'a list \<Rightarrow> nat option" where
  "position x xs = map_option fst (find (\<lambda>(i, y). y = x) (enumerate 0 xs))"

text \<open>The adapter's extra data; a Curve pool without one of the tokens is skipped.\<close>

definition split_extra_of :: "env \<Rightarrow> pool_state \<Rightarrow> address \<Rightarrow> address \<Rightarrow> split_extra option" where
  "split_extra_of env pool token_in token_out =
     (case ps_state pool of
        S_UniswapV2Like state \<Rightarrow> Some (X_V2 (v2_fee_ppm state))
      | S_AerodromeV2Like state \<Rightarrow> Some (X_AerodromeV2 (av2_stable state) (av2_fee_ppm state))
      | S_UniswapV3Like state \<Rightarrow>
          let zero_for_one = (nth_opt (ps_token_addresses pool) 0 = Some token_in)
          in Some (X_V3 zero_for_one (sqrt_price_limit_x96 env (v3_sqrt_price_x96 state) zero_for_one))
      | S_TraderJoeLb state \<Rightarrow> Some X_TraderJoeLb
      | S_CurvePlain state \<Rightarrow>
          Option.bind (position token_in (ps_token_addresses pool)) (\<lambda>i.
          Option.bind (position token_out (ps_token_addresses pool)) (\<lambda>j.
            Some (X_Curve (int i) (int j) (cv_supports_underlying state))))
      | S_BalancerWeighted state \<Rightarrow> Some (X_Balancer (bl_pool_id state)))"

definition split_min_out :: "split_optimizer \<Rightarrow> pool_state \<Rightarrow> u128 \<Rightarrow> u128" where
  "split_min_out so pool expected =
     (case ps_state pool of S_TraderJoeLb state \<Rightarrow> 0 | _ \<Rightarrow> min_split_output (so_split_min_output_bps so) expected)"

text \<open>One allocation: its plan, nothing when it is skipped, or the quoter's error. \<open>known\<close> is the quote
  the caller already has.\<close>

definition split_plan_of ::
  "env \<Rightarrow> split_optimizer \<Rightarrow> pool_state \<Rightarrow> address \<Rightarrow> address \<Rightarrow> u128 \<Rightarrow> u128 \<Rightarrow> split_plan option" where
  "split_plan_of env so pool token_in token_out allocation expected =
     (if expected = 0 then None
      else map_option (\<lambda>extra.
        \<lparr>sp_dex_name = ps_dex_name pool, sp_pool_id = ps_pool_id pool, sp_adapter_type = adapter_of_kind (ps_kind pool),
         sp_token_in = token_in, sp_token_out = token_out, sp_amount_in = allocation,
         sp_min_amount_out = split_min_out so pool expected, sp_expected_amount_out = expected, sp_extra = extra\<rparr>)
        (split_extra_of env pool token_in token_out))"

definition materialize_one ::
  "env \<Rightarrow> split_optimizer \<Rightarrow> graph_snapshot \<Rightarrow> 'e quoter \<Rightarrow> address \<Rightarrow> address \<Rightarrow> (edge_ref \<times> u128 \<times> u128 option) \<Rightarrow> 'e + split_plan option" where
  "materialize_one env so g quote token_in token_out job =
     (case job of (r, allocation, known) \<Rightarrow>
        if allocation = 0 then Inr None
        else case Option.bind (edge_of g r) (\<lambda>edge. pool_of g (e_pool_id edge)) of
          None \<Rightarrow> Inr None
        | Some pool \<Rightarrow>
            res_bind (case filter_opt (\<lambda>v. 0 < v) known of
                Some expected \<Rightarrow> Inr expected
              | None \<Rightarrow> quote pool token_in token_out allocation)
              (\<lambda>expected. Inr (split_plan_of env so pool token_in token_out allocation expected)))"

definition cmp_split_plans :: "split_plan \<Rightarrow> split_plan \<Rightarrow> ordering" where
  "cmp_split_plans a b =
     then_with (cmp (sp_expected_amount_out b) (sp_expected_amount_out a)) (cmp (sp_pool_id a) (sp_pool_id b))"

definition materialize ::
  "env \<Rightarrow> split_optimizer \<Rightarrow> graph_snapshot \<Rightarrow> 'e quoter \<Rightarrow> address \<Rightarrow> address \<Rightarrow> edge_ref list \<Rightarrow> u128 list \<Rightarrow> u128 list option \<Rightarrow>
   'e + split_plan list \<times> u128" where
  "materialize env so g quote token_in token_out refs allocations expected_outputs =
     res_bind (map_res (\<lambda>(idx, allocation). materialize_one env so g quote token_in token_out
         (refs ! idx, allocation, Option.bind expected_outputs (\<lambda>outs. nth_opt outs idx))) (enumerate 0 allocations))
       (\<lambda>made. let plans = List.map_filter (\<lambda>p. p) made
         in Inr (sort_by cmp_split_plans plans, foldl (\<lambda>acc p. sat_add acc (sp_expected_amount_out p)) 0 plans))"

section \<open>The single best pool\<close>

definition fits_capacity :: "edge \<Rightarrow> u128 \<Rightarrow> bool" where
  "fits_capacity e amount \<longleftrightarrow> \<not> (0 < e_capacity e \<and> e_capacity e < amount)"

definition quote_ref :: "graph_snapshot \<Rightarrow> 'e quoter \<Rightarrow> address \<Rightarrow> address \<Rightarrow> address \<Rightarrow> u128 \<Rightarrow> 'e + u128" where
  "quote_ref g quote token_in token_out pool_id amount =
     (case pool_of g pool_id of None \<Rightarrow> Inr 0 | Some pool \<Rightarrow> quote pool token_in token_out amount)"

fun best_quote :: "(edge_ref \<times> u128) list \<Rightarrow> (edge_ref \<times> u128) option \<Rightarrow> (edge_ref \<times> u128) option" where
  "best_quote [] best = best"
| "best_quote ((r, q) # qs) best =
     best_quote qs (if 0 < q \<and> unwrap_or (map_option (\<lambda>b. snd b < q) best) True then Some (r, q) else best)"

definition single_best ::
  "env \<Rightarrow> split_optimizer \<Rightarrow> graph_snapshot \<Rightarrow> 'e quoter \<Rightarrow> edge_ref list \<Rightarrow> address \<Rightarrow> address \<Rightarrow> u128 \<Rightarrow> 'e + split_plan list \<times> u128" where
  "single_best env so g quote refs token_in token_out total_in =
     (let jobs = List.map_filter (\<lambda>r. Option.bind (edge_of g r) (\<lambda>e.
            if fits_capacity e total_in then Some (r, e_pool_id e) else None)) refs
      in res_bind (map_res (\<lambda>(r, pool_id). map_sum (\<lambda>e. e) (Pair r) (quote_ref g quote token_in token_out pool_id total_in)) jobs)
        (\<lambda>quotes. case best_quote quotes None of
            None \<Rightarrow> Inr ([], 0)
          | Some (r, out) \<Rightarrow> materialize env so g quote token_in token_out [r] [total_in] (Some [out])))"

section \<open>The greedy split\<close>

record greedy_state =
  gr_allocations :: "u128 list"
  gr_outputs :: "u128 list"
  gr_assigned :: u128
  gr_active :: nat

definition min_slice_of :: "u128 \<Rightarrow> u128" where "min_slice_of total_in = max (total_in div 8) 1"

definition slice_jobs :: "split_optimizer \<Rightarrow> graph_snapshot \<Rightarrow> edge_ref list \<Rightarrow> u128 \<Rightarrow> greedy_state \<Rightarrow> (nat \<times> address \<times> u128) list" where
  "slice_jobs so g refs part st =
     List.map_filter (\<lambda>(idx, r).
       if gr_allocations st ! idx = 0 \<and> so_max_parallel_pools so \<le> gr_active st then None
       else Option.bind (edge_of g r) (\<lambda>edge.
         let amount = sat_add (gr_allocations st ! idx) part
         in if fits_capacity edge amount then Some (idx, e_pool_id edge, amount) else None))
       (enumerate 0 refs)"

definition rank_quotes :: "greedy_state \<Rightarrow> (nat \<times> u128) list \<Rightarrow> (nat \<times> u128 \<times> u128) list" where
  "rank_quotes st quotes =
     sort_by (\<lambda>a b. cmp (fst (snd b)) (fst (snd a)))
       (map (\<lambda>(idx, q). (idx, sat_sub q (gr_outputs st ! idx), q)) quotes)"

definition award :: "nat \<Rightarrow> u128 \<Rightarrow> u128 \<Rightarrow> greedy_state \<Rightarrow> greedy_state" where
  "award winner part total_quote st =
     \<lparr>gr_allocations = (gr_allocations st)[winner := sat_add (gr_allocations st ! winner) part],
      gr_outputs = (gr_outputs st)[winner := total_quote],
      gr_assigned = sat_add (gr_assigned st) part,
      gr_active = (if gr_allocations st ! winner = 0 then gr_active st + 1 else gr_active st)\<rparr>"

text \<open>One pass: the slice goes to the pool with the best marginal output. \<open>None\<close> ends the loop.\<close>

definition greedy_pass ::
  "split_optimizer \<Rightarrow> graph_snapshot \<Rightarrow> 'e quoter \<Rightarrow> edge_ref list \<Rightarrow> address \<Rightarrow> address \<Rightarrow> u128 \<Rightarrow> greedy_state \<Rightarrow> 'e + greedy_state option" where
  "greedy_pass so g quote refs token_in token_out total_in st =
     (let part = min (total_in - gr_assigned st) (min_slice_of total_in) in
      res_bind (map_res (\<lambda>(idx, pool_id, amount). map_sum (\<lambda>e. e) (Pair idx) (quote_ref g quote token_in token_out pool_id amount))
          (slice_jobs so g refs part st))
        (\<lambda>quotes. case rank_quotes st quotes of
            [] \<Rightarrow> Inr None
          | (winner, marginal, total_quote) # _ \<Rightarrow>
              if marginal = 0 then Inr None else Inr (Some (award winner part total_quote st))))"

lemma greedy_passE:
  assumes "greedy_pass so g quote refs token_in token_out total_in st = Inr (Some st')"
  obtains quotes winner marginal total_quote rest where
    "map_res (\<lambda>(idx, pool_id, amount). map_sum (\<lambda>e. e) (Pair idx) (quote_ref g quote token_in token_out pool_id amount))
       (slice_jobs so g refs (min (total_in - gr_assigned st) (min_slice_of total_in)) st) = Inr quotes"
    "rank_quotes st quotes = (winner, marginal, total_quote) # rest" "marginal \<noteq> 0"
    "st' = award winner (min (total_in - gr_assigned st) (min_slice_of total_in)) total_quote st"
proof -
  from assms obtain quotes where q: "map_res (\<lambda>(idx, pool_id, amount). map_sum (\<lambda>e. e) (Pair idx) (quote_ref g quote token_in token_out pool_id amount))
       (slice_jobs so g refs (min (total_in - gr_assigned st) (min_slice_of total_in)) st) = Inr quotes"
    by (auto simp: greedy_pass_def Let_def res_bind_Inr)
  with assms have r: "(case rank_quotes st quotes of [] \<Rightarrow> Inr None
      | (winner, marginal, total_quote) # _ \<Rightarrow>
          if marginal = 0 then Inr None
          else Inr (Some (award winner (min (total_in - gr_assigned st) (min_slice_of total_in)) total_quote st))) =
      (Inr (Some st') :: 'a + greedy_state option)" by (simp add: greedy_pass_def Let_def)
  then obtain x rest where x: "rank_quotes st quotes = x # rest" by (cases "rank_quotes st quotes") auto
  obtain winner marginal total_quote where "x = (winner, marginal, total_quote)" by (cases x)
  with that [OF q] x r show thesis by (auto split: if_splits)
qed

lemma greedy_pass_assigned:
  assumes "greedy_pass so g quote refs token_in token_out total_in st = Inr (Some st')" and "gr_assigned st < total_in"
  shows "gr_assigned st < gr_assigned st' \<and> gr_assigned st' \<le> total_in"
proof -
  let ?part = "min (total_in - gr_assigned st) (min_slice_of total_in)"
  have a: "gr_assigned st' = sat_add (gr_assigned st) ?part"
    using assms(1) by (elim greedy_passE) (simp add: award_def)
  have "0 < unat (min_slice_of total_in)" by (simp add: min_slice_of_def unat_max_of_words)
  moreover have "unat (total_in - gr_assigned st) = unat total_in - unat (gr_assigned st)"
    using assms(2) by (intro unat_sub) simp
  ultimately show ?thesis
    using assms(2) unat_le_max [of total_in] unfolding a by (auto simp: word_nat)
qed

function greedy_split ::
  "split_optimizer \<Rightarrow> graph_snapshot \<Rightarrow> 'e quoter \<Rightarrow> edge_ref list \<Rightarrow> address \<Rightarrow> address \<Rightarrow> u128 \<Rightarrow> greedy_state \<Rightarrow> 'e + greedy_state" where
  "greedy_split so g quote refs token_in token_out total_in st =
     (if gr_assigned st < total_in then
        (case greedy_pass so g quote refs token_in token_out total_in st of
           Inl e \<Rightarrow> Inl e
         | Inr None \<Rightarrow> Inr st
         | Inr (Some st') \<Rightarrow> greedy_split so g quote refs token_in token_out total_in st')
      else Inr st)"
  by pat_completeness auto
termination
proof (relation "measure (\<lambda>(so, g, quote, refs, token_in, token_out, total_in, st). unat total_in - unat (gr_assigned st))")
  fix so g and quote :: "'e quoter" and refs token_in token_out and total_in :: u128 and st o' st'
  assume "gr_assigned st < total_in" and "greedy_pass so g quote refs token_in token_out total_in st = Inr o'" and "o' = Some st'"
  then show "((so, g, quote, refs, token_in, token_out, total_in, st'), so, g, quote, refs, token_in, token_out, total_in, st)
      \<in> measure (\<lambda>(so, g, quote, refs, token_in, token_out, total_in, st). unat total_in - unat (gr_assigned st))"
    using greedy_pass_assigned by (fastforce simp: word_less_nat_alt)
qed auto

declare greedy_split.simps [simp del]

definition greedy_start :: "edge_ref list \<Rightarrow> greedy_state" where
  "greedy_start refs = \<lparr>gr_allocations = replicate (length refs) 0, gr_outputs = replicate (length refs) 0,
     gr_assigned = 0, gr_active = 0\<rparr>"

section \<open>One pair\<close>

definition optimize_pair ::
  "env \<Rightarrow> libm \<Rightarrow> split_optimizer \<Rightarrow> graph_snapshot \<Rightarrow> 'e quoter \<Rightarrow> address \<Rightarrow> address \<Rightarrow> u128 \<Rightarrow> 'e + split_plan list \<times> u128" where
  "optimize_pair env lm so g quote token_in token_out total_in =
     (let refs = ranked_pair_edges g (pair_edges g token_in token_out) (so_pair_edge_scan_limit so) total_in in
      if refs = [] then Inr ([], 0)
      else if \<not> should_split (length refs) total_in (min_slice_of total_in)
        then single_best env so g quote refs token_in token_out total_in
      else
        let v2_refs = take (so_max_parallel_pools so) refs in
        res_bind (case optimal_v2_allocations lm g v2_refs token_in token_out total_in of
              None \<Rightarrow> Inr ([], 0)
            | Some allocations \<Rightarrow> materialize env so g quote token_in token_out v2_refs allocations None)
          (\<lambda>closed. if fst closed \<noteq> [] then Inr closed
             else res_bind (greedy_split so g quote refs token_in token_out total_in (greedy_start refs))
               (\<lambda>st. materialize env so g quote token_in token_out refs (gr_allocations st) (Some (gr_outputs st)))))"

definition quote_split :: "graph_snapshot \<Rightarrow> 'e quoter \<Rightarrow> split_plan \<Rightarrow> 'e + u128" where
  "quote_split g quote p = quote_ref g quote (sp_token_in p) (sp_token_out p) (sp_pool_id p) (sp_amount_in p)"

section \<open>The greedy split keeps the books\<close>

definition shares_of :: "u128 list \<Rightarrow> nat" where "shares_of as = sum_list (map unat as)"

definition used :: "u128 list \<Rightarrow> nat" where "used as = length (filter (\<lambda>a. a \<noteq> 0) as)"

lemma shares_update: "i < length as \<Longrightarrow> shares_of (as[i := v]) + unat (as ! i) = shares_of as + unat v"
proof (induction as arbitrary: i)
  case (Cons a as)
  then show ?case by (cases i) (auto simp: shares_of_def)
qed simp

lemma share_le: "i < length as \<Longrightarrow> unat (as ! i) \<le> shares_of as"
proof (induction as arbitrary: i)
  case (Cons a as)
  then show ?case by (cases i) (auto simp: shares_of_def trans_le_add2)
qed simp

lemma used_update: "i < length as \<Longrightarrow> v \<noteq> 0 \<Longrightarrow> used (as[i := v]) = (if as ! i = 0 then Suc (used as) else used as)"
proof (induction as arbitrary: i)
  case (Cons a as)
  then show ?case by (cases i) (auto simp: used_def)
qed simp

text \<open>The books: the assigned amount is the sum of the shares, the active pools are counted and within the
  bound, and every share fits its pool and has its own quote on record.\<close>

definition split_inv :: "split_optimizer \<Rightarrow> graph_snapshot \<Rightarrow> 'e quoter \<Rightarrow> edge_ref list \<Rightarrow> address \<Rightarrow> address \<Rightarrow> u128 \<Rightarrow> greedy_state \<Rightarrow> bool" where
  "split_inv so g quote refs token_in token_out total_in st \<longleftrightarrow>
     length (gr_allocations st) = length refs \<and> length (gr_outputs st) = length refs \<and>
     shares_of (gr_allocations st) = unat (gr_assigned st) \<and> gr_assigned st \<le> total_in \<and>
     gr_active st = used (gr_allocations st) \<and> gr_active st \<le> so_max_parallel_pools so \<and>
     (\<forall>i<length refs. gr_allocations st ! i \<noteq> 0 \<longrightarrow> (\<exists>edge. edge_of g (refs ! i) = Some edge \<and>
        fits_capacity edge (gr_allocations st ! i) \<and>
        quote_ref g quote token_in token_out (e_pool_id edge) (gr_allocations st ! i) = Inr (gr_outputs st ! i)))"

lemma split_inv_start: "split_inv so g quote refs token_in token_out total_in (greedy_start refs)"
proof -
  have "filter (\<lambda>a. a \<noteq> 0) (replicate n (0 :: u128)) = []" for n by (induction n) auto
  then show ?thesis by (simp add: split_inv_def greedy_start_def shares_of_def used_def sum_list_replicate)
qed

lemma slice_jobs_mem:
  assumes "(idx, pool_id, amount) \<in> set (slice_jobs so g refs part st)"
  shows "idx < length refs \<and> \<not> (gr_allocations st ! idx = 0 \<and> so_max_parallel_pools so \<le> gr_active st) \<and>
     (\<exists>edge. edge_of g (refs ! idx) = Some edge \<and> pool_id = e_pool_id edge \<and>
        amount = sat_add (gr_allocations st ! idx) part \<and> fits_capacity edge amount)"
  using assms
  by (auto simp: slice_jobs_def map_filter_in in_set_enumerate_eq bind_eq_Some_conv Let_def split: if_splits)

lemma rank_quotes_mem:
  "rank_quotes st quotes = (winner, marginal, total_quote) # rest \<Longrightarrow> (winner, total_quote) \<in> set quotes"
proof -
  assume "rank_quotes st quotes = (winner, marginal, total_quote) # rest"
  then have "(winner, marginal, total_quote) \<in> set (rank_quotes st quotes)" by simp
  then show ?thesis by (auto simp: rank_quotes_def)
qed

lemma greedy_pass_winner:
  assumes "greedy_pass so g quote refs token_in token_out total_in st = Inr (Some st')"
  obtains winner total_quote edge where
    "winner < length refs" "\<not> (gr_allocations st ! winner = 0 \<and> so_max_parallel_pools so \<le> gr_active st)"
    "edge_of g (refs ! winner) = Some edge"
    "fits_capacity edge (sat_add (gr_allocations st ! winner) (min (total_in - gr_assigned st) (min_slice_of total_in)))"
    "quote_ref g quote token_in token_out (e_pool_id edge)
       (sat_add (gr_allocations st ! winner) (min (total_in - gr_assigned st) (min_slice_of total_in))) = Inr total_quote"
    "st' = award winner (min (total_in - gr_assigned st) (min_slice_of total_in)) total_quote st"
  using assms
proof (rule greedy_passE)
  fix quotes winner marginal total_quote rest
  assume m: "map_res (\<lambda>(idx, pool_id, amount). map_sum (\<lambda>e. e) (Pair idx) (quote_ref g quote token_in token_out pool_id amount))
       (slice_jobs so g refs (min (total_in - gr_assigned st) (min_slice_of total_in)) st) = Inr quotes"
    and r: "rank_quotes st quotes = (winner, marginal, total_quote) # rest"
    and st': "st' = award winner (min (total_in - gr_assigned st) (min_slice_of total_in)) total_quote st"
  obtain idx pool_id amount where job: "(idx, pool_id, amount) \<in> set (slice_jobs so g refs (min (total_in - gr_assigned st) (min_slice_of total_in)) st)"
    and q: "map_sum (\<lambda>e. e) (Pair idx) (quote_ref g quote token_in token_out pool_id amount) = Inr (winner, total_quote)"
    using map_res_mem [OF m rank_quotes_mem [OF r]] by auto
  from q have "idx = winner" "quote_ref g quote token_in token_out pool_id amount = Inr total_quote"
    by (cases "quote_ref g quote token_in token_out pool_id amount"; simp)+
  with slice_jobs_mem [OF job] st' that show thesis by blast
qed

lemma greedy_pass_inv:
  assumes inv: "split_inv so g quote refs token_in token_out total_in st"
    and pass: "greedy_pass so g quote refs token_in token_out total_in st = Inr (Some st')" and less: "gr_assigned st < total_in"
  shows "split_inv so g quote refs token_in token_out total_in st'"
  using pass
proof (rule greedy_pass_winner)
  let ?part = "min (total_in - gr_assigned st) (min_slice_of total_in)"
  fix w q edge
  assume w: "w < length refs" "\<not> (gr_allocations st ! w = 0 \<and> so_max_parallel_pools so \<le> gr_active st)"
    and e: "edge_of g (refs ! w) = Some edge" "fits_capacity edge (sat_add (gr_allocations st ! w) ?part)"
      "quote_ref g quote token_in token_out (e_pool_id edge) (sat_add (gr_allocations st ! w) ?part) = Inr q"
    and st': "st' = award w ?part q st"
  let ?v = "sat_add (gr_allocations st ! w) ?part"
  have len: "length (gr_allocations st) = length refs" "length (gr_outputs st) = length refs" using inv by (auto simp: split_inv_def)
  have up: "gr_assigned st < sat_add (gr_assigned st) ?part" "sat_add (gr_assigned st) ?part \<le> total_in"
    using greedy_pass_assigned [OF pass less] by (auto simp: st' award_def)
  have fit: "unat (gr_assigned st) + unat ?part < 2 ^ 128"
  proof -
    have "unat ?part \<le> unat total_in - unat (gr_assigned st)"
      using less unat_sub [of "gr_assigned st" total_in] by (simp add: unat_min_word)
    with less unat_lt_size [of total_in] show ?thesis by (simp add: word_less_nat_alt)
  qed
  have share: "unat (gr_allocations st ! w) \<le> unat (gr_assigned st)"
    using share_le [of w "gr_allocations st"] w(1) inv len by (simp add: split_inv_def)
  have v: "unat ?v = unat (gr_allocations st ! w) + unat ?part" and a: "unat (sat_add (gr_assigned st) ?part) = unat (gr_assigned st) + unat ?part"
    using fit share by (simp_all add: unat_sat_add)
  have "unat ?part \<noteq> 0" using up(1) a by (simp add: word_less_nat_alt)
  with v have v0: "?v \<noteq> 0" by (metis add_eq_0_iff_both_eq_0 unat_eq_0)
  have "shares_of ((gr_allocations st)[w := ?v]) = unat (sat_add (gr_assigned st) ?part)"
    using shares_update [of w "gr_allocations st" ?v] w(1) len v a inv by (simp add: split_inv_def)
  moreover have "used ((gr_allocations st)[w := ?v]) = (if gr_allocations st ! w = 0 then Suc (used (gr_allocations st)) else used (gr_allocations st))"
    using used_update [OF _ v0, of w "gr_allocations st"] w(1) len by simp
  ultimately show ?thesis
    using inv w e up(2) len unfolding st' split_inv_def award_def by (auto simp: nth_list_update)
qed

lemma greedy_split_inv:
  "greedy_split so g quote refs token_in token_out total_in st = Inr st' \<Longrightarrow>
   split_inv so g quote refs token_in token_out total_in st \<Longrightarrow> split_inv so g quote refs token_in token_out total_in st'"
proof (induction so g quote refs token_in token_out total_in st rule: greedy_split.induct)
  case (1 so g quote refs token_in token_out total_in st)
  note step = 1(2) [unfolded greedy_split.simps [of so g quote refs token_in token_out total_in st]]
  show ?case
  proof (cases "gr_assigned st < total_in")
    case True
    with step obtain r where r: "greedy_pass so g quote refs token_in token_out total_in st = Inr r" by (auto split: sum.splits)
    show ?thesis
    proof (cases r)
      case None
      with step True r 1(3) show ?thesis by simp
    next
      case (Some st1)
      with r have p: "greedy_pass so g quote refs token_in token_out total_in st = Inr (Some st1)" by simp
      with step True have "greedy_split so g quote refs token_in token_out total_in st1 = Inr st'" by simp
      with 1(1) [OF True r Some] greedy_pass_inv [OF 1(3) p True] show ?thesis by simp
    qed
  qed (use step 1(3) in simp)
qed

section \<open>The comparators\<close>

lemma preorder_cmp_opt:
  assumes "total_preorder c"
  shows "total_preorder (cmp_opt c)"
proof
  fix x y z :: "'a option"
  have flip: "c b a = reverse_ord (c a b)" for a b using total_preorder.flip [OF assms] .
  show "cmp_opt c y x = reverse_ord (cmp_opt c x y)"
  proof (cases "x = None \<or> y = None")
    case False
    then obtain a b where "x = Some a" "y = Some b" by auto
    then show ?thesis using flip [of b a] by (simp add: cmp_opt_def)
  qed (auto simp: cmp_opt_def split: option.splits)
  assume xy: "cmp_opt c x y \<noteq> Greater" and yz: "cmp_opt c y z \<noteq> Greater"
  show "cmp_opt c x z \<noteq> Greater"
  proof (cases "x = None \<or> y = None \<or> z = None")
    case False
    then obtain a b d where "x = Some a" "y = Some b" "z = Some d" by auto
    then show ?thesis using xy yz total_preorder.trans [OF assms, of a b d] by (simp add: cmp_opt_def)
  qed (use xy yz in \<open>auto simp: cmp_opt_def split: option.splits\<close>)
qed

lemma preorder_on:
  assumes "total_preorder c"
  shows "total_preorder (\<lambda>x y. c (f x) (f y))"
proof
  show "c (f y) (f x) = reverse_ord (c (f x) (f y))" for x y by (rule total_preorder.flip [OF assms])
  show "c (f x) (f z) \<noteq> Greater" if "c (f x) (f y) \<noteq> Greater" "c (f y) (f z) \<noteq> Greater" for x y z
    using that by (rule total_preorder.trans [OF assms])
qed

lemma preorder_pair_edges: "total_preorder cmp_pair_edges"
  unfolding cmp_pair_edges_def [abs_def]
  by (intro preorder_then preorder_key preorder_key_rev)

lemma preorder_capacity: "total_preorder (cmp_capacity t)"
  unfolding cmp_capacity_def [abs_def] Let_def
  by (intro preorder_then preorder_key preorder_key_rev)

interpretation price: total_preorder "compare_edge_refs_for_price g"
  unfolding compare_edge_refs_for_price_def [abs_def]
  by (rule preorder_on [OF preorder_cmp_opt [OF preorder_pair_edges]])

interpretation capacity: total_preorder "compare_edge_refs_for_capacity g t"
  unfolding compare_edge_refs_for_capacity_def [abs_def]
  by (rule preorder_on [OF preorder_cmp_opt [OF preorder_capacity]])

interpretation plan_order: total_preorder cmp_split_plans
  unfolding cmp_split_plans_def [abs_def] by (intro preorder_then preorder_key preorder_key_rev)

lemma push_unique_props:
  "distinct out \<Longrightarrow> length out \<le> m \<Longrightarrow>
   distinct (push_unique m refs out) \<and> length (push_unique m refs out) \<le> m \<and>
   set out \<subseteq> set (push_unique m refs out) \<and> set (push_unique m refs out) \<subseteq> set out \<union> set refs \<and>
   (length (push_unique m refs out) < m \<longrightarrow> set refs \<subseteq> set (push_unique m refs out))"
proof (induction m refs out rule: push_unique.induct)
  case (2 m r refs out)
  show ?case
  proof (cases "m \<le> length out")
    case False
    with 2 have "distinct (if r \<in> set out then out else out @ [r])" "length (if r \<in> set out then out else out @ [r]) \<le> m" by auto
    from 2(1) [OF False this] False show ?thesis by (auto split: if_splits)
  qed (use 2 in auto)
qed auto

lemma push_unique_first: "0 < m \<Longrightarrow> r \<in> set (push_unique m (r # refs) [])"
  using push_unique_props [of "[r]" m refs] by (cases m) auto

text \<open>which edges of a pair are considered: a duplicate-free selection of at most the scan limit, ordered
  by price, that contains an edge of the best price; below the limit it is every edge of the pair.\<close>

theorem ranked_pair_edges_ok:
  assumes "ranked = ranked_pair_edges g refs limit target_input"
  shows "distinct ranked \<and> length ranked \<le> max limit 1 \<and> set ranked \<subseteq> set refs \<and>
    sorted_wrt (\<lambda>a b. compare_edge_refs_for_price g a b \<noteq> Greater) ranked \<and>
    (length ranked < limit \<longrightarrow> set ranked = set refs) \<and>
    (\<forall>r\<in>set refs. ranked \<noteq> [] \<and> compare_edge_refs_for_price g (hd ranked) r \<noteq> Greater)"
proof -
  let ?m = "max limit 1"
  let ?by_price = "sort_by (compare_edge_refs_for_price g) refs"
  let ?by_capacity = "sort_by (compare_edge_refs_for_capacity g target_input) refs"
  let ?first = "push_unique ?m (take ((?m + 1) div 2) ?by_price) []"
  have f: "distinct ?first" "length ?first \<le> ?m" "set ?first \<subseteq> set refs"
    using push_unique_props [of "[]" ?m "take ((?m + 1) div 2) ?by_price"] in_set_takeD [of _ _ ?by_price] by auto
  have p: "distinct (push_unique ?m ?by_capacity ?first)" "length (push_unique ?m ?by_capacity ?first) \<le> ?m"
    "set ?first \<subseteq> set (push_unique ?m ?by_capacity ?first)" "set (push_unique ?m ?by_capacity ?first) \<subseteq> set refs"
    "length (push_unique ?m ?by_capacity ?first) < ?m \<Longrightarrow> set refs \<subseteq> set (push_unique ?m ?by_capacity ?first)"
    using push_unique_props [OF f(1,2), of ?by_capacity] f(3) by auto
  have r: "ranked = sort_by (compare_edge_refs_for_price g) (push_unique ?m ?by_capacity ?first)"
    using assms by (simp add: ranked_pair_edges_def Let_def)
  have best: "ranked \<noteq> [] \<and> compare_edge_refs_for_price g (hd ranked) x \<noteq> Greater" if x: "x \<in> set refs" for x
  proof -
    from x obtain b bs where b: "?by_price = b # bs" by (cases ?by_price) auto
    have "(?m + 1) div 2 = Suc ((?m + 1) div 2 - 1)" by simp
    then have "take ((?m + 1) div 2) ?by_price = b # take ((?m + 1) div 2 - 1) bs" unfolding b by (metis take_Suc_Cons)
    then have "b \<in> set ?first" using push_unique_first [of ?m b] by simp
    then have b_in: "b \<in> set (push_unique ?m ?by_capacity ?first)" using p(3) by blast
    then have "ranked \<noteq> []" unfolding r sort_by_Nil_iff by (metis empty_iff empty_set)
    moreover have "compare_edge_refs_for_price g (hd ranked) b \<noteq> Greater"
      unfolding r by (rule price.hd_sort_by_least [OF b_in])
    moreover have "compare_edge_refs_for_price g b x \<noteq> Greater" using price.hd_sort_by_least [OF x, of g] b by simp
    ultimately show ?thesis using price.trans by blast
  qed
  have e: "set ranked = set (push_unique ?m ?by_capacity ?first)" "length ranked = length (push_unique ?m ?by_capacity ?first)"
    "distinct ranked" using p(1) unfolding r by (simp_all only: set_sort_by length_sort_by distinct_sort_by)
  have "sorted_wrt (\<lambda>a b. compare_edge_refs_for_price g a b \<noteq> Greater) ranked" unfolding r by (rule price.sorted_sort_by)
  moreover have "set ranked = set refs" if "length ranked < limit"
  proof -
    have "length (push_unique ?m ?by_capacity ?first) < ?m"
      using less_le_trans [OF that, of ?m] unfolding e(2) by simp
    from p(5) [OF this] p(4) e(1) show ?thesis by blast
  qed
  moreover have "length ranked \<le> ?m" "set ranked \<subseteq> set refs" using p(2,4) e by simp_all
  ultimately show ?thesis using e(3) best by blast
qed

lemma ranked_pair_edges_ok_witness:
  "\<forall>g. set (ranked_pair_edges g [\<lparr>er_from = 0, er_edge_idx = 0\<rparr>, \<lparr>er_from = 0, er_edge_idx = 1\<rparr>] 8 5) =
     {\<lparr>er_from = 0, er_edge_idx = 0\<rparr>, \<lparr>er_from = 0, er_edge_idx = 1\<rparr>}"
proof
  fix g
  let ?refs = "[\<lparr>er_from = 0, er_edge_idx = 0\<rparr>, \<lparr>er_from = 0, er_edge_idx = 1\<rparr>]"
  have sub: "set (ranked_pair_edges g ?refs 8 5) \<subseteq> set ?refs" and d: "distinct (ranked_pair_edges g ?refs 8 5)"
    and all: "length (ranked_pair_edges g ?refs 8 5) < 8 \<longrightarrow> set (ranked_pair_edges g ?refs 8 5) = set ?refs"
    using ranked_pair_edges_ok [of "ranked_pair_edges g ?refs 8 5" g ?refs 8 5] by blast+
  have "length (ranked_pair_edges g ?refs 8 5) = card (set (ranked_pair_edges g ?refs 8 5))" using d by (simp add: distinct_card)
  also have "\<dots> \<le> card (set ?refs)" by (rule card_mono [OF _ sub]) simp
  also have "\<dots> \<le> 2" by (simp add: card_insert_if)
  finally show "set (ranked_pair_edges g ?refs 8 5) = {\<lparr>er_from = 0, er_edge_idx = 0\<rparr>, \<lparr>er_from = 0, er_edge_idx = 1\<rparr>}" using all by simp
qed

section \<open>The plans of a pair\<close>

lemma unat_foldl_sat_add:
  "unat (foldl (\<lambda>acc p. sat_add acc (f p)) (a :: u128) ps) = min (unat a + sum_list (map (\<lambda>p. unat (f p)) ps)) (2 ^ 128 - 1)"
proof (induction ps arbitrary: a)
  case Nil
  then show ?case using unat_le_max [of a] by simp
next
  case (Cons p ps)
  show ?case by (simp add: Cons.IH unat_sat_add)
qed

text \<open>What a plan for a pair looks like: it names a pool of the snapshot, trades a positive amount for a
  positive output, and demands at most that output.\<close>

definition split_plan_ok :: "graph_snapshot \<Rightarrow> address \<Rightarrow> address \<Rightarrow> split_plan \<Rightarrow> bool" where
  "split_plan_ok g token_in token_out p \<longleftrightarrow> sp_token_in p = token_in \<and> sp_token_out p = token_out \<and>
     0 < sp_amount_in p \<and> 0 < sp_expected_amount_out p \<and> sp_min_amount_out p \<le> sp_expected_amount_out p \<and>
     (\<exists>a pool. pool_of g a = Some pool \<and> sp_pool_id p = ps_pool_id pool \<and> sp_adapter_type p = adapter_of_kind (ps_kind pool))"

lemma min_split_output_le: "unat bps \<le> 10000 \<Longrightarrow> min_split_output bps expected \<le> expected"
proof -
  assume "unat bps \<le> 10000"
  then have "unat expected * unat bps div 10000 \<le> unat expected * 10000 div 10000" by (intro div_le_mono mult_le_mono2)
  moreover have "min (unat expected * unat bps) (2 ^ 128 - 1) div 10000 \<le> unat expected * unat bps div 10000"
    by (rule div_le_mono) simp
  ultimately show ?thesis by (simp add: min_split_output_def word_nat)
qed

lemma split_plan_of_ok:
  assumes "split_plan_of env so pool token_in token_out allocation expected = Some p" and "allocation \<noteq> 0"
    and "pool_of g a = Some pool" and "unat (so_split_min_output_bps so) \<le> 10000"
  shows "split_plan_ok g token_in token_out p"
proof -
  have "split_min_out so pool expected \<le> expected"
    using min_split_output_le [OF assms(4)] by (auto simp: split_min_out_def split: pool_specific_state.splits)
  with assms show ?thesis
    by (auto simp: split_plan_of_def split_plan_ok_def word_gt_0 split: if_splits intro!: exI [of _ a])
qed

lemma materialize_one_ok:
  assumes "materialize_one env so g quote token_in token_out job = Inr (Some p)" and "unat (so_split_min_output_bps so) \<le> 10000"
  shows "split_plan_ok g token_in token_out p"
proof -
  obtain r allocation known where job: "job = (r, allocation, known)" by (cases job)
  with assms(1) obtain edge pool where p: "edge_of g r = Some edge" "pool_of g (e_pool_id edge) = Some pool" "allocation \<noteq> 0"
    by (auto simp: materialize_one_def bind_eq_Some_conv split: if_splits option.splits)
  with assms(1) job obtain expected where "split_plan_of env so pool token_in token_out allocation expected = Some p"
    by (auto simp: materialize_one_def res_bind_Inr)
  from split_plan_of_ok [OF this p(3,2) assms(2)] show ?thesis .
qed

definition pair_result_ok :: "graph_snapshot \<Rightarrow> address \<Rightarrow> address \<Rightarrow> split_plan list \<times> u128 \<Rightarrow> bool" where
  "pair_result_ok g token_in token_out r \<longleftrightarrow> (\<forall>p\<in>set (fst r). split_plan_ok g token_in token_out p) \<and>
     sorted_wrt (\<lambda>a b. sp_expected_amount_out b \<le> sp_expected_amount_out a) (fst r) \<and>
     unat (snd r) = min (sum_list (map (\<lambda>p. unat (sp_expected_amount_out p)) (fst r))) (2 ^ 128 - 1)"

lemma materialize_ok:
  assumes "materialize env so g quote token_in token_out refs allocations outs = Inr r" and "unat (so_split_min_output_bps so) \<le> 10000"
  shows "pair_result_ok g token_in token_out r"
proof -
  from assms(1) obtain made where made: "map_res (\<lambda>(idx, allocation). materialize_one env so g quote token_in token_out
         (refs ! idx, allocation, Option.bind outs (\<lambda>outs. nth_opt outs idx))) (enumerate 0 allocations) = Inr made"
    and r: "r = (sort_by cmp_split_plans (List.map_filter (\<lambda>p. p) made),
      foldl (\<lambda>acc p. sat_add acc (sp_expected_amount_out p)) 0 (List.map_filter (\<lambda>p. p) made))"
    by (auto simp: materialize_def res_bind_Inr Let_def)
  let ?plans = "List.map_filter (\<lambda>p. p) made"
  have "split_plan_ok g token_in token_out p" if "p \<in> set ?plans" for p
  proof -
    from that have "Some p \<in> set made" by (simp add: map_filter_in)
    from map_res_mem [OF made this] materialize_one_ok [OF _ assms(2)] show ?thesis by fastforce
  qed
  moreover have "sorted_wrt (\<lambda>a b. sp_expected_amount_out b \<le> sp_expected_amount_out a) (sort_by cmp_split_plans ?plans)"
    by (rule sorted_wrt_mono_rel [OF _ plan_order.sorted_sort_by]) (auto simp: cmp_split_plans_def cmp_simps)
  moreover have "sum_list (map (\<lambda>p. unat (sp_expected_amount_out p)) (sort_by cmp_split_plans ?plans)) =
      sum_list (map (\<lambda>p. unat (sp_expected_amount_out p)) ?plans)"
    by (metis mset_map mset_sort_by sum_mset_sum_list)
  ultimately show ?thesis unfolding r pair_result_ok_def by (simp add: unat_foldl_sat_add)
qed

lemma pair_result_ok_empty: "pair_result_ok g token_in token_out ([], 0)"
  by (simp add: pair_result_ok_def)

lemma single_best_ok:
  assumes "single_best env so g quote refs token_in token_out total_in = Inr r" and "unat (so_split_min_output_bps so) \<le> 10000"
  shows "pair_result_ok g token_in token_out r"
  using assms(1)
  by (auto simp: single_best_def Let_def res_bind_Inr pair_result_ok_empty split: option.splits prod.splits
      dest!: materialize_ok [OF _ assms(2)])

text \<open>the plan of one hop. Whatever the pools quote, every split of the returned plan names a pool of
  the snapshot, sells a positive amount of the input token for a positive amount of the output token, and
  asks for no more than it expects; the splits are ordered by falling output and the hop's output is
  their sum, cut off at the largest \<open>u128\<close>.\<close>

theorem optimize_pair_plans:
  assumes "optimize_pair env lm so g quote token_in token_out total_in = Inr (plans, out)"
    and "unat (so_split_min_output_bps so) \<le> 10000"
  shows "(\<forall>p\<in>set plans. sp_token_in p = token_in \<and> sp_token_out p = token_out \<and>
      0 < sp_amount_in p \<and> 0 < sp_expected_amount_out p \<and> sp_min_amount_out p \<le> sp_expected_amount_out p \<and>
      (\<exists>a pool. pool_of g a = Some pool \<and> sp_pool_id p = ps_pool_id pool \<and> sp_adapter_type p = adapter_of_kind (ps_kind pool))) \<and>
    sorted_wrt (\<lambda>a b. sp_expected_amount_out b \<le> sp_expected_amount_out a) plans \<and>
    unat out = min (sum_list (map (\<lambda>p. unat (sp_expected_amount_out p)) plans)) (2 ^ 128 - 1)"
proof -
  have "pair_result_ok g token_in token_out (plans, out)"
    using assms(1)
    by (auto simp: optimize_pair_def Let_def res_bind_Inr pair_result_ok_empty split: option.splits if_splits
        dest!: materialize_ok [OF _ assms(2)] single_best_ok [OF _ assms(2)])
  then show ?thesis by (simp add: pair_result_ok_def split_plan_ok_def)
qed

text \<open>the greedy split keeps its books. When it ends, the assigned amount is the exact sum of the
  shares and at most the amount to be traded, no more pools are used than allowed, and the share of
  every pool is within the pool's capacity with that very share's quote on record.\<close>

theorem greedy_split_books:
  assumes "greedy_split so g quote refs token_in token_out total_in (greedy_start refs) = Inr st"
  shows "sum_list (map unat (gr_allocations st)) = unat (gr_assigned st) \<and> gr_assigned st \<le> total_in \<and>
    length (filter (\<lambda>a. a \<noteq> 0) (gr_allocations st)) \<le> so_max_parallel_pools so \<and>
    (\<forall>i<length refs. gr_allocations st ! i \<noteq> 0 \<longrightarrow> (\<exists>edge. edge_of g (refs ! i) = Some edge \<and>
       (0 < e_capacity edge \<longrightarrow> gr_allocations st ! i \<le> e_capacity edge) \<and>
       quote_ref g quote token_in token_out (e_pool_id edge) (gr_allocations st ! i) = Inr (gr_outputs st ! i)))"
proof -
  have inv: "split_inv so g quote refs token_in token_out total_in st"
    using greedy_split_inv [OF assms split_inv_start] .
  have fits: "fits_capacity edge a \<Longrightarrow> 0 < e_capacity edge \<longrightarrow> a \<le> e_capacity edge" for edge a
    by (auto simp: fits_capacity_def)
  show ?thesis
  proof (intro conjI allI impI)
    fix i assume "i < length refs" "gr_allocations st ! i \<noteq> 0"
    with inv obtain edge where "edge_of g (refs ! i) = Some edge" "fits_capacity edge (gr_allocations st ! i)"
      "quote_ref g quote token_in token_out (e_pool_id edge) (gr_allocations st ! i) = Inr (gr_outputs st ! i)"
      unfolding split_inv_def by blast
    with fits show "\<exists>edge. edge_of g (refs ! i) = Some edge \<and> (0 < e_capacity edge \<longrightarrow> gr_allocations st ! i \<le> e_capacity edge) \<and>
       quote_ref g quote token_in token_out (e_pool_id edge) (gr_allocations st ! i) = Inr (gr_outputs st ! i)" by blast
  qed (use inv in \<open>auto simp: split_inv_def shares_of_def used_def\<close>)
qed

text \<open>A pool whose quote does not grow with the amount: the first slice is all it gets, and the rest of the
  amount is assigned to nobody.\<close>

definition demo_optimizer :: split_optimizer where
  "demo_optimizer = \<lparr>so_max_parallel_pools = 2, so_pair_edge_scan_limit = 8, so_pair_quote_concurrency = 1,
     so_split_min_output_bps = 9950\<rparr>"

definition flat_quote :: "unit quoter" where "flat_quote pool token_in token_out amount = Inr 5"

lemma demo_greedy:
  assumes "edge_of (demo_graph env lm) r = Some (demo_edge lm)"
  shows "greedy_split demo_optimizer (demo_graph env lm) flat_quote [r] 1 2 8 (greedy_start [r]) =
     Inr \<lparr>gr_allocations = [1], gr_outputs = [5], gr_assigned = 1, gr_active = 1\<rparr>"
proof -
  let ?g = "demo_graph env lm"
  let ?st = "\<lparr>gr_allocations = [1], gr_outputs = [5], gr_assigned = 1, gr_active = 1\<rparr>"
  have e: "e_pool_id (demo_edge lm) = 9" "e_capacity (demo_edge lm) = 100"
    by (simp_all add: demo_edge_def demo_pool_def v2_spot_rate_def v2_reserves_def demo_v2_def Let_def mk_edge_def split: prod.split)
  have p: "pool_of ?g 9 = Some demo_pool" by (simp add: pool_of_def demo_graph_def graph_build_def Let_def)
  have slice_8: "min_slice_of 8 = 1" by (simp add: min_slice_of_def)
  have q: "quote_ref ?g flat_quote 1 2 9 a = Inr 5" for a by (simp add: quote_ref_def p flat_quote_def)
  have "greedy_pass demo_optimizer ?g flat_quote [r] 1 2 8 (greedy_start [r]) = Inr (Some ?st)"
    by (simp add: greedy_pass_def greedy_start_def slice_8 slice_jobs_def demo_optimizer_def List.map_filter_def assms e
        fits_capacity_def sat_add_def q rank_quotes_def sat_sub_def award_def Let_def)
  moreover have "greedy_pass demo_optimizer ?g flat_quote [r] 1 2 8 ?st = Inr None"
    by (simp add: greedy_pass_def slice_8 slice_jobs_def demo_optimizer_def List.map_filter_def assms e
        fits_capacity_def sat_add_def q rank_quotes_def sat_sub_def Let_def)
  moreover have "gr_assigned (greedy_start [r]) < 8" by (simp add: greedy_start_def)
  ultimately show ?thesis by (simp add: greedy_split.simps)
qed

lemma greedy_split_books_witness:
  "\<forall>env lm. \<exists>r st. greedy_split demo_optimizer (demo_graph env lm) flat_quote [r] 1 2 8 (greedy_start [r]) = Inr st \<and>
     sum_list (map unat (gr_allocations st)) = 1 \<and> gr_assigned st < 8"
proof (intro allI)
  fix env :: env and lm :: libm
  obtain r where r: "edge_of (demo_graph env lm) r = Some (demo_edge lm)" using demo_edge_there by blast
  from greedy_split_books [OF demo_greedy [OF r]] demo_greedy [OF r]
  show "\<exists>r st. greedy_split demo_optimizer (demo_graph env lm) flat_quote [r] 1 2 8 (greedy_start [r]) = Inr st \<and>
     sum_list (map unat (gr_allocations st)) = 1 \<and> gr_assigned st < 8" by (intro exI [of _ r] exI [of _ "\<lparr>gr_allocations = [1], gr_outputs = [5], gr_assigned = 1, gr_active = 1\<rparr>"]) simp
qed

text \<open>the optimizer cannot be built for more than 32 parallel pools. The default of the scan limit is
  clamped between the number of pools and 32, and the clamp panics when that number is above 32.\<close>

theorem split_optimizer_panics_iff:
  "split_optimizer_new env s = None \<longleftrightarrow> 32 < se_max_split_parallel_pools (st_search s)"
  by (auto simp: split_optimizer_new_def clamp_nat_def Let_def)

text \<open>Only the quoter can fail.\<close>

lemma map_res_total: "(\<And>x. x \<in> set xs \<Longrightarrow> \<exists>y. f x = Inr y) \<Longrightarrow> \<exists>ys. map_res f xs = Inr ys"
proof (induction xs)
  case (Cons x xs)
  from Cons.prems [of x] obtain y where "f x = Inr y" by auto
  moreover obtain ys where "map_res f xs = Inr ys" using Cons by auto
  ultimately show ?case by simp
qed simp

definition total_quoter :: "'e quoter \<Rightarrow> bool" where
  "total_quoter quote \<longleftrightarrow> (\<forall>pool a b x. \<exists>v. quote pool a b x = Inr v)"

lemma quote_ref_total: "total_quoter quote \<Longrightarrow> \<exists>v. quote_ref g quote a b pool_id x = Inr v"
  by (auto simp: quote_ref_def total_quoter_def split: option.splits)

lemma materialize_total:
  assumes "total_quoter quote"
  shows "\<exists>r. materialize env so g quote a b refs allocations outs = Inr r"
proof -
  have "\<exists>y. materialize_one env so g quote a b job = Inr y" for job
    using assms by (auto simp: materialize_one_def total_quoter_def res_bind_def split: prod.split option.split sum.split)
      (metis Inr_not_Inl)+
  then have "\<exists>made. map_res (\<lambda>(idx, allocation). materialize_one env so g quote a b
      (refs ! idx, allocation, Option.bind outs (\<lambda>outs. nth_opt outs idx))) (enumerate 0 allocations) = Inr made"
    by (intro map_res_total) auto
  then show ?thesis by (auto simp: materialize_def Let_def)
qed

lemma single_best_total:
  assumes "total_quoter quote"
  shows "\<exists>r. single_best env so g quote refs a b total_in = Inr r"
proof -
  have "\<exists>quotes. map_res (\<lambda>(r, pool_id). map_sum (\<lambda>e. e) (Pair r) (quote_ref g quote a b pool_id total_in)) jobs = Inr quotes"
    for jobs :: "(edge_ref \<times> address) list"
  proof (rule map_res_total)
    fix x assume "x \<in> set jobs"
    obtain r pool_id where x: "x = (r, pool_id)" by (cases x)
    obtain v where "quote_ref g quote a b pool_id total_in = Inr v" using quote_ref_total [OF assms] by blast
    with x show "\<exists>y. (case x of (r, pool_id) \<Rightarrow> map_sum (\<lambda>e. e) (Pair r) (quote_ref g quote a b pool_id total_in)) = Inr y" by simp
  qed
  then obtain quotes where "map_res (\<lambda>(r, pool_id). map_sum (\<lambda>e. e) (Pair r) (quote_ref g quote a b pool_id total_in))
      (List.map_filter (\<lambda>r. Option.bind (edge_of g r) (\<lambda>e. if fits_capacity e total_in then Some (r, e_pool_id e) else None)) refs) =
      Inr quotes" by blast
  then show ?thesis
    using materialize_total [OF assms] by (auto simp: single_best_def Let_def split: option.split prod.split)
qed

lemma demo_optimize: "\<exists>r. optimize_pair env' lm' demo_optimizer (demo_graph env lm) flat_quote 1 2 1 = Inr r"
proof -
  have "total_quoter flat_quote" by (simp add: total_quoter_def flat_quote_def)
  note total = single_best_total [OF this]
  have "\<not> should_split n 1 (min_slice_of 1)" for n by (simp add: should_split_def min_slice_of_def sat_mul_def word_le_nat_alt)
  with total show ?thesis by (simp add: optimize_pair_def Let_def)
qed

lemma optimize_pair_plans_witness:
  "\<forall>env env' lm lm'. \<exists>plans out. optimize_pair env' lm' demo_optimizer (demo_graph env lm) flat_quote 1 2 1 = Inr (plans, out) \<and>
     list_all (\<lambda>p. sp_min_amount_out p \<le> sp_expected_amount_out p) plans"
proof (intro allI)
  fix env env' :: env and lm lm' :: libm
  obtain plans out where r: "optimize_pair env' lm' demo_optimizer (demo_graph env lm) flat_quote 1 2 1 = Inr (plans, out)"
    using demo_optimize [of env' lm' env lm] by auto
  from optimize_pair_plans [OF r] r
  show "\<exists>plans out. optimize_pair env' lm' demo_optimizer (demo_graph env lm) flat_quote 1 2 1 = Inr (plans, out) \<and>
     list_all (\<lambda>p. sp_min_amount_out p \<le> sp_expected_amount_out p) plans" by (auto simp: demo_optimizer_def list_all_iff)
qed

end
