(* ===== verification/Router.thy ===== *)
theory Router
  imports Splits
begin

text \<open>
  \<open>src/router/mod.rs\<close>: the search for the best plan of a candidate path. A quote of one pair
  (\<open>optimize_pair\<close> of theory Splits, or a call of the verifying optimizer) is an argument of the
  definitions below the search; the search itself composes them with the two optimizers. The map
  of evaluated amounts is an association list in the order of insertion.
\<close>

record search_stats =
  ss_amount_range_missing :: bool
  ss_evaluated_amounts :: nat
  ss_no_output_quotes :: nat
  ss_no_output_hop0 :: nat
  ss_no_output_hop1 :: nat
  ss_no_output_hop2 :: nat
  ss_no_output_hop3_plus :: nat
  ss_no_output_v2 :: nat
  ss_no_output_aerodrome_v2 :: nat
  ss_no_output_v3 :: nat
  ss_no_output_curve :: nat
  ss_no_output_balancer :: nat
  ss_gross_nonpositive :: nat
  ss_flash_fee_nonpositive :: nat
  ss_profitable_plans :: nat
  ss_fast_sizer_points :: nat
  ss_used_fast_sizer :: bool
  ss_used_wide_fallback :: bool
  ss_min_amount :: u128
  ss_max_amount :: u128
  ss_first_no_output_hop :: "nat option"
  ss_first_no_output_pool :: "address option"
  ss_first_no_output_amount_in :: u128

definition search_stats_default :: search_stats where
  "search_stats_default =
     \<lparr>ss_amount_range_missing = False, ss_evaluated_amounts = 0, ss_no_output_quotes = 0, ss_no_output_hop0 = 0,
      ss_no_output_hop1 = 0, ss_no_output_hop2 = 0, ss_no_output_hop3_plus = 0, ss_no_output_v2 = 0,
      ss_no_output_aerodrome_v2 = 0, ss_no_output_v3 = 0, ss_no_output_curve = 0, ss_no_output_balancer = 0,
      ss_gross_nonpositive = 0, ss_flash_fee_nonpositive = 0, ss_profitable_plans = 0, ss_fast_sizer_points = 0,
      ss_used_fast_sizer = False, ss_used_wide_fallback = False, ss_min_amount = 0, ss_max_amount = 0,
      ss_first_no_output_hop = None, ss_first_no_output_pool = None, ss_first_no_output_amount_in = 0\<rparr>"

definition count_hop :: "nat \<Rightarrow> search_stats \<Rightarrow> search_stats" where
  "count_hop hop_index st =
     (if hop_index = 0 then st\<lparr>ss_no_output_hop0 := ss_no_output_hop0 st + 1\<rparr>
      else if hop_index = 1 then st\<lparr>ss_no_output_hop1 := ss_no_output_hop1 st + 1\<rparr>
      else if hop_index = 2 then st\<lparr>ss_no_output_hop2 := ss_no_output_hop2 st + 1\<rparr>
      else st\<lparr>ss_no_output_hop3_plus := ss_no_output_hop3_plus st + 1\<rparr>)"

text \<open>A Trader Joe pool is counted with the V2 pools.\<close>

fun count_kind :: "amm_kind \<Rightarrow> search_stats \<Rightarrow> search_stats" where
  "count_kind UniswapV2Like st = st\<lparr>ss_no_output_v2 := ss_no_output_v2 st + 1\<rparr>"
| "count_kind AerodromeV2Like st = st\<lparr>ss_no_output_aerodrome_v2 := ss_no_output_aerodrome_v2 st + 1\<rparr>"
| "count_kind UniswapV3Like st = st\<lparr>ss_no_output_v3 := ss_no_output_v3 st + 1\<rparr>"
| "count_kind TraderJoeLb st = st\<lparr>ss_no_output_v2 := ss_no_output_v2 st + 1\<rparr>"
| "count_kind CurvePlain st = st\<lparr>ss_no_output_curve := ss_no_output_curve st + 1\<rparr>"
| "count_kind BalancerWeighted st = st\<lparr>ss_no_output_balancer := ss_no_output_balancer st + 1\<rparr>"

definition record_no_output :: "nat \<Rightarrow> amm_kind \<Rightarrow> address option \<Rightarrow> u128 \<Rightarrow> search_stats \<Rightarrow> search_stats" where
  "record_no_output hop_index kind pool_id amount_in st =
     (let st1 = st\<lparr>ss_no_output_quotes := ss_no_output_quotes st + 1\<rparr>;
          st2 = (if ss_first_no_output_hop st1 = None
                 then st1\<lparr>ss_first_no_output_hop := Some hop_index, ss_first_no_output_pool := pool_id,
                          ss_first_no_output_amount_in := amount_in\<rparr>
                 else st1)
      in count_kind kind (count_hop hop_index st2))"

section \<open>Helpers\<close>

fun scale_splits :: "u128 \<Rightarrow> u128 \<Rightarrow> u128 \<Rightarrow> split_plan list \<Rightarrow> split_plan list" where
  "scale_splits original_total_in new_total_in assigned [] = []"
| "scale_splits original_total_in new_total_in assigned (p # ps) =
     (let amount = (if ps = [] then sat_sub new_total_in assigned
            else sat_mul new_total_in (sp_amount_in p) div original_total_in);
          rest = scale_splits original_total_in new_total_in (sat_add assigned amount) ps
      in if 0 < amount then p\<lparr>sp_amount_in := amount\<rparr> # rest else rest)"

definition scale_splits_for_input :: "split_plan list \<Rightarrow> u128 \<Rightarrow> u128 \<Rightarrow> split_plan list" where
  "scale_splits_for_input splits original_total_in new_total_in =
     (if splits = [] \<or> original_total_in = 0 \<or> new_total_in = 0 then []
      else scale_splits original_total_in new_total_in 0 splits)"

definition hop_amm_kind :: "candidate_path \<Rightarrow> nat \<Rightarrow> amm_kind" where
  "hop_amm_kind c hop_index = unwrap_or (map_option ch_amm_kind (nth_opt (cp_path c) hop_index)) UniswapV3Like"

definition estimated_full_flash_fee_raw :: "graph_snapshot \<Rightarrow> candidate_path \<Rightarrow> u128 \<Rightarrow> u128 \<Rightarrow> u128" where
  "estimated_full_flash_fee_raw g c input_amount flash_premium_ppm =
     (if full_flash g c then sat_mul input_amount flash_premium_ppm div 1000000 else 0)"

text \<open>Unlike the optimizer's, this reader is not clamped to 10000.\<close>

definition min_amount_out :: "env \<Rightarrow> u128 \<Rightarrow> u128" where
  "min_amount_out env expected = sat_mul expected (word_of_nat (env_usize env ''SPLIT_MIN_OUTPUT_BPS'' 9950)) div 10000"

definition better_plan :: "exact_plan option \<Rightarrow> exact_plan \<Rightarrow> exact_plan option" where
  "better_plan current nxt =
     (if unwrap_or (map_option (\<lambda>best. xp_expected_profit best < xp_expected_profit nxt) current) True then Some nxt else current)"

function points_from :: "u128 \<Rightarrow> u128 \<Rightarrow> u128 \<Rightarrow> u128 list" where
  "points_from current step high =
     (if current \<le> high
      then current # (let nxt = sat_add current step in if nxt \<le> current then [] else points_from nxt step high)
      else [])"
  by pat_completeness auto
termination
proof (relation "measure (\<lambda>(c, step, high). 2 ^ 128 - unat c)")
  fix current step high nxt :: u128
  assume "current \<le> high" "nxt = sat_add current step" "\<not> nxt \<le> current"
  then have "unat current < unat nxt" by (simp add: word_le_nat_alt)
  moreover have "unat nxt < 2 ^ 128" using unat_lt_size [of nxt] by simp
  ultimately show "((nxt, step, high), (current, step, high)) \<in> measure (\<lambda>(c, step, high). 2 ^ 128 - unat c)" by simp
qed auto

declare points_from.simps [simp del]

definition dense_points :: "u128 \<Rightarrow> u128 \<Rightarrow> u128 \<Rightarrow> u128 list" where
  "dense_points low high target_count =
     (if high < low then []
      else
        let width = high - low in
        if width \<le> target_count then map (\<lambda>k. low + word_of_nat k) [0..<Suc (unat width)]
        else
          let out = points_from low (max (width div target_count) 1) high
          in if out = [] \<or> last out \<noteq> high then out @ [high] else out)"

definition estimate_gas_limit :: "hop_plan list \<Rightarrow> u64" where
  "estimate_gas_limit hops =
     foldl (\<lambda>gas hop. foldl (\<lambda>gas split. sat_add gas (case sp_adapter_type split of
          A_UniswapV2Like \<Rightarrow> 75000 | A_AerodromeV2Like \<Rightarrow> 100000 | A_UniswapV3Like \<Rightarrow> 155000
        | A_TraderJoeLb \<Rightarrow> 130000 | A_CurvePlain \<Rightarrow> 240000 | A_BalancerWeighted \<Rightarrow> 150000))
        (sat_add gas 20000) (hp_splits hop)) 90000 hops"

definition plan_uses_rpc_verified_adapter :: "exact_plan \<Rightarrow> bool" where
  "plan_uses_rpc_verified_adapter plan =
     list_ex (\<lambda>hop. list_ex (\<lambda>p. sp_adapter_type p = A_UniswapV3Like \<or> sp_adapter_type p = A_TraderJoeLb) (hp_splits hop))
       (xp_hops plan)"

definition candidate_uses_only_trader_joe_lb :: "candidate_path \<Rightarrow> bool" where
  "candidate_uses_only_trader_joe_lb c \<longleftrightarrow> cp_path c \<noteq> [] \<and> list_all (\<lambda>hop. ch_amm_kind hop = TraderJoeLb) (cp_path c)"

fun doublings :: "nat \<Rightarrow> u128 \<Rightarrow> u128 \<Rightarrow> u128 list" where
  "doublings 0 amount max_amount = []"
| "doublings (Suc n) amount max_amount =
     (if amount \<le> max_amount
      then amount # (let nxt = sat_mul amount 2 in if nxt \<le> amount then [] else doublings n nxt max_amount)
      else [])"

definition bounded_lb_amounts :: "env \<Rightarrow> u128 \<Rightarrow> u128 \<Rightarrow> u128 list" where
  "bounded_lb_amounts env min_amount max_amount =
     (if min_amount = 0 \<or> max_amount < min_amount then []
      else remdups_adj (sort (doublings (max 2 (min 64 (env_usize env ''LB_EXACT_SEARCH_POINTS'' 18))) min_amount max_amount
             @ [max_amount])))"

definition clamp_u128 :: "u128 \<Rightarrow> u128 \<Rightarrow> u128 \<Rightarrow> u128" where "clamp_u128 v lo hi = max lo (min hi v)"

fun add_factors :: "u128 \<Rightarrow> u128 \<Rightarrow> u128 \<Rightarrow> nat \<Rightarrow> u128 list \<Rightarrow> u128 list \<Rightarrow> u128 list" where
  "add_factors center min_amount max_amount limit [] out = out"
| "add_factors center min_amount max_amount limit (factor # factors) out =
     (if limit \<le> length out then out
      else
        let amount = clamp_u128 (sat_mul center factor div 10000) min_amount max_amount
        in add_factors center min_amount max_amount limit factors (if 0 < amount \<and> amount \<notin> set out then out @ [amount] else out))"

definition verification_amounts :: "u128 \<Rightarrow> u128 \<Rightarrow> u128 \<Rightarrow> nat \<Rightarrow> u128 list" where
  "verification_amounts center min_amount max_amount limit =
     (if limit = 0 then []
      else
        let center' = clamp_u128 center min_amount max_amount
        in add_factors center' min_amount max_amount limit [8500, 11500, 7000, 13000, 15000, 5000]
             (if 0 < center' then [center'] else []))"


section \<open>The router\<close>

record router =
  ro_split_optimizer :: split_optimizer
  ro_verify_split_optimizer :: "split_optimizer option"
  ro_settings :: settings
  ro_verify_v3_refinement_points :: nat
  ro_verify_v3_early_exit :: bool
  ro_verify_v3_early_reoptimize :: bool
  ro_verify_v3_final_reoptimize :: bool
  ro_verify_v3_early_probe_points :: nat

definition router_new :: "env \<Rightarrow> settings \<Rightarrow> router option" where
  "router_new env s =
     map_option (\<lambda>so.
       \<lparr>ro_split_optimizer = so,
        ro_verify_split_optimizer = (if env_bool_set env ''VERIFY_V3_WITH_RPC_QUOTER'' True then Some so else None),
        ro_settings = s,
        ro_verify_v3_refinement_points = env_usize env ''VERIFY_V3_REFINEMENT_POINTS'' 3,
        ro_verify_v3_early_exit = env_bool_set env ''VERIFY_V3_EARLY_EXIT'' True,
        ro_verify_v3_early_reoptimize = env_bool_set env ''VERIFY_V3_EARLY_REOPTIMIZE'' False,
        ro_verify_v3_final_reoptimize = env_bool_set env ''VERIFY_V3_FINAL_REOPTIMIZE'' False,
        ro_verify_v3_early_probe_points = env_usize env ''VERIFY_V3_EARLY_PROBE_POINTS'' 1\<rparr>)
       (split_optimizer_new env s)"

section \<open>Quoting a candidate\<close>

text \<open>What the three quoting functions share: from the priced hops to a plan, or to a counted refusal.\<close>

definition finish_plan ::
  "graph_snapshot \<Rightarrow> candidate_path \<Rightarrow> u128 \<Rightarrow> u128 \<Rightarrow> hop_plan list \<Rightarrow> u128 \<Rightarrow> search_stats \<Rightarrow> exact_plan option \<times> search_stats" where
  "finish_plan g c input_amount flash_premium_ppm hops next_amount st =
     (let gross_profit_raw = wrap_i128 (as_i128 next_amount - as_i128 input_amount) in
      if gross_profit_raw \<le> 0 then (None, st\<lparr>ss_gross_nonpositive := ss_gross_nonpositive st + 1\<rparr>)
      else
        let fee = estimated_full_flash_fee_raw g c input_amount flash_premium_ppm;
            expected_profit = clamp_i128 (gross_profit_raw - u128_to_i128_saturating fee)
        in if expected_profit \<le> 0 then (None, st\<lparr>ss_flash_fee_nonpositive := ss_flash_fee_nonpositive st + 1\<rparr>)
           else (Some
             \<lparr>xp_snapshot_id = cp_snapshot_id c, xp_input_token = cp_start_token c, xp_output_token = cp_start_token c,
              xp_input_amount = input_amount, xp_output_amount = next_amount, xp_gross_profit_raw = gross_profit_raw,
              xp_flash_premium_ppm = flash_premium_ppm, xp_flash_fee_raw = fee,
              xp_net_profit_before_gas_raw = expected_profit, xp_contract_min_profit_raw = 0,
              xp_input_value_usd_e8 = 0, xp_flash_loan_value_usd_e8 = 0, xp_gross_profit_usd_e8 = 0,
              xp_flash_fee_usd_e8 = 0, xp_actual_flash_fee_usd_e8 = 0, xp_gas_cost_usd_e8 = 0, xp_net_profit_usd_e8 = 0,
              xp_expected_profit = expected_profit, xp_gas_limit = estimate_gas_limit hops,
              xp_gas_l2_execution_cost_wei = 0, xp_gas_l1_data_fee_wei = 0, xp_gas_cost_wei = 0,
              xp_capital_source = SelfFunded, xp_flash_loan_amount = 0, xp_actual_flash_fee_raw = 0, xp_hops = hops\<rparr>,
              st\<lparr>ss_profitable_plans := ss_profitable_plans st + 1\<rparr>))"

text \<open>Prepending a hop to what the rest of the walk gave.\<close>

definition add_hop :: "hop_plan \<Rightarrow> (hop_plan list \<times> u128) option \<times> search_stats \<Rightarrow> (hop_plan list \<times> u128) option \<times> search_stats" where
  "add_hop h r = (map_option (\<lambda>(hops, out). (h # hops, out)) (fst r), snd r)"

fun candidate_hops ::
  "(address \<Rightarrow> address \<Rightarrow> u128 \<Rightarrow> 'e + split_plan list \<times> u128) \<Rightarrow> nat \<Rightarrow> candidate_hop list \<Rightarrow> u128 \<Rightarrow> search_stats \<Rightarrow>
   'e + (hop_plan list \<times> u128) option \<times> search_stats" where
  "candidate_hops opt i [] next_amount st = Inr (Some ([], next_amount), st)"
| "candidate_hops opt i (hop # path) next_amount st =
     res_bind (opt (ch_from hop) (ch_to hop) next_amount) (\<lambda>(splits, out).
       if out = 0 \<or> splits = []
       then Inr (None, record_no_output i (ch_amm_kind hop) (Some (ch_pool_id hop)) next_amount st)
       else res_bind (candidate_hops opt (Suc i) path out st) (\<lambda>r. Inr (add_hop
         \<lparr>hp_token_in = ch_from hop, hp_token_out = ch_to hop, hp_total_in = next_amount, hp_total_out = out,
          hp_splits = splits\<rparr> r)))"

definition finish_walk ::
  "graph_snapshot \<Rightarrow> candidate_path \<Rightarrow> u128 \<Rightarrow> u128 \<Rightarrow> 'e + (hop_plan list \<times> u128) option \<times> search_stats \<Rightarrow>
   'e + exact_plan option \<times> search_stats" where
  "finish_walk g c input_amount flash_premium_ppm walk =
     res_bind walk (\<lambda>(r, st). Inr (case r of None \<Rightarrow> (None, st)
       | Some (hops, next_amount) \<Rightarrow> finish_plan g c input_amount flash_premium_ppm hops next_amount st))"

definition one_more :: "search_stats \<Rightarrow> search_stats" where
  "one_more st = st\<lparr>ss_evaluated_amounts := ss_evaluated_amounts st + 1\<rparr>"

definition quote_candidate_with_optimizer ::
  "env \<Rightarrow> libm \<Rightarrow> split_optimizer \<Rightarrow> 'e quoter \<Rightarrow> graph_snapshot \<Rightarrow> candidate_path \<Rightarrow> u128 \<Rightarrow> u128 \<Rightarrow> search_stats \<Rightarrow>
   'e + exact_plan option \<times> search_stats" where
  "quote_candidate_with_optimizer env lm so quote g c flash_premium_ppm input_amount st =
     finish_walk g c input_amount flash_premium_ppm
       (candidate_hops (optimize_pair env lm so g quote) 0 (cp_path c) input_amount (one_more st))"

definition lb_split :: "candidate_hop \<Rightarrow> u128 \<Rightarrow> split_plan" where
  "lb_split hop amount =
     \<lparr>sp_dex_name = ch_dex_name hop, sp_pool_id = ch_pool_id hop, sp_adapter_type = A_TraderJoeLb,
      sp_token_in = ch_from hop, sp_token_out = ch_to hop, sp_amount_in = amount, sp_min_amount_out = 0,
      sp_expected_amount_out = 0, sp_extra = X_TraderJoeLb\<rparr>"

fun lb_hops ::
  "(split_plan \<Rightarrow> 'e + u128) \<Rightarrow> nat \<Rightarrow> candidate_hop list \<Rightarrow> u128 \<Rightarrow> search_stats \<Rightarrow>
   'e + (hop_plan list \<times> u128) option \<times> search_stats" where
  "lb_hops qs i [] next_amount st = Inr (Some ([], next_amount), st)"
| "lb_hops qs i (hop # path) next_amount st =
     res_bind (qs (lb_split hop next_amount)) (\<lambda>out.
       if out = 0
       then Inr (None, record_no_output i (ch_amm_kind hop) (Some (ch_pool_id hop)) next_amount st)
       else res_bind (lb_hops qs (Suc i) path out st) (\<lambda>r. Inr (add_hop
         \<lparr>hp_token_in = ch_from hop, hp_token_out = ch_to hop, hp_total_in = next_amount, hp_total_out = out,
          hp_splits = [(lb_split hop next_amount)\<lparr>sp_expected_amount_out := out\<rparr>]\<rparr> r)))"

definition quote_lb_candidate_direct ::
  "'e quoter \<Rightarrow> graph_snapshot \<Rightarrow> candidate_path \<Rightarrow> u128 \<Rightarrow> u128 \<Rightarrow> search_stats \<Rightarrow> 'e + exact_plan option \<times> search_stats" where
  "quote_lb_candidate_direct quote g c flash_premium_ppm input_amount st =
     finish_walk g c input_amount flash_premium_ppm (lb_hops (quote_split g quote) 0 (cp_path c) input_amount (one_more st))"

text \<open>The splits of one hop at their scaled amounts: the priced splits and their total, or the split that
  gave nothing.\<close>

fun requote_splits ::
  "env \<Rightarrow> (split_plan \<Rightarrow> 'e + u128) \<Rightarrow> split_plan list \<Rightarrow> u128 \<Rightarrow> 'e + split_plan + split_plan list \<times> u128" where
  "requote_splits env qs [] total_out = Inr (Inr ([], total_out))"
| "requote_splits env qs (p # ps) total_out =
     res_bind (qs p) (\<lambda>amount_out.
       if amount_out = 0 then Inr (Inl p)
       else res_bind (requote_splits env qs ps (sat_add total_out amount_out)) (\<lambda>r. Inr (map_sum (\<lambda>dead. dead)
         (\<lambda>(splits, out). (p\<lparr>sp_expected_amount_out := amount_out, sp_min_amount_out := min_amount_out env amount_out\<rparr> # splits, out)) r)))"

fun existing_hops ::
  "env \<Rightarrow> graph_snapshot \<Rightarrow> 'e quoter \<Rightarrow> candidate_path \<Rightarrow> nat \<Rightarrow> hop_plan list \<Rightarrow> u128 \<Rightarrow> search_stats \<Rightarrow>
   'e + (hop_plan list \<times> u128) option \<times> search_stats" where
  "existing_hops env g quote c i [] next_amount st = Inr (Some ([], next_amount), st)"
| "existing_hops env g quote c i (hop # hops) next_amount st =
     res_bind (requote_splits env (quote_split g quote) (scale_splits_for_input (hp_splits hop) (hp_total_in hop) next_amount) 0)
       (\<lambda>r. case r of
          Inl dead \<Rightarrow> Inr (None, record_no_output i
            (unwrap_or (map_option ps_kind (pool_of g (sp_pool_id dead))) (hop_amm_kind c i)) (Some (sp_pool_id dead)) (sp_amount_in dead) st)
        | Inr (splits, total_out) \<Rightarrow>
            if splits = [] \<or> total_out = 0
            then Inr (None, record_no_output i (hop_amm_kind c i) (map_option ch_pool_id (nth_opt (cp_path c) i)) next_amount st)
            else res_bind (existing_hops env g quote c (Suc i) hops total_out st) (\<lambda>r. Inr (add_hop
              \<lparr>hp_token_in = hp_token_in hop, hp_token_out = hp_token_out hop, hp_total_in = next_amount,
               hp_total_out = total_out, hp_splits = splits\<rparr> r)))"

definition quote_existing_plan_splits ::
  "env \<Rightarrow> 'e quoter \<Rightarrow> graph_snapshot \<Rightarrow> candidate_path \<Rightarrow> exact_plan \<Rightarrow> u128 \<Rightarrow> u128 \<Rightarrow> search_stats \<Rightarrow>
   'e + exact_plan option \<times> search_stats" where
  "quote_existing_plan_splits env quote g c plan flash_premium_ppm input_amount st =
     finish_walk g c input_amount flash_premium_ppm
       (existing_hops env g quote c 0 (xp_hops plan) input_amount (one_more st))"

section \<open>The search\<close>

text \<open>The search works on the map of evaluated amounts and the counters; \<open>q\<close> quotes one amount.\<close>

type_synonym evaluated = "(u128 \<times> exact_plan option) list"
type_synonym 'e quote_at = "u128 \<Rightarrow> search_stats \<Rightarrow> 'e + exact_plan option \<times> search_stats"
type_synonym search_state = "evaluated \<times> search_stats"

definition evaluate_amount :: "'e quote_at \<Rightarrow> u128 \<Rightarrow> search_state \<Rightarrow> 'e + exact_plan option \<times> search_state" where
  "evaluate_amount q amount s =
     (case map_of (fst s) amount of
        Some plan \<Rightarrow> Inr (plan, s)
      | None \<Rightarrow> res_bind (q amount (snd s)) (\<lambda>(plan, st). Inr (plan, fst s @ [(amount, plan)], st)))"

definition evaluate_profit :: "'e quote_at \<Rightarrow> u128 \<Rightarrow> search_state \<Rightarrow> 'e + i128 \<times> search_state" where
  "evaluate_profit q amount s =
     res_bind (evaluate_amount q amount s) (\<lambda>(plan, s). Inr (unwrap_or (map_option xp_expected_profit plan) i128_min, s))"

definition take_plan :: "exact_plan option \<Rightarrow> exact_plan option \<Rightarrow> exact_plan option" where
  "take_plan best r = (case r of None \<Rightarrow> best | Some plan \<Rightarrow> better_plan best plan)"

fun evaluate_all :: "'e quote_at \<Rightarrow> u128 list \<Rightarrow> exact_plan option \<Rightarrow> search_state \<Rightarrow> 'e + exact_plan option \<times> search_state" where
  "evaluate_all q [] best s = Inr (best, s)"
| "evaluate_all q (amount # amounts) best s =
     res_bind (evaluate_amount q amount s) (\<lambda>(plan, s'). evaluate_all q amounts (take_plan best plan) s')"

text \<open>The loops that quote every amount afresh.\<close>

fun quote_all :: "'e quote_at \<Rightarrow> u128 list \<Rightarrow> exact_plan option \<Rightarrow> search_stats \<Rightarrow> 'e + exact_plan option \<times> search_stats" where
  "quote_all q [] best st = Inr (best, st)"
| "quote_all q (amount # amounts) best st =
     res_bind (q amount st) (\<lambda>(plan, st'). quote_all q amounts (take_plan best plan) st')"

text \<open>The ternary search: at most so many rounds, each of which keeps about two thirds of the range.\<close>

fun narrow :: "'e quote_at \<Rightarrow> nat \<Rightarrow> u128 \<Rightarrow> u128 \<Rightarrow> search_state \<Rightarrow> 'e + (u128 \<times> u128) \<times> search_state" where
  "narrow q 0 low high s = Inr ((low, high), s)"
| "narrow q (Suc n) low high s =
     (if sat_sub high low \<le> 32 then Inr ((low, high), s)
      else
        let width = high - low;
            mid_left = low + width div 3;
            mid_right = high - width div 3
        in res_bind (evaluate_profit q mid_left s) (\<lambda>(left_profit, s1).
           res_bind (evaluate_profit q mid_right s1) (\<lambda>(right_profit, s2).
             if left_profit < right_profit then narrow q n (sat_add mid_left 1) high s2
             else narrow q n low (max (sat_sub mid_right 1) low) s2)))"

definition fast_range :: "u128 \<Rightarrow> u128 \<Rightarrow> u128 \<Rightarrow> u128 \<times> u128" where
  "fast_range center min_amount max_amount =
     (let low = min (max (sat_sub center (center div 2)) min_amount) max_amount;
          high = min (max (sat_add center (center div 2)) (sat_add center 1)) max_amount
      in if high \<le> low then (min min_amount center, max max_amount center) else (low, high))"

definition search_fast_sized ::
  "'e quote_at \<Rightarrow> graph_snapshot \<Rightarrow> candidate_path \<Rightarrow> u128 \<Rightarrow> u128 \<Rightarrow> u128 \<Rightarrow> search_state \<Rightarrow> 'e + exact_plan option \<times> search_state" where
  "search_fast_sized q g c min_amount max_amount premium_ppm s =
     (let fast_points = suggest_input_amounts g c min_amount max_amount premium_ppm;
          s = (fst s, (snd s)\<lparr>ss_fast_sizer_points := length fast_points\<rparr>)
      in if fast_points = [] then Inr (None, s)
         else res_bind (evaluate_all q fast_points None s) (\<lambda>(best, s). case best of
             None \<Rightarrow> Inr (None, s)
           | Some initial_best \<Rightarrow>
               let (low, high) = fast_range (xp_input_amount initial_best) min_amount max_amount in
               res_bind (narrow q 12 low high s) (\<lambda>((low, high), s).
               res_bind (evaluate_all q (dense_points low high 16) best s) (\<lambda>(best, s). case best of
                   None \<Rightarrow> Inr (None, s)
                 | Some plan \<Rightarrow>
                     if xp_input_amount plan = low \<and> min_amount < low \<or> xp_input_amount plan = high \<and> high < max_amount
                     then Inr (None, fst s, (snd s)\<lparr>ss_used_wide_fallback := True\<rparr>)
                     else Inr (Some plan, s)))))"

text \<open>The neighbours of a seed on the ladder, and the search around it.\<close>

definition seed_range :: "u128 list \<Rightarrow> u128 \<Rightarrow> u128 \<Rightarrow> u128 \<Rightarrow> u128 \<times> u128" where
  "seed_range ordered center min_amount max_amount =
     (let center_pos = min (length (filter (\<lambda>a. a < center) ordered)) (length ordered - 1)
      in (if center_pos = 0 then min_amount else ordered ! (center_pos - 1),
          max (unwrap_or (nth_opt ordered (center_pos + 1)) max_amount) center))"

fun search_seeds ::
  "'e quote_at \<Rightarrow> u128 list \<Rightarrow> u128 \<Rightarrow> u128 \<Rightarrow> (i128 \<times> u128) list \<Rightarrow> exact_plan option \<Rightarrow> search_state \<Rightarrow>
   'e + exact_plan option \<times> search_state" where
  "search_seeds q ordered min_amount max_amount [] best s = Inr (best, s)"
| "search_seeds q ordered min_amount max_amount ((profit, center) # seeds) best s =
     (let (low, high) = seed_range ordered center min_amount max_amount in
      res_bind (evaluate_all q (refinement_points center max_amount) best s) (\<lambda>(best, s).
      res_bind (narrow q 32 low high s) (\<lambda>((low, high), s).
      res_bind (evaluate_all q (dense_points low high 64) best s) (\<lambda>(best, s).
        search_seeds q ordered min_amount max_amount seeds best s))))"

text \<open>\<open>order\<close> is the order in which the hash map lists its entries. \<open>dedup_by_key\<close> drops nothing, as the
  amounts of a map's entries are distinct.\<close>

definition seeds_of :: "(evaluated \<Rightarrow> evaluated) \<Rightarrow> evaluated \<Rightarrow> (i128 \<times> u128) list" where
  "seeds_of order ev =
     take 8 (sort_by (\<lambda>a b. cmp (fst b) (fst a))
       (List.map_filter (\<lambda>(amount, plan). map_option (\<lambda>p. (xp_expected_profit p, amount)) plan) (order ev)))"

definition search_lb :: "env \<Rightarrow> 'e quote_at \<Rightarrow> u128 \<Rightarrow> u128 \<Rightarrow> search_stats \<Rightarrow> 'e + exact_plan option \<times> search_stats" where
  "search_lb env q min_amount max_amount st = quote_all q (bounded_lb_amounts env min_amount max_amount) None st"

text \<open>The two verifications differ in the number of amounts and in the switch for a new optimisation.\<close>

definition verify_amounts ::
  "env \<Rightarrow> libm \<Rightarrow> split_optimizer \<Rightarrow> 'e quoter \<Rightarrow> graph_snapshot \<Rightarrow> candidate_path \<Rightarrow> nat \<Rightarrow> bool \<Rightarrow> exact_plan \<Rightarrow> u128 \<Rightarrow> u128 \<Rightarrow> u128 \<Rightarrow>
   search_stats \<Rightarrow> 'e + exact_plan option \<times> search_stats" where
  "verify_amounts env lm so vquote g c limit reoptimize plan premium_ppm min_amount max_amount st =
     quote_all (if reoptimize then quote_candidate_with_optimizer env lm so vquote g c premium_ppm
         else quote_existing_plan_splits env vquote g c plan premium_ppm)
       (verification_amounts (xp_input_amount plan) min_amount max_amount limit) None st"

definition verify_best_plan ::
  "env \<Rightarrow> libm \<Rightarrow> router \<Rightarrow> 'e quoter \<Rightarrow> graph_snapshot \<Rightarrow> candidate_path \<Rightarrow> exact_plan \<Rightarrow> u128 \<Rightarrow> u128 \<Rightarrow> u128 \<Rightarrow>
   search_stats \<Rightarrow> 'e + exact_plan option \<times> search_stats" where
  "verify_best_plan env lm ro vquote g c plan premium_ppm min_amount max_amount st =
     (case ro_verify_split_optimizer ro of
        None \<Rightarrow> Inr (Some plan, st)
      | Some so \<Rightarrow>
          if \<not> plan_uses_rpc_verified_adapter plan then Inr (Some plan, st)
          else verify_amounts env lm so vquote g c (ro_verify_v3_refinement_points ro) (ro_verify_v3_final_reoptimize ro) plan
            premium_ppm min_amount max_amount st)"

definition verify_probe_plan ::
  "env \<Rightarrow> libm \<Rightarrow> router \<Rightarrow> 'e quoter \<Rightarrow> graph_snapshot \<Rightarrow> candidate_path \<Rightarrow> exact_plan \<Rightarrow> u128 \<Rightarrow> u128 \<Rightarrow> u128 \<Rightarrow>
   search_stats \<Rightarrow> 'e + exact_plan option \<times> search_stats" where
  "verify_probe_plan env lm ro vquote g c plan premium_ppm min_amount max_amount st =
     (case ro_verify_split_optimizer ro of
        None \<Rightarrow> Inr (Some plan, st)
      | Some so \<Rightarrow> verify_amounts env lm so vquote g c (ro_verify_v3_early_probe_points ro) (ro_verify_v3_early_reoptimize ro) plan
            premium_ppm min_amount max_amount st)"

text \<open>\<open>search_best_plan\<close> and \<open>search_prerank_plan_with_stats\<close> are the two values of \<open>verify_final_plan\<close>;
  \<open>premium\<close> is what the flash loan engine answers.\<close>

definition search_ladder ::
  "env \<Rightarrow> libm \<Rightarrow> router \<Rightarrow> (evaluated \<Rightarrow> evaluated) \<Rightarrow> 'e quoter \<Rightarrow> 'e quoter \<Rightarrow> graph_snapshot \<Rightarrow> candidate_path \<Rightarrow> bool \<Rightarrow>
   u128 \<Rightarrow> u128 \<Rightarrow> u128 \<Rightarrow> search_state \<Rightarrow> 'e + exact_plan option \<times> search_stats" where
  "search_ladder env lm ro order quote vquote g c verify_final_plan premium_ppm min_amount max_amount s =
     (let q = quote_candidate_with_optimizer env lm (ro_split_optimizer ro) quote g c premium_ppm;
          ordered = ladder (ro_settings ro) g c
      in if ordered = [] then Inr (None, snd s)
         else res_bind (evaluate_all q ordered None s) (\<lambda>(best, s). case best of
             None \<Rightarrow> Inr (None, snd s)
           | Some plan \<Rightarrow>
               if verify_final_plan \<and> ro_verify_v3_early_exit ro \<and> ro_verify_split_optimizer ro \<noteq> None
                 \<and> plan_uses_rpc_verified_adapter plan
               then res_bind (verify_probe_plan env lm ro vquote g c plan premium_ppm min_amount max_amount (snd s))
                 (\<lambda>(probe, st). case probe of
                    None \<Rightarrow> Inr (None, st)
                  | Some verified \<Rightarrow> verify_best_plan env lm ro vquote g c verified premium_ppm min_amount max_amount st)
               else res_bind (search_seeds q (sort ordered) min_amount max_amount (seeds_of order (fst s)) best s)
                 (\<lambda>(best, s). case best of
                    None \<Rightarrow> Inr (None, snd s)
                  | Some plan \<Rightarrow>
                      if verify_final_plan then verify_best_plan env lm ro vquote g c plan premium_ppm min_amount max_amount (snd s)
                      else Inr (Some plan, snd s))))"

definition search_best_plan_with_stats_mode ::
  "env \<Rightarrow> libm \<Rightarrow> router \<Rightarrow> (evaluated \<Rightarrow> evaluated) \<Rightarrow> 'e + u128 \<Rightarrow> 'e quoter \<Rightarrow> 'e quoter \<Rightarrow> graph_snapshot \<Rightarrow> candidate_path \<Rightarrow>
   bool \<Rightarrow> 'e + exact_plan option \<times> search_stats" where
  "search_best_plan_with_stats_mode env lm ro order premium quote vquote g c verify_final_plan =
     res_bind premium (\<lambda>premium_ppm. case search_range (ro_settings ro) g c of
         None \<Rightarrow> Inr (None, search_stats_default\<lparr>ss_amount_range_missing := True\<rparr>)
       | Some (min_amount, max_amount) \<Rightarrow>
           let st = search_stats_default\<lparr>ss_min_amount := min_amount, ss_max_amount := max_amount\<rparr>;
               q = quote_candidate_with_optimizer env lm (ro_split_optimizer ro) quote g c premium_ppm
           in if candidate_uses_only_trader_joe_lb c
              then search_lb env (quote_lb_candidate_direct (if ro_verify_split_optimizer ro = None then quote else vquote) g c premium_ppm)
                     min_amount max_amount st
              else res_bind (search_fast_sized q g c min_amount max_amount premium_ppm ([], st)) (\<lambda>(fast, s). case fast of
                  Some plan \<Rightarrow>
                    let st = (snd s)\<lparr>ss_used_fast_sizer := True\<rparr> in
                    if verify_final_plan then verify_best_plan env lm ro vquote g c plan premium_ppm min_amount max_amount st
                    else Inr (Some plan, st)
                | None \<Rightarrow> search_ladder env lm ro order quote vquote g c verify_final_plan premium_ppm min_amount max_amount s))"

section \<open>What every quote of an amount promises\<close>

fun hops_chain :: "u128 \<Rightarrow> hop_plan list \<Rightarrow> u128 \<Rightarrow> bool" where
  "hops_chain a [] b = (a = b)"
| "hops_chain a (h # hs) b = (hp_total_in h = a \<and> hp_total_out h \<noteq> 0 \<and> hp_splits h \<noteq> [] \<and> hops_chain (hp_total_out h) hs b)"

definition plan_sound :: "graph_snapshot \<Rightarrow> candidate_path \<Rightarrow> u128 \<Rightarrow> exact_plan \<Rightarrow> bool" where
  "plan_sound g c premium_ppm p \<longleftrightarrow>
     hops_chain (xp_input_amount p) (xp_hops p) (xp_output_amount p) \<and>
     xp_input_token p = cp_start_token c \<and> xp_output_token p = cp_start_token c \<and>
     xp_gross_profit_raw p = wrap_i128 (as_i128 (xp_output_amount p) - as_i128 (xp_input_amount p)) \<and>
     xp_flash_fee_raw p = estimated_full_flash_fee_raw g c (xp_input_amount p) premium_ppm \<and>
     xp_expected_profit p = xp_gross_profit_raw p - u128_to_i128_saturating (xp_flash_fee_raw p) \<and>
     xp_net_profit_before_gas_raw p = xp_expected_profit p \<and>
     0 < xp_expected_profit p \<and> xp_expected_profit p \<le> xp_gross_profit_raw p \<and>
     xp_gas_limit p = estimate_gas_limit (xp_hops p)"

lemma u128_to_i128_range: "0 \<le> u128_to_i128_saturating v \<and> u128_to_i128_saturating v \<le> i128_max"
  by (auto simp: u128_to_i128_saturating_def)

lemma wrap_i128_bounds: "i128_min \<le> wrap_i128 x \<and> wrap_i128 x \<le> i128_max"
proof -
  have "0 \<le> (x + 2 ^ 127) mod 2 ^ 128" "(x + 2 ^ 127) mod 2 ^ 128 < 2 ^ 128"
    by simp_all
  then show ?thesis unfolding wrap_i128_def by simp
qed

lemma finish_plan_sound:
  assumes "finish_plan g c input premium_ppm hops out st = (Some p, st')" and "hops_chain input hops out"
  shows "plan_sound g c premium_ppm p \<and> xp_input_amount p = input"
proof -
  define gross where "gross = wrap_i128 (as_i128 out - as_i128 input)"
  define fee where "fee = estimated_full_flash_fee_raw g c input premium_ppm"
  have r: "0 \<le> u128_to_i128_saturating fee" "u128_to_i128_saturating fee \<le> i128_max" using u128_to_i128_range by blast+
  have b: "gross \<le> i128_max" unfolding gross_def using wrap_i128_bounds by blast
  from assms(1) have g0: "0 < gross" by (auto simp: finish_plan_def Let_def gross_def split: if_splits)
  with r b have cl: "clamp_i128 (gross - u128_to_i128_saturating fee) = gross - u128_to_i128_saturating fee"
    by (auto simp: clamp_i128_def)
  from assms(1) g0 have "0 < clamp_i128 (gross - u128_to_i128_saturating fee)"
    by (auto simp: finish_plan_def Let_def gross_def fee_def split: if_splits)
  with assms g0 cl r show ?thesis
    by (auto simp: finish_plan_def Let_def plan_sound_def gross_def [symmetric] fee_def [symmetric] split: if_splits)
qed

lemma add_hop_Some: "fst (add_hop h r) = Some (hops, out) \<longleftrightarrow> (\<exists>hs. fst r = Some (hs, out) \<and> hops = h # hs)"
  by (auto simp: add_hop_def split: option.splits)

lemma candidate_hops_chain:
  "candidate_hops opt i path a st = Inr (Some (hops, out), st') \<Longrightarrow> hops_chain a hops out"
proof (induction path arbitrary: i a st hops st')
  case (Cons hop path)
  from Cons.prems show ?case
    by (auto simp: res_bind_Inr add_hop_def split: if_splits dest!: Cons.IH)
qed simp

lemma lb_hops_chain:
  "lb_hops qs i path a st = Inr (Some (hops, out), st') \<Longrightarrow> hops_chain a hops out"
proof (induction path arbitrary: i a st hops st')
  case (Cons hop path)
  from Cons.prems show ?case
    by (auto simp: res_bind_Inr add_hop_def split: if_splits dest!: Cons.IH)
qed simp

lemma existing_hops_chain:
  "existing_hops env g quote c i path a st = Inr (Some (hops, out), st') \<Longrightarrow> hops_chain a hops out"
proof (induction path arbitrary: i a st hops st')
  case (Cons hop path)
  from Cons.prems obtain r where
    r: "requote_splits env (quote_split g quote) (scale_splits_for_input (hp_splits hop) (hp_total_in hop) a) 0 = Inr r"
    by (auto simp: res_bind_Inr)
  with Cons.prems show ?case
    by (cases r) (auto simp: res_bind_Inr add_hop_def split: if_splits dest!: Cons.IH)
qed simp

lemma finish_walk_sound:
  assumes "finish_walk g c input premium_ppm walk = Inr (Some p, st')"
    and "\<And>hops out st. walk = Inr (Some (hops, out), st) \<Longrightarrow> hops_chain input hops out"
  shows "plan_sound g c premium_ppm p \<and> xp_input_amount p = input"
  using assms by (auto simp: finish_walk_def res_bind_Inr split: option.splits dest: finish_plan_sound)

text \<open>The interface between the search and the quoting of one amount: whatever holds of every quoted plan
  holds of every plan the search keeps.\<close>

lemma better_plan_cases: "better_plan best p = Some p \<or> better_plan best p = best"
  by (simp add: better_plan_def)

lemma better_plan_max:
  "better_plan best p = Some r \<Longrightarrow> xp_expected_profit p \<le> xp_expected_profit r \<and>
     (\<forall>b. best = Some b \<longrightarrow> xp_expected_profit b \<le> xp_expected_profit r)"
  by (cases best) (auto simp: better_plan_def split: if_splits)

lemma better_plan_some: "\<exists>r. better_plan best p = Some r"
  by (cases best) (auto simp: better_plan_def)

definition best_of :: "exact_plan option \<Rightarrow> exact_plan \<Rightarrow> bool" where
  "best_of best p \<longleftrightarrow> (\<exists>b. best = Some b \<and> xp_expected_profit p \<le> xp_expected_profit b)"

lemma best_of_take: "best_of best p \<Longrightarrow> best_of (take_plan best r) p"
  by (auto simp: best_of_def take_plan_def better_plan_def split: option.splits)

lemma best_of_taken: "best_of (take_plan best (Some p)) p"
  by (cases best) (auto simp: best_of_def take_plan_def better_plan_def)

locale amount_quoter =
  fixes q :: "u128 \<Rightarrow> search_stats \<Rightarrow> 'e + exact_plan option \<times> search_stats"
    and good :: "u128 \<Rightarrow> exact_plan option \<Rightarrow> bool"
  assumes quoted_good: "q amount st = Inr (r, st') \<Longrightarrow> good amount r"
begin

definition memo_good :: "evaluated \<Rightarrow> bool" where
  "memo_good ev \<longleftrightarrow> (\<forall>(a, r)\<in>set ev. good a r)"

definition kept_good :: "exact_plan option \<Rightarrow> bool" where
  "kept_good best \<longleftrightarrow> (\<forall>p. best = Some p \<longrightarrow> (\<exists>a. good a (Some p)))"

lemma memo_good_Nil [simp]: "memo_good []"
  by (simp add: memo_good_def)

lemma kept_good_None [simp]: "kept_good None"
  by (simp add: kept_good_def)

lemma take_good: "kept_good best \<Longrightarrow> good a r \<Longrightarrow> kept_good (take_plan best r)"
  by (cases r) (auto simp: take_plan_def kept_good_def better_plan_def)

lemma evaluate_amount_good:
  assumes "evaluate_amount q a s = Inr (r, s')" and "memo_good (fst s)"
  shows "memo_good (fst s') \<and> good a r"
proof (cases "map_of (fst s) a")
  case None
  with assms show ?thesis by (auto simp: evaluate_amount_def res_bind_Inr memo_good_def dest: quoted_good)
next
  case (Some r')
  with assms have "r = r'" "s' = s" by (simp_all add: evaluate_amount_def)
  with Some assms(2) map_of_SomeD [OF Some] show ?thesis by (auto simp: memo_good_def)
qed

lemma evaluate_all_memo:
  "evaluate_all q as best s = Inr (r, s') \<Longrightarrow> memo_good (fst s) \<Longrightarrow> memo_good (fst s')"
  by (induction as arbitrary: best s) (auto simp: res_bind_Inr dest!: evaluate_amount_good)

lemma evaluate_all_good:
  "evaluate_all q as best s = Inr (r, s') \<Longrightarrow> memo_good (fst s) \<Longrightarrow> kept_good best \<Longrightarrow> memo_good (fst s') \<and> kept_good r"
proof (induction as arbitrary: best s)
  case (Cons a as)
  from Cons.prems(1) obtain plan s1 where e: "evaluate_amount q a s = Inr (plan, s1)"
    and rest: "evaluate_all q as (take_plan best plan) s1 = Inr (r, s')" by (auto simp: res_bind_Inr)
  from evaluate_amount_good [OF e Cons.prems(2)] take_good [OF Cons.prems(3)] rest
  show ?case by (intro Cons.IH) blast+
qed simp

lemma evaluate_profit_good:
  "evaluate_profit q a s = Inr (v, s') \<Longrightarrow> memo_good (fst s) \<Longrightarrow> memo_good (fst s')"
  by (auto simp: evaluate_profit_def res_bind_Inr dest: evaluate_amount_good)

lemma narrow_good:
  "narrow q n low high s = Inr (lh, s') \<Longrightarrow> memo_good (fst s) \<Longrightarrow> memo_good (fst s')"
proof (induction n arbitrary: low high s)
  case (Suc n)
  show ?case
  proof (cases "sat_sub high low \<le> 32")
    case False
    define ml where "ml = low + (high - low) div 3"
    define mr where "mr = high - (high - low) div 3"
    from Suc.prems(1) False obtain lp s1 rp s2 where
      l: "evaluate_profit q ml s = Inr (lp, s1)" and r: "evaluate_profit q mr s1 = Inr (rp, s2)"
      and rest: "(if lp < rp then narrow q n (sat_add ml 1) high s2 else narrow q n low (max (sat_sub mr 1) low) s2) = Inr (lh, s')"
      unfolding ml_def mr_def by (auto simp: Let_def res_bind_Inr)
    have "memo_good (fst s2)" using evaluate_profit_good l r Suc.prems(2) by blast
    with rest Suc.IH show ?thesis by (auto split: if_splits)
  qed (use Suc.prems in auto)
qed simp

lemma search_seeds_good:
  "search_seeds q ordered lo hi seeds best s = Inr (r, s') \<Longrightarrow> memo_good (fst s) \<Longrightarrow> kept_good best \<Longrightarrow> kept_good r"
proof (induction seeds arbitrary: best s)
  case (Cons seed seeds)
  obtain profit center where seed: "seed = (profit, center)" by (cases seed)
  obtain low high where sr: "seed_range ordered center lo hi = (low, high)" by (cases "seed_range ordered center lo hi")
  from Cons.prems(1) obtain b1 s1 low' high' s2 b2 s3 where
    1: "evaluate_all q (refinement_points center hi) best s = Inr (b1, s1)" and
    2: "narrow q 32 low high s1 = Inr ((low', high'), s2)" and
    3: "evaluate_all q (dense_points low' high' 64) b1 s2 = Inr (b2, s3)" and
    4: "search_seeds q ordered lo hi seeds b2 s3 = Inr (r, s')"
    unfolding seed by (simp only: search_seeds.simps sr Let_def case_prod_conv) (auto simp: res_bind_Inr)
  from evaluate_all_good [OF 1] Cons.prems have g1: "memo_good (fst s1)" "kept_good b1" by blast+
  from narrow_good [OF 2 g1(1)] have "memo_good (fst s2)" .
  from evaluate_all_good [OF 3 this g1(2)] Cons.IH [OF 4] show ?case by blast
qed simp

lemma quote_all_good:
  "quote_all q as best st = Inr (r, st') \<Longrightarrow> kept_good best \<Longrightarrow> kept_good r"
proof (induction as arbitrary: best st)
  case (Cons a as)
  from Cons.prems(1) obtain plan st1 where e: "q a st = Inr (plan, st1)"
    and rest: "quote_all q as (take_plan best plan) st1 = Inr (r, st')" by (auto simp: res_bind_Inr)
  from e have "good a plan" by (rule quoted_good)
  with take_good [OF Cons.prems(2)] have "kept_good (take_plan best plan)" by blast
  with rest show ?case by (rule Cons.IH)
qed simp

lemma search_fast_sized_good:
  assumes "search_fast_sized q g c lo hi ppm s = Inr (r, s')" and "memo_good (fst s)"
  shows "memo_good (fst s') \<and> kept_good r"
proof (cases "suggest_input_amounts g c lo hi ppm = []")
  case True
  with assms show ?thesis by (simp add: search_fast_sized_def Let_def) (metis fst_conv kept_good_None)
next
  case False
  define s0 where "s0 = (fst s, (snd s)\<lparr>ss_fast_sizer_points := length (suggest_input_amounts g c lo hi ppm)\<rparr>)"
  from assms(1) False obtain b s1 where 1: "evaluate_all q (suggest_input_amounts g c lo hi ppm) None s0 = Inr (b, s1)"
    by (auto simp: search_fast_sized_def Let_def res_bind_Inr s0_def)
  have "memo_good (fst s0)" using assms(2) by (simp add: s0_def)
  from evaluate_all_good [OF 1 this kept_good_None] have g1: "memo_good (fst s1)" "kept_good b" by blast+
  show ?thesis
  proof (cases b)
    case None
    with assms(1) False 1 have "r = None" "s' = s1" by (auto simp: search_fast_sized_def Let_def s0_def)
    with g1 show ?thesis by simp
  next
    case (Some p0)
    obtain low high where fr: "fast_range (xp_input_amount p0) lo hi = (low, high)"
      by (cases "fast_range (xp_input_amount p0) lo hi")
    from assms(1) False 1 Some fr obtain low' high' s2 b2 s3 where
      2: "narrow q 12 low high s1 = Inr ((low', high'), s2)" and
      3: "evaluate_all q (dense_points low' high' 16) b s2 = Inr (b2, s3)" and
      4: "fst s' = fst s3" "r = None \<or> r = b2"
      by (auto simp: search_fast_sized_def Let_def res_bind_Inr s0_def split: option.splits if_splits)
    from evaluate_all_good [OF 3 narrow_good [OF 2 g1(1)] g1(2)] 4 show ?thesis by auto
  qed
qed

end

text \<open>A quoter whose plan does not depend on the counters: the map of evaluated amounts is exact, and a plan
  that was evaluated is never lost for a worse one.\<close>

locale repeatable_quoter =
  fixes q :: "u128 \<Rightarrow> search_stats \<Rightarrow> 'e + exact_plan option \<times> search_stats"
  assumes repeatable: "map_sum (\<lambda>e. e) fst (q amount st) = map_sum (\<lambda>e. e) fst (q amount st')"
begin

definition gives :: "u128 \<Rightarrow> exact_plan option \<Rightarrow> bool" where
  "gives a r \<longleftrightarrow> (\<forall>st. map_sum (\<lambda>e. e) fst (q a st) = Inr r)"

lemma givesI: "q a st = Inr (r, st') \<Longrightarrow> gives a r"
  unfolding gives_def using repeatable [of a _ st] by simp

lemma gives_unique: "gives a r \<Longrightarrow> gives a r' \<Longrightarrow> r = r'"
  by (simp add: gives_def)

end

sublocale repeatable_quoter \<subseteq> exact: amount_quoter q gives
  by unfold_locales (rule givesI)

context repeatable_quoter
begin

lemma evaluate_amount_exact:
  "exact.memo_good (fst s) \<Longrightarrow> map_sum (\<lambda>e. e) fst (evaluate_amount q a s) = map_sum (\<lambda>e. e) fst (q a st)"
proof (cases "map_of (fst s) a")
  case None
  then show ?thesis using repeatable [of a "snd s" st]
    by (cases "q a (snd s)"; cases "q a st") (auto simp: evaluate_amount_def)
next
  case (Some r)
  assume "exact.memo_good (fst s)"
  with map_of_SomeD [OF Some] have "gives a r" by (auto simp: exact.memo_good_def)
  with Some show ?thesis by (simp add: evaluate_amount_def gives_def)
qed

lemma evaluate_all_best:
  "evaluate_all q as best s = Inr (r, s') \<Longrightarrow> exact.memo_good (fst s) \<Longrightarrow>
   (best_of best p \<or> (\<exists>a\<in>set as. gives a (Some p))) \<Longrightarrow> best_of r p"
proof (induction as arbitrary: best s)
  case (Cons a as)
  from Cons.prems(1) obtain plan s1 where e: "evaluate_amount q a s = Inr (plan, s1)"
    and rest: "evaluate_all q as (take_plan best plan) s1 = Inr (r, s')" by (auto simp: res_bind_Inr)
  from exact.evaluate_amount_good [OF e Cons.prems(2)] have m: "exact.memo_good (fst s1)" and g: "gives a plan" by blast+
  have "best_of (take_plan best plan) p \<or> (\<exists>a\<in>set as. gives a (Some p))"
  proof (cases "best_of best p \<or> gives a (Some p)")
    case True
    with gives_unique [OF g, of "Some p"] best_of_take [of best p plan] best_of_taken [of best p] show ?thesis by blast
  next
    case False
    with Cons.prems(3) show ?thesis by simp
  qed
  with rest m show ?case by (rule Cons.IH)
qed simp

lemma search_seeds_best:
  "search_seeds q ordered lo hi seeds best s = Inr (r, s') \<Longrightarrow> exact.memo_good (fst s) \<Longrightarrow> best_of best p \<Longrightarrow> best_of r p"
proof (induction seeds arbitrary: best s)
  case (Cons seed seeds)
  obtain profit center where seed: "seed = (profit, center)" by (cases seed)
  obtain low high where sr: "seed_range ordered center lo hi = (low, high)" by (cases "seed_range ordered center lo hi")
  from Cons.prems(1) obtain b1 s1 low' high' s2 b2 s3 where
    1: "evaluate_all q (refinement_points center hi) best s = Inr (b1, s1)" and
    2: "narrow q 32 low high s1 = Inr ((low', high'), s2)" and
    3: "evaluate_all q (dense_points low' high' 64) b1 s2 = Inr (b2, s3)" and
    4: "search_seeds q ordered lo hi seeds b2 s3 = Inr (r, s')"
    unfolding seed by (simp only: search_seeds.simps sr Let_def case_prod_conv) (auto simp: res_bind_Inr)
  have g1: "exact.memo_good (fst s1)" "best_of b1 p"
    using exact.evaluate_all_memo [OF 1 Cons.prems(2)] evaluate_all_best [OF 1 Cons.prems(2)] Cons.prems(3) by blast+
  have g2: "exact.memo_good (fst s2)" by (rule exact.narrow_good [OF 2 g1(1)])
  have "exact.memo_good (fst s3)" "best_of b2 p"
    using exact.evaluate_all_memo [OF 3 g2] evaluate_all_best [OF 3 g2] g1(2) by blast+
  with 4 show ?case by (rule Cons.IH)
qed simp

lemma search_fast_sized_best:
  assumes "search_fast_sized q g c lo hi ppm s = Inr (Some r, s')" and "exact.memo_good (fst s)"
    and a: "a \<in> set (suggest_input_amounts g c lo hi ppm)" and "gives a (Some p)"
  shows "best_of (Some r) p"
proof -
  define s0 where "s0 = (fst s, (snd s)\<lparr>ss_fast_sizer_points := length (suggest_input_amounts g c lo hi ppm)\<rparr>)"
  from a have ne: "suggest_input_amounts g c lo hi ppm \<noteq> []" by auto
  with assms(1) obtain b s1 where 1: "evaluate_all q (suggest_input_amounts g c lo hi ppm) None s0 = Inr (Some b, s1)"
    by (auto simp: search_fast_sized_def Let_def res_bind_Inr s0_def split: option.splits)
  obtain low high where fr: "fast_range (xp_input_amount b) lo hi = (low, high)"
    by (cases "fast_range (xp_input_amount b) lo hi")
  from assms(1) ne 1 fr obtain low' high' s2 s3 where
    2: "narrow q 12 low high s1 = Inr ((low', high'), s2)" and
    3: "evaluate_all q (dense_points low' high' 16) (Some b) s2 = Inr (Some r, s3)"
    by (auto simp: search_fast_sized_def Let_def res_bind_Inr s0_def split: option.splits if_splits)
  have m0: "exact.memo_good (fst s0)" using assms(2) by (simp add: s0_def)
  have "best_of (Some b) p" using evaluate_all_best [OF 1 m0] assms(4) a by blast
  then show ?thesis
    using evaluate_all_best [OF 3 exact.narrow_good [OF 2 exact.evaluate_all_memo [OF 1 m0]]] by blast
qed

end

section \<open>The quoting functions keep the contract\<close>

abbreviation (input) sound_for :: "graph_snapshot \<Rightarrow> candidate_path \<Rightarrow> u128 \<Rightarrow> u128 \<Rightarrow> exact_plan option \<Rightarrow> bool" where
  "sound_for g c premium_ppm \<equiv> \<lambda>a r. \<forall>p. r = Some p \<longrightarrow> plan_sound g c premium_ppm p \<and> xp_input_amount p = a"

interpretation cq: amount_quoter "quote_candidate_with_optimizer env lm so quote g c premium_ppm" "sound_for g c premium_ppm"
  for env lm so quote g c premium_ppm
  by unfold_locales (auto simp: quote_candidate_with_optimizer_def dest!: finish_walk_sound intro: candidate_hops_chain)

interpretation lq: amount_quoter "quote_lb_candidate_direct quote g c premium_ppm" "sound_for g c premium_ppm"
  for quote g c premium_ppm
  by unfold_locales (auto simp: quote_lb_candidate_direct_def dest!: finish_walk_sound intro: lb_hops_chain)

interpretation eq: amount_quoter "quote_existing_plan_splits env quote g c plan premium_ppm" "sound_for g c premium_ppm"
  for env quote g c plan premium_ppm
  by unfold_locales (auto simp: quote_existing_plan_splits_def dest!: finish_walk_sound intro: existing_hops_chain)

lemma candidate_hops_blind:
  "map_sum (\<lambda>e. e) fst (candidate_hops opt i path a st) = map_sum (\<lambda>e. e) fst (candidate_hops opt i path a st')"
proof (induction path arbitrary: i a st st')
  case (Cons hop path)
  show ?case
  proof (cases "opt (ch_from hop) (ch_to hop) a")
    case (Inr r)
    obtain splits out where r: "r = (splits, out)" by (cases r)
    from Cons.IH [of "Suc i" out st st'] Inr r show ?thesis
      by (cases "candidate_hops opt (Suc i) path out st"; cases "candidate_hops opt (Suc i) path out st'")
         (auto simp: add_hop_def)
  qed simp
qed simp

lemma finish_plan_blind: "fst (finish_plan g c a ppm hops out st) = fst (finish_plan g c a ppm hops out st')"
  by (simp add: finish_plan_def Let_def)

lemma finish_walk_blind:
  "map_sum (\<lambda>e. e) fst w = map_sum (\<lambda>e. e) fst w' \<Longrightarrow>
   map_sum (\<lambda>e. e) fst (finish_walk g c a ppm w) = map_sum (\<lambda>e. e) fst (finish_walk g c a ppm w')"
  by (cases w; cases w') (auto simp: finish_walk_def split: option.splits intro: finish_plan_blind)

interpretation rq: repeatable_quoter "quote_candidate_with_optimizer env lm so quote g c premium_ppm"
  for env lm so quote g c premium_ppm
  by unfold_locales (simp add: quote_candidate_with_optimizer_def finish_walk_blind [OF candidate_hops_blind])

text \<open>The plans that the verifying quoter has priced.\<close>

definition priced_by_verifier ::
  "env \<Rightarrow> libm \<Rightarrow> 'e quoter \<Rightarrow> graph_snapshot \<Rightarrow> candidate_path \<Rightarrow> u128 \<Rightarrow> exact_plan \<Rightarrow> bool" where
  "priced_by_verifier env lm vquote g c premium_ppm p \<longleftrightarrow>
     (\<exists>so st st'. quote_candidate_with_optimizer env lm so vquote g c premium_ppm (xp_input_amount p) st = Inr (Some p, st')) \<or>
     (\<exists>plan st st'. quote_existing_plan_splits env vquote g c plan premium_ppm (xp_input_amount p) st = Inr (Some p, st')) \<or>
     (\<exists>st st'. quote_lb_candidate_direct vquote g c premium_ppm (xp_input_amount p) st = Inr (Some p, st'))"

abbreviation (input) verified_for ::
  "env \<Rightarrow> libm \<Rightarrow> 'e quoter \<Rightarrow> graph_snapshot \<Rightarrow> candidate_path \<Rightarrow> u128 \<Rightarrow> u128 \<Rightarrow> exact_plan option \<Rightarrow> bool" where
  "verified_for env lm vquote g c premium_ppm \<equiv> \<lambda>a r. \<forall>p. r = Some p \<longrightarrow> priced_by_verifier env lm vquote g c premium_ppm p"

interpretation cv: amount_quoter "quote_candidate_with_optimizer env lm so quote g c premium_ppm" "verified_for env lm quote g c premium_ppm"
  for env lm so quote g c premium_ppm
  by unfold_locales (metis priced_by_verifier_def cq.quoted_good)

interpretation lv: amount_quoter "quote_lb_candidate_direct quote g c premium_ppm" "verified_for env lm quote g c premium_ppm"
  for env lm quote g c premium_ppm
  by unfold_locales (metis priced_by_verifier_def lq.quoted_good)

interpretation ev: amount_quoter "quote_existing_plan_splits env quote g c plan premium_ppm" "verified_for env lm quote g c premium_ppm"
  for env lm quote g c plan premium_ppm
  by unfold_locales (metis priced_by_verifier_def eq.quoted_good)

section \<open>The search is sound\<close>

lemma verify_amounts_checked:
  assumes "verify_amounts env lm so vquote g c limit re plan ppm lo hi st = Inr (Some p, st')"
  shows "plan_sound g c ppm p \<and> priced_by_verifier env lm vquote g c ppm p"
proof (cases re)
  case True
  with assms show ?thesis
    using cq.quote_all_good [of env lm so vquote g c ppm _ None st "Some p" st'] cv.quote_all_good [of env lm so vquote g c ppm _ None st "Some p" st']
    unfolding verify_amounts_def cq.kept_good_def cv.kept_good_def by fastforce
next
  case False
  with assms show ?thesis
    using eq.quote_all_good [of env vquote g c plan ppm _ None st "Some p" st'] ev.quote_all_good [of env vquote g c plan ppm _ None st "Some p" st' lm]
    unfolding verify_amounts_def eq.kept_good_def ev.kept_good_def by fastforce
qed

definition checked :: "env \<Rightarrow> libm \<Rightarrow> 'e quoter \<Rightarrow> graph_snapshot \<Rightarrow> candidate_path \<Rightarrow> u128 \<Rightarrow> exact_plan \<Rightarrow> bool" where
  "checked env lm vquote g c ppm p \<longleftrightarrow> \<not> plan_uses_rpc_verified_adapter p \<or> priced_by_verifier env lm vquote g c ppm p"

lemma verify_best_plan_checked:
  assumes "verify_best_plan env lm ro vquote g c plan ppm lo hi st = Inr (Some p, st')" and "plan_sound g c ppm plan"
  shows "plan_sound g c ppm p \<and> (ro_verify_split_optimizer ro \<noteq> None \<longrightarrow> checked env lm vquote g c ppm p)"
  using assms verify_amounts_checked [of env lm _ vquote g c _ _ plan ppm lo hi st p st']
  by (auto simp: verify_best_plan_def checked_def split: option.splits if_splits)

lemma verify_probe_plan_checked:
  assumes "verify_probe_plan env lm ro vquote g c plan ppm lo hi st = Inr (Some p, st')" and "plan_sound g c ppm plan"
  shows "plan_sound g c ppm p"
  using assms verify_amounts_checked [of env lm _ vquote g c _ _ plan ppm lo hi st p st']
  by (auto simp: verify_probe_plan_def split: option.splits)

lemma search_ladder_checked:
  assumes r: "search_ladder env lm ro order quote vquote g c verify ppm lo hi s = Inr (Some p, st)"
    and m: "cq.memo_good g c ppm (fst s)"
  shows "plan_sound g c ppm p \<and> (verify \<and> ro_verify_split_optimizer ro \<noteq> None \<longrightarrow> checked env lm vquote g c ppm p)"
proof -
  define q where "q = quote_candidate_with_optimizer env lm (ro_split_optimizer ro) quote g c ppm"
  note good = cq.evaluate_all_good [of env lm "ro_split_optimizer ro" quote g c ppm, folded q_def]
    cq.search_seeds_good [of env lm "ro_split_optimizer ro" quote g c ppm, folded q_def]
  from r obtain best s1 where 1: "evaluate_all q (ladder (ro_settings ro) g c) None s = Inr (Some best, s1)"
    by (auto simp: search_ladder_def Let_def q_def res_bind_Inr split: if_splits option.splits)
  from good(1) [OF 1 m] have m1: "cq.memo_good g c ppm (fst s1)" and b: "plan_sound g c ppm best"
    and k: "cq.kept_good g c ppm (Some best)"
    by (auto simp: cq.kept_good_def)
  show ?thesis
  proof (cases "verify \<and> ro_verify_v3_early_exit ro \<and> ro_verify_split_optimizer ro \<noteq> None \<and> plan_uses_rpc_verified_adapter best")
    case True
    with r 1 obtain probe st1 where
      2: "verify_probe_plan env lm ro vquote g c best ppm lo hi (snd s1) = Inr (Some probe, st1)" and
      3: "verify_best_plan env lm ro vquote g c probe ppm lo hi st1 = Inr (Some p, st)"
      by (auto simp: search_ladder_def Let_def q_def res_bind_Inr split: if_splits option.splits)
    from verify_best_plan_checked [OF 3 verify_probe_plan_checked [OF 2 b]] show ?thesis by blast
  next
    case False
    with r 1 obtain plan s2 where
      2: "search_seeds q (sort (ladder (ro_settings ro) g c)) lo hi (seeds_of order (fst s1)) (Some best) s1 = Inr (Some plan, s2)" and
      3: "if verify then verify_best_plan env lm ro vquote g c plan ppm lo hi (snd s2) = Inr (Some p, st) else plan = p"
      by (auto simp: search_ladder_def Let_def q_def res_bind_Inr split: if_splits option.splits)
    from good(2) [OF 2 m1 k] have "plan_sound g c ppm plan" by (auto simp: cq.kept_good_def)
    with 3 show ?thesis by (auto split: if_splits dest: verify_best_plan_checked)
  qed
qed

lemma search_checked:
  assumes r: "search_best_plan_with_stats_mode env lm ro order premium quote vquote g c verify = Inr (Some p, st)"
  shows "\<exists>ppm. premium = Inr ppm \<and> plan_sound g c ppm p \<and>
    (verify \<and> ro_verify_split_optimizer ro \<noteq> None \<longrightarrow> checked env lm vquote g c ppm p)"
proof -
  from r obtain ppm lo hi where p: "premium = Inr ppm" and range: "search_range (ro_settings ro) g c = Some (lo, hi)"
    by (auto simp: search_best_plan_with_stats_mode_def res_bind_Inr split: option.splits)
  define q where "q = quote_candidate_with_optimizer env lm (ro_split_optimizer ro) quote g c ppm"
  define st0 where "st0 = search_stats_default\<lparr>ss_min_amount := lo, ss_max_amount := hi\<rparr>"
  note r = r [unfolded search_best_plan_with_stats_mode_def p range res_bind_simps option.case prod.case Let_def, folded q_def st0_def]
  show ?thesis
  proof (cases "candidate_uses_only_trader_joe_lb c")
    case True
    with r have lb: "quote_all (quote_lb_candidate_direct (if ro_verify_split_optimizer ro = None then quote else vquote) g c ppm)
      (bounded_lb_amounts env lo hi) None st0 = Inr (Some p, st)" by (simp add: search_lb_def)
    from lq.quote_all_good [OF lb] lv.quote_all_good [OF lb, of env lm] p show ?thesis
      by (auto simp: lq.kept_good_def lv.kept_good_def checked_def split: if_splits)
  next
    case False
    with r obtain fast s where f: "search_fast_sized q g c lo hi ppm ([], st0) = Inr (fast, s)"
      by (auto simp: res_bind_Inr)
    from cq.search_fast_sized_good [OF f [unfolded q_def]] have m: "cq.memo_good g c ppm (fst s)" and k: "cq.kept_good g c ppm fast"
      by simp_all
    show ?thesis
    proof (cases fast)
      case None
      with r False f have "search_ladder env lm ro order quote vquote g c verify ppm lo hi s = Inr (Some p, st)" by simp
      from search_ladder_checked [OF this m] p show ?thesis by blast
    next
      case (Some plan)
      with k have b: "plan_sound g c ppm plan" by (auto simp: cq.kept_good_def)
      from r False f Some have "if verify then \<exists>st1. verify_best_plan env lm ro vquote g c plan ppm lo hi st1 = Inr (Some p, st) else plan = p"
        by (auto split: if_splits)
      with b p show ?thesis by (auto split: if_splits dest: verify_best_plan_checked)
    qed
  qed
qed

lemma search_ladder_prerank:
  assumes "search_ladder env lm ro order quote vquote g c False ppm lo hi s = Inr (r, st)" and "ladder (ro_settings ro) g c \<noteq> []"
  shows "\<exists>best s1. evaluate_all (quote_candidate_with_optimizer env lm (ro_split_optimizer ro) quote g c ppm) (ladder (ro_settings ro) g c) None s
      = Inr (best, s1) \<and> (best = None \<and> r = None \<or> best \<noteq> None \<and>
      (\<exists>s2. search_seeds (quote_candidate_with_optimizer env lm (ro_split_optimizer ro) quote g c ppm) (sort (ladder (ro_settings ro) g c)) lo hi
        (seeds_of order (fst s1)) best s1 = Inr (r, s2)))"
proof -
  define q where "q = quote_candidate_with_optimizer env lm (ro_split_optimizer ro) quote g c ppm"
  from assms obtain best s1 where 1: "evaluate_all q (ladder (ro_settings ro) g c) None s = Inr (best, s1)"
    by (auto simp: search_ladder_def Let_def q_def res_bind_Inr)
  with assms show ?thesis unfolding q_def [symmetric]
    by (cases best) (auto simp: search_ladder_def Let_def q_def [symmetric] res_bind_Inr split: option.splits)
qed

lemma ladder_best_kept:
  assumes r: "search_best_plan_with_stats_mode env lm ro order (Inr ppm) quote vquote g c False = Inr (r, st)"
    and range: "search_range (ro_settings ro) g c = Some (lo, hi)" and lb: "\<not> candidate_uses_only_trader_joe_lb c"
    and no_fast: "suggest_input_amounts g c lo hi ppm = []"
    and a: "a \<in> set (ladder (ro_settings ro) g c)"
    and p: "quote_candidate_with_optimizer env lm (ro_split_optimizer ro) quote g c ppm a st0 = Inr (Some p, st1)"
  shows "best_of r p"
proof -
  define q where "q = quote_candidate_with_optimizer env lm (ro_split_optimizer ro) quote g c ppm"
  note facts = rq.evaluate_all_best [of env lm "ro_split_optimizer ro" quote g c ppm, folded q_def]
    rq.exact.evaluate_all_memo [of env lm "ro_split_optimizer ro" quote g c ppm, folded q_def]
    rq.search_seeds_best [of env lm "ro_split_optimizer ro" quote g c ppm, folded q_def]
  from a have ne: "ladder (ro_settings ro) g c \<noteq> []" by auto
  from r range lb no_fast obtain s0 where s0: "fst s0 = []"
    and l: "search_ladder env lm ro order quote vquote g c False ppm lo hi s0 = Inr (r, st)"
    by (simp add: search_best_plan_with_stats_mode_def search_fast_sized_def Let_def) (metis fst_conv)
  from search_ladder_prerank [OF l ne] obtain best s1 where
    1: "evaluate_all q (ladder (ro_settings ro) g c) None s0 = Inr (best, s1)" and
    2: "best = None \<and> r = None \<or> best \<noteq> None \<and>
      (\<exists>s2. search_seeds q (sort (ladder (ro_settings ro) g c)) lo hi (seeds_of order (fst s1)) best s1 = Inr (r, s2))"
    unfolding q_def [symmetric] by blast
  note m0 = rq.exact.memo_good_Nil [of env lm "ro_split_optimizer ro" quote g c ppm, folded s0 q_def]
  have "best_of best p" using facts(1) [OF 1 m0] rq.givesI [OF p, folded q_def] a by blast
  moreover have "best_of r p" if "search_seeds q ordered lo hi seeds best s1 = Inr (r, s2)" "best_of best p" for ordered seeds s2
    using facts(3) [OF that(1) facts(2) [OF 1 m0] that(2)] .
  ultimately show ?thesis using 2 by (auto simp: best_of_def)
qed

section \<open>Only the pricing can fail\<close>

lemma greedy_pass_total: "total_quoter quote \<Longrightarrow> \<exists>r. greedy_pass so g quote refs a b total_in st = Inr r"
proof -
  assume t: "total_quoter quote"
  let ?jobs = "slice_jobs so g refs (min (total_in - gr_assigned st) (min_slice_of total_in)) st"
  have "\<exists>quotes. map_res (\<lambda>(idx, pool_id, amount). map_sum (\<lambda>e. e) (Pair idx) (quote_ref g quote a b pool_id amount)) ?jobs = Inr quotes"
  proof (rule map_res_total)
    fix x assume "x \<in> set ?jobs"
    obtain idx pool_id amount where x: "x = (idx, pool_id, amount)" by (cases x)
    obtain v where "quote_ref g quote a b pool_id amount = Inr v" using quote_ref_total [OF t] by blast
    with x show "\<exists>y. (case x of (idx, pool_id, amount) \<Rightarrow> map_sum (\<lambda>e. e) (Pair idx) (quote_ref g quote a b pool_id amount)) = Inr y"
      by simp
  qed
  then show ?thesis by (auto simp: greedy_pass_def Let_def split: list.split prod.split)
qed

lemma greedy_split_total: "total_quoter quote \<Longrightarrow> \<exists>r. greedy_split so g quote refs a b total_in st = Inr r"
proof (induction so g quote refs a b total_in st rule: greedy_split.induct)
  case (1 so g quote refs a b total_in st)
  obtain r where r: "greedy_pass so g quote refs a b total_in st = Inr r" using greedy_pass_total [OF 1(2)] by blast
  show ?case
  proof (cases "gr_assigned st < total_in \<and> r \<noteq> None")
    case True
    then obtain st' where "r = Some st'" by blast
    with 1 r True show ?thesis by (subst greedy_split.simps) simp
  next
    case False
    with r show ?thesis by (subst greedy_split.simps) auto
  qed
qed

lemma optimize_pair_total:
  assumes "total_quoter quote"
  shows "\<exists>r. optimize_pair env lm so g quote a b total_in = Inr r"
proof -
  have "\<exists>r. res_bind (case optimal_v2_allocations lm g refs a b total_in of None \<Rightarrow> Inr ([], 0)
      | Some allocations \<Rightarrow> materialize env so g quote a b refs allocations None)
      (\<lambda>closed. if fst closed \<noteq> [] then Inr closed else res_bind (greedy_split so g quote refs' a b total_in st)
        (\<lambda>st. materialize env so g quote a b refs' (gr_allocations st) (Some (gr_outputs st)))) = Inr r" for refs refs' st
  proof -
    obtain st' where g: "greedy_split so g quote refs' a b total_in st = Inr st'" using greedy_split_total [OF assms] by blast
    obtain r where "materialize env so g quote a b refs' (gr_allocations st') (Some (gr_outputs st')) = Inr r"
      using materialize_total [OF assms] by blast
    with g have rest: "\<exists>r. res_bind (greedy_split so g quote refs' a b total_in st)
        (\<lambda>st. materialize env so g quote a b refs' (gr_allocations st) (Some (gr_outputs st))) = Inr r" by simp
    show ?thesis
    proof (cases "optimal_v2_allocations lm g refs a b total_in")
      case None
      with rest show ?thesis by simp
    next
      case (Some allocations)
      obtain closed where "materialize env so g quote a b refs allocations None = Inr closed"
        using materialize_total [OF assms] by blast
      with Some rest show ?thesis by (cases "fst closed = []") simp_all
    qed
  qed
  then show ?thesis using single_best_total [OF assms] by (simp add: optimize_pair_def Let_def)
qed

lemma finish_walk_total: "\<exists>x. walk = Inr x \<Longrightarrow> \<exists>x. finish_walk g c a ppm walk = Inr x"
  by (auto simp: finish_walk_def split: option.split)

lemma candidate_hops_total:
  assumes "\<And>a b x. \<exists>r. opt a b x = Inr r"
  shows "\<exists>r. candidate_hops opt i path x st = Inr r"
proof (induction path arbitrary: i x st)
  case (Cons hop path)
  obtain splits out where "opt (ch_from hop) (ch_to hop) x = Inr (splits, out)" using assms [of "ch_from hop" "ch_to hop" x] by auto
  with Cons.IH [of "Suc i" out st] show ?case by auto
qed simp

lemma lb_hops_total:
  assumes "\<And>p. \<exists>r. qs p = Inr r"
  shows "\<exists>r. lb_hops qs i path x st = Inr r"
proof (induction path arbitrary: i x st)
  case (Cons hop path)
  obtain out where "qs (lb_split hop x) = Inr out" using assms by blast
  with Cons.IH [of "Suc i" out st] show ?case by auto
qed simp

lemma requote_splits_total:
  assumes "\<And>p. \<exists>r. qs p = Inr r"
  shows "\<exists>r. requote_splits env qs ps total_out = Inr r"
proof (induction ps arbitrary: total_out)
  case (Cons p ps)
  obtain out where "qs p = Inr out" using assms by blast
  with Cons.IH [of "sat_add total_out out"] show ?case by auto
qed simp

lemma existing_hops_total:
  assumes "total_quoter quote"
  shows "\<exists>r. existing_hops env g quote c i hops x st = Inr r"
proof (induction hops arbitrary: i x st)
  case (Cons hop hops)
  have "\<exists>r. quote_split g quote p = Inr r" for p using quote_ref_total [OF assms] by (simp add: quote_split_def)
  from requote_splits_total [of "quote_split g quote", OF this] obtain r where
    r: "requote_splits env (quote_split g quote) (scale_splits_for_input (hp_splits hop) (hp_total_in hop) x) 0 = Inr r" by blast
  show ?case
  proof (cases r)
    case (Inr r')
    obtain splits out where "r' = (splits, out)" by (cases r')
    with r Inr Cons.IH [of "Suc i" out st] show ?thesis by auto
  qed (simp add: r)
qed simp

text \<open>The interface for quoters that always answer.\<close>

locale answering_quoter =
  fixes q :: "u128 \<Rightarrow> search_stats \<Rightarrow> 'e + exact_plan option \<times> search_stats"
  assumes answers: "\<exists>x. q amount st = Inr x"
begin

lemma evaluate_amount_answers: "\<exists>x. evaluate_amount q a s = Inr x"
  using answers [of a "snd s"] by (auto simp: evaluate_amount_def split: option.split)

lemma evaluate_all_answers: "\<exists>x. evaluate_all q as best s = Inr x"
proof (induction as arbitrary: best s)
  case (Cons a as)
  obtain r s' where "evaluate_amount q a s = Inr (r, s')" using evaluate_amount_answers [of a s] by auto
  with Cons.IH [of "take_plan best r" s'] show ?case by simp
qed simp

lemma evaluate_profit_answers: "\<exists>x. evaluate_profit q a s = Inr x"
  using evaluate_amount_answers [of a s] by (auto simp: evaluate_profit_def)

lemma quote_all_answers: "\<exists>x. quote_all q as best st = Inr x"
proof (induction as arbitrary: best st)
  case (Cons a as)
  obtain r s' where "q a st = Inr (r, s')" using answers [of a st] by auto
  with Cons.IH [of "take_plan best r" s'] show ?case by simp
qed simp

lemma narrow_answers: "\<exists>x. narrow q n low high s = Inr x"
proof (induction n arbitrary: low high s)
  case (Suc n)
  obtain lp s1 where l: "evaluate_profit q (low + (high - low) div 3) s = Inr (lp, s1)"
    using evaluate_profit_answers [of "low + (high - low) div 3" s] by auto
  obtain rp s2 where r: "evaluate_profit q (high - (high - low) div 3) s1 = Inr (rp, s2)"
    using evaluate_profit_answers [of "high - (high - low) div 3" s1] by auto
  from l r Suc.IH show ?case by (simp add: Let_def)
qed simp

lemma search_seeds_answers: "\<exists>x. search_seeds q ordered lo hi seeds best s = Inr x"
proof (induction seeds arbitrary: best s)
  case (Cons seed seeds)
  obtain profit center where seed: "seed = (profit, center)" by (cases seed)
  obtain low high where sr: "seed_range ordered center lo hi = (low, high)" by (cases "seed_range ordered center lo hi")
  obtain b1 s1 where 1: "evaluate_all q (refinement_points center hi) best s = Inr (b1, s1)"
    using evaluate_all_answers [of "refinement_points center hi" best s] by auto
  obtain low' high' s2 where 2: "narrow q 32 low high s1 = Inr ((low', high'), s2)"
    using narrow_answers [of 32 low high s1] by auto
  obtain b2 s3 where 3: "evaluate_all q (dense_points low' high' 64) b1 s2 = Inr (b2, s3)"
    using evaluate_all_answers [of "dense_points low' high' 64" b1 s2] by auto
  from Cons.IH [of b2 s3] show ?case unfolding seed by (simp add: sr 1 2 3 Let_def del: narrow.simps)
qed simp

lemma search_fast_sized_answers: "\<exists>x. search_fast_sized q g c lo hi ppm s = Inr x"
proof (cases "suggest_input_amounts g c lo hi ppm = []")
  case False
  define s0 where "s0 = (fst s, (snd s)\<lparr>ss_fast_sizer_points := length (suggest_input_amounts g c lo hi ppm)\<rparr>)"
  obtain b s1 where 1: "evaluate_all q (suggest_input_amounts g c lo hi ppm) None s0 = Inr (b, s1)"
    using evaluate_all_answers [of _ None s0] by (metis surj_pair)
  show ?thesis
  proof (cases b)
    case (Some p0)
    obtain low high where fr: "fast_range (xp_input_amount p0) lo hi = (low, high)"
      by (cases "fast_range (xp_input_amount p0) lo hi")
    obtain low' high' s2 where 2: "narrow q 12 low high s1 = Inr ((low', high'), s2)"
      using narrow_answers [of 12 low high s1] by auto
    obtain b2 s3 where 3: "evaluate_all q (dense_points low' high' 16) b s2 = Inr (b2, s3)"
      using evaluate_all_answers [of "dense_points low' high' 16" b s2] by auto
    from False 1 fr 2 3 Some show ?thesis
      by (simp add: search_fast_sized_def Let_def s0_def [symmetric] del: narrow.simps split: option.split)
  qed (use False 1 in \<open>simp add: search_fast_sized_def Let_def s0_def [symmetric]\<close>)
qed (simp add: search_fast_sized_def Let_def)

end

lemma candidate_answers:
  assumes "total_quoter quote"
  shows "answering_quoter (quote_candidate_with_optimizer env lm so quote g c ppm)"
  by (unfold_locales, unfold quote_candidate_with_optimizer_def)
     (intro finish_walk_total candidate_hops_total optimize_pair_total assms)

lemma lb_answers:
  assumes "total_quoter quote"
  shows "answering_quoter (quote_lb_candidate_direct quote g c ppm)"
  by (unfold_locales, unfold quote_lb_candidate_direct_def quote_split_def)
     (intro finish_walk_total lb_hops_total quote_ref_total assms)

lemma existing_answers:
  assumes "total_quoter quote"
  shows "answering_quoter (quote_existing_plan_splits env quote g c plan ppm)"
  by (unfold_locales, unfold quote_existing_plan_splits_def)
     (intro finish_walk_total existing_hops_total assms)

text \<open>A quoter that never fails, as the interfaces see it.\<close>

definition flat_candidate_quote :: "env \<Rightarrow> libm \<Rightarrow> split_optimizer \<Rightarrow> graph_snapshot \<Rightarrow> candidate_path \<Rightarrow> u128 \<Rightarrow> unit quote_at" where
  "flat_candidate_quote env lm so g c ppm = quote_candidate_with_optimizer env lm so flat_quote g c ppm"

interpretation aq: answering_quoter "flat_candidate_quote env lm so g c ppm" for env lm so g c ppm
  unfolding flat_candidate_quote_def by (rule candidate_answers) (simp add: total_quoter_def flat_quote_def)

lemma verify_amounts_total:
  assumes "total_quoter vquote"
  shows "\<exists>x. verify_amounts env lm so vquote g c limit re plan ppm lo hi st = Inr x"
  unfolding verify_amounts_def
  using answering_quoter.quote_all_answers [OF candidate_answers [OF assms]]
    answering_quoter.quote_all_answers [OF existing_answers [OF assms]] by simp

lemma verify_plan_total:
  assumes "total_quoter vquote"
  shows "\<exists>x. verify_best_plan env lm ro vquote g c plan ppm lo hi st = Inr x"
    and "\<exists>x. verify_probe_plan env lm ro vquote g c plan ppm lo hi st = Inr x"
  using verify_amounts_total [OF assms] by (simp_all add: verify_best_plan_def verify_probe_plan_def split: option.split)

lemma search_ladder_total:
  assumes quote: "total_quoter quote" and vquote: "total_quoter vquote"
  shows "\<exists>x. search_ladder env lm ro order quote vquote g c verify ppm lo hi s = Inr x"
proof -
  define q where "q = quote_candidate_with_optimizer env lm (ro_split_optimizer ro) quote g c ppm"
  note a = candidate_answers [OF quote, of env lm "ro_split_optimizer ro" g c ppm, folded q_def]
  obtain best s1 where 1: "evaluate_all q (ladder (ro_settings ro) g c) None s = Inr (best, s1)"
    using answering_quoter.evaluate_all_answers [OF a] by (metis surj_pair)
  obtain b2 s2 where 2: "search_seeds q (sort (ladder (ro_settings ro) g c)) lo hi (seeds_of order (fst s1)) best s1 = Inr (b2, s2)"
    using answering_quoter.search_seeds_answers [OF a] by (metis surj_pair)
  have 3: "\<exists>x. res_bind (verify_probe_plan env lm ro vquote g c plan ppm lo hi st)
      (\<lambda>(probe, st). case probe of None \<Rightarrow> Inr (None, st)
        | Some verified \<Rightarrow> verify_best_plan env lm ro vquote g c verified ppm lo hi st) = Inr x" for plan st
  proof -
    obtain probe st1 where "verify_probe_plan env lm ro vquote g c plan ppm lo hi st = Inr (probe, st1)"
      using verify_plan_total(2) [OF vquote] by (metis surj_pair)
    then show ?thesis using verify_plan_total(1) [OF vquote] by (simp split: option.split)
  qed
  show ?thesis
    unfolding search_ladder_def Let_def q_def [symmetric]
    using 1 2 3 verify_plan_total(1) [OF vquote] by (cases best; cases b2) simp_all
qed

lemma search_total:
  assumes "total_quoter quote" and "total_quoter vquote"
  shows "\<exists>plan st. search_best_plan_with_stats_mode env lm ro order (Inr ppm) quote vquote g c verify = Inr (plan, st)"
proof -
  define q where "q = quote_candidate_with_optimizer env lm (ro_split_optimizer ro) quote g c ppm"
  note a = candidate_answers [OF assms(1), of env lm "ro_split_optimizer ro" g c ppm, folded q_def]
  have "\<exists>x. search_best_plan_with_stats_mode env lm ro order (Inr ppm) quote vquote g c verify = Inr x"
  proof (cases "search_range (ro_settings ro) g c")
    case (Some r)
    obtain lo hi where r: "r = (lo, hi)" by (cases r)
    define st where "st = search_stats_default\<lparr>ss_min_amount := lo, ss_max_amount := hi\<rparr>"
    obtain fast s where f: "search_fast_sized q g c lo hi ppm ([], st) = Inr (fast, s)"
      using answering_quoter.search_fast_sized_answers [OF a] by (metis surj_pair)
    have lb: "\<exists>x. search_lb env (quote_lb_candidate_direct (if ro_verify_split_optimizer ro = None then quote else vquote) g c ppm) lo hi st = Inr x"
      unfolding search_lb_def by (rule answering_quoter.quote_all_answers [OF lb_answers]) (simp add: assms)
    show ?thesis
      using Some r f lb verify_plan_total(1) [OF assms(2)] search_ladder_total [OF assms]
      by (simp add: search_best_plan_with_stats_mode_def Let_def q_def [symmetric] st_def [symmetric] split: option.split)
  qed (simp add: search_best_plan_with_stats_mode_def)
  then show ?thesis by simp
qed


section \<open>A run\<close>

definition demo_v3_pool :: pool_state where
  "demo_v3_pool = demo_pool\<lparr>ps_kind := UniswapV3Like, ps_token_addresses := [1, 1],
     ps_state := S_UniswapV3Like \<lparr>v3_sqrt_price_x96 = 0, v3_liquidity = 0, v3_tick = 0, v3_fee = 0, v3_tick_spacing = 1\<rparr>\<rparr>"

definition demo_v3_edge :: edge where
  "demo_v3_edge = mk_edge demo_v3_pool UniswapV3Like 0 0 0 (2 ^ 128, 0, \<lparr>l_estimated_usd_e8 = 0, l_safe_capacity_in = 2 ^ 80\<rparr>)"

definition demo_v3_graph :: "env \<Rightarrow> libm \<Rightarrow> graph_snapshot" where
  "demo_v3_graph env lm = (graph_build env lm 1 None [demo_token 1] [])
     \<lparr>gs_adjacency := [[demo_v3_edge]], gs_pair_to_edges := [(0, 0) \<mapsto> [\<lparr>er_from = 0, er_edge_idx = 0\<rparr>]],
      gs_pools := [(9, demo_v3_pool)]\<rparr>"

definition demo_loop :: "amm_kind \<Rightarrow> candidate_path" where
  "demo_loop kind = demo_candidate [\<lparr>ch_from = 1, ch_to = 1, ch_pool_id = 9, ch_amm_kind = kind, ch_dex_name = ''dex''\<rparr>]"

definition gain_quote :: "unit quoter" where "gain_quote pool token_in token_out amount = Inr (amount + 1000)"

definition demo_settings :: "settings \<Rightarrow> settings" where "demo_settings = with_max_position 15000000000000000"

definition demo_router :: "settings \<Rightarrow> router" where
  "demo_router s = \<lparr>ro_split_optimizer = demo_optimizer, ro_verify_split_optimizer = Some demo_optimizer,
     ro_settings = demo_settings s, ro_verify_v3_refinement_points = 3, ro_verify_v3_early_exit = True,
     ro_verify_v3_early_reoptimize = False, ro_verify_v3_final_reoptimize = False, ro_verify_v3_early_probe_points = 1\<rparr>"

lemma demo_v3_facts:
  "token_index (demo_v3_graph env lm) 1 = Some 0" "gs_tokens (demo_v3_graph env lm) = [demo_token 1]"
  "pair_edges (demo_v3_graph env lm) 1 1 = [\<lparr>er_from = 0, er_edge_idx = 0\<rparr>]"
  "edge_of (demo_v3_graph env lm) \<lparr>er_from = 0, er_edge_idx = 0\<rparr> = Some demo_v3_edge"
  "pool_of (demo_v3_graph env lm) 9 = Some demo_v3_pool"
  "e_capacity demo_v3_edge = 2 ^ 80" "e_spot_rate_q128 demo_v3_edge = 2 ^ 128" "e_pool_id demo_v3_edge = 9"
  by (simp_all add: demo_v3_graph_def token_index_def graph_build_def index_tokens_def Let_def demo_token_def pair_edges_def
      edge_of_def nth_opt_def pool_of_def demo_v3_edge_def mk_edge_def demo_v3_pool_def demo_pool_def)

lemma demo_capacity: "capacity_walk (demo_v3_graph env lm) (max n 1) f_one (F_Inf False) (cp_path (demo_loop kind)) = Some (2 ^ 80)"
proof -
  have t: "take (max n (Suc 0)) [e] = [e]" for e :: edge by (cases "max n (Suc 0)") auto
  have 1: "f64_of_word (2 ^ 80 :: u128) = F_Fin False (2 ^ 80)" by (simp add: f64_eval)
  have 2: "f64_of_word (2 ^ 128 :: u256) = F_Fin False (2 ^ 128)" by (simp add: f64_eval)
  have 3: "f64_to_u128 (F_Fin False (2 ^ 80)) = 2 ^ 80" unfolding f64_to_u128_def f64_points by (simp add: f_le_def f64_eval)
  have 4: "\<not> f_le f_one f_zero" "f_min (F_Inf False) (F_Fin False (2 ^ 80)) = F_Fin False (2 ^ 80)"
    by (simp_all add: f_le_def f_min_def)
  show ?thesis
    using 1 2 3 4
    by (simp add: demo_loop_def demo_candidate_def demo_v3_facts Let_def t List.map_filter_def sat_add_def q128_to_f64_def)
       (simp add: f64_eval)
qed

lemma demo_loop_range:
  "search_range (demo_settings s) (demo_v3_graph env lm) (demo_loop kind) = Some (10000000000000000, 15000000000000000)"
proof -
  have p: "t_manual_price_usd_e8 (demo_token 1) = None" "unat (t_decimals (demo_token 1)) = 18" by (simp_all add: demo_token_def)
  have c: "cp_start_token (demo_loop kind) = 1" "cp_path (demo_loop kind) \<noteq> []" by (simp_all add: demo_loop_def demo_candidate_def)
  note cap = demo_capacity [of env lm _ kind, unfolded max_def]
  show ?thesis
    by (simp add: search_range_def c demo_v3_facts Let_def max_position_of_token_def usd_e8_to_amount_def p
        demo_settings_def with_max_position_def route_start_capacity_raw_def demo_capacity [unfolded One_nat_def])
qed

lemma demo_quote:
  "\<exists>p st1. quote_candidate_with_optimizer env' lm' demo_optimizer gain_quote (demo_v3_graph env lm) (demo_loop kind) 500
     10000000000000000 st = Inr (Some p, st1)"
proof -
  let ?g = "demo_v3_graph env lm"
  let ?r = "\<lparr>er_from = 0, er_edge_idx = 0\<rparr>"
  have refs: "ranked_pair_edges ?g [?r] 8 x = [?r]" for x by (simp add: ranked_pair_edges_def Let_def)
  obtain extra where x: "split_extra_of env' demo_v3_pool 1 1 = Some extra"
    by (simp add: split_extra_of_def demo_v3_pool_def Let_def)
  have "fits_capacity demo_v3_edge 10000000000000000" by (simp add: fits_capacity_def demo_v3_facts)
  then have "\<exists>splits. splits \<noteq> [] \<and> optimize_pair env' lm' demo_optimizer ?g gain_quote 1 1 10000000000000000 = Inr (splits, 10000000000001000)"
    by (simp add: optimize_pair_def demo_v3_facts refs demo_optimizer_def should_split_def single_best_def List.map_filter_def
      quote_ref_def gain_quote_def materialize_def materialize_one_def nth_opt_def split_plan_of_def x Let_def
      filter_opt_def sat_add_def)
  then obtain splits where "splits \<noteq> []"
    "optimize_pair env' lm' demo_optimizer ?g gain_quote 1 1 10000000000000000 = Inr (splits, 10000000000001000)" by blast
  moreover have "\<not> full_flash ?g (demo_loop kind)"
    by (simp add: full_flash_def demo_v3_facts demo_loop_def demo_candidate_def nth_opt_def demo_token_def)
  ultimately show ?thesis
    by (simp add: quote_candidate_with_optimizer_def demo_loop_def demo_candidate_def finish_walk_def add_hop_def finish_plan_def
      Let_def estimated_full_flash_fee_raw_def u128_to_i128_saturating_def as_i128_def wrap_i128_def clamp_i128_def)
qed

lemma demo_no_fast: "suggest_input_amounts (demo_v3_graph env lm) (demo_loop UniswapV3Like) lo hi ppm = []"
  by (simp add: suggest_input_amounts_def v2_path_curve_def demo_loop_def demo_candidate_def demo_v3_facts demo_v3_pool_def)

lemma demo_not_lb: "\<not> candidate_uses_only_trader_joe_lb (demo_loop UniswapV3Like)"
  by (simp add: candidate_uses_only_trader_joe_lb_def demo_loop_def demo_candidate_def)

lemma demo_on_ladder: "10000000000000000 \<in> set (ladder (ro_settings (demo_router s)) (demo_v3_graph env lm) (demo_loop kind))"
  by (subst ladder_def) (simp add: demo_router_def demo_loop_range ladder_from.simps)

lemma demo_optimizer_of: "ro_split_optimizer (demo_router s) = demo_optimizer"
  by (simp add: demo_router_def)

lemma demo_search:
  "\<exists>p st. search_best_plan_with_stats_mode env' lm' (demo_router s) order (Inr 500) gain_quote gain_quote
     (demo_v3_graph env lm) (demo_loop UniswapV3Like) False = Inr (Some p, st)"
proof -
  let ?g = "demo_v3_graph env lm"
  let ?c = "demo_loop UniswapV3Like"
  have t: "total_quoter gain_quote" by (simp add: total_quoter_def gain_quote_def)
  from search_total [OF t t] obtain r st where
    r: "search_best_plan_with_stats_mode env' lm' (demo_router s) order (Inr 500) gain_quote gain_quote ?g ?c False = Inr (r, st)" by blast
  obtain p st1 where q: "quote_candidate_with_optimizer env' lm' (ro_split_optimizer (demo_router s)) gain_quote ?g ?c 500
      10000000000000000 search_stats_default = Inr (Some p, st1)"
    unfolding demo_optimizer_of using demo_quote by blast
  have "best_of r p"
    by (rule ladder_best_kept [OF r _ _ demo_no_fast demo_on_ladder q]) (simp_all add: demo_router_def demo_loop_range demo_not_lb)
  with r show ?thesis by (auto simp: best_of_def)
qed

section \<open>Properties\<close>

text \<open>C38: a route search fails only when pricing fails: if the flash premium is known and both quoters always
  answer, \<open>search_best_plan\<close> and \<open>search_prerank_plan_with_stats\<close> return a result, whatever the graph, the
  candidate, the settings and the order of the hash map.\<close>

theorem search_answers:
  assumes "total_quoter quote" and "total_quoter vquote"
  shows "\<exists>plan st. search_best_plan_with_stats_mode env lm ro order (Inr ppm) quote vquote g c verify = Inr (plan, st)"
  by (rule search_total [OF assms])

lemma search_answers_witness:
  "\<forall>env lm ro g c. \<exists>plan st. search_best_plan_with_stats_mode env lm ro (\<lambda>ev. ev) (Inr 500) flat_quote flat_quote g c True = Inr (plan, st)"
proof (intro allI)
  fix env lm ro g c
  have t: "total_quoter flat_quote" by (simp add: total_quoter_def flat_quote_def)
  show "\<exists>plan st. search_best_plan_with_stats_mode env lm ro (\<lambda>ev. ev) (Inr 500) flat_quote flat_quote g c True = Inr (plan, st)"
    by (rule search_answers [OF t t])
qed

text \<open>C5: every plan a search returns hangs together, whichever of the searches and verifications made it: its hops
  chain from the input amount to the output amount with a pool and a positive output on each, it starts and ends
  in the candidate's start token, and its expected profit is positive and is the output less the input less the
  premium of the flash loan. Below 2^127 the difference of the amounts is the exact one.\<close>

theorem search_plan_sound:
  assumes "search_best_plan_with_stats_mode env lm ro order premium quote vquote g c verify = Inr (Some p, st)"
  shows "hops_chain (xp_input_amount p) (xp_hops p) (xp_output_amount p) \<and>
    xp_input_token p = cp_start_token c \<and> xp_output_token p = cp_start_token c \<and> 0 < xp_expected_profit p \<and>
    (\<exists>ppm. premium = Inr ppm \<and> xp_expected_profit p = xp_gross_profit_raw p -
        u128_to_i128_saturating (estimated_full_flash_fee_raw g c (xp_input_amount p) ppm)) \<and>
    (uint (xp_input_amount p) < 2 ^ 127 \<and> uint (xp_output_amount p) < 2 ^ 127 \<longrightarrow>
       xp_gross_profit_raw p = uint (xp_output_amount p) - uint (xp_input_amount p))"
proof -
  from search_checked [OF assms] obtain ppm where ppm: "premium = Inr ppm" and p: "plan_sound g c ppm p" by blast
  have "wrap_i128 (as_i128 b - as_i128 a) = uint b - uint a" if "uint a < 2 ^ 127" "uint b < 2 ^ 127" for a b :: u128
  proof -
    have m: "(y - x + 2 ^ 127) mod 2 ^ 128 = y - x + 2 ^ 127" if "0 \<le> x" "0 \<le> y" "x < 2 ^ 127" "y < 2 ^ 127" for x y :: int
      using that by (intro mod_pos_pos_trivial) simp_all
    have "(uint b - uint a + 2 ^ 127) mod 2 ^ 128 = uint b - uint a + 2 ^ 127" by (rule m) (simp_all add: that [simplified])
    with that show ?thesis by (simp add: wrap_i128_def as_i128_def)
  qed
  with ppm p show ?thesis by (auto simp: plan_sound_def)
qed

lemma search_plan_sound_witness:
  "\<forall>env lm s. \<exists>p st. search_best_plan_with_stats_mode env lm (demo_router s) (\<lambda>ev. ev) (Inr 500) gain_quote gain_quote
       (demo_v3_graph env lm) (demo_loop UniswapV3Like) False = Inr (Some p, st) \<and> 0 < xp_expected_profit p"
proof (intro allI)
  fix env lm s
  obtain p st where r: "search_best_plan_with_stats_mode env lm (demo_router s) (\<lambda>ev. ev) (Inr 500) gain_quote gain_quote
       (demo_v3_graph env lm) (demo_loop UniswapV3Like) False = Inr (Some p, st)" using demo_search by blast
  with search_plan_sound [OF r] show "\<exists>p st. search_best_plan_with_stats_mode env lm (demo_router s) (\<lambda>ev. ev) (Inr 500) gain_quote gain_quote
       (demo_v3_graph env lm) (demo_loop UniswapV3Like) False = Inr (Some p, st) \<and> 0 < xp_expected_profit p" by blast
qed

text \<open>C6: with the verifying quoter configured, no final search returns a V3 or Liquidity Book split at a price that only
  the local model has given: the plan uses no such pool, or the verifying quoter has priced it, by a new optimisation, on
  the splits of an earlier plan, or hop by hop.\<close>

theorem search_returns_verified:
  assumes "search_best_plan_with_stats_mode env lm ro order (Inr ppm) quote vquote g c True = Inr (Some p, st)"
    and "ro_verify_split_optimizer ro = Some so"
  shows "\<not> plan_uses_rpc_verified_adapter p \<or> priced_by_verifier env lm vquote g c ppm p"
  using search_checked [OF assms(1)] assms(2) by (auto simp: checked_def)

lemma demo_lb_amounts: "bounded_lb_amounts env 10000000000000000 15000000000000000 = [10000000000000000, 15000000000000000]"
proof -
  obtain n where n: "max 2 (min 64 (env_usize env ''LB_EXACT_SEARCH_POINTS'' 18)) = Suc n"
    by (metis max.cobounded1 not0_implies_Suc not_numeral_le_zero)
  have "doublings n 20000000000000000 15000000000000000 = []" by (cases n) simp_all
  then show ?thesis by (simp add: bounded_lb_amounts_def n Let_def sat_mul_def)
qed

lemma search_returns_verified_witness:
  "\<forall>env lm s. \<exists>p st. search_best_plan_with_stats_mode env lm (demo_router s) (\<lambda>ev. ev) (Inr 500) flat_quote gain_quote
       (demo_v3_graph env lm) (demo_loop TraderJoeLb) True = Inr (Some p, st) \<and>
     plan_uses_rpc_verified_adapter p \<and> priced_by_verifier env lm gain_quote (demo_v3_graph env lm) (demo_loop TraderJoeLb) 500 p"
proof (intro allI)
  fix env lm s
  let ?g = "demo_v3_graph env lm"
  let ?c = "demo_loop TraderJoeLb"
  have lb: "candidate_uses_only_trader_joe_lb ?c"
    by (simp add: candidate_uses_only_trader_joe_lb_def demo_loop_def demo_candidate_def)
  have nf: "\<not> full_flash ?g ?c"
    by (simp add: full_flash_def demo_v3_facts demo_loop_def demo_candidate_def nth_opt_def demo_token_def)
  have q: "\<exists>p st1. quote_lb_candidate_direct gain_quote ?g ?c 500 a st = Inr (Some p, st1) \<and> plan_uses_rpc_verified_adapter p"
    if a: "a = 10000000000000000 \<or> a = 15000000000000000" for a st
  proof -
    have u: "a + 1000 \<noteq> 0" "uint a = 10000000000000000 \<or> uint a = 15000000000000000" using a by auto
    have qs: "quote_split ?g gain_quote (lb_split hop a) = Inr (a + 1000)" if "ch_pool_id hop = 9" for hop
      using that by (simp add: quote_split_def quote_ref_def lb_split_def demo_v3_facts gain_quote_def)
    have "\<exists>hops st1. lb_hops (quote_split ?g gain_quote) 0 (cp_path ?c) a (one_more st) = Inr (Some (hops, a + 1000), st1) \<and>
        list_ex (\<lambda>hop. list_ex (\<lambda>p. sp_adapter_type p = A_TraderJoeLb) (hp_splits hop)) hops"
      using u(1) by (simp add: demo_loop_def demo_candidate_def qs add_hop_def) (simp add: lb_split_def)
    moreover have "0 < wrap_i128 (as_i128 (a + 1000) - as_i128 a)"
      using a by (elim disjE) (simp_all add: wrap_i128_def as_i128_def)
    moreover have "0 < clamp_i128 (wrap_i128 (as_i128 (a + 1000) - as_i128 a))"
      using a by (elim disjE) (simp_all add: wrap_i128_def as_i128_def clamp_i128_def)
    ultimately show ?thesis using nf
      by (fastforce simp: quote_lb_candidate_direct_def finish_walk_def finish_plan_def Let_def estimated_full_flash_fee_raw_def
        u128_to_i128_saturating_def plan_uses_rpc_verified_adapter_def list_ex_iff)
  qed
  have "\<exists>p st1. search_best_plan_with_stats_mode env lm (demo_router s) (\<lambda>ev. ev) (Inr 500) flat_quote gain_quote ?g ?c True
      = Inr (Some p, st1) \<and> plan_uses_rpc_verified_adapter p"
  proof -
    define st0 where "st0 = search_stats_default\<lparr>ss_min_amount := 10000000000000000, ss_max_amount := 15000000000000000\<rparr>"
    obtain p1 st1 where 1: "quote_lb_candidate_direct gain_quote ?g ?c 500 10000000000000000 st0 = Inr (Some p1, st1)"
      "plan_uses_rpc_verified_adapter p1" using q [of 10000000000000000 st0] by auto
    obtain p2 st2 where 2: "quote_lb_candidate_direct gain_quote ?g ?c 500 15000000000000000 st1 = Inr (Some p2, st2)"
      "plan_uses_rpc_verified_adapter p2" using q [of 15000000000000000 st1] by auto
    from 1 2 lb show ?thesis
      by (simp add: search_best_plan_with_stats_mode_def demo_router_def demo_loop_range search_lb_def demo_lb_amounts st0_def
        take_plan_def better_plan_def)
  qed
  then obtain p st where r: "search_best_plan_with_stats_mode env lm (demo_router s) (\<lambda>ev. ev) (Inr 500) flat_quote gain_quote ?g ?c True
      = Inr (Some p, st)" and u: "plan_uses_rpc_verified_adapter p" by blast
  have v: "ro_verify_split_optimizer (demo_router s) = Some demo_optimizer" by (simp add: demo_router_def)
  from search_returns_verified [OF r v] r u
  show "\<exists>p st. search_best_plan_with_stats_mode env lm (demo_router s) (\<lambda>ev. ev) (Inr 500) flat_quote gain_quote ?g ?c True = Inr (Some p, st) \<and>
     plan_uses_rpc_verified_adapter p \<and> priced_by_verifier env lm gain_quote ?g ?c 500 p" by blast
qed

text \<open>the search never loses what its own ladder has found. For a candidate without a closed form (some pool
  is not a constant product pool) the ranking search returns a plan whose expected profit is at least that of every
  amount on the ladder, although the amounts around the seeds are quoted later, in any order of the hash map.\<close>

theorem search_keeps_ladder_best:
  assumes "search_best_plan_with_stats_mode env lm ro order (Inr ppm) quote vquote g c False = Inr (r, st)"
    and "search_range (ro_settings ro) g c = Some (lo, hi)" and "\<not> candidate_uses_only_trader_joe_lb c"
    and "suggest_input_amounts g c lo hi ppm = []" and "a \<in> set (ladder (ro_settings ro) g c)"
    and "quote_candidate_with_optimizer env lm (ro_split_optimizer ro) quote g c ppm a st0 = Inr (Some p, st1)"
  shows "\<exists>b. r = Some b \<and> xp_expected_profit p \<le> xp_expected_profit b"
  using ladder_best_kept [OF assms] by (simp add: best_of_def)

lemma search_keeps_ladder_best_witness:
  "\<forall>env lm s. \<exists>p st1 b st. quote_candidate_with_optimizer env lm demo_optimizer gain_quote (demo_v3_graph env lm)
       (demo_loop UniswapV3Like) 500 10000000000000000 search_stats_default = Inr (Some p, st1) \<and>
     search_best_plan_with_stats_mode env lm (demo_router s) (\<lambda>ev. ev) (Inr 500) gain_quote gain_quote
       (demo_v3_graph env lm) (demo_loop UniswapV3Like) False = Inr (Some b, st) \<and> xp_expected_profit p \<le> xp_expected_profit b"
proof (intro allI)
  fix env lm s
  let ?g = "demo_v3_graph env lm"
  let ?c = "demo_loop UniswapV3Like"
  obtain b st where r: "search_best_plan_with_stats_mode env lm (demo_router s) (\<lambda>ev. ev) (Inr 500) gain_quote gain_quote ?g ?c False
    = Inr (Some b, st)" using demo_search by blast
  obtain p st1 where q: "quote_candidate_with_optimizer env lm demo_optimizer gain_quote ?g ?c 500
      10000000000000000 search_stats_default = Inr (Some p, st1)" using demo_quote by blast
  have range: "search_range (ro_settings (demo_router s)) ?g ?c = Some (10000000000000000, 15000000000000000)"
    by (simp add: demo_router_def demo_loop_range)
  note search_keeps_ladder_best [OF r range demo_not_lb demo_no_fast demo_on_ladder, unfolded demo_optimizer_of, OF q]
  with r q show "\<exists>p st1 b st. quote_candidate_with_optimizer env lm demo_optimizer gain_quote ?g ?c 500 10000000000000000
      search_stats_default = Inr (Some p, st1) \<and>
     search_best_plan_with_stats_mode env lm (demo_router s) (\<lambda>ev. ev) (Inr 500) gain_quote gain_quote ?g ?c False = Inr (Some b, st) \<and>
     xp_expected_profit p \<le> xp_expected_profit b" by blast
qed

section \<open>The amounts the search visits\<close>

lemma points_from_range: "set (points_from a step high) \<subseteq> {a..high}"
proof (induction a step high rule: points_from.induct)
  case (1 current step high)
  show ?case
  proof (cases "current \<le> high \<and> \<not> sat_add current step \<le> current")
    case True
    then have "set (points_from (sat_add current step) step high) \<subseteq> {sat_add current step..high}" using 1 by blast
    also have "\<dots> \<subseteq> {current..high}" using True by auto
    finally show ?thesis using True by (subst points_from.simps) (simp add: Let_def)
  qed (subst points_from.simps, auto simp: Let_def)
qed

lemma points_from_length:
  "0 < step \<Longrightarrow> a \<le> high \<Longrightarrow> length (points_from a step high) \<le> 2 + (unat high - unat a) div unat step"
proof (induction a step high rule: points_from.induct)
  case (1 current step high)
  define nxt where "nxt = sat_add current step"
  have s: "0 < unat step" using 1(2) by (simp add: word_less_nat_alt)
  have unfold: "length (points_from current step high) = (if nxt \<le> current then 1 else Suc (length (points_from nxt step high)))"
    using 1(3) by (subst points_from.simps) (simp add: nxt_def Let_def)
  consider "nxt \<le> current" | "\<not> nxt \<le> current" "high < nxt" | "\<not> nxt \<le> current" "nxt \<le> high" "nxt = - 1"
    | "\<not> nxt \<le> current" "nxt \<le> high" "unat nxt = unat current + unat step"
  proof -
    have "nxt = - 1 \<or> unat nxt = unat current + unat step" by (simp add: nxt_def sat_add_def unat_add_lem [THEN iffD1])
    with that show thesis by (cases "nxt \<le> current"; cases "nxt \<le> high") (auto simp: not_le)
  qed
  then show ?case
  proof cases
    case 2
    then have "points_from nxt step high = []" by (subst points_from.simps) auto
    with unfold show ?thesis by simp
  next
    case 3
    then have "sat_add nxt step \<le> nxt" by (simp add: word_order.extremum)
    with 3 have "length (points_from nxt step high) = 1" by (subst points_from.simps) (simp add: Let_def)
    with unfold 3 show ?thesis by simp
  next
    case 4
    with 1(1) [OF 1(3) nxt_def 4(1) 1(2)] have "length (points_from nxt step high) \<le> 2 + (unat high - unat nxt) div unat step" by simp
    moreover have "unat high - unat current = (unat high - unat nxt) + unat step"
      using 4 by (simp add: word_le_nat_alt)
    then have "Suc ((unat high - unat nxt) div unat step) = (unat high - unat current) div unat step" using s by simp
    ultimately show ?thesis using unfold 4 by simp
  qed (use unfold in simp)
qed

lemma points_from_hd: "a \<le> high \<Longrightarrow> points_from a step high \<noteq> [] \<and> hd (points_from a step high) = a"
  by (subst (1 2) points_from.simps) simp

lemma dense_step:
  fixes w t :: u128
  assumes "t < w" and "0 < t"
  shows "unat w div unat (max (w div t) 1) \<le> 2 * unat t"
proof -
  have t: "0 < unat t" "unat t < unat w" using assms by (simp_all add: word_less_nat_alt)
  then have q: "0 < unat w div unat t" by (simp add: div_greater_zero_iff)
  have step: "unat (max (w div t) 1) = unat w div unat t"
    using q by (simp add: unat_max_of_words unat_div_distrib)
  have "unat w div unat (max (w div t) 1) * (unat w div unat t) \<le> unat w" unfolding step by simp
  moreover have "unat w < (unat w div unat t + 1) * unat t"
    using t(1) by (metis add.commute div_less_iff_less_mult less_add_one)
  moreover have "(unat w div unat t + 1) * unat t \<le> 2 * unat t * (unat w div unat t)"
    using q by (cases "unat w div unat t") auto
  ultimately have "unat w div unat (max (w div t) 1) * (unat w div unat t) < 2 * unat t * (unat w div unat t)" by linarith
  then show ?thesis using q by simp
qed

text \<open>the dense sweep visits both ends of its range, leaves the range at no point and costs at most two
  quotes more than twice the target.\<close>

theorem dense_points_ok:
  assumes "low \<le> high" and "0 < target"
  shows "{low, high} \<subseteq> set (dense_points low high target) \<and> set (dense_points low high target) \<subseteq> {low..high} \<and>
    length (dense_points low high target) \<le> 2 * unat target + 3"
proof (cases "high - low \<le> target")
  case True
  define w where "w = unat (high - low)"
  have hl: "unat high = unat low + w" using assms(1) by (simp add: w_def unat_sub word_le_nat_alt)
  have u: "unat (low + word_of_nat k) = unat low + k" if "k \<le> w" for k
  proof -
    have "unat low + k < 2 ^ 128" using hl that unat_lt_size [of high] by (simp add: word_size)
    then show ?thesis using that by (simp add: unat_word_ariths take_bit_nat_eq_self unat_of_nat)
  qed
  have d: "dense_points low high target = map (\<lambda>k. low + word_of_nat k) [0..<Suc w]"
    using True assms(1) by (simp add: dense_points_def Let_def w_def)
  have "low + word_of_nat w = high" using u [of w] hl by (simp add: word_unat_eq_iff)
  moreover have "low + word_of_nat k \<in> set (dense_points low high target)" if "k < Suc w" for k
    unfolding d set_map using that by (intro imageI) auto
  from this [of 0] this [of w] have "low \<in> set (dense_points low high target)" "low + word_of_nat w \<in> set (dense_points low high target)"
    by simp_all
  ultimately have "{low, high} \<subseteq> set (dense_points low high target)" by simp
  moreover have "set (dense_points low high target) \<subseteq> {low..high}"
    unfolding d using u hl by (auto simp: word_le_nat_alt)
  moreover have "w \<le> unat target" using True by (simp add: w_def word_le_nat_alt)
  ultimately show ?thesis unfolding d by simp
next
  case False
  define pts where "pts = points_from low (max ((high - low) div target) 1) high"
  have d: "dense_points low high target = (if pts = [] \<or> last pts \<noteq> high then pts @ [high] else pts)"
    using False assms(1) by (simp add: dense_points_def Let_def pts_def)
  have pos: "0 < max ((high - low) div target) (1 :: u128)" by (rule less_le_trans [of _ 1]) simp_all
  have h: "pts \<noteq> [] \<and> hd pts = low" using points_from_hd [OF assms(1)] by (simp add: pts_def)
  have "length pts \<le> 2 + (unat high - unat low) div unat (max ((high - low) div target) 1)"
    unfolding pts_def by (rule points_from_length [OF pos assms(1)])
  also have "unat high - unat low = unat (high - low)" using assms(1) by (simp add: unat_sub word_le_nat_alt)
  finally have "length pts \<le> 2 + 2 * unat target"
    using dense_step [of target "high - low"] False assms(2) by (simp add: not_le)
  moreover have "set pts \<subseteq> {low..high}" unfolding pts_def by (rule points_from_range)
  moreover have "low \<in> set pts" using h by (metis hd_in_set)
  moreover have "high \<in> set (dense_points low high target)" using h by (auto simp: d)
  ultimately show ?thesis using assms(1) by (auto simp: d)
qed

lemma dense_points_ok_witness: "{0, 1000} \<subseteq> set (dense_points 0 1000 16) \<and> length (dense_points 0 1000 16) \<le> 35"
  using dense_points_ok [of 0 1000 16] by simp

lemma scale_splits_total:
  assumes "unat original < 2 ^ 128 \<and> 0 < unat original"
  shows "ps \<noteq> [] \<Longrightarrow> \<forall>p\<in>set ps. unat new * unat (sp_amount_in p) < 2 ^ 128 \<Longrightarrow>
    unat assigned + (unat new * (\<Sum>p\<leftarrow>butlast ps. unat (sp_amount_in p))) div unat original \<le> unat new \<Longrightarrow>
    unat assigned + (\<Sum>p\<leftarrow>scale_splits original new assigned ps. unat (sp_amount_in p)) = unat new"
proof (induction ps arbitrary: assigned)
  case (Cons p ps)
  show ?case
  proof (cases "ps = []")
    case True
    have "unat assigned \<le> unat new" using Cons.prems(3) by (rule le_trans [OF le_add1])
    then show ?thesis using True by (auto simp: Let_def word_nat)
  next
    case False
    define x where "x = unat new * unat (sp_amount_in p) div unat original"
    define rest where "rest = unat new * (\<Sum>p\<leftarrow>butlast ps. unat (sp_amount_in p))"
    define amount where "amount = sat_mul new (sp_amount_in p) div original"
    have am: "unat amount = x"
      using Cons.prems(2) by (simp add: amount_def x_def unat_div_distrib unat_sat_mul min_def)
    have "x + rest div unat original \<le> (unat new * unat (sp_amount_in p) + rest) div unat original"
      unfolding x_def by (metis add_leD1 div_add1_eq le_add1)
    then have bound: "unat assigned + x + rest div unat original \<le> unat new"
      using Cons.prems(3) False by (simp add: rest_def algebra_simps)
    have new: "unat new < 2 ^ 128" using unat_lt_size [of new] by (simp add: word_size)
    have as: "unat (sat_add assigned amount) = unat assigned + x"
      using bound new am by (simp add: unat_sat_add)
    have "unat (sat_add assigned amount) + (\<Sum>p\<leftarrow>scale_splits original new (sat_add assigned amount) ps. unat (sp_amount_in p)) = unat new"
      by (rule Cons.IH) (use False Cons.prems bound in \<open>simp_all add: as rest_def\<close>)
    then show ?thesis using False am by (auto simp: Let_def amount_def [symmetric] as word_less_nat_alt)
  qed
qed simp

text \<open>when a plan is priced again at another amount, the splits of a hop take exactly the new amount, whatever
  the rounding: the last split takes what the others leave, and splits of zero disappear.\<close>

theorem scaled_splits_take_all:
  assumes "ps \<noteq> []" and "0 < original" and "0 < new"
    and "(\<Sum>p\<leftarrow>ps. unat (sp_amount_in p)) \<le> unat original"
    and "unat new * unat original < 2 ^ 128"
  shows "(\<Sum>p\<leftarrow>scale_splits_for_input ps original new. unat (sp_amount_in p)) = unat new \<and>
    (\<forall>p\<in>set (scale_splits_for_input ps original new). 0 < sp_amount_in p)"
proof
  have o: "unat original < 2 ^ 128 \<and> 0 < unat original"
    using assms(2) unat_lt_size [of original] by (simp add: word_size word_less_nat_alt)
  have ne: "original \<noteq> 0" "new \<noteq> 0" using assms(2,3) by auto
  have le: "unat (sp_amount_in p) \<le> unat original" if "p \<in> set ps" for p
    using member_le_sum_list [of "unat (sp_amount_in p)" "map (\<lambda>p. unat (sp_amount_in p)) ps"] that assms(4) by auto
  have 1: "\<forall>p\<in>set ps. unat new * unat (sp_amount_in p) < 2 ^ 128"
    using le assms(5) by (meson le_less_trans mult_le_mono2)
  have "(\<Sum>p\<leftarrow>butlast ps. unat (sp_amount_in p)) \<le> unat original"
    using assms(4) append_butlast_last_id [OF assms(1)]
    by (metis le_trans le_add1 map_append sum_list_append)
  then have "unat new * (\<Sum>p\<leftarrow>butlast ps. unat (sp_amount_in p)) div unat original \<le> unat new"
    using o by (metis div_le_mono mult_le_mono2 nonzero_mult_div_cancel_right less_numeral_extra(3))
  then show "(\<Sum>p\<leftarrow>scale_splits_for_input ps original new. unat (sp_amount_in p)) = unat new"
    using scale_splits_total [OF o assms(1) 1, of 0] assms(1) ne by (simp add: scale_splits_for_input_def)
  have "\<forall>p\<in>set (scale_splits original new assigned qs). 0 < sp_amount_in p" for assigned qs
    by (induction qs arbitrary: assigned) (auto simp: Let_def)
  then show "\<forall>p\<in>set (scale_splits_for_input ps original new). 0 < sp_amount_in p" by (simp add: scale_splits_for_input_def)
qed

lemma scaled_splits_take_all_witness:
  "let ps = [(lb_split \<lparr>ch_from = 1, ch_to = 2, ch_pool_id = 9, ch_amm_kind = TraderJoeLb, ch_dex_name = []\<rparr> 3),
             (lb_split \<lparr>ch_from = 1, ch_to = 2, ch_pool_id = 8, ch_amm_kind = TraderJoeLb, ch_dex_name = []\<rparr> 7)]
   in (\<Sum>p\<leftarrow>scale_splits_for_input ps 10 101. unat (sp_amount_in p)) = 101"
  unfolding Let_def by (subst scaled_splits_take_all [THEN conjunct1]) (simp_all add: lb_split_def)

definition amounts_ok :: "u128 \<Rightarrow> u128 \<Rightarrow> u128 list \<Rightarrow> bool" where
  "amounts_ok lo hi as \<longleftrightarrow> distinct as \<and> (\<forall>a\<in>set as. lo \<le> a \<and> a \<le> hi \<and> 0 < a)"

lemma add_factors_ok:
  assumes "lo \<le> hi"
  shows "amounts_ok lo hi out \<Longrightarrow> amounts_ok lo hi (add_factors center lo hi limit fs out) \<and>
    length (add_factors center lo hi limit fs out) \<le> max limit (length out) \<and> set out \<subseteq> set (add_factors center lo hi limit fs out)"
proof (induction fs arbitrary: out)
  case (Cons f fs)
  define a where "a = clamp_u128 (sat_mul center f div 10000) lo hi"
  have a: "lo \<le> a" "a \<le> hi" using assms(1) by (auto simp: a_def clamp_u128_def)
  show ?case
  proof (cases "limit \<le> length out")
    case False
    define out' where "out' = (if 0 < a \<and> a \<notin> set out then out @ [a] else out)"
    have eq: "add_factors center lo hi limit (f # fs) out = add_factors center lo hi limit fs out'"
      using False by (simp add: a_def out'_def Let_def)
    have "amounts_ok lo hi out'" using Cons.prems a by (auto simp: amounts_ok_def out'_def)
    note ih = Cons.IH [OF this]
    have "length out' \<le> limit" "set out \<subseteq> set out'" using False by (auto simp: out'_def)
    with ih show ?thesis unfolding eq by (meson le_max_iff_disj max.bounded_iff order_trans order_refl)
  qed (use Cons.prems in simp)
qed simp

text \<open>the verification prices at most \<open>limit\<close> amounts, all different, positive and between the bounds of the
  search, and the amount of the plan itself is among them when it lies between the bounds.\<close>

theorem verification_amounts_ok:
  assumes "lo \<le> hi"
  shows "distinct (verification_amounts center lo hi limit) \<and> length (verification_amounts center lo hi limit) \<le> limit \<and>
    (\<forall>a\<in>set (verification_amounts center lo hi limit). lo \<le> a \<and> a \<le> hi \<and> 0 < a) \<and>
    (lo \<le> center \<and> center \<le> hi \<and> 0 < center \<and> 0 < limit \<longrightarrow> center \<in> set (verification_amounts center lo hi limit))"
proof (cases "limit = 0")
  case False
  define c where "c = clamp_u128 center lo hi"
  define out where "out = (if 0 < c then [c] else [])"
  have c: "lo \<le> c" "c \<le> hi" using assms by (auto simp: c_def clamp_u128_def)
  have ok: "amounts_ok lo hi out" using c by (auto simp: out_def amounts_ok_def)
  have l: "max limit (length out) = limit" using False by (simp add: out_def)
  obtain fs where eq: "verification_amounts center lo hi limit = add_factors c lo hi limit fs out"
    unfolding verification_amounts_def Let_def c_def [symmetric] out_def [symmetric] if_not_P [OF False] by blast
  have "center \<in> set out" if "lo \<le> center" "center \<le> hi" "0 < center"
    using that by (auto simp: out_def c_def clamp_u128_def)
  then show ?thesis unfolding eq using add_factors_ok [OF assms ok, of c limit fs, unfolded l] by (auto simp: amounts_ok_def)
qed (simp add: verification_amounts_def)

lemma verification_amounts_ok_witness:
  "1000 \<in> set (verification_amounts 1000 10 5000 3) \<and> length (verification_amounts 1000 10 5000 3) \<le> 3"
  using verification_amounts_ok [of 10 5000 1000 3] by simp

end
