(* ===== verification/Quoter.thy ===== *)
theory Quoter
  imports Splits "HOL-Library.AList"
begin

text \<open>
  \<open>src/router/exact_quoter.rs\<close>: the price of one pool for one amount, with its three caches. A hash map
  is an association list with distinct keys; the node's answers are an argument of the definitions,
  already decoded, with the ways a call can fail kept apart. The clock is an argument.
\<close>

record quote_key =
  qk_snapshot_id :: u64
  qk_pool_id :: address
  qk_token_in :: address
  qk_token_out :: address
  qk_amount_in :: u128

record v3_direction_key =
  vk_snapshot_id :: u64
  vk_pool_id :: address
  vk_token_in :: address
  vk_token_out :: address

record pool_direction_key =
  dk_pool_id :: address
  dk_token_in :: address
  dk_token_out :: address

section \<open>The quote cache\<close>

record quote_segment =
  qs_entries :: "(quote_key \<times> u128) list"
  qs_lru :: "quote_key list"

record quote_cache =
  qc_max_segments :: nat
  qc_max_entries_per_segment :: nat
  qc_segments :: "(u64 \<times> quote_segment) list"

definition quote_cache_from_env :: "env \<Rightarrow> quote_cache" where
  "quote_cache_from_env env =
     \<lparr>qc_max_segments = env_usize env ''QUOTE_CACHE_MAX_SEGMENTS'' 4,
      qc_max_entries_per_segment = env_usize env ''QUOTE_CACHE_MAX_ENTRIES_PER_SEGMENT'' 20000, qc_segments = []\<rparr>"

definition touch :: "quote_key \<Rightarrow> quote_segment \<Rightarrow> quote_segment" where
  "touch key seg = seg\<lparr>qs_lru := filter (\<lambda>k. k \<noteq> key) (qs_lru seg) @ [key]\<rparr>"

definition cache_get :: "quote_key \<Rightarrow> quote_cache \<Rightarrow> u128 option \<times> quote_cache" where
  "cache_get key c =
     (case map_of (qc_segments c) (qk_snapshot_id key) of
        None \<Rightarrow> (None, c)
      | Some seg \<Rightarrow>
          (case map_of (qs_entries seg) key of
             None \<Rightarrow> (None, c)
           | Some v \<Rightarrow> (Some v, c\<lparr>qc_segments := AList.update (qk_snapshot_id key) (touch key seg) (qc_segments c)\<rparr>)))"

text \<open>The smallest key goes first, until there is room.\<close>

function evict_segments :: "nat \<Rightarrow> (u64 \<times> 'a) list \<Rightarrow> (u64 \<times> 'a) list" where
  "evict_segments max_segments segs =
     (if segs = [] \<or> length segs < max_segments then segs
      else evict_segments max_segments (AList.delete (Min (fst ` set segs)) segs))"
  by pat_completeness auto
termination
proof (relation "measure (\<lambda>(m, segs). length segs)")
  fix max_segments and segs :: "(u64 \<times> 'a) list"
  assume "\<not> (segs = [] \<or> length segs < max_segments)"
  then have "Min (fst ` set segs) \<in> fst ` set segs" by (intro Min_in) auto
  then have "length (AList.delete (Min (fst ` set segs)) segs) < length segs"
    unfolding AList.delete_eq by (auto intro!: length_filter_less)
  then show "((max_segments, AList.delete (Min (fst ` set segs)) segs), max_segments, segs) \<in> measure (\<lambda>(m, segs). length segs)"
    by simp
qed auto

declare evict_segments.simps [simp del]

fun trim_entries :: "nat \<Rightarrow> quote_key list \<Rightarrow> (quote_key \<times> u128) list \<Rightarrow> quote_segment" where
  "trim_entries max_entries [] entries = \<lparr>qs_entries = entries, qs_lru = []\<rparr>"
| "trim_entries max_entries (oldest # lru) entries =
     (if max_entries < length entries then trim_entries max_entries lru (AList.delete oldest entries)
      else \<lparr>qs_entries = entries, qs_lru = oldest # lru\<rparr>)"

definition segment_insert :: "nat \<Rightarrow> quote_key \<Rightarrow> u128 \<Rightarrow> quote_segment \<Rightarrow> quote_segment" where
  "segment_insert max_entries key v seg =
     (let seg' = (if map_of (qs_entries seg) key = None then seg\<lparr>qs_lru := qs_lru seg @ [key]\<rparr> else touch key seg)
      in trim_entries max_entries (qs_lru seg') (AList.update key v (qs_entries seg')))"

definition cache_insert :: "quote_key \<Rightarrow> u128 \<Rightarrow> quote_cache \<Rightarrow> quote_cache" where
  "cache_insert key v c =
     (let id = qk_snapshot_id key;
          segs = (if map_of (qc_segments c) id = None then evict_segments (qc_max_segments c) (qc_segments c) else qc_segments c);
          seg = unwrap_or (map_of segs id) \<lparr>qs_entries = [], qs_lru = []\<rparr>
      in c\<lparr>qc_segments := AList.update id (segment_insert (qc_max_entries_per_segment c) key v seg) segs\<rparr>)"

section \<open>Directions that failed\<close>

record v3_direction_blocklist =
  bl_ttl :: duration
  bl_entries :: "(pool_direction_key \<times> instant) list"

definition blocklist_from_env :: "env \<Rightarrow> v3_direction_blocklist" where
  "blocklist_from_env env = \<lparr>bl_ttl = from_secs (env_usize env ''V3_DIRECTION_BLOCKLIST_SECS'' 180), bl_entries = []\<rparr>"

definition bl_prune :: "instant \<Rightarrow> v3_direction_blocklist \<Rightarrow> v3_direction_blocklist" where
  "bl_prune now b = b\<lparr>bl_entries := filter (\<lambda>(k, expires_at). now < expires_at) (bl_entries b)\<rparr>"

definition bl_blocked :: "instant \<Rightarrow> pool_direction_key \<Rightarrow> v3_direction_blocklist \<Rightarrow> bool \<times> v3_direction_blocklist" where
  "bl_blocked now key b = (let b' = bl_prune now b in (map_of (bl_entries b') key \<noteq> None, b'))"

definition bl_record_failure :: "instant \<Rightarrow> pool_direction_key \<Rightarrow> v3_direction_blocklist \<Rightarrow> v3_direction_blocklist" where
  "bl_record_failure now key b =
     (if bl_ttl b = 0 then b
      else let b' = bl_prune now b in b'\<lparr>bl_entries := AList.update key (now + bl_ttl b) (bl_entries b')\<rparr>)"

definition bl_clear :: "pool_direction_key \<Rightarrow> v3_direction_blocklist \<Rightarrow> v3_direction_blocklist" where
  "bl_clear key b = b\<lparr>bl_entries := AList.delete key (bl_entries b)\<rparr>"

record v3_revert_cache =
  rv_threshold :: u32
  rv_max_segments :: nat
  rv_failures :: "(u64 \<times> (v3_direction_key \<times> u32) list) list"

text \<open>The threshold is cut to 32 bits, so a multiple of 2^32 blocks everything.\<close>

definition revert_cache_from_env :: "env \<Rightarrow> v3_revert_cache" where
  "revert_cache_from_env env =
     \<lparr>rv_threshold = word_of_nat (env_usize env ''V3_DIRECTION_REVERT_CACHE_THRESHOLD'' 2),
      rv_max_segments = env_usize env ''QUOTE_CACHE_MAX_SEGMENTS'' 4, rv_failures = []\<rparr>"

definition rv_count :: "v3_direction_key \<Rightarrow> v3_revert_cache \<Rightarrow> u32" where
  "rv_count key r = unwrap_or (Option.bind (map_of (rv_failures r) (vk_snapshot_id key)) (\<lambda>seg. map_of seg key)) 0"

definition rv_blocked :: "v3_direction_key \<Rightarrow> v3_revert_cache \<Rightarrow> bool" where
  "rv_blocked key r \<longleftrightarrow> rv_threshold r \<le> rv_count key r"

definition rv_record_failure :: "v3_direction_key \<Rightarrow> v3_revert_cache \<Rightarrow> v3_revert_cache" where
  "rv_record_failure key r =
     (let id = vk_snapshot_id key;
          segs = (if map_of (rv_failures r) id = None then evict_segments (rv_max_segments r) (rv_failures r) else rv_failures r);
          seg = unwrap_or (map_of segs id) [];
          count = sat_add (unwrap_or (map_of seg key) 0) 1
      in r\<lparr>rv_failures := AList.update id (AList.update key count seg) segs\<rparr>)"

definition rv_clear :: "v3_direction_key \<Rightarrow> v3_revert_cache \<Rightarrow> v3_revert_cache" where
  "rv_clear key r =
     (case map_of (rv_failures r) (vk_snapshot_id key) of
        None \<Rightarrow> r
      | Some seg \<Rightarrow> r\<lparr>rv_failures := AList.update (vk_snapshot_id key) (AList.delete key seg) (rv_failures r)\<rparr>)"

section \<open>The quoter\<close>

text \<open>What a call to the node can do; \<open>Undecodable\<close> is an answer the ABI decoder refuses.\<close>

datatype 'a node_reply = Failed string | Timed_Out | Undecodable string | Returned 'a

record quote_node =
  nd_v3 :: "address \<Rightarrow> address \<Rightarrow> address \<Rightarrow> u256 \<Rightarrow> nat \<Rightarrow> address \<Rightarrow> u256 node_reply"
  nd_slipstream :: "address \<Rightarrow> address \<Rightarrow> address \<Rightarrow> u256 \<Rightarrow> int \<Rightarrow> address \<Rightarrow> u256 node_reply"
  nd_lb :: "address \<Rightarrow> u128 \<Rightarrow> bool \<Rightarrow> (u128 \<times> u128) node_reply"
  nd_dy_underlying :: "address \<Rightarrow> i128 \<Rightarrow> i128 \<Rightarrow> u256 \<Rightarrow> u256 node_reply"
  nd_dy :: "address \<Rightarrow> i128 \<Rightarrow> i128 \<Rightarrow> u256 \<Rightarrow> u256 node_reply"
  nd_vault :: "address \<Rightarrow> b256 \<Rightarrow> address \<Rightarrow> address \<Rightarrow> u256 \<Rightarrow> int list node_reply"

fun decoded_reply :: "'a node_reply \<Rightarrow> string + 'a option" where
  "decoded_reply (Failed e) = Inl e"
| "decoded_reply Timed_Out = Inr None"
| "decoded_reply (Undecodable e) = Inl e"
| "decoded_reply (Returned a) = Inr (Some a)"

record exact_quoter =
  eq_quote_cache :: quote_cache
  eq_v3_revert_cache :: v3_revert_cache
  eq_v3_direction_blocklist :: v3_direction_blocklist
  eq_curve_underlying_support :: "address \<rightharpoonup> bool"
  eq_use_v3_rpc_quoter :: bool
  eq_use_lb_rpc_quoter :: bool
  eq_use_curve_rpc_quoter :: bool
  eq_use_balancer_rpc_quoter :: bool
  eq_quote_rpc_timeout :: duration
  eq_chain_label :: string

definition env_yes :: "env \<Rightarrow> string \<Rightarrow> bool \<Rightarrow> bool" where
  "env_yes env key def =
     unwrap_or (map_option (\<lambda>v. v \<in> set [''1'', ''true'', ''TRUE'', ''yes'', ''YES'']) (env key)) def"

text \<open>The block list is shared: \<open>shared\<close> is the list the process already has.\<close>

definition with_v3_rpc_quoter :: "env \<Rightarrow> settings \<Rightarrow> v3_direction_blocklist \<Rightarrow> bool \<Rightarrow> exact_quoter" where
  "with_v3_rpc_quoter env s shared use_v3 =
     \<lparr>eq_quote_cache = quote_cache_from_env env, eq_v3_revert_cache = revert_cache_from_env env,
      eq_v3_direction_blocklist = shared, eq_curve_underlying_support = Map.empty, eq_use_v3_rpc_quoter = use_v3,
      eq_use_lb_rpc_quoter = (use_v3 \<or> env_yes env ''USE_LB_RPC_QUOTER'' False),
      eq_use_curve_rpc_quoter = env_yes env ''USE_CURVE_RPC_QUOTER'' False,
      eq_use_balancer_rpc_quoter = env_yes env ''USE_BALANCER_RPC_QUOTER'' True,
      eq_quote_rpc_timeout = from_millis (env_usize env ''EXACT_QUOTE_TIMEOUT_MS'' 1000),
      eq_chain_label = chain_as_str (st_chain s)\<rparr>"

definition exact_quoter_new :: "env \<Rightarrow> settings \<Rightarrow> v3_direction_blocklist \<Rightarrow> exact_quoter" where
  "exact_quoter_new env s shared = with_v3_rpc_quoter env s shared (env_yes env ''USE_V3_RPC_QUOTER'' False)"

definition u256_to_u128 :: "u256 \<Rightarrow> u128" where
  "u256_to_u128 v = (if unat v < 2 ^ 128 then ucast v else - 1)"

definition negative_signed_abs_to_u128 :: "int \<Rightarrow> u128" where
  "negative_signed_abs_to_u128 v = (if 0 \<le> v then 0 else if - v < 2 ^ 128 then word_of_int (- v) else - 1)"

definition is_slipstream_pool :: "pool_state \<Rightarrow> bool" where
  "is_slipstream_pool pool = starts_with (ps_dex_name pool) ''aerodrome_v3''"

definition is_expected_quote_revert :: "string \<Rightarrow> bool" where
  "is_expected_quote_revert e =
     (let message = to_ascii_lowercase e in
      starts_with message ''rpc error'' \<and>
      (str_contains message ''revert'' \<or> str_contains message ''unexpected error'' \<or> str_contains message ''too little received''))"

definition quote_uniswap_v3 ::
  "env \<Rightarrow> quote_node \<Rightarrow> address \<Rightarrow> address \<Rightarrow> address \<Rightarrow> u128 \<Rightarrow> u32 \<Rightarrow> u256 \<Rightarrow> bool \<Rightarrow> string + u128" where
  "quote_uniswap_v3 env nd quoter token_in token_out amount_in fee sqrt_price_x96 zero_for_one =
     res_bind (decoded_reply (nd_v3 nd quoter token_in token_out (ucast amount_in) (min (unat fee) (2 ^ 24 - 1))
         (sqrt_price_limit_u160 env sqrt_price_x96 zero_for_one)))
       (\<lambda>r. Inr (case r of None \<Rightarrow> 0 | Some out \<Rightarrow> u256_to_u128 out))"

definition quote_slipstream_v3 ::
  "env \<Rightarrow> quote_node \<Rightarrow> address \<Rightarrow> address \<Rightarrow> address \<Rightarrow> u128 \<Rightarrow> int \<Rightarrow> u256 \<Rightarrow> bool \<Rightarrow> string + u128" where
  "quote_slipstream_v3 env nd quoter token_in token_out amount_in tick_spacing sqrt_price_x96 zero_for_one =
     (if tick_spacing < - (2 ^ 23) \<or> 2 ^ 23 \<le> tick_spacing then Inr 0
      else res_bind (decoded_reply (nd_slipstream nd quoter token_in token_out (ucast amount_in) tick_spacing
          (sqrt_price_limit_u160 env sqrt_price_x96 zero_for_one)))
        (\<lambda>r. Inr (case r of None \<Rightarrow> 0 | Some out \<Rightarrow> u256_to_u128 out)))"

definition quote_balancer_vault :: "quote_node \<Rightarrow> address \<Rightarrow> b256 \<Rightarrow> address \<Rightarrow> address \<Rightarrow> u128 \<Rightarrow> string + u128" where
  "quote_balancer_vault nd vault pool_id token_in token_out amount_in =
     res_bind (decoded_reply (nd_vault nd vault pool_id token_in token_out (ucast amount_in)))
       (\<lambda>r. Inr (case r of None \<Rightarrow> 0
         | Some deltas \<Rightarrow> (case nth_opt deltas 1 of None \<Rightarrow> 0 | Some delta_out \<Rightarrow> negative_signed_abs_to_u128 delta_out)))"

text \<open>One arm of the match: \<open>Skip\<close> returns without the cache, \<open>Price\<close> goes on to it.\<close>

datatype arm = Skip u128 | Price u128 | Fail string

definition arm_of :: "string + u128 \<Rightarrow> arm" where
  "arm_of r = (case r of Inl e \<Rightarrow> Fail e | Inr out \<Rightarrow> Price out)"

definition insert_quote :: "quote_key \<Rightarrow> u128 \<Rightarrow> exact_quoter \<Rightarrow> exact_quoter" where
  "insert_quote key v q = q\<lparr>eq_quote_cache := cache_insert key v (eq_quote_cache q)\<rparr>"

text \<open>A V3 pool with a quoter contract: the reply settles the two failure caches.\<close>

definition settle_v3 ::
  "instant \<Rightarrow> v3_direction_key \<Rightarrow> pool_direction_key \<Rightarrow> string + u128 \<Rightarrow> exact_quoter \<Rightarrow> arm \<times> exact_quoter" where
  "settle_v3 now dkey pkey quoted q =
     (case quoted of
        Inr amount \<Rightarrow>
          (Price amount,
           if 0 < amount
           then q\<lparr>eq_v3_revert_cache := rv_clear dkey (eq_v3_revert_cache q),
                  eq_v3_direction_blocklist := bl_clear pkey (eq_v3_direction_blocklist q)\<rparr>
           else q\<lparr>eq_v3_direction_blocklist := bl_record_failure now pkey (eq_v3_direction_blocklist q)\<rparr>)
      | Inl e \<Rightarrow>
          if is_expected_quote_revert e
          then (Price 0, q\<lparr>eq_v3_revert_cache := rv_record_failure dkey (eq_v3_revert_cache q),
                           eq_v3_direction_blocklist := bl_record_failure now pkey (eq_v3_direction_blocklist q)\<rparr>)
          else (Fail e, q))"

definition quote_v3_pool ::
  "env \<Rightarrow> quote_node \<Rightarrow> instant \<Rightarrow> quote_key \<Rightarrow> pool_state \<Rightarrow> v3_pool_state \<Rightarrow> bool \<Rightarrow> exact_quoter \<Rightarrow> arm \<times> exact_quoter" where
  "quote_v3_pool env nd now key pool state zero_for_one q =
     (let pkey = \<lparr>dk_pool_id = ps_pool_id pool, dk_token_in = qk_token_in key, dk_token_out = qk_token_out key\<rparr>;
          dkey = \<lparr>vk_snapshot_id = qk_snapshot_id key, vk_pool_id = ps_pool_id pool, vk_token_in = qk_token_in key,
                  vk_token_out = qk_token_out key\<rparr>;
          (blocked, bl) = bl_blocked now pkey (eq_v3_direction_blocklist q);
          q = q\<lparr>eq_v3_direction_blocklist := bl\<rparr>
      in if blocked then (Price 0, q)
         else if \<not> eq_use_v3_rpc_quoter q then (Price (v3_fallback_quote env state zero_for_one (qk_amount_in key)), q)
         else if rv_blocked dkey (eq_v3_revert_cache q) then (Price 0, q)
         else case ps_quoter pool of
             None \<Rightarrow> (Price (v3_fallback_quote env state zero_for_one (qk_amount_in key)), q)
           | Some quoter \<Rightarrow> settle_v3 now dkey pkey
               (if is_slipstream_pool pool
                then quote_slipstream_v3 env nd quoter (qk_token_in key) (qk_token_out key) (qk_amount_in key)
                  (v3_tick_spacing state) (v3_sqrt_price_x96 state) zero_for_one
                else quote_uniswap_v3 env nd quoter (qk_token_in key) (qk_token_out key) (qk_amount_in key)
                  (v3_fee state) (v3_sqrt_price_x96 state) zero_for_one) q)"

definition quote_lb_pool :: "quote_node \<Rightarrow> quote_key \<Rightarrow> trader_joe_lb_pool_state \<Rightarrow> bool \<Rightarrow> exact_quoter \<Rightarrow> arm" where
  "quote_lb_pool nd key state swap_for_y q =
     (if eq_use_lb_rpc_quoter q then
        (case decoded_reply (nd_lb nd (qk_pool_id key) (qk_amount_in key) swap_for_y) of
           Inl e \<Rightarrow> Fail e
         | Inr None \<Rightarrow> Skip 0
         | Inr (Some (amount_in_left, amount_out)) \<Rightarrow> Price (if 0 < amount_in_left then 0 else amount_out))
      else Price (unwrap_or (lb_quote_exact_in state swap_for_y (qk_amount_in key)) 0))"

definition ask_dy :: "quote_node \<Rightarrow> quote_key \<Rightarrow> nat \<Rightarrow> nat \<Rightarrow> arm" where
  "ask_dy nd key i j =
     (case decoded_reply (nd_dy nd (qk_pool_id key) (int i) (int j) (ucast (qk_amount_in key))) of
        Inl e \<Rightarrow> Fail e
      | Inr None \<Rightarrow> Skip 0
      | Inr (Some out) \<Rightarrow> Price (u256_to_u128 out))"

definition quote_curve_pool :: "libm \<Rightarrow> quote_node \<Rightarrow> quote_key \<Rightarrow> curve_pool_state \<Rightarrow> nat \<Rightarrow> nat \<Rightarrow> exact_quoter \<Rightarrow> arm \<times> exact_quoter" where
  "quote_curve_pool lm nd key state i j q =
     (if \<not> eq_use_curve_rpc_quoter q then (Price (curve_fallback_quote lm state i j (qk_amount_in key)), q)
      else if unwrap_or (eq_curve_underlying_support q (qk_pool_id key)) (cv_supports_underlying state) then
        (case nd_dy_underlying nd (qk_pool_id key) (int i) (int j) (ucast (qk_amount_in key)) of
           Returned out \<Rightarrow> (Price (u256_to_u128 out), q)
         | Undecodable e \<Rightarrow> (Fail e, q)
         | Timed_Out \<Rightarrow> (Price 0, q)
         | Failed e \<Rightarrow> (ask_dy nd key i j,
             q\<lparr>eq_curve_underlying_support := (eq_curve_underlying_support q)(qk_pool_id key \<mapsto> False)\<rparr>))
      else (ask_dy nd key i j, q))"

definition quote_balancer_pool :: "libm \<Rightarrow> quote_node \<Rightarrow> quote_key \<Rightarrow> pool_state \<Rightarrow> balancer_pool_state \<Rightarrow> nat \<Rightarrow> nat \<Rightarrow> exact_quoter \<Rightarrow> arm" where
  "quote_balancer_pool lm nd key pool state i j q =
     (case (eq_use_balancer_rpc_quoter q, ps_vault pool) of
        (True, Some vault) \<Rightarrow>
          (case quote_balancer_vault nd vault (bl_pool_id state) (qk_token_in key) (qk_token_out key) (qk_amount_in key) of
             Inr amount \<Rightarrow> Price amount
           | Inl e \<Rightarrow> if is_expected_quote_revert e then Price 0 else Fail e)
      | _ \<Rightarrow> Price (balancer_fallback_quote lm state i j (qk_amount_in key)))"

definition pool_arm ::
  "env \<Rightarrow> libm \<Rightarrow> quote_node \<Rightarrow> instant \<Rightarrow> quote_key \<Rightarrow> pool_state \<Rightarrow> nat \<Rightarrow> nat \<Rightarrow> exact_quoter \<Rightarrow> arm \<times> exact_quoter" where
  "pool_arm env lm nd now key pool i j q =
     (let two = length (ps_token_addresses pool) = 2; zero_for_one = (i = 0 \<and> j = 1); amount = qk_amount_in key in
      case ps_state pool of
        S_UniswapV2Like state \<Rightarrow> (if two then Price (unwrap_or (v2_quote_exact_in state zero_for_one amount) 0) else Skip 0, q)
      | S_AerodromeV2Like state \<Rightarrow> (if two then Price (unwrap_or (aero_quote_exact_in state zero_for_one amount) 0) else Skip 0, q)
      | S_UniswapV3Like state \<Rightarrow> if two then quote_v3_pool env nd now key pool state zero_for_one q else (Skip 0, q)
      | S_TraderJoeLb state \<Rightarrow> (if two then quote_lb_pool nd key state zero_for_one q else Skip 0, q)
      | S_CurvePlain state \<Rightarrow> quote_curve_pool lm nd key state i j q
      | S_BalancerWeighted state \<Rightarrow> (quote_balancer_pool lm nd key pool state i j q, q))"

definition quote_pool ::
  "env \<Rightarrow> libm \<Rightarrow> quote_node \<Rightarrow> instant \<Rightarrow> u64 \<Rightarrow> pool_state \<Rightarrow> address \<Rightarrow> address \<Rightarrow> u128 \<Rightarrow> exact_quoter \<Rightarrow>
   (string + u128) \<times> exact_quoter" where
  "quote_pool env lm nd now snapshot_id pool token_in token_out amount_in q =
     (let key = \<lparr>qk_snapshot_id = snapshot_id, qk_pool_id = ps_pool_id pool, qk_token_in = token_in,
                 qk_token_out = token_out, qk_amount_in = amount_in\<rparr>;
          (cached, cache) = cache_get key (eq_quote_cache q);
          q = q\<lparr>eq_quote_cache := cache\<rparr>
      in case cached of
           Some v \<Rightarrow> (Inr v, q)
         | None \<Rightarrow>
             (case (position token_in (ps_token_addresses pool), position token_out (ps_token_addresses pool)) of
                (Some i, Some j) \<Rightarrow>
                  if i = j then (Inr 0, insert_quote key 0 q)
                  else (case pool_arm env lm nd now key pool i j q of
                      (Skip v, q') \<Rightarrow> (Inr v, q')
                    | (Fail e, q') \<Rightarrow> (Inl e, q')
                    | (Price v, q') \<Rightarrow> (Inr v, insert_quote key v q'))
              | _ \<Rightarrow> (Inr 0, insert_quote key 0 q)))"

section \<open>The quote cache keeps the contract\<close>

definition segment_ok :: "nat \<Rightarrow> u64 \<Rightarrow> quote_segment \<Rightarrow> bool" where
  "segment_ok max_entries sid seg \<longleftrightarrow>
     distinct (map fst (qs_entries seg)) \<and> distinct (qs_lru seg) \<and> set (qs_lru seg) = fst ` set (qs_entries seg) \<and>
     length (qs_entries seg) \<le> max_entries \<and> (\<forall>k\<in>set (qs_lru seg). qk_snapshot_id k = sid)"

definition cache_ok :: "quote_cache \<Rightarrow> bool" where
  "cache_ok c \<longleftrightarrow>
     0 < qc_max_segments c \<and> 0 < qc_max_entries_per_segment c \<and>
     distinct (map fst (qc_segments c)) \<and> length (qc_segments c) \<le> qc_max_segments c \<and>
     (\<forall>sid seg. map_of (qc_segments c) sid = Some seg \<longrightarrow> segment_ok (qc_max_entries_per_segment c) sid seg)"

lemma cache_ok_new: "cache_ok (quote_cache_from_env env)"
  by (simp add: cache_ok_def quote_cache_from_env_def env_usize_pos)

lemma length_update: "length (AList.update k v al) = (if k \<in> fst ` set al then length al else Suc (length al))"
  by (induction al) auto

lemma update_fst_set: "fst ` set (AList.update k v al) = insert k (fst ` set al)"
  by (induction al) auto

lemma delete_fst_set: "fst ` set (AList.delete k al) = fst ` set al - {k}"
  by (metis delete_keys set_map set_removeAll)

lemma evict_segments_ok:
  "0 < m \<Longrightarrow> distinct (map fst segs) \<Longrightarrow> distinct (map fst (evict_segments m segs)) \<and> length (evict_segments m segs) < m \<and>
    (\<forall>sid x. map_of (evict_segments m segs) sid = Some x \<longrightarrow> map_of segs sid = Some x)"
proof (induction m segs rule: evict_segments.induct)
  case (1 m segs)
  show ?case
  proof (cases "segs = [] \<or> length segs < m")
    case True
    then have "evict_segments m segs = segs" by (subst evict_segments.simps) simp
    with True 1(2,3) show ?thesis by auto
  next
    case False
    let ?d = "AList.delete (Min (fst ` set segs)) segs"
    have "distinct (map fst ?d)" using 1(3) by (rule distinct_delete)
    note ih = 1(1) [OF False 1(2) this]
    have "evict_segments m segs = evict_segments m ?d" using False by (subst evict_segments.simps) simp
    with ih show ?thesis by (auto simp: delete_conv' split: if_splits)
  qed
qed

lemma segment_ok_reorder:
  "segment_ok m sid seg \<Longrightarrow> distinct lru \<Longrightarrow> set lru = set (qs_lru seg) \<Longrightarrow> segment_ok m sid (seg\<lparr>qs_lru := lru\<rparr>)"
  unfolding segment_ok_def by (elim conjE, intro conjI) simp_all

lemma touch_ok:
  assumes "segment_ok m sid seg" and "key \<in> set (qs_lru seg)"
  shows "segment_ok m sid (touch key seg)"
  unfolding touch_def
proof (rule segment_ok_reorder [OF assms(1)])
  have "distinct (qs_lru seg)" using assms(1) by (simp only: segment_ok_def)
  then show "distinct (filter (\<lambda>k. k \<noteq> key) (qs_lru seg) @ [key])" by simp
  show "set (filter (\<lambda>k. k \<noteq> key) (qs_lru seg) @ [key]) = set (qs_lru seg)" using assms(2) by fastforce
qed

lemma trim_entries_ok:
  "distinct (map fst entries) \<Longrightarrow> distinct lru \<Longrightarrow> set lru = fst ` set entries \<Longrightarrow> \<forall>k\<in>set lru. qk_snapshot_id k = sid \<Longrightarrow>
   segment_ok m sid (trim_entries m lru entries)"
proof (induction m lru entries rule: trim_entries.induct)
  case (2 m oldest lru entries)
  show ?case
  proof (cases "m < length entries")
    case True
    have "set lru = fst ` set (AList.delete oldest entries)" using 2(3,4) by (simp add: delete_fst_set) (metis Diff_insert_absorb insert_absorb)
    from 2(1) [OF True distinct_delete [OF 2(2)] _ this] 2(3,5) True show ?thesis by simp
  qed (use 2(2-5) in \<open>simp add: segment_ok_def\<close>)
qed (simp add: segment_ok_def)

lemma trim_entries_get:
  "map_of (qs_entries (trim_entries m lru entries)) k = Some v \<Longrightarrow> map_of entries k = Some v"
  by (induction m lru entries rule: trim_entries.induct) (auto simp: delete_conv' split: if_splits)

text \<open>The newest entry survives the trimming: it is last in the queue.\<close>

lemma trim_entries_keeps_last:
  "0 < m \<Longrightarrow> distinct (map fst entries) \<Longrightarrow> distinct (lru @ [key]) \<Longrightarrow> set (lru @ [key]) = fst ` set entries \<Longrightarrow>
   map_of (qs_entries (trim_entries m (lru @ [key]) entries)) key = map_of entries key"
proof (induction lru arbitrary: entries)
  case Nil
  have "fst ` set entries = {key}" using Nil(4) by auto
  then have "length entries = 1" using Nil(2) by (metis card.empty card_insert_disjoint distinct_card empty_iff finite.emptyI length_map One_nat_def list.set_map)
  then show ?case using Nil(1) by simp
next
  case (Cons oldest lru)
  have d: "set (lru @ [key]) = fst ` set (AList.delete oldest entries)"
    using Cons.prems(3,4) by (simp add: delete_fst_set) (metis Diff_insert_absorb insertE)
  have "oldest \<noteq> key" using Cons.prems(3) by auto
  then show ?case using Cons.IH [OF Cons.prems(1) distinct_delete [OF Cons.prems(2)] _ d] Cons.prems(3)
    by (simp add: delete_conv')
qed

lemma segment_insert_ok:
  assumes "segment_ok m sid seg" and "qk_snapshot_id key = sid"
  shows "segment_ok m sid (segment_insert m key v seg)"
proof -
  define lru where "lru = (if map_of (qs_entries seg) key = None then qs_lru seg @ [key] else filter (\<lambda>k. k \<noteq> key) (qs_lru seg) @ [key])"
  have eq: "segment_insert m key v seg = trim_entries m lru (AList.update key v (qs_entries seg))"
    by (simp add: segment_insert_def Let_def lru_def touch_def)
  from assms(1) have s: "distinct (map fst (qs_entries seg))" "distinct (qs_lru seg)" "set (qs_lru seg) = fst ` set (qs_entries seg)"
    "\<forall>k\<in>set (qs_lru seg). qk_snapshot_id k = sid" unfolding segment_ok_def by blast+
  have n: "map_of (qs_entries seg) key = None \<longleftrightarrow> key \<notin> set (qs_lru seg)" unfolding s(3) by (rule map_of_eq_None_iff)
  have d: "distinct lru" using s(2) n by (simp add: lru_def)
  have l: "set lru = insert key (set (qs_lru seg))" by (auto simp: lru_def)
  have i: "\<forall>k\<in>set lru. qk_snapshot_id k = sid" unfolding l using s(4) assms(2) by simp
  have "set lru = fst ` set (AList.update key v (qs_entries seg))" by (simp only: l update_fst_set s(3))
  from trim_entries_ok [OF distinct_update [OF s(1)] d this i] show ?thesis unfolding eq .
qed

lemma segment_insert_get:
  assumes "segment_ok m sid seg" and "0 < m"
  shows "map_of (qs_entries (segment_insert m key v seg)) key = Some v"
proof -
  define lru where "lru = (if map_of (qs_entries seg) key = None then qs_lru seg else filter (\<lambda>k. k \<noteq> key) (qs_lru seg))"
  have eq: "segment_insert m key v seg = trim_entries m (lru @ [key]) (AList.update key v (qs_entries seg))"
    by (simp add: segment_insert_def Let_def lru_def touch_def)
  from assms(1) have s: "distinct (map fst (qs_entries seg))" "distinct (qs_lru seg)" "set (qs_lru seg) = fst ` set (qs_entries seg)"
    unfolding segment_ok_def by blast+
  have n: "map_of (qs_entries seg) key = None \<longleftrightarrow> key \<notin> set (qs_lru seg)" unfolding s(3) by (rule map_of_eq_None_iff)
  have d: "distinct (lru @ [key])" using s(2) n by (simp add: lru_def)
  have l: "set (lru @ [key]) = insert key (set (qs_lru seg))" by (auto simp: lru_def)
  have "set (lru @ [key]) = fst ` set (AList.update key v (qs_entries seg))" by (simp only: l update_fst_set s(3))
  from trim_entries_keeps_last [OF assms(2) distinct_update [OF s(1)] d this] show ?thesis unfolding eq by (simp add: update_conv')
qed

lemma segment_insert_other:
  "map_of (qs_entries (segment_insert m key v seg)) k = Some w \<Longrightarrow> k \<noteq> key \<Longrightarrow> map_of (qs_entries seg) k = Some w"
  unfolding segment_insert_def Let_def by (drule trim_entries_get) (simp add: update_conv' touch_def split: if_splits)

lemma empty_segment_ok: "segment_ok m sid \<lparr>qs_entries = [], qs_lru = []\<rparr>"
  by (simp add: segment_ok_def)

text \<open>The segments after the eviction that an insertion may need.\<close>

definition room_for :: "u64 \<Rightarrow> quote_cache \<Rightarrow> (u64 \<times> quote_segment) list" where
  "room_for sid c = (if map_of (qc_segments c) sid = None then evict_segments (qc_max_segments c) (qc_segments c) else qc_segments c)"

lemma room_for_ok:
  assumes "cache_ok c"
  shows "distinct (map fst (room_for sid c))" "\<And>i seg. map_of (room_for sid c) i = Some seg \<Longrightarrow> map_of (qc_segments c) i = Some seg"
    "length (AList.update sid seg (room_for sid c)) \<le> qc_max_segments c"
proof -
  have c: "0 < qc_max_segments c" "distinct (map fst (qc_segments c))" "length (qc_segments c) \<le> qc_max_segments c"
    using assms unfolding cache_ok_def by blast+
  note e = evict_segments_ok [OF c(1,2)]
  show "distinct (map fst (room_for sid c))" using c e by (simp add: room_for_def)
  show "map_of (room_for sid c) i = Some seg \<Longrightarrow> map_of (qc_segments c) i = Some seg" for i seg
    using e by (simp add: room_for_def split: if_splits)
  have "map_of (qc_segments c) sid \<noteq> None \<Longrightarrow> sid \<in> fst ` set (qc_segments c)" by (simp add: map_of_eq_None_iff)
  then show "length (AList.update sid seg (room_for sid c)) \<le> qc_max_segments c"
    using c e by (simp add: room_for_def length_update)
qed

lemma cache_insert_alt:
  "cache_insert key v c = c\<lparr>qc_segments := AList.update (qk_snapshot_id key) (segment_insert (qc_max_entries_per_segment c) key v
     (unwrap_or (map_of (room_for (qk_snapshot_id key) c) (qk_snapshot_id key)) \<lparr>qs_entries = [], qs_lru = []\<rparr>))
     (room_for (qk_snapshot_id key) c)\<rparr>"
  by (simp add: cache_insert_def Let_def room_for_def)

lemma room_segment_ok:
  assumes "cache_ok c"
  shows "segment_ok (qc_max_entries_per_segment c) sid (unwrap_or (map_of (room_for sid c) sid) \<lparr>qs_entries = [], qs_lru = []\<rparr>)"
proof (cases "map_of (room_for sid c) sid")
  case (Some seg)
  then have "map_of (qc_segments c) sid = Some seg" by (rule room_for_ok(2) [OF assms])
  with Some assms show ?thesis unfolding cache_ok_def by simp
qed (simp add: empty_segment_ok)

lemma cache_insert_ok:
  assumes "cache_ok c"
  shows "cache_ok (cache_insert key v c)"
proof -
  note room = room_for_ok [OF assms, of "qk_snapshot_id key"]
  note seg = segment_insert_ok [OF room_segment_ok [OF assms] refl, of key v]
  have c: "0 < qc_max_segments c" "0 < qc_max_entries_per_segment c"
    "\<And>sid seg. map_of (qc_segments c) sid = Some seg \<Longrightarrow> segment_ok (qc_max_entries_per_segment c) sid seg"
    using assms unfolding cache_ok_def by blast+
  show ?thesis unfolding cache_insert_alt cache_ok_def
    using c(1,2) room(1,3) seg room(2) c(3) by (simp add: distinct_update update_conv')
qed

lemma cache_get_ok: "cache_ok c \<Longrightarrow> cache_ok (snd (cache_get key c))"
proof (cases "map_of (qc_segments c) (qk_snapshot_id key)")
  case (Some seg)
  assume ok: "cache_ok c"
  show ?thesis
  proof (cases "map_of (qs_entries seg) key")
    case (Some v)
    with \<open>map_of (qc_segments c) (qk_snapshot_id key) = Some seg\<close> have eq: "snd (cache_get key c) =
      c\<lparr>qc_segments := AList.update (qk_snapshot_id key) (touch key seg) (qc_segments c)\<rparr>" by (simp add: cache_get_def)
    have s: "segment_ok (qc_max_entries_per_segment c) (qk_snapshot_id key) seg"
      using ok \<open>map_of (qc_segments c) (qk_snapshot_id key) = Some seg\<close> unfolding cache_ok_def by blast
    moreover have "key \<in> set (qs_lru seg)" using s Some map_of_SomeD [OF Some] unfolding segment_ok_def by force
    ultimately have "segment_ok (qc_max_entries_per_segment c) (qk_snapshot_id key) (touch key seg)" by (rule touch_ok)
    moreover have "qk_snapshot_id key \<in> fst ` set (qc_segments c)"
      using \<open>map_of (qc_segments c) (qk_snapshot_id key) = Some seg\<close> by (force dest: map_of_SomeD)
    ultimately show ?thesis using ok unfolding eq cache_ok_def by (simp add: distinct_update update_conv' length_update)
  qed (use ok Some in \<open>simp add: cache_get_def\<close>)
qed (simp add: cache_get_def)

definition cached :: "quote_cache \<Rightarrow> quote_key \<Rightarrow> u128 option" where
  "cached c key = Option.bind (map_of (qc_segments c) (qk_snapshot_id key)) (\<lambda>seg. map_of (qs_entries seg) key)"

lemma cache_get_cached: "fst (cache_get key c) = cached c key"
  by (simp add: cache_get_def cached_def split: option.split)

lemma cached_after_get: "cached (snd (cache_get key c)) k = cached c k"
  by (simp add: cache_get_def cached_def update_conv' touch_def split: option.split)

lemma cached_inserted: "cache_ok c \<Longrightarrow> cached (cache_insert key v c) key = Some v"
proof -
  assume ok: "cache_ok c"
  then have "0 < qc_max_entries_per_segment c" unfolding cache_ok_def by blast
  from segment_insert_get [OF room_segment_ok [OF ok] this] show ?thesis
    by (simp add: cached_def cache_insert_alt update_conv')
qed

lemma cached_insert_other:
  assumes ok: "cache_ok c" and k: "cached (cache_insert key v c) k = Some w" "k \<noteq> key"
  shows "cached c k = Some w"
proof (cases "qk_snapshot_id k = qk_snapshot_id key")
  case True
  define seg where "seg = unwrap_or (map_of (room_for (qk_snapshot_id key) c) (qk_snapshot_id key)) \<lparr>qs_entries = [], qs_lru = []\<rparr>"
  from k(1) True have "map_of (qs_entries (segment_insert (qc_max_entries_per_segment c) key v seg)) k = Some w"
    by (simp add: cached_def cache_insert_alt update_conv' seg_def)
  then have w: "map_of (qs_entries seg) k = Some w" using k(2) by (rule segment_insert_other)
  then obtain seg' where "map_of (room_for (qk_snapshot_id key) c) (qk_snapshot_id key) = Some seg'" "seg = seg'"
    by (cases "map_of (room_for (qk_snapshot_id key) c) (qk_snapshot_id key)") (simp_all add: seg_def)
  with w True room_for_ok(2) [OF ok] show ?thesis by (simp add: cached_def)
next
  case False
  with k(1) room_for_ok(2) [OF ok, of "qk_snapshot_id key" "qk_snapshot_id k"] show ?thesis
    by (cases "map_of (room_for (qk_snapshot_id key) c) (qk_snapshot_id k)") (simp_all add: cached_def cache_insert_alt update_conv')
qed

interpretation qc: memo_table cache_get cache_insert cache_ok
proof
  show "cache_ok c \<Longrightarrow> cache_ok (cache_insert k v c)" for c k v by (rule cache_insert_ok)
  show "cache_ok c \<Longrightarrow> cache_ok (snd (cache_get k c))" for c k by (rule cache_get_ok)
  show "cache_ok c \<Longrightarrow> fst (cache_get k (cache_insert k v c)) = Some v" for c k v by (simp add: cache_get_cached cached_inserted)
  show "cache_ok c \<Longrightarrow> fst (cache_get k (cache_insert k' v c)) = Some w \<Longrightarrow> k \<noteq> k' \<Longrightarrow> fst (cache_get k c) = Some w" for c k k' v w
    unfolding cache_get_cached by (rule cached_insert_other)
  show "fst (cache_get k (snd (cache_get k' c))) = fst (cache_get k c)" for c k k' by (simp add: cache_get_cached cached_after_get)
qed

section \<open>Quoting without the node\<close>

definition local_price :: "env \<Rightarrow> libm \<Rightarrow> pool_state \<Rightarrow> address \<Rightarrow> address \<Rightarrow> u128 \<Rightarrow> u128" where
  "local_price env lm pool token_in token_out amount =
     (let two = length (ps_token_addresses pool) = 2 in
      case (position token_in (ps_token_addresses pool), position token_out (ps_token_addresses pool)) of
        (Some i, Some j) \<Rightarrow>
          (let zero_for_one = (i = 0 \<and> j = 1) in
           if i = j then 0
           else case ps_state pool of
               S_UniswapV2Like state \<Rightarrow> if two then unwrap_or (v2_quote_exact_in state zero_for_one amount) 0 else 0
             | S_AerodromeV2Like state \<Rightarrow> if two then unwrap_or (aero_quote_exact_in state zero_for_one amount) 0 else 0
             | S_UniswapV3Like state \<Rightarrow> if two then v3_fallback_quote env state zero_for_one amount else 0
             | S_TraderJoeLb state \<Rightarrow> if two then unwrap_or (lb_quote_exact_in state zero_for_one amount) 0 else 0
             | S_CurvePlain state \<Rightarrow> curve_fallback_quote lm state i j amount
             | S_BalancerWeighted state \<Rightarrow> balancer_fallback_quote lm state i j amount)
      | _ \<Rightarrow> 0)"

text \<open>The price a key stands for, given the pools of every snapshot.\<close>

definition key_price :: "env \<Rightarrow> libm \<Rightarrow> (u64 \<Rightarrow> address \<Rightarrow> pool_state option) \<Rightarrow> quote_key \<Rightarrow> u128" where
  "key_price env lm pools key =
     (case pools (qk_snapshot_id key) (qk_pool_id key) of
        None \<Rightarrow> 0
      | Some pool \<Rightarrow> local_price env lm pool (qk_token_in key) (qk_token_out key) (qk_amount_in key))"

definition local_only :: "exact_quoter \<Rightarrow> bool" where
  "local_only q \<longleftrightarrow> \<not> eq_use_v3_rpc_quoter q \<and> \<not> eq_use_lb_rpc_quoter q \<and> \<not> eq_use_curve_rpc_quoter q \<and>
     \<not> eq_use_balancer_rpc_quoter q \<and> bl_entries (eq_v3_direction_blocklist q) = []"

definition pure_quoter :: "env \<Rightarrow> libm \<Rightarrow> (u64 \<Rightarrow> address \<Rightarrow> pool_state option) \<Rightarrow> exact_quoter \<Rightarrow> bool" where
  "pure_quoter env lm pools q \<longleftrightarrow> local_only q \<and> qc.coherent (key_price env lm pools) (eq_quote_cache q)"

lemma pool_arm_local:
  assumes "local_only q" and "position (qk_token_in key) (ps_token_addresses pool) = Some i"
    and "position (qk_token_out key) (ps_token_addresses pool) = Some j" and "i \<noteq> j"
  shows "\<exists>a q'. pool_arm env lm nd now key pool i j q = (a, q') \<and> eq_quote_cache q' = eq_quote_cache q \<and> local_only q' \<and>
    (a = Price (local_price env lm pool (qk_token_in key) (qk_token_out key) (qk_amount_in key)) \<or>
     a = Skip (local_price env lm pool (qk_token_in key) (qk_token_out key) (qk_amount_in key)))"
proof -
  have v3: "quote_v3_pool env nd now key pool state z q = (Price (v3_fallback_quote env state z (qk_amount_in key)),
      q\<lparr>eq_v3_direction_blocklist := bl_prune now (eq_v3_direction_blocklist q)\<rparr>)" for state z
    using assms(1) by (simp add: quote_v3_pool_def Let_def bl_blocked_def bl_prune_def local_only_def)
  have empty: "bl_entries (bl_prune now (eq_v3_direction_blocklist q)) = []"
    using assms(1) by (simp add: bl_prune_def local_only_def)
  show ?thesis
    using assms(1) empty
    by (cases "ps_state pool")
       (auto simp: v3 pool_arm_def Let_def local_price_def assms(2-4) quote_lb_pool_def quote_curve_pool_def quote_balancer_pool_def
         local_only_def)
qed

lemma quote_pool_pure:
  assumes q: "pure_quoter env lm pools q" and pool: "pools sid (ps_pool_id pool) = Some pool"
  shows "\<exists>q'. quote_pool env lm nd now sid pool token_in token_out amount q =
      (Inr (local_price env lm pool token_in token_out amount), q') \<and> pure_quoter env lm pools q'"
proof -
  define key where "key = \<lparr>qk_snapshot_id = sid, qk_pool_id = ps_pool_id pool, qk_token_in = token_in,
    qk_token_out = token_out, qk_amount_in = amount\<rparr>"
  have key: "key_price env lm pools key = local_price env lm pool token_in token_out amount"
    by (simp add: key_price_def key_def pool)
  obtain hit cache where g: "cache_get key (eq_quote_cache q) = (hit, cache)" by (cases "cache_get key (eq_quote_cache q)")
  define q1 where "q1 = q\<lparr>eq_quote_cache := cache\<rparr>"
  have coh: "qc.coherent (key_price env lm pools) cache"
    using qc.coherent_get [of "key_price env lm pools" "eq_quote_cache q" key] q g by (simp add: pure_quoter_def)
  have lo: "local_only q1" using q by (simp add: pure_quoter_def local_only_def q1_def)
  have ins: "pure_quoter env lm pools (insert_quote key (local_price env lm pool token_in token_out amount) q2)"
    if "local_only q2" "eq_quote_cache q2 = cache" for q2
    using that qc.coherent_insert [OF coh, of key] unfolding key
    by (simp add: pure_quoter_def local_only_def insert_quote_def)
  have run: "quote_pool env lm nd now sid pool token_in token_out amount q =
     (case hit of Some v \<Rightarrow> (Inr v, q1)
      | None \<Rightarrow> (case (position token_in (ps_token_addresses pool), position token_out (ps_token_addresses pool)) of
          (Some i, Some j) \<Rightarrow> if i = j then (Inr 0, insert_quote key 0 q1)
            else (case pool_arm env lm nd now key pool i j q1 of
                (Skip v, q') \<Rightarrow> (Inr v, q') | (Fail e, q') \<Rightarrow> (Inl e, q') | (Price v, q') \<Rightarrow> (Inr v, insert_quote key v q'))
        | _ \<Rightarrow> (Inr 0, insert_quote key 0 q1)))"
    by (simp add: quote_pool_def key_def [symmetric] g q1_def [symmetric])
  have keep: "pure_quoter env lm pools q2" if "local_only q2" "eq_quote_cache q2 = cache" for q2
    using that coh by (simp add: pure_quoter_def)
  have c1: "eq_quote_cache q1 = cache" by (simp add: q1_def)
  show ?thesis
  proof (cases hit)
    case (Some v)
    have "v = local_price env lm pool token_in token_out amount"
      using qc.coherent_hit [of "key_price env lm pools" "eq_quote_cache q" key v] q g Some key by (simp add: pure_quoter_def)
    then show ?thesis using Some run keep [OF lo c1] by simp
  next
    case None
    show ?thesis
    proof (cases "position token_in (ps_token_addresses pool)")
      case None
      then have "local_price env lm pool token_in token_out amount = 0" by (simp add: local_price_def)
      with ins [OF lo c1] run \<open>hit = None\<close> None show ?thesis by simp
    next
      case (Some i)
      note i = Some
      show ?thesis
      proof (cases "position token_out (ps_token_addresses pool)")
        case None
        then have "local_price env lm pool token_in token_out amount = 0" by (simp add: local_price_def i)
        with ins [OF lo c1] run \<open>hit = None\<close> None i show ?thesis by simp
      next
        case (Some j)
        show ?thesis
        proof (cases "i = j")
          case True
          then have "local_price env lm pool token_in token_out amount = 0" by (simp add: local_price_def i Some)
          with ins [OF lo c1] run \<open>hit = None\<close> Some i True show ?thesis by simp
        next
          case False
          have "position (qk_token_in key) (ps_token_addresses pool) = Some i" "position (qk_token_out key) (ps_token_addresses pool) = Some j"
            by (simp_all add: key_def i Some)
          from pool_arm_local [OF lo this False, of env lm nd now] obtain a q' where
            a: "pool_arm env lm nd now key pool i j q1 = (a, q')" "eq_quote_cache q' = cache" "local_only q'"
            "a = Price (local_price env lm pool token_in token_out amount) \<or> a = Skip (local_price env lm pool token_in token_out amount)"
            by (auto simp: c1 key_def)
          from a(4) show ?thesis
            using run \<open>hit = None\<close> Some i False a(1) ins [OF a(3,2)] keep [OF a(3,2)] by auto
        qed
      qed
    qed
  qed
qed

record quote_request =
  qr_now :: instant
  qr_snapshot_id :: u64
  qr_pool :: pool_state
  qr_token_in :: address
  qr_token_out :: address
  qr_amount_in :: u128

fun quote_run :: "env \<Rightarrow> libm \<Rightarrow> quote_node \<Rightarrow> quote_request list \<Rightarrow> exact_quoter \<Rightarrow> (string + u128) list \<times> exact_quoter" where
  "quote_run env lm nd [] q = ([], q)"
| "quote_run env lm nd (r # rs) q =
     (let (out, q') = quote_pool env lm nd (qr_now r) (qr_snapshot_id r) (qr_pool r) (qr_token_in r) (qr_token_out r) (qr_amount_in r) q;
          (outs, q'') = quote_run env lm nd rs q'
      in (out # outs, q''))"

lemma quote_run_pure:
  "pure_quoter env lm pools q \<Longrightarrow> \<forall>r\<in>set rs. pools (qr_snapshot_id r) (ps_pool_id (qr_pool r)) = Some (qr_pool r) \<Longrightarrow>
   \<exists>q'. quote_run env lm nd rs q =
     (map (\<lambda>r. Inr (local_price env lm (qr_pool r) (qr_token_in r) (qr_token_out r) (qr_amount_in r))) rs, q') \<and> pure_quoter env lm pools q'"
proof (induction rs arbitrary: q)
  case (Cons r rs)
  from quote_pool_pure [OF Cons.prems(1), of "qr_snapshot_id r" "qr_pool r" nd "qr_now r" "qr_token_in r" "qr_token_out r" "qr_amount_in r"]
    Cons.prems(2) obtain q' where
    1: "quote_pool env lm nd (qr_now r) (qr_snapshot_id r) (qr_pool r) (qr_token_in r) (qr_token_out r) (qr_amount_in r) q =
      (Inr (local_price env lm (qr_pool r) (qr_token_in r) (qr_token_out r) (qr_amount_in r)), q')" and 2: "pure_quoter env lm pools q'" by auto
  from Cons.IH [OF 2] Cons.prems(2) obtain q'' where
    "quote_run env lm nd rs q' = (map (\<lambda>r. Inr (local_price env lm (qr_pool r) (qr_token_in r) (qr_token_out r) (qr_amount_in r))) rs, q'')"
    "pure_quoter env lm pools q''" by auto
  with 1 show ?case by simp
qed simp

lemma cached_new: "cached (quote_cache_from_env env) key = None"
  by (simp add: cached_def quote_cache_from_env_def)

lemma pure_quoter_new:
  assumes "bl_entries shared = []" and "\<not> env_yes env ''USE_LB_RPC_QUOTER'' False" and "\<not> env_yes env ''USE_CURVE_RPC_QUOTER'' False"
    and "\<not> env_yes env ''USE_BALANCER_RPC_QUOTER'' True"
  shows "pure_quoter env lm pools (with_v3_rpc_quoter env s shared False)"
  using assms by (simp add: pure_quoter_def local_only_def with_v3_rpc_quoter_def qc.coherent_def cache_ok_new cache_get_cached cached_new)

section \<open>Properties\<close>

datatype cache_use = Use_Get quote_key | Use_Insert quote_key u128

fun use_cache :: "cache_use \<Rightarrow> quote_cache \<Rightarrow> quote_cache" where
  "use_cache (Use_Get key) c = snd (cache_get key c)"
| "use_cache (Use_Insert key v) c = cache_insert key v c"

lemma use_cache_limits:
  "qc_max_segments (use_cache u c) = qc_max_segments c"
  "qc_max_entries_per_segment (use_cache u c) = qc_max_entries_per_segment c"
  by (cases u; simp add: cache_insert_def Let_def cache_get_def split: option.split)+

lemma use_cache_keeps:
  "cache_ok c \<Longrightarrow> cache_ok (use_cache u c) \<and> qc_max_segments (use_cache u c) = qc_max_segments c \<and>
     qc_max_entries_per_segment (use_cache u c) = qc_max_entries_per_segment c"
  by (cases u) (simp_all only: use_cache_limits, simp_all add: cache_get_ok cache_insert_ok)

lemma use_cache_run:
  "cache_ok c \<Longrightarrow> cache_ok (fold use_cache us c) \<and> qc_max_segments (fold use_cache us c) = qc_max_segments c \<and>
     qc_max_entries_per_segment (fold use_cache us c) = qc_max_entries_per_segment c"
  by (induction us arbitrary: c) (simp_all add: use_cache_keeps)

text \<open>whatever is read and written, the quote cache never holds more snapshots or more quotes of a snapshot
  than it was configured for, its least-recently-used queue lists exactly the keys it holds, and a quote that has just
  been written is found.\<close>

theorem quote_cache_bounded:
  "let c = fold use_cache us (quote_cache_from_env env) in
     length (qc_segments c) \<le> env_usize env ''QUOTE_CACHE_MAX_SEGMENTS'' 4 \<and>
     list_all (\<lambda>(sid, seg). length (qs_entries seg) \<le> env_usize env ''QUOTE_CACHE_MAX_ENTRIES_PER_SEGMENT'' 20000 \<and>
       distinct (qs_lru seg) \<and> set (qs_lru seg) = fst ` set (qs_entries seg)) (qc_segments c) \<and>
     fst (cache_get key (cache_insert key v c)) = Some v"
proof -
  define c where "c = fold use_cache us (quote_cache_from_env env)"
  have ok: "cache_ok c" and m: "qc_max_segments c = env_usize env ''QUOTE_CACHE_MAX_SEGMENTS'' 4"
    "qc_max_entries_per_segment c = env_usize env ''QUOTE_CACHE_MAX_ENTRIES_PER_SEGMENT'' 20000"
    using use_cache_run [OF cache_ok_new, of us env] by (simp_all add: c_def quote_cache_from_env_def)
  have d: "distinct (map fst (qc_segments c))" using ok unfolding cache_ok_def by blast
  have "segment_ok (qc_max_entries_per_segment c) sid seg" if "(sid, seg) \<in> set (qc_segments c)" for sid seg
    using ok map_of_is_SomeI [OF d that] unfolding cache_ok_def by blast
  then have "list_all (\<lambda>(sid, seg). length (qs_entries seg) \<le> qc_max_entries_per_segment c \<and>
       distinct (qs_lru seg) \<and> set (qs_lru seg) = fst ` set (qs_entries seg)) (qc_segments c)"
    unfolding list_all_iff segment_ok_def by blast
  moreover have "length (qc_segments c) \<le> qc_max_segments c" using ok unfolding cache_ok_def by blast
  ultimately show ?thesis using qc.get_inserted [OF ok] unfolding Let_def c_def [symmetric] m by blast
qed

text \<open>with the remote quoters switched off, quoting through the caches is the pure function of the pool models:
  any sequence of quotes, over any snapshots and at any times, gives what the local formulas give, without an error and
  without a call, so that a search may treat the quoter as a function.\<close>

theorem local_quoting_is_pure:
  assumes "bl_entries shared = []" and "\<not> env_yes env ''USE_LB_RPC_QUOTER'' False"
    and "\<not> env_yes env ''USE_CURVE_RPC_QUOTER'' False" and "\<not> env_yes env ''USE_BALANCER_RPC_QUOTER'' True"
    and "list_all (\<lambda>r. pools (qr_snapshot_id r) (ps_pool_id (qr_pool r)) = Some (qr_pool r)) rs"
  shows "fst (quote_run env lm nd rs (with_v3_rpc_quoter env s shared False)) =
    map (\<lambda>r. Inr (local_price env lm (qr_pool r) (qr_token_in r) (qr_token_out r) (qr_amount_in r))) rs"
  using quote_run_pure [OF pure_quoter_new [OF assms(1-4)], of rs pools lm nd s] assms(5) by (auto simp: list_all_iff)

definition demo_request :: "u128 \<Rightarrow> quote_request" where
  "demo_request amount = \<lparr>qr_now = 0, qr_snapshot_id = 1, qr_pool = demo_pool, qr_token_in = 1, qr_token_out = 2, qr_amount_in = amount\<rparr>"

lemma local_quoting_is_pure_witness:
  "\<forall>lm nd s. fst (quote_run ((\<lambda>_. None)(''USE_BALANCER_RPC_QUOTER'' := Some ''0'')) lm nd [demo_request 100, demo_request 100]
     (with_v3_rpc_quoter ((\<lambda>_. None)(''USE_BALANCER_RPC_QUOTER'' := Some ''0'')) s \<lparr>bl_ttl = 0, bl_entries = []\<rparr> False)) = [Inr 181, Inr 181]"
proof (intro allI)
  fix lm nd s
  let ?env = "(\<lambda>_. None)(''USE_BALANCER_RPC_QUOTER'' := Some ''0'')"
  have "local_price ?env lm demo_pool 1 2 100 = 181"
    by (simp add: local_price_def demo_pool_def position_def demo_v2_def v2_quote_exact_in_def v2_reserves_def sat_mul_def sat_sub_def sat_add_def Let_def)
  then show "fst (quote_run ?env lm nd [demo_request 100, demo_request 100] (with_v3_rpc_quoter ?env s \<lparr>bl_ttl = 0, bl_entries = []\<rparr> False))
      = [Inr 181, Inr 181]"
    by (subst local_quoting_is_pure [where pools = "\<lambda>_ _. Some demo_pool"]) (simp_all add: env_yes_def demo_request_def)
qed

text \<open>a timeout of the node is booked like a pool that gives nothing. When the call for a V3 direction times out, the
  quote is 0, and until the block list's time is over every further quote of that direction, for any amount and any
  snapshot, is 0 without a call, whatever the node would answer.\<close>

theorem v3_timeout_blocks_direction:
  assumes pool: "ps_token_addresses pool = [a, b]" "a \<noteq> b" "ps_state pool = S_UniswapV3Like st" "ps_quoter pool = Some qa"
    "\<not> is_slipstream_pool pool"
    and shared: "bl_entries shared = []" "0 < bl_ttl shared" "now' < now + bl_ttl shared"
    and env: "env_usize env ''V3_DIRECTION_REVERT_CACHE_THRESHOLD'' 2 < 2 ^ 32"
    and timeout: "nd_v3 nd qa a b (ucast amount) (min (unat (v3_fee st)) (2 ^ 24 - 1)) (sqrt_price_limit_u160 env (v3_sqrt_price_x96 st) True)
      = Timed_Out"
    and run: "quote_pool env lm nd now sid pool a b amount (with_v3_rpc_quoter env s shared True) = (r, q')"
  shows "r = Inr 0 \<and> fst (quote_pool env lm nd' now' sid' pool a b amount' q') = Inr 0"
proof -
  define pkey where "pkey = \<lparr>dk_pool_id = ps_pool_id pool, dk_token_in = a, dk_token_out = b\<rparr>"
  define key where "key = \<lparr>qk_snapshot_id = sid, qk_pool_id = ps_pool_id pool, qk_token_in = a, qk_token_out = b, qk_amount_in = amount\<rparr>"
  define key' where "key' = \<lparr>qk_snapshot_id = sid', qk_pool_id = ps_pool_id pool, qk_token_in = a, qk_token_out = b, qk_amount_in = amount'\<rparr>"
  define q where "q = with_v3_rpc_quoter env s shared True"
  have pos: "position a [a, b] = Some 0" "position b [a, b] = Some 1" using pool(2) by (simp_all add: position_def)
  have thr: "\<not> rv_threshold (eq_v3_revert_cache q) \<le> 0"
    using env env_usize_pos [of 2 env "''V3_DIRECTION_REVERT_CACHE_THRESHOLD''"]
    by (simp add: q_def with_v3_rpc_quoter_def revert_cache_from_env_def word_le_nat_alt unat_of_nat)
  have q: "cache_get key (eq_quote_cache q) = (None, eq_quote_cache q)" "eq_use_v3_rpc_quoter q" "rv_failures (eq_v3_revert_cache q) = []"
    "eq_v3_direction_blocklist q = shared" "eq_quote_cache q = quote_cache_from_env env"
    by (simp_all add: q_def with_v3_rpc_quoter_def quote_cache_from_env_def cache_get_def revert_cache_from_env_def)
  have bl: "bl_record_failure now pkey (bl_prune now shared) = shared\<lparr>bl_entries := [(pkey, now + bl_ttl shared)]\<rparr>"
    using shared(1,2) by (simp add: bl_record_failure_def bl_prune_def Let_def)
  have arm: "pool_arm env lm nd now key pool 0 1 q = (Price 0, q\<lparr>eq_v3_direction_blocklist := shared\<lparr>bl_entries := [(pkey, now + bl_ttl shared)]\<rparr>\<rparr>)"
    using pool shared(1) thr timeout q bl
    by (simp add: pool_arm_def Let_def quote_v3_pool_def bl_blocked_def bl_prune_def rv_blocked_def rv_count_def settle_v3_def
        quote_uniswap_v3_def key_def pkey_def)
  have eqs: "r = Inr 0" "q' = insert_quote key 0 (q\<lparr>eq_v3_direction_blocklist := shared\<lparr>bl_entries := [(pkey, now + bl_ttl shared)]\<rparr>\<rparr>)"
    using run arm unfolding q_def [symmetric]
    by (simp_all add: quote_pool_def key_def [symmetric] q(1) pool(1) pos)
  have bq: "eq_v3_direction_blocklist q' = shared\<lparr>bl_entries := [(pkey, now + bl_ttl shared)]\<rparr>"
    "eq_quote_cache q' = cache_insert key 0 (quote_cache_from_env env)" by (simp_all add: eqs(2) insert_quote_def q(5))
  show ?thesis
  proof (cases "cached (cache_insert key 0 (quote_cache_from_env env)) key'")
    case (Some v)
    have "v = 0"
    proof (cases "key' = key")
      case True
      with Some show ?thesis by (simp add: cached_inserted [OF cache_ok_new])
    next
      case False
      from cached_insert_other [OF cache_ok_new Some False] show ?thesis by (simp add: cached_new)
    qed
    with Some eqs(1) show ?thesis
      using cache_get_cached [of key' "cache_insert key 0 (quote_cache_from_env env)"]
      by (cases "cache_get key' (cache_insert key 0 (quote_cache_from_env env))") (simp add: quote_pool_def key'_def [symmetric] bq(2))
  next
    case None
    obtain c' where c': "cache_get key' (cache_insert key 0 (quote_cache_from_env env)) = (None, c')"
      using cache_get_cached [of key' "cache_insert key 0 (quote_cache_from_env env)"] None by (metis prod.collapse)
    have "pool_arm env lm nd' now' key' pool 0 1 (q'\<lparr>eq_quote_cache := c'\<rparr>) =
        (Price 0, q'\<lparr>eq_quote_cache := c', eq_v3_direction_blocklist := bl_prune now' (eq_v3_direction_blocklist q')\<rparr>)"
      using pool shared(3) by (simp add: pool_arm_def Let_def quote_v3_pool_def bl_blocked_def bl_prune_def bq key'_def pkey_def)
    then show ?thesis using eqs(1) c'
      by (simp add: quote_pool_def key'_def [symmetric] bq(2) pool(1) pos)
  qed
qed

definition silent_node :: quote_node where
  "silent_node = \<lparr>nd_v3 = \<lambda>_ _ _ _ _ _. Timed_Out, nd_slipstream = \<lambda>_ _ _ _ _ _. Timed_Out, nd_lb = \<lambda>_ _ _. Timed_Out,
     nd_dy_underlying = \<lambda>_ _ _ _. Timed_Out, nd_dy = \<lambda>_ _ _ _. Timed_Out, nd_vault = \<lambda>_ _ _ _ _. Timed_Out\<rparr>"

definition quoted_pool :: pool_state where
  "quoted_pool = demo_pool\<lparr>ps_kind := UniswapV3Like, ps_quoter := Some 77,
     ps_state := S_UniswapV3Like \<lparr>v3_sqrt_price_x96 = 2 ^ 96, v3_liquidity = 1000, v3_tick = 0, v3_fee = 3000, v3_tick_spacing = 60\<rparr>\<rparr>"

lemma v3_timeout_blocks_direction_witness:
  "\<forall>lm s nd'. fst (quote_pool (\<lambda>_. None) lm nd' (from_secs 100) 8 quoted_pool 1 2 6
     (snd (quote_pool (\<lambda>_. None) lm silent_node 0 7 quoted_pool 1 2 5
       (with_v3_rpc_quoter (\<lambda>_. None) s (blocklist_from_env (\<lambda>_. None)) True)))) = Inr 0"
proof (intro allI)
  fix lm s nd'
  obtain r q' where run: "quote_pool (\<lambda>_. None) lm silent_node 0 7 quoted_pool 1 2 5
       (with_v3_rpc_quoter (\<lambda>_. None) s (blocklist_from_env (\<lambda>_. None)) True) = (r, q')" by (metis surj_pair)
  have "r = Inr 0 \<and> fst (quote_pool (\<lambda>_. None) lm nd' (from_secs 100) 8 quoted_pool 1 2 6 q') = Inr 0"
    by (rule v3_timeout_blocks_direction [OF _ _ _ _ _ _ _ _ _ _ run])
       (simp_all add: quoted_pool_def demo_pool_def is_slipstream_pool_def starts_with_def blocklist_from_env_def env_usize_def
         filter_opt_def silent_node_def)
  with run show "fst (quote_pool (\<lambda>_. None) lm nd' (from_secs 100) 8 quoted_pool 1 2 6
     (snd (quote_pool (\<lambda>_. None) lm silent_node 0 7 quoted_pool 1 2 5
       (with_v3_rpc_quoter (\<lambda>_. None) s (blocklist_from_env (\<lambda>_. None)) True)))) = Inr 0" by simp
qed

section \<open>The revert cache counts\<close>

datatype rv_event = Rv_Fail v3_direction_key | Rv_Clear v3_direction_key

fun rv_event_key :: "rv_event \<Rightarrow> v3_direction_key" where
  "rv_event_key (Rv_Fail k) = k"
| "rv_event_key (Rv_Clear k) = k"

fun rv_apply :: "rv_event \<Rightarrow> v3_revert_cache \<Rightarrow> v3_revert_cache" where
  "rv_apply (Rv_Fail k) r = rv_record_failure k r"
| "rv_apply (Rv_Clear k) r = rv_clear k r"

text \<open>The specification: the failures of a direction since its last success, saturating like the counter.\<close>

definition failures_since :: "v3_direction_key \<Rightarrow> rv_event list \<Rightarrow> nat" where
  "failures_since key es =
     fold (\<lambda>e n. if e = Rv_Fail key then min (Suc n) (2 ^ 32 - 1) else if e = Rv_Clear key then 0 else n) es 0"

lemma rv_count_fail:
  assumes "rv_failures r = [] \<or> map_of (rv_failures r) (vk_snapshot_id k) \<noteq> None" and "vk_snapshot_id key = vk_snapshot_id k"
  shows "rv_count key (rv_record_failure k r) = (if key = k then sat_add (rv_count key r) 1 else rv_count key r)"
proof -
  have e: "evict_segments m [] = []" for m :: nat by (subst evict_segments.simps) simp
  show ?thesis
    using assms by (auto simp: rv_count_def rv_record_failure_def Let_def update_conv' e split: option.splits)
qed

lemma rv_count_clear:
  assumes "vk_snapshot_id key = vk_snapshot_id k"
  shows "rv_count key (rv_clear k r) = (if key = k then 0 else rv_count key r)"
  using assms by (auto simp: rv_count_def rv_clear_def update_conv' delete_conv' split: option.splits)

definition one_segment :: "u64 \<Rightarrow> v3_revert_cache \<Rightarrow> bool" where
  "one_segment sid r \<longleftrightarrow> rv_failures r = [] \<or> map_of (rv_failures r) sid \<noteq> None"

lemma rv_apply_segment:
  assumes "one_segment sid r" and "vk_snapshot_id (rv_event_key e) = sid"
  shows "one_segment sid (rv_apply e r) \<and> rv_threshold (rv_apply e r) = rv_threshold r"
proof (cases e)
  case (Rv_Fail k)
  with assms show ?thesis by (auto simp: one_segment_def rv_record_failure_def Let_def update_conv')
next
  case (Rv_Clear k)
  with assms show ?thesis by (auto simp: one_segment_def rv_clear_def update_conv' split: option.splits)
qed

lemma rv_run:
  assumes "one_segment sid r" and "list_all (\<lambda>e. vk_snapshot_id (rv_event_key e) = sid) es" and "vk_snapshot_id key = sid"
  shows "unat (rv_count key (fold rv_apply es r)) = fold (\<lambda>e n. if e = Rv_Fail key then min (Suc n) (2 ^ 32 - 1)
    else if e = Rv_Clear key then 0 else n) es (unat (rv_count key r)) \<and> rv_threshold (fold rv_apply es r) = rv_threshold r"
  using assms(1,2)
proof (induction es arbitrary: r)
  case (Cons e es)
  have s: "one_segment sid (rv_apply e r)" "rv_threshold (rv_apply e r) = rv_threshold r"
    using rv_apply_segment Cons.prems by auto
  have "unat (rv_count key (rv_apply e r)) = (if e = Rv_Fail key then min (Suc (unat (rv_count key r))) (2 ^ 32 - 1)
    else if e = Rv_Clear key then 0 else unat (rv_count key r))"
    using Cons.prems assms(3)
    by (cases e) (auto simp: rv_count_fail rv_count_clear one_segment_def unat_sat_add)
  with Cons.IH [OF s(1)] Cons.prems(2) s(2) show ?case by simp
qed simp

text \<open>the revert cache is a counter per direction: within a snapshot, whatever happens to other directions, a
  direction is blocked exactly when the failures since its last successful quote have reached the threshold.\<close>

theorem revert_cache_counts:
  assumes "list_all (\<lambda>e. vk_snapshot_id (rv_event_key e) = vk_snapshot_id key) es"
  shows "rv_blocked key (fold rv_apply es (revert_cache_from_env env)) \<longleftrightarrow>
    env_usize env ''V3_DIRECTION_REVERT_CACHE_THRESHOLD'' 2 mod 2 ^ 32 \<le> failures_since key es"
proof -
  have "one_segment (vk_snapshot_id key) (revert_cache_from_env env)" by (simp add: one_segment_def revert_cache_from_env_def)
  from rv_run [OF this assms refl] show ?thesis
    by (simp add: rv_blocked_def failures_since_def word_le_nat_alt revert_cache_from_env_def rv_count_def unat_of_nat)
qed

definition demo_direction :: "address \<Rightarrow> v3_direction_key" where
  "demo_direction a = \<lparr>vk_snapshot_id = 1, vk_pool_id = 9, vk_token_in = a, vk_token_out = 2\<rparr>"

lemma revert_cache_counts_witness:
  "rv_blocked (demo_direction 1) (fold rv_apply [Rv_Fail (demo_direction 1), Rv_Clear (demo_direction 3), Rv_Fail (demo_direction 1)]
     (revert_cache_from_env (\<lambda>_. None)))"
  by (subst revert_cache_counts) (simp_all add: demo_direction_def failures_since_def env_usize_def filter_opt_def)

end
