(* ===== verification/Path_Search.thy ===== *)
theory Path_Search
  imports Config Graph_Model Distance_Cache
begin

text \<open>
  The bounded path search of the detector: \<open>src/detector/pruning.rs\<close> and the search half of
  \<open>src/detector/path_finder.rs\<close> (\<open>virtual_outgoing\<close>, \<open>candidate_pair_edges\<close>, \<open>find_top_paths\<close> and their caches).
  The clock is read once per refresh. The order in which a hash map yields its values is the argument
  \<open>order\<close>; every list it reaches is sorted afterwards, but the sort is stable and its key does not
  separate two edges of one pool that differ only in their target.
\<close>

record search_tuning =
  tu_top_k_paths_per_side :: nat
  tu_max_virtual_branches_per_node :: nat
  tu_path_beam_width :: nat
  tu_max_candidates_per_refresh :: nat
  tu_candidate_selection_buffer_multiplier :: nat
  tu_dedup_token_paths :: bool
  tu_max_pair_edges_per_pair :: nat
  tu_pool_variants_per_token_path :: nat
  tu_canonical_variants_per_cycle :: nat
  tu_anchor_variants_per_cycle :: nat

record path_finder =
  pf_max_hops :: nat
  pf_screening_cutoff_q32 :: i64
  pf_min_pool_confidence_bps :: u16
  pf_staleness_timeout :: duration
  pf_min_trade_usd_e8 :: u128
  pf_tuning :: search_tuning

record search_path =
  pth_edge_refs :: "edge_ref list"
  pth_tokens :: "nat list"
  pth_score_q32 :: i64
  pth_capacity_hint :: u128

definition sat_add_i64 :: "i64 \<Rightarrow> i64 \<Rightarrow> i64" where
  "sat_add_i64 a b = clamp_i64 (a + b)"

section \<open>Construction\<close>

definition screening_cutoff_q32 :: "libm \<Rightarrow> u32 \<Rightarrow> i64" where
  "screening_cutoff_q32 lm screening_margin_bps =
     (let margin = f_div (f64_of_word screening_margin_bps) (f_lit 10000)
      in f64_as_i64 (f_mul (f_neg (m_ln lm (f_add f_one margin))) (f_lit (2 ^ 32))))"

definition path_finder_new :: "env \<Rightarrow> libm \<Rightarrow> settings \<Rightarrow> path_finder" where
  "path_finder_new env lm s =
     (let search = st_search s; risk = st_risk s in
      \<lparr>pf_max_hops = rk_max_hops risk,
       pf_screening_cutoff_q32 = screening_cutoff_q32 lm (rk_screening_margin_bps risk),
       pf_min_pool_confidence_bps = rk_pool_health_min_bps risk,
       pf_staleness_timeout = from_millis (unat (rk_staleness_timeout_ms risk)),
       pf_min_trade_usd_e8 = rk_min_trade_usd_e8 risk,
       pf_tuning =
         \<lparr>tu_top_k_paths_per_side = se_top_k_paths_per_side search,
          tu_max_virtual_branches_per_node = se_max_virtual_branches_per_node search,
          tu_path_beam_width = se_path_beam_width search,
          tu_max_candidates_per_refresh = se_max_candidates_per_refresh search,
          tu_candidate_selection_buffer_multiplier = max (se_candidate_selection_buffer_multiplier search) 1,
          tu_dedup_token_paths = se_dedup_token_paths search,
          tu_max_pair_edges_per_pair = se_max_pair_edges_per_pair search,
          tu_pool_variants_per_token_path = env_usize env ''SEARCH_POOL_VARIANTS_PER_TOKEN_PATH'' 3,
          tu_canonical_variants_per_cycle = env_usize env ''SEARCH_CANONICAL_VARIANTS_PER_CYCLE'' 3,
          tu_anchor_variants_per_cycle = env_usize env ''SEARCH_ANCHOR_VARIANTS_PER_CYCLE'' 1\<rparr>\<rparr>)"

section \<open>Outgoing edges\<close>

definition cmp_ranked :: "edge \<Rightarrow> edge \<Rightarrow> ordering" where
  "cmp_ranked a b =
     then_with (cmp (h_confidence_bps (e_pool_health b)) (h_confidence_bps (e_pool_health a)))
       (then_with (cmp (e_capacity b) (e_capacity a)) (cmp (e_weight_log_q32 a) (e_weight_log_q32 b)))"

definition ranked_outgoing :: "graph_snapshot \<Rightarrow> nat \<Rightarrow> edge_ref list" where
  "ranked_outgoing g vertex =
     (let refs = unwrap_or (map_option (enumerate 0) (nth_opt (gs_adjacency g) vertex)) []
      in map (\<lambda>(edge_idx, _). \<lparr>er_from = vertex, er_edge_idx = edge_idx\<rparr>)
           (sort_by (\<lambda>x y. cmp_ranked (snd x) (snd y)) refs))"

definition cmp_edges :: "edge \<Rightarrow> edge \<Rightarrow> ordering" where
  "cmp_edges a b =
     then_with (cmp (e_weight_log_q32 a) (e_weight_log_q32 b))
       (then_with (cmp (e_capacity b) (e_capacity a))
         (then_with (cmp (h_confidence_bps (e_pool_health b)) (h_confidence_bps (e_pool_health a)))
           (cmp (e_pool_id a) (e_pool_id b))))"

definition compare_edge_refs :: "graph_snapshot \<Rightarrow> edge_ref \<Rightarrow> edge_ref \<Rightarrow> ordering" where
  "compare_edge_refs g left right =
     (case edge_of g left of None \<Rightarrow> Greater
      | Some a \<Rightarrow> (case edge_of g right of None \<Rightarrow> Less | Some b \<Rightarrow> cmp_edges a b))"

definition better_edge_ref :: "graph_snapshot \<Rightarrow> edge_ref \<Rightarrow> edge_ref \<Rightarrow> bool" where
  "better_edge_ref g left right \<longleftrightarrow> compare_edge_refs g left right = Less"

definition min_trade_of :: "u128 option list \<Rightarrow> nat \<Rightarrow> u128 option" where
  "min_trade_of min_trades token = Option.bind (nth_opt min_trades token) (\<lambda>value. value)"

definition edge_is_usable :: "instant \<Rightarrow> edge \<Rightarrow> u16 \<Rightarrow> duration \<Rightarrow> u128 option list \<Rightarrow> bool" where
  "edge_is_usable now e min_confidence_bps staleness_timeout min_trades =
     (if e_spot_rate_q128 e = 0 \<or> e_capacity e = 0 then False
      else if \<not> healthy now (e_pool_health e) min_confidence_bps staleness_timeout then False
      else case min_trade_of min_trades (e_from e) of
          Some min_trade_raw \<Rightarrow> \<not> e_capacity e < min_trade_raw
        | None \<Rightarrow> True)"

text \<open>What the search reads besides the graph: the clock, the limits, the smallest trades.\<close>

definition usable :: "path_finder \<Rightarrow> instant \<Rightarrow> u128 option list \<Rightarrow> edge \<Rightarrow> bool" where
  "usable pf now min_trades e =
     edge_is_usable now e (pf_min_pool_confidence_bps pf) (pf_staleness_timeout pf) min_trades"

definition usable_ref :: "path_finder \<Rightarrow> instant \<Rightarrow> u128 option list \<Rightarrow> graph_snapshot \<Rightarrow> edge_ref \<Rightarrow> bool" where
  "usable_ref pf now min_trades g r = (case edge_of g r of None \<Rightarrow> False | Some e \<Rightarrow> usable pf now min_trades e)"

definition target_of :: "graph_snapshot \<Rightarrow> edge_ref \<Rightarrow> nat" where
  "target_of g r = (case edge_of g r of None \<Rightarrow> 0 | Some e \<Rightarrow> e_to e)"

definition virtual_outgoing ::
  "(nat list \<Rightarrow> nat list) \<Rightarrow> path_finder \<Rightarrow> instant \<Rightarrow> u128 option list \<Rightarrow> graph_snapshot \<Rightarrow> nat \<Rightarrow> edge_ref list" where
  "virtual_outgoing order pf now min_trades g vertex =
     (let refs = filter (usable_ref pf now min_trades g) (ranked_outgoing g vertex);
          by_to = fold (\<lambda>r. push_entry (target_of g r) r) refs Map.empty;
          groups = map (\<lambda>t. take (tu_max_pair_edges_per_pair (pf_tuning pf))
              (sort_by (compare_edge_refs g) (unwrap_or (by_to t) []))) (order (remdups (map (target_of g) refs)))
      in sort_by (compare_edge_refs g) (concat groups))"

definition candidate_pair_edges ::
  "path_finder \<Rightarrow> instant \<Rightarrow> u128 option list \<Rightarrow> graph_snapshot \<Rightarrow> nat \<times> nat \<Rightarrow> edge_ref list" where
  "candidate_pair_edges pf now min_trades g pair =
     (case gs_pair_to_edges g pair of
        None \<Rightarrow> []
      | Some edges \<Rightarrow> take (tu_max_pair_edges_per_pair (pf_tuning pf))
          (sort_by (compare_edge_refs g) (filter (usable_ref pf now min_trades g) edges)))"

text \<open>The three caches of a refresh are plain hash maps, read before and filled after a computation.\<close>

definition hash_get :: "'k \<Rightarrow> ('k \<rightharpoonup> 'v) \<Rightarrow> 'v option \<times> ('k \<rightharpoonup> 'v)" where
  "hash_get k m = (m k, m)"

definition hash_put :: "'k \<Rightarrow> 'v \<Rightarrow> ('k \<rightharpoonup> 'v) \<Rightarrow> 'k \<rightharpoonup> 'v" where
  "hash_put k v m = m(k \<mapsto> v)"

definition virtual_outgoing_cached ::
  "(nat list \<Rightarrow> nat list) \<Rightarrow> path_finder \<Rightarrow> instant \<Rightarrow> u128 option list \<Rightarrow> graph_snapshot \<Rightarrow> nat \<Rightarrow>
   (nat \<rightharpoonup> edge_ref list) \<Rightarrow> edge_ref list \<times> (nat \<rightharpoonup> edge_ref list)" where
  "virtual_outgoing_cached order pf now min_trades g vertex cache =
     (case hash_get vertex cache of
        (Some edge_refs, cache) \<Rightarrow> (edge_refs, cache)
      | (None, cache) \<Rightarrow>
          let edge_refs = virtual_outgoing order pf now min_trades g vertex
          in (edge_refs, hash_put vertex edge_refs cache))"

definition candidate_pair_edges_cached ::
  "path_finder \<Rightarrow> instant \<Rightarrow> u128 option list \<Rightarrow> graph_snapshot \<Rightarrow> nat \<times> nat \<Rightarrow>
   (nat \<times> nat \<rightharpoonup> edge_ref list) \<Rightarrow> edge_ref list \<times> (nat \<times> nat \<rightharpoonup> edge_ref list)" where
  "candidate_pair_edges_cached pf now min_trades g key cache =
     (case hash_get key cache of
        (Some edge_refs, cache) \<Rightarrow> (edge_refs, cache)
      | (None, cache) \<Rightarrow>
          let edge_refs = candidate_pair_edges pf now min_trades g key
          in (edge_refs, hash_put key edge_refs cache))"

section \<open>The beam search\<close>

definition cmp_paths :: "search_path \<Rightarrow> search_path \<Rightarrow> ordering" where
  "cmp_paths a b =
     then_with (cmp (pth_score_q32 a) (pth_score_q32 b))
       (then_with (cmp (pth_capacity_hint b) (pth_capacity_hint a))
         (cmp (length (pth_edge_refs a)) (length (pth_edge_refs b))))"

definition sort_paths :: "search_path list \<Rightarrow> search_path list" where
  "sort_paths = sort_by cmp_paths"

definition initial_path :: "nat \<Rightarrow> search_path" where
  "initial_path start = \<lparr>pth_edge_refs = [], pth_tokens = [start], pth_score_q32 = 0, pth_capacity_hint = - 1\<rparr>"

definition extend_path ::
  "path_finder \<Rightarrow> instant \<Rightarrow> u128 option list \<Rightarrow> graph_snapshot \<Rightarrow> search_path \<Rightarrow> edge_ref \<Rightarrow> search_path option" where
  "extend_path pf now min_trades g current edge_ref =
     Option.bind (edge_of g edge_ref) (\<lambda>e.
       if \<not> usable pf now min_trades e then None
       else if e_to e \<in> set (pth_tokens current) then None
       else Some \<lparr>pth_edge_refs = pth_edge_refs current @ [edge_ref],
                  pth_tokens = pth_tokens current @ [e_to e],
                  pth_score_q32 = sat_add_i64 (pth_score_q32 current) (e_weight_log_q32 e),
                  pth_capacity_hint = (if 0 < e_capacity e then min (pth_capacity_hint current) (e_capacity e)
                                       else pth_capacity_hint current)\<rparr>)"

text \<open>One round: every path of the frontier along the first branches of its last node. The paths come in
  the order in which the source pushes them, those at the target to \<open>out\<close>, the others to the next frontier.\<close>

fun expand ::
  "(nat list \<Rightarrow> nat list) \<Rightarrow> path_finder \<Rightarrow> instant \<Rightarrow> u128 option list \<Rightarrow> graph_snapshot \<Rightarrow> search_path list \<Rightarrow>
   (nat \<rightharpoonup> edge_ref list) \<Rightarrow> search_path list \<times> (nat \<rightharpoonup> edge_ref list)" where
  "expand order pf now min_trades g [] cache = ([], cache)"
| "expand order pf now min_trades g (current # frontier) cache =
     (let (refs, cache) = virtual_outgoing_cached order pf now min_trades g (last (pth_tokens current)) cache;
          nexts = List.map_filter (extend_path pf now min_trades g current)
            (take (tu_max_virtual_branches_per_node (pf_tuning pf)) refs);
          (rest, cache) = expand order pf now min_trades g frontier cache
      in (nexts @ rest, cache))"

definition reaches :: "nat \<Rightarrow> search_path \<Rightarrow> bool" where
  "reaches target p \<longleftrightarrow> last (pth_tokens p) = target"

fun search_rounds ::
  "(nat list \<Rightarrow> nat list) \<Rightarrow> path_finder \<Rightarrow> instant \<Rightarrow> u128 option list \<Rightarrow> graph_snapshot \<Rightarrow> nat \<Rightarrow> nat \<Rightarrow>
   search_path list \<Rightarrow> search_path list \<Rightarrow> (nat \<rightharpoonup> edge_ref list) \<Rightarrow> search_path list \<times> (nat \<rightharpoonup> edge_ref list)" where
  "search_rounds order pf now min_trades g target 0 out frontier cache = (out, cache)"
| "search_rounds order pf now min_trades g target (Suc n) out frontier cache =
     (let (nexts, cache) = expand order pf now min_trades g frontier cache;
          out = take (tu_top_k_paths_per_side (pf_tuning pf)) (sort_paths (out @ filter (reaches target) nexts));
          frontier = take (tu_path_beam_width (pf_tuning pf)) (sort_paths (filter (\<lambda>p. \<not> reaches target p) nexts))
      in if frontier = [] then (out, cache)
         else search_rounds order pf now min_trades g target n out frontier cache)"

definition find_top_paths ::
  "(nat list \<Rightarrow> nat list) \<Rightarrow> path_finder \<Rightarrow> instant \<Rightarrow> u128 option list \<Rightarrow> graph_snapshot \<Rightarrow> nat \<times> nat \<times> nat \<Rightarrow>
   (nat \<rightharpoonup> edge_ref list) \<Rightarrow> search_path list \<times> (nat \<rightharpoonup> edge_ref list)" where
  "find_top_paths order pf now min_trades g key outgoing_cache =
     (case key of (start, target, max_hops) \<Rightarrow>
        if start = target then ([initial_path start], outgoing_cache)
        else let (out, outgoing_cache) =
                search_rounds order pf now min_trades g target max_hops [] [initial_path start] outgoing_cache
             in (take (tu_top_k_paths_per_side (pf_tuning pf)) (sort_paths out), outgoing_cache))"

text \<open>The caches of a refresh.\<close>

record search_caches =
  sc_top_paths :: "nat \<times> nat \<times> nat \<rightharpoonup> search_path list"
  sc_outgoing :: "nat \<rightharpoonup> edge_ref list"
  sc_pair_edges :: "nat \<times> nat \<rightharpoonup> edge_ref list"

definition find_top_paths_cached ::
  "(nat list \<Rightarrow> nat list) \<Rightarrow> path_finder \<Rightarrow> instant \<Rightarrow> u128 option list \<Rightarrow> graph_snapshot \<Rightarrow> nat \<times> nat \<times> nat \<Rightarrow>
   search_caches \<Rightarrow> search_path list \<times> search_caches" where
  "find_top_paths_cached order pf now min_trades g key c =
     (case hash_get key (sc_top_paths c) of
        (Some paths, _) \<Rightarrow> (paths, c)
      | (None, tops) \<Rightarrow>
          let (paths, outgoing) = find_top_paths order pf now min_trades g key (sc_outgoing c)
          in (paths, c\<lparr>sc_top_paths := hash_put key paths tops, sc_outgoing := outgoing\<rparr>))"

section \<open>The caches change nothing\<close>

interpretation hash: memo_table hash_get hash_put "\<lambda>_. True"
  by unfold_locales (auto simp: hash_get_def hash_put_def split: if_splits)

lemma hash_get_simps [simp]: "fst (hash_get k m) = m k" "snd (hash_get k m) = m"
  by (simp_all add: hash_get_def)

lemma hash_hit: "hash.coherent f m \<Longrightarrow> m k = Some v \<Longrightarrow> v = f k"
  using hash.coherent_hit [of f m k v] by simp

lemma outgoing_cached:
  assumes "hash.coherent (virtual_outgoing order pf now mins g) cache"
  shows "fst (virtual_outgoing_cached order pf now mins g v cache) = virtual_outgoing order pf now mins g v"
    and "hash.coherent (virtual_outgoing order pf now mins g) (snd (virtual_outgoing_cached order pf now mins g v cache))"
  using assms hash.coherent_insert [OF assms, of v] hash_hit [OF assms, of v]
  by (cases "cache v"; simp add: virtual_outgoing_cached_def hash_get_def Let_def)+

lemma pair_edges_cached:
  assumes "hash.coherent (candidate_pair_edges pf now mins g) cache"
  shows "fst (candidate_pair_edges_cached pf now mins g k cache) = candidate_pair_edges pf now mins g k"
    and "hash.coherent (candidate_pair_edges pf now mins g) (snd (candidate_pair_edges_cached pf now mins g k cache))"
  using assms hash.coherent_insert [OF assms, of k] hash_hit [OF assms, of k]
  by (cases "cache k"; simp add: candidate_pair_edges_cached_def hash_get_def Let_def)+

text \<open>The search without caches.\<close>

definition successors ::
  "(nat list \<Rightarrow> nat list) \<Rightarrow> path_finder \<Rightarrow> instant \<Rightarrow> u128 option list \<Rightarrow> graph_snapshot \<Rightarrow> search_path \<Rightarrow> search_path list" where
  "successors order pf now mins g p = List.map_filter (extend_path pf now mins g p)
     (take (tu_max_virtual_branches_per_node (pf_tuning pf)) (virtual_outgoing order pf now mins g (last (pth_tokens p))))"

fun plain_rounds ::
  "(nat list \<Rightarrow> nat list) \<Rightarrow> path_finder \<Rightarrow> instant \<Rightarrow> u128 option list \<Rightarrow> graph_snapshot \<Rightarrow> nat \<Rightarrow> nat \<Rightarrow>
   search_path list \<Rightarrow> search_path list \<Rightarrow> search_path list" where
  "plain_rounds order pf now mins g target 0 out frontier = out"
| "plain_rounds order pf now mins g target (Suc n) out frontier =
     (let nexts = concat (map (successors order pf now mins g) frontier);
          out = take (tu_top_k_paths_per_side (pf_tuning pf)) (sort_paths (out @ filter (reaches target) nexts));
          frontier = take (tu_path_beam_width (pf_tuning pf)) (sort_paths (filter (\<lambda>p. \<not> reaches target p) nexts))
      in if frontier = [] then out else plain_rounds order pf now mins g target n out frontier)"

definition top_paths ::
  "(nat list \<Rightarrow> nat list) \<Rightarrow> path_finder \<Rightarrow> instant \<Rightarrow> u128 option list \<Rightarrow> graph_snapshot \<Rightarrow> nat \<times> nat \<times> nat \<Rightarrow> search_path list" where
  "top_paths order pf now mins g key = (case key of (start, target, max_hops) \<Rightarrow>
     if start = target then [initial_path start]
     else take (tu_top_k_paths_per_side (pf_tuning pf))
       (sort_paths (plain_rounds order pf now mins g target max_hops [] [initial_path start])))"

lemma expand_plain:
  assumes "hash.coherent (virtual_outgoing order pf now mins g) cache"
  shows "fst (expand order pf now mins g frontier cache) = concat (map (successors order pf now mins g) frontier) \<and>
    hash.coherent (virtual_outgoing order pf now mins g) (snd (expand order pf now mins g frontier cache))"
  using assms
proof (induction frontier arbitrary: cache)
  case (Cons p ps)
  let ?c = "virtual_outgoing_cached order pf now mins g (last (pth_tokens p)) cache"
  have "fst ?c = virtual_outgoing order pf now mins g (last (pth_tokens p))"
    and "hash.coherent (virtual_outgoing order pf now mins g) (snd ?c)"
    using outgoing_cached [OF Cons.prems] by auto
  with Cons.IH [of "snd ?c"] show ?case
    by (auto simp: Let_def successors_def split: prod.splits)
qed simp

lemma rounds_plain:
  assumes "hash.coherent (virtual_outgoing order pf now mins g) cache"
  shows "fst (search_rounds order pf now mins g target n out frontier cache) =
      plain_rounds order pf now mins g target n out frontier \<and>
    hash.coherent (virtual_outgoing order pf now mins g) (snd (search_rounds order pf now mins g target n out frontier cache))"
  using assms
proof (induction n arbitrary: out frontier cache)
  case (Suc n)
  obtain nexts cache' where e: "expand order pf now mins g frontier cache = (nexts, cache')" by fastforce
  have "nexts = concat (map (successors order pf now mins g) frontier)"
    and c: "hash.coherent (virtual_outgoing order pf now mins g) cache'"
    using expand_plain [OF Suc.prems, of frontier] unfolding e by auto
  then show ?case using Suc.IH [OF c] by (simp add: e Let_def)
qed simp

definition caches_ok ::
  "(nat list \<Rightarrow> nat list) \<Rightarrow> path_finder \<Rightarrow> instant \<Rightarrow> u128 option list \<Rightarrow> graph_snapshot \<Rightarrow> search_caches \<Rightarrow> bool" where
  "caches_ok order pf now mins g c \<longleftrightarrow>
     hash.coherent (top_paths order pf now mins g) (sc_top_paths c) \<and>
     hash.coherent (virtual_outgoing order pf now mins g) (sc_outgoing c) \<and>
     hash.coherent (candidate_pair_edges pf now mins g) (sc_pair_edges c)"

lemma find_top_paths_plain:
  assumes "hash.coherent (virtual_outgoing order pf now mins g) cache"
  shows "fst (find_top_paths order pf now mins g key cache) = top_paths order pf now mins g key \<and>
    hash.coherent (virtual_outgoing order pf now mins g) (snd (find_top_paths order pf now mins g key cache))"
proof (cases key)
  case (fields start target hops)
  obtain out cache' where e: "search_rounds order pf now mins g target hops [] [initial_path start] cache = (out, cache')"
    by fastforce
  show ?thesis using rounds_plain [OF assms, of target hops "[]" "[initial_path start]"] assms
    unfolding fields find_top_paths_def top_paths_def by (simp add: e)
qed

lemma top_paths_cached:
  assumes "caches_ok order pf now mins g c"
  shows "fst (find_top_paths_cached order pf now mins g key c) = top_paths order pf now mins g key \<and>
    caches_ok order pf now mins g (snd (find_top_paths_cached order pf now mins g key c))"
proof (cases "sc_top_paths c key")
  case None
  obtain paths out where e: "find_top_paths order pf now mins g key (sc_outgoing c) = (paths, out)" by fastforce
  have "hash.coherent (virtual_outgoing order pf now mins g) (sc_outgoing c)" using assms by (simp add: caches_ok_def)
  from find_top_paths_plain [OF this, of key] have p: "paths = top_paths order pf now mins g key"
    and o: "hash.coherent (virtual_outgoing order pf now mins g) out" unfolding e by auto
  have "hash.coherent (top_paths order pf now mins g) (hash_put key paths (sc_top_paths c))"
    unfolding p using assms by (intro hash.coherent_insert) (simp add: caches_ok_def)
  with None o p assms show ?thesis by (simp add: find_top_paths_cached_def hash_get_def e caches_ok_def)
next
  case (Some paths)
  moreover have "hash.coherent (top_paths order pf now mins g) (sc_top_paths c)" using assms by (simp add: caches_ok_def)
  ultimately have "paths = top_paths order pf now mins g key" using hash_hit by metis
  with Some assms show ?thesis by (simp add: find_top_paths_cached_def hash_get_def)
qed

section \<open>What the paths are\<close>

text \<open>The nodes a list of references runs through, when each starts where the one before ends.\<close>

fun walk :: "graph_snapshot \<Rightarrow> nat \<Rightarrow> edge_ref list \<Rightarrow> nat list option" where
  "walk g v [] = Some [v]"
| "walk g v (r # rs) =
     (if er_from r = v then Option.bind (edge_of g r) (\<lambda>e. map_option (\<lambda>ts. v # ts) (walk g (e_to e) rs)) else None)"

lemma walk_hd: "walk g v rs = Some ts \<Longrightarrow> hd ts = v \<and> ts \<noteq> [] \<and> length ts = Suc (length rs)"
  by (induction g v rs arbitrary: ts rule: walk.induct) (auto split: if_splits simp: bind_eq_Some_conv)

lemma walk_append:
  "walk g v rs = Some ts \<Longrightarrow> walk g v (rs @ qs) = map_option (\<lambda>us. ts @ tl us) (walk g (last ts) qs)"
proof (induction g v rs arbitrary: ts rule: walk.induct)
  case (1 g v)
  then have "ts = [v]" by simp
  moreover have "us = v # tl us" if "walk g v qs = Some us" for us using walk_hd [OF that] by (cases us) auto
  ultimately show ?case by (cases "walk g v qs") auto
next
  case (2 g v r rs)
  then obtain e us where e: "er_from r = v" "edge_of g r = Some e" "walk g (e_to e) rs = Some us" and ts: "ts = v # us"
    by (auto split: if_splits simp: bind_eq_Some_conv)
  have us: "us \<noteq> []" using walk_hd [OF e(3)] by simp
  from 2(1) [OF e(1,2,3)] e us show ?case unfolding ts by (simp add: option.map_comp o_def)
qed

lemma walk_snoc:
  "walk g v (rs @ [r]) = Some us \<longleftrightarrow>
   (\<exists>ts e. walk g v rs = Some ts \<and> er_from r = last ts \<and> edge_of g r = Some e \<and> us = ts @ [e_to e])"
proof (cases "walk g v rs")
  case None
  moreover have "walk g v rs = None \<Longrightarrow> walk g v (rs @ qs) = None" for qs
  proof (induction rs arbitrary: v)
    case (Cons r rs)
    then show ?case by (cases "edge_of g r") auto
  qed simp
  ultimately show ?thesis by simp
next
  case (Some ts)
  then show ?thesis unfolding walk_append [OF Some] by (auto simp: bind_eq_Some_conv)
qed

definition edges_at :: "graph_snapshot \<Rightarrow> edge_ref list \<Rightarrow> edge list" where
  "edges_at g refs = map (\<lambda>r. the (edge_of g r)) refs"

definition score_of :: "edge list \<Rightarrow> i64" where
  "score_of es = foldl (\<lambda>s e. sat_add_i64 s (e_weight_log_q32 e)) 0 es"

definition bottleneck :: "edge list \<Rightarrow> u128" where
  "bottleneck es = foldl (\<lambda>c e. min c (e_capacity e)) (- 1) es"

definition path_ok ::
  "path_finder \<Rightarrow> instant \<Rightarrow> u128 option list \<Rightarrow> graph_snapshot \<Rightarrow> nat \<Rightarrow> search_path \<Rightarrow> bool" where
  "path_ok pf now mins g start p \<longleftrightarrow>
     walk g start (pth_edge_refs p) = Some (pth_tokens p) \<and> distinct (pth_tokens p) \<and>
     list_all (usable_ref pf now mins g) (pth_edge_refs p) \<and>
     pth_score_q32 p = score_of (edges_at g (pth_edge_refs p)) \<and>
     pth_capacity_hint p = bottleneck (edges_at g (pth_edge_refs p))"

lemma initial_path_ok: "path_ok pf now mins g start (initial_path start)"
  by (simp add: path_ok_def initial_path_def score_of_def edges_at_def bottleneck_def)

lemma path_eqI:
  "path_ok pf now mins g start p \<Longrightarrow> path_ok pf now mins g start q \<Longrightarrow> pth_edge_refs p = pth_edge_refs q \<Longrightarrow> p = q"
  by (simp add: path_ok_def)

lemma extend_path_Some:
  "extend_path pf now mins g p r = Some q \<longleftrightarrow>
   (\<exists>e. edge_of g r = Some e \<and> usable pf now mins e \<and> e_to e \<notin> set (pth_tokens p) \<and>
      q = \<lparr>pth_edge_refs = pth_edge_refs p @ [r], pth_tokens = pth_tokens p @ [e_to e],
           pth_score_q32 = sat_add_i64 (pth_score_q32 p) (e_weight_log_q32 e),
           pth_capacity_hint = min (pth_capacity_hint p) (e_capacity e)\<rparr>)"
proof -
  have "0 < e_capacity e" if "usable pf now mins e" for e
    using that by (auto simp: usable_def edge_is_usable_def word_neq_0_conv split: if_splits)
  then show ?thesis by (auto simp: extend_path_def bind_eq_Some_conv)
qed

lemma extend_path_ok:
  assumes p: "path_ok pf now mins g start p" and q: "extend_path pf now mins g p r = Some q"
    and r: "er_from r = last (pth_tokens p)"
  shows "path_ok pf now mins g start q \<and> length (pth_edge_refs q) = Suc (length (pth_edge_refs p))"
proof -
  from q obtain e where e: "edge_of g r = Some e" "usable pf now mins e" "e_to e \<notin> set (pth_tokens p)"
    and q: "q = \<lparr>pth_edge_refs = pth_edge_refs p @ [r], pth_tokens = pth_tokens p @ [e_to e],
           pth_score_q32 = sat_add_i64 (pth_score_q32 p) (e_weight_log_q32 e),
           pth_capacity_hint = min (pth_capacity_hint p) (e_capacity e)\<rparr>"
    unfolding extend_path_Some by blast
  have "walk g start (pth_edge_refs p @ [r]) = Some (pth_tokens p @ [e_to e])"
    unfolding walk_snoc using p e r by (auto simp: path_ok_def)
  moreover have "usable_ref pf now mins g r" using e by (simp add: usable_ref_def)
  ultimately show ?thesis using p e by (auto simp: q path_ok_def edges_at_def score_of_def bottleneck_def)
qed

lemma by_to_groups:
  "unwrap_or (fold (\<lambda>r. push_entry (f r) r) refs m t) [] = unwrap_or (m t) [] @ filter (\<lambda>r. f r = t) refs"
  by (induction refs arbitrary: m) (auto simp: push_entry_get)

lemma virtual_outgoing_from:
  assumes "r \<in> set (virtual_outgoing order pf now mins g v)"
  shows "er_from r = v \<and> usable_ref pf now mins g r"
proof -
  have "r \<in> set (filter (usable_ref pf now mins g) (ranked_outgoing g v))"
    using assms by (auto simp: virtual_outgoing_def Let_def by_to_groups dest!: in_set_takeD)
  then show ?thesis by (auto simp: ranked_outgoing_def Let_def)
qed

text \<open>A branch of a node: a reference among the first the search follows.\<close>

definition branches ::
  "(nat list \<Rightarrow> nat list) \<Rightarrow> path_finder \<Rightarrow> instant \<Rightarrow> u128 option list \<Rightarrow> graph_snapshot \<Rightarrow> nat \<Rightarrow> edge_ref list" where
  "branches order pf now mins g v =
     take (tu_max_virtual_branches_per_node (pf_tuning pf)) (virtual_outgoing order pf now mins g v)"

lemma branches_from: "r \<in> set (branches order pf now mins g v) \<Longrightarrow> er_from r = v \<and> usable_ref pf now mins g r"
  by (auto simp: branches_def dest!: in_set_takeD virtual_outgoing_from)

lemma successors_in:
  "q \<in> set (successors order pf now mins g p) \<longleftrightarrow>
   (\<exists>r\<in>set (branches order pf now mins g (last (pth_tokens p))). extend_path pf now mins g p r = Some q)"
  unfolding successors_def branches_def map_filter_in by simp

lemma length_map_filter: "length (List.map_filter f xs) \<le> length xs"
  by (induction xs) (auto simp: List.map_filter_simps split: option.splits)

lemma successors_length: "length (successors order pf now mins g p) \<le> tu_max_virtual_branches_per_node (pf_tuning pf)"
  unfolding successors_def by (rule order_trans [OF length_map_filter]) simp

lemma successors_ok:
  "path_ok pf now mins g start p \<Longrightarrow> q \<in> set (successors order pf now mins g p) \<Longrightarrow>
   path_ok pf now mins g start q \<and> length (pth_edge_refs q) = Suc (length (pth_edge_refs p))"
  unfolding successors_in using extend_path_ok branches_from by blast

lemma set_sort_paths [simp]: "set (sort_paths ps) = set ps" "length (sort_paths ps) = length ps"
  by (simp_all add: sort_paths_def)

text \<open>Soundness: every path found runs from the start to the target through different nodes, over usable
  edges, with at most the allowed number of hops.\<close>

definition paths_upto ::
  "path_finder \<Rightarrow> instant \<Rightarrow> u128 option list \<Rightarrow> graph_snapshot \<Rightarrow> nat \<Rightarrow> nat \<Rightarrow> nat \<Rightarrow> search_path set" where
  "paths_upto pf now mins g start target k =
     {p. path_ok pf now mins g start p \<and> reaches target p \<and> length (pth_edge_refs p) \<le> k}"

definition paths_of_length ::
  "path_finder \<Rightarrow> instant \<Rightarrow> u128 option list \<Rightarrow> graph_snapshot \<Rightarrow> nat \<Rightarrow> nat \<Rightarrow> search_path set" where
  "paths_of_length pf now mins g start k = {p. path_ok pf now mins g start p \<and> length (pth_edge_refs p) = k}"

lemma nexts_of_length:
  assumes "set frontier \<subseteq> paths_of_length pf now mins g start i"
  shows "set (concat (map (successors order pf now mins g) frontier)) \<subseteq> paths_of_length pf now mins g start (Suc i)"
proof
  fix q assume "q \<in> set (concat (map (successors order pf now mins g) frontier))"
  then obtain p where p: "p \<in> set frontier" and q: "q \<in> set (successors order pf now mins g p)" by auto
  have "path_ok pf now mins g start p" "length (pth_edge_refs p) = i" using p assms by (auto simp: paths_of_length_def)
  with successors_ok [OF this(1) q] show "q \<in> paths_of_length pf now mins g start (Suc i)"
    by (simp add: paths_of_length_def)
qed

lemma reached_upto:
  "p \<in> paths_of_length pf now mins g start k \<Longrightarrow> reaches target p \<Longrightarrow> k \<le> n \<Longrightarrow> p \<in> paths_upto pf now mins g start target n"
  by (simp add: paths_of_length_def paths_upto_def)

lemma paths_upto_mono: "m \<le> n \<Longrightarrow> paths_upto pf now mins g start target m \<subseteq> paths_upto pf now mins g start target n"
  by (auto simp: paths_upto_def)

lemma plain_rounds_ok:
  assumes "set out \<subseteq> paths_upto pf now mins g start target i"
    and "set frontier \<subseteq> paths_of_length pf now mins g start i"
  shows "set (plain_rounds order pf now mins g target n out frontier) \<subseteq> paths_upto pf now mins g start target (i + n)"
  using assms
proof (induction n arbitrary: i out frontier)
  case (Suc n)
  define nexts where "nexts = concat (map (successors order pf now mins g) frontier)"
  define out' where "out' = take (tu_top_k_paths_per_side (pf_tuning pf)) (sort_paths (out @ filter (reaches target) nexts))"
  define f where "f = take (tu_path_beam_width (pf_tuning pf)) (sort_paths (filter (\<lambda>p. \<not> reaches target p) nexts))"
  have nexts: "set nexts \<subseteq> paths_of_length pf now mins g start (Suc i)"
    unfolding nexts_def by (rule nexts_of_length [OF Suc.prems(2)])
  have "set out' \<subseteq> set out \<union> {q \<in> set nexts. reaches target q}"
    unfolding out'_def by (rule order_trans [OF set_take_subset]) auto
  also have "\<dots> \<subseteq> paths_upto pf now mins g start target (Suc i)"
  proof (rule Un_least)
    show "set out \<subseteq> paths_upto pf now mins g start target (Suc i)"
      using Suc.prems(1) paths_upto_mono [of i "Suc i" pf now mins g start target] by auto
    show "{q \<in> set nexts. reaches target q} \<subseteq> paths_upto pf now mins g start target (Suc i)"
      using nexts reached_upto by blast
  qed
  finally have o: "set out' \<subseteq> paths_upto pf now mins g start target (Suc i)" .
  have "set f \<subseteq> set nexts" unfolding f_def by (rule order_trans [OF set_take_subset]) auto
  then have f: "set f \<subseteq> paths_of_length pf now mins g start (Suc i)" using nexts by blast
  have step: "plain_rounds order pf now mins g target (Suc n) out frontier =
      (if f = [] then out' else plain_rounds order pf now mins g target n out' f)"
    by (simp add: nexts_def out'_def f_def Let_def)
  show ?case
  proof (cases "f = []")
    case True
    then show ?thesis using step o paths_upto_mono [of "Suc i" "i + Suc n" pf now mins g start target] by auto
  next
    case False
    then show ?thesis using step Suc.IH [OF o f] by simp
  qed
qed simp

lemma top_paths_ok:
  assumes "p \<in> set (top_paths order pf now mins g (start, target, hops))"
  shows "path_ok pf now mins g start p \<and> reaches target p \<and> length (pth_edge_refs p) \<le> hops"
proof (cases "start = target")
  case True
  with assms show ?thesis using initial_path_ok by (auto simp: top_paths_def initial_path_def reaches_def)
next
  case False
  then have "p \<in> set (plain_rounds order pf now mins g target hops [] [initial_path start])"
    using assms by (auto simp: top_paths_def dest!: in_set_takeD)
  moreover have "set [initial_path start] \<subseteq> paths_of_length pf now mins g start 0"
    using initial_path_ok by (simp add: paths_of_length_def) (simp add: initial_path_def)
  ultimately show ?thesis
    using plain_rounds_ok [of "[]" pf now mins g start target 0 "[initial_path start]" order hops]
    by (auto simp: paths_upto_def)
qed

lemma top_paths_length:
  "length (top_paths order pf now mins g (start, target, hops)) \<le> max 1 (tu_top_k_paths_per_side (pf_tuning pf))"
  by (auto simp: top_paths_def)

section \<open>When the limits do not bind, the search is exhaustive\<close>

text \<open>The paths after \<open>k\<close> rounds without any truncation.\<close>

fun layer ::
  "(nat list \<Rightarrow> nat list) \<Rightarrow> path_finder \<Rightarrow> instant \<Rightarrow> u128 option list \<Rightarrow> graph_snapshot \<Rightarrow> nat \<Rightarrow> nat \<Rightarrow> nat \<Rightarrow> search_path set" where
  "layer order pf now mins g start target 0 = {initial_path start}"
| "layer order pf now mins g start target (Suc k) =
     (\<Union>p\<in>{p \<in> layer order pf now mins g start target k. \<not> reaches target p}. set (successors order pf now mins g p))"

definition open_layer ::
  "(nat list \<Rightarrow> nat list) \<Rightarrow> path_finder \<Rightarrow> instant \<Rightarrow> u128 option list \<Rightarrow> graph_snapshot \<Rightarrow> nat \<Rightarrow> nat \<Rightarrow> nat \<Rightarrow> search_path set" where
  "open_layer order pf now mins g start target k = {p \<in> layer order pf now mins g start target k. \<not> reaches target p}"

definition hit_layer ::
  "(nat list \<Rightarrow> nat list) \<Rightarrow> path_finder \<Rightarrow> instant \<Rightarrow> u128 option list \<Rightarrow> graph_snapshot \<Rightarrow> nat \<Rightarrow> nat \<Rightarrow> nat \<Rightarrow> search_path set" where
  "hit_layer order pf now mins g start target k = {p \<in> layer order pf now mins g start target k. reaches target p}"

lemma layer_Suc:
  "layer order pf now mins g start target (Suc k) =
     (\<Union>p\<in>open_layer order pf now mins g start target k. set (successors order pf now mins g p))"
  by (simp add: open_layer_def)

lemma open_layer_empty:
  "open_layer order pf now mins g start target k = {} \<Longrightarrow> k < m \<Longrightarrow> layer order pf now mins g start target m = {}"
proof (induction m)
  case (Suc m)
  have "open_layer order pf now mins g start target m = {}"
  proof (cases "k = m")
    case False
    then show ?thesis using Suc by (simp add: open_layer_def)
  qed (use Suc in simp)
  then show ?case unfolding layer_Suc by simp
qed simp

lemma nexts_length:
  "length (concat (map (successors order pf now mins g) frontier)) \<le>
     length frontier * tu_max_virtual_branches_per_node (pf_tuning pf)"
proof (induction frontier)
  case (Cons p ps)
  show ?case using Cons.IH successors_length [of order pf now mins g p] by simp
qed simp

lemma power_le_top: "1 \<le> k \<Longrightarrow> k \<le> h \<Longrightarrow> (b :: nat) ^ k \<le> b ^ h"
  by (cases "b = 0") (simp_all add: power_increasing zero_power)

text \<open>The widths that a search with \<open>b\<close> branches per node and \<open>h\<close> hops can fill.\<close>

definition wide :: "search_tuning \<Rightarrow> nat \<Rightarrow> bool" where
  "wide t h \<longleftrightarrow> tu_max_virtual_branches_per_node t ^ h \<le> tu_path_beam_width t \<and>
     h * tu_max_virtual_branches_per_node t ^ h \<le> tu_top_k_paths_per_side t"

lemma rounds_wide:
  assumes "wide (pf_tuning pf) h" and "i + n \<le> h"
    and "set frontier = open_layer order pf now mins g start target i"
    and "length frontier \<le> tu_max_virtual_branches_per_node (pf_tuning pf) ^ i"
    and "length out \<le> i * tu_max_virtual_branches_per_node (pf_tuning pf) ^ h"
  shows "set (plain_rounds order pf now mins g target n out frontier) =
      set out \<union> (\<Union>k\<in>{i<..i + n}. hit_layer order pf now mins g start target k) \<and>
    length (plain_rounds order pf now mins g target n out frontier) \<le> tu_top_k_paths_per_side (pf_tuning pf)"
  using assms
proof (induction n arbitrary: i out frontier)
  case 0
  have "i * tu_max_virtual_branches_per_node (pf_tuning pf) ^ h \<le> h * tu_max_virtual_branches_per_node (pf_tuning pf) ^ h"
    using 0(2) by simp
  then have "length out \<le> tu_top_k_paths_per_side (pf_tuning pf)" using 0(1,5) unfolding wide_def by linarith
  then show ?case by simp
next
  case (Suc n)
  let ?b = "tu_max_virtual_branches_per_node (pf_tuning pf)"
  let ?L = "layer order pf now mins g start target" and ?O = "open_layer order pf now mins g start target"
  let ?H = "hit_layer order pf now mins g start target"
  define nexts where "nexts = concat (map (successors order pf now mins g) frontier)"
  define out' where "out' = take (tu_top_k_paths_per_side (pf_tuning pf)) (sort_paths (out @ filter (reaches target) nexts))"
  define f where "f = take (tu_path_beam_width (pf_tuning pf)) (sort_paths (filter (\<lambda>p. \<not> reaches target p) nexts))"
  have L: "set nexts = ?L (Suc i)" unfolding nexts_def layer_Suc using Suc.prems(3) by auto
  have "length nexts \<le> ?b ^ i * ?b"
    unfolding nexts_def using nexts_length Suc.prems(4) by (meson mult_le_mono1 order_trans)
  then have nb: "length nexts \<le> ?b ^ Suc i" by (simp add: mult.commute)
  also have bh: "?b ^ Suc i \<le> ?b ^ h" using Suc.prems(2) by (intro power_le_top) auto
  finally have nh: "length nexts \<le> ?b ^ h" .
  have "length (filter (\<lambda>p. \<not> reaches target p) nexts) \<le> tu_path_beam_width (pf_tuning pf)"
    using nh Suc.prems(1) length_filter_le [of "\<lambda>p. \<not> reaches target p" nexts] unfolding wide_def by linarith
  then have f: "f = sort_paths (filter (\<lambda>p. \<not> reaches target p) nexts)" by (simp add: f_def)
  have lo: "length (out @ filter (reaches target) nexts) \<le> Suc i * ?b ^ h"
  proof -
    have "length (filter (reaches target) nexts) \<le> ?b ^ h" using nh length_filter_le le_trans by blast
    with Suc.prems(5) show ?thesis by simp
  qed
  have "Suc i * ?b ^ h \<le> h * ?b ^ h" using Suc.prems(2) by (intro mult_le_mono1) simp
  then have "length (out @ filter (reaches target) nexts) \<le> tu_top_k_paths_per_side (pf_tuning pf)"
    using lo Suc.prems(1) unfolding wide_def by linarith
  then have o: "out' = sort_paths (out @ filter (reaches target) nexts)" by (simp add: out'_def)
  have so: "set out' = set out \<union> ?H (Suc i)" using L by (auto simp: o hit_layer_def)
  have sf: "set f = ?O (Suc i)" using L by (auto simp: f open_layer_def)
  have "length (filter (\<lambda>p. \<not> reaches target p) nexts) \<le> ?b ^ Suc i" using nb length_filter_le le_trans by blast
  then have lf: "length f \<le> ?b ^ Suc i" by (simp add: f del: power_Suc)
  have lo': "length out' \<le> Suc i * ?b ^ h" using lo by (simp add: o)
  have step: "plain_rounds order pf now mins g target (Suc n) out frontier =
      (if f = [] then out' else plain_rounds order pf now mins g target n out' f)"
    by (simp add: nexts_def out'_def f_def Let_def)
  have split: "{i<..i + Suc n} = insert (Suc i) {Suc i<..Suc i + n}" by auto
  show ?case
  proof (cases "f = []")
    case True
    then have "?O (Suc i) = {}" using sf by simp
    then have "?H k = {}" if "Suc i < k" for k using that open_layer_empty by (auto simp: hit_layer_def)
    then have "(\<Union>k\<in>{i<..i + Suc n}. ?H k) = ?H (Suc i)" unfolding split by auto
    with True so step lo' \<open>Suc i * ?b ^ h \<le> h * ?b ^ h\<close> Suc.prems(1) show ?thesis by (auto simp: wide_def)
  next
    case False
    have "Suc i + n \<le> h" using Suc.prems(2) by simp
    from Suc.IH [OF Suc.prems(1) this sf lf lo'] False so show ?thesis unfolding step split by auto
  qed
qed

text \<open>Which paths the layers hold.\<close>

definition over_branches ::
  "(nat list \<Rightarrow> nat list) \<Rightarrow> path_finder \<Rightarrow> instant \<Rightarrow> u128 option list \<Rightarrow> graph_snapshot \<Rightarrow> edge_ref list \<Rightarrow> bool" where
  "over_branches order pf now mins g refs = list_all (\<lambda>r. r \<in> set (branches order pf now mins g (er_from r))) refs"

lemma path_snoc:
  assumes "path_ok pf now mins g start p" and "pth_edge_refs p = rs @ [r]"
  obtains q where "path_ok pf now mins g start q" and "pth_edge_refs q = rs" and "extend_path pf now mins g q r = Some p"
    and "er_from r = last (pth_tokens q)" and "pth_tokens p = pth_tokens q @ [last (pth_tokens p)]"
proof -
  have w: "walk g start (rs @ [r]) = Some (pth_tokens p)" using assms by (simp add: path_ok_def)
  then obtain ts e where ts: "walk g start rs = Some ts" "er_from r = last ts" "edge_of g r = Some e"
    "pth_tokens p = ts @ [e_to e]" unfolding walk_snoc by blast
  define q where "q = \<lparr>pth_edge_refs = rs, pth_tokens = ts, pth_score_q32 = score_of (edges_at g rs),
    pth_capacity_hint = bottleneck (edges_at g rs)\<rparr>"
  have q: "path_ok pf now mins g start q" using assms ts by (simp add: path_ok_def q_def)
  have u: "usable pf now mins e" using assms ts by (simp add: path_ok_def usable_ref_def)
  have "extend_path pf now mins g q r = Some p"
    unfolding extend_path_Some using assms ts u
    by (intro exI [of _ e]) (auto simp: path_ok_def q_def edges_at_def score_of_def bottleneck_def intro!: search_path.equality)
  with that [of q] q ts show ?thesis by (simp add: q_def)
qed

lemma layer_iff:
  "p \<in> layer order pf now mins g start target k \<longleftrightarrow>
   path_ok pf now mins g start p \<and> length (pth_edge_refs p) = k \<and> target \<notin> set (butlast (pth_tokens p)) \<and>
   over_branches order pf now mins g (pth_edge_refs p)"
proof (induction k arbitrary: p)
  case 0
  have "p = initial_path start" if "path_ok pf now mins g start p" "pth_edge_refs p = []"
    using path_eqI [OF that(1) initial_path_ok] that(2) by (simp add: initial_path_def)
  then show ?case using initial_path_ok by (auto simp: initial_path_def over_branches_def)
next
  case (Suc k)
  show ?case
  proof
    assume "p \<in> layer order pf now mins g start target (Suc k)"
    then obtain q where q: "q \<in> layer order pf now mins g start target k" "\<not> reaches target q"
      and s: "p \<in> set (successors order pf now mins g q)" by auto
    from s obtain r where r: "r \<in> set (branches order pf now mins g (last (pth_tokens q)))"
      and e: "extend_path pf now mins g q r = Some p" unfolding successors_in by blast
    have q': "path_ok pf now mins g start q" "length (pth_edge_refs q) = k" "target \<notin> set (butlast (pth_tokens q))"
      "over_branches order pf now mins g (pth_edge_refs q)" using q(1) unfolding Suc.IH by auto
    have ne: "pth_tokens q \<noteq> []" using q'(1) walk_hd [of g start "pth_edge_refs q"] by (simp add: path_ok_def)
    from e obtain x where p: "pth_edge_refs p = pth_edge_refs q @ [r]" "pth_tokens p = pth_tokens q @ [x]"
      unfolding extend_path_Some by auto
    have "set (pth_tokens q) = insert (last (pth_tokens q)) (set (butlast (pth_tokens q)))"
      using ne by (metis append_butlast_last_id list.set(2) rotate1.simps(2) set_rotate1)
    then have "target \<notin> set (pth_tokens q)" using q'(3) q(2) by (auto simp: reaches_def)
    with p q' r branches_from [OF r] successors_ok [OF q'(1) s]
    show "path_ok pf now mins g start p \<and> length (pth_edge_refs p) = Suc k \<and> target \<notin> set (butlast (pth_tokens p)) \<and>
      over_branches order pf now mins g (pth_edge_refs p)" by (simp add: over_branches_def)
  next
    assume p: "path_ok pf now mins g start p \<and> length (pth_edge_refs p) = Suc k \<and> target \<notin> set (butlast (pth_tokens p)) \<and>
      over_branches order pf now mins g (pth_edge_refs p)"
    then obtain rs r where rs: "pth_edge_refs p = rs @ [r]" by (metis length_Suc_conv_rev)
    obtain q where q: "path_ok pf now mins g start q" "pth_edge_refs q = rs" "extend_path pf now mins g q r = Some p"
      "er_from r = last (pth_tokens q)" "pth_tokens p = pth_tokens q @ [last (pth_tokens p)]"
      using path_snoc [OF _ rs] p by blast
    have bl: "butlast (pth_tokens p) = pth_tokens q" using q(5) by (metis butlast_snoc)
    have ne: "pth_tokens q \<noteq> []" using q(1) walk_hd [of g start "pth_edge_refs q"] by (simp add: path_ok_def)
    have t: "target \<notin> set (pth_tokens q)" using p bl by simp
    have "q \<in> layer order pf now mins g start target k"
      unfolding Suc.IH using q(1,2) p rs t by (auto simp: over_branches_def dest: in_set_butlastD)
    moreover have "\<not> reaches target q" using t ne by (auto simp: reaches_def)
    moreover have "p \<in> set (successors order pf now mins g q)"
      unfolding successors_in using q p rs by (auto simp: over_branches_def)
    ultimately show "p \<in> layer order pf now mins g start target (Suc k)" by auto
  qed
qed

lemma top_paths_wide:
  assumes "wide (pf_tuning pf) hops" and "start \<noteq> target"
  shows "set (top_paths order pf now mins g (start, target, hops)) =
    (\<Union>k\<in>{0<..hops}. hit_layer order pf now mins g start target k)"
proof -
  let ?r = "plain_rounds order pf now mins g target hops [] [initial_path start]"
  have f: "set [initial_path start] = open_layer order pf now mins g start target 0"
    using assms(2) by (auto simp: open_layer_def reaches_def initial_path_def)
  have "set ?r = (\<Union>k\<in>{0<..hops}. hit_layer order pf now mins g start target k)"
    and "length ?r \<le> tu_top_k_paths_per_side (pf_tuning pf)"
    using rounds_wide [OF assms(1) _ f, of hops "[]"] by auto
  then show ?thesis using assms(2) by (simp add: top_paths_def)
qed

lemma hit_layer_iff:
  assumes "start \<noteq> target" and "0 < k"
  shows "(\<exists>p\<in>hit_layer order pf now mins g start target k. pth_edge_refs p = refs) \<longleftrightarrow>
    length refs = k \<and> over_branches order pf now mins g refs \<and>
    (\<exists>ts. walk g start refs = Some ts \<and> distinct ts \<and> last ts = target)"
proof
  assume "\<exists>p\<in>hit_layer order pf now mins g start target k. pth_edge_refs p = refs"
  then show "length refs = k \<and> over_branches order pf now mins g refs \<and>
    (\<exists>ts. walk g start refs = Some ts \<and> distinct ts \<and> last ts = target)"
    unfolding hit_layer_def mem_Collect_eq layer_iff by (auto simp: path_ok_def reaches_def)
next
  assume r: "length refs = k \<and> over_branches order pf now mins g refs \<and>
    (\<exists>ts. walk g start refs = Some ts \<and> distinct ts \<and> last ts = target)"
  then obtain ts where ts: "walk g start refs = Some ts" "distinct ts" "last ts = target" by blast
  define p where "p = \<lparr>pth_edge_refs = refs, pth_tokens = ts, pth_score_q32 = score_of (edges_at g refs),
    pth_capacity_hint = bottleneck (edges_at g refs)\<rparr>"
  have "list_all (usable_ref pf now mins g) refs"
    using r branches_from by (auto simp: over_branches_def list_all_iff)
  then have "path_ok pf now mins g start p" using ts by (simp add: path_ok_def p_def)
  moreover have "last ts \<notin> set (butlast ts)"
    using ts(2) walk_hd [OF ts(1)] by (metis append_butlast_last_id distinct_butlast not_distinct_conv_prefix)
  ultimately have "p \<in> hit_layer order pf now mins g start target k"
    unfolding hit_layer_def mem_Collect_eq layer_iff using r ts by (simp add: p_def reaches_def)
  then show "\<exists>p\<in>hit_layer order pf now mins g start target k. pth_edge_refs p = refs"
    by (rule bexI [rotated]) (simp add: p_def)
qed

section \<open>A small net\<close>

definition net_edge :: "nat \<Rightarrow> nat \<Rightarrow> address \<Rightarrow> i64 \<Rightarrow> u128 \<Rightarrow> edge" where
  "net_edge from to pool w cap = \<lparr>e_from = from, e_to = to, e_pool_id = pool, e_amm_kind = UniswapV2Like, e_fee_ppm = 3000,
     e_weight_log_q32 = w, e_spot_rate_q128 = 2 ^ 128, e_liquidity = \<lparr>l_estimated_usd_e8 = 0, l_safe_capacity_in = cap\<rparr>,
     e_pool_health = pool_health_default, e_dex_name = ''dex''\<rparr>"

text \<open>Three tokens in a triangle, with two pools between the first two.\<close>

definition net :: graph_snapshot where
  "net = \<lparr>gs_snapshot_id = 1, gs_block_ref = None, gs_tokens = [demo_token 1, demo_token 2, demo_token 3],
     gs_token_to_index = index_tokens [demo_token 1, demo_token 2, demo_token 3],
     gs_stable_token_indices = [], gs_cycle_anchor_indices = [0],
     gs_adjacency = [[net_edge 0 1 11 (- 5) 900, net_edge 0 1 12 (- 9) 700], [net_edge 1 2 13 (- 4) 800], [net_edge 2 0 14 1 500]],
     gs_reverse_adj = [[\<lparr>er_from = 2, er_edge_idx = 0\<rparr>], [\<lparr>er_from = 0, er_edge_idx = 0\<rparr>, \<lparr>er_from = 0, er_edge_idx = 1\<rparr>],
       [\<lparr>er_from = 1, er_edge_idx = 0\<rparr>]],
     gs_pools = [], gs_pool_to_edges = Map.empty,
     gs_pair_to_edges = [(0, 1) \<mapsto> [\<lparr>er_from = 0, er_edge_idx = 0\<rparr>, \<lparr>er_from = 0, er_edge_idx = 1\<rparr>],
       (1, 2) \<mapsto> [\<lparr>er_from = 1, er_edge_idx = 0\<rparr>], (2, 0) \<mapsto> [\<lparr>er_from = 2, er_edge_idx = 0\<rparr>]]\<rparr>"

definition net_finder :: path_finder where
  "net_finder = \<lparr>pf_max_hops = 3, pf_screening_cutoff_q32 = 0, pf_min_pool_confidence_bps = 5000, pf_staleness_timeout = 1000,
     pf_min_trade_usd_e8 = 0, pf_tuning = \<lparr>tu_top_k_paths_per_side = 8, tu_max_virtual_branches_per_node = 2,
       tu_path_beam_width = 4, tu_max_candidates_per_refresh = 4, tu_candidate_selection_buffer_multiplier = 1,
       tu_dedup_token_paths = True, tu_max_pair_edges_per_pair = 2, tu_pool_variants_per_token_path = 3,
       tu_canonical_variants_per_cycle = 3, tu_anchor_variants_per_cycle = 1\<rparr>\<rparr>"

lemma net_usable: "0 < cap \<Longrightarrow> usable net_finder 0 [] (net_edge from to pool w cap)"
  by (auto simp: usable_def edge_is_usable_def net_edge_def net_finder_def healthy_def pool_health_default_def
    min_trade_of_def nth_opt_def word_neq_0_conv)

lemma net_edge_of:
  "edge_of net \<lparr>er_from = 0, er_edge_idx = 0\<rparr> = Some (net_edge 0 1 11 (- 5) 900)"
  "edge_of net \<lparr>er_from = 0, er_edge_idx = Suc 0\<rparr> = Some (net_edge 0 1 12 (- 9) 700)"
  "edge_of net \<lparr>er_from = Suc 0, er_edge_idx = 0\<rparr> = Some (net_edge 1 2 13 (- 4) 800)"
  "edge_of net \<lparr>er_from = 2, er_edge_idx = 0\<rparr> = Some (net_edge 2 0 14 1 500)"
  by (simp_all add: net_def edge_of_def nth_opt_def)

lemma net_edge_sel:
  "e_from (net_edge from to pool w cap) = from" "e_to (net_edge from to pool w cap) = to"
  "e_weight_log_q32 (net_edge from to pool w cap) = w" "e_capacity (net_edge from to pool w cap) = cap"
  "e_pool_health (net_edge from to pool w cap) = pool_health_default"
  by (simp_all add: net_edge_def)

lemma net_ranked:
  "ranked_outgoing net 0 = [\<lparr>er_from = 0, er_edge_idx = 0\<rparr>, \<lparr>er_from = 0, er_edge_idx = Suc 0\<rparr>]"
  "ranked_outgoing net (Suc 0) = [\<lparr>er_from = Suc 0, er_edge_idx = 0\<rparr>]"
  by (simp_all add: ranked_outgoing_def net_def nth_opt_def cmp_ranked_def net_edge_sel cmp_def enumerate_eq_zip)

lemma net_tuning:
  "tu_max_pair_edges_per_pair (pf_tuning net_finder) = 2" "tu_max_virtual_branches_per_node (pf_tuning net_finder) = 2"
  by (simp_all add: net_finder_def)

lemma net_branches:
  "branches (\<lambda>ts. ts) net_finder 0 [] net 0 = [\<lparr>er_from = 0, er_edge_idx = Suc 0\<rparr>, \<lparr>er_from = 0, er_edge_idx = 0\<rparr>]"
  "branches (\<lambda>ts. ts) net_finder 0 [] net (Suc 0) = [\<lparr>er_from = Suc 0, er_edge_idx = 0\<rparr>]"
  by (simp_all add: branches_def virtual_outgoing_def Let_def net_ranked usable_ref_def net_edge_of net_usable target_of_def
    by_to_groups compare_edge_refs_def cmp_edges_def net_edge_sel cmp_def net_tuning)

section \<open>Properties\<close>

text \<open>C28: every path the detector finds between two tokens is a walk of the snapshot from the one to the other
  that visits no token twice, over edges that were usable, with at most the allowed number of hops; its score and
  its capacity are those of its edges, and there are at most as many paths as the tuning allows.\<close>

theorem top_paths_sound:
  assumes "fst (find_top_paths order pf now mins g (start, target, hops) Map.empty) = paths"
  shows "length paths \<le> max 1 (tu_top_k_paths_per_side (pf_tuning pf)) \<and>
    (\<forall>p\<in>set paths.
      walk g start (pth_edge_refs p) = Some (pth_tokens p) \<and> distinct (pth_tokens p) \<and> last (pth_tokens p) = target \<and>
      length (pth_edge_refs p) \<le> hops \<and> list_all (usable_ref pf now mins g) (pth_edge_refs p) \<and>
      pth_score_q32 p = score_of (edges_at g (pth_edge_refs p)) \<and>
      pth_capacity_hint p = bottleneck (edges_at g (pth_edge_refs p)))"
proof (intro conjI ballI)
  have "hash.coherent (virtual_outgoing order pf now mins g) Map.empty" by (simp add: hash.coherent_def)
  then have paths: "paths = top_paths order pf now mins g (start, target, hops)"
    using find_top_paths_plain assms by metis
  show "length paths \<le> max 1 (tu_top_k_paths_per_side (pf_tuning pf))" unfolding paths by (rule top_paths_length)
  fix p assume "p \<in> set paths"
  note ok = top_paths_ok [OF this [unfolded paths], unfolded path_ok_def reaches_def]
  show "walk g start (pth_edge_refs p) = Some (pth_tokens p)" "distinct (pth_tokens p)" "last (pth_tokens p) = target"
    "length (pth_edge_refs p) \<le> hops" "list_all (usable_ref pf now mins g) (pth_edge_refs p)"
    "pth_score_q32 p = score_of (edges_at g (pth_edge_refs p))"
    "pth_capacity_hint p = bottleneck (edges_at g (pth_edge_refs p))" using ok by blast+
qed

text \<open>C27: where the beam and the number of kept paths cannot overflow, the search is exhaustive: a list of at most
  the allowed number of references is among the paths found exactly when it walks from the start to the target through different
  tokens and every reference is among the branches of its node.\<close>

theorem top_paths_exhaustive:
  assumes "wide (pf_tuning pf) hops" and "start \<noteq> target"
  shows "refs \<in> pth_edge_refs ` set (fst (find_top_paths order pf now mins g (start, target, hops) Map.empty)) \<longleftrightarrow>
    0 < length refs \<and> length refs \<le> hops \<and> over_branches order pf now mins g refs \<and>
    (\<exists>ts. walk g start refs = Some ts \<and> distinct ts \<and> last ts = target)"
proof -
  let ?H = "hit_layer order pf now mins g start target"
  have "hash.coherent (virtual_outgoing order pf now mins g) Map.empty" by (simp add: hash.coherent_def)
  then have "fst (find_top_paths order pf now mins g (start, target, hops) Map.empty) =
      top_paths order pf now mins g (start, target, hops)"
    using find_top_paths_plain by blast
  then have "refs \<in> pth_edge_refs ` set (fst (find_top_paths order pf now mins g (start, target, hops) Map.empty)) \<longleftrightarrow>
      (\<exists>k\<in>{0<..hops}. \<exists>p\<in>?H k. pth_edge_refs p = refs)"
    using top_paths_wide [OF assms] by auto
  also have "\<dots> \<longleftrightarrow> (\<exists>k\<in>{0<..hops}. length refs = k \<and> over_branches order pf now mins g refs \<and>
      (\<exists>ts. walk g start refs = Some ts \<and> distinct ts \<and> last ts = target))"
    using hit_layer_iff [OF assms(2)] by (intro bex_cong) auto
  finally show ?thesis by auto
qed

lemma net_walk:
  "walk net 0 [\<lparr>er_from = 0, er_edge_idx = 1\<rparr>, \<lparr>er_from = 1, er_edge_idx = 0\<rparr>] = Some [0, 1, 2]"
  by (simp add: net_def edge_of_def nth_opt_def net_edge_def)

lemmas net_facts = net_branches net_walk [unfolded One_nat_def]

theorem top_paths_exhaustive_witness:
  "[\<lparr>er_from = 0, er_edge_idx = 1\<rparr>, \<lparr>er_from = 1, er_edge_idx = 0\<rparr>] \<in>
     pth_edge_refs ` set (fst (find_top_paths (\<lambda>ts. ts) net_finder 0 [] net (0, 2, 2) Map.empty))"
proof -
  have wide: "wide (pf_tuning net_finder) 2" by (simp add: wide_def net_finder_def)
  show ?thesis
    by (subst top_paths_exhaustive [OF wide]) (simp_all add: over_branches_def net_facts del: walk.simps)
qed

theorem top_paths_sound_witness:
  "let paths = fst (find_top_paths (\<lambda>ts. ts) net_finder 0 [] net (0, 2, 2) Map.empty) in
   length paths \<le> 8 \<and> list_all (\<lambda>p. distinct (pth_tokens p) \<and> last (pth_tokens p) = 2) paths"
proof -
  have "tu_top_k_paths_per_side (pf_tuning net_finder) = 8" by (simp add: net_finder_def)
  with top_paths_sound [OF refl, of "\<lambda>ts. ts" net_finder 0 "[]" net 0 2 2] show ?thesis
    by (simp add: list_all_iff Let_def)
qed

end
