(* ===== verification/Candidates.thy ===== *)
theory Candidates
  imports Path_Search "HOL-Library.List_Lexorder" "HOL-Library.Char_ord" "HOL-Library.AList"
begin

text \<open>
  Candidates and their selection: the rest of \<open>src/detector/path_finder.rs\<close> below the search. A candidate
  is ranked by its profit potential; several candidates run through the same tokens or the same pools, and canonical
  keys, which forget where a cycle starts, bound how many of each are kept. \<open>Display for Address\<close> is the argument
  \<open>show_addr\<close>, \<open>Address::from_str\<close> the argument \<open>parse_addr\<close>.
\<close>

section \<open>Ranking\<close>

definition screening_edge_bps :: "i64 \<Rightarrow> u128" where
  "screening_edge_bps score_q32 =
     (if 0 \<le> score_q32 then 0 else sat_mul (word_of_int \<bar>score_q32\<bar>) 10000 div 2 ^ 32)"

definition candidate_profit_potential_usd_e8 :: "candidate_path \<Rightarrow> u128" where
  "candidate_profit_potential_usd_e8 c =
     sat_mul (sat_mul (cp_route_capacity_usd_e8 c) (screening_edge_bps (cp_screening_score_q32 c)))
       (ucast (cp_route_quality_bps c)) div 100000000"

definition candidate_ordering :: "candidate_path \<Rightarrow> candidate_path \<Rightarrow> ordering" where
  "candidate_ordering left right =
     (let left_potential = candidate_profit_potential_usd_e8 left;
          right_potential = candidate_profit_potential_usd_e8 right
      in then_with
           (if left_potential = 0 \<and> right_potential = 0
            then cmp (cp_screening_score_q32 left) (cp_screening_score_q32 right)
            else cmp right_potential left_potential)
           (then_with (cmp (cp_screening_score_q32 left) (cp_screening_score_q32 right))
             (then_with (cmp (cp_route_capacity_usd_e8 right) (cp_route_capacity_usd_e8 left))
               (cmp (length (cp_path left)) (length (cp_path right))))))"

definition token_quality_bps :: "token_info \<Rightarrow> u16" where
  "token_quality_bps t =
     (if is_exotic (t_behavior t) then 1000
      else if t_manual_price_usd_e8 t \<noteq> None then 10000
      else if t_is_stable t \<or> t_allow_self_funded t then 8000
      else if t_flash_loan_enabled t then 6000
      else 1500)"

definition lower_quality :: "graph_snapshot \<Rightarrow> edge_ref \<Rightarrow> u16 \<Rightarrow> u16" where
  "lower_quality g r quality =
     (case edge_of g r of None \<Rightarrow> quality
      | Some e \<Rightarrow> (case nth_opt (gs_tokens g) (e_to e) of None \<Rightarrow> quality | Some t \<Rightarrow> min quality (token_quality_bps t)))"

definition route_quality_bps :: "graph_snapshot \<Rightarrow> nat \<Rightarrow> edge_ref list \<Rightarrow> u16" where
  "route_quality_bps g anchor_idx edge_refs =
     (let quality = fold (lower_quality g) edge_refs (token_quality_bps (gs_tokens g ! anchor_idx));
          extra_hops = word_of_nat (length edge_refs - 2) :: u16;
          hop_penalty_bps = sat_mul extra_hops 750
      in max (sat_sub quality hop_penalty_bps) 500)"

section \<open>Keys\<close>

definition candidate_token_cycle_key :: "(address \<Rightarrow> string) \<Rightarrow> candidate_path \<Rightarrow> string" where
  "candidate_token_cycle_key show_addr c =
     join_str ''>'' (show_addr (cp_start_token c) # map (\<lambda>h. show_addr (ch_to h)) (cp_path c))"

text \<open>Both comparison functions of the source, on addresses and on strings, have this body.\<close>

fun compare_offsets :: "'a::linorder list \<Rightarrow> nat \<Rightarrow> nat \<Rightarrow> nat list \<Rightarrow> ordering" where
  "compare_offsets xs left right [] = Equal"
| "compare_offsets xs left right (offset # offsets) =
     (let lhs = xs ! ((left + offset) mod length xs); rhs = xs ! ((right + offset) mod length xs)
      in if cmp lhs rhs \<noteq> Equal then cmp lhs rhs else compare_offsets xs left right offsets)"

definition compare_cycle_rotation :: "address list \<Rightarrow> nat \<Rightarrow> nat \<Rightarrow> ordering" where
  "compare_cycle_rotation tokens left right = compare_offsets tokens left right [0..<length tokens]"

definition compare_string_rotation :: "string list \<Rightarrow> nat \<Rightarrow> nat \<Rightarrow> ordering" where
  "compare_string_rotation entries left right = compare_offsets entries left right [0..<length entries]"

definition cycle_tokens :: "candidate_path \<Rightarrow> address list" where
  "cycle_tokens c = cp_start_token c # map ch_to (take (length (cp_path c) - 1) (cp_path c))"

definition canonical_token_cycle_key :: "(address \<Rightarrow> string) \<Rightarrow> candidate_path \<Rightarrow> string" where
  "canonical_token_cycle_key show_addr c =
     (let tokens = cycle_tokens c;
          best_start = unwrap_or (min_by (compare_cycle_rotation tokens) [0..<length tokens]) 0;
          parts = map (\<lambda>offset. show_addr (tokens ! ((best_start + offset) mod length tokens))) [0..<length tokens]
      in join_str ''>'' (parts @ [show_addr (tokens ! best_start)]))"

definition pool_entry :: "(address \<Rightarrow> string) \<Rightarrow> candidate_hop \<Rightarrow> string" where
  "pool_entry show_addr h = show_addr (ch_from h) @ ''>'' @ show_addr (ch_to h) @ '':'' @ show_addr (ch_pool_id h)"

definition canonical_pool_cycle_key :: "(address \<Rightarrow> string) \<Rightarrow> candidate_path \<Rightarrow> string" where
  "canonical_pool_cycle_key show_addr c =
     (if cp_path c = [] then show_addr (cp_start_token c)
      else
        let entries = map (pool_entry show_addr) (cp_path c);
            best_start = unwrap_or (min_by (compare_string_rotation entries) [0..<length entries]) 0
        in join_str ''|'' (map (\<lambda>offset. entries ! ((best_start + offset) mod length entries)) [0..<length entries]))"

definition canonical_anchor_pool_cycle_key :: "(address \<Rightarrow> string) \<Rightarrow> candidate_path \<Rightarrow> string" where
  "canonical_anchor_pool_cycle_key show_addr c =
     show_addr (cp_start_token c) @ '':'' @ canonical_pool_cycle_key show_addr c"

section \<open>Selection\<close>

definition candidate_selection_budget :: "nat \<Rightarrow> nat \<Rightarrow> nat" where
  "candidate_selection_budget max_candidates_per_refresh multiplier =
     min (2 ^ 64 - 1) (max_candidates_per_refresh * max multiplier 1)"

record selection =
  sl_selected :: "candidate_path list"
  sl_pool_cycles :: "string set"
  sl_token_counts :: "string \<Rightarrow> nat"
  sl_anchor_counts :: "string \<Rightarrow> nat"

text \<open>The body of the first loop; \<open>Inl\<close> is its early return.\<close>

definition select_candidate ::
  "(address \<Rightarrow> string) \<Rightarrow> nat \<Rightarrow> nat \<Rightarrow> nat \<Rightarrow> candidate_path \<Rightarrow> selection \<Rightarrow> candidate_path list + selection" where
  "select_candidate show_addr max_candidates variants_per_cycle variants_per_anchor c s =
     (let pool_key = canonical_anchor_pool_cycle_key show_addr c in
      if pool_key \<in> sl_pool_cycles s then Inr s
      else
        let s = s\<lparr>sl_pool_cycles := insert pool_key (sl_pool_cycles s)\<rparr>;
            token_key = canonical_token_cycle_key show_addr c
        in if variants_per_cycle \<le> sl_token_counts s token_key then Inr s
           else
             let anchor_key = token_key @ '':'' @ show_addr (cp_start_token c) in
             if variants_per_anchor \<le> sl_anchor_counts s anchor_key then Inr s
             else
               let chosen = sl_selected s @ [c];
                   s = s\<lparr>sl_selected := chosen,
                         sl_token_counts := (sl_token_counts s)(token_key := Suc (sl_token_counts s token_key)),
                         sl_anchor_counts := (sl_anchor_counts s)(anchor_key := Suc (sl_anchor_counts s anchor_key))\<rparr>
               in if max_candidates \<le> length chosen then Inl chosen else Inr s)"

fun fill_rotated ::
  "(address \<Rightarrow> string) \<Rightarrow> nat \<Rightarrow> candidate_path list \<Rightarrow> candidate_path list \<Rightarrow> string set \<Rightarrow> candidate_path list" where
  "fill_rotated show_addr max_candidates [] chosen pool_cycles = chosen"
| "fill_rotated show_addr max_candidates (c # cs) chosen pool_cycles =
     (if max_candidates \<le> length chosen then chosen
      else
        let pool_key = canonical_anchor_pool_cycle_key show_addr c in
        if pool_key \<in> pool_cycles then fill_rotated show_addr max_candidates cs chosen pool_cycles
        else fill_rotated show_addr max_candidates cs (chosen @ [c]) (insert pool_key pool_cycles))"

definition finalize_candidates_with_tuning ::
  "(address \<Rightarrow> string) \<Rightarrow> candidate_path list \<Rightarrow> nat \<Rightarrow> nat \<Rightarrow> nat \<Rightarrow> bool \<Rightarrow> candidate_path list" where
  "finalize_candidates_with_tuning show_addr candidates max_candidates canonical_variants anchor_variants fill =
     (let candidates = sort_by candidate_ordering candidates;
          start = \<lparr>sl_selected = [], sl_pool_cycles = {}, sl_token_counts = (\<lambda>_. 0), sl_anchor_counts = (\<lambda>_. 0)\<rparr>
      in case fold_res (select_candidate show_addr max_candidates (max canonical_variants 1) (max anchor_variants 1))
           candidates start of
           Inl chosen \<Rightarrow> chosen
         | Inr s \<Rightarrow>
             let chosen = sl_selected s in
             if \<not> fill \<or> max_candidates \<le> length chosen then chosen
             else fill_rotated show_addr max_candidates candidates chosen
               (set (map (canonical_anchor_pool_cycle_key show_addr) chosen)))"

definition finalize_candidates ::
  "env \<Rightarrow> (address \<Rightarrow> string) \<Rightarrow> candidate_path list \<Rightarrow> nat \<Rightarrow> nat \<Rightarrow> nat \<Rightarrow> candidate_path list" where
  "finalize_candidates env show_addr candidates max_candidates canonical_variants anchor_variants =
     finalize_candidates_with_tuning show_addr candidates max_candidates canonical_variants anchor_variants
       (env_bool env ''SEARCH_FILL_ROTATED_CANDIDATES'' True)"

text \<open>Variants of one token path: the map is an association list, its hash order an argument.\<close>

definition add_variant :: "nat \<Rightarrow> candidate_path \<Rightarrow> candidate_path list \<Rightarrow> candidate_path list \<times> bool" where
  "add_variant max_variants c variants =
     (if length variants < max_variants then (sort_by candidate_ordering (variants @ [c]), True)
      else if variants \<noteq> [] \<and> candidate_ordering c (last variants) = Less
      then (sort_by candidate_ordering (butlast variants @ [c]), False)
      else (variants, False))"

definition insert_token_path_variant ::
  "(string \<times> candidate_path list) list \<Rightarrow> string \<Rightarrow> candidate_path \<Rightarrow> nat \<Rightarrow>
   (string \<times> candidate_path list) list \<times> bool" where
  "insert_token_path_variant candidates key c max_variants =
     (let (variants, fresh) = add_variant (max max_variants 1) c (unwrap_or (map_of candidates key) [])
      in (AList.update key variants candidates, fresh))"

definition flatten_candidate_map ::
  "(string list \<Rightarrow> string list) \<Rightarrow> (string \<times> candidate_path list) list \<Rightarrow> candidate_path list" where
  "flatten_candidate_map order candidates =
     concat (map (\<lambda>key. unwrap_or (map_of candidates key) []) (order (map fst candidates)))"

section \<open>The ordering is total\<close>

lemma candidate_ordering_lex:
  "candidate_ordering left right =
     then_with (cmp (candidate_profit_potential_usd_e8 right) (candidate_profit_potential_usd_e8 left))
       (then_with (cmp (cp_screening_score_q32 left) (cp_screening_score_q32 right))
         (then_with (cmp (cp_route_capacity_usd_e8 right) (cp_route_capacity_usd_e8 left))
           (cmp (length (cp_path left)) (length (cp_path right)))))"
  by (cases "cmp (cp_screening_score_q32 left) (cp_screening_score_q32 right)")
    (auto simp: candidate_ordering_def Let_def cmp_def split: if_splits)

interpretation ranked: total_preorder candidate_ordering
  unfolding candidate_ordering_lex [abs_def] by (intro preorder_then preorder_key preorder_key_rev)

section \<open>The variants of a token path are its best candidates\<close>

context total_preorder
begin

text \<open>Pushing at the end and sorting puts the new element behind its equals.\<close>

fun insert_after :: "'a \<Rightarrow> 'a list \<Rightarrow> 'a list" where
  "insert_after x [] = [x]"
| "insert_after x (y # ys) = (if c y x = Greater then x # y # ys else y # insert_after x ys)"

lemma length_insert_after [simp]: "length (insert_after x ys) = Suc (length ys)"
  by (induction ys) auto

lemma insert_after_insort: "insert_after x (insort_by c y ys) = insort_by c y (insert_after x ys)"
proof (induction ys)
  case (Cons z zs)
  show ?case
  proof (cases "c y z = Greater")
    case yz: True
    show ?thesis
    proof (cases "c z x = Greater")
      case True
      have "c y x = Greater"
      proof (rule ccontr)
        assume "c y x \<noteq> Greater"
        moreover have "c z y \<noteq> Greater" using total [OF yz] .
        ultimately show False using trans [of z y x] True by simp
      qed
      with yz True show ?thesis by simp
    qed (use yz Cons in simp)
  next
    case yz: False
    then have "c y x \<noteq> Greater" if "c z x \<noteq> Greater" using trans [of y z x] that by simp
    with yz show ?thesis by auto
  qed
qed auto

lemma sort_by_snoc: "sort_by c (xs @ [x]) = insert_after x (sort_by c xs)"
  by (induction xs) (auto simp: insert_after_insort)

lemma take_insert_after:
  "take m (insert_after x (take m ys)) = take m (insert_after x ys)"
proof (induction ys arbitrary: m)
  case (Cons y ys)
  show ?case
  proof (cases m)
    case (Suc k)
    then show ?thesis using Cons.IH [of k] by (cases k) auto
  qed simp
qed simp

lemma insert_after_last:
  "sorted_wrt (\<lambda>a b. c a b \<noteq> Greater) ys \<Longrightarrow> ys \<noteq> [] \<Longrightarrow> c (last ys) x \<noteq> Greater \<Longrightarrow> insert_after x ys = ys @ [x]"
proof (induction ys)
  case (Cons y ys)
  show ?case
  proof (cases "ys = []")
    case False
    then have "c y (last ys) \<noteq> Greater" using Cons.prems(1) by simp
    then have "c y x \<noteq> Greater" using trans [of y "last ys" x] Cons.prems(3) False by simp
    then show ?thesis using Cons.IH Cons.prems False by simp
  qed (use Cons.prems in simp)
qed simp

lemma insert_after_butlast:
  "sorted_wrt (\<lambda>a b. c a b \<noteq> Greater) ys \<Longrightarrow> ys \<noteq> [] \<Longrightarrow> c x (last ys) = Less \<Longrightarrow>
   insert_after x (butlast ys) = butlast (insert_after x ys)"
proof (induction ys)
  case (Cons y ys)
  show ?case
  proof (cases "ys = []")
    case True
    with Cons.prems have "c y x = Greater" using flip [of y x] by simp
    with True show ?thesis by simp
  next
    case False
    have "insert_after x ys \<noteq> []" by (metis length_insert_after list.size(3) nat.distinct(1))
    with False Cons show ?thesis by auto
  qed
qed simp

end

definition variants_of :: "nat \<Rightarrow> candidate_path list \<Rightarrow> candidate_path list" where
  "variants_of m cs = fold (\<lambda>c vs. fst (add_variant m c vs)) cs []"

lemma add_variant_best:
  assumes "0 < m"
  shows "fst (add_variant m c (take m (sort_by candidate_ordering cs))) = take m (sort_by candidate_ordering (cs @ [c]))"
proof -
  let ?s = "sort_by candidate_ordering cs"
  let ?v = "take m ?s"
  have r: "take m (sort_by candidate_ordering (cs @ [c])) = take m (ranked.insert_after c ?v)"
    by (simp add: ranked.sort_by_snoc ranked.take_insert_after)
  have sorted: "sorted_wrt (\<lambda>a b. candidate_ordering a b \<noteq> Greater) ?v"
    using ranked.sorted_sort_by [of cs] by (simp add: sorted_wrt_take)
  have again: "sort_by candidate_ordering (ys @ [c]) = ranked.insert_after c ys"
    if "sorted_wrt (\<lambda>a b. candidate_ordering a b \<noteq> Greater) ys" for ys
  proof -
    have "sort_by candidate_ordering ys = ys" using that
      by (induction ys) (auto, metis (mono_tags, lifting) insort_by.simps list.exhaust list.set_intros(1))
    then show ?thesis by (simp add: ranked.sort_by_snoc)
  qed
  show ?thesis
  proof (cases "length ?v < m")
    case True
    then have "fst (add_variant m c ?v) = ranked.insert_after c ?v"
      unfolding add_variant_def by (simp only: if_P fst_conv again [OF sorted])
    moreover have "take m (ranked.insert_after c ?v) = ranked.insert_after c ?v" using True by simp
    ultimately show ?thesis unfolding r by simp
  next
    case False
    then have len: "length ?v = m" by simp
    then have ne: "?v \<noteq> []" using assms by auto
    show ?thesis
    proof (cases "candidate_ordering c (last ?v) = Less")
      case True
      have b: "sorted_wrt (\<lambda>a b. candidate_ordering a b \<noteq> Greater) (butlast ?v)"
        using sorted_wrt_take [OF sorted, of "length ?v - 1"] by (simp only: butlast_conv_take)
      have "fst (add_variant m c ?v) = sort_by candidate_ordering (butlast ?v @ [c])"
        unfolding add_variant_def using False True ne by simp
      also have "\<dots> = butlast (ranked.insert_after c ?v)"
        unfolding again [OF b] by (rule ranked.insert_after_butlast [OF sorted ne True])
      also have "\<dots> = take m (ranked.insert_after c ?v)" by (simp only: butlast_conv_take ranked.length_insert_after len) simp
      finally show ?thesis unfolding r .
    next
      case notless: False
      then have "candidate_ordering (last ?v) c \<noteq> Greater"
        using ranked.flip [of "last ?v" c] by (cases "candidate_ordering c (last ?v)") auto
      then have "ranked.insert_after c ?v = ?v @ [c]" by (rule ranked.insert_after_last [OF sorted ne])
      moreover have "fst (add_variant m c ?v) = ?v" unfolding add_variant_def using False notless by simp
      ultimately show ?thesis unfolding r using len by simp
    qed
  qed
qed

lemma variants_of_best: "0 < m \<Longrightarrow> variants_of m cs = take m (sort_by candidate_ordering cs)"
proof (induction cs rule: rev_induct)
  case (snoc c cs)
  then have "variants_of m (cs @ [c]) = fst (add_variant m c (take m (sort_by candidate_ordering cs)))"
    by (simp add: variants_of_def)
  with add_variant_best [OF snoc.prems] show ?case by simp
qed (simp add: variants_of_def)

text \<open>What the map holds after a run of insertions.\<close>

definition insert_all ::
  "(string \<times> candidate_path) list \<Rightarrow> nat \<Rightarrow> (string \<times> candidate_path list) list \<Rightarrow> (string \<times> candidate_path list) list" where
  "insert_all kcs max_variants m = fold (\<lambda>(k, c) m. fst (insert_token_path_variant m k c max_variants)) kcs m"

lemma insert_all_lookup:
  "unwrap_or (map_of (insert_all kcs mv m) k) [] =
     fold (\<lambda>c vs. fst (add_variant (max mv 1) c vs)) (map snd (filter (\<lambda>kc. fst kc = k) kcs)) (unwrap_or (map_of m k) [])"
proof (induction kcs arbitrary: m)
  case (Cons kc kcs)
  let ?m = "fst (insert_token_path_variant m (fst kc) (snd kc) mv)"
  have "insert_all (kc # kcs) mv m = insert_all kcs mv ?m" by (simp add: insert_all_def case_prod_beta)
  moreover have "unwrap_or (map_of ?m k) [] =
      (if fst kc = k then fst (add_variant (max mv 1) (snd kc) (unwrap_or (map_of m k) [])) else unwrap_or (map_of m k) [])"
    by (simp add: insert_token_path_variant_def case_prod_beta update_conv')
  ultimately show ?case using Cons.IH [of ?m] by simp
qed (simp add: insert_all_def)

text \<open>of the candidates over the same tokens the detector keeps, in whatever order they arrive, exactly the
  first \<open>max_variants\<close> of them in the order of their rank, the earlier one of two equals first.\<close>

theorem variants_are_best:
  "unwrap_or (map_of (insert_all kcs max_variants []) key) [] =
     take (max max_variants 1) (sort_by candidate_ordering (map snd (filter (\<lambda>kc. fst kc = key) kcs)))"
  using variants_of_best [of "max max_variants 1"] by (simp add: insert_all_lookup variants_of_def)

section \<open>The selection\<close>

lemma subseq_set: "subseq xs ys \<Longrightarrow> x \<in> set xs \<Longrightarrow> x \<in> set ys"
  by (erule list_emb_set) auto

abbreviation pool_key :: "(address \<Rightarrow> string) \<Rightarrow> candidate_path \<Rightarrow> string" where
  "pool_key \<equiv> canonical_anchor_pool_cycle_key"

abbreviation token_key :: "(address \<Rightarrow> string) \<Rightarrow> candidate_path \<Rightarrow> string" where
  "token_key \<equiv> canonical_token_cycle_key"

definition anchor_key :: "(address \<Rightarrow> string) \<Rightarrow> candidate_path \<Rightarrow> string" where
  "anchor_key sa c = token_key sa c @ '':'' @ sa (cp_start_token c)"

definition how_many :: "('a \<Rightarrow> 'k) \<Rightarrow> 'k \<Rightarrow> 'a list \<Rightarrow> nat" where
  "how_many f k xs = length (filter (\<lambda>x. f x = k) xs)"

lemma how_many_snoc [simp]: "how_many f k (xs @ [x]) = how_many f k xs + (if f x = k then 1 else 0)"
  by (simp add: how_many_def)

definition picked ::
  "(address \<Rightarrow> string) \<Rightarrow> nat \<Rightarrow> nat \<Rightarrow> nat \<Rightarrow> candidate_path list \<Rightarrow> candidate_path list \<Rightarrow> bool" where
  "picked sa mc vc va xs r \<longleftrightarrow>
     subseq r xs \<and> distinct (map (pool_key sa) r) \<and> length r \<le> max 1 mc \<and>
     (\<forall>k. how_many (token_key sa) k r \<le> vc) \<and> (\<forall>k. how_many (anchor_key sa) k r \<le> va) \<and>
     (xs \<noteq> [] \<longrightarrow> r \<noteq> [] \<and> hd r = hd xs)"

lemma picked_more: "picked sa mc vc va xs r \<Longrightarrow> xs \<noteq> [] \<Longrightarrow> picked sa mc vc va (xs @ ys) r"
  by (auto simp: picked_def)

definition selecting ::
  "(address \<Rightarrow> string) \<Rightarrow> nat \<Rightarrow> nat \<Rightarrow> nat \<Rightarrow> candidate_path list \<Rightarrow> selection \<Rightarrow> bool" where
  "selecting sa mc vc va xs s \<longleftrightarrow>
     picked sa mc vc va xs (sl_selected s) \<and> sl_pool_cycles s = pool_key sa ` set xs \<and>
     (\<forall>k. sl_token_counts s k = how_many (token_key sa) k (sl_selected s)) \<and>
     (\<forall>k. sl_anchor_counts s k = how_many (anchor_key sa) k (sl_selected s)) \<and>
     (sl_selected s = [] \<or> length (sl_selected s) < mc)"

lemma select_step:
  assumes "selecting sa mc vc va xs s" and "0 < vc" and "0 < va"
  shows "case select_candidate sa mc vc va c s of
      Inl r \<Rightarrow> picked sa mc vc va (xs @ [c]) r \<and> mc \<le> length r
    | Inr s' \<Rightarrow> selecting sa mc vc va (xs @ [c]) s'"
proof -
  let ?r = "sl_selected s"
  have p: "picked sa mc vc va xs ?r" and pools: "sl_pool_cycles s = pool_key sa ` set xs"
    and tc: "\<And>k. sl_token_counts s k = how_many (token_key sa) k ?r"
    and ac: "\<And>k. sl_anchor_counts s k = how_many (anchor_key sa) k ?r"
    and len: "?r = [] \<or> length ?r < mc" using assms(1) by (auto simp: selecting_def)
  note keys = anchor_key_def
  have keep: "selecting sa mc vc va (xs @ [c]) (s\<lparr>sl_pool_cycles := insert (pool_key sa c) (pool_key sa ` set xs)\<rparr>)"
    if "xs \<noteq> []"
    using picked_more [OF p that, of "[c]"] tc ac len by (simp add: selecting_def)
  show ?thesis
  proof (cases "pool_key sa c \<in> pool_key sa ` set xs")
    case True
    then have "xs \<noteq> []" by auto
    from keep [OF this] True have "selecting sa mc vc va (xs @ [c]) s"
      by (simp add: selecting_def pools insert_absorb)
    with True show ?thesis by (simp add: select_candidate_def pools)
  next
    case fresh: False
    show ?thesis
    proof (cases "vc \<le> how_many (token_key sa) (token_key sa c) ?r \<or> va \<le> how_many (anchor_key sa) (anchor_key sa c) ?r")
      case True
      then have "?r \<noteq> []" using assms(2,3) by (auto simp: how_many_def)
      then have "xs \<noteq> []" using p by (auto simp: picked_def)
      with True fresh keep show ?thesis
        by (auto simp: select_candidate_def pools tc ac keys Let_def)
    next
      case False
      have new: "pool_key sa c \<notin> pool_key sa ` set ?r"
        using fresh p by (auto simp: picked_def dest: subseq_set)
      have cnt: "how_many (token_key sa) k (?r @ [c]) \<le> vc" "how_many (anchor_key sa) k (?r @ [c]) \<le> va" for k
        using False p by (auto simp: picked_def)
      have hd: "hd (?r @ [c]) = hd (xs @ [c])" using p by (cases "xs = []") (auto simp: picked_def hd_append)
      have sub: "subseq (?r @ [c]) (xs @ [c])" using p by (simp add: picked_def subseq_append')
      have "length (?r @ [c]) \<le> max 1 mc" using len by auto
      then have pick: "picked sa mc vc va (xs @ [c]) (?r @ [c])"
        unfolding picked_def using p new cnt hd sub by (auto simp: picked_def)
      show ?thesis
        using False fresh pick len tc ac
        by (auto simp: select_candidate_def pools keys Let_def selecting_def)
    qed
  qed
qed

lemma select_all:
  assumes "selecting sa mc vc va xs s" and "0 < vc" and "0 < va"
  shows "case fold_res (select_candidate sa mc vc va) ys s of
      Inl r \<Rightarrow> picked sa mc vc va (xs @ ys) r \<and> mc \<le> length r
    | Inr s' \<Rightarrow> selecting sa mc vc va (xs @ ys) s'"
  using assms(1)
proof (induction ys arbitrary: xs s)
  case (Cons y ys)
  show ?case
  proof (cases "select_candidate sa mc vc va y s")
    case (Inl r)
    then have p: "picked sa mc vc va (xs @ [y]) r" and "mc \<le> length r"
      using select_step [OF Cons.prems assms(2,3), of y] by simp_all
    have "picked sa mc vc va ((xs @ [y]) @ ys) r" by (rule picked_more [OF p]) simp
    with Inl \<open>mc \<le> length r\<close> show ?thesis by simp
  next
    case (Inr s')
    then have "selecting sa mc vc va (xs @ [y]) s'" using select_step [OF Cons.prems assms(2,3), of y] by simp
    from Cons.IH [OF this] Inr show ?thesis by (simp only: fold_res.simps res_bind_simps append_assoc append_Cons append_Nil)
  qed
qed simp

lemma fill_rotated_props:
  assumes "pools = pool_key sa ` set chosen" and "distinct (map (pool_key sa) chosen)"
  shows "\<exists>more. fill_rotated sa mc cs chosen pools = chosen @ more \<and> set more \<subseteq> set cs \<and>
      distinct (map (pool_key sa) (chosen @ more)) \<and> length (chosen @ more) \<le> max (length chosen) mc \<and>
      (length (chosen @ more) < mc \<longrightarrow> pool_key sa ` set cs \<subseteq> pool_key sa ` set (chosen @ more))"
  using assms
proof (induction sa mc cs chosen pools rule: fill_rotated.induct)
  case (2 sa mc c cs chosen pools)
  let ?k = "pool_key sa c"
  show ?case
  proof (cases "mc \<le> length chosen")
    case True
    then show ?thesis using 2(4) by (intro exI [of _ "[]"]) auto
  next
    case room: False
    show ?thesis
    proof (cases "?k \<in> pools")
      case True
      from 2(1) [OF room refl True 2(3,4)] obtain more where
        m: "fill_rotated sa mc cs chosen pools = chosen @ more" "set more \<subseteq> set cs"
          "distinct (map (pool_key sa) (chosen @ more))" "length (chosen @ more) \<le> max (length chosen) mc"
          "length (chosen @ more) < mc \<longrightarrow> pool_key sa ` set cs \<subseteq> pool_key sa ` set (chosen @ more)" by blast
      show ?thesis using m room True 2(3) by (intro exI [of _ more]) (auto simp: Let_def)
    next
      case False
      have d: "distinct (map (pool_key sa) (chosen @ [c]))" using 2(3,4) False by auto
      have k: "insert ?k pools = pool_key sa ` set (chosen @ [c])" using 2(3) by auto
      from 2(2) [OF room refl False k d] obtain more where
        m: "fill_rotated sa mc cs (chosen @ [c]) (insert ?k pools) = (chosen @ [c]) @ more" "set more \<subseteq> set cs"
          "distinct (map (pool_key sa) ((chosen @ [c]) @ more))" "length ((chosen @ [c]) @ more) \<le> max (length (chosen @ [c])) mc"
          "length ((chosen @ [c]) @ more) < mc \<longrightarrow> pool_key sa ` set cs \<subseteq> pool_key sa ` set ((chosen @ [c]) @ more)" by blast
      show ?thesis using m room False by (intro exI [of _ "c # more"]) (auto simp: Let_def)
    qed
  qed
qed auto

lemma sorted_hd_least:
  assumes "cs \<noteq> []"
  shows "\<forall>c\<in>set cs. candidate_ordering (hd (sort_by candidate_ordering cs)) c \<noteq> Greater"
  using ranked.hd_sort_by_least by blast

lemma finalize_cases:
  assumes "chosen = finalize_candidates_with_tuning sa cs mc cv av fill"
  shows "picked sa mc (max cv 1) (max av 1) (sort_by candidate_ordering cs) chosen \<and> (fill \<longrightarrow> mc \<le> length chosen) \<or>
    (fill \<and> (\<exists>r more. chosen = r @ more \<and> picked sa mc (max cv 1) (max av 1) (sort_by candidate_ordering cs) r \<and>
       set more \<subseteq> set cs \<and> distinct (map (pool_key sa) chosen) \<and> length chosen \<le> max (length r) mc \<and>
       (length chosen < mc \<longrightarrow> pool_key sa ` set cs \<subseteq> pool_key sa ` set chosen)))"
proof -
  let ?s = "sort_by candidate_ordering cs"
  let ?start = "\<lparr>sl_selected = [], sl_pool_cycles = {}, sl_token_counts = (\<lambda>_. 0), sl_anchor_counts = (\<lambda>_. 0)\<rparr>"
  have start: "selecting sa mc (max cv 1) (max av 1) [] ?start"
    by (simp add: selecting_def picked_def how_many_def)
  note all = select_all [OF start, of ?s]
  show ?thesis
  proof (cases "fold_res (select_candidate sa mc (max cv 1) (max av 1)) ?s ?start")
    case (Inl r)
    then have "chosen = r" unfolding assms finalize_candidates_with_tuning_def Let_def by simp
    with all Inl show ?thesis by simp
  next
    case (Inr s)
    then have sel: "selecting sa mc (max cv 1) (max av 1) ?s s" using all by simp
    then have p: "picked sa mc (max cv 1) (max av 1) ?s (sl_selected s)" by (simp add: selecting_def)
    show ?thesis
    proof (cases "\<not> fill \<or> mc \<le> length (sl_selected s)")
      case True
      then have "chosen = sl_selected s" using Inr unfolding assms finalize_candidates_with_tuning_def Let_def by simp
      with p True show ?thesis by auto
    next
      case False
      then have c: "chosen = fill_rotated sa mc ?s (sl_selected s) (set (map (pool_key sa) (sl_selected s)))"
        using Inr unfolding assms finalize_candidates_with_tuning_def Let_def by simp
      have "distinct (map (pool_key sa) (sl_selected s))" using p by (simp add: picked_def)
      from fill_rotated_props [OF _ this, of "set (map (pool_key sa) (sl_selected s))" mc ?s]
      obtain more where "chosen = sl_selected s @ more" "set more \<subseteq> set cs"
        "distinct (map (pool_key sa) chosen)" "length chosen \<le> max (length (sl_selected s)) mc"
        "length chosen < mc \<longrightarrow> pool_key sa ` set cs \<subseteq> pool_key sa ` set chosen" unfolding c by auto
      with False p show ?thesis by blast
    qed
  qed
qed

lemma finalize_facts:
  assumes "chosen = finalize_candidates_with_tuning show_addr cs max_candidates cv av fill"
  shows "set chosen \<subseteq> set cs \<and> distinct (map (canonical_anchor_pool_cycle_key show_addr) chosen) \<and>
    length chosen \<le> max 1 max_candidates \<and>
    (cs = [] \<or> chosen \<noteq> [] \<and> (\<forall>c\<in>set cs. candidate_ordering (hd chosen) c \<noteq> Greater)) \<and>
    (fill \<or> (\<forall>k. length (filter (\<lambda>c. canonical_token_cycle_key show_addr c = k) chosen) \<le> max cv 1) \<and>
      (\<forall>k a. length (filter (\<lambda>c. canonical_token_cycle_key show_addr c = k \<and> cp_start_token c = a) chosen) \<le> max av 1)) \<and>
    (\<not> fill \<or> max_candidates \<le> length chosen \<or>
      canonical_anchor_pool_cycle_key show_addr ` set cs \<subseteq> canonical_anchor_pool_cycle_key show_addr ` set chosen)"
proof -
  let ?s = "sort_by candidate_ordering cs"
  have anchors: "length (filter (\<lambda>c. token_key show_addr c = k \<and> cp_start_token c = a) r) \<le>
      how_many (anchor_key show_addr) (k @ '':'' @ show_addr a) r" for k a r
    unfolding how_many_def by (induction r) (auto simp: anchor_key_def)
  have base: "set r \<subseteq> set cs \<and> distinct (map (pool_key show_addr) r) \<and> length r \<le> max 1 max_candidates \<and>
      (cs = [] \<or> r \<noteq> [] \<and> (\<forall>c\<in>set cs. candidate_ordering (hd r) c \<noteq> Greater)) \<and>
      (\<forall>k. how_many (token_key show_addr) k r \<le> max cv 1) \<and> (\<forall>k. how_many (anchor_key show_addr) k r \<le> max av 1)"
    if p: "picked show_addr max_candidates (max cv 1) (max av 1) ?s r" for r
  proof -
    have "subseq r ?s" using p by (simp add: picked_def)
    then have "set r \<subseteq> set ?s" by (intro subsetI) (erule (1) subseq_set)
    moreover have "cs = [] \<or> r \<noteq> [] \<and> (\<forall>c\<in>set cs. candidate_ordering (hd r) c \<noteq> Greater)"
    proof (cases "cs = []")
      case False
      then have "r \<noteq> []" "hd r = hd ?s" using p by (simp_all add: picked_def)
      with sorted_hd_least [OF False] show ?thesis by simp
    qed simp
    ultimately show ?thesis using p unfolding picked_def by simp
  qed
  from finalize_cases [OF assms] show ?thesis
  proof (elim disjE conjE exE)
    assume p: "picked show_addr max_candidates (max cv 1) (max av 1) ?s chosen" and f: "fill \<longrightarrow> max_candidates \<le> length chosen"
    note b = base [OF p]
    have "\<forall>k. length (filter (\<lambda>c. token_key show_addr c = k) chosen) \<le> max cv 1" using b by (simp add: how_many_def)
    moreover have "\<forall>k a. length (filter (\<lambda>c. token_key show_addr c = k \<and> cp_start_token c = a) chosen) \<le> max av 1"
      using b anchors le_trans by blast
    ultimately show ?thesis using b f by blast
  next
    fix r more
    assume fill and c: "chosen = r @ more" and p: "picked show_addr max_candidates (max cv 1) (max av 1) ?s r"
      and m: "set more \<subseteq> set cs" "distinct (map (pool_key show_addr) chosen)" "length chosen \<le> max (length r) max_candidates"
        "length chosen < max_candidates \<longrightarrow> pool_key show_addr ` set cs \<subseteq> pool_key show_addr ` set chosen"
    note b = base [OF p]
    have "set chosen \<subseteq> set cs" using b m(1) by (auto simp: c)
    moreover have "length chosen \<le> max 1 max_candidates" using b m(3) by linarith
    moreover have "cs = [] \<or> chosen \<noteq> [] \<and> (\<forall>c\<in>set cs. candidate_ordering (hd chosen) c \<noteq> Greater)"
      using b by (auto simp: c hd_append)
    ultimately show ?thesis using m(2,4) \<open>fill\<close> not_le by blast
  qed
qed

text \<open>the final selection. It holds candidates only, no two of them with the same anchor and the same cycle of pools, at most as
  many as configured (one, when zero are configured), and a best-ranked candidate comes first. Without the filling pass no
  cycle of tokens is kept more often than its limit, with any one start token no more often than its own; with it, a
  selection that stays below the limit has every pool cycle that was found.\<close>

theorem finalize_selects:
  assumes "chosen = finalize_candidates_with_tuning show_addr cs max_candidates cv av fill"
  shows "set chosen \<subseteq> set cs \<and> distinct (map (canonical_anchor_pool_cycle_key show_addr) chosen) \<and>
    length chosen \<le> max 1 max_candidates \<and>
    (cs = [] \<or> chosen \<noteq> [] \<and> (\<forall>c\<in>set cs. candidate_ordering (hd chosen) c \<noteq> Greater)) \<and>
    (fill \<or> (\<forall>k. length (filter (\<lambda>c. canonical_token_cycle_key show_addr c = k) chosen) \<le> max cv 1) \<and>
      (\<forall>k a. length (filter (\<lambda>c. canonical_token_cycle_key show_addr c = k \<and> cp_start_token c = a) chosen) \<le> max av 1)) \<and>
    (\<not> fill \<or> max_candidates \<le> length chosen \<or>
      canonical_anchor_pool_cycle_key show_addr ` set cs \<subseteq> canonical_anchor_pool_cycle_key show_addr ` set chosen)"
  by (rule finalize_facts [OF assms])

section \<open>Canonical keys forget the rotation, and nothing else\<close>

fun lex_cmp :: "'a::linorder list \<Rightarrow> 'a list \<Rightarrow> ordering" where
  "lex_cmp [] [] = Equal"
| "lex_cmp [] (y # ys) = Less"
| "lex_cmp (x # xs) [] = Greater"
| "lex_cmp (x # xs) (y # ys) = then_with (cmp x y) (lex_cmp xs ys)"

lemma lex_cmp_flip: "lex_cmp ys xs = reverse_ord (lex_cmp xs ys)"
proof (induction xs ys rule: lex_cmp.induct)
  case (4 x xs y ys)
  then show ?case by (cases "cmp x y") (auto simp: cmp_def split: if_splits)
qed auto

lemma lex_cmp_Equal: "lex_cmp xs ys = Equal \<longleftrightarrow> xs = ys"
  by (induction xs ys rule: lex_cmp.induct) (auto simp: cmp_simps)

lemma lex_cmp_trans: "lex_cmp xs ys \<noteq> Greater \<Longrightarrow> lex_cmp ys zs \<noteq> Greater \<Longrightarrow> lex_cmp xs zs \<noteq> Greater"
proof (induction xs ys arbitrary: zs rule: lex_cmp.induct)
  case (2 y ys)
  then show ?case by (cases zs) auto
next
  case (4 x xs y ys)
  then obtain z zs' where zs: "zs = z # zs'" by (cases zs) auto
  from 4 zs show ?case by (auto simp: cmp_simps)
qed auto

lemma lex_cmp_antisym: "lex_cmp xs ys \<noteq> Greater \<Longrightarrow> lex_cmp ys xs \<noteq> Greater \<Longrightarrow> xs = ys"
  using lex_cmp_flip [of ys xs] lex_cmp_Equal [of xs ys] by (cases "lex_cmp xs ys") auto

lemma compare_offsets_lex:
  "compare_offsets xs l r os = lex_cmp (map (\<lambda>i. xs ! ((l + i) mod length xs)) os) (map (\<lambda>i. xs ! ((r + i) mod length xs)) os)"
proof (induction os)
  case (Cons i os)
  then show ?case by (cases "cmp (xs ! ((l + i) mod length xs)) (xs ! ((r + i) mod length xs))") (simp_all add: Let_def)
qed simp

lemma map_rotate: "map (\<lambda>i. xs ! ((k + i) mod length xs)) [0..<length xs] = rotate k xs"
  by (rule nth_equalityI) (auto simp: nth_rotate)

lemma compare_offsets_rotate: "compare_offsets xs l r [0..<length xs] = lex_cmp (rotate l xs) (rotate r xs)"
  by (simp add: compare_offsets_lex map_rotate)

lemma preorder_rotation: "total_preorder (\<lambda>l r. compare_offsets xs l r [0..<length xs])"
  by unfold_locales (simp_all only: compare_offsets_rotate lex_cmp_flip [symmetric], rule lex_cmp_trans)

definition best_start :: "'a::linorder list \<Rightarrow> nat" where
  "best_start xs = unwrap_or (min_by (\<lambda>l r. compare_offsets xs l r [0..<length xs]) [0..<length xs]) 0"

definition least_rotation :: "'a::linorder list \<Rightarrow> 'a list" where
  "least_rotation xs = rotate (best_start xs) xs"

lemma best_start_least:
  assumes "xs \<noteq> []"
  shows "best_start xs < length xs" and "lex_cmp (least_rotation xs) (rotate k xs) \<noteq> Greater"
proof -
  obtain b where b: "min_by (\<lambda>l r. compare_offsets xs l r [0..<length xs]) [0..<length xs] = Some b"
    using assms by (cases "min_by (\<lambda>l r. compare_offsets xs l r [0..<length xs]) [0..<length xs]") auto
  then have eq: "best_start xs = b" by (simp add: best_start_def)
  show "best_start xs < length xs" using min_by_in_set [OF b] by (simp add: eq)
  have "k mod length xs \<in> set [0..<length xs]" using assms by simp
  from total_preorder.min_by_least [OF preorder_rotation b this]
  have "lex_cmp (rotate b xs) (rotate (k mod length xs) xs) \<noteq> Greater" by (simp add: compare_offsets_rotate)
  then show "lex_cmp (least_rotation xs) (rotate k xs) \<noteq> Greater"
    by (simp add: least_rotation_def eq flip: rotate_conv_mod)
qed

lemma least_rotation_of_rotation: "least_rotation (rotate k xs) = least_rotation xs"
proof (cases "xs = []")
  case False
  let ?ys = "rotate k xs"
  have ys: "?ys \<noteq> []" using False by simp
  have "least_rotation ?ys = rotate (best_start ?ys + k) xs"
    by (simp add: least_rotation_def rotate_rotate)
  then have 1: "lex_cmp (least_rotation xs) (least_rotation ?ys) \<noteq> Greater" using best_start_least(2) [OF False] by simp
  have "k mod length xs \<le> length xs" using False by (simp add: less_imp_le)
  then have "rotate (length xs - k mod length xs) ?ys = xs"
    by (metis False add.commute le_add_diff_inverse2 length_greater_0_conv rotate_conv_mod rotate_id rotate_rotate
        mod_add_right_eq mod_self)
  then have "least_rotation xs = rotate (best_start xs + (length xs - k mod length xs)) ?ys"
    by (metis least_rotation_def rotate_rotate)
  then have "lex_cmp (least_rotation ?ys) (least_rotation xs) \<noteq> Greater" using best_start_least(2) [OF ys] by simp
  with 1 show ?thesis using lex_cmp_antisym by metis
qed (simp add: least_rotation_def)

lemma same_least_rotation: "least_rotation xs = least_rotation ys \<longleftrightarrow> (\<exists>k. ys = rotate k xs)"
proof
  assume "least_rotation xs = least_rotation ys"
  then have r: "rotate (best_start ys) ys = rotate (best_start xs) xs" by (simp add: least_rotation_def)
  then have "length ys = length xs" by (metis length_rotate)
  let ?n = "length ys - best_start ys"
  have "rotate ?n (rotate (best_start ys) ys) = ys"
  proof (cases "ys = []")
    case False
    then have "?n + best_start ys = length ys" using best_start_least(1) [OF False] by simp
    then show ?thesis by (simp add: rotate_rotate)
  qed simp
  then have "ys = rotate (?n + best_start xs) xs" using r by (simp add: rotate_rotate)
  then show "\<exists>k. ys = rotate k xs" by blast
qed (auto simp: least_rotation_of_rotation)

text \<open>Joined parts can be told apart when no part contains the separator.\<close>

lemma split_char_ne: "split_char d s \<noteq> []"
  by (induction s) (auto split: list.splits)

lemma split_join:
  "xs \<noteq> [] \<Longrightarrow> \<forall>x\<in>set xs. d \<notin> set x \<Longrightarrow> split_char d (join_str [d] xs) = xs"
proof (induction xs)
  case (Cons x xs)
  have part: "split_char d (x @ rest) = (case split_char d rest of [] \<Rightarrow> [x] | p # ps \<Rightarrow> (x @ p) # ps)"
    if "d \<notin> set x" for x rest
    using that by (induction x) (use split_char_ne [of d rest] in \<open>auto split: list.splits\<close>)
  show ?case
  proof (cases xs)
    case Nil
    then show ?thesis using part [of x "[]"] Cons.prems by simp
  next
    case (Cons y ys)
    then have "split_char d (join_str [d] xs) = xs" using Cons.IH Cons.prems by simp
    then show ?thesis using part [of x "d # join_str [d] xs"] Cons.prems Cons by simp
  qed
qed simp

lemma join_inj:
  "xs \<noteq> [] \<Longrightarrow> ys \<noteq> [] \<Longrightarrow> \<forall>x\<in>set xs \<union> set ys. d \<notin> set x \<Longrightarrow> join_str [d] xs = join_str [d] ys \<longleftrightarrow> xs = ys"
  by (metis UnI1 UnI2 split_join)

lemma token_key_eq:
  "canonical_token_cycle_key sa c =
     join_str ''>'' (map sa (least_rotation (cycle_tokens c)) @ [sa (hd (least_rotation (cycle_tokens c)))])"
proof -
  let ?ts = "cycle_tokens c"
  have ne: "?ts \<noteq> []" by (simp add: cycle_tokens_def)
  have b: "unwrap_or (min_by (compare_cycle_rotation ?ts) [0..<length ?ts]) 0 = best_start ?ts"
    unfolding best_start_def compare_cycle_rotation_def [abs_def] ..
  have "map (\<lambda>i. sa (?ts ! ((best_start ?ts + i) mod length ?ts))) [0..<length ?ts] = map sa (least_rotation ?ts)"
    using map_rotate [of ?ts "best_start ?ts", THEN arg_cong [of _ _ "map sa"]] by (simp add: least_rotation_def o_def)
  moreover have "hd (least_rotation ?ts) = ?ts ! best_start ?ts"
    using ne best_start_least(1) [OF ne] by (simp add: least_rotation_def hd_rotate_conv_nth)
  ultimately show ?thesis unfolding canonical_token_cycle_key_def Let_def b by simp
qed

text \<open>two cycles have the same canonical token key exactly when one is a rotation of the other, provided that addresses
  are printed differently and without the separator.\<close>

theorem canonical_key_identifies_rotations:
  assumes "inj show_addr" and "\<And>a. CHR ''>'' \<notin> set (show_addr a)"
  shows "canonical_token_cycle_key show_addr c = canonical_token_cycle_key show_addr d \<longleftrightarrow>
    (\<exists>k. cycle_tokens d = rotate k (cycle_tokens c))"
proof -
  let ?r = "least_rotation (cycle_tokens c)" and ?q = "least_rotation (cycle_tokens d)"
  have ne: "?r \<noteq> []" "?q \<noteq> []" by (simp_all add: least_rotation_def cycle_tokens_def)
  have "canonical_token_cycle_key show_addr c = canonical_token_cycle_key show_addr d \<longleftrightarrow>
      map show_addr ?r @ [show_addr (hd ?r)] = map show_addr ?q @ [show_addr (hd ?q)]"
    unfolding token_key_eq by (rule join_inj) (use assms(2) in auto)
  also have "\<dots> \<longleftrightarrow> ?r = ?q" using assms(1) by (auto simp: inj_map_eq_map)
  also have "\<dots> \<longleftrightarrow> (\<exists>k. cycle_tokens d = rotate k (cycle_tokens c))" by (rule same_least_rotation)
  finally show ?thesis .
qed

section \<open>Instances\<close>

definition net_hop :: "address \<Rightarrow> address \<Rightarrow> address \<Rightarrow> candidate_hop" where
  "net_hop from to pool = \<lparr>ch_from = from, ch_to = to, ch_pool_id = pool, ch_amm_kind = UniswapV2Like, ch_dex_name = ''dex''\<rparr>"

text \<open>The triangle of the net, entered at its first or at its second token.\<close>

definition net_cycle :: "bool \<Rightarrow> candidate_path" where
  "net_cycle first = \<lparr>cp_snapshot_id = 1, cp_start_token = (if first then 1 else 2), cp_start_symbol = ''T'',
     cp_screening_score_q32 = - 12, cp_route_capacity_usd_e8 = 1000, cp_route_quality_bps = 8000, cp_cycle_key = ''k'',
     cp_path = (if first then [net_hop 1 2 12, net_hop 2 3 13, net_hop 3 1 14]
                else [net_hop 2 3 13, net_hop 3 1 14, net_hop 1 2 12])\<rparr>"

text \<open>A way of printing addresses that keeps them apart.\<close>

definition unary :: "address \<Rightarrow> string" where
  "unary a = replicate (unat a) (CHR ''x'')"

lemma unary_inj: "inj unary"
  by (rule injI) (metis length_replicate unary_def unsigned_word_eqI)

lemma unary_clean: "CHR ''>'' \<notin> set (unary a)"
  by (simp add: unary_def)

theorem canonical_key_identifies_rotations_witness:
  "canonical_token_cycle_key unary (net_cycle True) = canonical_token_cycle_key unary (net_cycle False)"
proof -
  have "cycle_tokens (net_cycle False) = rotate 1 (cycle_tokens (net_cycle True))"
    by (simp add: cycle_tokens_def net_cycle_def net_hop_def)
  then show ?thesis unfolding canonical_key_identifies_rotations [OF unary_inj unary_clean] by blast
qed

theorem finalize_selects_witness:
  "let chosen = finalize_candidates_with_tuning unary [net_cycle True, net_cycle False] 4 1 1 True in
   set chosen \<subseteq> {net_cycle True, net_cycle False} \<and> chosen \<noteq> [] \<and> length chosen \<le> 4"
  using finalize_selects [OF refl, of unary "[net_cycle True, net_cycle False]" 4 1 1 True] by (simp add: Let_def)

end
