(* ===== verification/Detector.thy ===== *)
theory Detector
  imports Candidates Valuation
begin

text \<open>
  \<open>PathFinder::find_candidates\<close> of \<open>src/detector/path_finder.rs\<close> with what it calls besides the search and the
  selection, and \<open>src/detector/mod.rs\<close>. A refresh joins, for every changed pair of tokens and every anchor, a path from the
  anchor to the pair, an edge of the pair and a path back. What the detector takes from outside is one record.
\<close>

record surroundings =
  sr_env :: env
  sr_libm :: libm
  sr_show_addr :: "address \<Rightarrow> string"
  sr_parse_addr :: "string \<Rightarrow> address option"
  sr_node_order :: "nat list \<Rightarrow> nat list"
  sr_key_order :: "string list \<Rightarrow> string list"
  sr_now :: instant

section \<open>Which tokens a route may use\<close>

record execution_token_policy =
  et_required :: bool
  et_symbols :: "string set"
  et_addresses :: "address set"
  et_excluded_symbols :: "string list"
  et_excluded_addresses :: "address set"

definition parse_addresses :: "(string \<Rightarrow> address option) \<Rightarrow> string list \<Rightarrow> address set" where
  "parse_addresses parse_addr vs = set (List.map_filter (\<lambda>v. parse_addr (trim v)) vs)"

definition execution_token_policy :: "env \<Rightarrow> (string \<Rightarrow> address option) \<Rightarrow> graph_snapshot \<Rightarrow> execution_token_policy" where
  "execution_token_policy env parse_addr g =
     (let required = env_bool env ''REQUIRE_TRUSTED_ROUTE_TOKENS'' False;
          symbols = set (map to_ascii_lowercase (env_csv env ''EXECUTION_TRUSTED_SYMBOLS''));
          addresses = parse_addresses parse_addr (env_csv env ''EXECUTION_TRUSTED_TOKENS'');
          excluded_symbols = filter (\<lambda>v. v \<noteq> []) (map to_ascii_lowercase (env_csv env ''EXECUTION_EXCLUDED_SYMBOL_CONTAINS''));
          excluded_addresses = parse_addresses parse_addr (env_csv env ''EXECUTION_EXCLUDED_TOKENS'');
          addresses = (if required \<and> symbols = {} \<and> addresses = {}
            then set (map t_address (filter (\<lambda>t. t_manual_price_usd_e8 t \<noteq> None) (gs_tokens g)))
            else addresses)
      in \<lparr>et_required = required, et_symbols = symbols, et_addresses = addresses,
          et_excluded_symbols = excluded_symbols, et_excluded_addresses = excluded_addresses\<rparr>)"

definition token_excluded_by_execution_policy :: "execution_token_policy \<Rightarrow> token_info \<Rightarrow> bool" where
  "token_excluded_by_execution_policy policy t =
     (t_address t \<in> et_excluded_addresses policy \<or>
      list_ex (str_contains (to_ascii_lowercase (t_symbol t))) (et_excluded_symbols policy))"

definition token_allowed_by_execution_policy :: "env \<Rightarrow> execution_token_policy \<Rightarrow> token_info \<Rightarrow> bool" where
  "token_allowed_by_execution_policy env policy t =
     (t_address t \<in> et_addresses policy \<or>
      to_ascii_lowercase (t_symbol t) \<in> et_symbols policy \<or>
      env_bool env ''EXECUTION_ALLOW_FLASH_LOAN_TOKENS'' False \<and> t_flash_loan_enabled t \<or>
      et_symbols policy = {} \<and> et_addresses policy = {} \<and> t_manual_price_usd_e8 t \<noteq> None)"

definition target_token :: "graph_snapshot \<Rightarrow> edge_ref \<Rightarrow> token_info option" where
  "target_token g r = Option.bind (edge_of g r) (\<lambda>e. nth_opt (gs_tokens g) (e_to e))"

definition every_target :: "graph_snapshot \<Rightarrow> (token_info \<Rightarrow> bool) \<Rightarrow> edge_ref list \<Rightarrow> bool" where
  "every_target g ok refs = list_all (\<lambda>r. case target_token g r of None \<Rightarrow> False | Some t \<Rightarrow> ok t) refs"

definition route_tokens_allowed :: "env \<Rightarrow> graph_snapshot \<Rightarrow> nat \<Rightarrow> edge_ref list \<Rightarrow> execution_token_policy \<Rightarrow> bool" where
  "route_tokens_allowed env g anchor_idx refs policy =
     (case nth_opt (gs_tokens g) anchor_idx of
        None \<Rightarrow> False
      | Some anchor \<Rightarrow>
          if token_excluded_by_execution_policy policy anchor then False
          else if \<not> every_target g (\<lambda>t. \<not> token_excluded_by_execution_policy policy t) refs then False
          else if \<not> et_required policy then True
          else if \<not> token_allowed_by_execution_policy env policy anchor then False
          else every_target g (token_allowed_by_execution_policy env policy) refs)"

section \<open>Capacity of a route\<close>

definition limb :: "nat \<Rightarrow> u256 \<Rightarrow> u64" where
  "limb i v = ucast (drop_bit (64 * i) v)"

definition limbs_to_f64 :: "u256 \<Rightarrow> f64" where
  "limbs_to_f64 v =
     f_add (f_add (f_add (f_mul (f64_of_word (limb 0 v)) (f_lit (1 / 2 ^ 128)))
                         (f_mul (f64_of_word (limb 1 v)) (f_lit (1 / 2 ^ 64))))
                  (f64_of_word (limb 2 v)))
           (f_mul (f64_of_word (limb 3 v)) (f_lit (2 ^ 64)))"

fun start_capacity :: "graph_snapshot \<Rightarrow> f64 \<Rightarrow> f64 \<Rightarrow> edge_ref list \<Rightarrow> u128 option" where
  "start_capacity g cumulative_rate max_start [] = Some (f64_to_u128 max_start)"
| "start_capacity g cumulative_rate max_start (r # refs) =
     Option.bind (edge_of g r) (\<lambda>e.
       if e_capacity e = 0 \<or> f_le cumulative_rate f_zero then Some 0
       else
         let max_start = f_min max_start (f_div (f64_of_word (e_capacity e)) cumulative_rate);
             rate = limbs_to_f64 (e_spot_rate_q128 e)
         in if \<not> is_finite rate \<or> f_le rate f_zero then Some 0
            else
              let cumulative_rate = f_mul cumulative_rate rate
              in if \<not> is_finite cumulative_rate then Some 0 else start_capacity g cumulative_rate max_start refs)"

definition refs_start_capacity_raw :: "graph_snapshot \<Rightarrow> edge_ref list \<Rightarrow> u128 option" where
  "refs_start_capacity_raw g refs = (if refs = [] then None else start_capacity g f_one (F_Inf False) refs)"

definition route_has_min_start_capacity :: "graph_snapshot \<Rightarrow> nat \<Rightarrow> edge_ref list \<Rightarrow> u128 option list \<Rightarrow> bool" where
  "route_has_min_start_capacity g anchor_idx refs min_trades =
     (case min_trade_of min_trades anchor_idx of
        None \<Rightarrow> True
      | Some min_trade_raw \<Rightarrow>
          (case refs_start_capacity_raw g refs of None \<Rightarrow> False | Some capacity \<Rightarrow> max min_trade_raw 1 \<le> capacity))"

definition min_trade_raw_by_token :: "graph_snapshot \<Rightarrow> u128 \<Rightarrow> u128 option list" where
  "min_trade_raw_by_token g min_trade_usd_e8 = map (usd_e8_to_amount min_trade_usd_e8) (gs_tokens g)"

section \<open>From a closed walk to a candidate\<close>

definition forms_simple_cycle :: "search_path \<Rightarrow> nat \<Rightarrow> search_path \<Rightarrow> bool" where
  "forms_simple_cycle prefix_path changed_to suffix_path =
     (let tokens = pth_tokens prefix_path @ [changed_to] @ drop 1 (pth_tokens suffix_path)
      in if length tokens < 3 \<or> hd tokens \<noteq> last tokens then False
         else distinct (take (length tokens - 1) tokens))"

definition ref_key :: "(address \<Rightarrow> string) \<Rightarrow> graph_snapshot \<Rightarrow> edge_ref \<Rightarrow> string option" where
  "ref_key show_addr g r =
     Option.bind (edge_of g r) (\<lambda>e. Option.bind (nth_opt (gs_tokens g) (e_from e)) (\<lambda>from.
       Option.bind (nth_opt (gs_tokens g) (e_to e)) (\<lambda>to.
         Some (show_addr (t_address from) @ ''>'' @ show_addr (t_address to) @ '':'' @ show_addr (e_pool_id e)))))"

definition route_cycle_key :: "(address \<Rightarrow> string) \<Rightarrow> graph_snapshot \<Rightarrow> edge_ref list \<Rightarrow> string" where
  "route_cycle_key show_addr g refs = join_str ''|'' (List.map_filter (ref_key show_addr g) refs)"

definition hop_of :: "graph_snapshot \<Rightarrow> edge \<Rightarrow> candidate_hop" where
  "hop_of g e = \<lparr>ch_from = t_address (gs_tokens g ! e_from e), ch_to = t_address (gs_tokens g ! e_to e),
     ch_pool_id = e_pool_id e, ch_amm_kind = e_amm_kind e, ch_dex_name = e_dex_name e\<rparr>"

text \<open>What a refresh computes once.\<close>

record refresh_locals =
  lo_min_trades :: "u128 option list"
  lo_use_capacity_filter :: bool
  lo_selection_budget :: nat
  lo_policy :: execution_token_policy

definition materialize_candidate ::
  "surroundings \<Rightarrow> graph_snapshot \<Rightarrow> refresh_locals \<Rightarrow> nat \<Rightarrow> string \<Rightarrow> i64 \<Rightarrow> edge_ref list \<Rightarrow> edge_ref \<Rightarrow> candidate_path option" where
  "materialize_candidate sr g lo anchor_idx key score_q32 refs changed_ref =
     Option.bind (edge_of g changed_ref) (\<lambda>changed. Option.bind (those (map (edge_of g) refs)) (\<lambda>edges.
       if \<not> list_ex (\<lambda>e. e_from e = e_from changed \<and> e_to e = e_to changed) edges then None
       else if \<not> route_tokens_allowed (sr_env sr) g anchor_idx refs (lo_policy lo) then None
       else if lo_use_capacity_filter lo \<and> \<not> route_has_min_start_capacity g anchor_idx refs (lo_min_trades lo) then None
       else
         let anchor = gs_tokens g ! anchor_idx;
             route_capacity_usd_e8 = unwrap_or (Option.bind (refs_start_capacity_raw g refs)
               (\<lambda>capacity. amount_to_usd_e8 capacity anchor)) 0
         in Some \<lparr>cp_snapshot_id = gs_snapshot_id g, cp_start_token = t_address anchor, cp_start_symbol = t_symbol anchor,
              cp_screening_score_q32 = score_q32, cp_route_capacity_usd_e8 = route_capacity_usd_e8,
              cp_route_quality_bps = route_quality_bps g anchor_idx refs, cp_cycle_key = key,
              cp_path = map (hop_of g) edges\<rparr>))"

section \<open>The changed pairs\<close>

text \<open>The hash map of the source is an association list here; the sort that follows has no ties.\<close>

definition note_changed ::
  "graph_snapshot \<Rightarrow> edge_ref \<Rightarrow> ((nat \<times> nat) \<times> edge_ref) list \<Rightarrow> ((nat \<times> nat) \<times> edge_ref) list" where
  "note_changed g r by_pair =
     (case edge_of g r of
        None \<Rightarrow> by_pair
      | Some e \<Rightarrow>
          let pair = (e_from e, e_to e) in
          (case map_of by_pair pair of
             None \<Rightarrow> by_pair @ [(pair, r)]
           | Some current \<Rightarrow> if better_edge_ref g r current then AList.update pair r by_pair else by_pair))"

definition pair_score :: "graph_snapshot \<Rightarrow> edge_ref \<Rightarrow> i64" where
  "pair_score g r = unwrap_or (map_option e_weight_log_q32 (edge_of g r)) i64_max"

definition cmp_changed :: "graph_snapshot \<Rightarrow> (nat \<times> nat) \<times> edge_ref \<Rightarrow> (nat \<times> nat) \<times> edge_ref \<Rightarrow> ordering" where
  "cmp_changed g a b =
     then_with (cmp (pair_score g (snd a)) (pair_score g (snd b)))
       (then_with (cmp (fst (fst a)) (fst (fst b))) (cmp (snd (fst a)) (snd (fst b))))"

definition changed_virtual_pairs :: "graph_snapshot \<Rightarrow> edge_ref list \<Rightarrow> ((nat \<times> nat) \<times> edge_ref) list" where
  "changed_virtual_pairs g changed_edges = sort_by (cmp_changed g) (fold (note_changed g) changed_edges [])"

definition anchor_can_participate :: "graph_snapshot \<Rightarrow> nat \<Rightarrow> nat \<Rightarrow> nat \<Rightarrow> bool" where
  "anchor_can_participate g anchor_idx changed_from changed_to =
     (anchor_idx = changed_from \<or> anchor_idx = changed_to \<or>
      unwrap_or (map_option (\<lambda>es. es \<noteq> []) (nth_opt (gs_adjacency g) anchor_idx)) False)"

section \<open>The refresh\<close>

record detection =
  dt_candidates :: "candidate_path list"
  dt_variants :: "(string \<times> candidate_path list) list"
  dt_variant_count :: nat
  dt_dedup :: "string set"
  dt_caches :: search_caches

definition finish :: "surroundings \<Rightarrow> path_finder \<Rightarrow> candidate_path list \<Rightarrow> candidate_path list" where
  "finish sr pf cs = finalize_candidates (sr_env sr) (sr_show_addr sr) cs (tu_max_candidates_per_refresh (pf_tuning pf))
     (tu_canonical_variants_per_cycle (pf_tuning pf)) (tu_anchor_variants_per_cycle (pf_tuning pf))"

definition finish_state :: "surroundings \<Rightarrow> path_finder \<Rightarrow> detection \<Rightarrow> candidate_path list" where
  "finish_state sr pf s = finish sr pf
     (if tu_dedup_token_paths (pf_tuning pf) then flatten_candidate_map (sr_key_order sr) (dt_variants s) else dt_candidates s)"

text \<open>\<open>Inl\<close> leaves the function: with a result, or with \<open>None\<close> where an index is out of range and the source panics.\<close>

type_synonym outcome = "candidate_path list option + detection"

definition keep_candidate :: "surroundings \<Rightarrow> path_finder \<Rightarrow> refresh_locals \<Rightarrow> candidate_path \<Rightarrow> detection \<Rightarrow> outcome" where
  "keep_candidate sr pf lo c s =
     (if tu_dedup_token_paths (pf_tuning pf) then
        let (variants, fresh) = insert_token_path_variant (dt_variants s)
              (candidate_token_cycle_key (sr_show_addr sr) c) c (tu_pool_variants_per_token_path (pf_tuning pf));
            s = s\<lparr>dt_variants := variants,
                  dt_variant_count := (if fresh then min (2 ^ 64 - 1) (dt_variant_count s + 1) else dt_variant_count s)\<rparr>
        in if lo_selection_budget lo \<le> dt_variant_count s then Inl (Some (finish_state sr pf s)) else Inr s
      else
        let s = s\<lparr>dt_candidates := dt_candidates s @ [c]\<rparr>
        in if lo_selection_budget lo \<le> length (dt_candidates s) then Inl (Some (finish_state sr pf s)) else Inr s)"

definition consider_route ::
  "surroundings \<Rightarrow> path_finder \<Rightarrow> graph_snapshot \<Rightarrow> refresh_locals \<Rightarrow> nat \<Rightarrow> nat \<Rightarrow> edge_ref \<Rightarrow>
   edge_ref \<times> search_path \<times> search_path \<Rightarrow> detection \<Rightarrow> outcome" where
  "consider_route sr pf g lo anchor_idx to changed_ref route s =
     (case route of (path_ref, prefix_path, suffix_path) \<Rightarrow>
        let total_hops = length (pth_edge_refs prefix_path) + 1 + length (pth_edge_refs suffix_path) in
        if pf_max_hops pf < total_hops \<or> total_hops < 2 then Inr s
        else if \<not> forms_simple_cycle prefix_path to suffix_path then Inr s
        else case edge_of g path_ref of
            None \<Rightarrow> Inr s
          | Some e \<Rightarrow>
              let score_q32 = sat_add_i64 (sat_add_i64 (pth_score_q32 prefix_path) (e_weight_log_q32 e)) (pth_score_q32 suffix_path) in
              if pf_screening_cutoff_q32 pf \<le> score_q32 then Inr s
              else
                let refs = pth_edge_refs prefix_path @ [path_ref] @ pth_edge_refs suffix_path;
                    key = route_cycle_key (sr_show_addr sr) g refs
                in if key \<in> dt_dedup s then Inr s
                   else
                     let s = s\<lparr>dt_dedup := insert key (dt_dedup s)\<rparr> in
                     (case materialize_candidate sr g lo anchor_idx key score_q32 refs changed_ref of
                        None \<Rightarrow> Inr s
                      | Some c \<Rightarrow> keep_candidate sr pf lo c s))"

definition consider_anchor ::
  "surroundings \<Rightarrow> path_finder \<Rightarrow> graph_snapshot \<Rightarrow> refresh_locals \<Rightarrow> nat \<Rightarrow> nat \<Rightarrow> edge_ref \<Rightarrow> edge_ref list \<Rightarrow>
   nat \<Rightarrow> detection \<Rightarrow> outcome" where
  "consider_anchor sr pf g lo from to changed_ref pair_refs anchor_idx s =
     (if \<not> anchor_can_participate g anchor_idx from to then Inr s
      else
        let max_side_hops = pf_max_hops pf - 1;
            top_paths = find_top_paths_cached (sr_node_order sr) pf (sr_now sr) (lo_min_trades lo) g;
            (prefixes, caches) = top_paths (anchor_idx, from, max_side_hops) (dt_caches s);
            s = s\<lparr>dt_caches := caches\<rparr>
        in if prefixes = [] then Inr s
           else
             let (suffixes, caches) = top_paths (to, anchor_idx, max_side_hops) (dt_caches s);
                 s = s\<lparr>dt_caches := caches\<rparr>
             in if suffixes = [] then Inr s
                else fold_res (consider_route sr pf g lo anchor_idx to changed_ref)
                       (List.product pair_refs (List.product prefixes suffixes)) s)"

definition consider_pair ::
  "surroundings \<Rightarrow> path_finder \<Rightarrow> graph_snapshot \<Rightarrow> distance_cache \<Rightarrow> refresh_locals \<Rightarrow> (nat \<times> nat) \<times> edge_ref \<Rightarrow>
   detection \<Rightarrow> outcome" where
  "consider_pair sr pf g dc lo changed s =
     (case changed of ((from, to), changed_ref) \<Rightarrow>
        let search = (\<lambda>s.
          let (pair_refs, pairs) = candidate_pair_edges_cached pf (sr_now sr) (lo_min_trades lo) g (from, to)
                (sc_pair_edges (dt_caches s));
              s = s\<lparr>dt_caches := (dt_caches s)\<lparr>sc_pair_edges := pairs\<rparr>\<rparr>
          in if pair_refs = [] then Inr s
             else fold_res (consider_anchor sr pf g lo from to changed_ref pair_refs) (gs_cycle_anchor_indices g) s)
        in case nth_opt (dcache_reachable_from_anchor dc) from of
             None \<Rightarrow> Inl None
           | Some False \<Rightarrow> Inr s
           | Some True \<Rightarrow>
               (case nth_opt (dcache_reachable_to_anchor dc) to of
                  None \<Rightarrow> Inl None
                | Some False \<Rightarrow> Inr s
                | Some True \<Rightarrow> search s))"

definition refresh_locals_of :: "surroundings \<Rightarrow> path_finder \<Rightarrow> graph_snapshot \<Rightarrow> edge_ref list \<Rightarrow> refresh_locals" where
  "refresh_locals_of sr pf g changed_edges =
     (let env = sr_env sr; changed = length changed_edges;
          selection_multiplier =
            (if env_usize env ''CANDIDATE_SELECTION_LARGE_REFRESH_THRESHOLD'' 8192 < changed
             then env_usize env ''CANDIDATE_SELECTION_LARGE_REFRESH_MULTIPLIER'' 1
             else tu_candidate_selection_buffer_multiplier (pf_tuning pf))
      in \<lparr>lo_min_trades = min_trade_raw_by_token g (pf_min_trade_usd_e8 pf),
          lo_use_capacity_filter = (changed \<le> env_usize env ''ROUTE_CAPACITY_PREFILTER_MAX_CHANGED_EDGES'' 8192),
          lo_selection_budget = candidate_selection_budget (tu_max_candidates_per_refresh (pf_tuning pf)) selection_multiplier,
          lo_policy = execution_token_policy env (sr_parse_addr sr) g\<rparr>)"

definition no_caches :: search_caches where
  "no_caches = \<lparr>sc_top_paths = Map.empty, sc_outgoing = Map.empty, sc_pair_edges = Map.empty\<rparr>"

definition detection_start :: detection where
  "detection_start = \<lparr>dt_candidates = [], dt_variants = [], dt_variant_count = 0, dt_dedup = {}, dt_caches = no_caches\<rparr>"

definition find_candidates ::
  "surroundings \<Rightarrow> path_finder \<Rightarrow> graph_snapshot \<Rightarrow> edge_ref list \<Rightarrow> distance_cache \<Rightarrow> candidate_path list option" where
  "find_candidates sr pf g changed_edges dc =
     (if pf_max_hops pf < 2 \<or> changed_edges = [] then Some []
      else
        let changed_pairs = changed_virtual_pairs g changed_edges in
        if changed_pairs = [] then Some []
        else
          let lo = refresh_locals_of sr pf g changed_edges in
          (case fold_res (consider_pair sr pf g dc lo) changed_pairs detection_start of
             Inl r \<Rightarrow> r
           | Inr s \<Rightarrow> Some (finish_state sr pf s)))"

text \<open>\<open>Detector\<close>: the path finder of the settings.\<close>

definition detect ::
  "surroundings \<Rightarrow> settings \<Rightarrow> graph_snapshot \<Rightarrow> edge_ref list \<Rightarrow> distance_cache \<Rightarrow> candidate_path list option" where
  "detect sr s g changed_edges dc = find_candidates sr (path_finder_new (sr_env sr) (sr_libm sr) s) g changed_edges dc"

section \<open>What a candidate is\<close>

definition detected ::
  "surroundings \<Rightarrow> path_finder \<Rightarrow> graph_snapshot \<Rightarrow> edge_ref list \<Rightarrow> candidate_path \<Rightarrow> bool" where
  "detected sr pf g changed_edges c \<longleftrightarrow>
     (let lo = refresh_locals_of sr pf g changed_edges in
      \<exists>anchor refs ts.
        anchor \<in> set (gs_cycle_anchor_indices g) \<and>
        walk g anchor refs = Some ts \<and> last ts = anchor \<and> distinct (butlast ts) \<and>
        2 \<le> length refs \<and> length refs \<le> pf_max_hops pf \<and>
        list_all (usable_ref pf (sr_now sr) (lo_min_trades lo) g) refs \<and>
        (\<exists>r\<in>set changed_edges. \<exists>q\<in>set refs. \<exists>e f. edge_of g r = Some e \<and> edge_of g q = Some f \<and>
           e_from f = e_from e \<and> e_to f = e_to e) \<and>
        route_tokens_allowed (sr_env sr) g anchor refs (lo_policy lo) \<and>
        (lo_use_capacity_filter lo \<longrightarrow> route_has_min_start_capacity g anchor refs (lo_min_trades lo)) \<and>
        cp_screening_score_q32 c < pf_screening_cutoff_q32 pf \<and>
        cp_snapshot_id c = gs_snapshot_id g \<and> cp_start_token c = t_address (gs_tokens g ! anchor) \<and>
        cp_path c = map (hop_of g) (edges_at g refs))"

lemma those_edges: "those (map (edge_of g) refs) = Some es \<Longrightarrow> es = edges_at g refs \<and> (\<forall>r\<in>set refs. edge_of g r \<noteq> None)"
  by (induction refs arbitrary: es) (auto simp: edges_at_def split: option.splits)

lemma cycle_walk:
  assumes p: "path_ok pf now mins g anchor p" and r: "er_from r = last (pth_tokens p)" "edge_of g r = Some e"
    and q: "path_ok pf now mins g (e_to e) q"
  shows "walk g anchor (pth_edge_refs p @ [r] @ pth_edge_refs q) = Some (pth_tokens p @ pth_tokens q)"
proof -
  have "walk g (last (pth_tokens p)) (r # pth_edge_refs q) = Some (last (pth_tokens p) # pth_tokens q)"
    using r q by (simp add: path_ok_def)
  then show ?thesis using walk_append [of g anchor "pth_edge_refs p" "pth_tokens p" "r # pth_edge_refs q"] p
    by (simp add: path_ok_def)
qed

lemma simple_cycle:
  assumes "forms_simple_cycle p to q" and "hd (pth_tokens q) = to" and "pth_tokens q \<noteq> []" and "pth_tokens p \<noteq> []"
  shows "distinct (butlast (pth_tokens p @ pth_tokens q)) \<and> last (pth_tokens p @ pth_tokens q) = hd (pth_tokens p)"
proof -
  have "[to] @ drop 1 (pth_tokens q) = pth_tokens q" using assms(2,3) by (cases "pth_tokens q") auto
  then show ?thesis using assms(1,4) by (auto simp: forms_simple_cycle_def Let_def butlast_conv_take split: if_splits)
qed

text \<open>The state of a refresh: the caches are right and everything kept is a candidate.\<close>

definition collecting ::
  "surroundings \<Rightarrow> path_finder \<Rightarrow> graph_snapshot \<Rightarrow> edge_ref list \<Rightarrow> detection \<Rightarrow> bool" where
  "collecting sr pf g changed_edges s \<longleftrightarrow>
     caches_ok (sr_node_order sr) pf (sr_now sr) (lo_min_trades (refresh_locals_of sr pf g changed_edges)) g (dt_caches s) \<and>
     (\<forall>c\<in>set (dt_candidates s). detected sr pf g changed_edges c) \<and>
     (\<forall>k. \<forall>c\<in>set (unwrap_or (map_of (dt_variants s) k) []). detected sr pf g changed_edges c)"

definition good_result ::
  "surroundings \<Rightarrow> path_finder \<Rightarrow> graph_snapshot \<Rightarrow> edge_ref list \<Rightarrow> candidate_path list option \<Rightarrow> bool" where
  "good_result sr pf g changed_edges r \<longleftrightarrow>
     (\<exists>cs. r = Some cs \<and> length cs \<le> max 1 (tu_max_candidates_per_refresh (pf_tuning pf)) \<and>
        (\<forall>c\<in>set cs. detected sr pf g changed_edges c))"

lemma finish_good:
  assumes "collecting sr pf g ch s" shows "good_result sr pf g ch (Some (finish_state sr pf s))"
proof -
  let ?cs = "if tu_dedup_token_paths (pf_tuning pf) then flatten_candidate_map (sr_key_order sr) (dt_variants s) else dt_candidates s"
  have all: "\<forall>c\<in>set ?cs. detected sr pf g ch c"
    using assms by (auto simp: collecting_def flatten_candidate_map_def)
  have f: "finish_state sr pf s = finalize_candidates_with_tuning (sr_show_addr sr) ?cs (tu_max_candidates_per_refresh (pf_tuning pf))
      (tu_canonical_variants_per_cycle (pf_tuning pf)) (tu_anchor_variants_per_cycle (pf_tuning pf))
      (env_bool (sr_env sr) ''SEARCH_FILL_ROTATED_CANDIDATES'' True)"
    by (simp add: finish_state_def finish_def finalize_candidates_def)
  note facts = finalize_facts [OF f]
  have "set (finish_state sr pf s) \<subseteq> set ?cs" using facts by (rule conjunct1)
  moreover have "length (finish_state sr pf s) \<le> max 1 (tu_max_candidates_per_refresh (pf_tuning pf))"
    using facts [THEN conjunct2, THEN conjunct2] by (rule conjunct1)
  ultimately show ?thesis using all by (auto simp: good_result_def simp del: set_simps)
qed

lemma add_variant_set: "set (fst (add_variant m c vs)) \<subseteq> insert c (set vs)"
  by (auto simp: add_variant_def dest: in_set_butlastD)

lemma keep_candidate_good:
  assumes "collecting sr pf g ch s" and "detected sr pf g ch c"
  shows "case keep_candidate sr pf lo c s of Inl r \<Rightarrow> good_result sr pf g ch r | Inr s' \<Rightarrow> collecting sr pf g ch s'"
proof (cases "tu_dedup_token_paths (pf_tuning pf)")
  case True
  let ?k = "candidate_token_cycle_key (sr_show_addr sr) c"
  obtain variants fresh where v: "insert_token_path_variant (dt_variants s) ?k c (tu_pool_variants_per_token_path (pf_tuning pf)) =
      (variants, fresh)" by fastforce
  define s' where "s' = s\<lparr>dt_variants := variants,
    dt_variant_count := (if fresh then min (2 ^ 64 - 1) (dt_variant_count s + 1) else dt_variant_count s)\<rparr>"
  have "detected sr pf g ch x" if "x \<in> set (unwrap_or (map_of variants k) [])" for x k
  proof -
    have "map_of variants k = (if k = ?k then Some (fst (add_variant (max (tu_pool_variants_per_token_path (pf_tuning pf)) 1) c
        (unwrap_or (map_of (dt_variants s) ?k) []))) else map_of (dt_variants s) k)"
      using v by (auto simp: insert_token_path_variant_def case_prod_beta update_conv')
    with that assms add_variant_set show ?thesis by (fastforce simp: collecting_def split: if_splits)
  qed
  then have s': "collecting sr pf g ch s'" using assms(1) by (simp add: collecting_def s'_def)
  have "keep_candidate sr pf lo c s =
      (if lo_selection_budget lo \<le> dt_variant_count s' then Inl (Some (finish_state sr pf s')) else Inr s')"
    using True by (simp add: keep_candidate_def v s'_def Let_def)
  with s' finish_good [OF s'] show ?thesis by simp
next
  case False
  define s' where "s' = s\<lparr>dt_candidates := dt_candidates s @ [c]\<rparr>"
  have s': "collecting sr pf g ch s'" using assms by (auto simp: collecting_def s'_def)
  have "keep_candidate sr pf lo c s =
      (if lo_selection_budget lo \<le> length (dt_candidates s') then Inl (Some (finish_state sr pf s')) else Inr s')"
    using False by (simp add: keep_candidate_def s'_def Let_def)
  with s' finish_good [OF s'] show ?thesis by simp
qed

lemma materialize_facts:
  assumes "materialize_candidate sr g lo anchor key score refs changed_ref = Some c"
  shows "route_tokens_allowed (sr_env sr) g anchor refs (lo_policy lo) \<and>
    (lo_use_capacity_filter lo \<longrightarrow> route_has_min_start_capacity g anchor refs (lo_min_trades lo)) \<and>
    cp_screening_score_q32 c = score \<and> cp_snapshot_id c = gs_snapshot_id g \<and>
    cp_start_token c = t_address (gs_tokens g ! anchor) \<and> cp_path c = map (hop_of g) (edges_at g refs) \<and>
    (\<exists>q\<in>set refs. \<exists>e f. edge_of g changed_ref = Some e \<and> edge_of g q = Some f \<and> e_from f = e_from e \<and> e_to f = e_to e)"
proof -
  from assms obtain e es where e: "edge_of g changed_ref = Some e" and es: "those (map (edge_of g) refs) = Some es"
    and ex: "list_ex (\<lambda>f. e_from f = e_from e \<and> e_to f = e_to e) es"
    and rest: "route_tokens_allowed (sr_env sr) g anchor refs (lo_policy lo)"
      "lo_use_capacity_filter lo \<longrightarrow> route_has_min_start_capacity g anchor refs (lo_min_trades lo)"
      "cp_screening_score_q32 c = score" "cp_snapshot_id c = gs_snapshot_id g"
      "cp_start_token c = t_address (gs_tokens g ! anchor)" "cp_path c = map (hop_of g) es"
    unfolding materialize_candidate_def bind_eq_Some_conv Let_def by (auto split: if_splits)
  note es = those_edges [OF es]
  from ex es obtain q where "q \<in> set refs" "edge_of g q = Some (the (edge_of g q))"
    "e_from (the (edge_of g q)) = e_from e \<and> e_to (the (edge_of g q)) = e_to e"
    by (auto simp: list_ex_iff edges_at_def)
  with e es rest show ?thesis by blast
qed

section \<open>Every candidate is detected\<close>

lemma pair_edges_facts:
  assumes "graph_ok g" and "r \<in> set (candidate_pair_edges pf now mins g (from, to))"
  shows "\<exists>e. edge_of g r = Some e \<and> er_from r = from \<and> e_to e = to \<and> usable_ref pf now mins g r"
proof -
  obtain rs where rs: "gs_pair_to_edges g (from, to) = Some rs" "r \<in> set rs" "usable_ref pf now mins g r"
    using assms(2) by (cases "gs_pair_to_edges g (from, to)") (auto simp: candidate_pair_edges_def dest!: in_set_takeD)
  then have "r \<in> set (unwrap_or (gs_pair_to_edges g (from, to)) [])" by simp
  then obtain e where "edge_of g r = Some e" "e_from e = from" "e_to e = to"
    using assms(1) unfolding graph_ok_def by blast
  moreover have "e_from e = er_from r" using assms(1) \<open>edge_of g r = Some e\<close> unfolding graph_ok_def by blast
  ultimately show ?thesis using rs(3) by auto
qed

lemma consider_route_good:
  fixes sr pf g ch
  defines "lo \<equiv> refresh_locals_of sr pf g ch"
  assumes g: "graph_ok g" and s: "collecting sr pf g ch s" and ch: "changed_ref \<in> set ch"
    and a: "anchor \<in> set (gs_cycle_anchor_indices g)"
    and path_ref: "path_ref \<in> set (candidate_pair_edges pf (sr_now sr) (lo_min_trades lo) g (from, to))"
    and p: "p \<in> set (top_paths (sr_node_order sr) pf (sr_now sr) (lo_min_trades lo) g (anchor, from, h))"
    and q: "q \<in> set (top_paths (sr_node_order sr) pf (sr_now sr) (lo_min_trades lo) g (to, anchor, h))"
  shows "case consider_route sr pf g lo anchor to changed_ref (path_ref, p, q) s of
      Inl r \<Rightarrow> good_result sr pf g ch r | Inr s' \<Rightarrow> collecting sr pf g ch s'"
proof -
  let ?refs = "pth_edge_refs p @ [path_ref] @ pth_edge_refs q"
  let ?key = "route_cycle_key (sr_show_addr sr) g ?refs"
  obtain e where e: "edge_of g path_ref = Some e" "er_from path_ref = from" "e_to e = to"
    and u: "usable_ref pf (sr_now sr) (lo_min_trades lo) g path_ref"
    using pair_edges_facts [OF g path_ref] by blast
  let ?score = "sat_add_i64 (sat_add_i64 (pth_score_q32 p) (e_weight_log_q32 e)) (pth_score_q32 q)"
  define s1 where "s1 = s\<lparr>dt_dedup := insert ?key (dt_dedup s)\<rparr>"
  have s1: "collecting sr pf g ch s1" using s by (simp add: collecting_def s1_def)
  have eval: "consider_route sr pf g lo anchor to changed_ref (path_ref, p, q) s =
      (if pf_max_hops pf < length ?refs \<or> length ?refs < 2 then Inr s
       else if \<not> forms_simple_cycle p to q then Inr s
       else if pf_screening_cutoff_q32 pf \<le> ?score then Inr s
       else if ?key \<in> dt_dedup s then Inr s
       else (case materialize_candidate sr g lo anchor ?key ?score ?refs changed_ref of
          None \<Rightarrow> Inr s1 | Some c \<Rightarrow> keep_candidate sr pf lo c s1))"
    unfolding consider_route_def s1_def Let_def prod.case e(1) option.case by simp
  show ?thesis
  proof (cases "pf_max_hops pf < length ?refs \<or> length ?refs < 2 \<or> \<not> forms_simple_cycle p to q \<or>
      pf_screening_cutoff_q32 pf \<le> ?score \<or> ?key \<in> dt_dedup s")
    case True
    then have "consider_route sr pf g lo anchor to changed_ref (path_ref, p, q) s = Inr s" unfolding eval by auto
    with s show ?thesis by simp
  next
    case go: False
    have n: "\<not> (pf_max_hops pf < length ?refs \<or> length ?refs < 2)" "forms_simple_cycle p to q"
      "\<not> pf_screening_cutoff_q32 pf \<le> ?score" "?key \<notin> dt_dedup s" using go by auto
    have go_eval: "consider_route sr pf g lo anchor to changed_ref (path_ref, p, q) s =
        (case materialize_candidate sr g lo anchor ?key ?score ?refs changed_ref of
          None \<Rightarrow> Inr s1 | Some c \<Rightarrow> keep_candidate sr pf lo c s1)"
      unfolding eval by (simp only: n if_False not_True_eq_False)
    show ?thesis
    proof (cases "materialize_candidate sr g lo anchor ?key ?score ?refs changed_ref")
      case None
      then show ?thesis using s1 go_eval by simp
    next
      case (Some c)
      note m = materialize_facts [OF Some]
      note p' = top_paths_ok [OF p] and q' = top_paths_ok [OF q]
      have walks: "walk g anchor (pth_edge_refs p) = Some (pth_tokens p)" "walk g to (pth_edge_refs q) = Some (pth_tokens q)"
        using p' q' by (simp_all add: path_ok_def)
      note hp = walk_hd [OF walks(1)] and hq = walk_hd [OF walks(2)]
      have w: "walk g anchor ?refs = Some (pth_tokens p @ pth_tokens q)"
        by (rule cycle_walk) (use p' q' e in \<open>auto simp: reaches_def\<close>)
      have cyc: "distinct (butlast (pth_tokens p @ pth_tokens q))" "last (pth_tokens p @ pth_tokens q) = anchor"
        using simple_cycle [of p to q] go hp hq by auto
      have us: "list_all (usable_ref pf (sr_now sr) (lo_min_trades lo) g) ?refs"
        using p' q' u by (simp add: path_ok_def)
      have len: "2 \<le> length ?refs" "length ?refs \<le> pf_max_hops pf"
        using n(1) unfolding de_Morgan_disj not_less by blast+
      have sc: "?score < pf_screening_cutoff_q32 pf" using n(3) by simp
      have "detected sr pf g ch c"
        unfolding detected_def Let_def lo_def [symmetric]
      proof (intro exI [of _ anchor] exI [of _ ?refs] exI [of _ "pth_tokens p @ pth_tokens q"] conjI)
        show "\<exists>r\<in>set ch. \<exists>q\<in>set ?refs. \<exists>e f. edge_of g r = Some e \<and> edge_of g q = Some f \<and>
            e_from f = e_from e \<and> e_to f = e_to e" using m ch by blast
      qed (use m a w cyc us len sc in simp_all)
      from keep_candidate_good [OF s1 this, of lo] Some show ?thesis unfolding go_eval by simp
    qed
  qed
qed

lemma consider_anchor_good:
  fixes sr pf g ch
  defines "lo \<equiv> refresh_locals_of sr pf g ch"
  assumes g: "graph_ok g" and s: "collecting sr pf g ch s" and ch: "changed_ref \<in> set ch"
    and a: "anchor \<in> set (gs_cycle_anchor_indices g)"
  shows "case consider_anchor sr pf g lo from to changed_ref
      (candidate_pair_edges pf (sr_now sr) (lo_min_trades lo) g (from, to)) anchor s of
      Inl r \<Rightarrow> good_result sr pf g ch r | Inr s' \<Rightarrow> collecting sr pf g ch s'"
proof -
  let ?t = "find_top_paths_cached (sr_node_order sr) pf (sr_now sr) (lo_min_trades lo) g"
  let ?top = "top_paths (sr_node_order sr) pf (sr_now sr) (lo_min_trades lo) g"
  let ?h = "pf_max_hops pf - 1"
  let ?pairs = "candidate_pair_edges pf (sr_now sr) (lo_min_trades lo) g (from, to)"
  obtain ps c1 where t1: "?t (anchor, from, ?h) (dt_caches s) = (ps, c1)" by fastforce
  have ok: "caches_ok (sr_node_order sr) pf (sr_now sr) (lo_min_trades lo) g (dt_caches s)"
    using s by (simp add: collecting_def lo_def)
  from top_paths_cached [OF ok, of "(anchor, from, ?h)"] have ps: "ps = ?top (anchor, from, ?h)"
    and ok1: "caches_ok (sr_node_order sr) pf (sr_now sr) (lo_min_trades lo) g c1" unfolding t1 by simp_all
  obtain qs c2 where t2: "?t (to, anchor, ?h) c1 = (qs, c2)" by fastforce
  from top_paths_cached [OF ok1, of "(to, anchor, ?h)"] have qs: "qs = ?top (to, anchor, ?h)"
    and ok2: "caches_ok (sr_node_order sr) pf (sr_now sr) (lo_min_trades lo) g c2" unfolding t2 by simp_all
  define s1 where "s1 = s\<lparr>dt_caches := c1\<rparr>"
  define s2 where "s2 = s\<lparr>dt_caches := c2\<rparr>"
  have s1: "collecting sr pf g ch s1" and s2: "collecting sr pf g ch s2"
    using s ok1 ok2 by (simp_all add: collecting_def s1_def s2_def lo_def)
  have eval: "consider_anchor sr pf g lo from to changed_ref ?pairs anchor s =
      (if \<not> anchor_can_participate g anchor from to then Inr s
       else if ps = [] then Inr s1 else if qs = [] then Inr s2
       else fold_res (consider_route sr pf g lo anchor to changed_ref) (List.product ?pairs (List.product ps qs)) s2)"
    by (simp add: consider_anchor_def Let_def t1 t2 s1_def s2_def del: One_nat_def)
  have "case fold_res (consider_route sr pf g lo anchor to changed_ref) (List.product ?pairs (List.product ps qs)) s2 of
      Inl r \<Rightarrow> good_result sr pf g ch r | Inr s' \<Rightarrow> collecting sr pf g ch s'"
  proof (rule fold_res_inv [where P = "collecting sr pf g ch" and Q = "good_result sr pf g ch", OF s2])
    fix x s s'
    assume x: "x \<in> set (List.product ?pairs (List.product ps qs))" and c: "collecting sr pf g ch s"
    obtain path_ref p q where xx: "x = (path_ref, p, q)" by (cases x) auto
    with x have mem: "path_ref \<in> set ?pairs" "p \<in> set ps" "q \<in> set qs" by auto
    note step = consider_route_good [OF g c ch a mem(1) [unfolded lo_def] mem(2) [unfolded ps lo_def] mem(3) [unfolded qs lo_def],
      folded lo_def]
    show "collecting sr pf g ch s'" if "consider_route sr pf g lo anchor to changed_ref x s = Inr s'"
      using step that by (simp add: xx)
    show "good_result sr pf g ch e" if "consider_route sr pf g lo anchor to changed_ref x s = Inl e" for e
      using step that by (simp add: xx)
  qed
  with s s1 s2 show ?thesis unfolding eval by (auto split: if_splits)
qed

text \<open>Every changed pair comes from a changed edge.\<close>

definition pair_from :: "graph_snapshot \<Rightarrow> edge_ref list \<Rightarrow> (nat \<times> nat) \<times> edge_ref \<Rightarrow> bool" where
  "pair_from g ch entry \<longleftrightarrow> snd entry \<in> set ch \<and>
     (\<exists>e. edge_of g (snd entry) = Some e \<and> fst entry = (e_from e, e_to e))"

lemma note_changed_from:
  assumes "list_all (pair_from g ch) m" and "r \<in> set ch"
  shows "list_all (pair_from g ch) (note_changed g r m)"
proof (cases "edge_of g r")
  case (Some e)
  have "list_all (pair_from g ch) (AList.update (e_from e, e_to e) r m)"
    using assms Some by (induction m) (auto simp: pair_from_def)
  moreover have "pair_from g ch ((e_from e, e_to e), r)" using assms(2) Some by (simp add: pair_from_def)
  ultimately show ?thesis using assms(1) Some by (simp add: note_changed_def Let_def split: option.split)
qed (use assms(1) in \<open>simp add: note_changed_def\<close>)

lemma changed_pairs_from: "x \<in> set (changed_virtual_pairs g ch) \<Longrightarrow> pair_from g ch x"
proof -
  have "list_all (pair_from g ch) (fold (note_changed g) xs m)"
    if "set xs \<subseteq> set ch" "list_all (pair_from g ch) m" for xs m
    using that by (induction xs arbitrary: m) (simp_all add: note_changed_from)
  from this [of ch "[]"] show "x \<in> set (changed_virtual_pairs g ch) \<Longrightarrow> pair_from g ch x"
    by (simp add: changed_virtual_pairs_def list_all_iff)
qed

lemma consider_pair_good:
  fixes sr pf g ch
  defines "lo \<equiv> refresh_locals_of sr pf g ch"
  assumes g: "graph_ok g" and s: "collecting sr pf g ch s" and x: "pair_from g ch x"
    and dc: "length (dcache_reachable_from_anchor dc) = length (gs_tokens g)"
      "length (dcache_reachable_to_anchor dc) = length (gs_tokens g)"
  shows "case consider_pair sr pf g dc lo x s of Inl r \<Rightarrow> good_result sr pf g ch r | Inr s' \<Rightarrow> collecting sr pf g ch s'"
proof -
  obtain a b r where xx: "x = ((a, b), r)" by (cases x) auto
  from x obtain e where r: "r \<in> set ch" and e: "edge_of g r = Some e" "a = e_from e" "b = e_to e"
    by (auto simp: pair_from_def xx)
  have range: "a < length (gs_tokens g)" "b < length (gs_tokens g)"
    using g e by (auto simp: graph_ok_def edge_of_at edge_at_Some)
  let ?pairs = "candidate_pair_edges pf (sr_now sr) (lo_min_trades lo) g (a, b)"
  obtain ps c where t: "candidate_pair_edges_cached pf (sr_now sr) (lo_min_trades lo) g (a, b) (sc_pair_edges (dt_caches s)) = (ps, c)"
    by fastforce
  have coh: "hash.coherent (candidate_pair_edges pf (sr_now sr) (lo_min_trades lo) g) (sc_pair_edges (dt_caches s))"
    using s by (simp add: collecting_def caches_ok_def lo_def)
  from pair_edges_cached [OF coh, of "(a, b)"] have ps: "ps = ?pairs"
    and c: "hash.coherent (candidate_pair_edges pf (sr_now sr) (lo_min_trades lo) g) c" unfolding t by simp_all
  define s1 where "s1 = s\<lparr>dt_caches := (dt_caches s)\<lparr>sc_pair_edges := c\<rparr>\<rparr>"
  have s1: "collecting sr pf g ch s1" using s c by (simp add: collecting_def caches_ok_def s1_def lo_def)
  define res where "res = fold_res (consider_anchor sr pf g lo a b r ?pairs) (gs_cycle_anchor_indices g) s1"
  have f: "case res of Inl r \<Rightarrow> good_result sr pf g ch r | Inr s' \<Rightarrow> collecting sr pf g ch s'"
    unfolding res_def
  proof (rule fold_res_inv [where P = "collecting sr pf g ch" and Q = "good_result sr pf g ch", OF s1])
    fix v s s' assume v: "v \<in> set (gs_cycle_anchor_indices g)" and c: "collecting sr pf g ch s"
    note step = consider_anchor_good [OF g c r v, of a b, folded lo_def]
    show "collecting sr pf g ch s'" if "consider_anchor sr pf g lo a b r ?pairs v s = Inr s'"
      using step that by simp
    show "good_result sr pf g ch e" if "consider_anchor sr pf g lo a b r ?pairs v s = Inl e" for e
      using step that by simp
  qed
  have "consider_pair sr pf g dc lo x s \<in> {Inr s, Inr s1, res}"
    using range dc by (auto simp: consider_pair_def xx Let_def t ps s1_def res_def nth_opt_def split: bool.split)
  then show ?thesis using s s1 f by auto
qed

lemma find_candidates_good:
  assumes g: "graph_ok g"
    and dc: "length (dcache_reachable_from_anchor dc) = length (gs_tokens g)"
      "length (dcache_reachable_to_anchor dc) = length (gs_tokens g)"
  shows "good_result sr pf g ch (find_candidates sr pf g ch dc)"
proof (cases "pf_max_hops pf < 2 \<or> ch = [] \<or> changed_virtual_pairs g ch = []")
  case True
  then have "find_candidates sr pf g ch dc = Some []" by (auto simp: find_candidates_def Let_def)
  then show ?thesis by (simp add: good_result_def)
next
  case False
  let ?lo = "refresh_locals_of sr pf g ch"
  have start: "collecting sr pf g ch detection_start"
    by (simp add: collecting_def detection_start_def no_caches_def caches_ok_def hash.coherent_def)
  have "case fold_res (consider_pair sr pf g dc ?lo) (changed_virtual_pairs g ch) detection_start of
      Inl r \<Rightarrow> good_result sr pf g ch r | Inr s' \<Rightarrow> collecting sr pf g ch s'"
  proof (rule fold_res_inv [where P = "collecting sr pf g ch" and Q = "good_result sr pf g ch", OF start])
    fix x s s' assume x: "x \<in> set (changed_virtual_pairs g ch)" and c: "collecting sr pf g ch s"
    note step = consider_pair_good [OF g c changed_pairs_from [OF x] dc]
    show "collecting sr pf g ch s'" if "consider_pair sr pf g dc ?lo x s = Inr s'" using step that by simp
    show "good_result sr pf g ch e" if "consider_pair sr pf g dc ?lo x s = Inl e" for e using step that by simp
  qed
  then show ?thesis using False finish_good
    by (auto simp: find_candidates_def Let_def split: sum.splits)
qed

lemma recompute_lengths:
  assumes "graph_ok g"
  shows "length (dcache_reachable_from_anchor (recompute g)) = length (gs_tokens g)"
    and "length (dcache_reachable_to_anchor (recompute g)) = length (gs_tokens g)"
proof -
  have len: "length (bfs f (m, q)) = length m" for f m q
  proof (induction f "(m, q)" arbitrary: m q rule: bfs.induct)
    case (2 f m v q)
    have "length (fst (fold visit vs st)) = length (fst st)" for vs and st :: "bool list \<times> nat list"
      by (induction vs arbitrary: st) (simp_all add: visit_props)
    from this [of "f v" "(m, q)"] 2 show ?case by (cases "fold visit (f v) (m, q)") simp
  qed simp
  have "length (fst (fold enqueue vs st)) = length (fst st)" for vs and st :: "bool list \<times> nat list"
    by (induction vs arbitrary: st) (simp_all add: enqueue_def)
  then have "length (fst (seed_anchors (gs_cycle_anchor_indices g) (length (gs_tokens g)))) = length (gs_tokens g)"
    by (simp add: seed_anchors_def)
  then show "length (dcache_reachable_from_anchor (recompute g)) = length (gs_tokens g)"
    "length (dcache_reachable_to_anchor (recompute g)) = length (gs_tokens g)"
    using len by (cases "seed_anchors (gs_cycle_anchor_indices g) (length (gs_tokens g))"; simp add: recompute_def Let_def)+
qed

text \<open>C4: on a snapshot the updater built, with the distance cache of that snapshot, detection never runs out of range; it returns at
  most the configured number of candidates, and each of them is the image of a closed walk of the snapshot that starts and
  ends at a cycle anchor, visits no other token twice, has between two and \<open>max_hops\<close> usable hops, crosses the pair of
  a changed edge, keeps to the tokens the execution policy allows, can carry the smallest trade, and scores below
  the screening cutoff.\<close>

theorem detect_sound:
  assumes "g = graph_build env lm sid b tokens pools"
  shows "\<exists>cs. find_candidates sr pf g changed_edges (recompute g) = Some cs \<and>
    length cs \<le> max 1 (tu_max_candidates_per_refresh (pf_tuning pf)) \<and> (\<forall>c\<in>set cs. detected sr pf g changed_edges c)"
proof -
  have "graph_ok g" unfolding assms by (rule graph_build_ok)
  from find_candidates_good [OF this recompute_lengths [OF this]] show ?thesis by (simp add: good_result_def)
qed

definition net_surroundings :: surroundings where
  "net_surroundings = \<lparr>sr_env = (\<lambda>_. None), sr_libm = \<lparr>m_ln = (\<lambda>x. x), m_powf = (\<lambda>x y. x), m_powi = (\<lambda>x n. x)\<rparr>,
     sr_show_addr = unary, sr_parse_addr = (\<lambda>_. None), sr_node_order = (\<lambda>ts. ts), sr_key_order = (\<lambda>ks. ks), sr_now = 0\<rparr>"

theorem detect_sound_witness:
  "\<forall>env lm. \<exists>cs. find_candidates net_surroundings net_finder (demo_graph env lm) [\<lparr>er_from = 0, er_edge_idx = 0\<rparr>]
       (recompute (demo_graph env lm)) = Some cs \<and>
     length cs \<le> 4 \<and> list_all (detected net_surroundings net_finder (demo_graph env lm) [\<lparr>er_from = 0, er_edge_idx = 0\<rparr>]) cs"
proof (intro allI)
  fix env :: env and lm :: libm
  have "tu_max_candidates_per_refresh (pf_tuning net_finder) = 4" by (simp add: net_finder_def)
  with detect_sound [OF demo_graph_def, where pf = net_finder and sr = net_surroundings
      and changed_edges = "[\<lparr>er_from = 0, er_edge_idx = 0\<rparr>]", of env lm]
  show "\<exists>cs. find_candidates net_surroundings net_finder (demo_graph env lm) [\<lparr>er_from = 0, er_edge_idx = 0\<rparr>]
       (recompute (demo_graph env lm)) = Some cs \<and>
     length cs \<le> 4 \<and> list_all (detected net_surroundings net_finder (demo_graph env lm) [\<lparr>er_from = 0, er_edge_idx = 0\<rparr>]) cs"
    by (simp add: list_all_iff)
qed

end
