(* ===== verification/Capital.thy ===== *)
theory Capital
  imports Risk_Limits Graph_Model Valuation
begin

text \<open>
  Where the money of a plan comes from: \<open>src/execution/flash_loan.rs\<close> (the flash loan premium) and
  \<open>src/execution/capital_selector.rs\<close> (own funds, a loan, or both). The decoded answers of the two
  contracts that are asked, with their errors, are arguments, and so is the clock; both caches are kept as the source
  keeps them. Errors are their texts.
\<close>

section \<open>The flash loan premium\<close>

record flash_loan_engine =
  fl_premium_cache :: "(instant \<times> u128) option"

definition flash_loan_engine_new :: flash_loan_engine where
  "flash_loan_engine_new = \<lparr>fl_premium_cache = None\<rparr>"

text \<open>\<open>fetched_at.elapsed() <= ttl\<close>: an instant of the future has not elapsed at all.\<close>

definition fresh :: "instant \<Rightarrow> duration \<Rightarrow> instant \<Rightarrow> bool" where
  "fresh now ttl fetched_at \<longleftrightarrow> now - fetched_at \<le> ttl"

definition premium_ttl :: "env \<Rightarrow> duration" where
  "premium_ttl env = from_secs (env_u64 env ''FLASH_PREMIUM_CACHE_SECS'' 300)"

text \<open>\<open>ask\<close> is the reply to \<open>FLASHLOAN_PREMIUM_TOTAL\<close>, in basis points. The multiplication wraps.\<close>

definition premium_ppm ::
  "env \<Rightarrow> settings \<Rightarrow> instant \<Rightarrow> (address \<Rightarrow> string + u128) \<Rightarrow> flash_loan_engine \<Rightarrow> (string + u128) \<times> flash_loan_engine" where
  "premium_ppm env s now ask f =
     (let fetch =
        (case ct_aave_pool (st_contracts s) of
           None \<Rightarrow> (Inr 0, f)
         | Some aave_pool \<Rightarrow>
             (case ask aave_pool of
                Inl e \<Rightarrow> (Inl e, f)
              | Inr ret \<Rightarrow> let ppm = ret * 100 in (Inr ppm, f\<lparr>fl_premium_cache := Some (now, ppm)\<rparr>)))
      in case fl_premium_cache f of
           Some (fetched_at, ppm) \<Rightarrow> if fresh now (premium_ttl env) fetched_at then (Inr ppm, f) else fetch
         | None \<Rightarrow> fetch)"

definition fee_of :: "u128 \<Rightarrow> u128 \<Rightarrow> u128" where
  "fee_of amount ppm = sat_mul amount ppm div 1000000"

definition fee_for_amount ::
  "env \<Rightarrow> settings \<Rightarrow> instant \<Rightarrow> (address \<Rightarrow> string + u128) \<Rightarrow> u128 \<Rightarrow> flash_loan_engine \<Rightarrow> (string + u128) \<times> flash_loan_engine" where
  "fee_for_amount env s now ask amount f =
     (let (r, f) = premium_ppm env s now ask f in (res_bind r (\<lambda>ppm. Inr (fee_of amount ppm)), f))"

section \<open>The capital selector\<close>

record capital_selector =
  cs_balance_cache :: "address \<rightharpoonup> instant \<times> u128"

definition capital_selector_new :: capital_selector where
  "capital_selector_new = \<lparr>cs_balance_cache = Map.empty\<rparr>"

definition balance_ttl :: "env \<Rightarrow> duration" where
  "balance_ttl env = from_millis (env_u64 env ''EXECUTOR_BALANCE_CACHE_MS'' 1500)"

text \<open>A balance over 128 bits counts as the largest one.\<close>

definition balance_to_u128 :: "u256 \<Rightarrow> u128" where
  "balance_to_u128 v = (case u128_of_u256 v of Some a \<Rightarrow> a | None \<Rightarrow> - 1)"

definition executor_balance ::
  "env \<Rightarrow> settings \<Rightarrow> instant \<Rightarrow> (address \<Rightarrow> address \<Rightarrow> string + u256) \<Rightarrow> address \<Rightarrow> capital_selector \<Rightarrow>
   (string + u128) \<times> capital_selector" where
  "executor_balance env s now balance_of token c =
     (let fetch =
        (case ct_executor_address (st_contracts s) of
           None \<Rightarrow> (Inr 0, c)
         | Some executor \<Rightarrow>
             (case balance_of token executor of
                Inl e \<Rightarrow> (Inl e, c)
              | Inr ret \<Rightarrow>
                  let v = balance_to_u128 ret
                  in (Inr v, c\<lparr>cs_balance_cache := (cs_balance_cache c)(token \<mapsto> (now, v))\<rparr>)))
      in case cs_balance_cache c token of
           Some (fetched_at, v) \<Rightarrow> if fresh now (balance_ttl env) fetched_at then (Inr v, c) else fetch
         | None \<Rightarrow> fetch)"

definition choice_from_balance_and_fees ::
  "exact_plan \<Rightarrow> token_info \<Rightarrow> bool \<Rightarrow> u128 \<Rightarrow> u128 \<Rightarrow> u128 \<Rightarrow> capital_choice option" where
  "choice_from_balance_and_fees plan token aave_pool_configured global_flash_cap_usd_e8 loan_amount actual_flash_fee_raw =
     (if xp_input_amount plan < loan_amount then None
      else
        let net_profit = calculate_net_profit_before_gas_raw (xp_input_amount plan) (xp_output_amount plan) actual_flash_fee_raw
        in if net_profit \<le> 0 then None
           else
             Option.bind
               (if loan_amount = 0 then
                  (if \<not> t_allow_self_funded token then None else Some SelfFunded)
                else if \<not> t_flash_loan_enabled token \<or> \<not> aave_pool_configured then None
                else
                  let flash_cap_usd_e8 = unwrap_or (t_max_flash_loan_usd_e8 token) global_flash_cap_usd_e8
                  in Option.bind (amount_to_usd_e8 loan_amount token) (\<lambda>loan_value_usd_e8.
                       if flash_cap_usd_e8 < loan_value_usd_e8 then None
                       else Some (if loan_amount = xp_input_amount plan then FlashLoan else MixedFlashLoan)))
               (\<lambda>source. Some
                 \<lparr>cc_source = source, cc_loan_amount_raw = loan_amount, cc_flash_fee_raw = actual_flash_fee_raw,
                  cc_actual_flash_fee_raw = actual_flash_fee_raw, cc_net_profit_before_gas_raw = net_profit\<rparr>))"

definition choose_capital ::
  "env \<Rightarrow> settings \<Rightarrow> instant \<Rightarrow> (address \<Rightarrow> address \<Rightarrow> string + u256) \<Rightarrow> exact_plan \<Rightarrow> token_info \<Rightarrow> capital_selector \<Rightarrow>
   capital_choice option \<times> capital_selector" where
  "choose_capital env s now balance_of plan token c =
     (if xp_gross_profit_raw plan \<le> 0 then (None, c)
      else
        let (held, c) =
              (if t_allow_self_funded token
               then (let (r, c) = executor_balance env s now balance_of (xp_input_token plan) c
                     in ((case r of Inl e \<Rightarrow> 0 | Inr v \<Rightarrow> v), c))
               else (0, c));
            own_amount = min held (xp_input_amount plan);
            loan_amount = sat_sub (xp_input_amount plan) own_amount;
            actual_flash_fee_raw = sat_mul loan_amount (xp_flash_premium_ppm plan) div 1000000
        in (choice_from_balance_and_fees plan token (ct_aave_pool (st_contracts s) \<noteq> None)
              (rk_max_flash_loan_usd_e8 (st_risk s)) loan_amount actual_flash_fee_raw, c))"

text \<open>\<open>signer_of\<close> reads a private key and gives the address it signs for.\<close>

definition operator_address :: "(string \<Rightarrow> string + address) \<Rightarrow> settings \<Rightarrow> string + address" where
  "operator_address signer_of s =
     (case st_operator_private_key s of None \<Rightarrow> Inl ''OPERATOR_PRIVATE_KEY missing'' | Some key \<Rightarrow> signer_of key)"

section \<open>What a choice promises\<close>

text \<open>The tag of a choice is determined by its amounts.\<close>

fun source_fits :: "capital_source \<Rightarrow> u128 \<Rightarrow> u128 \<Rightarrow> bool" where
  "source_fits SelfFunded loan input_amount \<longleftrightarrow> loan = 0"
| "source_fits FlashLoan loan input_amount \<longleftrightarrow> 0 < loan \<and> loan = input_amount"
| "source_fits MixedFlashLoan loan input_amount \<longleftrightarrow> 0 < loan \<and> loan < input_amount"

definition choice_typed :: "u128 \<Rightarrow> capital_choice \<Rightarrow> bool" where
  "choice_typed input_amount c \<longleftrightarrow> source_fits (cc_source c) (cc_loan_amount_raw c) input_amount"

lemma choice_facts:
  assumes "choice_from_balance_and_fees plan token aave cap loan fee = Some c"
  shows "choice_typed (xp_input_amount plan) c \<and> loan \<le> xp_input_amount plan \<and>
    cc_loan_amount_raw c = loan \<and> cc_flash_fee_raw c = fee \<and> cc_actual_flash_fee_raw c = fee \<and>
    0 < cc_net_profit_before_gas_raw c \<and>
    cc_net_profit_before_gas_raw c = calculate_net_profit_before_gas_raw (xp_input_amount plan) (xp_output_amount plan) fee \<and>
    (loan = 0 \<longrightarrow> t_allow_self_funded token) \<and>
    (loan \<noteq> 0 \<longrightarrow> aave \<and> t_flash_loan_enabled token \<and>
      (\<exists>v. amount_to_usd_e8 loan token = Some v \<and> v \<le> unwrap_or (t_max_flash_loan_usd_e8 token) cap))"
proof -
  have le: "loan \<le> xp_input_amount plan" using assms by (auto simp: choice_from_balance_and_fees_def split: if_splits)
  show ?thesis
  proof (cases "loan = 0")
    case True
    with assms show ?thesis
      by (auto simp: choice_from_balance_and_fees_def Let_def choice_typed_def not_le split: if_splits)
  next
    case False
    then obtain v where "amount_to_usd_e8 loan token = Some v" "v \<le> unwrap_or (t_max_flash_loan_usd_e8 token) cap"
      using assms by (auto simp: choice_from_balance_and_fees_def Let_def bind_eq_Some_conv not_less split: if_splits)
    with assms False le show ?thesis
      by (auto simp: choice_from_balance_and_fees_def Let_def bind_eq_Some_conv choice_typed_def not_le not_less
        word_neq_0_conv split: if_splits)
  qed
qed

lemma choose_capital_choice:
  assumes "choose_capital env s now balance_of plan token c = (Some choice, c')"
  shows "\<exists>aave cap loan fee. choice_from_balance_and_fees plan token aave cap loan fee = Some choice"
  using assms by (auto simp: choose_capital_def Let_def case_prod_beta split: if_splits)

lemma sat_sub_min: "unat (sat_sub i (min b i)) = unat i - unat (b :: u128)"
  by (cases "b \<le> i") (auto simp: sat_sub_def word_nat min_def word_le_nat_alt unat_sub)

text \<open>What the executor holds of a token, as it is known at a time: the cached amount while it is fresh, else what the token
  contract answers for the executor, nothing when there is no executor or no answer.\<close>

definition known_holding :: "env \<Rightarrow> settings \<Rightarrow> instant \<Rightarrow> (address \<Rightarrow> address \<Rightarrow> string + u256) \<Rightarrow> address \<Rightarrow> capital_selector \<Rightarrow> nat" where
  "known_holding env s now balance_of token c =
     (let asked = (case ct_executor_address (st_contracts s) of
          None \<Rightarrow> 0
        | Some executor \<Rightarrow> (case balance_of token executor of Inl _ \<Rightarrow> 0 | Inr v \<Rightarrow> min (unat v) (2 ^ 128 - 1)))
      in case cs_balance_cache c token of
           None \<Rightarrow> asked
         | Some (fetched_at, v) \<Rightarrow> if now \<le> fetched_at + balance_ttl env then unat v else asked)"

lemma unat_balance_to_u128: "unat (balance_to_u128 v) = min (unat v) (2 ^ 128 - 1)"
proof (cases "unat v < 2 ^ 128")
  case True
  then have "unat (word_of_nat (unat v) :: u128) = unat v" by (intro unat_word_of_nat_less) simp
  moreover have "min (unat v) (2 ^ 128 - 1) = unat v" using True by simp
  ultimately show ?thesis unfolding balance_to_u128_def u128_of_u256_def if_P [OF True] option.case by (rule trans [OF _ sym])
next
  case False
  then show ?thesis by (simp add: balance_to_u128_def u128_of_u256_def unat_max_word)
qed

lemma executor_balance_known:
  "unat (case fst (executor_balance env s now balance_of token c) of Inl e \<Rightarrow> 0 | Inr v \<Rightarrow> v) = known_holding env s now balance_of token c"
  by (auto simp: executor_balance_def known_holding_def fresh_def unat_balance_to_u128 Let_def le_diff_conv add.commute
      split: option.splits sum.splits)

text \<open>C39: the source of a chosen capital agrees with its amounts: own funds only without a loan, a plain flash loan only
  for the whole input, a mixed one strictly in between. The loan is what the executor's known balance of the input token does
  not cover, and the whole input when the token may not be funded by the executor; the fee is the plan's premium on it, and a
  loan is only taken when the pool is configured and the token is enabled for it.\<close>

theorem chosen_capital_typed:
  assumes "choose_capital env s now balance_of plan token c = (Some choice, c')"
  shows "choice_typed (xp_input_amount plan) choice \<and>
    unat (cc_loan_amount_raw choice) = unat (xp_input_amount plan) -
      (if t_allow_self_funded token then known_holding env s now balance_of (xp_input_token plan) c else 0) \<and>
    cc_actual_flash_fee_raw choice = fee_of (cc_loan_amount_raw choice) (xp_flash_premium_ppm plan) \<and>
    (ct_aave_pool (st_contracts s) \<noteq> None \<and> t_flash_loan_enabled token \<or> cc_source choice = SelfFunded) \<and>
    0 < cc_net_profit_before_gas_raw choice"
proof -
  define b where "b = (if t_allow_self_funded token
      then (case fst (executor_balance env s now balance_of (xp_input_token plan) c) of Inl e \<Rightarrow> 0 | Inr v \<Rightarrow> v) else 0)"
  define loan where "loan = sat_sub (xp_input_amount plan) (min b (xp_input_amount plan))"
  have "choice_from_balance_and_fees plan token (ct_aave_pool (st_contracts s) \<noteq> None) (rk_max_flash_loan_usd_e8 (st_risk s))
      loan (fee_of loan (xp_flash_premium_ppm plan)) = Some choice"
    using assms by (auto simp: choose_capital_def Let_def b_def loan_def fee_of_def case_prod_beta split: if_splits)
  note f = choice_facts [OF this]
  have "unat loan = unat (xp_input_amount plan) - unat b" unfolding loan_def by (rule sat_sub_min)
  moreover have "unat b = (if t_allow_self_funded token then known_holding env s now balance_of (xp_input_token plan) c else 0)"
    by (simp add: b_def executor_balance_known)
  moreover have "ct_aave_pool (st_contracts s) \<noteq> None \<and> t_flash_loan_enabled token \<or> cc_source choice = SelfFunded"
    using f by (cases "cc_source choice") (auto simp: choice_typed_def)
  ultimately show ?thesis using f by auto
qed

text \<open>An executor that holds the whole input.\<close>

definition funded :: capital_selector where
  "funded = \<lparr>cs_balance_cache = [1 \<mapsto> (0, 500)]\<rparr>"

text \<open>A token of which the executor holds 40 of the 100 that go in, by a cached answer, and the pool lends the rest.\<close>

definition lendable_token :: token_info where
  "lendable_token = (demo_token 1)\<lparr>t_flash_loan_enabled := True, t_decimals := 0, t_manual_price_usd_e8 := Some 1,
     t_max_flash_loan_usd_e8 := Some 1000\<rparr>"

definition partly_funded :: capital_selector where
  "partly_funded = \<lparr>cs_balance_cache = [1 \<mapsto> (0, 40)]\<rparr>"

definition lending :: "settings \<Rightarrow> settings" where
  "lending s = s\<lparr>st_contracts := (st_contracts s)\<lparr>ct_aave_pool := Some 9\<rparr>\<rparr>"

lemma mixed_choice:
  "choose_capital env (lending s) 0 balance_of demo_plan lendable_token partly_funded =
     (Some \<lparr>cc_source = MixedFlashLoan, cc_loan_amount_raw = 60, cc_flash_fee_raw = 0, cc_actual_flash_fee_raw = 0,
        cc_net_profit_before_gas_raw = 100\<rparr>, partly_funded)"
proof -
  have "amount_to_usd_e8 60 lendable_token = Some 60" by (simp add: amount_to_usd_e8_def lendable_token_def u256_of_def pow10_u256_def checked_mul_def checked_div_def u128_of_u256_def)
  then show ?thesis
    by (simp add: choose_capital_def executor_balance_def partly_funded_def fresh_def demo_plan_def demo_token_def sat_sub_def
      sat_mul_def choice_from_balance_and_fees_def calculate_net_profit_before_gas_raw_def wrap_i128_def as_i128_def lendable_token_def
      lending_def)
qed

theorem chosen_capital_typed_witness:
  "\<forall>env s balance_of. unat (cc_loan_amount_raw (the (fst (choose_capital env (lending s) 0 balance_of demo_plan lendable_token partly_funded))))
     = 100 - 40"
proof (intro allI)
  fix env :: env and s :: settings and balance_of :: "address \<Rightarrow> address \<Rightarrow> string + u256"
  have "known_holding env (lending s) 0 balance_of (xp_input_token demo_plan) partly_funded = 40"
    by (simp add: known_holding_def partly_funded_def demo_plan_def)
  with chosen_capital_typed [OF mixed_choice, of env s balance_of]
  show "unat (cc_loan_amount_raw (the (fst (choose_capital env (lending s) 0 balance_of demo_plan lendable_token partly_funded))))
     = 100 - 40"
    unfolding mixed_choice by (simp add: lendable_token_def demo_token_def demo_plan_def)
qed

section \<open>The premium cache\<close>

text \<open>Within the cache time of a fetched premium the node is not asked again and the same fee is charged, rounded down.\<close>

lemma premium_cached:
  assumes "fl_premium_cache f = Some (t, ppm)" and "now - t \<le> premium_ttl env"
  shows "fee_for_amount env s now ask amount f = (Inr (fee_of amount ppm), f)"
  using assms by (simp add: fee_for_amount_def premium_ppm_def fresh_def Let_def)

end
