(* ===== verification/Bytes.thy ===== *)
theory Bytes
  imports Arb_Prelude
begin

text \<open>
  Numbers as big-endian bytes (\<open>to_be_bytes\<close>, \<open>from_be_bytes\<close>): shared by the calls sent to the executor
  (\<open>src/execution/tx_builder.rs\<close>) and the files of the caches (\<open>src/cache/mod.rs\<close>).
\<close>

definition be_bytes :: "nat \<Rightarrow> nat \<Rightarrow> u8 list" where
  "be_bytes n v = map (\<lambda>i. word_of_nat (v div 256 ^ (n - 1 - i))) [0..<n]"

definition be_value :: "u8 list \<Rightarrow> nat" where
  "be_value bs = foldl (\<lambda>acc b. 256 * acc + unat b) 0 bs"

lemma length_be_bytes [simp]: "length (be_bytes n v) = n"
  by (simp add: be_bytes_def)

lemma be_value_Nil [simp]: "be_value [] = 0"
  by (simp add: be_value_def)

lemma be_value_snoc: "be_value (bs @ [b]) = 256 * be_value bs + unat b"
  by (simp add: be_value_def)

lemma be_value_append: "be_value (xs @ ys) = 256 ^ length ys * be_value xs + be_value ys"
proof (induction ys rule: rev_induct)
  case (snoc y ys)
  have "be_value (xs @ ys @ [y]) = 256 * be_value (xs @ ys) + unat y"
    using be_value_snoc [of "xs @ ys" y] by (simp only: append_assoc)
  also have "\<dots> = 256 * (256 ^ length ys * be_value xs) + (256 * be_value ys + unat y)"
    by (simp only: snoc distrib_left add.assoc)
  also have "\<dots> = 256 ^ length (ys @ [y]) * be_value xs + be_value (ys @ [y])"
    by (simp only: be_value_snoc length_append_singleton power_Suc mult.assoc)
  finally show ?case .
qed (simp only: append_Nil2 be_value_Nil list.size power_0 mult_1 add_0_right)

lemma be_bytes_Suc: "be_bytes (Suc n) v = be_bytes n (v div 256) @ [word_of_nat v]"
proof -
  have "v div 256 ^ (n - i) = v div 256 div 256 ^ (n - 1 - i)" if "i < n" for i
  proof -
    have "n - i = Suc (n - 1 - i)" using that by simp
    then show ?thesis by (simp only: power_Suc div_mult2_eq)
  qed
  then show ?thesis by (simp add: be_bytes_def)
qed

lemma be_value_bytes: "be_value (be_bytes n v) = v mod 256 ^ n"
proof (induction n arbitrary: v)
  case (Suc n)
  have "unat (word_of_nat v :: u8) = v mod 256" by (simp add: unat_of_nat)
  then have "be_value (be_bytes (Suc n) v) = 256 * (v div 256 mod 256 ^ n) + v mod 256"
    using Suc.IH [of "v div 256"] by (simp add: be_bytes_Suc be_value_append be_value_def)
  also have "\<dots> = v mod (256 * 256 ^ n)" by (rule mod_mult2_eq [symmetric])
  finally show ?case by simp
qed (simp add: be_bytes_def)

lemma be_value_zeros [simp]: "be_value (replicate k 0) = 0"
proof (induction k)
  case (Suc k)
  have "be_value (replicate (Suc k) 0) = be_value (replicate k 0 @ [0])" by (simp only: replicate_append_same replicate_Suc)
  with Suc show ?case by (simp only: be_value_snoc)  simp
qed simp

end
