(* ===== verification/Tx_Builder.thy ===== *)
theory Tx_Builder
  imports Config Amm Risk_Limits Bytes
begin

text \<open>
  From a plan to a call of the executor contract: \<open>src/execution/tx_builder.rs\<close>, and the part of
  \<open>contracts/ArbitrageExecutor.sol\<close> that reads it: the decoders of a split's extra data, the V2 quote, the swap of each
  kind of pool with the callback of V3, and the loop by which the contract spreads what it holds over the splits of a
  hop. The ABI encoding of a call is the argument \<open>abi_encode\<close>; the tokens, pools and the vault the contract calls are
  the record \<open>chain_calls\<close>. Arithmetic of the contract is checked: \<open>None\<close> is a revert.
\<close>

section \<open>The call\<close>

record call_split =
  sp_call_adapter :: adapter_type
  sp_call_target :: address
  sp_call_token_in :: address
  sp_call_token_out :: address
  sp_call_amount_in :: u256
  sp_call_min_amount_out :: u256
  sp_call_extra_data :: "u8 list"

record execution_params =
  ep_input_token :: address
  ep_input_amount :: u256
  ep_hops :: "call_split list list"
  ep_min_profit :: u256
  ep_deadline :: u256
  ep_snapshot_id :: u64

datatype executor_call = Execute_Self_Funded execution_params | Execute_Flash_Loan address u256 execution_params

text \<open>The contract numbers its adapters as \<open>abi.rs\<close> does.\<close>

fun map_adapter :: "adapter_type \<Rightarrow> adapter_type" where
  "map_adapter A_UniswapV2Like = A_UniswapV2Like"
| "map_adapter A_UniswapV3Like = A_UniswapV3Like"
| "map_adapter A_TraderJoeLb = A_TraderJoeLb"
| "map_adapter A_CurvePlain = A_CurvePlain"
| "map_adapter A_BalancerWeighted = A_BalancerWeighted"
| "map_adapter A_AerodromeV2Like = A_AerodromeV2Like"

definition byte_of_bool :: "bool \<Rightarrow> u8" where
  "byte_of_bool b = (if b then 1 else 0)"

fun encode_extra :: "split_extra \<Rightarrow> u8 list" where
  "encode_extra X_None = []"
| "encode_extra (X_V2 fee_ppm) = replicate 28 0 @ be_bytes 4 (unat fee_ppm)"
| "encode_extra (X_AerodromeV2 is_stable fee_ppm) =
     replicate 31 0 @ [byte_of_bool is_stable] @ replicate 28 0 @ be_bytes 4 (unat fee_ppm)"
| "encode_extra (X_V3 zero_for_one limit) = be_bytes 32 (unat limit)"
| "encode_extra X_TraderJoeLb = []"
| "encode_extra (X_Curve i j underlying) =
     be_bytes 16 (nat (i mod 2 ^ 128)) @ be_bytes 16 (nat (j mod 2 ^ 128)) @ [byte_of_bool underlying]"
| "encode_extra (X_Balancer pool_id) = be_bytes 32 (unat pool_id)"

definition call_split_of :: "split_plan \<Rightarrow> call_split" where
  "call_split_of s =
     \<lparr>sp_call_adapter = map_adapter (sp_adapter_type s), sp_call_target = sp_pool_id s, sp_call_token_in = sp_token_in s,
      sp_call_token_out = sp_token_out s, sp_call_amount_in = u256_of (sp_amount_in s),
      sp_call_min_amount_out = u256_of (sp_min_amount_out s), sp_call_extra_data = encode_extra (sp_extra s)\<rparr>"

definition executor_call_of :: "exact_plan \<Rightarrow> u64 \<Rightarrow> executor_call" where
  "executor_call_of plan deadline_unix =
     (let execution =
        \<lparr>ep_input_token = xp_input_token plan, ep_input_amount = u256_of (xp_input_amount plan),
         ep_hops = map (\<lambda>h. map call_split_of (hp_splits h)) (xp_hops plan),
         ep_min_profit = u256_of (xp_contract_min_profit_raw plan), ep_deadline = ucast deadline_unix,
         ep_snapshot_id = xp_snapshot_id plan\<rparr>
      in case xp_capital_source plan of
           SelfFunded \<Rightarrow> Execute_Self_Funded execution
         | _ \<Rightarrow> Execute_Flash_Loan (xp_input_token plan) (u256_of (xp_flash_loan_amount plan)) execution)"

definition build_calldata :: "(executor_call \<Rightarrow> u8 list) \<Rightarrow> exact_plan \<Rightarrow> u64 \<Rightarrow> u8 list" where
  "build_calldata abi_encode plan deadline_unix = abi_encode (executor_call_of plan deadline_unix)"

definition tx_executor_address :: "settings \<Rightarrow> string + address" where
  "tx_executor_address s =
     (case ct_executor_address (st_contracts s) of None \<Rightarrow> Inl ''executor address missing'' | Some a \<Rightarrow> Inr a)"

section \<open>The executor's decoders\<close>

definition decode_v3_price_limit :: "u8 list \<Rightarrow> bool \<Rightarrow> nat" where
  "decode_v3_price_limit extra zero_for_one =
     (let raw = be_value (take 32 extra) in
      if 32 \<le> length extra \<and> 0 < raw \<and> raw < 2 ^ 160 then raw
      else if zero_for_one then 4295128740 else 1461446703485210103287273052203988822378723970341)"

definition decode_v2_fee_ppm :: "u8 list \<Rightarrow> nat option" where
  "decode_v2_fee_ppm extra =
     (if 32 \<le> length extra
      then (let fee_ppm = be_value (take 32 extra) in if fee_ppm < 1000000 then Some fee_ppm else None)
      else Some 3000)"

definition read_int128 :: "u8 list \<Rightarrow> nat \<Rightarrow> int" where
  "read_int128 extra offset = as_i128 (word_of_nat (be_value (take 16 (drop offset extra))))"

definition decode_curve_extra :: "u8 list \<Rightarrow> (int \<times> int \<times> bool) option" where
  "decode_curve_extra extra =
     (if length extra < 33 then None else Some (read_int128 extra 0, read_int128 extra 16, extra ! 32 \<noteq> 0))"

definition decode_balancer_pool_id :: "u8 list \<Rightarrow> b256 option" where
  "decode_balancer_pool_id extra = (if 32 \<le> length extra then Some (word_of_nat (be_value (take 32 extra))) else None)"

lemma word_range: "unat (w :: u32) < 256 ^ 4" "unat (v :: u256) < 256 ^ 32"
  using unat_lt_size [of w] unat_lt_size [of v] by simp_all

lemma read_int128_bytes:
  assumes "is_i128 i"
  shows "as_i128 (word_of_nat (be_value (be_bytes 16 (nat (i mod 2 ^ 128))))) = i"
proof -
  let ?m = "i mod 2 ^ 128"
  have m: "0 \<le> ?m" "?m < 2 ^ 128" by simp_all
  then have n: "nat ?m < 256 ^ 16" by (simp add: nat_less_iff)
  have "unat (word_of_nat (nat ?m) :: u128) = nat ?m"
    using n by (intro unat_word_of_nat_less) simp
  then have u: "uint (word_of_nat (nat ?m) :: u128) = ?m" using m(1) by (metis int_nat_eq uint_nat)
  have "as_i128 (word_of_nat (nat ?m)) = i"
  proof (cases "0 \<le> i")
    case True
    with assms have "?m = i" by (simp add: is_i128_def)
    with True assms show ?thesis unfolding as_i128_def u by (simp add: is_i128_def)
  next
    case False
    have "(i + 2 ^ 128) mod 2 ^ 128 = i + 2 ^ 128" using False assms by (intro mod_pos_pos_trivial) (simp_all add: is_i128_def)
    then have "?m = i + 2 ^ 128" by simp
    with False assms show ?thesis unfolding as_i128_def u by (simp add: is_i128_def)
  qed
  then show ?thesis using n by (simp add: be_value_bytes)
qed


lemma decoded_v2_fee: "decode_v2_fee_ppm (encode_extra (X_V2 fee)) = (if fee < 1000000 then Some (unat fee) else None)"
  using word_range(1) [of fee] by (simp add: decode_v2_fee_ppm_def be_value_append be_value_bytes word_less_nat_alt Let_def)

lemma decoded_v3_limit:
  "decode_v3_price_limit (encode_extra (X_V3 z limit)) zero_for_one =
     (if 0 < limit \<and> unat limit < 2 ^ 160 then unat limit else decode_v3_price_limit [] zero_for_one)"
  using word_range(2) [of limit]
  by (simp add: decode_v3_price_limit_def be_value_bytes word_less_nat_alt Let_def)

lemma decoded_curve:
  assumes "is_i128 i" and "is_i128 j"
  shows "decode_curve_extra (encode_extra (X_Curve i j underlying)) = Some (i, j, underlying)"
proof -
  let ?e = "encode_extra (X_Curve i j underlying)"
  have t: "take 16 (drop 0 ?e) = be_bytes 16 (nat (i mod 2 ^ 128))"
    and d: "take 16 (drop 16 ?e) = be_bytes 16 (nat (j mod 2 ^ 128))"
    and l: "length ?e = 33" by simp_all
  have n: "?e ! 32 = byte_of_bool underlying" by (simp add: nth_append)
  have b: "byte_of_bool underlying \<noteq> 0 \<longleftrightarrow> underlying" by (simp add: byte_of_bool_def)
  show ?thesis
    unfolding decode_curve_extra_def read_int128_def t d l n b read_int128_bytes [OF assms(1)] read_int128_bytes [OF assms(2)]
    by simp
qed

lemma decoded_balancer_pool: "decode_balancer_pool_id (encode_extra (X_Balancer pool_id)) = Some pool_id"
  using word_range(2) [of pool_id] by (simp add: decode_balancer_pool_id_def be_value_bytes)

text \<open>C15: what the bot writes into a split's extra data is what the executor contract reads out of it: the V2 fee (a fee of
  a whole or more reverts), the V3 price limit (out of 160 bits or 0 gives the contract's open limit), the Curve
  indices with their signs, the Balancer pool.\<close>

theorem executor_reads_back:
  assumes "is_i128 i" and "is_i128 j"
  shows "decode_v2_fee_ppm (encode_extra (X_V2 fee)) = (if fee < 1000000 then Some (unat fee) else None) \<and>
    decode_v3_price_limit (encode_extra (X_V3 z limit)) zero_for_one =
      (if 0 < limit \<and> unat limit < 2 ^ 160 then unat limit else decode_v3_price_limit [] zero_for_one) \<and>
    decode_curve_extra (encode_extra (X_Curve i j underlying)) = Some (i, j, underlying) \<and>
    decode_balancer_pool_id (encode_extra (X_Balancer pool_id)) = Some pool_id"
  by (intro conjI decoded_v2_fee decoded_v3_limit decoded_curve decoded_balancer_pool assms)

theorem executor_reads_back_witness:
  "decode_v2_fee_ppm (encode_extra (X_V2 3000)) = Some 3000 \<and>
   decode_v3_price_limit (encode_extra (X_V3 True 4295128740)) True = 4295128740 \<and>
   decode_curve_extra (encode_extra (X_Curve (- 1) 2 True)) = Some (- 1, 2, True) \<and>
   decode_balancer_pool_id (encode_extra (X_Balancer 77)) = Some 77"
  using executor_reads_back [of "- 1" 2 3000 True 4295128740 True True 77] by (simp add: is_i128_def)

section \<open>The executor's quote of a V2 pool\<close>

definition uint256 :: "nat \<Rightarrow> nat option" where
  "uint256 n = (if n < 2 ^ 256 then Some n else None)"

definition get_amount_out :: "nat \<Rightarrow> nat \<Rightarrow> nat \<Rightarrow> nat \<Rightarrow> nat option" where
  "get_amount_out amount_in reserve_in reserve_out fee_ppm =
     (if amount_in = 0 \<or> reserve_in = 0 \<or> reserve_out = 0 \<or> 1000000 < fee_ppm then None
      else
        Option.bind (uint256 (amount_in * (1000000 - fee_ppm))) (\<lambda>amount_in_with_fee.
        Option.bind (uint256 (amount_in_with_fee * reserve_out)) (\<lambda>numerator.
        Option.bind (uint256 (reserve_in * 1000000)) (\<lambda>scaled.
        Option.bind (uint256 (scaled + amount_in_with_fee)) (\<lambda>denominator.
        Some (numerator div denominator))))))"

text \<open>the contract's own quote of a V2 pool is the bot's quote for the fee the bot sends along, as long as no
  product of the bot's quote saturates.\<close>

theorem executor_quotes_as_the_bot:
  assumes "v2_reserves s dir = (ri, ro)" and "a \<noteq> 0" and "ri \<noteq> 0" and "ro \<noteq> 0" and "v2_fee_ppm s < 1000000"
    and "v2_fee_parts s a * unat ro < 2 ^ 128" and "1000000 * unat ri + v2_fee_parts s a < 2 ^ 128"
  shows "Option.bind (decode_v2_fee_ppm (encode_extra (X_V2 (v2_fee_ppm s)))) (get_amount_out (unat a) (unat ri) (unat ro)) =
    map_option unat (v2_quote_exact_in s dir a)"
proof -
  let ?d = "sat_mul ri 1000000" and ?a = "sat_mul a (sat_sub 1000000 (ucast (v2_fee_ppm s))) :: u128"
  let ?parts = "unat a * (1000000 - unat (v2_fee_ppm s))"
  have p: "v2_fee_parts s a = ?parts" by (simp add: v2_fee_parts_def)
  have d: "unat ?d = 1000000 * unat ri" using assms(7) by (simp add: unat_sat_mul)
  have e: "unat ?a = v2_fee_parts s a" using v2_fee_parts_le [OF assms(4,6)] by (rule v2_effective_input)
  have out: "unat (cp_out ?d ro ?a) = v2_fee_parts s a * unat ro div (1000000 * unat ri + v2_fee_parts s a)"
    using assms(6,7) cp_out_exact [of ?a ro ?d] unfolding d e by simp
  have "uint256 ?parts = Some ?parts" "uint256 (?parts * unat ro) = Some (?parts * unat ro)"
    "uint256 (unat ri * 1000000) = Some (unat ri * 1000000)"
    "uint256 (unat ri * 1000000 + ?parts) = Some (unat ri * 1000000 + ?parts)"
    using assms(6,7) v2_fee_parts_le [OF assms(4,6)] unfolding p uint256_def by simp_all
  moreover have "unat a \<noteq> 0" "unat ri \<noteq> 0" "unat ro \<noteq> 0" "\<not> 1000000 < unat (v2_fee_ppm s)"
    using assms(2-5) by (simp_all add: unat_gt_0 unat_eq_0 word_less_nat_alt)
  ultimately have "get_amount_out (unat a) (unat ri) (unat ro) (unat (v2_fee_ppm s)) =
      Some (?parts * unat ro div (unat ri * 1000000 + ?parts))"
    by (simp add: get_amount_out_def)
  then show ?thesis using assms(1-5) out
    by (simp only: decoded_v2_fee v2_quote_cp fst_conv snd_conv p if_True if_False simp_thms option.simps bind.simps mult.commute)
qed


theorem executor_quotes_as_the_bot_witness:
  "Option.bind (decode_v2_fee_ppm (encode_extra (X_V2 3000))) (get_amount_out 1000 1000000 2000000) =
     map_option unat (v2_quote_exact_in (demo_v2 1000000 2000000) True 1000)"
  using executor_quotes_as_the_bot [of "demo_v2 1000000 2000000" True 1000000 2000000 1000]
  by (simp add: demo_v2_def v2_reserves_def v2_fee_parts_def)

section \<open>The executor's adapters\<close>

text \<open>The contracts the executor calls: tokens, pools and the Balancer vault, on a state of the chain. \<open>None\<close> is a call that
  reverts. A token answers a transfer or an approval with bytes; a V3 pool takes the executor's callback along, which it may
  call with its own address and two deltas. The views do not change the state.\<close>

datatype token_call = Transfer address u256 | Approve address u256

record 'w chain_calls =
  cc_balance :: "'w \<Rightarrow> address \<Rightarrow> nat option"
  cc_token :: "'w \<Rightarrow> address \<Rightarrow> token_call \<Rightarrow> (u8 list \<times> 'w) option"
  cc_token0 :: "'w \<Rightarrow> address \<Rightarrow> address option"
  cc_token1 :: "'w \<Rightarrow> address \<Rightarrow> address option"
  cc_reserves :: "'w \<Rightarrow> address \<Rightarrow> (nat \<times> nat) option"
  cc_pair_swap :: "'w \<Rightarrow> address \<Rightarrow> nat \<Rightarrow> nat \<Rightarrow> 'w option"
  cc_aerodrome_out :: "'w \<Rightarrow> address \<Rightarrow> u256 \<Rightarrow> address \<Rightarrow> nat option"
  cc_v3_swap :: "'w \<Rightarrow> address \<Rightarrow> bool \<Rightarrow> int \<Rightarrow> nat \<Rightarrow> (address \<Rightarrow> int \<Rightarrow> int \<Rightarrow> 'w \<Rightarrow> 'w option) \<Rightarrow> (int \<times> int \<times> 'w) option"
  cc_token_x :: "'w \<Rightarrow> address \<Rightarrow> address option"
  cc_token_y :: "'w \<Rightarrow> address \<Rightarrow> address option"
  cc_lb_swap :: "'w \<Rightarrow> address \<Rightarrow> bool \<Rightarrow> 'w option"
  cc_curve_exchange :: "'w \<Rightarrow> address \<Rightarrow> bool \<Rightarrow> int \<Rightarrow> int \<Rightarrow> u256 \<Rightarrow> u256 \<Rightarrow> (nat \<times> 'w) option"
  cc_pool_id :: "'w \<Rightarrow> address \<Rightarrow> b256 option"
  cc_vault :: "'w \<Rightarrow> address \<Rightarrow> address option"
  cc_vault_swap :: "'w \<Rightarrow> address \<Rightarrow> b256 \<Rightarrow> address \<Rightarrow> address \<Rightarrow> u256 \<Rightarrow> u256 \<Rightarrow> (nat \<times> 'w) option"

text \<open>The executor's own list of targets.\<close>

record target_list =
  tl_strict_target_allowlist :: bool
  tl_allowed_targets :: "address \<Rightarrow> bool"

definition check_target :: "target_list \<Rightarrow> address \<Rightarrow> bool" where
  "check_target targets target \<longleftrightarrow> (if tl_strict_target_allowlist targets then tl_allowed_targets targets target else True)"

text \<open>No data, or the word of \<open>true\<close>.\<close>

definition token_call_ok :: "u8 list \<Rightarrow> bool" where
  "token_call_ok dat \<longleftrightarrow> dat = [] \<or> 32 \<le> length dat \<and> be_value (take 32 dat) = 1"

definition token_call_checked :: "'w chain_calls \<Rightarrow> 'w \<Rightarrow> address \<Rightarrow> token_call \<Rightarrow> 'w option" where
  "token_call_checked ch w token call =
     Option.bind (cc_token ch w token call) (\<lambda>(dat, w). if token_call_ok dat then Some w else None)"

definition safe_transfer :: "'w chain_calls \<Rightarrow> address \<Rightarrow> address \<Rightarrow> u256 \<Rightarrow> 'w \<Rightarrow> 'w option" where
  "safe_transfer ch token to amount w = token_call_checked ch w token (Transfer to amount)"

definition force_approve :: "'w chain_calls \<Rightarrow> address \<Rightarrow> address \<Rightarrow> u256 \<Rightarrow> 'w \<Rightarrow> 'w option" where
  "force_approve ch token spender amount w = token_call_checked ch w token (Approve spender amount)"

definition swap_direction :: "address \<Rightarrow> address \<Rightarrow> call_split \<Rightarrow> bool option" where
  "swap_direction token0 token1 split =
     (if sp_call_token_in split = token0 \<and> sp_call_token_out split = token1 then Some True
      else if sp_call_token_in split = token1 \<and> sp_call_token_out split = token0 then Some False
      else None)"

text \<open>What the executor has of a token above what it had; less than before is an underflow.\<close>

definition paid_out :: "'w chain_calls \<Rightarrow> address \<Rightarrow> nat \<Rightarrow> 'w \<Rightarrow> (nat \<times> 'w) option" where
  "paid_out ch token before w =
     Option.bind (cc_balance ch w token) (\<lambda>after. if after < before then None else Some (after - before, w))"

definition swap_v2 :: "'w chain_calls \<Rightarrow> 'w \<Rightarrow> call_split \<Rightarrow> (nat \<times> 'w) option" where
  "swap_v2 ch w split =
     (let pair = sp_call_target split in
      Option.bind (cc_token0 ch w pair) (\<lambda>token0.
      Option.bind (cc_token1 ch w pair) (\<lambda>token1.
      Option.bind (swap_direction token0 token1 split) (\<lambda>zero_for_one.
      Option.bind (cc_reserves ch w pair) (\<lambda>(reserve0, reserve1).
      Option.bind (decode_v2_fee_ppm (sp_call_extra_data split)) (\<lambda>fee_ppm.
      Option.bind (get_amount_out (unat (sp_call_amount_in split)) (if zero_for_one then reserve0 else reserve1)
        (if zero_for_one then reserve1 else reserve0) fee_ppm) (\<lambda>quoted.
      Option.bind (cc_balance ch w (sp_call_token_out split)) (\<lambda>before.
      Option.bind (safe_transfer ch (sp_call_token_in split) pair (sp_call_amount_in split) w) (\<lambda>w.
      Option.bind (cc_pair_swap ch w pair (if zero_for_one then 0 else quoted) (if zero_for_one then quoted else 0)) (\<lambda>w.
      paid_out ch (sp_call_token_out split) before w))))))))))"

text \<open>\<open>uniswapV3SwapCallback\<close>, with the token it finds in its data: it pays what the caller asks for.\<close>

definition v3_callback :: "target_list \<Rightarrow> 'w chain_calls \<Rightarrow> address \<Rightarrow> address \<Rightarrow> int \<Rightarrow> int \<Rightarrow> 'w \<Rightarrow> 'w option" where
  "v3_callback targets ch token_in sender amount0_delta amount1_delta w =
     (if \<not> (0 < amount0_delta \<or> 0 < amount1_delta) \<or> \<not> check_target targets sender then None
      else safe_transfer ch token_in sender (word_of_int (if 0 < amount0_delta then amount0_delta else amount1_delta)) w)"

text \<open>The amount is cast to a signed number; the pool may take less of it when it reaches the price limit.\<close>

definition swap_v3 :: "target_list \<Rightarrow> 'w chain_calls \<Rightarrow> 'w \<Rightarrow> call_split \<Rightarrow> (nat \<times> 'w) option" where
  "swap_v3 targets ch w split =
     (let pool = sp_call_target split in
      Option.bind (cc_token0 ch w pool) (\<lambda>token0.
      Option.bind (cc_token1 ch w pool) (\<lambda>token1.
      Option.bind (swap_direction token0 token1 split) (\<lambda>zero_for_one.
      Option.bind (cc_balance ch w (sp_call_token_out split)) (\<lambda>before.
      Option.bind (cc_v3_swap ch w pool zero_for_one (sint (sp_call_amount_in split))
        (decode_v3_price_limit (sp_call_extra_data split) zero_for_one) (v3_callback targets ch (sp_call_token_in split)))
        (\<lambda>(amount0_delta, amount1_delta, w).
           if (if zero_for_one then amount1_delta < 0 else amount0_delta < 0) then paid_out ch (sp_call_token_out split) before w
           else None))))))"

definition swap_trader_joe_lb :: "'w chain_calls \<Rightarrow> 'w \<Rightarrow> call_split \<Rightarrow> (nat \<times> 'w) option" where
  "swap_trader_joe_lb ch w split =
     (let pair = sp_call_target split in
      Option.bind (cc_token_x ch w pair) (\<lambda>token_x.
      Option.bind (cc_token_y ch w pair) (\<lambda>token_y.
      Option.bind (swap_direction token_x token_y split) (\<lambda>swap_for_y.
      Option.bind (cc_balance ch w (sp_call_token_out split)) (\<lambda>before.
      Option.bind (safe_transfer ch (sp_call_token_in split) pair (sp_call_amount_in split) w) (\<lambda>w.
      Option.bind (cc_lb_swap ch w pair swap_for_y) (\<lambda>w.
      Option.bind (paid_out ch (sp_call_token_out split) before w) (\<lambda>(amount_out, w).
        if amount_out < unat (sp_call_min_amount_out split) then None else Some (amount_out, w)))))))))"

definition swap_aerodrome_v2 :: "'w chain_calls \<Rightarrow> 'w \<Rightarrow> call_split \<Rightarrow> (nat \<times> 'w) option" where
  "swap_aerodrome_v2 ch w split =
     (let pool = sp_call_target split in
      Option.bind (cc_token0 ch w pool) (\<lambda>token0.
      Option.bind (cc_token1 ch w pool) (\<lambda>token1.
      Option.bind (swap_direction token0 token1 split) (\<lambda>zero_for_one.
      Option.bind (cc_aerodrome_out ch w pool (sp_call_amount_in split) (sp_call_token_in split)) (\<lambda>quoted.
        if quoted = 0 then None
        else
          Option.bind (cc_balance ch w (sp_call_token_out split)) (\<lambda>before.
          Option.bind (safe_transfer ch (sp_call_token_in split) pool (sp_call_amount_in split) w) (\<lambda>w.
          Option.bind (cc_pair_swap ch w pool (if zero_for_one then 0 else quoted) (if zero_for_one then quoted else 0)) (\<lambda>w.
          paid_out ch (sp_call_token_out split) before w))))))))"

definition swap_curve :: "'w chain_calls \<Rightarrow> 'w \<Rightarrow> call_split \<Rightarrow> (nat \<times> 'w) option" where
  "swap_curve ch w split =
     Option.bind (decode_curve_extra (sp_call_extra_data split)) (\<lambda>(i, j, underlying).
     Option.bind (cc_balance ch w (sp_call_token_out split)) (\<lambda>before.
     Option.bind (force_approve ch (sp_call_token_in split) (sp_call_target split) 0 w) (\<lambda>w.
     Option.bind (force_approve ch (sp_call_token_in split) (sp_call_target split) (sp_call_amount_in split) w) (\<lambda>w.
     Option.bind (cc_curve_exchange ch w (sp_call_target split) underlying i j (sp_call_amount_in split) (sp_call_min_amount_out split))
       (\<lambda>(returned, w). if returned < unat (sp_call_min_amount_out split) then None
          else paid_out ch (sp_call_token_out split) before w)))))"

definition swap_balancer :: "target_list \<Rightarrow> 'w chain_calls \<Rightarrow> 'w \<Rightarrow> call_split \<Rightarrow> (nat \<times> 'w) option" where
  "swap_balancer targets ch w split =
     Option.bind (case decode_balancer_pool_id (sp_call_extra_data split) of
         Some pool_id \<Rightarrow> Some pool_id | None \<Rightarrow> cc_pool_id ch w (sp_call_target split)) (\<lambda>pool_id.
     Option.bind (cc_vault ch w (sp_call_target split)) (\<lambda>vault.
       if \<not> check_target targets vault then None
       else
         Option.bind (force_approve ch (sp_call_token_in split) vault 0 w) (\<lambda>w.
         Option.bind (force_approve ch (sp_call_token_in split) vault (sp_call_amount_in split) w) (\<lambda>w.
         Option.bind (cc_balance ch w (sp_call_token_out split)) (\<lambda>before.
         Option.bind (cc_vault_swap ch w vault pool_id (sp_call_token_in split) (sp_call_token_out split) (sp_call_amount_in split)
           (sp_call_min_amount_out split))
           (\<lambda>(returned, w). if returned < unat (sp_call_min_amount_out split) then None
              else paid_out ch (sp_call_token_out split) before w))))))"

section \<open>The executor's loop over hops and splits\<close>

text \<open>What executing a split pays out, or a revert. Events are left out.\<close>

type_synonym 'w split_exec = "'w \<Rightarrow> call_split \<Rightarrow> (nat \<times> 'w) option"

definition execute_split :: "target_list \<Rightarrow> 'w chain_calls \<Rightarrow> 'w split_exec" where
  "execute_split targets ch w split =
     (if \<not> check_target targets (sp_call_target split) then None
      else case sp_call_adapter split of
          A_UniswapV2Like \<Rightarrow> swap_v2 ch w split
        | A_TraderJoeLb \<Rightarrow> swap_trader_joe_lb ch w split
        | A_AerodromeV2Like \<Rightarrow> swap_aerodrome_v2 ch w split
        | A_UniswapV3Like \<Rightarrow> swap_v3 targets ch w split
        | A_CurvePlain \<Rightarrow> swap_curve ch w split
        | A_BalancerWeighted \<Rightarrow> swap_balancer targets ch w split)"

text \<open>What a split trades for when the hop holds \<open>expected\<close> and the plan had counted on \<open>configured\<close>; the last
  split takes what remains.\<close>

definition rescaled_split :: "nat \<Rightarrow> nat \<Rightarrow> nat \<Rightarrow> bool \<Rightarrow> call_split \<Rightarrow> (nat \<times> nat \<times> nat) option" where
  "rescaled_split configured expected remaining is_last split =
     (let original = unat (sp_call_amount_in split); min_out = unat (sp_call_min_amount_out split) in
      if configured \<noteq> expected then
        Option.bind
          (if is_last then Some (remaining, remaining)
           else Option.bind (uint256 (original * expected)) (\<lambda>scaled.
             if remaining < scaled div configured then None
             else Some (scaled div configured, remaining - scaled div configured)))
          (\<lambda>(amount, remaining).
             if original = 0 then Some (amount, 0, remaining)
             else Option.bind (uint256 (min_out * amount)) (\<lambda>scaled. Some (amount, scaled div original, remaining)))
      else if remaining < original then None else Some (original, min_out, remaining - original))"

fun executor_splits ::
  "'w split_exec \<Rightarrow> nat \<Rightarrow> nat \<Rightarrow> call_split list \<Rightarrow> nat \<Rightarrow> nat \<Rightarrow> 'w \<Rightarrow> (nat \<times> 'w) option" where
  "executor_splits exec configured expected [] remaining gained w = Some (gained, w)"
| "executor_splits exec configured expected (split # splits) remaining gained w =
     Option.bind (rescaled_split configured expected remaining (splits = []) split) (\<lambda>(amount, min_out, remaining).
       if amount = 0 then executor_splits exec configured expected splits remaining gained w
       else
         Option.bind (exec w (split\<lparr>sp_call_amount_in := word_of_nat amount, sp_call_min_amount_out := word_of_nat min_out\<rparr>))
           (\<lambda>(out, w).
              if out < min_out then None
              else Option.bind (uint256 (gained + out)) (\<lambda>gained.
                executor_splits exec configured expected splits remaining gained w)))"

definition split_tokens_match :: "address \<Rightarrow> call_split list \<Rightarrow> bool" where
  "split_tokens_match token_in splits \<longleftrightarrow>
     (\<forall>s\<in>set splits. sp_call_token_in s = token_in \<and> sp_call_token_out s = sp_call_token_out (hd splits))"

definition configured_sum :: "call_split list \<Rightarrow> nat" where
  "configured_sum splits = sum_list (map (unat \<circ> sp_call_amount_in) splits)"

definition executor_hop :: "'w split_exec \<Rightarrow> address \<Rightarrow> nat \<Rightarrow> call_split list \<Rightarrow> 'w \<Rightarrow> (address \<times> nat \<times> 'w) option" where
  "executor_hop exec token_in expected splits w =
     (if splits = [] \<or> \<not> split_tokens_match token_in splits then None
      else Option.bind (uint256 (configured_sum splits)) (\<lambda>configured.
        if configured = 0 then None
        else Option.bind (executor_splits exec configured expected splits expected 0 w) (\<lambda>(gained, w).
          if gained = 0 then None else Some (sp_call_token_out (hd splits), gained, w))))"

fun executor_hops :: "'w split_exec \<Rightarrow> call_split list list \<Rightarrow> address \<Rightarrow> nat \<Rightarrow> 'w \<Rightarrow> (address \<times> nat \<times> 'w) option" where
  "executor_hops exec [] token_in expected w = Some (token_in, expected, w)"
| "executor_hops exec (splits # hops) token_in expected w =
     Option.bind (executor_hop exec token_in expected splits w) (\<lambda>(token_out, gained, w).
       executor_hops exec hops token_out gained w)"

definition execute :: "'w split_exec \<Rightarrow> execution_params \<Rightarrow> 'w \<Rightarrow> 'w option" where
  "execute exec params w =
     Option.bind (executor_hops exec (ep_hops params) (ep_input_token params) (unat (ep_input_amount params)) w)
       (\<lambda>(token, gained, w). if token = ep_input_token params then Some w else None)"

text \<open>The same execution with a record of its calls: the split as it was executed, and what it paid out.\<close>

type_synonym split_calls = "(call_split \<times> nat) list"

definition recording :: "'w split_exec \<Rightarrow> ('w \<times> split_calls) split_exec" where
  "recording exec st split = map_option (\<lambda>(out, w). (out, w, snd st @ [(split, out)])) (exec (fst st) split)"

lemma rescaled_split_remaining:
  assumes "rescaled_split configured expected remaining is_last s = Some (amount, min_out, remaining')"
  shows "(if configured \<noteq> expected \<and> is_last then amount = remaining else remaining = amount + remaining') \<and>
    (configured = expected \<longrightarrow> amount = unat (sp_call_amount_in s))"
  using assms
  by (auto simp: rescaled_split_def Let_def bind_eq_Some_conv split: if_splits)

lemma uint256_word: "n < 2 ^ 256 \<Longrightarrow> unat (word_of_nat n :: u256) = n"
  by (simp add: unat_word_of_nat_less)

lemma recording_Some:
  "recording exec (w, old) s = Some (out, w', calls) \<longleftrightarrow> exec w s = Some (out, w') \<and> calls = old @ [(s, out)]"
  by (auto simp: recording_def)

lemma rescaled_split_min:
  "rescaled_split configured expected remaining is_last s = Some (amount, min_out, remaining') \<Longrightarrow> min_out < 2 ^ 256"
proof -
  assume r: "rescaled_split configured expected remaining is_last s = Some (amount, min_out, remaining')"
  have u: "unat (sp_call_min_amount_out s) < 2 ^ 256" using unat_lt_size [of "sp_call_min_amount_out s"] by simp
  have le: "a div b < 2 ^ 256" if "uint256 a = Some c" for a b c
    using that by (auto simp: uint256_def intro: le_less_trans [OF div_le_dividend] split: if_splits)
  from r u show ?thesis
    by (auto simp: rescaled_split_def Let_def bind_eq_Some_conv uint256_def intro: le_less_trans [OF div_le_dividend] split: if_splits)
qed

lemma recording_erased:
  "executor_splits exec configured expected splits remaining gained (fst st) =
     map_option (\<lambda>(g, st). (g, fst st)) (executor_splits (recording exec) configured expected splits remaining gained st)"
proof (induction splits arbitrary: remaining gained st)
  case (Cons s splits)
  show ?case
  proof (cases "rescaled_split configured expected remaining (splits = []) s")
    case (Some r)
    obtain amount min_out rest where r: "r = (amount, min_out, rest)" by (metis prod_cases3)
    show ?thesis
    proof (cases "amount = 0")
      case True
      with Some r Cons.IH show ?thesis by simp
    next
      case False
      let ?call = "s\<lparr>sp_call_amount_in := word_of_nat amount, sp_call_min_amount_out := word_of_nat min_out\<rparr>"
      show ?thesis
      proof (cases "exec (fst st) ?call")
        case None
        with Some r False show ?thesis by (simp add: recording_def)
      next
        case e: (Some p)
        obtain out w where p: "p = (out, w)" by (cases p)
        show ?thesis
        proof (cases "out < min_out \<or> uint256 (gained + out) = None")
          case True
          with Some r False e p show ?thesis by (auto simp: recording_def)
        next
          case ok: False
          then obtain g where "uint256 (gained + out) = Some g" by auto
          with Some r False e p ok Cons.IH [of rest g "(w, snd st @ [(?call, out)])"] show ?thesis by (simp add: recording_def)
        qed
      qed
    qed
  qed simp
qed simp

definition without_amounts :: "call_split \<Rightarrow> call_split" where
  "without_amounts s = s\<lparr>sp_call_amount_in := 0, sp_call_min_amount_out := 0\<rparr>"

text \<open>A recorded call: a positive amount, executed by the adapter, and paid out at least its minimum.\<close>

definition call_paid :: "call_split \<times> nat \<Rightarrow> bool" where
  "call_paid c \<longleftrightarrow> sp_call_amount_in (fst c) \<noteq> 0 \<and> unat (sp_call_min_amount_out (fst c)) \<le> snd c"

abbreviation handed_out :: "split_calls \<Rightarrow> nat" where
  "handed_out calls \<equiv> sum_list (map (\<lambda>c. unat (sp_call_amount_in (fst c))) calls)"

lemma executor_splits_hand_out:
  assumes "remaining < 2 ^ 256" and "splits \<noteq> []" and "configured = expected \<Longrightarrow> configured_sum splits = remaining"
    and "executor_splits (recording exec) configured expected splits remaining gained (w, old) = Some (gained', w', calls)"
  shows "\<exists>new. calls = old @ new \<and> handed_out new = remaining \<and> gained' = gained + sum_list (map snd new) \<and>
    list_all call_paid new \<and> subseq (map (\<lambda>c. without_amounts (fst c)) new) (map without_amounts splits)"
  using assms
proof (induction splits arbitrary: remaining gained w old)
  case (Cons s splits)
  obtain amount min_out rest where r: "rescaled_split configured expected remaining (splits = []) s = Some (amount, min_out, rest)"
    using Cons.prems(4) by (auto simp: bind_eq_Some_conv)
  note rr = rescaled_split_remaining [OF r]
  have le: "amount \<le> remaining" using rr by (auto split: if_splits)
  then have u: "unat (word_of_nat amount :: u256) = amount" using Cons.prems(1) by (intro uint256_word) linarith
  have m: "unat (word_of_nat min_out :: u256) = min_out" by (rule uint256_word [OF rescaled_split_min [OF r]])
  obtain one w1 g1 where one: "handed_out one = amount" "g1 = gained + sum_list (map snd one)" "list_all call_paid one"
      "subseq (map (\<lambda>c. without_amounts (fst c)) one) [without_amounts s]"
      and k: "executor_splits (recording exec) configured expected splits rest g1 (w1, old @ one) = Some (gained', w', calls)"
  proof (cases "amount = 0")
    case True
    then show ?thesis using Cons.prems(4) r by (intro that [of "[]" gained w]) auto
  next
    case False
    let ?call = "s\<lparr>sp_call_amount_in := word_of_nat amount, sp_call_min_amount_out := word_of_nat min_out\<rparr>"
    obtain out w1 where e: "exec w ?call = Some (out, w1)" "min_out \<le> out"
      and k: "executor_splits (recording exec) configured expected splits rest (gained + out) (w1, old @ [(?call, out)]) = Some (gained', w', calls)"
      using Cons.prems(4) r False by (auto simp: bind_eq_Some_conv recording_Some uint256_def split: if_splits)
    have "(word_of_nat amount :: u256) \<noteq> 0" using u False by auto
    then have "call_paid (?call, out)" using e(2) m by (simp add: call_paid_def)
    moreover have "without_amounts ?call = without_amounts s" by (simp add: without_amounts_def)
    ultimately show ?thesis using u k by (intro that [of "[(?call, out)]" "gained + out" w1]) simp_all
  qed
  show ?case
  proof (cases "splits = []")
    case True
    then have "calls = old @ one" "gained' = g1" using k by simp_all
    moreover have "amount = remaining"
      using rr True Cons.prems(3) by (cases "configured = expected") (auto simp: configured_sum_def)
    ultimately show ?thesis using one True by (intro exI [where x = one]) simp
  next
    case False
    then have split: "remaining = amount + rest" using rr by (auto split: if_splits)
    have "configured_sum splits = rest" if "configured = expected"
      using Cons.prems(3) [OF that] rr that split by (simp add: configured_sum_def)
    then obtain new where new: "calls = (old @ one) @ new" "handed_out new = rest" "gained' = g1 + sum_list (map snd new)"
      "list_all call_paid new" "subseq (map (\<lambda>c. without_amounts (fst c)) new) (map without_amounts splits)"
      using Cons.IH [OF _ False _ k] split Cons.prems(1) by auto
    have "subseq (map (\<lambda>c. without_amounts (fst c)) one @ map (\<lambda>c. without_amounts (fst c)) new) ([without_amounts s] @ map without_amounts splits)"
      using one(4) new(5) by (rule list_emb_append_mono)
    with one new split show ?thesis by (intro exI [where x = "one @ new"]) simp
  qed
qed simp

lemma executor_hop_facts:
  assumes "executor_hop exec token_in expected splits w = Some (token_out, gained, w')"
  shows "split_tokens_match token_in splits \<and> splits \<noteq> [] \<and> token_out = sp_call_token_out (hd splits) \<and> 0 < gained \<and>
    executor_splits exec (configured_sum splits) expected splits expected 0 w = Some (gained, w')"
  using assms by (auto simp: executor_hop_def bind_eq_Some_conv uint256_def split: if_splits)

text \<open>C14: a hop the contract completes calls its splits, in the plan's order and without those that get nothing, with
  amounts that add up to exactly what the hop before it (or the caller) left - also where the amounts of the plan add up to
  something else. Every call pays at least its rescaled minimum, all are into one and the same token, and what the next hop gets
  is the sum of what they paid, not nothing. How much of its amount a pool really takes is the pool's affair: a V3 pool may
  stop at the price limit.\<close>

theorem executor_hop_hands_out_all:
  assumes "expected < 2 ^ 256"
    and "executor_hop (execute_split targets ch) token_in expected splits w = Some (token_out, gained, w')"
  shows "\<exists>calls. executor_hop (recording (execute_split targets ch)) token_in expected splits (w, []) = Some (token_out, gained, w', calls)
    \<and> handed_out calls = expected \<and> gained = sum_list (map snd calls) \<and> 0 < gained \<and> list_all call_paid calls
    \<and> subseq (map (\<lambda>c. without_amounts (fst c)) calls) (map without_amounts splits)
    \<and> list_all (\<lambda>s. sp_call_token_in s = token_in \<and> sp_call_token_out s = token_out) splits"
proof -
  note f = executor_hop_facts [OF assms(2)]
  let ?run = "executor_splits (recording (execute_split targets ch)) (configured_sum splits) expected splits expected 0 (w, [])"
  have "map_option (\<lambda>(g, st). (g, fst st)) ?run = Some (gained, w')"
    using recording_erased [of "execute_split targets ch" "configured_sum splits" expected splits expected 0 "(w, [])"] f by simp
  then obtain calls where c: "?run = Some (gained, w', calls)" by (cases ?run) auto
  have "uint256 (configured_sum splits) = Some (configured_sum splits)" "configured_sum splits \<noteq> 0"
    using assms(2) by (auto simp: executor_hop_def bind_eq_Some_conv uint256_def split: if_splits)
  with f c have hop: "executor_hop (recording (execute_split targets ch)) token_in expected splits (w, []) = Some (token_out, gained, w', calls)"
    unfolding executor_hop_def by simp
  obtain new where "calls = [] @ new" "handed_out new = expected" "gained = 0 + sum_list (map snd new)" "list_all call_paid new"
    "subseq (map (\<lambda>c. without_amounts (fst c)) new) (map without_amounts splits)"
    using executor_splits_hand_out [OF assms(1) _ _ c] f by blast
  then have n: "handed_out calls = expected" "gained = sum_list (map snd calls)" "list_all call_paid calls"
    "subseq (map (\<lambda>c. without_amounts (fst c)) calls) (map without_amounts splits)" by simp_all
  have t: "list_all (\<lambda>s. sp_call_token_in s = token_in \<and> sp_call_token_out s = token_out) splits"
    using f unfolding split_tokens_match_def list_all_iff by metis
  have pos: "0 < gained" using f by blast
  show ?thesis by (intro exI [where x = calls] conjI hop n t pos)
qed

text \<open>Two V2 pairs with the reserves 1000000 and 2000000; the state is what the executor has of the tokens 1 and 2.\<close>

definition demo_pairs :: "(nat \<times> nat) chain_calls" where
  "demo_pairs =
     \<lparr>cc_balance = (\<lambda>w token. Some (if token = 1 then fst w else snd w)),
      cc_token = (\<lambda>w token call. case call of
          Transfer to amount \<Rightarrow> if token = 1 \<and> unat amount \<le> fst w then Some ([], fst w - unat amount, snd w) else None
        | Approve _ _ \<Rightarrow> Some ([], w)),
      cc_token0 = (\<lambda>w pool. Some 1), cc_token1 = (\<lambda>w pool. Some 2),
      cc_reserves = (\<lambda>w pool. Some (1000000, 2000000)),
      cc_pair_swap = (\<lambda>w pool out0 out1. Some (fst w + out0, snd w + out1)),
      cc_aerodrome_out = (\<lambda>w pool amount token. None), cc_v3_swap = (\<lambda>w pool z amount limit callback. None),
      cc_token_x = (\<lambda>w pool. None), cc_token_y = (\<lambda>w pool. None), cc_lb_swap = (\<lambda>w pool y. None),
      cc_curve_exchange = (\<lambda>w pool u i j amount m. None), cc_pool_id = (\<lambda>w pool. None), cc_vault = (\<lambda>w pool. None),
      cc_vault_swap = (\<lambda>w vault p i out amount m. None)\<rparr>"

definition open_targets :: target_list where
  "open_targets = \<lparr>tl_strict_target_allowlist = False, tl_allowed_targets = (\<lambda>a. False)\<rparr>"

definition demo_split :: "address \<Rightarrow> u256 \<Rightarrow> call_split" where
  "demo_split pool amount =
     \<lparr>sp_call_adapter = A_UniswapV2Like, sp_call_target = pool, sp_call_token_in = 1, sp_call_token_out = 2,
      sp_call_amount_in = amount, sp_call_min_amount_out = amount, sp_call_extra_data = []\<rparr>"

text \<open>A plan of 30 + 60 that finds 100 trades 33 + 67.\<close>

lemma demo_rescaled:
  "rescaled_split 90 100 100 False (demo_split p 30) = Some (33, 33, 67)"
  "rescaled_split 90 100 67 True (demo_split p 60) = Some (67, 67, 67)"
  by (simp_all add: rescaled_split_def demo_split_def uint256_def Let_def)

lemma demo_executed:
  assumes "amount = 33 \<and> out = 65 \<or> amount = 67 \<and> out = 133" and "amount \<le> a"
  shows "execute_split open_targets demo_pairs (a, b)
    (demo_split p n\<lparr>sp_call_amount_in := word_of_nat amount, sp_call_min_amount_out := m\<rparr>) = Some (out, a - amount, b + out)"
  using assms
  by (auto simp: execute_split_def check_target_def open_targets_def demo_split_def swap_v2_def demo_pairs_def swap_direction_def
    decode_v2_fee_ppm_def get_amount_out_def uint256_def safe_transfer_def token_call_checked_def token_call_ok_def paid_out_def)

lemma demo_hop: "executor_hop (execute_split open_targets demo_pairs) 1 100 [demo_split 11 30, demo_split 12 60] (100, 0) = Some (2, 198, 0, 198)"
proof -
  have "configured_sum [demo_split 11 30, demo_split 12 60] = 90" by (simp add: configured_sum_def demo_split_def)
  moreover have "split_tokens_match 1 [demo_split 11 30, demo_split 12 60]" by (simp add: split_tokens_match_def demo_split_def)
  moreover have "executor_splits (execute_split open_targets demo_pairs) 90 100 [demo_split 11 30, demo_split 12 60] 100 0 (100, 0) =
      Some (198, 0, 198)"
    using demo_executed [where amount = 33 and out = 65 and a = 100 and b = 0 and p = 11 and n = 30 and m = 33]
      demo_executed [where amount = 67 and out = 133 and a = 67 and b = 65 and p = 12 and n = 60 and m = 67]
    by (simp add: demo_rescaled uint256_def del: One_nat_def)
  ultimately show ?thesis by (simp add: executor_hop_def uint256_def demo_split_def)
qed

theorem executor_hop_hands_out_all_witness:
  "\<exists>calls. executor_hop (recording (execute_split open_targets demo_pairs)) 1 100 [demo_split 11 30, demo_split 12 60] ((100, 0), []) =
     Some (2, 198, (0, 198), calls) \<and> handed_out calls = 100 \<and> sum_list (map snd calls) = 198"
  using executor_hop_hands_out_all [OF _ demo_hop] by auto

text \<open>The callback asks only whether its caller is an allowed target. While the list is not enforced, any contract can call it,
  outside of any swap, and is paid what it asks for of any token the executor holds.\<close>

lemma callback_pays_any_caller:
  assumes "\<not> tl_strict_target_allowlist targets" and "0 < amount" and "amount < 2 ^ 255"
  shows "v3_callback targets ch token caller amount 0 w = safe_transfer ch token caller (word_of_int amount) w"
  using assms by (simp add: v3_callback_def check_target_def)

lemma execute_cyclic:
  assumes "execute exec params w = Some w'"
  shows "\<exists>gained. executor_hops exec (ep_hops params) (ep_input_token params) (unat (ep_input_amount params)) w =
    Some (ep_input_token params, gained, w')"
  using assms by (auto simp: execute_def bind_eq_Some_conv split: if_splits)

end
