(* ===== verification/Failure_Cache.thy ===== *)
theory Failure_Cache
  imports Risk_Limits
begin

text \<open>
  The memory of failed simulations in \<open>src/execution/validator.rs\<close>: a reason is classified, and its class says for how
  long and how widely (the route, its pools, its token pairs) plans are skipped. \<open>show\<close> is the \<open>Display\<close> of an
  address. The clock is an argument.
\<close>

section \<open>Reasons\<close>

text \<open>\<open>cut pat s\<close> is \<open>s\<close> up to the first occurrence of \<open>pat\<close>, and what follows it.\<close>

fun cut :: "string \<Rightarrow> string \<Rightarrow> string \<times> string option" where
  "cut pat [] = ([], None)"
| "cut pat (c # cs) =
     (if take (length pat) (c # cs) = pat then ([], Some (drop (length pat) (c # cs)))
      else (let (before, after) = cut pat cs in (c # before, after)))"

definition split_nth1 :: "string \<Rightarrow> string \<Rightarrow> string option" where
  "split_nth1 pat s = map_option (\<lambda>after. fst (cut pat after)) (snd (cut pat s))"

definition normalize_failure_reason :: "string \<Rightarrow> string" where
  "normalize_failure_reason reason =
     fst (cut '' for method'' (unwrap_or (split_nth1 ''execution reverted: '' reason) reason))"

datatype failure_class = FC_Slippage | FC_Transfer | FC_Callback | FC_Overflow | FC_HopMismatch | FC_Other

definition failure_class_from_reason :: "string \<Rightarrow> failure_class" where
  "failure_class_from_reason reason =
     (let normalized = normalize_failure_reason reason in
      if str_contains normalized ''SPLIT_SLIPPAGE'' then FC_Slippage
      else if str_contains normalized ''TRANSFER_FAILED'' then FC_Transfer
      else if str_contains normalized ''NO_CALLBACK_PAYMENT'' then FC_Callback
      else if str_contains normalized ''underflow'' \<or> str_contains normalized ''overflow'' then FC_Overflow
      else if str_contains normalized ''HOP_INPUT_SUM_MISMATCH'' then FC_HopMismatch
      else FC_Other)"

section \<open>Keys\<close>

fun adapter_debug :: "adapter_type \<Rightarrow> string" where
  "adapter_debug A_UniswapV2Like = ''UniswapV2Like''"
| "adapter_debug A_UniswapV3Like = ''UniswapV3Like''"
| "adapter_debug A_TraderJoeLb = ''TraderJoeLb''"
| "adapter_debug A_CurvePlain = ''CurvePlain''"
| "adapter_debug A_BalancerWeighted = ''BalancerWeighted''"
| "adapter_debug A_AerodromeV2Like = ''AerodromeV2Like''"

definition plan_splits :: "exact_plan \<Rightarrow> split_plan list" where
  "plan_splits plan = concat (map hp_splits (xp_hops plan))"

definition direction_text :: "(address \<Rightarrow> string) \<Rightarrow> split_plan \<Rightarrow> string" where
  "direction_text show s = show (sp_token_in s) @ ''>'' @ show (sp_token_out s)"

definition route_failure_key :: "(address \<Rightarrow> string) \<Rightarrow> exact_plan \<Rightarrow> string" where
  "route_failure_key show plan =
     join_str ''|'' ((''route:'' @ show (xp_input_token plan)) #
       map (\<lambda>s. show (sp_pool_id s) @ '':'' @ direction_text show s) (plan_splits plan))"

definition pool_direction_key :: "(address \<Rightarrow> string) \<Rightarrow> split_plan \<Rightarrow> string" where
  "pool_direction_key show s =
     ''pool:'' @ show (sp_pool_id s) @ '':'' @ adapter_debug (sp_adapter_type s) @ '':'' @ direction_text show s"

definition pool_direction_failure_keys :: "(address \<Rightarrow> string) \<Rightarrow> exact_plan \<Rightarrow> string list" where
  "pool_direction_failure_keys show plan = map (pool_direction_key show) (plan_splits plan)"

definition token_pair_failure_keys :: "(address \<Rightarrow> string) \<Rightarrow> exact_plan \<Rightarrow> string list" where
  "token_pair_failure_keys show plan = map (\<lambda>s. ''token:'' @ direction_text show s) (plan_splits plan)"

definition failure_keys :: "(address \<Rightarrow> string) \<Rightarrow> exact_plan \<Rightarrow> string list" where
  "failure_keys show plan =
     [route_failure_key show plan] @ pool_direction_failure_keys show plan @ token_pair_failure_keys show plan"

fun failure_keys_for_class :: "(address \<Rightarrow> string) \<Rightarrow> exact_plan \<Rightarrow> failure_class \<Rightarrow> string list" where
  "failure_keys_for_class show plan FC_Transfer =
     [route_failure_key show plan] @ pool_direction_failure_keys show plan @ token_pair_failure_keys show plan"
| "failure_keys_for_class show plan FC_Callback =
     route_failure_key show plan # filter (\<lambda>key. str_contains key '':UniswapV3Like:'') (pool_direction_failure_keys show plan)"
| "failure_keys_for_class show plan FC_Overflow = route_failure_key show plan # pool_direction_failure_keys show plan"
| "failure_keys_for_class show plan FC_Slippage = route_failure_key show plan # pool_direction_failure_keys show plan"
| "failure_keys_for_class show plan FC_HopMismatch = [route_failure_key show plan]"
| "failure_keys_for_class show plan FC_Other = [route_failure_key show plan]"

section \<open>The cache\<close>

record cached_failure =
  cf_expires_at :: instant
  cf_reason :: string

record failure_cache =
  fc_enabled :: bool
  fc_entries :: "string \<rightharpoonup> cached_failure"
  fc_slippage_ttl :: duration
  fc_transfer_ttl :: duration
  fc_callback_ttl :: duration
  fc_overflow_ttl :: duration
  fc_route_ttl :: duration

definition failure_cache_from_env :: "env \<Rightarrow> failure_cache" where
  "failure_cache_from_env env =
     \<lparr>fc_enabled = env_bool_set env ''VALIDATOR_FAILURE_CACHE'' True, fc_entries = Map.empty,
      fc_slippage_ttl = from_secs (env_usize_any env ''FAILURE_CACHE_SLIPPAGE_SECS'' 180),
      fc_transfer_ttl = from_secs (env_usize_any env ''FAILURE_CACHE_TRANSFER_SECS'' 1800),
      fc_callback_ttl = from_secs (env_usize_any env ''FAILURE_CACHE_CALLBACK_SECS'' 600),
      fc_overflow_ttl = from_secs (env_usize_any env ''FAILURE_CACHE_OVERFLOW_SECS'' 600),
      fc_route_ttl = from_secs (env_usize_any env ''FAILURE_CACHE_ROUTE_SECS'' 300)\<rparr>"

definition prune_failures :: "instant \<Rightarrow> failure_cache \<Rightarrow> failure_cache" where
  "prune_failures now c =
     c\<lparr>fc_entries := (\<lambda>k. filter_opt (\<lambda>failure. now < cf_expires_at failure) (fc_entries c k))\<rparr>"

fun ttl_for :: "failure_cache \<Rightarrow> failure_class \<Rightarrow> duration" where
  "ttl_for c FC_Slippage = fc_slippage_ttl c"
| "ttl_for c FC_Transfer = fc_transfer_ttl c"
| "ttl_for c FC_Callback = fc_callback_ttl c"
| "ttl_for c FC_Overflow = fc_overflow_ttl c"
| "ttl_for c FC_HopMismatch = fc_route_ttl c"
| "ttl_for c FC_Other = fc_route_ttl c"

fun first_entry :: "('k \<rightharpoonup> 'v) \<Rightarrow> 'k list \<Rightarrow> 'v option" where
  "first_entry m [] = None"
| "first_entry m (k # ks) = (case m k of Some v \<Rightarrow> Some v | None \<Rightarrow> first_entry m ks)"

definition skip_reason :: "(address \<Rightarrow> string) \<Rightarrow> instant \<Rightarrow> exact_plan \<Rightarrow> failure_cache \<Rightarrow> string option \<times> failure_cache" where
  "skip_reason show now plan c =
     (if \<not> fc_enabled c then (None, c)
      else
        let c = prune_failures now c
        in (map_option cf_reason (first_entry (fc_entries c) (failure_keys show plan)), c))"

definition insert_failures :: "cached_failure \<Rightarrow> string list \<Rightarrow> (string \<rightharpoonup> cached_failure) \<Rightarrow> string \<rightharpoonup> cached_failure" where
  "insert_failures failure keys entries = fold (\<lambda>key m. m(key \<mapsto> failure)) keys entries"

text \<open>The clock is read for the pruning (\<open>t1\<close>) and for the expiry (\<open>t2\<close>).\<close>

definition record_failure :: "(address \<Rightarrow> string) \<Rightarrow> instant \<Rightarrow> instant \<Rightarrow> exact_plan \<Rightarrow> string \<Rightarrow> failure_cache \<Rightarrow> failure_cache" where
  "record_failure show t1 t2 plan reason c =
     (if \<not> fc_enabled c then c
      else
        let c = prune_failures t1 c; cls = failure_class_from_reason reason; ttl = ttl_for c cls
        in if ttl = 0 then c
           else c\<lparr>fc_entries :=
             insert_failures \<lparr>cf_expires_at = t2 + ttl, cf_reason = normalize_failure_reason reason\<rparr>
               (failure_keys_for_class show plan cls) (fc_entries c)\<rparr>)"

section \<open>Logged descriptions of a plan\<close>

definition plan_split_count :: "exact_plan \<Rightarrow> nat" where
  "plan_split_count plan = sum_list (map (length \<circ> hp_splits) (xp_hops plan))"

definition format_plan_token_route :: "(address \<Rightarrow> string) \<Rightarrow> exact_plan \<Rightarrow> string" where
  "format_plan_token_route show plan =
     join_str ''>'' (show (xp_input_token plan) # map (\<lambda>h. show (hp_token_out h)) (xp_hops plan))"

definition format_plan_dex_route :: "exact_plan \<Rightarrow> string" where
  "format_plan_dex_route plan =
     join_str ''>'' (map (\<lambda>h. join_str ''+'' (map sp_dex_name (hp_splits h))) (xp_hops plan))"

definition format_plan_pool_route :: "(address \<Rightarrow> string) \<Rightarrow> exact_plan \<Rightarrow> string" where
  "format_plan_pool_route show plan =
     join_str ''>'' (map (\<lambda>h. join_str ''+'' (map (\<lambda>s. show (sp_pool_id s)) (hp_splits h))) (xp_hops plan))"

section \<open>Facts\<close>

text \<open>Only keys that a later plan will look up are ever written.\<close>

lemma class_keys_subset: "set (failure_keys_for_class show plan cls) \<subseteq> set (failure_keys show plan)"
  by (cases "(show, plan, cls)" rule: failure_keys_for_class.cases) (auto simp: failure_keys_def)

lemma route_key_recorded: "route_failure_key show plan \<in> set (failure_keys_for_class show plan cls)"
  by (cases "(show, plan, cls)" rule: failure_keys_for_class.cases) auto

lemma insert_failures_get:
  "insert_failures failure keys entries k = (if k \<in> set keys then Some failure else entries k)"
  by (induction keys arbitrary: entries) (auto simp: insert_failures_def)

lemma first_entry_None: "first_entry m ks = None \<longleftrightarrow> (\<forall>k\<in>set ks. m k = None)"
  by (induction ks) (auto split: option.splits)

lemma prune_failures_get: "fc_entries (prune_failures now c) k = Some f \<longleftrightarrow> fc_entries c k = Some f \<and> now < cf_expires_at f"
  by (simp add: prune_failures_def)

lemma prune_failures_enabled [simp]: "fc_enabled (prune_failures now c) = fc_enabled c"
  by (simp add: prune_failures_def)

lemma prune_failures_ttl [simp]: "ttl_for (prune_failures now c) cls = ttl_for c cls"
  by (cases cls) (simp_all add: prune_failures_def)

lemma skipped_iff:
  "fst (skip_reason show now plan c) \<noteq> None \<longleftrightarrow>
     fc_enabled c \<and> (\<exists>key\<in>set (failure_keys show plan). \<exists>f. fc_entries c key = Some f \<and> now < cf_expires_at f)"
proof -
  have "first_entry (fc_entries (prune_failures now c)) ks \<noteq> None \<longleftrightarrow>
      (\<exists>key\<in>set ks. \<exists>f. fc_entries c key = Some f \<and> now < cf_expires_at f)" for ks
    unfolding first_entry_None by (metis prune_failures_get not_Some_eq)
  then show ?thesis by (auto simp: skip_reason_def Let_def)
qed


section \<open>The cache as a log\<close>

datatype failure_event = Failure_Recorded instant instant exact_plan string | Plan_Checked instant exact_plan

fun happens_at :: "failure_event \<Rightarrow> instant" where
  "happens_at (Failure_Recorded t1 t2 plan reason) = t1"
| "happens_at (Plan_Checked t plan) = t"

fun failure_step :: "(address \<Rightarrow> string) \<Rightarrow> failure_event \<Rightarrow> failure_cache \<Rightarrow> failure_cache" where
  "failure_step show (Failure_Recorded t1 t2 plan reason) c = record_failure show t1 t2 plan reason c"
| "failure_step show (Plan_Checked t plan) c = snd (skip_reason show t plan c)"

text \<open>The events, the latest first; and until when a key is blocked by them.\<close>

definition failure_run :: "(address \<Rightarrow> string) \<Rightarrow> failure_event list \<Rightarrow> failure_cache \<Rightarrow> failure_cache" where
  "failure_run show events c = foldr (failure_step show) events c"

fun blocked_until :: "(address \<Rightarrow> string) \<Rightarrow> failure_cache \<Rightarrow> failure_event list \<Rightarrow> string \<Rightarrow> instant option" where
  "blocked_until show c [] key = None"
| "blocked_until show c (Failure_Recorded t1 t2 plan reason # older) key =
     (let cls = failure_class_from_reason reason in
      if ttl_for c cls \<noteq> 0 \<and> key \<in> set (failure_keys_for_class show plan cls) then Some (t2 + ttl_for c cls)
      else blocked_until show c older key)"
| "blocked_until show c (Plan_Checked t plan # older) key = blocked_until show c older key"

lemma failure_step_const [simp]:
  "fc_enabled (failure_step show e c) = fc_enabled c" "ttl_for (failure_step show e c) cls = ttl_for c cls"
  by (cases e; cases cls; simp add: record_failure_def skip_reason_def Let_def prune_failures_def)+

lemma failure_run_const [simp]:
  "fc_enabled (failure_run show events c) = fc_enabled c" "ttl_for (failure_run show events c) cls = ttl_for c cls"
  by (induction events) (simp_all add: failure_run_def)

definition entry_live :: "failure_cache \<Rightarrow> instant \<Rightarrow> string \<Rightarrow> bool" where
  "entry_live c now key \<longleftrightarrow> (\<exists>f. fc_entries c key = Some f \<and> now < cf_expires_at f)"

lemma entry_live_prune: "t \<le> now \<Longrightarrow> entry_live (prune_failures t c) now key = entry_live c now key"
  unfolding entry_live_def prune_failures_get by (meson le_less_trans)

lemma entry_live_skip: "t \<le> now \<Longrightarrow> entry_live (snd (skip_reason show t plan c)) now key = entry_live c now key"
  by (simp add: skip_reason_def Let_def entry_live_prune)

lemma entry_live_record:
  assumes "t1 \<le> now" and "fc_enabled c"
  shows "entry_live (record_failure show t1 t2 plan reason c) now key =
    (let cls = failure_class_from_reason reason in
     if ttl_for c cls \<noteq> 0 \<and> key \<in> set (failure_keys_for_class show plan cls) then now < t2 + ttl_for c cls
     else entry_live c now key)"
  using assms entry_live_prune [OF assms(1), of c key]
  by (auto simp: record_failure_def Let_def entry_live_def insert_failures_get)

lemma failure_run_live:
  assumes "fc_enabled c" and "fc_entries c = Map.empty" and "\<forall>e\<in>set events. happens_at e \<le> now"
  shows "entry_live (failure_run show events c) now key \<longleftrightarrow>
    (\<exists>t. blocked_until show c events key = Some t \<and> now < t)"
  using assms(3)
proof (induction events)
  case Nil
  then show ?case using assms(2) by (simp add: failure_run_def entry_live_def)
next
  case (Cons e events)
  then have IH: "entry_live (failure_run show events c) now key \<longleftrightarrow>
      (\<exists>t. blocked_until show c events key = Some t \<and> now < t)" by simp
  have run: "failure_run show (e # events) c = failure_step show e (failure_run show events c)"
    by (simp add: failure_run_def)
  show ?case
  proof (cases e)
    case (Failure_Recorded t1 t2 plan reason)
    with Cons.prems assms(1) IH show ?thesis
      unfolding run by (simp add: entry_live_record Let_def del: ttl_for.simps)
  next
    case (Plan_Checked t plan)
    with Cons.prems IH show ?thesis unfolding run by (simp add: entry_live_skip)
  qed
qed

text \<open>C13: the failure cache behaves as a log of the failures: a plan is skipped exactly when the latest recorded failure
  that concerns its route, one of its pools in its direction or one of its token pairs - as far as the class of that
  failure reaches - is younger than the time its class is kept. Looking up forgets nothing that still counts.\<close>

theorem failure_cache_refines_log:
  assumes "fc_enabled c" and "fc_entries c = Map.empty" and "\<forall>e\<in>set events. happens_at e \<le> now"
  shows "fst (skip_reason show now plan (failure_run show events c)) \<noteq> None \<longleftrightarrow>
    (\<exists>key\<in>set (failure_keys show plan). \<exists>t. blocked_until show c events key = Some t \<and> now < t)"
  using failure_run_live [OF assms] assms(1) unfolding skipped_iff entry_live_def failure_run_const by blast

text \<open>The last failure of a route decides for how long it is skipped, also when its class is kept for a shorter time than
  an earlier one would still have been: a slippage after a failed transfer shortens the ban from 1800 to 180 seconds.\<close>

lemma latest_failure_wins:
  assumes "ttl_for c (failure_class_from_reason reason) \<noteq> 0"
  shows "blocked_until show c (Failure_Recorded t1 t2 plan reason # older) (route_failure_key show plan) =
    Some (t2 + ttl_for c (failure_class_from_reason reason))"
  using assms by (simp add: Let_def route_key_recorded)

lemma class_of_slippage: "failure_class_from_reason ''execution reverted: SPLIT_SLIPPAGE'' = FC_Slippage"
  by code_simp

theorem failure_cache_refines_log_witness:
  "\<forall>show. fst (skip_reason show (from_secs 150) demo_plan
      (failure_run show [Failure_Recorded 0 0 demo_plan ''execution reverted: SPLIT_SLIPPAGE''] (failure_cache_from_env (\<lambda>_. None)))) \<noteq> None"
proof
  fix disp :: "address \<Rightarrow> string"
  let ?c = "failure_cache_from_env (\<lambda>_. None)"
  let ?e = "[Failure_Recorded 0 0 demo_plan ''execution reverted: SPLIT_SLIPPAGE'']"
  have c: "fc_enabled ?c" "fc_entries ?c = Map.empty" "fc_slippage_ttl ?c = from_secs 180"
    by (simp_all add: failure_cache_from_env_def env_bool_set_def env_usize_any_def)
  have "route_failure_key disp demo_plan \<in> set (failure_keys disp demo_plan)" by (simp add: failure_keys_def)
  moreover have "blocked_until disp ?c ?e (route_failure_key disp demo_plan) = Some (0 + from_secs 180)"
    using latest_failure_wins [of ?c "''execution reverted: SPLIT_SLIPPAGE''" disp 0 0 demo_plan "[]"] c(3)
    unfolding class_of_slippage ttl_for.simps by simp
  ultimately show "fst (skip_reason disp (from_secs 150) demo_plan (failure_run disp ?e ?c)) \<noteq> None"
    using failure_cache_refines_log [OF c(1,2), of ?e "from_secs 150" disp demo_plan] by fastforce
qed

end
