(* ===== verification/Gas_Tracker.thy ===== *)
theory Gas_Tracker
  imports Config Rpc_Client
begin

text \<open>
  The price of gas: \<open>src/risk/gas_tracker.rs\<close>. Every attempt of a retried question has an answer of its own, so the node
  is a function from the attempt to an RPC call; the sleeps between attempts change nothing but the clock. The ABI of
  the L1 fee oracle of Base is an argument. Errors are their texts: \<open>show_err\<close> is the \<open>Display\<close> of an RPC error.
\<close>

record gas_quote =
  gq_max_fee_per_gas :: u128
  gq_max_priority_fee_per_gas :: u128
  gq_l2_execution_cost_wei :: u256
  gq_l1_data_fee_wei :: u256
  gq_buffered_total_cost_wei :: u256

record cached_gas_quote =
  cg_fetched_at :: instant
  cg_base :: u128
  cg_priority :: u128

record gas_tracker =
  gt_chain :: chain
  gt_ceiling_wei :: u128
  gt_risk_buffer_pct :: f64
  gt_cache :: "cached_gas_quote option"

definition gas_tracker_new :: "settings \<Rightarrow> gas_tracker" where
  "gas_tracker_new s =
     \<lparr>gt_chain = st_chain s, gt_ceiling_wei = rk_gas_price_ceiling_wei (st_risk s),
      gt_risk_buffer_pct = rk_gas_risk_buffer_pct (st_risk s), gt_cache = None\<rparr>"

section \<open>Retried questions\<close>

definition gas_quote_attempts :: "env \<Rightarrow> nat" where
  "gas_quote_attempts env = env_usize env ''GAS_QUOTE_RETRIES'' 3"

definition gas_quote_retry_delay :: "env \<Rightarrow> nat \<Rightarrow> duration" where
  "gas_quote_retry_delay env attempt =
     (let base_ms = word_of_nat (env_u64 env ''GAS_QUOTE_RETRY_DELAY_MS'' 150) :: u64;
          multiplier = push_bit (min (attempt - 1) 4) 1
      in from_millis (unat (sat_mul base_ms multiplier)))"

text \<open>The loop over attempts: the first success counts, the error of the last attempt is the loop's.\<close>

fun retried :: "(nat \<Rightarrow> 'e + 'a) \<Rightarrow> nat \<Rightarrow> nat \<Rightarrow> 'e + 'a" where
  "retried ask attempt 0 = ask attempt"
| "retried ask attempt (Suc left) = (case ask attempt of Inr a \<Rightarrow> Inr a | Inl e \<Rightarrow> retried ask (Suc attempt) left)"

definition fetch_gas_quote :: "'e rpc_call \<Rightarrow> ('e + decode_error) + u128 \<times> u128" where
  "fetch_gas_quote call =
     res_bind (gas_price call) (\<lambda>base.
       Inr (base, case max_priority_fee_per_gas call of Inr p \<Rightarrow> p | Inl e \<Rightarrow> base div 20))"

definition fetch_gas_quote_with_retry :: "env \<Rightarrow> (nat \<Rightarrow> 'e rpc_call) \<Rightarrow> ('e + decode_error) + u128 \<times> u128" where
  "fetch_gas_quote_with_retry env node = retried (\<lambda>attempt. fetch_gas_quote (node attempt)) 1 (gas_quote_attempts env - 1)"

definition eth_call_with_retry ::
  "env \<Rightarrow> alloy_text \<Rightarrow> (nat \<Rightarrow> 'e rpc_call) \<Rightarrow> address \<Rightarrow> u8 list \<Rightarrow> ('e + decode_error) + u8 list" where
  "eth_call_with_retry env al node callee calldata =
     retried (\<lambda>attempt. eth_call (node attempt) al callee None calldata ''latest'') 1 (gas_quote_attempts env - 1)"

record l1_fee_abi =
  l1_encode :: "u256 \<Rightarrow> u8 list"
  l1_decode :: "u8 list \<Rightarrow> string + u256"

definition estimate_l1_data_fee ::
  "env \<Rightarrow> alloy_text \<Rightarrow> l1_fee_abi \<Rightarrow> ('e + decode_error \<Rightarrow> string) \<Rightarrow> (nat \<Rightarrow> 'e rpc_call) \<Rightarrow> gas_tracker \<Rightarrow> nat \<Rightarrow> string + u256" where
  "estimate_l1_data_fee env al abi show_err node g calldata_len =
     (if gt_chain g \<noteq> Base then Inr 0
      else
        let overhead = env_usize_any env ''BASE_L1_FEE_TX_SIZE_OVERHEAD_BYTES'' 160;
            tx_size = min (calldata_len + overhead) (2 ^ 64 - 1);
            oracle = 0x420000000000000000000000000000000000000F
        in res_bind (map_sum show_err (\<lambda>raw. raw) (eth_call_with_retry env al node oracle (l1_encode abi (word_of_nat tx_size))))
             (l1_decode abi))"

section \<open>The quote\<close>

definition gas_ttl :: "env \<Rightarrow> duration" where
  "gas_ttl env = from_millis (env_u64 env ''GAS_QUOTE_CACHE_MS'' 1500)"

definition gas_stale_ttl :: "env \<Rightarrow> duration" where
  "gas_stale_ttl env = from_millis (env_u64 env ''GAS_QUOTE_STALE_CACHE_MS'' 30000)"

text \<open>The clock is read before the question (\<open>t1\<close>), after it failed (\<open>t2\<close>) and for the cache (\<open>t3\<close>). A cached
  price is used while it is young, and for longer when the node does not answer.\<close>

definition current_fees ::
  "env \<Rightarrow> ('e + decode_error \<Rightarrow> string) \<Rightarrow> (nat \<Rightarrow> 'e rpc_call) \<Rightarrow> instant \<Rightarrow> instant \<Rightarrow> instant \<Rightarrow> gas_tracker \<Rightarrow>
   (string + u128 \<times> u128) \<times> gas_tracker" where
  "current_fees env show_err node t1 t2 t3 g =
     (let ask = fetch_gas_quote_with_retry env node;
          keep = (\<lambda>(base, priority). g\<lparr>gt_cache := Some \<lparr>cg_fetched_at = t3, cg_base = base, cg_priority = priority\<rparr>\<rparr>)
      in case gt_cache g of
           Some cached \<Rightarrow>
             if t1 - cg_fetched_at cached \<le> gas_ttl env then (Inr (cg_base cached, cg_priority cached), g)
             else (case ask of
                     Inr fees \<Rightarrow> (Inr fees, keep fees)
                   | Inl e \<Rightarrow> if t2 - cg_fetched_at cached \<le> gas_stale_ttl env
                               then (Inr (cg_base cached, cg_priority cached), g) else (Inl (show_err e), g))
         | None \<Rightarrow> (case ask of Inr fees \<Rightarrow> (Inr fees, keep fees) | Inl e \<Rightarrow> (Inl (show_err e), g)))"

definition buffered_fee :: "f64 \<Rightarrow> u128 \<Rightarrow> u128 \<Rightarrow> u128" where
  "buffered_fee pct base priority = f64_to_u128 (f_mul (f64_of_word (sat_add base priority)) (f_add f_one pct))"

definition gas_quote_of :: "f64 \<Rightarrow> u64 \<Rightarrow> u128 \<Rightarrow> u128 \<Rightarrow> u256 \<Rightarrow> gas_quote" where
  "gas_quote_of pct gas_limit base priority l1_fee =
     (let buffered = buffered_fee pct base priority; l2_cost = u256_of buffered * ucast gas_limit
      in \<lparr>gq_max_fee_per_gas = buffered, gq_max_priority_fee_per_gas = min priority buffered,
          gq_l2_execution_cost_wei = l2_cost, gq_l1_data_fee_wei = l1_fee,
          gq_buffered_total_cost_wei = sat_add l2_cost l1_fee\<rparr>)"

definition quote_gas ::
  "env \<Rightarrow> alloy_text \<Rightarrow> l1_fee_abi \<Rightarrow> ('e + decode_error \<Rightarrow> string) \<Rightarrow> (nat \<Rightarrow> 'e rpc_call) \<Rightarrow> (nat \<Rightarrow> 'e rpc_call) \<Rightarrow>
   instant \<Rightarrow> instant \<Rightarrow> instant \<Rightarrow> gas_tracker \<Rightarrow> u64 \<Rightarrow> nat \<Rightarrow> (string + gas_quote) \<times> gas_tracker" where
  "quote_gas env al abi show_err node l1_node t1 t2 t3 g gas_limit calldata_len =
     (let (fees, g') = current_fees env show_err node t1 t2 t3 g
      in (res_bind fees (\<lambda>(base, priority).
            res_bind (estimate_l1_data_fee env al abi show_err l1_node g' calldata_len) (\<lambda>l1_fee.
              Inr (gas_quote_of (gt_risk_buffer_pct g') gas_limit base priority l1_fee))), g'))"

definition above_ceiling :: "gas_tracker \<Rightarrow> gas_quote \<Rightarrow> bool" where
  "above_ceiling g q \<longleftrightarrow> gt_ceiling_wei g < gq_max_fee_per_gas q"

section \<open>Facts\<close>

lemma retried_Inr_iff:
  "(\<exists>a. retried ask attempt left = Inr a) \<longleftrightarrow> (\<exists>k\<in>{attempt..attempt + left}. \<exists>a. ask k = Inr a)"
proof (induction left arbitrary: attempt)
  case (Suc left)
  have "{attempt..attempt + Suc left} = insert attempt {Suc attempt..Suc attempt + left}" by auto
  with Suc show ?case by (auto split: sum.splits)
qed simp

lemma retried_first:
  assumes "retried ask attempt left = Inr a"
  shows "\<exists>k. attempt \<le> k \<and> k \<le> attempt + left \<and> ask k = Inr a \<and> (\<forall>j. attempt \<le> j \<and> j < k \<longrightarrow> (\<exists>e. ask j = Inl e))"
  using assms
proof (induction left arbitrary: attempt)
  case (Suc left)
  show ?case
  proof (cases "ask attempt")
    case (Inl e)
    then obtain k where k: "Suc attempt \<le> k" "k \<le> Suc attempt + left" "ask k = Inr a"
        "\<forall>j. Suc attempt \<le> j \<and> j < k \<longrightarrow> (\<exists>e. ask j = Inl e)"
      using Suc.IH [of "Suc attempt"] Suc.prems by auto
    then have "\<exists>e. ask j = Inl e" if "attempt \<le> j" "j < k" for j using that Inl by (cases "j = attempt") auto
    with k show ?thesis by (intro exI [of _ k]) auto
  next
    case (Inr b)
    with Suc.prems show ?thesis by (intro exI [of _ attempt]) auto
  qed
qed auto

lemma no_l1_fee: "gt_chain g \<noteq> Base \<Longrightarrow> estimate_l1_data_fee env al abi show_err node g len = Inr 0"
  by (simp only: estimate_l1_data_fee_def not_False_eq_True if_True)

lemma len_256: "LENGTH(256) = 256"
  by simp

lemma gas_quote_of_sel:
  "gq_max_fee_per_gas (gas_quote_of pct gas base pr l1) = buffered_fee pct base pr"
  "gq_max_priority_fee_per_gas (gas_quote_of pct gas base pr l1) = min pr (buffered_fee pct base pr)"
  "gq_l2_execution_cost_wei (gas_quote_of pct gas base pr l1) = u256_of (buffered_fee pct base pr) * ucast gas"
  "gq_l1_data_fee_wei (gas_quote_of pct gas base pr l1) = l1"
  "gq_buffered_total_cost_wei (gas_quote_of pct gas base pr l1) = sat_add (u256_of (buffered_fee pct base pr) * ucast gas) l1"
  by (simp_all only: gas_quote_of_def Let_def gas_quote.simps)

lemma gas_quote_fees: "gq_max_priority_fee_per_gas (gas_quote_of pct gas base pr l1) \<le> gq_max_fee_per_gas (gas_quote_of pct gas base pr l1)"
  by (simp only: gas_quote_of_sel min.cobounded2)

lemma l2_cost_exact: "unat (u256_of b * ucast (g :: u64)) = unat b * unat g"
proof -
  have "unat b < 2 ^ 128" "unat g < 2 ^ 64" using unat_lt_size [of b] unat_lt_size [of g] by simp_all
  then have "unat b * unat g < 2 ^ 128 * 2 ^ 64" by (intro mult_strict_mono) simp_all
  then have "unat b * unat g < 2 ^ LENGTH(256)" by (rule less_le_trans) simp
  then have "unat (u256_of b) * unat (ucast g :: u256) < 2 ^ LENGTH(256)"
    unfolding unat_u256_of unat_ucast_up [of g, where 'b = 256, simplified] .
  from iffD1 [OF unat_mult_lem this] show ?thesis
    unfolding unat_u256_of unat_ucast_up [of g, where 'b = 256, simplified] .
qed

lemma quote_gas_shape:
  assumes "quote_gas env al abi show_err node l1_node t1 t2 t3 g gas_limit len = (Inr q, g')"
  shows "\<exists>base pr l1. q = gas_quote_of (gt_risk_buffer_pct g') gas_limit base pr l1 \<and>
    estimate_l1_data_fee env al abi show_err l1_node g' len = Inr l1 \<and> g' = snd (current_fees env show_err node t1 t2 t3 g)"
proof -
  obtain fees g2 where c: "current_fees env show_err node t1 t2 t3 g = (fees, g2)" by (cases "current_fees env show_err node t1 t2 t3 g")
  have r: "res_bind fees (\<lambda>(base, priority). res_bind (estimate_l1_data_fee env al abi show_err l1_node g2 len) (\<lambda>l1_fee.
        Inr (gas_quote_of (gt_risk_buffer_pct g2) gas_limit base priority l1_fee))) = Inr q" and g2: "g2 = g'"
    using assms unfolding quote_gas_def c Let_def split prod.inject by blast+
  obtain base pr where f: "fees = Inr (base, pr)" using r by (cases fees) auto
  obtain l1 where l1: "estimate_l1_data_fee env al abi show_err l1_node g2 len = Inr l1"
    using r unfolding f res_bind_simps split by (cases "estimate_l1_data_fee env al abi show_err l1_node g2 len") auto
  have "q = gas_quote_of (gt_risk_buffer_pct g2) gas_limit base pr l1"
    using r unfolding f res_bind_simps split l1 by blast
  then show ?thesis using l1 c unfolding g2 by (metis snd_conv)
qed

text \<open>a gas quote offers no higher a priority fee than its whole fee, its cost is the fee times the gas limit without
  overflow plus the L1 fee, and on another chain than Base the L1 fee is 0.\<close>

theorem gas_quote_adds_up:
  assumes "quote_gas env al abi show_err node l1_node t1 t2 t3 g gas_limit len = (Inr q, g')"
  shows "gq_max_priority_fee_per_gas q \<le> gq_max_fee_per_gas q \<and>
    unat (gq_l2_execution_cost_wei q) = unat (gq_max_fee_per_gas q) * unat gas_limit \<and>
    unat (gq_buffered_total_cost_wei q) =
      min (unat (gq_l2_execution_cost_wei q) + unat (gq_l1_data_fee_wei q)) (2 ^ 256 - 1) \<and>
    (gt_chain g \<noteq> Base \<longrightarrow> gq_l1_data_fee_wei q = 0)"
proof -
  obtain base pr l1 where q: "q = gas_quote_of (gt_risk_buffer_pct g') gas_limit base pr l1"
      and l1: "estimate_l1_data_fee env al abi show_err l1_node g' len = Inr l1"
      and g': "g' = snd (current_fees env show_err node t1 t2 t3 g)"
    using quote_gas_shape [OF assms] by blast
  have "gt_chain g' = gt_chain g"
    unfolding g' by (auto simp: current_fees_def Let_def split: option.splits sum.splits prod.splits)
  then have "gt_chain g \<noteq> Base \<longrightarrow> l1 = 0" using l1 no_l1_fee [of g'] by (metis sum.inject(2))
  moreover have "gq_max_priority_fee_per_gas q \<le> gq_max_fee_per_gas q" unfolding q by (rule gas_quote_fees)
  moreover have "unat (gq_l2_execution_cost_wei q) = unat (gq_max_fee_per_gas q) * unat gas_limit"
    unfolding q gas_quote_of_sel by (rule l2_cost_exact)
  moreover have "unat (gq_buffered_total_cost_wei q) =
      min (unat (gq_l2_execution_cost_wei q) + unat (gq_l1_data_fee_wei q)) (2 ^ 256 - 1)"
    unfolding q gas_quote_of_sel unat_sat_add by (simp only: len_256)
  ultimately show ?thesis unfolding q gas_quote_of_sel by blast
qed

definition young_cache :: "u128 \<Rightarrow> gas_tracker" where
  "young_cache base =
     \<lparr>gt_chain = Polygon, gt_ceiling_wei = 100, gt_risk_buffer_pct = f_zero,
      gt_cache = Some \<lparr>cg_fetched_at = 0, cg_base = base, cg_priority = 3\<rparr>\<rparr>"

lemma young_quote:
  "quote_gas env al abi show_err node l1_node 0 t2 t3 (young_cache 1) 21000 len =
     (Inr (gas_quote_of f_zero 21000 1 3 0), young_cache 1)"
  by (simp add: quote_gas_def current_fees_def young_cache_def estimate_l1_data_fee_def Let_def)

theorem gas_quote_adds_up_witness:
  "\<forall>env al abi show_err. \<forall>node :: nat \<Rightarrow> string rpc_call. \<exists>q.
     quote_gas env al abi show_err node node 0 0 0 (young_cache 1) 21000 100 = (Inr q, young_cache 1) \<and>
     unat (gq_l2_execution_cost_wei q) = unat (gq_max_fee_per_gas q) * 21000 \<and> gq_l1_data_fee_wei q = 0"
proof (intro allI exI conjI)
  fix env :: env and al :: alloy_text and abi :: l1_fee_abi and show_err :: "string + decode_error \<Rightarrow> string"
    and node :: "nat \<Rightarrow> string rpc_call"
  let ?q = "gas_quote_of f_zero 21000 1 3 0"
  show e: "quote_gas env al abi show_err node node 0 0 0 (young_cache 1) 21000 100 = (Inr ?q, young_cache 1)" by (rule young_quote)
  from gas_quote_adds_up [OF e] show "unat (gq_l2_execution_cost_wei ?q) = unat (gq_max_fee_per_gas ?q) * 21000"
      and "gq_l1_data_fee_wei ?q = 0"
    by (simp_all add: young_cache_def)
qed

text \<open>the price of gas is unavailable exactly when every attempt to ask for the base fee failed and no price
  is cached that is young enough, or that was young enough to outlive an outage after the last failure.\<close>

theorem gas_price_unavailable_iff:
  "(\<exists>e. fst (current_fees env show_err node t1 t2 t3 g) = Inl e) \<longleftrightarrow>
     (\<forall>k\<in>{1..gas_quote_attempts env}. \<exists>e. gas_price (node k) = Inl e) \<and>
     (\<forall>c. gt_cache g = Some c \<longrightarrow> gas_ttl env < t1 - cg_fetched_at c \<and> gas_stale_ttl env < t2 - cg_fetched_at c)"
proof -
  have pos: "0 < gas_quote_attempts env" unfolding gas_quote_attempts_def by (rule env_usize_pos) simp
  have ask: "(\<exists>a. fetch_gas_quote (node k) = Inr a) \<longleftrightarrow> (\<exists>p. gas_price (node k) = Inr p)" for k
    by (cases "gas_price (node k)") (simp_all add: fetch_gas_quote_def)
  have "(\<exists>a. fetch_gas_quote_with_retry env node = Inr a) \<longleftrightarrow> (\<exists>k\<in>{1..gas_quote_attempts env}. \<exists>p. gas_price (node k) = Inr p)"
    unfolding fetch_gas_quote_with_retry_def retried_Inr_iff ask using pos by simp
  moreover have "(\<exists>e. r = Inl e) \<longleftrightarrow> \<not> (\<exists>a. r = Inr a)" for r :: "'x + 'y" by (cases r) auto
  ultimately have fails: "(\<exists>e. fetch_gas_quote_with_retry env node = Inl e) \<longleftrightarrow>
      (\<forall>k\<in>{1..gas_quote_attempts env}. \<exists>e. gas_price (node k) = Inl e)"
    by (metis (no_types, lifting) sum.exhaust sum.distinct(1))
  show ?thesis unfolding fails [symmetric]
    by (auto simp: current_fees_def Let_def not_le split: option.splits sum.splits)
qed

theorem gas_price_unavailable_iff_witness:
  "\<exists>e. fst (current_fees (\<lambda>_. None) (\<lambda>_. ''down'') (\<lambda>k method params. Inl ''down'') 40000000000 40000000000 0 (young_cache 1)) = Inl e"
  using gas_price_unavailable_iff [of "\<lambda>_. None" "\<lambda>_. ''down''" "\<lambda>k method params. Inl ''down''" 40000000000 40000000000 0 "young_cache 1"]
  by (simp add: gas_price_def decoded_def young_cache_def gas_ttl_def gas_stale_ttl_def env_u64_def filter_opt_def)

end
