(* ===== verification/Simulation.thy ===== *)
theory Simulation
  imports Failure_Cache Gas_Tracker
begin

text \<open>
  The simulation gate in \<open>src/execution/validator.rs\<close>: the request sent to the node and the reading of its answer.
  \<open>call\<close> is the RPC client; texts of addresses and byte strings are those of \<open>alloy_text\<close>.
\<close>

record simulation_outcome =
  sim_success :: bool
  sim_reason :: "string option"

definition sim_failed :: "string \<Rightarrow> simulation_outcome" where
  "sim_failed reason = \<lparr>sim_success = False, sim_reason = Some reason\<rparr>"

definition sim_plain :: "bool \<Rightarrow> simulation_outcome" where
  "sim_plain success = \<lparr>sim_success = success, sim_reason = None\<rparr>"

section \<open>Reading an answer\<close>

definition get_str :: "string \<Rightarrow> json \<Rightarrow> string option" where
  "get_str k v = Option.bind (json_get k v) as_str"

fun is_object :: "json \<Rightarrow> bool" where
  "is_object (JObj members) = True"
| "is_object v = False"

fun as_bool :: "json \<Rightarrow> bool option" where
  "as_bool (JBool b) = Some b"
| "as_bool v = None"

text \<open>Each reader gives an outcome or leaves the answer to the next one.\<close>

definition status_outcome :: "string \<Rightarrow> simulation_outcome" where
  "status_outcome status =
     (let good = status = ''0x1'' \<or> status = ''1'' in
      \<lparr>sim_success = good, sim_reason = (if good then None else Some ''eth_simulateV1 status 0x0'')\<rparr>)"

definition gas_used_outcome :: "json \<Rightarrow> simulation_outcome option" where
  "gas_used_outcome v = (if json_get ''gasUsed'' v \<noteq> None then Some (sim_plain True) else None)"

definition call_error_outcome :: "json \<Rightarrow> simulation_outcome option" where
  "call_error_outcome call =
     (case get_str ''error'' call of Some error \<Rightarrow> if error \<noteq> [] then Some (sim_failed error) else None | None \<Rightarrow> None)"

definition call_outcome :: "json \<Rightarrow> simulation_outcome option" where
  "call_outcome call =
     opt_or (call_error_outcome call)
       (opt_or (map_option status_outcome (get_str ''status'' call)) (gas_used_outcome call))"

definition calls_outcome :: "json \<Rightarrow> simulation_outcome option" where
  "calls_outcome block =
     (case Option.bind (json_get ''calls'' block) as_array of
        None \<Rightarrow> None
      | Some [] \<Rightarrow> Some (sim_failed ''eth_simulateV1 returned no calls'')
      | Some (call # calls) \<Rightarrow> call_outcome call)"

definition error_object_outcome :: "json \<Rightarrow> simulation_outcome option" where
  "error_object_outcome v =
     (case json_get ''error'' v of
        Some error \<Rightarrow>
          if is_object error then Some (sim_failed (unwrap_or (get_str ''message'' error) ''unknown error'')) else None
      | None \<Rightarrow> None)"

definition revert_outcome :: "json \<Rightarrow> simulation_outcome option" where
  "revert_outcome v =
     (case get_str ''revertReason'' v of Some reason \<Rightarrow> if reason \<noteq> [] then Some (sim_failed reason) else None | None \<Rightarrow> None)"

definition success_outcome :: "json \<Rightarrow> simulation_outcome option" where
  "success_outcome v = map_option (\<lambda>success. sim_plain (unwrap_or (as_bool success) False)) (json_get ''success'' v)"

definition array_outcome :: "json \<Rightarrow> simulation_outcome option" where
  "array_outcome result =
     (case as_array result of
        Some (block # blocks) \<Rightarrow>
          opt_or (calls_outcome block) (opt_or (error_object_outcome block) (opt_or (revert_outcome block)
            (opt_or (success_outcome block) (gas_used_outcome block))))
      | _ \<Rightarrow> None)"

definition object_outcome :: "json \<Rightarrow> simulation_outcome option" where
  "object_outcome result =
     (if is_object result
      then opt_or (error_object_outcome result) (opt_or (success_outcome result) (gas_used_outcome result)) else None)"

definition parse_simulation_result :: "json \<Rightarrow> simulation_outcome" where
  "parse_simulation_result result =
     unwrap_or (opt_or (array_outcome result) (object_outcome result)) (sim_failed ''unknown simulation result'')"

definition parse_call_return_data :: "u8 list \<Rightarrow> bool" where
  "parse_call_return_data dat = (dat = [] \<or> (32 \<le> length dat \<and> dat ! (length dat - 1) = 1))"

section \<open>Asking\<close>

text \<open>\<open>format!("0x{:x}")\<close> of a 128-bit number.\<close>

definition quantity_u128 :: "u128 \<Rightarrow> string" where
  "quantity_u128 n = ''0x'' @ hex_of (unat n)"

definition custom_simulation_params :: "alloy_text \<Rightarrow> string \<Rightarrow> address \<Rightarrow> address \<Rightarrow> u8 list \<Rightarrow> gas_quote \<Rightarrow> json" where
  "custom_simulation_params al method executor operator calldata q =
     (let call = JObj
        [(''from'', JStr (at_show_address al operator)), (''to'', JStr (at_show_address al executor)),
         (''data'', JStr (at_show_bytes al calldata)),
         (''maxFeePerGas'', JStr (quantity_u128 (gq_max_fee_per_gas q))),
         (''maxPriorityFeePerGas'', JStr (quantity_u128 (gq_max_priority_fee_per_gas q)))]
      in if method = ''eth_simulateV1''
         then JArr
           [JObj
             [(''blockStateCalls'', JArr [JObj [(''calls'', JArr [call]), (''stateOverrides'', JObj [])]]),
              (''traceTransfers'', JBool False), (''validation'', JBool False)],
            JStr ''pending'']
         else JArr [call])"

definition simulate ::
  "alloy_text \<Rightarrow> ('e + decode_error \<Rightarrow> string) \<Rightarrow> 'e rpc_call \<Rightarrow> string \<Rightarrow> address \<Rightarrow> address \<Rightarrow> u8 list \<Rightarrow> gas_quote \<Rightarrow>
   simulation_outcome" where
  "simulate al show_err call method executor operator calldata q =
     (if method \<noteq> ''eth_call'' then
        (case call method (custom_simulation_params al method executor operator calldata q) of
           Inr result \<Rightarrow> parse_simulation_result result
         | Inl e \<Rightarrow> sim_failed (show_err (Inl e)))
      else
        (case eth_call call al executor (Some operator) calldata ''pending'' of
           Inr return_data \<Rightarrow> sim_plain (parse_call_return_data return_data)
         | Inl e \<Rightarrow> sim_failed (show_err e)))"

section \<open>Facts\<close>

lemma opt_or_Some [simp]: "opt_or a b = Some x \<longleftrightarrow> a = Some x \<or> (a = None \<and> b = Some x)"
  by (auto simp: opt_or_def split: option.splits)

lemma opt_or_None [simp]: "opt_or a b = None \<longleftrightarrow> a = None \<and> b = None"
  by (auto simp: opt_or_def split: option.splits)

lemma sim_sel [simp]:
  "sim_success (sim_failed r) = False" "sim_reason (sim_failed r) = Some r"
  "sim_success (sim_plain b) = b" "sim_reason (sim_plain b) = None"
  by (simp_all add: sim_failed_def sim_plain_def)

text \<open>The answer of a node to \<open>eth_simulateV1\<close>: blocks of calls, each with a status and, when it failed, an error object.\<close>

definition simulated_call :: "(string \<times> json) list \<Rightarrow> json" where
  "simulated_call members = JArr [JObj [(''calls'', JArr [JObj members])]]"

definition error_object :: "string \<Rightarrow> json" where
  "error_object message = JObj [(''code'', JNum ''3''), (''message'', JStr message)]"

lemma parse_simulated_call:
  assumes "call_outcome (JObj members) = Some r"
  shows "parse_simulation_result (simulated_call members) = r"
  using assms by (simp add: parse_simulation_result_def array_outcome_def calls_outcome_def simulated_call_def opt_or_def)

text \<open>the error object of a failed call is not read, whatever it says: the reason of the failure is always
  \<open>eth_simulateV1 status 0x0\<close>, so the failure is of the class that blocks nothing but the route, never a slippage or
  a failed transfer.\<close>

theorem simulated_error_object_ignored:
  "parse_simulation_result (simulated_call [(''status'', JStr ''0x0''), (''error'', error_object message)]) =
     sim_failed ''eth_simulateV1 status 0x0'' \<and>
   failure_class_from_reason ''eth_simulateV1 status 0x0'' = FC_Other"
proof
  show "parse_simulation_result (simulated_call [(''status'', JStr ''0x0''), (''error'', error_object message)]) =
      sim_failed ''eth_simulateV1 status 0x0''"
    by (rule parse_simulated_call)
      (simp add: call_outcome_def call_error_outcome_def get_str_def error_object_def status_outcome_def sim_failed_def opt_or_def)
  show "failure_class_from_reason ''eth_simulateV1 status 0x0'' = FC_Other" by code_simp
qed

text \<open>Which answers count as a success.\<close>

definition call_reports_success :: "json \<Rightarrow> bool" where
  "call_reports_success call \<longleftrightarrow>
     (\<forall>e. get_str ''error'' call = Some e \<longrightarrow> e = []) \<and>
     (case get_str ''status'' call of Some s \<Rightarrow> s \<in> {''0x1'', ''1''} | None \<Rightarrow> json_get ''gasUsed'' call \<noteq> None)"

lemma call_outcome_success: "(\<exists>o'. call_outcome call = Some o' \<and> sim_success o') \<longleftrightarrow> call_reports_success call"
  by (cases "get_str ''error'' call"; cases "get_str ''status'' call")
    (auto simp: call_outcome_def call_error_outcome_def call_reports_success_def status_outcome_def gas_used_outcome_def
      Let_def split: if_splits)


text \<open>A node that leaves out the status has its error object pass as a success once it names the gas.\<close>

lemma error_object_passes_without_status:
  "sim_success (parse_simulation_result (simulated_call [(''error'', error_object message), (''gasUsed'', JStr gas)]))"
proof -
  have "call_outcome (JObj [(''error'', error_object message), (''gasUsed'', JStr gas)]) = Some (sim_plain True)"
    by (simp add: call_outcome_def call_error_outcome_def get_str_def error_object_def gas_used_outcome_def opt_or_def)
  then show ?thesis by (simp only: parse_simulated_call sim_sel)
qed

end
