(* ===== verification/Validator.thy ===== *)
theory Validator
  imports Capital Tx_Builder Simulation
begin

text \<open>
  \<open>Validator::prepare\<close> of \<open>src/execution/validator.rs\<close>: a routed plan is funded, priced, checked against the profit
  threshold and simulated; what comes out is ready to be submitted. What the outside answers during one preparation is a
  record of answers and clock readings; the capital selector, the gas tracker and the failure cache are the state.
\<close>

record validator =
  va_settings :: settings
  va_gas :: gas_tracker
  va_capital :: capital_selector
  va_failures :: failure_cache

definition validator_new :: "env \<Rightarrow> settings \<Rightarrow> validator" where
  "validator_new env s =
     \<lparr>va_settings = s, va_gas = gas_tracker_new s, va_capital = capital_selector_new, va_failures = failure_cache_from_env env\<rparr>"

text \<open>Code outside of the repository: texts, the ABI, the signer.\<close>

record 'e libraries =
  li_text :: alloy_text
  li_l1_abi :: l1_fee_abi
  li_show_err :: "'e + decode_error \<Rightarrow> string"
  li_abi_encode :: "executor_call \<Rightarrow> u8 list"
  li_signer :: "string \<Rightarrow> string + address"

record 'e answers =
  an_balance_at :: instant
  an_balance_of :: "address \<Rightarrow> address \<Rightarrow> string + u256"
  an_checked_at :: instant
  an_unix_secs :: u64
  an_estimate :: "'e rpc_call"
  an_gas_node :: "nat \<Rightarrow> 'e rpc_call"
  an_l1_node :: "nat \<Rightarrow> 'e rpc_call"
  an_gas_times :: "instant \<times> instant \<times> instant"
  an_simulator :: "'e rpc_call"
  an_recorded_at :: "instant \<times> instant"

section \<open>Steps\<close>

definition adjusted_static_gas_limit :: "env \<Rightarrow> u64 \<Rightarrow> capital_source \<Rightarrow> u64" where
  "adjusted_static_gas_limit env base source =
     (let flash_overhead = word_of_nat (env_usize_any env ''FLASH_LOAN_GAS_OVERHEAD'' 180000);
          buffer_bps = word_of_nat (env_usize_any env ''STATIC_GAS_LIMIT_BUFFER_BPS'' 2000);
          with_overhead = (case source of SelfFunded \<Rightarrow> base | _ \<Rightarrow> sat_add base flash_overhead)
      in sat_mul with_overhead (sat_add 10000 buffer_bps) div 10000)"

definition apply_choice :: "capital_choice \<Rightarrow> exact_plan \<Rightarrow> exact_plan" where
  "apply_choice choice plan =
     plan\<lparr>xp_capital_source := cc_source choice, xp_flash_loan_amount := cc_loan_amount_raw choice,
          xp_flash_fee_raw := cc_flash_fee_raw choice, xp_actual_flash_fee_raw := cc_actual_flash_fee_raw choice,
          xp_net_profit_before_gas_raw := cc_net_profit_before_gas_raw choice\<rparr>"

definition set_contract_min_profit :: "settings \<Rightarrow> exact_plan \<Rightarrow> exact_plan" where
  "set_contract_min_profit s plan =
     plan\<lparr>xp_contract_min_profit_raw :=
       calculate_contract_min_profit_raw (xp_net_profit_before_gas_raw plan) (rk_min_profit_realization_bps (st_risk s))\<rparr>"

definition deadline_of :: "u64 \<Rightarrow> u64" where
  "deadline_of unix_secs = unix_secs + 30"

definition native_gas_pricing :: "settings \<Rightarrow> graph_snapshot \<Rightarrow> (string \<times> u64 \<times> u8) option" where
  "native_gas_pricing s snapshot =
     Option.bind (find (\<lambda>t. eq_ignore_ascii_case (t_symbol t) (wrapped_native_symbol (st_chain s))) (gs_tokens snapshot))
       (\<lambda>t. map_option (\<lambda>price. (t_symbol t, price, t_decimals t)) (t_manual_price_usd_e8 t))"

definition gas_estimate_of :: "env \<Rightarrow> 'e libraries \<Rightarrow> 'e rpc_call \<Rightarrow> address \<Rightarrow> address \<Rightarrow> u8 list \<Rightarrow> u64 \<Rightarrow> u64" where
  "gas_estimate_of env li call executor operator calldata static_limit =
     (if env_bool_set env ''USE_GAS_ESTIMATE_RPC'' False then
        (case estimate_gas call (li_text li) executor (Some operator) calldata of
           Inr remote \<Rightarrow> max remote static_limit | Inl e \<Rightarrow> static_limit)
      else static_limit)"

text \<open>\<open>i128::try_from\<close> of a 128-bit number.\<close>

definition i128_of_u128 :: "u128 \<Rightarrow> i128 option" where
  "i128_of_u128 a = (if uint a \<le> i128_max then Some (uint a) else None)"

definition usd_of :: "u128 \<Rightarrow> token_info \<Rightarrow> i128 option" where
  "usd_of amount token = Option.bind (amount_to_usd_e8 amount token) i128_of_u128"

text \<open>The dollar values of a plan; the differences wrap.\<close>

definition value_plan :: "settings \<Rightarrow> graph_snapshot \<Rightarrow> token_info \<Rightarrow> gas_quote \<Rightarrow> exact_plan \<Rightarrow> exact_plan option" where
  "value_plan s snapshot token q plan =
     Option.bind (usd_of (as_u128 \<bar>xp_gross_profit_raw plan\<bar>) token) (\<lambda>gross_abs.
     Option.bind (usd_of (xp_flash_fee_raw plan) token) (\<lambda>flash_fee.
     Option.bind (usd_of (xp_actual_flash_fee_raw plan) token) (\<lambda>actual_flash_fee.
     Option.bind (amount_to_usd_e8 (xp_flash_loan_amount plan) token) (\<lambda>loan_value.
     Option.bind (native_gas_pricing s snapshot) (\<lambda>(symbol, price, decimals).
     Option.bind (native_gas_to_usd_e8 (gq_buffered_total_cost_wei q) price decimals) (\<lambda>gas.
     Option.bind (i128_of_u128 gas) (\<lambda>gas_cost.
       let gross = (if 0 \<le> xp_gross_profit_raw plan then gross_abs else - gross_abs) in
       Some (plan\<lparr>xp_gross_profit_usd_e8 := gross, xp_flash_fee_usd_e8 := flash_fee,
         xp_actual_flash_fee_usd_e8 := actual_flash_fee, xp_flash_loan_value_usd_e8 := loan_value,
         xp_gas_cost_usd_e8 := gas_cost,
         xp_net_profit_usd_e8 := wrap_i128 (wrap_i128 (gross - actual_flash_fee) - gas_cost)\<rparr>))))))))"

definition finish_plan ::
  "gas_quote \<Rightarrow> u64 \<Rightarrow> u8 list \<Rightarrow> u64 \<Rightarrow> exact_plan \<Rightarrow> executable_plan" where
  "finish_plan q gas_estimate calldata deadline plan =
     \<lparr>ex_exact = plan\<lparr>xp_gas_limit := gas_estimate, xp_gas_l2_execution_cost_wei := gq_l2_execution_cost_wei q,
        xp_gas_l1_data_fee_wei := gq_l1_data_fee_wei q, xp_gas_cost_wei := gq_buffered_total_cost_wei q\<rparr>,
      ex_calldata = calldata, ex_max_fee_per_gas = gq_max_fee_per_gas q,
      ex_max_priority_fee_per_gas = gq_max_priority_fee_per_gas q, ex_nonce = 0, ex_deadline_unix = deadline\<rparr>"

section \<open>The preparation\<close>

type_synonym prepared = "(string + executable_plan option) \<times> validator"

text \<open>Steps 6 to 8: the final call is simulated; a failure is remembered.\<close>

definition simulate_plan ::
  "'e libraries \<Rightarrow> 'e answers \<Rightarrow> address \<Rightarrow> address \<Rightarrow> u64 \<Rightarrow> u64 \<Rightarrow> gas_quote \<Rightarrow> exact_plan \<Rightarrow> validator \<Rightarrow> prepared" where
  "simulate_plan li an executor operator deadline gas_estimate q plan v =
     (let plan = set_contract_min_profit (va_settings v) plan;
          calldata = build_calldata (li_abi_encode li) plan deadline;
          simulation = simulate (li_text li) (li_show_err li) (an_simulator an)
            (rp_simulate_method (st_rpc (va_settings v))) executor operator calldata q
      in if \<not> sim_success simulation then
           (Inr None,
            (case sim_reason simulation of
               Some reason \<Rightarrow> v\<lparr>va_failures := record_failure (at_show_address (li_text li)) (fst (an_recorded_at an))
                 (snd (an_recorded_at an)) plan reason (va_failures v)\<rparr>
             | None \<Rightarrow> v))
         else (Inr (Some (finish_plan q gas_estimate calldata deadline plan)), v))"

text \<open>Steps 3 to 5: the gas is priced, everything is valued in dollars, the threshold is checked.\<close>

definition price_plan ::
  "env \<Rightarrow> 'e libraries \<Rightarrow> 'e answers \<Rightarrow> graph_snapshot \<Rightarrow> token_info \<Rightarrow> exact_plan \<Rightarrow> validator \<Rightarrow> prepared" where
  "price_plan env li an snapshot token plan v =
     (let s = va_settings v; deadline = deadline_of (an_unix_secs an);
          calldata = build_calldata (li_abi_encode li) plan deadline in
      case tx_executor_address s of Inl e \<Rightarrow> (Inl e, v) | Inr executor \<Rightarrow>
      case operator_address (li_signer li) s of Inl e \<Rightarrow> (Inl e, v) | Inr operator \<Rightarrow>
        let static_limit = adjusted_static_gas_limit env (xp_gas_limit plan) (xp_capital_source plan);
            gas_estimate = gas_estimate_of env li (an_estimate an) executor operator calldata static_limit;
            (t1, t2, t3) = an_gas_times an;
            (quote, gas) = quote_gas env (li_text li) (li_l1_abi li) (li_show_err li) (an_gas_node an) (an_l1_node an)
              t1 t2 t3 (va_gas v) gas_estimate (length calldata);
            v = v\<lparr>va_gas := gas\<rparr>
        in case quote of Inl e \<Rightarrow> (Inl e, v) | Inr q \<Rightarrow>
           if above_ceiling (va_gas v) q then (Inr None, v)
           else case value_plan s snapshot token q plan of None \<Rightarrow> (Inr None, v) | Some plan \<Rightarrow>
             if xp_net_profit_usd_e8 plan < as_i128 (rk_min_net_profit_usd_e8 (st_risk s)) then (Inr None, v)
             else simulate_plan li an executor operator deadline gas_estimate q plan v)"

text \<open>The token and the capital come first, then the failure cache and the contract's own minimum.\<close>

definition check_plan ::
  "env \<Rightarrow> 'e libraries \<Rightarrow> 'e answers \<Rightarrow> graph_snapshot \<Rightarrow> token_info \<Rightarrow> exact_plan \<Rightarrow> validator \<Rightarrow> prepared" where
  "check_plan env li an snapshot token plan v =
     (let (skip, failures) = skip_reason (at_show_address (li_text li)) (an_checked_at an) plan (va_failures v);
          v = v\<lparr>va_failures := failures\<rparr>
      in if skip \<noteq> None then (Inr None, v)
         else
           let plan = set_contract_min_profit (va_settings v) plan
           in if xp_contract_min_profit_raw plan = 0 then (Inr None, v) else price_plan env li an snapshot token plan v)"

definition prepare_plan ::
  "env \<Rightarrow> 'e libraries \<Rightarrow> 'e answers \<Rightarrow> graph_snapshot \<Rightarrow> exact_plan \<Rightarrow> validator \<Rightarrow> prepared" where
  "prepare_plan env li an snapshot plan v =
     (case find (\<lambda>t. t_address t = xp_input_token plan) (gs_tokens snapshot) of None \<Rightarrow> (Inr None, v) | Some token \<Rightarrow>
      case amount_to_usd_e8 (xp_input_amount plan) token of None \<Rightarrow> (Inr None, v) | Some input_value \<Rightarrow>
        let plan = plan\<lparr>xp_input_value_usd_e8 := input_value\<rparr>;
            (choice, capital) = choose_capital env (va_settings v) (an_balance_at an) (an_balance_of an) plan token (va_capital v);
            v = v\<lparr>va_capital := capital\<rparr>
        in case choice of None \<Rightarrow> (Inr None, v) | Some choice \<Rightarrow>
             check_plan env li an snapshot token (apply_choice choice plan) v)"


section \<open>What a prepared plan guarantees\<close>

definition configured :: "settings \<Rightarrow> validator \<Rightarrow> bool" where
  "configured s v \<longleftrightarrow>
     va_settings v = s \<and> gt_ceiling_wei (va_gas v) = rk_gas_price_ceiling_wei (st_risk s) \<and> gt_chain (va_gas v) = st_chain s"

lemma configured_new: "configured s (validator_new env s)"
  by (simp add: configured_def validator_new_def gas_tracker_new_def)

text \<open>The funding and the accounts of a plan ready to be sent.\<close>

definition funded_soundly :: "settings \<Rightarrow> exact_plan \<Rightarrow> bool" where
  "funded_soundly s p \<longleftrightarrow>
     source_fits (xp_capital_source p) (xp_flash_loan_amount p) (xp_input_amount p) \<and>
     xp_net_profit_before_gas_raw p =
       calculate_net_profit_before_gas_raw (xp_input_amount p) (xp_output_amount p) (xp_actual_flash_fee_raw p) \<and>
     0 < xp_net_profit_before_gas_raw p \<and>
     xp_contract_min_profit_raw p =
       calculate_contract_min_profit_raw (xp_net_profit_before_gas_raw p) (rk_min_profit_realization_bps (st_risk s)) \<and>
     0 < xp_contract_min_profit_raw p"

definition profitable :: "settings \<Rightarrow> exact_plan \<Rightarrow> bool" where
  "profitable s p \<longleftrightarrow>
     xp_net_profit_usd_e8 p = wrap_i128 (wrap_i128 (xp_gross_profit_usd_e8 p - xp_actual_flash_fee_usd_e8 p) - xp_gas_cost_usd_e8 p) \<and>
     0 \<le> xp_gas_cost_usd_e8 p \<and> as_i128 (rk_min_net_profit_usd_e8 (st_risk s)) \<le> xp_net_profit_usd_e8 p"

definition priced :: "settings \<Rightarrow> executable_plan \<Rightarrow> bool" where
  "priced s ex \<longleftrightarrow>
     ex_max_fee_per_gas ex \<le> rk_gas_price_ceiling_wei (st_risk s) \<and> ex_max_priority_fee_per_gas ex \<le> ex_max_fee_per_gas ex \<and>
     unat (xp_gas_l2_execution_cost_wei (ex_exact ex)) = unat (ex_max_fee_per_gas ex) * unat (xp_gas_limit (ex_exact ex))"

text \<open>The call that was simulated is the call of the plan.\<close>

definition simulated :: "'e libraries \<Rightarrow> 'e answers \<Rightarrow> settings \<Rightarrow> executable_plan \<Rightarrow> bool" where
  "simulated li an s ex \<longleftrightarrow>
     ex_calldata ex = build_calldata (li_abi_encode li) (ex_exact ex) (ex_deadline_unix ex) \<and>
     (\<exists>executor operator q. tx_executor_address s = Inr executor \<and> operator_address (li_signer li) s = Inr operator \<and>
        gq_max_fee_per_gas q = ex_max_fee_per_gas ex \<and>
        sim_success (simulate (li_text li) (li_show_err li) (an_simulator an) (rp_simulate_method (st_rpc s)) executor operator
          (ex_calldata ex) q))"

lemma simulate_plan_facts:
  assumes "simulate_plan li an executor operator deadline est q plan v = (Inr (Some ex), v')"
  shows "ex = finish_plan q est (build_calldata (li_abi_encode li) (set_contract_min_profit (va_settings v) plan) deadline) deadline
      (set_contract_min_profit (va_settings v) plan) \<and> v' = v \<and>
    sim_success (simulate (li_text li) (li_show_err li) (an_simulator an) (rp_simulate_method (st_rpc (va_settings v)))
      executor operator (ex_calldata ex) q)"
  using assms by (auto simp: simulate_plan_def Let_def finish_plan_def split: if_splits)

lemma price_plan_facts:
  assumes "price_plan env li an snapshot token plan v = (Inr (Some ex), v')"
  shows "\<exists>executor operator est q plan' gas t1 t2 t3.
    tx_executor_address (va_settings v) = Inr executor \<and> operator_address (li_signer li) (va_settings v) = Inr operator \<and>
    quote_gas env (li_text li) (li_l1_abi li) (li_show_err li) (an_gas_node an) (an_l1_node an) t1 t2 t3 (va_gas v) est
      (length (build_calldata (li_abi_encode li) plan (deadline_of (an_unix_secs an)))) = (Inr q, gas) \<and>
    \<not> above_ceiling gas q \<and> value_plan (va_settings v) snapshot token q plan = Some plan' \<and>
    as_i128 (rk_min_net_profit_usd_e8 (st_risk (va_settings v))) \<le> xp_net_profit_usd_e8 plan' \<and>
    simulate_plan li an executor operator (deadline_of (an_unix_secs an)) est q plan' (v\<lparr>va_gas := gas\<rparr>) = (Inr (Some ex), v')"
proof -
  obtain t1 t2 t3 where t: "an_gas_times an = (t1, t2, t3)" by (cases "an_gas_times an")
  obtain executor where e: "tx_executor_address (va_settings v) = Inr executor"
    using assms unfolding price_plan_def Let_def by (cases "tx_executor_address (va_settings v)") auto
  obtain operator where p: "operator_address (li_signer li) (va_settings v) = Inr operator"
    using assms unfolding price_plan_def Let_def e by (cases "operator_address (li_signer li) (va_settings v)") auto
  define est where "est = gas_estimate_of env li (an_estimate an) executor operator
    (build_calldata (li_abi_encode li) plan (deadline_of (an_unix_secs an)))
    (adjusted_static_gas_limit env (xp_gas_limit plan) (xp_capital_source plan))"
  obtain quote gas where g: "quote_gas env (li_text li) (li_l1_abi li) (li_show_err li) (an_gas_node an) (an_l1_node an) t1 t2 t3
      (va_gas v) est (length (build_calldata (li_abi_encode li) plan (deadline_of (an_unix_secs an)))) = (quote, gas)"
    by (cases "quote_gas env (li_text li) (li_l1_abi li) (li_show_err li) (an_gas_node an) (an_l1_node an) t1 t2 t3
      (va_gas v) est (length (build_calldata (li_abi_encode li) plan (deadline_of (an_unix_secs an))))")
  note body = assms [unfolded price_plan_def Let_def e p t, unfolded sum.case split, folded est_def, unfolded g split]
  obtain q where q: "quote = Inr q" using body by (cases quote) auto
  note body = body [unfolded q sum.case]
  have c: "\<not> above_ceiling gas q" using body by (auto split: if_splits)
  obtain plan' where v: "value_plan (va_settings v) snapshot token q plan = Some plan'"
    using body c by (cases "value_plan (va_settings v) snapshot token q plan") auto
  have n: "as_i128 (rk_min_net_profit_usd_e8 (st_risk (va_settings v))) \<le> xp_net_profit_usd_e8 plan'"
    and sim: "simulate_plan li an executor operator (deadline_of (an_unix_secs an)) est q plan' (v\<lparr>va_gas := gas\<rparr>) = (Inr (Some ex), v')"
    using body c v by (auto split: if_splits)
  show ?thesis by (intro exI conjI) (rule e p g [unfolded q] c v n sim)+
qed

lemma i128_of_u128_nonneg: "i128_of_u128 a = Some x \<Longrightarrow> 0 \<le> x"
  by (auto simp: i128_of_u128_def split: if_splits)

lemma value_plan_facts:
  assumes "value_plan s snapshot token q plan = Some plan'"
  shows "xp_net_profit_usd_e8 plan' =
      wrap_i128 (wrap_i128 (xp_gross_profit_usd_e8 plan' - xp_actual_flash_fee_usd_e8 plan') - xp_gas_cost_usd_e8 plan') \<and>
    0 \<le> xp_gas_cost_usd_e8 plan' \<and>
    plan' = plan\<lparr>xp_gross_profit_usd_e8 := xp_gross_profit_usd_e8 plan', xp_flash_fee_usd_e8 := xp_flash_fee_usd_e8 plan',
      xp_actual_flash_fee_usd_e8 := xp_actual_flash_fee_usd_e8 plan', xp_flash_loan_value_usd_e8 := xp_flash_loan_value_usd_e8 plan',
      xp_gas_cost_usd_e8 := xp_gas_cost_usd_e8 plan', xp_net_profit_usd_e8 := xp_net_profit_usd_e8 plan'\<rparr>"
  using assms by (clarsimp simp: value_plan_def Let_def bind_eq_Some_conv dest!: i128_of_u128_nonneg)

lemma check_plan_facts:
  assumes "check_plan env li an snapshot token plan v = (Inr (Some ex), v')"
  shows "\<exists>failures. price_plan env li an snapshot token (set_contract_min_profit (va_settings v) plan) (v\<lparr>va_failures := failures\<rparr>) =
      (Inr (Some ex), v') \<and> xp_contract_min_profit_raw (set_contract_min_profit (va_settings v) plan) \<noteq> 0 \<and>
    skip_reason (at_show_address (li_text li)) (an_checked_at an) plan (va_failures v) = (None, failures)"
  using assms by (auto simp: check_plan_def Let_def split: prod.splits if_splits)

lemma prepare_plan_facts:
  assumes "prepare_plan env li an snapshot plan v = (Inr (Some ex), v')"
  shows "\<exists>token input_value choice capital.
    find (\<lambda>t. t_address t = xp_input_token plan) (gs_tokens snapshot) = Some token \<and>
    choose_capital env (va_settings v) (an_balance_at an) (an_balance_of an) (plan\<lparr>xp_input_value_usd_e8 := input_value\<rparr>) token
      (va_capital v) = (Some choice, capital) \<and>
    check_plan env li an snapshot token (apply_choice choice (plan\<lparr>xp_input_value_usd_e8 := input_value\<rparr>)) (v\<lparr>va_capital := capital\<rparr>) =
      (Inr (Some ex), v')"
  using assms by (auto simp: prepare_plan_def Let_def split: option.splits prod.splits)

text \<open>The accounts survive what is filled in later.\<close>

lemma build_calldata_gas [simp]:
  "build_calldata enc (plan\<lparr>xp_gas_limit := a, xp_gas_l2_execution_cost_wei := b, xp_gas_l1_data_fee_wei := c, xp_gas_cost_wei := d\<rparr>) t =
     build_calldata enc plan t"
  by (cases "xp_capital_source plan") (simp_all add: build_calldata_def executor_call_of_def Let_def)

lemma quote_gas_keeps:
  assumes "quote_gas env al abi show_err node l1_node t1 t2 t3 g gas_limit len = (r, g')"
  shows "gt_ceiling_wei g' = gt_ceiling_wei g \<and> gt_chain g' = gt_chain g"
proof -
  have "g' = snd (current_fees env show_err node t1 t2 t3 g)" using assms by (auto simp: quote_gas_def Let_def split: prod.splits)
  then show ?thesis by (auto simp: current_fees_def Let_def split: option.splits sum.splits prod.splits)
qed

lemma quote_gas_fee_order:
  assumes "quote_gas env al abi show_err node l1_node t1 t2 t3 g gas_limit len = (Inr q, g')"
  shows "gq_max_priority_fee_per_gas q \<le> gq_max_fee_per_gas q \<and>
    unat (gq_l2_execution_cost_wei q) = unat (gq_max_fee_per_gas q) * unat gas_limit"
proof -
  obtain base pr l1 where q: "q = gas_quote_of (gt_risk_buffer_pct g') gas_limit base pr l1"
    using quote_gas_shape [OF assms] by blast
  show ?thesis unfolding q gas_quote_of_sel by (simp only: min.cobounded2 l2_cost_exact simp_thms)
qed

lemma chosen_plan_funded:
  assumes "choose_capital env s now balance_of plan token c = (Some choice, c')"
    and "xp_contract_min_profit_raw (set_contract_min_profit s' (apply_choice choice plan)) \<noteq> 0"
  shows "funded_soundly s' (set_contract_min_profit s' (apply_choice choice plan))"
proof -
  obtain aave cap loan fee where "choice_from_balance_and_fees plan token aave cap loan fee = Some choice"
    using choose_capital_choice [OF assms(1)] by blast
  note f = choice_facts [OF this]
  have "0 < xp_contract_min_profit_raw (set_contract_min_profit s' (apply_choice choice plan))"
    using assms(2) by (simp add: word_neq_0_conv)
  moreover have "choice_typed (xp_input_amount plan) choice" using f by blast
  moreover have "0 < cc_net_profit_before_gas_raw choice"
    and "cc_net_profit_before_gas_raw choice =
      calculate_net_profit_before_gas_raw (xp_input_amount plan) (xp_output_amount plan) (cc_actual_flash_fee_raw choice)"
    using f by metis+
  ultimately show ?thesis
    by (simp add: funded_soundly_def set_contract_min_profit_def apply_choice_def choice_typed_def)
qed

lemma funded_soundly_gas [simp]:
  "funded_soundly s (p\<lparr>xp_gas_limit := a, xp_gas_l2_execution_cost_wei := b, xp_gas_l1_data_fee_wei := c, xp_gas_cost_wei := d\<rparr>) =
     funded_soundly s p"
  "profitable s (p\<lparr>xp_gas_limit := a, xp_gas_l2_execution_cost_wei := b, xp_gas_l1_data_fee_wei := c, xp_gas_cost_wei := d\<rparr>) =
     profitable s p"
  by (simp_all add: funded_soundly_def profitable_def)

lemma funded_soundly_valued:
  "funded_soundly s p \<Longrightarrow> funded_soundly s (set_contract_min_profit s
     (p\<lparr>xp_gross_profit_usd_e8 := a, xp_flash_fee_usd_e8 := b, xp_actual_flash_fee_usd_e8 := c, xp_flash_loan_value_usd_e8 := d,
        xp_gas_cost_usd_e8 := e, xp_net_profit_usd_e8 := f\<rparr>))"
  by (auto simp: funded_soundly_def set_contract_min_profit_def)

lemma prepared_plan_facts:
  assumes conf: "configured s v" and prep: "prepare_plan env li an snapshot plan v = (Inr (Some ex), v')"
  shows "funded_soundly s (ex_exact ex) \<and> profitable s (ex_exact ex) \<and> priced s ex \<and> simulated li an s ex \<and>
    xp_hops (ex_exact ex) = xp_hops plan \<and> ex_deadline_unix ex = an_unix_secs an + 30 \<and> configured s v'"
proof -
  have s: "va_settings v = s" and ceil: "gt_ceiling_wei (va_gas v) = rk_gas_price_ceiling_wei (st_risk s)"
    using conf by (simp_all add: configured_def)
  obtain token iv choice capital where ch: "choose_capital env s (an_balance_at an) (an_balance_of an)
        (plan\<lparr>xp_input_value_usd_e8 := iv\<rparr>) token (va_capital v) = (Some choice, capital)"
      and k: "check_plan env li an snapshot token (apply_choice choice (plan\<lparr>xp_input_value_usd_e8 := iv\<rparr>))
        (v\<lparr>va_capital := capital\<rparr>) = (Inr (Some ex), v')"
    using prepare_plan_facts [OF prep] unfolding s by blast
  define chosen where "chosen = set_contract_min_profit s (apply_choice choice (plan\<lparr>xp_input_value_usd_e8 := iv\<rparr>))"
  obtain failures where p: "price_plan env li an snapshot token chosen (v\<lparr>va_capital := capital, va_failures := failures\<rparr>) = (Inr (Some ex), v')"
      and nz: "xp_contract_min_profit_raw chosen \<noteq> 0"
    using check_plan_facts [OF k] unfolding chosen_def by (auto simp: s)
  have funded: "funded_soundly s chosen"
    using chosen_plan_funded [OF ch] nz unfolding chosen_def by blast
  obtain executor operator est q valued gas t1 t2 t3 where
      e: "tx_executor_address s = Inr executor" and o': "operator_address (li_signer li) s = Inr operator"
      and q: "quote_gas env (li_text li) (li_l1_abi li) (li_show_err li) (an_gas_node an) (an_l1_node an) t1 t2 t3 (va_gas v) est
        (length (build_calldata (li_abi_encode li) chosen (deadline_of (an_unix_secs an)))) = (Inr q, gas)"
      and c: "\<not> above_ceiling gas q" and val: "value_plan s snapshot token q chosen = Some valued"
      and n: "as_i128 (rk_min_net_profit_usd_e8 (st_risk s)) \<le> xp_net_profit_usd_e8 valued"
      and sim: "simulate_plan li an executor operator (deadline_of (an_unix_secs an)) est q valued
        (v\<lparr>va_capital := capital, va_failures := failures, va_gas := gas\<rparr>) = (Inr (Some ex), v')"
    using price_plan_facts [OF p] by (auto simp: s)
  note vf = value_plan_facts [OF val]
  define final where "final = set_contract_min_profit s valued"
  let ?calldata = "build_calldata (li_abi_encode li) final (deadline_of (an_unix_secs an))"
  have ex: "ex = finish_plan q est ?calldata (deadline_of (an_unix_secs an)) final"
    and v': "v' = v\<lparr>va_capital := capital, va_failures := failures, va_gas := gas\<rparr>"
    and ok: "sim_success (simulate (li_text li) (li_show_err li) (an_simulator an) (rp_simulate_method (st_rpc s)) executor operator
      (ex_calldata ex) q)"
  proof -
    have vs: "va_settings (v\<lparr>va_capital := capital, va_failures := failures, va_gas := gas\<rparr>) = s" by (simp add: s)
    note sf = simulate_plan_facts [OF sim, unfolded vs, folded final_def]
    from sf show "ex = finish_plan q est ?calldata (deadline_of (an_unix_secs an)) final" by blast
    from sf show "v' = v\<lparr>va_capital := capital, va_failures := failures, va_gas := gas\<rparr>" by blast
    from sf show "sim_success (simulate (li_text li) (li_show_err li) (an_simulator an) (rp_simulate_method (st_rpc s)) executor operator
      (ex_calldata ex) q)" by blast
  qed
  obtain a b c' d f g where "valued = chosen\<lparr>xp_gross_profit_usd_e8 := a, xp_flash_fee_usd_e8 := b, xp_actual_flash_fee_usd_e8 := c',
      xp_flash_loan_value_usd_e8 := d, xp_gas_cost_usd_e8 := f, xp_net_profit_usd_e8 := g\<rparr>"
    using vf by blast
  then have valued_keeps_hops: "xp_hops valued = xp_hops chosen" by simp
  have "funded_soundly s final" unfolding final_def using vf funded_soundly_valued [OF funded] by metis
  moreover have "profitable s final" using vf n by (simp add: final_def profitable_def set_contract_min_profit_def)
  moreover have "xp_hops final = xp_hops plan" using valued_keeps_hops by (simp add: final_def set_contract_min_profit_def chosen_def apply_choice_def)
  moreover have "gt_ceiling_wei gas = rk_gas_price_ceiling_wei (st_risk s) \<and> gt_chain gas = gt_chain (va_gas v)"
    using quote_gas_keeps [OF q] ceil by simp
  moreover note quote_gas_fee_order [OF q]
  ultimately show ?thesis
    using c e o' ok conf unfolding ex v'
    by (auto simp: finish_plan_def priced_def simulated_def above_ceiling_def not_less deadline_of_def configured_def)
qed

text \<open>C2: a plan that leaves the preparation keeps the routed hops and is funded by what its amounts say, its net profit
  after fees and gas reaches the configured threshold, its fee is below the ceiling, its contract-side minimum profit is
  positive, and the very call it carries passed the simulation.\<close>

theorem prepared_plan_guarantees:
  assumes "configured s v" and "prepare_plan env li an snapshot plan v = (Inr (Some ex), v')"
  shows "funded_soundly s (ex_exact ex) \<and> profitable s (ex_exact ex) \<and> priced s ex \<and> simulated li an s ex \<and>
    xp_hops (ex_exact ex) = xp_hops plan \<and> ex_deadline_unix ex = an_unix_secs an + 30 \<and> configured s v'"
  by (rule prepared_plan_facts [OF assms])


section \<open>A preparation that succeeds\<close>

definition ready_settings :: "settings \<Rightarrow> settings" where
  "ready_settings s =
     s\<lparr>st_chain := Polygon, st_operator_private_key := Some ''key'',
       st_rpc := (st_rpc s)\<lparr>rp_simulate_method := ''eth_call''\<rparr>,
       st_contracts := (st_contracts s)\<lparr>ct_executor_address := Some 7, ct_aave_pool := None\<rparr>,
       st_risk := (st_risk s)\<lparr>rk_gas_price_ceiling_wei := 100, rk_min_net_profit_usd_e8 := 10, rk_min_profit_realization_bps := 9000\<rparr>\<rparr>"

definition priced_tokens :: "token_info list" where
  "priced_tokens =
     [(demo_token 1)\<lparr>t_decimals := 0, t_manual_price_usd_e8 := Some 100\<rparr>,
      (demo_token 2)\<lparr>t_symbol := wrapped_native_symbol Polygon, t_manual_price_usd_e8 := Some 100000000\<rparr>]"

definition ready_validator :: "settings \<Rightarrow> validator" where
  "ready_validator s =
     \<lparr>va_settings = ready_settings s,
      va_gas = \<lparr>gt_chain = Polygon, gt_ceiling_wei = 100, gt_risk_buffer_pct = f_zero,
        gt_cache = Some \<lparr>cg_fetched_at = 0, cg_base = 0, cg_priority = 0\<rparr>\<rparr>,
      va_capital = funded, va_failures = failure_cache_from_env (\<lambda>_. None)\<rparr>"

definition ready_libraries :: "alloy_text \<Rightarrow> l1_fee_abi \<Rightarrow> string libraries" where
  "ready_libraries al abi =
     \<lparr>li_text = al\<lparr>at_bytes := \<lambda>t. Some []\<rparr>, li_l1_abi = abi, li_show_err = \<lambda>e. [], li_abi_encode = \<lambda>c. [1], li_signer = \<lambda>k. Inr 5\<rparr>"

definition ready_answers :: "string answers" where
  "ready_answers =
     \<lparr>an_balance_at = 0, an_balance_of = \<lambda>t a. Inl [], an_checked_at = 0, an_unix_secs = 1000,
      an_estimate = \<lambda>m p. Inl [], an_gas_node = \<lambda>k m p. Inl [], an_l1_node = \<lambda>k m p. Inl [], an_gas_times = (0, 0, 0),
      an_simulator = \<lambda>m p. Inr (JStr ''0x''), an_recorded_at = (0, 0)\<rparr>"

abbreviation ready_token :: token_info where
  "ready_token \<equiv> (demo_token 1)\<lparr>t_decimals := 0, t_manual_price_usd_e8 := Some 100\<rparr>"

definition ready_choice :: capital_choice where
  "ready_choice =
     \<lparr>cc_source = SelfFunded, cc_loan_amount_raw = 0, cc_flash_fee_raw = 0, cc_actual_flash_fee_raw = 0,
      cc_net_profit_before_gas_raw = 100\<rparr>"

lemma ready_value: "amount_to_usd_e8 100 ready_token = Some 10000" "amount_to_usd_e8 0 ready_token = Some 0"
  by (simp_all add: amount_to_usd_e8_def pow10_u256_def demo_token_def u256_of_def checked_mul_def checked_div_def u128_of_u256_def)

lemma ready_chosen:
  assumes "executor_balance env (ready_settings s) t0 balance_of 1 c = (Inr 500, c')"
  shows "choose_capital env (ready_settings s) t0 balance_of (demo_plan\<lparr>xp_input_value_usd_e8 := 10000\<rparr>) ready_token c = (Some ready_choice, c')"
proof -
  let ?p = "demo_plan\<lparr>xp_input_value_usd_e8 := 10000\<rparr>"
  have p: "xp_gross_profit_raw ?p = 100" "xp_input_token ?p = 1" "xp_input_amount ?p = 100" "xp_output_amount ?p = 200"
      "xp_flash_premium_ppm ?p = 0" by (simp_all add: demo_plan_def)
  have t: "t_allow_self_funded ready_token" by (simp add: demo_token_def)
  have n: "calculate_net_profit_before_gas_raw 100 200 0 = 100"
    by (simp add: calculate_net_profit_before_gas_raw_def wrap_i128_def as_i128_def)
  have l: "sat_sub (100 :: u128) 100 = 0" "sat_mul (0 :: u128) 0 div 1000000 = 0" by (simp_all add: sat_sub_def sat_mul_def)
  show ?thesis unfolding choose_capital_def p assms Let_def
    using t by (simp add: l choice_from_balance_and_fees_def p n ready_choice_def)
qed

lemma ready_fee: "buffered_fee f_zero 0 0 = 0"
  by (simp add: buffered_fee_def sat_add_def f64_eval f64_to_u128_def f_le_def)

lemma ready_min_profit: "calculate_contract_min_profit_raw 100 9000 = 90"
  by (simp add: calculate_contract_min_profit_raw_def clamp_i128_def as_u128_def)

lemma ready_not_skipped:
  "skip_reason disp now plan (failure_cache_from_env env) =
     (None, if fc_enabled (failure_cache_from_env env) then prune_failures now (failure_cache_from_env env) else failure_cache_from_env env)"
proof -
  have "first_entry (fc_entries (prune_failures now (failure_cache_from_env env))) ks = None" for ks
    by (induction ks) (simp_all add: prune_failures_def failure_cache_from_env_def filter_opt_def)
  then show ?thesis by (simp add: skip_reason_def Let_def)
qed

text \<open>The plan as it is priced.\<close>

definition ready_plan :: "settings \<Rightarrow> exact_plan" where
  "ready_plan s = set_contract_min_profit (ready_settings s) (apply_choice ready_choice (demo_plan\<lparr>xp_input_value_usd_e8 := 10000\<rparr>))"

lemma ready_plan_sel:
  "xp_contract_min_profit_raw (ready_plan s) = 90" "xp_gross_profit_raw (ready_plan s) = 100" "xp_flash_fee_raw (ready_plan s) = 0"
  "xp_actual_flash_fee_raw (ready_plan s) = 0" "xp_flash_loan_amount (ready_plan s) = 0"
  by (simp_all add: ready_plan_def set_contract_min_profit_def apply_choice_def ready_choice_def ready_settings_def ready_min_profit demo_plan_def)

lemma ready_quoted:
  "quote_gas env al abi show_err node l1_node 0 t2 t3 (va_gas (ready_validator s)) e len =
     (Inr (gas_quote_of f_zero e 0 0 0), va_gas (ready_validator s))"
  by (simp add: quote_gas_def current_fees_def ready_validator_def estimate_l1_data_fee_def Let_def)

lemma ready_native: "native_gas_pricing (ready_settings s) (g\<lparr>gs_tokens := priced_tokens\<rparr>) = Some (''WMATIC'', 100000000, 18)"
proof -
  have "eq_ignore_ascii_case ''WMATIC'' ''WMATIC''" "\<not> eq_ignore_ascii_case ''T'' ''WMATIC''" by code_simp+
  then show ?thesis by (simp add: native_gas_pricing_def priced_tokens_def ready_settings_def demo_token_def)
qed

lemma ready_valued:
  "\<exists>p. value_plan (ready_settings s) (g\<lparr>gs_tokens := priced_tokens\<rparr>) ready_token (gas_quote_of f_zero e 0 0 0) (ready_plan s) = Some p \<and>
     xp_net_profit_usd_e8 p = 10000"
proof -
  have "usd_of 100 ready_token = Some 10000" "usd_of 0 ready_token = Some 0"
    by (simp_all add: usd_of_def ready_value i128_of_u128_def)
  moreover have "gq_buffered_total_cost_wei (gas_quote_of f_zero e 0 0 0) = 0"
    unfolding gas_quote_of_sel ready_fee by (simp add: u256_of_def sat_add_def)
  moreover have "native_gas_to_usd_e8 0 100000000 18 = Some 0"
    by (simp add: native_gas_to_usd_e8_def pow10_u256_def checked_mul_def checked_div_def u128_of_u256_def)
  moreover have "as_u128 100 = 100" by (simp add: as_u128_def)
  moreover have "i128_of_u128 0 = Some 0" by (simp add: i128_of_u128_def)
  ultimately show ?thesis
    by (simp add: value_plan_def ready_plan_sel ready_value ready_native Let_def wrap_i128_def)
qed

lemma ready_simulated:
  assumes "an_simulator an = an_simulator ready_answers"
  shows "sim_success (simulate (li_text (ready_libraries al abi)) show_err (an_simulator an) ''eth_call'' x y dat q)"
  unfolding assms
  by (simp add: simulate_def eth_call_def ready_answers_def decoded_def parse_bytes_def parse_text_def ready_libraries_def
    parse_call_return_data_def)

text \<open>Answers by which gas costs nothing and the call succeeds.\<close>

definition answers_ready :: "env \<Rightarrow> string libraries \<Rightarrow> string answers \<Rightarrow> settings \<Rightarrow> gas_tracker \<Rightarrow> bool" where
  "answers_ready env li an s gas \<longleftrightarrow>
     an_gas_times an = (0, 0, 0) \<and> an_simulator an = an_simulator ready_answers \<and>
     (\<forall>est len. quote_gas env (li_text li) (li_l1_abi li) (li_show_err li) (an_gas_node an) (an_l1_node an) 0 0 0 gas est len =
        (Inr (gas_quote_of f_zero est 0 0 0), va_gas (ready_validator s)))"

lemma ready_priced:
  assumes "va_settings v = ready_settings s" and "answers_ready env (ready_libraries al abi) an s (va_gas v)"
  shows "\<exists>ex v'. price_plan env (ready_libraries al abi) an (g\<lparr>gs_tokens := priced_tokens\<rparr>) ready_token (ready_plan s) v =
    (Inr (Some ex), v')"
proof -
  let ?li = "ready_libraries al abi" and ?g = "g\<lparr>gs_tokens := priced_tokens\<rparr>"
  have e: "tx_executor_address (ready_settings s) = Inr 7" and o': "operator_address (li_signer ?li) (ready_settings s) = Inr 5"
    and m: "rp_simulate_method (st_rpc (ready_settings s)) = ''eth_call''" and r: "rk_min_net_profit_usd_e8 (st_risk (ready_settings s)) = 10"
    by (simp_all add: tx_executor_address_def operator_address_def ready_settings_def ready_libraries_def)
  have t: "an_gas_times an = (0, 0, 0)" "an_simulator an = an_simulator ready_answers"
    and q: "quote_gas env (li_text ?li) (li_l1_abi ?li) (li_show_err ?li) (an_gas_node an) (an_l1_node an) 0 0 0 (va_gas v) est len =
      (Inr (gas_quote_of f_zero est 0 0 0), va_gas (ready_validator s))" for est len
    using assms(2) unfolding answers_ready_def by blast+
  have c: "\<not> above_ceiling (va_gas (ready_validator s)) (gas_quote_of f_zero est 0 0 0)" for est
    unfolding above_ceiling_def gas_quote_of_sel ready_fee by simp
  have i: "as_i128 10 = 10" by (simp add: as_i128_def)
  have sim: "\<exists>ex v'. simulate_plan ?li an 7 5 d est q plan v1 = (Inr (Some ex), v')"
    if "va_settings v1 = ready_settings s" for d est q plan v1
    using that by (simp add: simulate_plan_def Let_def m ready_simulated [OF t(2)])
  define est where "est = gas_estimate_of env ?li (an_estimate an) 7 5
    (build_calldata (li_abi_encode ?li) (ready_plan s) (deadline_of (an_unix_secs an)))
    (adjusted_static_gas_limit env (xp_gas_limit (ready_plan s)) (xp_capital_source (ready_plan s)))"
  obtain p where p: "value_plan (ready_settings s) ?g ready_token (gas_quote_of f_zero est 0 0 0) (ready_plan s) = Some p"
      and n: "xp_net_profit_usd_e8 p = 10000"
    using ready_valued [of s g est] by blast
  show ?thesis
    unfolding price_plan_def Let_def assms(1) e o' sum.case t(1) split est_def [symmetric] q
    using sim [of "v\<lparr>va_gas := va_gas (ready_validator s)\<rparr>"] assms(1) by (simp add: c p n r i)
qed

lemma ready_checked:
  assumes "va_settings v = ready_settings s" and "va_failures v = failure_cache_from_env (\<lambda>_. None)"
    and "answers_ready (\<lambda>_. None) (ready_libraries al abi) an s (va_gas v)"
    and "choose_capital (\<lambda>_. None) (ready_settings s) (an_balance_at an) (an_balance_of an)
      (demo_plan\<lparr>xp_input_value_usd_e8 := 10000\<rparr>) ready_token (va_capital v) = (Some ready_choice, capital)"
  shows "\<exists>ex v'. prepare_plan (\<lambda>_. None) (ready_libraries al abi) an (g\<lparr>gs_tokens := priced_tokens\<rparr>) demo_plan v = (Inr (Some ex), v')"
proof -
  let ?g = "g\<lparr>gs_tokens := priced_tokens\<rparr>"
  have find_t: "find (\<lambda>t. t_address t = xp_input_token demo_plan) (gs_tokens ?g) = Some ready_token"
    by (simp add: priced_tokens_def demo_plan_def demo_token_def)
  have amount: "xp_input_amount demo_plan = 100" by (simp add: demo_plan_def)
  have "\<exists>ex v'. check_plan (\<lambda>_. None) (ready_libraries al abi) an ?g ready_token
      (apply_choice ready_choice (demo_plan\<lparr>xp_input_value_usd_e8 := 10000\<rparr>)) (v\<lparr>va_capital := capital\<rparr>) = (Inr (Some ex), v')"
    unfolding check_plan_def
    using assms(1-3) by (simp add: ready_not_skipped ready_plan_def [symmetric] ready_plan_sel ready_priced)
  then show ?thesis
    unfolding prepare_plan_def find_t option.case amount ready_value Let_def assms(1) assms(4) split by simp
qed

lemma ready_prepared:
  "\<exists>ex v'. prepare_plan (\<lambda>_. None) (ready_libraries al abi) ready_answers (g\<lparr>gs_tokens := priced_tokens\<rparr>) demo_plan (ready_validator s) =
     (Inr (Some ex), v')"
proof (rule ready_checked)
  show "va_settings (ready_validator s) = ready_settings s" "va_failures (ready_validator s) = failure_cache_from_env (\<lambda>_. None)"
    by (simp_all add: ready_validator_def)
  show "answers_ready (\<lambda>_. None) (ready_libraries al abi) ready_answers s (va_gas (ready_validator s))"
    unfolding answers_ready_def by (simp add: ready_quoted) (simp add: ready_answers_def)
  have "executor_balance (\<lambda>_. None) (ready_settings s) 0 (an_balance_of ready_answers) 1 funded = (Inr 500, funded)"
    by (simp add: executor_balance_def funded_def fresh_def)
  then show "choose_capital (\<lambda>_. None) (ready_settings s) (an_balance_at ready_answers) (an_balance_of ready_answers)
      (demo_plan\<lparr>xp_input_value_usd_e8 := 10000\<rparr>) ready_token (va_capital (ready_validator s)) = (Some ready_choice, funded)"
    using ready_chosen by (simp add: ready_validator_def) (simp add: ready_answers_def)
qed

text \<open>A validator just created prepares it too, where the executor holds 500 and gas is free.\<close>

definition first_answers :: "string answers" where
  "first_answers = ready_answers\<lparr>an_balance_of := \<lambda>t a. Inr 500, an_gas_node := \<lambda>k m p. Inr (JStr ''0x0'')\<rparr>"

lemma first_prepared:
  assumes "rk_gas_risk_buffer_pct (st_risk s) = f_zero"
  shows "\<exists>ex v'. prepare_plan (\<lambda>_. None) (ready_libraries al abi) first_answers (g\<lparr>gs_tokens := priced_tokens\<rparr>) demo_plan
     (validator_new (\<lambda>_. None) (ready_settings s)) = (Inr (Some ex), v')"
proof (rule ready_checked)
  let ?v = "validator_new (\<lambda>_. None) (ready_settings s)"
  show "va_settings ?v = ready_settings s" "va_failures ?v = failure_cache_from_env (\<lambda>_. None)"
    by (simp_all add: validator_new_def)
  have "trim_0x ''0x0'' = ''0''" by (simp add: trim_0x.simps [of "''0x0''"] trim_0x.simps [of "''0''"])
  then have zero: "parse_hex_u128 (JStr ''0x0'') = Inr 0"
    by (simp add: parse_hex_u128_def parse_hex_word_def res_bind_def from_radix16_def hex_val_def filter_opt_def)
  have "fetch_gas_quote (\<lambda>m p. Inr (JStr ''0x0'') :: string + json) = Inr (0, 0)"
    by (simp add: fetch_gas_quote_def gas_price_def max_priority_fee_per_gas_def decoded_def zero res_bind_def)
  then have ask: "fetch_gas_quote_with_retry (\<lambda>_. None) (an_gas_node first_answers) = Inr (0, 0)"
    by (cases "gas_quote_attempts (\<lambda>_. None) - 1") (simp_all add: fetch_gas_quote_with_retry_def first_answers_def)
  have gas: "va_gas ?v = (va_gas (ready_validator s))\<lparr>gt_cache := None\<rparr>"
    using assms by (simp add: validator_new_def gas_tracker_new_def ready_validator_def ready_settings_def)
  show "answers_ready (\<lambda>_. None) (ready_libraries al abi) first_answers s (va_gas ?v)"
    unfolding answers_ready_def gas quote_gas_def current_fees_def ask Let_def
    by (simp add: ready_validator_def estimate_l1_data_fee_def res_bind_def) (simp add: first_answers_def ready_answers_def)
  have "executor_balance (\<lambda>_. None) (ready_settings s) 0 (\<lambda>t a. Inr 500) 1 capital_selector_new = (Inr 500, funded)"
    by (simp add: executor_balance_def capital_selector_new_def funded_def ready_settings_def balance_to_u128_def u128_of_u256_def Let_def)
  from ready_chosen [OF this]
  show "choose_capital (\<lambda>_. None) (ready_settings s) (an_balance_at first_answers) (an_balance_of first_answers)
      (demo_plan\<lparr>xp_input_value_usd_e8 := 10000\<rparr>) ready_token (va_capital ?v) = (Some ready_choice, funded)"
    by (simp add: validator_new_def first_answers_def ready_answers_def)
qed

theorem prepared_plan_guarantees_witness:
  "\<forall>s :: settings. \<forall>g al abi. \<exists>ex v'. prepare_plan (\<lambda>_. None) (ready_libraries al abi) ready_answers (g\<lparr>gs_tokens := priced_tokens\<rparr>) demo_plan
     (ready_validator s) = (Inr (Some ex), v') \<and> profitable (ready_settings s) (ex_exact ex) \<and> ex_deadline_unix ex = 1030"
proof (intro allI)
  fix s :: settings and g :: graph_snapshot and al :: alloy_text and abi :: l1_fee_abi
  obtain ex v' where p: "prepare_plan (\<lambda>_. None) (ready_libraries al abi) ready_answers (g\<lparr>gs_tokens := priced_tokens\<rparr>) demo_plan
      (ready_validator s) = (Inr (Some ex), v')"
    using ready_prepared by blast
  have "configured (ready_settings s) (ready_validator s)" by (simp add: configured_def ready_validator_def ready_settings_def)
  from prepared_plan_guarantees [OF this p] p
  show "\<exists>ex v'. prepare_plan (\<lambda>_. None) (ready_libraries al abi) ready_answers (g\<lparr>gs_tokens := priced_tokens\<rparr>) demo_plan
      (ready_validator s) = (Inr (Some ex), v') \<and> profitable (ready_settings s) (ex_exact ex) \<and> ex_deadline_unix ex = 1030"
    by (intro exI [of _ ex] exI [of _ v']) (simp add: ready_answers_def)
qed


section \<open>The validator and its neighbours\<close>

lemma profitable_passes:
  assumes "profitable s p" and "uint (rk_min_net_profit_usd_e8 (st_risk s)) \<le> i128_max"
    and "rm_min_profit_usd_e8 r = rk_min_net_profit_usd_e8 (st_risk s)"
  shows "pre_trade_check r now p \<noteq> Inl (ProfitTooLow a b)"
proof -
  let ?m = "rk_min_net_profit_usd_e8 (st_risk s)" and ?n = "xp_net_profit_usd_e8 p"
  have "as_i128 ?m = uint ?m" using assms(2) by (simp add: as_i128_def)
  then have le: "uint ?m \<le> ?n" using assms(1) by (simp add: profitable_def)
  have n: "0 \<le> ?n" using le uint_ge_0 [of ?m] by linarith
  have "is_i128 ?n" using assms(1) unfolding profitable_def by (metis wrap_i128_is_i128)
  then have "?n < 2 ^ 128" by (simp add: is_i128_def)
  then have "uint (as_u128 ?n) = ?n" using n by (simp add: as_u128_def uint_word_of_int)
  then have "\<not> as_u128 ?n < ?m" using le by (simp add: word_less_def)
  then have nok: "\<not> (?n < 0 \<or> as_u128 ?n < rm_min_profit_usd_e8 r)" using n assms(3) by simp
  show ?thesis unfolding pre_trade_check_def Let_def using nok by simp
qed

text \<open>the validator and the risk manager of one configuration agree on the profit threshold: a prepared plan is never
  turned down before submission for its profit.\<close>

theorem prepared_plan_passes_profit_check:
  assumes "configured s v" and "prepare_plan env li an snapshot plan v = (Inr (Some ex), v')"
    and "uint (rk_min_net_profit_usd_e8 (st_risk s)) \<le> i128_max"
    and "rm_min_profit_usd_e8 r = rm_min_profit_usd_e8 (risk_manager_new s)"
  shows "pre_trade_check r now (ex_exact ex) \<noteq> Inl (ProfitTooLow a b)"
proof (rule profitable_passes)
  show "profitable s (ex_exact ex)" using prepared_plan_facts [OF assms(1,2)] by blast
  show "rm_min_profit_usd_e8 r = rk_min_net_profit_usd_e8 (st_risk s)" using assms(4) by (simp add: risk_manager_new_def)
qed (rule assms(3))

theorem prepared_plan_passes_profit_check_witness:
  "\<forall>s :: settings. \<forall>g al abi. \<exists>ex v'. prepare_plan (\<lambda>_. None) (ready_libraries al abi) ready_answers (g\<lparr>gs_tokens := priced_tokens\<rparr>) demo_plan
     (ready_validator s) = (Inr (Some ex), v') \<and>
     pre_trade_check (risk_manager_new (ready_settings s)) 0 (ex_exact ex) \<noteq> Inl (ProfitTooLow 0 10)"
proof (intro allI)
  fix s :: settings and g :: graph_snapshot and al :: alloy_text and abi :: l1_fee_abi
  obtain ex v' where p: "prepare_plan (\<lambda>_. None) (ready_libraries al abi) ready_answers (g\<lparr>gs_tokens := priced_tokens\<rparr>) demo_plan
      (ready_validator s) = (Inr (Some ex), v')"
    using ready_prepared by blast
  have c: "configured (ready_settings s) (ready_validator s)" by (simp add: configured_def ready_validator_def ready_settings_def)
  have m: "uint (rk_min_net_profit_usd_e8 (st_risk (ready_settings s))) \<le> i128_max" by (simp add: ready_settings_def)
  from prepared_plan_passes_profit_check [OF c p m refl, of 0 0 10] p
  show "\<exists>ex v'. prepare_plan (\<lambda>_. None) (ready_libraries al abi) ready_answers (g\<lparr>gs_tokens := priced_tokens\<rparr>) demo_plan
      (ready_validator s) = (Inr (Some ex), v') \<and>
      pre_trade_check (risk_manager_new (ready_settings s)) 0 (ex_exact ex) \<noteq> Inl (ProfitTooLow 0 10)"
    by blast
qed

lemma route_blocked:
  assumes "fc_enabled c" and "ttl_for c (failure_class_from_reason reason) \<noteq> 0"
    and "route_failure_key disp plan' = route_failure_key disp plan"
    and "t1 \<le> now" and "now < t2 + ttl_for c (failure_class_from_reason reason)"
  shows "fst (skip_reason disp now plan' (record_failure disp t1 t2 plan reason c)) \<noteq> None"
proof -
  let ?c = "record_failure disp t1 t2 plan reason c"
  have "entry_live ?c now (route_failure_key disp plan')"
    using assms(2,3,5) unfolding entry_live_record [OF assms(4,1)] Let_def by (simp add: route_key_recorded)
  moreover have "route_failure_key disp plan' \<in> set (failure_keys disp plan')" by (simp add: failure_keys_def)
  moreover have "fc_enabled ?c" using assms(1) by (simp add: record_failure_def Let_def)
  ultimately show ?thesis unfolding skipped_iff entry_live_def by blast
qed

text \<open>a plan that failed its simulation keeps its route from being priced and simulated again, in any amount, for
  as long as the class of the failure is kept: the next preparation of the route ends before any node is asked.\<close>

theorem failed_route_is_not_priced_again:
  assumes "fc_enabled (va_failures v)"
    and "simulate (li_text li) (li_show_err li) (an_simulator an) (rp_simulate_method (st_rpc (va_settings v))) executor operator
      (build_calldata (li_abi_encode li) (set_contract_min_profit (va_settings v) plan) deadline) q = sim_failed reason"
    and "ttl_for (va_failures v) (failure_class_from_reason reason) \<noteq> 0"
    and "route_failure_key (at_show_address (li_text li)) plan' = route_failure_key (at_show_address (li_text li)) plan"
    and "fst (an_recorded_at an) \<le> an_checked_at an'"
    and "an_checked_at an' < snd (an_recorded_at an) + ttl_for (va_failures v) (failure_class_from_reason reason)"
  shows "let v1 = snd (simulate_plan li an executor operator deadline est q plan v) in
    fst (simulate_plan li an executor operator deadline est q plan v) = Inr None \<and>
    fst (check_plan env li an' snapshot token plan' v1) = Inr None \<and>
    va_gas (snd (check_plan env li an' snapshot token plan' v1)) = va_gas v"
proof -
  let ?d = "at_show_address (li_text li)" and ?p = "set_contract_min_profit (va_settings v) plan"
  let ?c = "record_failure ?d (fst (an_recorded_at an)) (snd (an_recorded_at an)) ?p reason (va_failures v)"
  have r: "simulate_plan li an executor operator deadline est q plan v = (Inr None, v\<lparr>va_failures := ?c\<rparr>)"
    unfolding simulate_plan_def Let_def assms(2) by simp
  have "route_failure_key ?d plan' = route_failure_key ?d ?p"
    unfolding assms(4) by (simp add: route_failure_key_def plan_splits_def set_contract_min_profit_def)
  then have "fst (skip_reason ?d (an_checked_at an') plan' ?c) \<noteq> None"
    by (rule route_blocked [OF assms(1,3) _ assms(5,6)])
  then show ?thesis unfolding r Let_def snd_conv fst_conv check_plan_def
    by (simp add: split_beta)
qed

definition refusing :: "string answers" where
  "refusing = ready_answers\<lparr>an_simulator := \<lambda>m p. Inl ''refused''\<rparr>"

theorem failed_route_is_not_priced_again_witness:
  "\<forall>s :: settings. \<forall>al abi env snapshot token q.
     fst (check_plan env (ready_libraries al abi) ready_answers snapshot token demo_plan
       (snd (simulate_plan (ready_libraries al abi) refusing 7 5 1030 21000 q demo_plan (ready_validator s)))) = Inr None"
proof (intro allI)
  fix s :: settings and al :: alloy_text and abi :: l1_fee_abi and env :: env and snapshot :: graph_snapshot
    and token :: token_info and q :: gas_quote
  let ?li = "ready_libraries al abi" and ?v = "ready_validator s"
  have m: "rp_simulate_method (st_rpc (va_settings ?v)) = ''eth_call''" by (simp add: ready_validator_def ready_settings_def)
  have sim: "simulate (li_text ?li) (li_show_err ?li) (an_simulator refusing) (rp_simulate_method (st_rpc (va_settings ?v))) 7 5 dat q =
      sim_failed []" for dat
    unfolding m by (simp add: simulate_def eth_call_def refusing_def ready_libraries_def decoded_def)
  have cls: "failure_class_from_reason [] = FC_Other" by code_simp
  have f: "fc_enabled (va_failures ?v)" "fc_route_ttl (va_failures ?v) = from_secs 300"
    by (simp_all add: ready_validator_def failure_cache_from_env_def env_bool_set_def env_usize_any_def)
  have t: "an_recorded_at refusing = (0, 0)" "an_checked_at ready_answers = 0" by (simp_all add: refusing_def ready_answers_def)
  show "fst (check_plan env ?li ready_answers snapshot token demo_plan
      (snd (simulate_plan ?li refusing 7 5 1030 21000 q demo_plan ?v))) = Inr None"
    using failed_route_is_not_priced_again [OF f(1) sim _ refl,
        where an' = ready_answers and est = 21000 and env = env and snapshot = snapshot and token = token and deadline = 1030]
    by (simp add: cls f t Let_def)
qed

end
