(* ===== verification/Token_Discovery.thy ===== *)
theory Token_Discovery
  imports Config Valuation Graph_Model "HOL-Library.AList"
begin

text \<open>
  The tokens of a snapshot, from \<open>src/discovery/mod.rs\<close>: the configured tokens, the reserves of the lending pool
  that can be borrowed, names and decimals of discovered tokens with their cache, and prices derived from pool balances.
  The answers of the chain, the ABI decoders and the clock are one record of arguments. Hash maps are association lists,
  whose order stands for the iteration order.
\<close>

section \<open>Answers of the chain\<close>

text \<open>An aggregated call answers each of its calls or fails as a whole; \<open>tn_metadata k\<close> is the k-th of a batch and
  has two answers for each token, the symbol and the decimals.\<close>

record token_net =
  tn_reserves :: "string + address list"
  tn_configs :: "address list \<Rightarrow> (u8 list option) list option"
  tn_config_call :: "address \<Rightarrow> u8 list option"
  tn_decode_config :: "u8 list \<Rightarrow> u256 option"
  tn_metadata :: "nat \<Rightarrow> address list \<Rightarrow> (u8 list option) list option"
  tn_symbol_call :: "address \<Rightarrow> u8 list option"
  tn_decimals_call :: "address \<Rightarrow> u8 list option"
  tn_decode_symbol :: "u8 list \<Rightarrow> string option"
  tn_decode_decimals :: "u8 list \<Rightarrow> u8 option"
  tn_show_address :: "address \<Rightarrow> string"

section \<open>Reserves that lend\<close>

definition reserve_bit :: "u256 \<Rightarrow> nat \<Rightarrow> bool" where
  "reserve_bit config_data i \<longleftrightarrow> and (drop_bit i config_data) 1 = 1"

definition reserve_accepts_flash_loan :: "u256 \<Rightarrow> bool" where
  "reserve_accepts_flash_loan config_data \<longleftrightarrow>
     reserve_bit config_data 56 \<and> \<not> reserve_bit config_data 60 \<and> reserve_bit config_data 63"

record aave_reserve_cache =
  ac_fetched_at :: instant
  ac_reserves :: "address list"

definition aave_cache_ttl :: "env \<Rightarrow> duration" where
  "aave_cache_ttl env = from_secs (env_u64 env ''AAVE_RESERVE_CACHE_SECS'' 3600)"

definition lends :: "token_net \<Rightarrow> u8 list option \<Rightarrow> bool" where
  "lends net raw =
     (case Option.bind raw (tn_decode_config net) of None \<Rightarrow> False | Some c \<Rightarrow> reserve_accepts_flash_loan c)"

definition lending_reserves :: "token_net \<Rightarrow> address list \<Rightarrow> address list" where
  "lending_reserves net reserves =
     remdups (case tn_configs net reserves of
        Some results \<Rightarrow> map fst (filter (\<lambda>(asset, raw). lends net raw) (zip reserves results))
      | None \<Rightarrow> filter (\<lambda>asset. lends net (tn_config_call net asset)) reserves)"

text \<open>The clock is read when the cache is consulted and when it is filled.\<close>

definition aave_flash_reserves ::
  "env \<Rightarrow> token_net \<Rightarrow> instant \<times> instant \<Rightarrow> address option \<Rightarrow> aave_reserve_cache option \<Rightarrow>
   (string + address list) \<times> aave_reserve_cache option" where
  "aave_flash_reserves env net t aave_pool cache =
     (case filter_opt (\<lambda>c. fst t - ac_fetched_at c \<le> aave_cache_ttl env) cache of
        Some c \<Rightarrow> (Inr (ac_reserves c), cache)
      | None \<Rightarrow>
          (case aave_pool of
             None \<Rightarrow> (Inr [], cache)
           | Some _ \<Rightarrow>
               (case tn_reserves net of
                  Inl e \<Rightarrow> (Inl e, cache)
                | Inr reserves \<Rightarrow>
                    let out = lending_reserves net reserves
                    in (Inr out, Some \<lparr>ac_fetched_at = snd t, ac_reserves = out\<rparr>))))"

definition mark_lendable :: "address list \<Rightarrow> token_info \<Rightarrow> token_info" where
  "mark_lendable flash_reserves token =
     (if t_address token \<in> set flash_reserves then token\<lparr>t_is_cycle_anchor := True, t_flash_loan_enabled := True\<rparr> else token)"

definition apply_aave_flash_reserves :: "address list \<Rightarrow> token_info list \<Rightarrow> token_info list" where
  "apply_aave_flash_reserves flash_reserves tokens = map (mark_lendable flash_reserves) tokens"

section \<open>Symbols\<close>

definition upper_char :: "char \<Rightarrow> char" where
  "upper_char c = (let n = of_char c :: nat in if 97 \<le> n \<and> n \<le> 122 then char_of (n - 32) else c)"

definition is_stable_symbol :: "string \<Rightarrow> bool" where
  "is_stable_symbol symbol \<longleftrightarrow> map upper_char symbol \<in>
     set [''USDC'', ''USDBC'', ''USDT'', ''DAI'', ''USDS'', ''SUSDS'', ''LUSD'', ''FRAX'', ''PYUSD'']"

definition stable_price_for_symbol :: "string \<Rightarrow> u64 option" where
  "stable_price_for_symbol symbol = (if is_stable_symbol symbol then Some 100000000 else None)"

text \<open>\<open>str::from_utf8\<close> checks the shape of every sequence.\<close>

definition cont :: "nat \<Rightarrow> bool" where "cont b \<longleftrightarrow> 128 \<le> b \<and> b \<le> 191"

fun utf8_ok :: "nat list \<Rightarrow> bool" where
  "utf8_ok [] = True"
| "utf8_ok (a # bs) =
     (if a < 128 then utf8_ok bs
      else case bs of
        b # cs \<Rightarrow>
          if 194 \<le> a \<and> a \<le> 223 then cont b \<and> utf8_ok cs
          else (case cs of
             c # ds \<Rightarrow>
               if 224 \<le> a \<and> a \<le> 239 then
                 (if a = 224 then 160 \<le> b \<and> b \<le> 191 else if a = 237 then 128 \<le> b \<and> b \<le> 159 else cont b) \<and> cont c \<and> utf8_ok ds
               else (case ds of
                  d # es \<Rightarrow>
                    240 \<le> a \<and> a \<le> 244 \<and>
                    (if a = 240 then 144 \<le> b \<and> b \<le> 191 else if a = 244 then 128 \<le> b \<and> b \<le> 143 else cont b) \<and>
                    cont c \<and> cont d \<and> utf8_ok es
                | [] \<Rightarrow> False)
           | [] \<Rightarrow> False)
      | [] \<Rightarrow> False)"

definition string_of_bytes :: "u8 list \<Rightarrow> string option" where
  "string_of_bytes bs = (if utf8_ok (map unat bs) then Some (map (\<lambda>b. char_of (unat b)) bs) else None)"

definition nonempty :: "string \<Rightarrow> string option" where
  "nonempty s = (if s = [] then None else Some s)"

definition decode_bytes32_string :: "u8 list \<Rightarrow> string option" where
  "decode_bytes32_string bs =
     (if length bs \<noteq> 32 then None
      else let prefix = takeWhile (\<lambda>b. b \<noteq> 0) bs
           in if prefix = [] then None else Option.bind (map_option trim (string_of_bytes prefix)) nonempty)"

definition decode_token_symbol_return :: "token_net \<Rightarrow> u8 list \<Rightarrow> string option" where
  "decode_token_symbol_return net raw =
     (case Option.bind (tn_decode_symbol net raw) (\<lambda>s. nonempty (trim s)) of
        Some s \<Rightarrow> Some s
      | None \<Rightarrow> decode_bytes32_string raw)"

section \<open>Metadata\<close>

type_synonym metadata = "(address \<times> (string \<times> u8)) list"

definition fetch_token_symbol :: "token_net \<Rightarrow> address \<Rightarrow> string option" where
  "fetch_token_symbol net a = Option.bind (tn_symbol_call net a) (decode_token_symbol_return net)"

definition fetch_token_decimals :: "token_net \<Rightarrow> address \<Rightarrow> u8 option" where
  "fetch_token_decimals net a = Option.bind (tn_decimals_call net a) (tn_decode_decimals net)"

definition fetch_token_metadata :: "token_net \<Rightarrow> address \<Rightarrow> metadata \<Rightarrow> (string \<times> u8) \<times> metadata" where
  "fetch_token_metadata net a cache =
     (case map_of cache a of
        Some m \<Rightarrow> (m, cache)
      | None \<Rightarrow>
          let m = (unwrap_or (fetch_token_symbol net a) (tn_show_address net a), unwrap_or (fetch_token_decimals net a) 18)
          in (m, AList.update a m cache))"

definition token_metadata_multicall_chunk_size :: "env \<Rightarrow> nat" where
  "token_metadata_multicall_chunk_size env = env_usize env ''TOKEN_METADATA_MULTICALL_CHUNK_SIZE'' 250"

definition metadata_of_answers :: "token_net \<Rightarrow> address \<Rightarrow> u8 list option list \<Rightarrow> string \<times> u8" where
  "metadata_of_answers net a raw =
     (unwrap_or (Option.bind (Option.bind (nth_opt raw 0) (\<lambda>v. v)) (decode_token_symbol_return net)) (tn_show_address net a),
      unwrap_or (Option.bind (Option.bind (nth_opt raw 1) (\<lambda>v. v)) (tn_decode_decimals net)) 18)"

text \<open>\<open>chunks(2)\<close> of the answers.\<close>

fun pairs_of :: "'a list \<Rightarrow> 'a list list" where
  "pairs_of [] = []"
| "pairs_of [x] = [[x]]"
| "pairs_of (x # y # zs) = [x, y] # pairs_of zs"

text \<open>The state is the output map and the cache; a chunk whose aggregated call fails is fetched token by token.\<close>

definition metadata_chunk :: "token_net \<Rightarrow> nat \<Rightarrow> address list \<Rightarrow> metadata \<times> metadata \<Rightarrow> metadata \<times> metadata" where
  "metadata_chunk net k chunk st =
     (case tn_metadata net k chunk of
        Some results \<Rightarrow>
          fold (\<lambda>(a, raw) (out, cache). let m = metadata_of_answers net a raw in (AList.update a m out, AList.update a m cache))
            (zip chunk (pairs_of results)) st
      | None \<Rightarrow>
          fold (\<lambda>a (out, cache). let (m, cache') = fetch_token_metadata net a cache in (AList.update a m out, cache')) chunk st)"

function metadata_chunks :: "token_net \<Rightarrow> nat \<Rightarrow> nat \<Rightarrow> address list \<Rightarrow> metadata \<times> metadata \<Rightarrow> metadata \<times> metadata" where
  "metadata_chunks net n k missing st =
     (if missing = [] \<or> n = 0 then st
      else metadata_chunks net n (Suc k) (drop n missing) (metadata_chunk net k (take n missing) st))"
  by pat_completeness auto

termination by (relation "measure (\<lambda>(net, n, k, missing, st). length missing)") auto

declare metadata_chunks.simps [simp del]

definition fetch_token_metadata_batch :: "env \<Rightarrow> token_net \<Rightarrow> address list \<Rightarrow> metadata \<Rightarrow> metadata \<times> metadata" where
  "fetch_token_metadata_batch env net addresses cache =
     (let out = fold (\<lambda>a out. case map_of cache a of Some m \<Rightarrow> AList.update a m out | None \<Rightarrow> out) addresses [];
          missing = filter (\<lambda>a. map_of cache a = None) addresses
      in metadata_chunks net (token_metadata_multicall_chunk_size env) 0 missing (out, cache))"

section \<open>Tokens\<close>

definition token_behavior_default :: token_behavior where
  "token_behavior_default =
     \<lparr>fee_on_transfer = False, rebasing = False, erc4626 = False, callback_token = False, rate_oraclized = False\<rparr>"

definition configured_token :: "token_config \<Rightarrow> token_info" where
  "configured_token t =
     \<lparr>t_address = tc_address t, t_symbol = tc_symbol t, t_decimals = tc_decimals t,
      t_is_stable = (tc_is_stable t \<or> is_stable_symbol (tc_symbol t)), t_is_cycle_anchor = tc_is_cycle_anchor t,
      t_flash_loan_enabled = tc_flash_loan_enabled t, t_allow_self_funded = tc_allow_self_funded t,
      t_behavior = token_behavior_default,
      t_manual_price_usd_e8 = opt_or (tc_manual_price_usd_e8 t) (stable_price_for_symbol (tc_symbol t)),
      t_max_position_usd_e8 = tc_max_position_usd_e8 t, t_max_flash_loan_usd_e8 = tc_max_flash_loan_usd_e8 t\<rparr>"

definition configured_tokens :: "settings \<Rightarrow> token_info list" where
  "configured_tokens s = map configured_token (st_tokens s)"

definition discovered_token :: "address list \<Rightarrow> address \<Rightarrow> string \<times> u8 \<Rightarrow> token_info" where
  "discovered_token flash_reserves a m =
     \<lparr>t_address = a, t_symbol = fst m, t_decimals = snd m, t_is_stable = is_stable_symbol (fst m),
      t_is_cycle_anchor = (a \<in> set flash_reserves), t_flash_loan_enabled = (a \<in> set flash_reserves), t_allow_self_funded = False,
      t_behavior = token_behavior_default, t_manual_price_usd_e8 = stable_price_for_symbol (fst m),
      t_max_position_usd_e8 = None, t_max_flash_loan_usd_e8 = None\<rparr>"

fun unknown_addresses :: "address set \<Rightarrow> address list \<Rightarrow> address list" where
  "unknown_addresses known [] = []"
| "unknown_addresses known (a # as) =
     (if a \<in> known then unknown_addresses known as else a # unknown_addresses (insert a known) as)"

definition discovered_addresses :: "token_info list \<Rightarrow> pool_state list \<Rightarrow> address list \<Rightarrow> address list" where
  "discovered_addresses tokens pools flash_reserves =
     unknown_addresses (set (map t_address tokens)) (concat (map ps_token_addresses pools) @ flash_reserves)"

text \<open>The cache file is written when the cache has grown; the file is not part of the state.\<close>

definition extend_tokens_with_discovered ::
  "env \<Rightarrow> settings \<Rightarrow> token_net \<Rightarrow> pool_state list \<Rightarrow> address list \<Rightarrow> token_info list \<Rightarrow> metadata \<Rightarrow> token_info list \<times> metadata" where
  "extend_tokens_with_discovered env s net pools flash_reserves tokens cache =
     (let new = discovered_addresses tokens pools flash_reserves;
          (found, cache') = fetch_token_metadata_batch env net new cache;
          added = map (\<lambda>a. discovered_token flash_reserves a (unwrap_or (map_of found a) (tn_show_address net a, 18))) new
      in (tokens @ filter (\<lambda>t. symbol_allowed (st_policy s) (t_symbol t)) added, cache'))"

definition discover_tokens ::
  "env \<Rightarrow> settings \<Rightarrow> token_net \<Rightarrow> pool_state list \<Rightarrow> address list \<Rightarrow> metadata \<Rightarrow> token_info list \<times> metadata" where
  "discover_tokens env s net pools flash_reserves cache =
     (let (tokens, cache') = extend_tokens_with_discovered env s net pools flash_reserves (configured_tokens s) cache
      in (apply_aave_flash_reserves flash_reserves tokens, cache'))"

section \<open>Prices from pools\<close>

definition derive_price_from_balances :: "u64 \<Rightarrow> u128 \<Rightarrow> u8 \<Rightarrow> u128 \<Rightarrow> u128 \<Rightarrow> u8 \<Rightarrow> u128 \<Rightarrow> u64 option" where
  "derive_price_from_balances known_price known_balance known_decimals known_weight unknown_balance unknown_decimals unknown_weight =
     (if known_price = 0 \<or> known_balance = 0 \<or> unknown_balance = 0 \<or> known_weight = 0 \<or> unknown_weight = 0 then None
      else
        Option.bind (checked_mul (ucast known_price :: u256) (u256_of known_balance)) (\<lambda>n1.
        Option.bind (checked_mul n1 (u256_of unknown_weight)) (\<lambda>n2.
        Option.bind (checked_mul n2 (pow10_u256 unknown_decimals)) (\<lambda>numerator.
        Option.bind (checked_mul (u256_of unknown_balance) (u256_of known_weight)) (\<lambda>d1.
        Option.bind (checked_mul d1 (pow10_u256 known_decimals)) (\<lambda>denominator.
          if denominator = 0 then None
          else Option.bind (checked_div numerator denominator) (\<lambda>v.
            if v = 0 \<or> 2 ^ 64 \<le> unat v then None else Some (word_of_nat (unat v)))))))))"

type_synonym prices = "(address \<times> u64) list"

type_synonym estimates = "(address \<times> u64 list) list"

definition add_estimate :: "address \<Rightarrow> u64 \<Rightarrow> estimates \<Rightarrow> estimates" where
  "add_estimate a v es = AList.update a (unwrap_or (map_of es a) [] @ [v]) es"

definition weight_at :: "u128 list option \<Rightarrow> nat \<Rightarrow> u128" where
  "weight_at weights i = unwrap_or (Option.bind weights (\<lambda>ws. nth_opt ws i)) 1"

text \<open>The balance of the i-th token, when it is large enough to price from, and the token's decimals.\<close>

definition usable_balance :: "u128 list \<Rightarrow> (address \<rightharpoonup> u8) \<Rightarrow> address \<Rightarrow> nat \<Rightarrow> (u128 \<times> u8) option" where
  "usable_balance balances decimals a i =
     Option.bind (filter_opt (\<lambda>b. 10000 < b) (nth_opt balances i)) (\<lambda>b. map_option (Pair b) (decimals a))"

definition balance_price ::
  "address list \<Rightarrow> u128 list \<Rightarrow> u128 list option \<Rightarrow> (address \<rightharpoonup> u8) \<Rightarrow> prices \<Rightarrow> nat \<times> nat \<Rightarrow> (address \<times> u64) option" where
  "balance_price addresses balances weights decimals prices ij =
     (case ij of (i, j) \<Rightarrow>
        let known = addresses ! i; unknown = addresses ! j in
        if i = j \<or> map_of prices unknown \<noteq> None then None
        else Option.bind (map_of prices known) (\<lambda>known_price.
          Option.bind (usable_balance balances decimals known i) (\<lambda>(known_balance, known_decimals).
          Option.bind (usable_balance balances decimals unknown j) (\<lambda>(unknown_balance, unknown_decimals).
            map_option (Pair unknown) (derive_price_from_balances known_price known_balance known_decimals (weight_at weights i)
              unknown_balance unknown_decimals (weight_at weights j))))))"

definition collect_balance_price_estimates ::
  "address list \<Rightarrow> u128 list \<Rightarrow> u128 list option \<Rightarrow> (address \<rightharpoonup> u8) \<Rightarrow> prices \<Rightarrow> estimates \<Rightarrow> estimates" where
  "collect_balance_price_estimates addresses balances weights decimals prices es =
     fold (\<lambda>(a, v). add_estimate a v)
       (List.map_filter (balance_price addresses balances weights decimals prices)
         (List.product [0..<length addresses] [0..<length addresses])) es"

definition push_price_estimate :: "address \<Rightarrow> f64 \<Rightarrow> estimates \<Rightarrow> estimates" where
  "push_price_estimate a price es =
     (if is_finite price \<and> f_lt f_zero price \<and> f_le price (f64_of_nat (2 ^ 64 - 1)) then add_estimate a (f64_as_word price) es else es)"

text \<open>The text of a number read as \<open>f64\<close> is the nearest one, as the conversion gives.\<close>

definition v3_human_ratio :: "libm \<Rightarrow> u256 \<Rightarrow> u8 \<Rightarrow> u8 \<Rightarrow> f64 option" where
  "v3_human_ratio lm sqrt_price_x96 decimals0 decimals1 =
     (let sqrt = f_div (u256_to_f64 sqrt_price_x96) (f_lit (2 ^ 96)); raw_ratio = f_mul sqrt sqrt in
      if \<not> is_finite raw_ratio \<or> f_le raw_ratio f_zero then None
      else let human = f_mul raw_ratio (m_powi lm (f_lit 10) (int (unat decimals0) - int (unat decimals1)))
           in if \<not> is_finite human \<or> f_le human f_zero then None else Some human)"

definition collect_v3_price_estimates ::
  "libm \<Rightarrow> address \<Rightarrow> address \<Rightarrow> u256 \<Rightarrow> (address \<rightharpoonup> u8) \<Rightarrow> prices \<Rightarrow> estimates \<Rightarrow> estimates" where
  "collect_v3_price_estimates lm token0 token1 sqrt_price_x96 decimals prices es =
     (case (decimals token0, decimals token1) of
        (Some d0, Some d1) \<Rightarrow>
          (case v3_human_ratio lm sqrt_price_x96 d0 d1 of
             None \<Rightarrow> es
           | Some human \<Rightarrow>
               let es1 = (case map_of prices token0 of
                     Some price0 \<Rightarrow> push_price_estimate token1 (f_round (f_div (f64_of_word price0) human)) es | None \<Rightarrow> es)
               in (case map_of prices token1 of
                     Some price1 \<Rightarrow> push_price_estimate token0 (f_round (f_mul (f64_of_word price1) human)) es1 | None \<Rightarrow> es1))
      | _ \<Rightarrow> es)"

definition pool_estimates :: "libm \<Rightarrow> (address \<rightharpoonup> u8) \<Rightarrow> prices \<Rightarrow> pool_state \<Rightarrow> estimates \<Rightarrow> estimates" where
  "pool_estimates lm decimals prices pool es =
     (let addresses = ps_token_addresses pool; two = (length addresses = 2) in
      case ps_state pool of
        S_UniswapV2Like s \<Rightarrow>
          if two then collect_balance_price_estimates addresses [v2_reserve0 s, v2_reserve1 s] None decimals prices es else es
      | S_AerodromeV2Like s \<Rightarrow>
          if two then collect_balance_price_estimates addresses [av2_reserve0 s, av2_reserve1 s] None decimals prices es else es
      | S_CurvePlain s \<Rightarrow> collect_balance_price_estimates addresses (cv_balances s) None decimals prices es
      | S_BalancerWeighted s \<Rightarrow>
          collect_balance_price_estimates addresses (bl_balances s) (Some (bl_normalized_weights_1e18 s)) decimals prices es
      | S_UniswapV3Like s \<Rightarrow>
          if two then collect_v3_price_estimates lm (addresses ! 0) (addresses ! 1) (v3_sqrt_price_x96 s) decimals prices es else es
      | _ \<Rightarrow> es)"

definition median_price :: "u64 list \<Rightarrow> u64" where
  "median_price vs = sort vs ! (length vs div 2)"

text \<open>The prices a round adds; the state is the tokens, the prices and whether something changed.\<close>

definition settle_estimate ::
  "(address \<rightharpoonup> nat) \<Rightarrow> address \<times> u64 list \<Rightarrow> token_info list \<times> prices \<times> bool \<Rightarrow> token_info list \<times> prices \<times> bool" where
  "settle_estimate idx e st =
     (case (e, st) of ((a, vs), (tokens, prices, changed)) \<Rightarrow>
        if map_of prices a \<noteq> None \<or> vs = [] then st
        else case idx a of
          None \<Rightarrow> st
        | Some i \<Rightarrow>
            let price = median_price vs
            in (tokens[i := (tokens ! i)\<lparr>t_manual_price_usd_e8 := Some price\<rparr>], AList.update a price prices, True))"

definition price_round ::
  "libm \<Rightarrow> (address \<rightharpoonup> nat) \<Rightarrow> (address \<rightharpoonup> u8) \<Rightarrow> pool_state list \<Rightarrow> token_info list \<times> prices \<Rightarrow> token_info list \<times> prices \<times> bool" where
  "price_round lm idx decimals pools tp =
     (case tp of (tokens, prices) \<Rightarrow>
        fold (settle_estimate idx) (fold (pool_estimates lm decimals prices) pools []) (tokens, prices, False))"

fun price_rounds ::
  "libm \<Rightarrow> (address \<rightharpoonup> nat) \<Rightarrow> (address \<rightharpoonup> u8) \<Rightarrow> pool_state list \<Rightarrow> nat \<Rightarrow> token_info list \<times> prices \<Rightarrow> token_info list" where
  "price_rounds lm idx decimals pools 0 tp = fst tp"
| "price_rounds lm idx decimals pools (Suc n) tp =
     (case price_round lm idx decimals pools tp of
        (tokens, prices, changed) \<Rightarrow> if changed then price_rounds lm idx decimals pools n (tokens, prices) else tokens)"

definition derive_missing_prices_from_pools :: "libm \<Rightarrow> pool_state list \<Rightarrow> token_info list \<Rightarrow> token_info list" where
  "derive_missing_prices_from_pools lm pools tokens =
     price_rounds lm (index_tokens tokens) (map_of (rev (map (\<lambda>t. (t_address t, t_decimals t)) tokens))) pools 5
       (tokens, fold (\<lambda>t ps. case t_manual_price_usd_e8 t of Some v \<Rightarrow> AList.update (t_address t) v ps | None \<Rightarrow> ps) tokens [])"

definition derive_pool_prices_enabled :: "env \<Rightarrow> bool" where
  "derive_pool_prices_enabled env = env_bool env ''DERIVE_POOL_PRICES'' False"

section \<open>Derived prices\<close>

lemma pow10_small: "unat d \<le> 77 \<Longrightarrow> unat (pow10_u256 d) = 10 ^ unat d"
proof -
  assume "unat d \<le> 77"
  then have "(10::nat) ^ unat d \<le> 10 ^ 77" by (rule power_increasing) simp
  also have "(10::nat) ^ 77 < 2 ^ 256" by simp
  finally show ?thesis by (simp only: unat_pow10 mod_less)
qed

text \<open>a price derived from a pool is the pool's weighted spot price, rounded down: the value of the known balance per
  weight over the unknown balance per weight, each in whole tokens. It is never 0, and nothing wraps.\<close>

theorem derived_price_exact:
  assumes "derive_price_from_balances price kb kd kw ub ud uw = Some p" and "unat kd \<le> 77" and "unat ud \<le> 77"
  shows "unat p = (unat price * unat kb * unat uw * 10 ^ unat ud) div (unat ub * unat kw * 10 ^ unat kd)" and "0 < unat p"
proof -
  let ?price = "ucast price :: u256"
  have pr: "unat ?price = unat price" by (rule unat_ucast_up) simp
  from assms(1) obtain n1 n2 n d1 d v
    where "checked_mul ?price (u256_of kb) = Some n1" "checked_mul n1 (u256_of uw) = Some n2"
      and "checked_mul n2 (pow10_u256 ud) = Some n" "checked_mul (u256_of ub) (u256_of kw) = Some d1"
      and "checked_mul d1 (pow10_u256 kd) = Some d" "checked_div n d = Some v"
      and p: "v \<noteq> 0" "unat v < 2 ^ 64" "p = word_of_nat (unat v)"
    by (auto simp: derive_price_from_balances_def bind_eq_Some_conv split: if_splits)
  then have v: "unat v = (unat price * unat kb * unat uw * 10 ^ unat ud) div (unat ub * unat kw * 10 ^ unat kd)"
    using assms(2,3) by (simp add: checked_Some pr unat_u256_of pow10_small)
  have "unat p = unat v" using p(2) unfolding p(3) by (intro unat_word_of_nat_less) simp
  moreover have "0 < unat v" using p(1) by (simp add: unat_gt_0)
  ultimately show "unat p = (unat price * unat kb * unat uw * 10 ^ unat ud) div (unat ub * unat kw * 10 ^ unat kd)" "0 < unat p"
    using v by simp_all
qed

theorem derived_price_exact_witness:
  "\<exists>p. derive_price_from_balances 100000000 2000000000 6 1 1000000000000000000 18 1 = Some p \<and> unat p = 200000000000"
proof -
  obtain p where d: "derive_price_from_balances 100000000 2000000000 6 1 1000000000000000000 18 1 = Some p"
    by (simp add: derive_price_from_balances_def checked_mul_def checked_div_def u256_of_def pow10_u256_def)
  from derived_price_exact(1) [OF d] d show ?thesis by simp
qed

text \<open>What a derivation may change: the price of a token that has none.\<close>

definition only_prices_added :: "token_info list \<Rightarrow> token_info list \<Rightarrow> bool" where
  "only_prices_added tokens tokens' \<longleftrightarrow>
     list_all2 (\<lambda>t t'. \<exists>v. t' = t\<lparr>t_manual_price_usd_e8 := v\<rparr> \<and> (t_manual_price_usd_e8 t \<noteq> None \<longrightarrow> v = t_manual_price_usd_e8 t))
       tokens tokens'"

definition prices_cover :: "token_info list \<Rightarrow> prices \<Rightarrow> bool" where
  "prices_cover tokens prices \<longleftrightarrow>
     (\<forall>t\<in>set tokens. t_manual_price_usd_e8 t \<noteq> None \<longrightarrow> map_of prices (t_address t) \<noteq> None)"

lemma token_by_index:
  assumes "index_tokens tokens a = Some i"
  shows "i < length tokens \<and> t_address (tokens ! i) = a"
proof -
  from assms have "(a, i) \<in> set (zip (map t_address tokens) [0..<length tokens])"
    by (auto simp: index_tokens_def dest!: map_of_SomeD)
  then show ?thesis by (auto simp: in_set_zip)
qed

lemma settle_estimate_inv:
  assumes ok: "only_prices_added tokens0 tokens \<and> prices_cover tokens prices"
    and idx: "\<And>a i. idx a = Some i \<Longrightarrow> i < length tokens0 \<and> t_address (tokens0 ! i) = a"
    and step: "settle_estimate idx e (tokens, prices, changed) = (tokens', prices', changed')"
  shows "only_prices_added tokens0 tokens' \<and> prices_cover tokens' prices'"
proof -
  obtain a vs where e: "e = (a, vs)" by (cases e)
  show ?thesis
  proof (cases "map_of prices a \<noteq> None \<or> vs = [] \<or> idx a = None")
    case True
    with step ok show ?thesis by (auto simp: settle_estimate_def e split: option.splits)
  next
    case False
    then obtain i where i: "idx a = Some i" and a: "map_of prices a = None" by auto
    note b = idx [OF i]
    have l: "length tokens = length tokens0" using ok by (auto simp: only_prices_added_def dest: list_all2_lengthD)
    from ok have "list_all2 (\<lambda>t t'. \<exists>v. t' = t\<lparr>t_manual_price_usd_e8 := v\<rparr> \<and>
        (t_manual_price_usd_e8 t \<noteq> None \<longrightarrow> v = t_manual_price_usd_e8 t)) tokens0 tokens" by (simp only: only_prices_added_def)
    from list_all2_nthD [OF this] b obtain v where v: "tokens ! i = (tokens0 ! i)\<lparr>t_manual_price_usd_e8 := v\<rparr>"
        "t_manual_price_usd_e8 (tokens0 ! i) \<noteq> None \<longrightarrow> v = t_manual_price_usd_e8 (tokens0 ! i)"
      by blast
    then have at: "t_address (tokens ! i) = a" using b by simp
    have m: "tokens ! i \<in> set tokens" using b l by simp
    from ok have "\<forall>t\<in>set tokens. t_manual_price_usd_e8 t \<noteq> None \<longrightarrow> map_of prices (t_address t) \<noteq> None"
      unfolding prices_cover_def by (rule conjunct2)
    from bspec [OF this m] have none: "t_manual_price_usd_e8 (tokens ! i) = None" unfolding at a by blast
    from step False i have st: "tokens' = tokens[i := (tokens ! i)\<lparr>t_manual_price_usd_e8 := Some (median_price vs)\<rparr>]"
      and pr: "prices' = AList.update a (median_price vs) prices"
      by (auto simp: settle_estimate_def e Let_def)
    have n0: "t_manual_price_usd_e8 (tokens0 ! i) = None" using v none by (cases "t_manual_price_usd_e8 (tokens0 ! i)") auto
    let ?P = "\<lambda>t t'. \<exists>v. t' = t\<lparr>t_manual_price_usd_e8 := v\<rparr> \<and> (t_manual_price_usd_e8 t \<noteq> None \<longrightarrow> v = t_manual_price_usd_e8 t)"
    have "?P (tokens0 ! j) (tokens' ! j)" if "j < length tokens0" for j
    proof (cases "j = i")
      case True
      with b l v(1) have "tokens' ! j = (tokens0 ! j)\<lparr>t_manual_price_usd_e8 := Some (median_price vs)\<rparr>" by (simp add: st)
      with True n0 show ?thesis by blast
    next
      case False
      then have "tokens' ! j = tokens ! j" by (simp add: st)
      moreover have "?P (tokens0 ! j) (tokens ! j)" using ok that unfolding only_prices_added_def by (blast dest: list_all2_nthD)
      ultimately show ?thesis by simp
    qed
    then have "only_prices_added tokens0 tokens'" using l unfolding only_prices_added_def by (intro list_all2_all_nthI) (simp_all add: st)
    moreover have "prices_cover tokens' prices'"
      unfolding prices_cover_def
    proof
      fix t
      assume "t \<in> set tokens'"
      then consider "t \<in> set tokens" | "t = (tokens ! i)\<lparr>t_manual_price_usd_e8 := Some (median_price vs)\<rparr>"
        using set_update_subset_insert unfolding st by fastforce
      then show "t_manual_price_usd_e8 t \<noteq> None \<longrightarrow> map_of prices' (t_address t) \<noteq> None"
      proof cases
        case 1
        from ok 1 have "t_manual_price_usd_e8 t \<noteq> None \<longrightarrow> map_of prices (t_address t) \<noteq> None" unfolding prices_cover_def by blast
        then show ?thesis by (simp add: pr update_conv)
      qed (simp add: at pr update_conv)
    qed
    ultimately show ?thesis by simp
  qed
qed

lemma fold_settle_inv:
  assumes "\<And>a i. idx a = Some i \<Longrightarrow> i < length tokens0 \<and> t_address (tokens0 ! i) = a"
  shows "only_prices_added tokens0 tokens \<and> prices_cover tokens prices \<Longrightarrow>
    fold (settle_estimate idx) es (tokens, prices, changed) = (tokens', prices', changed') \<Longrightarrow>
    only_prices_added tokens0 tokens' \<and> prices_cover tokens' prices'"
proof (induction es arbitrary: tokens prices changed)
  case (Cons e es)
  obtain tokens1 prices1 changed1 where s: "settle_estimate idx e (tokens, prices, changed) = (tokens1, prices1, changed1)"
    by (cases "settle_estimate idx e (tokens, prices, changed)")
  from settle_estimate_inv [OF Cons.prems(1) assms s] Cons.IH Cons.prems(2) s show ?case by simp
qed simp

lemma price_rounds_inv:
  assumes "\<And>a i. idx a = Some i \<Longrightarrow> i < length tokens0 \<and> t_address (tokens0 ! i) = a"
  shows "only_prices_added tokens0 tokens \<and> prices_cover tokens prices \<Longrightarrow>
    only_prices_added tokens0 (price_rounds lm idx decimals pools n (tokens, prices))"
proof (induction n arbitrary: tokens prices)
  case (Suc n)
  obtain tokens1 prices1 changed1 where s: "price_round lm idx decimals pools (tokens, prices) = (tokens1, prices1, changed1)"
    by (cases "price_round lm idx decimals pools (tokens, prices)")
  then have "only_prices_added tokens0 tokens1 \<and> prices_cover tokens1 prices1"
    using fold_settle_inv [OF assms Suc.prems] by (simp add: price_round_def)
  with Suc.IH s show ?case by simp
qed simp

lemma derive_only_adds_prices: "only_prices_added tokens (derive_missing_prices_from_pools lm pools tokens)"
proof -
  let ?add = "\<lambda>t ps. case t_manual_price_usd_e8 t of Some v \<Rightarrow> AList.update (t_address t) v ps | None \<Rightarrow> ps"
  have keep: "map_of ps a \<noteq> None \<Longrightarrow> map_of (fold ?add ts ps) a \<noteq> None" for ts ps a
    by (induction ts arbitrary: ps) (auto simp: update_conv split: option.splits)
  have "prices_cover ts (fold ?add ts ps)" for ts ps
    unfolding prices_cover_def
  proof (induction ts arbitrary: ps)
    case (Cons t ts)
    have "map_of (fold ?add ts (?add t ps)) (t_address t) \<noteq> None" if "t_manual_price_usd_e8 t \<noteq> None"
      using that by (intro keep) (auto simp: update_conv)
    with Cons show ?case by simp
  qed simp
  moreover have "only_prices_added tokens tokens" unfolding only_prices_added_def
  proof (rule list.rel_refl)
    fix t :: token_info
    have "t = t\<lparr>t_manual_price_usd_e8 := t_manual_price_usd_e8 t\<rparr>" by (cases t) simp
    then show "\<exists>v. t = t\<lparr>t_manual_price_usd_e8 := v\<rparr> \<and> (t_manual_price_usd_e8 t \<noteq> None \<longrightarrow> v = t_manual_price_usd_e8 t)"
      by blast
  qed
  ultimately show ?thesis unfolding derive_missing_prices_from_pools_def
    by (intro price_rounds_inv token_by_index) simp_all
qed

section \<open>The token list\<close>

lemma unknown_addresses_set: "set (unknown_addresses known as) = set as - known" and unknown_addresses_distinct: "distinct (unknown_addresses known as)"
  by (induction known as rule: unknown_addresses.induct) auto

text \<open>discovery only appends to the token list: one token for each address that a pool or a lending reserve names and
  that no token has yet, unless the policy excludes its symbol. Addresses stay distinct, and a token that is appended can
  start a cycle exactly when it can be borrowed.\<close>

theorem extended_tokens_sound:
  assumes "distinct (map t_address tokens)"
    and "extend_tokens_with_discovered env s net pools reserves tokens cache = (tokens', cache')"
  shows "\<exists>added. tokens' = tokens @ added \<and> distinct (map t_address tokens') \<and>
    set (map t_address tokens') \<subseteq> set (map t_address tokens) \<union> set (concat (map ps_token_addresses pools)) \<union> set reserves \<and>
    list_all (\<lambda>t. symbol_allowed (st_policy s) (t_symbol t) \<and> t_is_cycle_anchor t = (t_address t \<in> set reserves) \<and>
      t_flash_loan_enabled t = (t_address t \<in> set reserves)) added"
proof -
  let ?new = "discovered_addresses tokens pools reserves"
  obtain found cache2 where f: "fetch_token_metadata_batch env net ?new cache = (found, cache2)" by force
  let ?token = "\<lambda>a. discovered_token reserves a (unwrap_or (map_of found a) (tn_show_address net a, 18))"
  let ?added = "filter (\<lambda>t. symbol_allowed (st_policy s) (t_symbol t)) (map ?token ?new)"
  have t': "tokens' = tokens @ ?added" using assms(2) f by (simp add: extend_tokens_with_discovered_def Let_def)
  define added where "added = ?added"
  have addr: "map t_address (map ?token as) = as" for as by (induction as) (simp_all add: discovered_token_def)
  have new: "set ?new = set (concat (map ps_token_addresses pools) @ reserves) - set (map t_address tokens)" "distinct ?new"
    unfolding discovered_addresses_def by (simp_all only: unknown_addresses_set unknown_addresses_distinct)
  have sub: "set (map t_address ?added) \<subseteq> set ?new" by (auto simp: discovered_token_def)
  have "distinct (map t_address ?added)" by (rule distinct_map_filter) (simp only: addr new(2))
  then have da: "distinct (map t_address added)" unfolding added_def .
  have sub: "set (map t_address added) \<subseteq> set (concat (map ps_token_addresses pools) @ reserves) - set (map t_address tokens)"
    using sub new(1) unfolding added_def by simp
  have t'': "tokens' = tokens @ added" unfolding t' added_def ..
  have d: "distinct (map t_address tokens')"
    unfolding t'' map_append distinct_append using assms(1) da sub by blast
  have s: "set (map t_address tokens') \<subseteq> set (map t_address tokens) \<union> set (concat (map ps_token_addresses pools)) \<union> set reserves"
    unfolding t'' map_append set_append using sub by (auto simp only: set_append)
  have "list_all (\<lambda>t. symbol_allowed (st_policy s) (t_symbol t) \<and> t_is_cycle_anchor t = (t_address t \<in> set reserves) \<and>
      t_flash_loan_enabled t = (t_address t \<in> set reserves)) added"
    unfolding added_def by (auto simp: list_all_iff discovered_token_def)
  with t'' d s show ?thesis by blast
qed

theorem extended_tokens_sound_witness:
  "\<forall>env s net pool. \<exists>tokens' cache'.
     extend_tokens_with_discovered env s net [pool] [5] [] [] = (tokens', cache') \<and> distinct (map t_address tokens')"
proof (intro allI)
  fix env s net pool
  obtain tokens' cache' where e: "extend_tokens_with_discovered env s net [pool] [5] [] [] = (tokens', cache')" by force
  with extended_tokens_sound [OF _ e]
  show "\<exists>tokens' cache'. extend_tokens_with_discovered env s net [pool] [5] [] [] = (tokens', cache') \<and> distinct (map t_address tokens')"
    by auto
qed

text \<open>deriving prices from pools changes nothing but the price of tokens that have none: a price that is configured,
  or of a stable token, is never overwritten.\<close>

theorem derivation_keeps_prices: "only_prices_added tokens (derive_missing_prices_from_pools lm pools tokens)"
  by (rule derive_only_adds_prices)

end
