(* ===== verification/Event_Decode.thy ===== *)
theory Event_Decode
  imports Graph_Model Rpc_Client Bytes "HOL-Library.AList"
begin

text \<open>
  From logs to refresh triggers: the decoders, the batch and the memory of seen logs of
  \<open>src/discovery/event_stream.rs\<close>. \<open>keccak\<close> and the hasher of the standard library's \<open>DefaultHasher\<close> are arguments. A
  pool's triggers are kept in the order of their first lg (a \<open>HashMap\<close> in the source, whose order is not specified).
  \<open>Inl ()\<close> is the panic of \<open>Vec::with_capacity\<close> on a length no allocation can have.
\<close>

section \<open>Words of log data\<close>

definition usize_opt :: "nat \<Rightarrow> nat option" where
  "usize_opt n = (if n < 2 ^ 64 then Some n else None)"

definition get_range :: "u8 list \<Rightarrow> nat \<Rightarrow> nat \<Rightarrow> u8 list option" where
  "get_range dat a b = (if a \<le> b \<and> b \<le> length dat then Some (take (b - a) (drop a dat)) else None)"

definition bytes_at :: "u8 list \<Rightarrow> nat \<Rightarrow> u8 list option" where
  "bytes_at dat start = Option.bind (usize_opt (start + 32)) (get_range dat start)"

definition word_at :: "u8 list \<Rightarrow> nat \<Rightarrow> u8 list option" where
  "word_at dat index = Option.bind (usize_opt (index * 32)) (bytes_at dat)"

definition low_u128 :: "u8 list \<Rightarrow> u128" where
  "low_u128 bs = word_of_nat (be_value (take 16 (drop 16 bs)))"

definition word_u128 :: "u8 list \<Rightarrow> nat \<Rightarrow> u128 option" where
  "word_u128 dat index = map_option low_u128 (word_at dat index)"

definition usize_of_u128 :: "u128 \<Rightarrow> nat option" where
  "usize_of_u128 v = usize_opt (unat v)"

definition word_usize :: "u8 list \<Rightarrow> nat \<Rightarrow> nat option" where
  "word_usize dat index = Option.bind (word_u128 dat index) usize_of_u128"

definition word_u256 :: "u8 list \<Rightarrow> nat \<Rightarrow> u256 option" where
  "word_u256 dat index = map_option (\<lambda>bs. word_of_nat (be_value bs)) (word_at dat index)"

text \<open>The or of three bytes shifted apart is their sum; the bits above a set sign bit are filled.\<close>

definition word_i24 :: "u8 list \<Rightarrow> nat \<Rightarrow> int option" where
  "word_i24 dat index =
     map_option (\<lambda>bs. let raw = int (be_value (drop 29 bs)) in if raw < 2 ^ 23 then raw else raw - 2 ^ 24) (word_at dat index)"

definition word_i128_at :: "u8 list \<Rightarrow> nat \<Rightarrow> i128 option" where
  "word_i128_at dat byte_offset =
     Option.bind (bytes_at dat byte_offset) (\<lambda>bs.
       let negative = 128 \<le> hd bs in
       if negative \<and> \<not> list_all (\<lambda>b. b = 255) (take 16 bs) then None
       else if \<not> negative \<and> \<not> list_all (\<lambda>b. b = 0) (take 16 bs) then None
       else Some (as_i128 (low_u128 bs)))"

definition word_u128_at_offset :: "u8 list \<Rightarrow> nat \<Rightarrow> u128 option" where
  "word_u128_at_offset dat byte_offset = map_option low_u128 (bytes_at dat byte_offset)"

definition address_of_bytes :: "u8 list \<Rightarrow> address" where
  "address_of_bytes bs = word_of_nat (be_value (drop 12 bs))"

definition topic_to_address :: "b256 \<Rightarrow> address" where
  "topic_to_address topic = ucast topic"

section \<open>Arrays\<close>

fun array_from :: "(nat \<Rightarrow> 'a option) \<Rightarrow> nat \<Rightarrow> nat \<Rightarrow> 'a list option" where
  "array_from read idx 0 = Some []"
| "array_from read idx (Suc n) = Option.bind (read idx) (\<lambda>x. map_option ((#) x) (array_from read (Suc idx) n))"

definition element_start :: "nat \<Rightarrow> nat \<Rightarrow> nat option" where
  "element_start offset idx =
     Option.bind (usize_opt (offset + 32)) (\<lambda>base. Option.bind (usize_opt (idx * 32)) (\<lambda>skip. usize_opt (base + skip)))"

text \<open>\<open>Vec::with_capacity\<close> panics when the array would be larger than half of the address space.\<close>

definition array_at :: "nat \<Rightarrow> (u8 list \<Rightarrow> nat \<Rightarrow> 'a option) \<Rightarrow> u8 list \<Rightarrow> nat \<Rightarrow> unit + 'a list option" where
  "array_at element_size read dat offset =
     (case Option.bind (word_u128_at_offset dat offset) usize_of_u128 of
        None \<Rightarrow> Inr None
      | Some len \<Rightarrow>
          if 2 ^ 63 \<le> len * element_size then Inl ()
          else Inr (array_from (\<lambda>idx. Option.bind (element_start offset idx) (read dat)) 0 len))"

definition address_array :: "u8 list \<Rightarrow> nat \<Rightarrow> unit + address list option" where
  "address_array = array_at 20 (\<lambda>dat start. map_option address_of_bytes (bytes_at dat start))"

definition i128_array :: "u8 list \<Rightarrow> nat \<Rightarrow> unit + i128 list option" where
  "i128_array = array_at 16 word_i128_at"

section \<open>Patches\<close>

definition sync_patch :: "rpc_log \<Rightarrow> pool_state_patch option" where
  "sync_patch lg =
     Option.bind (word_u128 (lg_data lg) 0) (\<lambda>r0. Option.bind (word_u128 (lg_data lg) 1) (\<lambda>r1.
       Some (UniswapV2Sync (lg_address lg) r0 r1 (lg_block_number lg))))"

definition v3_swap_patch :: "rpc_log \<Rightarrow> pool_state_patch option" where
  "v3_swap_patch lg =
     Option.bind (word_u256 (lg_data lg) 2) (\<lambda>price. Option.bind (word_u128 (lg_data lg) 3) (\<lambda>liquidity.
       Option.bind (word_i24 (lg_data lg) 4) (\<lambda>tick.
         Some (UniswapV3Swap (lg_address lg) price liquidity tick (lg_block_number lg)))))"

definition v3_initialize_patch :: "pool_state \<Rightarrow> rpc_log \<Rightarrow> pool_state_patch option" where
  "v3_initialize_patch pool lg =
     (let liquidity = (case ps_state pool of S_UniswapV3Like state \<Rightarrow> v3_liquidity state | _ \<Rightarrow> 0) in
      Option.bind (word_u256 (lg_data lg) 0) (\<lambda>price. Option.bind (word_i24 (lg_data lg) 1) (\<lambda>tick.
        Some (UniswapV3Swap (lg_address lg) price liquidity tick (lg_block_number lg)))))"

definition decode_pool_patch :: "(string \<Rightarrow> b256) \<Rightarrow> graph_snapshot \<Rightarrow> rpc_log \<Rightarrow> pool_state_patch option" where
  "decode_pool_patch keccak g lg =
     Option.bind (pool_of g (lg_address lg)) (\<lambda>pool.
     Option.bind (nth_opt (lg_topics lg) 0) (\<lambda>topic0.
       if ps_kind pool = UniswapV2Like \<and> topic0 = keccak ''Sync(uint112,uint112)'' then sync_patch lg
       else if ps_kind pool = AerodromeV2Like \<and> topic0 = keccak ''Sync(uint256,uint256)'' then sync_patch lg
       else if ps_kind pool = UniswapV3Like then
         (if topic0 = keccak ''Swap(address,address,int256,int256,uint160,uint128,int24)'' then v3_swap_patch lg
          else if topic0 = keccak ''Initialize(uint160,int24)'' then v3_initialize_patch pool lg
          else None)
       else None))"

definition balancer_swap_patch :: "address \<Rightarrow> rpc_log \<Rightarrow> pool_state_patch option" where
  "balancer_swap_patch pool_id lg =
     Option.bind (word_u128 (lg_data lg) 0) (\<lambda>amount_in. Option.bind (word_u128 (lg_data lg) 1) (\<lambda>amount_out.
       Some (BalancerSwap pool_id (topic_to_address (lg_topics lg ! 2)) (topic_to_address (lg_topics lg ! 3))
         amount_in amount_out (lg_block_number lg))))"

definition balance_changed_patch :: "address \<Rightarrow> rpc_log \<Rightarrow> unit + pool_state_patch option" where
  "balance_changed_patch pool_id lg =
     (case Option.bind (word_usize (lg_data lg) 0) (\<lambda>t. map_option (Pair t) (word_usize (lg_data lg) 1)) of
        None \<Rightarrow> Inr None
      | Some (token_offset, delta_offset) \<Rightarrow>
          res_bind (address_array (lg_data lg) token_offset) (\<lambda>tokens.
            case tokens of None \<Rightarrow> Inr None | Some tokens \<Rightarrow>
          res_bind (i128_array (lg_data lg) delta_offset) (\<lambda>deltas.
            case deltas of None \<Rightarrow> Inr None | Some deltas \<Rightarrow>
              Inr (if length tokens = length deltas
                   then Some (BalancerBalanceChanged pool_id tokens deltas (lg_block_number lg)) else None))))"

definition decode_balancer_vault_patch :: "(string \<Rightarrow> b256) \<Rightarrow> address \<Rightarrow> rpc_log \<Rightarrow> unit + pool_state_patch option" where
  "decode_balancer_vault_patch keccak pool_id lg =
     (case nth_opt (lg_topics lg) 0 of
        None \<Rightarrow> Inr None
      | Some topic0 \<Rightarrow>
          if topic0 = keccak ''Swap(bytes32,address,address,uint256,uint256)'' \<and> 4 \<le> length (lg_topics lg)
          then Inr (balancer_swap_patch pool_id lg)
          else if topic0 = keccak ''PoolBalanceChanged(bytes32,address,address[],int256[],uint256[])''
          then balance_changed_patch pool_id lg
          else Inr None)"

section \<open>The batch\<close>

type_synonym triggers = "(address \<times> refresh_trigger) list"

definition upsert_trigger :: "address \<Rightarrow> refresh_trigger \<Rightarrow> triggers \<Rightarrow> triggers" where
  "upsert_trigger pool_id trigger ts =
     (case map_of ts pool_id of
        Some existing \<Rightarrow>
          if rt_full_refresh existing then ts
          else if rt_full_refresh trigger then AList.update pool_id trigger ts else ts
      | None \<Rightarrow> AList.update pool_id trigger ts)"

definition trigger_of :: "string \<Rightarrow> string \<Rightarrow> address \<Rightarrow> pool_state_patch option \<Rightarrow> refresh_trigger" where
  "trigger_of patched refreshed pool_id patch =
     \<lparr>rt_pool_id = Some pool_id, rt_full_refresh = (patch = None),
      rt_source = (if patch \<noteq> None then patched else refreshed), rt_patch = patch\<rparr>"

definition balancer_map :: "graph_snapshot \<Rightarrow> b256 \<Rightarrow> address option" where
  "balancer_map g =
     map_of (rev (List.map_filter
       (\<lambda>(a, pool). case ps_state pool of S_BalancerWeighted state \<Rightarrow> Some (bl_pool_id state, ps_pool_id pool) | _ \<Rightarrow> None)
       (gs_pools g)))"

text \<open>Which pool a log concerns, and the patch it carries.\<close>

definition log_trigger :: "(string \<Rightarrow> b256) \<Rightarrow> graph_snapshot \<Rightarrow> rpc_log \<Rightarrow> unit + (address \<times> refresh_trigger) option" where
  "log_trigger keccak g lg =
     (if pool_of g (lg_address lg) \<noteq> None then
        Inr (Some (lg_address lg,
          trigger_of ''pool-log-patch'' ''pool-log-refresh'' (lg_address lg) (decode_pool_patch keccak g lg)))
      else
        (case Option.bind (nth_opt (lg_topics lg) 1) (balancer_map g) of
           None \<Rightarrow> Inr None
         | Some pool_id \<Rightarrow>
             res_bind (decode_balancer_vault_patch keccak pool_id lg) (\<lambda>patch.
               Inr (Some (pool_id,
                 trigger_of ''balancer-vault-log-patch'' ''balancer-vault-log-refresh'' pool_id patch)))))"

definition add_log :: "(string \<Rightarrow> b256) \<Rightarrow> graph_snapshot \<Rightarrow> rpc_log \<Rightarrow> triggers \<Rightarrow> unit + triggers" where
  "add_log keccak g lg ts =
     res_bind (log_trigger keccak g lg) (\<lambda>t. Inr (case t of None \<Rightarrow> ts | Some (pool_id, trigger) \<Rightarrow> upsert_trigger pool_id trigger ts))"

definition build_refresh_batch :: "(string \<Rightarrow> b256) \<Rightarrow> graph_snapshot \<Rightarrow> rpc_log list \<Rightarrow> unit + refresh_batch" where
  "build_refresh_batch keccak g logs =
     res_bind (fold_res (add_log keccak g) logs []) (\<lambda>ts. Inr (map snd ts))"

section \<open>Filtering and the memory of seen logs\<close>

record log_key =
  lk_block_number :: "u64 option"
  lk_tx_hash :: "b256 option"
  lk_address :: address
  lk_topic0 :: "b256 option"
  lk_data_hash :: u64

definition log_key_of :: "(u8 list \<Rightarrow> u64) \<Rightarrow> rpc_log \<Rightarrow> log_key" where
  "log_key_of hash lg =
     \<lparr>lk_block_number = lg_block_number lg, lk_tx_hash = lg_tx_hash lg, lk_address = lg_address lg,
      lk_topic0 = nth_opt (lg_topics lg) 0, lk_data_hash = hash (lg_data lg)\<rparr>"

fun dedup_from :: "(u8 list \<Rightarrow> u64) \<Rightarrow> log_key set \<Rightarrow> rpc_log list \<Rightarrow> rpc_log list" where
  "dedup_from hash seen [] = []"
| "dedup_from hash seen (lg # logs) =
     (if log_key_of hash lg \<in> seen then dedup_from hash seen logs
      else lg # dedup_from hash (insert (log_key_of hash lg) seen) logs)"

definition dedup_logs :: "(u8 list \<Rightarrow> u64) \<Rightarrow> rpc_log list \<Rightarrow> rpc_log list" where
  "dedup_logs hash logs = dedup_from hash {} logs"

definition filter_watched_logs :: "address list \<Rightarrow> b256 list \<Rightarrow> rpc_log list \<Rightarrow> rpc_log list" where
  "filter_watched_logs addresses topics logs =
     filter (\<lambda>lg. case nth_opt (lg_topics lg) 0 of None \<Rightarrow> False | Some t \<Rightarrow> t \<in> set topics)
       (filter (\<lambda>lg. lg_address lg \<in> set addresses) logs)"

definition add_vault :: "pool_state \<Rightarrow> address list \<Rightarrow> address list" where
  "add_vault pool addresses =
     (case ps_vault pool of Some vault \<Rightarrow> if vault \<in> set addresses then addresses else addresses @ [vault] | None \<Rightarrow> addresses)"

definition watched_addresses :: "graph_snapshot \<Rightarrow> address list" where
  "watched_addresses g = fold add_vault (map snd (gs_pools g)) (map fst (gs_pools g))"

definition event_signatures :: "string list" where
  "event_signatures =
     [''Sync(uint112,uint112)'', ''Sync(uint256,uint256)'', ''Swap(address,address,int256,int256,uint160,uint128,int24)'',
      ''Mint(address,address,int24,int24,uint128,uint256,uint256)'', ''Burn(address,int24,int24,uint128,uint256,uint256)'',
      ''Initialize(uint160,int24)'', ''TokenExchange(address,int128,uint256,int128,uint256)'',
      ''TokenExchangeUnderlying(address,int128,uint256,int128,uint256)'',
      ''AddLiquidity(address,uint256[8],uint256[8],uint256,uint256)'', ''RemoveLiquidity(address,uint256[8],uint256[8],uint256)'',
      ''RemoveLiquidityOne(address,uint256,int128,uint256)'',
      ''RemoveLiquidityImbalance(address,uint256[8],uint256[8],uint256,uint256)'', ''RampA(uint256,uint256,uint256,uint256)'',
      ''StopRampA(uint256,uint256)'', ''Swap(bytes32,address,address,uint256,uint256)'',
      ''PoolBalanceChanged(bytes32,address,address[],int256[],uint256[])'']"

definition event_topics :: "(string \<Rightarrow> b256) \<Rightarrow> b256 list" where
  "event_topics keccak = map keccak event_signatures"

text \<open>The queue keeps the order in which the keys came; the set answers.\<close>

record recent_log_keys =
  rl_order :: "log_key list"
  rl_set :: "log_key set"

definition recent_log_keys_default :: recent_log_keys where
  "recent_log_keys_default = \<lparr>rl_order = [], rl_set = {}\<rparr>"

fun shrink_recent :: "nat \<Rightarrow> log_key list \<Rightarrow> log_key set \<Rightarrow> recent_log_keys" where
  "shrink_recent capacity [] keys = \<lparr>rl_order = [], rl_set = keys\<rparr>"
| "shrink_recent capacity (k # ks) keys =
     (if capacity < length (k # ks) then shrink_recent capacity ks (keys - {k}) else \<lparr>rl_order = k # ks, rl_set = keys\<rparr>)"

definition recent_insert :: "nat \<Rightarrow> log_key \<Rightarrow> recent_log_keys \<Rightarrow> recent_log_keys" where
  "recent_insert capacity key r =
     (let order = (if key \<in> rl_set r then rl_order r else rl_order r @ [key])
      in shrink_recent capacity order (insert key (rl_set r)))"

definition recent_contains :: "log_key \<Rightarrow> recent_log_keys \<Rightarrow> bool" where
  "recent_contains key r \<longleftrightarrow> key \<in> rl_set r"

definition recent_wss_log_capacity :: "env \<Rightarrow> nat" where
  "recent_wss_log_capacity env = env_usize env ''EVENT_WSS_RECENT_LOG_CACHE'' 100000"

definition record_wss_log_keys :: "env \<Rightarrow> (u8 list \<Rightarrow> u64) \<Rightarrow> rpc_log list \<Rightarrow> recent_log_keys \<Rightarrow> recent_log_keys" where
  "record_wss_log_keys env hash logs r =
     fold (\<lambda>lg. recent_insert (recent_wss_log_capacity env) (log_key_of hash lg)) logs r"

definition filter_seen_wss_logs :: "(u8 list \<Rightarrow> u64) \<Rightarrow> recent_log_keys \<Rightarrow> rpc_log list \<Rightarrow> rpc_log list" where
  "filter_seen_wss_logs hash r logs = filter (\<lambda>lg. \<not> recent_contains (log_key_of hash lg) r) logs"

section \<open>Reading back encoded data\<close>

definition abi_word :: "nat \<Rightarrow> u8 list" where
  "abi_word v = be_bytes 32 v"

lemma length_abi_word [simp]: "length (abi_word v) = 32"
  by (simp add: abi_word_def)

lemma concat_words_length: "length (concat (map abi_word vs)) = 32 * length vs"
  by (induction vs) simp_all

lemma concat_words_nth:
  "i < length vs \<Longrightarrow> take 32 (drop (32 * i) (concat (map abi_word vs))) = abi_word (vs ! i)"
proof (induction vs arbitrary: i)
  case (Cons v vs)
  then show ?case by (cases i) simp_all
qed simp

lemma word_at_words:
  assumes "i < length vs" and "length vs < 2 ^ 50"
  shows "word_at (concat (map abi_word vs)) i = Some (abi_word (vs ! i))"
proof -
  have "i * 32 < 2 ^ 64" "i * 32 + 32 < 2 ^ 64" using assms by simp_all
  moreover have "i * 32 + 32 \<le> length (concat (map abi_word vs))" using assms(1) unfolding concat_words_length by linarith
  ultimately show ?thesis
    using concat_words_nth [OF assms(1)] by (simp add: word_at_def bytes_at_def usize_opt_def get_range_def mult.commute)
qed

lemma be_bytes_split: "be_bytes (m + n) v = be_bytes m (v div 256 ^ n) @ be_bytes n v"
proof (induction n arbitrary: v)
  case (Suc n)
  have "be_bytes (Suc (m + n)) v = be_bytes (m + n) (v div 256) @ [word_of_nat v]" by (rule be_bytes_Suc)
  also have "\<dots> = be_bytes m (v div 256 div 256 ^ n) @ be_bytes n (v div 256) @ [word_of_nat v]" by (simp only: Suc append_assoc)
  also have "\<dots> = be_bytes m (v div 256 ^ Suc n) @ be_bytes (Suc n) v"
    by (simp only: be_bytes_Suc [of n] power_Suc div_mult2_eq)
  finally show ?case by simp
qed (simp add: be_bytes_def)

lemma low_u128_word: "low_u128 (abi_word v) = word_of_nat v"
proof -
  have "abi_word v = be_bytes 16 (v div 256 ^ 16) @ be_bytes 16 v"
    using be_bytes_split [of 16 16 v] by (simp add: abi_word_def)
  then have "low_u128 (abi_word v) = word_of_nat (be_value (be_bytes 16 v))" by (simp add: low_u128_def)
  also have "be_value (be_bytes 16 v) = v mod 2 ^ 128" by (simp add: be_value_bytes)
  finally show ?thesis by (simp add: word_of_nat_eq_iff take_bit_eq_mod)
qed

text \<open>the reserves of a Sync log are read back as they were encoded, for every reserve of 112 bits (and of 128).\<close>

theorem sync_log_read_back:
  assumes "lg_data l = concat (map abi_word [unat r0, unat r1])"
  shows "sync_patch l = Some (UniswapV2Sync (lg_address l) r0 r1 (lg_block_number l))"
proof -
  have "word_u128 (lg_data l) i = Some (word_of_nat ([unat r0, unat r1] ! i))" if "i < 2" for i
    unfolding assms word_u128_def using word_at_words [of i "[unat r0, unat r1]"] that by (simp add: low_u128_word)
  from this [of 0] this [of 1] show ?thesis by (simp add: sync_patch_def)
qed

definition sync_log :: "address \<Rightarrow> u128 \<Rightarrow> u128 \<Rightarrow> u64 \<Rightarrow> b256 \<Rightarrow> rpc_log" where
  "sync_log pool r0 r1 block topic =
     \<lparr>lg_address = pool, lg_topics = [topic], lg_data = concat (map abi_word [unat r0, unat r1]), lg_block_number = Some block,
      lg_block_hash = None, lg_tx_hash = None\<rparr>"

theorem sync_log_read_back_witness:
  "\<forall>topic. sync_patch (sync_log 9 1000 2000 7 topic) = Some (UniswapV2Sync 9 1000 2000 (Some 7))"
proof
  fix topic
  show "sync_patch (sync_log 9 1000 2000 7 topic) = Some (UniswapV2Sync 9 1000 2000 (Some 7))"
    using sync_log_read_back [of "sync_log 9 1000 2000 7 topic" 1000 2000] by (simp add: sync_log_def)
qed

lemma drop_be_bytes: "drop m (be_bytes (m + n) v) = be_bytes n v"
  by (simp add: be_bytes_split)

lemma drop_abi_word: "drop 29 (abi_word v) = be_bytes 3 v"
  using drop_be_bytes [of 29 3 v] by (simp add: abi_word_def)

lemma word_i24_of_word:
  assumes "word_at dat i = Some (abi_word (nat (t mod 2 ^ 256)))" and "- (2 ^ 23) \<le> t" and "t < 2 ^ 23"
  shows "word_i24 dat i = Some t"
proof -
  let ?v = "nat (t mod 2 ^ 256)"
  have "int (be_value (drop 29 (abi_word ?v))) = int (?v mod 256 ^ 3)"
    by (simp only: drop_abi_word be_value_bytes)
  also have "\<dots> = (t mod 2 ^ 256) mod 2 ^ 24" by (simp add: zmod_int)
  also have "\<dots> = t mod 2 ^ 24" by (rule mod_mod_cancel) (simp add: le_imp_power_dvd)
  finally have raw: "int (be_value (drop 29 (abi_word ?v))) = t mod 2 ^ 24" .
  have "(let raw = t mod 2 ^ 24 in if raw < 2 ^ 23 then raw else raw - 2 ^ 24) = t"
  proof (cases "0 \<le> t")
    case True
    then have "t mod 2 ^ 24 = t" using assms(3) by (intro mod_pos_pos_trivial) simp_all
    with assms(3) show ?thesis by (simp only: Let_def if_True)
  next
    case False
    have "(t + 2 ^ 24) mod 2 ^ 24 = t + 2 ^ 24" using False assms(2) by (intro mod_pos_pos_trivial) simp_all
    then have "t mod 2 ^ 24 = t + 2 ^ 24" by simp
    with False assms(2) show ?thesis by (simp add: Let_def)
  qed
  then show ?thesis unfolding word_i24_def assms(1) option.map raw by (simp only: option.inject)
qed

text \<open>The reader of balance changes does not compare the sign of the low half with the sign word: a change above the
  128-bit range is read with the wrong sign instead of being refused.\<close>

lemma word_i128_wrong_sign:
  "word_i128_at (abi_word (2 ^ 127)) 0 = Some (- (2 ^ 127))"
proof -
  have "abi_word (2 ^ 127) = be_bytes 16 (2 ^ 127 div 256 ^ 16) @ be_bytes 16 (2 ^ 127)"
    using be_bytes_split [of 16 16 "2 ^ 127"] by (simp add: abi_word_def)
  then have w: "abi_word (2 ^ 127) = replicate 16 0 @ be_bytes 16 (2 ^ 127)"
    by (simp add: be_bytes_def map_replicate_const del: upt_Suc)
  have "bytes_at (abi_word (2 ^ 127)) 0 = Some (abi_word (2 ^ 127))"
    by (simp add: bytes_at_def usize_opt_def get_range_def)
  moreover have "as_i128 (low_u128 (abi_word (2 ^ 127))) = - (2 ^ 127)"
    unfolding low_u128_word by (simp add: as_i128_def)
  moreover have "hd (abi_word (2 ^ 127)) = 0" "take 16 (abi_word (2 ^ 127)) = replicate 16 0" unfolding w by simp_all
  ultimately show ?thesis by (simp add: word_i128_at_def Let_def list_all_iff)
qed

section \<open>What becomes of the logs of a pool in one batch\<close>

text \<open>The triggers of a pool's logs, the oldest first, and the one that is kept.\<close>

fun log_triggers :: "(string \<Rightarrow> b256) \<Rightarrow> graph_snapshot \<Rightarrow> rpc_log list \<Rightarrow> address \<Rightarrow> refresh_trigger list" where
  "log_triggers keccak g [] p = []"
| "log_triggers keccak g (l # ls) p =
     (case log_trigger keccak g l of
        Inr (Some (q, t)) \<Rightarrow> if q = p then t # log_triggers keccak g ls p else log_triggers keccak g ls p
      | _ \<Rightarrow> log_triggers keccak g ls p)"

definition kept_trigger :: "refresh_trigger list \<Rightarrow> refresh_trigger option" where
  "kept_trigger ts = (case find rt_full_refresh ts of Some t \<Rightarrow> Some t | None \<Rightarrow> nth_opt ts 0)"

definition kept_from :: "refresh_trigger option \<Rightarrow> refresh_trigger list \<Rightarrow> refresh_trigger option" where
  "kept_from old ts =
     (case old of
        None \<Rightarrow> kept_trigger ts
      | Some t \<Rightarrow> if rt_full_refresh t then Some t
                  else (case find rt_full_refresh ts of Some t' \<Rightarrow> Some t' | None \<Rightarrow> Some t))"

lemma kept_from_Nil [simp]: "kept_from old [] = old"
  by (simp add: kept_from_def kept_trigger_def nth_opt_def split: option.splits)

lemma kept_from_Cons: "kept_from old (t # ts) = kept_from (kept_from old [t]) ts"
  by (cases old) (auto simp: kept_from_def kept_trigger_def nth_opt_def split: option.splits)

lemma upsert_kept: "map_of (upsert_trigger p t ts) q = (if q = p then kept_from (map_of ts p) [t] else map_of ts q)"
  by (auto simp: upsert_trigger_def kept_from_def kept_trigger_def nth_opt_def update_conv split: option.splits)

lemma upsert_distinct: "distinct (map fst ts) \<Longrightarrow> distinct (map fst (upsert_trigger p t ts))"
  by (auto simp: upsert_trigger_def distinct_update split: option.splits)

lemma fold_logs_kept:
  assumes "fold_res (add_log keccak g) ls ts = Inr ts'"
  shows "map_of ts' p = kept_from (map_of ts p) (log_triggers keccak g ls p) \<and> (distinct (map fst ts) \<longrightarrow> distinct (map fst ts'))"
  using assms
proof (induction ls arbitrary: ts)
  case (Cons l ls)
  from Cons.prems obtain ts1 where s: "add_log keccak g l ts = Inr ts1" and r: "fold_res (add_log keccak g) ls ts1 = Inr ts'"
    by (auto simp: res_bind_Inr)
  from s obtain t where t: "log_trigger keccak g l = Inr t"
    and ts1: "ts1 = (case t of None \<Rightarrow> ts | Some (q, t) \<Rightarrow> upsert_trigger q t ts)"
    by (auto simp: add_log_def res_bind_Inr)
  have d: "distinct (map fst ts) \<longrightarrow> distinct (map fst ts1)"
    unfolding ts1 by (auto simp: upsert_distinct split: option.splits)
  have "kept_from (map_of ts1 p) (log_triggers keccak g ls p) = kept_from (map_of ts p) (log_triggers keccak g (l # ls) p)"
  proof (cases t)
    case (Some x)
    obtain q t' where x: "x = (q, t')" by (cases x)
    show ?thesis
      by (cases "q = p") (simp_all add: t Some x ts1 upsert_kept kept_from_Cons [of _ t' "log_triggers keccak g ls p"])
  qed (simp add: t ts1)
  with Cons.IH [OF r] d show ?case by simp
qed simp

text \<open>C25: a batch holds one trigger for each pool with a log: a full refresh as soon as one of its logs could not be
  decoded, and otherwise the patch of its first log.\<close>

theorem batch_triggers:
  assumes "build_refresh_batch keccak g logs = Inr batch"
  shows "t \<in> set batch \<longleftrightarrow> (\<exists>p. kept_trigger (log_triggers keccak g logs p) = Some t)"
proof -
  obtain ts where f: "fold_res (add_log keccak g) logs [] = Inr ts" and b: "batch = map snd ts"
    using assms by (auto simp: build_refresh_batch_def res_bind_Inr)
  note k = fold_logs_kept [OF f]
  have d: "distinct (map fst ts)" using k by simp
  have "t \<in> set batch \<longleftrightarrow> (\<exists>p. (p, t) \<in> set ts)" unfolding b by force
  also have "\<dots> \<longleftrightarrow> (\<exists>p. map_of ts p = Some t)" using d by simp
  also have "\<dots> \<longleftrightarrow> (\<exists>p. kept_trigger (log_triggers keccak g logs p) = Some t)"
    using k by (simp add: kept_from_def)
  finally show ?thesis .
qed

lemma batch_of_patches:
  assumes "build_refresh_batch keccak g logs = Inr batch"
    and "log_triggers keccak g logs p = t # ts" and "\<not> list_ex rt_full_refresh (t # ts)"
  shows "t \<in> set batch"
proof -
  obtain ts' where f: "fold_res (add_log keccak g) logs [] = Inr ts'" and b: "batch = map snd ts'"
    using assms(1) by (auto simp: build_refresh_batch_def res_bind_Inr)
  have n: "find rt_full_refresh (t # ts) = None" using assms(3) by (auto simp: find_None_iff list_ex_iff)
  have "map_of ts' p = kept_trigger (t # ts)" using fold_logs_kept [OF f, of p] assms(2) by (simp add: kept_from_def)
  also have "\<dots> = Some t" unfolding kept_trigger_def n by (simp add: nth_opt_def)
  finally show ?thesis unfolding b by (force dest: map_of_SomeD)
qed

text \<open>A Sync log of a known V2 pool.\<close>

lemma sync_trigger:
  assumes "pool_of g p = Some pool" and "ps_kind pool = UniswapV2Like"
  shows "log_trigger keccak g (sync_log p r0 r1 block (keccak ''Sync(uint112,uint112)'')) =
    Inr (Some (p, trigger_of ''pool-log-patch'' ''pool-log-refresh'' p (Some (UniswapV2Sync p r0 r1 (Some block)))))"
proof -
  let ?l = "sync_log p r0 r1 block (keccak ''Sync(uint112,uint112)'')"
  have "word_u128 (lg_data ?l) i = Some (word_of_nat ([unat r0, unat r1] ! i))" if "i < 2" for i
    using word_at_words [of i "[unat r0, unat r1]"] that by (simp add: sync_log_def word_u128_def low_u128_word)
  from this [of 0] this [of 1]
  have "sync_patch ?l = Some (UniswapV2Sync (lg_address ?l) r0 r1 (lg_block_number ?l))" by (simp add: sync_patch_def)
  moreover have "lg_address ?l = p" "nth_opt (lg_topics ?l) 0 = Some (keccak ''Sync(uint112,uint112)'')" "lg_block_number ?l = Some block"
    by (simp_all add: sync_log_def nth_opt_def)
  ultimately show ?thesis using assms by (simp add: log_trigger_def decode_pool_patch_def)
qed

theorem batch_triggers_witness:
  "\<forall>keccak. \<forall>g :: graph_snapshot. \<forall>pool. pool_of (g\<lparr>gs_pools := [(9, pool\<lparr>ps_kind := UniswapV2Like\<rparr>)]\<rparr>) 9 \<noteq> None \<and>
     (\<exists>batch. build_refresh_batch keccak (g\<lparr>gs_pools := [(9, pool\<lparr>ps_kind := UniswapV2Like\<rparr>)]\<rparr>)
        [sync_log 9 1 2 5 (keccak ''Sync(uint112,uint112)''), sync_log 9 3 4 6 (keccak ''Sync(uint112,uint112)'')] = Inr batch \<and>
      trigger_of ''pool-log-patch'' ''pool-log-refresh'' 9 (Some (UniswapV2Sync 9 1 2 (Some 5))) \<in> set batch)"
proof (intro allI conjI)
  fix keccak :: "string \<Rightarrow> b256" and g :: graph_snapshot and pool :: pool_state
  let ?g = "g\<lparr>gs_pools := [(9, pool\<lparr>ps_kind := UniswapV2Like\<rparr>)]\<rparr>"
  let ?s = "keccak ''Sync(uint112,uint112)''"
  have p: "pool_of ?g 9 = Some (pool\<lparr>ps_kind := UniswapV2Like\<rparr>)" by (simp add: pool_of_def)
  then show "pool_of ?g 9 \<noteq> None" by simp
  have t: "log_trigger keccak ?g (sync_log 9 r0 r1 block ?s) =
      Inr (Some (9, trigger_of ''pool-log-patch'' ''pool-log-refresh'' 9 (Some (UniswapV2Sync 9 r0 r1 (Some block)))))" for r0 r1 block
    using p by (rule sync_trigger) simp
  obtain batch where b: "build_refresh_batch keccak ?g [sync_log 9 1 2 5 ?s, sync_log 9 3 4 6 ?s] = Inr batch"
    by (simp add: build_refresh_batch_def add_log_def t)
  have "kept_trigger (log_triggers keccak ?g [sync_log 9 1 2 5 ?s, sync_log 9 3 4 6 ?s] 9) =
      Some (trigger_of ''pool-log-patch'' ''pool-log-refresh'' 9 (Some (UniswapV2Sync 9 1 2 (Some 5))))"
    by (simp add: t kept_trigger_def trigger_of_def nth_opt_def)
  with b batch_triggers [OF b] show "\<exists>batch. build_refresh_batch keccak ?g [sync_log 9 1 2 5 ?s, sync_log 9 3 4 6 ?s] = Inr batch \<and>
      trigger_of ''pool-log-patch'' ''pool-log-refresh'' 9 (Some (UniswapV2Sync 9 1 2 (Some 5))) \<in> set batch"
    by blast
qed

section \<open>Seen logs\<close>

text \<open>Two logs of one transaction that differ only in the pool they name (the second topic of a vault event) have the same
  key, so that the second one is dropped.\<close>

lemma log_key_ignores_pool:
  "log_key_of hash (l\<lparr>lg_topics := t0 # ts\<rparr>) = log_key_of hash (l\<lparr>lg_topics := t0 # ts'\<rparr>)"
  by (simp add: log_key_of_def nth_opt_def)

lemma dedup_drops_other_pool:
  "dedup_logs hash [l\<lparr>lg_topics := t0 # ts\<rparr>, l\<lparr>lg_topics := t0 # ts'\<rparr>] = [l\<lparr>lg_topics := t0 # ts\<rparr>]"
  using log_key_ignores_pool [where hash = hash and l = l and ?t0.0 = t0 and ts = ts and ts' = ts'] by (simp add: dedup_logs_def)

lemma dedup_from_set:
  "log_key_of hash ` set (dedup_from hash seen ls) = log_key_of hash ` set ls - seen \<and>
   distinct (map (log_key_of hash) (dedup_from hash seen ls)) \<and> set (dedup_from hash seen ls) \<subseteq> set ls"
  by (induction hash seen ls rule: dedup_from.induct) auto

definition recent_ok :: "nat \<Rightarrow> recent_log_keys \<Rightarrow> bool" where
  "recent_ok capacity r \<longleftrightarrow> set (rl_order r) = rl_set r \<and> distinct (rl_order r) \<and> length (rl_order r) \<le> capacity"

lemma shrink_recent_drop:
  "distinct ks \<Longrightarrow> shrink_recent capacity ks (set ks) =
     \<lparr>rl_order = drop (length ks - capacity) ks, rl_set = set (drop (length ks - capacity) ks)\<rparr>"
proof (induction ks)
  case (Cons k ks)
  show ?case
  proof (cases "capacity < length (k # ks)")
    case True
    then have "length (k # ks) - capacity = Suc (length ks - capacity)" by (simp add: Suc_diff_le)
    moreover have "set (k # ks) - {k} = set ks" using Cons.prems by auto
    ultimately show ?thesis using Cons True by simp
  qed simp
qed simp

lemma recent_insert_order:
  assumes "recent_ok capacity r"
  shows "recent_insert capacity key r =
    (let order = (if key \<in> rl_set r then rl_order r else rl_order r @ [key]); kept = drop (length order - capacity) order
     in \<lparr>rl_order = kept, rl_set = set kept\<rparr>)"
proof -
  let ?order = "if key \<in> rl_set r then rl_order r else rl_order r @ [key]"
  have "insert key (rl_set r) = set ?order" "distinct ?order" using assms by (auto simp: recent_ok_def)
  then show ?thesis unfolding recent_insert_def Let_def by (metis shrink_recent_drop)
qed

text \<open>the memory of seen logs stays consistent and within its capacity: the set and the queue hold the same keys, none
  twice, and a new key is remembered.\<close>

theorem recent_keys_inv:
  assumes "recent_ok capacity r" and "0 < capacity"
  shows "recent_ok capacity (recent_insert capacity key r) \<and> recent_contains key (recent_insert capacity key r) \<and>
    rl_set (recent_insert capacity key r) \<subseteq> insert key (rl_set r)"
proof (cases "key \<in> rl_set r")
  case True
  with assms show ?thesis by (auto simp: recent_insert_order Let_def recent_ok_def recent_contains_def)
next
  case False
  let ?o = "rl_order r @ [key]" and ?n = "length (rl_order r @ [key]) - capacity"
  have n: "?n \<le> length (rl_order r)" using assms by (simp add: recent_ok_def)
  then have k: "drop ?n ?o = drop ?n (rl_order r) @ [key]" by simp
  have "set (drop ?n (rl_order r)) \<subseteq> rl_set r" using assms(1) set_drop_subset by (fastforce simp: recent_ok_def)
  moreover have "distinct (drop ?n (rl_order r) @ [key])"
    using assms(1) False calculation by (auto simp: recent_ok_def)
  moreover have "length (drop ?n (rl_order r) @ [key]) \<le> capacity" using assms(2) by (simp; arith)
  ultimately show ?thesis using False unfolding recent_insert_order [OF assms(1)] Let_def recent_ok_def recent_contains_def
    by (auto simp: k)
qed

definition demo_key :: "u64 \<Rightarrow> log_key" where
  "demo_key n = \<lparr>lk_block_number = Some n, lk_tx_hash = None, lk_address = 1, lk_topic0 = None, lk_data_hash = 0\<rparr>"

theorem recent_keys_inv_witness:
  "recent_contains (demo_key 3) (recent_insert 2 (demo_key 3) \<lparr>rl_order = [demo_key 1, demo_key 2], rl_set = {demo_key 1, demo_key 2}\<rparr>)"
  using recent_keys_inv [of 2 "\<lparr>rl_order = [demo_key 1, demo_key 2], rl_set = {demo_key 1, demo_key 2}\<rparr>" "demo_key 3"]
  by (simp add: recent_ok_def demo_key_def)

end
