(* ===== verification/Event_Scan.thy ===== *)
theory Event_Scan
  imports Event_Decode
begin

text \<open>
  The scans of a block range in \<open>src/discovery/event_stream.rs\<close>: the settings, the chunked log queries by
  topic and by address with their retries, and the scan of block receipts. The node is an argument: \<open>net k q\<close> is
  its answer in the k-th round of requests, an error being the text of the error (the contexts that are added on
  the way up are left out). Requests that run at the same time finish in the order \<open>order k\<close> puts them in.
\<close>

section \<open>Settings\<close>

datatype event_ingest_mode = Wss | PendingLogs | BlockReceipts | TopicLogs | AddressLogs

datatype wss_filter_mode = WF_TopicLogs | WF_AddressLogs

datatype wss_reconcile_strategy = Adaptive | Fixed | Off

definition env_lower :: "env \<Rightarrow> string \<Rightarrow> string \<Rightarrow> string" where
  "env_lower env key def = to_ascii_lowercase (unwrap_or (env key) def)"

definition event_ingest_mode_of :: "env \<Rightarrow> event_ingest_mode" where
  "event_ingest_mode_of env =
     (let v = env_lower env ''EVENT_INGEST_MODE'' ''address_logs'' in
      if v \<in> set [''wss'', ''ws'', ''websocket''] then Wss
      else if v \<in> set [''pending_logs'', ''pendinglogs'', ''pending'', ''flashblocks''] then PendingLogs
      else if v \<in> set [''address_logs'', ''address'', ''legacy''] then AddressLogs
      else if v \<in> set [''topic_logs'', ''topic'', ''logs''] then TopicLogs
      else BlockReceipts)"

definition wss_reconcile_strategy_of :: "env \<Rightarrow> wss_reconcile_strategy" where
  "wss_reconcile_strategy_of env =
     (let v = env_lower env ''EVENT_WSS_RECONCILE_STRATEGY'' ''adaptive'' in
      if v \<in> set [''fixed'', ''fast'', ''legacy''] then Fixed
      else if v \<in> set [''off'', ''disabled'', ''none''] then Off else Adaptive)"

definition wss_reconcile_mode :: "env \<Rightarrow> event_ingest_mode" where
  "wss_reconcile_mode env =
     (let v = env_lower env ''EVENT_WSS_RECONCILE_MODE'' ''topic_logs'' in
      if v \<in> set [''block_receipts'', ''receipts''] then BlockReceipts
      else if v \<in> set [''address_logs'', ''address'', ''legacy''] then AddressLogs else TopicLogs)"

definition wss_filter_mode_of :: "env \<Rightarrow> wss_filter_mode" where
  "wss_filter_mode_of env =
     (if env_lower env ''EVENT_WSS_FILTER_MODE'' ''topic_logs'' \<in> set [''address_logs'', ''address'', ''legacy'']
      then WF_AddressLogs else WF_TopicLogs)"

definition wss_subscription_type :: "env \<Rightarrow> string" where
  "wss_subscription_type env = unwrap_or (env ''EVENT_WSS_SUBSCRIPTION_TYPE'') ''logs''"

definition env_word :: "env \<Rightarrow> string \<Rightarrow> nat \<Rightarrow> u64" where
  "env_word env key def = word_of_nat (env_u64 env key def)"

definition wss_reconcile_interval_blocks :: "env \<Rightarrow> u64" where
  "wss_reconcile_interval_blocks env = env_word env ''EVENT_WSS_RECONCILE_INTERVAL_BLOCKS'' 2"

definition wss_reconcile_interval :: "env \<Rightarrow> duration" where
  "wss_reconcile_interval env = from_millis (env_u64 env ''EVENT_WSS_RECONCILE_INTERVAL_MS'' 10000)"

definition wss_audit_interval_blocks :: "env \<Rightarrow> u64" where
  "wss_audit_interval_blocks env = env_word env ''EVENT_WSS_AUDIT_INTERVAL_BLOCKS'' 64"

definition wss_audit_interval :: "env \<Rightarrow> duration" where
  "wss_audit_interval env = from_millis (env_u64 env ''EVENT_WSS_AUDIT_INTERVAL_MS'' 60000)"

definition wss_reconcile_confirmation_blocks :: "env \<Rightarrow> u64" where
  "wss_reconcile_confirmation_blocks env =
     unwrap_or (Option.bind (env ''EVENT_WSS_RECONCILE_CONFIRMATION_BLOCKS'') parse_word) 1"

definition wss_reconcile_burst_threshold :: "env \<Rightarrow> nat" where
  "wss_reconcile_burst_threshold env = env_usize_any env ''EVENT_WSS_RECONCILE_BURST_THRESHOLD'' 16"

definition wss_reconcile_burst_duration :: "env \<Rightarrow> duration" where
  "wss_reconcile_burst_duration env = from_millis (env_u64 env ''EVENT_WSS_RECONCILE_BURST_MS'' 30000)"

definition event_log_chunk_max_retries :: "env \<Rightarrow> nat" where
  "event_log_chunk_max_retries env = env_usize_any env ''EVENT_LOG_CHUNK_MAX_RETRIES'' 5"

definition event_log_min_chunk_blocks :: "env \<Rightarrow> u64" where
  "event_log_min_chunk_blocks env = env_word env ''EVENT_LOG_MIN_CHUNK_BLOCKS'' 100"

definition event_log_chunk_blocks :: "env \<Rightarrow> u64" where
  "event_log_chunk_blocks env = env_word env ''EVENT_LOG_CHUNK_BLOCKS'' 5000"

definition event_log_address_chunk_size :: "env \<Rightarrow> nat" where
  "event_log_address_chunk_size env = env_usize env ''EVENT_LOG_ADDRESS_CHUNK_SIZE'' 200"

definition event_receipt_max_blocks :: "env \<Rightarrow> u64" where
  "event_receipt_max_blocks env = env_word env ''EVENT_RECEIPT_MAX_BLOCKS'' 64"

definition receipts_topic_fallback_enabled :: "env \<Rightarrow> bool" where
  "receipts_topic_fallback_enabled env = env_bool_set env ''EVENT_RECEIPTS_FALLBACK_TO_TOPIC_LOGS'' False"

text \<open>The delay before a retry; the count is cast to \<open>u32\<close> and the product saturates.\<close>

definition event_log_retry_delay :: "env \<Rightarrow> nat \<Rightarrow> duration" where
  "event_log_retry_delay env retry_count =
     (let base_ms = unwrap_or (Option.bind (env ''EVENT_LOG_RETRY_BASE_DELAY_MS'') parse_word) 500 :: u64
      in from_millis (unat (min (sat_mul base_ms (pow2_sat (retry_count - 1))) 10000)))"

definition is_transient_log_error :: "string \<Rightarrow> bool" where
  "is_transient_log_error err =
     (let e = to_ascii_lowercase err in
      list_ex (str_contains e) [''503'', ''502'', ''504'', ''429'', ''service unavailable'', ''temporarily unavailable'',
        ''no backend'', ''currently healthy'', ''rate limit'', ''too many requests'', ''capacity'', ''connection'',
        ''transport'', ''request failed'', ''timeout'', ''timed out''])"

section \<open>The scan by topic\<close>

record log_query =
  lq_from :: u64
  lq_to :: u64
  lq_addresses :: "address list"
  lq_topics :: "b256 list"

type_synonym log_net = "nat \<Rightarrow> log_query \<Rightarrow> string + rpc_log list"

definition chunk_end :: "u64 \<Rightarrow> u64 \<Rightarrow> u64 \<Rightarrow> u64" where
  "chunk_end start chunk_blocks to_block = min (sat_add start (chunk_blocks - 1)) to_block"

text \<open>What an error makes of the chunk size, if the range is asked for again.\<close>

definition topic_retry :: "env \<Rightarrow> string \<Rightarrow> nat \<Rightarrow> u64 \<Rightarrow> u64 option" where
  "topic_retry env err retry_count chunk =
     (if should_reduce_chunk_size err \<and> 1 < chunk then Some (max (chunk div 2) 1)
      else if retry_count < event_log_chunk_max_retries env \<and> is_transient_log_error err then
        Some (if event_log_min_chunk_blocks env < chunk then max (chunk div 2) (event_log_min_chunk_blocks env) else chunk)
      else None)"

lemma half_less: "m < c \<Longrightarrow> max (c div 2) m < (c :: 'a::len word)"
proof -
  assume m: "m < c"
  then have c: "0 < unat c" by (simp add: word_less_nat_alt)
  have "unat (c div 2) < unat c"
  proof (cases "LENGTH('a) = 1")
    case True
    have "unat (2 :: 'a word) = 0" unfolding unsigned_numeral by (simp add: True take_bit_eq_mod)
    with c show ?thesis by (simp add: unat_div_distrib)
  next
    case False
    then have "1 < LENGTH('a)" using len_gt_0 [where 'a = 'a] by linarith
    then have "(2 :: nat) < 2 ^ LENGTH('a)" using power_strict_increasing [of 1 "LENGTH('a)" "2 :: nat"] by simp
    then have "unat (2 :: 'a word) = 2" by (simp add: unsigned_numeral take_bit_eq_mod)
    with c show ?thesis by (simp add: unat_div_distrib)
  qed
  with m show ?thesis by (simp add: word_less_nat_alt max_def)
qed

lemma topic_retry_measure:
  assumes "topic_retry env err retry_count chunk = Some chunk'"
  shows "unat chunk' < unat chunk \<or> unat chunk' = unat chunk \<and> retry_count < event_log_chunk_max_retries env"
  using assms half_less [of 1 chunk] half_less [of "event_log_min_chunk_blocks env" chunk]
  by (auto simp: topic_retry_def word_less_nat_alt split: if_splits)

lemma chunk_end_bounds:
  assumes "start \<le> to_block"
  shows "start \<le> chunk_end start chunk to_block" and "chunk_end start chunk to_block \<le> to_block"
proof -
  have "unat start \<le> 2 ^ 64 - 1" using unat_le_max [of start] by simp
  then show "start \<le> chunk_end start chunk to_block"
    using assms by (simp add: chunk_end_def word_nat)
  show "chunk_end start chunk to_block \<le> to_block" by (simp add: chunk_end_def)
qed

lemma after_chunk: "e \<noteq> - 1 \<Longrightarrow> unat (sat_add e (1 :: 64 word)) = Suc (unat e)"
  using unat_le_max [of e] by (simp add: unat_sat_add word_unat_eq_iff unat_max_word)

function topic_scan ::
  "env \<Rightarrow> log_net \<Rightarrow> b256 list \<Rightarrow> u64 \<Rightarrow> nat \<Rightarrow> u64 \<Rightarrow> u64 \<Rightarrow> nat \<Rightarrow> rpc_log list \<Rightarrow> string + rpc_log list" where
  "topic_scan env net topics to_block k start chunk retry_count logs =
     (if to_block < start then Inr logs
      else let e = chunk_end start chunk to_block in
        case net k \<lparr>lq_from = start, lq_to = e, lq_addresses = [], lq_topics = topics\<rparr> of
          Inr found \<Rightarrow>
            if e = - 1 then Inr (logs @ found)
            else topic_scan env net topics to_block (Suc k) (sat_add e 1) chunk 0 (logs @ found)
        | Inl err \<Rightarrow>
            (case topic_retry env err retry_count chunk of
               Some chunk' \<Rightarrow> topic_scan env net topics to_block (Suc k) start chunk' (Suc retry_count) logs
             | None \<Rightarrow> Inl err))"
  by pat_completeness auto

termination
proof (relation "measures [\<lambda>(env, net, topics, to_block, k, start, chunk, r, logs). Suc (unat to_block) - unat start,
    \<lambda>(env, net, topics, to_block, k, start, chunk, r, logs). unat chunk,
    \<lambda>(env, net, topics, to_block, k, start, chunk, r, logs). event_log_chunk_max_retries env - r]", goal_cases)
  case (2 env net topics to_block k start chunk retry_count logs e err chunk')
  then show ?case using topic_retry_measure [of env err retry_count chunk chunk'] by auto
next
  case (3 env net topics to_block k start chunk retry_count logs e found)
  then have "unat start \<le> unat e" "unat (sat_add e 1) = Suc (unat e)" "unat start \<le> unat to_block"
    using chunk_end_bounds(1) [of start to_block chunk] after_chunk [of e] by (simp_all add: not_less word_le_nat_alt)
  then show ?case by (simp; arith)
qed simp

declare topic_scan.simps [simp del]

definition get_topic_logs_chunked :: "env \<Rightarrow> log_net \<Rightarrow> u64 \<Rightarrow> u64 \<Rightarrow> b256 list \<Rightarrow> string + rpc_log list" where
  "get_topic_logs_chunked env net from_block to_block topics =
     (if to_block < from_block then Inr []
      else topic_scan env net topics to_block 0 from_block (event_log_chunk_blocks env) 0 [])"

section \<open>The scan by address\<close>

text \<open>\<open>slice::chunks\<close>, for a positive size.\<close>

function chunks_of :: "nat \<Rightarrow> 'a list \<Rightarrow> 'a list list" where
  "chunks_of n xs = (if xs = [] \<or> n = 0 then [] else take n xs # chunks_of n (drop n xs))"
  by pat_completeness auto

termination by (relation "measure (\<lambda>(n, xs). length xs)") auto

declare chunks_of.simps [simp del]

definition address_retry :: "env \<Rightarrow> string \<Rightarrow> nat \<Rightarrow> u64 \<Rightarrow> u64 option" where
  "address_retry env err retry_count chunk =
     (if should_reduce_chunk_size err \<and> retry_count < event_log_chunk_max_retries env then Some (max (chunk div 2) 1)
      else if retry_count < event_log_chunk_max_retries env \<and> is_transient_log_error err then
        Some (if event_log_min_chunk_blocks env < chunk then max (chunk div 2) (event_log_min_chunk_blocks env) else chunk)
      else None)"

lemma address_retry_count: "address_retry env err r chunk = Some chunk' \<Longrightarrow> r < event_log_chunk_max_retries env"
  by (auto simp: address_retry_def split: if_splits)

text \<open>One round: a query for each chunk of addresses, up to the first error among those that finish.\<close>

definition address_round ::
  "log_net \<Rightarrow> (nat \<Rightarrow> address list list \<Rightarrow> address list list) \<Rightarrow> address list list \<Rightarrow> b256 list \<Rightarrow> nat \<Rightarrow> u64 \<Rightarrow> u64 \<Rightarrow>
   string + rpc_log list" where
  "address_round net order chunks topics k start e =
     fold_res (\<lambda>c found. res_bind
         (net k \<lparr>lq_from = start, lq_to = e, lq_addresses = c, lq_topics = topics\<rparr>) (\<lambda>logs. Inr (found @ logs)))
       (order k chunks) []"

function address_scan ::
  "env \<Rightarrow> log_net \<Rightarrow> (nat \<Rightarrow> address list list \<Rightarrow> address list list) \<Rightarrow> address list list \<Rightarrow> b256 list \<Rightarrow> u64 \<Rightarrow> nat \<Rightarrow> u64 \<Rightarrow>
   u64 \<Rightarrow> nat \<Rightarrow> rpc_log list \<Rightarrow> string + rpc_log list" where
  "address_scan env net order chunks topics to_block k start chunk retry_count logs =
     (if to_block < start then Inr logs
      else let e = chunk_end start chunk to_block in
        case address_round net order chunks topics k start e of
          Inr found \<Rightarrow>
            if e = - 1 then Inr (logs @ found)
            else address_scan env net order chunks topics to_block (Suc k) (sat_add e 1) chunk 0 (logs @ found)
        | Inl err \<Rightarrow>
            (case address_retry env err retry_count chunk of
               Some chunk' \<Rightarrow> address_scan env net order chunks topics to_block (Suc k) start chunk' (Suc retry_count) logs
             | None \<Rightarrow> Inl err))"
  by pat_completeness auto

termination
proof (relation "measures [\<lambda>(env, net, order, cs, topics, to_block, k, start, chunk, r, logs). Suc (unat to_block) - unat start,
    \<lambda>(env, net, order, cs, topics, to_block, k, start, chunk, r, logs). event_log_chunk_max_retries env - r]", goal_cases)
  case (2 env net order chunks topics to_block k start chunk retry_count logs e err chunk')
  then show ?case using address_retry_count [of env err retry_count chunk chunk'] by auto
next
  case (3 env net order chunks topics to_block k start chunk retry_count logs e found)
  then have "unat start \<le> unat e" "unat (sat_add e 1) = Suc (unat e)" "unat start \<le> unat to_block"
    using chunk_end_bounds(1) [of start to_block chunk] after_chunk [of e] by (simp_all add: not_less word_le_nat_alt)
  then show ?case by (simp; arith)
qed simp

declare address_scan.simps [simp del]

definition get_address_logs_chunked ::
  "env \<Rightarrow> chain \<Rightarrow> log_net \<Rightarrow> (nat \<Rightarrow> address list list \<Rightarrow> address list list) \<Rightarrow> u64 \<Rightarrow> u64 \<Rightarrow> address list \<Rightarrow> b256 list \<Rightarrow>
   string + rpc_log list" where
  "get_address_logs_chunked env c net order from_block to_block addresses topics =
     (if to_block < from_block then Inr []
      else address_scan env net order (chunks_of (event_log_address_chunk_size env) addresses) topics to_block 0 from_block
        (adapt_log_chunk_size c (unwrap_or (env ''RPC_PROVIDER_MODE'') ''payg'') (event_log_chunk_blocks env)) 0 [])"

section \<open>The scan of receipts\<close>

definition block_range :: "u64 \<Rightarrow> u64 \<Rightarrow> u64 list" where
  "block_range a b = map word_of_nat [unat a..<Suc (unat b)]"

definition receipts_chunk ::
  "(nat \<Rightarrow> u64 \<Rightarrow> string + rpc_log list) \<Rightarrow> (nat \<Rightarrow> u64 list \<Rightarrow> u64 list) \<Rightarrow> address list \<Rightarrow> b256 list \<Rightarrow> nat \<Rightarrow> u64 \<Rightarrow> u64 \<Rightarrow>
   string + rpc_log list" where
  "receipts_chunk net order addresses topics k start e =
     res_bind (map_res (\<lambda>b. res_bind (net k b) (\<lambda>logs. Inr (b, logs))) (order k (block_range start e))) (\<lambda>by_block.
       Inr (filter_watched_logs addresses topics (concat (map snd (sort_by (\<lambda>x y. cmp (fst x) (fst y)) by_block)))))"

function receipts_scan ::
  "env \<Rightarrow> (nat \<Rightarrow> u64 \<Rightarrow> string + rpc_log list) \<Rightarrow> (nat \<Rightarrow> u64 list \<Rightarrow> u64 list) \<Rightarrow> address list \<Rightarrow> b256 list \<Rightarrow> u64 \<Rightarrow> nat \<Rightarrow> u64 \<Rightarrow>
   rpc_log list \<Rightarrow> string + rpc_log list" where
  "receipts_scan env net order addresses topics to_block k start logs =
     (if to_block < start then Inr logs
      else let e = chunk_end start (event_receipt_max_blocks env) to_block in
        case receipts_chunk net order addresses topics k start e of
          Inl err \<Rightarrow> Inl err
        | Inr found \<Rightarrow>
            if e = - 1 then Inr (logs @ found)
            else receipts_scan env net order addresses topics to_block (Suc k) (sat_add e 1) (logs @ found))"
  by pat_completeness auto

termination
proof (relation "measure (\<lambda>(env, net, order, as, topics, to_block, k, start, logs). Suc (unat to_block) - unat start)", goal_cases)
  case (2 env net order addresses topics to_block k start logs e found)
  then have "unat start \<le> unat e" "unat (sat_add e 1) = Suc (unat e)" "unat start \<le> unat to_block"
    using chunk_end_bounds(1) [of start to_block "event_receipt_max_blocks env"] after_chunk [of e]
    by (simp_all add: not_less word_le_nat_alt)
  then show ?case by simp
qed simp

declare receipts_scan.simps [simp del]

definition get_block_receipts_range ::
  "env \<Rightarrow> (nat \<Rightarrow> u64 \<Rightarrow> string + rpc_log list) \<Rightarrow> (nat \<Rightarrow> u64 list \<Rightarrow> u64 list) \<Rightarrow> u64 \<Rightarrow> u64 \<Rightarrow> address list \<Rightarrow> b256 list \<Rightarrow>
   string + rpc_log list" where
  "get_block_receipts_range env net order from_block to_block addresses topics =
     receipts_scan env net order addresses topics to_block 0 from_block []"

section \<open>Every block is read once\<close>

definition range_logs :: "(u64 \<Rightarrow> rpc_log list) \<Rightarrow> u64 \<Rightarrow> u64 \<Rightarrow> rpc_log list" where
  "range_logs blocks a b = concat (map blocks (block_range a b))"

definition watches :: "b256 list \<Rightarrow> rpc_log \<Rightarrow> bool" where
  "watches topics l = (case nth_opt (lg_topics l) 0 of None \<Rightarrow> False | Some t \<Rightarrow> t \<in> set topics)"

definition answers_query :: "log_query \<Rightarrow> rpc_log \<Rightarrow> bool" where
  "answers_query q l \<longleftrightarrow> (lq_addresses q = [] \<or> lg_address l \<in> set (lq_addresses q)) \<and> watches (lq_topics q) l"

text \<open>What \<open>eth_getLogs\<close> promises: an answer holds the logs of the range that pass the filter, in the order of the
  chain. A node may refuse a query, and differently in each round.\<close>

definition logs_answered :: "(u64 \<Rightarrow> rpc_log list) \<Rightarrow> log_net \<Rightarrow> bool" where
  "logs_answered blocks net \<longleftrightarrow>
     (\<forall>k q found. net k q = Inr found \<longrightarrow> found = filter (answers_query q) (range_logs blocks (lq_from q) (lq_to q)))"

lemma answered:
  "logs_answered blocks net \<Longrightarrow> net k q = Inr found \<Longrightarrow> found = filter (answers_query q) (range_logs blocks (lq_from q) (lq_to q))"
  by (simp add: logs_answered_def)

lemma filter_watched: "filter_watched_logs addresses topics ls = filter (\<lambda>l. lg_address l \<in> set addresses \<and> watches topics l) ls"
  by (simp add: filter_watched_logs_def watches_def [abs_def] conj_commute)

lemma block_range_split:
  assumes "a \<le> e" and "e \<le> b" and "e \<noteq> - 1"
  shows "block_range a b = block_range a e @ block_range (sat_add e 1) b"
proof -
  have "[unat a..<Suc (unat b)] = [unat a..<Suc (unat e)] @ [Suc (unat e)..<Suc (unat b)]"
    using assms(1,2) upt_add_eq_append [of "unat a" "Suc (unat e)" "unat b - unat e"] by (simp add: word_le_nat_alt del: upt_Suc)
  then show ?thesis using after_chunk [OF assms(3)] by (simp add: block_range_def del: upt_Suc)
qed

lemma range_logs_split:
  "a \<le> e \<Longrightarrow> e \<le> b \<Longrightarrow> e \<noteq> - 1 \<Longrightarrow> range_logs blocks a b = range_logs blocks a e @ range_logs blocks (sat_add e 1) b"
  using block_range_split [of a e b] by (simp add: range_logs_def)

lemma range_logs_past: "b < a \<Longrightarrow> range_logs blocks a b = []"
  by (simp add: range_logs_def block_range_def word_less_nat_alt)

lemma chunk_to_the_end: "start \<le> to_block \<Longrightarrow> chunk_end start chunk to_block = - 1 \<Longrightarrow> to_block = - 1"
  using chunk_end_bounds(2) [of start to_block chunk] by (simp add: word_order.extremum_unique)

text \<open>One accepted chunk and what the rest of the scan adds to it, for any reading \<open>g\<close> of a list of logs that turns
  appending into an associative \<open>app\<close>.\<close>

lemma scan_step:
  assumes le: "start \<le> to_block" and assoc: "\<And>x y z. app (app x y) z = app x (app y z)"
    and f: "\<And>xs ys. f (xs @ ys) = app (f xs) (f ys)"
    and found: "g (logs @ found) = app (g logs) (f (range_logs blocks start (chunk_end start chunk to_block)))"
    and rest: "chunk_end start chunk to_block \<noteq> - 1 \<Longrightarrow>
      g res = app (g (logs @ found)) (f (range_logs blocks (sat_add (chunk_end start chunk to_block) 1) to_block))"
    and ended: "chunk_end start chunk to_block = - 1 \<Longrightarrow> res = logs @ found"
  shows "g res = app (g logs) (f (range_logs blocks start to_block))"
proof (cases "chunk_end start chunk to_block = - 1")
  case True
  with chunk_to_the_end [OF le True] ended found show ?thesis by simp
next
  case False
  with rest range_logs_split [OF chunk_end_bounds [OF le, of chunk] False, of blocks] found f assoc show ?thesis
    by simp
qed

lemma topic_scan_logs:
  assumes net: "logs_answered blocks net"
  shows "topic_scan env net topics to_block k start chunk r logs = Inr res \<Longrightarrow>
    res = logs @ filter (watches topics) (range_logs blocks start to_block)"
  using net
proof (induction env net topics to_block k start chunk r logs rule: topic_scan.induct)
  case (1 env net topics to_block k start chunk r logs)
  let ?e = "chunk_end start chunk to_block"
  let ?q = "\<lparr>lq_from = start, lq_to = ?e, lq_addresses = [], lq_topics = topics\<rparr>"
  note scan = "1.prems"(1) [unfolded topic_scan.simps [of env net topics to_block k] Let_def]
  show ?case
  proof (cases "to_block < start")
    case True
    with scan show ?thesis by (simp add: range_logs_past)
  next
    case False
    then have le: "start \<le> to_block" by simp
    show ?thesis
    proof (cases "net k ?q")
      case (Inl err)
      with scan False obtain c where "topic_retry env err r chunk = Some c"
        and "topic_scan env net topics to_block (Suc k) start c (Suc r) logs = Inr res"
        by (auto split: option.splits)
      from "1.IH"(1) [OF False refl Inl this "1.prems"(2)] show ?thesis .
    next
      case (Inr found)
      have "found = filter (watches topics) (range_logs blocks start ?e)"
        using answered [OF "1.prems"(2) Inr] by (simp add: answers_query_def [abs_def])
      then have "id (logs @ found) = id logs @ filter (watches topics) (range_logs blocks start ?e)" by simp
      moreover have "id res = id (logs @ found) @ filter (watches topics) (range_logs blocks (sat_add ?e 1) to_block)" if "?e \<noteq> - 1"
        using "1.IH"(2) [OF False refl Inr that _ "1.prems"(2)] scan False Inr that by simp
      moreover have "res = logs @ found" if "?e = - 1" using scan False Inr that by simp
      ultimately have "id res = id logs @ filter (watches topics) (range_logs blocks start to_block)"
        using scan_step [where app = append and g = id and f = "filter (watches topics)", OF le append_assoc filter_append]
        by blast
      then show ?thesis by simp
    qed
  qed
qed

lemma sort_block_logs:
  assumes "mset bs = mset (block_range start e)"
  shows "concat (map snd (sort_by (\<lambda>x y. cmp (fst x) (fst y)) (map (\<lambda>b. (b, blocks b)) bs))) = range_logs blocks start e"
proof -
  let ?s = "sort_by (\<lambda>x y. cmp (fst x) (fst y)) (map (\<lambda>b. (b, blocks b)) bs)"
  have r: "sorted_wrt (<) (block_range start e)"
  proof -
    have "word_of_nat i < (word_of_nat j :: u64)" if "i < j" "j < Suc (unat e)" for i j
      using that unat_lt_size [of e] by (simp add: word_less_nat_alt unsigned_of_nat take_bit_nat_eq_self)
    then show ?thesis unfolding block_range_def sorted_wrt_map
      by (intro sorted_wrt_mono_rel [OF _ sorted_wrt_upt]) auto
  qed
  have "sorted_wrt (\<lambda>a b. fst a \<le> fst b) ?s"
    using total_preorder.sorted_sort_by [OF preorder_key [of fst], of "map (\<lambda>b. (b, blocks b)) bs"]
    by (simp add: cmp_simps not_less)
  then have "sorted (map fst ?s)" by (simp add: sorted_map)
  moreover have "mset (map fst ?s) = mset (block_range start e)"
    using assms by (simp add: image_mset.compositionality comp_def)
  ultimately have "sort (block_range start e) = map fst ?s" by (intro properties_for_sort)
  moreover have "sorted (block_range start e)" by (rule sorted_wrt_mono_rel [OF _ r]) simp
  ultimately have f: "map fst ?s = block_range start e" by (simp only: sort_key_id_if_sorted list.map_ident)
  have "map snd ?s = map blocks (map fst ?s)" by (auto simp: map_eq_conv)
  then show ?thesis unfolding f by (simp add: range_logs_def)
qed

lemma receipts_chunk_logs:
  assumes "receipts_chunk net order addresses topics k start e = Inr found" and "mset (order k (block_range start e)) = mset (block_range start e)"
    and "\<And>k b logs. net k b = Inr logs \<Longrightarrow> logs = blocks b"
  shows "found = filter_watched_logs addresses topics (range_logs blocks start e)"
proof -
  let ?bs = "order k (block_range start e)"
  from assms(1) obtain by_block where m: "map_res (\<lambda>b. res_bind (net k b) (\<lambda>logs. Inr (b, logs))) ?bs = Inr by_block"
    and found: "found = filter_watched_logs addresses topics (concat (map snd (sort_by (\<lambda>x y. cmp (fst x) (fst y)) by_block)))"
    by (auto simp: receipts_chunk_def res_bind_Inr)
  have "by_block = map (\<lambda>b. (b, blocks b)) bs" if "map_res (\<lambda>b. res_bind (net k b) (\<lambda>logs. Inr (b, logs))) bs = Inr by_block" for bs
    using that by (induction bs arbitrary: by_block) (auto simp: res_bind_Inr dest: assms(3))
  from this [OF m] show ?thesis unfolding found by (simp only: sort_block_logs [OF assms(2)])
qed

lemma receipts_scan_logs:
  assumes "\<And>k bs. mset (order k bs) = mset bs" and "\<And>k b logs. net k b = Inr logs \<Longrightarrow> logs = blocks b"
  shows "receipts_scan env net order addresses topics to_block k start logs = Inr res \<Longrightarrow>
    res = logs @ filter_watched_logs addresses topics (range_logs blocks start to_block)"
  using assms
proof (induction env net order addresses topics to_block k start logs rule: receipts_scan.induct)
  case (1 env net order addresses topics to_block k start logs)
  let ?e = "chunk_end start (event_receipt_max_blocks env) to_block" and ?f = "filter_watched_logs addresses topics"
  note scan = "1.prems"(1) [unfolded receipts_scan.simps [of env net order addresses topics to_block k] Let_def]
  show ?case
  proof (cases "to_block < start")
    case True
    with scan show ?thesis by (simp add: range_logs_past filter_watched)
  next
    case False
    then have le: "start \<le> to_block" by simp
    from scan False obtain found where found: "receipts_chunk net order addresses topics k start ?e = Inr found"
      by (auto split: sum.splits)
    have "id (logs @ found) = id logs @ ?f (range_logs blocks start ?e)"
      using receipts_chunk_logs [OF found "1.prems"(2,3)] by simp
    moreover have "id res = id (logs @ found) @ ?f (range_logs blocks (sat_add ?e 1) to_block)" if "?e \<noteq> - 1"
      using "1.IH" [OF False refl found that _ "1.prems"(2,3)] scan False found that by simp
    moreover have "res = logs @ found" if "?e = - 1" using scan False found that by simp
    moreover have "?f (xs @ ys) = ?f xs @ ?f ys" for xs ys by (simp add: filter_watched)
    ultimately have "id res = id logs @ ?f (range_logs blocks start to_block)"
      using scan_step [where app = append and g = id and f = ?f, OF le append_assoc] by blast
    then show ?thesis by simp
  qed
qed

lemma chunks_of_concat: "0 < n \<Longrightarrow> concat (chunks_of n xs) = xs"
proof (induction n xs rule: chunks_of.induct)
  case (1 n xs)
  then show ?case by (subst chunks_of.simps) simp
qed

lemma chunks_of_nonempty: "c \<in> set (chunks_of n xs) \<Longrightarrow> c \<noteq> []"
proof (induction n xs rule: chunks_of.induct)
  case (1 n xs)
  then show ?case by (subst (asm) (2) chunks_of.simps) (auto split: if_splits)
qed

lemma mset_filter_by_chunks:
  "distinct (concat cs) \<Longrightarrow>
   (\<Sum>c\<in>#mset cs. mset (filter (\<lambda>l. lg_address l \<in> set c \<and> P l) ls)) = mset (filter (\<lambda>l. lg_address l \<in> set (concat cs) \<and> P l) ls)"
proof (induction cs)
  case (Cons c cs)
  have "mset (filter (\<lambda>l. lg_address l \<in> set (concat (c # cs)) \<and> P l) ls) =
      mset (filter (\<lambda>l. lg_address l \<in> set c \<and> P l) ls) + mset (filter (\<lambda>l. lg_address l \<in> set (concat cs) \<and> P l) ls)"
    using Cons.prems by (induction ls) auto
  with Cons show ?case by simp
qed simp

lemma address_round_logs:
  assumes net: "logs_answered blocks net" and r: "address_round net order (chunks_of n addresses) topics k start e = Inr found"
    and o: "mset (order k (chunks_of n addresses)) = mset (chunks_of n addresses)" and d: "distinct addresses" and n: "0 < n"
  shows "mset found = mset (filter_watched_logs addresses topics (range_logs blocks start e))"
proof -
  let ?q = "\<lambda>c. \<lparr>lq_from = start, lq_to = e, lq_addresses = c, lq_topics = topics\<rparr>"
  have "mset found = mset found0 + (\<Sum>c\<in>#mset cs. mset (filter (answers_query (?q c)) (range_logs blocks start e)))"
    if "fold_res (\<lambda>c found. res_bind (net k (?q c)) (\<lambda>logs. Inr (found @ logs))) cs found0 = Inr found" for cs found0
    using that
  proof (induction cs arbitrary: found0)
    case (Cons c cs)
    then obtain logs where l: "net k (?q c) = Inr logs"
      and "fold_res (\<lambda>c found. res_bind (net k (?q c)) (\<lambda>logs. Inr (found @ logs))) cs (found0 @ logs) = Inr found"
      by (auto simp: res_bind_Inr)
    with Cons.IH [OF this(2)] answered [OF net l] show ?case by (simp add: add.assoc)
  qed simp
  from this [OF r [unfolded address_round_def]] o
  have "mset found = (\<Sum>c\<in>#mset (chunks_of n addresses). mset (filter (answers_query (?q c)) (range_logs blocks start e)))" by simp
  also have "\<dots> = (\<Sum>c\<in>#mset (chunks_of n addresses). mset (filter (\<lambda>l. lg_address l \<in> set c \<and> watches topics l) (range_logs blocks start e)))"
    by (intro arg_cong [where f = sum_mset] image_mset_cong) (auto simp: answers_query_def [abs_def] dest: chunks_of_nonempty)
  also have "\<dots> = mset (filter_watched_logs addresses topics (range_logs blocks start e))"
    using mset_filter_by_chunks [of "chunks_of n addresses" "watches topics"] d n by (simp add: chunks_of_concat filter_watched)
  finally show ?thesis .
qed

lemma address_scan_logs:
  assumes "logs_answered blocks net" and "\<And>k cs. mset (order k cs) = mset cs" and "distinct addresses" and "0 < n"
  shows "address_scan env net order (chunks_of n addresses) topics to_block k start chunk r logs = Inr res \<Longrightarrow>
    mset res = mset logs + mset (filter_watched_logs addresses topics (range_logs blocks start to_block))"
  using assms
proof (induction env net order "chunks_of n addresses" topics to_block k start chunk r logs rule: address_scan.induct)
  case (1 env net order topics to_block k start chunk r logs)
  let ?e = "chunk_end start chunk to_block" and ?f = "\<lambda>ls. mset (filter_watched_logs addresses topics ls)"
  note scan = "1.prems"(1) [unfolded address_scan.simps [of env net order _ topics to_block k] Let_def]
  show ?case
  proof (cases "to_block < start")
    case True
    with scan show ?thesis by (simp add: range_logs_past filter_watched)
  next
    case False
    then have le: "start \<le> to_block" by simp
    show ?thesis
    proof (cases "address_round net order (chunks_of n addresses) topics k start ?e")
      case (Inl err)
      with scan False obtain c where "address_retry env err r chunk = Some c"
        and "address_scan env net order (chunks_of n addresses) topics to_block (Suc k) start c (Suc r) logs = Inr res"
        by (auto split: option.splits)
      from "1.hyps"(1) [OF False refl Inl this "1.prems"(2-5)] show ?thesis .
    next
      case (Inr found)
      have "mset (logs @ found) = mset logs + ?f (range_logs blocks start ?e)"
        using address_round_logs [OF "1.prems"(2) Inr "1.prems"(3-5)] by simp
      moreover have "mset res = mset (logs @ found) + ?f (range_logs blocks (sat_add ?e 1) to_block)" if "?e \<noteq> - 1"
        using "1.hyps"(2) [OF False refl Inr that _ "1.prems"(2-5)] scan False Inr that by simp
      moreover have "res = logs @ found" if "?e = - 1" using scan False Inr that by simp
      moreover have "?f (xs @ ys) = ?f xs + ?f ys" for xs ys by (simp add: filter_watched)
      ultimately show ?thesis
        using scan_step [where app = "(+)" and g = mset and f = ?f, OF le add.assoc] by blast
    qed
  qed
qed

end
