(* ===== verification/Event_Poll.thy ===== *)
theory Event_Poll
  imports Event_Scan
begin

text \<open>
  The event stream itself (\<open>EventStream\<close> of \<open>src/discovery/event_stream.rs\<close>): the websocket channel, the
  reconciliation of the websocket's logs with what the node reports for past blocks, and \<open>poll_once\<close> in each of its
  modes. The state is explicit; the task that fills the channel appears as \<open>deliver\<close> and \<open>subscription_ended\<close>. The
  answers of the node are arguments, as is the clock: \<open>clock i\<close> is the i-th place that reads it. Metrics and messages are
  left out; the contexts of errors too.
\<close>

section \<open>State\<close>

record wss_filter_stats =
  wf_raw :: u64
  wf_watched :: u64
  wf_discarded :: u64
  wf_last_logged_at :: instant

record event_stream =
  es_ws_started :: bool
  es_ws_rx :: "rpc_log list option"
  es_recent_wss_logs :: recent_log_keys
  es_wss_filter_stats :: wss_filter_stats
  es_last_wss_reconcile_at :: "instant option"
  es_last_wss_reconciled_block :: "u64 option"
  es_wss_reconcile_burst_until :: "instant option"

definition wss_filter_stats_new :: "instant \<Rightarrow> wss_filter_stats" where
  "wss_filter_stats_new now = \<lparr>wf_raw = 0, wf_watched = 0, wf_discarded = 0, wf_last_logged_at = now\<rparr>"

definition event_stream_new :: "instant \<Rightarrow> event_stream" where
  "event_stream_new now =
     \<lparr>es_ws_started = False, es_ws_rx = None, es_recent_wss_logs = recent_log_keys_default,
      es_wss_filter_stats = wss_filter_stats_new now, es_last_wss_reconcile_at = None,
      es_last_wss_reconciled_block = None, es_wss_reconcile_burst_until = None\<rparr>"

section \<open>The websocket\<close>

definition wss_channel_capacity :: "env \<Rightarrow> nat" where
  "wss_channel_capacity env = env_usize env ''EVENT_WSS_CHANNEL_CAPACITY'' 16384"

text \<open>Starting replaces the channel; the subscription runs as a task of its own.\<close>

definition start_wss :: "string option \<Rightarrow> event_stream \<Rightarrow> bool \<times> event_stream" where
  "start_wss ws_url s =
     (if es_ws_started s then (True, s)
      else case ws_url of
        None \<Rightarrow> (False, s\<lparr>es_ws_started := False\<rparr>)
      | Some _ \<Rightarrow> (True, s\<lparr>es_ws_started := True, es_ws_rx := Some []\<rparr>))"

text \<open>The task sends a log, waiting while the channel is full, and clears the flag when it ends.\<close>

definition deliver :: "env \<Rightarrow> rpc_log \<Rightarrow> event_stream \<Rightarrow> event_stream option" where
  "deliver env lg s =
     (case es_ws_rx s of
        Some queue \<Rightarrow> if length queue < wss_channel_capacity env then Some (s\<lparr>es_ws_rx := Some (queue @ [lg])\<rparr>) else None
      | None \<Rightarrow> None)"

definition subscription_ended :: "event_stream \<Rightarrow> event_stream" where
  "subscription_ended s = s\<lparr>es_ws_started := False\<rparr>"

definition drain_wss_logs :: "event_stream \<Rightarrow> rpc_log list \<times> event_stream" where
  "drain_wss_logs s = (case es_ws_rx s of None \<Rightarrow> ([], s) | Some queue \<Rightarrow> (queue, s\<lparr>es_ws_rx := Some []\<rparr>))"

definition wss_filter_stats_interval :: "env \<Rightarrow> duration" where
  "wss_filter_stats_interval env =
     from_millis (unwrap_or (Option.bind (env ''EVENT_WSS_FILTER_STATS_INTERVAL_MS'') (parse_bounded 64)) 30000)"

definition record_wss_filter_stats :: "env \<Rightarrow> instant \<times> instant \<Rightarrow> nat \<Rightarrow> nat \<Rightarrow> wss_filter_stats \<Rightarrow> wss_filter_stats" where
  "record_wss_filter_stats env t raw_count watched_count stats =
     (if raw_count = 0 then stats
      else
        let interval = wss_filter_stats_interval env;
            stats = stats\<lparr>wf_raw := sat_add (wf_raw stats) (word_of_nat raw_count),
              wf_watched := sat_add (wf_watched stats) (word_of_nat watched_count),
              wf_discarded := sat_add (wf_discarded stats) (word_of_nat (raw_count - watched_count))\<rparr>
        in if interval = 0 \<or> fst t - wf_last_logged_at stats < interval then stats
           else \<lparr>wf_raw = 0, wf_watched = 0, wf_discarded = 0, wf_last_logged_at = snd t\<rparr>)"

definition wss_keys_recorded :: "env \<Rightarrow> (u8 list \<Rightarrow> u64) \<Rightarrow> rpc_log list \<Rightarrow> event_stream \<Rightarrow> event_stream" where
  "wss_keys_recorded env hash logs s = s\<lparr>es_recent_wss_logs := record_wss_log_keys env hash logs (es_recent_wss_logs s)\<rparr>"

section \<open>When to reconcile\<close>

definition ensure_wss_reconciled_block :: "u64 \<Rightarrow> event_stream \<Rightarrow> u64 \<times> event_stream" where
  "ensure_wss_reconciled_block from_block s =
     (let v = unwrap_or (es_last_wss_reconciled_block s) from_block in (v, s\<lparr>es_last_wss_reconciled_block := Some v\<rparr>))"

definition reconcile_gap_due :: "instant \<Rightarrow> u64 \<Rightarrow> u64 \<Rightarrow> duration \<Rightarrow> event_stream \<Rightarrow> bool" where
  "reconcile_gap_due now block_gap interval_blocks interval s =
     (if interval_blocks \<le> block_gap then True
      else case es_last_wss_reconcile_at s of
        None \<Rightarrow> 0 < block_gap
      | Some last_at \<Rightarrow> interval \<le> now - last_at)"

definition wss_reconcile_due :: "env \<Rightarrow> instant \<times> instant \<Rightarrow> bool \<Rightarrow> u64 \<Rightarrow> u64 \<Rightarrow> event_stream \<Rightarrow> bool" where
  "wss_reconcile_due env t force from_block to_block s =
     (let strategy = wss_reconcile_strategy_of env in
      if strategy = Off then False
      else if force then True
      else
        let block_gap = sat_sub to_block from_block;
            burst_active = (case es_wss_reconcile_burst_until s of Some until \<Rightarrow> fst t < until | None \<Rightarrow> False);
            fast = reconcile_gap_due (snd t) block_gap (wss_reconcile_interval_blocks env) (wss_reconcile_interval env) s
        in if burst_active then fast
           else (case strategy of
                   Off \<Rightarrow> False
                 | Fixed \<Rightarrow> fast
                 | Adaptive \<Rightarrow> reconcile_gap_due (snd t) block_gap (wss_audit_interval_blocks env) (wss_audit_interval env) s))"

definition update_wss_reconcile_burst :: "env \<Rightarrow> instant \<Rightarrow> nat \<Rightarrow> event_stream \<Rightarrow> event_stream" where
  "update_wss_reconcile_burst env now unique_count s =
     (let threshold = wss_reconcile_burst_threshold env in
      if threshold = 0 \<or> unique_count < threshold then s
      else s\<lparr>es_wss_reconcile_burst_until := Some (now + wss_reconcile_burst_duration env)\<rparr>)"

section \<open>Reading past blocks\<close>

text \<open>What the node answers and the orders in which concurrent requests finish.\<close>

record event_net =
  en_logs :: log_net
  en_receipts :: "nat \<Rightarrow> u64 \<Rightarrow> string + rpc_log list"
  en_pending :: "address list \<Rightarrow> b256 list \<Rightarrow> string + rpc_log list"
  en_block_number :: "string + u64"
  en_address_order :: "nat \<Rightarrow> address list list \<Rightarrow> address list list"
  en_block_order :: "nat \<Rightarrow> u64 list \<Rightarrow> u64 list"

definition topic_logs_watched :: "env \<Rightarrow> event_net \<Rightarrow> u64 \<Rightarrow> u64 \<Rightarrow> address list \<Rightarrow> b256 list \<Rightarrow> string + rpc_log list" where
  "topic_logs_watched env net from_block to_block addresses topics =
     res_bind (get_topic_logs_chunked env (en_logs net) from_block to_block topics) (\<lambda>logs.
       Inr (filter_watched_logs addresses topics logs))"

definition receipts_or_topics :: "env \<Rightarrow> event_net \<Rightarrow> u64 \<Rightarrow> u64 \<Rightarrow> address list \<Rightarrow> b256 list \<Rightarrow> string + rpc_log list" where
  "receipts_or_topics env net from_block to_block addresses topics =
     (case get_block_receipts_range env (en_receipts net) (en_block_order net) from_block to_block addresses topics of
        Inr logs \<Rightarrow> Inr logs
      | Inl err \<Rightarrow>
          if receipts_topic_fallback_enabled env then topic_logs_watched env net from_block to_block addresses topics
          else Inl err)"

definition poll_wss_reconcile_logs ::
  "env \<Rightarrow> chain \<Rightarrow> event_net \<Rightarrow> u64 \<Rightarrow> u64 \<Rightarrow> address list \<Rightarrow> b256 list \<Rightarrow> string + rpc_log list" where
  "poll_wss_reconcile_logs env c net from_block to_block addresses topics =
     (case wss_reconcile_mode env of
        BlockReceipts \<Rightarrow> receipts_or_topics env net from_block to_block addresses topics
      | AddressLogs \<Rightarrow>
          get_address_logs_chunked env c (en_logs net) (en_address_order net) from_block to_block addresses topics
      | _ \<Rightarrow> topic_logs_watched env net from_block to_block addresses topics)"

definition poll_logs ::
  "env \<Rightarrow> chain \<Rightarrow> string option \<Rightarrow> event_net \<Rightarrow> u64 \<Rightarrow> u64 \<Rightarrow> address list \<Rightarrow> b256 list \<Rightarrow> event_stream \<Rightarrow>
   (string + rpc_log list) \<times> event_stream" where
  "poll_logs env c ws_url net from_block to_block addresses topics s =
     (case event_ingest_mode_of env of
        Wss \<Rightarrow> (let s1 = snd (start_wss ws_url s); (logs, s2) = drain_wss_logs s1
                in (Inr (filter_watched_logs addresses topics logs), s2))
      | PendingLogs \<Rightarrow>
          (res_bind (en_pending net addresses topics) (\<lambda>logs. Inr (filter_watched_logs addresses topics logs)), s)
      | BlockReceipts \<Rightarrow> (receipts_or_topics env net from_block to_block addresses topics, s)
      | TopicLogs \<Rightarrow> (topic_logs_watched env net from_block to_block addresses topics, s)
      | AddressLogs \<Rightarrow>
          (get_address_logs_chunked env c (en_logs net) (en_address_order net) from_block to_block addresses topics, s))"

section \<open>Polling\<close>

datatype poll_error = Node_Refused string | Decode_Panic

definition node_result :: "string + 'a \<Rightarrow> poll_error + 'a" where
  "node_result r = (case r of Inl e \<Rightarrow> Inl (Node_Refused e) | Inr v \<Rightarrow> Inr v)"

definition batch_result :: "(string \<Rightarrow> b256) \<Rightarrow> graph_snapshot \<Rightarrow> u64 \<Rightarrow> rpc_log list \<Rightarrow> poll_error + u64 \<times> refresh_batch" where
  "batch_result keccak g next_block logs =
     (case build_refresh_batch keccak g logs of Inl _ \<Rightarrow> Inl Decode_Panic | Inr batch \<Rightarrow> Inr (next_block, batch))"

text \<open>The logs a hybrid poll accepts, with the next block to poll from. \<open>clock\<close>: 0 and 1 in the statistics, 2 and 3 when
  deciding, 4 and 5 after the reconciliation.\<close>

definition drained :: "env \<Rightarrow> (u8 list \<Rightarrow> u64) \<Rightarrow> (nat \<Rightarrow> instant) \<Rightarrow> u64 \<Rightarrow> address list \<Rightarrow> b256 list \<Rightarrow> event_stream \<Rightarrow>
    rpc_log list \<times> event_stream" where
  "drained env hash clock from_block addresses topics s =
     (let (raw, s1) = drain_wss_logs s;
          watched = filter_watched_logs addresses topics raw;
          s2 = s1\<lparr>es_wss_filter_stats :=
            record_wss_filter_stats env (clock 0, clock 1) (length raw) (length watched) (es_wss_filter_stats s1)\<rparr>;
          wss_logs = filter (\<lambda>l. unwrap_or (map_option (\<lambda>b. from_block < b) (lg_block_number l)) True) watched
      in (wss_logs, wss_keys_recorded env hash wss_logs s2))"

definition reconciled :: "env \<Rightarrow> (u8 list \<Rightarrow> u64) \<Rightarrow> (nat \<Rightarrow> instant) \<Rightarrow> u64 \<Rightarrow> rpc_log list \<Rightarrow> event_stream \<Rightarrow>
    rpc_log list \<times> event_stream" where
  "reconciled env hash clock reconcile_to backfill_logs s =
     (let unique = filter_seen_wss_logs hash (es_recent_wss_logs s) backfill_logs
      in (unique, update_wss_reconcile_burst env (clock 5) (length unique)
            (s\<lparr>es_last_wss_reconciled_block := Some reconcile_to, es_last_wss_reconcile_at := Some (clock 4)\<rparr>)))"

definition wss_poll_logs ::
  "env \<Rightarrow> chain \<Rightarrow> (u8 list \<Rightarrow> u64) \<Rightarrow> (nat \<Rightarrow> instant) \<Rightarrow> event_net \<Rightarrow> bool \<Rightarrow> u64 \<Rightarrow> u64 \<Rightarrow> address list \<Rightarrow> b256 list \<Rightarrow>
   event_stream \<Rightarrow> (poll_error + rpc_log list) \<times> event_stream" where
  "wss_poll_logs env c hash clock net was_started latest from_block addresses topics s =
     (let (wss_logs, s1) = drained env hash clock from_block addresses topics s;
          (last_reconciled, s2) = ensure_wss_reconciled_block from_block s1;
          reconcile_to = sat_sub latest (wss_reconcile_confirmation_blocks env)
      in if last_reconciled < reconcile_to \<and>
            wss_reconcile_due env (clock 2, clock 3) (\<not> was_started) last_reconciled reconcile_to s2
         then (case poll_wss_reconcile_logs env c net (last_reconciled + 1) reconcile_to addresses topics of
                 Inl err \<Rightarrow> (Inl (Node_Refused err), s2)
               | Inr backfill_logs \<Rightarrow>
                   (let (unique, s3) = reconciled env hash clock reconcile_to backfill_logs s2
                    in (Inr (dedup_logs hash (unique @ wss_logs)), s3)))
         else (Inr (dedup_logs hash wss_logs), s2))"

definition poll_wss_hybrid ::
  "env \<Rightarrow> chain \<Rightarrow> string option \<Rightarrow> (string \<Rightarrow> b256) \<Rightarrow> (u8 list \<Rightarrow> u64) \<Rightarrow> (nat \<Rightarrow> instant) \<Rightarrow> event_net \<Rightarrow> graph_snapshot \<Rightarrow>
   u64 \<Rightarrow> address list \<Rightarrow> b256 list \<Rightarrow> event_stream \<Rightarrow> (poll_error + u64 \<times> refresh_batch) \<times> event_stream" where
  "poll_wss_hybrid env c ws_url keccak hash clock net g from_block addresses topics s =
     (case en_block_number net of
        Inl err \<Rightarrow> (Inl (Node_Refused err), s)
      | Inr latest \<Rightarrow>
          (let was_started = es_ws_started s; (started, s1) = start_wss ws_url s
           in if \<not> started then
                (if latest \<le> from_block then (Inr (from_block, []), s1)
                 else (res_bind (node_result (poll_wss_reconcile_logs env c net (from_block + 1) latest addresses topics))
                         (batch_result keccak g latest), s1))
              else
                (let (logs, s2) = wss_poll_logs env c hash clock net was_started latest from_block addresses topics s1
                 in (res_bind logs (batch_result keccak g (max latest from_block)), s2))))"

definition poll_pending_logs ::
  "env \<Rightarrow> (string \<Rightarrow> b256) \<Rightarrow> (u8 list \<Rightarrow> u64) \<Rightarrow> event_net \<Rightarrow> graph_snapshot \<Rightarrow> u64 \<Rightarrow> address list \<Rightarrow> b256 list \<Rightarrow> event_stream \<Rightarrow>
   (poll_error + u64 \<times> refresh_batch) \<times> event_stream" where
  "poll_pending_logs env keccak hash net g from_block addresses topics s =
     (case en_block_number net of
        Inl err \<Rightarrow> (Inl (Node_Refused err), s)
      | Inr latest \<Rightarrow>
          (let answer = (case en_pending net addresses topics of Inl _ \<Rightarrow> [] | Inr logs \<Rightarrow> logs);
               logs = filter_seen_wss_logs hash (es_recent_wss_logs s) (filter_watched_logs addresses topics answer)
           in (batch_result keccak g (max latest from_block) logs, wss_keys_recorded env hash logs s)))"

definition backfill_once ::
  "env \<Rightarrow> chain \<Rightarrow> (string \<Rightarrow> b256) \<Rightarrow> event_net \<Rightarrow> graph_snapshot \<Rightarrow> u64 \<Rightarrow> u64 \<Rightarrow> poll_error + refresh_batch" where
  "backfill_once env c keccak net g from_block to_block =
     (let addresses = watched_addresses g in
      if addresses = [] \<or> to_block < from_block then Inr []
      else res_bind (node_result (poll_wss_reconcile_logs env c net from_block to_block addresses (event_topics keccak)))
             (\<lambda>logs. res_bind (batch_result keccak g to_block logs) (\<lambda>(_, batch). Inr batch)))"

definition poll_once ::
  "env \<Rightarrow> chain \<Rightarrow> string option \<Rightarrow> (string \<Rightarrow> b256) \<Rightarrow> (u8 list \<Rightarrow> u64) \<Rightarrow> (nat \<Rightarrow> instant) \<Rightarrow> event_net \<Rightarrow> graph_snapshot \<Rightarrow>
   u64 \<Rightarrow> event_stream \<Rightarrow> (poll_error + u64 \<times> refresh_batch) \<times> event_stream" where
  "poll_once env c ws_url keccak hash clock net g from_block s =
     (let addresses = watched_addresses g; topics = event_topics keccak in
      if addresses = [] then (Inr (from_block, []), s)
      else if event_ingest_mode_of env = Wss then
        poll_wss_hybrid env c ws_url keccak hash clock net g from_block addresses topics s
      else if event_ingest_mode_of env = PendingLogs then
        poll_pending_logs env keccak hash net g from_block addresses topics s
      else case en_block_number net of
        Inl err \<Rightarrow> (Inl (Node_Refused err), s)
      | Inr latest \<Rightarrow>
          if latest \<le> from_block then (Inr (from_block, []), s)
          else let (logs, s1) = poll_logs env c ws_url net (from_block + 1) latest addresses topics s
               in (res_bind (node_result logs) (batch_result keccak g latest), s1))"

section \<open>Every way of reading a range reads the same logs\<close>

text \<open>A node that answers from the chain \<open>blocks\<close>: queries by range, receipts by block; concurrent requests all finish.\<close>

definition net_of_chain :: "(u64 \<Rightarrow> rpc_log list) \<Rightarrow> event_net \<Rightarrow> bool" where
  "net_of_chain blocks net \<longleftrightarrow> logs_answered blocks (en_logs net) \<and>
     (\<forall>k b logs. en_receipts net k b = Inr logs \<longrightarrow> logs = blocks b) \<and>
     (\<forall>k cs. mset (en_address_order net k cs) = mset cs) \<and> (\<forall>k bs. mset (en_block_order net k bs) = mset bs)"

lemma topic_logs_read:
  assumes "net_of_chain blocks net" and "topic_logs_watched env net a b addresses topics = Inr logs"
  shows "logs = filter_watched_logs addresses topics (range_logs blocks a b)"
proof -
  obtain found where f: "get_topic_logs_chunked env (en_logs net) a b topics = Inr found"
    and logs: "logs = filter_watched_logs addresses topics found"
    using assms(2) by (auto simp: topic_logs_watched_def res_bind_Inr)
  have "found = filter (watches topics) (range_logs blocks a b)"
    using f assms(1) by (auto simp: get_topic_logs_chunked_def net_of_chain_def range_logs_past
      dest!: topic_scan_logs split: if_splits)
  then show ?thesis unfolding logs by (simp add: filter_watched conj_commute conj_left_commute)
qed

lemma receipts_read:
  assumes "net_of_chain blocks net" and "receipts_or_topics env net a b addresses topics = Inr logs"
  shows "logs = filter_watched_logs addresses topics (range_logs blocks a b)"
proof (cases "get_block_receipts_range env (en_receipts net) (en_block_order net) a b addresses topics")
  case (Inl err)
  with assms show ?thesis by (auto simp: receipts_or_topics_def topic_logs_read split: if_splits)
next
  case (Inr found)
  have "found = [] @ filter_watched_logs addresses topics (range_logs blocks a b)"
    by (rule receipts_scan_logs [OF _ _ Inr [unfolded get_block_receipts_range_def]])
      (use assms(1) in \<open>auto simp: net_of_chain_def\<close>)
  with Inr assms(2) show ?thesis by (simp add: receipts_or_topics_def)
qed

lemma address_logs_read:
  assumes "net_of_chain blocks net" and "distinct addresses"
    and "get_address_logs_chunked env c (en_logs net) (en_address_order net) a b addresses topics = Inr logs"
  shows "mset logs = mset (filter_watched_logs addresses topics (range_logs blocks a b))"
proof (cases "b < a")
  case True
  with assms(3) show ?thesis by (simp add: get_address_logs_chunked_def range_logs_past filter_watched)
next
  case False
  have n: "0 < event_log_address_chunk_size env" unfolding event_log_address_chunk_size_def by (rule env_usize_pos) simp
  have "mset logs = mset [] + mset (filter_watched_logs addresses topics (range_logs blocks a b))"
    by (rule address_scan_logs [OF _ _ assms(2) n assms(3) [unfolded get_address_logs_chunked_def if_not_P [OF False]]])
      (use assms(1) in \<open>auto simp: net_of_chain_def\<close>)
  then show ?thesis by simp
qed

lemma reconcile_reads_range:
  assumes "net_of_chain blocks net" and "distinct addresses"
    and "poll_wss_reconcile_logs env c net a b addresses topics = Inr logs"
  shows "mset logs = mset (filter_watched_logs addresses topics (range_logs blocks a b))"
  using assms(3) topic_logs_read [OF assms(1)] receipts_read [OF assms(1)] address_logs_read [OF assms(1,2)]
  by (auto simp: poll_wss_reconcile_logs_def split: event_ingest_mode.splits)

lemma watched_addresses_distinct:
  assumes "distinct (map fst (gs_pools g))"
  shows "distinct (watched_addresses g)"
proof -
  have "distinct as \<Longrightarrow> distinct (fold add_vault ps as)" for ps as
    by (induction ps arbitrary: as) (auto simp: add_vault_def split: option.splits)
  with assms show ?thesis by (simp add: watched_addresses_def)
qed

text \<open>C18: however the logs of a block range are read back (by topic, by address, by receipts, in chunks of any size, with
  any retries and whatever order concurrent requests finish in), the result is the logs of the range that concern a watched
  address and a watched event, each exactly once.\<close>

theorem range_read_exactly:
  assumes "net_of_chain blocks net" and "distinct (map fst (gs_pools g))"
    and "poll_wss_reconcile_logs env c net a b (watched_addresses g) topics = Inr logs"
  shows "mset logs = mset (filter_watched_logs (watched_addresses g) topics (range_logs blocks a b))"
  using assms(1) watched_addresses_distinct [OF assms(2)] assms(3) by (rule reconcile_reads_range)

definition demo_net :: "(u64 \<Rightarrow> rpc_log list) \<Rightarrow> event_net" where
  "demo_net blocks =
     \<lparr>en_logs = (\<lambda>k q. if k = 0 then Inl ''503 service unavailable''
        else Inr (filter (answers_query q) (range_logs blocks (lq_from q) (lq_to q)))),
      en_receipts = (\<lambda>k b. Inr (blocks b)), en_pending = (\<lambda>as ts. Inl ''no pending logs''), en_block_number = Inr 12,
      en_address_order = (\<lambda>k cs. rev cs), en_block_order = (\<lambda>k bs. rev bs)\<rparr>"

lemma demo_net_ok: "net_of_chain blocks (demo_net blocks)"
  by (auto simp: net_of_chain_def demo_net_def logs_answered_def)

lemma demo_scan:
  assumes "a \<le> b" and "unat b < 2400"
  shows "poll_wss_reconcile_logs (\<lambda>_. None) c (demo_net blocks) a b as ts =
    Inr (filter_watched_logs as ts (filter (watches ts) (range_logs blocks a b)))"
proof -
  have c5: "chunk_end a 5000 b = b" and c2: "chunk_end a 2500 b = b"
    using assms by (simp_all add: chunk_end_def word_unat_eq_iff word_nat)
  have b: "b \<noteq> - 1" using assms(2) by (auto simp: unat_max_word)
  then have past: "b < sat_add b 1" by (simp add: after_chunk word_less_nat_alt)
  have transient: "topic_retry (\<lambda>_. None) ''503 service unavailable'' 0 5000 = Some 2500"
  proof -
    have "\<not> should_reduce_chunk_size ''503 service unavailable''" "is_transient_log_error ''503 service unavailable''" by code_simp+
    then show ?thesis
      by (simp add: topic_retry_def event_log_chunk_max_retries_def env_usize_any_def event_log_min_chunk_blocks_def env_word_def
        env_u64_def filter_opt_def)
  qed
  have q: "answers_query \<lparr>lq_from = a, lq_to = b, lq_addresses = [], lq_topics = ts\<rparr> = watches ts"
    by (simp add: answers_query_def [abs_def])
  have "topic_scan (\<lambda>_. None) (en_logs (demo_net blocks)) ts b 0 a 5000 0 [] = Inr (filter (watches ts) (range_logs blocks a b))"
    using assms(1) b past
    by (simp add: topic_scan.simps c5 c2 demo_net_def transient q not_less range_logs_past)
  moreover have "event_log_chunk_blocks (\<lambda>_. None) = 5000"
    by (simp add: event_log_chunk_blocks_def env_word_def env_u64_def filter_opt_def)
  moreover have "wss_reconcile_mode (\<lambda>_. None) = TopicLogs" by code_simp
  ultimately show ?thesis using assms(1)
    by (simp add: poll_wss_reconcile_logs_def topic_logs_watched_def get_topic_logs_chunked_def range_logs_past filter_watched)
qed

theorem range_read_exactly_witness:
  "\<forall>blocks c ts. \<forall>pool :: pool_state. \<forall>g :: graph_snapshot. \<exists>logs.
     poll_wss_reconcile_logs (\<lambda>_. None) c (demo_net blocks) 5 12 (watched_addresses (g\<lparr>gs_pools := [(9, pool)]\<rparr>)) ts = Inr logs \<and>
     mset logs = mset (filter_watched_logs (watched_addresses (g\<lparr>gs_pools := [(9, pool)]\<rparr>)) ts (range_logs blocks 5 12))"
proof (intro allI)
  fix blocks c ts and pool :: pool_state and g :: graph_snapshot
  let ?g = "g\<lparr>gs_pools := [(9, pool)]\<rparr>"
  have "poll_wss_reconcile_logs (\<lambda>_. None) c (demo_net blocks) 5 12 (watched_addresses ?g) ts =
      Inr (filter_watched_logs (watched_addresses ?g) ts (filter (watches ts) (range_logs blocks 5 12)))"
    by (rule demo_scan) simp_all
  from range_read_exactly [OF demo_net_ok _ this] this
  show "\<exists>logs. poll_wss_reconcile_logs (\<lambda>_. None) c (demo_net blocks) 5 12 (watched_addresses ?g) ts = Inr logs \<and>
     mset logs = mset (filter_watched_logs (watched_addresses ?g) ts (range_logs blocks 5 12))"
    by simp
qed

section \<open>What a poll hands on\<close>

lemma drained_facts:
  assumes "drained env hash clock from_block addresses topics s = (logs, s')"
  shows "set logs = {l \<in> set (filter_watched_logs addresses topics (unwrap_or (es_ws_rx s) [])).
      case lg_block_number l of None \<Rightarrow> True | Some b \<Rightarrow> from_block < b}"
    and "es_recent_wss_logs s' = record_wss_log_keys env hash logs (es_recent_wss_logs s)"
    and "es_last_wss_reconciled_block s' = es_last_wss_reconciled_block s"
    and "es_ws_rx s' = map_option (\<lambda>_. []) (es_ws_rx s)"
  using assms
  by (auto simp: drained_def drain_wss_logs_def wss_keys_recorded_def Let_def filter_watched unwrap_or_def split: option.splits)

lemma recent_keys_of_logs:
  "recent_contains key (record_wss_log_keys env hash logs r) \<Longrightarrow> recent_contains key r \<or> key \<in> log_key_of hash ` set logs"
proof -
  have sub: "rl_set (shrink_recent n ks keys) \<subseteq> keys" for n ks keys
    by (induction n ks keys rule: shrink_recent.induct) auto
  then have "rl_set (recent_insert n k r) \<subseteq> insert k (rl_set r)" for n k r by (simp add: recent_insert_def Let_def)
  then have "rl_set (fold (\<lambda>lg. recent_insert n (log_key_of hash lg)) ls r) \<subseteq> rl_set r \<union> log_key_of hash ` set ls" for n ls r
    by (induction ls arbitrary: r) fastforce+
  then show "recent_contains key (record_wss_log_keys env hash logs r) \<Longrightarrow> ?thesis"
    by (fastforce simp: recent_contains_def record_wss_log_keys_def)
qed

lemma update_burst_keeps [simp]:
  "es_last_wss_reconciled_block (update_wss_reconcile_burst env now n s) = es_last_wss_reconciled_block s"
  "es_recent_wss_logs (update_wss_reconcile_burst env now n s) = es_recent_wss_logs s"
  by (simp_all add: update_wss_reconcile_burst_def Let_def)

lemma dedup_keys:
  shows "log_key_of hash ` set (dedup_logs hash logs) = log_key_of hash ` set logs" and "distinct (map (log_key_of hash) (dedup_logs hash logs))"
  and "set (dedup_logs hash logs) \<subseteq> set logs"
  using dedup_from_set [of hash "{}" logs] by (auto simp: dedup_logs_def)

text \<open>What a poll has accounted for: a log whose key is among the accepted logs, or was accepted by an earlier poll that still
  remembers it.\<close>

definition accounted :: "(u8 list \<Rightarrow> u64) \<Rightarrow> recent_log_keys \<Rightarrow> rpc_log list \<Rightarrow> rpc_log \<Rightarrow> bool" where
  "accounted hash recent logs l \<longleftrightarrow> log_key_of hash l \<in> log_key_of hash ` set logs \<or> recent_contains (log_key_of hash l) recent"

definition pending_logs :: "u64 \<Rightarrow> address list \<Rightarrow> b256 list \<Rightarrow> event_stream \<Rightarrow> rpc_log set" where
  "pending_logs from_block addresses topics s =
     {l \<in> set (filter_watched_logs addresses topics (unwrap_or (es_ws_rx s) [])).
        case lg_block_number l of None \<Rightarrow> True | Some b \<Rightarrow> from_block < b}"

text \<open>C8: what a hybrid poll that succeeds hands on, up to the key by which the program tells logs apart (block,
  transaction, address, first topic and hashed data): no key twice; only watched logs, which the websocket delivered for
  a new block or the node reported for a block between the old and the new mark of reconciled blocks; one log for every
  key among the watched logs that wait in the channel for a new block; and, when the mark moves, one for every key of a
  watched log between the marks, unless an earlier poll recorded the key. Of two logs with one key only the first is
  handed on (see \<open>dedup_drops_other_pool\<close>), and a poll whose reconciliation fails hands on nothing and has still
  recorded what it drained (see \<open>failed_reconcile_loses_log\<close>).\<close>

theorem hybrid_poll_complete:
  assumes "net_of_chain blocks net" and "distinct addresses"
    and poll: "wss_poll_logs env c hash clock net was_started latest from_block addresses topics s = (Inr logs, s')"
    and mark: "mark = unwrap_or (es_last_wss_reconciled_block s) from_block"
  shows "distinct (map (log_key_of hash) logs)
    \<and> log_key_of hash ` pending_logs from_block addresses topics s \<subseteq> log_key_of hash ` set logs
    \<and> (\<exists>mark'. es_last_wss_reconciled_block s' = Some mark' \<and>
         set logs \<subseteq> pending_logs from_block addresses topics s \<union>
           (if mark < mark' then set (filter_watched_logs addresses topics (range_logs blocks (mark + 1) mark')) else {}) \<and>
         (mark' = mark \<or> mark < mark' \<and>
          set (filter_watched_logs addresses topics (range_logs blocks (mark + 1) mark'))
            \<subseteq> Collect (accounted hash (es_recent_wss_logs s) logs)))"
proof -
  obtain wss s1 where d: "drained env hash clock from_block addresses topics s = (wss, s1)" by force
  note f = drained_facts [OF d]
  let ?to = "sat_sub latest (wss_reconcile_confirmation_blocks env)"
  let ?s2 = "s1\<lparr>es_last_wss_reconciled_block := Some mark\<rparr>"
  have e: "ensure_wss_reconciled_block from_block s1 = (mark, ?s2)"
    using f(3) mark by (simp add: ensure_wss_reconciled_block_def Let_def)
  have p: "pending_logs from_block addresses topics s = set wss" by (simp add: f(1) pending_logs_def)
  note poll = poll [unfolded wss_poll_logs_def d e Let_def prod.case]
  show ?thesis
  proof (cases "mark < ?to \<and> wss_reconcile_due env (clock 2, clock 3) (\<not> was_started) mark ?to ?s2")
    case False
    with poll have logs: "logs = dedup_logs hash wss" and s': "s' = ?s2" by (simp_all only: if_False prod.inject sum.inject)
    have "es_last_wss_reconciled_block s' = Some mark" unfolding s' by simp
    then show ?thesis unfolding logs p using dedup_keys [of hash wss] by simp
  next
    case True
    with poll obtain backfill where b: "poll_wss_reconcile_logs env c net (mark + 1) ?to addresses topics = Inr backfill"
      by (auto split: sum.splits)
    let ?range = "set (filter_watched_logs addresses topics (range_logs blocks (mark + 1) ?to))"
    have range: "set backfill = ?range" using mset_eq_setD [OF reconcile_reads_range [OF assms(1,2) b]] by simp
    let ?u = "filter_seen_wss_logs hash (es_recent_wss_logs s1) backfill"
    from poll True b have logs: "logs = dedup_logs hash (?u @ wss)"
      and s': "s' = snd (reconciled env hash clock ?to backfill ?s2)"
      by (simp_all add: reconciled_def Let_def)
    have keys: "log_key_of hash ` set logs = log_key_of hash ` (set ?u \<union> set wss)" unfolding logs by (simp add: dedup_keys(1))
    have "set ?u \<subseteq> ?range" unfolding range [symmetric] by (auto simp: filter_seen_wss_logs_def)
    then have sub: "set logs \<subseteq> set wss \<union> ?range" unfolding logs using dedup_keys(3) [of hash "?u @ wss"] by auto
    have "accounted hash (es_recent_wss_logs s) logs l" if "l \<in> ?range" for l
    proof -
      have l: "l \<in> set backfill" using that range by simp
      show ?thesis
      proof (cases "recent_contains (log_key_of hash l) (es_recent_wss_logs s1)")
        case True
        then show ?thesis using recent_keys_of_logs keys unfolding f(2) accounted_def by blast
      next
        case False
        with l have "l \<in> set ?u" by (simp add: filter_seen_wss_logs_def)
        then show ?thesis unfolding accounted_def keys by blast
      qed
    qed
    then have "?range \<subseteq> Collect (accounted hash (es_recent_wss_logs s) logs)" by blast
    moreover have "es_last_wss_reconciled_block s' = Some ?to" unfolding s' by (simp add: reconciled_def Let_def)
    moreover have "distinct (map (log_key_of hash) logs)" unfolding logs by (rule dedup_keys)
    moreover have "log_key_of hash ` set wss \<subseteq> log_key_of hash ` set logs" unfolding keys by blast
    ultimately show ?thesis using True sub unfolding p by simp
  qed
qed

definition listening :: "u64 \<Rightarrow> rpc_log list \<Rightarrow> event_stream" where
  "listening mark queue =
     (event_stream_new 0)\<lparr>es_ws_started := True, es_ws_rx := Some queue, es_last_wss_reconciled_block := Some mark\<rparr>"

theorem hybrid_poll_complete_witness:
  "\<forall>blocks hash clock c ts queue. \<exists>logs s'.
     wss_poll_logs (\<lambda>_. None) c hash clock (demo_net blocks) False 12 4 [9] ts (listening 4 queue) = (Inr logs, s') \<and>
     es_last_wss_reconciled_block s' = Some 11 \<and>
     set (filter_watched_logs [9] ts (range_logs blocks 5 11)) \<subseteq> Collect (accounted hash recent_log_keys_default logs)"
proof (intro allI)
  fix blocks hash clock c ts queue
  let ?s = "listening 4 queue" and ?env = "\<lambda>_. None"
  obtain wss s1 where d: "drained ?env hash clock 4 [9] ts ?s = (wss, s1)" by force
  have l: "es_last_wss_reconciled_block ?s = Some 4" by (simp add: listening_def)
  then have e: "ensure_wss_reconciled_block 4 s1 = (4, s1\<lparr>es_last_wss_reconciled_block := Some 4\<rparr>)"
    using drained_facts(3) [OF d] by (simp add: ensure_wss_reconciled_block_def)
  have to: "sat_sub 12 (wss_reconcile_confirmation_blocks ?env) = 11" by (simp add: wss_reconcile_confirmation_blocks_def sat_sub_def)
  have "wss_reconcile_strategy_of ?env = Adaptive" by code_simp
  then have due: "wss_reconcile_due ?env t True a b s" for t a b s by (simp add: wss_reconcile_due_def)
  obtain logs s' where p: "wss_poll_logs ?env c hash clock (demo_net blocks) False 12 4 [9] ts ?s = (Inr logs, s')"
    and m: "es_last_wss_reconciled_block s' = Some 11"
    by (simp add: wss_poll_logs_def d e to due demo_scan reconciled_def Let_def)
  have r: "es_recent_wss_logs ?s = recent_log_keys_default" by (simp add: listening_def event_stream_new_def)
  have "set (filter_watched_logs [9] ts (range_logs blocks 5 11)) \<subseteq> Collect (accounted hash recent_log_keys_default logs)"
    using hybrid_poll_complete [OF demo_net_ok _ p, of 4] l m r by (simp add: unwrap_or_def)
  with p m show "\<exists>logs s'.
     wss_poll_logs ?env c hash clock (demo_net blocks) False 12 4 [9] ts ?s = (Inr logs, s') \<and>
     es_last_wss_reconciled_block s' = Some 11 \<and>
     set (filter_watched_logs [9] ts (range_logs blocks 5 11)) \<subseteq> Collect (accounted hash recent_log_keys_default logs)"
    by blast
qed

text \<open>A poll whose reconciliation fails has already taken the logs from the channel and recorded their keys: they reach no
  batch, and the next reconciliation, which reads them again, skips them as seen.\<close>

lemma failed_reconcile_loses_log:
  assumes "es_ws_rx s = Some [l]" and "l \<in> set (filter_watched_logs addresses topics [l])" and "lg_block_number l = None"
    and "es_recent_wss_logs s = recent_log_keys_default"
    and "wss_poll_logs env c hash clock net was_started latest from_block addresses topics s = (Inl err, s')"
  shows "es_ws_rx s' = Some []" and "filter_seen_wss_logs hash (es_recent_wss_logs s') [l] = []"
proof -
  obtain wss s1 where d: "drained env hash clock from_block addresses topics s = (wss, s1)" by force
  have w: "wss = [l]" using d assms(1-3)
    by (auto simp: drained_def drain_wss_logs_def Let_def filter_watched_logs_def split: if_splits)
  have s': "es_ws_rx s' = es_ws_rx s1" "es_recent_wss_logs s' = es_recent_wss_logs s1"
    using assms(5) unfolding wss_poll_logs_def d
    by (auto simp: ensure_wss_reconciled_block_def Let_def split: if_splits sum.splits prod.splits)
  show "es_ws_rx s' = Some []" using s'(1) drained_facts(4) [OF d] assms(1) by simp
  have "0 < recent_wss_log_capacity env" unfolding recent_wss_log_capacity_def by (rule env_usize_pos) simp
  then show "filter_seen_wss_logs hash (es_recent_wss_logs s') [l] = []"
    using s'(2) drained_facts(2) [OF d] assms(4)
    by (simp add: w filter_seen_wss_logs_def record_wss_log_keys_def recent_insert_def recent_log_keys_default_def recent_contains_def)
qed

text \<open>In the mode of pending logs a refused query counts as an empty answer, and the poll moves on.\<close>

lemma refused_pending_query_is_empty:
  assumes "en_pending net addresses topics = Inl err" and "en_block_number net = Inr latest"
  shows "fst (poll_pending_logs env keccak hash net g from_block addresses topics s) = Inr (max latest from_block, [])"
  using assms by (simp add: poll_pending_logs_def filter_watched_logs_def filter_seen_wss_logs_def batch_result_def build_refresh_batch_def)

text \<open>The mark of reconciled blocks is set once and never moved back: after a reorganisation the engine rewinds the block to
  poll from, but a poll whose new head is not past the mark reads no block again, only what the websocket delivered.\<close>

lemma rewound_poll_reads_nothing:
  assumes "es_last_wss_reconciled_block s = Some mark" and "latest \<le> mark"
  shows "fst (wss_poll_logs env c hash clock net was_started latest from_block addresses topics s) =
    Inr (dedup_logs hash (fst (drained env hash clock from_block addresses topics s)))"
proof -
  obtain wss s1 where d: "drained env hash clock from_block addresses topics s = (wss, s1)" by force
  have "sat_sub latest w \<le> mark" for w using assms(2) by (simp add: word_nat)
  then show ?thesis using drained_facts(3) [OF d] assms(1)
    by (auto simp: wss_poll_logs_def d ensure_wss_reconciled_block_def not_less [symmetric])
qed

end
