(* ===== verification/Pool_Refresh.thy ===== *)
theory Pool_Refresh
  imports Token_Discovery Event_Poll
begin

text \<open>
  Pool states: the admission rules of \<open>src/discovery/admission.rs\<close> and, from \<open>src/discovery/mod.rs\<close>, the patches that
  logs make to pools, the refresh of a snapshot (\<open>refresh_pools\<close>), the cache entries of pools that could not be fetched,
  and the bootstrap with its replay of missed events. The fetcher, which reads pools from the chain, is an argument.
  \<open>Inl\<close> of a patch is the panic of an index out of range.
\<close>

section \<open>Admission\<close>

record admission_engine =
  ae_min_confidence_bps :: u16
  ae_staleness_timeout :: duration

definition admission_engine_new :: "settings \<Rightarrow> admission_engine" where
  "admission_engine_new s =
     \<lparr>ae_min_confidence_bps = rk_pool_health_min_bps (st_risk s),
      ae_staleness_timeout = from_millis (unat (rk_staleness_timeout_ms (st_risk s)))\<rparr>"

definition has_usable_liquidity :: "pool_state \<Rightarrow> bool" where
  "has_usable_liquidity pool \<longleftrightarrow>
     (case ps_state pool of
        S_UniswapV2Like s \<Rightarrow> 0 < v2_reserve0 s \<and> 0 < v2_reserve1 s
      | S_AerodromeV2Like s \<Rightarrow> 0 < av2_reserve0 s \<and> 0 < av2_reserve1 s
      | S_UniswapV3Like s \<Rightarrow> 0 < v3_liquidity s
      | S_TraderJoeLb s \<Rightarrow> 0 < lb_reserve_x s \<and> 0 < lb_reserve_y s
      | S_CurvePlain s \<Rightarrow> list_ex (\<lambda>b. 0 < b) (cv_balances s)
      | S_BalancerWeighted s \<Rightarrow> list_ex (\<lambda>b. 0 < b) (bl_balances s))"

definition pool_has_admissible_shape :: "pool_state \<Rightarrow> bool" where
  "pool_has_admissible_shape pool \<longleftrightarrow>
     \<not> length (ps_token_addresses pool) < 2 \<and> ps_admission_status pool \<noteq> Excluded \<and> has_usable_liquidity pool"

definition admit :: "instant \<Rightarrow> admission_engine \<Rightarrow> pool_state \<Rightarrow> bool" where
  "admit now e pool \<longleftrightarrow>
     pool_has_admissible_shape pool \<and> healthy now (ps_health pool) (ae_min_confidence_bps e) (ae_staleness_timeout e)"

definition should_refresh_cached :: "admission_engine \<Rightarrow> pool_state \<Rightarrow> bool" where
  "should_refresh_cached e pool \<longleftrightarrow>
     pool_has_admissible_shape pool \<and> \<not> h_paused (ps_health pool) \<and> \<not> h_quarantined (ps_health pool) \<and>
     ae_min_confidence_bps e \<le> h_confidence_bps (ps_health pool)"

section \<open>Patches\<close>

fun position :: "('a \<Rightarrow> bool) \<Rightarrow> 'a list \<Rightarrow> nat option" where
  "position p [] = None"
| "position p (x # xs) = (if p x then Some 0 else map_option Suc (position p xs))"

definition apply_i128_delta :: "u128 \<Rightarrow> i128 \<Rightarrow> u128" where
  "apply_i128_delta v delta = (if 0 \<le> delta then sat_add v (word_of_int delta) else sat_sub v (word_of_int (- delta)))"

text \<open>One balance of a pool; the flag tells whether the pool has the token.\<close>

definition adjust_balance :: "address list \<Rightarrow> address \<Rightarrow> (u128 \<Rightarrow> u128) \<Rightarrow> bool \<times> u128 list \<Rightarrow> unit + bool \<times> u128 list" where
  "adjust_balance tokens token f st =
     (case st of (changed, balances) \<Rightarrow>
        case position (\<lambda>t. t = token) tokens of
          None \<Rightarrow> Inr st
        | Some i \<Rightarrow> if i < length balances then Inr (True, balances[i := f (balances ! i)]) else Inl ())"

definition balancer_result :: "balancer_pool_state \<Rightarrow> bool \<times> u128 list \<Rightarrow> bool \<times> pool_specific_state" where
  "balancer_result s r = (fst r, S_BalancerWeighted (s\<lparr>bl_balances := snd r\<rparr>))"

fun patch_state :: "address list \<Rightarrow> pool_state_patch \<Rightarrow> pool_specific_state \<Rightarrow> unit + bool \<times> pool_specific_state" where
  "patch_state tokens (UniswapV2Sync _ r0 r1 _) (S_UniswapV2Like s) =
     Inr (True, S_UniswapV2Like (s\<lparr>v2_reserve0 := r0, v2_reserve1 := r1\<rparr>))"
| "patch_state tokens (UniswapV2Sync _ r0 r1 _) (S_AerodromeV2Like s) =
     Inr (True, S_AerodromeV2Like (s\<lparr>av2_reserve0 := r0, av2_reserve1 := r1\<rparr>))"
| "patch_state tokens (UniswapV3Swap _ price liquidity tick _) (S_UniswapV3Like s) =
     Inr (True, S_UniswapV3Like (s\<lparr>v3_sqrt_price_x96 := price, v3_liquidity := liquidity, v3_tick := tick\<rparr>))"
| "patch_state tokens (BalancerSwap _ token_in token_out amount_in amount_out _) (S_BalancerWeighted s) =
     res_bind (adjust_balance tokens token_in (\<lambda>b. sat_add b amount_in) (False, bl_balances s)) (\<lambda>st.
     res_bind (adjust_balance tokens token_out (\<lambda>b. sat_sub b amount_out) st) (\<lambda>st. Inr (balancer_result s st)))"
| "patch_state tokens (BalancerBalanceChanged _ changed deltas _) (S_BalancerWeighted s) =
     res_bind (fold_res (\<lambda>(token, delta). adjust_balance tokens token (\<lambda>b. apply_i128_delta b delta)) (zip changed deltas)
       (False, bl_balances s)) (\<lambda>st. Inr (balancer_result s st))"
| "patch_state tokens _ s = Inr (False, s)"

fun patch_block :: "pool_state_patch \<Rightarrow> u64 option" where
  "patch_block (UniswapV2Sync _ _ _ b) = b"
| "patch_block (UniswapV3Swap _ _ _ _ b) = b"
| "patch_block (BalancerSwap _ _ _ _ _ b) = b"
| "patch_block (BalancerBalanceChanged _ _ _ b) = b"

definition patched_health :: "instant \<Rightarrow> pool_health \<Rightarrow> u64 \<Rightarrow> pool_health" where
  "patched_health now previous block =
     \<lparr>h_stale = False, h_paused = h_paused previous, h_quarantined = h_quarantined previous,
      h_confidence_bps = h_confidence_bps previous, h_last_successful_refresh_block = block, h_last_refresh_at = now,
      h_recent_revert_count = h_recent_revert_count previous\<rparr>"

definition apply_pool_patch :: "instant \<Rightarrow> pool_state_patch \<Rightarrow> u64 option \<Rightarrow> pool_state \<Rightarrow> unit + bool \<times> pool_state" where
  "apply_pool_patch now patch fallback_block pool =
     (let block = opt_or (patch_block patch) fallback_block in
      res_bind (patch_state (ps_token_addresses pool) patch (ps_state pool)) (\<lambda>(applied, s).
        Inr (applied,
          if applied then
            pool\<lparr>ps_state := s, ps_last_updated_block := unwrap_or block (ps_last_updated_block pool),
              ps_health := patched_health now (ps_health pool)
                (unwrap_or block (h_last_successful_refresh_block (ps_health pool)))\<rparr>
          else pool\<lparr>ps_state := s\<rparr>)))"

type_synonym pools = "(address \<times> pool_state) list"

text \<open>The loop over patches; the state is the pools and the ids of the changed ones.\<close>

definition apply_patch :: "instant \<Rightarrow> u64 option \<Rightarrow> pool_state_patch \<Rightarrow> pools \<times> address list \<Rightarrow> unit + pools \<times> address list" where
  "apply_patch now block patch st =
     (case st of (ps, changed) \<Rightarrow>
        case map_of ps (patch_pool_id patch) of
          None \<Rightarrow> Inr st
        | Some pool \<Rightarrow>
            res_bind (apply_pool_patch now patch block pool) (\<lambda>(applied, pool').
              Inr (AList.update (patch_pool_id patch) pool' ps, if applied then changed @ [ps_pool_id pool'] else changed)))"

section \<open>Refreshing\<close>

record discovered_pool =
  dp_address :: address
  dp_dex_name :: string
  dp_amm_kind :: amm_kind
  dp_factory :: "address option"
  dp_registry :: "address option"
  dp_vault :: "address option"
  dp_quoter :: "address option"
  dp_balancer_pool_id :: "b256 option"
  dp_priority :: bool

datatype refresh_error = Patch_Panic | Fetch_Failed string | Reserves_Failed string

text \<open>The arguments of a refresh: what fetching a pool at a block gives, the lending reserves, and the clock.\<close>

record refresh_net =
  rn_fetch :: "discovered_pool \<Rightarrow> u64 option \<Rightarrow> string + pool_state option"
  rn_tokens :: token_net
  rn_now :: instant
  rn_aave_clock :: "instant \<times> instant"

definition refetch_pool ::
  "refresh_net \<Rightarrow> admission_engine \<Rightarrow> u64 option \<Rightarrow> discovered_pool \<Rightarrow> pools \<times> address list \<Rightarrow> refresh_error + pools \<times> address list" where
  "refetch_pool net e block spec st =
     (case rn_fetch net spec block of
        Inl err \<Rightarrow> Inl (Fetch_Failed err)
      | Inr None \<Rightarrow> Inr st
      | Inr (Some pool) \<Rightarrow>
          if admit (rn_now net) e pool then Inr (AList.update (ps_pool_id pool) pool (fst st), snd st @ [ps_pool_id pool])
          else Inr st)"

text \<open>The state of the manager: its two caches.\<close>

record discovery_manager =
  dm_admission :: admission_engine
  dm_aave_cache :: "aave_reserve_cache option"
  dm_metadata_cache :: metadata

definition refresh_states ::
  "refresh_net \<Rightarrow> admission_engine \<Rightarrow> pools \<Rightarrow> discovered_pool list \<Rightarrow> pool_state_patch list \<Rightarrow> u64 option \<Rightarrow>
   refresh_error + pools \<times> address list" where
  "refresh_states net e current changed_specs patches block =
     (case fold_res (apply_patch (rn_now net) block) patches (current, []) of
        Inl _ \<Rightarrow> Inl Patch_Panic
      | Inr st \<Rightarrow> fold_res (refetch_pool net e block) changed_specs st)"

definition refresh_pools ::
  "env \<Rightarrow> libm \<Rightarrow> settings \<Rightarrow> refresh_net \<Rightarrow> u64 \<Rightarrow> token_info list \<Rightarrow> pools \<Rightarrow> discovered_pool list \<Rightarrow> pool_state_patch list \<Rightarrow>
   block_ref option \<Rightarrow> discovery_manager \<Rightarrow> (refresh_error + graph_snapshot \<times> address list) \<times> discovery_manager" where
  "refresh_pools env lm s net snapshot_id tokens current changed_specs patches block m =
     (case refresh_states net (dm_admission m) current changed_specs patches (map_option b_number block) of
        Inl err \<Rightarrow> (Inl err, m)
      | Inr (ps, changed) \<Rightarrow>
          (case aave_flash_reserves env (rn_tokens net) (rn_aave_clock net) (ct_aave_pool (st_contracts s)) (dm_aave_cache m) of
             (Inl err, cache) \<Rightarrow> (Inl (Reserves_Failed err), m\<lparr>dm_aave_cache := cache\<rparr>)
           | (Inr reserves, cache) \<Rightarrow>
               let (ts, metadata) = extend_tokens_with_discovered env s (rn_tokens net) (map snd ps) reserves tokens (dm_metadata_cache m);
                   ts = apply_aave_flash_reserves reserves ts;
                   ts = (if derive_pool_prices_enabled env then derive_missing_prices_from_pools lm (map snd ps) ts else ts)
               in (Inr (graph_build env lm (snapshot_id + 1) block ts ps, changed),
                   m\<lparr>dm_aave_cache := cache, dm_metadata_cache := metadata\<rparr>)))"

section \<open>Specifications and skipped pools\<close>

definition pool_to_discovered_spec :: "pool_state \<Rightarrow> discovered_pool" where
  "pool_to_discovered_spec pool =
     \<lparr>dp_address = ps_pool_id pool, dp_dex_name = ps_dex_name pool, dp_amm_kind = ps_kind pool, dp_factory = ps_factory pool,
      dp_registry = ps_registry pool, dp_vault = ps_vault pool, dp_quoter = ps_quoter pool,
      dp_balancer_pool_id = (case ps_state pool of S_BalancerWeighted s \<Rightarrow> Some (bl_pool_id s) | _ \<Rightarrow> None),
      dp_priority = False\<rparr>"

definition pool_matches_spec :: "discovered_pool \<Rightarrow> pool_state \<Rightarrow> bool" where
  "pool_matches_spec spec pool \<longleftrightarrow>
     ps_pool_id pool = dp_address spec \<and> ps_dex_name pool = dp_dex_name spec \<and> ps_kind pool = dp_amm_kind spec \<and>
     ps_factory pool = dp_factory spec \<and> ps_registry pool = dp_registry spec \<and> ps_vault pool = dp_vault spec \<and>
     ps_quoter pool = dp_quoter spec"

definition discovered_pool_matches_spec :: "discovered_pool \<Rightarrow> discovered_pool \<Rightarrow> bool" where
  "discovered_pool_matches_spec a b \<longleftrightarrow>
     dp_address a = dp_address b \<and> dp_dex_name a = dp_dex_name b \<and> dp_amm_kind a = dp_amm_kind b \<and>
     dp_factory a = dp_factory b \<and> dp_registry a = dp_registry b \<and> dp_vault a = dp_vault b \<and> dp_quoter a = dp_quoter b \<and>
     dp_balancer_pool_id a = dp_balancer_pool_id b"

record skipped_pool_entry =
  sk_spec :: discovered_pool
  sk_reason :: string
  sk_skipped_at :: u64

type_synonym skipped_pools = "(address \<times> skipped_pool_entry) list"

definition skipped_pool_matches_spec :: "skipped_pool_entry \<Rightarrow> discovered_pool \<Rightarrow> bool" where
  "skipped_pool_matches_spec entry spec = discovered_pool_matches_spec (sk_spec entry) spec"

definition skipped_pool_cache_applies_to_spec :: "skipped_pool_entry \<Rightarrow> discovered_pool \<Rightarrow> bool" where
  "skipped_pool_cache_applies_to_spec entry spec \<longleftrightarrow>
     \<not> dp_priority spec \<or> sk_reason entry \<in> set [''v2_zero_liquidity'', ''aerodrome_v2_zero_liquidity'', ''v3_zero_liquidity'',
       ''curve_fetch_returned_none'', ''balancer_fetch_returned_none'']"

definition insert_skipped_pool_reason :: "u64 \<Rightarrow> discovered_pool \<Rightarrow> string \<Rightarrow> skipped_pools \<Rightarrow> skipped_pools" where
  "insert_skipped_pool_reason now_secs spec reason sk =
     AList.update (dp_address spec) \<lparr>sk_spec = spec, sk_reason = reason, sk_skipped_at = now_secs\<rparr> sk"

text \<open>These flags are matched case by case, without trimming.\<close>

definition env_flag :: "env \<Rightarrow> string \<Rightarrow> bool" where
  "env_flag env key =
     (case env key of None \<Rightarrow> False | Some v \<Rightarrow> v \<in> set [''1'', ''true'', ''TRUE'', ''yes'', ''YES''])"

definition pool_state_cache_disabled :: "env \<Rightarrow> bool" where
  "pool_state_cache_disabled env = env_flag env ''DISABLE_POOL_STATE_CACHE''"

definition fetch_unseen_pools_on_bootstrap :: "env \<Rightarrow> bool" where
  "fetch_unseen_pools_on_bootstrap env = env_flag env ''DISCOVERY_FETCH_UNSEEN_POOLS''"

definition skipped_pool_cache_disabled :: "env \<Rightarrow> bool" where
  "skipped_pool_cache_disabled env = env_flag env ''DISABLE_SKIPPED_POOL_CACHE''"

definition bootstrap_replay_cached_pool_states :: "env \<Rightarrow> bool" where
  "bootstrap_replay_cached_pool_states env =
     (case env ''BOOTSTRAP_REPLAY_CACHED_POOL_STATES'' of
        None \<Rightarrow> True | Some v \<Rightarrow> v \<notin> set [''0'', ''false'', ''FALSE'', ''no'', ''NO''])"

definition bootstrap_replay_max_blocks :: "env \<Rightarrow> u64 option" where
  "bootstrap_replay_max_blocks env =
     filter_opt (\<lambda>v. v \<noteq> 0) (Option.bind (env ''BOOTSTRAP_REPLAY_MAX_BLOCKS'') parse_word)"

definition skipped_pool_cache_ttl_secs :: "env \<Rightarrow> u64" where
  "skipped_pool_cache_ttl_secs env = unwrap_or (Option.bind (env ''SKIPPED_POOL_CACHE_TTL_SECS'') parse_word) 86400"

definition skipped_pool_cache_entry_active :: "env \<Rightarrow> u64 \<Rightarrow> skipped_pool_entry \<Rightarrow> bool" where
  "skipped_pool_cache_entry_active env now_secs entry \<longleftrightarrow>
     \<not> skipped_pool_cache_disabled env \<and> sat_sub now_secs (sk_skipped_at entry) \<le> skipped_pool_cache_ttl_secs env"

section \<open>The cache of pool states\<close>

record pool_state_cache =
  pc_version :: u32
  pc_chain_id :: u64
  pc_saved_at_block :: "u64 option"
  pc_saved_at_unix_secs :: "u64 option"
  pc_pools :: "pool_state list"
  pc_skipped_pools :: "skipped_pool_entry list"

definition oldest_block :: "pool_state list \<Rightarrow> u64 option" where
  "oldest_block ps = (let bs = filter (\<lambda>b. 0 < b) (map ps_last_updated_block ps) in if bs = [] then None else Some (Min (set bs)))"

definition pool_state_cache_from_parts :: "settings \<Rightarrow> u64 \<Rightarrow> pool_state list \<Rightarrow> skipped_pool_entry list \<Rightarrow> pool_state_cache" where
  "pool_state_cache_from_parts s now_secs ps skipped =
     \<lparr>pc_version = 1, pc_chain_id = st_chain_id s, pc_saved_at_block = oldest_block ps, pc_saved_at_unix_secs = Some now_secs,
      pc_pools = ps, pc_skipped_pools = skipped\<rparr>"

definition anchor_block :: "pool_state_cache \<Rightarrow> u64 option" where
  "anchor_block c =
     (case (pc_saved_at_block c, oldest_block (pc_pools c)) of
        (Some a, Some b) \<Rightarrow> Some (min a b)
      | (Some a, None) \<Rightarrow> Some a
      | (None, b) \<Rightarrow> b)"

definition pool_state_cache_valid :: "settings \<Rightarrow> pool_state_cache \<Rightarrow> bool" where
  "pool_state_cache_valid s c \<longleftrightarrow> pc_version c = 1 \<and> pc_chain_id c = st_chain_id s"

text \<open>The cache of token metadata has the same header.\<close>

record token_metadata_entry =
  tm_address :: address
  tm_symbol :: string
  tm_decimals :: u8

record token_metadata_cache =
  tc_version :: u32
  tc_cache_chain_id :: u64
  tc_entries :: "token_metadata_entry list"

definition token_metadata_from_map :: "u64 \<Rightarrow> metadata \<Rightarrow> token_metadata_cache" where
  "token_metadata_from_map c m =
     \<lparr>tc_version = 1, tc_cache_chain_id = c,
      tc_entries = map (\<lambda>(a, symbol, decimals). \<lparr>tm_address = a, tm_symbol = symbol, tm_decimals = decimals\<rparr>) m\<rparr>"

definition token_metadata_into_map :: "token_metadata_cache \<Rightarrow> metadata" where
  "token_metadata_into_map c = fold (\<lambda>e. AList.update (tm_address e) (tm_symbol e, tm_decimals e)) (tc_entries c) []"

definition token_metadata_valid :: "settings \<Rightarrow> token_metadata_cache \<Rightarrow> bool" where
  "token_metadata_valid s c \<longleftrightarrow> tc_version c = 1 \<and> tc_cache_chain_id c = st_chain_id s"

lemma token_metadata_round_trip:
  assumes "distinct (map fst m)"
  shows "map_of (token_metadata_into_map (token_metadata_from_map c m)) = map_of m"
proof -
  have "map_of (fold (\<lambda>e. AList.update (tm_address e) (tm_symbol e, tm_decimals e))
      (map (\<lambda>(a, symbol, decimals). \<lparr>tm_address = a, tm_symbol = symbol, tm_decimals = decimals\<rparr>) m) acc) = map_of acc ++ map_of m" for acc
    using assms
  proof (induction m arbitrary: acc)
    case (Cons x m)
    obtain a symbol decimals where x: "x = (a, symbol, decimals)" by (cases x)
    then have "map_of m a = None" using Cons.prems by (simp add: map_of_eq_None_iff)
    then have eq: "(map_of acc)(a \<mapsto> (symbol, decimals)) ++ map_of m = map_of acc ++ (map_of m)(a \<mapsto> (symbol, decimals))"
      by (auto simp: fun_eq_iff map_add_def split: option.splits)
    have "distinct (map fst m)" using Cons.prems by simp
    from Cons.IH [OF this, of "AList.update a (symbol, decimals) acc"] show ?case
      unfolding x by (simp only: list.map fold_Cons comp_apply prod.case token_metadata_entry.simps update_conv' eq map_of.simps fst_conv snd_conv)
  qed simp
  from this [of "[]"] show ?thesis by (simp add: token_metadata_into_map_def token_metadata_from_map_def)
qed

section \<open>What to fetch at the start\<close>

record fetch_queues =
  fq_v2 :: "discovered_pool list"
  fq_aerodrome_v2 :: "discovered_pool list"
  fq_v3 :: "discovered_pool list"
  fq_trader_joe_lb :: "discovered_pool list"
  fq_other :: "discovered_pool list"

definition no_queues :: fetch_queues where
  "no_queues = \<lparr>fq_v2 = [], fq_aerodrome_v2 = [], fq_v3 = [], fq_trader_joe_lb = [], fq_other = []\<rparr>"

definition push_fetch_spec :: "discovered_pool \<Rightarrow> fetch_queues \<Rightarrow> fetch_queues" where
  "push_fetch_spec spec q =
     (case dp_amm_kind spec of
        UniswapV2Like \<Rightarrow> q\<lparr>fq_v2 := fq_v2 q @ [spec]\<rparr>
      | AerodromeV2Like \<Rightarrow> q\<lparr>fq_aerodrome_v2 := fq_aerodrome_v2 q @ [spec]\<rparr>
      | UniswapV3Like \<Rightarrow> q\<lparr>fq_v3 := fq_v3 q @ [spec]\<rparr>
      | TraderJoeLb \<Rightarrow> q\<lparr>fq_trader_joe_lb := fq_trader_joe_lb q @ [spec]\<rparr>
      | _ \<Rightarrow> q\<lparr>fq_other := fq_other q @ [spec]\<rparr>)"

definition is_high_cardinality_pool_kind :: "amm_kind \<Rightarrow> bool" where
  "is_high_cardinality_pool_kind k = (k \<in> set [UniswapV2Like, AerodromeV2Like, UniswapV3Like])"

record boot_state =
  bo_pools :: pools
  bo_cached :: pools
  bo_skipped :: skipped_pools
  bo_queues :: fetch_queues

definition plan_uncached :: "bool \<Rightarrow> discovered_pool \<Rightarrow> boot_state \<Rightarrow> boot_state" where
  "plan_uncached fetch_unseen spec st =
     (if \<not> fetch_unseen \<and> is_high_cardinality_pool_kind (dp_amm_kind spec) \<and> \<not> dp_priority spec then st
      else st\<lparr>bo_queues := push_fetch_spec spec (bo_queues st)\<rparr>)"

definition plan_spec :: "instant \<Rightarrow> admission_engine \<Rightarrow> bool \<Rightarrow> bool \<Rightarrow> discovered_pool \<Rightarrow> boot_state \<Rightarrow> boot_state" where
  "plan_spec now e replay fetch_unseen spec st0 =
     (let cached = filter_opt (pool_matches_spec spec) (map_of (bo_cached st0) (dp_address spec));
          st = st0\<lparr>bo_cached := AList.delete (dp_address spec) (bo_cached st0)\<rparr>
      in case cached of
        Some pool \<Rightarrow>
          if admit now e pool \<or> replay \<and> \<not> h_stale (ps_health pool) \<and> should_refresh_cached e pool
          then st\<lparr>bo_pools := AList.update (ps_pool_id pool) pool (bo_pools st)\<rparr>
          else if should_refresh_cached e pool then st\<lparr>bo_queues := push_fetch_spec spec (bo_queues st)\<rparr>
          else st
      | None \<Rightarrow>
          (case map_of (bo_skipped st) (dp_address spec) of
             Some entry \<Rightarrow>
               if skipped_pool_matches_spec entry spec \<and> skipped_pool_cache_applies_to_spec entry spec then st
               else plan_uncached fetch_unseen spec (st\<lparr>bo_skipped := AList.delete (dp_address spec) (bo_skipped st)\<rparr>)
           | None \<Rightarrow> plan_uncached fetch_unseen spec st))"

section \<open>Fetching the queues\<close>

record pool_fetch_batch =
  pb_pools :: "pool_state list"
  pb_skipped :: "(discovered_pool \<times> string) list"

datatype fetch_phase = V2_Batch | Aerodrome_Batch | V3_Batch | Lb_Batch

text \<open>The fetcher: batches for four kinds of pools, single fetches with retries for the others.\<close>

record boot_fetcher =
  bf_batch :: "fetch_phase \<Rightarrow> discovered_pool list \<Rightarrow> u64 option \<Rightarrow> string + pool_fetch_batch"
  bf_single :: "discovered_pool \<Rightarrow> u64 option \<Rightarrow> string + pool_state option"

definition note_skipped :: "u64 \<Rightarrow> (discovered_pool \<times> string) list \<Rightarrow> skipped_pools \<Rightarrow> skipped_pools" where
  "note_skipped now_secs skipped sk = fold (\<lambda>(spec, reason). insert_skipped_pool_reason now_secs spec reason) skipped sk"

definition keep_pool :: "pool_state \<Rightarrow> pools \<times> skipped_pools \<Rightarrow> pools \<times> skipped_pools" where
  "keep_pool pool st = (AList.update (ps_pool_id pool) pool (fst st), AList.delete (ps_pool_id pool) (snd st))"

definition keep_if_admitted :: "instant \<Rightarrow> admission_engine \<Rightarrow> pool_state \<Rightarrow> pools \<times> skipped_pools \<Rightarrow> pools \<times> skipped_pools" where
  "keep_if_admitted now e pool st = (if admit now e pool then keep_pool pool st else st)"

definition boot_batch ::
  "boot_fetcher \<Rightarrow> instant \<Rightarrow> u64 \<Rightarrow> admission_engine \<Rightarrow> u64 option \<Rightarrow> fetch_phase \<Rightarrow> discovered_pool list \<Rightarrow>
   pools \<times> skipped_pools \<Rightarrow> string + pools \<times> skipped_pools" where
  "boot_batch f now now_secs e block phase specs st =
     res_bind (bf_batch f phase specs block) (\<lambda>b.
       Inr (fold (keep_if_admitted now e) (pb_pools b) (fst st, note_skipped now_secs (pb_skipped b) (snd st))))"

definition boot_single ::
  "boot_fetcher \<Rightarrow> instant \<Rightarrow> u64 \<Rightarrow> admission_engine \<Rightarrow> u64 option \<Rightarrow> discovered_pool \<Rightarrow> pools \<times> skipped_pools \<Rightarrow> pools \<times> skipped_pools" where
  "boot_single f now now_secs e block spec st =
     (case bf_single f spec block of
        Inr (Some pool) \<Rightarrow> keep_if_admitted now e pool st
      | Inr None \<Rightarrow> (fst st, insert_skipped_pool_reason now_secs spec ''non_v2_v3_fetch_returned_none'' (snd st))
      | Inl _ \<Rightarrow> (fst st, insert_skipped_pool_reason now_secs spec ''non_v2_v3_fetch_failed'' (snd st)))"

definition fetch_queues_into ::
  "boot_fetcher \<Rightarrow> instant \<Rightarrow> u64 \<Rightarrow> admission_engine \<Rightarrow> u64 option \<Rightarrow> fetch_queues \<Rightarrow> pools \<times> skipped_pools \<Rightarrow> string + pools \<times> skipped_pools" where
  "fetch_queues_into f now now_secs e block q st =
     res_bind (boot_batch f now now_secs e block V2_Batch (fq_v2 q) st) (\<lambda>st.
     res_bind (boot_batch f now now_secs e block Aerodrome_Batch (fq_aerodrome_v2 q) st) (\<lambda>st.
     res_bind (boot_batch f now now_secs e block V3_Batch (fq_v3 q) st) (\<lambda>st.
     res_bind (boot_batch f now now_secs e block Lb_Batch (fq_trader_joe_lb q) st) (\<lambda>st.
       Inr (fold (boot_single f now now_secs e block) (fq_other q) st)))))"

section \<open>Replaying missed events\<close>

definition collect_replay_patches :: "refresh_batch \<Rightarrow> pool_state_patch list" where
  "collect_replay_patches batch = List.map_filter rt_patch (filter (\<lambda>t. \<not> rt_full_refresh t) batch)"

definition collect_replay_full_refresh_specs :: "pools \<Rightarrow> refresh_batch \<Rightarrow> discovered_pool list" where
  "collect_replay_full_refresh_specs ps batch =
     List.map_filter (\<lambda>a. map_option pool_to_discovered_spec (map_of ps a))
       (unknown_addresses {} (List.map_filter rt_pool_id (filter rt_full_refresh batch)))"

definition replayed_health :: "instant \<Rightarrow> pool_health \<Rightarrow> u64 \<Rightarrow> pool_health" where
  "replayed_health now previous block = patched_health now previous block"

definition mark_replayed_pool :: "instant \<Rightarrow> u64 \<Rightarrow> pool_state \<Rightarrow> pool_state" where
  "mark_replayed_pool now block pool =
     (if h_paused (ps_health pool) \<or> h_quarantined (ps_health pool) then pool
      else pool\<lparr>ps_health := replayed_health now (ps_health pool) block, ps_last_updated_block := max (ps_last_updated_block pool) block\<rparr>)"

definition mark_replayed_pools_current :: "instant \<Rightarrow> u64 \<Rightarrow> pools \<Rightarrow> pools" where
  "mark_replayed_pools_current now block ps = map (\<lambda>(a, pool). (a, mark_replayed_pool now block pool)) ps"

text \<open>The full refreshes of a replay; the state is the pools, the skipped ones and the pools whose refresh failed.\<close>

type_synonym replay_state = "pools \<times> skipped_pools \<times> address list"

definition replay_skip :: "u64 \<Rightarrow> discovered_pool \<times> string \<Rightarrow> replay_state \<Rightarrow> replay_state" where
  "replay_skip now_secs entry st =
     (case (entry, st) of ((spec, reason), (ps, sk, failed)) \<Rightarrow>
        (ps, insert_skipped_pool_reason now_secs spec reason sk, List.insert (dp_address spec) failed))"

definition replay_keep :: "pool_state \<Rightarrow> replay_state \<Rightarrow> replay_state" where
  "replay_keep pool st =
     (case st of (ps, sk, failed) \<Rightarrow>
        (AList.update (ps_pool_id pool) pool ps, AList.delete (ps_pool_id pool) sk, remove1 (ps_pool_id pool) failed))"

definition replay_batch ::
  "boot_fetcher \<Rightarrow> u64 \<Rightarrow> u64 \<Rightarrow> fetch_phase \<Rightarrow> discovered_pool list \<Rightarrow> replay_state \<Rightarrow> string + replay_state" where
  "replay_batch f now_secs latest phase specs st =
     res_bind (bf_batch f phase specs (Some latest)) (\<lambda>b.
       Inr (fold replay_keep (pb_pools b) (fold (replay_skip now_secs) (pb_skipped b) st)))"

definition replay_single ::
  "boot_fetcher \<Rightarrow> instant \<Rightarrow> u64 \<Rightarrow> admission_engine \<Rightarrow> u64 \<Rightarrow> discovered_pool \<Rightarrow> replay_state \<Rightarrow> replay_state" where
  "replay_single f now now_secs e latest spec st =
     (case bf_single f spec (Some latest) of
        Inl _ \<Rightarrow> replay_skip now_secs (spec, ''replay_full_refresh_failed'') st
      | Inr None \<Rightarrow> replay_skip now_secs (spec, ''replay_full_refresh_returned_none'') st
      | Inr (Some pool) \<Rightarrow>
          if admit now e pool then replay_keep pool st
          else replay_skip now_secs (spec, ''replay_full_refresh_returned_none'') st)"

definition fetch_replay_full_refresh_pools ::
  "boot_fetcher \<Rightarrow> instant \<Rightarrow> u64 \<Rightarrow> admission_engine \<Rightarrow> u64 \<Rightarrow> discovered_pool list \<Rightarrow> replay_state \<Rightarrow> string + replay_state" where
  "fetch_replay_full_refresh_pools f now now_secs e latest specs st =
     (let q = fold push_fetch_spec specs no_queues in
      res_bind (replay_batch f now_secs latest V2_Batch (fq_v2 q) st) (\<lambda>st.
      res_bind (replay_batch f now_secs latest Aerodrome_Batch (fq_aerodrome_v2 q) st) (\<lambda>st.
      res_bind (replay_batch f now_secs latest V3_Batch (fq_v3 q) st) (\<lambda>st.
      res_bind (replay_batch f now_secs latest Lb_Batch (fq_trader_joe_lb q) st) (\<lambda>st.
        Inr (fold (replay_single f now now_secs e latest) (fq_other q) st))))))"

definition mark_stale :: "address \<Rightarrow> pools \<Rightarrow> pools" where
  "mark_stale a ps =
     (case map_of ps a of
        None \<Rightarrow> ps
      | Some pool \<Rightarrow> AList.update a (pool\<lparr>ps_health := (ps_health pool)\<lparr>h_stale := True\<rparr>\<rparr>) ps)"

datatype boot_error = Boot_Failed string | Boot_Panic

text \<open>What a bootstrap asks for besides the fetcher.\<close>

record boot_net =
  bn_fetcher :: boot_fetcher
  bn_events :: event_net
  bn_tokens :: token_net
  bn_scan_all :: "string + discovered_pool list"
  bn_latest_block :: "string + u64"
  bn_current_block_ref :: "string + block_ref"
  bn_cache_load :: "string + pool_state_cache"
  bn_keccak :: "string \<Rightarrow> b256"
  bn_now :: instant
  bn_now_secs :: u64
  bn_aave_clock :: "instant \<times> instant"

definition apply_replay_patch :: "instant \<Rightarrow> u64 \<Rightarrow> pool_state_patch \<Rightarrow> pools \<Rightarrow> boot_error + pools" where
  "apply_replay_patch now latest patch ps =
     (case apply_patch now (Some latest) patch (ps, []) of Inl _ \<Rightarrow> Inl Boot_Panic | Inr (ps', _) \<Rightarrow> Inr ps')"

definition boot_result :: "string + 'a \<Rightarrow> boot_error + 'a" where
  "boot_result r = (case r of Inl e \<Rightarrow> Inl (Boot_Failed e) | Inr v \<Rightarrow> Inr v)"

definition backfill_result :: "poll_error + refresh_batch \<Rightarrow> boot_error + refresh_batch" where
  "backfill_result r =
     (case r of Inl (Node_Refused e) \<Rightarrow> Inl (Boot_Failed e) | Inl Decode_Panic \<Rightarrow> Inl Boot_Panic | Inr b \<Rightarrow> Inr b)"

definition replay_batch_of ::
  "env \<Rightarrow> libm \<Rightarrow> settings \<Rightarrow> boot_net \<Rightarrow> u64 \<Rightarrow> u64 \<Rightarrow> pools \<Rightarrow> boot_error + refresh_batch" where
  "replay_batch_of env lm s net anchor latest ps =
     backfill_result (backfill_once env (st_chain s) (bn_keccak net) (bn_events net) (graph_build env lm 0 None [] ps)
       (sat_sub anchor (rk_event_backfill_blocks (st_risk s))) latest)"

definition replay_cached_pool_state_events ::
  "env \<Rightarrow> libm \<Rightarrow> settings \<Rightarrow> boot_net \<Rightarrow> admission_engine \<Rightarrow> u64 \<Rightarrow> u64 \<Rightarrow> pools \<times> skipped_pools \<Rightarrow> boot_error + pools \<times> skipped_pools" where
  "replay_cached_pool_state_events env lm s net e anchor latest st =
     (case st of (ps, sk) \<Rightarrow>
        if latest = 0 \<or> latest \<le> anchor then Inr (mark_replayed_pools_current (bn_now net) (max latest anchor) ps, sk)
        else
          res_bind (replay_batch_of env lm s net anchor latest ps) (\<lambda>batch.
          let specs = collect_replay_full_refresh_specs ps batch in
          res_bind (fold_res (apply_replay_patch (bn_now net) latest) (collect_replay_patches batch) ps) (\<lambda>ps1.
          res_bind (if specs = [] then Inr (ps1, sk, [])
                    else boot_result (fetch_replay_full_refresh_pools (bn_fetcher net) (bn_now net) (bn_now_secs net) e latest specs
                      (ps1, sk, []))) (\<lambda>(ps2, sk2, failed).
            Inr (fold mark_stale failed (mark_replayed_pools_current (bn_now net) latest ps2), sk2)))))"

section \<open>Bootstrap\<close>

record discovery_output =
  do_tokens :: "token_info list"
  do_pools :: pools
  do_snapshot :: graph_snapshot

text \<open>The cache that was loaded: its pools, the active skipped entries, whether it loaded, and its anchor.\<close>

definition by_id :: "('a \<Rightarrow> address) \<Rightarrow> 'a list \<Rightarrow> (address \<times> 'a) list" where
  "by_id key xs = fold (\<lambda>x. AList.update (key x) x) xs []"

definition loaded_cache :: "env \<Rightarrow> settings \<Rightarrow> boot_net \<Rightarrow> pools \<times> skipped_pools \<times> bool \<times> u64 option" where
  "loaded_cache env s net =
     (if pool_state_cache_disabled env then ([], [], False, None)
      else case bn_cache_load net of
        Inl _ \<Rightarrow> ([], [], False, None)
      | Inr c \<Rightarrow>
          if pool_state_cache_valid s c
          then (by_id ps_pool_id (pc_pools c),
                by_id (\<lambda>k. dp_address (sk_spec k)) (filter (skipped_pool_cache_entry_active env (bn_now_secs net)) (pc_skipped_pools c)),
                True, anchor_block c)
          else ([], [], False, None))"

definition replays :: "env \<Rightarrow> bool \<Rightarrow> u64 option \<Rightarrow> u64 \<Rightarrow> bool" where
  "replays env loaded anchor latest \<longleftrightarrow>
     bootstrap_replay_cached_pool_states env \<and> loaded \<and> anchor \<noteq> None \<and>
     (case bootstrap_replay_max_blocks env of
        None \<Rightarrow> True
      | Some max_blocks \<Rightarrow> unwrap_or (map_option (sat_sub latest) anchor) 0 \<le> max_blocks)"

definition boot_plan :: "env \<Rightarrow> settings \<Rightarrow> boot_net \<Rightarrow> admission_engine \<Rightarrow> u64 \<Rightarrow> discovered_pool list \<Rightarrow> boot_state \<times> u64 option" where
  "boot_plan env s net e latest discovered =
     (let (cached, skipped, loaded, anchor) = loaded_cache env s net;
          fetch_unseen = fetch_unseen_pools_on_bootstrap env \<or> \<not> loaded;
          replay = replays env loaded anchor latest
      in (fold (plan_spec (bn_now net) e replay fetch_unseen) discovered
            \<lparr>bo_pools = [], bo_cached = cached, bo_skipped = skipped, bo_queues = no_queues\<rparr>,
          if replay then anchor else None))"

text \<open>Files that are written on the way (the checkpoints of the cache) are not part of the result.\<close>

definition boot_pools ::
  "env \<Rightarrow> libm \<Rightarrow> settings \<Rightarrow> boot_net \<Rightarrow> admission_engine \<Rightarrow> u64 \<Rightarrow> discovered_pool list \<Rightarrow> boot_error + pools \<times> skipped_pools" where
  "boot_pools env lm s net e latest discovered =
     (let (plan, replay_from) = boot_plan env s net e latest discovered in
      res_bind (boot_result (fetch_queues_into (bn_fetcher net) (bn_now net) (bn_now_secs net) e
        (if 0 < latest then Some latest else None) (bo_queues plan) (bo_pools plan, bo_skipped plan))) (\<lambda>st.
      case replay_from of
        None \<Rightarrow> Inr st
      | Some anchor \<Rightarrow> replay_cached_pool_state_events env lm s net e anchor latest st))"

definition bootstrap ::
  "env \<Rightarrow> libm \<Rightarrow> settings \<Rightarrow> boot_net \<Rightarrow> discovery_manager \<Rightarrow> (boot_error + discovery_output \<times> pool_state_cache) \<times> discovery_manager" where
  "bootstrap env lm s net m =
     (case aave_flash_reserves env (bn_tokens net) (bn_aave_clock net) (ct_aave_pool (st_contracts s)) (dm_aave_cache m) of
        (Inl err, cache) \<Rightarrow> (Inl (Boot_Failed err), m\<lparr>dm_aave_cache := cache\<rparr>)
      | (Inr reserves, cache) \<Rightarrow>
          (let m1 = m\<lparr>dm_aave_cache := cache\<rparr>; latest = (case bn_latest_block net of Inl _ \<Rightarrow> 0 | Inr b \<Rightarrow> b) in
           case res_bind (boot_result (bn_scan_all net)) (boot_pools env lm s net (dm_admission m) latest) of
             Inl err \<Rightarrow> (Inl err, m1)
           | Inr (ps, sk) \<Rightarrow>
               (let (tokens, metadata) = discover_tokens env s (bn_tokens net) (map snd ps) reserves (dm_metadata_cache m);
                    tokens = (if derive_pool_prices_enabled env then derive_missing_prices_from_pools lm (map snd ps) tokens else tokens);
                    block = (if 0 < latest then (case bn_current_block_ref net of Inl _ \<Rightarrow> None | Inr b \<Rightarrow> Some b) else None)
                in (Inr (\<lparr>do_tokens = tokens, do_pools = ps, do_snapshot = graph_build env lm 0 block tokens ps\<rparr>,
                         pool_state_cache_from_parts s (bn_now_secs net) (map snd ps) (map snd sk)),
                    m1\<lparr>dm_metadata_cache := metadata\<rparr>))))"

section \<open>What a patch leaves alone\<close>















text \<open>A pool that was fetched again and is no longer admitted keeps its old state and is not reported as changed.\<close>

lemma unadmitted_refetch_keeps_old:
  "rn_fetch net spec block = Inr (Some pool) \<Longrightarrow> \<not> admit (rn_now net) e pool \<Longrightarrow>
   refresh_states net e current [spec] [] block = Inr (current, [])"
  by (simp add: refresh_states_def refetch_pool_def)

section \<open>Logs, batch and refresh together\<close>

lemma two_syncs_batch:
  assumes "pool_of g p = Some pool" and "ps_kind pool = UniswapV2Like"
  shows "build_refresh_batch keccak g
      [sync_log p r0 r1 b (keccak ''Sync(uint112,uint112)''), sync_log p r0' r1' b' (keccak ''Sync(uint112,uint112)'')] =
    Inr [trigger_of ''pool-log-patch'' ''pool-log-refresh'' p (Some (UniswapV2Sync p r0 r1 (Some b)))]"
  by (simp add: build_refresh_batch_def add_log_def sync_trigger [OF assms] upsert_trigger_def trigger_of_def)

text \<open>C24: two Sync logs of one V2 pool in one batch leave the pool with the reserves and the block of the first of them: the
  later log has no effect.\<close>

theorem first_sync_wins:
  assumes "pool_of g p = Some pool" and "ps_kind pool = UniswapV2Like" and "ps_state pool = S_UniswapV2Like s"
  shows "\<exists>batch ps changed pool'. build_refresh_batch keccak g
      [sync_log p r0 r1 b (keccak ''Sync(uint112,uint112)''), sync_log p r0' r1' b' (keccak ''Sync(uint112,uint112)'')] = Inr batch \<and>
    refresh_states net e (gs_pools g) [] (collect_replay_patches batch) block = Inr (ps, changed) \<and>
    map_of ps p = Some pool' \<and> ps_state pool' = S_UniswapV2Like (s\<lparr>v2_reserve0 := r0, v2_reserve1 := r1\<rparr>) \<and>
    ps_last_updated_block pool' = b"
proof -
  have "map_of (gs_pools g) p = Some pool" using assms(1) by (simp add: pool_of_def)
  then show ?thesis
    by (simp add: two_syncs_batch [OF assms(1,2)] collect_replay_patches_def trigger_of_def List.map_filter_def refresh_states_def
      apply_patch_def apply_pool_patch_def assms(3) update_conv opt_or_def)
qed

definition demo_refresh :: refresh_net where
  "demo_refresh =
     \<lparr>rn_fetch = (\<lambda>spec block. Inr None),
      rn_tokens = \<lparr>tn_reserves = Inr [], tn_configs = (\<lambda>as. None), tn_config_call = (\<lambda>a. None), tn_decode_config = (\<lambda>b. None),
        tn_metadata = (\<lambda>k as. None), tn_symbol_call = (\<lambda>a. None), tn_decimals_call = (\<lambda>a. None), tn_decode_symbol = (\<lambda>b. None),
        tn_decode_decimals = (\<lambda>b. None), tn_show_address = (\<lambda>a. ''0x'')\<rparr>,
      rn_now = 5, rn_aave_clock = (0, 0)\<rparr>"




theorem first_sync_wins_witness:
  "\<forall>keccak env lm e. \<exists>batch ps changed pool'. build_refresh_batch keccak (demo_graph env lm)
      [sync_log (ps_pool_id demo_pool) 1 2 5 (keccak ''Sync(uint112,uint112)''),
       sync_log (ps_pool_id demo_pool) 3 4 6 (keccak ''Sync(uint112,uint112)'')] = Inr batch \<and>
    refresh_states demo_refresh e (gs_pools (demo_graph env lm)) [] (collect_replay_patches batch) None = Inr (ps, changed) \<and>
    map_of ps (ps_pool_id demo_pool) = Some pool' \<and> ps_last_updated_block pool' = 5"
proof (intro allI)
  fix keccak env lm e
  obtain s where s: "ps_state demo_pool = S_UniswapV2Like s" by (simp add: demo_pool_def)
  have p: "pool_of (demo_graph env lm) (ps_pool_id demo_pool) = Some demo_pool"
    by (simp add: pool_of_def demo_graph_def graph_build_def Let_def demo_pool_def)
  show "\<exists>batch ps changed pool'. build_refresh_batch keccak (demo_graph env lm)
      [sync_log (ps_pool_id demo_pool) 1 2 5 (keccak ''Sync(uint112,uint112)''),
       sync_log (ps_pool_id demo_pool) 3 4 6 (keccak ''Sync(uint112,uint112)'')] = Inr batch \<and>
    refresh_states demo_refresh e (gs_pools (demo_graph env lm)) [] (collect_replay_patches batch) None = Inr (ps, changed) \<and>
    map_of ps (ps_pool_id demo_pool) = Some pool' \<and> ps_last_updated_block pool' = 5"
    using first_sync_wins [OF p _ s, of keccak 1 2 5 3 4 6 demo_refresh e None] by (auto simp: demo_pool_def)
qed

section \<open>What a bootstrap starts with\<close>

definition all_admitted :: "instant \<Rightarrow> admission_engine \<Rightarrow> pools \<Rightarrow> bool" where
  "all_admitted now e ps \<longleftrightarrow> list_all (\<lambda>(a, pool). admit now e pool) ps"

lemma all_admitted_Nil [simp]: "all_admitted now e []"
  by (simp add: all_admitted_def)

lemma all_admitted_update: "all_admitted now e ps \<Longrightarrow> admit now e pool \<Longrightarrow> all_admitted now e (AList.update a pool ps)"
  by (induction ps) (auto simp: all_admitted_def)

lemma plan_uncached_pools [simp]: "bo_pools (plan_uncached fu spec st) = bo_pools st"
  by (simp add: plan_uncached_def)

lemma plan_spec_admitted:
  assumes "all_admitted now e (bo_pools st)"
  shows "all_admitted now e (bo_pools (plan_spec now e False fu spec st))"
proof (cases "filter_opt (pool_matches_spec spec) (map_of (bo_cached st) (dp_address spec))")
  case None
  with assms show ?thesis by (simp add: plan_spec_def Let_def split: option.splits)
next
  case (Some pool)
  show ?thesis unfolding plan_spec_def Let_def Some option.case using assms by (simp add: all_admitted_update)
qed

lemma fold_admitted:
  "(\<And>x st. P st \<Longrightarrow> P (f x st)) \<Longrightarrow> P st \<Longrightarrow> P (fold f xs st)"
  by (induction xs arbitrary: st) auto

lemma keep_if_admitted_ok: "all_admitted now e (fst st) \<Longrightarrow> all_admitted now e (fst (keep_if_admitted now e pool st))"
  by (simp add: keep_if_admitted_def keep_pool_def all_admitted_update)

lemma boot_batch_ok:
  assumes "boot_batch f now now_secs e block phase specs st = Inr st'" and "all_admitted now e (fst st)"
  shows "all_admitted now e (fst st')"
proof -
  from assms(1) obtain b where "bf_batch f phase specs block = Inr b"
    and "st' = fold (keep_if_admitted now e) (pb_pools b) (fst st, note_skipped now_secs (pb_skipped b) (snd st))"
    by (auto simp: boot_batch_def res_bind_Inr)
  then show ?thesis using assms(2) by (auto intro!: fold_admitted [where P = "\<lambda>st. all_admitted now e (fst st)"] keep_if_admitted_ok)
qed

lemma boot_single_ok: "all_admitted now e (fst st) \<Longrightarrow> all_admitted now e (fst (boot_single f now now_secs e block spec st))"
  by (auto simp: boot_single_def keep_if_admitted_ok split: sum.splits option.splits)

lemma fetch_queues_ok:
  assumes "fetch_queues_into f now now_secs e block q st = Inr st'" and "all_admitted now e (fst st)"
  shows "all_admitted now e (fst st')"
  using assms
  by (auto simp: fetch_queues_into_def res_bind_Inr dest!: boot_batch_ok
    intro!: fold_admitted [where P = "\<lambda>st. all_admitted now e (fst st)"] boot_single_ok)

text \<open>C21: a bootstrap that replays no events starts with admitted pools only, whether they come from the cache or were fetched:
  at least two tokens, usable liquidity, not excluded, paused, quarantined or stale, and confident enough.\<close>

theorem bootstrap_pools_admitted:
  assumes "boot_plan env s net e latest discovered = (plan, None)" and "boot_pools env lm s net e latest discovered = Inr (ps, sk)"
  shows "all_admitted (bn_now net) e ps"
proof -
  obtain cached skipped loaded anchor where c: "loaded_cache env s net = (cached, skipped, loaded, anchor)"
    by (cases "loaded_cache env s net")
  have r: "\<not> replays env loaded anchor latest"
    using assms(1) by (auto simp: boot_plan_def c Let_def replays_def split: if_splits)
  then have "all_admitted (bn_now net) e (bo_pools plan)"
    using assms(1) by (auto simp: boot_plan_def c Let_def
      intro!: fold_admitted [where P = "\<lambda>st. all_admitted (bn_now net) e (bo_pools st)"] plan_spec_admitted)
  with assms show ?thesis
    by (auto simp: boot_pools_def boot_result_def res_bind_Inr split: sum.splits dest!: fetch_queues_ok)
qed

definition fresh_chain :: "pool_state list \<Rightarrow> boot_net" where
  "fresh_chain found =
     \<lparr>bn_fetcher = \<lparr>bf_batch = (\<lambda>phase specs block. Inr \<lparr>pb_pools = (if specs = [] then [] else found), pb_skipped = []\<rparr>),
        bf_single = (\<lambda>spec block. Inr None)\<rparr>,
      bn_events = demo_net (\<lambda>b. []), bn_tokens = rn_tokens demo_refresh, bn_scan_all = Inr [pool_to_discovered_spec demo_pool],
      bn_latest_block = Inr 12, bn_current_block_ref = Inl ''none'', bn_cache_load = Inl ''no cache'', bn_keccak = (\<lambda>s. 0),
      bn_now = 5, bn_now_secs = 0, bn_aave_clock = (0, 0)\<rparr>"

theorem bootstrap_pools_admitted_witness:
  "\<forall>lm s. \<exists>ps sk. boot_pools (\<lambda>_. None) lm s (fresh_chain [demo_pool]) \<lparr>ae_min_confidence_bps = 1, ae_staleness_timeout = 100\<rparr> 12
      [pool_to_discovered_spec demo_pool] = Inr (ps, sk) \<and> ps = [(9, demo_pool)] \<and>
    all_admitted 5 \<lparr>ae_min_confidence_bps = 1, ae_staleness_timeout = 100\<rparr> ps"
proof (intro allI)
  fix lm s
  let ?e = "\<lparr>ae_min_confidence_bps = 1, ae_staleness_timeout = 100\<rparr>" and ?net = "fresh_chain [demo_pool]"
  have dis: "\<not> pool_state_cache_disabled (\<lambda>_. None)" by (simp add: pool_state_cache_disabled_def env_flag_def)
  have c: "loaded_cache (\<lambda>_. None) s ?net = ([], [], False, None)" by (simp add: loaded_cache_def fresh_chain_def dis)
  have r: "\<not> replays (\<lambda>_. None) False None 12" by (simp add: replays_def)
  have k: "dp_amm_kind (pool_to_discovered_spec demo_pool) = UniswapV2Like" "ps_pool_id demo_pool = 9"
    by (simp_all add: pool_to_discovered_spec_def demo_pool_def)
  obtain plan where p: "boot_plan (\<lambda>_. None) s ?net ?e 12 [pool_to_discovered_spec demo_pool] = (plan, None)"
    and q: "bo_queues plan = no_queues\<lparr>fq_v2 := [pool_to_discovered_spec demo_pool]\<rparr>" "bo_pools plan = []"
    by (simp add: boot_plan_def c r plan_spec_def plan_uncached_def push_fetch_spec_def no_queues_def filter_opt_def k)
  have a: "admit 5 ?e demo_pool"
    by (simp add: admit_def pool_has_admissible_shape_def has_usable_liquidity_def demo_pool_def demo_v2_def healthy_def pool_health_default_def)
  have f: "bn_now ?net = 5" "bn_now_secs ?net = 0"
    "bf_batch (bn_fetcher ?net) phase specs block = Inr \<lparr>pb_pools = (if specs = [] then [] else [demo_pool]), pb_skipped = []\<rparr>" for phase specs block
    by (simp_all add: fresh_chain_def)
  obtain ps sk where b: "boot_pools (\<lambda>_. None) lm s ?net ?e 12 [pool_to_discovered_spec demo_pool] = Inr (ps, sk)"
    and ps: "ps = [(9, demo_pool)]"
    using a by (simp add: boot_pools_def p q no_queues_def fetch_queues_into_def boot_batch_def f keep_if_admitted_def
      keep_pool_def boot_result_def note_skipped_def k)
  from bootstrap_pools_admitted [OF p b] b ps
  show "\<exists>ps sk. boot_pools (\<lambda>_. None) lm s ?net ?e 12 [pool_to_discovered_spec demo_pool] = Inr (ps, sk) \<and> ps = [(9, demo_pool)] \<and>
    all_admitted 5 ?e ps"
    by (simp add: fresh_chain_def)
qed

end
