(* ===== verification/Cache_File.thy ===== *)
theory Cache_File
  imports Pool_Refresh Bytes
begin

text \<open>
  \<open>src/cache/mod.rs\<close>: cache files with a header, a checksum and a replacement by rename, and the loaders of
  \<open>src/discovery/mod.rs\<close> that fall back to an older format. A file system is a map from paths to bytes; opening,
  reading and renaming an existing file succeed. \<open>serde\<close>'s text of a value and its parser are arguments.
\<close>

section \<open>Paths\<close>

definition split_last :: "char \<Rightarrow> string \<Rightarrow> (string \<times> string) option" where
  "split_last d s =
     (case dropWhile (\<lambda>c. c \<noteq> d) (rev s) of [] \<Rightarrow> None | _ # r \<Rightarrow> Some (rev r, rev (takeWhile (\<lambda>c. c \<noteq> d) (rev s))))"

definition file_parts :: "string \<Rightarrow> string \<times> string" where
  "file_parts path = (case split_last (CHR ''/'') path of None \<Rightarrow> ([], path) | Some (dir, file) \<Rightarrow> (dir @ ''/'', file))"

text \<open>A name that only starts with a dot has no extension.\<close>

definition stem_and_extension :: "string \<Rightarrow> string \<times> string option" where
  "stem_and_extension file =
     (case split_last (CHR ''.'') file of
        Some (stem, ext) \<Rightarrow> if stem = [] then (file, None) else (stem, Some ext)
      | None \<Rightarrow> (file, None))"

definition path_extension :: "string \<Rightarrow> string option" where
  "path_extension path = snd (stem_and_extension (snd (file_parts path)))"

definition with_extension :: "string \<Rightarrow> string \<Rightarrow> string" where
  "with_extension path ext = (case file_parts path of (dir, file) \<Rightarrow> dir @ fst (stem_and_extension file) @ ''.'' @ ext)"

section \<open>The header\<close>

definition cache_schema_version :: u32 where "cache_schema_version = 2"

record cache_header =
  ch_version :: u32
  ch_created_at :: u64
  ch_checksum :: "string option"

definition bytes_of_string :: "string \<Rightarrow> u8 list" where
  "bytes_of_string s = map (\<lambda>c. word_of_nat (of_char c)) s"

definition magic :: "u8 list" where "magic = bytes_of_string ''DARC''"

text \<open>The length is cast to 16 bits.\<close>

definition write_header :: "cache_header \<Rightarrow> u8 list" where
  "write_header h =
     magic @ be_bytes 4 (unat (ch_version h)) @ be_bytes 8 (unat (ch_created_at h)) @
     (case ch_checksum h of
        None \<Rightarrow> [0]
      | Some c \<Rightarrow> [1] @ be_bytes 2 (length c) @ bytes_of_string c)"

definition read_exact :: "nat \<Rightarrow> u8 list \<Rightarrow> string + u8 list \<times> u8 list" where
  "read_exact n bs = (if length bs < n then Inl ''failed to fill whole buffer'' else Inr (take n bs, drop n bs))"

definition read_checksum :: "u8 list \<Rightarrow> string + string \<times> u8 list" where
  "read_checksum bs =
     res_bind (read_exact 2 bs) (\<lambda>(len, bs).
     res_bind (read_exact (be_value len) bs) (\<lambda>(text, bs).
       case string_of_bytes text of None \<Rightarrow> Inl ''checksum not valid UTF-8'' | Some c \<Rightarrow> Inr (c, bs)))"

text \<open>The header and what follows it.\<close>

definition read_header :: "u8 list \<Rightarrow> string + cache_header \<times> u8 list" where
  "read_header bs =
     res_bind (read_exact 4 bs) (\<lambda>(m, bs).
     if m \<noteq> magic then Inl ''invalid cache file: bad magic bytes''
     else
       res_bind (read_exact 4 bs) (\<lambda>(version, bs).
       res_bind (read_exact 8 bs) (\<lambda>(created_at, bs).
       res_bind (read_exact 1 bs) (\<lambda>(flags, bs).
       let h = \<lparr>ch_version = word_of_nat (be_value version), ch_created_at = word_of_nat (be_value created_at), ch_checksum = None\<rparr> in
       if and (hd flags) 1 \<noteq> 0 then res_bind (read_checksum bs) (\<lambda>(c, bs). Inr (h\<lparr>ch_checksum := Some c\<rparr>, bs))
       else Inr (h, bs)))))"

section \<open>Checksum\<close>

definition checksum64 :: "u8 list \<Rightarrow> u64" where
  "checksum64 bs = foldl (\<lambda>acc b. xor (acc * 31) (ucast b)) 0 bs"

definition hex_digit :: "nat \<Rightarrow> char" where
  "hex_digit n = char_of (if n < 10 then 48 + n else 87 + n)"

definition hex16 :: "u64 \<Rightarrow> string" where
  "hex16 v = map (\<lambda>i. hex_digit (unat v div 16 ^ (15 - i) mod 16)) [0..<16]"

section \<open>Writing\<close>

record cache_writer =
  cw_base_path :: string
  cw_temp_path :: string
  cw_use_checksum :: bool

definition cache_writer_new :: "string \<Rightarrow> bool \<Rightarrow> cache_writer" where
  "cache_writer_new path use_checksum =
     \<lparr>cw_base_path = path, cw_temp_path = with_extension path ''.tmp'', cw_use_checksum = use_checksum\<rparr>"

definition cache_bytes :: "bool \<Rightarrow> u64 \<Rightarrow> u8 list \<Rightarrow> u8 list" where
  "cache_bytes use_checksum now_secs dat =
     write_header \<lparr>ch_version = cache_schema_version, ch_created_at = now_secs,
       ch_checksum = (if use_checksum then Some (hex16 (checksum64 dat)) else None)\<rparr> @ dat"

type_synonym files = "string \<rightharpoonup> u8 list"

definition rename_file :: "string \<Rightarrow> string \<Rightarrow> files \<Rightarrow> files" where
  "rename_file a b fs = (case fs a of None \<Rightarrow> fs | Some bs \<Rightarrow> (fs(a := None))(b \<mapsto> bs))"

text \<open>The steps a write takes on the disk: the directory is made, the temporary file is opened empty, the buffer is written to
  it, and it is renamed. No step asks the disk to make the bytes durable before the rename.\<close>

datatype disk_step = Create_Dirs string | Open_Empty string | Append string "u8 list" | Rename string string

primrec disk_run :: "disk_step \<Rightarrow> files \<Rightarrow> files" where
  "disk_run (Create_Dirs dir) fs = fs"
| "disk_run (Open_Empty path) fs = fs(path \<mapsto> [])"
| "disk_run (Append path bs) fs = (case fs path of None \<Rightarrow> fs | Some old \<Rightarrow> fs(path \<mapsto> old @ bs))"
| "disk_run (Rename a b) fs = rename_file a b fs"

definition write_steps :: "cache_writer \<Rightarrow> ('a \<Rightarrow> u8 list) \<Rightarrow> u64 \<Rightarrow> 'a \<Rightarrow> disk_step list" where
  "write_steps w ser now_secs v =
     [Create_Dirs (fst (file_parts (cw_temp_path w))),
      Open_Empty (cw_temp_path w),
      Append (cw_temp_path w) (cache_bytes (cw_use_checksum w) now_secs (ser v)),
      Rename (cw_temp_path w) (cw_base_path w)]"

definition write_cache :: "cache_writer \<Rightarrow> ('a \<Rightarrow> u8 list) \<Rightarrow> u64 \<Rightarrow> 'a \<Rightarrow> files \<Rightarrow> files" where
  "write_cache w ser now_secs v fs = fold disk_run (write_steps w ser now_secs v) fs"

text \<open>A write that stops, because the process dies or because a step fails and its error is returned, has done the first
  \<open>k\<close> steps and of the next one at most the first \<open>n\<close> bytes it appends.\<close>

definition begun :: "nat \<Rightarrow> disk_step \<Rightarrow> disk_step list" where
  "begun n step = (case step of Append path bs \<Rightarrow> [Append path (take n bs)] | _ \<Rightarrow> [])"

definition stopped_write :: "nat \<Rightarrow> nat \<Rightarrow> disk_step list \<Rightarrow> files \<Rightarrow> files" where
  "stopped_write k n steps fs = fold disk_run (take k steps @ concat (map (begun n) (take 1 (drop k steps)))) fs"

text \<open>A power failure after the last step can also lose what only the appends wrote, as the bytes were never synchronised.\<close>

definition metadata_step :: "disk_step \<Rightarrow> bool" where
  "metadata_step step \<longleftrightarrow> (case step of Append _ _ \<Rightarrow> False | _ \<Rightarrow> True)"

section \<open>Loading\<close>

datatype 'a cache_load = Loaded 'a | Version_Mismatch u32 u32 | Corrupt string | Not_Found

definition checksum_ok :: "cache_header \<Rightarrow> u8 list \<Rightarrow> bool" where
  "checksum_ok h dat \<longleftrightarrow> (case ch_checksum h of None \<Rightarrow> True | Some c \<Rightarrow> c = hex16 (checksum64 dat))"

definition load_bytes :: "(u8 list \<Rightarrow> 'a option) \<Rightarrow> u8 list \<Rightarrow> 'a cache_load" where
  "load_bytes de bs =
     (case read_header bs of
        Inl e \<Rightarrow> Corrupt (''failed to read cache header: '' @ e)
      | Inr (h, dat) \<Rightarrow>
          if ch_version h \<noteq> cache_schema_version then Version_Mismatch (ch_version h) cache_schema_version
          else if \<not> checksum_ok h dat
          then Corrupt (''checksum mismatch: expected '' @ unwrap_or (ch_checksum h) [] @ '', got '' @ hex16 (checksum64 dat))
          else (case de dat of Some v \<Rightarrow> Loaded v | None \<Rightarrow> Corrupt ''failed to deserialize cache''))"

definition load_cache :: "(u8 list \<Rightarrow> 'a option) \<Rightarrow> string \<Rightarrow> files \<Rightarrow> 'a cache_load" where
  "load_cache de path fs = (case fs path of None \<Rightarrow> Not_Found | Some bs \<Rightarrow> load_bytes de bs)"

text \<open>The older format is the bare text. A file that is not text is an error, not an absent value.\<close>

definition load_legacy_cache :: "(u8 list \<Rightarrow> 'a option) \<Rightarrow> string \<Rightarrow> files \<Rightarrow> string + 'a option" where
  "load_legacy_cache de path fs =
     (case fs path of
        None \<Rightarrow> Inr None
      | Some bs \<Rightarrow> if string_of_bytes bs = None then Inl ''failed to read legacy cache file'' else Inr (de bs))"

definition repair_cache :: "string \<Rightarrow> files \<Rightarrow> bool \<times> files" where
  "repair_cache path fs =
     (case fs path of
        None \<Rightarrow> (False, fs)
      | Some _ \<Rightarrow> (True, rename_file path (with_extension path (unwrap_or (path_extension path) ''cache'' @ ''.corrupt'')) fs))"

text \<open>The loaders of the token metadata and of the pool states.\<close>

definition load_or_repair :: "('a \<Rightarrow> bool) \<Rightarrow> (u8 list \<Rightarrow> 'a option) \<Rightarrow> string \<Rightarrow> files \<Rightarrow> (string + 'a) \<times> files" where
  "load_or_repair valid de path fs =
     (let validated = (\<lambda>c. if valid c then Inr c else Inl ''cache version or chain id mismatch'') in
      case load_cache de path fs of
        Loaded c \<Rightarrow> (validated c, fs)
      | Not_Found \<Rightarrow>
          (res_bind (load_legacy_cache de path fs) (\<lambda>found. case found of None \<Rightarrow> Inl ''cache not found'' | Some c \<Rightarrow> validated c), fs)
      | _ \<Rightarrow>
          (case load_legacy_cache de path fs of
             Inl e \<Rightarrow> (Inl e, fs)
           | Inr (Some c) \<Rightarrow> (validated c, fs)
           | Inr None \<Rightarrow> (Inl ''cache is corrupt'', snd (repair_cache path fs))))"

definition token_metadata_load :: "settings \<Rightarrow> (u8 list \<Rightarrow> token_metadata_cache option) \<Rightarrow> files \<Rightarrow> (string + token_metadata_cache) \<times> files" where
  "token_metadata_load s de fs = load_or_repair (token_metadata_valid s) de (data_path s ''token_metadata_cache'') fs"

definition pool_state_load :: "settings \<Rightarrow> (u8 list \<Rightarrow> pool_state_cache option) \<Rightarrow> files \<Rightarrow> (string + pool_state_cache) \<times> files" where
  "pool_state_load s de fs = load_or_repair (pool_state_cache_valid s) de (data_path s ''pool_state_cache'') fs"

definition token_metadata_save :: "settings \<Rightarrow> (token_metadata_cache \<Rightarrow> u8 list) \<Rightarrow> u64 \<Rightarrow> token_metadata_cache \<Rightarrow> files \<Rightarrow> files" where
  "token_metadata_save s ser now_secs c fs = write_cache (cache_writer_new (data_path s ''token_metadata_cache'') True) ser now_secs c fs"

definition pool_state_save :: "env \<Rightarrow> settings \<Rightarrow> (pool_state_cache \<Rightarrow> u8 list) \<Rightarrow> u64 \<Rightarrow> pool_state_cache \<Rightarrow> files \<Rightarrow> files" where
  "pool_state_save env s ser now_secs c fs =
     (if pool_state_cache_disabled env then fs
      else write_cache (cache_writer_new (data_path s ''pool_state_cache'') True) ser now_secs c fs)"

section \<open>What is written is read back\<close>

lemma read_exact_append [simp]: "length xs = n \<Longrightarrow> read_exact n (xs @ ys) = Inr (xs, ys)"
  by (simp add: read_exact_def)

lemma ascii_string:
  assumes "list_all (\<lambda>c. of_char c < (128 :: nat)) s"
  shows "string_of_bytes (bytes_of_string s) = Some s"
proof -
  have "unat (word_of_nat (of_char c) :: u8) = of_char c" for c :: char
    by (rule unat_word_of_nat_less) (simp add: nat_of_char_less_256)
  then have "map unat (bytes_of_string s) = map of_char s" by (simp add: bytes_of_string_def)
  moreover have "utf8_ok (map of_char s)" using assms by (induction s) simp_all
  moreover have "map (\<lambda>b. char_of (unat b)) (bytes_of_string s) = s"
    using \<open>\<And>c. unat (word_of_nat (of_char c) :: u8) = of_char c\<close> by (simp add: bytes_of_string_def comp_def)
  ultimately show ?thesis by (simp add: string_of_bytes_def)
qed

lemma hex16_ascii: "list_all (\<lambda>c. of_char c < (128 :: nat)) (hex16 v)" and length_hex16 [simp]: "length (hex16 v) = 16"
proof -
  have "of_char (hex_digit (n mod 16)) < (128 :: nat)" for n
  proof -
    have "n mod 16 < 16" by simp
    then show ?thesis by (auto simp: hex_digit_def)
  qed
  then show "list_all (\<lambda>c. of_char c < (128 :: nat)) (hex16 v)" by (simp add: hex16_def list_all_iff)
qed (simp add: hex16_def)

lemma header_read_back:
  assumes "case ch_checksum h of None \<Rightarrow> True | Some c \<Rightarrow> length c < 2 ^ 16 \<and> list_all (\<lambda>x. of_char x < (128 :: nat)) c"
  shows "read_header (write_header h @ dat) = Inr (h, dat)"
proof -
  have m: "length magic = 4" by (simp add: magic_def bytes_of_string_def)
  have w: "word_of_nat (be_value (be_bytes 4 (unat v))) = v" for v :: u32
    using unat_lt_size [of v] by (simp add: be_value_bytes)
  have t: "word_of_nat (be_value (be_bytes 8 (unat v))) = v" for v :: u64
    using unat_lt_size [of v] by (simp add: be_value_bytes)
  show ?thesis
  proof (cases "ch_checksum h")
    case None
    then have h: "\<lparr>ch_version = ch_version h, ch_created_at = ch_created_at h, ch_checksum = None\<rparr> = h" by (cases h) simp
    show ?thesis
      by (simp add: read_header_def write_header_def None m w t h read_exact_def)
  next
    case (Some c)
    have l: "be_value (be_bytes 2 (length c)) = length c" using assms Some by (simp add: be_value_bytes)
    have s: "string_of_bytes (bytes_of_string c) = Some c" using assms Some by (simp add: ascii_string)
    have r: "read_checksum (be_bytes 2 (length c) @ bytes_of_string c @ dat) = Inr (c, dat)"
    proof -
      have "length (bytes_of_string c) = length c" by (simp add: bytes_of_string_def)
      then show ?thesis by (simp add: read_checksum_def l s)
    qed
    have h: "\<lparr>ch_version = ch_version h, ch_created_at = ch_created_at h, ch_checksum = Some c\<rparr> = h" using Some by (cases h) simp
    show ?thesis
      by (simp add: read_header_def write_header_def Some m w t r h read_exact_def)
  qed
qed

lemma written_loads:
  assumes "de (ser v) = Some v"
  shows "load_bytes de (cache_bytes use_checksum now_secs (ser v)) = Loaded v"
proof -
  let ?h = "\<lparr>ch_version = cache_schema_version, ch_created_at = now_secs,
    ch_checksum = (if use_checksum then Some (hex16 (checksum64 (ser v))) else None)\<rparr>"
  have "read_header (cache_bytes use_checksum now_secs (ser v)) = Inr (?h, ser v)"
    unfolding cache_bytes_def by (rule header_read_back) (simp add: hex16_ascii)
  then show ?thesis using assms by (simp add: load_bytes_def checksum_ok_def)
qed

lemma write_cache_run:
  "write_cache w ser now_secs v fs =
     rename_file (cw_temp_path w) (cw_base_path w) (fs(cw_temp_path w \<mapsto> cache_bytes (cw_use_checksum w) now_secs (ser v)))"
  by (simp add: write_cache_def write_steps_def)

text \<open>C20: a cache that was written is read back as the same value, with or without a checksum, for every value that its own
  text format reads back.\<close>

theorem cache_round_trip:
  assumes "de (ser v) = Some v"
  shows "load_cache de path (write_cache (cache_writer_new path use_checksum) ser now_secs v fs) = Loaded v"
  using written_loads [of de ser, OF assms]
  by (simp add: load_cache_def write_cache_run rename_file_def cache_writer_new_def)

theorem cache_round_trip_witness:
  "\<forall>fs path now. load_cache (\<lambda>bs. Some (length bs)) path
     (write_cache (cache_writer_new path True) (\<lambda>n. replicate n 7) now 5 fs) = Loaded 5"
proof (intro allI)
  fix fs path now
  show "load_cache (\<lambda>bs. Some (length bs)) path (write_cache (cache_writer_new path True) (\<lambda>n. replicate n 7) now 5 fs) = Loaded 5"
    by (rule cache_round_trip) simp
qed

section \<open>Writes that stop\<close>

lemma split_last_parts: "split_last d s = Some (a, b) \<Longrightarrow> s = a @ d # b \<and> d \<notin> set b"
proof -
  assume a: "split_last d s = Some (a, b)"
  let ?r = "rev s"
  have e: "?r = takeWhile (\<lambda>c. c \<noteq> d) ?r @ dropWhile (\<lambda>c. c \<noteq> d) ?r" by simp
  obtain c r where d: "dropWhile (\<lambda>c. c \<noteq> d) ?r = c # r" and p: "a = rev r" "b = rev (takeWhile (\<lambda>c. c \<noteq> d) ?r)"
    using a by (auto simp: split_last_def split: list.splits)
  have "c = d" using d by (metis (mono_tags) dropWhile_eq_Cons_conv)
  with e d p have "s = rev (takeWhile (\<lambda>c. c \<noteq> d) ?r @ d # r)" by (metis rev_rev_ident)
  with p show ?thesis by (auto dest: set_takeWhileD)
qed

text \<open>The temporary file never is the file itself: its extension has a dot.\<close>

lemma temp_path_differs: "with_extension path ''.tmp'' \<noteq> path"
proof -
  obtain dir name where f: "file_parts path = (dir, name)" by fastforce
  then have p: "path = dir @ name"
    by (auto simp: file_parts_def split: option.splits dest: split_last_parts)
  have "fst (stem_and_extension name) @ ''..tmp'' \<noteq> name"
  proof (cases "split_last (CHR ''.'') name")
    case None
    then show ?thesis by (simp add: stem_and_extension_def)
  next
    case (Some q)
    obtain stem ext where q: "q = (stem, ext)" by fastforce
    with Some have e: "name = stem @ CHR ''.'' # ext" "CHR ''.'' \<notin> set ext" using split_last_parts by auto
    show ?thesis
    proof (cases "stem = []")
      case True
      with Some q show ?thesis by (simp add: stem_and_extension_def)
    next
      case False
      with Some q have "fst (stem_and_extension name) = stem" by (simp add: stem_and_extension_def)
      with e show ?thesis by auto
    qed
  qed
  with f p show ?thesis by (simp add: with_extension_def)
qed

text \<open>C19: a write that stops anywhere, before or after any of its steps on the disk or with any part of the bytes written,
  leaves the cache that was there; only when every step was done is it the new one, complete. The steps are the ones
  \<open>write_cache\<close> performs.\<close>

theorem crash_keeps_cache:
  assumes "de (ser v) = Some v"
  shows "load_cache de path (stopped_write k n (write_steps (cache_writer_new path use_checksum) ser now_secs v) fs) =
      (if k < length (write_steps (cache_writer_new path use_checksum) ser now_secs v) then load_cache de path fs else Loaded v)
    \<and> stopped_write (length (write_steps (cache_writer_new path use_checksum) ser now_secs v)) n
        (write_steps (cache_writer_new path use_checksum) ser now_secs v) fs
      = write_cache (cache_writer_new path use_checksum) ser now_secs v fs"
proof -
  let ?steps = "write_steps (cache_writer_new path use_checksum) ser now_secs v"
  have t: "with_extension path ''.tmp'' \<noteq> path" by (rule temp_path_differs)
  have l: "length ?steps = 4" by (simp add: write_steps_def)
  have "load_cache de path (stopped_write k n ?steps fs) = load_cache de path fs" if "k < 4"
  proof -
    from that consider "k = 0" | "k = 1" | "k = 2" | "k = 3" by linarith
    then show ?thesis using t
      by cases (simp_all add: stopped_write_def write_steps_def begun_def load_cache_def cache_writer_new_def numeral_2_eq_2 numeral_3_eq_3)
  qed
  moreover have "stopped_write k n ?steps fs = write_cache (cache_writer_new path use_checksum) ser now_secs v fs" if "4 \<le> k" for k
    using that l by (simp add: stopped_write_def write_cache_def)
  moreover have "load_cache de path (write_cache (cache_writer_new path use_checksum) ser now_secs v fs) = Loaded v"
    using written_loads [of de ser, OF assms]
    by (simp add: load_cache_def write_cache_run rename_file_def cache_writer_new_def)
  ultimately show ?thesis using l by auto
qed

text \<open>The disk stops after three bytes of the buffer, and the old cache of three entries is still loaded.\<close>

theorem crash_keeps_cache_witness:
  "load_cache (\<lambda>bs. Some (length bs)) ''state/pools.json''
     (stopped_write 2 3 (write_steps (cache_writer_new ''state/pools.json'' True) (\<lambda>n. replicate n 7) 1 5)
       [''state/pools.json'' \<mapsto> cache_bytes True 0 (replicate 3 7)]) = Loaded 3"
proof -
  have "load_cache (\<lambda>bs. Some (length bs)) ''state/pools.json'' [''state/pools.json'' \<mapsto> cache_bytes True 0 (replicate 3 7)] = Loaded 3"
    using written_loads [of "\<lambda>bs. Some (length bs)" "\<lambda>n. replicate n (7 :: u8)" 3 True 0] by (simp add: load_cache_def)
  with crash_keeps_cache [of "\<lambda>bs. Some (length bs)" "\<lambda>n. replicate n (7 :: u8)" 5 "''state/pools.json''" 2 3 True 1
      "[''state/pools.json'' \<mapsto> cache_bytes True 0 (replicate 3 7)]"]
  show ?thesis by (simp add: write_steps_def)
qed

text \<open>Against a power failure the write is not atomic: when the disk kept the rename but not the bytes, the old cache is gone
  and the new one is broken.\<close>

lemma unsynced_rename_loses_cache:
  "load_cache de path (fold disk_run (filter metadata_step (write_steps (cache_writer_new path use_checksum) ser now_secs v)) fs) =
     Corrupt ''failed to read cache header: failed to fill whole buffer''"
  by (simp add: write_steps_def metadata_step_def rename_file_def cache_writer_new_def load_cache_def load_bytes_def read_header_def
      read_exact_def)

section \<open>What the checksum misses\<close>

lemma checksum_collision: "checksum64 [0, 31] = checksum64 [1, 0]"
  by (simp add: checksum64_def)

text \<open>A broken file that is not text is never set aside: the older format is tried first, and its reader's error ends the load.\<close>

lemma binary_garbage_not_repaired:
  assumes "fs path = Some bs" and "string_of_bytes bs = None" and "load_bytes de bs = Corrupt e"
  shows "load_or_repair valid de path fs = (Inl ''failed to read legacy cache file'', fs)"
  using assms by (simp add: load_or_repair_def load_cache_def load_legacy_cache_def)

end
