(* ===== verification/Factory_Scan.thy ===== *)
theory Factory_Scan
  imports Cache_File "HOL-Library.AList"
begin

text \<open>
  \<open>src/discovery/factory_scanner.rs\<close> with \<open>src/discovery/multicall.rs\<close>: the scans that list the pools of every
  configured exchange, resumed from the cursors of a cache file. The answers of the node, decoded by the contract
  bindings, are the record \<open>factory_net\<close>: one for each exchange that is scanned.
\<close>

section \<open>Aggregated calls\<close>

definition multicall3_address :: "env \<Rightarrow> (string \<Rightarrow> address option) \<Rightarrow> address option" where
  "multicall3_address env address_of =
     opt_or (Option.bind (env ''MULTICALL3_ADDRESS'') address_of) (address_of ''0xcA11bde05977b3631167028862bE2a173976CA11'')"

text \<open>Every call may fail on its own; a failed one is an absent value.\<close>

definition aggregate3 ::
  "env \<Rightarrow> (string \<Rightarrow> address option) \<Rightarrow> (address \<Rightarrow> (address \<times> 'c) list \<Rightarrow> string + (bool \<times> 'r) list) \<Rightarrow> (address \<times> 'c) list \<Rightarrow>
   string + 'r option list" where
  "aggregate3 env address_of send calls =
     (if calls = [] then Inr []
      else case multicall3_address env address_of of
        None \<Rightarrow> Inl ''MULTICALL3_ADDRESS is not configured''
      | Some m \<Rightarrow> res_bind (send m calls) (\<lambda>results. Inr (map (\<lambda>(success, r). if success then Some r else None) results)))"

section \<open>What the scans ask\<close>

text \<open>The five lists of pools that contracts keep: the index of an entry selects it.\<close>

datatype pool_list = V2_Pairs | Solidly_Pools | Slipstream_Pools | Lb_Pairs | Curve_Pools

record factory_net =
  fa_length :: "pool_list \<Rightarrow> address \<Rightarrow> string + u256"
  fa_entry :: "pool_list \<Rightarrow> address \<Rightarrow> u64 \<Rightarrow> string + address"
  fa_aggregate :: "address \<Rightarrow> (address \<times> pool_list \<times> u64) list \<Rightarrow> string + (bool \<times> (string + address)) list"
  fa_solidly_pool :: "address \<Rightarrow> address \<times> address \<Rightarrow> bool \<Rightarrow> string + address"
  fa_tick_spacings :: "address \<Rightarrow> string + int list"
  fa_slipstream_pool :: "address \<Rightarrow> address \<times> address \<Rightarrow> int \<Rightarrow> string + address"
  fa_v3_pool :: "address \<Rightarrow> address \<times> address \<Rightarrow> u32 \<Rightarrow> string + address"
  fa_lb_pair :: "address \<Rightarrow> address \<times> address \<Rightarrow> u16 \<Rightarrow> string + address \<times> bool"
  fa_logs :: log_net

record scan_setting =
  sc_env :: env
  sc_settings :: settings
  sc_address_of :: "string \<Rightarrow> address option"
  sc_keccak :: "string \<Rightarrow> b256"

section \<open>Settings of the scans\<close>

definition multicall_chunk_size :: "env \<Rightarrow> u64" where
  "multicall_chunk_size env = env_word env ''MULTICALL_CHUNK_SIZE'' 500"

definition multicall_disabled :: "env \<Rightarrow> bool" where
  "multicall_disabled env =
     (case env ''DISABLE_MULTICALL'' of None \<Rightarrow> False | Some v \<Rightarrow> v \<in> set [''1'', ''true'', ''TRUE'', ''yes'', ''YES''])"

definition log_min_chunk_blocks :: "env \<Rightarrow> u64" where
  "log_min_chunk_blocks env = env_word env ''DISCOVERY_LOG_MIN_CHUNK_BLOCKS'' 100"

definition log_max_retries :: "env \<Rightarrow> nat" where
  "log_max_retries env = env_usize env ''DISCOVERY_LOG_MAX_RETRIES'' 12"

text \<open>\<open>sort_unstable\<close> and \<open>dedup\<close> of numbers.\<close>

definition configured_v3_seed_fees :: "env \<Rightarrow> u32 list" where
  "configured_v3_seed_fees env =
     remdups_adj (sort (unwrap_or (filter_opt (\<lambda>fees. fees \<noteq> [])
       (map_option (\<lambda>v. filter (\<lambda>fee. 0 < fee \<and> fee < 1000000) (List.map_filter (\<lambda>part. parse_word (trim part)) (split_char (CHR '','') v)))
         (env ''V3_FACTORY_SEED_FEES''))) [100, 500, 3000, 10000]))"

definition trader_joe_lb_bin_steps :: "env \<Rightarrow> string \<Rightarrow> u16 list" where
  "trader_joe_lb_bin_steps env key =
     remdups_adj (sort (filter (\<lambda>v. 0 < v) (List.map_filter (\<lambda>part. parse_word (trim part))
       (split_char (CHR '','') (unwrap_or (opt_or (env key) (env ''TRADERJOE_LB_BIN_STEPS'')) ''1,2,5,10,15,20,25,50,100'')))))"

definition default_slipstream_tick_spacings :: "int list" where
  "default_slipstream_tick_spacings = [1, 10, 50, 100, 200, 500, 2000]"

definition u256_to_u64 :: "u256 \<Rightarrow> u64" where
  "u256_to_u64 v = (if unat v < 2 ^ 64 then word_of_nat (unat v) else 0)"

definition signature_hash :: "(string \<Rightarrow> b256) \<Rightarrow> string \<Rightarrow> b256" where
  "signature_hash keccak signature = keccak signature"

definition decode_address_from_word :: "u8 list \<Rightarrow> address" where
  "decode_address_from_word word = address_of_bytes word"

section \<open>Listing the entries of a contract\<close>

definition index_range :: "u64 \<Rightarrow> u64 \<Rightarrow> u64 list" where
  "index_range a b = map word_of_nat [unat a..<unat b]"

text \<open>One aggregated call for a range of entries: failed calls are left out, an answer that does not decode is an error.\<close>

definition entries_chunk :: "scan_setting \<Rightarrow> factory_net \<Rightarrow> pool_list \<Rightarrow> address \<Rightarrow> u64 \<Rightarrow> u64 \<Rightarrow> string + address list" where
  "entries_chunk sc net pl target idx e =
     res_bind (aggregate3 (sc_env sc) (sc_address_of sc) (fa_aggregate net) (map (\<lambda>i. (target, pl, i)) (index_range idx e)))
       (\<lambda>results. map_res (\<lambda>r. r) (List.map_filter (\<lambda>r. r) results))"

lemma multicall_chunk_size_pos: "0 < unat (multicall_chunk_size env)"
proof -
  have "0 < env_u64 env ''MULTICALL_CHUNK_SIZE'' 500 \<and> env_u64 env ''MULTICALL_CHUNK_SIZE'' 500 < 2 ^ 64"
    by (auto simp: env_u64_def filter_opt_def unwrap_or_def bind_eq_Some_conv split: option.splits dest!: parse_bounded_less)
  then show ?thesis by (simp add: multicall_chunk_size_def env_word_def unsigned_of_nat take_bit_nat_eq_self)
qed

lemma next_chunk: "idx < len \<Longrightarrow> 0 < unat (c :: u64) \<Longrightarrow> idx < min (sat_add idx c) len \<and> min (sat_add idx c) len \<le> len"
  using unat_le_max [of len] by (auto simp: word_nat min_def)

function multicall_from ::
  "scan_setting \<Rightarrow> factory_net \<Rightarrow> pool_list \<Rightarrow> address \<Rightarrow> u64 \<Rightarrow> u64 \<Rightarrow> address list \<Rightarrow> string + address list" where
  "multicall_from sc net pl target len idx out =
     (if len \<le> idx then Inr out
      else let e = min (sat_add idx (multicall_chunk_size (sc_env sc))) len in
        case entries_chunk sc net pl target idx e of
          Inl err \<Rightarrow> Inl err
        | Inr found \<Rightarrow> multicall_from sc net pl target len e (out @ found))"
  by pat_completeness auto

termination
proof (relation "measure (\<lambda>(sc, net, pl, target, len, idx, out). unat len - unat idx)", goal_cases)
  case (2 sc net pl target len idx out e found)
  then show ?case
    using next_chunk [of idx len "multicall_chunk_size (sc_env sc)"] multicall_chunk_size_pos [of "sc_env sc"]
    by (auto simp: word_less_nat_alt word_le_nat_alt)
qed simp

declare multicall_from.simps [simp del]

definition entries_multicall :: "scan_setting \<Rightarrow> factory_net \<Rightarrow> pool_list \<Rightarrow> address \<Rightarrow> u64 \<Rightarrow> u64 \<Rightarrow> string + address list" where
  "entries_multicall sc net pl target start len =
     (if multicall_disabled (sc_env sc) then Inl ''multicall disabled'' else multicall_from sc net pl target len start [])"

definition entries_sequential :: "factory_net \<Rightarrow> pool_list \<Rightarrow> address \<Rightarrow> u64 \<Rightarrow> u64 \<Rightarrow> string + address list" where
  "entries_sequential net pl target start len = map_res (fa_entry net pl target) (index_range start len)"

definition scan_v2_pairs_multicall where "scan_v2_pairs_multicall sc net = entries_multicall sc net V2_Pairs"
definition scan_v2_pairs_sequential where "scan_v2_pairs_sequential net = entries_sequential net V2_Pairs"
definition scan_solidly_pools_multicall where "scan_solidly_pools_multicall sc net = entries_multicall sc net Solidly_Pools"
definition scan_solidly_pools_sequential where "scan_solidly_pools_sequential net = entries_sequential net Solidly_Pools"
definition scan_slipstream_pools_multicall where "scan_slipstream_pools_multicall sc net = entries_multicall sc net Slipstream_Pools"
definition scan_slipstream_pools_sequential where "scan_slipstream_pools_sequential net = entries_sequential net Slipstream_Pools"
definition scan_curve_pools_multicall where "scan_curve_pools_multicall sc net = entries_multicall sc net Curve_Pools"
definition scan_curve_pools_sequential where "scan_curve_pools_sequential net = entries_sequential net Curve_Pools"

text \<open>The pairs of Trader Joe: the switch is not asked, the end of a chunk wraps around, and zero addresses are left out.
  The chunks start at \<open>(start..len).step_by(chunk_size)\<close>.\<close>

definition chunk_starts :: "u64 \<Rightarrow> u64 \<Rightarrow> u64 \<Rightarrow> u64 list" where
  "chunk_starts start len c =
     map (\<lambda>j. word_of_nat (unat start + j * unat c)) [0..<(unat len - unat start + unat c - 1) div unat c]"

definition scan_trader_joe_lb_pairs_multicall :: "scan_setting \<Rightarrow> factory_net \<Rightarrow> address \<Rightarrow> u64 \<Rightarrow> u64 \<Rightarrow> string + address list" where
  "scan_trader_joe_lb_pairs_multicall sc net factory start len =
     (if len \<le> start then Inr []
      else let c = multicall_chunk_size (sc_env sc) in
        fold_res (\<lambda>chunk_start out. res_bind (entries_chunk sc net Lb_Pairs factory chunk_start (min (chunk_start + c) len))
            (\<lambda>found. Inr (out @ filter (\<lambda>a. a \<noteq> 0) found)))
          (chunk_starts start len c) [])"

definition scan_trader_joe_lb_pairs_sequential :: "factory_net \<Rightarrow> address \<Rightarrow> u64 \<Rightarrow> u64 \<Rightarrow> string + address list" where
  "scan_trader_joe_lb_pairs_sequential net factory start len =
     res_bind (entries_sequential net Lb_Pairs factory start len) (\<lambda>found. Inr (filter (\<lambda>a. a \<noteq> 0) found))"

section \<open>Logs in chunks\<close>

text \<open>The size of the next attempt, if there is one.\<close>

definition log_retry :: "env \<Rightarrow> u64 \<Rightarrow> string \<Rightarrow> nat \<Rightarrow> u64 \<Rightarrow> u64 option" where
  "log_retry env min_chunk err retry_count chunk =
     (let can_reduce = min_chunk < chunk in
      if retry_count < log_max_retries env \<and> (should_reduce_chunk_size err \<or> can_reduce)
      then Some (if can_reduce then max (chunk div 2) min_chunk else chunk) else None)"

function logs_from ::
  "env \<Rightarrow> log_net \<Rightarrow> address list \<Rightarrow> b256 list \<Rightarrow> u64 \<Rightarrow> u64 \<Rightarrow> u64 \<Rightarrow> nat \<Rightarrow> u64 \<Rightarrow> u64 \<Rightarrow> nat \<Rightarrow> rpc_log list \<Rightarrow> string + rpc_log list" where
  "logs_from env net addresses topics to_block base_chunk min_chunk k start chunk retry_count all =
     (if to_block < start then Inr all
      else let e = chunk_end start chunk to_block in
        case net k \<lparr>lq_from = start, lq_to = e, lq_addresses = addresses, lq_topics = topics\<rparr> of
          Inr found \<Rightarrow>
            if e = - 1 then Inr (all @ found)
            else logs_from env net addresses topics to_block base_chunk min_chunk (Suc k) (sat_add e 1)
              (if chunk < base_chunk then min (sat_mul chunk 2) base_chunk else chunk) 0 (all @ found)
        | Inl err \<Rightarrow>
            (case log_retry env min_chunk err retry_count chunk of
               Some chunk' \<Rightarrow>
                 logs_from env net addresses topics to_block base_chunk min_chunk (Suc k) start chunk' (Suc retry_count) all
             | None \<Rightarrow> Inl err))"
  by pat_completeness auto

termination
proof (relation "measures [\<lambda>(env, net, as, ts, to_block, b, m, k, start, chunk, r, all). Suc (unat to_block) - unat start,
    \<lambda>(env, net, as, ts, to_block, b, m, k, start, chunk, r, all). log_max_retries env - r]", goal_cases)
  case (2 env net addresses topics to_block base_chunk min_chunk k start chunk retry_count all e err chunk')
  then show ?case by (auto simp: log_retry_def Let_def split: if_splits)
next
  case (3 env net addresses topics to_block base_chunk min_chunk k start chunk retry_count all e found)
  then have "unat start \<le> unat e" "unat (sat_add e 1) = Suc (unat e)" "unat start \<le> unat to_block"
    using chunk_end_bounds(1) [of start to_block chunk] after_chunk [of e] by (simp_all add: not_less word_le_nat_alt)
  then show ?case by (simp; arith)
qed simp

declare logs_from.simps [simp del]

definition get_logs_chunked ::
  "scan_setting \<Rightarrow> log_net \<Rightarrow> u64 \<Rightarrow> u64 \<Rightarrow> address list \<Rightarrow> b256 list \<Rightarrow> string + rpc_log list" where
  "get_logs_chunked sc net from_block to_block addresses topics =
     (if to_block < from_block then Inr []
      else let env = sc_env sc;
             base_chunk = adapt_log_chunk_size (st_chain (sc_settings sc)) (unwrap_or (env ''RPC_PROVIDER_MODE'') ''payg'')
               (env_word env ''DISCOVERY_LOG_CHUNK_BLOCKS'' 50000);
             min_chunk = max (min (log_min_chunk_blocks env) base_chunk) 1
           in logs_from env net addresses topics to_block base_chunk min_chunk 0 from_block base_chunk 0 [])"

section \<open>Cursors\<close>

record scan_cursor =
  cu_block :: u64
  cu_count :: u64

definition scan_cursor_default :: scan_cursor where "scan_cursor_default = \<lparr>cu_block = 0, cu_count = 0\<rparr>"

record cached_dex_scan =
  cs_amm :: amm_kind
  cs_discovery :: discovery_kind
  cs_factory :: "address option"
  cs_registry :: "address option"
  cs_vault :: "address option"
  cs_quoter :: "address option"
  cs_latest_block :: u64
  cs_cursor :: scan_cursor
  cs_pools :: "discovered_pool list"

definition cached_from_scan :: "dex_config \<Rightarrow> u64 \<Rightarrow> scan_cursor \<Rightarrow> discovered_pool list \<Rightarrow> cached_dex_scan" where
  "cached_from_scan dex latest_block cursor pools =
     \<lparr>cs_amm = dc_amm_kind dex, cs_discovery = dc_discovery_kind dex, cs_factory = dc_factory dex, cs_registry = dc_registry dex,
      cs_vault = dc_vault dex, cs_quoter = dc_quoter dex, cs_latest_block = latest_block, cs_cursor = cursor, cs_pools = pools\<rparr>"

text \<open>The part of \<open>matches\<close> that \<open>cached_pools\<close> repeats: everything but the block.\<close>

definition same_dex :: "cached_dex_scan \<Rightarrow> dex_config \<Rightarrow> bool" where
  "same_dex c dex \<longleftrightarrow>
     cs_amm c = dc_amm_kind dex \<and> cs_discovery c = dc_discovery_kind dex \<and> cs_factory c = dc_factory dex \<and>
     cs_registry c = dc_registry dex \<and> cs_vault c = dc_vault dex \<and> cs_quoter c = dc_quoter dex"

definition cached_matches :: "dex_config \<Rightarrow> u64 \<Rightarrow> cached_dex_scan \<Rightarrow> bool" where
  "cached_matches dex latest c \<longleftrightarrow> same_dex c dex \<and> cs_latest_block c \<le> latest"

definition cached_pools :: "cached_dex_scan option \<Rightarrow> dex_config \<Rightarrow> discovered_pool list" where
  "cached_pools cached dex = unwrap_or (map_option cs_pools (filter_opt (\<lambda>c. same_dex c dex) cached)) []"

fun retain_unseen :: "(string \<times> address) set \<Rightarrow> discovered_pool list \<Rightarrow> discovered_pool list" where
  "retain_unseen seen [] = []"
| "retain_unseen seen (p # ps) =
     (if (dp_dex_name p, dp_address p) \<in> seen then retain_unseen seen ps
      else p # retain_unseen (insert (dp_dex_name p, dp_address p) seen) ps)"

definition dedup_pools :: "discovered_pool list \<Rightarrow> discovered_pool list" where
  "dedup_pools pools = retain_unseen {} (sort_by (\<lambda>a b. cmp (dp_priority b) (dp_priority a)) pools)"

definition should_refresh_configured_seeds :: "env \<Rightarrow> cached_dex_scan option \<Rightarrow> bool" where
  "should_refresh_configured_seeds env cached = (cached = None \<or> env_bool_set env ''DISCOVERY_REFRESH_CONFIGURED_SEEDS'' False)"

definition pool_of_dex :: "dex_config \<Rightarrow> bool \<Rightarrow> b256 option \<Rightarrow> address \<Rightarrow> discovered_pool" where
  "pool_of_dex dex priority balancer_id a =
     \<lparr>dp_address = a, dp_dex_name = dc_name dex, dp_amm_kind = dc_amm_kind dex, dp_factory = dc_factory dex,
      dp_registry = dc_registry dex, dp_vault = dc_vault dex, dp_quoter = dc_quoter dex, dp_balancer_pool_id = balancer_id,
      dp_priority = priority\<rparr>"

section \<open>Pools of the configured tokens\<close>

fun token_pairs :: "'a list \<Rightarrow> ('a \<times> 'a) list" where
  "token_pairs [] = []"
| "token_pairs (x # xs) = map (Pair x) xs @ token_pairs xs"

definition configured_addresses :: "scan_setting \<Rightarrow> address list" where
  "configured_addresses sc = map tc_address (st_tokens (sc_settings sc))"

text \<open>One question for each pair and each key; a zero address is no pool.\<close>

definition seed_pairs ::
  "dex_config \<Rightarrow> address list \<Rightarrow> 'k list \<Rightarrow> (address \<times> address \<Rightarrow> 'k \<Rightarrow> string + address option) \<Rightarrow> string + discovered_pool list" where
  "seed_pairs dex tokens keys ask =
     res_bind (map_res (\<lambda>(p, k). ask p k) (List.product (token_pairs tokens) keys))
       (\<lambda>answers. Inr (map (pool_of_dex dex True None) (List.map_filter (\<lambda>a. a) answers)))"

definition some_pool :: "string + address \<Rightarrow> string + address option" where
  "some_pool r = res_bind r (\<lambda>a. Inr (if a = 0 then None else Some a))"

definition seed_configured_solidly_pools :: "scan_setting \<Rightarrow> factory_net \<Rightarrow> dex_config \<Rightarrow> string + discovered_pool list" where
  "seed_configured_solidly_pools sc net dex =
     (case dc_factory dex of
        None \<Rightarrow> Inr []
      | Some factory \<Rightarrow>
          if length (configured_addresses sc) < 2 then Inr []
          else seed_pairs dex (configured_addresses sc) [False, True] (\<lambda>p stable. some_pool (fa_solidly_pool net factory p stable)))"

definition slipstream_tick_spacings :: "factory_net \<Rightarrow> address \<Rightarrow> string + int list" where
  "slipstream_tick_spacings net factory =
     res_bind (fa_tick_spacings net factory) (\<lambda>ts. Inr (if ts = [] then default_slipstream_tick_spacings else ts))"

definition seed_configured_slipstream_pools :: "scan_setting \<Rightarrow> factory_net \<Rightarrow> dex_config \<Rightarrow> string + discovered_pool list" where
  "seed_configured_slipstream_pools sc net dex =
     (case dc_factory dex of
        None \<Rightarrow> Inr []
      | Some factory \<Rightarrow>
          if length (configured_addresses sc) < 2 then Inr []
          else res_bind (slipstream_tick_spacings net factory) (\<lambda>ts.
            if ts = [] then Inr []
            else seed_pairs dex (configured_addresses sc) ts (\<lambda>p t. some_pool (fa_slipstream_pool net factory p t))))"

definition seed_configured_v3_pools :: "scan_setting \<Rightarrow> factory_net \<Rightarrow> dex_config \<Rightarrow> string + discovered_pool list" where
  "seed_configured_v3_pools sc net dex =
     (case dc_factory dex of
        None \<Rightarrow> Inr []
      | Some factory \<Rightarrow>
          if length (configured_addresses sc) < 2 then Inr []
          else seed_pairs dex (configured_addresses sc) (configured_v3_seed_fees (sc_env sc))
            (\<lambda>p fee. some_pool (fa_v3_pool net factory p fee)))"

definition seed_configured_trader_joe_lb_pairs :: "scan_setting \<Rightarrow> factory_net \<Rightarrow> dex_config \<Rightarrow> string + discovered_pool list" where
  "seed_configured_trader_joe_lb_pairs sc net dex =
     (case dc_factory dex of
        None \<Rightarrow> Inr []
      | Some factory \<Rightarrow>
          if length (configured_addresses sc) < 2 then Inr []
          else seed_pairs dex (configured_addresses sc)
            (trader_joe_lb_bin_steps (sc_env sc) (env_key (st_chain (sc_settings sc)) ''TRADERJOE_LB_BIN_STEPS''))
            (\<lambda>p step. res_bind (fa_lb_pair net factory p step) (\<lambda>(a, ignored). Inr (if a = 0 \<or> ignored then None else Some a))))"

section \<open>The scans\<close>

type_synonym scan_result = "string + discovered_pool list \<times> scan_cursor"

text \<open>What the scans of the five lists share: the length, the complete cache, the rest of the list by aggregated calls or one
  by one, and the seeds.\<close>

definition scan_list ::
  "factory_net \<Rightarrow> pool_list \<Rightarrow> dex_config \<Rightarrow> cached_dex_scan option \<Rightarrow> u64 \<Rightarrow> address option \<Rightarrow>
   (address \<Rightarrow> u64 \<Rightarrow> u64 \<Rightarrow> string + address list) \<Rightarrow> (address \<Rightarrow> u64 \<Rightarrow> u64 \<Rightarrow> string + address list) \<Rightarrow> bool \<Rightarrow>
   string + discovered_pool list \<Rightarrow> scan_result" where
  "scan_list net pl dex cached latest target multicall sequential priority seeds =
     (case target of
        None \<Rightarrow> Inr ([], scan_cursor_default)
      | Some a \<Rightarrow>
          res_bind (fa_length net pl a) (\<lambda>ret.
            let len = u256_to_u64 ret; usable = filter_opt (cached_matches dex latest) cached;
                cursor = \<lparr>cu_block = latest, cu_count = len\<rparr> in
            case filter_opt (\<lambda>c. len \<le> cu_count (cs_cursor c)) usable of
              Some c \<Rightarrow> Inr (cs_pools c, cursor)
            | None \<Rightarrow>
                let start = unwrap_or (map_option (\<lambda>c. min (cu_count (cs_cursor c)) len) usable) 0 in
                res_bind (case multicall a start len of Inr found \<Rightarrow> Inr found | Inl err \<Rightarrow> sequential a start len) (\<lambda>found.
                res_bind seeds (\<lambda>seeded.
                  Inr (dedup_pools (cached_pools cached dex @ map (pool_of_dex dex priority None) found @ seeded), cursor)))))"

definition scan_v2_factory :: "scan_setting \<Rightarrow> factory_net \<Rightarrow> dex_config \<Rightarrow> cached_dex_scan option \<Rightarrow> u64 \<Rightarrow> scan_result" where
  "scan_v2_factory sc net dex cached latest =
     scan_list net V2_Pairs dex cached latest (dc_factory dex) (scan_v2_pairs_multicall sc net) (scan_v2_pairs_sequential net)
       False (Inr [])"

definition seeds_if_due ::
  "scan_setting \<Rightarrow> cached_dex_scan option \<Rightarrow> string + discovered_pool list \<Rightarrow> string + discovered_pool list" where
  "seeds_if_due sc cached seeds = (if should_refresh_configured_seeds (sc_env sc) cached then seeds else Inr [])"

definition scan_solidly_factory :: "scan_setting \<Rightarrow> factory_net \<Rightarrow> dex_config \<Rightarrow> cached_dex_scan option \<Rightarrow> u64 \<Rightarrow> scan_result" where
  "scan_solidly_factory sc net dex cached latest =
     scan_list net Solidly_Pools dex cached latest (dc_factory dex) (scan_solidly_pools_multicall sc net)
       (scan_solidly_pools_sequential net) False (seeds_if_due sc cached (seed_configured_solidly_pools sc net dex))"

definition scan_slipstream_factory :: "scan_setting \<Rightarrow> factory_net \<Rightarrow> dex_config \<Rightarrow> cached_dex_scan option \<Rightarrow> u64 \<Rightarrow> scan_result" where
  "scan_slipstream_factory sc net dex cached latest =
     scan_list net Slipstream_Pools dex cached latest (dc_factory dex) (scan_slipstream_pools_multicall sc net)
       (scan_slipstream_pools_sequential net) True (seeds_if_due sc cached (seed_configured_slipstream_pools sc net dex))"

definition scan_trader_joe_lb_factory_all_pairs ::
  "scan_setting \<Rightarrow> factory_net \<Rightarrow> dex_config \<Rightarrow> cached_dex_scan option \<Rightarrow> u64 \<Rightarrow> scan_result" where
  "scan_trader_joe_lb_factory_all_pairs sc net dex cached latest =
     scan_list net Lb_Pairs dex cached latest (dc_factory dex) (scan_trader_joe_lb_pairs_multicall sc net)
       (scan_trader_joe_lb_pairs_sequential net) False (Inr [])"

definition scan_curve_registry :: "scan_setting \<Rightarrow> factory_net \<Rightarrow> dex_config \<Rightarrow> cached_dex_scan option \<Rightarrow> u64 \<Rightarrow> scan_result" where
  "scan_curve_registry sc net dex cached latest =
     scan_list net Curve_Pools dex cached latest (dc_registry dex) (scan_curve_pools_multicall sc net)
       (scan_curve_pools_sequential net) False (Inr [])"

definition scan_trader_joe_lb_configured_pairs ::
  "scan_setting \<Rightarrow> factory_net \<Rightarrow> dex_config \<Rightarrow> cached_dex_scan option \<Rightarrow> u64 \<Rightarrow> scan_result" where
  "scan_trader_joe_lb_configured_pairs sc net dex cached latest =
     (case filter_opt (\<lambda>c. cached_matches dex latest c \<and> cu_block (cs_cursor c) = latest) cached of
        Some c \<Rightarrow> Inr (cs_pools c, \<lparr>cu_block = latest, cu_count = word_of_nat (length (cs_pools c))\<rparr>)
      | None \<Rightarrow>
          res_bind (seed_configured_trader_joe_lb_pairs sc net dex) (\<lambda>pools.
            Inr (dedup_pools pools, \<lparr>cu_block = latest, cu_count = 0\<rparr>)))"

text \<open>Where a scan of logs goes on.\<close>

definition resume_block :: "dex_config \<Rightarrow> u64 \<Rightarrow> cached_dex_scan option \<Rightarrow> u64" where
  "resume_block dex latest cached =
     unwrap_or (map_option (\<lambda>c. sat_add (cu_block (cs_cursor c)) 1) (filter_opt (cached_matches dex latest) cached)) (dc_start_block dex)"

definition pool_created_address :: "rpc_log \<Rightarrow> address option" where
  "pool_created_address l =
     (if length (lg_data l) < 64 then None else Some (decode_address_from_word (take 32 (drop 32 (lg_data l)))))"

definition pool_created_topic :: "(string \<Rightarrow> b256) \<Rightarrow> b256" where
  "pool_created_topic keccak = signature_hash keccak ''PoolCreated(address,address,uint24,int24,address)''"

definition scan_v3_factory_logs :: "scan_setting \<Rightarrow> factory_net \<Rightarrow> dex_config \<Rightarrow> cached_dex_scan option \<Rightarrow> u64 \<Rightarrow> scan_result" where
  "scan_v3_factory_logs sc net dex cached latest =
     (case dc_factory dex of
        None \<Rightarrow> Inr ([], scan_cursor_default)
      | Some factory \<Rightarrow>
          res_bind (get_logs_chunked sc (fa_logs net) (resume_block dex latest cached) latest [factory] [pool_created_topic (sc_keccak sc)])
            (\<lambda>logs. res_bind (seeds_if_due sc cached (seed_configured_v3_pools sc net dex)) (\<lambda>seeded.
               Inr (dedup_pools (cached_pools cached dex @
                   map (pool_of_dex dex False None) (List.map_filter pool_created_address logs) @ seeded),
                 \<lparr>cu_block = latest, cu_count = 0\<rparr>))))"

definition pool_registered :: "rpc_log \<Rightarrow> (b256 \<times> address) option" where
  "pool_registered l =
     (case (nth_opt (lg_topics l) 1, nth_opt (lg_topics l) 2) of
        (Some pool_id, Some a) \<Rightarrow> Some (pool_id, topic_to_address a) | _ \<Rightarrow> None)"

definition pool_registered_topic :: "(string \<Rightarrow> b256) \<Rightarrow> b256" where
  "pool_registered_topic keccak = signature_hash keccak ''PoolRegistered(bytes32,address,uint8)''"

definition scan_balancer_vault_logs :: "scan_setting \<Rightarrow> factory_net \<Rightarrow> dex_config \<Rightarrow> cached_dex_scan option \<Rightarrow> u64 \<Rightarrow> scan_result" where
  "scan_balancer_vault_logs sc net dex cached latest =
     (case dc_vault dex of
        None \<Rightarrow> Inr ([], scan_cursor_default)
      | Some vault \<Rightarrow>
          res_bind (get_logs_chunked sc (fa_logs net) (resume_block dex latest cached) latest [vault] [pool_registered_topic (sc_keccak sc)])
            (\<lambda>logs. Inr (dedup_pools (cached_pools cached dex @
                 map (\<lambda>(pool_id, a). pool_of_dex dex False (Some pool_id) a) (List.map_filter pool_registered logs)),
               \<lparr>cu_block = latest, cu_count = 0\<rparr>)))"

definition scan_dex :: "scan_setting \<Rightarrow> factory_net \<Rightarrow> dex_config \<Rightarrow> cached_dex_scan option \<Rightarrow> u64 \<Rightarrow> scan_result" where
  "scan_dex sc net dex cached latest =
     (case dc_discovery_kind dex of
        FactoryAllPairs \<Rightarrow> scan_v2_factory sc net dex cached latest
      | SolidlyFactoryAllPools \<Rightarrow> scan_solidly_factory sc net dex cached latest
      | SlipstreamFactoryAllPools \<Rightarrow> scan_slipstream_factory sc net dex cached latest
      | PoolCreatedLogs \<Rightarrow> scan_v3_factory_logs sc net dex cached latest
      | TraderJoeLbConfiguredPairs \<Rightarrow> scan_trader_joe_lb_configured_pairs sc net dex cached latest
      | TraderJoeLbFactoryAllPairs \<Rightarrow> scan_trader_joe_lb_factory_all_pairs sc net dex cached latest
      | CurveRegistry \<Rightarrow> scan_curve_registry sc net dex cached latest
      | BalancerVaultLogs \<Rightarrow> scan_balancer_vault_logs sc net dex cached latest
      | StaticList \<Rightarrow> Inr ([], scan_cursor_default))"

section \<open>The cache and the whole scan\<close>

record discovery_cache =
  dca_version :: u32
  dca_chain_id :: u64
  dca_dexes :: "(string \<times> cached_dex_scan) list"

definition discovery_cache_new :: "u64 \<Rightarrow> discovery_cache" where
  "discovery_cache_new chain_id = \<lparr>dca_version = 1, dca_chain_id = chain_id, dca_dexes = []\<rparr>"

definition discovery_cache_valid :: "settings \<Rightarrow> discovery_cache \<Rightarrow> bool" where
  "discovery_cache_valid s c = (dca_version c = 1 \<and> dca_chain_id c = st_chain_id s)"

definition discovery_cache_load ::
  "settings \<Rightarrow> (u8 list \<Rightarrow> discovery_cache option) \<Rightarrow> files \<Rightarrow> (string + discovery_cache) \<times> files" where
  "discovery_cache_load s de fs = load_or_repair (discovery_cache_valid s) de (data_path s ''discovery_cache'') fs"

definition discovery_cache_save ::
  "settings \<Rightarrow> (discovery_cache \<Rightarrow> u8 list) \<Rightarrow> u64 \<Rightarrow> discovery_cache \<Rightarrow> files \<Rightarrow> files" where
  "discovery_cache_save s ser now_secs c fs =
     write_cache (cache_writer_new (data_path s ''discovery_cache'') True) ser now_secs c fs"

text \<open>The state is the cache, the pools found and the files. An error leaves the function with the files as they are.\<close>

type_synonym scan_state = "discovery_cache \<times> discovered_pool list \<times> files"

definition scan_one ::
  "scan_setting \<Rightarrow> (discovery_cache \<Rightarrow> u8 list) \<Rightarrow> u64 \<Rightarrow> u64 \<Rightarrow> factory_net \<times> dex_config \<Rightarrow> scan_state \<Rightarrow> (string \<times> files) + scan_state" where
  "scan_one sc ser now_secs latest nd st =
     (case (nd, st) of ((net, dex), (cache, pools, fs)) \<Rightarrow>
        let cached = map_of (dca_dexes cache) (dc_name dex);
            removed = AList.delete (dc_name dex) (dca_dexes cache) in
        case scan_dex sc net dex cached latest of
          Inl err \<Rightarrow> Inl (err, fs)
        | Inr (part, cursor) \<Rightarrow>
            let cache' = cache\<lparr>dca_dexes := AList.update (dc_name dex) (cached_from_scan dex latest cursor part) removed\<rparr> in
            Inr (cache', pools @ part,
              if env_bool_set (sc_env sc) ''DISCOVERY_SAVE_AFTER_EACH_DEX'' False
              then discovery_cache_save (sc_settings sc) ser now_secs cache' fs else fs))"

text \<open>\<open>nets i\<close> answers the questions of the i-th enabled exchange.\<close>

definition enabled_dexes :: "settings \<Rightarrow> dex_config list" where
  "enabled_dexes s = filter dc_enabled (st_dexes s)"

definition scan_all ::
  "scan_setting \<Rightarrow> (discovery_cache \<Rightarrow> u8 list) \<Rightarrow> (u8 list \<Rightarrow> discovery_cache option) \<Rightarrow> u64 \<Rightarrow> string + u64 \<Rightarrow> (nat \<Rightarrow> factory_net) \<Rightarrow> files \<Rightarrow>
   (string + discovered_pool list) \<times> files" where
  "scan_all sc ser de now_secs tip nets fs =
     (case tip of
        Inl err \<Rightarrow> (Inl err, fs)
      | Inr latest \<Rightarrow>
          let s = sc_settings sc; (loaded, fs1) = discovery_cache_load s de fs;
              cache = (case loaded of Inr c \<Rightarrow> c | Inl _ \<Rightarrow> discovery_cache_new (st_chain_id s)) in
          case fold_res (scan_one sc ser now_secs latest) (zip (map nets [0..<length (enabled_dexes s)]) (enabled_dexes s)) (cache, [], fs1) of
            Inl (err, fs2) \<Rightarrow> (Inl err, fs2)
          | Inr (cache', pools, fs2) \<Rightarrow>
              (Inr pools,
               if env_bool_set (sc_env sc) ''DISCOVERY_SAVE_AFTER_EACH_DEX'' False then fs2
               else discovery_cache_save s ser now_secs cache' fs2))"

definition spec_for_pool :: "graph_snapshot \<Rightarrow> address \<Rightarrow> discovered_pool option" where
  "spec_for_pool g pool_id = map_option pool_to_discovered_spec (map_of (gs_pools g) pool_id)"

section \<open>What the node promises\<close>

text \<open>The lists of the contracts only grow at their end, so that an index always selects the same pool; the logs of a block
  do not change; \<open>fw_paired\<close> are the pools that a factory ever gives for a pair. A node may refuse any question, but an
  answer is right; no list reaches \<open>2 ^ 63\<close> entries. An aggregate is sent with \<open>allowFailure\<close>: it has one result for each
  call, and a call may fail in it on its own. \<open>fw_failed\<close> has the entries to which that ever happened.\<close>

record factory_world =
  fw_entry :: "pool_list \<Rightarrow> address \<Rightarrow> nat \<Rightarrow> address"
  fw_failed :: "pool_list \<Rightarrow> address \<Rightarrow> nat set"
  fw_blocks :: "u64 \<Rightarrow> rpc_log list"
  fw_paired :: "address \<Rightarrow> address set"

definition honest_result :: "factory_world \<Rightarrow> address \<times> pool_list \<times> u64 \<Rightarrow> bool \<times> (string + address) \<Rightarrow> bool" where
  "honest_result w call res \<longleftrightarrow>
     (case (call, res) of ((t, pl, i), (success, r)) \<Rightarrow>
        if success then (case r of Inr a \<Rightarrow> a = fw_entry w pl t (unat i) | Inl _ \<Rightarrow> True) else unat i \<in> fw_failed w pl t)"

definition honest_scan :: "factory_world \<Rightarrow> factory_net \<Rightarrow> bool" where
  "honest_scan w net \<longleftrightarrow>
     (\<forall>pl t i a. fa_entry net pl t i = Inr a \<longrightarrow> a = fw_entry w pl t (unat i)) \<and>
     (\<forall>m calls rs. fa_aggregate net m calls = Inr rs \<longrightarrow> list_all2 (honest_result w) calls rs) \<and>
     (\<forall>pl t n. fa_length net pl t = Inr n \<longrightarrow> unat (u256_to_u64 n) < 2 ^ 63) \<and>
     (\<forall>f p k a. fa_solidly_pool net f p k = Inr a \<longrightarrow> a = 0 \<or> a \<in> fw_paired w f) \<and>
     (\<forall>f p k a. fa_slipstream_pool net f p k = Inr a \<longrightarrow> a = 0 \<or> a \<in> fw_paired w f) \<and>
     (\<forall>f p k a. fa_v3_pool net f p k = Inr a \<longrightarrow> a = 0 \<or> a \<in> fw_paired w f) \<and>
     (\<forall>f p k a ignored. fa_lb_pair net f p k = Inr (a, ignored) \<longrightarrow> a = 0 \<or> a \<in> fw_paired w f) \<and>
     logs_answered (fw_blocks w) (fa_logs net)"

definition listed_in :: "dex_config \<Rightarrow> (pool_list \<times> address) option" where
  "listed_in dex =
     (case dc_discovery_kind dex of
        FactoryAllPairs \<Rightarrow> map_option (Pair V2_Pairs) (dc_factory dex)
      | SolidlyFactoryAllPools \<Rightarrow> map_option (Pair Solidly_Pools) (dc_factory dex)
      | SlipstreamFactoryAllPools \<Rightarrow> map_option (Pair Slipstream_Pools) (dc_factory dex)
      | TraderJoeLbFactoryAllPairs \<Rightarrow> map_option (Pair Lb_Pairs) (dc_factory dex)
      | CurveRegistry \<Rightarrow> map_option (Pair Curve_Pools) (dc_registry dex)
      | _ \<Rightarrow> None)"

text \<open>Where the pools of an exchange are announced, by which event, and what the event says.\<close>

definition announced_in :: "(string \<Rightarrow> b256) \<Rightarrow> dex_config \<Rightarrow> (address \<times> b256 \<times> (rpc_log \<Rightarrow> address option)) option" where
  "announced_in keccak dex =
     (case dc_discovery_kind dex of
        PoolCreatedLogs \<Rightarrow> map_option (\<lambda>f. (f, pool_created_topic keccak, pool_created_address)) (dc_factory dex)
      | BalancerVaultLogs \<Rightarrow> map_option (\<lambda>v. (v, pool_registered_topic keccak, map_option snd \<circ> pool_registered)) (dc_vault dex)
      | _ \<Rightarrow> None)"

definition announced :: "factory_world \<Rightarrow> address \<times> b256 \<times> (rpc_log \<Rightarrow> address option) \<Rightarrow> u64 \<Rightarrow> u64 \<Rightarrow> address list" where
  "announced w src a b =
     (case src of (t, topic, read) \<Rightarrow>
        List.map_filter read (filter (\<lambda>l. lg_address l = t \<and> watches [topic] l) (range_logs (fw_blocks w) a b)))"

text \<open>The entries of a list at some indices, without those that failed in an aggregate.\<close>

definition entries_at :: "factory_world \<Rightarrow> pool_list \<Rightarrow> address \<Rightarrow> nat set \<Rightarrow> address set" where
  "entries_at w pl t A = fw_entry w pl t ` (A - fw_failed w pl t)"

lemma entries_at_simps [simp]:
  "entries_at w pl t {} = {}" "entries_at w pl t (A \<union> B) = entries_at w pl t A \<union> entries_at w pl t B"
  by (auto simp: entries_at_def)

lemma entries_at_mono: "A \<subseteq> B \<Longrightarrow> entries_at w pl t A \<subseteq> entries_at w pl t B"
  by (auto simp: entries_at_def)

text \<open>The pools an exchange has at a cursor: the first entries of its list that did not fail, or those announced since its
  first block.\<close>

definition known_pools :: "factory_world \<Rightarrow> (string \<Rightarrow> b256) \<Rightarrow> dex_config \<Rightarrow> scan_cursor \<Rightarrow> address set" where
  "known_pools w keccak dex cursor =
     (case listed_in dex of Some (pl, t) \<Rightarrow> entries_at w pl t {..<unat (cu_count cursor)} - {0} | None \<Rightarrow> {}) \<union>
     (case announced_in keccak dex of Some src \<Rightarrow> set (announced w src (dc_start_block dex) (cu_block cursor)) | None \<Rightarrow> {})"

text \<open>The pools an exchange can have at all.\<close>

definition genuine_pools :: "factory_world \<Rightarrow> (string \<Rightarrow> b256) \<Rightarrow> dex_config \<Rightarrow> address set" where
  "genuine_pools w keccak dex =
     (case listed_in dex of Some (pl, t) \<Rightarrow> range (fw_entry w pl t) | None \<Rightarrow> {}) \<union>
     (case announced_in keccak dex of Some src \<Rightarrow> {a. \<exists>x y. a \<in> set (announced w src x y)} | None \<Rightarrow> {}) \<union>
     (case dc_factory dex of Some f \<Rightarrow> fw_paired w f | None \<Rightarrow> {})"

definition addresses_of :: "dex_config \<Rightarrow> discovered_pool list \<Rightarrow> address set" where
  "addresses_of dex ps = dp_address ` {p \<in> set ps. dp_dex_name p = dc_name dex}"

lemma addresses_of_append [simp]: "addresses_of dex (ps @ qs) = addresses_of dex ps \<union> addresses_of dex qs"
  by (auto simp: addresses_of_def)

lemma addresses_of_made [simp]: "addresses_of dex (map (pool_of_dex dex priority b) as) = set as"
  by (force simp: addresses_of_def pool_of_dex_def)

definition pools_in :: "address set \<Rightarrow> dex_config \<Rightarrow> discovered_pool list \<Rightarrow> bool" where
  "pools_in S dex ps \<longleftrightarrow> (\<forall>p\<in>set ps. dp_dex_name p = dc_name dex \<and> dp_address p \<in> S)"

lemma pools_in_simps [simp]:
  "pools_in S dex []" "pools_in S dex (ps @ qs) \<longleftrightarrow> pools_in S dex ps \<and> pools_in S dex qs"
  "pools_in S dex (map (pool_of_dex dex priority b) as) \<longleftrightarrow> set as \<subseteq> S"
  "pools_in S dex (map (\<lambda>(i, a). pool_of_dex dex priority (Some i) a) xs) \<longleftrightarrow> snd ` set xs \<subseteq> S"
  by (auto simp: pools_in_def pool_of_dex_def)

section \<open>Removing duplicates\<close>

definition pool_key :: "discovered_pool \<Rightarrow> string \<times> address" where
  "pool_key p = (dp_dex_name p, dp_address p)"

lemma retain_unseen_key:
  "retain_unseen seen (p # ps) =
     (if pool_key p \<in> seen then retain_unseen seen ps else p # retain_unseen (insert (pool_key p) seen) ps)"
  by (simp add: pool_key_def)

declare retain_unseen.simps(2) [simp del]

lemma retain_unseen_keys: "pool_key ` set (retain_unseen seen ps) = pool_key ` set ps - seen"
  by (induction ps arbitrary: seen) (auto simp: retain_unseen_key)

lemma retain_unseen_subset: "set (retain_unseen seen ps) \<subseteq> set ps"
proof (induction ps arbitrary: seen)
  case (Cons p ps)
  then show ?case using Cons.IH [of seen] Cons.IH [of "insert (pool_key p) seen"] by (auto simp: retain_unseen_key)
qed simp

lemma retain_unseen_distinct: "distinct (map pool_key (retain_unseen seen ps))"
  by (induction ps arbitrary: seen) (simp_all add: retain_unseen_key flip: set_map, simp add: retain_unseen_keys)

lemma retain_unseen_first:
  assumes "sorted_wrt R ps" and "q \<in> set ps" and "p \<in> set (retain_unseen seen ps)" and "pool_key p = pool_key q"
  shows "p = q \<or> R p q"
  using assms
proof (induction ps arbitrary: seen)
  case (Cons x xs)
  have key: "pool_key y \<notin> seen" if "y \<in> set (retain_unseen seen zs)" for y seen zs
    using retain_unseen_keys [of seen zs] that by blast
  show ?case
    using Cons.prems Cons.IH [of seen] Cons.IH [of "insert (pool_key x) seen"] retain_unseen_subset [of seen xs]
      retain_unseen_subset [of "insert (pool_key x) seen" xs] key [of p "insert (pool_key x) seen" xs] key [of p seen xs]
    by (auto simp: retain_unseen_key split: if_splits)
qed simp

lemma addresses_of_keys: "addresses_of dex ps = {a. (dc_name dex, a) \<in> pool_key ` set ps}"
  by (force simp: addresses_of_def pool_key_def)

lemma addresses_of_dedup [simp]: "addresses_of dex (dedup_pools ps) = addresses_of dex ps"
  by (simp add: addresses_of_keys dedup_pools_def retain_unseen_keys)

lemma pools_in_dedup [simp]: "pools_in S dex ps \<Longrightarrow> pools_in S dex (dedup_pools ps)"
  using retain_unseen_subset [of "{}" "sort_by (\<lambda>a b. cmp (dp_priority b) (dp_priority a)) ps"]
  by (auto simp: pools_in_def dedup_pools_def)

interpretation by_priority: total_preorder "\<lambda>a b. cmp (dp_priority b) (dp_priority a)"
  by unfold_locales (auto simp: reverse_cmp cmp_simps)

text \<open>C26: the merging of a cached, a scanned and a seeded list loses no pool of an exchange, keeps one entry of each, and
  keeps an entry with priority where there is one.\<close>

theorem dedup_keeps_best:
  "distinct (map pool_key (dedup_pools ps)) \<and> pool_key ` set (dedup_pools ps) = pool_key ` set ps \<and>
   set (dedup_pools ps) \<subseteq> set ps \<and>
   \<not> (\<exists>p q. p \<in> set (dedup_pools ps) \<and> q \<in> set ps \<and> pool_key p = pool_key q \<and> dp_priority q \<and> \<not> dp_priority p)"
proof -
  let ?c = "\<lambda>a b. cmp (dp_priority b) (dp_priority a)"
  have "p = q \<or> ?c p q \<noteq> Greater" if "p \<in> set (dedup_pools ps)" "q \<in> set ps" "pool_key p = pool_key q" for p q
    using retain_unseen_first [OF by_priority.sorted_sort_by [of ps], of q p "{}"] that by (simp add: dedup_pools_def)
  moreover have "p = q \<or> ?c p q \<noteq> Greater \<Longrightarrow> dp_priority q \<Longrightarrow> dp_priority p" for p q
    by (auto simp: cmp_simps)
  ultimately show ?thesis
    using retain_unseen_keys [of "{}" "sort_by ?c ps"] retain_unseen_subset [of "{}" "sort_by ?c ps"]
    by (auto simp: dedup_pools_def retain_unseen_distinct)
qed

section \<open>Reading a list\<close>

lemma index_range_eq: "a = b \<Longrightarrow> index_range a b = []"
  by (simp add: index_range_def)

lemma map_index_range: "map (\<lambda>i. f (unat i)) (index_range a b) = map f [unat a..<unat b]"
  using unat_lt_size [of b] by (auto simp: index_range_def unsigned_of_nat take_bit_nat_eq_self)

lemma index_range_indices: "unat ` set (index_range a b) = {unat a..<unat b}"
  using arg_cong [OF map_index_range [of "\<lambda>i. i" a b], of set] by simp

lemma list_all2_member1: "list_all2 P xs ys \<Longrightarrow> x \<in> set xs \<Longrightarrow> \<exists>y\<in>set ys. P x y"
  by (induction rule: list_all2_induct) auto

lemma list_all2_member2: "list_all2 P xs ys \<Longrightarrow> y \<in> set ys \<Longrightarrow> \<exists>x\<in>set xs. P x y"
  by (induction rule: list_all2_induct) auto

text \<open>The decoded results: all of them decode.\<close>

lemma decoded_results:
  "map_res (\<lambda>r. r) (List.map_filter (\<lambda>r. r) rs) = Inr found \<Longrightarrow>
     set found = {a. Some (Inr a) \<in> set rs} \<and> (\<forall>e. Some (Inl e) \<notin> set rs)"
proof (induction rs arbitrary: found)
  case (Cons r rs)
  then show ?case by (cases r) (fastforce simp: map_filter_simps res_bind_Inr)+
qed (simp add: map_filter_simps)

lemma honest_aggregate:
  "honest_scan w net \<Longrightarrow> fa_aggregate net m calls = Inr rs \<Longrightarrow> list_all2 (honest_result w) calls rs"
  by (simp add: honest_scan_def)

lemma entries_chunk_lists:
  assumes "honest_scan w net" and "entries_chunk sc net pl t i e = Inr found"
  shows "entries_at w pl t {unat i..<unat e} \<subseteq> set found \<and> set found \<subseteq> range (fw_entry w pl t)"
proof (cases "index_range i e = []")
  case True
  then have "{unat i..<unat e} = {}" using index_range_indices [of i e] by simp
  moreover have "found = []" using assms(2) True by (simp add: entries_chunk_def aggregate3_def map_filter_simps)
  ultimately show ?thesis by simp
next
  case False
  let ?calls = "map (\<lambda>i. (t, pl, i)) (index_range i e)"
  obtain m raw where raw: "fa_aggregate net m ?calls = Inr raw"
    and found: "map_res (\<lambda>r. r) (List.map_filter (\<lambda>r. r) (map (\<lambda>(success, r). if success then Some r else None) raw)) = Inr found"
    using assms(2) False by (auto simp: entries_chunk_def aggregate3_def res_bind_Inr split: if_splits option.splits)
  note all = honest_aggregate [OF assms(1) raw]
  note dec = decoded_results [OF found]
  have "fw_entry w pl t n \<in> set found" if n: "n \<in> {unat i..<unat e}" "n \<notin> fw_failed w pl t" for n
  proof -
    obtain j where j: "j \<in> set (index_range i e)" "n = unat j" using n(1) unfolding index_range_indices [symmetric] by blast
    then obtain success r where r: "(success, r) \<in> set raw" "honest_result w (t, pl, j) (success, r)"
      using list_all2_member1 [OF all, of "(t, pl, j)"] by auto
    with n(2) j(2) have s: "success" by (auto simp: honest_result_def split: if_splits)
    with r(1) have "Some r \<in> set (map (\<lambda>(success, r). if success then Some r else None) raw)" by force
    with dec r(2) s j(2) show ?thesis by (cases r) (auto simp: honest_result_def)
  qed
  moreover have "a \<in> range (fw_entry w pl t)" if "a \<in> set found" for a
  proof -
    have "(True, Inr a) \<in> set raw" using that dec by (auto split: if_splits)
    from list_all2_member2 [OF all this] show ?thesis by (auto simp: honest_result_def)
  qed
  ultimately show ?thesis by (auto simp: entries_at_def)
qed

lemma upt_split: "(i :: nat) \<le> j \<Longrightarrow> j \<le> k \<Longrightarrow> {i..<k} = {i..<j} \<union> {j..<k}"
  by auto

lemma multicall_from_lists:
  assumes "honest_scan w net"
  shows "multicall_from sc net pl t len i out = Inr found \<Longrightarrow>
    entries_at w pl t {unat i..<unat len} \<subseteq> set found \<and> set out \<subseteq> set found \<and> set found \<subseteq> set out \<union> range (fw_entry w pl t)"
  using assms
proof (induction sc net pl t len i out rule: multicall_from.induct)
  case (1 sc net pl t len i out)
  note scan = "1.prems"(1) [unfolded multicall_from.simps [of sc net pl t len i] Let_def]
  let ?e = "min (sat_add i (multicall_chunk_size (sc_env sc))) len"
  show ?case
  proof (cases "len \<le> i")
    case True
    with scan show ?thesis by (simp add: word_le_nat_alt)
  next
    case False
    then have e: "i < ?e" "?e \<le> len" using next_chunk [of i len] multicall_chunk_size_pos by auto
    from scan False obtain part where part: "entries_chunk sc net pl t i ?e = Inr part"
      and rest: "multicall_from sc net pl t len ?e (out @ part) = Inr found"
      by (auto split: sum.splits)
    note one = entries_chunk_lists [OF "1.prems"(2) part]
    note more = "1.IH" [OF False refl part rest "1.prems"(2)]
    have "{unat i..<unat len} = {unat i..<unat ?e} \<union> {unat ?e..<unat len}"
      using e by (intro upt_split) (simp_all only: word_less_nat_alt word_le_nat_alt less_imp_le)
    then have "entries_at w pl t {unat i..<unat len} = entries_at w pl t {unat i..<unat ?e} \<union> entries_at w pl t {unat ?e..<unat len}"
      by simp
    with one more show ?thesis unfolding set_append by blast
  qed
qed

lemma entries_multicall_lists:
  "honest_scan w net \<Longrightarrow> entries_multicall sc net pl t i len = Inr found \<Longrightarrow>
     entries_at w pl t {unat i..<unat len} \<subseteq> set found \<and> set found \<subseteq> range (fw_entry w pl t)"
  by (auto simp: entries_multicall_def dest!: multicall_from_lists split: if_splits)

lemma entries_sequential_lists:
  assumes "honest_scan w net" and "entries_sequential net pl t i len = Inr found"
  shows "entries_at w pl t {unat i..<unat len} \<subseteq> set found \<and> set found \<subseteq> range (fw_entry w pl t)"
proof -
  have "found = map (\<lambda>i. fw_entry w pl t (unat i)) (index_range i len)"
    using assms by (auto simp: entries_sequential_def map_res_Inr honest_scan_def list_all2_conv_all_nth intro!: nth_equalityI)
  then have "found = map (fw_entry w pl t) [unat i..<unat len]" by (simp only: map_index_range)
  then show ?thesis by (auto simp: entries_at_def)
qed

lemma lb_multicall_lists:
  assumes net: "honest_scan w net" and small: "unat len + unat (multicall_chunk_size (sc_env sc)) < 2 ^ 64"
    and scan: "scan_trader_joe_lb_pairs_multicall sc net t i len = Inr found"
  shows "entries_at w Lb_Pairs t {unat i..<unat len} - {0} \<subseteq> set found \<and> set found \<subseteq> range (fw_entry w Lb_Pairs t)"
proof (cases "len \<le> i")
  case True
  with scan show ?thesis by (simp add: scan_trader_joe_lb_pairs_multicall_def word_le_nat_alt)
next
  case False
  let ?c = "multicall_chunk_size (sc_env sc)" and ?nz = "filter (\<lambda>a. a \<noteq> 0)"
  let ?n = "(unat len - unat i + unat ?c - 1) div unat ?c"
  let ?f = "\<lambda>s out. res_bind (entries_chunk sc net Lb_Pairs t s (min (s + ?c) len)) (\<lambda>found. Inr (out @ ?nz found))"
  let ?s = "\<lambda>j. word_of_nat (unat i + j * unat ?c) :: u64"
  have c: "0 < unat ?c" by (rule multicall_chunk_size_pos)
  have i: "unat i < unat len" using False by (simp add: word_less_nat_alt not_le)
  have below: "unat i + j * unat ?c < unat len" if "j < ?n" for j
  proof -
    have "Suc j * unat ?c \<le> unat len - unat i + unat ?c - 1"
      using that c by (metis Suc_leI less_eq_div_iff_mult_less_eq)
    then show ?thesis using i c by simp
  qed
  have above: "unat len \<le> unat i + ?n * unat ?c"
    using dividend_less_times_div [OF c, of "unat len - unat i + unat ?c - 1"] i by (simp add: algebra_simps)
  have "entries_at w Lb_Pairs t {unat i + j * unat ?c..<unat len} - {0} \<subseteq> set found \<and> set out \<subseteq> set found \<and>
      set found \<subseteq> set out \<union> range (fw_entry w Lb_Pairs t)"
    if "j \<le> ?n" "fold_res ?f (map ?s [j..<?n]) out = Inr found" for j out
    using that
  proof (induction "?n - j" arbitrary: j out)
    case 0
    then show ?case using above by simp
  next
    case (Suc k)
    then have j: "j < ?n" by simp
    let ?e = "min (?s j + ?c) len"
    from Suc.prems(2) j obtain part where part: "entries_chunk sc net Lb_Pairs t (?s j) ?e = Inr part"
      and rest: "fold_res ?f (map ?s [Suc j..<?n]) (out @ ?nz part) = Inr found"
      by (auto simp: upt_conv_Cons res_bind_Inr)
    have s: "unat (?s j) = unat i + j * unat ?c"
      using below [OF j] unat_lt_size [of len] by (intro unat_word_of_nat_less) simp
    moreover have "unat (?s j + ?c) = unat (?s j) + unat ?c"
      using below [OF j] small s by (simp add: unat_word_ariths)
    ultimately have e: "unat ?e = min (unat i + Suc j * unat ?c) (unat len)" by (simp add: word_nat algebra_simps min_def)
    note one = entries_chunk_lists [OF net part, unfolded s e]
    have more: "entries_at w Lb_Pairs t {unat i + Suc j * unat ?c..<unat len} - {0} \<subseteq> set found \<and> set (out @ ?nz part) \<subseteq> set found \<and>
        set found \<subseteq> set (out @ ?nz part) \<union> range (fw_entry w Lb_Pairs t)"
      by (rule Suc.hyps(1) [OF _ _ rest]) (use Suc.hyps(2) j in simp_all)
    have "{unat i + j * unat ?c..<unat len} \<subseteq>
        {unat i + j * unat ?c..<min (unat i + Suc j * unat ?c) (unat len)} \<union> {unat i + Suc j * unat ?c..<unat len}"
      by auto
    from entries_at_mono [OF this, of w Lb_Pairs t] one more show ?case
      unfolding entries_at_simps(2) set_append set_filter by blast
  qed
  from this [of 0 "[]"] scan False show ?thesis
    by (simp add: scan_trader_joe_lb_pairs_multicall_def chunk_starts_def Let_def)
qed

section \<open>Reading logs\<close>

lemma logs_from_reads:
  assumes "logs_answered blocks net" and "addresses \<noteq> []"
  shows "logs_from env net addresses topics to_block b m k start chunk r all = Inr res \<Longrightarrow>
    res = all @ filter (\<lambda>l. lg_address l \<in> set addresses \<and> watches topics l) (range_logs blocks start to_block)"
  using assms
proof (induction env net addresses topics to_block b m k start chunk r all rule: logs_from.induct)
  case (1 env net addresses topics to_block b m k start chunk r all)
  let ?e = "chunk_end start chunk to_block" and ?f = "filter (\<lambda>l. lg_address l \<in> set addresses \<and> watches topics l)"
  let ?q = "\<lparr>lq_from = start, lq_to = ?e, lq_addresses = addresses, lq_topics = topics\<rparr>"
  note scan = "1.prems"(1) [unfolded logs_from.simps [of env net addresses topics to_block b m k] Let_def]
  show ?case
  proof (cases "to_block < start")
    case True
    with scan show ?thesis by (simp add: range_logs_past)
  next
    case False
    then have le: "start \<le> to_block" by simp
    show ?thesis
    proof (cases "net k ?q")
      case (Inl err)
      with scan False obtain c where "log_retry env m err r chunk = Some c"
        and "logs_from env net addresses topics to_block b m (Suc k) start c (Suc r) all = Inr res"
        by (auto split: option.splits)
      from "1.IH"(1) [OF False refl Inl this "1.prems"(2,3)] show ?thesis .
    next
      case (Inr found)
      have "found = ?f (range_logs blocks start ?e)"
        using answered [OF "1.prems"(2) Inr] "1.prems"(3) by (simp add: answers_query_def [abs_def])
      then have "id (all @ found) = id all @ ?f (range_logs blocks start ?e)" by simp
      moreover have "id res = id (all @ found) @ ?f (range_logs blocks (sat_add ?e 1) to_block)" if "?e \<noteq> - 1"
        using "1.IH"(2) [OF False refl Inr that _ "1.prems"(2,3)] scan False Inr that by simp
      moreover have "res = all @ found" if "?e = - 1" using scan False Inr that by simp
      ultimately have "id res = id all @ ?f (range_logs blocks start to_block)"
        using scan_step [where app = append and g = id and f = ?f, OF le append_assoc filter_append]
        by blast
      then show ?thesis by simp
    qed
  qed
qed

lemma logs_chunked_exact:
  assumes "logs_answered blocks net" and "get_logs_chunked sc net a b [t] [topic] = Inr logs"
  shows "logs = filter (\<lambda>l. lg_address l = t \<and> watches [topic] l) (range_logs blocks a b)"
  using assms(2)
  by (auto simp: get_logs_chunked_def Let_def range_logs_past dest!: logs_from_reads [OF assms(1), where addresses = "[t]", simplified]
    split: if_splits)

section \<open>Cursors and pools\<close>

lemma known_of_list: "listed_in dex = Some (pl, t) \<Longrightarrow>
    known_pools w keccak dex cursor = entries_at w pl t {..<unat (cu_count cursor)} - {0}"
  by (auto simp: known_pools_def listed_in_def announced_in_def split: discovery_kind.splits)

lemma known_announced: "announced_in keccak dex = Some src \<Longrightarrow>
    known_pools w keccak dex cursor = set (announced w src (dc_start_block dex) (cu_block cursor))"
  by (auto simp: known_pools_def listed_in_def announced_in_def split: discovery_kind.splits)

definition covers :: "factory_world \<Rightarrow> (string \<Rightarrow> b256) \<Rightarrow> dex_config \<Rightarrow> cached_dex_scan \<Rightarrow> bool" where
  "covers w keccak dex c \<longleftrightarrow>
     known_pools w keccak dex (cs_cursor c) \<subseteq> addresses_of dex (cs_pools c) \<and>
     pools_in (genuine_pools w keccak dex) dex (cs_pools c)"

text \<open>The cursor of a scan that ends at \<open>latest\<close>.\<close>

definition cursor_now :: "factory_net \<Rightarrow> dex_config \<Rightarrow> u64 \<Rightarrow> scan_cursor" where
  "cursor_now net dex latest =
     \<lparr>cu_block = latest,
      cu_count = (case listed_in dex of
          None \<Rightarrow> 0
        | Some (pl, t) \<Rightarrow> (case fa_length net pl t of Inr n \<Rightarrow> u256_to_u64 n | Inl err \<Rightarrow> 0))\<rparr>"

section \<open>Pools for a pair\<close>

lemma seed_pairs_sound:
  assumes "seed_pairs dex tokens keys ask = Inr ps" and "\<And>p k a. ask p k = Inr (Some a) \<Longrightarrow> a \<in> S"
  shows "pools_in S dex ps"
proof -
  from assms(1) obtain answers where m: "map_res (\<lambda>(p, k). ask p k) (List.product (token_pairs tokens) keys) = Inr answers"
    and ps: "ps = map (pool_of_dex dex True None) (List.map_filter (\<lambda>a. a) answers)"
    by (auto simp: seed_pairs_def res_bind_Inr)
  have "a \<in> S" if "Some a \<in> set answers" for a
    using map_res_mem [OF m that] assms(2) by auto
  then show ?thesis by (auto simp: ps map_filter_in)
qed

lemma honest_answers:
  assumes "honest_scan w net"
  shows "fa_solidly_pool net f p k1 = Inr a \<Longrightarrow> a = 0 \<or> a \<in> fw_paired w f"
    and "fa_slipstream_pool net f p k2 = Inr a \<Longrightarrow> a = 0 \<or> a \<in> fw_paired w f"
    and "fa_v3_pool net f p k3 = Inr a \<Longrightarrow> a = 0 \<or> a \<in> fw_paired w f"
    and "fa_lb_pair net f p k4 = Inr (a, ignored) \<Longrightarrow> a = 0 \<or> a \<in> fw_paired w f"
  using assms unfolding honest_scan_def by blast+

lemma honest_pairs:
  assumes "honest_scan w net"
  shows "some_pool (fa_solidly_pool net f p k1) = Inr (Some a) \<Longrightarrow> a \<in> fw_paired w f"
    and "some_pool (fa_slipstream_pool net f p k2) = Inr (Some a) \<Longrightarrow> a \<in> fw_paired w f"
    and "some_pool (fa_v3_pool net f p k3) = Inr (Some a) \<Longrightarrow> a \<in> fw_paired w f"
    and "res_bind (fa_lb_pair net f p k4) (\<lambda>(a, ignored). Inr (if a = 0 \<or> ignored then None else Some a)) = Inr (Some a) \<Longrightarrow>
      a \<in> fw_paired w f"
  by (auto simp: some_pool_def res_bind_Inr dest: honest_answers [OF assms] split: if_splits)

definition seeds_in :: "address set \<Rightarrow> dex_config \<Rightarrow> string + discovered_pool list \<Rightarrow> bool" where
  "seeds_in S dex r \<longleftrightarrow> (\<forall>ps. r = Inr ps \<longrightarrow> pools_in S dex ps)"

lemma seeds_in_intros:
  shows "seeds_in S dex (Inr [])" and "seeds_in S dex r \<Longrightarrow> seeds_in S dex (seeds_if_due sc cached r)"
  by (simp_all add: seeds_in_def seeds_if_due_def addresses_of_def)

lemma genuine_list: "listed_in dex = Some (pl, t) \<Longrightarrow> range (fw_entry w pl t) \<subseteq> genuine_pools w keccak dex"
  and genuine_announced: "announced_in keccak dex = Some src \<Longrightarrow> set (announced w src a b) \<subseteq> genuine_pools w keccak dex"
  by (auto simp: genuine_pools_def)

lemma seeds_genuine:
  assumes "honest_scan w net"
  shows "seeds_in (genuine_pools w keccak dex) dex (seed_configured_solidly_pools sc net dex)"
    and "seeds_in (genuine_pools w keccak dex) dex (seed_configured_slipstream_pools sc net dex)"
    and "seeds_in (genuine_pools w keccak dex) dex (seed_configured_v3_pools sc net dex)"
    and "seeds_in (genuine_pools w keccak dex) dex (seed_configured_trader_joe_lb_pairs sc net dex)"
proof -
  have none: "addresses_of dex [] = {}" by (simp add: addresses_of_def)
  have paired: "a \<in> genuine_pools w keccak dex" if "dc_factory dex = Some f" "a \<in> fw_paired w f" for f a
    using that by (simp add: genuine_pools_def)
  note seeds = seed_pairs_sound [where S = "genuine_pools w keccak dex"]
  have sol: "pools_in (genuine_pools w keccak dex) dex ps"
    if "dc_factory dex = Some f" "seed_pairs dex ts ks (\<lambda>p k. some_pool (fa_solidly_pool net f p k)) = Inr ps" for f ts ks ps
    by (rule seeds [OF that(2)]) (rule paired [OF that(1) honest_pairs(1) [OF assms]])
  have slip: "pools_in (genuine_pools w keccak dex) dex ps"
    if "dc_factory dex = Some f" "seed_pairs dex ts ks (\<lambda>p k. some_pool (fa_slipstream_pool net f p k)) = Inr ps" for f ts ks ps
    by (rule seeds [OF that(2)]) (rule paired [OF that(1) honest_pairs(2) [OF assms]])
  have v3: "pools_in (genuine_pools w keccak dex) dex ps"
    if "dc_factory dex = Some f" "seed_pairs dex ts ks (\<lambda>p k. some_pool (fa_v3_pool net f p k)) = Inr ps" for f ts ks ps
    by (rule seeds [OF that(2)]) (rule paired [OF that(1) honest_pairs(3) [OF assms]])
  have lb: "pools_in (genuine_pools w keccak dex) dex ps"
    if "dc_factory dex = Some f" "seed_pairs dex ts ks (\<lambda>p k. res_bind (fa_lb_pair net f p k) (\<lambda>(a, ignored). Inr (if a = 0 \<or> ignored then None else Some a))) = Inr ps" for f ts ks ps
    by (rule seeds [OF that(2)]) (rule paired [OF that(1) honest_pairs(4) [OF assms]])
  show "seeds_in (genuine_pools w keccak dex) dex (seed_configured_solidly_pools sc net dex)"
    using none by (auto simp: seeds_in_def seed_configured_solidly_pools_def res_bind_Inr dest!: sol split: option.splits if_splits)
  show "seeds_in (genuine_pools w keccak dex) dex (seed_configured_slipstream_pools sc net dex)"
    using none by (auto simp: seeds_in_def seed_configured_slipstream_pools_def res_bind_Inr dest!: slip split: option.splits if_splits)
  show "seeds_in (genuine_pools w keccak dex) dex (seed_configured_v3_pools sc net dex)"
    using none by (auto simp: seeds_in_def seed_configured_v3_pools_def res_bind_Inr dest!: v3 split: option.splits if_splits)
  show "seeds_in (genuine_pools w keccak dex) dex (seed_configured_trader_joe_lb_pairs sc net dex)"
    using none by (auto simp: seeds_in_def seed_configured_trader_joe_lb_pairs_def res_bind_Inr dest!: lb split: option.splits if_splits)
qed

section \<open>One exchange\<close>

text \<open>A way to read a part of a list that leaves out zero addresses and failed entries at most.\<close>

definition lists_entries :: "factory_world \<Rightarrow> pool_list \<Rightarrow> u64 \<Rightarrow> (address \<Rightarrow> u64 \<Rightarrow> u64 \<Rightarrow> string + address list) \<Rightarrow> bool" where
  "lists_entries w pl len read \<longleftrightarrow>
     (\<forall>t i found. read t i len = Inr found \<longrightarrow> entries_at w pl t {unat i..<unat len} - {0} \<subseteq> set found \<and>
       set found \<subseteq> range (fw_entry w pl t))"

lemma cached_genuine:
  assumes "\<And>c. cached = Some c \<Longrightarrow> same_dex c dex \<Longrightarrow> covers w keccak dex c"
  shows "pools_in (genuine_pools w keccak dex) dex (cached_pools cached dex)"
  using assms by (cases cached) (auto simp: cached_pools_def filter_opt_def addresses_of_def covers_def)

lemma scan_list_covers:
  assumes listed: "listed_in dex = Some (pl, t)" and c: "\<And>c. cached = Some c \<Longrightarrow> same_dex c dex \<Longrightarrow> covers w keccak dex c"
    and reads: "\<And>n. fa_length net pl t = Inr n \<Longrightarrow> lists_entries w pl (u256_to_u64 n) multicall \<and> lists_entries w pl (u256_to_u64 n) sequential"
    and seeds: "seeds_in (genuine_pools w keccak dex) dex seeds"
    and scan: "scan_list net pl dex cached latest (Some t) multicall sequential priority seeds = Inr (pools, cursor)"
  shows "known_pools w keccak dex (cursor_now net dex latest) \<subseteq> addresses_of dex pools \<and>
    pools_in (genuine_pools w keccak dex) dex pools \<and> cursor = cursor_now net dex latest"
proof -
  from scan obtain n where n: "fa_length net pl t = Inr n" by (auto simp: scan_list_def res_bind_Inr)
  let ?len = "u256_to_u64 n" and ?usable = "filter_opt (cached_matches dex latest) cached" and ?entries = "entries_at w pl t"
  let ?start = "unwrap_or (map_option (\<lambda>c. min (cu_count (cs_cursor c)) ?len) ?usable) 0"
  have now: "cursor_now net dex latest = \<lparr>cu_block = latest, cu_count = ?len\<rparr>" using listed n by (simp add: cursor_now_def)
  have kept: "?entries {..<k} - {0} \<subseteq> addresses_of dex (cs_pools c) \<and> pools_in (genuine_pools w keccak dex) dex (cs_pools c)"
    if "?usable = Some c" "k \<le> unat (cu_count (cs_cursor c))" for c k
    using c [of c] that entries_at_mono [of "{..<k}" "{..<unat (cu_count (cs_cursor c))}" w pl t] listed
    by (auto simp: covers_def known_of_list cached_matches_def)
  show ?thesis
  proof (cases "filter_opt (\<lambda>c. ?len \<le> cu_count (cs_cursor c)) ?usable")
    case (Some c)
    then have "?usable = Some c" "unat ?len \<le> unat (cu_count (cs_cursor c))" by (auto simp: word_le_nat_alt)
    moreover have "pools = cs_pools c \<and> cursor = \<lparr>cu_block = latest, cu_count = ?len\<rparr>"
      using scan unfolding scan_list_def Let_def option.case n res_bind_simps Some by auto
    ultimately show ?thesis using kept by (simp add: known_of_list [OF listed] now)
  next
    case None
    with scan n obtain found seeded where
      found: "(case multicall t ?start ?len of Inr found \<Rightarrow> Inr found | Inl err \<Rightarrow> sequential t ?start ?len) = Inr found"
      and seeded: "seeds = Inr seeded"
      and pools: "pools = dedup_pools (cached_pools cached dex @ map (pool_of_dex dex priority None) found @ seeded)"
      and cursor: "cursor = \<lparr>cu_block = latest, cu_count = ?len\<rparr>"
      by (auto simp: scan_list_def res_bind_Inr Let_def)
    have rest: "?entries {unat ?start..<unat ?len} - {0} \<subseteq> set found" and only: "set found \<subseteq> range (fw_entry w pl t)"
      using found reads [OF n] by (auto simp: lists_entries_def split: sum.splits)
    have first: "?entries {..<unat ?start} - {0} \<subseteq> addresses_of dex (cached_pools cached dex)"
    proof (cases ?usable)
      case (Some c)
      then have "cached_pools cached dex = cs_pools c" by (auto simp: cached_pools_def cached_matches_def filter_opt_def split: option.splits if_splits)
      moreover have "unat ?start \<le> unat (cu_count (cs_cursor c))" unfolding Some by (auto simp: word_nat)
      ultimately show ?thesis using kept [OF Some] by simp
    qed simp
    have "{..<unat ?len} \<subseteq> {..<unat ?start} \<union> {unat ?start..<unat ?len}" by auto
    from entries_at_mono [OF this, of w pl t]
    have "?entries {..<unat ?len} - {0} \<subseteq> addresses_of dex (cached_pools cached dex) \<union> set found"
      using first rest unfolding entries_at_simps(2) by blast
    moreover have "pools_in (genuine_pools w keccak dex) dex seeded" using seeds seeded by (simp add: seeds_in_def)
    ultimately show ?thesis
      using only genuine_list [OF listed, of w keccak] cached_genuine [OF c, of cached]
      by (auto simp: pools cursor now known_of_list [OF listed])
  qed
qed

lemma list_readers:
  assumes "honest_scan w net"
  shows "lists_entries w pl len (entries_multicall sc net pl)" and "lists_entries w pl len (entries_sequential net pl)"
    and "lists_entries w Lb_Pairs len (scan_trader_joe_lb_pairs_sequential net)"
    and "unat len + unat (multicall_chunk_size (sc_env sc)) < 2 ^ 64 \<Longrightarrow>
      lists_entries w Lb_Pairs len (scan_trader_joe_lb_pairs_multicall sc net)"
  using entries_multicall_lists [OF assms] entries_sequential_lists [OF assms] lb_multicall_lists [OF assms]
  by (fastforce simp: lists_entries_def scan_trader_joe_lb_pairs_sequential_def res_bind_Inr)+

lemmas list_scan_defs = scan_v2_pairs_multicall_def scan_v2_pairs_sequential_def scan_solidly_pools_multicall_def
  scan_solidly_pools_sequential_def scan_slipstream_pools_multicall_def scan_slipstream_pools_sequential_def
  scan_curve_pools_multicall_def scan_curve_pools_sequential_def

text \<open>What is announced up to a block, and from the next one on.\<close>

lemma announced_resumes:
  "set (announced w src a b) \<subseteq> set (announced w src a e) \<union> set (announced w src (sat_add e 1) b)"
proof -
  obtain t topic read where src: "src = (t, topic, read)" by (cases src)
  have "x \<in> set (block_range a e) \<or> x \<in> set (block_range (sat_add e 1) b)" if "x \<in> set (block_range a b)" for x
  proof -
    have r: "x \<in> set (block_range c d) \<longleftrightarrow> c \<le> x \<and> x \<le> d" for c d
      using unat_lt_size [of d]
      by (force simp: block_range_def word_le_nat_alt unsigned_of_nat take_bit_nat_eq_self image_iff intro!: exI [of _ "unat x"])
    have "x \<le> e \<or> sat_add e 1 \<le> x"
      using after_chunk [of e] by (cases "e = - 1") (simp, auto simp: word_le_nat_alt not_le)
    with that show ?thesis by (simp add: r)
  qed
  then show ?thesis unfolding src announced_def range_logs_def by (fastforce simp: map_filter_in)
qed

lemma log_scan_covers:
  assumes src: "announced_in keccak dex = Some (t, topic, read)" and net: "honest_scan w net"
    and c: "\<And>c. cached = Some c \<Longrightarrow> same_dex c dex \<Longrightarrow> covers w keccak dex c"
    and logs: "get_logs_chunked sc (fa_logs net) (resume_block dex latest cached) latest [t] [topic] = Inr logs"
    and b: "cu_block cursor = latest"
  shows "known_pools w keccak dex cursor \<subseteq> addresses_of dex (cached_pools cached dex) \<union> set (List.map_filter read logs)"
proof -
  have "logs_answered (fw_blocks w) (fa_logs net)" using net by (simp add: honest_scan_def)
  from logs_chunked_exact [OF this logs]
  have new: "set (announced w (t, topic, read) (resume_block dex latest cached) latest) = set (List.map_filter read logs)"
    by (simp add: announced_def)
  show ?thesis
  proof (cases "filter_opt (cached_matches dex latest) cached")
    case None
    then have "resume_block dex latest cached = dc_start_block dex" by (simp add: resume_block_def)
    with new b show ?thesis by (simp add: known_announced [OF src])
  next
    case (Some c)
    then have "cached_pools cached dex = cs_pools c"
      by (auto simp: cached_pools_def cached_matches_def filter_opt_def split: option.splits if_splits)
    moreover have "resume_block dex latest cached = sat_add (cu_block (cs_cursor c)) 1" unfolding resume_block_def Some by simp
    moreover have "known_pools w keccak dex (cs_cursor c) \<subseteq> addresses_of dex (cs_pools c)"
      using c [of c] Some by (simp add: covers_def cached_matches_def)
    ultimately show ?thesis
      using announced_resumes [of w "(t, topic, read)" "dc_start_block dex" latest "cu_block (cs_cursor c)"] new b
      by (auto simp: known_announced [OF src])
  qed
qed

lemma addresses_of_registered [simp]:
  "addresses_of dex (map (\<lambda>(i, a). pool_of_dex dex p (Some i) a) xs) = snd ` set xs"
  by (force simp: addresses_of_def pool_of_dex_def)

lemma scan_dex_list:
  assumes net: "honest_scan w net" and small: "unat (multicall_chunk_size (sc_env sc)) < 2 ^ 63" and l: "listed_in dex = Some (pl, t)"
    and scan: "scan_dex sc net dex cached latest = Inr (pools, cursor)"
  shows "\<exists>m q p seeds. scan_list net pl dex cached latest (Some t) m q p seeds = Inr (pools, cursor) \<and>
    (\<forall>n. fa_length net pl t = Inr n \<longrightarrow> lists_entries w pl (u256_to_u64 n) m \<and> lists_entries w pl (u256_to_u64 n) q) \<and>
    seeds_in (genuine_pools w (sc_keccak sc) dex) dex seeds"
proof -
  have fits: "unat (u256_to_u64 n) + unat (multicall_chunk_size (sc_env sc)) < 2 ^ 64" if "fa_length net pl t = Inr n" for pl t n
    using net small that by (fastforce simp: honest_scan_def)
  note reads = list_readers [OF net] fits
  show ?thesis
    using scan l
    by (cases "dc_discovery_kind dex")
      (auto simp: scan_dex_def listed_in_def scan_v2_factory_def scan_solidly_factory_def scan_slipstream_factory_def
        scan_trader_joe_lb_factory_all_pairs_def scan_curve_registry_def list_scan_defs
        intro: reads seeds_in_intros seeds_genuine [OF net] intro!: exI)
qed

lemma scan_dex_logs:
  assumes net: "honest_scan w net" and src: "announced_in (sc_keccak sc) dex = Some (t, topic, read)"
    and scan: "scan_dex sc net dex cached latest = Inr (pools, cursor)"
  shows "\<exists>logs. get_logs_chunked sc (fa_logs net) (resume_block dex latest cached) latest [t] [topic] = Inr logs \<and>
    addresses_of dex (cached_pools cached dex) \<union> set (List.map_filter read logs) \<subseteq> addresses_of dex pools \<and>
    (set (List.map_filter read logs) \<subseteq> genuine_pools w (sc_keccak sc) dex \<longrightarrow>
      pools_in (genuine_pools w (sc_keccak sc) dex) dex (cached_pools cached dex) \<longrightarrow>
      pools_in (genuine_pools w (sc_keccak sc) dex) dex pools) \<and>
    cu_block cursor = latest"
proof -
  have registered: "snd ` set (List.map_filter pool_registered logs) = set (List.map_filter (map_option snd \<circ> pool_registered) logs)" for logs
    by (force simp: map_filter_in)
  have "seeds_in (genuine_pools w (sc_keccak sc) dex) dex (seeds_if_due sc cached (seed_configured_v3_pools sc net dex))"
    by (intro seeds_in_intros seeds_genuine [OF net])
  then show ?thesis
    using scan src
    by (cases "dc_discovery_kind dex")
      (auto simp: scan_dex_def announced_in_def scan_v3_factory_logs_def scan_balancer_vault_logs_def res_bind_Inr registered
        seeds_in_def)
qed

lemma scan_dex_rest:
  assumes net: "honest_scan w net" and "listed_in dex = None" and "announced_in (sc_keccak sc) dex = None"
    and c: "\<And>c. cached = Some c \<Longrightarrow> same_dex c dex \<Longrightarrow> covers w (sc_keccak sc) dex c"
    and scan: "scan_dex sc net dex cached latest = Inr (pools, cursor)"
  shows "pools_in (genuine_pools w (sc_keccak sc) dex) dex pools"
proof -
  have none: "addresses_of dex [] = {}" by (simp add: addresses_of_def)
  show ?thesis
  proof (cases "dc_discovery_kind dex = TraderJoeLbConfiguredPairs")
    case True
    show ?thesis
    proof (cases "filter_opt (\<lambda>c. cached_matches dex latest c \<and> cu_block (cs_cursor c) = latest) cached")
      case (Some k)
      then have "pools = cs_pools k" using scan True by (simp add: scan_dex_def scan_trader_joe_lb_configured_pairs_def del: filter_opt_Some)
      with Some c [of k] show ?thesis by (auto simp: cached_matches_def covers_def)
    next
      case None
      with scan True seeds_genuine(4) [OF net, of "sc_keccak sc" dex sc] show ?thesis
        by (auto simp: scan_dex_def scan_trader_joe_lb_configured_pairs_def res_bind_Inr seeds_in_def)
    qed
  next
    case False
    with scan assms(2,3) none show ?thesis
      by (cases "dc_discovery_kind dex")
        (auto simp: scan_dex_def listed_in_def announced_in_def scan_v2_factory_def scan_solidly_factory_def
          scan_slipstream_factory_def scan_trader_joe_lb_factory_all_pairs_def scan_curve_registry_def scan_list_def
          scan_v3_factory_logs_def scan_balancer_vault_logs_def)
  qed
qed

lemma scan_dex_covers:
  assumes net: "honest_scan w net" and small: "unat (multicall_chunk_size (sc_env sc)) < 2 ^ 63"
    and c: "\<And>c. cached = Some c \<Longrightarrow> same_dex c dex \<Longrightarrow> covers w (sc_keccak sc) dex c"
    and scan: "scan_dex sc net dex cached latest = Inr (pools, cursor)"
  shows "known_pools w (sc_keccak sc) dex (cursor_now net dex latest) \<subseteq> addresses_of dex pools \<and>
    known_pools w (sc_keccak sc) dex cursor \<subseteq> addresses_of dex pools \<and>
    pools_in (genuine_pools w (sc_keccak sc) dex) dex pools"
proof (cases "listed_in dex")
  case (Some l)
  obtain pl t where l: "listed_in dex = Some (pl, t)" using Some by (cases l) auto
  from scan_dex_list [OF net small l scan] scan_list_covers [OF l c] show ?thesis by blast
next
  case None
  show ?thesis
  proof (cases "announced_in (sc_keccak sc) dex")
    case (Some src)
    obtain t topic read where src: "announced_in (sc_keccak sc) dex = Some (t, topic, read)" using Some by (cases src) auto
    from scan_dex_logs [OF net src scan] obtain logs where
      logs: "get_logs_chunked sc (fa_logs net) (resume_block dex latest cached) latest [t] [topic] = Inr logs"
      and all: "addresses_of dex (cached_pools cached dex) \<union> set (List.map_filter read logs) \<subseteq> addresses_of dex pools"
      and only: "set (List.map_filter read logs) \<subseteq> genuine_pools w (sc_keccak sc) dex \<Longrightarrow>
        pools_in (genuine_pools w (sc_keccak sc) dex) dex (cached_pools cached dex) \<Longrightarrow>
        pools_in (genuine_pools w (sc_keccak sc) dex) dex pools"
      and b: "cu_block cursor = latest"
      by blast
    have "logs_answered (fw_blocks w) (fa_logs net)" using net by (simp add: honest_scan_def)
    from logs_chunked_exact [OF this logs]
    have "set (List.map_filter read logs) = set (announced w (t, topic, read) (resume_block dex latest cached) latest)"
      by (simp add: announced_def)
    then have "pools_in (genuine_pools w (sc_keccak sc) dex) dex pools"
      using only cached_genuine [OF c, of cached] genuine_announced [OF src] by blast
    moreover have "known_pools w (sc_keccak sc) dex cursor \<subseteq> addresses_of dex pools"
      using log_scan_covers [OF src net c logs b] all by blast
    moreover note b
    ultimately show ?thesis by (simp add: known_announced [OF src] cursor_now_def)
  next
    case None
    then have "known_pools w (sc_keccak sc) dex k = {}" for k using \<open>listed_in dex = None\<close> by (simp add: known_pools_def)
    moreover have "pools_in (genuine_pools w (sc_keccak sc) dex) dex pools"
      by (rule scan_dex_rest [OF net \<open>listed_in dex = None\<close> None c scan])
    ultimately show ?thesis by simp
  qed
qed

section \<open>All exchanges, run after run\<close>

definition cache_covers :: "factory_world \<Rightarrow> (string \<Rightarrow> b256) \<Rightarrow> settings \<Rightarrow> discovery_cache \<Rightarrow> bool" where
  "cache_covers w keccak s cache \<longleftrightarrow>
     (\<forall>dex\<in>set (enabled_dexes s). \<forall>c. map_of (dca_dexes cache) (dc_name dex) = Some c \<longrightarrow> same_dex c dex \<longrightarrow> covers w keccak dex c)"

definition files_cover :: "factory_world \<Rightarrow> (string \<Rightarrow> b256) \<Rightarrow> settings \<Rightarrow> (u8 list \<Rightarrow> discovery_cache option) \<Rightarrow> files \<Rightarrow> bool" where
  "files_cover w keccak s de fs \<longleftrightarrow> (\<forall>c. fst (discovery_cache_load s de fs) = Inr c \<longrightarrow> cache_covers w keccak s c)"

text \<open>The format of the cache reads what it wrote or nothing, and never a file with the header of the newer format.\<close>

definition cache_text :: "(discovery_cache \<Rightarrow> u8 list) \<Rightarrow> (u8 list \<Rightarrow> discovery_cache option) \<Rightarrow> bool" where
  "cache_text ser de \<longleftrightarrow> (\<forall>c c'. de (ser c) = Some c' \<longrightarrow> c' = c) \<and> (\<forall>bs. de (magic @ bs) = None)"

lemma load_or_repair_only: "fs path = fs' path \<Longrightarrow> fst (load_or_repair valid de path fs) = fst (load_or_repair valid de path fs')"
  by (simp add: load_or_repair_def load_cache_def load_legacy_cache_def Let_def split: cache_load.split sum.split option.split)

lemma load_after_load:
  assumes "fst (load_or_repair valid de path (snd (load_or_repair valid de path fs))) = Inr c"
  shows "fst (load_or_repair valid de path fs) = Inr c"
proof -
  have "snd (load_or_repair valid de path fs) path \<in> {fs path, None}"
    by (simp add: load_or_repair_def repair_cache_def rename_file_def Let_def split: cache_load.split sum.split option.split)
  moreover have "fst (load_or_repair valid de path fs') \<noteq> Inr c" if "fs' path = None" for fs'
    using that by (simp add: load_or_repair_def load_cache_def load_legacy_cache_def)
  ultimately show ?thesis using assms load_or_repair_only [of "snd (load_or_repair valid de path fs)" path fs valid de] by auto
qed

lemma saved_loads:
  assumes "cache_text ser de" and "fst (discovery_cache_load s de (discovery_cache_save s ser now_secs c fs)) = Inr c'"
  shows "c' = c"
proof -
  let ?path = "data_path s ''discovery_cache''" and ?bs = "cache_bytes True now_secs (ser c)"
  have stored: "discovery_cache_save s ser now_secs c fs ?path = Some ?bs"
    by (simp add: discovery_cache_save_def write_cache_run rename_file_def cache_writer_new_def)
  have legacy: "de ?bs = None" using assms(1) by (simp add: cache_text_def cache_bytes_def write_header_def)
  show ?thesis
  proof (cases "de (ser c)")
    case (Some d)
    then have "de (ser c) = Some c" using assms(1) by (auto simp: cache_text_def)
    from written_loads [of de ser, OF this, of True now_secs] stored assms(2) show ?thesis
      by (auto simp: discovery_cache_load_def load_or_repair_def load_cache_def split: if_splits)
  next
    case None
    have "load_bytes de ?bs \<noteq> Loaded d" for d
    proof
      assume "load_bytes de ?bs = Loaded d"
      moreover have "read_header ?bs = Inr (\<lparr>ch_version = cache_schema_version, ch_created_at = now_secs,
          ch_checksum = Some (hex16 (checksum64 (ser c)))\<rparr>, ser c)"
        unfolding cache_bytes_def by (simp add: header_read_back hex16_ascii)
      ultimately show False using None by (simp add: load_bytes_def split: if_splits)
    qed
    with stored legacy assms(2) show ?thesis
      by (auto simp: discovery_cache_load_def load_or_repair_def load_cache_def load_legacy_cache_def Let_def
        split: cache_load.splits if_splits)
  qed
qed

lemma files_cover_saved:
  "cache_text ser de \<Longrightarrow> cache_covers w keccak s c \<Longrightarrow> files_cover w keccak s de (discovery_cache_save s ser now_secs c fs)"
  by (auto simp: files_cover_def dest: saved_loads)

lemma files_cover_loaded: "files_cover w keccak s de fs \<Longrightarrow> files_cover w keccak s de (snd (discovery_cache_load s de fs))"
  by (auto simp: files_cover_def discovery_cache_load_def dest: load_after_load)

text \<open>A run: its own environment and clock, the same configuration.\<close>

definition run_of :: "settings \<Rightarrow> (string \<Rightarrow> b256) \<Rightarrow> scan_setting \<Rightarrow> bool" where
  "run_of s keccak sc \<longleftrightarrow>
     sc_settings sc = s \<and> sc_keccak sc = keccak \<and> unat (multicall_chunk_size (sc_env sc)) < 2 ^ 63"

definition pool_genuine :: "factory_world \<Rightarrow> (string \<Rightarrow> b256) \<Rightarrow> settings \<Rightarrow> discovered_pool \<Rightarrow> bool" where
  "pool_genuine w keccak s p \<longleftrightarrow>
     (\<exists>dex\<in>set (enabled_dexes s). dp_dex_name p = dc_name dex \<and> dp_address p \<in> genuine_pools w keccak dex)"

lemma scan_one_covers:
  assumes fmt: "cache_text ser de" and names: "distinct (map dc_name (enabled_dexes s))" and run: "run_of s keccak sc"
    and net: "honest_scan w net" and dex: "dex \<in> set (enabled_dexes s)"
    and cache: "cache_covers w keccak s cache" and fs: "files_cover w keccak s de fs"
    and one: "scan_one sc ser now_secs latest (net, dex) (cache, pools, fs) = Inr (cache', pools', fs')"
  shows "cache_covers w keccak s cache' \<and> files_cover w keccak s de fs' \<and> set pools \<subseteq> set pools' \<and>
    known_pools w keccak dex (cursor_now net dex latest) \<subseteq> addresses_of dex pools' \<and>
    (\<forall>p\<in>set pools' - set pools. dp_dex_name p = dc_name dex \<and> dp_address p \<in> genuine_pools w keccak dex)"
proof -
  let ?cached = "map_of (dca_dexes cache) (dc_name dex)"
  from one obtain part cursor where scan: "scan_dex sc net dex ?cached latest = Inr (part, cursor)"
    and cache': "cache' = cache\<lparr>dca_dexes := AList.update (dc_name dex) (cached_from_scan dex latest cursor part)
        (AList.delete (dc_name dex) (dca_dexes cache))\<rparr>"
    and pools': "pools' = pools @ part" and fs': "fs' \<in> {fs, discovery_cache_save s ser now_secs cache' fs}"
    using run by (auto simp: scan_one_def run_of_def Let_def split: sum.splits if_splits)
  have small: "unat (multicall_chunk_size (sc_env sc)) < 2 ^ 63" and k: "sc_keccak sc = keccak" using run by (simp_all add: run_of_def)
  have "covers w (sc_keccak sc) dex c" if "?cached = Some c" "same_dex c dex" for c
    using cache dex that by (simp add: cache_covers_def k)
  from scan_dex_covers [OF net small this scan]
  have known: "known_pools w keccak dex (cursor_now net dex latest) \<subseteq> addresses_of dex part"
    and here: "covers w keccak dex (cached_from_scan dex latest cursor part)"
    and only: "pools_in (genuine_pools w keccak dex) dex part"
    by (simp_all add: k covers_def cached_from_scan_def)
  have "dex' = dex" if "dex' \<in> set (enabled_dexes s)" "dc_name dex' = dc_name dex" for dex'
    using names dex that by (auto simp: distinct_map dest: inj_onD)
  then have c': "cache_covers w keccak s cache'"
    using cache here by (auto simp: cache_covers_def cache' update_conv' delete_conv')
  show ?thesis
    using known only c' fs fs' files_cover_saved [OF fmt c'] by (auto simp: pools' pools_in_def)
qed

lemma scan_fold_covers:
  assumes fmt: "cache_text ser de" and names: "distinct (map dc_name (enabled_dexes s))" and run: "run_of s keccak sc"
    and nets: "\<forall>nd\<in>set nds. honest_scan w (fst nd) \<and> snd nd \<in> set (enabled_dexes s)"
    and start: "cache_covers w keccak s cache" "files_cover w keccak s de fs"
  shows "case fold_res (scan_one sc ser now_secs latest) nds (cache, pools, fs) of
      Inl (err, fs') \<Rightarrow> files_cover w keccak s de fs'
    | Inr (cache', pools', fs') \<Rightarrow> cache_covers w keccak s cache' \<and> files_cover w keccak s de fs' \<and> set pools \<subseteq> set pools' \<and>
        (\<forall>nd\<in>set nds. known_pools w keccak (snd nd) (cursor_now (fst nd) (snd nd) latest) \<subseteq> addresses_of (snd nd) pools') \<and>
        (\<forall>p\<in>set pools' - set pools. pool_genuine w keccak s p)"
  using nets start
proof (induction nds arbitrary: cache pools fs)
  case (Cons nd nds)
  obtain net dex where nd: "nd = (net, dex)" by (cases nd)
  show ?case
  proof (cases "scan_one sc ser now_secs latest nd (cache, pools, fs)")
    case (Inl r)
    then have "snd r = fs" unfolding nd by (auto simp: scan_one_def Let_def split: sum.splits)
    with Inl Cons.prems(3) show ?thesis by (auto split: prod.splits)
  next
    case (Inr st)
    obtain cache1 pools1 fs1 where st: "st = (cache1, pools1, fs1)" by (cases st)
    have one: "cache_covers w keccak s cache1 \<and> files_cover w keccak s de fs1 \<and> set pools \<subseteq> set pools1 \<and>
        known_pools w keccak dex (cursor_now net dex latest) \<subseteq> addresses_of dex pools1 \<and>
        (\<forall>p\<in>set pools1 - set pools. dp_dex_name p = dc_name dex \<and> dp_address p \<in> genuine_pools w keccak dex)"
      by (rule scan_one_covers [OF fmt names run _ _ Cons.prems(2,3) Inr [unfolded nd st]])
        (use Cons.prems(1) in \<open>simp_all add: nd\<close>)
    have new: "\<forall>p\<in>set pools1 - set pools. pool_genuine w keccak s p"
      using one Cons.prems(1) by (auto simp: pool_genuine_def nd)
    have mono: "addresses_of dex ps \<subseteq> addresses_of dex qs" if "set ps \<subseteq> set qs" for ps qs
      using that by (auto simp: addresses_of_def)
    have "\<forall>nd\<in>set nds. honest_scan w (fst nd) \<and> snd nd \<in> set (enabled_dexes s)" using Cons.prems(1) by simp
    note rest = Cons.IH [OF this conjunct1 [OF one] conjunct1 [OF conjunct2 [OF one]], of pools1]
    show ?thesis
    proof (cases "fold_res (scan_one sc ser now_secs latest) nds (cache1, pools1, fs1)")
      case (Inl r)
      with rest \<open>scan_one sc ser now_secs latest nd (cache, pools, fs) = Inr st\<close> show ?thesis by (simp add: st)
    next
      case (Inr r)
      then obtain cache2 pools2 fs2 where r: "fold_res (scan_one sc ser now_secs latest) nds (cache1, pools1, fs1) = Inr (cache2, pools2, fs2)"
        by (cases r) auto
      with rest have "set pools1 \<subseteq> set pools2" by simp
      with rest r one new mono [of pools1 pools2] \<open>scan_one sc ser now_secs latest nd (cache, pools, fs) = Inr st\<close> show ?thesis
        by (auto simp: st nd)
    qed
  qed
qed simp

lemma scan_all_covers:
  assumes fmt: "cache_text ser de" and names: "distinct (map dc_name (enabled_dexes s))" and run: "run_of s keccak sc"
    and nets: "\<And>i. honest_scan w (nets i)" and fs: "files_cover w keccak s de fs"
    and scan: "scan_all sc ser de now_secs tip nets fs = (result, fs')"
  shows "files_cover w keccak s de fs' \<and>
    (\<forall>pools latest i. result = Inr pools \<longrightarrow> tip = Inr latest \<longrightarrow> i < length (enabled_dexes s) \<longrightarrow>
       known_pools w keccak (enabled_dexes s ! i) (cursor_now (nets i) (enabled_dexes s ! i) latest)
         \<subseteq> addresses_of (enabled_dexes s ! i) pools \<and>
       addresses_of (enabled_dexes s ! i) pools \<subseteq> genuine_pools w keccak (enabled_dexes s ! i))"
proof (cases tip)
  case (Inl err)
  with scan fs show ?thesis by (simp add: scan_all_def)
next
  case (Inr latest)
  let ?ds = "enabled_dexes s" and ?loaded = "discovery_cache_load s de fs"
  let ?nds = "zip (map nets [0..<length ?ds]) ?ds"
  let ?cache = "case fst ?loaded of Inr c \<Rightarrow> c | Inl _ \<Rightarrow> discovery_cache_new (st_chain_id s)"
  have s: "sc_settings sc = s" using run by (simp add: run_of_def)
  have "\<forall>nd\<in>set ?nds. honest_scan w (fst nd) \<and> snd nd \<in> set ?ds" using nets by (auto simp: set_zip)
  moreover have "cache_covers w keccak s ?cache"
    using fs by (auto simp: files_cover_def cache_covers_def discovery_cache_new_def split: sum.splits)
  moreover have "files_cover w keccak s de (snd ?loaded)" by (rule files_cover_loaded [OF fs])
  ultimately have "case fold_res (scan_one sc ser now_secs latest) ?nds (?cache, [], snd ?loaded) of
      Inl (err, fs') \<Rightarrow> files_cover w keccak s de fs'
    | Inr (cache', pools', fs') \<Rightarrow> cache_covers w keccak s cache' \<and> files_cover w keccak s de fs' \<and> set [] \<subseteq> set pools' \<and>
        (\<forall>nd\<in>set ?nds. known_pools w keccak (snd nd) (cursor_now (fst nd) (snd nd) latest) \<subseteq> addresses_of (snd nd) pools') \<and>
        (\<forall>p\<in>set pools' - set []. pool_genuine w keccak s p)"
    by (rule scan_fold_covers [OF fmt names run])
  moreover have "(nets i, ?ds ! i) \<in> set ?nds" if "i < length ?ds" for i
    using that by (auto simp: set_zip intro!: exI [of _ i])
  moreover have "addresses_of (?ds ! i) pools \<subseteq> genuine_pools w keccak (?ds ! i)"
    if "i < length ?ds" "\<forall>p\<in>set pools. pool_genuine w keccak s p" for i pools
  proof -
    have "dex = ?ds ! i" if "dex \<in> set ?ds" "dc_name dex = dc_name (?ds ! i)" for dex
      using names that \<open>i < length ?ds\<close> by (auto simp: distinct_map dest: inj_onD)
    with that(2) show ?thesis by (force simp: addresses_of_def pool_genuine_def)
  qed
  ultimately show ?thesis
    using scan files_cover_saved [OF fmt, of w keccak s]
    by (fastforce simp: scan_all_def Inr s Let_def split: prod.splits sum.splits if_splits)
qed

text \<open>The files a program can meet: none, or what a run of the scan left, finished or not.\<close>

inductive scan_history ::
  "factory_world \<Rightarrow> settings \<Rightarrow> (string \<Rightarrow> b256) \<Rightarrow> (discovery_cache \<Rightarrow> u8 list) \<Rightarrow> (u8 list \<Rightarrow> discovery_cache option) \<Rightarrow> files \<Rightarrow> bool"
  for w s keccak ser de where
  no_cache: "fs (data_path s ''discovery_cache'') = None \<Longrightarrow> scan_history w s keccak ser de fs"
| scanned: "scan_history w s keccak ser de fs \<Longrightarrow> run_of s keccak sc \<Longrightarrow> (\<And>i. honest_scan w (nets i)) \<Longrightarrow>
    scan_all sc ser de now_secs tip nets fs = (result, fs') \<Longrightarrow> scan_history w s keccak ser de fs'"

lemma history_covers:
  assumes "cache_text ser de" and "distinct (map dc_name (enabled_dexes s))" and "scan_history w s keccak ser de fs"
  shows "files_cover w keccak s de fs"
  using assms(3)
proof induction
  case (no_cache fs)
  then show ?case by (simp add: files_cover_def discovery_cache_load_def load_or_repair_def load_cache_def load_legacy_cache_def)
next
  case (scanned fs sc nets now_secs tip result fs')
  from scan_all_covers [OF assms(1,2) scanned.hyps(2) scanned.hyps(3) scanned.IH scanned.hyps(4)] show ?case by blast
qed

text \<open>C9: after any number of runs of the program, finished or broken off, a scan that completes has every pool of every
  exchange but those whose call failed on its own in an aggregate: all other entries of the contract's list and all
  announcements up to the latest block, although it reads only what was added since the cursor of the cache file, in chunks,
  with retries and fallbacks. And it has no pool that the contract does not list, announce or give for a pair of tokens.\<close>

theorem discovery_complete:
  assumes "cache_text ser de" and "distinct (map dc_name (enabled_dexes s))" and "scan_history w s keccak ser de fs"
    and "run_of s keccak sc" and "\<And>i. honest_scan w (nets i)"
    and "scan_all sc ser de now_secs (Inr latest) nets fs = (Inr pools, fs')" and "i < length (enabled_dexes s)"
  shows "known_pools w keccak (enabled_dexes s ! i) (cursor_now (nets i) (enabled_dexes s ! i) latest)
      \<subseteq> addresses_of (enabled_dexes s ! i) pools \<and>
    addresses_of (enabled_dexes s ! i) pools \<subseteq> genuine_pools w keccak (enabled_dexes s ! i)"
  using scan_all_covers [OF assms(1,2,4,5) history_covers [OF assms(1-3)] assms(6)] assms(7) by blast

section \<open>Two runs\<close>

text \<open>A factory with two pools, then with three, read by aggregated calls. The call for the second pool fails in the first
  aggregate: both scans are without it.\<close>

definition demo_dex :: dex_config where
  "demo_dex = \<lparr>dc_name = ''uniswap'', dc_amm_kind = UniswapV2Like, dc_discovery_kind = FactoryAllPairs, dc_factory = Some 1,
     dc_registry = None, dc_vault = None, dc_quoter = None, dc_fee_ppm = 3000, dc_start_block = 0, dc_enabled = True\<rparr>"

definition demo_world :: factory_world where
  "demo_world = \<lparr>fw_entry = (\<lambda>pl t n. word_of_nat (100 + n)), fw_failed = (\<lambda>pl t. {1}), fw_blocks = (\<lambda>b. []), fw_paired = (\<lambda>f. {})\<rparr>"

definition demo_factory :: "u256 \<Rightarrow> factory_net" where
  "demo_factory n =
     \<lparr>fa_length = (\<lambda>pl t. Inr n), fa_entry = (\<lambda>pl t i. Inr (word_of_nat (100 + unat i))),
      fa_aggregate = (\<lambda>m calls. Inr (map (\<lambda>(t, pl, i). if i = 1 then (False, Inl ''execution reverted'')
        else (True, Inr (word_of_nat (100 + unat i)))) calls)), fa_solidly_pool = (\<lambda>f p k. Inr 0),
      fa_tick_spacings = (\<lambda>f. Inr []), fa_slipstream_pool = (\<lambda>f p k. Inr 0), fa_v3_pool = (\<lambda>f p k. Inr 0),
      fa_lb_pair = (\<lambda>f p k. Inr (0, False)), fa_logs = (\<lambda>k q. Inr [])\<rparr>"

definition quiet_scan :: "settings \<Rightarrow> (string \<Rightarrow> b256) \<Rightarrow> scan_setting" where
  "quiet_scan s keccak = \<lparr>sc_env = Map.empty, sc_settings = s, sc_address_of = (\<lambda>_. Some 7), sc_keccak = keccak\<rparr>"

definition scanned_pool :: "address \<Rightarrow> discovered_pool" where
  "scanned_pool a = pool_of_dex demo_dex False None a"

definition demo_cache :: "settings \<Rightarrow> discovery_cache" where
  "demo_cache s = \<lparr>dca_version = 1, dca_chain_id = st_chain_id s,
     dca_dexes = [(''uniswap'', cached_from_scan demo_dex 50 \<lparr>cu_block = 50, cu_count = 2\<rparr> (map scanned_pool [100]))]\<rparr>"

definition demo_ser :: "settings \<Rightarrow> discovery_cache \<Rightarrow> u8 list" where
  "demo_ser s c = (if c = demo_cache s then [1] else [0])"

definition demo_de :: "settings \<Rightarrow> u8 list \<Rightarrow> discovery_cache option" where
  "demo_de s bs = (if bs = [1] then Some (demo_cache s) else None)"

lemma demo_text: "cache_text (demo_ser s) (demo_de s)"
  by (auto simp: cache_text_def demo_ser_def demo_de_def magic_def bytes_of_string_def split: if_splits)

lemma demo_honest: "unat (u256_to_u64 n) < 2 ^ 63 \<Longrightarrow> honest_scan demo_world (demo_factory n)"
  by (auto simp: honest_scan_def demo_world_def demo_factory_def logs_answered_def range_logs_def list_all2_map2 honest_result_def
    split: prod.splits intro!: list.rel_refl_strong)

lemma demo_run_of: "run_of s keccak (quiet_scan s keccak)"
  by (simp add: run_of_def quiet_scan_def multicall_chunk_size_def env_word_def env_u64_def filter_opt_def)

lemma demo_enabled: "enabled_dexes (s\<lparr>st_dexes := [demo_dex]\<rparr>) = [demo_dex]"
  by (simp add: enabled_dexes_def demo_dex_def)

lemma ranges: "index_range 0 2 = [0, 1]" "index_range 2 3 = [2]" "u256_to_u64 2 = 2" "u256_to_u64 3 = 3"
  by (simp_all add: index_range_def u256_to_u64_def upt_conv_Cons)

lemma demo_parts:
  "entries_multicall (quiet_scan s keccak) (demo_factory k) V2_Pairs 1 0 2 = Inr [100]"
  "entries_multicall (quiet_scan s keccak) (demo_factory k) V2_Pairs 1 2 3 = Inr [102]"
proof -
  have c: "multicall_chunk_size (sc_env (quiet_scan s keccak)) = 500" "\<not> multicall_disabled (sc_env (quiet_scan s keccak))"
    by (simp_all add: quiet_scan_def multicall_chunk_size_def env_word_def env_u64_def filter_opt_def multicall_disabled_def)
  have e: "min (sat_add 0 500) (2 :: u64) = 2" "min (sat_add 2 500) (3 :: u64) = 3" by (simp_all add: word_unat_eq_iff word_nat)
  have parts: "entries_chunk (quiet_scan s keccak) (demo_factory k) V2_Pairs 1 0 2 = Inr [100]"
    "entries_chunk (quiet_scan s keccak) (demo_factory k) V2_Pairs 1 2 3 = Inr [102]"
    by (simp_all add: entries_chunk_def aggregate3_def multicall3_address_def opt_or_def quiet_scan_def demo_factory_def ranges
      map_filter_simps)
  show "entries_multicall (quiet_scan s keccak) (demo_factory k) V2_Pairs 1 0 2 = Inr [100]"
    "entries_multicall (quiet_scan s keccak) (demo_factory k) V2_Pairs 1 2 3 = Inr [102]"
    by (simp_all add: entries_multicall_def c e parts multicall_from.simps [of "quiet_scan s keccak"])
qed

lemmas demo_scan_defs = scan_v2_factory_def scan_list_def scan_v2_pairs_multicall_def demo_parts
  cached_pools_def filter_opt_def dedup_pools_def retain_unseen_key pool_key_def cmp_def

lemma demo_length: "fa_length (demo_factory n) pl t = Inr n"
  by (simp add: demo_factory_def)

lemma demo_first:
  "scan_dex (quiet_scan s keccak) (demo_factory 2) demo_dex None 50 = Inr (map scanned_pool [100], \<lparr>cu_block = 50, cu_count = 2\<rparr>)"
  by (simp add: scan_dex_def demo_dex_def demo_scan_defs demo_length ranges Let_def scanned_pool_def pool_of_dex_def)

lemma demo_second:
  "scan_dex (quiet_scan s keccak) (demo_factory 3) demo_dex
     (Some (cached_from_scan demo_dex 50 \<lparr>cu_block = 50, cu_count = 2\<rparr> (map scanned_pool [100]))) 60 =
   Inr (map scanned_pool [100, 102], \<lparr>cu_block = 60, cu_count = 3\<rparr>)"
  by (simp add: scan_dex_def demo_dex_def demo_scan_defs demo_length ranges Let_def scanned_pool_def pool_of_dex_def cached_from_scan_def
    cached_matches_def same_dex_def)

theorem discovery_complete_witness:
  "\<forall>s0 keccak. \<exists>s fs1 fs2. enabled_dexes s = [demo_dex] \<and>
     scan_all (quiet_scan s keccak) (demo_ser s) (demo_de s) 7 (Inr 50) (\<lambda>_. demo_factory 2) (\<lambda>_. None) = (Inr (map scanned_pool [100]), fs1) \<and>
     scan_all (quiet_scan s keccak) (demo_ser s) (demo_de s) 8 (Inr 60) (\<lambda>_. demo_factory 3) fs1 = (Inr (map scanned_pool [100, 102]), fs2) \<and>
     {100, 102} \<subseteq> addresses_of demo_dex (map scanned_pool [100, 102]) \<and> s = s0\<lparr>st_dexes := [demo_dex]\<rparr>"
proof (intro allI)
  fix s0 :: settings and keccak
  define s where "s = s0\<lparr>st_dexes := [demo_dex]\<rparr>"
  let ?sc = "quiet_scan s keccak" and ?ser = "demo_ser s" and ?de = "demo_de s"
  let ?fs1 = "discovery_cache_save s ?ser 7 (demo_cache s) (\<lambda>_. None)"
  have ds: "enabled_dexes s = [demo_dex]" by (simp add: s_def demo_enabled)
  have sc: "sc_settings ?sc = s" "sc_env ?sc = Map.empty" by (simp_all add: quiet_scan_def)
  have name: "dc_name demo_dex = ''uniswap''" by (simp add: demo_dex_def)
  have first: "scan_all ?sc ?ser ?de 7 (Inr 50) (\<lambda>_. demo_factory 2) (\<lambda>_. None) = (Inr (map scanned_pool [100]), ?fs1)"
    by (simp add: scan_all_def scan_one_def sc ds name demo_first discovery_cache_load_def load_or_repair_def load_cache_def
      load_legacy_cache_def Let_def discovery_cache_new_def env_bool_set_def demo_cache_def)
  have "?de (?ser (demo_cache s)) = Some (demo_cache s)" by (simp add: demo_ser_def demo_de_def)
  then have "load_cache ?de (data_path s ''discovery_cache'') ?fs1 = Loaded (demo_cache s)"
    unfolding discovery_cache_save_def using written_loads [of ?de ?ser "demo_cache s"]
    by (simp add: load_cache_def write_cache_run rename_file_def cache_writer_new_def)
  then have loaded: "discovery_cache_load s ?de ?fs1 = (Inr (demo_cache s), ?fs1)"
    by (simp add: discovery_cache_load_def load_or_repair_def discovery_cache_valid_def demo_cache_def)
  have cached: "map_of (dca_dexes (demo_cache s)) ''uniswap'' =
      Some (cached_from_scan demo_dex 50 \<lparr>cu_block = 50, cu_count = 2\<rparr> (map scanned_pool [100]))"
    by (simp add: demo_cache_def)
  obtain fs2 where second: "scan_all ?sc ?ser ?de 8 (Inr 60) (\<lambda>_. demo_factory 3) ?fs1 = (Inr (map scanned_pool [100, 102]), fs2)"
    using demo_second [of s keccak]
    by (simp add: scan_all_def scan_one_def sc ds name loaded cached Let_def env_bool_set_def)
  have small: "unat (u256_to_u64 2) < 2 ^ 63" "unat (u256_to_u64 3) < 2 ^ 63" by (simp_all add: ranges)
  have run: "run_of s keccak ?sc" by (rule demo_run_of)
  have "scan_history demo_world s keccak ?ser ?de (\<lambda>_. None)" by (rule scan_history.no_cache) simp
  then have history: "scan_history demo_world s keccak ?ser ?de ?fs1"
    by (rule scan_history.scanned [OF _ run demo_honest [OF small(1)] first])
  have "distinct (map dc_name (enabled_dexes s))" by (simp add: ds)
  from discovery_complete [OF demo_text this history run demo_honest [OF small(2)] second, of 0]
  have covered: "known_pools demo_world keccak demo_dex (cursor_now (demo_factory 3) demo_dex 60) \<subseteq> addresses_of demo_dex (map scanned_pool [100, 102])"
    by (simp add: ds)
  have "listed_in demo_dex = Some (V2_Pairs, 1)" by (simp add: listed_in_def demo_dex_def)
  then have "known_pools demo_world keccak demo_dex (cursor_now (demo_factory 3) demo_dex 60) =
      (\<lambda>n. word_of_nat (100 + n)) ` ({..<3} - {1}) - {0}"
    by (simp add: known_of_list cursor_now_def demo_factory_def ranges demo_world_def entries_at_def)
  moreover have "{..<3 :: nat} - {1} = {0, 2}" by auto
  ultimately have "known_pools demo_world keccak demo_dex (cursor_now (demo_factory 3) demo_dex 60) = {100, 102}" by auto
  moreover note covered
  ultimately have "{100, 102} \<subseteq> addresses_of demo_dex (map scanned_pool [100, 102])" by simp
  then show "\<exists>s fs1 fs2. enabled_dexes s = [demo_dex] \<and>
     scan_all (quiet_scan s keccak) (demo_ser s) (demo_de s) 7 (Inr 50) (\<lambda>_. demo_factory 2) (\<lambda>_. None) = (Inr (map scanned_pool [100]), fs1) \<and>
     scan_all (quiet_scan s keccak) (demo_ser s) (demo_de s) 8 (Inr 60) (\<lambda>_. demo_factory 3) fs1 = (Inr (map scanned_pool [100, 102]), fs2) \<and>
     {100, 102} \<subseteq> addresses_of demo_dex (map scanned_pool [100, 102]) \<and> s = s0\<lparr>st_dexes := [demo_dex]\<rparr>"
    using ds first second s_def by blast
qed

section \<open>A failed call of an aggregate\<close>

text \<open>An entry whose call fails inside an aggregated call is left out, and the cursor passes it: no later scan that starts from
  this cursor asks for it.\<close>

lemma failed_entry_is_passed:
  assumes "aggregate3 (sc_env sc) (sc_address_of sc) (fa_aggregate net) (map (\<lambda>i. (t, pl, i)) (index_range 0 2)) =
      Inr [Some (Inr a), None]"
    and "fa_length net pl t = Inr 2" and "\<not> multicall_disabled (sc_env sc)" and "multicall_chunk_size (sc_env sc) = 500"
  shows "scan_list net pl dex None latest (Some t) (entries_multicall sc net pl) q False (Inr []) =
    Inr ([pool_of_dex dex False None a], \<lparr>cu_block = latest, cu_count = 2\<rparr>)"
proof -
  have "min (sat_add 0 500) (2 :: u64) = 2" by (simp add: word_unat_eq_iff word_nat)
  then have "entries_multicall sc net pl t 0 2 = Inr [a]"
    using assms(1,3,4)
    by (simp add: entries_multicall_def multicall_from.simps [of sc net pl t 2] entries_chunk_def map_filter_simps)
  then show ?thesis
    using assms(2) by (simp add: scan_list_def ranges filter_opt_def cached_pools_def dedup_pools_def retain_unseen_key)
qed

end
