(* ===== verification/Submission.thy ===== *)
theory Submission
  imports Settlement Config
begin

text \<open>
  \<open>src/execution/submitter.rs\<close>: the channels a signed transaction may take, the loop that tries them, and the wait
  for the receipt. The key parser, the signer, the URL parser and the network are arguments; the k-th request has an
  answer of its own.
\<close>

section \<open>Channels\<close>

record submit_channel =
  sc_name :: string
  sc_url :: string
  sc_method :: string

definition channel_public :: "string \<Rightarrow> string \<Rightarrow> submit_channel" where
  "channel_public name url = \<lparr>sc_name = name, sc_url = url, sc_method = ''eth_sendRawTransaction''\<rparr>"

definition channel_private :: "string \<Rightarrow> string \<Rightarrow> settings \<Rightarrow> submit_channel" where
  "channel_private name url s = \<lparr>sc_name = name, sc_url = url, sc_method = rp_private_submit_method (st_rpc s)\<rparr>"

definition channels :: "settings \<Rightarrow> submit_channel list" where
  "channels s =
     (let c = chain_as_str (st_chain s);
          protected = (case rp_protected_rpc_url (st_rpc s) of Some url \<Rightarrow> [channel_private (c @ ''-protected'') url s] | None \<Rightarrow> []);
          fallback = (case rp_fallback_rpc_url (st_rpc s) of Some url \<Rightarrow> [channel_public (c @ ''-fallback'') url] | None \<Rightarrow> [])
      in if xs_allow_public_fallback (st_execution s)
         then protected @ [channel_public (c @ ''-public'') (rp_public_rpc_url (st_rpc s))] @ fallback
         else protected)"

section \<open>Statistics\<close>

record channel_stats =
  cs_submitted :: u64
  cs_failed :: u64

type_synonym submitter_stats = "string \<rightharpoonup> channel_stats"

definition channel_entry :: "string \<Rightarrow> submitter_stats \<Rightarrow> channel_stats" where
  "channel_entry name stats = unwrap_or (stats name) \<lparr>cs_submitted = 0, cs_failed = 0\<rparr>"

definition bump_success :: "string \<Rightarrow> submitter_stats \<Rightarrow> submitter_stats" where
  "bump_success name stats = (let e = channel_entry name stats in stats(name \<mapsto> e\<lparr>cs_submitted := cs_submitted e + 1\<rparr>))"

definition bump_failure :: "string \<Rightarrow> submitter_stats \<Rightarrow> submitter_stats" where
  "bump_failure name stats = (let e = channel_entry name stats in stats(name \<mapsto> e\<lparr>cs_failed := cs_failed e + 1\<rparr>))"

section \<open>Submitting\<close>

record transaction_request =
  tr_to :: address
  tr_nonce :: u64
  tr_chain_id :: u64
  tr_input :: "u8 list"
  tr_gas_limit :: u64
  tr_max_priority_fee_per_gas :: u128
  tr_max_fee_per_gas :: u128

definition request_of :: "settings \<Rightarrow> address \<Rightarrow> executable_plan \<Rightarrow> transaction_request" where
  "request_of s executor plan =
     \<lparr>tr_to = executor, tr_nonce = ex_nonce plan, tr_chain_id = st_chain_id s, tr_input = ex_calldata plan,
      tr_gas_limit = xp_gas_limit (ex_exact plan), tr_max_priority_fee_per_gas = ex_max_priority_fee_per_gas plan,
      tr_max_fee_per_gas = ex_max_fee_per_gas plan\<rparr>"

datatype submit_error = Executor_Missing | Key_Missing | Key_Invalid | Url_Invalid string | Build_Failed string
  | Client_Failed string | All_Channels_Failed

text \<open>What was sent: the channel and the raw transaction, in the order of the attempts.\<close>

record submit_run =
  sb_stats :: submitter_stats
  sb_sent :: "(submit_channel \<times> string) list"

record 'key submit_net =
  sn_parse_key :: "string \<Rightarrow> 'key option"
  sn_parse_url :: "string \<Rightarrow> bool"
  sn_sign :: "'key \<Rightarrow> string \<Rightarrow> transaction_request \<Rightarrow> string + string"
  sn_client :: "string \<Rightarrow> string + unit"
  sn_send :: "nat \<Rightarrow> submit_channel \<Rightarrow> string \<Rightarrow> string + b256"

fun try_channels ::
  "'key submit_net \<Rightarrow> 'key \<Rightarrow> transaction_request \<Rightarrow> submit_channel list \<Rightarrow> submit_run \<Rightarrow> submit_run \<times> (submit_error + submission_result)" where
  "try_channels net key tx [] r = (r, Inl All_Channels_Failed)"
| "try_channels net key tx (c # cs) r =
     (if \<not> sn_parse_url net (sc_url c) then (r, Inl (Url_Invalid (sc_url c)))
      else case sn_sign net key (sc_url c) tx of
        Inl e \<Rightarrow> (r, Inl (Build_Failed e))
      | Inr raw_tx \<Rightarrow>
          (case sn_client net (sc_url c) of
             Inl e \<Rightarrow> (r, Inl (Client_Failed e))
           | Inr _ \<Rightarrow>
               let sent = r\<lparr>sb_sent := sb_sent r @ [(c, raw_tx)]\<rparr> in
               (case sn_send net (length (sb_sent r)) c raw_tx of
                  Inr tx_hash \<Rightarrow> (sent\<lparr>sb_stats := bump_success (sc_name c) (sb_stats r)\<rparr>,
                    Inr \<lparr>sr_tx_hash = tx_hash, sr_channel = sc_name c\<rparr>)
                | Inl _ \<Rightarrow> try_channels net key tx cs (sent\<lparr>sb_stats := bump_failure (sc_name c) (sb_stats r)\<rparr>))))"

definition submit :: "settings \<Rightarrow> 'key submit_net \<Rightarrow> executable_plan \<Rightarrow> submitter_stats \<Rightarrow> submit_run \<times> (submit_error + submission_result)" where
  "submit s net plan stats =
     (let r = \<lparr>sb_stats = stats, sb_sent = []\<rparr> in
      case ct_executor_address (st_contracts s) of
        None \<Rightarrow> (r, Inl Executor_Missing)
      | Some executor \<Rightarrow>
          (case st_operator_private_key s of
             None \<Rightarrow> (r, Inl Key_Missing)
           | Some text \<Rightarrow>
               (case sn_parse_key net text of
                  None \<Rightarrow> (r, Inl Key_Invalid)
                | Some key \<Rightarrow> try_channels net key (request_of s executor plan) (channels s) r)))"

section \<open>The receipt\<close>

definition receipt_timeout :: "env \<Rightarrow> duration" where
  "receipt_timeout env = from_millis (env_u64 env ''TX_RECEIPT_TIMEOUT_MS'' 120000)"

definition receipt_poll :: "env \<Rightarrow> duration" where
  "receipt_poll env = from_millis (env_u64 env ''TX_RECEIPT_POLL_MS'' 1000)"

text \<open>Request \<open>k\<close> is answered by \<open>status k\<close> and takes \<open>took k\<close>; the sleep after it takes the poll interval and \<open>late k\<close>
  more. The result has the number of the last request and the time that has passed when it is answered. No value means that
  the wait never ends.\<close>

partial_function (option) wait_from ::
  "env \<Rightarrow> (nat \<Rightarrow> 'e + bool option) \<Rightarrow> (nat \<Rightarrow> duration) \<Rightarrow> (nat \<Rightarrow> duration) \<Rightarrow> nat \<Rightarrow> duration \<Rightarrow>
   (nat \<times> duration \<times> ('e + receipt_outcome)) option" where
  "wait_from env status took late k so_far =
     (let passed = so_far + took k in
      case status k of
        Inl e \<Rightarrow> Some (k, passed, Inl e)
      | Inr (Some success) \<Rightarrow> Some (k, passed, Inr (if success then R_Included else R_Reverted))
      | Inr None \<Rightarrow>
          if receipt_timeout env \<le> passed then Some (k, passed, Inr R_TimedOut)
          else wait_from env status took late (Suc k) (passed + (receipt_poll env + late k)))"

definition wait_for_receipt ::
  "env \<Rightarrow> (nat \<Rightarrow> 'e + bool option) \<Rightarrow> (nat \<Rightarrow> duration) \<Rightarrow> (nat \<Rightarrow> duration) \<Rightarrow> ('e + receipt_outcome) option" where
  "wait_for_receipt env status took late = map_option (\<lambda>(_, _, r). r) (wait_from env status took late 0 0)"

section \<open>Where a transaction goes\<close>

definition attempt_ok :: "settings \<Rightarrow> submit_channel \<Rightarrow> bool" where
  "attempt_ok s c \<longleftrightarrow>
     (xs_allow_public_fallback (st_execution s) \<or> Some (sc_url c) = rp_protected_rpc_url (st_rpc s) \<and>
        sc_method c = rp_private_submit_method (st_rpc s)) \<and>
     (sc_method c = rp_private_submit_method (st_rpc s) \<or> sc_method c = ''eth_sendRawTransaction'')"

lemma channels_ok: "list_all (attempt_ok s) (channels s)"
  by (auto simp: channels_def attempt_ok_def channel_public_def channel_private_def Let_def split: option.splits)

text \<open>The sends of a run, numbered from \<open>k\<close>: all fail, or the last one succeeds with the reported hash.\<close>

fun sends_end :: "'key submit_net \<Rightarrow> nat \<Rightarrow> (submit_channel \<times> string) list \<Rightarrow> submit_error + submission_result \<Rightarrow> bool" where
  "sends_end net k [] res = (\<exists>e. res = Inl e)"
| "sends_end net k ((c, raw) # tried) res =
     (case sn_send net k c raw of
        Inr h \<Rightarrow> tried = [] \<and> res = Inr \<lparr>sr_tx_hash = h, sr_channel = sc_name c\<rparr>
      | Inl _ \<Rightarrow> sends_end net (Suc k) tried res)"

lemma try_channels_sent:
  "try_channels net key tx cs r = (r', res) \<Longrightarrow>
   \<exists>tried n. sb_sent r' = sb_sent r @ tried \<and> map fst tried = take n cs \<and>
     list_all (\<lambda>(c, raw). sn_sign net key (sc_url c) tx = Inr raw) tried \<and> sends_end net (length (sb_sent r)) tried res"
proof (induction cs arbitrary: r)
  case Nil
  then show ?case by auto
next
  case (Cons c cs)
  show ?case
  proof (cases "sn_parse_url net (sc_url c) \<and> (\<exists>raw u. sn_sign net key (sc_url c) tx = Inr raw \<and> sn_client net (sc_url c) = Inr u)")
    case False
    with Cons.prems have "sb_sent r' = sb_sent r" "\<exists>e. res = Inl e" by (auto split: if_splits sum.splits)
    then show ?thesis by (intro exI [where x = "[]"] exI [where x = 0]) simp
  next
    case True
    then obtain raw u where ok: "sn_parse_url net (sc_url c)" "sn_sign net key (sc_url c) tx = Inr raw" "sn_client net (sc_url c) = Inr u"
      by blast
    show ?thesis
    proof (cases "sn_send net (length (sb_sent r)) c raw")
      case (Inr h)
      with Cons.prems ok have "sb_sent r' = sb_sent r @ [(c, raw)]" "res = Inr \<lparr>sr_tx_hash = h, sr_channel = sc_name c\<rparr>" by auto
      with Inr ok show ?thesis by (intro exI [where x = "[(c, raw)]"] exI [where x = 1]) simp
    next
      case (Inl e)
      define r1 where "r1 = r\<lparr>sb_sent := sb_sent r @ [(c, raw)], sb_stats := bump_failure (sc_name c) (sb_stats r)\<rparr>"
      have s: "sb_sent r1 = sb_sent r @ [(c, raw)]" by (simp add: r1_def)
      from Cons.prems ok Inl have "try_channels net key tx cs r1 = (r', res)" by (simp add: r1_def)
      from Cons.IH [OF this] obtain tried n where "sb_sent r' = sb_sent r1 @ tried" "map fst tried = take n cs"
        "list_all (\<lambda>(c, raw). sn_sign net key (sc_url c) tx = Inr raw) tried" "sends_end net (length (sb_sent r1)) tried res" by blast
      with s ok Inl show ?thesis by (intro exI [where x = "(c, raw) # tried"] exI [where x = "Suc n"]) simp
    qed
  qed
qed

text \<open>C16: what \<open>submit\<close> sends is one transaction, the plan's calldata, nonce, gas limit and fees to the executor contract,
  along the channels in their order until the first that accepts it, whose name and hash are reported. Without
  \<open>allow_public_fallback\<close> it goes to the protected endpoint only, with the private method.\<close>

theorem submission_channels:
  assumes "submit s net plan stats = (r, res)"
  shows "list_all (\<lambda>(c, raw). attempt_ok s c \<and> (\<exists>key executor. ct_executor_address (st_contracts s) = Some executor \<and>
       sn_sign net key (sc_url c) (request_of s executor plan) = Inr raw)) (sb_sent r)
    \<and> (\<exists>n. map fst (sb_sent r) = take n (channels s)) \<and> sends_end net 0 (sb_sent r) res"
proof (cases "\<exists>executor pk key. ct_executor_address (st_contracts s) = Some executor \<and> st_operator_private_key s = Some pk \<and>
    sn_parse_key net pk = Some key")
  case False
  then have "sb_sent r = [] \<and> (\<exists>e. res = Inl e)" using assms by (auto simp: submit_def Let_def split: option.splits)
  then show ?thesis by (auto intro: exI [where x = 0])
next
  case True
  then obtain executor pk key where e: "ct_executor_address (st_contracts s) = Some executor"
    and "st_operator_private_key s = Some pk" "sn_parse_key net pk = Some key" by blast
  with assms have "try_channels net key (request_of s executor plan) (channels s) \<lparr>sb_stats = stats, sb_sent = []\<rparr> = (r, res)"
    by (simp add: submit_def)
  from try_channels_sent [OF this] obtain n where t: "map fst (sb_sent r) = take n (channels s)"
    "list_all (\<lambda>(c, raw). sn_sign net key (sc_url c) (request_of s executor plan) = Inr raw) (sb_sent r)" "sends_end net 0 (sb_sent r) res"
    by auto
  have "attempt_ok s c" if "(c, raw) \<in> set (sb_sent r)" for c raw
  proof -
    have "c \<in> set (map fst (sb_sent r))" using that by force
    then have "c \<in> set (channels s)" unfolding t(1) by (rule in_set_takeD)
    then show ?thesis using channels_ok by (simp add: list_all_iff)
  qed
  with t e show ?thesis by (fastforce simp: list_all_iff)
qed

section \<open>The wait ends\<close>

lemma receipt_poll_pos: "0 < receipt_poll env"
  unfolding receipt_poll_def env_u64_def by (auto simp: unwrap_or_def split: option.splits)

definition outcome_of :: "'e + bool option \<Rightarrow> 'e + receipt_outcome" where
  "outcome_of answer =
     (case answer of
        Inl e \<Rightarrow> Inl e
      | Inr (Some success) \<Rightarrow> Inr (if success then R_Included else R_Reverted)
      | Inr None \<Rightarrow> Inr R_TimedOut)"

lemma wait_from_last:
  assumes "status k \<noteq> Inr None \<or> receipt_timeout env \<le> so_far + took k"
  shows "wait_from env status took late k so_far = Some (k, so_far + took k, outcome_of (status k))"
  using assms by (subst wait_from.simps) (auto simp: outcome_of_def split: sum.splits option.splits)

lemma wait_from_next:
  assumes "status k = Inr None" and "so_far + took k < receipt_timeout env"
  shows "wait_from env status took late k so_far =
    wait_from env status took late (Suc k) (so_far + took k + (receipt_poll env + late k))"
  using assms by (subst wait_from.simps) simp

text \<open>The recursion is indexed by a bound on the requests still to come.\<close>

lemma wait_from_ends:
  "receipt_timeout env \<le> so_far + n * receipt_poll env \<Longrightarrow>
   so_far < receipt_timeout env + receipt_poll env + (if k = 0 then 0 else late (k - 1)) \<Longrightarrow>
   \<exists>j passed. wait_from env status took late k so_far = Some (j, passed, outcome_of (status j)) \<and> k \<le> j \<and> j \<le> k + n \<and>
      (\<forall>i. k \<le> i \<and> i < j \<longrightarrow> status i = Inr None) \<and>
      passed < receipt_timeout env + receipt_poll env + (if j = 0 then 0 else late (j - 1)) + took j \<and>
      (status j = Inr None \<longrightarrow> receipt_timeout env \<le> passed)"
proof (induction n arbitrary: k so_far)
  case 0
  then show ?case
    by (intro exI [where x = k] exI [where x = "so_far + took k"]) (auto simp: wait_from_last)
next
  case (Suc n)
  show ?case
  proof (cases "status k = Inr None \<and> so_far + took k < receipt_timeout env")
    case False
    then have "wait_from env status took late k so_far = Some (k, so_far + took k, outcome_of (status k))"
      by (intro wait_from_last) auto
    with Suc.prems(2) False show ?thesis
      by (intro exI [where x = k] exI [where x = "so_far + took k"]) auto
  next
    case True
    let ?next = "so_far + took k + (receipt_poll env + late k)"
    have "receipt_timeout env \<le> ?next + n * receipt_poll env" using Suc.prems(1) by simp
    moreover have "?next < receipt_timeout env + receipt_poll env + (if Suc k = 0 then 0 else late (Suc k - 1))" using True by simp
    ultimately obtain j passed where j: "wait_from env status took late (Suc k) ?next = Some (j, passed, outcome_of (status j))"
      "Suc k \<le> j" "j \<le> Suc k + n" "\<forall>i. Suc k \<le> i \<and> i < j \<longrightarrow> status i = Inr None"
      "passed < receipt_timeout env + receipt_poll env + (if j = 0 then 0 else late (j - 1)) + took j"
      "status j = Inr None \<longrightarrow> receipt_timeout env \<le> passed"
      using Suc.IH [of ?next "Suc k"] by blast
    have "status i = Inr None" if "k \<le> i" "i < j" for i
      using that j(4) True by (cases "i = k") auto
    with True j show ?thesis
      by (intro exI [where x = j] exI [where x = passed]) (auto simp: wait_from_next)
  qed
qed

text \<open>C17: the wait for a receipt ends whatever the node answers and however slow it is, after at most
  timeout / poll + 2 requests. It can outlast the timeout, by less than one poll interval, the lateness of one sleep and the
  duration of one request together. Its outcome is the answer of the last request, all earlier ones having found no receipt; it
  reports a timeout only when the last request found none either and the timeout is over.\<close>

theorem receipt_wait_ends:
  shows "\<exists>j passed. wait_from env status took late 0 0 = Some (j, passed, outcome_of (status j))
    \<and> wait_for_receipt env status took late = Some (outcome_of (status j))
    \<and> j \<le> receipt_timeout env div receipt_poll env + 1
    \<and> passed < receipt_timeout env + receipt_poll env + (if j = 0 then 0 else late (j - 1)) + took j
    \<and> (\<forall>i. i < j \<longrightarrow> status i = Inr None)
    \<and> (status j = Inr None \<longrightarrow> receipt_timeout env \<le> passed)"
proof -
  let ?n = "receipt_timeout env div receipt_poll env + 1"
  have "receipt_timeout env < ?n * receipt_poll env"
    using receipt_poll_pos [of env] by (metis Suc_eq_plus1 dividend_less_div_times mult_Suc add.commute)
  then have a: "receipt_timeout env \<le> 0 + ?n * receipt_poll env" by simp
  have b: "0 < receipt_timeout env + receipt_poll env + (if (0 :: nat) = 0 then 0 else late (0 - 1))"
    using receipt_poll_pos [of env] by simp
  from wait_from_ends [where status = status and took = took and late = late and k = 0 and so_far = 0 and n = ?n, OF a b] obtain j passed where
    "wait_from env status took late 0 0 = Some (j, passed, outcome_of (status j))" and "j \<le> ?n"
    and "\<forall>i. 0 \<le> i \<and> i < j \<longrightarrow> status i = Inr None"
    and "passed < receipt_timeout env + receipt_poll env + (if j = 0 then 0 else late (j - 1)) + took j"
    and "status j = Inr None \<longrightarrow> receipt_timeout env \<le> passed"
    by (elim exE conjE) simp
  then show ?thesis by (intro exI [where x = j] exI [where x = passed]) (simp add: wait_for_receipt_def)
qed

text \<open>Requests that take seven seconds, and a receipt that is there at the third.\<close>

theorem receipt_wait_ends_witness:
  "wait_for_receipt (\<lambda>_. None) (\<lambda>k. if k = 2 then Inr (Some True) else Inr None :: unit + bool option) (\<lambda>_. 7000000000) (\<lambda>_. 0)
     = Some (Inr R_Included)"
proof -
  let ?status = "\<lambda>k::nat. if k = 2 then Inr (Some True) else Inr None :: unit + bool option"
  have p: "receipt_poll (\<lambda>_. None) = 1000000000" and t: "receipt_timeout (\<lambda>_. None) = 120000000000"
    by (simp_all add: receipt_poll_def receipt_timeout_def env_u64_def filter_opt_def)
  from receipt_wait_ends [of "\<lambda>_. None" ?status "\<lambda>_. 7000000000" "\<lambda>_. 0"]
  obtain j passed where w: "wait_from (\<lambda>_. None) ?status (\<lambda>_. 7000000000) (\<lambda>_. 0) 0 0 = Some (j, passed, outcome_of (?status j))"
    "wait_for_receipt (\<lambda>_. None) ?status (\<lambda>_. 7000000000) (\<lambda>_. 0) = Some (outcome_of (?status j))" by blast
  then have "j = 2" by (simp add: wait_from.simps t p)
  with w(2) show ?thesis by (simp add: outcome_of_def)
qed

definition demo_submit_net :: "bool \<Rightarrow> unit submit_net" where
  "demo_submit_net up =
     \<lparr>sn_parse_key = (\<lambda>t. Some ()), sn_parse_url = (\<lambda>u. True), sn_sign = (\<lambda>k u tx. Inr ''0xf8''), sn_client = (\<lambda>u. Inr ()),
      sn_send = (\<lambda>k c raw. if up then Inr 7 else Inl ''refused'')\<rparr>"

definition demo_private :: "settings \<Rightarrow> settings" where
  "demo_private s =
     s\<lparr>st_rpc := (st_rpc s)\<lparr>rp_protected_rpc_url := Some ''http://protected''\<rparr>,
       st_execution := (st_execution s)\<lparr>xs_allow_public_fallback := False\<rparr>,
       st_contracts := (st_contracts s)\<lparr>ct_executor_address := Some 5\<rparr>, st_operator_private_key := Some ''key''\<rparr>"

theorem submission_channels_witness:
  "\<forall>s plan. \<exists>r res. submit (demo_private s) (demo_submit_net False) plan Map.empty = (r, res) \<and> length (sb_sent r) = 1 \<and>
     list_all (\<lambda>(c, raw). sc_url c = ''http://protected'') (sb_sent r)"
proof (intro allI)
  fix s plan
  obtain r res where e: "submit (demo_private s) (demo_submit_net False) plan Map.empty = (r, res)" by force
  have f: "\<not> xs_allow_public_fallback (st_execution (demo_private s))" "rp_protected_rpc_url (st_rpc (demo_private s)) = Some ''http://protected''"
    by (simp_all add: demo_private_def)
  have "list_all (\<lambda>(c, raw). sc_url c = ''http://protected'') (sb_sent r)"
    using submission_channels [OF e] f by (auto simp: list_all_iff attempt_ok_def)
  moreover have "length (sb_sent r) = 1"
    using e by (auto simp: submit_def demo_private_def channels_def demo_submit_net_def)
  ultimately show "\<exists>r res. submit (demo_private s) (demo_submit_net False) plan Map.empty = (r, res) \<and> length (sb_sent r) = 1 \<and>
     list_all (\<lambda>(c, raw). sc_url c = ''http://protected'') (sb_sent r)"
    using e by blast
qed

end
