(* ===== verification/Engine_Rank.thy ===== *)
theory Engine_Rank
  imports Router Detector Settlement Validator "HOL-Library.AList" "HOL-Library.Signed_Division"
begin

text \<open>
  The parts of \<open>src/engine.rs\<close> that choose what to work on: the prerequisites of a run, the edges of the first refresh,
  the order in which routes are verified with its limits, and the statistics of a refresh. The iteration order of hash
  maps is an argument; counters of type \<open>usize\<close> are \<open>nat\<close>, the saturating ones cut at \<open>2 ^ 64 - 1\<close>.
\<close>

section \<open>Prerequisites\<close>

definition validate_runtime_prerequisites :: "settings \<Rightarrow> bool \<Rightarrow> string + unit" where
  "validate_runtime_prerequisites s simulate_only =
     (if st_operator_private_key s = None then Inl ''OPERATOR_PRIVATE_KEY is required''
      else if ct_executor_address (st_contracts s) = None then Inl ''chain executor address env is required''
      else if st_tokens s = [] then Inl ''at least one configured token address is required''
      else if \<not> list_ex dc_enabled (st_dexes s) then Inl ''at least one enabled DEX is required''
      else if \<not> simulate_only \<and> \<not> xs_allow_public_fallback (st_execution s) \<and> rp_protected_rpc_url (st_rpc s) = None
        then Inl ''live trading with ALLOW_PUBLIC_FALLBACK=false requires a protected/private RPC URL''
      else if 1000000 < rk_stable_depeg_cutoff_e6 (st_risk s) then Inl ''STABLE_DEPEG_CUTOFF_E6 cannot exceed 1000000''
      else Inr ())"

section \<open>The edges of the first refresh\<close>

record initial_edge =
  ie_edge_ref :: edge_ref
  ie_priority :: u8
  ie_capacity_usd_e8 :: u128
  ie_capacity_raw :: u128
  ie_confidence_bps :: u16
  ie_weight_log_q32 :: i64
  ie_pool_id :: address

definition initial_priority :: "token_info \<Rightarrow> token_info \<Rightarrow> u8" where
  "initial_priority from to =
     (if t_is_cycle_anchor from \<or> t_is_cycle_anchor to then 0
      else if t_manual_price_usd_e8 from \<noteq> None \<and> t_manual_price_usd_e8 to \<noteq> None then 1
      else if t_manual_price_usd_e8 from \<noteq> None \<or> t_manual_price_usd_e8 to \<noteq> None then 2
      else 3)"

definition initial_edge_from :: "graph_snapshot \<Rightarrow> edge_ref \<Rightarrow> edge \<Rightarrow> initial_edge" where
  "initial_edge_from g r e =
     (let from = gs_tokens g ! e_from e; to = gs_tokens g ! e_to e;
          usd = unwrap_or (amount_to_usd_e8 (e_capacity e) from) 0
      in \<lparr>ie_edge_ref = r, ie_priority = initial_priority from to,
          ie_capacity_usd_e8 = max usd (ucast (l_estimated_usd_e8 (e_liquidity e))), ie_capacity_raw = e_capacity e,
          ie_confidence_bps = h_confidence_bps (e_pool_health e), ie_weight_log_q32 = e_weight_log_q32 e,
          ie_pool_id = e_pool_id e\<rparr>)"

definition compare_initial_edge :: "initial_edge \<Rightarrow> initial_edge \<Rightarrow> ordering" where
  "compare_initial_edge a b =
     then_with (cmp (ie_priority a) (ie_priority b))
     (then_with (cmp (ie_capacity_usd_e8 b) (ie_capacity_usd_e8 a))
     (then_with (cmp (ie_confidence_bps b) (ie_confidence_bps a))
     (then_with (cmp (ie_weight_log_q32 a) (ie_weight_log_q32 b))
     (then_with (cmp (ie_capacity_raw b) (ie_capacity_raw a)) (cmp (ie_pool_id a) (ie_pool_id b))))))"

text \<open>Every edge with its reference, in the order of the two loops.\<close>

definition all_edges :: "graph_snapshot \<Rightarrow> (edge_ref \<times> edge) list" where
  "all_edges g =
     concat (map (\<lambda>(from, es). map (\<lambda>(i, e). (\<lparr>er_from = from, er_edge_idx = i\<rparr>, e)) (enumerate 0 es))
       (enumerate 0 (gs_adjacency g)))"

definition target_initial_pool_ids :: "env \<Rightarrow> (string \<Rightarrow> address option) \<Rightarrow> address set" where
  "target_initial_pool_ids env parse_addr =
     (case env ''INITIAL_REFRESH_POOL_IDS'' of None \<Rightarrow> {}
      | Some v \<Rightarrow> set (List.map_filter (\<lambda>part. parse_addr (trim part)) (split_char (CHR '','') v)))"

definition initial_eligible :: "address set \<Rightarrow> distance_cache \<Rightarrow> edge_ref \<times> edge \<Rightarrow> bool" where
  "initial_eligible targets dc re =
     (case re of (r, e) \<Rightarrow>
        unwrap_or (nth_opt (dcache_reachable_from_anchor dc) (er_from r)) False \<and>
        (targets = {} \<or> e_pool_id e \<in> targets) \<and>
        unwrap_or (nth_opt (dcache_reachable_to_anchor dc) (e_to e)) False \<and>
        \<not> (e_spot_rate_q128 e = 0 \<or> e_capacity e = 0))"

text \<open>The best edge of every pair of tokens.\<close>

definition keep_best :: "('a \<Rightarrow> 'a \<Rightarrow> ordering) \<Rightarrow> 'k \<times> 'a \<Rightarrow> ('k \<times> 'a) list \<Rightarrow> ('k \<times> 'a) list" where
  "keep_best c entry m =
     (case map_of m (fst entry) of
        None \<Rightarrow> AList.update (fst entry) (snd entry) m
      | Some current \<Rightarrow> if c (snd entry) current = Less then AList.update (fst entry) (snd entry) m else m)"

definition initial_entry :: "graph_snapshot \<Rightarrow> edge_ref \<times> edge \<Rightarrow> (nat \<times> nat) \<times> initial_edge" where
  "initial_entry g re = (case re of (r, e) \<Rightarrow> ((e_from e, e_to e), initial_edge_from g r e))"

definition initial_refresh_max_edges :: "env \<Rightarrow> nat option" where
  "initial_refresh_max_edges env =
     (case Option.bind (env ''INITIAL_REFRESH_MAX_EDGES'') parse_usize of
        Some n \<Rightarrow> if n = 0 then None else Some n
      | None \<Rightarrow> None)"

definition best_by_pair :: "env \<Rightarrow> (string \<Rightarrow> address option) \<Rightarrow> graph_snapshot \<Rightarrow> distance_cache \<Rightarrow> ((nat \<times> nat) \<times> initial_edge) list" where
  "best_by_pair env parse_addr g dc =
     fold (keep_best compare_initial_edge)
       (map (initial_entry g) (filter (initial_eligible (target_initial_pool_ids env parse_addr) dc) (all_edges g))) []"

definition ranked_initial_edges ::
  "env \<Rightarrow> (string \<Rightarrow> address option) \<Rightarrow> (initial_edge list \<Rightarrow> initial_edge list) \<Rightarrow> graph_snapshot \<Rightarrow> distance_cache \<Rightarrow> initial_edge list" where
  "ranked_initial_edges env parse_addr order g dc =
     (let refs = sort_by compare_initial_edge (order (map snd (best_by_pair env parse_addr g dc)))
      in case initial_refresh_max_edges env of Some n \<Rightarrow> take n refs | None \<Rightarrow> refs)"

definition initial_edge_refs ::
  "env \<Rightarrow> (string \<Rightarrow> address option) \<Rightarrow> (initial_edge list \<Rightarrow> initial_edge list) \<Rightarrow> graph_snapshot \<Rightarrow> distance_cache \<Rightarrow> edge_ref list" where
  "initial_edge_refs env parse_addr order g dc = map ie_edge_ref (ranked_initial_edges env parse_addr order g dc)"

definition total_edge_count :: "graph_snapshot \<Rightarrow> nat" where
  "total_edge_count g = sum_list (map length (gs_adjacency g))"

section \<open>Ranking\<close>

record routed_candidate =
  rc_candidate :: candidate_path
  rc_plan :: exact_plan
  rc_stats :: search_stats
  rc_router_ms :: u128
  rc_started :: instant
  rc_estimate :: i128

definition estimate_prerank_gas_cost :: "env \<Rightarrow> graph_snapshot \<Rightarrow> settings \<Rightarrow> exact_plan \<Rightarrow> i128 option" where
  "estimate_prerank_gas_cost env g s plan =
     Option.bind (find (\<lambda>t. eq_ignore_ascii_case (t_symbol t) (wrapped_native_symbol (st_chain s))) (gs_tokens g)) (\<lambda>native.
     Option.bind (t_manual_price_usd_e8 native) (\<lambda>native_price.
       let gas_price = env_u128 env ''PRE_RANK_GAS_PRICE_WEI'' (rk_gas_price_ceiling_wei (st_risk s));
           gas_limit = sat_add (xp_gas_limit plan) (word_of_nat (env_usize_any env ''PRE_RANK_FLASH_GAS_OVERHEAD'' 180000));
           gas_cost_wei = sat_mul (u256_of gas_price) (ucast gas_limit)
       in Option.bind (native_gas_to_usd_e8 gas_cost_wei native_price (t_decimals native)) i128_of_u128))"

definition estimate_prerank_net_profit :: "env \<Rightarrow> graph_snapshot \<Rightarrow> settings \<Rightarrow> exact_plan \<Rightarrow> i128" where
  "estimate_prerank_net_profit env g s plan =
     (case find (\<lambda>t. t_address t = xp_input_token plan) (gs_tokens g) of None \<Rightarrow> i128_min
      | Some token \<Rightarrow>
     (case amount_to_usd_e8 (unsigned_abs (xp_gross_profit_raw plan)) token of None \<Rightarrow> i128_min
      | Some gross_abs \<Rightarrow>
        let gross_abs = unwrap_or (i128_of_u128 gross_abs) i128_max;
            gross = (if 0 \<le> xp_gross_profit_raw plan then gross_abs else - gross_abs);
            flash_fee = unwrap_or (Option.bind (amount_to_usd_e8 (xp_flash_fee_raw plan) token) i128_of_u128) i128_max;
            gas_cost = unwrap_or (estimate_prerank_gas_cost env g s plan) i128_max
        in clamp_i128 (clamp_i128 (gross - flash_fee) - gas_cost)))"

definition compare_routed :: "routed_candidate \<Rightarrow> routed_candidate \<Rightarrow> ordering" where
  "compare_routed a b =
     then_with (cmp (rc_estimate b) (rc_estimate a))
     (then_with (cmp (xp_expected_profit (rc_plan b)) (xp_expected_profit (rc_plan a)))
       (cmp (length (cp_path (rc_candidate a))) (length (cp_path (rc_candidate b)))))"

definition rank_routes :: "env \<Rightarrow> graph_snapshot \<Rightarrow> settings \<Rightarrow> routed_candidate list \<Rightarrow> routed_candidate list" where
  "rank_routes env g s routed =
     sort_by compare_routed (map (\<lambda>r. r\<lparr>rc_estimate := estimate_prerank_net_profit env g s (rc_plan r)\<rparr>) routed)"

definition clamp_nat :: "nat \<Rightarrow> nat \<Rightarrow> nat \<Rightarrow> nat" where
  "clamp_nat lo hi n = max lo (min hi n)"

definition candidate_processing_concurrency :: "env \<Rightarrow> bool \<Rightarrow> nat" where
  "candidate_processing_concurrency env simulate_only =
     (if \<not> simulate_only then 1 else clamp_nat 1 64 (env_usize_any env ''ROUTE_CANDIDATE_CONCURRENCY'' 16))"

definition route_validation_top_k :: "env \<Rightarrow> nat" where
  "route_validation_top_k env = clamp_nat 1 256 (env_usize_any env ''ROUTE_VALIDATION_TOP_K'' 16)"

definition usize_max :: nat where "usize_max = 2 ^ 64 - 1"

definition route_verify_scan_limit :: "env \<Rightarrow> nat \<Rightarrow> nat \<Rightarrow> nat" where
  "route_verify_scan_limit env validation_top_k routed_count =
     (if routed_count = 0 then 0
      else
        let multiplier = max (env_usize_any env ''ROUTE_VERIFY_SCAN_MULTIPLIER'' 4) 1;
            default_limit = min (validation_top_k * multiplier) usize_max;
            hard_limit = max (env_usize_any env ''ROUTE_VERIFY_SCAN_LIMIT'' default_limit) validation_top_k
        in min (max (min default_limit hard_limit) validation_top_k) routed_count)"

definition should_verify_ranked_route :: "env \<Rightarrow> exact_plan \<Rightarrow> bool" where
  "should_verify_ranked_route env plan \<longleftrightarrow>
     (if \<not> env_bool env ''VERIFY_RANKED_ROUTE_BEFORE_VALIDATION'' True then False
      else if env_bool env ''VERIFY_RANKED_ROUTE_ALL_ADAPTERS'' False then True
      else list_ex (\<lambda>h. list_ex (\<lambda>sp. sp_adapter_type sp \<in> {A_UniswapV3Like, A_TraderJoeLb}) (hp_splits h)) (xp_hops plan))"

section \<open>Statistics\<close>

definition usize_add :: "nat \<Rightarrow> nat \<Rightarrow> nat" where "usize_add a b = min (a + b) usize_max"

text \<open>Of two smallest amounts, 0 stands for none.\<close>

definition merge_min :: "u128 \<Rightarrow> u128 \<Rightarrow> u128" where
  "merge_min a b = (if a = 0 then b else if b = 0 then a else min a b)"

definition merge_route_search_stats :: "search_stats \<Rightarrow> search_stats \<Rightarrow> search_stats" where
  "merge_route_search_stats l r =
     \<lparr>ss_amount_range_missing = (ss_amount_range_missing l \<or> ss_amount_range_missing r),
      ss_evaluated_amounts = usize_add (ss_evaluated_amounts l) (ss_evaluated_amounts r),
      ss_no_output_quotes = usize_add (ss_no_output_quotes l) (ss_no_output_quotes r),
      ss_no_output_hop0 = usize_add (ss_no_output_hop0 l) (ss_no_output_hop0 r),
      ss_no_output_hop1 = usize_add (ss_no_output_hop1 l) (ss_no_output_hop1 r),
      ss_no_output_hop2 = usize_add (ss_no_output_hop2 l) (ss_no_output_hop2 r),
      ss_no_output_hop3_plus = usize_add (ss_no_output_hop3_plus l) (ss_no_output_hop3_plus r),
      ss_no_output_v2 = usize_add (ss_no_output_v2 l) (ss_no_output_v2 r),
      ss_no_output_aerodrome_v2 = usize_add (ss_no_output_aerodrome_v2 l) (ss_no_output_aerodrome_v2 r),
      ss_no_output_v3 = usize_add (ss_no_output_v3 l) (ss_no_output_v3 r),
      ss_no_output_curve = usize_add (ss_no_output_curve l) (ss_no_output_curve r),
      ss_no_output_balancer = usize_add (ss_no_output_balancer l) (ss_no_output_balancer r),
      ss_gross_nonpositive = usize_add (ss_gross_nonpositive l) (ss_gross_nonpositive r),
      ss_flash_fee_nonpositive = usize_add (ss_flash_fee_nonpositive l) (ss_flash_fee_nonpositive r),
      ss_profitable_plans = usize_add (ss_profitable_plans l) (ss_profitable_plans r),
      ss_fast_sizer_points = usize_add (ss_fast_sizer_points l) (ss_fast_sizer_points r),
      ss_used_fast_sizer = (ss_used_fast_sizer l \<or> ss_used_fast_sizer r),
      ss_used_wide_fallback = (ss_used_wide_fallback l \<or> ss_used_wide_fallback r),
      ss_min_amount = merge_min (ss_min_amount l) (ss_min_amount r),
      ss_max_amount = max (ss_max_amount l) (ss_max_amount r),
      ss_first_no_output_hop = (if ss_first_no_output_hop l = None then ss_first_no_output_hop r else ss_first_no_output_hop l),
      ss_first_no_output_pool = (if ss_first_no_output_hop l = None then ss_first_no_output_pool r else ss_first_no_output_pool l),
      ss_first_no_output_amount_in =
        (if ss_first_no_output_hop l = None then ss_first_no_output_amount_in r else ss_first_no_output_amount_in l)\<rparr>"

record process_result =
  cr_verdict :: candidate_verdict
  cr_submission :: "submission_result option"
  cr_exact :: "exact_plan option"
  cr_stats :: search_stats
  cr_router_ms :: u128
  cr_validator_ms :: u128
  cr_total_ms :: u128
  cr_router_timed_out :: bool

text \<open>The ratio in basis points. Rust divides toward zero; its only overflowing quotient, the least value by \<open>-1\<close>, which
  would need a value of \<open>2 ^ 128 - 1\<close> in the divisor, panics there.\<close>

definition ratio_bps :: "i128 \<Rightarrow> u128 \<Rightarrow> i64" where
  "ratio_bps numerator denominator =
     (if denominator = 0 then 0 else i128_to_i64_saturating (clamp_i128 (numerator * 10000) sdiv as_i128 denominator))"

record best_profit =
  bp_net_profit_usd_e8 :: i128
  bp_gross_profit_usd_e8 :: i128
  bp_gas_cost_usd_e8 :: i128
  bp_gas_l2_execution_cost_wei :: u256
  bp_gas_l1_data_fee_wei :: u256
  bp_gas_total_cost_wei :: u256
  bp_actual_flash_fee_usd_e8 :: i128
  bp_input_value_usd_e8 :: u128
  bp_flash_loan_value_usd_e8 :: u128
  bp_profit_margin_bps :: i64
  bp_gas_to_gross_bps :: i64
  bp_path_len :: nat
  bp_capital_source :: capital_source

definition best_profit_of :: "exact_plan \<Rightarrow> best_profit" where
  "best_profit_of p =
     \<lparr>bp_net_profit_usd_e8 = xp_net_profit_usd_e8 p, bp_gross_profit_usd_e8 = xp_gross_profit_usd_e8 p,
      bp_gas_cost_usd_e8 = xp_gas_cost_usd_e8 p, bp_gas_l2_execution_cost_wei = xp_gas_l2_execution_cost_wei p,
      bp_gas_l1_data_fee_wei = xp_gas_l1_data_fee_wei p, bp_gas_total_cost_wei = xp_gas_cost_wei p,
      bp_actual_flash_fee_usd_e8 = xp_actual_flash_fee_usd_e8 p, bp_input_value_usd_e8 = xp_input_value_usd_e8 p,
      bp_flash_loan_value_usd_e8 = xp_flash_loan_value_usd_e8 p,
      bp_profit_margin_bps = ratio_bps (xp_net_profit_usd_e8 p) (xp_input_value_usd_e8 p),
      bp_gas_to_gross_bps = ratio_bps (xp_gas_cost_usd_e8 p) (as_u128 (max (xp_gross_profit_usd_e8 p) 0)),
      bp_path_len = length (xp_hops p), bp_capital_source = xp_capital_source p\<rparr>"

record refresh_stats =
  pr_candidate_count :: nat
  pr_no_route :: nat
  pr_validation_rejected :: nat
  pr_depeg_rejected :: nat
  pr_risk_rejected :: nat
  pr_simulated :: nat
  pr_submitted :: nat
  pr_submission_rejected :: nat
  pr_total_router_ms :: u128
  pr_total_validator_ms :: u128
  pr_total_candidate_ms :: u128
  pr_max_candidate_ms :: u128
  pr_router_timeouts :: nat
  pr_route :: search_stats
  pr_amount_range_missing :: nat
  pr_used_fast_sizer :: nat
  pr_used_wide_fallback :: nat
  pr_route_rank_skipped :: nat
  pr_best :: "best_profit option"

definition refresh_stats_new :: "nat \<Rightarrow> refresh_stats" where
  "refresh_stats_new candidate_count =
     \<lparr>pr_candidate_count = candidate_count, pr_no_route = 0, pr_validation_rejected = 0, pr_depeg_rejected = 0,
      pr_risk_rejected = 0, pr_simulated = 0, pr_submitted = 0, pr_submission_rejected = 0, pr_total_router_ms = 0,
      pr_total_validator_ms = 0, pr_total_candidate_ms = 0, pr_max_candidate_ms = 0, pr_router_timeouts = 0,
      pr_route = search_stats_default, pr_amount_range_missing = 0, pr_used_fast_sizer = 0, pr_used_wide_fallback = 0,
      pr_route_rank_skipped = 0, pr_best = None\<rparr>"

fun count_verdict :: "candidate_verdict \<Rightarrow> refresh_stats \<Rightarrow> refresh_stats" where
  "count_verdict V_NoRoute st = st\<lparr>pr_no_route := pr_no_route st + 1\<rparr>"
| "count_verdict V_ValidationRejected st = st\<lparr>pr_validation_rejected := pr_validation_rejected st + 1\<rparr>"
| "count_verdict V_DepegRejected st = st\<lparr>pr_depeg_rejected := pr_depeg_rejected st + 1\<rparr>"
| "count_verdict V_RiskRejected st = st\<lparr>pr_risk_rejected := pr_risk_rejected st + 1\<rparr>"
| "count_verdict V_Simulated st = st\<lparr>pr_simulated := pr_simulated st + 1\<rparr>"
| "count_verdict V_Submitted st = st\<lparr>pr_submitted := pr_submitted st + 1\<rparr>"
| "count_verdict V_SubmissionRejected st = st\<lparr>pr_submission_rejected := pr_submission_rejected st + 1\<rparr>"

definition record_best :: "exact_plan \<Rightarrow> best_profit option \<Rightarrow> best_profit option" where
  "record_best p best =
     (if unwrap_or (map_option (\<lambda>b. bp_net_profit_usd_e8 b < xp_net_profit_usd_e8 p) best) True
      then Some (best_profit_of p) else best)"

definition count_times :: "process_result \<Rightarrow> refresh_stats \<Rightarrow> refresh_stats" where
  "count_times r st =
     st\<lparr>pr_total_router_ms := sat_add (pr_total_router_ms st) (cr_router_ms r),
        pr_total_validator_ms := sat_add (pr_total_validator_ms st) (cr_validator_ms r),
        pr_total_candidate_ms := sat_add (pr_total_candidate_ms st) (cr_total_ms r),
        pr_max_candidate_ms := max (pr_max_candidate_ms st) (cr_total_ms r),
        pr_router_timeouts := pr_router_timeouts st + of_bool (cr_router_timed_out r)\<rparr>"

text \<open>The counters of the search are summed like those of two searches; the three flags are counted, and the amounts and
  the first pool without output are not kept.\<close>

definition add_search_counts :: "search_stats \<Rightarrow> search_stats \<Rightarrow> search_stats" where
  "add_search_counts route st =
     (merge_route_search_stats st route)
       \<lparr>ss_amount_range_missing := False, ss_used_fast_sizer := False, ss_used_wide_fallback := False,
        ss_min_amount := 0, ss_max_amount := 0, ss_first_no_output_hop := None, ss_first_no_output_pool := None,
        ss_first_no_output_amount_in := 0\<rparr>"

definition count_route :: "search_stats \<Rightarrow> refresh_stats \<Rightarrow> refresh_stats" where
  "count_route route st =
     st\<lparr>pr_route := add_search_counts route (pr_route st),
        pr_amount_range_missing := pr_amount_range_missing st + of_bool (ss_amount_range_missing route),
        pr_used_fast_sizer := pr_used_fast_sizer st + of_bool (ss_used_fast_sizer route),
        pr_used_wide_fallback := pr_used_wide_fallback st + of_bool (ss_used_wide_fallback route)\<rparr>"

definition record_result :: "process_result \<Rightarrow> refresh_stats \<Rightarrow> refresh_stats" where
  "record_result r st =
     (let st = count_route (cr_stats r) (count_times r (count_verdict (cr_verdict r) st))
      in case cr_exact r of
           Some p \<Rightarrow> if cr_verdict r \<in> {V_Simulated, V_Submitted} then st\<lparr>pr_best := record_best p (pr_best st)\<rparr> else st
         | None \<Rightarrow> st)"

definition avg_ms :: "u128 \<Rightarrow> nat \<Rightarrow> u128" where
  "avg_ms total_ms n = (if n = 0 then 0 else total_ms div word_of_nat n)"

section \<open>The first edges\<close>

lemma initial_preorder: "total_preorder compare_initial_edge"
  unfolding compare_initial_edge_def [abs_def] by (intro preorder_then preorder_key preorder_key_rev)

lemma keep_best_get:
  "map_of (keep_best c (k, v) m) j =
     (if j = k then (case map_of m k of None \<Rightarrow> Some v | Some w \<Rightarrow> Some (if c v w = Less then v else w)) else map_of m j)"
  by (simp add: keep_best_def update_conv' split: option.split)

lemma keep_best_keys: "distinct (map fst m) \<Longrightarrow> distinct (map fst (keep_best c x m))"
  by (simp add: keep_best_def distinct_update split: option.split)

lemma fold_keep_best_keys: "distinct (map fst m) \<Longrightarrow> distinct (map fst (fold (keep_best c) xs m))"
  by (induction xs arbitrary: m) (simp_all add: keep_best_keys)

lemma fold_keep_best:
  assumes "total_preorder c"
  shows "map_of (fold (keep_best c) xs []) k = Some v \<Longrightarrow> (k, v) \<in> set xs \<and> (\<forall>w. (k, w) \<in> set xs \<longrightarrow> c v w \<noteq> Greater)"
    "map_of (fold (keep_best c) xs []) k = None \<longleftrightarrow> k \<notin> fst ` set xs"
proof (induction xs arbitrary: k v rule: rev_induct)
  case (snoc x xs)
  obtain j u where x: "x = (j, u)" by (cases x)
  let ?m = "fold (keep_best c) xs []"
  have m: "fold (keep_best c) (xs @ [x]) [] = keep_best c (j, u) ?m" by (simp add: x)
  { case 1
    show ?case
    proof (cases "k = j")
      case False
      with 1 snoc(1) [of k v] show ?thesis unfolding m by (simp add: keep_best_get x)
    next
      case True
      show ?thesis
      proof (cases "map_of ?m j")
        case None
        then have "j \<notin> fst ` set xs" using snoc(2) by simp
        with 1 None True show ?thesis unfolding m
          by (auto simp: keep_best_get x total_preorder.refl [OF assms] intro: rev_image_eqI)
      next
        case (Some w)
        from snoc(1) [OF this] have w: "(j, w) \<in> set xs" "\<And>w'. (j, w') \<in> set xs \<Longrightarrow> c w w' \<noteq> Greater" by auto
        have v: "v = (if c u w = Less then u else w)" using 1 Some True unfolding m by (simp add: keep_best_get)
        show ?thesis
        proof (cases "c u w = Less")
          case less: True
          have "c u w' \<noteq> Greater" if "(j, w') \<in> set xs" for w'
            using total_preorder.trans [OF assms, of u w w'] w(2) [OF that] less by simp
          with less v True show ?thesis by (auto simp: x total_preorder.refl [OF assms])
        next
          case False
          then have "c w u \<noteq> Greater" using total_preorder.flip [OF assms, of u w] by (cases "c w u") auto
          with False v True w show ?thesis by (auto simp: x)
        qed
      qed
    qed
  next
    case 2
    show ?case unfolding m using snoc(2) [of k] snoc(2) [of j] by (auto simp: keep_best_get x split: option.split)
  }
qed simp_all

lemma all_edges_of: "(r, e) \<in> set (all_edges g) \<longleftrightarrow> edge_of g r = Some e"
proof -
  obtain i j where r: "r = \<lparr>er_from = i, er_edge_idx = j\<rparr>" by (cases r)
  show ?thesis
  proof
    assume "(r, e) \<in> set (all_edges g)"
    then show "edge_of g r = Some e"
      unfolding all_edges_def edge_of_at edge_at_Some by (auto simp: r in_set_enumerate_eq)
  next
    assume "edge_of g r = Some e"
    then have b: "i < length (gs_adjacency g)" "j < length (gs_adjacency g ! i)" "e = gs_adjacency g ! i ! j"
      unfolding edge_of_at edge_at_Some by (auto simp: r)
    have "(i, gs_adjacency g ! i) \<in> set (enumerate 0 (gs_adjacency g))" "(j, e) \<in> set (enumerate 0 (gs_adjacency g ! i))"
      using b by (simp_all add: in_set_enumerate_eq)
    then show "(r, e) \<in> set (all_edges g)" unfolding all_edges_def r by force
  qed
qed

definition eligible_edge :: "env \<Rightarrow> (string \<Rightarrow> address option) \<Rightarrow> graph_snapshot \<Rightarrow> distance_cache \<Rightarrow> edge_ref \<Rightarrow> edge \<Rightarrow> bool" where
  "eligible_edge env parse_addr g dc r e \<longleftrightarrow>
     edge_of g r = Some e \<and> initial_eligible (target_initial_pool_ids env parse_addr) dc (r, e)"

lemma initial_entries:
  "(k, x) \<in> set (map (initial_entry g) (filter (initial_eligible (target_initial_pool_ids env parse_addr) dc) (all_edges g))) \<longleftrightarrow>
   (\<exists>r e. eligible_edge env parse_addr g dc r e \<and> k = (e_from e, e_to e) \<and> x = initial_edge_from g r e)"
  unfolding eligible_edge_def initial_entry_def set_map set_filter image_iff by (fastforce simp: all_edges_of)

lemma best_by_pair_Some:
  assumes "(k, x) \<in> set (best_by_pair env parse_addr g dc)"
  shows "\<exists>r e. eligible_edge env parse_addr g dc r e \<and> k = (e_from e, e_to e) \<and> x = initial_edge_from g r e"
    "\<And>r e. eligible_edge env parse_addr g dc r e \<Longrightarrow> k = (e_from e, e_to e) \<Longrightarrow>
       compare_initial_edge x (initial_edge_from g r e) \<noteq> Greater"
proof -
  let ?es = "map (initial_entry g) (filter (initial_eligible (target_initial_pool_ids env parse_addr) dc) (all_edges g))"
  have "distinct (map fst (best_by_pair env parse_addr g dc))"
    unfolding best_by_pair_def by (rule fold_keep_best_keys) simp
  with assms have m: "map_of (fold (keep_best compare_initial_edge) ?es []) k = Some x"
    unfolding best_by_pair_def by simp
  note b = fold_keep_best(1) [OF initial_preorder m]
  from b show "\<exists>r e. eligible_edge env parse_addr g dc r e \<and> k = (e_from e, e_to e) \<and> x = initial_edge_from g r e"
    unfolding initial_entries by blast
  fix r e
  assume "eligible_edge env parse_addr g dc r e" "k = (e_from e, e_to e)"
  then have "(k, initial_edge_from g r e) \<in> set ?es" unfolding initial_entries by blast
  with b show "compare_initial_edge x (initial_edge_from g r e) \<noteq> Greater" by blast
qed

lemma best_by_pair_complete:
  assumes "eligible_edge env parse_addr g dc r e"
  shows "\<exists>x. ((e_from e, e_to e), x) \<in> set (best_by_pair env parse_addr g dc)"
proof -
  let ?es = "map (initial_entry g) (filter (initial_eligible (target_initial_pool_ids env parse_addr) dc) (all_edges g))"
  have "((e_from e, e_to e), initial_edge_from g r e) \<in> set ?es" unfolding initial_entries using assms by blast
  then have "(e_from e, e_to e) \<in> fst ` set ?es" by (rule rev_image_eqI) simp
  then have "map_of (fold (keep_best compare_initial_edge) ?es []) (e_from e, e_to e) \<noteq> None"
    unfolding fold_keep_best(2) [OF initial_preorder] by simp
  then show ?thesis unfolding best_by_pair_def by (meson map_of_SomeD not_None_eq)
qed

lemma ranked_initial_subset:
  assumes "\<And>xs. mset (order xs) = mset xs"
  shows "set (ranked_initial_edges env parse_addr order g dc) \<subseteq> snd ` set (best_by_pair env parse_addr g dc)"
    "initial_refresh_max_edges env = None \<Longrightarrow>
     set (ranked_initial_edges env parse_addr order g dc) = snd ` set (best_by_pair env parse_addr g dc)"
proof -
  have "set (order xs) = set xs" for xs using assms by (metis set_mset_mset)
  then show "set (ranked_initial_edges env parse_addr order g dc) \<subseteq> snd ` set (best_by_pair env parse_addr g dc)"
    "initial_refresh_max_edges env = None \<Longrightarrow>
     set (ranked_initial_edges env parse_addr order g dc) = snd ` set (best_by_pair env parse_addr g dc)"
    by (auto simp: ranked_initial_edges_def Let_def dest: in_set_takeD split: option.splits)
qed

lemma initial_edge_ref_from [simp]: "ie_edge_ref (initial_edge_from g r e) = r"
  by (simp add: initial_edge_from_def Let_def)

text \<open>C36: the edges of the first refresh: each is an eligible edge of the snapshot (its source reached from an anchor, its
  target reaching one, with a rate, a capacity and a wanted pool) and no eligible edge between the same two tokens ranks
  before it; they come in rank order; and without a limit every pair of tokens that has an eligible edge is there.\<close>

theorem initial_edges_chosen:
  assumes "\<And>xs. mset (order xs) = mset xs"
  shows "(\<forall>r\<in>set (initial_edge_refs env parse_addr order g dc). \<exists>e. eligible_edge env parse_addr g dc r e \<and>
      (\<forall>r' e'. eligible_edge env parse_addr g dc r' e' \<and> e_from e' = e_from e \<and> e_to e' = e_to e \<longrightarrow>
         compare_initial_edge (initial_edge_from g r e) (initial_edge_from g r' e') \<noteq> Greater)) \<and>
    sorted_wrt (\<lambda>a b. compare_initial_edge a b \<noteq> Greater) (ranked_initial_edges env parse_addr order g dc) \<and>
    (initial_refresh_max_edges env = None \<longrightarrow>
      (\<forall>r e. eligible_edge env parse_addr g dc r e \<longrightarrow>
        (\<exists>r'\<in>set (initial_edge_refs env parse_addr order g dc). \<exists>e'. edge_of g r' = Some e' \<and> e_from e' = e_from e \<and> e_to e' = e_to e)))"
proof (intro conjI ballI impI allI)
  fix r
  assume "r \<in> set (initial_edge_refs env parse_addr order g dc)"
  then obtain k x where r: "r = ie_edge_ref x" and x: "(k, x) \<in> set (best_by_pair env parse_addr g dc)"
    using ranked_initial_subset(1) [OF assms] unfolding initial_edge_refs_def by fastforce
  from best_by_pair_Some(1) [OF x] obtain r' e where e: "eligible_edge env parse_addr g dc r' e" "k = (e_from e, e_to e)"
    "x = initial_edge_from g r' e" by blast
  then have "r' = r" using r by simp
  with e best_by_pair_Some(2) [OF x]
  show "\<exists>e. eligible_edge env parse_addr g dc r e \<and>
      (\<forall>r' e'. eligible_edge env parse_addr g dc r' e' \<and> e_from e' = e_from e \<and> e_to e' = e_to e \<longrightarrow>
         compare_initial_edge (initial_edge_from g r e) (initial_edge_from g r' e') \<noteq> Greater)"
    by (intro exI [of _ e]) auto
next
  show "sorted_wrt (\<lambda>a b. compare_initial_edge a b \<noteq> Greater) (ranked_initial_edges env parse_addr order g dc)"
    using total_preorder.sorted_sort_by [OF initial_preorder]
    by (auto simp: ranked_initial_edges_def Let_def sorted_wrt_take split: option.split)
next
  fix r e
  assume n: "initial_refresh_max_edges env = None" and "eligible_edge env parse_addr g dc r e"
  from best_by_pair_complete [OF this(2)] obtain x where x: "((e_from e, e_to e), x) \<in> set (best_by_pair env parse_addr g dc)" by blast
  from best_by_pair_Some(1) [OF this] obtain r' e' where e': "eligible_edge env parse_addr g dc r' e'"
    "e_from e' = e_from e" "e_to e' = e_to e" "x = initial_edge_from g r' e'" by auto
  have "x \<in> set (ranked_initial_edges env parse_addr order g dc)"
    unfolding ranked_initial_subset(2) [OF assms n] using x by (rule rev_image_eqI) simp
  then have "r' \<in> set (initial_edge_refs env parse_addr order g dc)"
    unfolding initial_edge_refs_def using e'(4) by force
  with e' show "\<exists>r'\<in>set (initial_edge_refs env parse_addr order g dc). \<exists>e'. edge_of g r' = Some e' \<and> e_from e' = e_from e \<and> e_to e' = e_to e"
    by (auto simp: eligible_edge_def)
qed

section \<open>Ranks and limits\<close>

lemma routed_preorder: "total_preorder compare_routed"
  unfolding compare_routed_def [abs_def] by (intro preorder_then preorder_key preorder_key_rev)

text \<open>The routes that are scanned are at least as good by their estimates as the ones that are not.\<close>

lemma scanned_before_skipped:
  assumes "a \<in> set (take n (rank_routes env g s routed))" and "b \<in> set (drop n (rank_routes env g s routed))"
  shows "rc_estimate b \<le> rc_estimate a"
proof -
  have "compare_routed a b \<noteq> Greater"
    using total_preorder.take_before_drop [OF routed_preorder] assms unfolding rank_routes_def by blast
  then show ?thesis by (auto simp: compare_routed_def cmp_simps)
qed

lemma scan_limit_bounds:
  "min k n \<le> route_verify_scan_limit env k n" "route_verify_scan_limit env k n \<le> n"
proof -
  obtain x where "route_verify_scan_limit env k n = (if n = 0 then 0 else min (max x k) n)"
    unfolding route_verify_scan_limit_def Let_def by blast
  then show "min k n \<le> route_verify_scan_limit env k n" "route_verify_scan_limit env k n \<le> n" by auto
qed

lemma top_k_bounds: "1 \<le> route_validation_top_k env \<and> route_validation_top_k env \<le> 256"
  by (simp add: route_validation_top_k_def clamp_nat_def)

section \<open>Counting\<close>

definition verdict_total :: "refresh_stats \<Rightarrow> nat" where
  "verdict_total st = pr_no_route st + pr_validation_rejected st + pr_depeg_rejected st + pr_risk_rejected st +
     pr_simulated st + pr_submitted st + pr_submission_rejected st"

lemma count_verdict_sel:
  "verdict_total (count_verdict v st) = Suc (verdict_total st)" "pr_candidate_count (count_verdict v st) = pr_candidate_count st"
  "pr_route_rank_skipped (count_verdict v st) = pr_route_rank_skipped st" "pr_best (count_verdict v st) = pr_best st"
  by (cases v; simp add: verdict_total_def)+

lemma count_times_sel:
  "verdict_total (count_times r st) = verdict_total st" "pr_candidate_count (count_times r st) = pr_candidate_count st"
  "pr_route_rank_skipped (count_times r st) = pr_route_rank_skipped st" "pr_best (count_times r st) = pr_best st"
  by (simp_all add: verdict_total_def count_times_def)

lemma count_route_sel:
  "verdict_total (count_route route st) = verdict_total st" "pr_candidate_count (count_route route st) = pr_candidate_count st"
  "pr_route_rank_skipped (count_route route st) = pr_route_rank_skipped st" "pr_best (count_route route st) = pr_best st"
  by (simp_all add: verdict_total_def count_route_def)

lemma set_best_sel:
  "verdict_total (st\<lparr>pr_best := b\<rparr>) = verdict_total st"
  by (simp add: verdict_total_def)

lemmas counted = count_verdict_sel count_times_sel count_route_sel set_best_sel

lemma record_result_total:
  "verdict_total (record_result r st) = Suc (verdict_total st)"
  "pr_candidate_count (record_result r st) = pr_candidate_count st"
  "pr_route_rank_skipped (record_result r st) = pr_route_rank_skipped st"
  by (cases "cr_exact r"; simp add: record_result_def Let_def counted)+

lemma record_result_best:
  "pr_best (record_result r st) =
     (case cr_exact r of Some p \<Rightarrow> if cr_verdict r \<in> {V_Simulated, V_Submitted} then record_best p (pr_best st) else pr_best st
      | None \<Rightarrow> pr_best st)"
  by (cases "cr_exact r") (simp_all add: record_result_def Let_def counted)

lemma fold_record_total:
  "verdict_total (fold record_result rs st) = verdict_total st + length rs"
  "pr_candidate_count (fold record_result rs st) = pr_candidate_count st"
  "pr_route_rank_skipped (fold record_result rs st) = pr_route_rank_skipped st"
  by (induction rs arbitrary: st) (simp_all add: record_result_total)

text \<open>The plans that a list of results reports as simulated or submitted.\<close>

definition successes :: "process_result list \<Rightarrow> exact_plan list" where
  "successes rs = List.map_filter (\<lambda>r. if cr_verdict r \<in> {V_Simulated, V_Submitted} then cr_exact r else None) rs"

lemma successes_snoc:
  "successes (rs @ [r]) = successes rs @ (if cr_verdict r \<in> {V_Simulated, V_Submitted} then (case cr_exact r of Some p \<Rightarrow> [p] | None \<Rightarrow> []) else [])"
  by (simp add: successes_def List.map_filter_def split: option.split)

text \<open>the best plan a refresh reports is the one of greatest net profit among those simulated or submitted, and it
  reports none exactly when there is none.\<close>

theorem best_is_greatest:
  "case pr_best (fold record_result rs (refresh_stats_new n)) of
     None \<Rightarrow> successes rs = []
   | Some b \<Rightarrow> (\<exists>p\<in>set (successes rs). b = best_profit_of p) \<and>
       list_all (\<lambda>p. xp_net_profit_usd_e8 p \<le> bp_net_profit_usd_e8 b) (successes rs)"
proof (induction rs rule: rev_induct)
  case Nil
  show ?case by (simp add: refresh_stats_new_def successes_def List.map_filter_def)
next
  case (snoc r rs)
  let ?best = "pr_best (fold record_result rs (refresh_stats_new n))"
  have net: "bp_net_profit_usd_e8 (best_profit_of p) = xp_net_profit_usd_e8 p" for p by (simp add: best_profit_of_def)
  show ?case
  proof (cases "cr_verdict r \<in> {V_Simulated, V_Submitted} \<and> cr_exact r \<noteq> None")
    case False
    then have "successes (rs @ [r]) = successes rs" by (auto simp: successes_snoc split: option.split)
    moreover have "pr_best (fold record_result (rs @ [r]) (refresh_stats_new n)) = ?best"
      using False by (auto simp: record_result_best split: option.split)
    ultimately show ?thesis using snoc by (simp only:)
  next
    case True
    then obtain p where p: "cr_exact r = Some p" by blast
    have s: "successes (rs @ [r]) = successes rs @ [p]" using True p by (simp add: successes_snoc)
    have b: "pr_best (fold record_result (rs @ [r]) (refresh_stats_new n)) = record_best p ?best"
      using True p by (simp add: record_result_best)
    show ?thesis
    proof (cases ?best)
      case None
      then have "record_best p ?best = Some (best_profit_of p)" by (simp add: record_best_def)
      moreover have "successes rs = []" using snoc None by simp
      ultimately show ?thesis unfolding b s by (simp add: net)
    next
      case (Some b0)
      with snoc have b0: "\<exists>q\<in>set (successes rs). b0 = best_profit_of q"
        "list_all (\<lambda>q. xp_net_profit_usd_e8 q \<le> bp_net_profit_usd_e8 b0) (successes rs)" by simp_all
      show ?thesis
      proof (cases "bp_net_profit_usd_e8 b0 < xp_net_profit_usd_e8 p")
        case True
        then have "record_best p ?best = Some (best_profit_of p)" using Some by (simp add: record_best_def)
        with True b0(2) show ?thesis unfolding b s by (auto simp: net list_all_iff)
      next
        case False
        then have "record_best p ?best = Some b0" using Some by (simp add: record_best_def)
        with False b0 show ?thesis unfolding b s by (auto simp: list_all_iff)
      qed
    qed
  qed
qed

definition all_reached :: distance_cache where
  "all_reached = \<lparr>dcache_snapshot_id = 1, dcache_reachable_from_anchor = [True, True, True],
     dcache_reachable_to_anchor = [True, True, True]\<rparr>"

theorem initial_edges_chosen_witness:
  "\<forall>pa. \<exists>r\<in>set (initial_edge_refs (\<lambda>_. None) pa (\<lambda>xs. xs) net all_reached). \<exists>e. edge_of net r = Some e \<and> e_from e = 1 \<and> e_to e = 2"
proof
  fix pa
  have sel: "edge_of net \<lparr>er_from = Suc 0, er_edge_idx = 0\<rparr> = Some (net_edge (Suc 0) 2 13 (- 4) 800)"
    by (simp add: edge_of_def net_def nth_opt_def)
  have rate: "e_spot_rate_q128 (net_edge (Suc 0) 2 13 (- 4) 800) \<noteq> 0" "e_capacity (net_edge (Suc 0) 2 13 (- 4) 800) \<noteq> 0"
    "e_to (net_edge (Suc 0) 2 13 (- 4) 800) = 2" by (simp_all add: net_edge_def)
  have e: "eligible_edge (\<lambda>_. None) pa net all_reached \<lparr>er_from = Suc 0, er_edge_idx = 0\<rparr> (net_edge (Suc 0) 2 13 (- 4) 800)"
    using rate by (simp add: eligible_edge_def sel initial_eligible_def target_initial_pool_ids_def all_reached_def nth_opt_def)
  have n: "initial_refresh_max_edges (\<lambda>_. None) = None" by (simp add: initial_refresh_max_edges_def)
  from initial_edges_chosen [of "\<lambda>xs. xs" "\<lambda>_. None" pa net all_reached, OF refl] n e
  show "\<exists>r\<in>set (initial_edge_refs (\<lambda>_. None) pa (\<lambda>xs. xs) net all_reached). \<exists>e. edge_of net r = Some e \<and> e_from e = 1 \<and> e_to e = 2"
    by (fastforce simp: net_edge_def)
qed

end
