(* ===== verification/Market.thy ===== *)
theory Market
  imports Engine_Rank Validator
begin

text \<open>
  A small market on which a whole run can be evaluated: two priced tokens and one Uniswap V2 pool of 1000 against 2000 without
  a fee, with the logarithm of the platform rounded to the identity, so that the way there and back looks profitable to
  the screening. The lemmas evaluate the graph, the edges of the first refresh and the detection of the one candidate.
\<close>

section \<open>The graph\<close>

definition trading_v2 :: v2_pool_state where
  "trading_v2 = \<lparr>v2_reserve0 = 1000, v2_reserve1 = 2000, v2_fee_ppm = 0\<rparr>"

definition trading_pool :: pool_state where
  "trading_pool = demo_pool\<lparr>ps_state := S_UniswapV2Like trading_v2\<rparr>"

abbreviation trading_libm :: libm where "trading_libm \<equiv> sr_libm net_surroundings"

definition trading_graph :: graph_snapshot where
  "trading_graph = graph_build (\<lambda>_. None) trading_libm 1 None priced_tokens [(9, trading_pool)]"

abbreviation ref_there :: edge_ref where "ref_there \<equiv> \<lparr>er_from = 0, er_edge_idx = 0\<rparr>"
abbreviation ref_back :: edge_ref where "ref_back \<equiv> \<lparr>er_from = 1, er_edge_idx = 0\<rparr>"

definition edge_there :: edge where
  "edge_there = mk_edge trading_pool UniswapV2Like 0 1 0 (v2_spot_rate trading_libm trading_v2 True)"
definition edge_back :: edge where
  "edge_back = mk_edge trading_pool UniswapV2Like 1 0 0 (v2_spot_rate trading_libm trading_v2 False)"

lemma trading_rates:
  "apply_fee_rate (f_div (f64_of_word (2000 :: u128)) (f64_of_word (1000 :: u128))) 0 = F_Fin False 2"
  "apply_fee_rate (f_div (f64_of_word (1000 :: u128)) (f64_of_word (2000 :: u128))) 0 = F_Fin False (1 / 2)"
  by (simp_all add: apply_fee_rate_def f_sub_def f64_eval)

lemma trading_weights:
  "q128_from_f64 (F_Fin False 2) = u256_of (- 1)" "q128_from_f64 (F_Fin False (1 / 2)) = 2 ^ 127"
  "weight_log_q32 trading_libm (F_Fin False 2) = - 8589934592" "weight_log_q32 trading_libm (F_Fin False (1 / 2)) = - 2147483648"
  by (simp_all add: q128_from_f64_def weight_log_q32_def net_surroundings_def f64_eval f_sub_def f_le_def u256_of_def clamp_i64_def)

lemma trading_spot:
  "v2_spot_rate trading_libm trading_v2 True = (u256_of (- 1), - 8589934592, \<lparr>l_estimated_usd_e8 = 100000, l_safe_capacity_in = 100\<rparr>)"
  "v2_spot_rate trading_libm trading_v2 False = (2 ^ 127, - 2147483648, \<lparr>l_estimated_usd_e8 = 100000, l_safe_capacity_in = 200\<rparr>)"
  by (simp_all only: v2_spot_rate_def v2_reserves_def trading_v2_def Let_def v2_pool_state.select_convs if_True if_False split)
    (simp_all add: trading_rates trading_weights [simplified] sat_mul_def)

lemma trading_edge_sel:
  "e_from edge_there = 0" "e_to edge_there = 1" "e_weight_log_q32 edge_there = - 8589934592" "e_capacity edge_there = 100"
  "e_spot_rate_q128 edge_there = u256_of (- 1)" "e_pool_health edge_there = pool_health_default"
  "e_from edge_back = 1" "e_to edge_back = 0" "e_weight_log_q32 edge_back = - 2147483648" "e_capacity edge_back = 200"
  "e_spot_rate_q128 edge_back = 2 ^ 127" "e_pool_health edge_back = pool_health_default"
  by (simp_all add: edge_there_def edge_back_def trading_spot mk_edge_def trading_pool_def demo_pool_def)

lemma trading_pool_edges:
  "build_edges_for_pool env trading_libm trading_pool (index_tokens priced_tokens) = [edge_there, edge_back]"
proof -
  have "index_tokens priced_tokens 1 = Some 0" "index_tokens priced_tokens 2 = Some 1"
    by (simp_all add: index_tokens_def priced_tokens_def demo_token_def)
  then show ?thesis
    by (simp add: build_edges_for_pool_def trading_pool_def demo_pool_def build_two_token_edges_def edge_there_def edge_back_def mk_edge_def trading_v2_def)
qed

lemma trading_graph_sel:
  "gs_adjacency trading_graph = [[edge_there], [edge_back]]"
  "gs_reverse_adj trading_graph = [[ref_back], [ref_there]]"
  "gs_pair_to_edges trading_graph = [(0, 1) \<mapsto> [ref_there], (1, 0) \<mapsto> [ref_back]]"
  "gs_tokens trading_graph = priced_tokens" "gs_cycle_anchor_indices trading_graph = [0]"
  "gs_snapshot_id trading_graph = 1" "gs_block_ref trading_graph = None"
proof -
  have "add_pool (\<lambda>_. None) trading_libm (index_tokens priced_tokens) trading_pool (empty_tables 2) =
      add_edge 9 edge_back (add_edge 9 edge_there (empty_tables 2))"
    by (simp add: add_pool_def trading_pool_edges) (simp add: trading_pool_def demo_pool_def)
  also have "\<dots> = \<lparr>tb_adjacency = [[edge_there], [edge_back]], tb_reverse_adj = [[ref_back], [ref_there]],
      tb_pool_to_edges = [9 \<mapsto> [ref_there, ref_back]], tb_pair_to_edges = [(0, 1) \<mapsto> [ref_there], (1, 0) \<mapsto> [ref_back]]\<rparr>"
    by (simp add: add_edge_def Let_def empty_tables_def push_at_def push_entry_def trading_edge_sel numeral_2_eq_2)
  finally have t: "add_pool (\<lambda>_. None) trading_libm (index_tokens priced_tokens) trading_pool (empty_tables (length priced_tokens)) = \<dots>"
    by (simp add: priced_tokens_def numeral_2_eq_2)
  show "gs_adjacency trading_graph = [[edge_there], [edge_back]]"
    "gs_reverse_adj trading_graph = [[ref_back], [ref_there]]"
    "gs_pair_to_edges trading_graph = [(0, 1) \<mapsto> [ref_there], (1, 0) \<mapsto> [ref_back]]"
    "gs_tokens trading_graph = priced_tokens" "gs_cycle_anchor_indices trading_graph = [0]"
    "gs_snapshot_id trading_graph = 1" "gs_block_ref trading_graph = None"
    using t by (simp_all add: trading_graph_def graph_build_def Let_def indices_where_def) (simp add: priced_tokens_def demo_token_def)
qed

lemma trading_edge_of:
  "edge_of trading_graph ref_there = Some edge_there" "edge_of trading_graph ref_back = Some edge_back"
  by (simp_all add: edge_of_def trading_graph_sel nth_opt_def)

lemma trading_reach:
  "recompute trading_graph = \<lparr>dcache_snapshot_id = 1, dcache_reachable_from_anchor = [True, True], dcache_reachable_to_anchor = [True, True]\<rparr>"
proof -
  have s: "seed_anchors [0] (length priced_tokens) = ([True, False], [0])"
    by (simp add: seed_anchors_def enqueue_def priced_tokens_def numeral_2_eq_2)
  show ?thesis
    by (simp add: recompute_def Let_def trading_graph_sel s out_targets_def in_sources_def visit_def trading_edge_sel bfs.simps)
qed

definition trading_base :: "settings \<Rightarrow> settings" where
  "trading_base s = s\<lparr>
     st_search := \<lparr>se_top_k_paths_per_side = 4, se_max_virtual_branches_per_node = 4, se_path_beam_width = 4,
       se_max_candidates_per_refresh = 1, se_candidate_selection_buffer_multiplier = 1, se_dedup_token_paths = False,
       se_max_pair_edges_per_pair = 4, se_max_split_parallel_pools = 1\<rparr>,
     st_risk := (st_risk s)\<lparr>rk_max_hops := 2, rk_screening_margin_bps := 0, rk_min_trade_usd_e8 := 0,
       rk_staleness_timeout_ms := 60000, rk_pool_health_min_bps := 5000, rk_gas_risk_buffer_pct := f_zero,
       rk_max_position_usd_e8 := - 1, rk_max_flash_loan_usd_e8 := - 1, rk_daily_loss_limit_usd_e8 := - 1, rk_max_concurrent_tx := 1\<rparr>\<rparr>"

abbreviation trading_settings :: "settings \<Rightarrow> settings" where "trading_settings s \<equiv> ready_settings (trading_base s)"

abbreviation trading_finder :: "settings \<Rightarrow> path_finder" where
  "trading_finder s \<equiv> path_finder_new (\<lambda>_. None) trading_libm (trading_settings s)"

lemma trading_finder_sel:
  "pf_max_hops (trading_finder s) = 2" "pf_screening_cutoff_q32 (trading_finder s) = - 4294967296"
  "pf_min_pool_confidence_bps (trading_finder s) = 5000" "pf_min_trade_usd_e8 (trading_finder s) = 0"
  "pf_staleness_timeout (trading_finder s) = from_millis 60000"
  "tu_top_k_paths_per_side (pf_tuning (trading_finder s)) = 4" "tu_max_virtual_branches_per_node (pf_tuning (trading_finder s)) = 4"
  "tu_path_beam_width (pf_tuning (trading_finder s)) = 4" "tu_max_candidates_per_refresh (pf_tuning (trading_finder s)) = 1"
  "tu_candidate_selection_buffer_multiplier (pf_tuning (trading_finder s)) = 1" "\<not> tu_dedup_token_paths (pf_tuning (trading_finder s))"
  "tu_max_pair_edges_per_pair (pf_tuning (trading_finder s)) = 4"
  "tu_canonical_variants_per_cycle (pf_tuning (trading_finder s)) = 3" "tu_anchor_variants_per_cycle (pf_tuning (trading_finder s)) = 1"
  by (simp_all add: path_finder_new_def trading_base_def ready_settings_def Let_def env_usize_def screening_cutoff_q32_def net_surroundings_def f64_eval clamp_i64_def filter_opt_def)


lemma top_rate: "u256_of (- 1 :: u128) = 340282366920938463463374607431768211455"
proof -
  have "- 1 = (340282366920938463463374607431768211455 :: u128)" by simp
  then show ?thesis by (simp only: u256_of_def) simp
qed

lemma trading_initial:
  "initial_edge_refs (\<lambda>_. None) pa (\<lambda>xs. xs) trading_graph (recompute trading_graph) \<in> {[ref_there, ref_back], [ref_back, ref_there]}"
  by (simp add: initial_edge_refs_def ranked_initial_edges_def Let_def initial_refresh_max_edges_def best_by_pair_def all_edges_def trading_graph_sel
    initial_eligible_def trading_reach target_initial_pool_ids_def nth_opt_def trading_edge_sel initial_entry_def keep_best_def top_rate)

lemma trading_pairs:
  assumes "ch \<in> {[ref_there, ref_back], [ref_back, ref_there]}"
  shows "changed_virtual_pairs trading_graph ch = [((0, 1), ref_there), ((1, 0), ref_back)]"
  using assms
  by (auto simp: changed_virtual_pairs_def note_changed_def trading_edge_of [simplified] trading_edge_sel cmp_changed_def pair_score_def cmp_def)

lemma net_sel: "sr_env net_surroundings = (\<lambda>_. None)" "sr_parse_addr net_surroundings = (\<lambda>_. None)" "sr_now net_surroundings = 0"
  "sr_node_order net_surroundings = (\<lambda>ts. ts)"
  by (simp_all add: net_surroundings_def)

definition trading_locals :: "settings \<Rightarrow> refresh_locals" where
  "trading_locals s = refresh_locals_of net_surroundings (trading_finder s) trading_graph [ref_there, ref_back]"

lemma trading_locals_eq:
  assumes "ch \<in> {[ref_there, ref_back], [ref_back, ref_there]}"
  shows "refresh_locals_of net_surroundings (trading_finder s) trading_graph ch = trading_locals s"
  using assms by (auto simp: trading_locals_def refresh_locals_of_def)

lemma trading_locals_sel:
  "lo_selection_budget (trading_locals s) = 1" "\<not> et_required (lo_policy (trading_locals s))"
  "et_excluded_symbols (lo_policy (trading_locals s)) = []" "et_excluded_addresses (lo_policy (trading_locals s)) = {}"
  "lo_use_capacity_filter (trading_locals s)"
  "lo_min_trades (trading_locals s) = [Some 0, Some 0]"
  by (simp_all add: trading_locals_def refresh_locals_of_def Let_def candidate_selection_budget_def trading_finder_sel env_usize_def
      net_sel filter_opt_def execution_token_policy_def env_bool_def env_csv_def parse_addresses_def List.map_filter_simps
      min_trade_raw_by_token_def trading_graph_sel priced_tokens_def usd_e8_to_amount_def demo_token_def pow10_u256_def checked_mul_def
      checked_div_def u128_of_u256_def u256_of_def)

lemma trading_usable:
  "usable (trading_finder s) 0 [Some 0, Some 0] edge_there" "usable (trading_finder s) 0 [Some 0, Some 0] edge_back"
  by (simp_all add: usable_def edge_is_usable_def trading_edge_sel top_rate healthy_def pool_health_default_def trading_finder_sel min_trade_of_def nth_opt_def)

definition path_back :: search_path where
  "path_back = \<lparr>pth_edge_refs = [ref_back], pth_tokens = [1, 0], pth_score_q32 = - 2147483648, pth_capacity_hint = 200\<rparr>"

lemma trading_paths:
  "top_paths (\<lambda>ts. ts) (trading_finder s) 0 [Some 0, Some 0] trading_graph (0, 0, 1) = [initial_path 0]"
  "top_paths (\<lambda>ts. ts) (trading_finder s) 0 [Some 0, Some 0] trading_graph (1, 0, 1) = [path_back]"
proof -
  let ?pf = "trading_finder s" and ?m = "[Some 0, Some 0] :: u128 option list"
  have r: "ranked_outgoing trading_graph 1 = [ref_back]" by (simp add: ranked_outgoing_def trading_graph_sel nth_opt_def)
  have "virtual_outgoing (\<lambda>ts. ts) ?pf 0 ?m trading_graph 1 = [ref_back]"
    unfolding virtual_outgoing_def r by (simp add: usable_ref_def trading_edge_of [simplified] trading_usable target_of_def trading_edge_sel push_entry_def trading_finder_sel)
  then have "successors (\<lambda>ts. ts) ?pf 0 ?m trading_graph (initial_path 1) = [path_back]"
    by (simp add: successors_def initial_path_def trading_finder_sel List.map_filter_simps extend_path_def trading_edge_of [simplified] trading_usable
      trading_edge_sel path_back_def sat_add_i64_def clamp_i64_def)
  then show "top_paths (\<lambda>ts. ts) ?pf 0 ?m trading_graph (1, 0, 1) = [path_back]"
    by (simp add: top_paths_def trading_finder_sel reaches_def path_back_def sort_paths_def)
  show "top_paths (\<lambda>ts. ts) ?pf 0 ?m trading_graph (0, 0, 1) = [initial_path 0]" by (simp add: top_paths_def)
qed


lemma trading_limbs:
  "limb 0 340282366920938463463374607431768211455 = 18446744073709551615" "limb 1 340282366920938463463374607431768211455 = 18446744073709551615"
  "limb 2 340282366920938463463374607431768211455 = 0" "limb 3 340282366920938463463374607431768211455 = 0"
  "limb 0 170141183460469231731687303715884105728 = 0" "limb 1 170141183460469231731687303715884105728 = 9223372036854775808"
  "limb 2 170141183460469231731687303715884105728 = 0" "limb 3 170141183460469231731687303715884105728 = 0"
  by (simp_all add: limb_def)

lemma trading_halves:
  "f64_of_word (18446744073709551615 :: u64) = F_Fin False 18446744073709551616"
  "f64_of_word (9223372036854775808 :: u64) = F_Fin False 9223372036854775808" "f64_of_word (0 :: u64) = f_zero"
  by (simp_all add: f64_eval)

lemma trading_scales:
  "f_lit (1 / 2 ^ 128) = F_Fin False (1 / 340282366920938463463374607431768211456)"
  "f_lit (1 / 2 ^ 64) = F_Fin False (1 / 18446744073709551616)"
  "f_lit (2 ^ 64) = F_Fin False 18446744073709551616"
  by (simp_all add: f64_eval)

lemma trading_products:
  "f_mul (F_Fin False 18446744073709551616) (F_Fin False (1 / 340282366920938463463374607431768211456)) = F_Fin False (1 / 18446744073709551616)"
  "f_mul (F_Fin False 18446744073709551616) (F_Fin False (1 / 18446744073709551616)) = f_one"
  "f_mul (F_Fin False 9223372036854775808) (F_Fin False (1 / 18446744073709551616)) = F_Fin False (1 / 2)"
  "f_mul f_zero (F_Fin False x) = f_zero"
  by (simp_all add: f64_eval)

lemma trading_sums:
  "f_add (F_Fin False (1 / 18446744073709551616)) f_one = f_one" "f_add f_one f_zero = f_one"
  "f_add (F_Fin False (1 / 2)) f_zero = F_Fin False (1 / 2)" "f_add f_zero (F_Fin False (1 / 2)) = F_Fin False (1 / 2)"
  by (simp_all add: f64_eval)

lemma trading_limb_rates:
  "limbs_to_f64 340282366920938463463374607431768211455 = f_one" "limbs_to_f64 170141183460469231731687303715884105728 = F_Fin False (1 / 2)"
  unfolding limbs_to_f64_def trading_limbs trading_halves trading_scales trading_products trading_sums by simp_all

lemma trading_quotients:
  "f_mul f_one f_one = f_one" "f_mul f_one (F_Fin False (1 / 2)) = F_Fin False (1 / 2)"
  "f_div (f64_of_word (100 :: u128)) f_one = F_Fin False 100" "f_div (f64_of_word (200 :: u128)) f_one = F_Fin False 200"
  by (simp_all add: f64_eval)

lemma trading_limits:
  "\<not> f_le f_one f_zero" "\<not> f_le (F_Fin False (1 / 2)) f_zero" "f_min (F_Inf False) (F_Fin False 100) = F_Fin False 100"
  "f_min (F_Fin False 100) (F_Fin False 200) = F_Fin False 100" "f64_to_u128 (F_Fin False 100) = 100"
  by (simp_all add: f_le_def f_min_def f64_to_u128_def f64_points)

lemmas trading_floats = trading_quotients trading_limits trading_limb_rates

lemma trading_capacity: "refs_start_capacity_raw trading_graph [ref_there, ref_back] = Some 100"
  by (simp add: refs_start_capacity_raw_def trading_edge_of [simplified] trading_edge_sel top_rate trading_floats [simplified] Let_def)

lemma one_selected: "finalize_candidates env show [c] 1 v a = [c]"
  by (simp add: finalize_candidates_def finalize_candidates_with_tuning_def Let_def select_candidate_def res_bind_def)

lemma trading_candidate:
  "\<exists>c. materialize_candidate net_surroundings trading_graph (trading_locals s) 0 key score [ref_there, ref_back] ref_there = Some c"
proof -
  have "gs_tokens trading_graph = [priced_tokens ! 0, priced_tokens ! 1]" by (simp add: trading_graph_sel priced_tokens_def)
  then show ?thesis
  by (simp add: materialize_candidate_def trading_edge_of [simplified] trading_edge_sel route_tokens_allowed_def trading_locals_sel nth_opt_def
    token_excluded_by_execution_policy_def every_target_def target_token_def route_has_min_start_capacity_def trading_capacity [simplified] min_trade_of_def Let_def)
qed

lemma trading_route:
  "\<exists>c. consider_route net_surroundings (trading_finder s) trading_graph (trading_locals s) 0 1 ref_there (ref_there, initial_path 0, path_back)
     (detection_start\<lparr>dt_caches := cc\<rparr>) = Inl (Some [c])"
proof -
  obtain c where c: "materialize_candidate net_surroundings trading_graph (trading_locals s) 0
      (route_cycle_key (sr_show_addr net_surroundings) trading_graph [ref_there, ref_back]) (- 10737418240) [ref_there, ref_back] ref_there = Some c"
    using trading_candidate by blast
  have "sat_add_i64 (sat_add_i64 0 (- 8589934592)) (- 2147483648) = - 10737418240" by (simp add: sat_add_i64_def clamp_i64_def)
  with c show ?thesis
    by (simp add: consider_route_def initial_path_def path_back_def trading_finder_sel forms_simple_cycle_def trading_edge_of [simplified] trading_edge_sel
      Let_def detection_start_def keep_candidate_def trading_locals_sel finish_state_def finish_def one_selected [simplified])
qed

lemma trading_detected:
  assumes "ch \<in> {[ref_there, ref_back], [ref_back, ref_there]}"
  shows "\<exists>c. detect net_surroundings (trading_settings s) trading_graph ch (recompute trading_graph) = Some [c]"
proof -
  let ?pf = "trading_finder s" and ?g = trading_graph and ?lo = "trading_locals s" and ?sr = net_surroundings
  let ?ok = "caches_ok (\<lambda>ts. ts) ?pf 0 [Some 0, Some 0] ?g"
  let ?top = "find_top_paths_cached (\<lambda>ts. ts) ?pf 0 [Some 0, Some 0] ?g"
  obtain pairs where p: "candidate_pair_edges_cached ?pf 0 [Some 0, Some 0] ?g (0, 1) (sc_pair_edges (dt_caches detection_start)) =
      ([ref_there], pairs)"
    by (simp add: candidate_pair_edges_cached_def hash_get_def detection_start_def no_caches_def candidate_pair_edges_def trading_graph_sel
      usable_ref_def trading_edge_of [simplified] trading_usable trading_finder_sel Let_def)
  define c0 where "c0 = (dt_caches detection_start)\<lparr>sc_pair_edges := pairs\<rparr>"
  have "?ok c0"
    using pair_edges_cached(2) [of ?pf 0 "[Some 0, Some 0]" ?g "sc_pair_edges (dt_caches detection_start)" "(0, 1)"] p
    by (simp add: caches_ok_def c0_def detection_start_def no_caches_def hash.coherent_def)
  from top_paths_cached [OF this, of "(0, 0, 1)"] obtain c1 where t1: "?top (0, 0, 1) c0 = ([initial_path 0], c1)" and "?ok c1"
    by (cases "?top (0, 0, 1) c0") (simp add: trading_paths [simplified])
  from top_paths_cached [OF this(2), of "(1, 0, 1)"] obtain c2 where t2: "?top (1, 0, 1) c1 = ([path_back], c2)"
    by (cases "?top (1, 0, 1) c1") (simp add: trading_paths [simplified])
  obtain c where "consider_route ?sr ?pf ?g ?lo 0 1 ref_there (ref_there, initial_path 0, path_back) (detection_start\<lparr>dt_caches := c2\<rparr>) =
      Inl (Some [c])" using trading_route by blast
  with t1 t2 have a: "consider_anchor ?sr ?pf ?g ?lo 0 1 ref_there [ref_there] 0 (detection_start\<lparr>dt_caches := c0\<rparr>) = Inl (Some [c])"
    by (simp add: consider_anchor_def anchor_can_participate_def trading_finder_sel net_sel trading_locals_sel res_bind_def)
  have "consider_pair ?sr ?pf ?g (recompute ?g) ?lo ((0, 1), ref_there) detection_start = Inl (Some [c])"
    using p a by (simp add: consider_pair_def trading_reach nth_opt_def net_sel trading_locals_sel trading_graph_sel c0_def res_bind_def)
  then show ?thesis
    using assms by (auto simp: detect_def find_candidates_def net_sel trading_finder_sel trading_pairs [OF assms] trading_locals_eq [OF assms] Let_def res_bind_def)
qed

end
