(* ===== verification/Engine.thy ===== *)
theory Engine
  imports Engine_Rank Pool_Refresh Graph_Store Market
begin

text \<open>
  \<open>src/engine.rs\<close>: one refresh (\<open>process_refresh\<close> with the routing, the verification and the settlement of its
  candidates) and one round of the main loop of \<open>run_chain\<close>, over the models of the detector, the validator, the
  settlement, the event poll, the pool refresh, the reorganisation detector and the graph store. What the router answers
  for a candidate, what the submitter does with a plan, the order in which concurrent searches finish and the clock are
  arguments.
\<close>

section \<open>Routing a candidate\<close>

datatype search_answer = Search_Timeout | Search_Error | Search_Done "exact_plan option" search_stats

definition elapsed_ms :: "instant \<Rightarrow> instant \<Rightarrow> u128" where
  "elapsed_ms now started = word_of_nat ((now - started) div 1000000)"

definition result_new ::
  "candidate_verdict \<Rightarrow> submission_result option \<Rightarrow> exact_plan option \<Rightarrow> search_stats \<Rightarrow> u128 \<Rightarrow> u128 \<Rightarrow> u128 \<Rightarrow> process_result" where
  "result_new verdict submission exact st router_ms validator_ms total_ms =
     \<lparr>cr_verdict = verdict, cr_submission = submission, cr_exact = exact, cr_stats = st, cr_router_ms = router_ms,
      cr_validator_ms = validator_ms, cr_total_ms = total_ms, cr_router_timed_out = False\<rparr>"

definition result_router_timeout ::
  "candidate_verdict \<Rightarrow> submission_result option \<Rightarrow> exact_plan option \<Rightarrow> search_stats \<Rightarrow> u128 \<Rightarrow> u128 \<Rightarrow> u128 \<Rightarrow> process_result" where
  "result_router_timeout verdict submission exact st router_ms validator_ms total_ms =
     \<lparr>cr_verdict = verdict, cr_submission = submission, cr_exact = exact, cr_stats = st, cr_router_ms = router_ms,
      cr_validator_ms = validator_ms, cr_total_ms = total_ms, cr_router_timed_out = True\<rparr>"

datatype route_outcome = Routed routed_candidate | Rejected candidate_path process_result

text \<open>The search for one candidate: its answer and the clock at its start and its end.\<close>

record route_obs =
  ro_answer :: search_answer
  ro_started :: instant
  ro_router_started :: instant
  ro_router_done :: instant
  ro_done :: instant

definition route_candidate :: "route_obs \<Rightarrow> candidate_path \<Rightarrow> route_outcome" where
  "route_candidate ob c =
     (let router_ms = elapsed_ms (ro_router_done ob) (ro_router_started ob);
          total_ms = elapsed_ms (ro_done ob) (ro_started ob)
      in case ro_answer ob of
           Search_Timeout \<Rightarrow> Rejected c (result_router_timeout V_NoRoute None None search_stats_default router_ms 0 total_ms)
         | Search_Error \<Rightarrow> Rejected c (result_new V_NoRoute None None search_stats_default router_ms 0 total_ms)
         | Search_Done None st \<Rightarrow> Rejected c (result_new V_NoRoute None None st router_ms 0 total_ms)
         | Search_Done (Some plan) st \<Rightarrow>
             Routed \<lparr>rc_candidate = c, rc_plan = plan, rc_stats = st, rc_router_ms = router_ms, rc_started = ro_started ob,
               rc_estimate = i128_min\<rparr>)"

section \<open>Processing a routed candidate\<close>

text \<open>The clock readings: 0 and 1 around the verification, 2 and 3 around the validation, 4 at the end.\<close>

record 'e stage_net =
  sn_verify :: "candidate_path \<Rightarrow> search_answer"
  sn_answers :: "'e answers"
  sn_submit :: "executable_plan \<Rightarrow> unit + submission_result"
  sn_receipt :: "b256 \<Rightarrow> unit + receipt_outcome"
  sn_clock :: "nat \<Rightarrow> instant"
  sn_risk_times :: "nat \<times> nat"
  sn_nonce_times :: "instant \<times> instant"

record engine_state =
  eg_account :: account
  eg_validator :: validator

definition verify_stage :: "env \<Rightarrow> 'e stage_net \<Rightarrow> routed_candidate \<Rightarrow> process_result + exact_plan \<times> search_stats \<times> u128" where
  "verify_stage env sg r =
     (if \<not> should_verify_ranked_route env (rc_plan r) then Inr (rc_plan r, rc_stats r, rc_router_ms r)
      else
        let router_ms = sat_add (rc_router_ms r) (elapsed_ms (sn_clock sg 1) (sn_clock sg 0));
            total_ms = elapsed_ms (sn_clock sg 4) (rc_started r)
        in case sn_verify sg (rc_candidate r) of
             Search_Timeout \<Rightarrow> Inl (result_router_timeout V_NoRoute None None (rc_stats r) router_ms 0 total_ms)
           | Search_Error \<Rightarrow> Inl (result_new V_NoRoute None None (rc_stats r) router_ms 0 total_ms)
           | Search_Done plan verified_stats \<Rightarrow>
               let st = merge_route_search_stats (rc_stats r) verified_stats
               in case plan of None \<Rightarrow> Inl (result_new V_NoRoute None None st router_ms 0 total_ms)
                  | Some verified \<Rightarrow> Inr (verified, st, router_ms))"

text \<open>The third component is the plan handed to the submitter, if there was one.\<close>

definition process_routed_candidate ::
  "env \<Rightarrow> 'e libraries \<Rightarrow> graph_snapshot \<Rightarrow> depeg_guard \<Rightarrow> bool \<Rightarrow> 'e stage_net \<Rightarrow> routed_candidate \<Rightarrow> engine_state \<Rightarrow>
   engine_state \<times> process_result \<times> executable_plan option" where
  "process_routed_candidate env li g guard simulate_only sg r st =
     (case verify_stage env sg r of Inl res \<Rightarrow> (st, res, None)
      | Inr (plan, stats, router_ms) \<Rightarrow>
          let (prepared, v) = prepare_plan env li (sn_answers sg) g plan (eg_validator st);
              validator_ms = elapsed_ms (sn_clock sg 3) (sn_clock sg 2);
              total_ms = elapsed_ms (sn_clock sg 4) (rc_started r)
          in case prepared of
               Inl err \<Rightarrow> (st\<lparr>eg_validator := v\<rparr>, result_new V_ValidationRejected None None stats router_ms validator_ms total_ms, None)
             | Inr None \<Rightarrow> (st\<lparr>eg_validator := v\<rparr>, result_new V_ValidationRejected None None stats router_ms validator_ms total_ms, None)
             | Inr (Some ex) \<Rightarrow>
                 let so = settle guard simulate_only (sn_submit sg) (sn_receipt sg) (fst (sn_risk_times sg))
                       (snd (sn_risk_times sg)) (fst (sn_nonce_times sg)) (snd (sn_nonce_times sg)) (eg_account st) ex
                 in (\<lparr>eg_account = so_account so, eg_validator = v\<rparr>,
                     result_new (so_verdict so) (so_submission so) (Some (ex_exact ex)) stats router_ms validator_ms total_ms,
                     so_sent so))"

section \<open>A refresh\<close>

type_synonym refresh_step = "process_result \<times> executable_plan option"

text \<open>The loop over the ranked routes; it ends when \<open>k\<close> of them took measurable time to validate.\<close>

fun scan_routes ::
  "env \<Rightarrow> 'e libraries \<Rightarrow> graph_snapshot \<Rightarrow> depeg_guard \<Rightarrow> bool \<Rightarrow> (nat \<Rightarrow> 'e stage_net) \<Rightarrow> nat \<Rightarrow> nat \<Rightarrow> nat \<Rightarrow>
   routed_candidate list \<Rightarrow> engine_state \<Rightarrow> engine_state \<times> refresh_step list" where
  "scan_routes env li g guard simulate_only stages k attempts i [] st = (st, [])"
| "scan_routes env li g guard simulate_only stages k attempts i (r # rs) st =
     (let (st', res, sent) = process_routed_candidate env li g guard simulate_only (stages i) r st;
          attempts' = (if 0 < cr_validator_ms res then attempts + 1 else attempts);
          (st'', steps) = (if k \<le> attempts' then (st', [])
            else scan_routes env li g guard simulate_only stages k attempts' (i + 1) rs st')
      in (st'', (res, sent) # steps))"

record 'e refresh_io =
  ri_surroundings :: surroundings
  ri_routes :: "nat \<Rightarrow> route_obs"
  ri_arrival :: "route_outcome list \<Rightarrow> route_outcome list"
  ri_stages :: "nat \<Rightarrow> 'e stage_net"

record refresh_report =
  rr_stats :: refresh_stats
  rr_steps :: "refresh_step list"

definition route_all :: "'e refresh_io \<Rightarrow> candidate_path list \<Rightarrow> route_outcome list" where
  "route_all io candidates = ri_arrival io (map (\<lambda>(i, c). route_candidate (ri_routes io i) c) (enumerate 0 candidates))"

definition rejected_of :: "route_outcome list \<Rightarrow> process_result list" where
  "rejected_of os = List.map_filter (\<lambda>x. case x of Rejected c r \<Rightarrow> Some r | Routed r \<Rightarrow> None) os"

definition routed_of :: "route_outcome list \<Rightarrow> routed_candidate list" where
  "routed_of os = List.map_filter (\<lambda>x. case x of Rejected c r \<Rightarrow> None | Routed r \<Rightarrow> Some r) os"

definition process_candidates ::
  "'e libraries \<Rightarrow> settings \<Rightarrow> depeg_guard \<Rightarrow> bool \<Rightarrow> 'e refresh_io \<Rightarrow> graph_snapshot \<Rightarrow> candidate_path list \<Rightarrow> engine_state \<Rightarrow>
   engine_state \<times> refresh_report" where
  "process_candidates li s guard simulate_only io g candidates st =
     (let env = sr_env (ri_surroundings io); outcomes = route_all io candidates;
          ranked = rank_routes env g s (routed_of outcomes);
          k = route_validation_top_k env; limit = route_verify_scan_limit env k (length ranked);
          (st', steps) = scan_routes env li g guard simulate_only (ri_stages io) k 0 0 (take limit ranked) st;
          stats = fold record_result (rejected_of outcomes @ map fst steps) (refresh_stats_new (length candidates))
      in (st', \<lparr>rr_stats = stats\<lparr>pr_route_rank_skipped := length ranked - length steps\<rparr>, rr_steps = steps\<rparr>))"

text \<open>\<open>None\<close> when the detector panics; without a report when nothing was routed.\<close>

definition process_refresh ::
  "'e libraries \<Rightarrow> settings \<Rightarrow> depeg_guard \<Rightarrow> bool \<Rightarrow> 'e refresh_io \<Rightarrow> graph_snapshot \<Rightarrow> edge_ref list \<Rightarrow> engine_state \<Rightarrow>
   (engine_state \<times> refresh_report option) option" where
  "process_refresh li s guard simulate_only io g changed_edges st =
     (if changed_edges = [] then Some (st, None)
      else if \<not> stable_routes_allowed guard then Some (st, None)
      else case detect (ri_surroundings io) s g changed_edges (recompute g) of
             None \<Rightarrow> None
           | Some candidates \<Rightarrow>
               if env_bool (sr_env (ri_surroundings io)) ''DIAGNOSTIC_STOP_AFTER_DETECTION'' False then Some (st, None)
               else if candidates = [] then Some (st, None)
               else (case process_candidates li s guard simulate_only io g candidates st of
                       (st', report) \<Rightarrow> Some (st', Some report)))"

section \<open>What a refresh batch asks for\<close>

definition pool_to_spec :: "pool_state \<Rightarrow> discovered_pool" where
  "pool_to_spec pool =
     \<lparr>dp_address = ps_pool_id pool, dp_dex_name = ps_dex_name pool, dp_amm_kind = ps_kind pool,
      dp_factory = ps_factory pool, dp_registry = ps_registry pool, dp_vault = ps_vault pool, dp_quoter = ps_quoter pool,
      dp_balancer_pool_id = (case ps_state pool of S_BalancerWeighted s \<Rightarrow> Some (bl_pool_id s) | _ \<Rightarrow> None),
      dp_priority = False\<rparr>"

definition collect_changed_specs :: "graph_snapshot \<Rightarrow> refresh_batch \<Rightarrow> discovered_pool list" where
  "collect_changed_specs g batch =
     (let wanted = (if list_ex rt_full_refresh batch then filter rt_full_refresh batch
                    else filter (\<lambda>t. rt_patch t = None) batch)
      in List.map_filter (\<lambda>a. map_option pool_to_spec (pool_of g a)) (unknown_addresses {} (List.map_filter rt_pool_id wanted)))"

definition collect_patches :: "refresh_batch \<Rightarrow> pool_state_patch list" where
  "collect_patches batch = List.map_filter rt_patch (filter (\<lambda>t. \<not> rt_full_refresh t) batch)"

section \<open>The main loop\<close>

record loop_state =
  lp_store :: "graph_snapshot graph_store"
  lp_reorg :: reorg_detector
  lp_poll_from :: u64
  lp_stream :: event_stream
  lp_discovery :: discovery_manager
  lp_engine :: engine_state

text \<open>What surrounds a run, and what one round meets.\<close>

record 'e loop_setting =
  ls_settings :: settings
  ls_env :: env
  ls_libm :: libm
  ls_libraries :: "'e libraries"
  ls_guard :: depeg_guard
  ls_simulate_only :: bool
  ls_keccak :: "string \<Rightarrow> b256"
  ls_hash :: "u8 list \<Rightarrow> u64"

record 'e round_io =
  rd_clock :: "nat \<Rightarrow> instant"
  rd_events :: event_net
  rd_block :: "string + u64 \<times> b256 \<times> b256"
  rd_block_later :: "string + u64 \<times> b256 \<times> b256"
  rd_pools :: refresh_net
  rd_refresh :: "'e refresh_io"

datatype loop_error = Poll_Panicked | Reorg_Failed reorg_error | Refresh_Failed refresh_error | Detector_Panicked

datatype loop_outcome = Continued loop_state | Stopped loop_error | Hung

definition current_block_ref :: "string + u64 \<times> b256 \<times> b256 \<Rightarrow> string + block_ref" where
  "current_block_ref answer =
     res_bind answer (\<lambda>(number, hash, parent_hash).
       Inr \<lparr>b_number = number, b_hash = hash, b_parent_hash = parent_hash, b_finality = Sealed\<rparr>)"

definition block_option :: "string + u64 \<times> b256 \<times> b256 \<Rightarrow> block_ref option" where
  "block_option answer = (case current_block_ref answer of Inl _ \<Rightarrow> None | Inr b \<Rightarrow> Some b)"

definition initial_poll_from :: "settings \<Rightarrow> graph_snapshot \<Rightarrow> u64" where
  "initial_poll_from s g =
     unwrap_or (map_option (\<lambda>b. sat_sub (b_number b) (rk_event_backfill_blocks (st_risk s))) (gs_block_ref g)) 0"

definition changed_edges_of :: "graph_snapshot \<Rightarrow> address list \<Rightarrow> edge_ref list" where
  "changed_edges_of g changed = concat (map (\<lambda>a. unwrap_or (gs_pool_to_edges g a) []) changed)"

definition refresh_round ::
  "'e loop_setting \<Rightarrow> 'e round_io \<Rightarrow> graph_snapshot \<Rightarrow> refresh_batch \<Rightarrow> loop_state \<Rightarrow> loop_outcome \<times> refresh_report option" where
  "refresh_round ls io g batch st =
     (let s = ls_settings ls; specs = collect_changed_specs g batch; patches = collect_patches batch in
      if batch = [] then (Continued st, None)
      else if specs = [] \<and> patches = [] then (Continued st, None)
      else case refresh_pools (ls_env ls) (ls_libm ls) s (rd_pools io) (gs_snapshot_id g) (gs_tokens g) (gs_pools g)
             specs patches (block_option (rd_block_later io)) (lp_discovery st) of
        (Inl err, m) \<Rightarrow> (Stopped (Refresh_Failed err), None)
      | (Inr (g', changed), m) \<Rightarrow>
          let st = st\<lparr>lp_discovery := m\<rparr>; edges = changed_edges_of g' changed in
          if edges = [] then (Continued st, None)
          else
            let st = st\<lparr>lp_store := publish g' (lp_store st)\<rparr> in
            case process_refresh (ls_libraries ls) s (ls_guard ls) (ls_simulate_only ls) (rd_refresh io) g' edges (lp_engine st) of
              None \<Rightarrow> (Stopped Detector_Panicked, None)
            | Some (engine, report) \<Rightarrow> (Continued (st\<lparr>lp_engine := engine\<rparr>), report))"

definition block_round ::
  "'e loop_setting \<Rightarrow> 'e round_io \<Rightarrow> graph_snapshot \<Rightarrow> refresh_batch \<Rightarrow> loop_state \<Rightarrow> loop_outcome \<times> refresh_report option" where
  "block_round ls io g batch st =
     (case current_block_ref (rd_block io) of
        Inl err \<Rightarrow> refresh_round ls io g batch st
      | Inr b \<Rightarrow>
          (case update_chain (lp_reorg st) b of
             SelfDeadlock \<Rightarrow> (Hung, None)
           | outcome.Returned d (Inl err) \<Rightarrow> (Stopped (Reorg_Failed err), None)
           | outcome.Returned d (Inr (Some ev)) \<Rightarrow>
               (case handle_reorg_event (ls_settings ls) gs_block_ref (lp_store st) ev of
                  (store, from) \<Rightarrow> (Continued (st\<lparr>lp_reorg := d, lp_store := store, lp_poll_from := from\<rparr>), None))
           | outcome.Returned d (Inr None) \<Rightarrow> refresh_round ls io g batch (st\<lparr>lp_reorg := d\<rparr>)))"

definition loop_round :: "'e loop_setting \<Rightarrow> 'e round_io \<Rightarrow> loop_state \<Rightarrow> loop_outcome \<times> refresh_report option" where
  "loop_round ls io st =
     (let s = ls_settings ls; g = store_load (lp_store st) in
      case poll_once (ls_env ls) (st_chain s) (rp_ws_url (st_rpc s)) (ls_keccak ls) (ls_hash ls) (rd_clock io) (rd_events io) g
             (lp_poll_from st) (lp_stream st) of
        (Inl (Node_Refused err), stream) \<Rightarrow> (Continued (st\<lparr>lp_stream := stream\<rparr>), None)
      | (Inl Decode_Panic, stream) \<Rightarrow> (Stopped Poll_Panicked, None)
      | (Inr (latest_block, batch), stream) \<Rightarrow>
          block_round ls io g batch (st\<lparr>lp_stream := stream, lp_poll_from := latest_block\<rparr>))"

text \<open>The start of the loop, after the bootstrap.\<close>

definition loop_start :: "settings \<Rightarrow> graph_snapshot \<Rightarrow> instant \<Rightarrow> discovery_manager \<Rightarrow> engine_state \<Rightarrow> loop_state option" where
  "loop_start s g now m engine =
     (case (case gs_block_ref g of None \<Rightarrow> outcome.Returned reorg_new (Inr None) | Some b \<Rightarrow> update_chain reorg_new b) of
        SelfDeadlock \<Rightarrow> None
      | outcome.Returned d r \<Rightarrow>
          Some \<lparr>lp_store = graph_store_new g 8, lp_reorg = d, lp_poll_from = initial_poll_from s g,
            lp_stream = event_stream_new now, lp_discovery = m, lp_engine = engine\<rparr>)"

text \<open>The refresh before the loop, of the best edge of every pair.\<close>

definition start_refresh ::
  "'e loop_setting \<Rightarrow> (initial_edge list \<Rightarrow> initial_edge list) \<Rightarrow> 'e refresh_io \<Rightarrow> graph_snapshot \<Rightarrow> engine_state \<Rightarrow>
   (engine_state \<times> refresh_report option) option" where
  "start_refresh ls order io g engine =
     (if env_bool (ls_env ls) ''SKIP_INITIAL_REFRESH'' False then Some (engine, None)
      else process_refresh (ls_libraries ls) (ls_settings ls) (ls_guard ls) (ls_simulate_only ls) io g
             (initial_edge_refs (ls_env ls) (sr_parse_addr (ri_surroundings io)) order g (recompute g)) engine)"

text \<open>\<open>run_chain\<close> up to the loop: a new validator and risk manager, the nonces synced with the node's answer, the bootstrap's
  snapshot stored and refreshed once. \<open>None\<close> when the sync fails, or when the program hangs or panics.\<close>

definition run_start ::
  "'e loop_setting \<Rightarrow> 'x + u64 \<Rightarrow> (initial_edge list \<Rightarrow> initial_edge list) \<Rightarrow> 'e refresh_io \<Rightarrow> graph_snapshot \<Rightarrow>
   discovery_manager \<Rightarrow> instant \<Rightarrow> (loop_state \<times> refresh_report option) option" where
  "run_start ls answer order io g m now =
     (let s = ls_settings ls in
      case synced_nonces s answer of
        Inl err \<Rightarrow> None
      | Inr nonces \<Rightarrow>
          let engine = \<lparr>eg_account = \<lparr>ac_nonces = nonces, ac_risk = risk_manager_new s\<rparr>, eg_validator = validator_new (ls_env ls) s\<rparr>
          in (case loop_start s g now m engine of
                None \<Rightarrow> None
              | Some st \<Rightarrow>
                  (case start_refresh ls order io g engine of
                     None \<Rightarrow> None
                   | Some (engine, report) \<Rightarrow> Some (st\<lparr>lp_engine := engine\<rparr>, report))))"

section \<open>One candidate\<close>

lemma simulate_plan_keeps: "simulate_plan li an executor operator deadline est q plan v = (r, v') \<Longrightarrow> configured s v \<Longrightarrow> configured s v'"
  by (auto simp: simulate_plan_def Let_def configured_def split: if_splits option.splits)

lemma price_plan_keeps:
  assumes "price_plan env li an snapshot token plan v = (r, v')" and "configured s v"
  shows "configured s v'"
proof -
  obtain t1 t2 t3 where t: "an_gas_times an = (t1, t2, t3)" by (cases "an_gas_times an")
  show ?thesis
  proof (cases "tx_executor_address (va_settings v)")
    case (Inl e)
    with assms show ?thesis by (simp add: price_plan_def Let_def)
  next
    case executor: (Inr executor)
    show ?thesis
    proof (cases "operator_address (li_signer li) (va_settings v)")
      case (Inl e)
      with assms executor show ?thesis by (simp add: price_plan_def Let_def)
    next
      case operator: (Inr operator)
      define est where "est = gas_estimate_of env li (an_estimate an) executor operator
        (build_calldata (li_abi_encode li) plan (deadline_of (an_unix_secs an)))
        (adjusted_static_gas_limit env (xp_gas_limit plan) (xp_capital_source plan))"
      obtain quote gas where g: "quote_gas env (li_text li) (li_l1_abi li) (li_show_err li) (an_gas_node an) (an_l1_node an) t1 t2 t3
          (va_gas v) est (length (build_calldata (li_abi_encode li) plan (deadline_of (an_unix_secs an)))) = (quote, gas)"
        by (cases "quote_gas env (li_text li) (li_l1_abi li) (li_show_err li) (an_gas_node an) (an_l1_node an) t1 t2 t3
          (va_gas v) est (length (build_calldata (li_abi_encode li) plan (deadline_of (an_unix_secs an))))")
      have conf: "configured s (v\<lparr>va_gas := gas\<rparr>)" using quote_gas_keeps [OF g] assms(2) by (simp add: configured_def)
      note body = assms(1) [unfolded price_plan_def Let_def executor operator t, unfolded sum.case split, folded est_def, unfolded g split]
      show ?thesis
      proof (cases quote)
        case (Inl e)
        with body conf show ?thesis by auto
      next
        case (Inr q)
        note body = body [unfolded Inr sum.case]
        show ?thesis
        proof (cases "v' = v\<lparr>va_gas := gas\<rparr>")
          case True
          with conf show ?thesis by simp
        next
          case False
          with body obtain plan' where
            "simulate_plan li an executor operator (deadline_of (an_unix_secs an)) est q plan' (v\<lparr>va_gas := gas\<rparr>) = (r, v')"
            by (auto split: if_splits option.splits)
          from simulate_plan_keeps [OF this conf] show ?thesis .
        qed
      qed
    qed
  qed
qed

lemma check_plan_keeps:
  assumes "check_plan env li an snapshot token plan v = (r, v')" and "configured s v"
  shows "configured s v'"
proof -
  obtain skip failures where k: "skip_reason (at_show_address (li_text li)) (an_checked_at an) plan (va_failures v) = (skip, failures)"
    by (cases "skip_reason (at_show_address (li_text li)) (an_checked_at an) plan (va_failures v)")
  have conf: "configured s (v\<lparr>va_failures := failures\<rparr>)" using assms(2) by (simp add: configured_def)
  show ?thesis
  proof (cases "v' = v\<lparr>va_failures := failures\<rparr>")
    case True
    with conf show ?thesis by simp
  next
    case False
    with assms(1) obtain plan' where "price_plan env li an snapshot token plan' (v\<lparr>va_failures := failures\<rparr>) = (r, v')"
      by (auto simp: check_plan_def k Let_def split: if_splits)
    from price_plan_keeps [OF this conf] show ?thesis .
  qed
qed

lemma prepare_keeps_configured:
  assumes "prepare_plan env li an snapshot plan v = (r, v')" and "configured s v"
  shows "configured s v'"
proof (cases "v' = v")
  case True
  with assms(2) show ?thesis by simp
next
  case False
  with assms(1) obtain token input_value where
    t: "find (\<lambda>t. t_address t = xp_input_token plan) (gs_tokens snapshot) = Some token"
      "amount_to_usd_e8 (xp_input_amount plan) token = Some input_value"
    by (auto simp: prepare_plan_def split: option.splits)
  obtain choice capital where c: "choose_capital env (va_settings v) (an_balance_at an) (an_balance_of an)
      (plan\<lparr>xp_input_value_usd_e8 := input_value\<rparr>) token (va_capital v) = (choice, capital)"
    by (cases "choose_capital env (va_settings v) (an_balance_at an) (an_balance_of an)
      (plan\<lparr>xp_input_value_usd_e8 := input_value\<rparr>) token (va_capital v)")
  have conf: "configured s (v\<lparr>va_capital := capital\<rparr>)" using assms(2) by (simp add: configured_def)
  note body = assms(1) [unfolded prepare_plan_def t option.case Let_def c split]
  show ?thesis
  proof (cases choice)
    case None
    with body conf show ?thesis by auto
  next
    case (Some ch)
    with body check_plan_keeps [OF _ conf] show ?thesis by auto
  qed
qed

text \<open>What a plan must satisfy before it is sent; \<open>an\<close> is what the outside answered while it was prepared.\<close>

definition ready_to_send :: "'e libraries \<Rightarrow> 'e answers \<Rightarrow> settings \<Rightarrow> depeg_guard \<Rightarrow> executable_plan \<Rightarrow> bool" where
  "ready_to_send li an s guard ex \<longleftrightarrow>
     funded_soundly s (ex_exact ex) \<and> profitable s (ex_exact ex) \<and> priced s ex \<and> simulated li an s ex \<and>
     hops_healthy guard (xp_hops (ex_exact ex))"

lemma ready_nonce [simp]: "ready_to_send li an s guard (ex\<lparr>ex_nonce := n\<rparr>) = ready_to_send li an s guard ex"
  by (simp add: ready_to_send_def priced_def simulated_def)

lemma settle_sim: "settle g True sub w n n' t1 t2 a ex = r \<Longrightarrow> so_account r = a \<and> so_sent r = None"
  by (auto simp: settle_def Let_def)

abbreviation next_nonce :: "engine_state \<Rightarrow> u64" where "next_nonce st \<equiv> nm_next_nonce (ac_nonces (eg_account st))"

text \<open>The effect of one candidate on the engine.\<close>

definition step_ok ::
  "'e libraries \<Rightarrow> 'e answers \<Rightarrow> settings \<Rightarrow> depeg_guard \<Rightarrow> bool \<Rightarrow> engine_state \<Rightarrow> executable_plan option \<Rightarrow> engine_state \<Rightarrow> bool" where
  "step_ok li an s guard simulate_only st sent st' \<longleftrightarrow>
     configured s (eg_validator st') \<and>
     next_nonce st' = next_nonce st + (if sent = None then 0 else 1) \<and>
     (sent = None \<longrightarrow> eg_account st' = eg_account st) \<and>
     (\<forall>ex. sent = Some ex \<longrightarrow> \<not> simulate_only \<and> ready_to_send li an s guard ex \<and> ex_nonce ex = next_nonce st)"

lemma process_step_ok:
  assumes conf: "configured s (eg_validator st)"
    and p: "process_routed_candidate env li g guard simulate_only sg r st = (st', res, sent)"
  shows "step_ok li (sn_answers sg) s guard simulate_only st sent st'"
proof (cases "verify_stage env sg r")
  case (Inl x)
  with p conf show ?thesis by (auto simp: process_routed_candidate_def step_ok_def)
next
  case (Inr y)
  obtain plan stats router_ms where y: "y = (plan, stats, router_ms)" by (cases y)
  obtain prepared v where pr: "prepare_plan env li (sn_answers sg) g plan (eg_validator st) = (prepared, v)"
    by (cases "prepare_plan env li (sn_answers sg) g plan (eg_validator st)")
  have v: "configured s v" by (rule prepare_keeps_configured [OF pr conf])
  note body = p [unfolded process_routed_candidate_def Inr y sum.case split pr Let_def]
  show ?thesis
  proof (cases "\<exists>ex. prepared = Inr (Some ex)")
    case False
    then have "st' = st\<lparr>eg_validator := v\<rparr> \<and> sent = None"
      using body by (cases prepared) (auto split: option.splits)
    with v show ?thesis by (simp add: step_ok_def)
  next
    case True
    then obtain ex where ex: "prepared = Inr (Some ex)" by blast
    note facts = prepared_plan_facts [OF conf pr [unfolded ex]]
    define so where "so = settle guard simulate_only (sn_submit sg) (sn_receipt sg) (fst (sn_risk_times sg))
      (snd (sn_risk_times sg)) (fst (sn_nonce_times sg)) (snd (sn_nonce_times sg)) (eg_account st) ex"
    have st': "st' = \<lparr>eg_account = so_account so, eg_validator = v\<rparr>" and sent: "sent = so_sent so"
      using body unfolding ex so_def by simp_all
    have "\<not> simulate_only \<and> ready_to_send li (sn_answers sg) s guard x \<and> ex_nonce x = next_nonce st" if x: "so_sent so = Some x" for x
    proof -
      note s = settle_sent [OF x [unfolded so_def]]
      have "ready_to_send li (sn_answers sg) s guard ex" using facts s(1) unfolding ready_to_send_def by blast
      with s show ?thesis by simp
    qed
    moreover have "so_sent so = None \<longrightarrow> so_account so = eg_account st" using settle_not_sent unfolding so_def by blast
    moreover have "nm_next_nonce (ac_nonces (so_account so)) = next_nonce st + (if so_sent so = None then 0 else 1)"
      unfolding so_def by (rule settle_next_nonce)
    ultimately show ?thesis using v unfolding step_ok_def st' sent engine_state.simps by blast
  qed
qed

section \<open>All candidates of a refresh\<close>

definition sent_plans :: "refresh_step list \<Rightarrow> executable_plan list" where
  "sent_plans steps = List.map_filter snd steps"

lemma sent_plans_simps [simp]:
  "sent_plans [] = []" "sent_plans ((res, None) # steps) = sent_plans steps"
  "sent_plans ((res, Some ex) # steps) = ex # sent_plans steps"
  by (simp_all add: sent_plans_def List.map_filter_simps)

text \<open>Every plan sent by the steps of a refresh was ready by the answers its own stage got; the stages are numbered from \<open>i\<close>.\<close>

fun steps_ready ::
  "'e libraries \<Rightarrow> settings \<Rightarrow> depeg_guard \<Rightarrow> (nat \<Rightarrow> 'e stage_net) \<Rightarrow> nat \<Rightarrow> refresh_step list \<Rightarrow> bool" where
  "steps_ready li s guard stages i [] = True"
| "steps_ready li s guard stages i ((res, sent) # steps) =
     ((case sent of None \<Rightarrow> True | Some ex \<Rightarrow> ready_to_send li (sn_answers (stages i)) s guard ex) \<and>
      steps_ready li s guard stages (i + 1) steps)"

lemma steps_ready_sent:
  "steps_ready li s guard stages i steps \<Longrightarrow> ex \<in> set (sent_plans steps) \<Longrightarrow> \<exists>j. ready_to_send li (sn_answers (stages j)) s guard ex"
  by (induction li s guard stages i steps rule: steps_ready.induct) (auto split: option.splits)

definition nonces_from :: "u64 \<Rightarrow> nat \<Rightarrow> u64 list" where
  "nonces_from n k = map (\<lambda>i. n + word_of_nat i) [0..<k]"

lemma nonces_from_Suc: "nonces_from n (Suc k) = n # nonces_from (n + 1) k"
  by (simp add: nonces_from_def upt_conv_Cons map_Suc_upt [symmetric] algebra_simps comp_def del: upt_Suc)

lemma scan_routes_ok:
  assumes "configured s (eg_validator st)"
    and "scan_routes env li g guard simulate_only stages k attempts i rs st = (st', steps)"
  shows "configured s (eg_validator st') \<and> steps_ready li s guard stages i steps \<and>
    map ex_nonce (sent_plans steps) = nonces_from (next_nonce st) (length (sent_plans steps)) \<and>
    next_nonce st' = next_nonce st + word_of_nat (length (sent_plans steps)) \<and>
    (sent_plans steps = [] \<longrightarrow> eg_account st' = eg_account st) \<and> (simulate_only \<longrightarrow> sent_plans steps = [])"
  using assms
proof (induction rs arbitrary: st st' steps attempts i)
  case Nil
  then show ?case by (simp add: nonces_from_def)
next
  case (Cons r rs)
  obtain st1 res sent where p: "process_routed_candidate env li g guard simulate_only (stages i) r st = (st1, res, sent)"
    by (cases "process_routed_candidate env li g guard simulate_only (stages i) r st")
  note ok = process_step_ok [OF Cons.prems(1) p, unfolded step_ok_def]
  define attempts' where "attempts' = (if 0 < cr_validator_ms res then attempts + 1 else attempts)"
  obtain st2 steps' where rest: "(if k \<le> attempts' then (st1, [])
      else scan_routes env li g guard simulate_only stages k attempts' (i + 1) rs st1) = (st2, steps')"
    by (cases "if k \<le> attempts' then (st1, []) else scan_routes env li g guard simulate_only stages k attempts' (i + 1) rs st1")
  have e: "st' = st2" "steps = (res, sent) # steps'"
    using Cons.prems(2) rest by (simp_all add: p attempts'_def [symmetric])
  have IH: "configured s (eg_validator st2) \<and> steps_ready li s guard stages (i + 1) steps' \<and>
    map ex_nonce (sent_plans steps') = nonces_from (next_nonce st1) (length (sent_plans steps')) \<and>
    next_nonce st2 = next_nonce st1 + word_of_nat (length (sent_plans steps')) \<and>
    (sent_plans steps' = [] \<longrightarrow> eg_account st2 = eg_account st1) \<and> (simulate_only \<longrightarrow> sent_plans steps' = [])"
  proof (cases "k \<le> attempts'")
    case True
    with rest ok show ?thesis by (simp add: nonces_from_def)
  next
    case False
    with rest have "scan_routes env li g guard simulate_only stages k attempts' (i + 1) rs st1 = (st2, steps')" by simp
    from Cons.IH [OF _ this] ok show ?thesis by blast
  qed
  show ?case
  proof (cases sent)
    case None
    with IH ok show ?thesis unfolding e by simp
  next
    case (Some ex)
    with IH ok show ?thesis unfolding e by (simp add: nonces_from_Suc algebra_simps)
  qed
qed

lemma scan_steps:
  "scan_routes env li g guard simulate_only stages k attempts i rs st = (st', steps) \<Longrightarrow> length steps \<le> length rs"
proof (induction rs arbitrary: st st' steps attempts i)
  case (Cons r rs)
  then show ?case by (fastforce simp: Let_def split: prod.splits if_splits)
qed simp

text \<open>How many routes take time to validate.\<close>

lemma scan_attempts:
  assumes "scan_routes env li g guard simulate_only stages k attempts i rs st = (st', steps)" and "attempts < k"
  shows "attempts + length (filter (\<lambda>x. 0 < cr_validator_ms (fst x)) steps) \<le> k"
  using assms
proof (induction rs arbitrary: st st' steps attempts i)
  case (Cons r rs)
  obtain st1 res sent where p: "process_routed_candidate env li g guard simulate_only (stages i) r st = (st1, res, sent)"
    by (cases "process_routed_candidate env li g guard simulate_only (stages i) r st")
  define attempts' where "attempts' = (if 0 < cr_validator_ms res then attempts + 1 else attempts)"
  show ?case
  proof (cases "k \<le> attempts'")
    case True
    with Cons.prems show ?thesis by (auto simp: p attempts'_def split: if_splits)
  next
    case False
    obtain st2 steps' where rest: "scan_routes env li g guard simulate_only stages k attempts' (i + 1) rs st1 = (st2, steps')"
      by (cases "scan_routes env li g guard simulate_only stages k attempts' (i + 1) rs st1")
    have "steps = (res, sent) # steps'" using Cons.prems(1) False rest by (simp add: p attempts'_def [symmetric])
    with Cons.IH [OF rest] False show ?thesis by (auto simp: attempts'_def split: if_splits)
  qed
qed simp

lemma outcomes_split: "length (rejected_of os) + length (routed_of os) = length os"
  by (induction os) (auto simp: rejected_of_def routed_of_def List.map_filter_simps split: route_outcome.split)

lemma length_route_all: "(\<And>os. mset (ri_arrival io os) = mset os) \<Longrightarrow> length (route_all io cs) = length cs"
  by (metis (no_types, lifting) route_all_def length_enumerate length_map mset_eq_length)

section \<open>What a refresh guarantees\<close>

lemma process_refresh_cases:
  assumes "process_refresh li s guard simulate_only io g changed st = Some (st', report)"
  obtains (idle) "st' = st" "report = None"
  | (busy) candidates rep where "stable_routes_allowed guard"
      "detect (ri_surroundings io) s g changed (recompute g) = Some candidates"
      "process_candidates li s guard simulate_only io g candidates st = (st', rep)" "report = Some rep"
  using assms by (auto simp: process_refresh_def split: if_splits option.splits prod.splits)

lemma process_candidates_unfold:
  assumes "process_candidates li s guard simulate_only io g candidates st = (st', rep)"
  obtains steps where
    "scan_routes (sr_env (ri_surroundings io)) li g guard simulate_only (ri_stages io) (route_validation_top_k (sr_env (ri_surroundings io))) 0 0
       (take (route_verify_scan_limit (sr_env (ri_surroundings io)) (route_validation_top_k (sr_env (ri_surroundings io)))
          (length (routed_of (route_all io candidates))))
         (rank_routes (sr_env (ri_surroundings io)) g s (routed_of (route_all io candidates)))) st = (st', steps)"
    "rr_steps rep = steps"
    "rr_stats rep = (fold record_result (rejected_of (route_all io candidates) @ map fst steps) (refresh_stats_new (length candidates)))
       \<lparr>pr_route_rank_skipped := length (routed_of (route_all io candidates)) - length steps\<rparr>"
proof -
  have len: "length (rank_routes env g s rs) = length rs" for env rs by (simp add: rank_routes_def)
  show thesis using assms that unfolding process_candidates_def Let_def len by (auto split: prod.splits)
qed

lemma process_candidates_facts:
  assumes "configured s (eg_validator st)" and "process_candidates li s guard simulate_only io g candidates st = (st', rep)"
  shows "configured s (eg_validator st') \<and> steps_ready li s guard (ri_stages io) 0 (rr_steps rep) \<and>
    map ex_nonce (sent_plans (rr_steps rep)) = nonces_from (next_nonce st) (length (sent_plans (rr_steps rep))) \<and>
    next_nonce st' = next_nonce st + word_of_nat (length (sent_plans (rr_steps rep))) \<and>
    (sent_plans (rr_steps rep) = [] \<longrightarrow> eg_account st' = eg_account st) \<and> (simulate_only \<longrightarrow> sent_plans (rr_steps rep) = [])"
proof -
  from assms(2) show ?thesis
  proof (rule process_candidates_unfold)
    fix steps
    assume scan: "scan_routes (sr_env (ri_surroundings io)) li g guard simulate_only (ri_stages io)
        (route_validation_top_k (sr_env (ri_surroundings io))) 0 0
       (take (route_verify_scan_limit (sr_env (ri_surroundings io)) (route_validation_top_k (sr_env (ri_surroundings io)))
          (length (routed_of (route_all io candidates))))
         (rank_routes (sr_env (ri_surroundings io)) g s (routed_of (route_all io candidates)))) st = (st', steps)"
      and r: "rr_steps rep = steps"
    show ?thesis unfolding r using scan_routes_ok [OF assms(1) scan] by blast
  qed
qed

lemma process_refresh_facts:
  assumes "configured s (eg_validator st)" and "process_refresh li s guard simulate_only io g changed st = Some (st', report)"
  shows "configured s (eg_validator st') \<and>
    (report = None \<longrightarrow> st' = st) \<and>
    (\<forall>rep. report = Some rep \<longrightarrow>
       stable_routes_allowed guard \<and> steps_ready li s guard (ri_stages io) 0 (rr_steps rep) \<and>
       map ex_nonce (sent_plans (rr_steps rep)) = nonces_from (next_nonce st) (length (sent_plans (rr_steps rep))) \<and>
       next_nonce st' = next_nonce st + word_of_nat (length (sent_plans (rr_steps rep))) \<and>
       (sent_plans (rr_steps rep) = [] \<longrightarrow> eg_account st' = eg_account st) \<and> (simulate_only \<longrightarrow> sent_plans (rr_steps rep) = []))"
  using assms(2)
proof (cases rule: process_refresh_cases)
  case idle
  with assms(1) show ?thesis by simp
next
  case (busy candidates rep)
  with process_candidates_facts [OF assms(1) busy(3)] show ?thesis by simp
qed

text \<open>what a refresh sends. Every plan handed to the submitter is funded by what its amounts say, profitable after fees and
  gas, priced below the ceiling, simulated as the very call it carries, and healthy in all its tokens; the plans carry
  consecutive nonces from the next one on; the account changes only if a plan is sent, and in simulation none is.\<close>

theorem refresh_sends_ready:
  assumes "configured s (eg_validator st)" and "process_candidates li s guard simulate_only io g candidates st = (st', rep)"
  shows "steps_ready li s guard (ri_stages io) 0 (rr_steps rep) \<and>
    map ex_nonce (sent_plans (rr_steps rep)) = nonces_from (next_nonce st) (length (sent_plans (rr_steps rep))) \<and>
    next_nonce st' = next_nonce st + word_of_nat (length (sent_plans (rr_steps rep))) \<and>
    (sent_plans (rr_steps rep) = [] \<longrightarrow> eg_account st' = eg_account st) \<and> (simulate_only \<longrightarrow> sent_plans (rr_steps rep) = [])"
  using process_candidates_facts [OF assms] by blast

text \<open>C11: a refresh accounts for every candidate exactly once: rejected by the search, rejected, simulated or submitted after
  the ranking, or skipped by the scan; it scans at most as many routes as its limit allows and at most \<open>top k\<close> of them take
  measurable time to validate.\<close>

theorem refresh_accounts_for_all:
  assumes "\<And>os. mset (ri_arrival io os) = mset os"
    and "process_candidates li s guard simulate_only io g candidates st = (st', rep)"
  shows "verdict_total (rr_stats rep) + pr_route_rank_skipped (rr_stats rep) = length candidates \<and>
    pr_candidate_count (rr_stats rep) = length candidates \<and>
    length (filter (\<lambda>x. 0 < cr_validator_ms (fst x)) (rr_steps rep)) \<le> route_validation_top_k (sr_env (ri_surroundings io))"
proof -
  let ?env = "sr_env (ri_surroundings io)" and ?os = "route_all io candidates"
  from assms(2) obtain steps where
    scan: "scan_routes ?env li g guard simulate_only (ri_stages io) (route_validation_top_k ?env) 0 0
       (take (route_verify_scan_limit ?env (route_validation_top_k ?env) (length (routed_of ?os))) (rank_routes ?env g s (routed_of ?os))) st =
       (st', steps)"
    and r: "rr_steps rep = steps"
    and stats: "rr_stats rep = (fold record_result (rejected_of ?os @ map fst steps) (refresh_stats_new (length candidates)))
       \<lparr>pr_route_rank_skipped := length (routed_of ?os) - length steps\<rparr>"
    by (rule process_candidates_unfold)
  have "length steps \<le> length (routed_of ?os)"
    using scan_steps [OF scan] by (simp add: rank_routes_def)
  moreover have "length (rejected_of ?os) + length (routed_of ?os) = length candidates"
    unfolding outcomes_split by (rule length_route_all [OF assms(1)])
  moreover have "verdict_total (refresh_stats_new n) = 0" "pr_candidate_count (refresh_stats_new n) = n" for n
    by (simp_all add: refresh_stats_new_def verdict_total_def)
  moreover have "verdict_total (st\<lparr>pr_route_rank_skipped := n\<rparr>) = verdict_total st" for st n
    by (simp add: verdict_total_def)
  moreover have "0 < route_validation_top_k ?env" using top_k_bounds [of ?env] by simp
  from scan_attempts [OF scan this]
  have "length (filter (\<lambda>x. 0 < cr_validator_ms (fst x)) steps) \<le> route_validation_top_k ?env" by simp
  ultimately show ?thesis unfolding stats r by (simp add: fold_record_total del: fold_append)
qed

section \<open>Runs of the main loop\<close>

text \<open>A run collects the reports of its rounds, each with what its refresh met.\<close>

inductive loop_run ::
  "'e loop_setting \<Rightarrow> loop_state \<Rightarrow> ('e refresh_io \<times> refresh_report) list \<Rightarrow> loop_state \<Rightarrow> bool" for ls st0 where
  loop_begin: "loop_run ls st0 [] st0"
| loop_quiet: "loop_run ls st0 reports st \<Longrightarrow> loop_round ls io st = (Continued st', None) \<Longrightarrow> loop_run ls st0 reports st'"
| loop_report: "loop_run ls st0 reports st \<Longrightarrow> loop_round ls io st = (Continued st', Some rep) \<Longrightarrow>
    loop_run ls st0 (reports @ [(rd_refresh io, rep)]) st'"

text \<open>A snapshot that was built from tokens and pools; its indices agree with its adjacency lists.\<close>

definition built :: "graph_snapshot \<Rightarrow> bool" where
  "built g \<longleftrightarrow> (\<exists>env lm sid b tokens pools. g = graph_build env lm sid b tokens pools)"

lemma refresh_pools_built:
  assumes "refresh_pools env lm s sg sid tokens current specs patches b m = (Inr (g, changed), m')"
  shows "built g \<and> gs_snapshot_id g = sid + 1 \<and> gs_block_ref g = b"
proof -
  obtain ps changed' where r: "refresh_states sg (dm_admission m) current specs patches (map_option b_number b) = Inr (ps, changed')"
    using assms by (auto simp: refresh_pools_def split: sum.splits)
  obtain answer cache where a: "aave_flash_reserves env (rn_tokens sg) (rn_aave_clock sg) (ct_aave_pool (st_contracts s)) (dm_aave_cache m) =
      (answer, cache)"
    by (cases "aave_flash_reserves env (rn_tokens sg) (rn_aave_clock sg) (ct_aave_pool (st_contracts s)) (dm_aave_cache m)")
  obtain reserves where v: "answer = Inr reserves"
    using assms by (cases answer) (simp_all add: refresh_pools_def r a)
  obtain ts md where t: "extend_tokens_with_discovered env s (rn_tokens sg) (map snd ps) reserves tokens (dm_metadata_cache m) = (ts, md)"
    by (cases "extend_tokens_with_discovered env s (rn_tokens sg) (map snd ps) reserves tokens (dm_metadata_cache m)")
  obtain ts' where "g = graph_build env lm (sid + 1) b ts' ps"
    using assms by (auto simp: refresh_pools_def r a v t Let_def)
  then show ?thesis unfolding built_def by (auto simp: graph_build_def Let_def)
qed

definition store_ok :: "graph_snapshot graph_store \<Rightarrow> bool" where
  "store_ok st \<longleftrightarrow> list_all built (gst_ring st) \<and> gst_current st \<in> set (gst_ring st) \<and> length (gst_ring st) \<le> 8 \<and>
     gst_max_snapshots st = 8"

lemma store_ok_new: "built g \<Longrightarrow> store_ok (graph_store_new g 8)"
  by (simp add: store_ok_def graph_store_new_def)

lemma publish_ok: "store_ok st \<Longrightarrow> built g \<Longrightarrow> store_ok (publish g st)"
proof -
  assume st: "store_ok st" and g: "built g"
  define ring where "ring = gst_ring st @ [g]"
  have r: "gst_ring (publish g st) = drop (length ring - 8) ring" "gst_current (publish g st) = g"
    "gst_max_snapshots (publish g st) = gst_max_snapshots st"
    using st by (simp_all add: publish_def trim_ring_drop store_ok_def ring_def)
  have "g \<in> set (drop (length ring - 8) ring)" by (auto simp: ring_def)
  moreover have "list_all built (drop (length ring - 8) ring)"
    using st g by (auto simp: ring_def store_ok_def list_all_iff dest: in_set_dropD)
  ultimately show ?thesis using st by (simp add: store_ok_def r)
qed

lemma resume_ok: "store_ok st \<Longrightarrow> resume_from s block_of st n = (st', b) \<Longrightarrow> store_ok st'"
proof -
  assume st: "store_ok st" and r: "resume_from s block_of st n = (st', b)"
  have "st' = fst (store_rollback_to_block block_of n st)"
    using r by (auto simp: resume_from_def split: prod.splits option.splits)
  then show ?thesis using st rollback_keeps_ring [of block_of n st] rollback_current(1) [of block_of n st]
    by (auto simp: store_ok_def)
qed

lemma reorg_ok: "store_ok st \<Longrightarrow> handle_reorg_event s block_of st ev = (st', b) \<Longrightarrow> store_ok st'"
  by (cases ev) (auto intro: resume_ok)

lemma nonces_from_append: "nonces_from n a @ nonces_from (n + word_of_nat a) b = nonces_from n (a + b)"
proof -
  have "nonces_from (n + word_of_nat a) b = map (\<lambda>i. n + word_of_nat i) (map (\<lambda>i. i + a) [0..<b])"
    by (simp add: nonces_from_def algebra_simps comp_def)
  then show ?thesis by (simp add: nonces_from_def map_add_upt upt_add_eq_append [of 0 a b, simplified] add.commute [of b a])
qed

text \<open>The plans sent in all the rounds.\<close>

definition all_sent :: "('e refresh_io \<times> refresh_report) list \<Rightarrow> executable_plan list" where
  "all_sent reports = concat (map (\<lambda>(io, rep). sent_plans (rr_steps rep)) reports)"

definition all_ready :: "'e loop_setting \<Rightarrow> ('e refresh_io \<times> refresh_report) list \<Rightarrow> bool" where
  "all_ready ls reports \<longleftrightarrow>
     list_all (\<lambda>(io, rep). steps_ready (ls_libraries ls) (ls_settings ls) (ls_guard ls) (ri_stages io) 0 (rr_steps rep)) reports"

lemma collected_simps [simp]:
  "all_sent [] = []" "all_sent (reports @ [(io, rep)]) = all_sent reports @ sent_plans (rr_steps rep)"
  "all_ready ls []" "all_ready ls (reports @ [(io, rep)]) \<longleftrightarrow> all_ready ls reports \<and>
     steps_ready (ls_libraries ls) (ls_settings ls) (ls_guard ls) (ri_stages io) 0 (rr_steps rep)"
  by (simp_all add: all_sent_def all_ready_def)

definition collected :: "'e refresh_io \<Rightarrow> refresh_report option \<Rightarrow> ('e refresh_io \<times> refresh_report) list" where
  "collected io report = (case report of None \<Rightarrow> [] | Some rep \<Rightarrow> [(io, rep)])"

text \<open>What every round keeps.\<close>

definition round_ok :: "'e loop_setting \<Rightarrow> 'e refresh_io \<Rightarrow> loop_state \<Rightarrow> refresh_report option \<Rightarrow> loop_state \<Rightarrow> bool" where
  "round_ok ls io st report st' \<longleftrightarrow>
     store_ok (lp_store st') \<and> configured (ls_settings ls) (eg_validator (lp_engine st')) \<and>
     (case report of None \<Rightarrow> eg_account (lp_engine st') = eg_account (lp_engine st)
      | Some rep \<Rightarrow>
          steps_ready (ls_libraries ls) (ls_settings ls) (ls_guard ls) (ri_stages io) 0 (rr_steps rep) \<and>
          map ex_nonce (sent_plans (rr_steps rep)) = nonces_from (next_nonce (lp_engine st)) (length (sent_plans (rr_steps rep))) \<and>
          next_nonce (lp_engine st') = next_nonce (lp_engine st) + word_of_nat (length (sent_plans (rr_steps rep))) \<and>
          (sent_plans (rr_steps rep) = [] \<longrightarrow> eg_account (lp_engine st') = eg_account (lp_engine st)) \<and>
          (ls_simulate_only ls \<longrightarrow> sent_plans (rr_steps rep) = []))"

lemma round_ok_engine: "lp_engine a = lp_engine b \<Longrightarrow> round_ok ls io a report st' = round_ok ls io b report st'"
  by (simp only: round_ok_def)

lemma refresh_round_ok:
  assumes "store_ok (lp_store st)" and "configured (ls_settings ls) (eg_validator (lp_engine st))"
    and "refresh_round ls io g batch st = (Continued st', report)"
  shows "round_ok ls (rd_refresh io) st report st'"
proof -
  let ?s = "ls_settings ls" and ?specs = "collect_changed_specs g batch" and ?patches = "collect_patches batch"
  have same: "round_ok ls (rd_refresh io) st None st" using assms(1,2) by (simp add: round_ok_def)
  show ?thesis
  proof (cases "batch = [] \<or> ?specs = [] \<and> ?patches = []")
    case True
    then have "refresh_round ls io g batch st = (Continued st, None)"
      by (elim disjE conjE) (simp_all add: refresh_round_def Let_def)
    with assms(3) have "st' = st \<and> report = None" by simp
    with same show ?thesis by simp
  next
    case False
    obtain answer m where a: "refresh_pools (ls_env ls) (ls_libm ls) ?s (rd_pools io) (gs_snapshot_id g) (gs_tokens g) (gs_pools g)
        ?specs ?patches (block_option (rd_block_later io)) (lp_discovery st) = (answer, m)" by (metis surj_pair)
    note body = assms(3) [unfolded refresh_round_def Let_def a split]
    obtain g' changed where v: "answer = Inr (g', changed)" using body False by (cases answer) auto
    note built' = refresh_pools_built [OF a [unfolded v], THEN conjunct1]
    show ?thesis
    proof (cases "changed_edges_of g' changed = []")
      case True
      with body False v have "st' = st\<lparr>lp_discovery := m\<rparr> \<and> report = None" by auto
      with assms(1,2) show ?thesis by (simp add: round_ok_def)
    next
      case edges: False
      obtain engine rep where p: "process_refresh (ls_libraries ls) ?s (ls_guard ls) (ls_simulate_only ls) (rd_refresh io) g'
          (changed_edges_of g' changed) (lp_engine st) = Some (engine, rep)"
        and st': "st' = st\<lparr>lp_discovery := m, lp_store := publish g' (lp_store st), lp_engine := engine\<rparr>" and r: "report = rep"
        using body False v edges by (auto split: option.splits)
      have "store_ok (publish g' (lp_store st))" by (rule publish_ok [OF assms(1) built'])
      then show ?thesis using process_refresh_facts [OF assms(2) p] assms(2)
        unfolding round_ok_def st' r by (cases rep) auto
    qed
  qed
qed

lemma loop_round_ok:
  assumes "store_ok (lp_store st)" and "configured (ls_settings ls) (eg_validator (lp_engine st))"
    and "loop_round ls io st = (Continued st', report)"
  shows "round_ok ls (rd_refresh io) st report st'"
proof -
  let ?g = "store_load (lp_store st)"
  obtain answer stream where a: "poll_once (ls_env ls) (st_chain (ls_settings ls)) (rp_ws_url (st_rpc (ls_settings ls))) (ls_keccak ls)
      (ls_hash ls) (rd_clock io) (rd_events io) ?g (lp_poll_from st) (lp_stream st) = (answer, stream)" by (metis surj_pair)
  note body = assms(3) [unfolded loop_round_def Let_def a split]
  show ?thesis
  proof (cases answer)
    case (Inl e)
    with body have "st' = st\<lparr>lp_stream := stream\<rparr> \<and> report = None" by (cases e) auto
    with assms(1,2) show ?thesis by (simp add: round_ok_def)
  next
    case (Inr r)
    obtain latest batch where r: "r = (latest, batch)" by (cases r)
    define st1 where "st1 = st\<lparr>lp_stream := stream, lp_poll_from := latest\<rparr>"
    have keep: "lp_store st1 = lp_store st" "lp_engine st1 = lp_engine st" by (simp_all add: st1_def)
    have keep_reorg: "round_ok ls z (st1\<lparr>lp_reorg := d\<rparr>) x y = round_ok ls z st x y" "round_ok ls z st1 x y = round_ok ls z st x y" for d x y z
      by (rule round_ok_engine, simp add: keep)+
    have b: "block_round ls io ?g batch st1 = (Continued st', report)" using body Inr r by (simp add: st1_def)
    show ?thesis
    proof (cases "current_block_ref (rd_block io)")
      case (Inl e)
      with b have "refresh_round ls io ?g batch st1 = (Continued st', report)" by (simp add: block_round_def)
      from refresh_round_ok [OF _ _ this] assms(1,2) show ?thesis by (simp add: keep keep_reorg)
    next
      case (Inr blk)
      note b = b [unfolded block_round_def Inr sum.case]
      show ?thesis
      proof (cases "update_chain (lp_reorg st1) blk")
        case SelfDeadlock
        with b show ?thesis by simp
      next
        case (Returned d x)
        note b = b [unfolded Returned outcome.case]
        show ?thesis
        proof (cases x)
          case (Inl e)
          with b show ?thesis by simp
        next
          case (Inr ev)
          show ?thesis
          proof (cases ev)
            case None
            with b Inr have "refresh_round ls io ?g batch (st1\<lparr>lp_reorg := d\<rparr>) = (Continued st', report)" by simp
            from refresh_round_ok [OF _ _ this] assms(1,2) show ?thesis by (simp add: keep keep_reorg)
          next
            case (Some e)
            obtain store resumed where h: "handle_reorg_event (ls_settings ls) gs_block_ref (lp_store st1) e = (store, resumed)" by (metis surj_pair)
            have "st' = st1\<lparr>lp_reorg := d, lp_store := store, lp_poll_from := resumed\<rparr> \<and> report = None"
              using b Inr Some h by simp
            with reorg_ok [OF _ h] assms(1,2) show ?thesis by (simp add: round_ok_def keep)
          qed
        qed
      qed
    qed
  qed
qed

lemma loop_start_ok:
  assumes "loop_start s g now m engine = Some st" and "built g"
  shows "store_ok (lp_store st) \<and> lp_engine st = engine"
  using assms store_ok_new by (auto simp: loop_start_def split: outcome.splits)

text \<open>What is kept from the first engine state on.\<close>

definition run_ok :: "'e loop_setting \<Rightarrow> engine_state \<Rightarrow> ('e refresh_io \<times> refresh_report) list \<Rightarrow> loop_state \<Rightarrow> bool" where
  "run_ok ls engine reports st \<longleftrightarrow>
     store_ok (lp_store st) \<and> configured (ls_settings ls) (eg_validator (lp_engine st)) \<and> all_ready ls reports \<and>
     map ex_nonce (all_sent reports) = nonces_from (next_nonce engine) (length (all_sent reports)) \<and>
     next_nonce (lp_engine st) = next_nonce engine + word_of_nat (length (all_sent reports)) \<and>
     (all_sent reports = [] \<longrightarrow> eg_account (lp_engine st) = eg_account engine) \<and>
     (ls_simulate_only ls \<longrightarrow> all_sent reports = [])"

lemma run_ok_round:
  assumes "run_ok ls engine reports st" and "round_ok ls io st report st'"
  shows "run_ok ls engine (reports @ collected io report) st'"
proof (cases report)
  case None
  with assms show ?thesis by (simp add: run_ok_def round_ok_def collected_def)
next
  case (Some rep)
  with assms show ?thesis by (simp add: run_ok_def round_ok_def nonces_from_append collected_def)
qed

lemma loop_run_ok:
  assumes "run_ok ls engine first st0" and "loop_run ls st0 reports st"
  shows "run_ok ls engine (first @ reports) st"
  using assms(2)
proof (induction rule: loop_run.induct)
  case loop_begin
  then show ?case using assms(1) by simp
next
  case (loop_quiet reports st io st')
  have "round_ok ls (rd_refresh io) st None st'"
    using loop_round_ok loop_quiet.hyps(2) loop_quiet.IH unfolding run_ok_def by blast
  from run_ok_round [OF loop_quiet.IH this] show ?case by (simp add: collected_def)
next
  case (loop_report reports st io st' rep)
  have "round_ok ls (rd_refresh io) st (Some rep) st'"
    using loop_round_ok loop_report.hyps(2) loop_report.IH unfolding run_ok_def by blast
  from run_ok_round [OF loop_report.IH this] show ?case by (simp add: collected_def)
qed

lemma nonces_from_distinct: "k \<le> 2 ^ 64 \<Longrightarrow> distinct (nonces_from n k)"
proof -
  assume k: "k \<le> 2 ^ 64"
  have "inj_on (\<lambda>i. n + word_of_nat i) {0..<k}"
  proof (rule inj_onI)
    fix i j assume ij: "i \<in> {0..<k}" "j \<in> {0..<k}" "n + (word_of_nat i :: u64) = n + word_of_nat j"
    then have "(word_of_nat i :: u64) = word_of_nat j" by simp
    moreover have "unat (word_of_nat i :: u64) = i" "unat (word_of_nat j :: u64) = j"
      using ij(1,2) k by (auto intro!: unat_word_of_nat_less)
    ultimately show "i = j" by metis
  qed
  then show ?thesis by (simp add: nonces_from_def distinct_map)
qed

lemma run_start_ok:
  assumes "run_start ls answer order io g m now = Some (st0, report)" and "built g"
  shows "\<exists>onchain engine. answer = Inr onchain \<and> next_nonce engine = onchain \<and> ac_risk (eg_account engine) = risk_manager_new (ls_settings ls) \<and>
    synced_nonces (ls_settings ls) answer = Inr (ac_nonces (eg_account engine)) \<and>
    run_ok ls engine (collected io report) st0"
proof -
  let ?s = "ls_settings ls"
  obtain nonces where n: "synced_nonces ?s answer = Inr nonces" using assms(1) by (auto simp: run_start_def Let_def split: sum.splits)
  define engine where "engine = \<lparr>eg_account = \<lparr>ac_nonces = nonces, ac_risk = risk_manager_new ?s\<rparr>, eg_validator = validator_new (ls_env ls) ?s\<rparr>"
  note body = assms(1) [unfolded run_start_def Let_def n sum.case, folded engine_def]
  obtain st where st: "loop_start ?s g now m engine = Some st" using body by (auto split: option.splits)
  obtain engine' where e: "start_refresh ls order io g engine = Some (engine', report)" and st0: "st0 = st\<lparr>lp_engine := engine'\<rparr>"
    using body by (auto simp: st split: option.splits)
  note start = loop_start_ok [OF st assms(2)]
  have conf: "configured ?s (eg_validator engine)" by (simp add: engine_def configured_new)
  have first: "run_ok ls engine [] st" using start conf by (simp add: run_ok_def nonces_from_def)
  have "round_ok ls io st report st0"
  proof (cases "env_bool (ls_env ls) ''SKIP_INITIAL_REFRESH'' False")
    case True
    with e st0 start conf show ?thesis by (simp add: start_refresh_def round_ok_def)
  next
    case False
    with e have "process_refresh (ls_libraries ls) ?s (ls_guard ls) (ls_simulate_only ls) io g
        (initial_edge_refs (ls_env ls) (sr_parse_addr (ri_surroundings io)) order g (recompute g)) engine = Some (engine', report)"
      by (simp add: start_refresh_def)
    from process_refresh_facts [OF conf this] start show ?thesis unfolding round_ok_def st0 by (cases report) auto
  qed
  from run_ok_round [OF first this] have "run_ok ls engine (collected io report) st0" by simp
  moreover obtain onchain where "answer = Inr onchain" "nm_next_nonce nonces = onchain" using synced_nonces_start [OF n] by blast
  ultimately show ?thesis using n by (intro exI [of _ onchain] exI [of _ engine]) (simp add: engine_def)
qed

text \<open>A run of the program: its start, then any number of rounds.\<close>

definition engine_run ::
  "'e loop_setting \<Rightarrow> 'x + u64 \<Rightarrow> graph_snapshot \<Rightarrow> ('e refresh_io \<times> refresh_report) list \<Rightarrow> loop_state \<Rightarrow> bool" where
  "engine_run ls answer g reports st \<longleftrightarrow>
     (\<exists>order io m now st0 first later. run_start ls answer order io g m now = Some (st0, first) \<and>
        loop_run ls st0 later st \<and> reports = collected io first @ later)"

text \<open>C1: the whole engine, from its start: the nonces synced with the node, the first refresh and any run of the main loop. Every
  plan ever sent was, by the very answers the outside gave while it was prepared, funded, profitable after fees and gas,
  priced below the ceiling and simulated successfully as the call it carries, and its tokens were healthy. The plans carry
  the consecutive nonces from the node's count on, so no two the same before the counter wraps; in simulation nothing is
  sent and the account stays as it began. Every snapshot kept was built from tokens and pools, and the current one is
  among the at most eight kept.\<close>

theorem engine_run_safe:
  assumes "built g" and "engine_run ls answer g reports st"
  shows "all_ready ls reports \<and>
    (\<exists>onchain. answer = Inr onchain \<and> map ex_nonce (all_sent reports) = nonces_from onchain (length (all_sent reports))) \<and>
    (length (all_sent reports) \<le> 2 ^ 64 \<longrightarrow> distinct (map ex_nonce (all_sent reports))) \<and>
    (ls_simulate_only ls \<longrightarrow> all_sent reports = [] \<and>
       synced_nonces (ls_settings ls) answer = Inr (ac_nonces (eg_account (lp_engine st))) \<and>
       ac_risk (eg_account (lp_engine st)) = risk_manager_new (ls_settings ls)) \<and>
    list_all built (gst_ring (lp_store st)) \<and> gst_current (lp_store st) \<in> set (gst_ring (lp_store st)) \<and>
    length (gst_ring (lp_store st)) \<le> 8"
proof -
  obtain order io m now st0 report later where s: "run_start ls answer order io g m now = Some (st0, report)"
    and run: "loop_run ls st0 later st" and r: "reports = collected io report @ later"
    using assms(2) unfolding engine_run_def by blast
  obtain onchain engine where answer: "answer = Inr onchain" "next_nonce engine = onchain"
      "ac_risk (eg_account engine) = risk_manager_new (ls_settings ls)"
      "synced_nonces (ls_settings ls) answer = Inr (ac_nonces (eg_account engine))"
    and first: "run_ok ls engine (collected io report) st0"
    using run_start_ok [OF s assms(1)] by blast
  from loop_run_ok [OF first run] answer show ?thesis
    unfolding r run_ok_def store_ok_def by (auto simp: nonces_from_distinct)
qed

section \<open>The block to poll from\<close>

lemma batch_result_block: "batch_result keccak g b logs = Inr (n, batch) \<Longrightarrow> n = b"
  by (auto simp: batch_result_def split: sum.splits)

lemma bind_batch_block: "res_bind r (batch_result keccak g b) = Inr (n, batch) \<Longrightarrow> n = b"
  by (auto simp: res_bind_Inr dest: batch_result_block)

lemma poll_moves_on:
  assumes "poll_once env c ws keccak hash clock sg g from_block s = (Inr (n, batch), s')"
  shows "from_block \<le> n"
proof -
  have hybrid: "from_block \<le> n"
    if "poll_wss_hybrid env c ws keccak hash clock sg g from_block a ts s = (Inr (n, batch), s')" for a ts
    using that by (auto simp: poll_wss_hybrid_def Let_def dest!: bind_batch_block split: sum.splits prod.splits if_splits)
  have pending: "from_block \<le> n"
    if "poll_pending_logs env keccak hash sg g from_block a ts s = (Inr (n, batch), s')" for a ts
    using that by (auto simp: poll_pending_logs_def Let_def dest!: batch_result_block split: sum.splits)
  show ?thesis
    using assms hybrid pending
    by (auto simp: poll_once_def Let_def dest!: bind_batch_block split: sum.splits prod.splits if_splits)
qed

lemma refresh_round_poll: "refresh_round ls io g batch st = (Continued st', report) \<Longrightarrow> lp_poll_from st' = lp_poll_from st"
  by (auto simp: refresh_round_def Let_def split: if_splits sum.splits prod.splits option.splits)

lemma resume_target_le:
  assumes "handle_reorg_event s block_of st ev = (st', n)"
  shows "n \<le> reorg_target ev"
proof -
  let ?n = "reorg_target ev"
  obtain r where r: "store_rollback_to_block block_of ?n st = (st', r)"
    and fb: "n = sat_sub (unwrap_or (map_option b_number (Option.bind r block_of)) ?n) (rk_event_backfill_blocks (st_risk s))"
    using assms by (auto simp: handle_reorg_resume resume_from_def split: prod.splits option.splits)
  show ?thesis unfolding fb by (rule gs.resume_at_or_below [OF r])
qed

text \<open>the block from which logs are read moves back in a round only when the detector reported a reorganisation, and then
  to a block at or before the one the event names.\<close>

theorem poll_back_only_on_reorg:
  assumes "loop_round ls io st = (Continued st', report)" and "lp_poll_from st' < lp_poll_from st"
  shows "\<exists>b d ev. current_block_ref (rd_block io) = Inr b \<and> update_chain (lp_reorg st) b = outcome.Returned d (Inr (Some ev)) \<and>
    lp_poll_from st' \<le> reorg_target ev \<and> report = None"
proof -
  let ?g = "store_load (lp_store st)"
  obtain answer stream where a: "poll_once (ls_env ls) (st_chain (ls_settings ls)) (rp_ws_url (st_rpc (ls_settings ls))) (ls_keccak ls)
      (ls_hash ls) (rd_clock io) (rd_events io) ?g (lp_poll_from st) (lp_stream st) = (answer, stream)" by (metis surj_pair)
  note body = assms(1) [unfolded loop_round_def Let_def a split]
  show ?thesis
  proof (cases answer)
    case (Inl e)
    with body have "lp_poll_from st' = lp_poll_from st" by (cases e) auto
    with assms(2) show ?thesis by simp
  next
    case (Inr r)
    obtain latest batch where r: "r = (latest, batch)" by (cases r)
    have le: "lp_poll_from st \<le> latest" using poll_moves_on a Inr r by blast
    define st1 where "st1 = st\<lparr>lp_stream := stream, lp_poll_from := latest\<rparr>"
    have keep: "lp_reorg st1 = lp_reorg st" "lp_poll_from st1 = latest" by (simp_all add: st1_def)
    have b: "block_round ls io ?g batch st1 = (Continued st', report)" using body Inr r by (simp add: st1_def)
    have stays: False if "refresh_round ls io ?g batch (st1\<lparr>lp_reorg := d\<rparr>) = (Continued st', report)" for d
      using refresh_round_poll [OF that] le assms(2) keep by simp
    have stays1: False if "refresh_round ls io ?g batch st1 = (Continued st', report)"
      using refresh_round_poll [OF that] le assms(2) keep by simp
    from b stays stays1 obtain blk d ev where blk: "current_block_ref (rd_block io) = Inr blk"
      and u: "update_chain (lp_reorg st) blk = outcome.Returned d (Inr (Some ev))"
      by (auto simp: block_round_def keep split: sum.splits outcome.splits option.splits)
    obtain store resumed where h: "handle_reorg_event (ls_settings ls) gs_block_ref (lp_store st1) ev = (store, resumed)" by (metis surj_pair)
    have "st' = st1\<lparr>lp_reorg := d, lp_store := store, lp_poll_from := resumed\<rparr> \<and> report = None"
      using b by (simp add: block_round_def blk keep u h)
    moreover have "resumed \<le> reorg_target ev" by (rule resume_target_le [OF h])
    ultimately show ?thesis using blk u by auto
  qed
qed

section \<open>Snapshot ids\<close>

text \<open>A refresh numbers its snapshot from the current one. After a rollback the current one is older than the newest in the
  ring, so the number may be taken: two different snapshots then share an id, and what is cached by id for the one is
  found for the other.\<close>

lemma refresh_numbers_from_current:
  assumes "refresh_round ls io g batch st = (Continued st', report)" and "lp_store st' \<noteq> lp_store st"
  shows "\<exists>g'. lp_store st' = publish g' (lp_store st) \<and> gs_snapshot_id g' = gs_snapshot_id g + 1"
proof -
  let ?specs = "collect_changed_specs g batch" and ?patches = "collect_patches batch"
  obtain answer m where a: "refresh_pools (ls_env ls) (ls_libm ls) (ls_settings ls) (rd_pools io) (gs_snapshot_id g) (gs_tokens g) (gs_pools g)
      ?specs ?patches (block_option (rd_block_later io)) (lp_discovery st) = (answer, m)" by (metis surj_pair)
  note body = assms(1) [unfolded refresh_round_def Let_def a split]
  obtain g' changed where v: "answer = Inr (g', changed)" and "lp_store st' = publish g' (lp_store st)"
    using body assms(2) by (cases answer) (auto split: if_splits option.splits)
  with refresh_pools_built [OF a [unfolded v]] show ?thesis by blast
qed

lemma republish_shares_id:
  assumes "refresh_round ls io (store_load (lp_store st)) batch st = (Continued st', report)" and "lp_store st' \<noteq> lp_store st"
    and "x \<in> set (gst_ring (lp_store st))" and "gs_snapshot_id x = gs_snapshot_id (gst_current (lp_store st)) + 1"
  shows "gs_snapshot_id (gst_current (lp_store st')) = gs_snapshot_id x"
  using refresh_numbers_from_current [OF assms(1,2)] assms(4) by (auto simp: store_load_def publish_def)

section \<open>A refresh that sends\<close>

definition open_risk :: risk_manager where
  "open_risk = \<lparr>rm_max_position_usd_e8 = - 1, rm_max_flash_loan_usd_e8 = - 1, rm_min_profit_usd_e8 = 0,
     rm_daily_loss_limit_usd_e8 = - 1, rm_max_concurrent_tx = 1, rm_open_tx_count = 0, rm_daily_pnl_usd_e8 = Map.empty\<rparr>"

definition sending_stage :: "string stage_net" where
  "sending_stage = \<lparr>sn_verify = \<lambda>_. Search_Error, sn_answers = ready_answers, sn_submit = demo_submit,
     sn_receipt = \<lambda>_. Inr R_Included, sn_clock = \<lambda>_. 0, sn_risk_times = (0, 0), sn_nonce_times = (0, 0)\<rparr>"

definition sending_io :: "string stage_net \<Rightarrow> string refresh_io" where
  "sending_io stage = \<lparr>ri_surroundings = net_surroundings,
     ri_routes = \<lambda>_. \<lparr>ro_answer = Search_Done (Some demo_plan) search_stats_default, ro_started = 0, ro_router_started = 0,
       ro_router_done = 0, ro_done = 0\<rparr>,
     ri_arrival = \<lambda>os. os, ri_stages = \<lambda>_. stage\<rparr>"

definition sending_engine :: "settings \<Rightarrow> engine_state" where
  "sending_engine s = \<lparr>eg_account = \<lparr>ac_nonces = with_replacement True, ac_risk = open_risk\<rparr>, eg_validator = ready_validator s\<rparr>"

lemma open_risk_passes: "10 \<le> xp_net_profit_usd_e8 p \<Longrightarrow> pre_trade_check open_risk now p = Inr ()"
  by (simp add: pre_trade_check_def open_risk_def daily_pnl_def not_less)

lemma ready_configured: "configured (ready_settings s) (ready_validator s)"
  by (simp add: configured_def ready_validator_def ready_settings_def)

lemma prepared_sends:
  assumes "rc_plan r = demo_plan"
    and p: "prepare_plan (\<lambda>_. None) li (sn_answers sg) g demo_plan (eg_validator st) = (Inr (Some ex), v')"
    and conf: "configured (ready_settings s) (eg_validator st)"
    and pass: "\<And>x now. is_i128 (xp_net_profit_usd_e8 x) \<Longrightarrow> 10 \<le> xp_net_profit_usd_e8 x \<Longrightarrow> pre_trade_check (ac_risk (eg_account st)) now x = Inr ()"
  shows "\<exists>st' res ex. process_routed_candidate (\<lambda>_. None) li g demo_guard False sg r st = (st', res, Some ex)"
proof -
  note facts = prepared_plan_facts [OF conf p]
  have "as_i128 (rk_min_net_profit_usd_e8 (st_risk (ready_settings s))) = 10" by (simp add: ready_settings_def as_i128_def)
  with facts have net_ok: "10 \<le> xp_net_profit_usd_e8 (ex_exact ex)" unfolding profitable_def by linarith
  have typed: "is_i128 (xp_net_profit_usd_e8 (ex_exact ex))" using facts unfolding profitable_def by (metis wrap_i128_is_i128)
  have hops: "hops_healthy demo_guard (xp_hops (ex_exact ex))"
    using facts by (simp add: hops_healthy_def demo_plan_def)
  have v: "verify_stage (\<lambda>_. None) sg r = Inr (demo_plan, rc_stats r, rc_router_ms r)"
    by (simp add: verify_stage_def assms should_verify_ranked_route_def env_bool_def demo_plan_def)
  have sent: "\<exists>x. so_sent (settle demo_guard False submit w a b c d (eg_account st) ex) = Some x"
    for a b c d and w :: "b256 \<Rightarrow> unit + receipt_outcome" and submit
    using hops pass [OF typed net_ok] by (simp add: settle_def Let_def reserve_def split: sum.split prod.split)
  then obtain x where x: "so_sent (settle demo_guard False (sn_submit sg) (sn_receipt sg) (fst (sn_risk_times sg))
      (snd (sn_risk_times sg)) (fst (sn_nonce_times sg)) (snd (sn_nonce_times sg)) (eg_account st) ex) = Some x" by blast
  show ?thesis
    unfolding process_routed_candidate_def v sum.case split p Let_def option.case x by blast
qed

text \<open>A refresh of one candidate that the search finds and the stage sends.\<close>

lemma one_candidate_sends:
  assumes "\<And>r. rc_plan r = demo_plan \<Longrightarrow> \<exists>st' res ex. process_routed_candidate (\<lambda>_. None) li g demo_guard False stage r st = (st', res, Some ex)"
  shows "\<exists>st' rep ex. process_candidates li s demo_guard False (sending_io stage) g [c] st = (st', rep) \<and> sent_plans (rr_steps rep) = [ex]"
proof -
  let ?env = "\<lambda>_. None :: string option" and ?k = "route_validation_top_k (\<lambda>_. None)"
  define r where "r = \<lparr>rc_candidate = c, rc_plan = demo_plan, rc_stats = search_stats_default, rc_router_ms = 0,
    rc_started = 0, rc_estimate = estimate_prerank_net_profit ?env g s demo_plan\<rparr>"
  have io: "sr_env (ri_surroundings (sending_io stage)) = ?env" "ri_stages (sending_io stage) = (\<lambda>_. stage)"
    by (simp_all add: sending_io_def net_surroundings_def)
  have ranked: "rank_routes ?env g s (routed_of (route_all (sending_io stage) [c])) = [r]"
    by (simp add: route_all_def sending_io_def route_candidate_def Let_def elapsed_ms_def routed_of_def List.map_filter_simps
      rank_routes_def r_def)
  obtain st1 res ex where step: "process_routed_candidate ?env li g demo_guard False stage r st = (st1, res, Some ex)"
    using assms [of r] by (auto simp: r_def)
  have limit: "route_verify_scan_limit ?env ?k (length [r]) = 1"
    using scan_limit_bounds [where env = ?env and k = ?k and n = "length [r]"] top_k_bounds [of ?env] by simp
  have "\<exists>st' rep. process_candidates li s demo_guard False (sending_io stage) g [c] st = (st', rep) \<and> sent_plans (rr_steps rep) = [ex]"
    by (simp add: process_candidates_def Let_def io ranked limit [simplified] step)
  then show ?thesis by blast
qed

theorem refresh_sends_ready_witness:
  "\<forall>s g al abi. \<exists>st' rep ex. process_candidates (ready_libraries al abi) (ready_settings s) demo_guard False (sending_io sending_stage)
      (g\<lparr>gs_tokens := priced_tokens\<rparr>) [demo_candidate []] (sending_engine s) = (st', rep) \<and>
    sent_plans (rr_steps rep) = [ex] \<and> profitable (ready_settings s) (ex_exact ex) \<and> ex_nonce ex = 0 \<and> next_nonce st' = 1"
proof (intro allI)
  fix s :: settings and g :: graph_snapshot and al :: alloy_text and abi :: l1_fee_abi
  let ?li = "ready_libraries al abi" and ?g = "g\<lparr>gs_tokens := priced_tokens\<rparr>" and ?io = "sending_io sending_stage"
  have sel: "sn_answers sending_stage = ready_answers" "eg_validator (sending_engine s) = ready_validator s"
    "ac_risk (eg_account (sending_engine s)) = open_risk" "next_nonce (sending_engine s) = 0"
    by (simp_all add: sending_stage_def sending_engine_def with_replacement_def)
  have conf: "configured (ready_settings s) (eg_validator (sending_engine s))"
    using ready_configured by (simp add: sel)
  obtain ex0 v' where prep: "prepare_plan (\<lambda>_. None) ?li (sn_answers sending_stage) ?g demo_plan (eg_validator (sending_engine s)) = (Inr (Some ex0), v')"
    using ready_prepared unfolding sel by blast
  have step: "\<exists>st' res ex. process_routed_candidate (\<lambda>_. None) ?li ?g demo_guard False sending_stage r (sending_engine s) = (st', res, Some ex)"
    if "rc_plan r = demo_plan" for r
    by (rule prepared_sends [OF that prep conf]) (simp add: sel open_risk_passes)
  obtain st' rep ex where p: "process_candidates ?li (ready_settings s) demo_guard False ?io ?g [demo_candidate []] (sending_engine s) = (st', rep)"
    and one: "sent_plans (rr_steps rep) = [ex]" using one_candidate_sends [OF step] by blast
  note ready = refresh_sends_ready [OF conf p]
  have "profitable (ready_settings s) (ex_exact ex)"
    using steps_ready_sent [of _ _ _ _ _ "rr_steps rep" ex] ready unfolding one ready_to_send_def by fastforce
  with ready p one sel(4)
  show "\<exists>st' rep ex. process_candidates ?li (ready_settings s) demo_guard False ?io ?g [demo_candidate []] (sending_engine s) = (st', rep) \<and>
    sent_plans (rr_steps rep) = [ex] \<and> profitable (ready_settings s) (ex_exact ex) \<and> ex_nonce ex = 0 \<and> next_nonce st' = 1"
    by (intro exI [of _ st'] exI [of _ rep] exI [of _ ex]) (simp add: nonces_from_def)
qed

theorem refresh_accounts_for_all_witness:
  "\<forall>s g al abi. \<exists>st' rep. process_candidates (ready_libraries al abi) (ready_settings s) demo_guard True (sending_io sending_stage) g
      [demo_candidate [], demo_candidate []] (sending_engine s) = (st', rep) \<and>
    verdict_total (rr_stats rep) + pr_route_rank_skipped (rr_stats rep) = 2"
proof (intro allI)
  fix s :: settings and g :: graph_snapshot and al :: alloy_text and abi :: l1_fee_abi
  obtain st' rep where p: "process_candidates (ready_libraries al abi) (ready_settings s) demo_guard True (sending_io sending_stage) g
      [demo_candidate [], demo_candidate []] (sending_engine s) = (st', rep)" by (metis surj_pair)
  have "mset (ri_arrival (sending_io sending_stage) os) = mset os" for os by (simp add: sending_io_def)
  from refresh_accounts_for_all [OF this p] p
  show "\<exists>st' rep. process_candidates (ready_libraries al abi) (ready_settings s) demo_guard True (sending_io sending_stage) g
      [demo_candidate [], demo_candidate []] (sending_engine s) = (st', rep) \<and>
    verdict_total (rr_stats rep) + pr_route_rank_skipped (rr_stats rep) = 2" by simp
qed

section \<open>Rounds of an empty graph\<close>

definition empty_graph :: "env \<Rightarrow> libm \<Rightarrow> graph_snapshot" where
  "empty_graph env lm = graph_build env lm 0 None [] []"

definition demo_loop :: "settings \<Rightarrow> env \<Rightarrow> libm \<Rightarrow> string libraries \<Rightarrow> string loop_setting" where
  "demo_loop s env lm li = \<lparr>ls_settings = s, ls_env = env, ls_libm = lm, ls_libraries = li, ls_guard = demo_guard,
     ls_simulate_only = True, ls_keccak = (\<lambda>_. 0), ls_hash = (\<lambda>_. 0)\<rparr>"

text \<open>Any surroundings, and a node at block 9 with hash 29.\<close>

definition at_block_9 :: "string round_io \<Rightarrow> string round_io" where
  "at_block_9 io = io\<lparr>rd_block := Inr (9, 29, 1)\<rparr>"

lemma empty_poll:
  "poll_once env c ws keccak hash clock sg (empty_graph env' lm) n s = (Inr (n, []), s)"
  by (simp add: poll_once_def Let_def watched_addresses_def empty_graph_def graph_build_def)

lemma empty_round:
  assumes "gst_current (lp_store st) = empty_graph env lm"
  shows "loop_round ls (at_block_9 io) st = block_round ls (at_block_9 io) (empty_graph env lm) [] st"
  using assms by (simp add: loop_round_def Let_def store_load_def empty_poll)

lemma block_9: "current_block_ref (rd_block (at_block_9 io)) = Inr (demo_block 9 29)"
  by (simp add: current_block_ref_def at_block_9_def res_bind_def demo_block_def)

text \<open>A run that trades: a new engine, 41 transactions of the operator on the chain, and the market in which the first refresh
  finds one candidate; then a round in which the node has no new logs and block 9 arrives.\<close>

definition trading_stage :: "string stage_net" where
  "trading_stage = sending_stage\<lparr>sn_answers := first_answers\<rparr>"

definition trading_loop :: "settings \<Rightarrow> alloy_text \<Rightarrow> l1_fee_abi \<Rightarrow> string loop_setting" where
  "trading_loop s al abi =
     (demo_loop (trading_settings s) (\<lambda>_. None) trading_libm (ready_libraries al abi))\<lparr>ls_simulate_only := False\<rparr>"

definition quiet_at_9 :: "string round_io \<Rightarrow> string round_io" where
  "quiet_at_9 io = (at_block_9 io)\<lparr>rd_events := (rd_events io)\<lparr>en_block_number := Inr 0\<rparr>\<rparr>"

lemma trading_loop_sel:
  "ls_settings (trading_loop s al abi) = trading_settings s" "ls_env (trading_loop s al abi) = (\<lambda>_. None)"
  "ls_libraries (trading_loop s al abi) = ready_libraries al abi" "ls_guard (trading_loop s al abi) = demo_guard"
  "\<not> ls_simulate_only (trading_loop s al abi)"
  by (simp_all add: trading_loop_def demo_loop_def)

lemma trading_risk_passes:
  "is_i128 (xp_net_profit_usd_e8 p) \<Longrightarrow> 10 \<le> xp_net_profit_usd_e8 p \<Longrightarrow> pre_trade_check (risk_manager_new (trading_settings s)) now p = Inr ()"
  by (simp add: pre_trade_check_def risk_manager_new_def ready_settings_def trading_base_def daily_pnl_def as_u128_less)

lemma trading_refresh_sends:
  assumes "ch \<in> {[ref_there, ref_back], [ref_back, ref_there]}" and "ac_risk (eg_account st) = risk_manager_new (trading_settings s)"
    and "eg_validator st = validator_new (\<lambda>_. None) (trading_settings s)"
  shows "\<exists>st' rep ex. process_refresh (ready_libraries al abi) (trading_settings s) demo_guard False (sending_io trading_stage) trading_graph
      ch st = Some (st', Some rep) \<and> sent_plans (rr_steps rep) = [ex]"
proof -
  let ?li = "ready_libraries al abi" and ?g = trading_graph and ?S = "trading_settings s"
  have conf: "configured ?S (eg_validator st)" unfolding assms(3) by (rule configured_new)
  have g: "?g\<lparr>gs_tokens := priced_tokens\<rparr> = ?g" using trading_graph_sel(4) by (metis graph_snapshot.surjective graph_snapshot.update_convs(3) graph_snapshot.select_convs(3))
  have "rk_gas_risk_buffer_pct (st_risk (trading_base s)) = f_zero" by (simp add: trading_base_def)
  then obtain ex0 v' where prep: "prepare_plan (\<lambda>_. None) ?li (sn_answers trading_stage) ?g demo_plan (eg_validator st) = (Inr (Some ex0), v')"
    using first_prepared [of "trading_base s" al abi ?g] unfolding g assms(3) by (auto simp: trading_stage_def)
  have step: "\<exists>st' res ex. process_routed_candidate (\<lambda>_. None) ?li ?g demo_guard False trading_stage r st = (st', res, Some ex)"
    if "rc_plan r = demo_plan" for r
    by (rule prepared_sends [OF that prep conf]) (simp add: assms(2) trading_risk_passes)
  obtain c where "detect net_surroundings ?S ?g ch (recompute ?g) = Some [c]" using trading_detected [OF assms(1)] by blast
  moreover obtain st' rep ex where "process_candidates ?li ?S demo_guard False (sending_io trading_stage) ?g [c] st = (st', rep)"
      "sent_plans (rr_steps rep) = [ex]" using one_candidate_sends [OF step] by blast
  moreover have "ri_surroundings (sending_io trading_stage) = net_surroundings" "stable_routes_allowed demo_guard" "ch \<noteq> []"
    using assms(1) by (auto simp: sending_io_def stable_routes_allowed_def demo_guard_def)
  ultimately show ?thesis by (simp add: process_refresh_def net_sel env_bool_def)
qed

lemma trading_start:
  "\<exists>st rep ex. run_start (trading_loop s al abi) (Inr 41 :: unit + u64) (\<lambda>xs. xs) (sending_io trading_stage) trading_graph m now = Some (st, Some rep) \<and>
     sent_plans (rr_steps rep) = [ex] \<and> gst_current (lp_store st) = trading_graph \<and> lp_reorg st = reorg_new \<and> lp_poll_from st = 0"
proof -
  let ?S = "trading_settings s" and ?ls = "trading_loop s al abi" and ?g = trading_graph
  define engine where "engine = \<lparr>eg_account = \<lparr>ac_nonces = ac_nonces (synced_account ?S), ac_risk = risk_manager_new ?S\<rparr>,
    eg_validator = validator_new (\<lambda>_. None) ?S\<rparr>"
  have sync: "synced_nonces ?S (Inr 41 :: unit + u64) = Inr (ac_nonces (synced_account ?S))"
    by (simp add: synced_nonces_def nonce_sync_def synced_account_def with_replacement_def)
  let ?refs = "initial_edge_refs (\<lambda>_. None) (sr_parse_addr (ri_surroundings (sending_io trading_stage))) (\<lambda>xs. xs) ?g (recompute ?g)"
  have "\<exists>engine' rep ex. process_refresh (ready_libraries al abi) ?S demo_guard False (sending_io trading_stage) ?g ?refs engine =
      Some (engine', Some rep) \<and> sent_plans (rr_steps rep) = [ex]"
    by (rule trading_refresh_sends [OF trading_initial]) (simp_all add: engine_def)
  then obtain engine' rep ex where r: "process_refresh (ready_libraries al abi) ?S demo_guard False (sending_io trading_stage) ?g ?refs engine =
      Some (engine', Some rep)" and one: "sent_plans (rr_steps rep) = [ex]" by blast
  have "start_refresh ?ls (\<lambda>xs. xs) (sending_io trading_stage) ?g engine = Some (engine', Some rep)"
    using r by (simp add: start_refresh_def trading_loop_sel env_bool_def)
  moreover obtain st where "loop_start ?S ?g now m engine = Some st" "gst_current (lp_store st) = ?g" "lp_reorg st = reorg_new" "lp_poll_from st = 0"
    by (simp add: loop_start_def trading_graph_sel graph_store_new_def initial_poll_from_def)
  ultimately have "run_start ?ls (Inr 41 :: unit + u64) (\<lambda>xs. xs) (sending_io trading_stage) ?g m now = Some (st\<lparr>lp_engine := engine'\<rparr>, Some rep)"
    by (simp add: run_start_def Let_def trading_loop_sel sync engine_def)
  with one \<open>gst_current (lp_store st) = ?g\<close> \<open>lp_reorg st = reorg_new\<close> \<open>lp_poll_from st = 0\<close> show ?thesis by auto
qed

theorem engine_run_safe_witness:
  "\<forall>s al abi io now m. \<exists>st0 rep st ex.
     run_start (trading_loop s al abi) (Inr 41 :: unit + u64) (\<lambda>xs. xs) (sending_io trading_stage) trading_graph m now = Some (st0, Some rep) \<and>
     loop_round (trading_loop s al abi) (quiet_at_9 io) st0 = (Continued st, None) \<and> rd_chain (lp_reorg st) = [entry_of_block (demo_block 9 29)] \<and>
     sent_plans (rr_steps rep) = [ex] \<and> ex_nonce ex = 41 \<and> simulated (ready_libraries al abi) first_answers (trading_settings s) ex \<and>
     profitable (trading_settings s) (ex_exact ex) \<and> length (gst_ring (lp_store st)) \<le> 8"
proof (intro allI)
  fix s :: settings and al :: alloy_text and abi :: l1_fee_abi and io :: "string round_io" and now :: instant and m :: discovery_manager
  let ?ls = "trading_loop s al abi" and ?g = trading_graph and ?io = "sending_io trading_stage"
  obtain st0 rep ex where start: "run_start ?ls (Inr 41 :: unit + u64) (\<lambda>xs. xs) ?io ?g m now = Some (st0, Some rep)"
    and one: "sent_plans (rr_steps rep) = [ex]" and st0: "gst_current (lp_store st0) = ?g" "lp_reorg st0 = reorg_new" "lp_poll_from st0 = 0"
    using trading_start by blast
  have "to_ascii_lowercase ''address_logs'' = ''address_logs''" by code_simp
  then have mode: "event_ingest_mode_of (\<lambda>_. None) = AddressLogs" by (simp add: event_ingest_mode_of_def env_lower_def Let_def)
  have poll: "poll_once (ls_env ?ls) (st_chain (ls_settings ?ls)) (rp_ws_url (st_rpc (ls_settings ?ls))) (ls_keccak ?ls) (ls_hash ?ls)
      (rd_clock (quiet_at_9 io)) (rd_events (quiet_at_9 io)) ?g 0 x = (Inr (0, []), x)" for x
    by (simp add: poll_once_def Let_def trading_loop_sel quiet_at_9_def mode)
  have blk: "current_block_ref (rd_block (quiet_at_9 io)) = Inr (demo_block 9 29)"
    using block_9 by (simp add: quiet_at_9_def)
  define st where "st = st0\<lparr>lp_reorg := append_block (entry_of_block (demo_block 9 29)) reorg_new\<rparr>"
  have u: "update_chain reorg_new (demo_block 9 29) =
      outcome.Returned (append_block (entry_of_block (demo_block 9 29)) reorg_new) (Inr None)"
    by (simp add: update_chain_def update_chain_defs reorg_new_def)
  have same: "st0\<lparr>lp_stream := lp_stream st0, lp_poll_from := 0\<rparr> = st0" using st0(3) by simp
  have round: "loop_round ?ls (quiet_at_9 io) st0 = (Continued st, None)"
    by (simp add: loop_round_def Let_def store_load_def st0 poll block_round_def blk u refresh_round_def st_def)
  have chain: "rd_chain (lp_reorg st) = [entry_of_block (demo_block 9 29)]"
    by (simp add: st_def append_block_def push_tip_def prune_old.simps reorg_new_def max_block_history_def)
  have run: "engine_run ?ls (Inr 41 :: unit + u64) ?g [(?io, rep)] st"
    unfolding engine_run_def collected_def using start loop_quiet [OF loop_begin round] by fastforce
  have "built ?g" unfolding built_def trading_graph_def by blast
  note safe = engine_run_safe [OF this run]
  have sent: "all_sent [(?io, rep)] = [ex]" by (simp add: all_sent_def one)
  have "steps_ready (ready_libraries al abi) (trading_settings s) demo_guard (ri_stages ?io) 0 (rr_steps rep)"
    using safe by (simp add: all_ready_def trading_loop_sel)
  then have "\<exists>j. ready_to_send (ready_libraries al abi) (sn_answers (ri_stages ?io j)) (trading_settings s) demo_guard ex"
    by (rule steps_ready_sent) (simp add: one)
  then have "simulated (ready_libraries al abi) first_answers (trading_settings s) ex" "profitable (trading_settings s) (ex_exact ex)"
    by (auto simp: ready_to_send_def sending_io_def trading_stage_def)
  moreover have "ex_nonce ex = 41" "length (gst_ring (lp_store st)) \<le> 8"
    using safe unfolding sent by (auto simp: nonces_from_def)
  ultimately show "\<exists>st0 rep st ex. run_start ?ls (Inr 41 :: unit + u64) (\<lambda>xs. xs) ?io ?g m now = Some (st0, Some rep) \<and>
     loop_round ?ls (quiet_at_9 io) st0 = (Continued st, None) \<and> rd_chain (lp_reorg st) = [entry_of_block (demo_block 9 29)] \<and>
     sent_plans (rr_steps rep) = [ex] \<and> ex_nonce ex = 41 \<and> simulated (ready_libraries al abi) first_answers (trading_settings s) ex \<and>
     profitable (trading_settings s) (ex_exact ex) \<and> length (gst_ring (lp_store st)) \<le> 8"
    using start round chain one by blast
qed

text \<open>A loop that polls from block 20 and whose tip, block 9, was replaced.\<close>

definition replaced_tip :: "graph_snapshot \<Rightarrow> instant \<Rightarrow> discovery_manager \<Rightarrow> engine_state \<Rightarrow> loop_state" where
  "replaced_tip g now m engine =
     \<lparr>lp_store = graph_store_new g 8, lp_reorg = append_block (entry_of_block (demo_block 9 19)) reorg_new, lp_poll_from = 20,
      lp_stream = event_stream_new now, lp_discovery = m, lp_engine = engine\<rparr>"

theorem poll_back_only_on_reorg_witness:
  "\<forall>s env lm li io now m engine. \<exists>st'. loop_round (demo_loop s env lm li) (at_block_9 io) (replaced_tip (empty_graph env lm) now m engine) =
      (Continued st', None) \<and> lp_poll_from st' \<le> 9"
proof (intro allI)
  fix s :: settings and env :: env and lm :: libm and li :: "string libraries" and io :: "string round_io" and now :: instant
    and m :: discovery_manager and engine :: engine_state
  let ?ls = "demo_loop s env lm li" and ?g = "empty_graph env lm" and ?st = "replaced_tip (empty_graph env lm) now m engine"
  have chain: "rd_chain (lp_reorg ?st) = [] @ [entry_of_block (demo_block 9 19)]"
    by (simp add: replaced_tip_def append_block_def push_tip_def prune_old.simps reorg_new_def max_block_history_def)
  obtain d where u: "update_chain (lp_reorg ?st) (demo_block 9 29) = outcome.Returned d (Inr (Some (Rollback 9 9)))"
    using chain by (simp add: update_chain_def update_chain_defs demo_block_def)
  have cur: "gst_current (lp_store ?st) = ?g" by (simp add: replaced_tip_def graph_store_new_def)
  obtain store n where h: "handle_reorg_event (ls_settings ?ls) gs_block_ref (lp_store ?st) (Rollback 9 9) = (store, n)" by (metis surj_pair)
  have le: "n \<le> 9" using resume_target_le [OF h] by simp
  define st' where "st' = ?st\<lparr>lp_reorg := d, lp_store := store, lp_poll_from := n\<rparr>"
  have r: "loop_round ?ls (at_block_9 io) ?st = (Continued st', None)"
    unfolding empty_round [OF cur] block_round_def block_9 sum.case u outcome.case option.case h split st'_def ..
  have "lp_poll_from st' = n" "lp_poll_from ?st = 20" by (simp_all add: st'_def replaced_tip_def)
  moreover have "n < 20" using le by (rule le_less_trans) simp
  ultimately have "lp_poll_from st' < lp_poll_from ?st" by simp
  from poll_back_only_on_reorg [OF r this] r block_9 u
  show "\<exists>st'. loop_round ?ls (at_block_9 io) ?st = (Continued st', None) \<and> lp_poll_from st' \<le> 9" by fastforce
qed

end
