(* ===== verification/Spec2Isabelle.thy ===== *)
theory Spec2Isabelle
  imports Valuation Reorg Amm Config Settlement Distance_Cache Graph_Store Rpc_Client Scheduler Router Quoter Detector Validator Cache_File Factory_Scan Submission Engine
begin

text \<open>
  A verification development for the DEX arbitrage bot: a Rust program that watches the pools of a chain, looks for
  cycles of swaps that return more than they cost, and executes them through the contract
  \<open>contracts/ArbitrageExecutor.sol\<close>. Every definition is a translation of the code it stands for; file names below are
  those of the crate's \<open>src\<close> directory unless they say otherwise.

  \<^bold>\<open>How the program works.\<close> At the start, \<open>Settings::load\<close> reads the configuration and \<open>DiscoveryManager::bootstrap\<close>
  turns tokens and pools into a \<open>GraphSnapshot\<close>, a graph of tokens whose edges are the pools. The main loop \<open>run_chain\<close>
  then goes round. It polls the event stream, applies the patches of the decoded logs or fetches the pools
  again, and publishes the next snapshot in the \<open>GraphStore\<close>, a ring of recent ones. The reorganisation detector checks
  each new block; a reorganisation puts an older snapshot back. On a new snapshot the detector lists the candidate cycles
  through the changed edges; the router finds amounts and splits for each, priced by the quoter (local
  formulas, or calls of the chain's quoters behind caches); the validator chooses the capital, prices the gas, checks the
  profit, builds the call of the executor contract and simulates it. A plan that passed meets the depeg guard
  and the risk limits, gets a nonce, is submitted, and its outcome is booked. All questions to
  the node pass through the RPC client with its budgets, circuit breakers and fallbacks.

  \<^bold>\<open>Which theory models what.\<close>

  \<^item> \<open>Arb_Prelude\<close>: Rust's integers (\<open>u8\<close> to \<open>U256\<close> as words, the signed ones as \<open>int\<close> with their range), saturating and
    checked operations, results as sums, comparison sorts, the locales \<open>total_preorder\<close> and \<open>memo_table\<close> and the
    collections the proofs share. \<open>F64\<close>: binary64 with rounding to nearest even. \<open>Env\<close>: strings and the
    process environment, a partial function from names to values. \<open>Bytes\<close>: big-endian numbers.
  \<^item> \<open>Arb_Types\<close> (\<open>types.rs\<close>), \<open>Config\<close> (\<open>config.rs\<close>), \<open>Valuation\<close> (\<open>risk/valuation.rs\<close>).
  \<^item> \<open>Amm\<close> (\<open>amm/*.rs\<close>): quotes, spot rates and the stable-swap solver of the six kinds of pool.
  \<^item> \<open>Graph_Model\<close> (\<open>graph/model.rs\<close>, \<open>graph/updater.rs\<close>), \<open>Distance_Cache\<close> (\<open>graph/distance_cache.rs\<close>), \<open>Graph_Store\<close>
    (\<open>graph/snapshot.rs\<close> and \<open>handle_reorg_event\<close> of \<open>engine.rs\<close>), \<open>Reorg\<close> (\<open>reorg/mod.rs\<close>).
  \<^item> \<open>Rpc_Client\<close> (\<open>rpc/mod.rs\<close>), \<open>Scheduler\<close> (\<open>rpc/scheduler.rs\<close>).
  \<^item> \<open>Event_Decode\<close>, \<open>Event_Scan\<close>, \<open>Event_Poll\<close> (\<open>discovery/event_stream.rs\<close>): the decoders and the batch of triggers, the
    scans of a block range, the stream with its websocket channel and its modes of polling.
  \<^item> \<open>Token_Discovery\<close>, \<open>Pool_Refresh\<close> (\<open>discovery/mod.rs\<close>, \<open>discovery/admission.rs\<close>), \<open>Factory_Scan\<close>
    (\<open>discovery/factory_scanner.rs\<close>, \<open>discovery/multicall.rs\<close>), \<open>Cache_File\<close> (\<open>cache/mod.rs\<close>).
  \<^item> \<open>Path_Search\<close>, \<open>Candidates\<close>, \<open>Detector\<close> (\<open>detector/*.rs\<close>): the bounded search, the candidates and their selection, and
    \<open>find_candidates\<close> that joins them.
  \<^item> \<open>Sizing\<close> (\<open>router/quantity_search.rs\<close>, \<open>v3_limits.rs\<close>, \<open>fast_sizer.rs\<close>, \<open>v2_split.rs\<close>), \<open>Splits\<close>
    (\<open>router/split_optimizer.rs\<close>, \<open>split_decision.rs\<close>), \<open>Quoter\<close> (\<open>router/exact_quoter.rs\<close>), \<open>Router\<close> (\<open>router/mod.rs\<close>).
  \<^item> \<open>Risk_Limits\<close> (\<open>risk/limits.rs\<close>, \<open>risk/depeg_guard.rs\<close>), \<open>Gas_Tracker\<close> (\<open>risk/gas_tracker.rs\<close>), \<open>Capital\<close>
    (\<open>execution/capital_selector.rs\<close>, \<open>flash_loan.rs\<close>), \<open>Tx_Builder\<close> (\<open>execution/tx_builder.rs\<close> and, of the
    contract, the decoders, the V2 quote, \<open>_execute\<close>, the six adapters and the callback of V3), \<open>Failure_Cache\<close>, \<open>Simulation\<close>, \<open>Validator\<close>
    (\<open>execution/validator.rs\<close>), \<open>Nonce\<close> (\<open>execution/nonce_manager.rs\<close>), \<open>Submission\<close> (\<open>execution/submitter.rs\<close>).
  \<^item> \<open>Settlement\<close>, \<open>Engine_Rank\<close>, \<open>Engine\<close> (\<open>engine.rs\<close>): what happens to a validated plan, what a refresh works on and in
    which order, a whole refresh, the start of \<open>run_chain\<close> and the main loop. \<open>Market\<close> holds no code: it is a small graph on
    which the detection of a candidate is evaluated, for the witness of the whole run.

  \<^bold>\<open>How state and effects correspond.\<close> A struct is a record with its fields under a prefix, an enum is a datatype, a
  \<open>Result\<close> is a sum whose left is the error, an \<open>Option\<close> an option. A method with \<open>&mut self\<close> or a lock inside takes the
  record and returns it updated. The mutexes of the reorganisation detector and the nonce manager are explicit:
  an operation carries the locks its caller holds, and taking one again is the outcome \<open>SelfDeadlock\<close>. A panic
  (an index out of range, \<open>clamp\<close> with a low end over its high end) is a value too. What the code asks
  the outside (the clock, the node, the file system, the signer, parsers of the text formats, the ABI encoding, the
  order of a hash map, the end of a concurrent task) is an argument, one answer for each place
  that asks; the theorems hold for every such answer unless they name a law of it. \<open>ln\<close>, \<open>powf\<close> and \<open>powi\<close> are the record
  \<open>libm\<close>.

  \<^bold>\<open>What the theorems show.\<close>

  \<^item> \<^emph>\<open>Nothing unsafe is sent.\<close> \<open>Engine\<close> puts the layers together: from the sync of the nonces through the first refresh and
    any run of the main loop, each transaction belongs to a plan that was funded, profitable after fees and gas, priced
    and simulated by the very answers its preparation got, and passed the guards; nonces count on from the node's and
    do not repeat, and a simulated run sends nothing. \<open>Validator\<close>, \<open>Settlement\<close>, \<open>Capital\<close> and \<open>Submission\<close> give the
    guarantees of each layer: the capital fits the balance that was read, \<open>Settlement\<close> starts from the synced nonces and
    bounds a day's loss, and the wait for a receipt ends by its timeout and at most a pause, a lateness and a request
    more. \<open>Tx_Builder\<close>: the contract reads back what the bot encodes, and a hop hands all it holds to its swaps; what a
    pool takes of that is the pool's.
  \<^item> \<^emph>\<open>What is found is right, and nothing is missed that should be found.\<close> \<open>Path_Search\<close>, \<open>Candidates\<close> and \<open>Detector\<close>:
    candidates are simple profitable-looking cycles through an anchor, and without binding limits the search is exhaustive.
    \<open>Router\<close>: plans hang together, make a profit and carry no unverified price; a search fails only when pricing does.
    \<open>Amm\<close>, \<open>Sizing\<close>, \<open>Splits\<close>, \<open>Quoter\<close>: bounds of quotes, exactness without overflow, splits within capacity,
    caches within their limits.
  \<^item> \<^emph>\<open>The picture of the chain is kept.\<close> \<open>Event_Scan\<close> and \<open>Event_Poll\<close>: a range is read exactly; a successful
    hybrid poll hands on only watched logs, one for every new key that was delivered or lies in the reconciled range. \<open>Event_Decode\<close> and \<open>Pool_Refresh\<close>: what a batch does to the pools: each is fetched and admitted,
    unchanged, or patched in its parameters with its stale flag cleared. \<open>Graph_Model\<close>,
    \<open>Distance_Cache\<close>: edges are those of the pools, marks are reachability. \<open>Graph_Store\<close> and \<open>Failure_Cache\<close>
    refine a log, of which the ring or the table is a view. \<open>Reorg\<close>: the invariant of the window in every reachable
    state. \<open>Cache_File\<close>: round trips, and a process that stops between or within the steps of a write leaves the old file
    until the rename; a power failure is another matter, as nothing is synchronised. \<open>Factory_Scan\<close>: over any number
    of runs that resume from the cache file, a completed scan has exactly the pools the contracts list or announce,
    except those whose entry failed in an aggregate of calls.
  \<^item> \<^emph>\<open>Where the code falls short of its intent\<close> a theorem says exactly when: the chains on which \<open>update_chain\<close> locks a mutex
    it holds, the logs of a batch that are dropped, the orphaned snapshot that is restored, the budget
    that never suffices.

  \<^bold>\<open>Interfaces.\<close> What a client relies on is a locale, interpreted on the model in the theory of its provider:
  \<open>total_preorder\<close> (an \<open>Ordering\<close> used by a sort), \<open>memo_table\<close> (a cache), \<open>bounded_quote\<close> (a quote below the reserve),
  \<open>indexed_graph\<close> with its reverse (the graph under a search), \<open>block_store\<close> (the store under a rollback), \<open>amount_quoter\<close>,
  \<open>repeatable_quoter\<close> and \<open>answering_quoter\<close> (the pricing under the search for an amount, with three
  providers each for soundness and for verified prices).

  \<^bold>\<open>Loops and bounds.\<close> There is no fuel. A bounded loop is a recursion with a termination proof (the scans by the blocks
  left, then by the retries; the stable solver by its 255 rounds; the searches by depth and work list). The
  three loops that may wait forever (\<open>acquire_rpc_budget\<close>, \<open>tk_acquire\<close>, the wait for a receipt) are partial
  functions to an option, and when they return is a theorem. The main loop is the inductive relation \<open>loop_run\<close> after \<open>run_start\<close>, so
  its invariants hold after any number of rounds. Constants are those of the code: eight snapshots, the
  reorganisation window, the retry counts and limits of the environment with their clamps.

  \<^bold>\<open>Not modelled.\<close> \<open>discovery/pool_fetcher.rs\<close> reads the states of pools through generated contract bindings; its results are
  arguments of the bootstrap and the refresh. \<open>abi.rs\<close> is generated by a macro. \<open>monitoring\<close>, log lines and counters are written and never read back.
  \<open>main.rs\<close>, \<open>lib.rs\<close> and \<open>examples\<close> are entry points. \<open>process_candidate\<close> of \<open>engine.rs\<close> is an unused twin of the modelled
  path. The tokens, pools and the vault the executor contract calls are an argument of its model; its administration by the
  owner and its entry points around \<open>_execute\<close>, the other contracts, the scripts and the documents are outside it.
\<close>

end
